(* ===== verification/Prelude.thy ===== *)
theory Prelude
  imports Main "HOL-Library.Word" "HOL-Library.Monad_Syntax"
begin

text \<open>
  Shared vocabulary of the development: octets, the machine integers of the sources, the
  network byte order every multi-octet AMQP field is written in, and the named collections
  that the component theories fill.

  \<^item> \<open>codec\<close>: round-trip equations of the form \<open>decode (encode x @ rest) = Some (x, rest)\<close>;
  \<^item> \<open>size\<close>: equations of the form \<open>length (encode x) = n\<close>;
  \<^item> \<open>consume\<close>: facts that a successful decoder leaves a shorter input;
  \<^item> \<open>decode_defs\<close>: the definitions that a method's decoder unfolds to.
\<close>

unbundle bit_operations_syntax

named_theorems codec
named_theorems wire_size
named_theorems consume
named_theorems decode_defs

type_synonym u8 = "8 word"
type_synonym u16 = "16 word"
type_synonym u32 = "32 word"
type_synonym u64 = "64 word"
type_synonym bytes = "u8 list"

text \<open>\<open>bsl::string\<close> is a sequence of octets; a literal of the sources is read octet by octet.\<close>

definition bstr :: "string \<Rightarrow> bytes" where
  "bstr s = map (\<lambda>c. of_nat (of_char c)) s"

section \<open>Big-endian integers\<close>

text \<open>
  \<open>bdlb::BigEndianUint16/32/64\<close> hold an integer in network byte order: most significant octet
  first. \<open>be_enc k w\<close> is the \<open>k\<close>-octet representation of \<open>w\<close>, \<open>be_dec\<close> reads one back.
  The signed variants have the same representation (two's complement).
\<close>

primrec be_enc :: "nat \<Rightarrow> 'a::len word \<Rightarrow> bytes" where
  "be_enc 0 w = []"
| "be_enc (Suc k) w = ucast (drop_bit (8 * k) w) # be_enc k w"

definition be_dec :: "bytes \<Rightarrow> 'a::len word" where
  "be_dec bs = foldl (\<lambda>acc b. push_bit 8 acc OR ucast b) 0 bs"

lemma length_be_enc [simp]: "length (be_enc k w) = k"
  by (induction k) auto

lemma be_enc_eq_Nil [simp]: "be_enc k w = [] \<longleftrightarrow> k = 0"
  by (cases k) auto

lemma push_or_take_bit:
  fixes w :: "'a::len word"
  shows "push_bit 8 (drop_bit (8 * Suc k) w) OR ucast (ucast (drop_bit (8 * k) w) :: u8)
       = drop_bit (8 * k) w"
proof (rule bit_word_eqI)
  fix n assume "n < LENGTH('a)"
  show "bit (push_bit 8 (drop_bit (8 * Suc k) w) OR ucast (ucast (drop_bit (8 * k) w) :: u8)) n
      = bit (drop_bit (8 * k) w) n"
    using \<open>n < LENGTH('a)\<close>
    by (cases "n < 8") (auto simp: bit_simps algebra_simps)
qed

lemma be_dec_enc_aux:
  fixes w :: "'a::len word"
  shows "foldl (\<lambda>acc b. push_bit 8 acc OR ucast b) (drop_bit (8 * k) w) (be_enc k w) = w"
proof (induction k)
  case 0
  then show ?case by simp
next
  case (Suc k)
  then show ?case
    by (simp only: be_enc.simps foldl.simps push_or_take_bit)
qed

lemma be_dec_enc [simp, codec]:
  fixes w :: "'a::len word"
  assumes "LENGTH('a) \<le> 8 * k"
  shows "be_dec (be_enc k w) = w"
proof -
  have "drop_bit (8 * k) w = 0"
    using assms by (intro bit_word_eqI) (auto simp: bit_simps dest: bit_imp_le_length)
  then show ?thesis
    using be_dec_enc_aux [of k w] by (simp add: be_dec_def)
qed

section \<open>Timers\<close>

text \<open>\<open>rmqio::Timer::InterruptReason\<close>: why a timer calls back.\<close>

datatype interrupt_reason = CANCEL | EXPIRE

section \<open>Constants of AMQP\<close>

text \<open>\<open>rmqamqpt::Constants\<close>: the reply codes, class ids and method ids that the engine names.\<close>

definition REPLY_SUCCESS :: u16 where "REPLY_SUCCESS = 200"

definition NO_CONSUMERS :: u16 where "NO_CONSUMERS = 313"

definition NOT_FOUND :: u16 where "NOT_FOUND = 404"

definition CHANNEL_ERROR :: u16 where "CHANNEL_ERROR = 504"

definition UNEXPECTED_FRAME :: u16 where "UNEXPECTED_FRAME = 505"

definition NOT_ALLOWED :: u16 where "NOT_ALLOWED = 530"

definition CLASS_CHANNEL :: u16 where "CLASS_CHANNEL = 20"

definition CHANNEL_OPENOK :: u16 where "CHANNEL_OPENOK = 11"

end
