(* ===== verification/Buffer.thy ===== *)
theory Buffer
  imports Prelude
begin

text \<open>
  The two byte cursors every codec of \<open>rmqamqpt\<close> is written against: \<open>rmqamqpt::Buffer\<close>, a
  bounds-checked read cursor over a memory range, and \<open>rmqamqpt::Writer\<close>, an append cursor over
  a growing vector.

  Both are modelled twice: as the records the classes are, and as the byte lists their clients
  observe (a \<open>Buffer\<close> is used through \<open>ptr()\<close> and \<open>available()\<close> only, so its state is the list of
  the bytes still to read; a \<open>Writer\<close> is used through \<open>write\<close> only, so a sequence of writes is
  the concatenation of what was written). The two locales below state the laws the codecs rely
  on and their interpretations show that the classes keep them.
\<close>

section \<open>Reading: rmqamqpt::Buffer\<close>

record buffer =
  d_data :: bytes
  d_offset :: nat

text \<open>\<open>d_length\<close> is the length of the range; the constructor starts at offset 0.\<close>

definition Buffer_new :: "bytes \<Rightarrow> buffer" where
  "Buffer_new data = \<lparr>d_data = data, d_offset = 0\<rparr>"

definition Buffer_available :: "buffer \<Rightarrow> nat" where
  "Buffer_available b = length (d_data b) - d_offset b"

text \<open>\<open>Buffer_rest b\<close> is the range \<open>[ptr(), ptr() + available())\<close>.\<close>

definition Buffer_rest :: "buffer \<Rightarrow> bytes" where
  "Buffer_rest b = drop (d_offset b) (d_data b)"

text \<open>\<open>skip\<close> asserts that it stays inside the range: \<open>None\<close> is the failed assertion.\<close>

definition Buffer_skip :: "nat \<Rightarrow> buffer \<Rightarrow> buffer option" where
  "Buffer_skip n b =
     (if d_offset b + n \<le> length (d_data b) then Some (b\<lparr>d_offset := d_offset b + n\<rparr>) else None)"

text \<open>\<open>copy\<close> of a type of \<open>n\<close> octets: \<open>None\<close> is the \<open>false\<close> return, which leaves the cursor alone.\<close>

definition Buffer_copy :: "nat \<Rightarrow> buffer \<Rightarrow> (bytes \<times> buffer) option" where
  "Buffer_copy n b =
     (if Buffer_available b < n then None
      else do { b' \<leftarrow> Buffer_skip n b; Some (take n (Buffer_rest b), b') })"

text \<open>\<open>consume\<close> splits off a sub-buffer, truncated to what is available.\<close>

definition Buffer_consume :: "nat \<Rightarrow> buffer \<Rightarrow> (buffer \<times> buffer) option" where
  "Buffer_consume n b =
     (let consumed = min n (Buffer_available b)
      in do { b' \<leftarrow> Buffer_skip consumed b;
              Some (Buffer_new (take consumed (Buffer_rest b)), b') })"

definition Buffer_inv :: "buffer \<Rightarrow> bool" where
  "Buffer_inv b \<longleftrightarrow> d_offset b \<le> length (d_data b)"

lemmas Buffer_defs = Buffer_new_def Buffer_available_def Buffer_rest_def Buffer_skip_def
  Buffer_copy_def Buffer_consume_def Buffer_inv_def

text \<open>
  The contract of a read cursor: \<open>rest\<close> is what is left to read, a copy of \<open>n\<close> octets fails
  exactly when fewer are left, otherwise it yields the first \<open>n\<close> and leaves the others.
\<close>

locale read_cursor =
  fixes new :: "bytes \<Rightarrow> 'c"
    and avail :: "'c \<Rightarrow> nat"
    and rest :: "'c \<Rightarrow> bytes"
    and copy :: "nat \<Rightarrow> 'c \<Rightarrow> (bytes \<times> 'c) option"
    and consume :: "nat \<Rightarrow> 'c \<Rightarrow> ('c \<times> 'c) option"
    and inv :: "'c \<Rightarrow> bool"
  assumes inv_new: "inv (new bs)"
    and rest_new: "rest (new bs) = bs"
    and avail_rest: "inv c \<Longrightarrow> avail c = length (rest c)"
    and copy_None: "inv c \<Longrightarrow> copy n c = None \<longleftrightarrow> length (rest c) < n"
    and copy_Some: "inv c \<Longrightarrow> copy n c = Some (v, c') \<Longrightarrow>
       inv c' \<and> v = take n (rest c) \<and> rest c' = drop n (rest c)"
    and consume_Some: "inv c \<Longrightarrow> \<exists>s c'. consume n c = Some (s, c') \<and> inv s \<and> inv c' \<and>
       rest s = take n (rest c) \<and> rest c' = drop n (rest c)"
begin

text \<open>No read invents or loses octets.\<close>

lemma copy_partition:
  assumes "inv c" and "copy n c = Some (v, c')"
  shows "rest c = v @ rest c' \<and> length v = n"
proof -
  have "\<not> length (rest c) < n"
    using assms copy_None [of c n] by force
  then show ?thesis
    using copy_Some [OF assms] by simp
qed

lemma copy_exact:
  assumes "inv c" and "rest c = v @ r" and "length v = n"
  shows "\<exists>c'. copy n c = Some (v, c') \<and> inv c' \<and> rest c' = r"
proof -
  obtain v' c' where "copy n c = Some (v', c')"
    using assms copy_None [of c n] by fastforce
  then show ?thesis
    using copy_Some [OF assms(1)] assms(2,3) by fastforce
qed

lemma consume_partition:
  assumes "inv c" and "consume n c = Some (s, c')"
  shows "rest c = rest s @ rest c' \<and> length (rest s) = min n (avail c)"
  using consume_Some [OF assms(1), of n] assms avail_rest by fastforce

end

interpretation rb: read_cursor Buffer_new Buffer_available Buffer_rest Buffer_copy Buffer_consume Buffer_inv
proof (unfold_locales, goal_cases)
  case (5 c n v c')
  then show ?case by (auto simp: Buffer_defs add.commute split: if_splits)
next
  case (6 c n)
  then show ?case by (auto simp: Buffer_defs Let_def min_def add.commute)
qed (auto simp: Buffer_defs)

text \<open>
  The observable cursor. Decoders are written over the bytes still to read; \<open>cp\<close> and \<open>split_off\<close>
  are \<open>copy\<close> and \<open>consume\<close> seen through \<open>Buffer_rest\<close>.
\<close>

definition cp :: "nat \<Rightarrow> bytes \<Rightarrow> (bytes \<times> bytes) option" where
  "cp n bs = (if length bs < n then None else Some (take n bs, drop n bs))"

definition split_off :: "nat \<Rightarrow> bytes \<Rightarrow> bytes \<times> bytes" where
  "split_off n bs = (let consumed = min n (length bs) in (take consumed bs, drop consumed bs))"

text \<open>\<open>copy<uint8_t>\<close>, \<open>copy<bdlb::BigEndianUint16>\<close> and so on.\<close>

definition copy_u8 :: "bytes \<Rightarrow> (u8 \<times> bytes) option" where
  "copy_u8 bs = (case bs of [] \<Rightarrow> None | b # r \<Rightarrow> Some (b, r))"

definition copy_u16 :: "bytes \<Rightarrow> (u16 \<times> bytes) option" where
  "copy_u16 bs = do { (v, r) \<leftarrow> cp 2 bs; Some (be_dec v, r) }"

definition copy_u32 :: "bytes \<Rightarrow> (u32 \<times> bytes) option" where
  "copy_u32 bs = do { (v, r) \<leftarrow> cp 4 bs; Some (be_dec v, r) }"

definition copy_u64 :: "bytes \<Rightarrow> (u64 \<times> bytes) option" where
  "copy_u64 bs = do { (v, r) \<leftarrow> cp 8 bs; Some (be_dec v, r) }"

lemma cp_append [simp]: "length v = n \<Longrightarrow> cp n (v @ r) = Some (v, r)"
  by (simp add: cp_def)

lemma cp_exact [simp]: "length v = n \<Longrightarrow> cp n v = Some (v, [])"
  by (simp add: cp_def)

lemma cp_SomeD: "cp n bs = Some (v, r) \<Longrightarrow> bs = v @ r \<and> length v = n"
  by (auto simp: cp_def split: if_splits)

lemma split_off_eq [simp]: "split_off n bs = (take n bs, drop n bs)"
  by (simp add: split_off_def min_def)

lemma copy_consume [consume]:
  "copy_u8 bs = Some (x, r) \<Longrightarrow> length bs = 1 + length r"
  "copy_u16 bs = Some (x2, r) \<Longrightarrow> length bs = 2 + length r"
  "copy_u32 bs = Some (x4, r) \<Longrightarrow> length bs = 4 + length r"
  "copy_u64 bs = Some (x8, r) \<Longrightarrow> length bs = 8 + length r"
  by (auto simp: copy_u8_def copy_u16_def copy_u32_def copy_u64_def
      bind_eq_Some_conv dest!: cp_SomeD split: list.splits)

section \<open>Writing: rmqamqpt::Writer\<close>

record writer =
  d_currOffset :: nat
  d_storage :: bytes

definition Writer_new :: "bytes \<Rightarrow> nat \<Rightarrow> writer" where
  "Writer_new storage start = \<lparr>d_currOffset = start, d_storage = storage\<rparr>"

text \<open>\<open>bsl::vector::resize\<close>: truncate, or fill with zeros.\<close>

definition resize :: "nat \<Rightarrow> bytes \<Rightarrow> bytes" where
  "resize n xs = take n xs @ replicate (n - length xs) 0"

definition Writer_write :: "bytes \<Rightarrow> writer \<Rightarrow> writer" where
  "Writer_write bs w =
     (let s = resize (d_currOffset w + length bs) (d_storage w)
      in w\<lparr>d_storage := take (d_currOffset w) s @ bs @ drop (d_currOffset w + length bs) s,
           d_currOffset := d_currOffset w + length bs\<rparr>)"

definition Writer_inv :: "writer \<Rightarrow> bool" where
  "Writer_inv w \<longleftrightarrow> d_currOffset w = length (d_storage w)"

locale append_cursor =
  fixes put :: "bytes \<Rightarrow> 'w \<Rightarrow> 'w"
    and content :: "'w \<Rightarrow> bytes"
    and inv :: "'w \<Rightarrow> bool"
  assumes inv_put: "inv w \<Longrightarrow> inv (put bs w)"
    and content_put: "inv w \<Longrightarrow> content (put bs w) = content w @ bs"
begin

lemma inv_puts: "inv w \<Longrightarrow> inv (fold put chunks w)"
  by (induction chunks arbitrary: w) (auto simp: inv_put)

lemma content_puts: "inv w \<Longrightarrow> content (fold put chunks w) = content w @ concat chunks"
  by (induction chunks arbitrary: w) (auto simp: inv_put content_put)

end

interpretation wr: append_cursor Writer_write d_storage Writer_inv
  by unfold_locales (auto simp: Writer_write_def Writer_inv_def resize_def Let_def)

text \<open>\<open>Types::write\<close>: what it hands to the writer for each of its argument types.\<close>

definition write_u8 :: "u8 \<Rightarrow> bytes" where "write_u8 v = [v]"
definition write_u16 :: "u16 \<Rightarrow> bytes" where "write_u16 v = be_enc 2 v"
definition write_u32 :: "u32 \<Rightarrow> bytes" where "write_u32 v = be_enc 4 v"
definition write_u64 :: "u64 \<Rightarrow> bytes" where "write_u64 v = be_enc 8 v"
definition write_bool :: "bool \<Rightarrow> bytes" where "write_bool b = [if b then 1 else 0]"

lemmas write_defs = write_u8_def write_u16_def write_u32_def write_u64_def write_bool_def

lemma length_write [simp, wire_size]:
  "length (write_u8 a) = 1" "length (write_u16 b) = 2" "length (write_u32 c) = 4"
  "length (write_u64 d) = 8" "length (write_bool e) = 1"
  by (simp_all add: write_defs)

lemma copy_write [simp, codec]:
  "copy_u8 (write_u8 a @ r) = Some (a, r)"
  "copy_u16 (write_u16 b @ r) = Some (b, r)"
  "copy_u32 (write_u32 c @ r) = Some (c, r)"
  "copy_u64 (write_u64 d @ r) = Some (d, r)"
  "copy_u8 (write_bool e @ r) = Some ((if e then 1 else 0), r)"
  by (simp_all add: copy_u8_def copy_u16_def copy_u32_def copy_u64_def write_defs)

lemma copy_write_last [simp, codec]:
  "copy_u8 (write_u8 a) = Some (a, [])"
  "copy_u16 (write_u16 b) = Some (b, [])"
  "copy_u32 (write_u32 c) = Some (c, [])"
  "copy_u64 (write_u64 d) = Some (d, [])"
  "copy_u8 (write_bool e) = Some ((if e then 1 else 0), [])"
  using copy_write [where r = "[]"] by simp_all

lemma write_u8_Nil [simp]: "write_u8 a \<noteq> []" "write_bool b \<noteq> []"
  by (simp_all add: write_defs)

section \<open>Properties\<close>

text \<open>The read cursor refines a byte list. Seen through the bytes still to read, \<open>copy\<close> and \<open>consume\<close>
  of \<open>Buffer\<close> are taking a prefix off a list: a copy fails exactly when too few bytes are left, nothing
  outside the range is read (the assertion of \<open>skip\<close> never fails), and the cursor stays in range. So the
  decoders, which are written over byte lists, describe what the classes compute.\<close>

theorem buffer_refines_bytes:
  assumes "Buffer_inv b"
  shows "map_option (\<lambda>(v, b'). (v, Buffer_rest b')) (Buffer_copy n b) = cp n (Buffer_rest b) \<and>
     map_option (\<lambda>(s, b'). (Buffer_rest s, Buffer_rest b')) (Buffer_consume n b) =
       Some (split_off n (Buffer_rest b)) \<and>
     Buffer_available b = length (Buffer_rest b) \<and>
     pred_option (\<lambda>(v, b'). Buffer_inv b') (Buffer_copy n b) \<and>
     pred_option (\<lambda>(s, b'). Buffer_inv s \<and> Buffer_inv b') (Buffer_consume n b)"
proof -
  obtain s c where c: "Buffer_consume n b = Some (s, c)" "Buffer_inv s" "Buffer_inv c"
      "Buffer_rest s = take n (Buffer_rest b)" "Buffer_rest c = drop n (Buffer_rest b)"
    using rb.consume_Some [OF assms] by blast
  have "map_option (\<lambda>(v, b'). (v, Buffer_rest b')) (Buffer_copy n b) = cp n (Buffer_rest b) \<and>
      pred_option (\<lambda>(v, b'). Buffer_inv b') (Buffer_copy n b)"
    using rb.copy_None [OF assms, of n] rb.copy_Some [OF assms, of n]
    by (cases "Buffer_copy n b") (auto simp: cp_def)
  then show ?thesis
    using c rb.avail_rest [OF assms] by simp
qed

theorem buffer_refines_bytes_witness:
  "map_option (\<lambda>(v, b'). (v, Buffer_rest b')) (Buffer_copy 2 (Buffer_new [1, 2, 3])) = Some ([1, 2], [3])"
  using buffer_refines_bytes [OF rb.inv_new, of 2 "[1, 2, 3]"] rb.rest_new [of "[1, 2, 3]"]
  by (simp add: cp_def)

text \<open>The append cursor refines concatenation. Any sequence of writes through a \<open>Writer\<close> that starts at
  the end of its vector leaves the old contents followed by everything written, in order, and the
  cursor at the end.\<close>

theorem writer_refines_append:
  assumes "Writer_inv w"
  shows "d_storage (fold Writer_write chunks w) = d_storage w @ concat chunks \<and>
     d_currOffset (fold Writer_write chunks w) = length (d_storage w) + length (concat chunks)"
  using wr.content_puts [OF assms] wr.inv_puts [OF assms, of chunks] by (simp add: Writer_inv_def)

theorem writer_refines_append_witness:
  "d_storage (fold Writer_write [[1], [2, 3]] (Writer_new [] 0)) = [1, 2, 3]"
  using writer_refines_append [of "Writer_new [] 0" "[[1], [2, 3]]"]
  by (simp add: Writer_inv_def Writer_new_def)

end
