(* ===== verification/Ordered_Map.thy ===== *)
theory Ordered_Map
  imports Prelude "HOL-Library.List_Lexorder"
begin

text \<open>
  \<open>bsl::map\<close>: an associative container that is iterated in increasing key order. It is modelled
  by its sequence of entries, strictly increasing in the key. \<open>operator[]=\<close> is \<open>om_put\<close>,
  \<open>emplace\<close> and \<open>insert\<close> (which keep an entry that is already there and say so) are
  \<open>om_emplace\<close>, \<open>erase\<close> is \<open>om_erase\<close> and \<open>find\<close> is \<^const>\<open>map_of\<close>. String keys compare
  octet-wise, which is the lexicographic order of \<open>HOL-Library.List_Lexorder\<close>.
\<close>

type_synonym ('k, 'v) omap = "('k \<times> 'v) list"

definition om_inv :: "('k::linorder, 'v) omap \<Rightarrow> bool" where
  "om_inv m \<longleftrightarrow> sorted_wrt (<) (map fst m)"

fun om_put :: "'k::linorder \<Rightarrow> 'v \<Rightarrow> ('k, 'v) omap \<Rightarrow> ('k, 'v) omap" where
  "om_put k v [] = [(k, v)]"
| "om_put k v ((k', v') # m) =
     (if k < k' then (k, v) # (k', v') # m
      else if k = k' then (k, v) # m
      else (k', v') # om_put k v m)"

definition om_emplace :: "'k::linorder \<Rightarrow> 'v \<Rightarrow> ('k, 'v) omap \<Rightarrow> ('k, 'v) omap \<times> bool" where
  "om_emplace k v m = (case map_of m k of None \<Rightarrow> (om_put k v m, True) | Some _ \<Rightarrow> (m, False))"

definition om_erase :: "'k \<Rightarrow> ('k, 'v) omap \<Rightarrow> ('k, 'v) omap" where
  "om_erase k m = filter (\<lambda>e. fst e \<noteq> k) m"

section \<open>The entries stay sorted\<close>

lemma om_inv_Nil [simp]: "om_inv []"
  by (simp add: om_inv_def)

lemma om_inv_Cons [simp]: "om_inv (e # m) \<longleftrightarrow> (\<forall>k \<in> fst ` set m. fst e < k) \<and> om_inv m"
  by (auto simp: om_inv_def)

lemma om_inv_append:
  "om_inv (m1 @ m2) \<longleftrightarrow> om_inv m1 \<and> om_inv m2 \<and> (\<forall>k1 \<in> fst ` set m1. \<forall>k2 \<in> fst ` set m2. k1 < k2)"
  by (auto simp: om_inv_def sorted_wrt_append)

lemma om_inv_distinct: "om_inv m \<Longrightarrow> distinct (map fst m)"
  by (auto simp: om_inv_def strict_sorted_iff)

lemma set_om_put: "set (om_put k v m) \<subseteq> insert (k, v) (set m)"
  by (induction m) (auto split: if_splits)

lemma fst_om_put [simp]: "fst ` set (om_put k v m) = insert k (fst ` set m)"
  by (induction k v m rule: om_put.induct) (simp_all add: insert_commute)

lemma om_inv_put [simp]: "om_inv m \<Longrightarrow> om_inv (om_put k v m)"
  by (induction k v m rule: om_put.induct) (auto simp: not_less_iff_gr_or_eq dest: order_less_trans)

lemma om_inv_erase [simp]: "om_inv m \<Longrightarrow> om_inv (om_erase k m)"
  by (induction m) (auto simp: om_erase_def)

lemma om_inv_emplace [simp]: "om_inv m \<Longrightarrow> om_inv (fst (om_emplace k v m))"
  by (auto simp: om_emplace_def split: option.splits)

lemma om_inv_filter: "om_inv m \<Longrightarrow> om_inv (filter P m)"
  by (induction m) auto

lemma length_om_erase_less: "k \<in> fst ` set m \<Longrightarrow> length (om_erase k m) < length m"
proof -
  assume "k \<in> fst ` set m"
  then obtain e where "e \<in> set m" "\<not> fst e \<noteq> k" by auto
  then show ?thesis
    unfolding om_erase_def by (rule length_filter_less)
qed

section \<open>Lookup\<close>

lemma map_of_om_put [simp]: "om_inv m \<Longrightarrow> map_of (om_put k v m) = (map_of m)(k \<mapsto> v)"
proof (induction m)
  case Nil
  then show ?case by auto
next
  case (Cons e m)
  then show ?case
    by (cases e) (auto simp: fun_eq_iff)
qed

lemma map_of_om_erase [simp]: "map_of (om_erase k m) = (map_of m)(k := None)"
  by (induction m) (auto simp: om_erase_def fun_eq_iff)

lemma map_of_om_emplace [simp]:
  "om_inv m \<Longrightarrow> map_of (fst (om_emplace k v m)) =
     (if map_of m k = None then (map_of m)(k \<mapsto> v) else map_of m)"
  by (auto simp: om_emplace_def split: option.splits)

lemma snd_om_emplace [simp]: "snd (om_emplace k v m) \<longleftrightarrow> map_of m k = None"
  by (auto simp: om_emplace_def split: option.splits)

lemma fst_om_erase [simp]: "fst ` set (om_erase k m) = fst ` set m - {k}"
  by (auto simp: om_erase_def)

lemma om_put_append:
  "\<forall>k' \<in> fst ` set m. k' < k \<Longrightarrow> om_put k v m = m @ [(k, v)]"
  by (induction m) auto

lemma map_of_None_fresh: "map_of m k = None \<longleftrightarrow> k \<notin> fst ` set m"
  by (simp add: map_of_eq_None_iff)

text \<open>Emplacing a key beyond the last one appends: an in-order decode rebuilds the table.\<close>

lemma om_emplace_append:
  "\<forall>k' \<in> fst ` set m. k' < k \<Longrightarrow> om_emplace k v m = (m @ [(k, v)], True)"
  using map_of_None_fresh [of m k]
  by (auto simp: om_emplace_def om_put_append split: option.splits)

text \<open>A sorted sequence of entries is determined by its lookup function.\<close>

lemma om_inv_map_of_SomeI: "om_inv m \<Longrightarrow> (k, v) \<in> set m \<Longrightarrow> map_of m k = Some v"
  by (simp add: om_inv_distinct)

section \<open>The interface its clients rely on\<close>

locale ordered_map =
  fixes empty :: "'m"
    and find :: "'m \<Rightarrow> 'k::linorder \<Rightarrow> 'v option"
    and put :: "'k \<Rightarrow> 'v \<Rightarrow> 'm \<Rightarrow> 'm"
    and emplace :: "'k \<Rightarrow> 'v \<Rightarrow> 'm \<Rightarrow> 'm \<times> bool"
    and erase :: "'k \<Rightarrow> 'm \<Rightarrow> 'm"
    and entries :: "'m \<Rightarrow> ('k \<times> 'v) list"
    and inv :: "'m \<Rightarrow> bool"
  assumes inv_empty: "inv empty"
    and find_empty: "find empty k = None"
    and inv_put: "inv m \<Longrightarrow> inv (put k v m)"
    and find_put: "inv m \<Longrightarrow> find (put k v m) = (find m)(k \<mapsto> v)"
    and inv_emplace: "inv m \<Longrightarrow> inv (fst (emplace k v m))"
    and find_emplace: "inv m \<Longrightarrow> find (fst (emplace k v m)) =
      (if find m k = None then (find m)(k \<mapsto> v) else find m)"
    and emplace_fresh: "inv m \<Longrightarrow> snd (emplace k v m) \<longleftrightarrow> find m k = None"
    and inv_erase: "inv m \<Longrightarrow> inv (erase k m)"
    and find_erase: "inv m \<Longrightarrow> find (erase k m) = (find m)(k := None)"
    and entries_sorted: "inv m \<Longrightarrow> sorted_wrt (<) (map fst (entries m))"
    and entries_find: "inv m \<Longrightarrow> (k, v) \<in> set (entries m) \<longleftrightarrow> find m k = Some v"
begin

text \<open>\<open>insert\<close> keeps the first value stored under a key.\<close>

lemma emplace_keeps_first:
  "inv m \<Longrightarrow> find m k = Some v \<Longrightarrow> find (fst (emplace k v' m)) k = Some v"
  by (simp add: find_emplace)

lemma erase_put_fresh:
  "inv m \<Longrightarrow> find m k = None \<Longrightarrow> find (erase k (put k v m)) = find m"
  by (auto simp: find_erase find_put inv_put fun_eq_iff)

lemma entries_distinct: "inv m \<Longrightarrow> distinct (map fst (entries m))"
  using entries_sorted strict_sorted_iff by blast

end

interpretation om: ordered_map "[]" map_of om_put om_emplace om_erase "\<lambda>m. m" om_inv
proof (unfold_locales, goal_cases)
  case (10 m)
  then show ?case by (simp add: om_inv_def)
next
  case (11 m k v)
  then show ?case by (metis map_of_SomeD om_inv_map_of_SomeI)
qed (simp_all)

end
