(* ===== verification/Field_Value.thy ===== *)
theory Field_Value
  imports Buffer Ordered_Map
begin

text \<open>
  AMQP field values and tables: \<open>rmqt::FieldValue\<close>, \<open>FieldArray\<close>, \<open>FieldTable\<close>, their wire format
  (\<open>rmqamqpt::Types\<close>) and the size calculation that precedes it (\<open>rmqamqpt::FieldValueUtil\<close>).

  The decoder is recursive without a depth limit: it recurses on sub-buffers. Here it takes fuel,
  spent once per call; one unit per octet of input and one more are enough
  (\<open>decV_fuel\<close>), so the entry points below never run out.

  The time conversions of \<open>bdlt::EpochUtil\<close> are the parameter \<open>'dt epoch_util\<close>. Floats are their
  IEEE-754 bit patterns, which is what the \<open>memcpy\<close> of the sources moves.
\<close>

record 'dt epoch_util =
  convertToTimeT64 :: "'dt \<Rightarrow> u64"
  convertFromTimeT64 :: "u64 \<Rightarrow> 'dt option"

datatype 'dt field_value =
    FV_Nil
  | FV_bool bool
  | FV_int8 u8
  | FV_uint8 u8
  | FV_int16 u16
  | FV_uint16 u16
  | FV_int32 u32
  | FV_uint32 u32
  | FV_int64 u64
  | FV_uint64 u64
  | FV_float u32
  | FV_double u64
  | FV_string bytes
  | FV_bytes bytes
  | FV_array "'dt field_value list"
  | FV_datetime 'dt
  | FV_table "(bytes \<times> 'dt field_value) list"

type_synonym 'dt field_table = "(bytes \<times> 'dt field_value) list"

datatype fv_type =
    BOOLEAN | SHORT_SHORT_INT | SHORT_SHORT_UINT | SHORT_INT | SHORT_UINT | LONG_INT | LONG_UINT
  | AMQP_SPEC_LONG_LONG_INT | RABBIT_SPEC_LONG_LONG_INT | FLOAT | DOUBLE | DECIMAL | LONG_STRING
  | BYTE_ARRAY | FIELD_ARRAY | TIMESTAMP | FIELD_TABLE | NO_FIELD

fun type_octet :: "fv_type \<Rightarrow> u8" where
  "type_octet BOOLEAN = 0x74"
| "type_octet SHORT_SHORT_INT = 0x62"
| "type_octet SHORT_SHORT_UINT = 0x42"
| "type_octet SHORT_INT = 0x73"
| "type_octet SHORT_UINT = 0x75"
| "type_octet LONG_INT = 0x49"
| "type_octet LONG_UINT = 0x69"
| "type_octet AMQP_SPEC_LONG_LONG_INT = 0x4C"
| "type_octet RABBIT_SPEC_LONG_LONG_INT = 0x6C"
| "type_octet FLOAT = 0x66"
| "type_octet DOUBLE = 0x64"
| "type_octet DECIMAL = 0x44"
| "type_octet LONG_STRING = 0x53"
| "type_octet BYTE_ARRAY = 0x78"
| "type_octet FIELD_ARRAY = 0x41"
| "type_octet TIMESTAMP = 0x54"
| "type_octet FIELD_TABLE = 0x46"
| "type_octet NO_FIELD = 0x56"

definition fv_types :: "fv_type list" where
  "fv_types = [BOOLEAN, SHORT_SHORT_INT, SHORT_SHORT_UINT, SHORT_INT, SHORT_UINT, LONG_INT,
     LONG_UINT, AMQP_SPEC_LONG_LONG_INT, RABBIT_SPEC_LONG_LONG_INT, FLOAT, DOUBLE, DECIMAL,
     LONG_STRING, BYTE_ARRAY, FIELD_ARRAY, TIMESTAMP, FIELD_TABLE, NO_FIELD]"

text \<open>The switch over the type octet; an octet that is no type takes the \<open>default\<close> branch.\<close>

definition octet_type :: "u8 \<Rightarrow> fv_type option" where
  "octet_type b = List.find (\<lambda>t. type_octet t = b) fv_types"

section \<open>Sizes: FieldValueUtil\<close>

fun encodedValueSize :: "'dt field_value \<Rightarrow> nat"
  and fieldArrayContentsEncodedSize :: "'dt field_value list \<Rightarrow> nat"
  and encodedTableSize :: "'dt field_table \<Rightarrow> nat" where
  "encodedValueSize FV_Nil = 0"
| "encodedValueSize (FV_bool _) = 1"
| "encodedValueSize (FV_int8 _) = 1"
| "encodedValueSize (FV_uint8 _) = 1"
| "encodedValueSize (FV_int16 _) = 2"
| "encodedValueSize (FV_uint16 _) = 2"
| "encodedValueSize (FV_int32 _) = 4"
| "encodedValueSize (FV_uint32 _) = 4"
| "encodedValueSize (FV_int64 _) = 8"
| "encodedValueSize (FV_uint64 _) = 8"
| "encodedValueSize (FV_float _) = 4"
| "encodedValueSize (FV_double _) = 8"
| "encodedValueSize (FV_string s) = 4 + length s"
| "encodedValueSize (FV_bytes v) = 4 + length v"
| "encodedValueSize (FV_array a) = 4 + fieldArrayContentsEncodedSize a"
| "encodedValueSize (FV_datetime _) = 8"
| "encodedValueSize (FV_table t) = 4 + encodedTableSize t"
| "fieldArrayContentsEncodedSize [] = 0"
| "fieldArrayContentsEncodedSize (v # vs) =
     (1 + encodedValueSize v) + fieldArrayContentsEncodedSize vs"
| "encodedTableSize [] = 0"
| "encodedTableSize ((k, v) # t) = (1 + length k) + (1 + encodedValueSize v) + encodedTableSize t"

definition encodedSize :: "'dt field_value \<Rightarrow> nat" where
  "encodedSize fv = 1 + encodedValueSize fv"

section \<open>Strings and byte vectors\<close>

definition decodeLongString :: "bytes \<Rightarrow> (bytes \<times> bytes) option" where
  "decodeLongString bs = do {
     (stringLength, r) \<leftarrow> copy_u32 bs;
     if unat stringLength > length r then None
     else Some (split_off (unat stringLength) r) }"

definition decodeShortString :: "bytes \<Rightarrow> (bytes \<times> bytes) option" where
  "decodeShortString bs = do {
     (stringLength, r) \<leftarrow> copy_u8 bs;
     if unat stringLength > length r then None
     else Some (split_off (unat stringLength) r) }"

definition encodeLongString :: "bytes \<Rightarrow> bytes" where
  "encodeLongString s = write_u32 (of_nat (length s)) @ s"

text \<open>A short string longer than 255 octets is truncated.\<close>

definition encodeShortString :: "bytes \<Rightarrow> bytes" where
  "encodeShortString s =
     (let sendSize = min (length s) 255 in write_u8 (of_nat sendSize) @ take sendSize s)"

definition decodeByteVector :: "nat \<Rightarrow> bytes \<Rightarrow> (bytes \<times> bytes) option" where
  "decodeByteVector n bs =
     (if n > length bs then None
      else if n > 0 then Some (take n bs, drop n bs) else Some ([], bs))"

definition encodeByteVector :: "bytes \<Rightarrow> bytes" where
  "encodeByteVector v = v"

definition encodeTimestamp :: "'dt epoch_util \<Rightarrow> 'dt \<Rightarrow> bytes" where
  "encodeTimestamp ep t = write_u64 (convertToTimeT64 ep t)"

definition decodeTimestamp :: "'dt epoch_util \<Rightarrow> bytes \<Rightarrow> ('dt \<times> bytes) option" where
  "decodeTimestamp ep bs = do {
     (seconds, r) \<leftarrow> copy_u64 bs;
     t \<leftarrow> convertFromTimeT64 ep seconds;
     Some (t, r) }"

section \<open>Encoding field values\<close>

fun encodeFieldValue :: "'dt epoch_util \<Rightarrow> 'dt field_value \<Rightarrow> bytes"
  and encodeItems :: "'dt epoch_util \<Rightarrow> 'dt field_value list \<Rightarrow> bytes"
  and encodeEntries :: "'dt epoch_util \<Rightarrow> 'dt field_table \<Rightarrow> bytes" where
  "encodeFieldValue ep FV_Nil = write_u8 (type_octet NO_FIELD)"
| "encodeFieldValue ep (FV_bool v) = write_u8 (type_octet BOOLEAN) @ write_bool v"
| "encodeFieldValue ep (FV_int8 v) = write_u8 (type_octet SHORT_SHORT_INT) @ write_u8 v"
| "encodeFieldValue ep (FV_uint8 v) = write_u8 (type_octet SHORT_SHORT_UINT) @ write_u8 v"
| "encodeFieldValue ep (FV_int16 v) = write_u8 (type_octet SHORT_INT) @ write_u16 v"
| "encodeFieldValue ep (FV_uint16 v) = write_u8 (type_octet SHORT_UINT) @ write_u16 v"
| "encodeFieldValue ep (FV_int32 v) = write_u8 (type_octet LONG_INT) @ write_u32 v"
| "encodeFieldValue ep (FV_uint32 v) = write_u8 (type_octet LONG_UINT) @ write_u32 v"
| "encodeFieldValue ep (FV_int64 v) = write_u8 (type_octet RABBIT_SPEC_LONG_LONG_INT) @ write_u64 v"
| "encodeFieldValue ep (FV_uint64 v) = write_u8 (type_octet RABBIT_SPEC_LONG_LONG_INT) @ write_u64 v"
| "encodeFieldValue ep (FV_float v) = write_u8 (type_octet FLOAT) @ write_u32 v"
| "encodeFieldValue ep (FV_double v) = write_u8 (type_octet DOUBLE) @ write_u64 v"
| "encodeFieldValue ep (FV_string s) = write_u8 (type_octet LONG_STRING) @ encodeLongString s"
| "encodeFieldValue ep (FV_bytes a) =
     write_u8 (type_octet BYTE_ARRAY) @ write_u32 (of_nat (length a)) @ encodeByteVector a"
| "encodeFieldValue ep (FV_array a) =
     write_u8 (type_octet FIELD_ARRAY) @
     write_u32 (of_nat (fieldArrayContentsEncodedSize a)) @ encodeItems ep a"
| "encodeFieldValue ep (FV_datetime d) = write_u8 (type_octet TIMESTAMP) @ encodeTimestamp ep d"
| "encodeFieldValue ep (FV_table t) =
     write_u8 (type_octet FIELD_TABLE) @
     write_u32 (of_nat (encodedTableSize t)) @ encodeEntries ep t"
| "encodeItems ep [] = []"
| "encodeItems ep (v # vs) = encodeFieldValue ep v @ encodeItems ep vs"
| "encodeEntries ep [] = []"
| "encodeEntries ep ((k, v) # t) =
     encodeShortString k @ encodeFieldValue ep v @ encodeEntries ep t"

definition encodeFieldArray :: "'dt epoch_util \<Rightarrow> 'dt field_value list \<Rightarrow> bytes" where
  "encodeFieldArray ep a = write_u32 (of_nat (fieldArrayContentsEncodedSize a)) @ encodeItems ep a"

definition encodeFieldTable :: "'dt epoch_util \<Rightarrow> 'dt field_table \<Rightarrow> bytes" where
  "encodeFieldTable ep t = write_u32 (of_nat (encodedTableSize t)) @ encodeEntries ep t"

section \<open>Decoding field values\<close>

text \<open>
  \<open>decV\<close> is \<open>decodeFieldValue\<close>, \<open>decA\<close> the loop of \<open>decodeFieldArray\<close> and \<open>decT\<close> the loop of
  \<open>decodeFieldTable\<close> over their sub-buffers. A duplicate key keeps the first value.
\<close>

fun decV :: "'dt epoch_util \<Rightarrow> nat \<Rightarrow> bytes \<Rightarrow> ('dt field_value \<times> bytes) option"
  and decA :: "'dt epoch_util \<Rightarrow> nat \<Rightarrow> bytes \<Rightarrow> 'dt field_value list option"
  and decT :: "'dt epoch_util \<Rightarrow> nat \<Rightarrow> 'dt field_table \<Rightarrow> bytes \<Rightarrow> 'dt field_table option" where
  "decV ep 0 bs = None"
| "decV ep (Suc n) bs = do {
     (typeByte, bs) \<leftarrow> copy_u8 bs;
     type \<leftarrow> octet_type typeByte;
     (case type of
        BOOLEAN \<Rightarrow> do { (v, r) \<leftarrow> copy_u8 bs; Some (FV_bool (v \<noteq> 0), r) }
      | SHORT_SHORT_INT \<Rightarrow> do { (v, r) \<leftarrow> copy_u8 bs; Some (FV_int8 v, r) }
      | SHORT_SHORT_UINT \<Rightarrow> do { (v, r) \<leftarrow> copy_u8 bs; Some (FV_uint8 v, r) }
      | SHORT_INT \<Rightarrow> do { (v, r) \<leftarrow> copy_u16 bs; Some (FV_int16 v, r) }
      | SHORT_UINT \<Rightarrow> do { (v, r) \<leftarrow> copy_u16 bs; Some (FV_uint16 v, r) }
      | LONG_INT \<Rightarrow> do { (v, r) \<leftarrow> copy_u32 bs; Some (FV_int32 v, r) }
      | LONG_UINT \<Rightarrow> do { (v, r) \<leftarrow> copy_u32 bs; Some (FV_uint32 v, r) }
      | AMQP_SPEC_LONG_LONG_INT \<Rightarrow> do { (v, r) \<leftarrow> copy_u64 bs; Some (FV_int64 v, r) }
      | RABBIT_SPEC_LONG_LONG_INT \<Rightarrow> do { (v, r) \<leftarrow> copy_u64 bs; Some (FV_int64 v, r) }
      | FLOAT \<Rightarrow> do { (v, r) \<leftarrow> copy_u32 bs; Some (FV_float v, r) }
      | DOUBLE \<Rightarrow> do { (v, r) \<leftarrow> copy_u64 bs; Some (FV_double v, r) }
      | DECIMAL \<Rightarrow> (if length bs < 5 then None else Some (FV_Nil, drop 5 bs))
      | LONG_STRING \<Rightarrow> do { (s, r) \<leftarrow> decodeLongString bs; Some (FV_string s, r) }
      | BYTE_ARRAY \<Rightarrow> do {
          (arraySize, r) \<leftarrow> copy_u32 bs;
          (v, r') \<leftarrow> decodeByteVector (unat arraySize) r;
          Some (FV_bytes v, r') }
      | FIELD_ARRAY \<Rightarrow> do {
          (arrayLength, r) \<leftarrow> copy_u32 bs;
          if unat arrayLength > length r then None
          else do {
            vs \<leftarrow> decA ep n (fst (split_off (unat arrayLength) r));
            Some (FV_array vs, snd (split_off (unat arrayLength) r)) } }
      | TIMESTAMP \<Rightarrow> do { (t, r) \<leftarrow> decodeTimestamp ep bs; Some (FV_datetime t, r) }
      | FIELD_TABLE \<Rightarrow> do {
          (fieldTableLength, r) \<leftarrow> copy_u32 bs;
          if unat fieldTableLength > length r then None
          else do {
            t \<leftarrow> decT ep n [] (fst (split_off (unat fieldTableLength) r));
            Some (FV_table t, snd (split_off (unat fieldTableLength) r)) } }
      | NO_FIELD \<Rightarrow> Some (FV_Nil, bs)) }"
| "decA ep 0 bs = None"
| "decA ep (Suc n) bs =
     (if bs = [] then Some []
      else do { (v, r) \<leftarrow> decV ep n bs; vs \<leftarrow> decA ep n r; Some (v # vs) })"
| "decT ep 0 t bs = None"
| "decT ep (Suc n) t bs =
     (if bs = [] then Some t
      else do {
        (fieldName, r) \<leftarrow> decodeShortString bs;
        (v, r') \<leftarrow> decV ep n r;
        decT ep n (fst (om_emplace fieldName v t)) r' })"

definition decodeFieldValue :: "'dt epoch_util \<Rightarrow> bytes \<Rightarrow> ('dt field_value \<times> bytes) option" where
  "decodeFieldValue ep bs = decV ep (Suc (length bs)) bs"

definition decodeFieldArray :: "'dt epoch_util \<Rightarrow> bytes \<Rightarrow> ('dt field_value list \<times> bytes) option" where
  "decodeFieldArray ep bs = do {
     (arrayLength, r) \<leftarrow> copy_u32 bs;
     if unat arrayLength > length r then None
     else do {
       vs \<leftarrow> decA ep (length r + 2) (fst (split_off (unat arrayLength) r));
       Some (vs, snd (split_off (unat arrayLength) r)) } }"

definition decodeFieldTable :: "'dt epoch_util \<Rightarrow> bytes \<Rightarrow> ('dt field_table \<times> bytes) option" where
  "decodeFieldTable ep bs = do {
     (fieldTableLength, r) \<leftarrow> copy_u32 bs;
     if unat fieldTableLength > length r then None
     else do {
       t \<leftarrow> decT ep (length r + 2) [] (fst (split_off (unat fieldTableLength) r));
       Some (t, snd (split_off (unat fieldTableLength) r)) } }"

section \<open>Values that survive the wire\<close>

text \<open>
  The values that survive the wire: sizes fit their 32-bit length prefix, table keys fit a short
  string and are in map order, and a timestamp is one the conversion to seconds can represent.
\<close>

fun fv_ok :: "'dt epoch_util \<Rightarrow> 'dt field_value \<Rightarrow> bool"
  and items_ok :: "'dt epoch_util \<Rightarrow> 'dt field_value list \<Rightarrow> bool"
  and entries_ok :: "'dt epoch_util \<Rightarrow> 'dt field_table \<Rightarrow> bool" where
  "fv_ok ep (FV_string s) \<longleftrightarrow> length s < 2 ^ 32"
| "fv_ok ep (FV_bytes v) \<longleftrightarrow> length v < 2 ^ 32"
| "fv_ok ep (FV_array a) \<longleftrightarrow> fieldArrayContentsEncodedSize a < 2 ^ 32 \<and> items_ok ep a"
| "fv_ok ep (FV_datetime d) \<longleftrightarrow> convertFromTimeT64 ep (convertToTimeT64 ep d) = Some d"
| "fv_ok ep (FV_table t) \<longleftrightarrow> encodedTableSize t < 2 ^ 32 \<and> om_inv t \<and> entries_ok ep t"
| "fv_ok ep _ \<longleftrightarrow> True"
| "items_ok ep [] \<longleftrightarrow> True"
| "items_ok ep (v # vs) \<longleftrightarrow> fv_ok ep v \<and> items_ok ep vs"
| "entries_ok ep [] \<longleftrightarrow> True"
| "entries_ok ep ((k, v) # t) \<longleftrightarrow> length k \<le> 255 \<and> fv_ok ep v \<and> entries_ok ep t"

definition table_ok :: "'dt epoch_util \<Rightarrow> 'dt field_table \<Rightarrow> bool" where
  "table_ok ep t \<longleftrightarrow> encodedTableSize t < 2 ^ 32 \<and> om_inv t \<and> entries_ok ep t"

text \<open>What comes back: an unsigned 64-bit value is read as a signed one with the same bits.\<close>

fun fv_wire :: "'dt field_value \<Rightarrow> 'dt field_value"
  and items_wire :: "'dt field_value list \<Rightarrow> 'dt field_value list"
  and table_wire :: "'dt field_table \<Rightarrow> 'dt field_table" where
  "fv_wire (FV_uint64 v) = FV_int64 v"
| "fv_wire (FV_array a) = FV_array (items_wire a)"
| "fv_wire (FV_table t) = FV_table (table_wire t)"
| "fv_wire v = v"
| "items_wire [] = []"
| "items_wire (v # vs) = fv_wire v # items_wire vs"
| "table_wire [] = []"
| "table_wire ((k, v) # t) = (k, fv_wire v) # table_wire t"

section \<open>Strings\<close>

text \<open>Sample data of the witnesses: datetimes are seconds since the epoch.\<close>

definition sample_epoch :: "u64 epoch_util" where
  "sample_epoch = \<lparr>convertToTimeT64 = (\<lambda>t. t), convertFromTimeT64 = Some\<rparr>"

definition sample_table :: "u64 field_table" where
  "sample_table =
     [(bstr ''count'', FV_uint64 7),
      (bstr ''tags'', FV_array [FV_string (bstr ''a''), FV_bool True, FV_datetime 1700000000])]"

lemma octet_type_octet [simp]: "octet_type (type_octet t) = Some t"
  by (cases t) (simp_all add: octet_type_def fv_types_def)

lemma octet_type_Some: "octet_type b = Some t \<Longrightarrow> type_octet t = b"
  by (auto simp: octet_type_def find_Some_iff)

lemma unat_of_nat_u8 [simp]: "n \<le> 255 \<Longrightarrow> unat (of_nat n :: u8) = n"
  by (simp add: unat_of_nat)

lemma unat_of_nat_u32: "n < 2 ^ 32 \<Longrightarrow> unat (of_nat n :: u32) = n"
  by (simp add: unat_of_nat)

lemma decodeLongString_encode [simp, codec]:
  "length s < 2 ^ 32 \<Longrightarrow> decodeLongString (encodeLongString s @ r) = Some (s, r)"
  by (simp add: decodeLongString_def encodeLongString_def unat_of_nat_u32)

lemma decodeShortString_encode [simp, codec]:
  "decodeShortString (encodeShortString s @ r) = Some (take 255 s, r)"
  by (simp add: decodeShortString_def encodeShortString_def Let_def min_def)

lemma decodeString_encode_last [simp, codec]:
  "length s < 2 ^ 32 \<Longrightarrow> decodeLongString (encodeLongString s) = Some (s, [])"
  "decodeShortString (encodeShortString s') = Some (take 255 s', [])"
  using decodeLongString_encode [of s "[]"] decodeShortString_encode [of s' "[]"] by simp_all

lemma length_encodeString [simp, wire_size]:
  "length (encodeLongString s) = 4 + length s"
  "length (encodeShortString s) = 1 + min (length s) 255"
  by (simp_all add: encodeLongString_def encodeShortString_def Let_def)

lemma decodeString_consume [consume]:
  "decodeLongString bs = Some (s, r) \<Longrightarrow> length bs = 4 + length s + length r"
  "decodeShortString bs = Some (s, r) \<Longrightarrow> length bs = 1 + length s + length r"
  by (auto simp: decodeLongString_def decodeShortString_def bind_eq_Some_conv
      dest!: copy_consume split: if_splits)

lemma decodeByteVector_consume [consume]:
  "decodeByteVector n bs = Some (v, r) \<Longrightarrow> length bs = n + length r \<and> length v = n"
  by (auto simp: decodeByteVector_def split: if_splits)

lemma decodeByteVector_encode [simp, codec]:
  "n = length v \<Longrightarrow> decodeByteVector n (encodeByteVector v @ r) = Some (v, r)"
  by (simp add: decodeByteVector_def encodeByteVector_def)

lemma decodeTimestamp_consume [consume]:
  "decodeTimestamp ep bs = Some (t, r) \<Longrightarrow> length bs = 8 + length r"
  by (auto simp: decodeTimestamp_def bind_eq_Some_conv dest!: copy_consume)

declare type_octet.simps [simp del]

section \<open>The decoder makes progress and its fuel is enough\<close>

lemma decV_consume:
  assumes "decV ep n bs = Some (v, r)"
  shows "length r < length bs"
proof (cases n)
  case 0
  with assms show ?thesis by simp
next
  case (Suc m)
  then obtain b bs' t where b: "copy_u8 bs = Some (b, bs')" and t: "octet_type b = Some t"
    using assms by (auto simp: bind_eq_Some_conv)
  have len: "length bs = 1 + length bs'"
    using b by (rule copy_consume)
  have "length r \<le> length bs'"
    using assms b t Suc
    by (cases t) (auto simp: bind_eq_Some_conv split: if_splits
        dest!: copy_consume decodeString_consume decodeByteVector_consume decodeTimestamp_consume)
  with len show ?thesis by simp
qed

lemma bind_cong_Some:
  "(\<And>y. x = Some y \<Longrightarrow> f y = g y) \<Longrightarrow> Option.bind x f = Option.bind x g"
  by (cases x) auto

lemma decV_fuel:
  "length bs < n \<Longrightarrow> n \<le> m \<Longrightarrow> decV ep n bs = decV ep m bs"
  "length bs + 1 < n \<Longrightarrow> n \<le> m \<Longrightarrow> decA ep n bs = decA ep m bs"
  "length bs + 1 < n \<Longrightarrow> n \<le> m \<Longrightarrow> decT ep n t bs = decT ep m t bs"
proof (induction n arbitrary: bs m t)
  case 0
  { case 1 then show ?case by simp }
  { case 2 then show ?case by simp }
  { case 3 then show ?case by simp }
next
  case (Suc n)
  { case 1
    then obtain k where m: "m = Suc k" and k: "n \<le> k" by (cases m) auto
    have A: "decA ep n (take l r) = decA ep k (take l r)" if "length r + 5 \<le> length bs" for l and r :: bytes
      using that 1 k by (intro Suc.IH(2)) auto
    have T: "decT ep n [] (take l r) = decT ep k [] (take l r)" if "length r + 5 \<le> length bs" for l and r :: bytes
      using that 1 k by (intro Suc.IH(3)) auto
    show ?case
      unfolding m decV.simps
      by (intro bind_cong_Some)
         (auto split: fv_type.splits intro!: bind_cong_Some dest!: copy_consume simp: A T) }
  { case 2
    then obtain k where m: "m = Suc k" and k: "n \<le> k" by (cases m) auto
    have V: "decV ep n bs = decV ep k bs"
      using 2 k by (intro Suc.IH(1)) auto
    have A: "decA ep n r = decA ep k r" if "length r < length bs" for r
      using that 2 k by (intro Suc.IH(2)) auto
    show ?case
      unfolding m decA.simps
      by (auto simp: V A intro!: bind_cong_Some dest!: decV_consume) }
  { case 3
    then obtain k where m: "m = Suc k" and k: "n \<le> k" by (cases m) auto
    have V: "decV ep n r = decV ep k r" if "length r < length bs" for r
      using that 3 k by (intro Suc.IH(1)) auto
    have T: "decT ep n t' r = decT ep k t' r" if "length r < length bs" for r t'
      using that 3 k by (intro Suc.IH(3)) auto
    show ?case
      unfolding m decT.simps
      by (auto simp: V T intro!: bind_cong_Some dest!: decV_consume decodeString_consume) }
qed

section \<open>Round trip and sizes\<close>

lemma fst_table_wire [simp]: "map fst (table_wire t) = map fst t"
  by (induction t) auto

lemma length_encodeFieldValue_pos: "0 < length (encodeFieldValue ep v)"
  by (cases v) auto

lemma encodeFieldValue_Nil [simp]: "encodeFieldValue ep v \<noteq> []"
  using length_encodeFieldValue_pos [of ep v] by simp

lemma encoded_size:
  "fv_ok ep v \<Longrightarrow> length (encodeFieldValue ep v) = encodedSize v"
  "items_ok ep vs \<Longrightarrow> length (encodeItems ep vs) = fieldArrayContentsEncodedSize vs"
  "entries_ok ep t \<Longrightarrow> length (encodeEntries ep t) = encodedTableSize t"
  by (induction ep v and ep vs and ep t rule: encodeFieldValue_encodeItems_encodeEntries.induct)
     (auto simp: encodedSize_def encodeTimestamp_def encodeByteVector_def)

lemma dec_enc:
  "fv_ok ep v \<Longrightarrow> length (encodeFieldValue ep v) < n \<Longrightarrow>
     decV ep n (encodeFieldValue ep v @ r) = Some (fv_wire v, r)"
  "items_ok ep vs \<Longrightarrow> length (encodeItems ep vs) + 1 < n \<Longrightarrow>
     decA ep n (encodeItems ep vs) = Some (items_wire vs)"
  "entries_ok ep t \<Longrightarrow> om_inv (acc @ t) \<Longrightarrow> length (encodeEntries ep t) + 1 < n \<Longrightarrow>
     decT ep n acc (encodeEntries ep t) = Some (acc @ table_wire t)"
proof (induction ep v and ep vs and ep t arbitrary: n r and n and n acc
    rule: encodeFieldValue_encodeItems_encodeEntries.induct)
  case (15 ep a)
  then obtain m where n: "n = Suc m" by (cases n) auto
  show ?case
    using 15 by (simp add: n unat_of_nat_u32 encoded_size)
next
  case (17 ep t)
  then obtain m where n: "n = Suc m" by (cases n) auto
  show ?case
    using 17 by (simp add: n unat_of_nat_u32 encoded_size)
next
  case (18 ep)
  then show ?case by (cases n) auto
next
  case (19 ep v vs)
  then obtain m where n: "n = Suc m" by (cases n) auto
  have "Suc (length (encodeItems ep vs)) < m"
    using 19(4) n length_encodeFieldValue_pos [of ep v] by (simp del: length_greater_0_conv)
  with 19 show ?case
    by (auto simp: n)
next
  case (20 ep)
  then show ?case by (cases n) auto
next
  case (21 ep k v t)
  then obtain m where n: "n = Suc m" by (cases n) auto
  show ?case
    using 21 by (simp add: n om_emplace_append om_inv_append)
qed (case_tac [!] n, auto simp: unat_of_nat_u32 decodeTimestamp_def encodeTimestamp_def)

declare decV.simps(2) [simp del] decA.simps(2) [simp del] decT.simps(2) [simp del]

text \<open>The entry points.\<close>

lemma decodeFieldValue_encode [codec]:
  "fv_ok ep v \<Longrightarrow> decodeFieldValue ep (encodeFieldValue ep v @ r) = Some (fv_wire v, r)"
  by (simp add: decodeFieldValue_def dec_enc)

lemma decodeFieldArray_encode [codec]:
  "fieldArrayContentsEncodedSize vs < 2 ^ 32 \<Longrightarrow> items_ok ep vs \<Longrightarrow>
     decodeFieldArray ep (encodeFieldArray ep vs @ r) = Some (items_wire vs, r)"
  by (simp add: decodeFieldArray_def encodeFieldArray_def unat_of_nat_u32 encoded_size dec_enc)

lemma decodeFieldTable_encode [codec]:
  "table_ok ep t \<Longrightarrow> decodeFieldTable ep (encodeFieldTable ep t @ r) = Some (table_wire t, r)"
  by (simp add: decodeFieldTable_def encodeFieldTable_def table_ok_def unat_of_nat_u32
      encoded_size dec_enc)

lemma decodeFieldTable_encode_last [codec]:
  "table_ok ep t \<Longrightarrow> decodeFieldTable ep (encodeFieldTable ep t) = Some (table_wire t, [])"
  using decodeFieldTable_encode [of ep t "[]"] by simp

lemma length_encodeFieldTable [wire_size]:
  "table_ok ep t \<Longrightarrow> length (encodeFieldTable ep t) = 4 + encodedTableSize t"
  by (simp add: encodeFieldTable_def table_ok_def encoded_size)

lemma decodeFieldTable_consume [consume]:
  "decodeFieldTable ep bs = Some (t, r) \<Longrightarrow> length r + 4 \<le> length bs"
  by (auto simp: decodeFieldTable_def bind_eq_Some_conv dest!: copy_consume split: if_splits)

lemma decT_om_inv: "decT ep n t bs = Some t' \<Longrightarrow> om_inv t \<Longrightarrow> om_inv t'"
  by (induction n arbitrary: t bs) (auto simp: decT.simps bind_eq_Some_conv split: if_splits)

text \<open>
  A key longer than 255 octets: the size calculation counts all of it, the encoder writes 255
  octets of it, so the length prefix of the table promises more octets than follow.
\<close>

lemma size_length_long_key:
  "length (encodeFieldValue ep v) \<le> encodedSize v"
  "length (encodeItems ep vs) \<le> fieldArrayContentsEncodedSize vs"
  "length (encodeEntries ep t) \<le> encodedTableSize t"
  by (induction ep v and ep vs and ep t rule: encodeFieldValue_encodeItems_encodeEntries.induct)
     (auto simp: encodedSize_def encodeTimestamp_def encodeByteVector_def)

lemma entries_short:
  assumes "(k, v) \<in> set t" and "255 < length k"
  shows "length (encodeEntries ep t) < encodedTableSize t"
  using assms(1)
proof (induction t)
  case Nil
  then show ?case by simp
next
  case (Cons e t)
  obtain k' v' where e: "e = (k', v')" by (cases e)
  have v': "length (encodeFieldValue ep v') \<le> 1 + encodedValueSize v'"
    using size_length_long_key(1) [of ep v'] by (simp add: encodedSize_def)
  have t: "length (encodeEntries ep t) \<le> encodedTableSize t"
    by (rule size_length_long_key)
  from Cons.prems consider "k' = k" | "(k, v) \<in> set t"
    by (auto simp: e)
  then show ?case
  proof cases
    case 1
    with v' t assms(2) show ?thesis by (simp add: e)
  next
    case 2
    then have "length (encodeEntries ep t) < encodedTableSize t"
      by (rule Cons.IH)
    with v' show ?thesis by (simp add: e)
  qed
qed

lemma decodeFieldTable_long_key:
  assumes "(k, v) \<in> set t" and "255 < length k" and "encodedTableSize t < 2 ^ 32"
  shows "decodeFieldTable ep (encodeFieldTable ep t) = None"
  using entries_short [OF assms(1,2), of ep] assms(3)
  by (simp add: decodeFieldTable_def encodeFieldTable_def unat_of_nat_u32)

section \<open>Properties\<close>

text \<open>Round trip of field values. Any field value whose sizes fit their length prefixes,
  whose table keys fit a short string and whose timestamps are whole seconds is encoded to exactly
  \<open>encodedSize\<close> octets, and decoding those octets, whatever follows them in the buffer, gives the
  value back (an unsigned 64-bit integer as the signed one with the same bits) and stops right
  after them.\<close>

theorem field_value_roundtrip:
  assumes "fv_ok ep v"
  shows "decodeFieldValue ep (encodeFieldValue ep v @ r) = Some (fv_wire v, r) \<and>
     length (encodeFieldValue ep v) = encodedSize v"
  using decodeFieldValue_encode [OF assms] encoded_size(1) [OF assms] by simp

lemma sample_table_ok: "table_ok sample_epoch sample_table"
  by (simp add: table_ok_def sample_table_def sample_epoch_def bstr_def)

theorem field_value_roundtrip_witness:
  "decodeFieldValue sample_epoch (encodeFieldValue sample_epoch (FV_table sample_table) @ [1, 2])
     = Some (fv_wire (FV_table sample_table), [1, 2])"
proof -
  have ok: "fv_ok sample_epoch (FV_table sample_table)"
    using sample_table_ok by (simp add: table_ok_def)
  show ?thesis
    using field_value_roundtrip [OF ok, of "[1, 2]"] by blast
qed

text \<open>Round trip of field tables. A table in map order with keys of at most 255 octets and a
  size below \<open>2 ^ 32\<close> is written as a length prefix and exactly \<open>encodedTableSize\<close> octets, and
  decoding yields the same keys in the same order with the same values.\<close>

theorem field_table_roundtrip:
  assumes "table_ok ep t"
  shows "decodeFieldTable ep (encodeFieldTable ep t @ r) = Some (table_wire t, r) \<and>
     length (encodeFieldTable ep t) = 4 + encodedTableSize t \<and>
     map fst (table_wire t) = map fst t"
  using decodeFieldTable_encode [OF assms] length_encodeFieldTable [OF assms] by simp

theorem field_table_roundtrip_witness:
  "decodeFieldTable sample_epoch (encodeFieldTable sample_epoch sample_table @ [9])
     = Some (table_wire sample_table, [9])"
  using field_table_roundtrip [OF sample_table_ok, of "[9]"] by simp

text \<open>C38: The recursive decoder terminates on every input. One unit of fuel per octet and one more
  give the result that any larger amount gives, so the entry point never fails for lack of fuel,
  and a successful decode consumes at least one octet.\<close>

theorem decodeFieldValue_terminates:
  "(\<forall>n. length bs < n \<longrightarrow> decV ep n bs = decodeFieldValue ep bs) \<and>
   (\<forall>v r. decodeFieldValue ep bs = Some (v, r) \<longrightarrow> length r < length bs)"
  unfolding decodeFieldValue_def
  by (metis Suc_leI decV_consume decV_fuel(1) lessI)

theorem decodeFieldValue_terminates_witness:
  "decV sample_epoch 100 [0x74, 1] = decodeFieldValue sample_epoch [0x74, 1]"
proof -
  have "length [0x74, 1 :: u8] < 100" by simp
  then show ?thesis
    using decodeFieldValue_terminates [of "[0x74, 1]" sample_epoch] by blast
qed

text \<open>Long table keys are not decodable. The size calculation counts a key at its full length
  while the encoder truncates it to 255 octets: for any table with such a key the length prefix
  exceeds what is written, and the decoder rejects the encoder's own output.\<close>

theorem long_key_table_rejected:
  assumes "(k, v) \<in> set t" and "255 < length k" and "encodedTableSize t < 2 ^ 32"
  shows "decodeFieldTable ep (encodeFieldTable ep t) = None \<and>
     length (encodeEntries ep t) < encodedTableSize t"
  using decodeFieldTable_long_key [OF assms] entries_short [OF assms(1,2)] by simp

theorem long_key_table_rejected_witness:
  "decodeFieldTable sample_epoch (encodeFieldTable sample_epoch [(replicate 256 0x61, FV_bool True)])
     = None"
  using long_key_table_rejected [of "replicate 256 0x61" "FV_bool True"
      "[(replicate 256 0x61, FV_bool True)]" sample_epoch]
  by simp

end
