(* ===== verification/Basic_Properties.thy ===== *)
theory Basic_Properties
  imports Field_Value
begin

text \<open>
  Message properties and content frames' payloads: \<open>rmqt::Properties\<close>, their flag-driven wire
  format (\<open>rmqamqpt::BasicProperties\<close>), the content header and the content body.

  A failed property makes \<open>BasicProperties::decode\<close> return false after it has gone on with the
  other properties; nothing of the decoded properties is stored then, so the model stops at the
  first failure.
\<close>

record 'dt properties =
  contentType :: "bytes option"
  contentEncoding :: "bytes option"
  headers :: "'dt field_table option"
  deliveryMode :: "u8 option"
  priority :: "u8 option"
  correlationId :: "bytes option"
  replyTo :: "bytes option"
  expiration :: "bytes option"
  messageId :: "bytes option"
  timestamp :: "'dt option"
  prop_type :: "bytes option"
  userId :: "bytes option"
  appId :: "bytes option"

datatype property_id =
    CONTENT_TYPE | CONTENT_ENCODING | HEADERS | DELIVERY_MODE | PRIORITY | CORRELATION_ID | REPLY_TO
  | EXPIRATION | MESSAGE_ID | TIME_STAMP | MESSAGE_TYPE | USER_ID | APP_ID

fun property_offset :: "property_id \<Rightarrow> nat" where
  "property_offset CONTENT_TYPE = 0"
| "property_offset CONTENT_ENCODING = 1"
| "property_offset HEADERS = 2"
| "property_offset DELIVERY_MODE = 3"
| "property_offset PRIORITY = 4"
| "property_offset CORRELATION_ID = 5"
| "property_offset REPLY_TO = 6"
| "property_offset EXPIRATION = 7"
| "property_offset MESSAGE_ID = 8"
| "property_offset TIME_STAMP = 9"
| "property_offset MESSAGE_TYPE = 10"
| "property_offset USER_ID = 11"
| "property_offset APP_ID = 12"

definition maskForProperty :: "property_id \<Rightarrow> u16" where
  "maskForProperty p = push_bit (15 - property_offset p) 1"

text \<open>The present properties, in the order \<open>propertyFlags\<close> looks at them.\<close>

definition property_presence :: "'dt properties \<Rightarrow> (property_id \<times> bool) list" where
  "property_presence p =
     [(CONTENT_TYPE, contentType p \<noteq> None), (CONTENT_ENCODING, contentEncoding p \<noteq> None),
      (DELIVERY_MODE, deliveryMode p \<noteq> None), (PRIORITY, priority p \<noteq> None),
      (CORRELATION_ID, correlationId p \<noteq> None), (REPLY_TO, replyTo p \<noteq> None),
      (EXPIRATION, expiration p \<noteq> None), (MESSAGE_ID, messageId p \<noteq> None),
      (TIME_STAMP, timestamp p \<noteq> None), (MESSAGE_TYPE, prop_type p \<noteq> None), (USER_ID, userId p \<noteq> None),
      (APP_ID, appId p \<noteq> None), (HEADERS, headers p \<noteq> None)]"

definition propertyFlags :: "'dt properties \<Rightarrow> u16" where
  "propertyFlags p =
     foldl (\<lambda>result (i, present). if present then result OR maskForProperty i else result) 0
       (property_presence p)"

definition maybeEncodeNullable :: "('a \<Rightarrow> bytes) \<Rightarrow> 'a option \<Rightarrow> bytes" where
  "maybeEncodeNullable enc v = (case v of None \<Rightarrow> [] | Some x \<Rightarrow> enc x)"

definition decodeFlagged ::
  "u16 \<Rightarrow> property_id \<Rightarrow> (bytes \<Rightarrow> ('a \<times> bytes) option) \<Rightarrow> bytes \<Rightarrow> ('a option \<times> bytes) option" where
  "decodeFlagged flags i dec bs =
     (if flags AND maskForProperty i \<noteq> 0
      then do { (v, r) \<leftarrow> dec bs; Some (Some v, r) }
      else Some (None, bs))"

definition BasicProperties_decode :: "'dt epoch_util \<Rightarrow> bytes \<Rightarrow> 'dt properties option" where
  "BasicProperties_decode ep data = do {
     (flags, b) \<leftarrow> copy_u16 data;
     (ct, b) \<leftarrow> decodeFlagged flags CONTENT_TYPE decodeShortString b;
     (ce, b) \<leftarrow> decodeFlagged flags CONTENT_ENCODING decodeShortString b;
     (hd, b) \<leftarrow> decodeFlagged flags HEADERS (decodeFieldTable ep) b;
     (dm, b) \<leftarrow> decodeFlagged flags DELIVERY_MODE copy_u8 b;
     (pr, b) \<leftarrow> decodeFlagged flags PRIORITY copy_u8 b;
     (ci, b) \<leftarrow> decodeFlagged flags CORRELATION_ID decodeShortString b;
     (rt, b) \<leftarrow> decodeFlagged flags REPLY_TO decodeShortString b;
     (ex, b) \<leftarrow> decodeFlagged flags EXPIRATION decodeShortString b;
     (mi, b) \<leftarrow> decodeFlagged flags MESSAGE_ID decodeShortString b;
     (ts, b) \<leftarrow> decodeFlagged flags TIME_STAMP (decodeTimestamp ep) b;
     (ty, b) \<leftarrow> decodeFlagged flags MESSAGE_TYPE decodeShortString b;
     (ui, b) \<leftarrow> decodeFlagged flags USER_ID decodeShortString b;
     (ai, b) \<leftarrow> decodeFlagged flags APP_ID decodeShortString b;
     Some \<lparr>contentType = ct, contentEncoding = ce, headers = hd, deliveryMode = dm, priority = pr,
           correlationId = ci, replyTo = rt, expiration = ex, messageId = mi, timestamp = ts,
           prop_type = ty, userId = ui, appId = ai\<rparr> }"

definition BasicProperties_encode :: "'dt epoch_util \<Rightarrow> 'dt properties \<Rightarrow> bytes" where
  "BasicProperties_encode ep p =
     write_u16 (propertyFlags p)
     @ maybeEncodeNullable encodeShortString (contentType p)
     @ maybeEncodeNullable encodeShortString (contentEncoding p)
     @ maybeEncodeNullable (encodeFieldTable ep) (headers p)
     @ maybeEncodeNullable write_u8 (deliveryMode p)
     @ maybeEncodeNullable write_u8 (priority p)
     @ maybeEncodeNullable encodeShortString (correlationId p)
     @ maybeEncodeNullable encodeShortString (replyTo p)
     @ maybeEncodeNullable encodeShortString (expiration p)
     @ maybeEncodeNullable encodeShortString (messageId p)
     @ maybeEncodeNullable (encodeTimestamp ep) (timestamp p)
     @ maybeEncodeNullable encodeShortString (prop_type p)
     @ maybeEncodeNullable encodeShortString (userId p)
     @ maybeEncodeNullable encodeShortString (appId p)"

definition sizeNullable :: "('a \<Rightarrow> nat) \<Rightarrow> 'a option \<Rightarrow> nat" where
  "sizeNullable sz v = (case v of None \<Rightarrow> 0 | Some x \<Rightarrow> sz x)"

definition BasicProperties_encodedSize :: "'dt properties \<Rightarrow> nat" where
  "BasicProperties_encodedSize p =
     2
     + sizeNullable (\<lambda>s. 1 + length s) (contentType p)
     + sizeNullable (\<lambda>s. 1 + length s) (contentEncoding p)
     + sizeNullable (\<lambda>t. 4 + encodedTableSize t) (headers p)
     + sizeNullable (\<lambda>_. 1) (deliveryMode p)
     + sizeNullable (\<lambda>_. 1) (priority p)
     + sizeNullable (\<lambda>s. 1 + length s) (correlationId p)
     + sizeNullable (\<lambda>s. 1 + length s) (replyTo p)
     + sizeNullable (\<lambda>s. 1 + length s) (expiration p)
     + sizeNullable (\<lambda>s. 1 + length s) (messageId p)
     + sizeNullable (\<lambda>_. 8) (timestamp p)
     + sizeNullable (\<lambda>s. 1 + length s) (prop_type p)
     + sizeNullable (\<lambda>s. 1 + length s) (userId p)
     + sizeNullable (\<lambda>s. 1 + length s) (appId p)"

section \<open>Content header and content body\<close>

record 'dt content_header =
  ch_classId :: u16
  ch_bodySize :: u64
  ch_properties :: "'dt properties"

text \<open>The weight is read and, when it is not zero, only logged.\<close>

definition ContentHeader_decode :: "'dt epoch_util \<Rightarrow> bytes \<Rightarrow> 'dt content_header option" where
  "ContentHeader_decode ep data = do {
     (classId, b) \<leftarrow> copy_u16 data;
     (weight, b) \<leftarrow> copy_u16 b;
     (bodySize, b) \<leftarrow> copy_u64 b;
     p \<leftarrow> BasicProperties_decode ep b;
     Some \<lparr>ch_classId = classId, ch_bodySize = bodySize, ch_properties = p\<rparr> }"

definition ContentHeader_encode :: "'dt epoch_util \<Rightarrow> 'dt content_header \<Rightarrow> bytes" where
  "ContentHeader_encode ep h =
     write_u16 (ch_classId h) @ write_u16 0 @ write_u64 (ch_bodySize h)
     @ BasicProperties_encode ep (ch_properties h)"

definition ContentHeader_encodedSize :: "'dt content_header \<Rightarrow> nat" where
  "ContentHeader_encodedSize h = 2 * 2 + 8 + BasicProperties_encodedSize (ch_properties h)"

definition ContentBody_decode :: "bytes \<Rightarrow> bytes" where
  "ContentBody_decode data = data"

definition ContentBody_encode :: "bytes \<Rightarrow> bytes" where
  "ContentBody_encode body = body"

section \<open>Properties that survive the wire\<close>

definition short_ok :: "bytes option \<Rightarrow> bool" where
  "short_ok s = (case s of None \<Rightarrow> True | Some x \<Rightarrow> length x \<le> 255)"

definition props_ok :: "'dt epoch_util \<Rightarrow> 'dt properties \<Rightarrow> bool" where
  "props_ok ep p \<longleftrightarrow>
     short_ok (contentType p) \<and> short_ok (contentEncoding p) \<and>
     (case headers p of None \<Rightarrow> True | Some t \<Rightarrow> table_ok ep t) \<and>
     short_ok (correlationId p) \<and> short_ok (replyTo p) \<and> short_ok (expiration p) \<and>
     short_ok (messageId p) \<and>
     (case timestamp p of None \<Rightarrow> True
      | Some d \<Rightarrow> convertFromTimeT64 ep (convertToTimeT64 ep d) = Some d) \<and>
     short_ok (prop_type p) \<and> short_ok (userId p) \<and> short_ok (appId p)"

definition props_wire :: "'dt properties \<Rightarrow> 'dt properties" where
  "props_wire p = p\<lparr>headers := map_option table_wire (headers p)\<rparr>"

definition sample_properties :: "u64 properties" where
  "sample_properties = \<lparr>contentType = Some (bstr ''text/plain''), contentEncoding = None,
     headers = Some sample_table, deliveryMode = Some 2, priority = None, correlationId = None,
     replyTo = None, expiration = None, messageId = Some (bstr ''id-1''), timestamp = Some 1700000000,
     prop_type = None, userId = None, appId = Some (bstr ''app'')\<rparr>"

section \<open>Flags\<close>

lemma bit_mask: "bit (maskForProperty i) n \<longleftrightarrow> n = 15 - property_offset i"
  by (auto simp: maskForProperty_def bit_exp_iff)

lemma property_offset_inj: "15 - property_offset i = 15 - property_offset j \<longleftrightarrow> i = j"
  by (cases i; cases j) simp_all

lemma and_mask_iff: "f AND maskForProperty i \<noteq> 0 \<longleftrightarrow> bit f (15 - property_offset i)"
  by (simp add: maskForProperty_def push_bit_eq_mult and_exp_eq_0_iff_not_bit)

lemma bit_flags_fold:
  "bit (foldl (\<lambda>result (i, present). if present then result OR maskForProperty i else result) acc xs) n
     \<longleftrightarrow> bit acc n \<or> (\<exists>i. (i, True) \<in> set xs \<and> n = 15 - property_offset i)"
  by (induction xs arbitrary: acc) (auto simp: bit_simps bit_mask split: if_splits)

lemma propertyFlags_mask:
  "propertyFlags p AND maskForProperty i \<noteq> 0 \<longleftrightarrow> (i, True) \<in> set (property_presence p)"
  unfolding and_mask_iff propertyFlags_def bit_flags_fold
  using property_offset_inj by auto

lemma propertyFlags_present [simp]:
  "propertyFlags p AND maskForProperty CONTENT_TYPE \<noteq> 0 \<longleftrightarrow> contentType p \<noteq> None"
  "propertyFlags p AND maskForProperty CONTENT_ENCODING \<noteq> 0 \<longleftrightarrow> contentEncoding p \<noteq> None"
  "propertyFlags p AND maskForProperty HEADERS \<noteq> 0 \<longleftrightarrow> headers p \<noteq> None"
  "propertyFlags p AND maskForProperty DELIVERY_MODE \<noteq> 0 \<longleftrightarrow> deliveryMode p \<noteq> None"
  "propertyFlags p AND maskForProperty PRIORITY \<noteq> 0 \<longleftrightarrow> priority p \<noteq> None"
  "propertyFlags p AND maskForProperty CORRELATION_ID \<noteq> 0 \<longleftrightarrow> correlationId p \<noteq> None"
  "propertyFlags p AND maskForProperty REPLY_TO \<noteq> 0 \<longleftrightarrow> replyTo p \<noteq> None"
  "propertyFlags p AND maskForProperty EXPIRATION \<noteq> 0 \<longleftrightarrow> expiration p \<noteq> None"
  "propertyFlags p AND maskForProperty MESSAGE_ID \<noteq> 0 \<longleftrightarrow> messageId p \<noteq> None"
  "propertyFlags p AND maskForProperty TIME_STAMP \<noteq> 0 \<longleftrightarrow> timestamp p \<noteq> None"
  "propertyFlags p AND maskForProperty MESSAGE_TYPE \<noteq> 0 \<longleftrightarrow> prop_type p \<noteq> None"
  "propertyFlags p AND maskForProperty USER_ID \<noteq> 0 \<longleftrightarrow> userId p \<noteq> None"
  "propertyFlags p AND maskForProperty APP_ID \<noteq> 0 \<longleftrightarrow> appId p \<noteq> None"
  unfolding propertyFlags_mask by (auto simp: property_presence_def)

section \<open>Round trip\<close>

lemmas flagged_defs = decodeFlagged_def maybeEncodeNullable_def short_ok_def

lemma decodeFlagged_short:
  assumes "flags AND maskForProperty i \<noteq> 0 \<longleftrightarrow> v \<noteq> None" and "short_ok v"
  shows "decodeFlagged flags i decodeShortString (maybeEncodeNullable encodeShortString v @ r) = Some (v, r)"
    and "decodeFlagged flags i decodeShortString (maybeEncodeNullable encodeShortString v) = Some (v, [])"
  using assms by (cases v; simp add: flagged_defs)+

lemma decodeFlagged_u8:
  assumes "flags AND maskForProperty i \<noteq> 0 \<longleftrightarrow> v \<noteq> None"
  shows "decodeFlagged flags i copy_u8 (maybeEncodeNullable write_u8 v @ r) = Some (v, r)"
  using assms by (cases v) (simp_all add: flagged_defs)

lemma decodeFlagged_timestamp:
  assumes "flags AND maskForProperty i \<noteq> 0 \<longleftrightarrow> v \<noteq> None"
    and "case v of None \<Rightarrow> True | Some d \<Rightarrow> convertFromTimeT64 ep (convertToTimeT64 ep d) = Some d"
  shows "decodeFlagged flags i (decodeTimestamp ep) (maybeEncodeNullable (encodeTimestamp ep) v @ r)
    = Some (v, r)"
  using assms by (cases v) (simp_all add: flagged_defs decodeTimestamp_def encodeTimestamp_def)

lemma decodeFlagged_table:
  assumes "flags AND maskForProperty i \<noteq> 0 \<longleftrightarrow> v \<noteq> None"
    and "case v of None \<Rightarrow> True | Some t \<Rightarrow> table_ok ep t"
  shows "decodeFlagged flags i (decodeFieldTable ep) (maybeEncodeNullable (encodeFieldTable ep) v @ r)
    = Some (map_option table_wire v, r)"
  using assms by (cases v) (simp_all add: flagged_defs decodeFieldTable_encode)

lemmas decodeFlagged_codec =
  decodeFlagged_short decodeFlagged_u8 decodeFlagged_timestamp decodeFlagged_table

lemma BasicProperties_roundtrip [codec]:
  "props_ok ep p \<Longrightarrow> BasicProperties_decode ep (BasicProperties_encode ep p) = Some (props_wire p)"
  by (simp add: BasicProperties_decode_def BasicProperties_encode_def props_ok_def
      decodeFlagged_codec props_wire_def)

lemma length_maybeEncode:
  "short_ok s \<Longrightarrow> length (maybeEncodeNullable encodeShortString s) = sizeNullable (\<lambda>s. 1 + length s) s"
  "length (maybeEncodeNullable write_u8 v) = sizeNullable (\<lambda>_. 1) v"
  "length (maybeEncodeNullable (encodeTimestamp ep) d) = sizeNullable (\<lambda>_. 8) d"
  "(case t of None \<Rightarrow> True | Some t \<Rightarrow> table_ok ep t) \<Longrightarrow>
     length (maybeEncodeNullable (encodeFieldTable ep) t) = sizeNullable (\<lambda>t. 4 + encodedTableSize t) t"
  by (auto simp: maybeEncodeNullable_def sizeNullable_def short_ok_def encodeTimestamp_def
      length_encodeFieldTable split: option.splits)

lemma length_BasicProperties_encode [wire_size]:
  "props_ok ep p \<Longrightarrow> length (BasicProperties_encode ep p) = BasicProperties_encodedSize p"
  by (simp add: BasicProperties_encode_def BasicProperties_encodedSize_def props_ok_def
      length_maybeEncode)

lemma ContentHeader_roundtrip [codec]:
  "props_ok ep (ch_properties h) \<Longrightarrow> ContentHeader_decode ep (ContentHeader_encode ep h) =
     Some (h\<lparr>ch_properties := props_wire (ch_properties h)\<rparr>)"
  by (simp add: ContentHeader_decode_def ContentHeader_encode_def BasicProperties_roundtrip)

lemma length_ContentHeader_encode [wire_size]:
  "props_ok ep (ch_properties h) \<Longrightarrow>
     length (ContentHeader_encode ep h) = ContentHeader_encodedSize h"
  by (simp add: ContentHeader_encode_def ContentHeader_encodedSize_def length_BasicProperties_encode)

section \<open>Properties\<close>

text \<open>Round trip of message properties. The flag word has bit \<open>15 - i\<close> set exactly for the
  properties that are present, the encoding is \<open>encodedSize\<close> octets long, and the content header
  decodes back to the same class, body size and properties.\<close>

theorem content_header_roundtrip:
  assumes "props_ok ep (ch_properties h)"
  shows "ContentHeader_decode ep (ContentHeader_encode ep h) =
       Some (h\<lparr>ch_properties := props_wire (ch_properties h)\<rparr>) \<and>
     length (ContentHeader_encode ep h) = ContentHeader_encodedSize h \<and>
     (\<forall>i. bit (propertyFlags (ch_properties h)) (15 - property_offset i) =
       ((i, True) \<in> set (property_presence (ch_properties h))))"
  using ContentHeader_roundtrip [OF assms] length_ContentHeader_encode [OF assms]
    propertyFlags_mask [of "ch_properties h"]
  by (simp add: and_mask_iff)

lemma sample_properties_ok: "props_ok sample_epoch sample_properties"
  using sample_table_ok
  by (simp add: props_ok_def sample_properties_def short_ok_def bstr_def) (simp add: sample_epoch_def)

theorem content_header_roundtrip_witness:
  "ContentHeader_decode sample_epoch (ContentHeader_encode sample_epoch
       \<lparr>ch_classId = 60, ch_bodySize = 5, ch_properties = sample_properties\<rparr>) =
     Some \<lparr>ch_classId = 60, ch_bodySize = 5, ch_properties = props_wire sample_properties\<rparr>"
  using content_header_roundtrip [of sample_epoch
      "\<lparr>ch_classId = 60, ch_bodySize = 5, ch_properties = sample_properties\<rparr>"]
    sample_properties_ok by simp

end
