(* ===== verification/Message.thy ===== *)
theory Message
  imports Basic_Properties
begin

text \<open>
  \<open>rmqt::Message\<close>: a payload, its properties and the GUID the library tracks it by.

  \<open>bdlb::GuidUtil\<close> belongs to BDE. Its two conversions are a parameter of the model; what
  \<open>generate()\<close> returned is an argument (\<open>fresh\<close>) of the constructor that calls it.
\<close>

record 'g guid_util =
  guidToString :: "'g \<Rightarrow> bytes"
  guidFromString :: "bytes \<Rightarrow> 'g option"

record ('dt, 'g) message =
  msg_guid :: 'g
  msg_rawData :: "bytes option"
  msg_properties :: "'dt properties"

definition empty_properties :: "'dt properties" where
  "empty_properties = \<lparr>contentType = None, contentEncoding = None, headers = None, deliveryMode = None,
     priority = None, correlationId = None, replyTo = None, expiration = None, messageId = None,
     timestamp = None, prop_type = None, userId = None, appId = None\<rparr>"

definition NON_PERSISTENT :: u8 where "NON_PERSISTENT = 1"

definition PERSISTENT :: u8 where "PERSISTENT = 2"

definition initialiseProperties :: "bytes \<Rightarrow> 'dt field_table option \<Rightarrow> 'dt properties" where
  "initialiseProperties msgId hdrs =
     empty_properties\<lparr>headers := hdrs, messageId := Some msgId, deliveryMode := Some PERSISTENT\<rparr>"

definition setMessageId :: "'g guid_util \<Rightarrow> 'g \<Rightarrow> 'dt properties \<Rightarrow> 'dt properties \<times> 'g" where
  "setMessageId gu fresh p =
     (let msgId = (case messageId p of Some i \<Rightarrow> i | None \<Rightarrow> []) in
      if msgId = [] then (p\<lparr>messageId := Some (guidToString gu fresh)\<rparr>, fresh)
      else case guidFromString gu msgId of
             Some guid \<Rightarrow> (p, guid)
           | None \<Rightarrow> (p, fresh))"

text \<open>The constructor from properties, and the one from an id and headers.\<close>

definition Message_new ::
  "'g guid_util \<Rightarrow> 'g \<Rightarrow> bytes option \<Rightarrow> 'dt properties \<Rightarrow> ('dt, 'g) message" where
  "Message_new gu fresh raw p =
     (case setMessageId gu fresh p of (p', guid) \<Rightarrow>
        \<lparr>msg_guid = guid, msg_rawData = raw, msg_properties = p'\<rparr>)"

definition Message_newId ::
  "'g guid_util \<Rightarrow> 'g \<Rightarrow> bytes option \<Rightarrow> bytes \<Rightarrow> 'dt field_table option \<Rightarrow> ('dt, 'g) message" where
  "Message_newId gu fresh raw msgId hdrs = Message_new gu fresh raw (initialiseProperties msgId hdrs)"

definition Message_payload :: "('dt, 'g) message \<Rightarrow> bytes" where
  "Message_payload m = (case msg_rawData m of Some d \<Rightarrow> d | None \<Rightarrow> [])"

definition payloadSize :: "('dt, 'g) message \<Rightarrow> nat" where
  "payloadSize m = (case msg_rawData m of Some d \<Rightarrow> length d | None \<Rightarrow> 0)"

definition updateDeliveryMode :: "('dt, 'g) message \<Rightarrow> u8 \<Rightarrow> ('dt, 'g) message" where
  "updateDeliveryMode m mode = m\<lparr>msg_properties := (msg_properties m)\<lparr>deliveryMode := Some mode\<rparr>\<rparr>"

definition updateMessagePriority :: "('dt, 'g) message \<Rightarrow> u8 \<Rightarrow> ('dt, 'g) message" where
  "updateMessagePriority m p = m\<lparr>msg_properties := (msg_properties m)\<lparr>priority := Some p\<rparr>\<rparr>"

definition isPersistent :: "('dt, 'g) message \<Rightarrow> bool" where
  "isPersistent m \<longleftrightarrow>
     (case deliveryMode (msg_properties m) of Some d \<Rightarrow> d | None \<Rightarrow> NON_PERSISTENT) = PERSISTENT"

text \<open>What every constructor establishes: the message id is there and is not empty, and when it is the
  text of a GUID it is the text of the message's own one.\<close>

definition message_inv :: "'g guid_util \<Rightarrow> ('dt, 'g) message \<Rightarrow> bool" where
  "message_inv gu m \<longleftrightarrow>
     (\<exists>i. messageId (msg_properties m) = Some i \<and> i \<noteq> [] \<and>
        (\<forall>g. guidFromString gu i = Some g \<longrightarrow> msg_guid m = g))"

text \<open>What the library relies on of the GUID conversions.\<close>

definition guid_util_ok :: "'g guid_util \<Rightarrow> bool" where
  "guid_util_ok gu \<longleftrightarrow>
     (\<forall>g. guidToString gu g \<noteq> [] \<and> guidFromString gu (guidToString gu g) = Some g)"

text \<open>A concrete instance for examples: a GUID is one octet, written as \<open>#\<close> and that octet.\<close>

definition sample_guid_util :: "u8 guid_util" where
  "sample_guid_util = \<lparr>guidToString = (\<lambda>g. [35, g]),
     guidFromString = (\<lambda>s. case s of [h, g] \<Rightarrow> if h = 35 then Some g else None | _ \<Rightarrow> None)\<rparr>"

lemma payloadSize_length [simp]: "payloadSize m = length (Message_payload m)"
  by (simp add: payloadSize_def Message_payload_def split: option.split)

lemma sample_guid_util_ok: "guid_util_ok sample_guid_util"
  by (simp add: guid_util_ok_def sample_guid_util_def)

lemma Message_new_payload [simp]: "Message_payload (Message_new gu g (Some d) p) = d"
  by (simp add: Message_new_def Message_payload_def split: prod.split)

lemma Message_new_id:
  "messageId p = Some i \<Longrightarrow> i \<noteq> [] \<Longrightarrow> msg_properties (Message_new gu g raw p) = p \<and>
     msg_guid (Message_new gu g raw p) = (case guidFromString gu i of Some g' \<Rightarrow> g' | None \<Rightarrow> g)"
  by (simp add: Message_new_def setMessageId_def split: option.split)

lemma Message_new_inv:
  "guid_util_ok gu \<Longrightarrow> message_inv gu (Message_new gu fresh raw p)"
  by (auto simp: message_inv_def Message_new_def setMessageId_def guid_util_ok_def split: option.splits)

lemma message_inv_update [simp]:
  "message_inv gu (updateDeliveryMode m d) = message_inv gu m"
  "message_inv gu (updateMessagePriority m pr) = message_inv gu m"
  by (simp_all add: message_inv_def updateDeliveryMode_def updateMessagePriority_def)

section \<open>Properties\<close>

text \<open>Identity of messages. However a message is constructed, it has a non-empty message id
  afterwards; an id the caller gave is kept; when the id is the text of a GUID then that is the GUID of
  the message; changing the delivery mode or the priority keeps all of this. So reading the id back on
  the other side of the connection gives the same GUID.\<close>

theorem message_identity:
  assumes "guid_util_ok gu"
  shows "message_inv gu (Message_new gu fresh raw p) \<and>
     message_inv gu (Message_newId gu fresh raw i hdrs) \<and>
     (\<forall>i. messageId p = Some i \<longrightarrow> i \<noteq> [] \<longrightarrow>
        messageId (msg_properties (Message_new gu fresh raw p)) = Some i) \<and>
     (\<forall>m :: ('dt, 'g) message. message_inv gu m \<longrightarrow>
        message_inv gu (updateDeliveryMode m d) \<and> message_inv gu (updateMessagePriority m pr))"
proof (intro conjI allI impI)
  show "message_inv gu (Message_newId gu fresh raw i hdrs)"
    unfolding Message_newId_def by (rule Message_new_inv [OF assms])
qed (simp_all add: Message_new_inv [OF assms] Message_new_id)

theorem message_identity_witness:
  "message_inv sample_guid_util
     (Message_new sample_guid_util 7 (Some [1, 2]) (empty_properties :: u64 properties))"
  using message_identity [OF sample_guid_util_ok, of 7 "Some [1, 2]" empty_properties]
  by (rule conjunct1)

end
