(* ===== verification/Method_Codec.thy ===== *)
theory Method_Codec
  imports Field_Value
begin

text \<open>
  What every AMQP method struct of \<open>rmqamqpt\<close> provides to the layer above: an encoder, a decoder
  and a size, related by one contract. The locale \<open>method_codec\<close> states it; each method and each
  method class interprets it on its own definitions. Also here: the flag octets that the methods
  share and the skipped reserved short.
\<close>

text \<open>\<open>if (flag) bitmask |= MASK;\<close>\<close>

definition mask_if :: "bool \<Rightarrow> u8 \<Rightarrow> u8 \<Rightarrow> u8" where
  "mask_if c m b = (if c then b OR m else b)"

text \<open>\<open>if (buffer.available() < sizeof(uint16_t)) return false; buffer.skip(sizeof(uint16_t));\<close>\<close>

definition skip_short :: "bytes \<Rightarrow> bytes option" where
  "skip_short bs = (if length bs < 2 then None else Some (drop 2 bs))"

lemma mask_if_other [simp]: "m AND k = 0 \<Longrightarrow> mask_if c m b AND k = b AND k"
  by (auto simp: mask_if_def bit_eq_iff bit_simps)

lemma mask_if_self [simp]: "m \<noteq> 0 \<Longrightarrow> b AND m = 0 \<Longrightarrow> mask_if c m b AND m = 0 \<longleftrightarrow> \<not> c"
  by (auto simp: mask_if_def and.commute bit.conj_disj_distrib)

lemma skip_short_write [simp, codec]: "skip_short (write_u16 v @ r) = Some r"
  by (simp add: skip_short_def)

lemmas codec_facts = decodeFieldTable_encode decodeFieldTable_encode_last length_encodeFieldTable

locale method_codec =
  fixes encode :: "'m \<Rightarrow> bytes"
    and decode :: "bytes \<Rightarrow> 'm option"
    and encSize :: "'m \<Rightarrow> nat"
    and ok :: "'m \<Rightarrow> bool"
    and wire :: "'m \<Rightarrow> 'm"
  assumes roundtrip: "ok m \<Longrightarrow> decode (encode m) = Some (wire m)"
    and size: "ok m \<Longrightarrow> length (encode m) = encSize m"
begin

text \<open>Two values with the same encoding are the same to the receiver.\<close>

lemma encode_inj: "ok m \<Longrightarrow> ok m' \<Longrightarrow> encode m = encode m' \<Longrightarrow> wire m = wire m'"
  using roundtrip [of m] roundtrip [of m'] by simp

end

end
