(* ===== verification/Basic_Methods.thy ===== *)
theory Basic_Methods
  imports Method_Codec
begin

text \<open>
  The AMQP \<open>basic\<close> class: the eleven method structs of \<open>rmqamqpt_basic*\<close> and the variant
  \<open>rmqamqpt::BasicMethod\<close> that dispatches over them by method id.
  Each struct has its encoder, decoder and size next to it; \<open>_ok\<close> are the values whose strings and
  tables fit their length prefixes and \<open>_wire\<close> is what the other end reads.
\<close>

section \<open>Basic methods\<close>

record BasicAck =
  ack_deliveryTag :: u64
  ack_multiple :: bool

definition BasicAck_encode :: "BasicAck \<Rightarrow> bytes" where
  "BasicAck_encode m =
     write_u64 (ack_deliveryTag m)
     @ write_bool (ack_multiple m)"

definition BasicAck_decode :: "bytes \<Rightarrow> BasicAck option" where
  "BasicAck_decode data = do {
     (deliveryTag, b) \<leftarrow> copy_u64 data;
     (bitmask, b) \<leftarrow> copy_u8 b;
     Some \<lparr>ack_deliveryTag = deliveryTag, ack_multiple = bitmask AND 1 \<noteq> 0\<rparr> }"

definition BasicAck_encodedSize :: "BasicAck \<Rightarrow> nat" where
  "BasicAck_encodedSize m = 8 + 1"

record BasicCancel =
  cancel_consumerTag :: bytes
  cancel_noWait :: bool

definition BasicCancel_encode :: "BasicCancel \<Rightarrow> bytes" where
  "BasicCancel_encode m =
     encodeShortString (cancel_consumerTag m)
     @ write_bool (cancel_noWait m)"

definition BasicCancel_decode :: "bytes \<Rightarrow> BasicCancel option" where
  "BasicCancel_decode data = do {
     (consumerTag, b) \<leftarrow> decodeShortString data;
     (bitmask, b) \<leftarrow> copy_u8 b;
     Some \<lparr>cancel_consumerTag = consumerTag, cancel_noWait = bitmask AND 1 \<noteq> 0\<rparr> }"

definition BasicCancel_encodedSize :: "BasicCancel \<Rightarrow> nat" where
  "BasicCancel_encodedSize m = 2 * 1 + length (cancel_consumerTag m)"

definition BasicCancel_ok :: "BasicCancel \<Rightarrow> bool" where
  "BasicCancel_ok m \<longleftrightarrow> length (cancel_consumerTag m) \<le> 255"

record BasicCancelOk =
  cancelOk_consumerTag :: bytes

definition BasicCancelOk_encode :: "BasicCancelOk \<Rightarrow> bytes" where
  "BasicCancelOk_encode m =
     encodeShortString (cancelOk_consumerTag m)"

definition BasicCancelOk_decode :: "bytes \<Rightarrow> BasicCancelOk option" where
  "BasicCancelOk_decode data = do {
     (consumerTag, b) \<leftarrow> decodeShortString data;
     Some \<lparr>cancelOk_consumerTag = consumerTag\<rparr> }"

definition BasicCancelOk_encodedSize :: "BasicCancelOk \<Rightarrow> nat" where
  "BasicCancelOk_encodedSize m = 1 + length (cancelOk_consumerTag m)"

definition BasicCancelOk_ok :: "BasicCancelOk \<Rightarrow> bool" where
  "BasicCancelOk_ok m \<longleftrightarrow> length (cancelOk_consumerTag m) \<le> 255"

record 'dt BasicConsume =
  consume_queue :: bytes
  consume_consumerTag :: bytes
  consume_noLocal :: bool
  consume_noAck :: bool
  consume_exclusive :: bool
  consume_noWait :: bool
  consume_arguments :: "'dt field_table"

definition BasicConsume_encode :: "'dt epoch_util \<Rightarrow> 'dt BasicConsume \<Rightarrow> bytes" where
  "BasicConsume_encode ep m =
     write_u16 0
     @ encodeShortString (consume_queue m)
     @ encodeShortString (consume_consumerTag m)
     @ write_u8 (mask_if (consume_noWait m) 8 (mask_if (consume_exclusive m) 4 (mask_if (consume_noAck m) 2 (mask_if (consume_noLocal m) 1 0))))
     @ encodeFieldTable ep (consume_arguments m)"

definition BasicConsume_decode :: "'dt epoch_util \<Rightarrow> bytes \<Rightarrow> 'dt BasicConsume option" where
  "BasicConsume_decode ep data = do {
     (reserved1, b) \<leftarrow> copy_u16 data;
     (queue, b) \<leftarrow> decodeShortString b;
     (consumerTag, b) \<leftarrow> decodeShortString b;
     (bitmask, b) \<leftarrow> copy_u8 b;
     (arguments, b) \<leftarrow> decodeFieldTable ep b;
     Some \<lparr>consume_queue = queue, consume_consumerTag = consumerTag,
           consume_noLocal = bitmask AND 1 \<noteq> 0,
           consume_noAck = bitmask AND 2 \<noteq> 0,
           consume_exclusive = bitmask AND 4 \<noteq> 0,
           consume_noWait = bitmask AND 8 \<noteq> 0, consume_arguments = arguments\<rparr> }"

definition BasicConsume_encodedSize :: "'dt BasicConsume \<Rightarrow> nat" where
  "BasicConsume_encodedSize m = 2 + 3 * 1 + 4 + length (consume_queue m) + length (consume_consumerTag m) + encodedTableSize (consume_arguments m)"

definition BasicConsume_ok :: "'dt epoch_util \<Rightarrow> 'dt BasicConsume \<Rightarrow> bool" where
  "BasicConsume_ok ep m \<longleftrightarrow> length (consume_queue m) \<le> 255 \<and> length (consume_consumerTag m) \<le> 255 \<and> table_ok ep (consume_arguments m)"

definition BasicConsume_wire :: "'dt BasicConsume \<Rightarrow> 'dt BasicConsume" where
  "BasicConsume_wire m = m\<lparr>consume_arguments := table_wire (consume_arguments m)\<rparr>"

record BasicConsumeOk =
  consumeOk_consumerTag :: bytes

definition BasicConsumeOk_encode :: "BasicConsumeOk \<Rightarrow> bytes" where
  "BasicConsumeOk_encode m =
     encodeShortString (consumeOk_consumerTag m)"

definition BasicConsumeOk_decode :: "bytes \<Rightarrow> BasicConsumeOk option" where
  "BasicConsumeOk_decode data = do {
     (consumerTag, b) \<leftarrow> decodeShortString data;
     Some \<lparr>consumeOk_consumerTag = consumerTag\<rparr> }"

definition BasicConsumeOk_encodedSize :: "BasicConsumeOk \<Rightarrow> nat" where
  "BasicConsumeOk_encodedSize m = 1 + length (consumeOk_consumerTag m)"

definition BasicConsumeOk_ok :: "BasicConsumeOk \<Rightarrow> bool" where
  "BasicConsumeOk_ok m \<longleftrightarrow> length (consumeOk_consumerTag m) \<le> 255"

record BasicDeliver =
  deliver_consumerTag :: bytes
  deliver_deliveryTag :: u64
  deliver_redelivered :: bool
  deliver_exchange :: bytes
  deliver_routingKey :: bytes

definition BasicDeliver_encode :: "BasicDeliver \<Rightarrow> bytes" where
  "BasicDeliver_encode m =
     encodeShortString (deliver_consumerTag m)
     @ write_u64 (deliver_deliveryTag m)
     @ write_bool (deliver_redelivered m)
     @ encodeShortString (deliver_exchange m)
     @ encodeShortString (deliver_routingKey m)"

definition BasicDeliver_decode :: "bytes \<Rightarrow> BasicDeliver option" where
  "BasicDeliver_decode data = do {
     (consumerTag, b) \<leftarrow> decodeShortString data;
     (deliveryTag, b) \<leftarrow> copy_u64 b;
     (bitmask, b) \<leftarrow> copy_u8 b;
     (exchange, b) \<leftarrow> decodeShortString b;
     (routingKey, b) \<leftarrow> decodeShortString b;
     Some \<lparr>deliver_consumerTag = consumerTag, deliver_deliveryTag = deliveryTag,
           deliver_redelivered = bitmask AND 1 \<noteq> 0, deliver_exchange = exchange,
           deliver_routingKey = routingKey\<rparr> }"

definition BasicDeliver_encodedSize :: "BasicDeliver \<Rightarrow> nat" where
  "BasicDeliver_encodedSize m = 4 * 1 + 8 + length (deliver_consumerTag m) + length (deliver_exchange m) + length (deliver_routingKey m)"

definition BasicDeliver_ok :: "BasicDeliver \<Rightarrow> bool" where
  "BasicDeliver_ok m \<longleftrightarrow> length (deliver_consumerTag m) \<le> 255 \<and> length (deliver_exchange m) \<le> 255 \<and> length (deliver_routingKey m) \<le> 255"

record BasicNack =
  nack_deliveryTag :: u64
  nack_requeue :: bool
  nack_multiple :: bool

definition BasicNack_encode :: "BasicNack \<Rightarrow> bytes" where
  "BasicNack_encode m =
     write_u64 (nack_deliveryTag m)
     @ write_u8 (mask_if (nack_requeue m) 2 (mask_if (nack_multiple m) 1 0))"

definition BasicNack_decode :: "bytes \<Rightarrow> BasicNack option" where
  "BasicNack_decode data = do {
     (deliveryTag, b) \<leftarrow> copy_u64 data;
     (bitmask, b) \<leftarrow> copy_u8 b;
     Some \<lparr>nack_deliveryTag = deliveryTag, nack_requeue = bitmask AND 2 \<noteq> 0,
           nack_multiple = bitmask AND 1 \<noteq> 0\<rparr> }"

definition BasicNack_encodedSize :: "BasicNack \<Rightarrow> nat" where
  "BasicNack_encodedSize m = 8 + 1"

record BasicPublish =
  publish_exchangeName :: bytes
  publish_routingKey :: bytes
  publish_mandatory :: bool
  publish_immediate :: bool

definition BasicPublish_encode :: "BasicPublish \<Rightarrow> bytes" where
  "BasicPublish_encode m =
     write_u16 0
     @ encodeShortString (publish_exchangeName m)
     @ encodeShortString (publish_routingKey m)
     @ write_u8 (mask_if (publish_immediate m) 2 (mask_if (publish_mandatory m) 1 0))"

definition BasicPublish_decode :: "bytes \<Rightarrow> BasicPublish option" where
  "BasicPublish_decode data = do {
     (reserved1, b) \<leftarrow> copy_u16 data;
     (exchangeName, b) \<leftarrow> decodeShortString b;
     (routingKey, b) \<leftarrow> decodeShortString b;
     (bitmask, b) \<leftarrow> copy_u8 b;
     Some \<lparr>publish_exchangeName = exchangeName, publish_routingKey = routingKey,
           publish_mandatory = bitmask AND 1 \<noteq> 0,
           publish_immediate = bitmask AND 2 \<noteq> 0\<rparr> }"

definition BasicPublish_encodedSize :: "BasicPublish \<Rightarrow> nat" where
  "BasicPublish_encodedSize m = 2 + 3 * 1 + length (publish_exchangeName m) + length (publish_routingKey m)"

definition BasicPublish_ok :: "BasicPublish \<Rightarrow> bool" where
  "BasicPublish_ok m \<longleftrightarrow> length (publish_exchangeName m) \<le> 255 \<and> length (publish_routingKey m) \<le> 255"

record BasicQoS =
  qos_prefetchSize :: u32
  qos_prefetchCount :: u16
  qos_global :: bool

definition BasicQoS_encode :: "BasicQoS \<Rightarrow> bytes" where
  "BasicQoS_encode m =
     write_u32 (qos_prefetchSize m)
     @ write_u16 (qos_prefetchCount m)
     @ write_bool (qos_global m)"

definition BasicQoS_decode :: "bytes \<Rightarrow> BasicQoS option" where
  "BasicQoS_decode data = do {
     (prefetchSize, b) \<leftarrow> copy_u32 data;
     (prefetchCount, b) \<leftarrow> copy_u16 b;
     (bitmask, b) \<leftarrow> copy_u8 b;
     Some \<lparr>qos_prefetchSize = prefetchSize, qos_prefetchCount = prefetchCount,
           qos_global = bitmask AND 1 \<noteq> 0\<rparr> }"

definition BasicQoS_encodedSize :: "BasicQoS \<Rightarrow> nat" where
  "BasicQoS_encodedSize m = 4 + 2 + 1"

type_synonym BasicQoSOk = unit

definition BasicQoSOk_encode :: "BasicQoSOk \<Rightarrow> bytes" where
  "BasicQoSOk_encode m =
     []"

definition BasicQoSOk_decode :: "bytes \<Rightarrow> BasicQoSOk option" where
  "BasicQoSOk_decode data = Some ()"

definition BasicQoSOk_encodedSize :: "BasicQoSOk \<Rightarrow> nat" where
  "BasicQoSOk_encodedSize m = 0"

record BasicReturn =
  return_replyCode :: u16
  return_replyText :: bytes
  return_exchange :: bytes
  return_routingKey :: bytes

definition BasicReturn_encode :: "BasicReturn \<Rightarrow> bytes" where
  "BasicReturn_encode m =
     write_u16 (return_replyCode m)
     @ encodeShortString (return_replyText m)
     @ encodeShortString (return_exchange m)
     @ encodeShortString (return_routingKey m)"

definition BasicReturn_decode :: "bytes \<Rightarrow> BasicReturn option" where
  "BasicReturn_decode data = do {
     (replyCode, b) \<leftarrow> copy_u16 data;
     (replyText, b) \<leftarrow> decodeShortString b;
     (exchange, b) \<leftarrow> decodeShortString b;
     (routingKey, b) \<leftarrow> decodeShortString b;
     Some \<lparr>return_replyCode = replyCode, return_replyText = replyText,
           return_exchange = exchange, return_routingKey = routingKey\<rparr> }"

definition BasicReturn_encodedSize :: "BasicReturn \<Rightarrow> nat" where
  "BasicReturn_encodedSize m = 2 + 3 * 1 + length (return_replyText m) + length (return_exchange m) + length (return_routingKey m)"

definition BasicReturn_ok :: "BasicReturn \<Rightarrow> bool" where
  "BasicReturn_ok m \<longleftrightarrow> length (return_replyText m) \<le> 255 \<and> length (return_exchange m) \<le> 255 \<and> length (return_routingKey m) \<le> 255"

datatype 'dt BasicMethod =
    Basic_Nil
  | M_BasicAck BasicAck
  | M_BasicCancel BasicCancel
  | M_BasicCancelOk BasicCancelOk
  | M_BasicConsume "'dt BasicConsume"
  | M_BasicConsumeOk BasicConsumeOk
  | M_BasicDeliver BasicDeliver
  | M_BasicNack BasicNack
  | M_BasicPublish BasicPublish
  | M_BasicQoS BasicQoS
  | M_BasicQoSOk
  | M_BasicReturn BasicReturn

fun BasicMethod_methodId :: "'dt BasicMethod \<Rightarrow> u16" where
  "BasicMethod_methodId Basic_Nil = 0"
| "BasicMethod_methodId (M_BasicAck _) = 80"
| "BasicMethod_methodId (M_BasicCancel _) = 30"
| "BasicMethod_methodId (M_BasicCancelOk _) = 31"
| "BasicMethod_methodId (M_BasicConsume _) = 20"
| "BasicMethod_methodId (M_BasicConsumeOk _) = 21"
| "BasicMethod_methodId (M_BasicDeliver _) = 60"
| "BasicMethod_methodId (M_BasicNack _) = 120"
| "BasicMethod_methodId (M_BasicPublish _) = 40"
| "BasicMethod_methodId (M_BasicQoS _) = 10"
| "BasicMethod_methodId M_BasicQoSOk = 11"
| "BasicMethod_methodId (M_BasicReturn _) = 50"

fun BasicMethod_encode :: "'dt epoch_util \<Rightarrow> 'dt BasicMethod \<Rightarrow> bytes" where
  "BasicMethod_encode ep Basic_Nil = []"
| "BasicMethod_encode ep (M_BasicAck m) = write_u16 80 @ BasicAck_encode m"
| "BasicMethod_encode ep (M_BasicCancel m) = write_u16 30 @ BasicCancel_encode m"
| "BasicMethod_encode ep (M_BasicCancelOk m) = write_u16 31 @ BasicCancelOk_encode m"
| "BasicMethod_encode ep (M_BasicConsume m) = write_u16 20 @ BasicConsume_encode ep m"
| "BasicMethod_encode ep (M_BasicConsumeOk m) = write_u16 21 @ BasicConsumeOk_encode m"
| "BasicMethod_encode ep (M_BasicDeliver m) = write_u16 60 @ BasicDeliver_encode m"
| "BasicMethod_encode ep (M_BasicNack m) = write_u16 120 @ BasicNack_encode m"
| "BasicMethod_encode ep (M_BasicPublish m) = write_u16 40 @ BasicPublish_encode m"
| "BasicMethod_encode ep (M_BasicQoS m) = write_u16 10 @ BasicQoS_encode m"
| "BasicMethod_encode ep M_BasicQoSOk = write_u16 11 @ BasicQoSOk_encode ()"
| "BasicMethod_encode ep (M_BasicReturn m) = write_u16 50 @ BasicReturn_encode m"

definition BasicMethod_decode :: "'dt epoch_util \<Rightarrow> bytes \<Rightarrow> 'dt BasicMethod option" where
  "BasicMethod_decode ep data = do {
     (methodId, b) \<leftarrow> copy_u16 data;
     (if methodId = 80 then map_option M_BasicAck (BasicAck_decode b)
      else if methodId = 30 then map_option M_BasicCancel (BasicCancel_decode b)
      else if methodId = 31 then map_option M_BasicCancelOk (BasicCancelOk_decode b)
      else if methodId = 20 then map_option M_BasicConsume (BasicConsume_decode ep b)
      else if methodId = 21 then map_option M_BasicConsumeOk (BasicConsumeOk_decode b)
      else if methodId = 60 then map_option M_BasicDeliver (BasicDeliver_decode b)
      else if methodId = 120 then map_option M_BasicNack (BasicNack_decode b)
      else if methodId = 40 then map_option M_BasicPublish (BasicPublish_decode b)
      else if methodId = 50 then map_option M_BasicReturn (BasicReturn_decode b)
      else if methodId = 10 then map_option M_BasicQoS (BasicQoS_decode b)
      else if methodId = 11 then map_option (\<lambda>_. M_BasicQoSOk) (BasicQoSOk_decode b)
      else None) }"

fun BasicMethod_encodedSize :: "'dt BasicMethod \<Rightarrow> nat" where
  "BasicMethod_encodedSize Basic_Nil = 2 + 0"
| "BasicMethod_encodedSize (M_BasicAck m) = 2 + BasicAck_encodedSize m"
| "BasicMethod_encodedSize (M_BasicCancel m) = 2 + BasicCancel_encodedSize m"
| "BasicMethod_encodedSize (M_BasicCancelOk m) = 2 + BasicCancelOk_encodedSize m"
| "BasicMethod_encodedSize (M_BasicConsume m) = 2 + BasicConsume_encodedSize m"
| "BasicMethod_encodedSize (M_BasicConsumeOk m) = 2 + BasicConsumeOk_encodedSize m"
| "BasicMethod_encodedSize (M_BasicDeliver m) = 2 + BasicDeliver_encodedSize m"
| "BasicMethod_encodedSize (M_BasicNack m) = 2 + BasicNack_encodedSize m"
| "BasicMethod_encodedSize (M_BasicPublish m) = 2 + BasicPublish_encodedSize m"
| "BasicMethod_encodedSize (M_BasicQoS m) = 2 + BasicQoS_encodedSize m"
| "BasicMethod_encodedSize M_BasicQoSOk = 2 + BasicQoSOk_encodedSize ()"
| "BasicMethod_encodedSize (M_BasicReturn m) = 2 + BasicReturn_encodedSize m"

fun BasicMethod_ok :: "'dt epoch_util \<Rightarrow> 'dt BasicMethod \<Rightarrow> bool" where
  "BasicMethod_ok ep Basic_Nil \<longleftrightarrow> False"
| "BasicMethod_ok ep (M_BasicAck _) \<longleftrightarrow> True"
| "BasicMethod_ok ep (M_BasicCancel m) \<longleftrightarrow> BasicCancel_ok m"
| "BasicMethod_ok ep (M_BasicCancelOk m) \<longleftrightarrow> BasicCancelOk_ok m"
| "BasicMethod_ok ep (M_BasicConsume m) \<longleftrightarrow> BasicConsume_ok ep m"
| "BasicMethod_ok ep (M_BasicConsumeOk m) \<longleftrightarrow> BasicConsumeOk_ok m"
| "BasicMethod_ok ep (M_BasicDeliver m) \<longleftrightarrow> BasicDeliver_ok m"
| "BasicMethod_ok ep (M_BasicNack _) \<longleftrightarrow> True"
| "BasicMethod_ok ep (M_BasicPublish m) \<longleftrightarrow> BasicPublish_ok m"
| "BasicMethod_ok ep (M_BasicQoS _) \<longleftrightarrow> True"
| "BasicMethod_ok ep M_BasicQoSOk \<longleftrightarrow> True"
| "BasicMethod_ok ep (M_BasicReturn m) \<longleftrightarrow> BasicReturn_ok m"

fun BasicMethod_wire :: "'dt BasicMethod \<Rightarrow> 'dt BasicMethod" where
  "BasicMethod_wire (M_BasicConsume m) = M_BasicConsume (BasicConsume_wire m)"
| "BasicMethod_wire m = m"

section \<open>Every method keeps the codec contract\<close>

interpretation ack: method_codec BasicAck_encode BasicAck_decode BasicAck_encodedSize "\<lambda>_. True" "\<lambda>m. m"
  by unfold_locales (simp_all add: BasicAck_encode_def BasicAck_decode_def BasicAck_encodedSize_def codec_facts)

interpretation cancel: method_codec BasicCancel_encode BasicCancel_decode BasicCancel_encodedSize BasicCancel_ok "\<lambda>m. m"
  by unfold_locales (simp_all add: BasicCancel_encode_def BasicCancel_decode_def BasicCancel_encodedSize_def BasicCancel_ok_def codec_facts)

interpretation cancelOk: method_codec BasicCancelOk_encode BasicCancelOk_decode BasicCancelOk_encodedSize BasicCancelOk_ok "\<lambda>m. m"
  by unfold_locales (simp_all add: BasicCancelOk_encode_def BasicCancelOk_decode_def BasicCancelOk_encodedSize_def BasicCancelOk_ok_def codec_facts)

interpretation consume: method_codec "BasicConsume_encode ep" "BasicConsume_decode ep" BasicConsume_encodedSize "BasicConsume_ok ep" BasicConsume_wire for ep
  by unfold_locales (simp_all add: BasicConsume_encode_def BasicConsume_decode_def BasicConsume_encodedSize_def BasicConsume_ok_def BasicConsume_wire_def codec_facts)

interpretation consumeOk: method_codec BasicConsumeOk_encode BasicConsumeOk_decode BasicConsumeOk_encodedSize BasicConsumeOk_ok "\<lambda>m. m"
  by unfold_locales (simp_all add: BasicConsumeOk_encode_def BasicConsumeOk_decode_def BasicConsumeOk_encodedSize_def BasicConsumeOk_ok_def codec_facts)

interpretation deliver: method_codec BasicDeliver_encode BasicDeliver_decode BasicDeliver_encodedSize BasicDeliver_ok "\<lambda>m. m"
  by unfold_locales (simp_all add: BasicDeliver_encode_def BasicDeliver_decode_def BasicDeliver_encodedSize_def BasicDeliver_ok_def codec_facts)

interpretation nack: method_codec BasicNack_encode BasicNack_decode BasicNack_encodedSize "\<lambda>_. True" "\<lambda>m. m"
  by unfold_locales (simp_all add: BasicNack_encode_def BasicNack_decode_def BasicNack_encodedSize_def codec_facts)

interpretation publish: method_codec BasicPublish_encode BasicPublish_decode BasicPublish_encodedSize BasicPublish_ok "\<lambda>m. m"
  by unfold_locales (simp_all add: BasicPublish_encode_def BasicPublish_decode_def BasicPublish_encodedSize_def BasicPublish_ok_def codec_facts)

interpretation qos: method_codec BasicQoS_encode BasicQoS_decode BasicQoS_encodedSize "\<lambda>_. True" "\<lambda>m. m"
  by unfold_locales (simp_all add: BasicQoS_encode_def BasicQoS_decode_def BasicQoS_encodedSize_def codec_facts)

interpretation qosOk: method_codec BasicQoSOk_encode BasicQoSOk_decode BasicQoSOk_encodedSize "\<lambda>_. True" "\<lambda>m. m"
  by unfold_locales (simp_all add: BasicQoSOk_encode_def BasicQoSOk_decode_def BasicQoSOk_encodedSize_def codec_facts)

interpretation return: method_codec BasicReturn_encode BasicReturn_decode BasicReturn_encodedSize BasicReturn_ok "\<lambda>m. m"
  by unfold_locales (simp_all add: BasicReturn_encode_def BasicReturn_decode_def BasicReturn_encodedSize_def BasicReturn_ok_def codec_facts)

lemma BasicMethod_roundtrip:
  "BasicMethod_ok ep m \<Longrightarrow>
     BasicMethod_decode ep (BasicMethod_encode ep m) = Some (BasicMethod_wire m)"
  by (cases m) (simp_all add: BasicMethod_decode_def ack.roundtrip cancel.roundtrip cancelOk.roundtrip consume.roundtrip consumeOk.roundtrip deliver.roundtrip nack.roundtrip publish.roundtrip qos.roundtrip qosOk.roundtrip return.roundtrip)

interpretation basicClass: method_codec "BasicMethod_encode ep" "BasicMethod_decode ep" BasicMethod_encodedSize
  "BasicMethod_ok ep" BasicMethod_wire for ep
proof (unfold_locales, goal_cases)
  case (1 m)
  then show ?case by (rule BasicMethod_roundtrip)
next
  case (2 m)
  then show ?case by (cases m) (simp_all add: ack.size cancel.size cancelOk.size consume.size consumeOk.size deliver.size nack.size publish.size qos.size qosOk.size return.size)
qed

end
