(* ===== verification/Channel_Methods.thy ===== *)
theory Channel_Methods
  imports Method_Codec
begin

text \<open>
  The AMQP \<open>channel\<close> and \<open>confirm\<close> classes: the method structs of \<open>rmqamqpt_channel*\<close> and
  \<open>rmqamqpt_confirm*\<close> and the variants \<open>ChannelMethod\<close> and \<open>ConfirmMethod\<close>.
  Each struct has its encoder, decoder and size next to it; \<open>_ok\<close> are the values whose strings and
  tables fit their length prefixes and \<open>_wire\<close> is what the other end reads.
\<close>

section \<open>Channel methods\<close>

type_synonym ChannelOpen = unit

definition ChannelOpen_encode :: "ChannelOpen \<Rightarrow> bytes" where
  "ChannelOpen_encode m =
     encodeShortString []"

definition ChannelOpen_decode :: "bytes \<Rightarrow> ChannelOpen option" where
  "ChannelOpen_decode data = do {
     (dummy, b) \<leftarrow> decodeShortString data;
     Some () }"

definition ChannelOpen_encodedSize :: "ChannelOpen \<Rightarrow> nat" where
  "ChannelOpen_encodedSize m = 1"

type_synonym ChannelOpenOk = unit

definition ChannelOpenOk_encode :: "ChannelOpenOk \<Rightarrow> bytes" where
  "ChannelOpenOk_encode m =
     encodeLongString []"

definition ChannelOpenOk_decode :: "bytes \<Rightarrow> ChannelOpenOk option" where
  "ChannelOpenOk_decode data = do {
     (dummy, b) \<leftarrow> decodeLongString data;
     Some () }"

definition ChannelOpenOk_encodedSize :: "ChannelOpenOk \<Rightarrow> nat" where
  "ChannelOpenOk_encodedSize m = 4"

record ChannelFlow =
  flow_activeFlow :: bool

definition ChannelFlow_encode :: "ChannelFlow \<Rightarrow> bytes" where
  "ChannelFlow_encode m =
     write_bool (flow_activeFlow m)"

definition ChannelFlow_decode :: "bytes \<Rightarrow> ChannelFlow option" where
  "ChannelFlow_decode data = do {
     (bitmask, b) \<leftarrow> copy_u8 data;
     Some \<lparr>flow_activeFlow = bitmask AND 1 \<noteq> 0\<rparr> }"

definition ChannelFlow_encodedSize :: "ChannelFlow \<Rightarrow> nat" where
  "ChannelFlow_encodedSize m = 1"

record ChannelFlowOk =
  flowOk_activeFlow :: bool

definition ChannelFlowOk_encode :: "ChannelFlowOk \<Rightarrow> bytes" where
  "ChannelFlowOk_encode m =
     write_bool (flowOk_activeFlow m)"

definition ChannelFlowOk_decode :: "bytes \<Rightarrow> ChannelFlowOk option" where
  "ChannelFlowOk_decode data = do {
     (bitmask, b) \<leftarrow> copy_u8 data;
     Some \<lparr>flowOk_activeFlow = bitmask AND 1 \<noteq> 0\<rparr> }"

definition ChannelFlowOk_encodedSize :: "ChannelFlowOk \<Rightarrow> nat" where
  "ChannelFlowOk_encodedSize m = 1"

record ChannelClose =
  chClose_replyCode :: u16
  chClose_replyText :: bytes
  chClose_classId :: u16
  chClose_methodId :: u16

definition ChannelClose_encode :: "ChannelClose \<Rightarrow> bytes" where
  "ChannelClose_encode m =
     write_u16 (chClose_replyCode m)
     @ encodeShortString (chClose_replyText m)
     @ write_u16 (chClose_classId m)
     @ write_u16 (chClose_methodId m)"

definition ChannelClose_decode :: "bytes \<Rightarrow> ChannelClose option" where
  "ChannelClose_decode data = do {
     (replyCode, b) \<leftarrow> copy_u16 data;
     (replyText, b) \<leftarrow> decodeShortString b;
     (classId, b) \<leftarrow> copy_u16 b;
     (methodId, b) \<leftarrow> copy_u16 b;
     Some \<lparr>chClose_replyCode = replyCode, chClose_replyText = replyText,
           chClose_classId = classId, chClose_methodId = methodId\<rparr> }"

definition ChannelClose_encodedSize :: "ChannelClose \<Rightarrow> nat" where
  "ChannelClose_encodedSize m = 3 * 2 + 1 + length (chClose_replyText m)"

definition ChannelClose_ok :: "ChannelClose \<Rightarrow> bool" where
  "ChannelClose_ok m \<longleftrightarrow> length (chClose_replyText m) \<le> 255"

type_synonym ChannelCloseOk = unit

definition ChannelCloseOk_encode :: "ChannelCloseOk \<Rightarrow> bytes" where
  "ChannelCloseOk_encode m =
     []"

definition ChannelCloseOk_decode :: "bytes \<Rightarrow> ChannelCloseOk option" where
  "ChannelCloseOk_decode data = Some ()"

definition ChannelCloseOk_encodedSize :: "ChannelCloseOk \<Rightarrow> nat" where
  "ChannelCloseOk_encodedSize m = 0"

datatype ChannelMethod =
    Channel_Nil
  | M_ChannelOpen
  | M_ChannelOpenOk
  | M_ChannelFlow ChannelFlow
  | M_ChannelFlowOk ChannelFlowOk
  | M_ChannelClose ChannelClose
  | M_ChannelCloseOk

fun ChannelMethod_methodId :: "ChannelMethod \<Rightarrow> u16" where
  "ChannelMethod_methodId Channel_Nil = 0"
| "ChannelMethod_methodId M_ChannelOpen = 10"
| "ChannelMethod_methodId M_ChannelOpenOk = 11"
| "ChannelMethod_methodId (M_ChannelFlow _) = 20"
| "ChannelMethod_methodId (M_ChannelFlowOk _) = 21"
| "ChannelMethod_methodId (M_ChannelClose _) = 40"
| "ChannelMethod_methodId M_ChannelCloseOk = 41"

fun ChannelMethod_encode :: "ChannelMethod \<Rightarrow> bytes" where
  "ChannelMethod_encode Channel_Nil = []"
| "ChannelMethod_encode M_ChannelOpen = write_u16 10 @ ChannelOpen_encode ()"
| "ChannelMethod_encode M_ChannelOpenOk = write_u16 11 @ ChannelOpenOk_encode ()"
| "ChannelMethod_encode (M_ChannelFlow m) = write_u16 20 @ ChannelFlow_encode m"
| "ChannelMethod_encode (M_ChannelFlowOk m) = write_u16 21 @ ChannelFlowOk_encode m"
| "ChannelMethod_encode (M_ChannelClose m) = write_u16 40 @ ChannelClose_encode m"
| "ChannelMethod_encode M_ChannelCloseOk = write_u16 41 @ ChannelCloseOk_encode ()"

definition ChannelMethod_decode :: "bytes \<Rightarrow> ChannelMethod option" where
  "ChannelMethod_decode data = do {
     (methodId, b) \<leftarrow> copy_u16 data;
     (if methodId = 10 then map_option (\<lambda>_. M_ChannelOpen) (ChannelOpen_decode b)
      else if methodId = 11 then map_option (\<lambda>_. M_ChannelOpenOk) (ChannelOpenOk_decode b)
      else if methodId = 20 then map_option M_ChannelFlow (ChannelFlow_decode b)
      else if methodId = 21 then map_option M_ChannelFlowOk (ChannelFlowOk_decode b)
      else if methodId = 40 then map_option M_ChannelClose (ChannelClose_decode b)
      else if methodId = 41 then map_option (\<lambda>_. M_ChannelCloseOk) (ChannelCloseOk_decode b)
      else None) }"

fun ChannelMethod_encodedSize :: "ChannelMethod \<Rightarrow> nat" where
  "ChannelMethod_encodedSize Channel_Nil = 2 + 0"
| "ChannelMethod_encodedSize M_ChannelOpen = 2 + ChannelOpen_encodedSize ()"
| "ChannelMethod_encodedSize M_ChannelOpenOk = 2 + ChannelOpenOk_encodedSize ()"
| "ChannelMethod_encodedSize (M_ChannelFlow m) = 2 + ChannelFlow_encodedSize m"
| "ChannelMethod_encodedSize (M_ChannelFlowOk m) = 2 + ChannelFlowOk_encodedSize m"
| "ChannelMethod_encodedSize (M_ChannelClose m) = 2 + ChannelClose_encodedSize m"
| "ChannelMethod_encodedSize M_ChannelCloseOk = 2 + ChannelCloseOk_encodedSize ()"

fun ChannelMethod_ok :: "ChannelMethod \<Rightarrow> bool" where
  "ChannelMethod_ok Channel_Nil \<longleftrightarrow> False"
| "ChannelMethod_ok M_ChannelOpen \<longleftrightarrow> True"
| "ChannelMethod_ok M_ChannelOpenOk \<longleftrightarrow> True"
| "ChannelMethod_ok (M_ChannelFlow _) \<longleftrightarrow> True"
| "ChannelMethod_ok (M_ChannelFlowOk _) \<longleftrightarrow> True"
| "ChannelMethod_ok (M_ChannelClose m) \<longleftrightarrow> ChannelClose_ok m"
| "ChannelMethod_ok M_ChannelCloseOk \<longleftrightarrow> True"

section \<open>Confirm methods\<close>

record ConfirmSelect =
  select_noWait :: bool

definition ConfirmSelect_encode :: "ConfirmSelect \<Rightarrow> bytes" where
  "ConfirmSelect_encode m =
     write_bool (select_noWait m)"

definition ConfirmSelect_decode :: "bytes \<Rightarrow> ConfirmSelect option" where
  "ConfirmSelect_decode data = do {
     (bitmask, b) \<leftarrow> copy_u8 data;
     Some \<lparr>select_noWait = bitmask AND 1 \<noteq> 0\<rparr> }"

definition ConfirmSelect_encodedSize :: "ConfirmSelect \<Rightarrow> nat" where
  "ConfirmSelect_encodedSize m = 1"

type_synonym ConfirmSelectOk = unit

definition ConfirmSelectOk_encode :: "ConfirmSelectOk \<Rightarrow> bytes" where
  "ConfirmSelectOk_encode m =
     []"

definition ConfirmSelectOk_decode :: "bytes \<Rightarrow> ConfirmSelectOk option" where
  "ConfirmSelectOk_decode data = Some ()"

definition ConfirmSelectOk_encodedSize :: "ConfirmSelectOk \<Rightarrow> nat" where
  "ConfirmSelectOk_encodedSize m = 0"

datatype ConfirmMethod =
    Confirm_Nil
  | M_ConfirmSelect ConfirmSelect
  | M_ConfirmSelectOk

fun ConfirmMethod_methodId :: "ConfirmMethod \<Rightarrow> u16" where
  "ConfirmMethod_methodId Confirm_Nil = 0"
| "ConfirmMethod_methodId (M_ConfirmSelect _) = 10"
| "ConfirmMethod_methodId M_ConfirmSelectOk = 11"

fun ConfirmMethod_encode :: "ConfirmMethod \<Rightarrow> bytes" where
  "ConfirmMethod_encode Confirm_Nil = []"
| "ConfirmMethod_encode (M_ConfirmSelect m) = write_u16 10 @ ConfirmSelect_encode m"
| "ConfirmMethod_encode M_ConfirmSelectOk = write_u16 11 @ ConfirmSelectOk_encode ()"

definition ConfirmMethod_decode :: "bytes \<Rightarrow> ConfirmMethod option" where
  "ConfirmMethod_decode data = do {
     (methodId, b) \<leftarrow> copy_u16 data;
     (if methodId = 10 then map_option M_ConfirmSelect (ConfirmSelect_decode b)
      else if methodId = 11 then map_option (\<lambda>_. M_ConfirmSelectOk) (ConfirmSelectOk_decode b)
      else None) }"

fun ConfirmMethod_encodedSize :: "ConfirmMethod \<Rightarrow> nat" where
  "ConfirmMethod_encodedSize Confirm_Nil = 2 + 0"
| "ConfirmMethod_encodedSize (M_ConfirmSelect m) = 2 + ConfirmSelect_encodedSize m"
| "ConfirmMethod_encodedSize M_ConfirmSelectOk = 2 + ConfirmSelectOk_encodedSize ()"

fun ConfirmMethod_ok :: "ConfirmMethod \<Rightarrow> bool" where
  "ConfirmMethod_ok Confirm_Nil \<longleftrightarrow> False"
| "ConfirmMethod_ok (M_ConfirmSelect _) \<longleftrightarrow> True"
| "ConfirmMethod_ok M_ConfirmSelectOk \<longleftrightarrow> True"

section \<open>Every method keeps the codec contract\<close>

interpretation chOpen: method_codec ChannelOpen_encode ChannelOpen_decode ChannelOpen_encodedSize "\<lambda>_. True" "\<lambda>m. m"
  by unfold_locales (simp_all add: ChannelOpen_encode_def ChannelOpen_decode_def ChannelOpen_encodedSize_def codec_facts)

interpretation chOpenOk: method_codec ChannelOpenOk_encode ChannelOpenOk_decode ChannelOpenOk_encodedSize "\<lambda>_. True" "\<lambda>m. m"
  by unfold_locales (simp_all add: ChannelOpenOk_encode_def ChannelOpenOk_decode_def ChannelOpenOk_encodedSize_def codec_facts)

interpretation flow: method_codec ChannelFlow_encode ChannelFlow_decode ChannelFlow_encodedSize "\<lambda>_. True" "\<lambda>m. m"
  by unfold_locales (simp_all add: ChannelFlow_encode_def ChannelFlow_decode_def ChannelFlow_encodedSize_def codec_facts)

interpretation flowOk: method_codec ChannelFlowOk_encode ChannelFlowOk_decode ChannelFlowOk_encodedSize "\<lambda>_. True" "\<lambda>m. m"
  by unfold_locales (simp_all add: ChannelFlowOk_encode_def ChannelFlowOk_decode_def ChannelFlowOk_encodedSize_def codec_facts)

interpretation chClose: method_codec ChannelClose_encode ChannelClose_decode ChannelClose_encodedSize ChannelClose_ok "\<lambda>m. m"
  by unfold_locales (simp_all add: ChannelClose_encode_def ChannelClose_decode_def ChannelClose_encodedSize_def ChannelClose_ok_def codec_facts)

interpretation chCloseOk: method_codec ChannelCloseOk_encode ChannelCloseOk_decode ChannelCloseOk_encodedSize "\<lambda>_. True" "\<lambda>m. m"
  by unfold_locales (simp_all add: ChannelCloseOk_encode_def ChannelCloseOk_decode_def ChannelCloseOk_encodedSize_def codec_facts)

lemma ChannelMethod_roundtrip:
  "ChannelMethod_ok m \<Longrightarrow>
     ChannelMethod_decode (ChannelMethod_encode m) = Some (m)"
  by (cases m) (simp_all add: ChannelMethod_decode_def chOpen.roundtrip chOpenOk.roundtrip flow.roundtrip flowOk.roundtrip chClose.roundtrip chCloseOk.roundtrip)

interpretation channelClass: method_codec ChannelMethod_encode ChannelMethod_decode ChannelMethod_encodedSize
  ChannelMethod_ok "\<lambda>m. m"
proof (unfold_locales, goal_cases)
  case (1 m)
  then show ?case by (rule ChannelMethod_roundtrip)
next
  case (2 m)
  then show ?case by (cases m) (simp_all add: chOpen.size chOpenOk.size flow.size flowOk.size chClose.size chCloseOk.size)
qed

interpretation select: method_codec ConfirmSelect_encode ConfirmSelect_decode ConfirmSelect_encodedSize "\<lambda>_. True" "\<lambda>m. m"
  by unfold_locales (simp_all add: ConfirmSelect_encode_def ConfirmSelect_decode_def ConfirmSelect_encodedSize_def codec_facts)

interpretation selectOk: method_codec ConfirmSelectOk_encode ConfirmSelectOk_decode ConfirmSelectOk_encodedSize "\<lambda>_. True" "\<lambda>m. m"
  by unfold_locales (simp_all add: ConfirmSelectOk_encode_def ConfirmSelectOk_decode_def ConfirmSelectOk_encodedSize_def codec_facts)

lemma ConfirmMethod_roundtrip:
  "ConfirmMethod_ok m \<Longrightarrow>
     ConfirmMethod_decode (ConfirmMethod_encode m) = Some (m)"
  by (cases m) (simp_all add: ConfirmMethod_decode_def select.roundtrip selectOk.roundtrip)

interpretation confirmClass: method_codec ConfirmMethod_encode ConfirmMethod_decode ConfirmMethod_encodedSize
  ConfirmMethod_ok "\<lambda>m. m"
proof (unfold_locales, goal_cases)
  case (1 m)
  then show ?case by (rule ConfirmMethod_roundtrip)
next
  case (2 m)
  then show ?case by (cases m) (simp_all add: select.size selectOk.size)
qed

end
