(* ===== verification/Connection_Methods.thy ===== *)
theory Connection_Methods
  imports Method_Codec
begin

text \<open>
  The AMQP \<open>connection\<close> class: the method structs of \<open>rmqamqpt_connection*\<close> and the variant
  \<open>ConnectionMethod\<close>.
  Each struct has its encoder, decoder and size next to it; \<open>_ok\<close> are the values whose strings and
  tables fit their length prefixes and \<open>_wire\<close> is what the other end reads.
\<close>

section \<open>Connection methods\<close>

record ConnectionClose =
  conClose_replyCode :: u16
  conClose_replyText :: bytes
  conClose_classId :: u16
  conClose_methodId :: u16

definition ConnectionClose_encode :: "ConnectionClose \<Rightarrow> bytes" where
  "ConnectionClose_encode m =
     write_u16 (conClose_replyCode m)
     @ encodeShortString (conClose_replyText m)
     @ write_u16 (conClose_classId m)
     @ write_u16 (conClose_methodId m)"

definition ConnectionClose_decode :: "bytes \<Rightarrow> ConnectionClose option" where
  "ConnectionClose_decode data = do {
     (replyCode, b) \<leftarrow> copy_u16 data;
     (replyText, b) \<leftarrow> decodeShortString b;
     (classId, b) \<leftarrow> copy_u16 b;
     (methodId, b) \<leftarrow> copy_u16 b;
     Some \<lparr>conClose_replyCode = replyCode, conClose_replyText = replyText,
           conClose_classId = classId, conClose_methodId = methodId\<rparr> }"

definition ConnectionClose_encodedSize :: "ConnectionClose \<Rightarrow> nat" where
  "ConnectionClose_encodedSize m = 3 * 2 + 1 + length (conClose_replyText m)"

definition ConnectionClose_ok :: "ConnectionClose \<Rightarrow> bool" where
  "ConnectionClose_ok m \<longleftrightarrow> length (conClose_replyText m) \<le> 255"

type_synonym ConnectionCloseOk = unit

definition ConnectionCloseOk_encode :: "ConnectionCloseOk \<Rightarrow> bytes" where
  "ConnectionCloseOk_encode m =
     []"

definition ConnectionCloseOk_decode :: "bytes \<Rightarrow> ConnectionCloseOk option" where
  "ConnectionCloseOk_decode data = Some ()"

definition ConnectionCloseOk_encodedSize :: "ConnectionCloseOk \<Rightarrow> nat" where
  "ConnectionCloseOk_encodedSize m = 0"

record ConnectionOpen =
  conOpen_virtualHost :: bytes

definition ConnectionOpen_encode :: "ConnectionOpen \<Rightarrow> bytes" where
  "ConnectionOpen_encode m =
     encodeShortString (conOpen_virtualHost m)
     @ encodeShortString [] @ write_u8 0"

definition ConnectionOpen_decode :: "bytes \<Rightarrow> ConnectionOpen option" where
  "ConnectionOpen_decode data = do {
     (virtualHost, b) \<leftarrow> decodeShortString data;
     Some \<lparr>conOpen_virtualHost = virtualHost\<rparr> }"

definition ConnectionOpen_encodedSize :: "ConnectionOpen \<Rightarrow> nat" where
  "ConnectionOpen_encodedSize m = 3 * 1 + length (conOpen_virtualHost m)"

definition ConnectionOpen_ok :: "ConnectionOpen \<Rightarrow> bool" where
  "ConnectionOpen_ok m \<longleftrightarrow> length (conOpen_virtualHost m) \<le> 255"

type_synonym ConnectionOpenOk = unit

definition ConnectionOpenOk_encode :: "ConnectionOpenOk \<Rightarrow> bytes" where
  "ConnectionOpenOk_encode m =
     encodeShortString []"

definition ConnectionOpenOk_decode :: "bytes \<Rightarrow> ConnectionOpenOk option" where
  "ConnectionOpenOk_decode data = do {
     (dummy, b) \<leftarrow> decodeShortString data;
     Some () }"

definition ConnectionOpenOk_encodedSize :: "ConnectionOpenOk \<Rightarrow> nat" where
  "ConnectionOpenOk_encodedSize m = 1"

record 'dt ConnectionStart =
  start_versionMajor :: u8
  start_versionMinor :: u8
  start_properties :: "'dt field_table"
  start_mechanisms :: bytes
  start_locales :: bytes

definition ConnectionStart_encode :: "'dt epoch_util \<Rightarrow> 'dt ConnectionStart \<Rightarrow> bytes" where
  "ConnectionStart_encode ep m =
     write_u8 (start_versionMajor m)
     @ write_u8 (start_versionMinor m)
     @ encodeFieldTable ep (start_properties m)
     @ encodeLongString (start_mechanisms m)
     @ encodeLongString (start_locales m)"

definition ConnectionStart_decode :: "'dt epoch_util \<Rightarrow> bytes \<Rightarrow> 'dt ConnectionStart option" where
  "ConnectionStart_decode ep data = do {
     (versionMajor, b) \<leftarrow> copy_u8 data;
     (versionMinor, b) \<leftarrow> copy_u8 b;
     (properties, b) \<leftarrow> decodeFieldTable ep b;
     (mechanisms, b) \<leftarrow> decodeLongString b;
     (locales, b) \<leftarrow> decodeLongString b;
     Some \<lparr>start_versionMajor = versionMajor, start_versionMinor = versionMinor,
           start_properties = properties, start_mechanisms = mechanisms,
           start_locales = locales\<rparr> }"

definition ConnectionStart_encodedSize :: "'dt ConnectionStart \<Rightarrow> nat" where
  "ConnectionStart_encodedSize m = 2 * 1 + 3 * 4 + encodedTableSize (start_properties m) + length (start_mechanisms m) + length (start_locales m)"

definition ConnectionStart_ok :: "'dt epoch_util \<Rightarrow> 'dt ConnectionStart \<Rightarrow> bool" where
  "ConnectionStart_ok ep m \<longleftrightarrow> table_ok ep (start_properties m) \<and> length (start_mechanisms m) < 2 ^ 32 \<and> length (start_locales m) < 2 ^ 32"

definition ConnectionStart_wire :: "'dt ConnectionStart \<Rightarrow> 'dt ConnectionStart" where
  "ConnectionStart_wire m = m\<lparr>start_properties := table_wire (start_properties m)\<rparr>"

record 'dt ConnectionStartOk =
  startOk_properties :: "'dt field_table"
  startOk_mechanism :: bytes
  startOk_response :: bytes
  startOk_locale :: bytes

definition ConnectionStartOk_encode :: "'dt epoch_util \<Rightarrow> 'dt ConnectionStartOk \<Rightarrow> bytes" where
  "ConnectionStartOk_encode ep m =
     encodeFieldTable ep (startOk_properties m)
     @ encodeShortString (startOk_mechanism m)
     @ encodeLongString (startOk_response m)
     @ encodeShortString (startOk_locale m)"

definition ConnectionStartOk_decode :: "'dt epoch_util \<Rightarrow> bytes \<Rightarrow> 'dt ConnectionStartOk option" where
  "ConnectionStartOk_decode ep data = do {
     (properties, b) \<leftarrow> decodeFieldTable ep data;
     (mechanism, b) \<leftarrow> decodeShortString b;
     (response, b) \<leftarrow> decodeLongString b;
     (locale, b) \<leftarrow> decodeShortString b;
     Some \<lparr>startOk_properties = properties, startOk_mechanism = mechanism,
           startOk_response = response, startOk_locale = locale\<rparr> }"

definition ConnectionStartOk_encodedSize :: "'dt ConnectionStartOk \<Rightarrow> nat" where
  "ConnectionStartOk_encodedSize m = 2 * 4 + 2 * 1 + encodedTableSize (startOk_properties m) + length (startOk_mechanism m) + length (startOk_response m) + length (startOk_locale m)"

definition ConnectionStartOk_ok :: "'dt epoch_util \<Rightarrow> 'dt ConnectionStartOk \<Rightarrow> bool" where
  "ConnectionStartOk_ok ep m \<longleftrightarrow> table_ok ep (startOk_properties m) \<and> length (startOk_mechanism m) \<le> 255 \<and> length (startOk_response m) < 2 ^ 32 \<and> length (startOk_locale m) \<le> 255"

definition ConnectionStartOk_wire :: "'dt ConnectionStartOk \<Rightarrow> 'dt ConnectionStartOk" where
  "ConnectionStartOk_wire m = m\<lparr>startOk_properties := table_wire (startOk_properties m)\<rparr>"

record ConnectionTune =
  tune_channelMax :: u16
  tune_frameMax :: u32
  tune_heartbeatInterval :: u16

definition ConnectionTune_encode :: "ConnectionTune \<Rightarrow> bytes" where
  "ConnectionTune_encode m =
     write_u16 (tune_channelMax m)
     @ write_u32 (tune_frameMax m)
     @ write_u16 (tune_heartbeatInterval m)"

definition ConnectionTune_decode :: "bytes \<Rightarrow> ConnectionTune option" where
  "ConnectionTune_decode data = do {
     (channelMax, b) \<leftarrow> copy_u16 data;
     (frameMax, b) \<leftarrow> copy_u32 b;
     (heartbeatInterval, b) \<leftarrow> copy_u16 b;
     Some \<lparr>tune_channelMax = channelMax, tune_frameMax = frameMax,
           tune_heartbeatInterval = heartbeatInterval\<rparr> }"

definition ConnectionTune_encodedSize :: "ConnectionTune \<Rightarrow> nat" where
  "ConnectionTune_encodedSize m = 2 * 2 + 4"

record ConnectionTuneOk =
  tuneOk_channelMax :: u16
  tuneOk_frameMax :: u32
  tuneOk_heartbeatInterval :: u16

definition ConnectionTuneOk_encode :: "ConnectionTuneOk \<Rightarrow> bytes" where
  "ConnectionTuneOk_encode m =
     write_u16 (tuneOk_channelMax m)
     @ write_u32 (tuneOk_frameMax m)
     @ write_u16 (tuneOk_heartbeatInterval m)"

definition ConnectionTuneOk_decode :: "bytes \<Rightarrow> ConnectionTuneOk option" where
  "ConnectionTuneOk_decode data = do {
     (channelMax, b) \<leftarrow> copy_u16 data;
     (frameMax, b) \<leftarrow> copy_u32 b;
     (heartbeatInterval, b) \<leftarrow> copy_u16 b;
     Some \<lparr>tuneOk_channelMax = channelMax, tuneOk_frameMax = frameMax,
           tuneOk_heartbeatInterval = heartbeatInterval\<rparr> }"

definition ConnectionTuneOk_encodedSize :: "ConnectionTuneOk \<Rightarrow> nat" where
  "ConnectionTuneOk_encodedSize m = 2 * 2 + 4"

datatype 'dt ConnectionMethod =
    Connection_Nil
  | M_ConnectionClose ConnectionClose
  | M_ConnectionCloseOk
  | M_ConnectionOpen ConnectionOpen
  | M_ConnectionOpenOk
  | M_ConnectionStart "'dt ConnectionStart"
  | M_ConnectionStartOk "'dt ConnectionStartOk"
  | M_ConnectionTune ConnectionTune
  | M_ConnectionTuneOk ConnectionTuneOk

fun ConnectionMethod_methodId :: "'dt ConnectionMethod \<Rightarrow> u16" where
  "ConnectionMethod_methodId Connection_Nil = 0"
| "ConnectionMethod_methodId (M_ConnectionClose _) = 50"
| "ConnectionMethod_methodId M_ConnectionCloseOk = 51"
| "ConnectionMethod_methodId (M_ConnectionOpen _) = 40"
| "ConnectionMethod_methodId M_ConnectionOpenOk = 41"
| "ConnectionMethod_methodId (M_ConnectionStart _) = 10"
| "ConnectionMethod_methodId (M_ConnectionStartOk _) = 11"
| "ConnectionMethod_methodId (M_ConnectionTune _) = 30"
| "ConnectionMethod_methodId (M_ConnectionTuneOk _) = 31"

fun ConnectionMethod_encode :: "'dt epoch_util \<Rightarrow> 'dt ConnectionMethod \<Rightarrow> bytes" where
  "ConnectionMethod_encode ep Connection_Nil = []"
| "ConnectionMethod_encode ep (M_ConnectionClose m) = write_u16 50 @ ConnectionClose_encode m"
| "ConnectionMethod_encode ep M_ConnectionCloseOk = write_u16 51 @ ConnectionCloseOk_encode ()"
| "ConnectionMethod_encode ep (M_ConnectionOpen m) = write_u16 40 @ ConnectionOpen_encode m"
| "ConnectionMethod_encode ep M_ConnectionOpenOk = write_u16 41 @ ConnectionOpenOk_encode ()"
| "ConnectionMethod_encode ep (M_ConnectionStart m) = write_u16 10 @ ConnectionStart_encode ep m"
| "ConnectionMethod_encode ep (M_ConnectionStartOk m) = write_u16 11 @ ConnectionStartOk_encode ep m"
| "ConnectionMethod_encode ep (M_ConnectionTune m) = write_u16 30 @ ConnectionTune_encode m"
| "ConnectionMethod_encode ep (M_ConnectionTuneOk m) = write_u16 31 @ ConnectionTuneOk_encode m"

definition ConnectionMethod_decode :: "'dt epoch_util \<Rightarrow> bytes \<Rightarrow> 'dt ConnectionMethod option" where
  "ConnectionMethod_decode ep data = do {
     (methodId, b) \<leftarrow> copy_u16 data;
     (if methodId = 10 then map_option M_ConnectionStart (ConnectionStart_decode ep b)
      else if methodId = 11 then map_option M_ConnectionStartOk (ConnectionStartOk_decode ep b)
      else if methodId = 30 then map_option M_ConnectionTune (ConnectionTune_decode b)
      else if methodId = 31 then map_option M_ConnectionTuneOk (ConnectionTuneOk_decode b)
      else if methodId = 40 then map_option M_ConnectionOpen (ConnectionOpen_decode b)
      else if methodId = 41 then map_option (\<lambda>_. M_ConnectionOpenOk) (ConnectionOpenOk_decode b)
      else if methodId = 50 then map_option M_ConnectionClose (ConnectionClose_decode b)
      else if methodId = 51 then map_option (\<lambda>_. M_ConnectionCloseOk) (ConnectionCloseOk_decode b)
      else None) }"

fun ConnectionMethod_encodedSize :: "'dt ConnectionMethod \<Rightarrow> nat" where
  "ConnectionMethod_encodedSize Connection_Nil = 2 + 0"
| "ConnectionMethod_encodedSize (M_ConnectionClose m) = 2 + ConnectionClose_encodedSize m"
| "ConnectionMethod_encodedSize M_ConnectionCloseOk = 2 + ConnectionCloseOk_encodedSize ()"
| "ConnectionMethod_encodedSize (M_ConnectionOpen m) = 2 + ConnectionOpen_encodedSize m"
| "ConnectionMethod_encodedSize M_ConnectionOpenOk = 2 + ConnectionOpenOk_encodedSize ()"
| "ConnectionMethod_encodedSize (M_ConnectionStart m) = 2 + ConnectionStart_encodedSize m"
| "ConnectionMethod_encodedSize (M_ConnectionStartOk m) = 2 + ConnectionStartOk_encodedSize m"
| "ConnectionMethod_encodedSize (M_ConnectionTune m) = 2 + ConnectionTune_encodedSize m"
| "ConnectionMethod_encodedSize (M_ConnectionTuneOk m) = 2 + ConnectionTuneOk_encodedSize m"

fun ConnectionMethod_ok :: "'dt epoch_util \<Rightarrow> 'dt ConnectionMethod \<Rightarrow> bool" where
  "ConnectionMethod_ok ep Connection_Nil \<longleftrightarrow> False"
| "ConnectionMethod_ok ep (M_ConnectionClose m) \<longleftrightarrow> ConnectionClose_ok m"
| "ConnectionMethod_ok ep M_ConnectionCloseOk \<longleftrightarrow> True"
| "ConnectionMethod_ok ep (M_ConnectionOpen m) \<longleftrightarrow> ConnectionOpen_ok m"
| "ConnectionMethod_ok ep M_ConnectionOpenOk \<longleftrightarrow> True"
| "ConnectionMethod_ok ep (M_ConnectionStart m) \<longleftrightarrow> ConnectionStart_ok ep m"
| "ConnectionMethod_ok ep (M_ConnectionStartOk m) \<longleftrightarrow> ConnectionStartOk_ok ep m"
| "ConnectionMethod_ok ep (M_ConnectionTune _) \<longleftrightarrow> True"
| "ConnectionMethod_ok ep (M_ConnectionTuneOk _) \<longleftrightarrow> True"

fun ConnectionMethod_wire :: "'dt ConnectionMethod \<Rightarrow> 'dt ConnectionMethod" where
  "ConnectionMethod_wire (M_ConnectionStart m) = M_ConnectionStart (ConnectionStart_wire m)"
| "ConnectionMethod_wire (M_ConnectionStartOk m) = M_ConnectionStartOk (ConnectionStartOk_wire m)"
| "ConnectionMethod_wire m = m"

text \<open>
  The value constructor of \<open>ConnectionStart\<close>. \<open>joinStrings\<close> appends to the output stream it is
  given; \<open>oss.clear()\<close> resets the error flags of the stream and leaves its contents alone.
\<close>

definition joinStrings :: "bytes \<Rightarrow> bytes list \<Rightarrow> bytes \<Rightarrow> bytes" where
  "joinStrings oss strs delimiter =
     (case strs of [] \<Rightarrow> oss | s # ss \<Rightarrow> oss @ s @ concat (map (\<lambda>x. delimiter @ x) ss))"

definition ConnectionStart_new ::
  "u8 \<Rightarrow> u8 \<Rightarrow> 'dt field_table \<Rightarrow> bytes list \<Rightarrow> bytes list \<Rightarrow> 'dt ConnectionStart" where
  "ConnectionStart_new versionMajor versionMinor properties mechanisms locales =
     (let oss1 = joinStrings [] locales (bstr '' '');
          oss2 = joinStrings oss1 mechanisms (bstr '' '')
      in \<lparr>start_versionMajor = versionMajor, start_versionMinor = versionMinor,
          start_properties = properties, start_mechanisms = oss2, start_locales = oss1\<rparr>)"

section \<open>Every method keeps the codec contract\<close>

interpretation conClose: method_codec ConnectionClose_encode ConnectionClose_decode ConnectionClose_encodedSize ConnectionClose_ok "\<lambda>m. m"
  by unfold_locales (simp_all add: ConnectionClose_encode_def ConnectionClose_decode_def ConnectionClose_encodedSize_def ConnectionClose_ok_def codec_facts)

interpretation conCloseOk: method_codec ConnectionCloseOk_encode ConnectionCloseOk_decode ConnectionCloseOk_encodedSize "\<lambda>_. True" "\<lambda>m. m"
  by unfold_locales (simp_all add: ConnectionCloseOk_encode_def ConnectionCloseOk_decode_def ConnectionCloseOk_encodedSize_def codec_facts)

interpretation conOpen: method_codec ConnectionOpen_encode ConnectionOpen_decode ConnectionOpen_encodedSize ConnectionOpen_ok "\<lambda>m. m"
  by unfold_locales (simp_all add: ConnectionOpen_encode_def ConnectionOpen_decode_def ConnectionOpen_encodedSize_def ConnectionOpen_ok_def codec_facts)

interpretation conOpenOk: method_codec ConnectionOpenOk_encode ConnectionOpenOk_decode ConnectionOpenOk_encodedSize "\<lambda>_. True" "\<lambda>m. m"
  by unfold_locales (simp_all add: ConnectionOpenOk_encode_def ConnectionOpenOk_decode_def ConnectionOpenOk_encodedSize_def codec_facts)

interpretation start: method_codec "ConnectionStart_encode ep" "ConnectionStart_decode ep" ConnectionStart_encodedSize "ConnectionStart_ok ep" ConnectionStart_wire for ep
  by unfold_locales (simp_all add: ConnectionStart_encode_def ConnectionStart_decode_def ConnectionStart_encodedSize_def ConnectionStart_ok_def ConnectionStart_wire_def codec_facts)

interpretation startOk: method_codec "ConnectionStartOk_encode ep" "ConnectionStartOk_decode ep" ConnectionStartOk_encodedSize "ConnectionStartOk_ok ep" ConnectionStartOk_wire for ep
  by unfold_locales (simp_all add: ConnectionStartOk_encode_def ConnectionStartOk_decode_def ConnectionStartOk_encodedSize_def ConnectionStartOk_ok_def ConnectionStartOk_wire_def codec_facts)

interpretation tune: method_codec ConnectionTune_encode ConnectionTune_decode ConnectionTune_encodedSize "\<lambda>_. True" "\<lambda>m. m"
  by unfold_locales (simp_all add: ConnectionTune_encode_def ConnectionTune_decode_def ConnectionTune_encodedSize_def codec_facts)

interpretation tuneOk: method_codec ConnectionTuneOk_encode ConnectionTuneOk_decode ConnectionTuneOk_encodedSize "\<lambda>_. True" "\<lambda>m. m"
  by unfold_locales (simp_all add: ConnectionTuneOk_encode_def ConnectionTuneOk_decode_def ConnectionTuneOk_encodedSize_def codec_facts)

lemma ConnectionMethod_roundtrip:
  "ConnectionMethod_ok ep m \<Longrightarrow>
     ConnectionMethod_decode ep (ConnectionMethod_encode ep m) = Some (ConnectionMethod_wire m)"
  by (cases m) (simp_all add: ConnectionMethod_decode_def conClose.roundtrip conCloseOk.roundtrip conOpen.roundtrip conOpenOk.roundtrip start.roundtrip startOk.roundtrip tune.roundtrip tuneOk.roundtrip)

interpretation connectionClass: method_codec "ConnectionMethod_encode ep" "ConnectionMethod_decode ep" ConnectionMethod_encodedSize
  "ConnectionMethod_ok ep" ConnectionMethod_wire for ep
proof (unfold_locales, goal_cases)
  case (1 m)
  then show ?case by (rule ConnectionMethod_roundtrip)
next
  case (2 m)
  then show ?case by (cases m) (simp_all add: conClose.size conCloseOk.size conOpen.size conOpenOk.size start.size startOk.size tune.size tuneOk.size)
qed

section \<open>Properties\<close>

text \<open>The constructor of \<open>ConnectionStart\<close> leaves the locales in front of the mechanisms. Both
  lists are joined into the same stream and only its error flags are reset in between, so the
  mechanisms field is the mechanism list only when there are no locales.\<close>

theorem ConnectionStart_mechanisms_polluted:
  "start_mechanisms (ConnectionStart_new a b p mechanisms locales) =
     start_locales (ConnectionStart_new a b p mechanisms locales) @ joinStrings [] mechanisms (bstr '' '')"
  by (auto simp: ConnectionStart_new_def joinStrings_def Let_def split: list.splits)

end
