(* ===== verification/Topology_Methods.thy ===== *)
theory Topology_Methods
  imports Method_Codec
begin

text \<open>
  The AMQP \<open>exchange\<close> and \<open>queue\<close> classes: the method structs of \<open>rmqamqpt_exchange*\<close> and
  \<open>rmqamqpt_queue*\<close> and the variants \<open>ExchangeMethod\<close> and \<open>QueueMethod\<close>.
  Each struct has its encoder, decoder and size next to it; \<open>_ok\<close> are the values whose strings and
  tables fit their length prefixes and \<open>_wire\<close> is what the other end reads.
\<close>

section \<open>Exchange methods\<close>

record 'dt ExchangeBind =
  xBind_sourceX :: bytes
  xBind_destinationX :: bytes
  xBind_routingKey :: bytes
  xBind_noWait :: bool
  xBind_arguments :: "'dt field_table"

definition ExchangeBind_encode :: "'dt epoch_util \<Rightarrow> 'dt ExchangeBind \<Rightarrow> bytes" where
  "ExchangeBind_encode ep m =
     write_u16 0
     @ encodeShortString (xBind_destinationX m)
     @ encodeShortString (xBind_sourceX m)
     @ encodeShortString (xBind_routingKey m)
     @ write_bool (xBind_noWait m)
     @ encodeFieldTable ep (xBind_arguments m)"

definition ExchangeBind_decode :: "'dt epoch_util \<Rightarrow> bytes \<Rightarrow> 'dt ExchangeBind option" where
  "ExchangeBind_decode ep data = do {
     b \<leftarrow> skip_short data;
     (destinationX, b) \<leftarrow> decodeShortString b;
     (sourceX, b) \<leftarrow> decodeShortString b;
     (routingKey, b) \<leftarrow> decodeShortString b;
     (bitmask, b) \<leftarrow> copy_u8 b;
     (arguments, b) \<leftarrow> decodeFieldTable ep b;
     Some \<lparr>xBind_sourceX = sourceX, xBind_destinationX = destinationX,
           xBind_routingKey = routingKey, xBind_noWait = bitmask AND 1 \<noteq> 0,
           xBind_arguments = arguments\<rparr> }"

definition ExchangeBind_encodedSize :: "'dt ExchangeBind \<Rightarrow> nat" where
  "ExchangeBind_encodedSize m = 2 + 4 * 1 + 4 + length (xBind_sourceX m) + length (xBind_destinationX m) + length (xBind_routingKey m) + encodedTableSize (xBind_arguments m)"

definition ExchangeBind_ok :: "'dt epoch_util \<Rightarrow> 'dt ExchangeBind \<Rightarrow> bool" where
  "ExchangeBind_ok ep m \<longleftrightarrow> length (xBind_destinationX m) \<le> 255 \<and> length (xBind_sourceX m) \<le> 255 \<and> length (xBind_routingKey m) \<le> 255 \<and> table_ok ep (xBind_arguments m)"

definition ExchangeBind_wire :: "'dt ExchangeBind \<Rightarrow> 'dt ExchangeBind" where
  "ExchangeBind_wire m = m\<lparr>xBind_arguments := table_wire (xBind_arguments m)\<rparr>"

type_synonym ExchangeBindOk = unit

definition ExchangeBindOk_encode :: "ExchangeBindOk \<Rightarrow> bytes" where
  "ExchangeBindOk_encode m =
     []"

definition ExchangeBindOk_decode :: "bytes \<Rightarrow> ExchangeBindOk option" where
  "ExchangeBindOk_decode data = Some ()"

definition ExchangeBindOk_encodedSize :: "ExchangeBindOk \<Rightarrow> nat" where
  "ExchangeBindOk_encodedSize m = 0"

record 'dt ExchangeDeclare =
  xDeclare_name :: bytes
  xDeclare_type :: bytes
  xDeclare_passive :: bool
  xDeclare_durable :: bool
  xDeclare_autoDelete :: bool
  xDeclare_internal :: bool
  xDeclare_noWait :: bool
  xDeclare_arguments :: "'dt field_table"

definition ExchangeDeclare_encode :: "'dt epoch_util \<Rightarrow> 'dt ExchangeDeclare \<Rightarrow> bytes" where
  "ExchangeDeclare_encode ep m =
     write_u16 0
     @ encodeShortString (xDeclare_name m)
     @ encodeShortString (xDeclare_type m)
     @ write_u8 (mask_if (xDeclare_noWait m) 16 (mask_if (xDeclare_internal m) 8 (mask_if (xDeclare_autoDelete m) 4 (mask_if (xDeclare_durable m) 2 (mask_if (xDeclare_passive m) 1 0)))))
     @ encodeFieldTable ep (xDeclare_arguments m)"

definition ExchangeDeclare_decode :: "'dt epoch_util \<Rightarrow> bytes \<Rightarrow> 'dt ExchangeDeclare option" where
  "ExchangeDeclare_decode ep data = do {
     b \<leftarrow> skip_short data;
     (name, b) \<leftarrow> decodeShortString b;
     (type, b) \<leftarrow> decodeShortString b;
     (bitmask, b) \<leftarrow> copy_u8 b;
     (arguments, b) \<leftarrow> decodeFieldTable ep b;
     Some \<lparr>xDeclare_name = name, xDeclare_type = type,
           xDeclare_passive = bitmask AND 1 \<noteq> 0,
           xDeclare_durable = bitmask AND 2 \<noteq> 0,
           xDeclare_autoDelete = bitmask AND 4 \<noteq> 0,
           xDeclare_internal = bitmask AND 8 \<noteq> 0,
           xDeclare_noWait = bitmask AND 16 \<noteq> 0, xDeclare_arguments = arguments\<rparr> }"

definition ExchangeDeclare_encodedSize :: "'dt ExchangeDeclare \<Rightarrow> nat" where
  "ExchangeDeclare_encodedSize m = 2 + 3 * 1 + 4 + length (xDeclare_name m) + length (xDeclare_type m) + encodedTableSize (xDeclare_arguments m)"

definition ExchangeDeclare_ok :: "'dt epoch_util \<Rightarrow> 'dt ExchangeDeclare \<Rightarrow> bool" where
  "ExchangeDeclare_ok ep m \<longleftrightarrow> length (xDeclare_name m) \<le> 255 \<and> length (xDeclare_type m) \<le> 255 \<and> table_ok ep (xDeclare_arguments m)"

definition ExchangeDeclare_wire :: "'dt ExchangeDeclare \<Rightarrow> 'dt ExchangeDeclare" where
  "ExchangeDeclare_wire m = m\<lparr>xDeclare_arguments := table_wire (xDeclare_arguments m)\<rparr>"

type_synonym ExchangeDeclareOk = unit

definition ExchangeDeclareOk_encode :: "ExchangeDeclareOk \<Rightarrow> bytes" where
  "ExchangeDeclareOk_encode m =
     []"

definition ExchangeDeclareOk_decode :: "bytes \<Rightarrow> ExchangeDeclareOk option" where
  "ExchangeDeclareOk_decode data = Some ()"

definition ExchangeDeclareOk_encodedSize :: "ExchangeDeclareOk \<Rightarrow> nat" where
  "ExchangeDeclareOk_encodedSize m = 0"

datatype 'dt ExchangeMethod =
    Exchange_Nil
  | M_ExchangeBind "'dt ExchangeBind"
  | M_ExchangeBindOk
  | M_ExchangeDeclare "'dt ExchangeDeclare"
  | M_ExchangeDeclareOk

fun ExchangeMethod_methodId :: "'dt ExchangeMethod \<Rightarrow> u16" where
  "ExchangeMethod_methodId Exchange_Nil = 0"
| "ExchangeMethod_methodId (M_ExchangeBind _) = 30"
| "ExchangeMethod_methodId M_ExchangeBindOk = 31"
| "ExchangeMethod_methodId (M_ExchangeDeclare _) = 10"
| "ExchangeMethod_methodId M_ExchangeDeclareOk = 11"

fun ExchangeMethod_encode :: "'dt epoch_util \<Rightarrow> 'dt ExchangeMethod \<Rightarrow> bytes" where
  "ExchangeMethod_encode ep Exchange_Nil = []"
| "ExchangeMethod_encode ep (M_ExchangeBind m) = write_u16 30 @ ExchangeBind_encode ep m"
| "ExchangeMethod_encode ep M_ExchangeBindOk = write_u16 31 @ ExchangeBindOk_encode ()"
| "ExchangeMethod_encode ep (M_ExchangeDeclare m) = write_u16 10 @ ExchangeDeclare_encode ep m"
| "ExchangeMethod_encode ep M_ExchangeDeclareOk = write_u16 11 @ ExchangeDeclareOk_encode ()"

definition ExchangeMethod_decode :: "'dt epoch_util \<Rightarrow> bytes \<Rightarrow> 'dt ExchangeMethod option" where
  "ExchangeMethod_decode ep data = do {
     (methodId, b) \<leftarrow> copy_u16 data;
     (if methodId = 30 then map_option M_ExchangeBind (ExchangeBind_decode ep b)
      else if methodId = 31 then map_option (\<lambda>_. M_ExchangeBindOk) (ExchangeBindOk_decode b)
      else if methodId = 10 then map_option M_ExchangeDeclare (ExchangeDeclare_decode ep b)
      else if methodId = 11 then map_option (\<lambda>_. M_ExchangeDeclareOk) (ExchangeDeclareOk_decode b)
      else None) }"

fun ExchangeMethod_encodedSize :: "'dt ExchangeMethod \<Rightarrow> nat" where
  "ExchangeMethod_encodedSize Exchange_Nil = 2 + 0"
| "ExchangeMethod_encodedSize (M_ExchangeBind m) = 2 + ExchangeBind_encodedSize m"
| "ExchangeMethod_encodedSize M_ExchangeBindOk = 2 + ExchangeBindOk_encodedSize ()"
| "ExchangeMethod_encodedSize (M_ExchangeDeclare m) = 2 + ExchangeDeclare_encodedSize m"
| "ExchangeMethod_encodedSize M_ExchangeDeclareOk = 2 + ExchangeDeclareOk_encodedSize ()"

fun ExchangeMethod_ok :: "'dt epoch_util \<Rightarrow> 'dt ExchangeMethod \<Rightarrow> bool" where
  "ExchangeMethod_ok ep Exchange_Nil \<longleftrightarrow> False"
| "ExchangeMethod_ok ep (M_ExchangeBind m) \<longleftrightarrow> ExchangeBind_ok ep m"
| "ExchangeMethod_ok ep M_ExchangeBindOk \<longleftrightarrow> True"
| "ExchangeMethod_ok ep (M_ExchangeDeclare m) \<longleftrightarrow> ExchangeDeclare_ok ep m"
| "ExchangeMethod_ok ep M_ExchangeDeclareOk \<longleftrightarrow> True"

fun ExchangeMethod_wire :: "'dt ExchangeMethod \<Rightarrow> 'dt ExchangeMethod" where
  "ExchangeMethod_wire (M_ExchangeBind m) = M_ExchangeBind (ExchangeBind_wire m)"
| "ExchangeMethod_wire (M_ExchangeDeclare m) = M_ExchangeDeclare (ExchangeDeclare_wire m)"
| "ExchangeMethod_wire m = m"

section \<open>Queue methods\<close>

record 'dt QueueBind =
  qBind_queue :: bytes
  qBind_exchange :: bytes
  qBind_routingKey :: bytes
  qBind_noWait :: bool
  qBind_arguments :: "'dt field_table"

definition QueueBind_encode :: "'dt epoch_util \<Rightarrow> 'dt QueueBind \<Rightarrow> bytes" where
  "QueueBind_encode ep m =
     write_u16 0
     @ encodeShortString (qBind_queue m)
     @ encodeShortString (qBind_exchange m)
     @ encodeShortString (qBind_routingKey m)
     @ write_bool (qBind_noWait m)
     @ encodeFieldTable ep (qBind_arguments m)"

definition QueueBind_decode :: "'dt epoch_util \<Rightarrow> bytes \<Rightarrow> 'dt QueueBind option" where
  "QueueBind_decode ep data = do {
     b \<leftarrow> skip_short data;
     (queue, b) \<leftarrow> decodeShortString b;
     (exchange, b) \<leftarrow> decodeShortString b;
     (routingKey, b) \<leftarrow> decodeShortString b;
     (bitmask, b) \<leftarrow> copy_u8 b;
     (arguments, b) \<leftarrow> decodeFieldTable ep b;
     Some \<lparr>qBind_queue = queue, qBind_exchange = exchange,
           qBind_routingKey = routingKey, qBind_noWait = bitmask AND 1 \<noteq> 0,
           qBind_arguments = arguments\<rparr> }"

definition QueueBind_encodedSize :: "'dt QueueBind \<Rightarrow> nat" where
  "QueueBind_encodedSize m = 2 + 4 * 1 + 4 + length (qBind_queue m) + length (qBind_exchange m) + length (qBind_routingKey m) + encodedTableSize (qBind_arguments m)"

definition QueueBind_ok :: "'dt epoch_util \<Rightarrow> 'dt QueueBind \<Rightarrow> bool" where
  "QueueBind_ok ep m \<longleftrightarrow> length (qBind_queue m) \<le> 255 \<and> length (qBind_exchange m) \<le> 255 \<and> length (qBind_routingKey m) \<le> 255 \<and> table_ok ep (qBind_arguments m)"

definition QueueBind_wire :: "'dt QueueBind \<Rightarrow> 'dt QueueBind" where
  "QueueBind_wire m = m\<lparr>qBind_arguments := table_wire (qBind_arguments m)\<rparr>"

type_synonym QueueBindOk = unit

definition QueueBindOk_encode :: "QueueBindOk \<Rightarrow> bytes" where
  "QueueBindOk_encode m =
     []"

definition QueueBindOk_decode :: "bytes \<Rightarrow> QueueBindOk option" where
  "QueueBindOk_decode data = Some ()"

definition QueueBindOk_encodedSize :: "QueueBindOk \<Rightarrow> nat" where
  "QueueBindOk_encodedSize m = 0"

record 'dt QueueDeclare =
  qDeclare_name :: bytes
  qDeclare_passive :: bool
  qDeclare_durable :: bool
  qDeclare_exclusive :: bool
  qDeclare_autoDelete :: bool
  qDeclare_noWait :: bool
  qDeclare_arguments :: "'dt field_table"

definition QueueDeclare_encode :: "'dt epoch_util \<Rightarrow> 'dt QueueDeclare \<Rightarrow> bytes" where
  "QueueDeclare_encode ep m =
     write_u16 0
     @ encodeShortString (qDeclare_name m)
     @ write_u8 (mask_if (qDeclare_noWait m) 16 (mask_if (qDeclare_autoDelete m) 8 (mask_if (qDeclare_exclusive m) 4 (mask_if (qDeclare_durable m) 2 (mask_if (qDeclare_passive m) 1 0)))))
     @ encodeFieldTable ep (qDeclare_arguments m)"

definition QueueDeclare_decode :: "'dt epoch_util \<Rightarrow> bytes \<Rightarrow> 'dt QueueDeclare option" where
  "QueueDeclare_decode ep data = do {
     b \<leftarrow> skip_short data;
     (name, b) \<leftarrow> decodeShortString b;
     (bitmask, b) \<leftarrow> copy_u8 b;
     (arguments, b) \<leftarrow> decodeFieldTable ep b;
     Some \<lparr>qDeclare_name = name, qDeclare_passive = bitmask AND 1 \<noteq> 0,
           qDeclare_durable = bitmask AND 2 \<noteq> 0,
           qDeclare_exclusive = bitmask AND 4 \<noteq> 0,
           qDeclare_autoDelete = bitmask AND 8 \<noteq> 0,
           qDeclare_noWait = bitmask AND 16 \<noteq> 0, qDeclare_arguments = arguments\<rparr> }"

definition QueueDeclare_encodedSize :: "'dt QueueDeclare \<Rightarrow> nat" where
  "QueueDeclare_encodedSize m = 2 + 2 * 1 + 4 + length (qDeclare_name m) + encodedTableSize (qDeclare_arguments m)"

definition QueueDeclare_ok :: "'dt epoch_util \<Rightarrow> 'dt QueueDeclare \<Rightarrow> bool" where
  "QueueDeclare_ok ep m \<longleftrightarrow> length (qDeclare_name m) \<le> 255 \<and> table_ok ep (qDeclare_arguments m)"

definition QueueDeclare_wire :: "'dt QueueDeclare \<Rightarrow> 'dt QueueDeclare" where
  "QueueDeclare_wire m = m\<lparr>qDeclare_arguments := table_wire (qDeclare_arguments m)\<rparr>"

record QueueDeclareOk =
  qDeclareOk_name :: bytes
  qDeclareOk_messageCount :: u32
  qDeclareOk_consumerCount :: u32

definition QueueDeclareOk_encode :: "QueueDeclareOk \<Rightarrow> bytes" where
  "QueueDeclareOk_encode m =
     encodeShortString (qDeclareOk_name m)
     @ write_u32 (qDeclareOk_messageCount m)
     @ write_u32 (qDeclareOk_consumerCount m)"

definition QueueDeclareOk_decode :: "bytes \<Rightarrow> QueueDeclareOk option" where
  "QueueDeclareOk_decode data = do {
     (name, b) \<leftarrow> decodeShortString data;
     (messageCount, b) \<leftarrow> copy_u32 b;
     (consumerCount, b) \<leftarrow> copy_u32 b;
     Some \<lparr>qDeclareOk_name = name, qDeclareOk_messageCount = messageCount,
           qDeclareOk_consumerCount = consumerCount\<rparr> }"

definition QueueDeclareOk_encodedSize :: "QueueDeclareOk \<Rightarrow> nat" where
  "QueueDeclareOk_encodedSize m = 1 + 2 * 4 + length (qDeclareOk_name m)"

definition QueueDeclareOk_ok :: "QueueDeclareOk \<Rightarrow> bool" where
  "QueueDeclareOk_ok m \<longleftrightarrow> length (qDeclareOk_name m) \<le> 255"

record QueueDelete =
  qDelete_name :: bytes
  qDelete_ifUnused :: bool
  qDelete_ifEmpty :: bool
  qDelete_noWait :: bool

definition QueueDelete_encode :: "QueueDelete \<Rightarrow> bytes" where
  "QueueDelete_encode m =
     write_u16 0
     @ encodeShortString (qDelete_name m)
     @ write_u8 (mask_if (qDelete_noWait m) 4 (mask_if (qDelete_ifEmpty m) 2 (mask_if (qDelete_ifUnused m) 1 0)))"

definition QueueDelete_decode :: "bytes \<Rightarrow> QueueDelete option" where
  "QueueDelete_decode data = do {
     b \<leftarrow> skip_short data;
     (name, b) \<leftarrow> decodeShortString b;
     (bitmask, b) \<leftarrow> copy_u8 b;
     Some \<lparr>qDelete_name = name, qDelete_ifUnused = bitmask AND 1 \<noteq> 0,
           qDelete_ifEmpty = bitmask AND 2 \<noteq> 0,
           qDelete_noWait = bitmask AND 4 \<noteq> 0\<rparr> }"

definition QueueDelete_encodedSize :: "QueueDelete \<Rightarrow> nat" where
  "QueueDelete_encodedSize m = 2 + 2 * 1 + length (qDelete_name m)"

definition QueueDelete_ok :: "QueueDelete \<Rightarrow> bool" where
  "QueueDelete_ok m \<longleftrightarrow> length (qDelete_name m) \<le> 255"

record QueueDeleteOk =
  qDeleteOk_messageCount :: u32

definition QueueDeleteOk_encode :: "QueueDeleteOk \<Rightarrow> bytes" where
  "QueueDeleteOk_encode m =
     write_u32 (qDeleteOk_messageCount m)"

definition QueueDeleteOk_decode :: "bytes \<Rightarrow> QueueDeleteOk option" where
  "QueueDeleteOk_decode data = do {
     (messageCount, b) \<leftarrow> copy_u32 data;
     Some \<lparr>qDeleteOk_messageCount = messageCount\<rparr> }"

definition QueueDeleteOk_encodedSize :: "QueueDeleteOk \<Rightarrow> nat" where
  "QueueDeleteOk_encodedSize m = 4"

record 'dt QueueUnbind =
  qUnbind_queue :: bytes
  qUnbind_exchange :: bytes
  qUnbind_routingKey :: bytes
  qUnbind_arguments :: "'dt field_table"

definition QueueUnbind_encode :: "'dt epoch_util \<Rightarrow> 'dt QueueUnbind \<Rightarrow> bytes" where
  "QueueUnbind_encode ep m =
     write_u16 0
     @ encodeShortString (qUnbind_queue m)
     @ encodeShortString (qUnbind_exchange m)
     @ encodeShortString (qUnbind_routingKey m)
     @ encodeFieldTable ep (qUnbind_arguments m)"

definition QueueUnbind_decode :: "'dt epoch_util \<Rightarrow> bytes \<Rightarrow> 'dt QueueUnbind option" where
  "QueueUnbind_decode ep data = do {
     b \<leftarrow> skip_short data;
     (queue, b) \<leftarrow> decodeShortString b;
     (exchange, b) \<leftarrow> decodeShortString b;
     (routingKey, b) \<leftarrow> decodeShortString b;
     (arguments, b) \<leftarrow> decodeFieldTable ep b;
     Some \<lparr>qUnbind_queue = queue, qUnbind_exchange = exchange,
           qUnbind_routingKey = routingKey, qUnbind_arguments = arguments\<rparr> }"

definition QueueUnbind_encodedSize :: "'dt QueueUnbind \<Rightarrow> nat" where
  "QueueUnbind_encodedSize m = 2 + 3 * 1 + 4 + length (qUnbind_queue m) + length (qUnbind_exchange m) + length (qUnbind_routingKey m) + encodedTableSize (qUnbind_arguments m)"

definition QueueUnbind_ok :: "'dt epoch_util \<Rightarrow> 'dt QueueUnbind \<Rightarrow> bool" where
  "QueueUnbind_ok ep m \<longleftrightarrow> length (qUnbind_queue m) \<le> 255 \<and> length (qUnbind_exchange m) \<le> 255 \<and> length (qUnbind_routingKey m) \<le> 255 \<and> table_ok ep (qUnbind_arguments m)"

definition QueueUnbind_wire :: "'dt QueueUnbind \<Rightarrow> 'dt QueueUnbind" where
  "QueueUnbind_wire m = m\<lparr>qUnbind_arguments := table_wire (qUnbind_arguments m)\<rparr>"

type_synonym QueueUnbindOk = unit

definition QueueUnbindOk_encode :: "QueueUnbindOk \<Rightarrow> bytes" where
  "QueueUnbindOk_encode m =
     []"

definition QueueUnbindOk_decode :: "bytes \<Rightarrow> QueueUnbindOk option" where
  "QueueUnbindOk_decode data = Some ()"

definition QueueUnbindOk_encodedSize :: "QueueUnbindOk \<Rightarrow> nat" where
  "QueueUnbindOk_encodedSize m = 0"

datatype 'dt QueueMethod =
    Queue_Nil
  | M_QueueBind "'dt QueueBind"
  | M_QueueBindOk
  | M_QueueDeclare "'dt QueueDeclare"
  | M_QueueDeclareOk QueueDeclareOk
  | M_QueueDelete QueueDelete
  | M_QueueDeleteOk QueueDeleteOk
  | M_QueueUnbind "'dt QueueUnbind"
  | M_QueueUnbindOk

fun QueueMethod_methodId :: "'dt QueueMethod \<Rightarrow> u16" where
  "QueueMethod_methodId Queue_Nil = 0"
| "QueueMethod_methodId (M_QueueBind _) = 20"
| "QueueMethod_methodId M_QueueBindOk = 21"
| "QueueMethod_methodId (M_QueueDeclare _) = 10"
| "QueueMethod_methodId (M_QueueDeclareOk _) = 11"
| "QueueMethod_methodId (M_QueueDelete _) = 40"
| "QueueMethod_methodId (M_QueueDeleteOk _) = 41"
| "QueueMethod_methodId (M_QueueUnbind _) = 50"
| "QueueMethod_methodId M_QueueUnbindOk = 51"

fun QueueMethod_encode :: "'dt epoch_util \<Rightarrow> 'dt QueueMethod \<Rightarrow> bytes" where
  "QueueMethod_encode ep Queue_Nil = []"
| "QueueMethod_encode ep (M_QueueBind m) = write_u16 20 @ QueueBind_encode ep m"
| "QueueMethod_encode ep M_QueueBindOk = write_u16 21 @ QueueBindOk_encode ()"
| "QueueMethod_encode ep (M_QueueDeclare m) = write_u16 10 @ QueueDeclare_encode ep m"
| "QueueMethod_encode ep (M_QueueDeclareOk m) = write_u16 11 @ QueueDeclareOk_encode m"
| "QueueMethod_encode ep (M_QueueDelete m) = write_u16 40 @ QueueDelete_encode m"
| "QueueMethod_encode ep (M_QueueDeleteOk m) = write_u16 41 @ QueueDeleteOk_encode m"
| "QueueMethod_encode ep (M_QueueUnbind m) = write_u16 50 @ QueueUnbind_encode ep m"
| "QueueMethod_encode ep M_QueueUnbindOk = write_u16 51 @ QueueUnbindOk_encode ()"

definition QueueMethod_decode :: "'dt epoch_util \<Rightarrow> bytes \<Rightarrow> 'dt QueueMethod option" where
  "QueueMethod_decode ep data = do {
     (methodId, b) \<leftarrow> copy_u16 data;
     (if methodId = 10 then map_option M_QueueDeclare (QueueDeclare_decode ep b)
      else if methodId = 11 then map_option M_QueueDeclareOk (QueueDeclareOk_decode b)
      else if methodId = 20 then map_option M_QueueBind (QueueBind_decode ep b)
      else if methodId = 21 then map_option (\<lambda>_. M_QueueBindOk) (QueueBindOk_decode b)
      else if methodId = 50 then map_option M_QueueUnbind (QueueUnbind_decode ep b)
      else if methodId = 51 then map_option (\<lambda>_. M_QueueUnbindOk) (QueueUnbindOk_decode b)
      else if methodId = 40 then map_option M_QueueDelete (QueueDelete_decode b)
      else if methodId = 41 then map_option M_QueueDeleteOk (QueueDeleteOk_decode b)
      else None) }"

fun QueueMethod_encodedSize :: "'dt QueueMethod \<Rightarrow> nat" where
  "QueueMethod_encodedSize Queue_Nil = 2 + 0"
| "QueueMethod_encodedSize (M_QueueBind m) = 2 + QueueBind_encodedSize m"
| "QueueMethod_encodedSize M_QueueBindOk = 2 + QueueBindOk_encodedSize ()"
| "QueueMethod_encodedSize (M_QueueDeclare m) = 2 + QueueDeclare_encodedSize m"
| "QueueMethod_encodedSize (M_QueueDeclareOk m) = 2 + QueueDeclareOk_encodedSize m"
| "QueueMethod_encodedSize (M_QueueDelete m) = 2 + QueueDelete_encodedSize m"
| "QueueMethod_encodedSize (M_QueueDeleteOk m) = 2 + QueueDeleteOk_encodedSize m"
| "QueueMethod_encodedSize (M_QueueUnbind m) = 2 + QueueUnbind_encodedSize m"
| "QueueMethod_encodedSize M_QueueUnbindOk = 2 + QueueUnbindOk_encodedSize ()"

fun QueueMethod_ok :: "'dt epoch_util \<Rightarrow> 'dt QueueMethod \<Rightarrow> bool" where
  "QueueMethod_ok ep Queue_Nil \<longleftrightarrow> False"
| "QueueMethod_ok ep (M_QueueBind m) \<longleftrightarrow> QueueBind_ok ep m"
| "QueueMethod_ok ep M_QueueBindOk \<longleftrightarrow> True"
| "QueueMethod_ok ep (M_QueueDeclare m) \<longleftrightarrow> QueueDeclare_ok ep m"
| "QueueMethod_ok ep (M_QueueDeclareOk m) \<longleftrightarrow> QueueDeclareOk_ok m"
| "QueueMethod_ok ep (M_QueueDelete m) \<longleftrightarrow> QueueDelete_ok m"
| "QueueMethod_ok ep (M_QueueDeleteOk _) \<longleftrightarrow> True"
| "QueueMethod_ok ep (M_QueueUnbind m) \<longleftrightarrow> QueueUnbind_ok ep m"
| "QueueMethod_ok ep M_QueueUnbindOk \<longleftrightarrow> True"

fun QueueMethod_wire :: "'dt QueueMethod \<Rightarrow> 'dt QueueMethod" where
  "QueueMethod_wire (M_QueueBind m) = M_QueueBind (QueueBind_wire m)"
| "QueueMethod_wire (M_QueueDeclare m) = M_QueueDeclare (QueueDeclare_wire m)"
| "QueueMethod_wire (M_QueueUnbind m) = M_QueueUnbind (QueueUnbind_wire m)"
| "QueueMethod_wire m = m"

section \<open>Every method keeps the codec contract\<close>

interpretation xBind: method_codec "ExchangeBind_encode ep" "ExchangeBind_decode ep" ExchangeBind_encodedSize "ExchangeBind_ok ep" ExchangeBind_wire for ep
  by unfold_locales (simp_all add: ExchangeBind_encode_def ExchangeBind_decode_def ExchangeBind_encodedSize_def ExchangeBind_ok_def ExchangeBind_wire_def codec_facts)

interpretation xBindOk: method_codec ExchangeBindOk_encode ExchangeBindOk_decode ExchangeBindOk_encodedSize "\<lambda>_. True" "\<lambda>m. m"
  by unfold_locales (simp_all add: ExchangeBindOk_encode_def ExchangeBindOk_decode_def ExchangeBindOk_encodedSize_def codec_facts)

interpretation xDeclare: method_codec "ExchangeDeclare_encode ep" "ExchangeDeclare_decode ep" ExchangeDeclare_encodedSize "ExchangeDeclare_ok ep" ExchangeDeclare_wire for ep
  by unfold_locales (simp_all add: ExchangeDeclare_encode_def ExchangeDeclare_decode_def ExchangeDeclare_encodedSize_def ExchangeDeclare_ok_def ExchangeDeclare_wire_def codec_facts)

interpretation xDeclareOk: method_codec ExchangeDeclareOk_encode ExchangeDeclareOk_decode ExchangeDeclareOk_encodedSize "\<lambda>_. True" "\<lambda>m. m"
  by unfold_locales (simp_all add: ExchangeDeclareOk_encode_def ExchangeDeclareOk_decode_def ExchangeDeclareOk_encodedSize_def codec_facts)

lemma ExchangeMethod_roundtrip:
  "ExchangeMethod_ok ep m \<Longrightarrow>
     ExchangeMethod_decode ep (ExchangeMethod_encode ep m) = Some (ExchangeMethod_wire m)"
  by (cases m) (simp_all add: ExchangeMethod_decode_def xBind.roundtrip xBindOk.roundtrip xDeclare.roundtrip xDeclareOk.roundtrip)

interpretation exchangeClass: method_codec "ExchangeMethod_encode ep" "ExchangeMethod_decode ep" ExchangeMethod_encodedSize
  "ExchangeMethod_ok ep" ExchangeMethod_wire for ep
proof (unfold_locales, goal_cases)
  case (1 m)
  then show ?case by (rule ExchangeMethod_roundtrip)
next
  case (2 m)
  then show ?case by (cases m) (simp_all add: xBind.size xBindOk.size xDeclare.size xDeclareOk.size)
qed

interpretation qBind: method_codec "QueueBind_encode ep" "QueueBind_decode ep" QueueBind_encodedSize "QueueBind_ok ep" QueueBind_wire for ep
  by unfold_locales (simp_all add: QueueBind_encode_def QueueBind_decode_def QueueBind_encodedSize_def QueueBind_ok_def QueueBind_wire_def codec_facts)

interpretation qBindOk: method_codec QueueBindOk_encode QueueBindOk_decode QueueBindOk_encodedSize "\<lambda>_. True" "\<lambda>m. m"
  by unfold_locales (simp_all add: QueueBindOk_encode_def QueueBindOk_decode_def QueueBindOk_encodedSize_def codec_facts)

interpretation qDeclare: method_codec "QueueDeclare_encode ep" "QueueDeclare_decode ep" QueueDeclare_encodedSize "QueueDeclare_ok ep" QueueDeclare_wire for ep
  by unfold_locales (simp_all add: QueueDeclare_encode_def QueueDeclare_decode_def QueueDeclare_encodedSize_def QueueDeclare_ok_def QueueDeclare_wire_def codec_facts)

interpretation qDeclareOk: method_codec QueueDeclareOk_encode QueueDeclareOk_decode QueueDeclareOk_encodedSize QueueDeclareOk_ok "\<lambda>m. m"
  by unfold_locales (simp_all add: QueueDeclareOk_encode_def QueueDeclareOk_decode_def QueueDeclareOk_encodedSize_def QueueDeclareOk_ok_def codec_facts)

interpretation qDelete: method_codec QueueDelete_encode QueueDelete_decode QueueDelete_encodedSize QueueDelete_ok "\<lambda>m. m"
  by unfold_locales (simp_all add: QueueDelete_encode_def QueueDelete_decode_def QueueDelete_encodedSize_def QueueDelete_ok_def codec_facts)

interpretation qDeleteOk: method_codec QueueDeleteOk_encode QueueDeleteOk_decode QueueDeleteOk_encodedSize "\<lambda>_. True" "\<lambda>m. m"
  by unfold_locales (simp_all add: QueueDeleteOk_encode_def QueueDeleteOk_decode_def QueueDeleteOk_encodedSize_def codec_facts)

interpretation qUnbind: method_codec "QueueUnbind_encode ep" "QueueUnbind_decode ep" QueueUnbind_encodedSize "QueueUnbind_ok ep" QueueUnbind_wire for ep
  by unfold_locales (simp_all add: QueueUnbind_encode_def QueueUnbind_decode_def QueueUnbind_encodedSize_def QueueUnbind_ok_def QueueUnbind_wire_def codec_facts)

interpretation qUnbindOk: method_codec QueueUnbindOk_encode QueueUnbindOk_decode QueueUnbindOk_encodedSize "\<lambda>_. True" "\<lambda>m. m"
  by unfold_locales (simp_all add: QueueUnbindOk_encode_def QueueUnbindOk_decode_def QueueUnbindOk_encodedSize_def codec_facts)

lemma QueueMethod_roundtrip:
  "QueueMethod_ok ep m \<Longrightarrow>
     QueueMethod_decode ep (QueueMethod_encode ep m) = Some (QueueMethod_wire m)"
  by (cases m) (simp_all add: QueueMethod_decode_def qBind.roundtrip qBindOk.roundtrip qDeclare.roundtrip qDeclareOk.roundtrip qDelete.roundtrip qDeleteOk.roundtrip qUnbind.roundtrip qUnbindOk.roundtrip)

interpretation queueClass: method_codec "QueueMethod_encode ep" "QueueMethod_decode ep" QueueMethod_encodedSize
  "QueueMethod_ok ep" QueueMethod_wire for ep
proof (unfold_locales, goal_cases)
  case (1 m)
  then show ?case by (rule QueueMethod_roundtrip)
next
  case (2 m)
  then show ?case by (cases m) (simp_all add: qBind.size qBindOk.size qDeclare.size qDeclareOk.size qDelete.size qDeleteOk.size qUnbind.size qUnbindOk.size)
qed

end
