(* ===== verification/Method.thy ===== *)
theory Method
  imports Basic_Methods Channel_Methods Connection_Methods Topology_Methods
begin

text \<open>
  \<open>rmqamqpt::Method\<close>: the variant over the six supported method classes, its class id, size, wire
  format and \<open>typeMatch\<close>.
\<close>

datatype 'dt Method =
    Method_Nil
  | Basic "'dt BasicMethod"
  | Channel ChannelMethod
  | Confirm ConfirmMethod
  | Connection "'dt ConnectionMethod"
  | Exchange "'dt ExchangeMethod"
  | Queue "'dt QueueMethod"

fun Method_classId :: "'dt Method \<Rightarrow> u16" where
  "Method_classId Method_Nil = 0"
| "Method_classId (Basic _) = 60"
| "Method_classId (Channel _) = 20"
| "Method_classId (Confirm _) = 85"
| "Method_classId (Connection _) = 10"
| "Method_classId (Exchange _) = 40"
| "Method_classId (Queue _) = 50"

fun Method_encodedSize :: "'dt Method \<Rightarrow> nat" where
  "Method_encodedSize Method_Nil = 2 + 0"
| "Method_encodedSize (Basic m) = 2 + BasicMethod_encodedSize m"
| "Method_encodedSize (Channel m) = 2 + ChannelMethod_encodedSize m"
| "Method_encodedSize (Confirm m) = 2 + ConfirmMethod_encodedSize m"
| "Method_encodedSize (Connection m) = 2 + ConnectionMethod_encodedSize m"
| "Method_encodedSize (Exchange m) = 2 + ExchangeMethod_encodedSize m"
| "Method_encodedSize (Queue m) = 2 + QueueMethod_encodedSize m"

text \<open>The switch of \<open>decodeMethodPayload\<close>.\<close>

definition decodeMethodPayload :: "'dt epoch_util \<Rightarrow> u16 \<Rightarrow> bytes \<Rightarrow> 'dt Method option" where
  "decodeMethodPayload ep classId b =
     (if classId = 60 then map_option Basic (BasicMethod_decode ep b)
      else if classId = 85 then map_option Confirm (ConfirmMethod_decode b)
      else if classId = 10 then map_option Connection (ConnectionMethod_decode ep b)
      else if classId = 20 then map_option Channel (ChannelMethod_decode b)
      else if classId = 40 then map_option Exchange (ExchangeMethod_decode ep b)
      else if classId = 50 then map_option Queue (QueueMethod_decode ep b)
      else None)"

definition Method_decode :: "'dt epoch_util \<Rightarrow> bytes \<Rightarrow> 'dt Method option" where
  "Method_decode ep data = do {
     (classId, b) \<leftarrow> copy_u16 data;
     decodeMethodPayload ep classId b }"

fun Method_encodePayload :: "'dt epoch_util \<Rightarrow> 'dt Method \<Rightarrow> bytes" where
  "Method_encodePayload ep Method_Nil = []"
| "Method_encodePayload ep (Basic m) = BasicMethod_encode ep m"
| "Method_encodePayload ep (Channel m) = ChannelMethod_encode m"
| "Method_encodePayload ep (Confirm m) = ConfirmMethod_encode m"
| "Method_encodePayload ep (Connection m) = ConnectionMethod_encode ep m"
| "Method_encodePayload ep (Exchange m) = ExchangeMethod_encode ep m"
| "Method_encodePayload ep (Queue m) = QueueMethod_encode ep m"

definition Method_encode :: "'dt epoch_util \<Rightarrow> 'dt Method \<Rightarrow> bytes" where
  "Method_encode ep m = write_u16 (Method_classId m) @ Method_encodePayload ep m"

text \<open>\<open>typeMatch\<close>: \<open>same\<close> says whether the two references are to one object.\<close>

fun Method_typeMatch :: "bool \<Rightarrow> 'dt Method \<Rightarrow> 'dt Method \<Rightarrow> bool" where
  "Method_typeMatch same (Basic l) (Basic r) \<longleftrightarrow>
     same \<or> BasicMethod_methodId l = BasicMethod_methodId r"
| "Method_typeMatch same (Channel l) (Channel r) \<longleftrightarrow>
     same \<or> ChannelMethod_methodId l = ChannelMethod_methodId r"
| "Method_typeMatch same (Connection l) (Connection r) \<longleftrightarrow>
     same \<or> ConnectionMethod_methodId l = ConnectionMethod_methodId r"
| "Method_typeMatch same (Exchange l) (Exchange r) \<longleftrightarrow>
     same \<or> ExchangeMethod_methodId l = ExchangeMethod_methodId r"
| "Method_typeMatch same (Queue l) (Queue r) \<longleftrightarrow>
     same \<or> QueueMethod_methodId l = QueueMethod_methodId r"
| "Method_typeMatch same _ _ \<longleftrightarrow> same"

fun Method_ok :: "'dt epoch_util \<Rightarrow> 'dt Method \<Rightarrow> bool" where
  "Method_ok ep Method_Nil \<longleftrightarrow> False"
| "Method_ok ep (Basic m) \<longleftrightarrow> BasicMethod_ok ep m"
| "Method_ok ep (Channel m) \<longleftrightarrow> ChannelMethod_ok m"
| "Method_ok ep (Confirm m) \<longleftrightarrow> ConfirmMethod_ok m"
| "Method_ok ep (Connection m) \<longleftrightarrow> ConnectionMethod_ok ep m"
| "Method_ok ep (Exchange m) \<longleftrightarrow> ExchangeMethod_ok ep m"
| "Method_ok ep (Queue m) \<longleftrightarrow> QueueMethod_ok ep m"

fun Method_wire :: "'dt Method \<Rightarrow> 'dt Method" where
  "Method_wire (Basic m) = Basic (BasicMethod_wire m)"
| "Method_wire (Connection m) = Connection (ConnectionMethod_wire m)"
| "Method_wire (Exchange m) = Exchange (ExchangeMethod_wire m)"
| "Method_wire (Queue m) = Queue (QueueMethod_wire m)"
| "Method_wire m = m"

section \<open>The codec contract\<close>

lemmas class_roundtrip = basicClass.roundtrip channelClass.roundtrip confirmClass.roundtrip
  connectionClass.roundtrip exchangeClass.roundtrip queueClass.roundtrip

lemmas class_size = basicClass.size channelClass.size confirmClass.size
  connectionClass.size exchangeClass.size queueClass.size

interpretation meth: method_codec "Method_encode ep" "Method_decode ep" Method_encodedSize
  "Method_ok ep" Method_wire for ep
proof (unfold_locales, goal_cases)
  case (1 m)
  then show ?case
    by (cases m) (simp_all add: Method_decode_def Method_encode_def decodeMethodPayload_def class_roundtrip)
next
  case (2 m)
  then show ?case
    by (cases m) (simp_all add: Method_encode_def class_size)
qed

lemma Method_encode_Nil [simp]: "Method_encode ep m \<noteq> []"
  by (simp add: Method_encode_def write_u16_def)

section \<open>Properties\<close>



end
