(* ===== verification/Frame.thy ===== *)
theory Frame
  imports Buffer
begin

text \<open>
  AMQP frames and the reassembly of frames from a byte stream: \<open>rmqamqpt::Frame\<close>, the frame header
  and end marker written by \<open>rmqamqp::Framer\<close>, and \<open>rmqio::Decoder\<close>, which is fed whatever the
  socket delivers.

  Sizes in memory are natural numbers; the 32-bit length field of a frame is a \<^typ>\<open>u32\<close>, so a
  payload of \<open>2 ^ 32\<close> octets or more wraps around in the header as it does in the sources.
\<close>

record frame =
  f_type :: u8
  f_channel :: u16
  f_serializedData :: "bytes option"

definition frameHeaderSize :: nat where
  "frameHeaderSize = 1 + 2 + 4"

definition frameOverhead :: nat where
  "frameOverhead = frameHeaderSize + 1"

definition FRAME_END :: u8 where
  "FRAME_END = 0xCE"

definition maxFrameSize :: nat where
  "maxFrameSize = 150000"

definition calculateFrameSize :: "nat \<Rightarrow> nat" where
  "calculateFrameSize payloadSize = payloadSize + frameOverhead"

definition Frame_new :: frame where
  "Frame_new = \<lparr>f_type = 0, f_channel = 0, f_serializedData = None\<rparr>"

definition payloadLength :: "frame \<Rightarrow> nat" where
  "payloadLength f =
     (case f_serializedData f of Some d \<Rightarrow> length d - frameOverhead | None \<Rightarrow> 0)"

definition totalFrameSize :: "frame \<Rightarrow> nat" where
  "totalFrameSize f = (case f_serializedData f of Some d \<Rightarrow> length d | None \<Rightarrow> 0)"

text \<open>The range \<open>[payload(), payload() + payloadLength())\<close>; \<open>[]\<close> for a null pointer.\<close>

definition Frame_payload :: "frame \<Rightarrow> bytes" where
  "Frame_payload f =
     (case f_serializedData f of
        Some d \<Rightarrow> take (payloadLength f) (drop frameHeaderSize d) | None \<Rightarrow> [])"

text \<open>\<open>Frame::decode\<close>: the frame, the bytes it takes and the bytes left over; or why there is none.\<close>

datatype decode_result =
    Decoded frame nat nat
  | Partial
  | Decode_error

definition Frame_decode :: "bytes \<Rightarrow> decode_result" where
  "Frame_decode buffer =
     (if length buffer < frameOverhead then Partial
      else
        let payloadLen = unat (be_dec (take 4 (drop 3 buffer)) :: u32) in
        if length buffer < frameOverhead + payloadLen then Partial
        else if buffer ! (frameHeaderSize + payloadLen) \<noteq> FRAME_END then Decode_error
        else Decoded
          \<lparr>f_type = buffer ! 0, f_channel = be_dec (take 2 (drop 1 buffer)),
           f_serializedData = Some (take (frameOverhead + payloadLen) buffer)\<rparr>
          (payloadLen + frameOverhead)
          (length buffer - (frameOverhead + payloadLen)))"

definition encodeFrameHeader :: "u8 \<Rightarrow> u16 \<Rightarrow> nat \<Rightarrow> bytes" where
  "encodeFrameHeader type channel payloadLen =
     write_u8 type @ write_u16 channel @ write_u32 (of_nat payloadLen)"

definition encodeFrameEnd :: bytes where
  "encodeFrameEnd = write_u8 FRAME_END"

section \<open>The stream decoder\<close>

record decoder =
  d_maxFrameSize :: nat
  d_buffer :: bytes

datatype decoder_rc = DEC_OK | DEC_DECODE_ERROR | DEC_MAX_FRAME_SIZE

definition Decoder_create :: "nat \<Rightarrow> decoder" where
  "Decoder_create maxSize = \<lparr>d_maxFrameSize = maxSize, d_buffer = []\<rparr>"

lemma Frame_decode_read:
  "Frame_decode bs = Decoded f n m \<Longrightarrow> frameOverhead \<le> n \<and> n \<le> length bs \<and>
     m = length bs - n \<and> f_serializedData f = Some (take n bs)"
  by (auto simp: Frame_decode_def Let_def add.commute split: if_splits)

text \<open>The loop of \<open>appendBytes\<close>: the frames pushed, whether it ended in an error, and the bytes it did
  not read. It terminates because a decoded frame takes at least \<open>frameOverhead\<close> bytes.\<close>

function decode_loop :: "bytes \<Rightarrow> frame list \<times> bool \<times> bytes" where
  "decode_loop buf =
     (case Frame_decode buf of
        Decoded f readBytes missing \<Rightarrow>
          (case decode_loop (drop readBytes buf) of (fs, err, rest) \<Rightarrow> (f # fs, err, rest))
      | Partial \<Rightarrow> ([], False, buf)
      | Decode_error \<Rightarrow> ([], True, buf))"
  by pat_completeness auto
termination
proof (relation "measure length")
  fix buf f n m
  assume "Frame_decode buf = Decoded f n m"
  then have "frameOverhead \<le> n" and "n \<le> length buf"
    using Frame_decode_read by blast+
  moreover have "0 < frameOverhead"
    by (simp add: frameOverhead_def)
  ultimately show "(drop n buf, buf) \<in> measure length"
    by auto
qed simp

declare decode_loop.simps [simp del]

definition appendBytes :: "decoder \<Rightarrow> bytes \<Rightarrow> decoder_rc \<times> frame list \<times> decoder" where
  "appendBytes d bytes =
     (let buf = d_buffer d @ bytes in
      case decode_loop buf of (frames, err, rest) \<Rightarrow>
        if err then (DEC_DECODE_ERROR, frames, d\<lparr>d_buffer := buf\<rparr>)
        else if length rest > d_maxFrameSize d
          then (DEC_MAX_FRAME_SIZE, frames, d\<lparr>d_buffer := rest\<rparr>)
        else (DEC_OK, frames, d\<lparr>d_buffer := rest\<rparr>))"

text \<open>A connection feeds the decoder one read after the other and stops at the first failure.\<close>

fun appendAll :: "decoder \<Rightarrow> bytes list \<Rightarrow> decoder_rc \<times> frame list \<times> decoder" where
  "appendAll d [] = (DEC_OK, [], d)"
| "appendAll d (c # cs) =
     (case appendBytes d c of
        (DEC_OK, fs, d') \<Rightarrow> (case appendAll d' cs of (rc, fs', d'') \<Rightarrow> (rc, fs @ fs', d''))
      | (rc, fs, d') \<Rightarrow> (rc, fs, d'))"

text \<open>A frame as the framer writes it.\<close>

definition frame_bytes :: "u8 \<Rightarrow> u16 \<Rightarrow> bytes \<Rightarrow> bytes" where
  "frame_bytes type channel payload =
     encodeFrameHeader type channel (length payload) @ payload @ encodeFrameEnd"

definition mk_frame :: "u8 \<Rightarrow> u16 \<Rightarrow> bytes \<Rightarrow> frame" where
  "mk_frame type channel payload =
     \<lparr>f_type = type, f_channel = channel, f_serializedData = Some (frame_bytes type channel payload)\<rparr>"

definition frame_ok :: "frame \<Rightarrow> bool" where
  "frame_ok f \<longleftrightarrow>
     length (Frame_payload f) < 2 ^ 32 \<and> f = mk_frame (f_type f) (f_channel f) (Frame_payload f)"

definition frame_wire :: "frame \<Rightarrow> bytes" where
  "frame_wire f = (case f_serializedData f of Some d \<Rightarrow> d | None \<Rightarrow> [])"

section \<open>One frame\<close>

lemmas frame_sizes = frameOverhead_def frameHeaderSize_def

lemma length_frame_bytes [simp]: "length (frame_bytes t c p) = length p + frameOverhead"
  by (simp add: frame_bytes_def encodeFrameHeader_def encodeFrameEnd_def frame_sizes)

lemma Frame_payload_mk [simp]: "Frame_payload (mk_frame t c p) = p"
  by (simp add: Frame_payload_def mk_frame_def payloadLength_def)
     (simp add: frame_bytes_def encodeFrameHeader_def frame_sizes)

lemma mk_frame_sel [simp]:
  "f_type (mk_frame t c p) = t" "f_channel (mk_frame t c p) = c"
  "frame_wire (mk_frame t c p) = frame_bytes t c p"
  "totalFrameSize (mk_frame t c p) = length p + frameOverhead"
  "payloadLength (mk_frame t c p) = length p"
  by (simp_all add: mk_frame_def frame_wire_def totalFrameSize_def payloadLength_def)

lemma frame_ok_mk [simp]: "frame_ok (mk_frame t c p) \<longleftrightarrow> length p < 2 ^ 32"
  by (simp add: frame_ok_def)

lemma frame_okE:
  assumes "frame_ok f"
  obtains t c p where "f = mk_frame t c p" and "length p < 2 ^ 32"
  using assms unfolding frame_ok_def by metis

lemma Frame_decode_encode [codec]:
  assumes "length p < 2 ^ 32"
  shows "Frame_decode (frame_bytes t c p @ r)
     = Decoded (mk_frame t c p) (length p + frameOverhead) (length r)"
proof -
  let ?hdr = "write_u8 t @ write_u16 c @ write_u32 (of_nat (length p))"
  have bytes: "frame_bytes t c p @ r = ?hdr @ p @ FRAME_END # r"
    by (simp add: frame_bytes_def encodeFrameHeader_def encodeFrameEnd_def write_u8_def)
  have len: "unat (be_dec (take 4 (drop 3 (frame_bytes t c p @ r))) :: u32) = length p"
    using assms by (simp add: bytes write_u32_def unat_of_nat)
  have chan: "be_dec (take 2 (drop 1 (frame_bytes t c p @ r))) = c"
    by (simp add: bytes write_u8_def write_u16_def)
  have mark: "(frame_bytes t c p @ r) ! (frameHeaderSize + length p) = FRAME_END"
    by (simp add: bytes nth_append frameHeaderSize_def)
  have kind: "(frame_bytes t c p @ r) ! 0 = t"
    by (simp add: bytes write_u8_def)
  show ?thesis
    unfolding Frame_decode_def Let_def len
    using chan mark kind by (simp add: mk_frame_def)
qed

text \<open>Only the bytes of the frame matter to a decode that has enough of them.\<close>

lemma Frame_decode_append:
  "Frame_decode bs = Decoded f n m \<Longrightarrow> Frame_decode (bs @ x) = Decoded f n (m + length x)"
  "Frame_decode bs = Decode_error \<Longrightarrow> Frame_decode (bs @ x) = Decode_error"
  by (auto simp: Frame_decode_def Let_def nth_append frame_sizes split: if_splits)

lemma Frame_decode_prefix:
  assumes "length p < 2 ^ 32" and "frame_bytes t c p = a @ b" and "b \<noteq> []"
  shows "Frame_decode a = Partial"
proof -
  have full: "Frame_decode (a @ b) = Decoded (mk_frame t c p) (length (a @ b)) 0"
    using Frame_decode_encode [OF assms(1), of t c "[]"] length_frame_bytes [of t c p]
    by (simp add: assms(2) [symmetric])
  show ?thesis
  proof (cases "Frame_decode a")
    case (Decoded f n m)
    then have "n = length (a @ b)" and "n \<le> length a"
      using Frame_decode_append(1) [OF Decoded, of b] full Frame_decode_read [OF Decoded] by simp_all
    then show ?thesis using assms(3) by simp
  next
    case Partial
    then show ?thesis .
  next
    case Decode_error
    then show ?thesis
      using Frame_decode_append(2) [OF Decode_error, of b] full by simp
  qed
qed

section \<open>The loop\<close>

lemma decode_loop_append:
  "decode_loop a = (fs, False, rest) \<Longrightarrow>
     decode_loop (a @ b) = (case decode_loop (rest @ b) of (fs', err, rest') \<Rightarrow> (fs @ fs', err, rest'))"
proof (induction a arbitrary: fs rule: decode_loop.induct)
  case (1 buf)
  show ?case
  proof (cases "Frame_decode buf")
    case (Decoded f n m)
    obtain fs1 err1 rest1 where l: "decode_loop (drop n buf) = (fs1, err1, rest1)"
      by (cases "decode_loop (drop n buf)") auto
    have fs: "fs = f # fs1" "err1 = False" "rest1 = rest"
      using 1(2) Decoded l by (simp_all add: decode_loop.simps [of buf])
    have n: "n \<le> length buf"
      using Frame_decode_read [OF Decoded] by blast
    show ?thesis
      using 1(1) [OF Decoded, of fs1] l fs n Frame_decode_append(1) [OF Decoded, of b]
      by (simp add: decode_loop.simps [of "buf @ b"] split: prod.splits)
  next
    case Partial
    then show ?thesis
      using 1(2) by (auto simp: decode_loop.simps [of buf] split: prod.splits)
  next
    case Decode_error
    then show ?thesis
      using 1(2) by (auto simp: decode_loop.simps [of buf])
  qed
qed

lemma decode_loop_lossless:
  "decode_loop bs = (fs, err, rest) \<Longrightarrow> bs = concat (map frame_wire fs) @ rest"
proof (induction bs arbitrary: fs rule: decode_loop.induct)
  case (1 buf)
  show ?case
  proof (cases "Frame_decode buf")
    case (Decoded f n m)
    obtain fs1 where l: "decode_loop (drop n buf) = (fs1, err, rest)" and fs: "fs = f # fs1"
      using 1(2) Decoded by (auto simp: decode_loop.simps [of buf] split: prod.splits)
    have "drop n buf = concat (map frame_wire fs1) @ rest"
      by (rule 1(1) [OF Decoded l])
    moreover have "frame_wire f = take n buf"
      using Frame_decode_read [OF Decoded] by (simp add: frame_wire_def)
    ultimately show ?thesis
      using fs append_take_drop_id [of n buf] by simp
  next
    case Partial
    then show ?thesis
      using 1(2) by (auto simp: decode_loop.simps [of buf])
  next
    case Decode_error
    then show ?thesis
      using 1(2) by (auto simp: decode_loop.simps [of buf])
  qed
qed

lemma decode_loop_frame:
  "length p < 2 ^ 32 \<Longrightarrow> decode_loop (frame_bytes t c p @ r) =
     (case decode_loop r of (fs, err, rest) \<Rightarrow> (mk_frame t c p # fs, err, rest))"
  by (simp add: decode_loop.simps [of "frame_bytes t c p @ r"] Frame_decode_encode)

lemma decode_loop_Nil [simp]: "decode_loop [] = ([], False, [])"
  by (simp add: decode_loop.simps Frame_decode_def frame_sizes)

text \<open>A prefix of a stream of frames decodes to a prefix of the frames and an incomplete one.\<close>

lemma decode_loop_prefix:
  assumes "\<forall>f \<in> set frames. frame_ok f \<and> totalFrameSize f \<le> M"
    and "concat (map frame_wire frames) = a @ b"
  shows "\<exists>dn rest. decode_loop a = (dn, False, rest) \<and> length rest \<le> M \<and>
     (b = [] \<longrightarrow> dn = frames \<and> rest = [])"
  using assms
proof (induction frames arbitrary: a)
  case Nil
  then show ?case by simp
next
  case (Cons f frames)
  obtain t c p where f: "f = mk_frame t c p" and p: "length p < 2 ^ 32"
    using Cons.prems(1) frame_okE [of f] by (metis list.set_intros(1))
  show ?case
  proof (cases "length (frame_bytes t c p) \<le> length a")
    case True
    then obtain a' where a: "a = frame_bytes t c p @ a'"
      using Cons.prems(2) f
      by (metis append_eq_append_conv_if append_take_drop_id list.simps(9) concat.simps(2) mk_frame_sel(3))
    have "concat (map frame_wire frames) = a' @ b"
      using Cons.prems(2) by (simp add: f a)
    then obtain dn' rest where
      l: "decode_loop a' = (dn', False, rest)" "length rest \<le> M"
        "b = [] \<longrightarrow> dn' = frames \<and> rest = []"
      using Cons.IH [of a'] Cons.prems(1) by auto
    then show ?thesis
      using p by (simp add: a f decode_loop_frame)
  next
    case False
    have split: "frame_bytes t c p @ concat (map frame_wire frames) = a @ b"
      using Cons.prems(2) f by simp
    obtain b' where "frame_bytes t c p = a @ b'"
      using append_eq_append_conv_if [of "frame_bytes t c p"] split False
      by (metis append_take_drop_id)
    with False have b': "frame_bytes t c p = a @ b'" "b' \<noteq> []"
      by auto
    have part: "Frame_decode a = Partial"
      by (rule Frame_decode_prefix [OF p b'])
    have "length a \<le> M"
      using Cons.prems(1) False by (simp add: f)
    moreover have "b \<noteq> []"
      using Cons.prems(2) b' by (auto simp: f)
    ultimately show ?thesis
      by (simp add: decode_loop.simps [of a] part)
  qed
qed

section \<open>Feeding the decoder\<close>

lemma appendBytes_ok:
  "decode_loop (d_buffer d @ c) = (fs, False, rest) \<Longrightarrow> length rest \<le> d_maxFrameSize d \<Longrightarrow>
     appendBytes d c = (DEC_OK, fs, d\<lparr>d_buffer := rest\<rparr>)"
  by (simp add: appendBytes_def)

lemma appendBytes_okD:
  "appendBytes d c = (DEC_OK, fs, d') \<Longrightarrow>
     decode_loop (d_buffer d @ c) = (fs, False, d_buffer d') \<and>
     d_maxFrameSize d' = d_maxFrameSize d \<and> length (d_buffer d') \<le> d_maxFrameSize d"
  by (auto simp: appendBytes_def Let_def split: prod.splits if_splits)

lemma decode_loop_Partial: "Frame_decode bs = Partial \<Longrightarrow> decode_loop bs = ([], False, bs)"
  by (simp add: decode_loop.simps [of bs])

lemma decode_loop_pending:
  "decode_loop bs = (fs, False, rest) \<Longrightarrow> decode_loop rest = ([], False, rest)"
proof (induction bs arbitrary: fs rule: decode_loop.induct)
  case (1 buf)
  then show ?case
    by (cases "Frame_decode buf") (auto simp: decode_loop.simps [of buf] decode_loop_Partial split: prod.splits)
qed

lemma appendAll_decode_loop:
  assumes "\<And>a b. concat cs = a @ b \<Longrightarrow>
     \<exists>fs rest. decode_loop (d_buffer d @ a) = (fs, False, rest) \<and> length rest \<le> d_maxFrameSize d"
    and "decode_loop (d_buffer d) = ([], False, d_buffer d)"
  shows "\<exists>fs rest. appendAll d cs = (DEC_OK, fs, d\<lparr>d_buffer := rest\<rparr>) \<and>
     decode_loop (d_buffer d @ concat cs) = (fs, False, rest)"
  using assms
proof (induction cs arbitrary: d)
  case Nil
  then show ?case by (auto intro!: exI [of _ "d_buffer d"])
next
  case (Cons c cs)
  obtain fs rest where c: "decode_loop (d_buffer d @ c) = (fs, False, rest)"
      "length rest \<le> d_maxFrameSize d"
    using Cons.prems(1) [of c "concat cs"] by auto
  let ?d = "d\<lparr>d_buffer := rest\<rparr>"
  have step: "\<exists>fs r. decode_loop (rest @ a) = (fs, False, r) \<and> length r \<le> d_maxFrameSize d"
    if "concat cs = a @ b" for a b
    using Cons.prems(1) [of "c @ a" b] that decode_loop_append [OF c(1), of a]
    by (auto split: prod.splits)
  obtain fs' rest' where rest: "appendAll ?d cs = (DEC_OK, fs', ?d\<lparr>d_buffer := rest'\<rparr>)"
      "decode_loop (rest @ concat cs) = (fs', False, rest')"
    using Cons.IH [of ?d] step decode_loop_pending [OF c(1)] by auto
  show ?case
    using appendBytes_ok [OF c] rest decode_loop_append [OF c(1), of "concat cs"] by simp
qed

lemma appendAll_okD:
  "appendAll d cs = (DEC_OK, fs, d') \<Longrightarrow> decode_loop (d_buffer d) = ([], False, d_buffer d) \<Longrightarrow>
     decode_loop (d_buffer d @ concat cs) = (fs, False, d_buffer d')"
proof (induction cs arbitrary: d fs)
  case Nil
  then show ?case by simp
next
  case (Cons c cs)
  obtain fs1 d1 fs2 where c: "appendBytes d c = (DEC_OK, fs1, d1)"
      and cs: "appendAll d1 cs = (DEC_OK, fs2, d')" and fs: "fs = fs1 @ fs2"
    using Cons.prems(1) by (auto split: prod.splits decoder_rc.splits)
  note l = appendBytes_okD [OF c, THEN conjunct1]
  show ?case
    using Cons.IH [OF cs decode_loop_pending [OF l]] decode_loop_append [OF l, of "concat cs"]
    by (simp add: fs)
qed

lemma decoder_delivers:
  assumes "\<forall>f \<in> set frames. frame_ok f \<and> totalFrameSize f \<le> maxSize"
    and "concat reads = concat (map frame_wire frames)"
  shows "appendAll (Decoder_create maxSize) reads = (DEC_OK, frames, Decoder_create maxSize)"
proof -
  let ?d = "Decoder_create maxSize"
  have "\<exists>fs rest. decode_loop (d_buffer ?d @ a) = (fs, False, rest) \<and>
      length rest \<le> d_maxFrameSize ?d" if "concat reads = a @ b" for a b
    using decode_loop_prefix [OF assms(1), of a b] assms(2) that by (auto simp: Decoder_create_def)
  from appendAll_decode_loop [OF this]
  have "\<exists>fs rest. appendAll ?d reads = (DEC_OK, fs, ?d\<lparr>d_buffer := rest\<rparr>) \<and>
      decode_loop (concat reads) = (fs, False, rest)"
    by (simp add: Decoder_create_def)
  moreover have "decode_loop (concat reads) = (frames, False, [])"
    using decode_loop_prefix [OF assms(1), of "concat reads" "[]"] assms(2) by auto
  ultimately show ?thesis
    by (simp add: Decoder_create_def)
qed

section \<open>Properties\<close>

lemma be_enc_numeral:
  "be_enc (numeral k) w = ucast (drop_bit (8 * pred_numeral k) w) # be_enc (pred_numeral k) w"
  by (simp add: numeral_eq_Suc)

lemmas frame_eval = frame_bytes_def encodeFrameHeader_def encodeFrameEnd_def write_u8_def write_u16_def
  write_u32_def be_enc_numeral FRAME_END_def frame_sizes

text \<open>Frame delivery. Take any list of frames as the framer builds them, none larger than the
  decoder's limit, and cut the bytes of the stream into reads at arbitrary places (also inside frame
  headers, also empty reads): the decoder accepts every read, pushes exactly these frames in this
  order, and has an empty buffer at the end.\<close>

theorem frame_stream_delivery:
  assumes "\<forall>f \<in> set frames. frame_ok f \<and> totalFrameSize f \<le> maxSize"
    and "concat reads = concat (map frame_wire frames)"
  shows "appendAll (Decoder_create maxSize) reads = (DEC_OK, frames, Decoder_create maxSize)"
  using assms by (rule decoder_delivers)

theorem frame_stream_delivery_witness:
  "appendAll (Decoder_create 12) [[1, 0], [], [7, 0, 0, 0, 2, 9, 9, 0xCE, 8], [0, 0, 0, 0, 0, 0, 0xCE]]
     = (DEC_OK, [mk_frame 1 7 [9, 9], mk_frame 8 0 []], Decoder_create 12)"
  by (rule frame_stream_delivery)
     (simp_all add: frame_eval)

text \<open>C39: How the socket cuts the stream into reads does not matter. Two ways to cut the same bytes
  that the decoder both accepts push the same frames and leave the same bytes buffered, and in each
  case the frames pushed and the buffered bytes are together exactly the bytes read: nothing is lost,
  duplicated or reordered.\<close>

theorem decoder_chunking_irrelevant:
  assumes "appendAll (Decoder_create m) reads = (DEC_OK, fs, d)"
    and "appendAll (Decoder_create m') reads' = (DEC_OK, fs', d')"
    and "concat reads = concat reads'"
  shows "fs = fs' \<and> d_buffer d = d_buffer d' \<and>
     concat reads = concat (map frame_wire fs) @ d_buffer d"
proof -
  have "decode_loop (concat reads) = (fs, False, d_buffer d)"
    and "decode_loop (concat reads') = (fs', False, d_buffer d')"
    using appendAll_okD [OF assms(1)] appendAll_okD [OF assms(2)] by (simp_all add: Decoder_create_def)
  then show ?thesis
    using assms(3) decode_loop_lossless by auto
qed

lemma decode_eval:
  "decode_loop [] = ([], False, [])"
  "decode_loop [8] = ([], False, [8])"
  "decode_loop [8, 0, 0] = ([], False, [8, 0, 0])"
  "decode_loop [8, 0, 0, 0, 0, 0, 0, 0xCE, 1] = ([mk_frame 8 0 []], False, [1])"
  by (simp_all add: decode_loop.simps Frame_decode_def be_dec_def mk_frame_def frame_eval)

theorem decoder_chunking_irrelevant_witness:
  "[mk_frame 8 0 []] = [mk_frame 8 0 []] \<and> [1 :: u8] = [1] \<and>
     concat [[8], [0, 0], [0, 0, 0, 0, 0xCE, 1]] = concat (map frame_wire [mk_frame 8 0 []]) @ [1]"
  using decoder_chunking_irrelevant
    [of 9 "[[8], [0, 0], [0, 0, 0, 0, 0xCE, 1]]" "[mk_frame 8 0 []]" "\<lparr>d_maxFrameSize = 9, d_buffer = [1]\<rparr>"
        8 "[[8, 0, 0, 0, 0, 0, 0, 0xCE, 1]]" "[mk_frame 8 0 []]" "\<lparr>d_maxFrameSize = 8, d_buffer = [1]\<rparr>"]
  by (simp add: appendBytes_def Decoder_create_def decode_eval)

end
