(* ===== verification/Framer.thy ===== *)
theory Framer
  imports Message Method Frame
begin

text \<open>
  \<open>rmqamqp::ContentMaker\<close> and \<open>rmqamqp::Framer\<close>: messages are cut into frames, and the frames that
  arrive are put together again, separately for every channel.

  \<open>appendFrame\<close> fills \<open>receiveMessage\<close> only when it returns \<open>OK\<close>: the model returns the message as an
  option beside the return code. A failed \<open>BSLS_ASSERT\<close> of the serializer is \<^const>\<open>None\<close>.
\<close>

datatype ('dt, 'g) amqp_message =
    Msg_Nil
  | Msg_Heartbeat
  | Msg_Content "('dt, 'g) message"
  | Msg_Method "'dt Method"

definition FT_METHOD :: u8 where "FT_METHOD = 1"
definition FT_HEADER :: u8 where "FT_HEADER = 2"
definition FT_BODY :: u8 where "FT_BODY = 3"
definition FT_HEARTBEAT :: u8 where "FT_HEARTBEAT = 8"
definition CLASS_BASIC :: u16 where "CLASS_BASIC = 60"

lemmas frame_types = FT_METHOD_def FT_HEADER_def FT_BODY_def FT_HEARTBEAT_def

section \<open>ContentMaker\<close>

record 'dt content_maker =
  cm_header :: "'dt content_header"
  cm_body :: bytes
  cm_remaining :: u64

datatype maker_rc = CM_DONE | CM_PARTIAL | CM_ERROR

definition ContentMaker_new :: "'dt content_header \<Rightarrow> 'dt content_maker" where
  "ContentMaker_new h = \<lparr>cm_header = h, cm_body = [], cm_remaining = ch_bodySize h\<rparr>"

definition ContentMaker_done :: "'dt content_maker \<Rightarrow> bool" where
  "ContentMaker_done cm \<longleftrightarrow> cm_remaining cm \<le> 0"

definition ContentMaker_message ::
  "'g guid_util \<Rightarrow> 'g \<Rightarrow> 'dt content_maker \<Rightarrow> ('dt, 'g) message" where
  "ContentMaker_message gu fresh cm =
     Message_new gu fresh (Some (cm_body cm)) (ch_properties (cm_header cm))"

definition appendContentBody :: "'dt content_maker \<Rightarrow> bytes \<Rightarrow> maker_rc \<times> 'dt content_maker" where
  "appendContentBody cm contentBody =
     (if cm_remaining cm < of_nat (length contentBody) then (CM_ERROR, cm)
      else
        let cm' = cm\<lparr>cm_body := cm_body cm @ contentBody,
                     cm_remaining := cm_remaining cm - of_nat (length contentBody)\<rparr> in
        (if ContentMaker_done cm' then CM_DONE else CM_PARTIAL, cm'))"

section \<open>Framer\<close>

record 'dt framer =
  fr_makers :: "u16 \<rightharpoonup> 'dt content_maker"
  fr_maxFrameSize :: nat

datatype framer_rc = FR_OK | FR_PARTIAL | FR_CHANNEL_EXCEPTION | FR_CONNECTION_EXCEPTION

definition Framer_new :: "'dt framer" where
  "Framer_new = \<lparr>fr_makers = Map.empty, fr_maxFrameSize = maxFrameSize\<rparr>"

definition setMaxFrameSize :: "'dt framer \<Rightarrow> nat \<Rightarrow> bool \<times> 'dt framer" where
  "setMaxFrameSize fr maxSize =
     (if maxSize \<le> frameOverhead then (False, fr) else (True, fr\<lparr>fr_maxFrameSize := maxSize\<rparr>))"

definition clearChannel :: "'dt framer \<Rightarrow> u16 \<Rightarrow> 'dt framer" where
  "clearChannel fr channel = fr\<lparr>fr_makers := (fr_makers fr)(channel := None)\<rparr>"

text \<open>The four kinds of frame, and the switch over them.\<close>

definition appendMethodFrame ::
  "'dt epoch_util \<Rightarrow> 'dt framer \<Rightarrow> frame \<Rightarrow>
     framer_rc \<times> ('dt, 'g) amqp_message option \<times> 'dt framer" where
  "appendMethodFrame ep fr f =
     (if fr_makers fr (f_channel f) \<noteq> None then (FR_CHANNEL_EXCEPTION, None, fr)
      else case Method_decode ep (Frame_payload f) of
             None \<Rightarrow> (FR_CHANNEL_EXCEPTION, None, fr)
           | Some m \<Rightarrow> (FR_OK, Some (Msg_Method m), fr))"

definition appendHeaderFrame ::
  "'dt epoch_util \<Rightarrow> 'g guid_util \<Rightarrow> 'g \<Rightarrow> 'dt framer \<Rightarrow> frame \<Rightarrow>
     framer_rc \<times> ('dt, 'g) amqp_message option \<times> 'dt framer" where
  "appendHeaderFrame ep gu fresh fr f =
     (if fr_makers fr (f_channel f) \<noteq> None then (FR_CHANNEL_EXCEPTION, None, fr)
      else case ContentHeader_decode ep (Frame_payload f) of
             None \<Rightarrow> (FR_CHANNEL_EXCEPTION, None, fr)
           | Some h \<Rightarrow>
               let cm = ContentMaker_new h in
               if ContentMaker_done cm
               then (FR_OK, Some (Msg_Content (ContentMaker_message gu fresh cm)), fr)
               else (FR_PARTIAL, None, fr\<lparr>fr_makers := (fr_makers fr)(f_channel f \<mapsto> cm)\<rparr>))"

definition appendBodyFrame ::
  "'g guid_util \<Rightarrow> 'g \<Rightarrow> 'dt framer \<Rightarrow> frame \<Rightarrow>
     framer_rc \<times> ('dt, 'g) amqp_message option \<times> 'dt framer" where
  "appendBodyFrame gu fresh fr f =
     (case fr_makers fr (f_channel f) of
        None \<Rightarrow> (FR_CHANNEL_EXCEPTION, None, fr)
      | Some cm \<Rightarrow>
          (case appendContentBody cm (ContentBody_decode (Frame_payload f)) of
             (CM_ERROR, _) \<Rightarrow> (FR_CHANNEL_EXCEPTION, None, fr)
           | (CM_DONE, cm') \<Rightarrow>
               (FR_OK, Some (Msg_Content (ContentMaker_message gu fresh cm')),
                fr\<lparr>fr_makers := (fr_makers fr)(f_channel f := None)\<rparr>)
           | (CM_PARTIAL, cm') \<Rightarrow>
               (FR_PARTIAL, None, fr\<lparr>fr_makers := (fr_makers fr)(f_channel f \<mapsto> cm')\<rparr>)))"

definition appendFrame ::
  "'dt epoch_util \<Rightarrow> 'g guid_util \<Rightarrow> 'g \<Rightarrow> 'dt framer \<Rightarrow> frame \<Rightarrow>
     framer_rc \<times> ('dt, 'g) amqp_message option \<times> 'dt framer" where
  "appendFrame ep gu fresh fr f =
     (if f_type f = FT_METHOD then appendMethodFrame ep fr f
      else if f_type f = FT_HEARTBEAT then (FR_OK, Some Msg_Heartbeat, fr)
      else if f_type f = FT_HEADER then appendHeaderFrame ep gu fresh fr f
      else if f_type f = FT_BODY then appendBodyFrame gu fresh fr f
      else (FR_CONNECTION_EXCEPTION, None, fr))"

text \<open>The frames of one read, each with the GUID that \<open>generate()\<close> would return: for every frame its
  channel, return code and message. \<open>Connection\<close> stops at a connection exception; the model goes on,
  so that a statement about all outcomes covers every point where the caller may stop.\<close>

fun appendFrames ::
  "'dt epoch_util \<Rightarrow> 'g guid_util \<Rightarrow> 'dt framer \<Rightarrow> (frame \<times> 'g) list \<Rightarrow>
     (u16 \<times> framer_rc \<times> ('dt, 'g) amqp_message option) list \<times> 'dt framer" where
  "appendFrames ep gu fr [] = ([], fr)"
| "appendFrames ep gu fr ((f, fresh) # fs) =
     (case appendFrame ep gu fresh fr f of (rc, m, fr') \<Rightarrow>
        (case appendFrames ep gu fr' fs of (outs, fr'') \<Rightarrow> ((f_channel f, rc, m) # outs, fr'')))"

section \<open>Making frames\<close>

definition makeMethodFrame :: "'dt epoch_util \<Rightarrow> u16 \<Rightarrow> 'dt Method \<Rightarrow> frame" where
  "makeMethodFrame ep channel m =
     \<lparr>f_type = FT_METHOD, f_channel = channel, f_serializedData =
        Some (encodeFrameHeader FT_METHOD channel (Method_encodedSize m) @ Method_encode ep m
              @ encodeFrameEnd)\<rparr>"

definition makeContentBodyFrame :: "bytes \<Rightarrow> nat \<Rightarrow> nat \<Rightarrow> u16 \<Rightarrow> frame" where
  "makeContentBodyFrame msg encodedFrameSize encodedPayloadSize channel =
     \<lparr>f_type = FT_BODY, f_channel = channel, f_serializedData =
        Some (encodeFrameHeader FT_BODY channel encodedPayloadSize @ take encodedPayloadSize msg
              @ encodeFrameEnd)\<rparr>"

definition ContentHeader_new :: "u16 \<Rightarrow> ('dt, 'g) message \<Rightarrow> 'dt content_header" where
  "ContentHeader_new classId m =
     \<lparr>ch_classId = classId, ch_bodySize = of_nat (payloadSize m), ch_properties = msg_properties m\<rparr>"

definition makeContentHeaderFrame :: "'dt epoch_util \<Rightarrow> ('dt, 'g) message \<Rightarrow> u16 \<Rightarrow> frame" where
  "makeContentHeaderFrame ep m channel =
     (let h = ContentHeader_new CLASS_BASIC m in
      \<lparr>f_type = FT_HEADER, f_channel = channel, f_serializedData =
         Some (encodeFrameHeader FT_HEADER channel (ContentHeader_encodedSize h)
               @ ContentHeader_encode ep h @ encodeFrameEnd)\<rparr>)"

definition makeHeartbeatFrame :: frame where
  "makeHeartbeatFrame =
     \<lparr>f_type = FT_HEARTBEAT, f_channel = 0, f_serializedData =
        Some (encodeFrameHeader FT_HEARTBEAT 0 0 @ encodeFrameEnd)\<rparr>"

text \<open>The loop of the serializer: from offset \<open>i\<close> on, in steps of \<open>frameSize\<close>, which is not zero.\<close>

function makeBodyFrames :: "nat \<Rightarrow> u16 \<Rightarrow> bytes \<Rightarrow> nat \<Rightarrow> frame list" where
  "makeBodyFrames frameSize channel payload i =
     (if 0 < frameSize \<and> i < length payload then
        (let encodedPayloadSize = min frameSize (length payload - i);
             encodedFrameSize = calculateFrameSize encodedPayloadSize in
         makeContentBodyFrame (drop i payload) encodedFrameSize encodedPayloadSize channel
         # makeBodyFrames frameSize channel payload (i + frameSize))
      else [])"
  by pat_completeness auto
termination
  by (relation "measure (\<lambda>(frameSize, channel, payload, i). length payload - i)") auto

declare makeBodyFrames.simps [simp del]

definition serializeContent ::
  "'dt epoch_util \<Rightarrow> nat \<Rightarrow> u16 \<Rightarrow> ('dt, 'g) message \<Rightarrow> frame list option" where
  "serializeContent ep maxSize channel m =
     (if maxSize \<le> frameOverhead then None
      else Some (makeContentHeaderFrame ep m channel
                 # makeBodyFrames (maxSize - frameOverhead) channel (Message_payload m) 0))"

fun makeFrames ::
  "'dt epoch_util \<Rightarrow> 'dt framer \<Rightarrow> u16 \<Rightarrow> ('dt, 'g) amqp_message \<Rightarrow> frame list option" where
  "makeFrames ep fr channel Msg_Nil = Some []"
| "makeFrames ep fr channel Msg_Heartbeat = Some [makeHeartbeatFrame]"
| "makeFrames ep fr channel (Msg_Content m) = serializeContent ep (fr_maxFrameSize fr) channel m"
| "makeFrames ep fr channel (Msg_Method m) = Some [makeMethodFrame ep channel m]"

section \<open>Specifications\<close>

text \<open>A payload cut into pieces of at most \<open>k\<close> octets.\<close>

function chunks :: "nat \<Rightarrow> bytes \<Rightarrow> bytes list" where
  "chunks k xs = (if k = 0 \<or> xs = [] then [] else take k xs # chunks k (drop k xs))"
  by pat_completeness auto
termination
  by (relation "measure (\<lambda>(k, xs). length xs)") auto

declare chunks.simps [simp del]

text \<open>The messages that a run of \<open>appendFrame\<close> hands to the connection.\<close>

fun delivered :: "(u16 \<times> framer_rc \<times> 'm option) list \<Rightarrow> (u16 \<times> 'm) list" where
  "delivered [] = []"
| "delivered ((c, rc, Some m) # outs) = (c, m) # delivered outs"
| "delivered ((c, rc, None) # outs) = delivered outs"

text \<open>No frame of a run raised an exception.\<close>

definition no_exception :: "(u16 \<times> framer_rc \<times> 'm option) list \<Rightarrow> bool" where
  "no_exception outs \<longleftrightarrow> list_all (\<lambda>(c, rc, m). rc = FR_OK \<or> rc = FR_PARTIAL) outs"

text \<open>The messages that survive the wire, and what the receiver has of such a message: the same
  payload and properties, and the GUID its id stands for (a generated one when it is not a GUID).\<close>

fun amqp_ok :: "'dt epoch_util \<Rightarrow> 'g guid_util \<Rightarrow> ('dt, 'g) amqp_message \<Rightarrow> bool" where
  "amqp_ok ep gu Msg_Nil \<longleftrightarrow> False"
| "amqp_ok ep gu Msg_Heartbeat \<longleftrightarrow> True"
| "amqp_ok ep gu (Msg_Method m) \<longleftrightarrow> Method_ok ep m"
| "amqp_ok ep gu (Msg_Content m) \<longleftrightarrow>
     props_ok ep (msg_properties m) \<and> length (Message_payload m) < 2 ^ 64 \<and> message_inv gu m"

fun amqp_wire :: "'g guid_util \<Rightarrow> 'g \<Rightarrow> ('dt, 'g) amqp_message \<Rightarrow> ('dt, 'g) amqp_message" where
  "amqp_wire gu fresh (Msg_Method m) = Msg_Method (Method_wire m)"
| "amqp_wire gu fresh (Msg_Content m) =
     Msg_Content (Message_new gu fresh (Some (Message_payload m)) (props_wire (msg_properties m)))"
| "amqp_wire gu fresh m = m"

text \<open>A heartbeat always travels on channel 0.\<close>

fun wire_channel :: "u16 \<Rightarrow> ('dt, 'g) amqp_message \<Rightarrow> u16" where
  "wire_channel c Msg_Heartbeat = 0"
| "wire_channel c m = c"

text \<open>\<open>(c', m')\<close> is what the receiver may be handed for a message \<open>m\<close> sent on channel \<open>c\<close>.\<close>

fun received ::
  "'g guid_util \<Rightarrow> u16 \<times> ('dt, 'g) amqp_message \<Rightarrow> u16 \<times> ('dt, 'g) amqp_message \<Rightarrow> bool" where
  "received gu (c, Msg_Content m) (c', Msg_Content m') \<longleftrightarrow>
     c' = c \<and> Message_payload m' = Message_payload m \<and>
     msg_properties m' = props_wire (msg_properties m) \<and>
     (case messageId (msg_properties m) of
        Some i \<Rightarrow> guidFromString gu i \<noteq> None \<longrightarrow> msg_guid m' = msg_guid m | None \<Rightarrow> False)"
| "received gu (c, Msg_Method m) (c', m') \<longleftrightarrow> c' = c \<and> m' = Msg_Method (Method_wire m)"
| "received gu (c, Msg_Heartbeat) (c', m') \<longleftrightarrow> c' = 0 \<and> m' = Msg_Heartbeat"
| "received gu (c, m) (c', m') \<longleftrightarrow> False"

text \<open>The frames of a list of messages, each with its channel.\<close>

fun makeAllFrames ::
  "'dt epoch_util \<Rightarrow> 'dt framer \<Rightarrow> (u16 \<times> ('dt, 'g) amqp_message) list \<Rightarrow> frame list option" where
  "makeAllFrames ep fr [] = Some []"
| "makeAllFrames ep fr ((c, m) # ms) = do {
     fs \<leftarrow> makeFrames ep fr c m;
     rest \<leftarrow> makeAllFrames ep fr ms;
     Some (fs @ rest) }"

text \<open>A maker waits for at least one more octet, and has read what the header announced but for that.\<close>

definition maker_inv :: "'dt content_maker \<Rightarrow> bool" where
  "maker_inv cm \<longleftrightarrow> cm_remaining cm \<noteq> 0 \<and>
     length (cm_body cm) + unat (cm_remaining cm) = unat (ch_bodySize (cm_header cm))"

definition framer_inv :: "'dt framer \<Rightarrow> bool" where
  "framer_inv fr \<longleftrightarrow> frameOverhead < fr_maxFrameSize fr \<and>
     (\<forall>c cm. fr_makers fr c = Some cm \<longrightarrow> maker_inv cm)"

definition sample_message :: "(u64, u8) message" where
  "sample_message = Message_new sample_guid_util 7 (Some [1, 2, 3, 4, 5]) sample_properties"

section \<open>The frames that are made\<close>

lemma chunks_pos:
  "0 < k \<Longrightarrow> concat (chunks k xs) = xs"
  "p \<in> set (chunks k xs) \<Longrightarrow> p \<noteq> [] \<and> length p \<le> k"
proof (induction k xs rule: chunks.induct)
  case (1 k xs)
  {
    case 1
    then show ?case
      using "1.IH"(1) by (subst chunks.simps) auto
  next
    case 2
    then show ?case
      using "1.IH"(2) by (subst (asm) chunks.simps) (auto split: if_splits)
  }
qed

lemma length_chunks: "0 < k \<Longrightarrow> length (chunks k xs) = (length xs + k - 1) div k"
proof (induction k xs rule: chunks.induct)
  case (1 k xs)
  show ?case
  proof (cases "xs = []")
    case True
    then show ?thesis using 1(2) by (simp add: chunks.simps)
  next
    case False
    have "(length xs + k - 1) div k = Suc ((length xs - 1) div k)"
      using 1(2) False by (cases xs) (simp_all add: add.commute [of _ k] div_add_self1)
    also have "(length xs - 1) div k = (length (drop k xs) + k - 1) div k"
      using 1(2) False by (cases "k < length xs") auto
    finally show ?thesis
      using 1 False by (subst chunks.simps) simp
  qed
qed

lemma makeMethodFrame_mk:
  "Method_ok ep m \<Longrightarrow> makeMethodFrame ep c m = mk_frame FT_METHOD c (Method_encode ep m)"
  by (simp add: makeMethodFrame_def mk_frame_def frame_bytes_def meth.size)

lemma makeContentHeaderFrame_mk:
  "props_ok ep (msg_properties m) \<Longrightarrow> makeContentHeaderFrame ep m c =
     mk_frame FT_HEADER c (ContentHeader_encode ep (ContentHeader_new CLASS_BASIC m))"
  by (simp add: makeContentHeaderFrame_def mk_frame_def frame_bytes_def length_ContentHeader_encode
      ContentHeader_new_def Let_def)

lemma makeHeartbeatFrame_mk: "makeHeartbeatFrame = mk_frame FT_HEARTBEAT 0 []"
  by (simp add: makeHeartbeatFrame_def mk_frame_def frame_bytes_def)

lemma makeContentBodyFrame_mk:
  "n \<le> length msg \<Longrightarrow> makeContentBodyFrame msg es n c = mk_frame FT_BODY c (take n msg)"
  by (simp add: makeContentBodyFrame_def mk_frame_def frame_bytes_def)

lemma makeBodyFrames_chunks:
  "0 < k \<Longrightarrow> makeBodyFrames k c payload i = map (mk_frame FT_BODY c) (chunks k (drop i payload))"
proof (induction k c payload i rule: makeBodyFrames.induct)
  case (1 k c payload i)
  then show ?case
    by (subst makeBodyFrames.simps, subst chunks.simps)
       (auto simp: Let_def makeContentBodyFrame_mk min_def add.commute)
qed

lemmas make_mk = makeMethodFrame_mk makeContentHeaderFrame_mk makeHeartbeatFrame_mk
  makeBodyFrames_chunks

section \<open>One frame\<close>

lemma appendFrame_type [simp]:
  "appendFrame ep gu g fr (mk_frame FT_METHOD c p) = appendMethodFrame ep fr (mk_frame FT_METHOD c p)"
  "appendFrame ep gu g fr (mk_frame FT_HEADER c p) =
     appendHeaderFrame ep gu g fr (mk_frame FT_HEADER c p)"
  "appendFrame ep gu g fr (mk_frame FT_BODY c p) = appendBodyFrame gu g fr (mk_frame FT_BODY c p)"
  "appendFrame ep gu g fr (mk_frame FT_HEARTBEAT c p) = (FR_OK, Some Msg_Heartbeat, fr)"
  by (simp_all add: appendFrame_def frame_types)

lemmas append_defs = appendFrame_def appendMethodFrame_def appendHeaderFrame_def appendBodyFrame_def

text \<open>A frame reads and changes only the maker of its own channel.\<close>

lemma appendFrame_other:
  "appendFrame ep gu g fr f = (rc, m, fr') \<Longrightarrow> f_channel f \<noteq> c \<Longrightarrow> fr_makers fr' c = fr_makers fr c"
  by (auto simp: append_defs Let_def split: if_splits option.splits prod.splits maker_rc.splits)

lemma appendFrame_local:
  assumes "fr_makers fr1 (f_channel f) = fr_makers fr2 (f_channel f)"
    and "appendFrame ep gu g fr1 f = (rc, m, fr1')"
  obtains fr2' where "appendFrame ep gu g fr2 f = (rc, m, fr2')"
    and "fr_makers fr1' (f_channel f) = fr_makers fr2' (f_channel f)"
proof -
  have "\<exists>fr2'. appendFrame ep gu g fr2 f = (rc, m, fr2') \<and>
      fr_makers fr1' (f_channel f) = fr_makers fr2' (f_channel f)"
    using assms
    by (auto simp: append_defs Let_def split: if_splits option.splits prod.splits maker_rc.splits)
  then show ?thesis using that by blast
qed

lemma appendFrame_exception:
  "appendFrame ep gu g fr f = (rc, m, fr') \<Longrightarrow>
     (m \<noteq> None \<longleftrightarrow> rc = FR_OK) \<and> (rc \<noteq> FR_OK \<longrightarrow> rc \<noteq> FR_PARTIAL \<longrightarrow> fr' = fr)"
  by (auto simp: append_defs Let_def split: if_splits option.splits prod.splits maker_rc.splits)

lemma appendContentBody_inv:
  assumes "maker_inv cm" and "length p < 2 ^ 64" and "appendContentBody cm p = (rc, cm')"
  shows "rc = CM_PARTIAL \<Longrightarrow> maker_inv cm'"
    and "rc = CM_DONE \<Longrightarrow> length (cm_body cm') = unat (ch_bodySize (cm_header cm))"
proof -
  have len: "unat (of_nat (length p) :: u64) = length p"
    using assms(2) by (simp add: unat_of_nat)
  have fits: "length p \<le> unat (cm_remaining cm)" if "rc \<noteq> CM_ERROR"
    using assms(3) that len by (auto simp: appendContentBody_def not_less word_le_nat_alt split: if_splits)
  have sub: "unat (cm_remaining cm - of_nat (length p)) = unat (cm_remaining cm) - length p"
    if "rc \<noteq> CM_ERROR"
    using fits [OF that] len by (simp add: unat_sub word_le_nat_alt)
  show "maker_inv cm'" if "rc = CM_PARTIAL"
    using assms that sub fits
    by (auto simp: appendContentBody_def maker_inv_def ContentMaker_done_def Let_def split: if_splits)
  show "length (cm_body cm') = unat (ch_bodySize (cm_header cm))" if "rc = CM_DONE"
    using assms that sub fits
    by (auto simp: appendContentBody_def maker_inv_def ContentMaker_done_def Let_def split: if_splits)
qed

lemma ContentMaker_new_inv:
  "\<not> ContentMaker_done (ContentMaker_new h) \<Longrightarrow> maker_inv (ContentMaker_new h)"
  by (simp add: maker_inv_def ContentMaker_new_def ContentMaker_done_def)

lemma appendFrame_inv:
  assumes "framer_inv fr" and "length (Frame_payload f) < 2 ^ 64"
    and "appendFrame ep gu g fr f = (rc, m, fr')"
  shows "framer_inv fr'"
  using assms
  by (auto simp: append_defs framer_inv_def Let_def ContentBody_decode_def ContentMaker_new_inv
      dest: appendContentBody_inv(1) [OF _ assms(2) _ refl, rotated]
      split: if_splits option.splits prod.splits maker_rc.splits)

section \<open>Runs\<close>

lemma delivered_append [simp]: "delivered (xs @ ys) = delivered xs @ delivered ys"
  by (induction xs rule: delivered.induct) auto

lemma no_exception_append [simp]:
  "no_exception (xs @ ys) \<longleftrightarrow> no_exception xs \<and> no_exception ys"
  by (simp add: no_exception_def)

lemma appendFrames_append:
  "appendFrames ep gu fr (xs @ ys) =
     (case appendFrames ep gu fr xs of (outs, fr') \<Rightarrow>
        (case appendFrames ep gu fr' ys of (outs', fr'') \<Rightarrow> (outs @ outs', fr'')))"
  by (induction xs arbitrary: fr) (auto split: prod.splits)

lemma appendFrames_channel:
  "appendFrames ep gu fr fgs = (outs, fr') \<Longrightarrow> fr_makers fr c = fr_makers frc c \<Longrightarrow>
     \<exists>frc'. appendFrames ep gu frc (filter (\<lambda>(f, g). f_channel f = c) fgs)
        = (filter (\<lambda>(c', rc, m). c' = c) outs, frc') \<and> fr_makers fr' c = fr_makers frc' c"
proof (induction fgs arbitrary: fr frc outs)
  case Nil
  then show ?case by simp
next
  case (Cons x fgs)
  obtain f g where x: "x = (f, g)" by (cases x)
  obtain rc m fr1 where s: "appendFrame ep gu g fr f = (rc, m, fr1)"
    by (cases "appendFrame ep gu g fr f") auto
  obtain outs1 where r: "appendFrames ep gu fr1 fgs = (outs1, fr')"
      and outs: "outs = (f_channel f, rc, m) # outs1"
    using Cons.prems(1) x s by (auto split: prod.splits)
  show ?case
  proof (cases "f_channel f = c")
    case True
    obtain frc1 where "appendFrame ep gu g frc f = (rc, m, frc1)" and "fr_makers fr1 c = fr_makers frc1 c"
      using appendFrame_local [OF _ s, of frc] Cons.prems(2) True by metis
    then show ?thesis
      using Cons.IH [OF r, of frc1] x outs True by auto
  next
    case False
    then show ?thesis
      using Cons.IH [OF r, of frc] x outs Cons.prems(2) appendFrame_other [OF s False] by simp
  qed
qed

text \<open>The body frames of one message.\<close>

lemma appendFrames_bodies:
  assumes "map fst fgs = map (mk_frame FT_BODY c) ps" and "ps \<noteq> []" and "\<forall>p \<in> set ps. p \<noteq> []"
    and "fr_makers fr c = Some cm" and "unat (cm_remaining cm) = length (concat ps)"
  shows "\<exists>outs. appendFrames ep gu fr fgs = (outs, clearChannel fr c) \<and> no_exception outs \<and>
     delivered outs = [(c, Msg_Content (Message_new gu (snd (last fgs)) (Some (cm_body cm @ concat ps))
        (ch_properties (cm_header cm))))]"
  using assms
proof (induction ps arbitrary: fgs fr cm)
  case Nil
  then show ?case by simp
next
  case (Cons p ps)
  obtain g fgs' where fgs: "fgs = (mk_frame FT_BODY c p, g) # fgs'"
      and fgs': "map fst fgs' = map (mk_frame FT_BODY c) ps"
    using Cons.prems(1) by (cases fgs) auto
  have "unat (cm_remaining cm) < 2 ^ 64"
    using unsigned_less [of "cm_remaining cm"] by simp
  then have len: "unat (of_nat (length p) :: u64) = length p"
    using Cons.prems(5) by (simp add: unat_of_nat)
  let ?cm = "cm\<lparr>cm_body := cm_body cm @ p, cm_remaining := cm_remaining cm - of_nat (length p)\<rparr>"
  have fits: "\<not> cm_remaining cm < of_nat (length p)"
    using Cons.prems(5) len by (simp add: word_less_nat_alt)
  have rem: "unat (cm_remaining ?cm) = length (concat ps)"
    using Cons.prems(5) len fits by (simp add: unat_sub word_le_nat_alt)
  show ?case
  proof (cases "ps = []")
    case True
    then have "cm_remaining ?cm = 0"
      using rem by (simp add: unat_eq_0)
    then show ?thesis
      using True fits Cons.prems(4) fgs fgs'
      by (simp add: appendBodyFrame_def appendContentBody_def ContentBody_decode_def ContentMaker_done_def
          ContentMaker_message_def clearChannel_def no_exception_def)
  next
    case False
    then have "concat ps \<noteq> []"
      using Cons.prems(3) by (cases ps) auto
    then have nz: "cm_remaining ?cm \<noteq> 0"
      using rem by auto
    let ?fr = "fr\<lparr>fr_makers := (fr_makers fr)(c \<mapsto> ?cm)\<rparr>"
    have step: "appendFrame ep gu g fr (mk_frame FT_BODY c p) = (FR_PARTIAL, None, ?fr)"
      using nz fits Cons.prems(4)
      by (simp add: appendBodyFrame_def appendContentBody_def ContentBody_decode_def ContentMaker_done_def)
    obtain outs where "appendFrames ep gu ?fr fgs' = (outs, clearChannel ?fr c)" "no_exception outs"
        "delivered outs = [(c, Msg_Content (Message_new gu (snd (last fgs'))
           (Some (cm_body ?cm @ concat ps)) (ch_properties (cm_header ?cm))))]"
      using Cons.IH [of fgs' ?fr ?cm] fgs' Cons.prems(3) False rem by auto
    moreover have "fgs' \<noteq> []" and "clearChannel ?fr c = clearChannel fr c"
      using fgs' False by (auto simp: clearChannel_def)
    ultimately show ?thesis
      using fgs step by (simp add: no_exception_def)
  qed
qed

lemma appendFrames_content:
  assumes "props_ok ep (msg_properties m)" and "length (Message_payload m) < 2 ^ 64" and "0 < k"
    and "map fst fgs = makeContentHeaderFrame ep m c # makeBodyFrames k c (Message_payload m) 0"
    and "fr_makers fr c = None"
  shows "\<exists>outs. appendFrames ep gu fr fgs = (outs, fr) \<and> no_exception outs \<and>
     delivered outs = [(c, amqp_wire gu (snd (last fgs)) (Msg_Content m))]"
proof -
  let ?h = "ContentHeader_new CLASS_BASIC m" and ?ps = "chunks k (Message_payload m)"
  obtain g fgs' where fgs: "fgs = (mk_frame FT_HEADER c (ContentHeader_encode ep ?h), g) # fgs'"
      and fgs': "map fst fgs' = map (mk_frame FT_BODY c) ?ps"
    using assms(1,3,4) by (cases fgs) (auto simp: make_mk)
  let ?cm = "ContentMaker_new (?h\<lparr>ch_properties := props_wire (ch_properties ?h)\<rparr>)"
  have rem: "unat (cm_remaining ?cm) = length (concat ?ps)"
    using assms(2,3) by (simp add: ContentMaker_new_def ContentHeader_new_def unat_of_nat chunks_pos(1))
  have dec: "ContentHeader_decode ep (ContentHeader_encode ep ?h) =
      Some (?h\<lparr>ch_properties := props_wire (ch_properties ?h)\<rparr>)"
    by (rule ContentHeader_roundtrip) (simp add: ContentHeader_new_def assms(1))
  show ?thesis
  proof (cases "Message_payload m = []")
    case True
    then have "?ps = []" by (simp add: chunks.simps)
    then show ?thesis
      using fgs fgs' assms(5) True dec
      by (simp add: appendHeaderFrame_def no_exception_def ContentMaker_done_def ContentMaker_new_def
          ContentHeader_new_def ContentMaker_message_def)
  next
    case False
    let ?fr = "fr\<lparr>fr_makers := (fr_makers fr)(c \<mapsto> ?cm)\<rparr>"
    have ps: "?ps \<noteq> []" "\<forall>p \<in> set ?ps. p \<noteq> []" "concat ?ps = Message_payload m"
      using False assms(3) chunks_pos by (auto simp: chunks.simps [of k "Message_payload m"])
    have "\<not> ContentMaker_done ?cm"
      using rem ps(3) False by (auto simp: ContentMaker_done_def unat_eq_0)
    then have step: "appendFrame ep gu g fr (mk_frame FT_HEADER c (ContentHeader_encode ep ?h))
        = (FR_PARTIAL, None, ?fr)"
      using assms(5) dec by (simp add: appendHeaderFrame_def)
    obtain outs where "appendFrames ep gu ?fr fgs' = (outs, clearChannel ?fr c)" "no_exception outs"
        "delivered outs = [(c, Msg_Content (Message_new gu (snd (last fgs'))
           (Some (cm_body ?cm @ concat ?ps)) (ch_properties (cm_header ?cm))))]"
      using appendFrames_bodies [OF fgs' ps(1,2), of ?fr ?cm] rem by auto
    moreover have "clearChannel ?fr c = fr" and "fgs' \<noteq> []"
      using assms(5) fgs' ps(1) by (auto simp: clearChannel_def fun_upd_idem)
    ultimately show ?thesis
      using fgs step ps(3)
      by (simp add: no_exception_def ContentMaker_new_def ContentHeader_new_def)
  qed
qed

lemma appendFrames_message:
  assumes "amqp_ok ep gu m" and "makeFrames ep sfr c m = Some (map fst fgs)" and "fr_makers fr c = None"
  shows "\<exists>outs. appendFrames ep gu fr fgs = (outs, fr) \<and> no_exception outs \<and>
     delivered outs = [(wire_channel c m, amqp_wire gu (snd (last fgs)) m)]"
proof (cases m)
  case Msg_Nil
  then show ?thesis using assms(1) by simp
next
  case Msg_Heartbeat
  then show ?thesis
    using assms(2) by (auto simp: makeHeartbeatFrame_mk no_exception_def)
next
  case (Msg_Content msg)
  then show ?thesis
    using appendFrames_content [of ep msg "fr_maxFrameSize sfr - frameOverhead" fgs c fr gu] assms
    by (auto simp: serializeContent_def split: if_splits)
next
  case (Msg_Method msg)
  then show ?thesis
    using assms
    by (auto simp: makeMethodFrame_mk appendMethodFrame_def no_exception_def meth.roundtrip)
qed

lemma amqp_wire_received:
  "amqp_ok ep gu m \<Longrightarrow> received gu (c, m) (wire_channel c m, amqp_wire gu g m)"
proof (cases m)
  case (Msg_Content msg)
  assume ok: "amqp_ok ep gu m"
  obtain i where i: "messageId (msg_properties msg) = Some i" "i \<noteq> []"
      and g: "\<forall>g. guidFromString gu i = Some g \<longrightarrow> msg_guid msg = g"
    using ok Msg_Content by (auto simp: message_inv_def)
  have "messageId (props_wire (msg_properties msg)) = Some i"
    using i by (simp add: props_wire_def)
  from Message_new_id [OF this i(2), of gu g "Some (Message_payload msg)"] i g show ?thesis
    by (auto simp: Msg_Content)
qed simp_all

lemma appendFrames_messages:
  assumes "\<forall>(c, m) \<in> set ms. amqp_ok ep gu m \<and> fr_makers fr c = None"
    and "makeAllFrames ep sfr ms = Some (map fst fgs)"
  shows "\<exists>outs. appendFrames ep gu fr fgs = (outs, fr) \<and> no_exception outs \<and>
     list_all2 (received gu) ms (delivered outs)"
  using assms
proof (induction ms arbitrary: fgs)
  case Nil
  then show ?case by (simp add: no_exception_def)
next
  case (Cons x ms)
  obtain c m where x: "x = (c, m)" by (cases x)
  obtain fs rest where fs: "makeFrames ep sfr c m = Some fs" "makeAllFrames ep sfr ms = Some rest"
      and fgs: "map fst fgs = fs @ rest"
    using Cons.prems(2) x by (auto simp: bind_eq_Some_conv)
  let ?a = "take (length fs) fgs" and ?b = "drop (length fs) fgs"
  have ab: "map fst ?a = fs" "map fst ?b = rest"
    using fgs by (metis append_eq_conv_conj take_map, metis append_eq_conv_conj drop_map)
  have ok: "amqp_ok ep gu m" "fr_makers fr c = None"
    using Cons.prems(1) x by auto
  obtain o1 where o1: "appendFrames ep gu fr ?a = (o1, fr)" "no_exception o1"
      "delivered o1 = [(wire_channel c m, amqp_wire gu (snd (last ?a)) m)]"
    using appendFrames_message [of ep gu m sfr c ?a fr] ok fs(1) ab(1) by auto
  obtain o2 where o2: "appendFrames ep gu fr ?b = (o2, fr)" "no_exception o2"
      "list_all2 (received gu) ms (delivered o2)"
    using Cons.IH [of ?b] Cons.prems(1) fs(2) ab(2) by auto
  have "appendFrames ep gu fr fgs = (o1 @ o2, fr)"
    using appendFrames_append [of ep gu fr ?a ?b] o1(1) o2(1) by simp
  then show ?case
    using o1 o2 x amqp_wire_received [OF ok(1)] by simp
qed

lemma makeFrames_mk:
  "amqp_ok ep gu m \<Longrightarrow> makeFrames ep fr c m = Some fs \<Longrightarrow> f \<in> set fs \<Longrightarrow>
     f = mk_frame (f_type f) (f_channel f) (Frame_payload f)"
  by (cases m) (auto simp: make_mk serializeContent_def split: if_splits)

lemma makeAllFrames_frame_ok:
  "\<forall>(c, m) \<in> set ms. amqp_ok ep gu m \<Longrightarrow> makeAllFrames ep fr ms = Some fs \<Longrightarrow> f \<in> set fs \<Longrightarrow>
     totalFrameSize f \<le> 2 ^ 32 \<Longrightarrow> frame_ok f"
proof (induction ms arbitrary: fs)
  case Nil
  then show ?case by simp
next
  case (Cons x ms)
  obtain c m fs1 fs2 where x: "x = (c, m)" "makeFrames ep fr c m = Some fs1"
      "makeAllFrames ep fr ms = Some fs2" "fs = fs1 @ fs2"
    using Cons.prems(2) by (cases x) (auto simp: bind_eq_Some_conv)
  show ?case
  proof (cases "f \<in> set fs1")
    case True
    then have f: "f = mk_frame (f_type f) (f_channel f) (Frame_payload f)"
      using makeFrames_mk [OF _ x(2) True] Cons.prems(1) x(1) by auto
    have "totalFrameSize f = length (Frame_payload f) + frameOverhead"
      by (subst f) simp
    then show ?thesis
      using f Cons.prems(4) by (simp add: frame_ok_def frame_sizes)
  next
    case False
    then show ?thesis
      using Cons.IH [OF _ x(3)] Cons.prems x by auto
  qed
qed

lemma sample_message_ok:
  "amqp_ok sample_epoch sample_guid_util (Msg_Content sample_message)"
  "Message_payload sample_message = [1, 2, 3, 4, 5]"
  using sample_properties_ok Message_new_inv [OF sample_guid_util_ok, of 7 "Some [1, 2, 3, 4, 5]" sample_properties]
    Message_new_id [of sample_properties "bstr ''id-1''" sample_guid_util 7 "Some [1, 2, 3, 4, 5]"]
  by (simp_all add: sample_message_def) (simp add: sample_properties_def bstr_def)

section \<open>Properties\<close>

text \<open>C36: Content framing. With a maximum frame size that \<open>setMaxFrameSize\<close> accepts, a message is
  always serialized: one header frame and then body frames on the same channel whose payloads are, in
  order, exactly the message's payload. No body frame is empty and none is larger on the wire than the
  maximum frame size, and there are \<open>\<lceil>size / (maximum - overhead)\<rceil>\<close> of them.\<close>

theorem content_frames_partition:
  assumes "framer_inv fr"
  shows "\<exists>bodies. makeFrames ep fr c (Msg_Content m) = Some (makeContentHeaderFrame ep m c # bodies) \<and>
     concat (map Frame_payload bodies) = Message_payload m \<and>
     list_all (\<lambda>f. f_type f = FT_BODY \<and> f_channel f = c \<and> Frame_payload f \<noteq> [] \<and>
       totalFrameSize f \<le> fr_maxFrameSize fr) bodies \<and>
     length bodies = (payloadSize m + (fr_maxFrameSize fr - frameOverhead) - 1)
       div (fr_maxFrameSize fr - frameOverhead)"
proof -
  let ?k = "fr_maxFrameSize fr - frameOverhead"
  have k: "0 < ?k" and "\<not> fr_maxFrameSize fr \<le> frameOverhead"
    using assms by (auto simp: framer_inv_def)
  then show ?thesis
    using chunks_pos(1) [OF k] chunks_pos(2) [of _ ?k] length_chunks [OF k]
    by (fastforce simp: serializeContent_def makeBodyFrames_chunks o_def list_all_iff)
qed

theorem content_frames_partition_witness:
  "makeFrames sample_epoch Framer_new 1 (Msg_Content sample_message) \<noteq> None"
  using content_frames_partition [of Framer_new sample_epoch 1 sample_message]
  by (auto simp: framer_inv_def Framer_new_def maxFrameSize_def frame_sizes)

text \<open>Channels do not disturb each other. The outcomes for the frames of one channel (return codes
  and messages) and what the framer holds for that channel afterwards are the same when the frames of
  all other channels are left out, whatever those frames are.\<close>

theorem framer_channels_independent:
  assumes "appendFrames ep gu fr fgs = (outs, fr')"
  shows "\<exists>frc. appendFrames ep gu fr (filter (\<lambda>(f, g). f_channel f = c) fgs)
     = (filter (\<lambda>(c', rc, m). c' = c) outs, frc) \<and> fr_makers frc c = fr_makers fr' c"
  using appendFrames_channel [OF assms, of c fr] by auto

theorem framer_channels_independent_witness:
  "\<exists>frc. appendFrames sample_epoch sample_guid_util Framer_new
      (filter (\<lambda>(f, g). f_channel f = 1) [(mk_frame 9 2 [], 0), (mk_frame FT_BODY 1 [5], 0)])
     = ([(1, FR_CHANNEL_EXCEPTION, None)], frc) \<and> fr_makers frc 1 = None"
  using framer_channels_independent [of sample_epoch sample_guid_util Framer_new
      "[(mk_frame 9 2 [], 0), (mk_frame FT_BODY 1 [5], 0)]"
      "[(2, FR_CONNECTION_EXCEPTION, None), (1, FR_CHANNEL_EXCEPTION, None)]" Framer_new 1]
  by (simp add: appendFrame_def appendBodyFrame_def Framer_new_def frame_types)

text \<open>Reassembly under interleaving. A sender makes the frames of some messages for a channel; the
  receiver sees them in order but mixed with arbitrary frames of other channels. If the channel was idle,
  the receiver is handed exactly these messages on it, in order: methods with their fields, content with
  the same payload, properties and GUID. No frame of the channel raises an exception and the channel is
  idle again at the end.\<close>

theorem interleaved_reassembly:
  assumes "\<forall>m \<in> set ms. amqp_ok ep gu m"
    and "makeAllFrames ep sfr (map (Pair c) ms) = Some frames"
    and "map fst (filter (\<lambda>(f, g). f_channel f = c) fgs) = frames"
    and "fr_makers fr c = None"
    and "appendFrames ep gu fr fgs = (outs, fr')"
  shows "list_all2 (received gu) (map (Pair c) ms) (delivered (filter (\<lambda>(c', rc, m). c' = c) outs)) \<and>
     no_exception (filter (\<lambda>(c', rc, m). c' = c) outs) \<and> fr_makers fr' c = None"
proof -
  let ?fgs = "filter (\<lambda>(f, g). f_channel f = c) fgs"
  obtain outs' where "appendFrames ep gu fr ?fgs = (outs', fr)" "no_exception outs'"
      "list_all2 (received gu) (map (Pair c) ms) (delivered outs')"
    using appendFrames_messages [of "map (Pair c) ms" ep gu fr sfr ?fgs] assms(1-4) by auto
  then show ?thesis
    using appendFrames_channel [OF assms(5), of c fr] assms(4) by auto
qed

theorem interleaved_reassembly_witness:
  "\<exists>m. received sample_guid_util (1, Msg_Method (Channel M_ChannelOpenOk)) (1, m)"
  using interleaved_reassembly [of "[Msg_Method (Channel M_ChannelOpenOk)]" sample_epoch
      sample_guid_util Framer_new 1 "[makeMethodFrame sample_epoch 1 (Channel M_ChannelOpenOk)]"
      "[(makeHeartbeatFrame, 0), (makeMethodFrame sample_epoch 1 (Channel M_ChannelOpenOk), 0)]"
      Framer_new]
  by (auto simp: Framer_new_def)

text \<open>The framer's invariant. A maker always waits for at least one octet more and holds exactly the
  octets announced minus those missing; the maximum frame size leaves room for a payload. A new framer
  has the invariant; \<open>setMaxFrameSize\<close>, \<open>clearChannel\<close> and \<open>appendFrame\<close> keep it, and \<open>setMaxFrameSize\<close>
  refuses exactly the sizes that would break it.\<close>

theorem framer_invariant:
  "framer_inv (Framer_new :: 'dt framer) \<and>
   (\<forall>fr :: 'dt framer. framer_inv fr \<longrightarrow>
     framer_inv (clearChannel fr c) \<and>
     framer_inv (snd (setMaxFrameSize fr n)) \<and>
     (fst (setMaxFrameSize fr n) \<longleftrightarrow> framer_inv (fr\<lparr>fr_maxFrameSize := n\<rparr>)) \<and>
     (length (Frame_payload f) < 2 ^ 64 \<longrightarrow> framer_inv (snd (snd (appendFrame ep gu g fr f)))))"
proof (intro conjI allI impI)
  fix fr :: "'dt framer"
  assume inv: "framer_inv fr"
  show "framer_inv (snd (snd (appendFrame ep gu g fr f)))" if "length (Frame_payload f) < 2 ^ 64"
    using appendFrame_inv [OF inv that] by (cases "appendFrame ep gu g fr f") auto
qed (auto simp: framer_inv_def clearChannel_def setMaxFrameSize_def Framer_new_def maxFrameSize_def
      frame_sizes)

theorem framer_invariant_witness:
  "framer_inv (clearChannel (Framer_new :: u64 framer) 3)"
  using framer_invariant [of 3 0 Frame_new sample_epoch sample_guid_util 0] by blast

text \<open>Failures. A message comes out exactly when the return code is \<open>OK\<close>. An exception changes
  nothing: in particular, after a body that is too long the channel keeps its half-read message and
  refuses methods and headers, until \<open>clearChannel\<close>, after which a method is read again.\<close>

theorem framer_failures:
  assumes "appendFrame ep gu g fr f = (rc, m, fr')"
  shows "(m \<noteq> None \<longleftrightarrow> rc = FR_OK) \<and>
     (rc = FR_CHANNEL_EXCEPTION \<or> rc = FR_CONNECTION_EXCEPTION \<longrightarrow> fr' = fr) \<and>
     (fr_makers fr (f_channel f) \<noteq> None \<longrightarrow> f_type f = FT_METHOD \<or> f_type f = FT_HEADER \<longrightarrow>
        rc = FR_CHANNEL_EXCEPTION) \<and>
     (f_type f = FT_METHOD \<longrightarrow> Method_decode ep (Frame_payload f) = Some x \<longrightarrow>
        appendFrame ep gu g (clearChannel fr (f_channel f)) f =
          (FR_OK, Some (Msg_Method x), clearChannel fr (f_channel f)))"
  using appendFrame_exception [OF assms] assms
  by (auto simp: appendFrame_def appendMethodFrame_def appendHeaderFrame_def clearChannel_def frame_types)

theorem framer_failures_witness:
  "let fr = Framer_new\<lparr>fr_makers := [1 \<mapsto> ContentMaker_new (ContentHeader_new 60 sample_message)]\<rparr>;
       f = makeMethodFrame sample_epoch 1 (Channel M_ChannelOpenOk) in
   appendFrame sample_epoch sample_guid_util 0 fr f = (FR_CHANNEL_EXCEPTION, None, fr) \<and>
   appendFrame sample_epoch sample_guid_util 0 (clearChannel fr 1) f
     = (FR_OK, Some (Msg_Method (Channel M_ChannelOpenOk)), clearChannel fr 1)"
proof -
  let ?fr = "Framer_new\<lparr>fr_makers := [1 \<mapsto> ContentMaker_new (ContentHeader_new 60 sample_message)]\<rparr>"
  let ?f = "makeMethodFrame sample_epoch 1 (Channel M_ChannelOpenOk)"
  have f: "?f = mk_frame FT_METHOD 1 (Method_encode sample_epoch (Channel M_ChannelOpenOk))"
    by (simp add: makeMethodFrame_mk)
  have 1: "appendFrame sample_epoch sample_guid_util 0 ?fr ?f = (FR_CHANNEL_EXCEPTION, None, ?fr)"
    by (simp add: f appendMethodFrame_def)
  have 2: "Method_decode sample_epoch (Frame_payload ?f) = Some (Channel M_ChannelOpenOk)"
    using meth.roundtrip [of sample_epoch "Channel M_ChannelOpenOk"] by (simp add: f)
  have 3: "f_type ?f = FT_METHOD" "f_channel ?f = 1"
    by (simp_all add: f)
  show ?thesis
    using framer_failures [OF 1, of "Channel M_ChannelOpenOk"] 1 2 3 by (simp add: Let_def)
qed

end
