(* ===== verification/Heartbeat.thy ===== *)
theory Heartbeat
  imports Prelude
begin

text \<open>
  \<open>rmqamqp::HeartbeatManagerImpl\<close>: a one-second timer that sends heartbeats and detects a dead peer.

  The tick counters are \<open>size_t\<close> (\<^typ>\<open>u64\<close>) and are decremented with wrap-around; their start values are
  computed in 32-bit arithmetic from the timeout, as in \<open>start\<close>. The two callbacks are the events
  of a step. \<open>TICK_TIME\<close> is 1.
\<close>

record heartbeat_manager =
  hb_timeoutSeconds :: u32
  hb_timerRunning :: bool
  hb_active :: bool
  hb_ticksUntilDisconnect :: u64
  hb_ticksUntilHeartBeat :: u64
  hb_totalTicksUntilDisconnect :: u64
  hb_totalTicksUntilHeartBeat :: u64

datatype hb_event = Send_heartbeat | Kill_connection

definition TICK_TIME :: u32 where "TICK_TIME = 1"

definition Heartbeat_new :: heartbeat_manager where
  "Heartbeat_new = \<lparr>hb_timeoutSeconds = 0, hb_timerRunning = False, hb_active = False,
     hb_ticksUntilDisconnect = 0, hb_ticksUntilHeartBeat = 0,
     hb_totalTicksUntilDisconnect = 0, hb_totalTicksUntilHeartBeat = 0\<rparr>"

definition Heartbeat_start :: "u32 \<Rightarrow> heartbeat_manager \<Rightarrow> heartbeat_manager" where
  "Heartbeat_start timeoutSeconds s =
     (let totalDisconnect = ucast (timeoutSeconds * 2 div TICK_TIME + 1);
          totalHeartBeat = ucast (timeoutSeconds div 2 div TICK_TIME) in
      s\<lparr>hb_timeoutSeconds := timeoutSeconds, hb_active := True,
        hb_totalTicksUntilDisconnect := totalDisconnect, hb_ticksUntilDisconnect := totalDisconnect,
        hb_totalTicksUntilHeartBeat := totalHeartBeat, hb_ticksUntilHeartBeat := totalHeartBeat,
        hb_timerRunning := True\<rparr>)"

definition Heartbeat_stop :: "heartbeat_manager \<Rightarrow> heartbeat_manager" where
  "Heartbeat_stop s = s\<lparr>hb_timerRunning := False, hb_active := False\<rparr>"

definition processTick :: "heartbeat_manager \<Rightarrow> hb_event list \<times> heartbeat_manager" where
  "processTick s =
     (let hb = hb_ticksUntilHeartBeat s - 1;
          disc = hb_ticksUntilDisconnect s - 1;
          sends = (if hb = 0 then [Send_heartbeat] else []);
          hb' = (if hb = 0 then hb_totalTicksUntilHeartBeat s else hb);
          kills = (if disc = 0 then [Kill_connection] else []);
          disc' = (if disc = 0 then hb_totalTicksUntilDisconnect s else disc) in
      (sends @ kills, s\<lparr>hb_ticksUntilHeartBeat := hb', hb_ticksUntilDisconnect := disc'\<rparr>))"

text \<open>A cancelled timer calls back too; only an expired one is a tick.\<close>

definition handleTick :: "interrupt_reason \<Rightarrow> heartbeat_manager \<Rightarrow> hb_event list \<times> heartbeat_manager" where
  "handleTick reason s = (if reason = CANCEL then ([], s) else processTick s)"

definition notifyMessageSent :: "heartbeat_manager \<Rightarrow> heartbeat_manager" where
  "notifyMessageSent s = s\<lparr>hb_ticksUntilHeartBeat := hb_totalTicksUntilHeartBeat s\<rparr>"

definition notifyMessageReceived :: "heartbeat_manager \<Rightarrow> heartbeat_manager" where
  "notifyMessageReceived s = s\<lparr>hb_ticksUntilDisconnect := hb_totalTicksUntilDisconnect s\<rparr>"

definition notifyHeartbeatReceived :: "heartbeat_manager \<Rightarrow> heartbeat_manager" where
  "notifyHeartbeatReceived s =
     (let total = ucast (hb_timeoutSeconds s div TICK_TIME + 1) in
      s\<lparr>hb_totalTicksUntilDisconnect := total, hb_ticksUntilDisconnect := total\<rparr>)"

text \<open>What may happen to a running manager, in any order.\<close>

datatype hb_input = Tick | Cancelled | Sent | Received | Heartbeat_received

fun hb_step :: "hb_input \<Rightarrow> heartbeat_manager \<Rightarrow> hb_event list \<times> heartbeat_manager" where
  "hb_step Tick s = handleTick EXPIRE s"
| "hb_step Cancelled s = handleTick CANCEL s"
| "hb_step Sent s = ([], notifyMessageSent s)"
| "hb_step Received s = ([], notifyMessageReceived s)"
| "hb_step Heartbeat_received s = ([], notifyHeartbeatReceived s)"

fun hb_run :: "hb_input list \<Rightarrow> heartbeat_manager \<Rightarrow> hb_event list \<times> heartbeat_manager" where
  "hb_run [] s = ([], s)"
| "hb_run (i # is) s =
     (case hb_step i s of (es, s') \<Rightarrow> (case hb_run is s' of (es', s'') \<Rightarrow> (es @ es', s'')))"

text \<open>Every counter is between 1 and its start value, and these are what the timeout asks for.\<close>

definition hb_inv :: "heartbeat_manager \<Rightarrow> bool" where
  "hb_inv s \<longleftrightarrow>
     2 \<le> unat (hb_timeoutSeconds s) \<and> unat (hb_timeoutSeconds s) < 2 ^ 31 - 1 \<and>
     unat (hb_totalTicksUntilHeartBeat s) = unat (hb_timeoutSeconds s) div 2 \<and>
     unat (hb_totalTicksUntilDisconnect s) \<in>
       {2 * unat (hb_timeoutSeconds s) + 1, unat (hb_timeoutSeconds s) + 1} \<and>
     hb_ticksUntilHeartBeat s \<noteq> 0 \<and> hb_ticksUntilHeartBeat s \<le> hb_totalTicksUntilHeartBeat s \<and>
     hb_ticksUntilDisconnect s \<noteq> 0 \<and> hb_ticksUntilDisconnect s \<le> hb_totalTicksUntilDisconnect s"

section \<open>Counters\<close>

lemma unat_ucast_u32: "unat (ucast (w :: u32) :: u64) = unat w"
  by (simp add: unsigned_ucast_eq take_bit_nat_eq_self unsigned_less [THEN order_less_trans])

lemma unat_pred: "(w :: u64) \<noteq> 0 \<Longrightarrow> unat (w - 1) = unat w - 1"
  by (simp add: unat_minus_one)

lemma pred_le: "(w :: u64) \<noteq> 0 \<Longrightarrow> w \<le> t \<Longrightarrow> w - 1 \<le> t"
  by (simp add: word_le_nat_alt unat_pred)

lemma start_totals:
  assumes "unat t < 2 ^ 31 - 1"
  shows "unat (ucast (t * 2 div TICK_TIME + 1) :: u64) = 2 * unat t + 1"
    and "unat (ucast (t div TICK_TIME + 1) :: u64) = unat t + 1"
    and "unat (ucast (t div 2 div TICK_TIME) :: u64) = unat t div 2"
  using assms by (simp_all add: unat_ucast_u32 TICK_TIME_def unat_word_ariths unat_div)

lemma hb_inv_start:
  "2 \<le> unat t \<Longrightarrow> unat t < 2 ^ 31 - 1 \<Longrightarrow> hb_inv (Heartbeat_start t s)"
  using start_totals [of t]
  by (simp add: hb_inv_def Heartbeat_start_def Let_def word_unat_eq_iff)

lemma hb_inv_step: "hb_inv s \<Longrightarrow> hb_inv (snd (hb_step i s))"
proof (cases i)
  case Tick
  assume "hb_inv s"
  then show ?thesis
    using Tick pred_le
    by (auto simp: hb_inv_def handleTick_def processTick_def Let_def word_unat_eq_iff)
next
  case Heartbeat_received
  assume "hb_inv s"
  then show ?thesis
    using Heartbeat_received start_totals(2) [of "hb_timeoutSeconds s"]
    by (simp add: hb_inv_def notifyHeartbeatReceived_def Let_def word_unat_eq_iff)
qed (auto simp: hb_inv_def handleTick_def notifyMessageSent_def notifyMessageReceived_def word_unat_eq_iff)

lemma hb_inv_run: "hb_inv s \<Longrightarrow> hb_inv (snd (hb_run is s))"
proof (induction "is" arbitrary: s)
  case (Cons i "is")
  then show ?case
    using Cons.IH [OF hb_inv_step [OF Cons.prems, of i]] by (simp add: case_prod_beta)
qed simp

lemma hb_run_Cons:
  "fst (hb_run (i # is) s) = fst (hb_step i s) @ fst (hb_run is (snd (hb_step i s)))"
  by (simp split: prod.split)

lemma send_iff:
  "hb_inv s \<Longrightarrow> Sent \<notin> set is \<Longrightarrow>
     Send_heartbeat \<in> set (fst (hb_run is s)) \<longleftrightarrow> unat (hb_ticksUntilHeartBeat s) \<le> count_list is Tick"
proof (induction "is" arbitrary: s)
  case Nil
  then show ?case by (auto simp: hb_inv_def unat_eq_0)
next
  case (Cons i "is")
  let ?s = "snd (hb_step i s)"
  have ih: "Send_heartbeat \<in> set (fst (hb_run is ?s)) \<longleftrightarrow>
      unat (hb_ticksUntilHeartBeat ?s) \<le> count_list is Tick"
    using Cons.IH [OF hb_inv_step [OF Cons.prems(1)]] Cons.prems(2) by simp
  have nz: "hb_ticksUntilHeartBeat s \<noteq> 0"
    using Cons.prems(1) by (simp add: hb_inv_def)
  show ?case
  proof (cases i)
    case Tick
    show ?thesis
    proof (cases "hb_ticksUntilHeartBeat s = 1")
      case True
      then show ?thesis
        using Tick by (simp add: hb_run_Cons handleTick_def processTick_def Let_def del: hb_run.simps)
    next
      case False
      then have "hb_ticksUntilHeartBeat s - 1 \<noteq> 0" by simp
      then show ?thesis
        using Tick ih unat_pred [OF nz] nz unat_gt_0 [of "hb_ticksUntilHeartBeat s"]
        by (auto simp: hb_run_Cons handleTick_def processTick_def Let_def simp del: hb_run.simps)
    qed
  qed (use Cons.prems ih in \<open>auto simp: hb_run_Cons handleTick_def notifyMessageReceived_def
        notifyHeartbeatReceived_def Let_def simp del: hb_run.simps\<close>)
qed

lemma kill_iff:
  "hb_inv s \<Longrightarrow> Received \<notin> set is \<Longrightarrow> Heartbeat_received \<notin> set is \<Longrightarrow>
     Kill_connection \<in> set (fst (hb_run is s)) \<longleftrightarrow> unat (hb_ticksUntilDisconnect s) \<le> count_list is Tick"
proof (induction "is" arbitrary: s)
  case Nil
  then show ?case by (auto simp: hb_inv_def unat_eq_0)
next
  case (Cons i "is")
  let ?s = "snd (hb_step i s)"
  have ih: "Kill_connection \<in> set (fst (hb_run is ?s)) \<longleftrightarrow>
      unat (hb_ticksUntilDisconnect ?s) \<le> count_list is Tick"
    using Cons.IH [OF hb_inv_step [OF Cons.prems(1)]] Cons.prems(2,3) by simp
  have nz: "hb_ticksUntilDisconnect s \<noteq> 0"
    using Cons.prems(1) by (simp add: hb_inv_def)
  show ?case
  proof (cases i)
    case Tick
    show ?thesis
    proof (cases "hb_ticksUntilDisconnect s = 1")
      case True
      then show ?thesis
        using Tick by (simp add: hb_run_Cons handleTick_def processTick_def Let_def del: hb_run.simps)
    next
      case False
      then have "hb_ticksUntilDisconnect s - 1 \<noteq> 0" by simp
      then show ?thesis
        using Tick ih unat_pred [OF nz] nz unat_gt_0 [of "hb_ticksUntilDisconnect s"]
        by (auto simp: hb_run_Cons handleTick_def processTick_def Let_def simp del: hb_run.simps)
    qed
  qed (use Cons.prems ih in \<open>auto simp: hb_run_Cons handleTick_def notifyMessageSent_def
        simp del: hb_run.simps\<close>)
qed

lemma no_send:
  assumes "hb_totalTicksUntilHeartBeat s = 0" and "length is < 2 ^ 64"
    and "hb_ticksUntilHeartBeat s = 0 \<or> length is < unat (hb_ticksUntilHeartBeat s)"
  shows "Send_heartbeat \<notin> set (fst (hb_run is s))"
  using assms
proof (induction "is" arbitrary: s)
  case (Cons i "is")
  show ?case
  proof (cases i)
    case Tick
    let ?t = "hb_ticksUntilHeartBeat s - 1"
    have t: "?t \<noteq> 0 \<and> length is < unat ?t"
    proof (cases "hb_ticksUntilHeartBeat s = 0")
      case True
      then have "?t = - 1" by simp
      then show ?thesis
        using Cons.prems(2) by (simp add: unsigned_minus_1_eq_mask mask_eq_exp_minus_1)
    next
      case False
      then show ?thesis
        using Cons.prems(3) unat_pred [OF False] by (auto simp: word_unat_eq_iff)
    qed
    then show ?thesis
      using Tick Cons.prems Cons.IH [of "snd (processTick s)"]
      by (simp add: hb_run_Cons handleTick_def processTick_def Let_def del: hb_run.simps)
  qed (use Cons in \<open>auto simp: hb_run_Cons handleTick_def notifyMessageSent_def notifyMessageReceived_def
        notifyHeartbeatReceived_def Let_def simp del: hb_run.simps\<close>)
qed simp

section \<open>Properties\<close>

text \<open>The counters never underflow. For every timeout of at least 2 seconds (and less than
  \<open>2 ^ 31 - 1\<close>), \<open>start\<close> establishes and every further event keeps: each counter is between 1 and its
  start value, heartbeats are due every \<open>timeout / 2\<close> ticks and the peer is dead after \<open>2 * timeout + 1\<close>
  silent ticks before its first heartbeat and \<open>timeout + 1\<close> afterwards.\<close>

theorem heartbeat_invariant:
  assumes "2 \<le> unat t" and "unat t < 2 ^ 31 - 1"
  shows "hb_inv (snd (hb_run is (Heartbeat_start t s)))"
  using hb_inv_run [OF hb_inv_start [OF assms]] .

theorem heartbeat_invariant_witness:
  "hb_inv (snd (hb_run [Tick, Received, Tick, Heartbeat_received] (Heartbeat_start 60 Heartbeat_new)))"
  by (rule heartbeat_invariant) simp_all

text \<open>Heartbeats go out in time. As long as nothing else is sent, a heartbeat is sent exactly when the
  remaining ticks have passed, whatever else happens; so the client is never silent for more than half
  the timeout.\<close>

theorem heartbeat_in_time:
  assumes "hb_inv s" and "Sent \<notin> set is"
  shows "(Send_heartbeat \<in> set (fst (hb_run is s)) \<longleftrightarrow>
        unat (hb_ticksUntilHeartBeat s) \<le> count_list is Tick) \<and>
     (unat (hb_timeoutSeconds s) div 2 \<le> count_list is Tick \<longrightarrow>
        Send_heartbeat \<in> set (fst (hb_run is s)))"
  using send_iff [OF assms] assms(1) by (auto simp: hb_inv_def word_le_nat_alt)

theorem heartbeat_in_time_witness:
  "Send_heartbeat \<in> set (fst (hb_run [Tick, Received, Tick] (Heartbeat_start 4 Heartbeat_new)))"
proof -
  have inv: "hb_inv (Heartbeat_start 4 Heartbeat_new)"
    by (rule hb_inv_start) simp_all
  have "unat (hb_timeoutSeconds (Heartbeat_start 4 Heartbeat_new)) = 4"
    by (simp add: Heartbeat_start_def Let_def)
  then show ?thesis
    using heartbeat_in_time [OF inv, of "[Tick, Received, Tick]", THEN conjunct2]
    by (simp del: hb_run.simps)
qed



text \<open>A timeout of one second is not supported: half of it is no tick at all, the counter wraps
  around at the first decrement, and no heartbeat is ever sent, whatever happens in the next
  \<open>2 ^ 64 - 1\<close> events. (A timeout of zero behaves the same way.)\<close>

theorem one_second_timeout_never_sends:
  assumes "unat t < 2" and "length is < 2 ^ 64"
  shows "Send_heartbeat \<notin> set (fst (hb_run is (Heartbeat_start t s)))"
proof -
  have "unat (ucast (t div 2 div TICK_TIME) :: u64) = 0"
    using start_totals(3) [of t] assms(1) by simp
  then have "(ucast (t div 2 div TICK_TIME) :: u64) = 0"
    by (simp only: unat_eq_0)
  then show ?thesis
    using assms(2) by (intro no_send) (simp_all add: Heartbeat_start_def Let_def)
qed

theorem one_second_timeout_never_sends_witness:
  "Send_heartbeat \<notin> set (fst (hb_run [Tick, Tick, Tick] (Heartbeat_start 1 Heartbeat_new)))"
  using one_second_timeout_never_sends [of 1 "[Tick, Tick, Tick]"]
  by (simp del: hb_run.simps)

end
