(* ===== verification/Tune.thy ===== *)
theory Tune
  imports Framer Heartbeat
begin

text \<open>
  Connection tuning: \<open>negotiateTuneParam\<close>, \<open>negotiateTuneParams\<close> and \<open>Connection::sendConnectionTuneOk\<close> of
  \<open>rmqamqp_connection.cpp\<close>, which settle the limits that the framer and the heartbeat manager then work with.

  A failed \<open>BSLS_ASSERT\<close> is \<^const>\<open>None\<close>. What the handler asks of the rest of the connection is recorded as
  events: the connection exception, the error callback and the frame that is written.
\<close>

definition negotiateTuneParam :: "'n::{zero, linorder} \<Rightarrow> 'n \<Rightarrow> 'n" where
  "negotiateTuneParam server client =
     (if server = 0 then client else if client = 0 then server else min server client)"

definition k_MAX_CHANNEL_NUM :: u16 where "k_MAX_CHANNEL_NUM = - 1"
definition k_MAX_HEARTBEAT_TIMEOUT_SEC :: u16 where "k_MAX_HEARTBEAT_TIMEOUT_SEC = 60"
definition FRAME_MIN_SIZE :: u32 where "FRAME_MIN_SIZE = 4096"
definition negotiateTuneParams ::
  "ConnectionTune \<Rightarrow> u16 \<Rightarrow> u32 \<Rightarrow> u16 \<Rightarrow> u16 \<times> u32 \<times> u16" where
  "negotiateTuneParams serverTune clientChannelMax clientFrameSize clientHeartbeat =
     (negotiateTuneParam (tune_channelMax serverTune) clientChannelMax,
      negotiateTuneParam (tune_frameMax serverTune) clientFrameSize,
      negotiateTuneParam (tune_heartbeatInterval serverTune) clientHeartbeat)"

datatype tune_event =
    Ev_connectionException u16 u32 u16 u16
  | Ev_errorCallback u32 u16
  | Ev_write frame

definition sendConnectionTuneOk ::
  "'dt epoch_util \<Rightarrow> ConnectionTune \<Rightarrow> 'dt framer \<Rightarrow> heartbeat_manager \<Rightarrow>
     (bool \<times> tune_event list \<times> 'dt framer \<times> heartbeat_manager) option" where
  "sendConnectionTuneOk ep tuneMethod fr hb =
     (case negotiateTuneParams tuneMethod k_MAX_CHANNEL_NUM (of_nat maxFrameSize)
             k_MAX_HEARTBEAT_TIMEOUT_SEC of
        (channelMax, frameMax, heartbeat) \<Rightarrow>
        if frameMax < FRAME_MIN_SIZE
        then Some (False, [Ev_connectionException NOT_ALLOWED frameMax 10 30,
                           Ev_errorCallback frameMax NOT_ALLOWED], fr, hb)
        else
          let hb' = Heartbeat_start (ucast heartbeat) hb in
          case setMaxFrameSize fr (unat frameMax) of
            (False, _) \<Rightarrow> None
          | (True, fr') \<Rightarrow>
              Some (True,
                [Ev_write (makeMethodFrame ep 0 (Connection (M_ConnectionTuneOk
                   \<lparr>tuneOk_channelMax = channelMax, tuneOk_frameMax = frameMax,
                    tuneOk_heartbeatInterval = heartbeat\<rparr>)))], fr', hb'))"

section \<open>Negotiated values\<close>

definition negotiated_frameMax :: "ConnectionTune \<Rightarrow> u32" where
  "negotiated_frameMax t = negotiateTuneParam (tune_frameMax t) (of_nat maxFrameSize)"

definition negotiated_heartbeat :: "ConnectionTune \<Rightarrow> u16" where
  "negotiated_heartbeat t = negotiateTuneParam (tune_heartbeatInterval t) k_MAX_HEARTBEAT_TIMEOUT_SEC"

lemma negotiateTuneParam_le:
  "server \<noteq> 0 \<Longrightarrow> negotiateTuneParam server client \<le> server"
  "client \<noteq> 0 \<Longrightarrow> negotiateTuneParam server client \<le> client"
  by (auto simp: negotiateTuneParam_def)

lemma negotiateTuneParam_nonzero:
  "client \<noteq> 0 \<Longrightarrow> negotiateTuneParam server client \<noteq> 0"
  by (auto simp: negotiateTuneParam_def min_def)

lemma refused_iff:
  "negotiated_frameMax t < FRAME_MIN_SIZE \<longleftrightarrow> tune_frameMax t \<noteq> 0 \<and> tune_frameMax t < FRAME_MIN_SIZE"
  by (auto simp: negotiated_frameMax_def negotiateTuneParam_def maxFrameSize_def FRAME_MIN_SIZE_def min_def
      word_less_nat_alt word_le_nat_alt)

lemma frameMax_bounds: "unat (negotiated_frameMax t) \<le> maxFrameSize"
  using negotiateTuneParam_le(2) [of "of_nat maxFrameSize :: u32" "tune_frameMax t"]
  by (simp add: negotiated_frameMax_def word_le_nat_alt maxFrameSize_def)

lemma heartbeat_bounds: "1 \<le> unat (negotiated_heartbeat t)" "unat (negotiated_heartbeat t) \<le> 60"
  using negotiateTuneParam_le(2) [of k_MAX_HEARTBEAT_TIMEOUT_SEC "tune_heartbeatInterval t"]
    negotiateTuneParam_nonzero [of k_MAX_HEARTBEAT_TIMEOUT_SEC "tune_heartbeatInterval t"]
  by (simp_all add: negotiated_heartbeat_def k_MAX_HEARTBEAT_TIMEOUT_SEC_def word_le_nat_alt
      Suc_le_eq unat_gt_0)

lemma sendConnectionTuneOk_cases:
  "sendConnectionTuneOk ep t fr hb =
     (if negotiated_frameMax t < FRAME_MIN_SIZE
      then Some (False, [Ev_connectionException NOT_ALLOWED (negotiated_frameMax t) 10 30,
              Ev_errorCallback (negotiated_frameMax t) NOT_ALLOWED], fr, hb)
      else Some (True, [Ev_write (makeMethodFrame ep 0 (Connection (M_ConnectionTuneOk
              \<lparr>tuneOk_channelMax = negotiateTuneParam (tune_channelMax t) k_MAX_CHANNEL_NUM,
               tuneOk_frameMax = negotiated_frameMax t,
               tuneOk_heartbeatInterval = negotiated_heartbeat t\<rparr>)))],
            fr\<lparr>fr_maxFrameSize := unat (negotiated_frameMax t)\<rparr>,
            Heartbeat_start (ucast (negotiated_heartbeat t)) hb))"
proof -
  have "\<not> unat (negotiated_frameMax t) \<le> frameOverhead" if "\<not> negotiated_frameMax t < FRAME_MIN_SIZE"
    using that by (simp add: FRAME_MIN_SIZE_def not_less word_le_nat_alt frame_sizes)
  then show ?thesis
    by (auto simp: sendConnectionTuneOk_def negotiateTuneParams_def negotiated_frameMax_def [symmetric]
        negotiated_heartbeat_def [symmetric] setMaxFrameSize_def Let_def)
qed

section \<open>Properties\<close>

text \<open>Tuning. Whatever the broker proposes, the handler ends without a failed assertion. It refuses
  exactly when the broker insists on a frame size below the protocol minimum of 4096, and then leaves the
  framer and the heartbeats alone. Otherwise it settles on values that neither side exceeds: the
  framer's maximum frame size is at least 4096, at most the broker's proposal (when that is not \<open>no
  limit\<close>) and at most the 150000 that the own decoder accepts, so that the framer's invariant holds; the
  heartbeat timeout is between 1 and 60 seconds and not above the broker's. The frame it sends decodes to
  exactly these values.\<close>

theorem tune_negotiation:
  assumes "framer_inv fr" and "sendConnectionTuneOk ep t fr hb = r"
  shows "\<exists>ok evs fr' hb'. r = Some (ok, evs, fr', hb') \<and> framer_inv fr' \<and>
     (ok \<longleftrightarrow> tune_frameMax t = 0 \<or> 4096 \<le> tune_frameMax t) \<and>
     (\<not> ok \<longrightarrow> fr' = fr \<and> hb' = hb) \<and>
     (ok \<longrightarrow> (\<exists>m f. evs = [Ev_write f] \<and> f_channel f = 0 \<and>
        Method_decode ep (Frame_payload f) = Some (Connection (M_ConnectionTuneOk m)) \<and>
        unat (tuneOk_frameMax m) = fr_maxFrameSize fr' \<and> 4096 \<le> fr_maxFrameSize fr' \<and>
        fr_maxFrameSize fr' \<le> 150000 \<and>
        (tune_frameMax t \<noteq> 0 \<longrightarrow> fr_maxFrameSize fr' \<le> unat (tune_frameMax t)) \<and>
        hb_timeoutSeconds hb' = ucast (tuneOk_heartbeatInterval m) \<and>
        1 \<le> unat (tuneOk_heartbeatInterval m) \<and> unat (tuneOk_heartbeatInterval m) \<le> 60 \<and>
        (tune_heartbeatInterval t \<noteq> 0 \<longrightarrow> tuneOk_heartbeatInterval m \<le> tune_heartbeatInterval t)))"
proof (cases "negotiated_frameMax t < FRAME_MIN_SIZE")
  case True
  then have "r = Some (False, [Ev_connectionException NOT_ALLOWED (negotiated_frameMax t) 10 30,
      Ev_errorCallback (negotiated_frameMax t) NOT_ALLOWED], fr, hb)"
    using assms(2) by (simp add: sendConnectionTuneOk_cases)
  moreover have "\<not> (tune_frameMax t = 0 \<or> 4096 \<le> tune_frameMax t)"
    using True [unfolded refused_iff] by (auto simp: FRAME_MIN_SIZE_def not_le)
  ultimately show ?thesis
    using assms(1) by (intro exI [of _ False]) simp
next
  case False
  let ?m = "\<lparr>tuneOk_channelMax = negotiateTuneParam (tune_channelMax t) k_MAX_CHANNEL_NUM,
      tuneOk_frameMax = negotiated_frameMax t, tuneOk_heartbeatInterval = negotiated_heartbeat t\<rparr>"
  let ?f = "makeMethodFrame ep 0 (Connection (M_ConnectionTuneOk ?m))"
  have r: "r = Some (True, [Ev_write ?f], fr\<lparr>fr_maxFrameSize := unat (negotiated_frameMax t)\<rparr>,
      Heartbeat_start (ucast (negotiated_heartbeat t)) hb)"
    using assms(2) False by (simp add: sendConnectionTuneOk_cases)
  have f: "f_channel ?f = 0" "Method_decode ep (Frame_payload ?f) = Some (Connection (M_ConnectionTuneOk ?m))"
    using meth.roundtrip [of ep "Connection (M_ConnectionTuneOk ?m)"] by (simp_all add: makeMethodFrame_mk)
  have size: "4096 \<le> unat (negotiated_frameMax t)" "unat (negotiated_frameMax t) \<le> 150000"
      "tune_frameMax t = 0 \<or> 4096 \<le> tune_frameMax t"
      "tune_frameMax t \<noteq> 0 \<longrightarrow> unat (negotiated_frameMax t) \<le> unat (tune_frameMax t)"
    using False refused_iff [of t] frameMax_bounds [of t]
      negotiateTuneParam_le(1) [of "tune_frameMax t" "of_nat maxFrameSize"]
    by (auto simp: FRAME_MIN_SIZE_def word_less_nat_alt word_le_nat_alt maxFrameSize_def
        negotiated_frameMax_def)
  have hb: "tune_heartbeatInterval t \<noteq> 0 \<longrightarrow> negotiated_heartbeat t \<le> tune_heartbeatInterval t"
    using negotiateTuneParam_le(1) [of "tune_heartbeatInterval t"] by (simp add: negotiated_heartbeat_def)
  have inv: "framer_inv (fr\<lparr>fr_maxFrameSize := unat (negotiated_frameMax t)\<rparr>)"
    using assms(1) size(1) by (auto simp: framer_inv_def frame_sizes)
  show ?thesis
    using inv f size hb heartbeat_bounds [of t]
    by (intro exI [of _ True]) (simp add: r, simp add: Heartbeat_start_def Let_def)
qed

theorem tune_negotiation_witness:
  "\<exists>evs fr' hb'. sendConnectionTuneOk sample_epoch
       \<lparr>tune_channelMax = 2047, tune_frameMax = 131072, tune_heartbeatInterval = 0\<rparr> Framer_new Heartbeat_new
     = Some (True, evs, fr', hb') \<and> framer_inv fr'"
proof -
  have "framer_inv (Framer_new :: u64 framer)"
    by (simp add: framer_inv_def Framer_new_def maxFrameSize_def frame_sizes)
  from tune_negotiation [OF this refl, of sample_epoch
      "\<lparr>tune_channelMax = 2047, tune_frameMax = 131072, tune_heartbeatInterval = 0\<rparr>" Heartbeat_new]
  show ?thesis
    by auto
qed

end
