(* ===== verification/Channel_Map.thy ===== *)
theory Channel_Map
  imports Ordered_Map
begin

text \<open>
  \<open>rmqamqp::ChannelMap\<close>: the channels of a connection by channel id.

  A channel is a reference (type \<open>'p\<close>, a null pointer is \<^const>\<open>None\<close>). The virtual operations that the map
  calls on channels are recorded as the calls made, in order; what they return (\<open>CLEANUP\<close> or not) and the
  consumer configuration are arguments.
\<close>

record 'p channel_map =
  cm_channels :: "(u16, 'p option) omap"
  cm_sendChannels :: "(u16, 'p) omap"
  cm_receiveChannels :: "(u16, 'p) omap"

datatype ('p, 'm) channel_call =
    Call_reset 'p
  | Call_open 'p
  | Call_pause 'p
  | Call_resume 'p
  | Call_processReceived 'p 'm

definition ChannelMap_new :: "'p channel_map" where
  "ChannelMap_new = \<lparr>cm_channels = [], cm_sendChannels = [], cm_receiveChannels = []\<rparr>"

fun assign_loop :: "u16 \<Rightarrow> (u16, 'p option) omap \<Rightarrow> u16" where
  "assign_loop lowest [] = lowest"
| "assign_loop lowest ((k, p) # es) = (if lowest < k then lowest else assign_loop (k + 1) es)"

definition assignId :: "'p channel_map \<Rightarrow> u16 \<times> 'p channel_map" where
  "assignId cm =
     (let lowest = assign_loop 1 (cm_channels cm) in
      (lowest, cm\<lparr>cm_channels := om_put lowest None (cm_channels cm)\<rparr>))"

definition associateSend :: "u16 \<Rightarrow> 'p \<Rightarrow> 'p channel_map \<Rightarrow> 'p channel_map" where
  "associateSend channelId channel cm =
     cm\<lparr>cm_sendChannels := om_put channelId channel (cm_sendChannels cm),
        cm_channels := om_put channelId (Some channel) (cm_channels cm)\<rparr>"

definition associateReceive :: "u16 \<Rightarrow> 'p \<Rightarrow> 'p channel_map \<Rightarrow> 'p channel_map" where
  "associateReceive channelId channel cm =
     cm\<lparr>cm_receiveChannels := om_put channelId channel (cm_receiveChannels cm),
        cm_channels := om_put channelId (Some channel) (cm_channels cm)\<rparr>"

definition removeChannel :: "u16 \<Rightarrow> 'p channel_map \<Rightarrow> 'p channel_map" where
  "removeChannel channelId cm =
     \<lparr>cm_channels = om_erase channelId (cm_channels cm),
      cm_sendChannels = om_erase channelId (cm_sendChannels cm),
      cm_receiveChannels = om_erase channelId (cm_receiveChannels cm)\<rparr>"

text \<open>\<open>resetAll\<close>: first every channel is reset, then those that asked for it are removed.\<close>

fun reset_loop :: "('p \<Rightarrow> bool) \<Rightarrow> (u16, 'p option) omap \<Rightarrow> ('p, 'm) channel_call list \<times> u16 list" where
  "reset_loop cleanup [] = ([], [])"
| "reset_loop cleanup ((k, None) # es) = reset_loop cleanup es"
| "reset_loop cleanup ((k, Some p) # es) =
     (case reset_loop cleanup es of (calls, ids) \<Rightarrow>
        (Call_reset p # calls, if cleanup p then k # ids else ids))"

definition resetAll :: "('p \<Rightarrow> bool) \<Rightarrow> 'p channel_map \<Rightarrow> ('p, 'm) channel_call list \<times> 'p channel_map" where
  "resetAll cleanup cm =
     (case reset_loop cleanup (cm_channels cm) of (calls, cleanupIds) \<Rightarrow>
        (calls, foldl (\<lambda>cm k. removeChannel k cm) cm cleanupIds))"

fun openAll_loop :: "(u16, 'p option) omap \<Rightarrow> ('p, 'm) channel_call list" where
  "openAll_loop [] = []"
| "openAll_loop ((k, None) # es) = openAll_loop es"
| "openAll_loop ((k, Some p) # es) = Call_open p # openAll_loop es"

definition openAll :: "'p channel_map \<Rightarrow> ('p, 'm) channel_call list" where
  "openAll cm = openAll_loop (cm_channels cm)"

fun host_health_loop ::
  "('p \<Rightarrow> ('p, 'm) channel_call) \<Rightarrow> ('p \<Rightarrow> bool) \<Rightarrow> bool \<Rightarrow> (u16, 'p) omap \<Rightarrow> ('p, 'm) channel_call list" where
  "host_health_loop call consumeOnlyFromHealthyHost respectHostHealth [] = []"
| "host_health_loop call consumeOnlyFromHealthyHost respectHostHealth ((k, p) # es) =
     (if respectHostHealth \<and> \<not> consumeOnlyFromHealthyHost p
      then host_health_loop call consumeOnlyFromHealthyHost respectHostHealth es
      else call p # host_health_loop call consumeOnlyFromHealthyHost respectHostHealth es)"

definition pauseReceiveChannels ::
  "('p \<Rightarrow> bool) \<Rightarrow> bool \<Rightarrow> 'p channel_map \<Rightarrow> ('p, 'm) channel_call list" where
  "pauseReceiveChannels consumeOnlyFromHealthyHost respectHostHealth cm =
     host_health_loop Call_pause consumeOnlyFromHealthyHost respectHostHealth (cm_receiveChannels cm)"

definition resumeReceiveChannels ::
  "('p \<Rightarrow> bool) \<Rightarrow> bool \<Rightarrow> 'p channel_map \<Rightarrow> ('p, 'm) channel_call list" where
  "resumeReceiveChannels consumeOnlyFromHealthyHost respectHostHealth cm =
     host_health_loop Call_resume consumeOnlyFromHealthyHost respectHostHealth (cm_receiveChannels cm)"

definition processReceived ::
  "('p \<Rightarrow> 'm \<Rightarrow> bool) \<Rightarrow> u16 \<Rightarrow> 'm \<Rightarrow> 'p channel_map \<Rightarrow>
     bool \<times> ('p, 'm) channel_call list \<times> 'p channel_map" where
  "processReceived cleanup channelId m cm =
     (case map_of (cm_channels cm) channelId of
        None \<Rightarrow> (False, [], cm)
      | Some None \<Rightarrow> (False, [], cm)
      | Some (Some channel) \<Rightarrow>
          (True, [Call_processReceived channel m],
           if cleanup channel m then removeChannel channelId cm else cm))"

section \<open>The invariant\<close>

text \<open>The two typed maps list exactly the channels of the common one; an id is of one kind.\<close>

definition channel_map_inv :: "'p channel_map \<Rightarrow> bool" where
  "channel_map_inv cm \<longleftrightarrow>
     om_inv (cm_channels cm) \<and> om_inv (cm_sendChannels cm) \<and> om_inv (cm_receiveChannels cm) \<and>
     (\<forall>k p. map_of (cm_channels cm) k = Some (Some p) \<longleftrightarrow>
        (map_of (cm_sendChannels cm) k = Some p \<or> map_of (cm_receiveChannels cm) k = Some p)) \<and>
     (\<forall>k. map_of (cm_sendChannels cm) k = None \<or> map_of (cm_receiveChannels cm) k = None) \<and>
     (\<forall>k. map_of (cm_channels cm) k = Some None \<longrightarrow>
        map_of (cm_sendChannels cm) k = None \<and> map_of (cm_receiveChannels cm) k = None)"

definition used :: "'p channel_map \<Rightarrow> u16 set" where
  "used cm = fst ` set (cm_channels cm)"

text \<open>The channels that are there, in the order of their ids.\<close>

definition live_channels :: "'p channel_map \<Rightarrow> (u16 \<times> 'p) list" where
  "live_channels cm = concat (map (\<lambda>(k, p). case p of None \<Rightarrow> [] | Some c \<Rightarrow> [(k, c)]) (cm_channels cm))"

section \<open>Assigning ids\<close>

lemma word_Suc_le: "(k :: u16) + 1 \<noteq> 0 \<Longrightarrow> k < x \<longleftrightarrow> k + 1 \<le> x"
  using unatSuc [of k] by (auto simp: word_le_nat_alt word_less_nat_alt add.commute)

lemma word_max_top: "(k :: u16) + 1 = 0 \<Longrightarrow> x \<le> k"
proof -
  assume "k + 1 = 0"
  then have "k = - 1"
    using eq_neg_iff_add_eq_0 by blast
  then show ?thesis
    by (simp add: word_order.extremum)
qed

lemma assign_loop_lowest:
  assumes "om_inv es" and "\<forall>k \<in> fst ` set es. l \<le> k" and "l \<noteq> 0"
  shows "let r = assign_loop l es in
     (r = 0 \<longrightarrow> (\<forall>k. l \<le> k \<longrightarrow> k \<in> fst ` set es)) \<and>
     (r \<noteq> 0 \<longrightarrow> r \<notin> fst ` set es \<and> l \<le> r \<and> (\<forall>k. l \<le> k \<longrightarrow> k < r \<longrightarrow> k \<in> fst ` set es))"
  using assms
proof (induction l es rule: assign_loop.induct)
  case (1 l)
  then show ?case by (auto simp: Let_def)
next
  case (2 l k p es)
  show ?case
  proof (cases "l < k")
    case True
    then show ?thesis
      using 2(2,4) by (auto simp: Let_def dest: order_less_trans)
  next
    case False
    then have k: "k = l"
      using 2(3) by auto
    show ?thesis
    proof (cases "k + 1 = 0")
      case True
      then have "es = []"
        using 2(2) word_max_top [OF True] by (cases es) (auto simp: not_less [symmetric])
      then show ?thesis
        using True False k word_max_top [OF True] by (auto simp: Let_def intro: order_antisym)
    next
      case no_wrap: False
      have "\<forall>k' \<in> fst ` set es. k + 1 \<le> k'"
        using 2(2) word_Suc_le [OF no_wrap] by auto
      note ih = 2(1) [OF False _ this no_wrap]
      have up: "k \<le> x \<longleftrightarrow> x = k \<or> k + 1 \<le> x" for x
        using word_Suc_le [OF no_wrap, of x] by auto
      moreover have "\<not> k + 1 \<le> k"
        using word_Suc_le [OF no_wrap, of k] by simp
      ultimately show ?thesis
        using ih 2(2) False k by (auto simp: Let_def)
    qed
  qed
qed

section \<open>Removing and calling channels\<close>

lemma removeChannel_find:
  "map_of (cm_channels (removeChannel k cm)) = (map_of (cm_channels cm))(k := None)"
  "map_of (cm_sendChannels (removeChannel k cm)) = (map_of (cm_sendChannels cm))(k := None)"
  "map_of (cm_receiveChannels (removeChannel k cm)) = (map_of (cm_receiveChannels cm))(k := None)"
  by (simp_all add: removeChannel_def)

lemma channel_map_inv_remove:
  "channel_map_inv cm \<Longrightarrow> channel_map_inv (removeChannel k cm)"
  unfolding channel_map_inv_def removeChannel_find by (simp add: removeChannel_def)

lemma channel_map_inv_remove_all:
  "channel_map_inv cm \<Longrightarrow> channel_map_inv (foldl (\<lambda>cm k. removeChannel k cm) cm ids)"
  by (induction ids arbitrary: cm) (simp_all add: channel_map_inv_remove)

lemma cm_channels_remove_all:
  "cm_channels (foldl (\<lambda>cm k. removeChannel k cm) cm ids) = filter (\<lambda>e. fst e \<notin> set ids) (cm_channels cm)"
  by (induction ids arbitrary: cm) (auto simp: removeChannel_def om_erase_def intro: filter_cong)

lemma reset_loop_result:
  "reset_loop cleanup es =
     (map (\<lambda>(k, p). Call_reset p) (concat (map (\<lambda>(k, p). case p of None \<Rightarrow> [] | Some c \<Rightarrow> [(k, c)]) es)),
      map fst (filter (\<lambda>(k, p). case p of None \<Rightarrow> False | Some c \<Rightarrow> cleanup c) es))"
  by (induction cleanup es rule: reset_loop.induct) auto

lemma openAll_loop_live:
  "openAll_loop es = map (\<lambda>(k, p). Call_open p)
      (concat (map (\<lambda>(k, p). case p of None \<Rightarrow> [] | Some c \<Rightarrow> [(k, c)]) es))"
  by (induction es rule: openAll_loop.induct) auto

lemma openAll_live: "openAll cm = map (\<lambda>(k, p). Call_open p) (live_channels cm)"
  by (simp add: openAll_def live_channels_def openAll_loop_live)

lemma host_health_loop_filter:
  "host_health_loop call aware respect es =
     map (\<lambda>(k, p). call p) (filter (\<lambda>(k, p). \<not> respect \<or> aware p) es)"
  by (induction call aware respect es rule: host_health_loop.induct) simp_all

text \<open>In a sorted map the entries to clean up are found by their ids alone.\<close>

lemma cleanup_by_id:
  assumes "om_inv es" and "(k, p) \<in> set es"
  shows "k \<in> set (map fst (filter Q es)) \<longleftrightarrow> Q (k, p)"
proof -
  have "p' = p" if "(k, p') \<in> set es" for p'
    using om_inv_map_of_SomeI [OF assms(1)] that assms(2) by (metis option.inject)
  then have "Q (k, p)" if "k \<in> set (map fst (filter Q es))"
    using that by auto
  then show ?thesis
    using assms(2) by force
qed

lemma live_filter:
  assumes "\<forall>(k, p) \<in> set es. (k \<in> K) = (case p of None \<Rightarrow> False | Some c \<Rightarrow> cleanup c)"
  shows "concat (map (\<lambda>(k, p). case p of None \<Rightarrow> [] | Some c \<Rightarrow> [(k, c)]) (filter (\<lambda>e. fst e \<notin> K) es)) =
     filter (\<lambda>(k, c). \<not> cleanup c) (concat (map (\<lambda>(k, p). case p of None \<Rightarrow> [] | Some c \<Rightarrow> [(k, c)]) es))"
  using assms
proof (induction es)
  case (Cons e es)
  then show ?case
    by (cases e; cases "snd e") auto
qed simp

lemma resetAll_result:
  assumes "channel_map_inv cm" and "resetAll cleanup cm = (calls, cm')"
  shows "calls = map (\<lambda>(k, p). Call_reset p) (live_channels cm)"
    and "live_channels cm' = filter (\<lambda>(k, p). \<not> cleanup p) (live_channels cm)"
    and "channel_map_inv cm'"
proof -
  let ?Q = "\<lambda>(k, p). case p of None \<Rightarrow> False | Some c \<Rightarrow> cleanup c"
  let ?ids = "map fst (filter ?Q (cm_channels cm))"
  have r: "calls = map (\<lambda>(k, p). Call_reset p) (live_channels cm)"
      "cm' = foldl (\<lambda>cm k. removeChannel k cm) cm ?ids"
    using assms(2) by (simp_all add: resetAll_def reset_loop_result live_channels_def)
  have om: "om_inv (cm_channels cm)"
    using assms(1) by (simp add: channel_map_inv_def)
  have "\<forall>(k, p) \<in> set (cm_channels cm). (k \<in> set ?ids) = (case p of None \<Rightarrow> False | Some c \<Rightarrow> cleanup c)"
    using cleanup_by_id [OF om, of _ _ ?Q] by blast
  from live_filter [OF this]
  show "live_channels cm' = filter (\<lambda>(k, p). \<not> cleanup p) (live_channels cm)"
    by (simp only: r(2) live_channels_def cm_channels_remove_all)
  show "calls = map (\<lambda>(k, p). Call_reset p) (live_channels cm)"
    by (fact r(1))
  show "channel_map_inv cm'"
    unfolding r(2) by (rule channel_map_inv_remove_all [OF assms(1)])
qed

lemma channel_map_inv_associate:
  assumes "channel_map_inv cm" and "map_of (cm_channels cm) k = Some None"
  shows "channel_map_inv (associateSend k p cm)" and "channel_map_inv (associateReceive k p cm)"
  using assms by (auto simp: channel_map_inv_def associateSend_def associateReceive_def)

lemma channel_map_inv_assign:
  assumes "channel_map_inv cm" and "fst (assignId cm) \<notin> used cm"
  shows "channel_map_inv (snd (assignId cm))"
proof -
  let ?l = "assign_loop 1 (cm_channels cm)"
  have "map_of (cm_channels cm) ?l = None"
    using assms(2) by (simp add: assignId_def used_def Let_def map_of_None_fresh)
  then have "map_of (cm_sendChannels cm) ?l = None" "map_of (cm_receiveChannels cm) ?l = None"
    using assms(1) unfolding channel_map_inv_def by (metis not_Some_eq option.distinct(1))+
  then show ?thesis
    using assms(1) by (auto simp: channel_map_inv_def assignId_def Let_def)
qed

section \<open>Properties\<close>

text \<open>Channel ids. \<open>assignId\<close> returns the lowest id from 1 on that is not in use and marks it as used.
  Only when all 65535 ids are in use does the 16-bit counter wrap around, and then it returns 0, the id
  of the connection itself.\<close>

theorem assignId_lowest_free:
  assumes "channel_map_inv cm" and "0 \<notin> used cm" and "assignId cm = (l, cm')"
  shows "(l \<noteq> 0 \<longrightarrow> l \<notin> used cm \<and> (\<forall>k. 1 \<le> k \<longrightarrow> k < l \<longrightarrow> k \<in> used cm)) \<and>
     (l = 0 \<longleftrightarrow> (\<forall>k. k \<noteq> 0 \<longrightarrow> k \<in> used cm)) \<and>
     used cm' = insert l (used cm) \<and> map_of (cm_channels cm') l = Some None"
proof -
  have one: "1 \<le> k \<longleftrightarrow> k \<noteq> 0" for k :: u16
    by (simp add: word_le_nat_alt Suc_le_eq unat_gt_0)
  have om: "om_inv (cm_channels cm)"
    using assms(1) by (simp add: channel_map_inv_def)
  have "\<forall>k \<in> fst ` set (cm_channels cm). 1 \<le> k"
    using assms(2) one by (auto simp: used_def)
  note low = assign_loop_lowest [OF om this, simplified, folded used_def, unfolded Let_def]
  have l: "assign_loop 1 (cm_channels cm) = l" "cm' = cm\<lparr>cm_channels := om_put l None (cm_channels cm)\<rparr>"
    using assms(3) by (auto simp: assignId_def Let_def)
  have "used cm' = insert l (used cm) \<and> map_of (cm_channels cm') l = Some None"
    using om by (simp add: l(2) used_def)
  then show ?thesis
    using low [unfolded l(1)] one by blast
qed

theorem assignId_lowest_free_witness:
  "assignId \<lparr>cm_channels = [(1, None), (2, Some ()), (4, None)], cm_sendChannels = [(2, ())],
      cm_receiveChannels = []\<rparr> =
     (3, \<lparr>cm_channels = [(1, None), (2, Some ()), (3, None), (4, None)], cm_sendChannels = [(2, ())],
      cm_receiveChannels = []\<rparr>) \<and>
   (3 :: u16) \<notin> used \<lparr>cm_channels = [(1, None), (2, Some ()), (4, None)], cm_sendChannels = [(2, ())],
      cm_receiveChannels = []\<rparr>"
proof -
  let ?cm = "\<lparr>cm_channels = [(1 :: u16, None), (2, Some ()), (4, None)], cm_sendChannels = [(2, ())],
      cm_receiveChannels = []\<rparr>"
  have id: "assignId ?cm = (3, ?cm\<lparr>cm_channels := [(1, None), (2, Some ()), (3, None), (4, None)]\<rparr>)"
    by (simp add: assignId_def Let_def)
  have "channel_map_inv ?cm" "0 \<notin> used ?cm"
    by (auto simp: channel_map_inv_def used_def)
  from assignId_lowest_free [OF this id] id show ?thesis
    by simp
qed

text \<open>The typed maps and the common map of channels agree, and no operation breaks this: assigning a
  fresh id, associating a channel with an id that was assigned and is still empty, removing a channel,
  dispatching a message and resetting all channels.\<close>

theorem channel_map_invariant:
  fixes cm :: "'p channel_map"
  assumes "channel_map_inv cm"
  shows "channel_map_inv (ChannelMap_new :: 'p channel_map) \<and>
     (fst (assignId cm) \<notin> used cm \<longrightarrow> channel_map_inv (snd (assignId cm))) \<and>
     (map_of (cm_channels cm) k = Some None \<longrightarrow>
        channel_map_inv (associateSend k p cm) \<and> channel_map_inv (associateReceive k p cm)) \<and>
     channel_map_inv (removeChannel k cm) \<and>
     channel_map_inv (snd (resetAll cleanup cm)) \<and>
     channel_map_inv (snd (snd (processReceived cleanup' k m cm)))"
proof (intro conjI impI)
  show "channel_map_inv (snd (resetAll cleanup cm))"
    using resetAll_result(3) [OF assms] by (metis prod.collapse)
  show "channel_map_inv (snd (snd (processReceived cleanup' k m cm)))"
    using assms channel_map_inv_remove [OF assms] by (auto simp: processReceived_def split: option.splits)
  show "channel_map_inv (ChannelMap_new :: 'p channel_map)"
    by (simp add: channel_map_inv_def ChannelMap_new_def)
qed (use assms in \<open>auto intro: channel_map_inv_assign channel_map_inv_associate channel_map_inv_remove\<close>)

theorem channel_map_invariant_witness:
  "channel_map_inv (removeChannel 3 (ChannelMap_new :: unit channel_map))"
proof -
  have "channel_map_inv (ChannelMap_new :: unit channel_map)"
    by (simp add: channel_map_inv_def ChannelMap_new_def)
  from channel_map_invariant [OF this, of 3 "()" "\<lambda>_. False" "\<lambda>_ _. False" "()"] show ?thesis
    by blast
qed

text \<open>Every live channel, and nothing else, is reached. After a disconnect each one is reset exactly
  once, in id order, and exactly those that ask for it are removed; on reconnect each remaining one is
  opened exactly once. Pausing and resuming reach exactly the receive channels concerned: all of them, or
  with \<open>respectHostHealth\<close> those that consume only from a healthy host.\<close>

theorem channel_map_broadcast:
  assumes "channel_map_inv cm" and "resetAll cleanup cm = (calls, cm')"
  shows "calls = map (\<lambda>(k, p). Call_reset p) (live_channels cm) \<and>
     live_channels cm' = filter (\<lambda>(k, p). \<not> cleanup p) (live_channels cm) \<and>
     openAll cm' = map (\<lambda>(k, p). Call_open p) (filter (\<lambda>(k, p). \<not> cleanup p) (live_channels cm)) \<and>
     pauseReceiveChannels aware respect cm =
       map (\<lambda>(k, p). Call_pause p) (filter (\<lambda>(k, p). \<not> respect \<or> aware p) (cm_receiveChannels cm)) \<and>
     resumeReceiveChannels aware respect cm =
       map (\<lambda>(k, p). Call_resume p) (filter (\<lambda>(k, p). \<not> respect \<or> aware p) (cm_receiveChannels cm))"
  using resetAll_result [OF assms]
  by (simp add: openAll_live pauseReceiveChannels_def resumeReceiveChannels_def host_health_loop_filter)

theorem channel_map_broadcast_witness:
  "fst (resetAll (\<lambda>p. p = ''b'') (associateSend 1 ''a'' ChannelMap_new)) = [Call_reset ''a'']"
proof -
  let ?cm = "associateSend 1 ''a'' ChannelMap_new"
  have "channel_map_inv ?cm"
    by (auto simp: channel_map_inv_def associateSend_def ChannelMap_new_def)
  from channel_map_broadcast [OF this prod.collapse [symmetric], THEN conjunct1, of "\<lambda>p. p = ''b''"]
  show ?thesis
    by (simp add: live_channels_def associateSend_def ChannelMap_new_def)
qed

text \<open>Dispatch. A received message goes to the channel with its id and to no other; without such a
  channel (unknown id, or an id that is assigned but not yet associated) nothing is called and the caller is
  told. When the channel asks to be cleaned up its id becomes free; the other channels are untouched.\<close>

theorem channel_map_dispatch:
  assumes "processReceived cleanup k m cm = (found, calls, cm')"
  shows "(found \<longleftrightarrow> (\<exists>p. map_of (cm_channels cm) k = Some (Some p))) \<and>
     (\<forall>p. map_of (cm_channels cm) k = Some (Some p) \<longrightarrow> calls = [Call_processReceived p m] \<and>
        (cleanup p m \<longrightarrow> used cm' = used cm - {k}) \<and> (\<not> cleanup p m \<longrightarrow> cm' = cm)) \<and>
     (\<not> found \<longrightarrow> calls = [] \<and> cm' = cm) \<and>
     (\<forall>k'. k' \<noteq> k \<longrightarrow> map_of (cm_channels cm') k' = map_of (cm_channels cm) k')"
proof -
  have "used (removeChannel k cm) = used cm - {k}"
    by (simp add: used_def removeChannel_def)
  note rm = this removeChannel_find(1) [of k cm]
  consider (null) "map_of (cm_channels cm) k = None \<or> map_of (cm_channels cm) k = Some None"
    | (live) p where "map_of (cm_channels cm) k = Some (Some p)"
    by (cases "map_of (cm_channels cm) k"; cases "the (map_of (cm_channels cm) k)") auto
  then show ?thesis
  proof cases
    case null
    then show ?thesis
      using assms by (elim disjE) (simp_all add: processReceived_def)
  next
    case live
    then have "found" "calls = [Call_processReceived p m]"
        "cm' = (if cleanup p m then removeChannel k cm else cm)"
      using assms by (simp_all add: processReceived_def)
    then show ?thesis
      using live rm by simp
  qed
qed

theorem channel_map_dispatch_witness:
  "processReceived (\<lambda>p m. True) 1 ''msg'' (associateSend 1 ''a'' ChannelMap_new) =
     (True, [Call_processReceived ''a'' ''msg''], ChannelMap_new) \<and>
   used (ChannelMap_new :: string channel_map) = used (associateSend 1 ''a'' ChannelMap_new) - {1}"
proof -
  have p: "processReceived (\<lambda>p m. True) 1 ''msg'' (associateSend 1 ''a'' ChannelMap_new) =
      (True, [Call_processReceived ''a'' ''msg''], ChannelMap_new)"
    by (simp add: processReceived_def removeChannel_def associateSend_def ChannelMap_new_def om_erase_def)
  have "map_of (cm_channels (associateSend 1 ''a'' ChannelMap_new)) 1 = Some (Some ''a'')"
    by (simp add: associateSend_def ChannelMap_new_def)
  then have "used (ChannelMap_new :: string channel_map) = used (associateSend 1 ''a'' ChannelMap_new) - {1}"
    using channel_map_dispatch [OF p, THEN conjunct2, THEN conjunct1, THEN spec, of "''a''"] by simp
  with p show ?thesis ..
qed

end
