(* ===== verification/Retry.thy ===== *)
theory Retry
  imports Prelude
begin

text \<open>
  Reconnection: \<open>rmqio::BackoffLevelRetryStrategy\<close>, which decides how long to wait before the next attempt,
  \<open>rmqio::RetryHandler\<close>, which waits and retries, and \<open>rmqio::ConnectionRetryHandler\<close>, which tells the
  application when the broker has been out of reach for too long.

  A \<open>bsls::TimeInterval\<close> is its number of nanoseconds, an integer; the clock is an argument. The
  configuration and the retry counter are 32-bit unsigned integers with wrap-around.
\<close>

type_synonym time_interval = int

definition ns_per_s :: int where "ns_per_s = 1000000000"

definition ti_seconds :: "time_interval \<Rightarrow> int" where
  "ti_seconds t = t div ns_per_s"

definition addSeconds :: "time_interval \<Rightarrow> int \<Rightarrow> time_interval" where
  "addSeconds t n = t + n * ns_per_s"

definition setTotalSeconds :: "int \<Rightarrow> time_interval" where
  "setTotalSeconds n = n * ns_per_s"

datatype backoff_level = IMMEDIATE | CONSTANT | LINEAR | EXPONENTIAL

record retry_strategy =
  rs_level :: backoff_level
  rs_continuousRetries :: u32
  rs_minWaitSeconds :: u32
  rs_maxWaitSeconds :: u32
  rs_numRetries :: u32
  rs_currentWait :: time_interval
  rs_lastRetry :: time_interval

definition RetryStrategy_new :: "u32 \<Rightarrow> u32 \<Rightarrow> u32 \<Rightarrow> retry_strategy" where
  "RetryStrategy_new continuousRetries minWaitSeconds maxWaitSeconds =
     \<lparr>rs_level = IMMEDIATE, rs_continuousRetries = continuousRetries,
      rs_minWaitSeconds = minWaitSeconds, rs_maxWaitSeconds = maxWaitSeconds,
      rs_numRetries = 0, rs_currentWait = 0, rs_lastRetry = 0\<rparr>"

definition attempt :: "time_interval \<Rightarrow> retry_strategy \<Rightarrow> retry_strategy" where
  "attempt now s =
     s\<lparr>rs_numRetries := (if rs_lastRetry s \<noteq> 0 \<and> rs_numRetries s < - 1
                         then rs_numRetries s + 1 else rs_numRetries s),
       rs_lastRetry := now\<rparr>"

fun next_level :: "bool \<Rightarrow> backoff_level \<Rightarrow> backoff_level" where
  "next_level True IMMEDIATE = CONSTANT"
| "next_level True CONSTANT = LINEAR"
| "next_level True LINEAR = EXPONENTIAL"
| "next_level True EXPONENTIAL = EXPONENTIAL"
| "next_level False IMMEDIATE = IMMEDIATE"
| "next_level False CONSTANT = IMMEDIATE"
| "next_level False LINEAR = CONSTANT"
| "next_level False EXPONENTIAL = LINEAR"

definition moveCircuitBreaker :: "bool \<Rightarrow> retry_strategy \<Rightarrow> retry_strategy" where
  "moveCircuitBreaker toward_exponential s =
     s\<lparr>rs_level := next_level toward_exponential (rs_level s), rs_numRetries := 0\<rparr>"

definition strategy_success :: "retry_strategy \<Rightarrow> retry_strategy" where
  "strategy_success s = moveCircuitBreaker False (s\<lparr>rs_currentWait := setTotalSeconds 0\<rparr>)"

definition strategy_fail :: "retry_strategy \<Rightarrow> retry_strategy" where
  "strategy_fail s =
     (if rs_numRetries s \<ge> rs_continuousRetries s then moveCircuitBreaker True s else s)"

definition level_wait :: "retry_strategy \<Rightarrow> time_interval" where
  "level_wait s =
     (case rs_level s of
        IMMEDIATE \<Rightarrow> rs_currentWait s
      | CONSTANT \<Rightarrow> setTotalSeconds (uint (rs_minWaitSeconds s))
      | LINEAR \<Rightarrow> addSeconds (rs_currentWait s) (uint (rs_minWaitSeconds s))
      | EXPONENTIAL \<Rightarrow> rs_currentWait s + rs_currentWait s)"

definition calculateNextInterval :: "retry_strategy \<Rightarrow> retry_strategy" where
  "calculateNextInterval s =
     (let wait = level_wait s in
      s\<lparr>rs_currentWait :=
          (if ti_seconds wait > uint (rs_maxWaitSeconds s)
           then setTotalSeconds (uint (rs_maxWaitSeconds s)) else wait)\<rparr>)"

definition thresholdRetryTime :: "retry_strategy \<Rightarrow> time_interval" where
  "thresholdRetryTime s =
     addSeconds (rs_lastRetry s)
       (uint (max (rs_minWaitSeconds s)
         (min (rs_minWaitSeconds s * rs_continuousRetries s)
              (word_of_int (ti_seconds (rs_currentWait s))))))"

definition getNextRetryInterval :: "time_interval \<Rightarrow> retry_strategy \<Rightarrow> time_interval \<times> retry_strategy" where
  "getNextRetryInterval now s =
     (let s' = (if rs_lastRetry s \<noteq> 0
                then calculateNextInterval
                       (if now > thresholdRetryTime s then strategy_success s else strategy_fail s)
                else s) in
      (rs_currentWait s', s'))"

section \<open>The handlers\<close>

text \<open>\<open>'cb\<close> is the type of retry callbacks; the timer holds the interval it was last reset to.\<close>

record 'cb retry_handler =
  rh_strategy :: retry_strategy
  rh_timer :: "time_interval option"
  rh_callback :: "'cb option"
  rh_errorThreshold :: time_interval
  rh_errorSince :: "time_interval option"

definition RetryHandler_new :: "retry_strategy \<Rightarrow> time_interval \<Rightarrow> 'cb retry_handler" where
  "RetryHandler_new strategy threshold =
     \<lparr>rh_strategy = strategy, rh_timer = None, rh_callback = None, rh_errorThreshold = threshold,
      rh_errorSince = None\<rparr>"

definition scheduleRetry :: "time_interval \<Rightarrow> 'cb retry_handler \<Rightarrow> 'cb retry_handler" where
  "scheduleRetry now h =
     (case getNextRetryInterval now (rh_strategy h) of (wait, s) \<Rightarrow>
        h\<lparr>rh_strategy := s, rh_timer := Some wait\<rparr>)"

definition handler_retry :: "time_interval \<Rightarrow> 'cb \<Rightarrow> 'cb retry_handler \<Rightarrow> 'cb retry_handler" where
  "handler_retry now onRetry h = scheduleRetry now (h\<lparr>rh_callback := Some onRetry\<rparr>)"

text \<open>The expired timer makes the attempt and calls back; the result is the callback that is run.\<close>

definition handleRetry ::
  "interrupt_reason \<Rightarrow> time_interval \<Rightarrow> 'cb retry_handler \<Rightarrow> 'cb option \<times> 'cb retry_handler" where
  "handleRetry reason now h =
     (if reason = CANCEL then (None, h)
      else (rh_callback h, h\<lparr>rh_strategy := attempt now (rh_strategy h)\<rparr>))"

text \<open>The error callback is called with the time since the first failure.\<close>

definition evaluateErrorThreshold ::
  "time_interval \<Rightarrow> 'cb retry_handler \<Rightarrow> time_interval option \<times> 'cb retry_handler" where
  "evaluateErrorThreshold now h =
     (case rh_errorSince h of
        None \<Rightarrow> (None, h\<lparr>rh_errorSince := Some now\<rparr>)
      | Some since \<Rightarrow>
          (let diff = now - since in
           if diff > rh_errorThreshold h then (Some diff, h) else (None, h)))"

definition connection_retry ::
  "time_interval \<Rightarrow> 'cb \<Rightarrow> 'cb retry_handler \<Rightarrow> time_interval option \<times> 'cb retry_handler" where
  "connection_retry now onRetry h = evaluateErrorThreshold now (handler_retry now onRetry h)"

definition connection_success :: "'cb retry_handler \<Rightarrow> 'cb retry_handler" where
  "connection_success h =
     h\<lparr>rh_strategy := strategy_success (rh_strategy h), rh_errorSince := None\<rparr>"

text \<open>What happens to a handler.\<close>

datatype 'cb retry_input = Retry_at time_interval 'cb | Timer_at interrupt_reason time_interval | Connected

fun retry_step ::
  "'cb retry_input \<Rightarrow> 'cb retry_handler \<Rightarrow> time_interval option \<times> 'cb retry_handler" where
  "retry_step (Retry_at now cb) h = connection_retry now cb h"
| "retry_step (Timer_at reason now) h = (None, snd (handleRetry reason now h))"
| "retry_step Connected h = (None, connection_success h)"

text \<open>The run of a list of inputs: the final handler and the errors reported, each with the time.\<close>

fun retry_run ::
  "'cb retry_input list \<Rightarrow> 'cb retry_handler \<Rightarrow> time_interval option list \<times> 'cb retry_handler" where
  "retry_run [] h = ([], h)"
| "retry_run (i # is) h =
     (case retry_step i h of (e, h') \<Rightarrow> (case retry_run is h' of (es, h'') \<Rightarrow> (e # es, h'')))"

text \<open>The time of the first retry after the last success.\<close>

fun failing_since :: "time_interval option \<Rightarrow> 'cb retry_input list \<Rightarrow> time_interval option" where
  "failing_since since [] = since"
| "failing_since since (Retry_at now cb # is) =
     failing_since (case since of None \<Rightarrow> Some now | Some t \<Rightarrow> Some t) is"
| "failing_since since (Timer_at r now # is) = failing_since since is"
| "failing_since since (Connected # is) = failing_since None is"

text \<open>Waits are whole seconds between 0 and the maximum; without back-off there is no wait, and at the
  constant level it is the minimal wait or, just after a success, nothing.\<close>

definition strategy_inv :: "retry_strategy \<Rightarrow> bool" where
  "strategy_inv s \<longleftrightarrow>
     (\<exists>n. 0 \<le> n \<and> n \<le> uint (rs_maxWaitSeconds s) \<and> rs_currentWait s = n * ns_per_s \<and>
        (rs_level s = IMMEDIATE \<longrightarrow> n = 0) \<and>
        (rs_level s = CONSTANT \<longrightarrow> n = 0 \<or> n = min (uint (rs_minWaitSeconds s)) (uint (rs_maxWaitSeconds s))))"

section \<open>The invariant of the strategy\<close>

lemma ns_per_s_pos [simp]: "0 < ns_per_s"
  by (simp add: ns_per_s_def)

lemma ns_per_s_nonneg: "0 \<le> ns_per_s"
  by (simp add: ns_per_s_def)

lemma strategy_inv_new: "strategy_inv (RetryStrategy_new c mn mx)"
  by (simp add: strategy_inv_def RetryStrategy_new_def)

lemma strategy_inv_attempt: "strategy_inv s \<Longrightarrow> strategy_inv (attempt now s)"
  by (simp add: strategy_inv_def attempt_def)

lemma strategy_inv_success: "strategy_inv s \<Longrightarrow> strategy_inv (strategy_success s)"
  by (auto simp: strategy_inv_def strategy_success_def moveCircuitBreaker_def setTotalSeconds_def)

text \<open>Between a failure and the new wait the level may already be higher than the wait.\<close>

definition wait_ok :: "retry_strategy \<Rightarrow> bool" where
  "wait_ok s \<longleftrightarrow>
     (\<exists>n. 0 \<le> n \<and> n \<le> uint (rs_maxWaitSeconds s) \<and> rs_currentWait s = n * ns_per_s \<and>
        (rs_level s = IMMEDIATE \<longrightarrow> n = 0))"

lemma wait_ok_fail: "strategy_inv s \<Longrightarrow> wait_ok (strategy_fail s)"
  by (cases "rs_level s") (auto simp: strategy_inv_def wait_ok_def strategy_fail_def moveCircuitBreaker_def)

lemma wait_ok_success: "strategy_inv s \<Longrightarrow> wait_ok (strategy_success s)"
  using strategy_inv_success [of s] by (auto simp: strategy_inv_def wait_ok_def)

lemma calculate_seconds:
  assumes "wait_ok s" and "rs_currentWait s = n * ns_per_s"
  shows "rs_currentWait (calculateNextInterval s) =
     min (uint (rs_maxWaitSeconds s))
       (case rs_level s of IMMEDIATE \<Rightarrow> 0 | CONSTANT \<Rightarrow> uint (rs_minWaitSeconds s)
        | LINEAR \<Rightarrow> n + uint (rs_minWaitSeconds s) | EXPONENTIAL \<Rightarrow> 2 * n) * ns_per_s"
proof -
  obtain k where k: "0 \<le> k" "k \<le> uint (rs_maxWaitSeconds s)" "rs_currentWait s = k * ns_per_s"
      "rs_level s = IMMEDIATE \<longrightarrow> k = 0"
    using assms(1) by (auto simp: wait_ok_def)
  then have "k = n"
    using assms(2) ns_per_s_pos by simp
  then show ?thesis
    using k
    by (cases "rs_level s")
       (auto simp: calculateNextInterval_def Let_def level_wait_def addSeconds_def setTotalSeconds_def
         ti_seconds_def min_def algebra_simps simp flip: distrib_left distrib_right)
qed

lemma strategy_inv_calculate: "wait_ok s \<Longrightarrow> strategy_inv (calculateNextInterval s)"
proof -
  assume ok: "wait_ok s"
  then obtain n where n: "0 \<le> n" "rs_currentWait s = n * ns_per_s"
    by (auto simp: wait_ok_def)
  let ?k = "min (uint (rs_maxWaitSeconds s))
       (case rs_level s of IMMEDIATE \<Rightarrow> 0 | CONSTANT \<Rightarrow> uint (rs_minWaitSeconds s)
        | LINEAR \<Rightarrow> n + uint (rs_minWaitSeconds s) | EXPONENTIAL \<Rightarrow> 2 * n)"
  have "0 \<le> ?k"
    using n(1) by (cases "rs_level s") simp_all
  moreover have "rs_level (calculateNextInterval s) = rs_level s"
      "rs_maxWaitSeconds (calculateNextInterval s) = rs_maxWaitSeconds s"
      "rs_minWaitSeconds (calculateNextInterval s) = rs_minWaitSeconds s"
    by (simp_all add: calculateNextInterval_def Let_def)
  ultimately show ?thesis
    unfolding strategy_inv_def
    by (intro exI [of _ ?k]) (auto simp: calculate_seconds [OF ok n(2)] min.commute)
qed

lemma strategy_inv_next: "strategy_inv s \<Longrightarrow> strategy_inv (snd (getNextRetryInterval now s))"
  by (auto simp: getNextRetryInterval_def Let_def intro: strategy_inv_calculate wait_ok_fail wait_ok_success)

lemma fail_keeps [simp]:
  "rs_currentWait (strategy_fail s) = rs_currentWait s"
  "rs_minWaitSeconds (strategy_fail s) = rs_minWaitSeconds s"
  "rs_maxWaitSeconds (strategy_fail s) = rs_maxWaitSeconds s"
  by (simp_all add: strategy_fail_def moveCircuitBreaker_def)

lemma next_config [simp]:
  "rs_maxWaitSeconds (snd (getNextRetryInterval now s)) = rs_maxWaitSeconds s"
  by (simp add: getNextRetryInterval_def Let_def calculateNextInterval_def strategy_success_def
      moveCircuitBreaker_def)

lemma strategy_inv_bounds:
  "strategy_inv s \<Longrightarrow> 0 \<le> rs_currentWait s \<and> rs_currentWait s \<le> uint (rs_maxWaitSeconds s) * ns_per_s"
proof -
  assume "strategy_inv s"
  then obtain n where "0 \<le> n" "n \<le> uint (rs_maxWaitSeconds s)" "rs_currentWait s = n * ns_per_s"
    by (auto simp: strategy_inv_def)
  then show ?thesis
    using mult_right_mono [of n "uint (rs_maxWaitSeconds s)" ns_per_s]
      mult_nonneg_nonneg [of n ns_per_s] ns_per_s_nonneg by simp
qed

lemma fail_monotone:
  assumes "strategy_inv s"
  shows "rs_currentWait s \<le> rs_currentWait (calculateNextInterval (strategy_fail s))"
proof -
  obtain n where n: "0 \<le> n" "n \<le> uint (rs_maxWaitSeconds s)" "rs_currentWait s = n * ns_per_s"
      "rs_level s = IMMEDIATE \<longrightarrow> n = 0"
      "rs_level s = CONSTANT \<longrightarrow> n = 0 \<or> n = min (uint (rs_minWaitSeconds s)) (uint (rs_maxWaitSeconds s))"
    using assms by (auto simp: strategy_inv_def)
  have level: "rs_level (strategy_fail s) = rs_level s \<or>
      rs_level (strategy_fail s) = next_level True (rs_level s)"
    by (auto simp: strategy_fail_def moveCircuitBreaker_def)
  have "n \<le> min (uint (rs_maxWaitSeconds s))
      (case rs_level (strategy_fail s) of IMMEDIATE \<Rightarrow> 0 | CONSTANT \<Rightarrow> uint (rs_minWaitSeconds s)
       | LINEAR \<Rightarrow> n + uint (rs_minWaitSeconds s) | EXPONENTIAL \<Rightarrow> 2 * n)"
    using n level by (cases "rs_level s") auto
  then show ?thesis
    using calculate_seconds [OF wait_ok_fail [OF assms], of n, unfolded fail_keeps] n(3) by simp
qed

text \<open>\<open>n\<close> quick failures in a row.\<close>

lemma exponential_fail:
  assumes "strategy_inv s" and "rs_level s = EXPONENTIAL" and "rs_currentWait s = w * ns_per_s"
  shows "rs_currentWait (calculateNextInterval (strategy_fail s)) =
       min (uint (rs_maxWaitSeconds s)) (2 * w) * ns_per_s"
    and "rs_level (calculateNextInterval (strategy_fail s)) = EXPONENTIAL"
proof -
  have level: "rs_level (strategy_fail s) = EXPONENTIAL"
    using assms(2) by (simp add: strategy_fail_def moveCircuitBreaker_def)
  show "rs_currentWait (calculateNextInterval (strategy_fail s)) =
      min (uint (rs_maxWaitSeconds s)) (2 * w) * ns_per_s"
    using calculate_seconds [OF wait_ok_fail [OF assms(1)], of w] assms(3) level by simp
  show "rs_level (calculateNextInterval (strategy_fail s)) = EXPONENTIAL"
    using level by (simp add: calculateNextInterval_def Let_def)
qed

lemma exponential_backoff_iter:
  assumes "strategy_inv s" and "rs_level s = EXPONENTIAL" and "rs_currentWait s = w * ns_per_s"
    and "0 \<le> w" and "w \<le> uint (rs_maxWaitSeconds s)"
  shows "strategy_inv (((\<lambda>s. calculateNextInterval (strategy_fail s)) ^^ n) s) \<and>
     rs_level (((\<lambda>s. calculateNextInterval (strategy_fail s)) ^^ n) s) = EXPONENTIAL \<and>
     rs_maxWaitSeconds (((\<lambda>s. calculateNextInterval (strategy_fail s)) ^^ n) s) = rs_maxWaitSeconds s \<and>
     rs_currentWait (((\<lambda>s. calculateNextInterval (strategy_fail s)) ^^ n) s) =
       min (uint (rs_maxWaitSeconds s)) (2 ^ n * w) * ns_per_s"
proof (induction n)
  case 0
  then show ?case using assms by simp
next
  case (Suc n)
  let ?s = "((\<lambda>s. calculateNextInterval (strategy_fail s)) ^^ n) s"
  have "min M (2 * min M x) = min M (2 * x)" if "0 \<le> M" "0 \<le> x" for M x :: int
    using that by (auto simp: min_def)
  then have "min (uint (rs_maxWaitSeconds s)) (2 * min (uint (rs_maxWaitSeconds s)) (2 ^ n * w)) =
      min (uint (rs_maxWaitSeconds s)) (2 * (2 ^ n * w))"
    using assms(4) by simp
  moreover have "rs_maxWaitSeconds (calculateNextInterval (strategy_fail ?s)) = rs_maxWaitSeconds ?s"
    by (simp add: calculateNextInterval_def Let_def)
  ultimately show ?case
    using Suc exponential_fail [of ?s "min (uint (rs_maxWaitSeconds s)) (2 ^ n * w)"]
      strategy_inv_calculate [OF wait_ok_fail [of ?s]]
    by (simp add: mult.assoc)
qed

section \<open>The handlers\<close>

lemma errorSince_run:
  "retry_run is h = (es, h') \<Longrightarrow>
     rh_errorSince h' = failing_since (rh_errorSince h) is \<and> rh_errorThreshold h' = rh_errorThreshold h"
proof (induction "is" arbitrary: h es)
  case (Cons i "is")
  obtain e h1 es1 where s: "retry_step i h = (e, h1)" "retry_run is h1 = (es1, h')"
    using Cons.prems by (auto split: prod.splits)
  show ?case
    using Cons.IH [OF s(2)] s(1)
    by (cases i) (auto simp: connection_retry_def evaluateErrorThreshold_def handler_retry_def
        scheduleRetry_def handleRetry_def connection_success_def Let_def
        split: option.splits prod.splits if_splits)
qed simp

lemma strategy_inv_retry_step:
  "strategy_inv (rh_strategy h) \<Longrightarrow> strategy_inv (rh_strategy (snd (retry_step i h)))"
  using strategy_inv_next [of "rh_strategy h"]
  by (cases i) (auto simp: connection_retry_def evaluateErrorThreshold_def handler_retry_def
      scheduleRetry_def handleRetry_def connection_success_def Let_def strategy_inv_success
      strategy_inv_attempt case_prod_beta split: option.splits)

section \<open>Properties\<close>

text \<open>Bounded, monotone back-off. In every state reached by attempts, successes and failures the wait
  before the next attempt is between zero and the configured maximum; and while attempts keep failing
  quickly (the strategy decides this by the time since the last attempt) the wait never gets shorter.\<close>

theorem backoff_bounded_monotone:
  assumes "strategy_inv s" and "getNextRetryInterval now s = (wait, s')"
  shows "0 \<le> wait \<and> wait \<le> uint (rs_maxWaitSeconds s) * ns_per_s \<and>
     (now \<le> thresholdRetryTime s \<longrightarrow> rs_currentWait s \<le> wait) \<and>
     strategy_inv s' \<and> strategy_inv (attempt now s) \<and> strategy_inv (strategy_success s) \<and>
     strategy_inv (RetryStrategy_new c mn mx)"
proof -
  have w: "wait = rs_currentWait s'" "s' = snd (getNextRetryInterval now s)"
    using assms(2) by (auto simp: getNextRetryInterval_def Let_def)
  have inv: "strategy_inv s'"
    using strategy_inv_next [OF assms(1)] w(2) by simp
  have "now \<le> thresholdRetryTime s \<longrightarrow> rs_currentWait s \<le> rs_currentWait s'"
    using fail_monotone [OF assms(1)] w(2) by (auto simp: getNextRetryInterval_def Let_def)
  then show ?thesis
    using strategy_inv_bounds [OF inv] inv w assms(1)
    by (simp add: strategy_inv_new strategy_inv_attempt strategy_inv_success)
qed

theorem backoff_bounded_monotone_witness:
  "fst (getNextRetryInterval 5 (RetryStrategy_new 5 1 60)) \<le> 60 * ns_per_s"
  using backoff_bounded_monotone [OF strategy_inv_new prod.collapse [symmetric], of 5 5 1 60]
  by (simp add: RetryStrategy_new_def)

text \<open>Exponential growth up to the maximum. At the exponential level, \<open>n\<close> quick failures in a row
  multiply the wait by \<open>2 ^ n\<close>, capped at the maximum wait; so the maximum is reached after logarithmically
  many failures and then kept.\<close>

theorem exponential_backoff:
  assumes "strategy_inv s" and "rs_level s = EXPONENTIAL" and "rs_currentWait s = w * ns_per_s"
  shows "rs_currentWait (((\<lambda>s. calculateNextInterval (strategy_fail s)) ^^ n) s) =
       min (uint (rs_maxWaitSeconds s)) (2 ^ n * w) * ns_per_s"
proof -
  obtain k where k: "0 \<le> k" "k \<le> uint (rs_maxWaitSeconds s)" "rs_currentWait s = k * ns_per_s"
    using assms(1) by (auto simp: strategy_inv_def)
  have "k = w"
    using k(3) assms(3) ns_per_s_pos by simp
  then show ?thesis
    using exponential_backoff_iter [OF assms, of n] k by simp
qed

theorem exponential_backoff_witness:
  "rs_currentWait (((\<lambda>s. calculateNextInterval (strategy_fail s)) ^^ 4)
     ((RetryStrategy_new 5 1 60)\<lparr>rs_level := EXPONENTIAL, rs_currentWait := 5 * ns_per_s\<rparr>)) = 60 * ns_per_s"
proof -
  let ?s = "(RetryStrategy_new 5 1 60)\<lparr>rs_level := EXPONENTIAL, rs_currentWait := 5 * ns_per_s\<rparr>"
  have "strategy_inv ?s"
    unfolding strategy_inv_def by (intro exI [of _ 5]) (simp add: RetryStrategy_new_def)
  from exponential_backoff [OF this, of 5 4] show ?thesis
    by (simp add: RetryStrategy_new_def)
qed

text \<open>The application is told when, and only when, the broker has been out of reach for longer than the
  threshold. After any history of retries, timer callbacks and successful connections, a retry reports an
  error exactly if the first retry since the last success is more than the threshold ago, and it reports
  that time span.\<close>

theorem error_threshold_reported:
  assumes "retry_run is (RetryHandler_new strategy threshold) = (es, h)"
  shows "fst (connection_retry now cb h) =
     (case failing_since None is of
        None \<Rightarrow> None
      | Some since \<Rightarrow> if now - since > threshold then Some (now - since) else None)"
  using errorSince_run [OF assms]
  by (auto simp: connection_retry_def evaluateErrorThreshold_def handler_retry_def scheduleRetry_def
      RetryHandler_new_def Let_def split: option.splits prod.splits)

theorem error_threshold_reported_witness:
  "fst (connection_retry 40 () (snd (retry_run [Retry_at 10 (), Connected, Retry_at 20 (), Timer_at EXPIRE 25]
     (RetryHandler_new (RetryStrategy_new 5 1 60) 15)))) = Some 20"
  by (subst error_threshold_reported [OF prod.collapse [symmetric]]) simp

text \<open>Every retry is scheduled and made once. \<open>retry\<close> arms the timer with a wait between zero and the
  maximum, and when the timer expires the callback given last is run; a cancelled timer runs nothing and
  changes nothing. This holds in every state that retries, timers and successes lead to.\<close>

theorem retry_scheduled:
  assumes "strategy_inv (rh_strategy h)"
  shows "\<exists>wait. rh_timer (snd (connection_retry now cb h)) = Some wait \<and> 0 \<le> wait \<and>
       wait \<le> uint (rs_maxWaitSeconds (rh_strategy h)) * ns_per_s \<and>
     fst (handleRetry EXPIRE later (snd (connection_retry now cb h))) = Some cb \<and>
     handleRetry CANCEL later h = (None, h) \<and>
     strategy_inv (rh_strategy (snd (retry_step i h)))"
proof -
  let ?n = "getNextRetryInterval now (rh_strategy h)"
  have "fst ?n = rs_currentWait (snd ?n)"
    by (simp add: getNextRetryInterval_def Let_def)
  then have "0 \<le> fst ?n" "fst ?n \<le> uint (rs_maxWaitSeconds (rh_strategy h)) * ns_per_s"
    using strategy_inv_bounds [OF strategy_inv_next [OF assms, of now]] by simp_all
  moreover have "rh_timer (snd (connection_retry now cb h)) = Some (fst ?n)"
      "rh_callback (snd (connection_retry now cb h)) = Some cb"
    by (auto simp: connection_retry_def evaluateErrorThreshold_def handler_retry_def scheduleRetry_def
        Let_def split: option.split prod.split)
  ultimately show ?thesis
    using strategy_inv_retry_step [OF assms, of i] by (simp add: handleRetry_def)
qed

theorem retry_scheduled_witness:
  "\<exists>wait. rh_timer (snd (connection_retry 7 () (RetryHandler_new (RetryStrategy_new 5 1 60) 15))) = Some wait
     \<and> wait \<le> 60 * ns_per_s"
proof -
  let ?h = "RetryHandler_new (RetryStrategy_new 5 1 60) 15 :: unit retry_handler"
  have h: "strategy_inv (rh_strategy ?h)" "rs_maxWaitSeconds (rh_strategy ?h) = 60"
    by (simp_all add: RetryHandler_new_def strategy_inv_new) (simp add: RetryStrategy_new_def)
  show ?thesis
    using retry_scheduled [OF h(1), of 7 "()" 8 Connected] h(2) by auto
qed

end
