(* ===== verification/Transformers.thy ===== *)
theory Transformers
  imports Message "HOL-Library.List_Lexorder"
begin

text \<open>
  Message transformations: \<open>rmqp::MessageTransformer\<close>, the way \<open>rmqa::ProducerImpl\<close> applies a list of them
  and \<open>rmqa::ConsumerImpl\<close> undoes them, and the compression transformer \<open>rmqa::CompressionTransformerImpl\<close>.

  A transformer is a record of its three virtual functions; data and properties that are passed by reference are
  passed through. An error is its text. Copies of properties have header tables of their own, so values model
  them. The \<open>zstd\<close> library is a parameter.
\<close>

section \<open>Transforming a message\<close>

record 'dt transformer =
  tr_transform :: "bytes \<Rightarrow> 'dt properties \<Rightarrow> bytes + (bool \<times> bytes \<times> 'dt properties)"
  tr_inverseTransform :: "bytes \<Rightarrow> 'dt properties \<Rightarrow> bytes + (bytes \<times> 'dt properties)"
  tr_name :: bytes

text \<open>Failure, or the use of a null header table, which a transformer may have left behind.\<close>

datatype 'a transform_result = TR_done 'a | TR_failed | TR_null

definition transform_header :: "'dt transformer \<Rightarrow> bytes" where
  "transform_header t = bstr ''sdk.transform.'' @ tr_name t"

fun transform_loop ::
  "'dt transformer list \<Rightarrow> bytes \<Rightarrow> 'dt properties \<Rightarrow> (bytes \<times> 'dt properties) transform_result" where
  "transform_loop [] rawData props = TR_done (rawData, props)"
| "transform_loop (t # ts) rawData props =
     (case tr_transform t rawData props of
        Inl err \<Rightarrow> TR_failed
      | Inr (False, rawData, props) \<Rightarrow> transform_loop ts rawData props
      | Inr (True, rawData, props) \<Rightarrow>
          (case headers props of
             None \<Rightarrow> TR_null
           | Some h \<Rightarrow>
               (case om_emplace (transform_header t) (FV_string (bstr ''ok'')) h of
                  (h, True) \<Rightarrow> transform_loop ts rawData (props\<lparr>headers := Some h\<rparr>)
                | (h, False) \<Rightarrow> TR_failed)))"

definition own_headers :: "'dt properties \<Rightarrow> 'dt properties" where
  "own_headers props = (if headers props = None then props\<lparr>headers := Some []\<rparr> else props)"

definition applyTransformations ::
  "'g guid_util \<Rightarrow> 'g \<Rightarrow> 'dt transformer list \<Rightarrow> ('dt, 'g) message \<Rightarrow> ('dt, 'g) message transform_result" where
  "applyTransformations gu fresh ts srcMessage =
     (case transform_loop ts (Message_payload srcMessage) (own_headers (msg_properties srcMessage)) of
        TR_done (rawData, props) \<Rightarrow> TR_done (Message_new gu fresh (Some rawData) props)
      | TR_failed \<Rightarrow> TR_failed
      | TR_null \<Rightarrow> TR_null)"

text \<open>The consumer goes through its transformers backwards.\<close>

fun undo_loop ::
  "'dt transformer list \<Rightarrow> bytes \<Rightarrow> 'dt properties \<Rightarrow> (bytes \<times> 'dt properties) transform_result" where
  "undo_loop [] rawData props = TR_done (rawData, props)"
| "undo_loop (t # ts) rawData props =
     (case headers props of
        None \<Rightarrow> undo_loop ts rawData props
      | Some h \<Rightarrow>
          if map_of h (transform_header t) = None then undo_loop ts rawData props
          else
            (case tr_inverseTransform t rawData props of
               Inl err \<Rightarrow> TR_failed
             | Inr (rawData, props) \<Rightarrow>
                 (case headers props of
                    None \<Rightarrow> TR_null
                  | Some h \<Rightarrow> undo_loop ts rawData (props\<lparr>headers := Some (om_erase (transform_header t) h)\<rparr>))))"

definition unpackTransformations ::
  "'g guid_util \<Rightarrow> 'g \<Rightarrow> 'dt transformer list \<Rightarrow> ('dt, 'g) message \<Rightarrow> ('dt, 'g) message transform_result" where
  "unpackTransformations gu fresh ts srcMessage =
     (case undo_loop (rev ts) (Message_payload srcMessage) (msg_properties srcMessage) of
        TR_done (rawData, props) \<Rightarrow> TR_done (Message_new gu fresh (Some rawData) props)
      | TR_failed \<Rightarrow> TR_failed
      | TR_null \<Rightarrow> TR_null)"

section \<open>Compression\<close>

text \<open>The library: compressing at level 1 into a buffer of the size \<open>ZSTD_compressBound\<close>, and decompressing into a
  buffer of a given size. An error is its name; \<open>ZSTD_error_dstSize_tooSmall\<close> has a flag of its own.\<close>

datatype zstd_result = ZSTD_data bytes | ZSTD_dstSize_tooSmall | ZSTD_error bytes

record zstd =
  zstd_compress :: "bytes \<Rightarrow> zstd_result"
  zstd_decompress :: "bytes \<Rightarrow> nat \<Rightarrow> zstd_result"

definition compression_alg :: bytes where "compression_alg = bstr ''sdk.transform.compression.alg''"

definition compression_size :: bytes where "compression_size = bstr ''sdk.transform.compression.size''"

text \<open>\<open>BSLS_ASSERT(props.headers)\<close> is in front of the two \<open>emplace\<close>; both callers guarantee it.\<close>

definition compression_transform ::
  "zstd option \<Rightarrow> bytes \<Rightarrow> 'dt properties \<Rightarrow> bytes + (bool \<times> bytes \<times> 'dt properties)" where
  "compression_transform zctx data props =
     (case zctx of
        None \<Rightarrow> Inr (False, data, props)
      | Some z \<Rightarrow>
          if length data < 8 * 1024 then Inr (False, data, props)
          else
            (case zstd_compress z data of
               ZSTD_dstSize_tooSmall \<Rightarrow> Inr (False, data, props)
             | ZSTD_error err \<Rightarrow> Inl err
             | ZSTD_data compressedData \<Rightarrow>
                 (case headers props of
                    None \<Rightarrow> Inl []
                  | Some h \<Rightarrow>
                      let h = fst (om_emplace compression_alg (FV_string (bstr ''zstd'')) h);
                          h = fst (om_emplace compression_size (FV_int64 (of_nat (length data))) h) in
                      Inr (True, compressedData, props\<lparr>headers := Some h\<rparr>))))"

definition decompressZstd :: "zstd \<Rightarrow> bytes \<Rightarrow> nat \<Rightarrow> bytes + bytes" where
  "decompressZstd z data originalSize =
     (case zstd_decompress z data originalSize of
        ZSTD_data d \<Rightarrow> if length d = originalSize then Inr d else Inl (bstr ''Decompression failed: No error detected'')
      | ZSTD_dstSize_tooSmall \<Rightarrow> Inl (bstr ''Decompression failed: Destination buffer is too small'')
      | ZSTD_error err \<Rightarrow> Inl (bstr ''Decompression failed: '' @ err))"

definition compression_inverse ::
  "zstd \<Rightarrow> bytes \<Rightarrow> 'dt properties \<Rightarrow> bytes + (bytes \<times> 'dt properties)" where
  "compression_inverse z data props =
     (case headers props of
        None \<Rightarrow> Inl []
      | Some h \<Rightarrow>
          (case map_of h compression_size of
             Some (FV_int64 originalSize) \<Rightarrow>
               if originalSize <=s 0 then Inl (bstr ''Invalid original size for decompression: '')
               else
                 (case map_of h compression_alg of
                    Some (FV_string alg) \<Rightarrow>
                      if alg = bstr ''zstd'' then
                        (case decompressZstd z data (unat originalSize) of
                           Inl err \<Rightarrow> Inl err
                         | Inr d \<Rightarrow>
                             Inr (d, props\<lparr>headers := Some (om_erase compression_size (om_erase compression_alg h))\<rparr>))
                      else Inl (bstr ''Unsupported compression algorithm: '' @ alg)
                  | _ \<Rightarrow> Inl (bstr ''Missing or invalid compression algorithm header''))
           | _ \<Rightarrow> Inl (bstr ''Missing or invalid compression size header'')))"

definition CompressionTransformer :: "zstd option \<Rightarrow> zstd \<Rightarrow> 'dt transformer" where
  "CompressionTransformer zctx z =
     \<lparr>tr_transform = compression_transform zctx, tr_inverseTransform = compression_inverse z,
      tr_name = bstr ''compression''\<rparr>"

section \<open>The contract of a transformer\<close>

lemma om_ext: "om_inv m \<Longrightarrow> om_inv m' \<Longrightarrow> map_of m = map_of m' \<Longrightarrow> m = m'"
proof -
  assume a: "om_inv m" "om_inv m'" "map_of m = map_of m'"
  then have s: "sorted (map fst m)" "distinct (map fst m)" "sorted (map fst m')" "distinct (map fst m')"
    by (auto simp: om_inv_def strict_sorted_iff)
  have "set m = set m'"
    using a(3) s(2,4) by (metis map_of_inject_set)
  moreover have "inj_on fst (set m)"
    using s(2) by (simp add: distinct_map)
  ultimately show ?thesis
    using s map_sorted_distinct_set_unique [of fst m m'] by simp
qed

lemma om_erase_put [simp]: "om_inv m \<Longrightarrow> map_of m k = None \<Longrightarrow> om_erase k (om_put k v m) = m"
  by (rule om_ext) (auto simp: fun_eq_iff)

text \<open>What the documentation asks for: a transformation that reports success is undone by its inverse, and leaves alone
  what is not its own; one that is not applicable changes nothing. \<open>own\<close> are the header keys of the transformer. The
  inverse sees the marker that the producer has put into the table.\<close>

definition transformer_ok :: "bytes set \<Rightarrow> 'dt transformer \<Rightarrow> bool" where
  "transformer_ok own t \<longleftrightarrow>
     transform_header t \<in> own \<and>
     (\<forall>raw props h. headers props = Some h \<longrightarrow> om_inv h \<longrightarrow> (\<forall>k \<in> own. map_of h k = None) \<longrightarrow> length raw < 2 ^ 63 \<longrightarrow>
        (case tr_transform t raw props of
           Inl err \<Rightarrow> True
         | Inr (False, raw', props') \<Rightarrow> raw' = raw \<and> props' = props
         | Inr (True, raw', props') \<Rightarrow>
             (\<exists>h'. props' = props\<lparr>headers := Some h'\<rparr> \<and> om_inv h' \<and> length raw' < 2 ^ 63 \<and>
                map_of h' (transform_header t) = None \<and> (\<forall>k. k \<notin> own \<longrightarrow> map_of h' k = map_of h k) \<and>
                tr_inverseTransform t raw' (props\<lparr>headers := Some (om_put (transform_header t) (FV_string (bstr ''ok'')) h')\<rparr>) =
                  Inr (raw, props\<lparr>headers := Some (om_put (transform_header t) (FV_string (bstr ''ok'')) h)\<rparr>))))"

lemma transformer_okD:
  assumes "transformer_ok own t" and "headers props = Some h" and "om_inv h" and "\<forall>k \<in> own. map_of h k = None"
    and "length raw < 2 ^ 63"
  shows "tr_transform t raw props = Inr (False, raw', props') \<Longrightarrow> raw' = raw \<and> props' = props"
    and "tr_transform t raw props = Inr (True, raw', props') \<Longrightarrow>
       \<exists>h'. props' = props\<lparr>headers := Some h'\<rparr> \<and> om_inv h' \<and> length raw' < 2 ^ 63 \<and>
         map_of h' (transform_header t) = None \<and> (\<forall>k. k \<notin> own \<longrightarrow> map_of h' k = map_of h k) \<and>
         tr_inverseTransform t raw' (props\<lparr>headers := Some (om_put (transform_header t) (FV_string (bstr ''ok'')) h')\<rparr>) =
           Inr (raw, props\<lparr>headers := Some (om_put (transform_header t) (FV_string (bstr ''ok'')) h)\<rparr>)"
  using conjunct2 [OF assms(1) [unfolded transformer_ok_def], rule_format, OF assms(2-3) _ assms(5)] assms(4) by auto

fun chain_ok :: "('dt transformer \<Rightarrow> bytes set) \<Rightarrow> 'dt transformer list \<Rightarrow> bool" where
  "chain_ok own [] \<longleftrightarrow> True"
| "chain_ok own (t # ts) \<longleftrightarrow> transformer_ok (own t) t \<and> (\<forall>t' \<in> set ts. own t \<inter> own t' = {}) \<and> chain_ok own ts"

lemma undo_loop_append:
  "undo_loop (ts @ us) raw props =
     (case undo_loop ts raw props of
        TR_done (raw, props) \<Rightarrow> undo_loop us raw props | TR_failed \<Rightarrow> TR_failed | TR_null \<Rightarrow> TR_null)"
  by (induction ts raw props rule: undo_loop.induct) (auto split: option.splits sum.splits prod.splits)

lemma transform_undo:
  assumes "chain_ok own ts" and "headers props = Some h" and "om_inv h"
    and "\<forall>t \<in> set ts. \<forall>k \<in> own t. map_of h k = None" and "length raw < 2 ^ 63"
    and "transform_loop ts raw props = TR_done (raw', props')"
  shows "undo_loop (rev ts) raw' props' = TR_done (raw, props) \<and> (\<exists>h'. props' = props\<lparr>headers := Some h'\<rparr>)"
  using assms
proof (induction ts arbitrary: raw props h)
  case Nil
  then show ?case
    by (auto intro!: exI [of _ h])
next
  case (Cons t ts)
  let ?m = "transform_header t" and ?v = "FV_string (bstr ''ok'')"
  have ok: "transformer_ok (own t) t" and chain: "chain_ok own ts"
    and disj: "\<forall>t' \<in> set ts. own t \<inter> own t' = {}" and own: "\<forall>k \<in> own t. map_of h k = None"
    using Cons.prems(1,4) by auto
  have m: "map_of h ?m = None" "?m \<in> own t"
    using ok own by (auto simp: transformer_ok_def)
  obtain b raw1 props1 where tr: "tr_transform t raw props = Inr (b, raw1, props1)"
    using Cons.prems(6) by (cases "tr_transform t raw props") auto
  show ?case
  proof (cases b)
    case False
    then have "raw1 = raw" "props1 = props"
      using transformer_okD(1) [OF ok Cons.prems(2,3) own Cons.prems(5)] tr by auto
    then have "undo_loop (rev ts) raw' props' = TR_done (raw, props) \<and> (\<exists>h'. props' = props\<lparr>headers := Some h'\<rparr>)"
      using Cons.IH [OF chain Cons.prems(2,3) _ Cons.prems(5)] Cons.prems(4,6) tr False by simp
    then show ?thesis
      using Cons.prems(2) m(1) by (auto simp: undo_loop_append)
  next
    case True
    obtain h1 where h1: "props1 = props\<lparr>headers := Some h1\<rparr>" "om_inv h1" "length raw1 < 2 ^ 63" "map_of h1 ?m = None"
        "\<forall>k. k \<notin> own t \<longrightarrow> map_of h1 k = map_of h k"
      and inv: "tr_inverseTransform t raw1 (props\<lparr>headers := Some (om_put ?m ?v h1)\<rparr>) = Inr (raw, props\<lparr>headers := Some (om_put ?m ?v h)\<rparr>)"
      using transformer_okD(2) [OF ok Cons.prems(2,3) own Cons.prems(5), of raw1 props1] tr True by auto
    let ?h2 = "om_put ?m ?v h1" and ?props2 = "props\<lparr>headers := Some (om_put ?m ?v h1)\<rparr>"
    have loop: "transform_loop ts raw1 ?props2 = TR_done (raw', props')"
      using Cons.prems(6) tr True h1(1,4) by (simp add: om_emplace_def)
    have free: "\<forall>t' \<in> set ts. \<forall>k \<in> own t'. map_of ?h2 k = None"
    proof (intro ballI)
      fix t' k
      assume k: "t' \<in> set ts" "k \<in> own t'"
      then have "k \<notin> own t"
        using disj by blast
      then show "map_of ?h2 k = None"
        using Cons.prems(4) h1(2,5) m(2) k by auto
    qed
    have "undo_loop (rev ts) raw' props' = TR_done (raw1, ?props2) \<and> (\<exists>h'. props' = ?props2\<lparr>headers := Some h'\<rparr>)"
      by (rule Cons.IH [OF chain _ _ free h1(3) loop]) (simp_all add: h1(2))
    moreover have "props\<lparr>headers := Some h\<rparr> = props"
      using Cons.prems(2) by simp
    ultimately show ?thesis
      using h1(2) m(1) Cons.prems(3) inv by (auto simp: undo_loop_append)
  qed
qed

section \<open>Compression keeps the contract\<close>

text \<open>What the code relies on of \<open>zstd\<close>: decompressing into a buffer of the original size gives the original data.\<close>

definition zstd_ok :: "zstd \<Rightarrow> bool" where
  "zstd_ok z \<longleftrightarrow>
     (\<forall>d c. zstd_compress z d = ZSTD_data c \<longrightarrow> zstd_decompress z c (length d) = ZSTD_data d \<and> length c < 2 ^ 63)"

definition compression_keys :: "bytes set" where
  "compression_keys = {bstr ''sdk.transform.compression'', compression_alg, compression_size}"

lemma compression_keys_distinct:
  "compression_alg \<noteq> compression_size" "bstr ''sdk.transform.compression'' \<noteq> compression_alg"
  "bstr ''sdk.transform.compression'' \<noteq> compression_size"
  by (simp_all add: compression_alg_def compression_size_def bstr_def)

lemma compression_header: "transform_header (CompressionTransformer zctx z) = bstr ''sdk.transform.compression''"
  by (simp add: transform_header_def CompressionTransformer_def bstr_def)

lemma compression_size_positive:
  assumes "0 < n" and "n < 2 ^ 63"
  shows "\<not> (of_nat n :: u64) <=s 0" "unat (of_nat n :: u64) = n"
proof -
  show u: "unat (of_nat n :: u64) = n"
    using assms(2) by (simp add: unat_of_nat)
  have "sint (of_nat n :: u64) = int n"
    using assms by (simp add: signed_of_nat signed_take_bit_int_eq_self)
  then show "\<not> (of_nat n :: u64) <=s 0"
    using assms(1) by (simp add: word_sle_eq)
qed

lemma compression_ok:
  assumes "zstd_ok z"
  shows "transformer_ok compression_keys (CompressionTransformer (Some z) z)"
proof -
  let ?t = "CompressionTransformer (Some z) z" and ?m = "bstr ''sdk.transform.compression''" and ?v = "FV_string (bstr ''ok'')"
  have "case tr_transform ?t raw props of
      Inl err \<Rightarrow> True
    | Inr (False, raw', props') \<Rightarrow> raw' = raw \<and> props' = props
    | Inr (True, raw', props') \<Rightarrow>
        (\<exists>h'. props' = props\<lparr>headers := Some h'\<rparr> \<and> om_inv h' \<and> length raw' < 2 ^ 63 \<and> map_of h' ?m = None \<and>
          (\<forall>k. k \<notin> compression_keys \<longrightarrow> map_of h' k = map_of h k) \<and>
          tr_inverseTransform ?t raw' (props\<lparr>headers := Some (om_put ?m ?v h')\<rparr>) = Inr (raw, props\<lparr>headers := Some (om_put ?m ?v h)\<rparr>))"
    if h: "headers props = Some h" "om_inv h" "\<forall>k \<in> compression_keys. map_of h k = None" and len: "length raw < 2 ^ 63"
    for raw and props :: "'a properties" and h
  proof (cases "length raw < 8 * 1024 \<or> (\<forall>c. zstd_compress z raw \<noteq> ZSTD_data c)")
    case True
    then show ?thesis
      by (auto simp: CompressionTransformer_def compression_transform_def split: zstd_result.split)
  next
    case False
    then obtain c where c: "zstd_compress z raw = ZSTD_data c"
      by auto
    have n: "0 < length raw" "\<not> length raw < 8 * 1024"
      using False by linarith+
    have z: "zstd_decompress z c (length raw) = ZSTD_data raw" "length c < 2 ^ 63"
      using assms c by (simp_all add: zstd_ok_def)
    let ?h = "om_put compression_size (FV_int64 (of_nat (length raw))) (om_put compression_alg (FV_string (bstr ''zstd'')) h)"
    have none: "map_of h compression_alg = None" "map_of h compression_size = None" "map_of h ?m = None"
      using h(3) by (simp_all add: compression_keys_def)
    have tr: "tr_transform ?t raw props = Inr (True, c, props\<lparr>headers := Some ?h\<rparr>)"
      using c n h none compression_keys_distinct
      by (simp add: CompressionTransformer_def compression_transform_def om_emplace_def Let_def)
    have erase: "om_erase compression_size (om_erase compression_alg (om_put ?m ?v ?h)) = om_put ?m ?v h"
      using h(2) none compression_keys_distinct by (intro om_ext) (auto simp: fun_eq_iff)
    have inverse: "tr_inverseTransform ?t c (props\<lparr>headers := Some (om_put ?m ?v ?h)\<rparr>) = Inr (raw, props\<lparr>headers := Some (om_put ?m ?v h)\<rparr>)"
      using h(2) z(1) compression_size_positive [OF n(1) len] compression_keys_distinct erase
      by (simp add: CompressionTransformer_def compression_inverse_def decompressZstd_def)
    show ?thesis
      unfolding tr using h(2) none z(2) inverse compression_keys_distinct
      by (auto simp: compression_keys_def intro!: exI [of _ ?h])
  qed
  then show ?thesis
    unfolding transformer_ok_def compression_header by (simp add: compression_keys_def)
qed

section \<open>Properties\<close>


definition sample_zstd :: zstd where
  "sample_zstd =
     \<lparr>zstd_compress = (\<lambda>d. if length d < 2 ^ 20 then ZSTD_data (0 # d) else ZSTD_dstSize_tooSmall),
      zstd_decompress = (\<lambda>c n. case c of [] \<Rightarrow> ZSTD_error [] | _ # d \<Rightarrow> if length d = n then ZSTD_data d else ZSTD_dstSize_tooSmall)\<rparr>"

lemma sample_zstd_ok: "zstd_ok sample_zstd"
  by (simp add: zstd_ok_def sample_zstd_def)


end
