(* ===== verification/Topology.thy ===== *)
theory Topology
  imports Framer
begin

text \<open>
  \<open>rmqt::Topology\<close> and \<open>rmqt::TopologyUpdate\<close>, \<open>rmqamqp::TopologyTransformer\<close> (the methods a topology is
  declared with and the replies expected for them) and \<open>rmqamqp::TopologyMerger\<close>.

  A topology owns its queues and exchanges; a binding refers to them by weak handles. The objects that are
  alive are an argument (a store from handles to objects): locking a handle is a lookup in it.
\<close>

section \<open>rmqt: queues, exchanges, bindings\<close>

record 'dt queue =
  queue_name :: bytes
  queue_passive :: bool
  queue_autoDelete :: bool
  queue_durable :: bool
  queue_arguments :: "'dt field_table"

record 'dt exchange =
  exchange_name :: bytes
  exchange_type :: bytes
  exchange_passive :: bool
  exchange_autoDelete :: bool
  exchange_durable :: bool
  exchange_internal :: bool
  exchange_arguments :: "'dt field_table"

type_synonym handle = nat

record 'dt live_objects =
  lock_queue :: "handle \<rightharpoonup> 'dt queue"
  lock_exchange :: "handle \<rightharpoonup> 'dt exchange"

record 'dt queue_binding =
  qb_exchange :: handle
  qb_queue :: handle
  qb_bindingKey :: bytes
  qb_args :: "'dt field_table"

record 'dt exchange_binding =
  xb_sourceExchange :: handle
  xb_destinationExchange :: handle
  xb_bindingKey :: bytes
  xb_args :: "'dt field_table"

record queue_delete =
  qd_name :: bytes
  qd_ifUnused :: bool
  qd_ifEmpty :: bool
  qd_noWait :: bool

record 'dt topology =
  t_queues :: "'dt queue list"
  t_exchanges :: "'dt exchange list"
  t_queueBindings :: "'dt queue_binding list"
  t_exchangeBindings :: "'dt exchange_binding list"

text \<open>\<open>QueueUnbinding\<close> has the members of \<open>QueueBinding\<close>; an unset variant is \<open>Up_Nil\<close>.\<close>

datatype 'dt supported_update =
    Up_bind "'dt queue_binding"
  | Up_unbind "'dt queue_binding"
  | Up_delete queue_delete
  | Up_Nil

type_synonym 'dt topology_update = "'dt supported_update list"

definition Exchange_isDefault :: "'dt exchange \<Rightarrow> bool" where
  "Exchange_isDefault x \<longleftrightarrow>
     exchange_name x = [] \<and> exchange_type x = bstr ''direct'' \<and> \<not> exchange_autoDelete x \<and>
     exchange_durable x \<and> \<not> exchange_internal x \<and> exchange_arguments x = []"

section \<open>TopologyTransformer\<close>

datatype reply = R_QUEUE | R_EXCHANGE | R_QUEUE_BINDING | R_EXCHANGE_BINDING | R_QUEUE_UNBINDING | R_QUEUE_DELETE

record ('dt, 'g) topology_transformer =
  tt_messages :: "('dt, 'g) amqp_message list"
  tt_sentMessageCount :: nat
  tt_error :: bool
  tt_expectedReplies :: "reply list"
  tt_expectedQueueNames :: "bytes list"

definition Transformer_empty :: "('dt, 'g) topology_transformer" where
  "Transformer_empty = \<lparr>tt_messages = [], tt_sentMessageCount = 0, tt_error = False,
     tt_expectedReplies = [], tt_expectedQueueNames = []\<rparr>"

definition push_declaration ::
  "'dt Method \<Rightarrow> reply \<Rightarrow> ('dt, 'g) topology_transformer \<Rightarrow> ('dt, 'g) topology_transformer" where
  "push_declaration m r tt =
     tt\<lparr>tt_messages := tt_messages tt @ [Msg_Method m], tt_expectedReplies := tt_expectedReplies tt @ [r]\<rparr>"

definition processQueue :: "'dt queue \<Rightarrow> ('dt, 'g) topology_transformer \<Rightarrow> ('dt, 'g) topology_transformer" where
  "processQueue q tt =
     (push_declaration
       (Queue (M_QueueDeclare
          \<lparr>qDeclare_name = queue_name q, qDeclare_passive = queue_passive q, qDeclare_durable = queue_durable q,
           qDeclare_exclusive = False, qDeclare_autoDelete = queue_autoDelete q, qDeclare_noWait = False,
           qDeclare_arguments = queue_arguments q\<rparr>))
       R_QUEUE tt)\<lparr>tt_expectedQueueNames := tt_expectedQueueNames tt @ [queue_name q]\<rparr>"

definition processExchange ::
  "'dt exchange \<Rightarrow> ('dt, 'g) topology_transformer \<Rightarrow> ('dt, 'g) topology_transformer" where
  "processExchange x tt =
     (if Exchange_isDefault x then tt
      else push_declaration
        (Exchange (M_ExchangeDeclare
           \<lparr>xDeclare_name = exchange_name x, xDeclare_type = exchange_type x,
            xDeclare_passive = exchange_passive x, xDeclare_durable = exchange_durable x,
            xDeclare_autoDelete = exchange_autoDelete x, xDeclare_internal = exchange_internal x,
            xDeclare_noWait = False, xDeclare_arguments = exchange_arguments x\<rparr>))
        R_EXCHANGE tt)"

definition processQueueBinding ::
  "'dt live_objects \<Rightarrow> 'dt queue_binding \<Rightarrow> ('dt, 'g) topology_transformer \<Rightarrow> ('dt, 'g) topology_transformer" where
  "processQueueBinding lv b tt =
     (case lock_queue lv (qb_queue b) of
        None \<Rightarrow> tt\<lparr>tt_error := True\<rparr>
      | Some q \<Rightarrow>
          (case lock_exchange lv (qb_exchange b) of
             None \<Rightarrow> tt\<lparr>tt_error := True\<rparr>
           | Some x \<Rightarrow>
               push_declaration
                 (Queue (M_QueueBind
                    \<lparr>qBind_queue = queue_name q, qBind_exchange = exchange_name x,
                     qBind_routingKey = qb_bindingKey b, qBind_noWait = False, qBind_arguments = qb_args b\<rparr>))
                 R_QUEUE_BINDING tt))"

definition processQueueUnbinding ::
  "'dt live_objects \<Rightarrow> 'dt queue_binding \<Rightarrow> ('dt, 'g) topology_transformer \<Rightarrow> ('dt, 'g) topology_transformer" where
  "processQueueUnbinding lv b tt =
     (case lock_queue lv (qb_queue b) of
        None \<Rightarrow> tt\<lparr>tt_error := True\<rparr>
      | Some q \<Rightarrow>
          (case lock_exchange lv (qb_exchange b) of
             None \<Rightarrow> tt\<lparr>tt_error := True\<rparr>
           | Some x \<Rightarrow>
               push_declaration
                 (Queue (M_QueueUnbind
                    \<lparr>qUnbind_queue = queue_name q, qUnbind_exchange = exchange_name x,
                     qUnbind_routingKey = qb_bindingKey b, qUnbind_arguments = qb_args b\<rparr>))
                 R_QUEUE_UNBINDING tt))"

definition processQueueDelete ::
  "queue_delete \<Rightarrow> ('dt, 'g) topology_transformer \<Rightarrow> ('dt, 'g) topology_transformer" where
  "processQueueDelete d tt =
     push_declaration
       (Queue (M_QueueDelete
          \<lparr>qDelete_name = qd_name d, qDelete_ifUnused = qd_ifUnused d, qDelete_ifEmpty = qd_ifEmpty d,
           qDelete_noWait = qd_noWait d\<rparr>))
       R_QUEUE_DELETE tt"

definition processExchangeBinding ::
  "'dt live_objects \<Rightarrow> 'dt exchange_binding \<Rightarrow> ('dt, 'g) topology_transformer \<Rightarrow> ('dt, 'g) topology_transformer" where
  "processExchangeBinding lv b tt =
     (case lock_exchange lv (xb_sourceExchange b) of
        None \<Rightarrow> tt\<lparr>tt_error := True\<rparr>
      | Some src \<Rightarrow>
          (case lock_exchange lv (xb_destinationExchange b) of
             None \<Rightarrow> tt\<lparr>tt_error := True\<rparr>
           | Some dst \<Rightarrow>
               push_declaration
                 (Exchange (M_ExchangeBind
                    \<lparr>xBind_sourceX = exchange_name src, xBind_destinationX = exchange_name dst,
                     xBind_routingKey = xb_bindingKey b, xBind_noWait = False, xBind_arguments = xb_args b\<rparr>))
                 R_EXCHANGE_BINDING tt))"

fun processUpdate ::
  "'dt live_objects \<Rightarrow> 'dt supported_update \<Rightarrow> ('dt, 'g) topology_transformer \<Rightarrow> ('dt, 'g) topology_transformer" where
  "processUpdate lv (Up_bind b) tt = processQueueBinding lv b tt"
| "processUpdate lv (Up_unbind b) tt = processQueueUnbinding lv b tt"
| "processUpdate lv (Up_delete d) tt = processQueueDelete d tt"
| "processUpdate lv Up_Nil tt = tt\<lparr>tt_error := True\<rparr>"

text \<open>The two constructors.\<close>

definition TopologyTransformer ::
  "'dt live_objects \<Rightarrow> 'dt topology \<Rightarrow> ('dt, 'g) topology_transformer" where
  "TopologyTransformer lv t =
     fold (processExchangeBinding lv) (t_exchangeBindings t)
       (fold (processQueueBinding lv) (t_queueBindings t)
         (fold processExchange (t_exchanges t)
           (fold processQueue (t_queues t) Transformer_empty)))"

definition TopologyTransformer_update ::
  "'dt live_objects \<Rightarrow> 'dt topology_update \<Rightarrow> ('dt, 'g) topology_transformer" where
  "TopologyTransformer_update lv u = fold (processUpdate lv) u Transformer_empty"

definition hasNext :: "('dt, 'g) topology_transformer \<Rightarrow> bool" where
  "hasNext tt \<longleftrightarrow> tt_sentMessageCount tt < length (tt_messages tt)"

text \<open>A failed assertion is \<^const>\<open>None\<close>.\<close>

definition getNextMessage ::
  "('dt, 'g) topology_transformer \<Rightarrow> (('dt, 'g) amqp_message \<times> ('dt, 'g) topology_transformer) option" where
  "getNextMessage tt =
     (if tt_sentMessageCount tt < length (tt_messages tt)
      then Some (tt_messages tt ! tt_sentMessageCount tt, tt\<lparr>tt_sentMessageCount := tt_sentMessageCount tt + 1\<rparr>)
      else None)"

definition isDone :: "('dt, 'g) topology_transformer \<Rightarrow> bool" where
  "isDone tt \<longleftrightarrow> tt_expectedReplies tt = [] \<and> tt_sentMessageCount tt = length (tt_messages tt)"

definition processReplyMessage ::
  "('dt, 'g) amqp_message \<Rightarrow> ('dt, 'g) topology_transformer \<Rightarrow> bool \<times> ('dt, 'g) topology_transformer" where
  "processReplyMessage message tt =
     (case message of
        Msg_Method method \<Rightarrow>
          (case tt_expectedReplies tt of
             [] \<Rightarrow> (False, tt\<lparr>tt_error := True\<rparr>)
           | expectedReply # rs \<Rightarrow>
               let tt = tt\<lparr>tt_expectedReplies := rs\<rparr>;
                   verdict = (\<lambda>isValidReply tt. (isValidReply, tt\<lparr>tt_error := \<not> isValidReply\<rparr>)) in
               (case method of
                  Queue (M_QueueDeclareOk ok) \<Rightarrow>
                    (case tt_expectedQueueNames tt of
                       [] \<Rightarrow> (False, tt\<lparr>tt_error := True\<rparr>)
                     | nm # nms \<Rightarrow>
                         verdict (expectedReply = R_QUEUE \<and> (nm = [] \<or> nm = qDeclareOk_name ok))
                           (tt\<lparr>tt_expectedQueueNames := nms\<rparr>))
                | Queue M_QueueBindOk \<Rightarrow> verdict (expectedReply = R_QUEUE_BINDING) tt
                | Queue M_QueueUnbindOk \<Rightarrow> verdict (expectedReply = R_QUEUE_UNBINDING) tt
                | Queue (M_QueueDeleteOk _) \<Rightarrow> verdict (expectedReply = R_QUEUE_DELETE) tt
                | Exchange M_ExchangeDeclareOk \<Rightarrow> verdict (expectedReply = R_EXCHANGE) tt
                | Exchange M_ExchangeBindOk \<Rightarrow> verdict (expectedReply = R_EXCHANGE_BINDING) tt
                | _ \<Rightarrow> verdict False tt))
      | _ \<Rightarrow> (False, tt\<lparr>tt_error := True\<rparr>))"

section \<open>TopologyMerger\<close>

definition findByBinding ::
  "'dt live_objects \<Rightarrow> bytes \<Rightarrow> bytes \<Rightarrow> bytes \<Rightarrow> 'dt queue_binding \<Rightarrow> bool" where
  "findByBinding lv exchangeName queueName bindingKey b =
     (case lock_exchange lv (qb_exchange b) of
        None \<Rightarrow> False
      | Some x \<Rightarrow>
          (case lock_queue lv (qb_queue b) of
             None \<Rightarrow> False
           | Some q \<Rightarrow> exchangeName = exchange_name x \<and> queueName = queue_name q \<and> bindingKey = qb_bindingKey b))"

fun merge_step :: "'dt live_objects \<Rightarrow> 'dt supported_update \<Rightarrow> 'dt topology \<Rightarrow> 'dt topology" where
  "merge_step lv (Up_bind b) t =
     (case lock_exchange lv (qb_exchange b) of
        None \<Rightarrow> t
      | Some x \<Rightarrow>
          (case lock_queue lv (qb_queue b) of
             None \<Rightarrow> t
           | Some q \<Rightarrow>
               if list_ex (findByBinding lv (exchange_name x) (queue_name q) (qb_bindingKey b)) (t_queueBindings t)
               then t else t\<lparr>t_queueBindings := t_queueBindings t @ [b]\<rparr>))"
| "merge_step lv (Up_unbind b) t =
     (case lock_exchange lv (qb_exchange b) of
        None \<Rightarrow> t
      | Some x \<Rightarrow>
          (case lock_queue lv (qb_queue b) of
             None \<Rightarrow> t
           | Some q \<Rightarrow>
               t\<lparr>t_queueBindings := filter (\<lambda>b'. \<not> findByBinding lv (exchange_name x) (queue_name q)
                    (qb_bindingKey b) b') (t_queueBindings t)\<rparr>))"
| "merge_step lv _ t = t"

definition merge :: "'dt live_objects \<Rightarrow> 'dt topology \<Rightarrow> 'dt topology_update \<Rightarrow> 'dt topology" where
  "merge lv t u = fold (merge_step lv) u t"

section \<open>What the transformer promises\<close>

text \<open>Which method answers which declaration, as AMQP 0-9-1 has it.\<close>

definition answers :: "'dt Method \<Rightarrow> 'dt Method \<Rightarrow> bool" where
  "answers m r =
     (case m of
        Queue (M_QueueDeclare d) \<Rightarrow>
          (case r of Queue (M_QueueDeclareOk ok) \<Rightarrow> qDeclare_name d = [] \<or> qDeclare_name d = qDeclareOk_name ok
           | _ \<Rightarrow> False)
      | Queue (M_QueueBind _) \<Rightarrow> r = Queue M_QueueBindOk
      | Queue (M_QueueUnbind _) \<Rightarrow> r = Queue M_QueueUnbindOk
      | Queue (M_QueueDelete _) \<Rightarrow> (case r of Queue (M_QueueDeleteOk _) \<Rightarrow> True | _ \<Rightarrow> False)
      | Exchange (M_ExchangeDeclare _) \<Rightarrow> r = Exchange M_ExchangeDeclareOk
      | Exchange (M_ExchangeBind _) \<Rightarrow> r = Exchange M_ExchangeBindOk
      | _ \<Rightarrow> False)"

text \<open>The bookkeeping for a list of methods that are still to be answered.\<close>

definition reply_kind :: "'dt Method \<Rightarrow> reply option" where
  "reply_kind m =
     (case m of
        Queue (M_QueueDeclare _) \<Rightarrow> Some R_QUEUE
      | Queue (M_QueueBind _) \<Rightarrow> Some R_QUEUE_BINDING
      | Queue (M_QueueUnbind _) \<Rightarrow> Some R_QUEUE_UNBINDING
      | Queue (M_QueueDelete _) \<Rightarrow> Some R_QUEUE_DELETE
      | Exchange (M_ExchangeDeclare _) \<Rightarrow> Some R_EXCHANGE
      | Exchange (M_ExchangeBind _) \<Rightarrow> Some R_EXCHANGE_BINDING
      | _ \<Rightarrow> None)"

definition declared_name :: "'dt Method \<Rightarrow> bytes list" where
  "declared_name m = (case m of Queue (M_QueueDeclare d) \<Rightarrow> [qDeclare_name d] | _ \<Rightarrow> [])"

abbreviation declared_names :: "'dt Method list \<Rightarrow> bytes list" where
  "declared_names ms \<equiv> concat (map declared_name ms)"

definition awaits :: "('dt, 'g) topology_transformer \<Rightarrow> 'dt Method list \<Rightarrow> bool" where
  "awaits tt ms \<longleftrightarrow> map Some (tt_expectedReplies tt) = map reply_kind ms \<and>
     tt_expectedQueueNames tt = declared_names ms"

text \<open>The methods of a topology, and of an update, when everything they refer to is alive.\<close>

definition queue_declare :: "'dt queue \<Rightarrow> 'dt Method" where
  "queue_declare q = Queue (M_QueueDeclare
     \<lparr>qDeclare_name = queue_name q, qDeclare_passive = queue_passive q, qDeclare_durable = queue_durable q,
      qDeclare_exclusive = False, qDeclare_autoDelete = queue_autoDelete q, qDeclare_noWait = False,
      qDeclare_arguments = queue_arguments q\<rparr>)"

definition exchange_declare :: "'dt exchange \<Rightarrow> 'dt Method" where
  "exchange_declare x = Exchange (M_ExchangeDeclare
     \<lparr>xDeclare_name = exchange_name x, xDeclare_type = exchange_type x, xDeclare_passive = exchange_passive x,
      xDeclare_durable = exchange_durable x, xDeclare_autoDelete = exchange_autoDelete x,
      xDeclare_internal = exchange_internal x, xDeclare_noWait = False,
      xDeclare_arguments = exchange_arguments x\<rparr>)"

definition queue_bind :: "'dt live_objects \<Rightarrow> 'dt queue_binding \<Rightarrow> 'dt Method option" where
  "queue_bind lv b = do {
     q \<leftarrow> lock_queue lv (qb_queue b);
     x \<leftarrow> lock_exchange lv (qb_exchange b);
     Some (Queue (M_QueueBind
       \<lparr>qBind_queue = queue_name q, qBind_exchange = exchange_name x, qBind_routingKey = qb_bindingKey b,
        qBind_noWait = False, qBind_arguments = qb_args b\<rparr>)) }"

definition exchange_bind :: "'dt live_objects \<Rightarrow> 'dt exchange_binding \<Rightarrow> 'dt Method option" where
  "exchange_bind lv b = do {
     src \<leftarrow> lock_exchange lv (xb_sourceExchange b);
     dst \<leftarrow> lock_exchange lv (xb_destinationExchange b);
     Some (Exchange (M_ExchangeBind
       \<lparr>xBind_sourceX = exchange_name src, xBind_destinationX = exchange_name dst,
        xBind_routingKey = xb_bindingKey b, xBind_noWait = False, xBind_arguments = xb_args b\<rparr>)) }"

definition queue_unbind :: "'dt live_objects \<Rightarrow> 'dt queue_binding \<Rightarrow> 'dt Method option" where
  "queue_unbind lv b = do {
     q \<leftarrow> lock_queue lv (qb_queue b);
     x \<leftarrow> lock_exchange lv (qb_exchange b);
     Some (Queue (M_QueueUnbind
       \<lparr>qUnbind_queue = queue_name q, qUnbind_exchange = exchange_name x, qUnbind_routingKey = qb_bindingKey b,
        qUnbind_arguments = qb_args b\<rparr>)) }"

definition queue_delete_method :: "queue_delete \<Rightarrow> 'dt Method" where
  "queue_delete_method d = Queue (M_QueueDelete
     \<lparr>qDelete_name = qd_name d, qDelete_ifUnused = qd_ifUnused d, qDelete_ifEmpty = qd_ifEmpty d,
      qDelete_noWait = qd_noWait d\<rparr>)"

definition topology_methods :: "'dt live_objects \<Rightarrow> 'dt topology \<Rightarrow> 'dt Method option list" where
  "topology_methods lv t =
     map (Some \<circ> queue_declare) (t_queues t) @
     map (Some \<circ> exchange_declare) (filter (\<lambda>x. \<not> Exchange_isDefault x) (t_exchanges t)) @
     map (queue_bind lv) (t_queueBindings t) @
     map (exchange_bind lv) (t_exchangeBindings t)"

fun update_method :: "'dt live_objects \<Rightarrow> 'dt supported_update \<Rightarrow> 'dt Method option" where
  "update_method lv (Up_bind b) = queue_bind lv b"
| "update_method lv (Up_unbind b) = queue_unbind lv b"
| "update_method lv (Up_delete d) = Some (queue_delete_method d)"
| "update_method lv Up_Nil = None"

text \<open>What the channel does with a transformer: send everything, then feed it the replies.\<close>

function sendAllMessages ::
  "('dt, 'g) topology_transformer \<Rightarrow> ('dt, 'g) amqp_message list \<times> ('dt, 'g) topology_transformer" where
  "sendAllMessages tt =
     (if hasNext tt then
        (case getNextMessage tt of
           Some (m, tt') \<Rightarrow> (case sendAllMessages tt' of (ms, tt'') \<Rightarrow> (m # ms, tt''))
         | None \<Rightarrow> ([], tt))
      else ([], tt))"
  by pat_completeness auto
termination
  by (relation "measure (\<lambda>tt. length (tt_messages tt) - tt_sentMessageCount tt)")
    (auto simp: getNextMessage_def hasNext_def split: if_splits)

declare sendAllMessages.simps [simp del]

fun processReplies ::
  "'dt Method list \<Rightarrow> ('dt, 'g) topology_transformer \<Rightarrow> bool \<times> ('dt, 'g) topology_transformer" where
  "processReplies [] tt = (True, tt)"
| "processReplies (r # rs) tt =
     (case processReplyMessage (Msg_Method r) tt of
        (True, tt') \<Rightarrow> processReplies rs tt'
      | (False, tt') \<Rightarrow> (False, tt'))"

text \<open>What a freshly built transformer looks like: the methods collected so far and whether a handle had
  expired.\<close>

definition built :: "('dt, 'g) topology_transformer \<Rightarrow> 'dt Method list \<Rightarrow> bool \<Rightarrow> bool" where
  "built tt ms e \<longleftrightarrow>
     tt_messages tt = map Msg_Method ms \<and> awaits tt ms \<and> tt_error tt = e \<and> tt_sentMessageCount tt = 0"

text \<open>Two bindings that the broker cannot tell apart.\<close>

definition binding_key :: "'dt live_objects \<Rightarrow> 'dt queue_binding \<Rightarrow> (bytes \<times> bytes \<times> bytes) option" where
  "binding_key lv b = do {
     x \<leftarrow> lock_exchange lv (qb_exchange b);
     q \<leftarrow> lock_queue lv (qb_queue b);
     Some (exchange_name x, queue_name q, qb_bindingKey b) }"

definition bound :: "'dt live_objects \<Rightarrow> 'dt topology \<Rightarrow> (bytes \<times> bytes \<times> bytes) set" where
  "bound lv t = {k. Some k \<in> binding_key lv ` set (t_queueBindings t)}"

text \<open>The broker's view of an update: a set of bindings that grows and shrinks.\<close>

fun broker_update ::
  "'dt live_objects \<Rightarrow> 'dt supported_update \<Rightarrow> (bytes \<times> bytes \<times> bytes) set \<Rightarrow> (bytes \<times> bytes \<times> bytes) set" where
  "broker_update lv (Up_bind b) B = (case binding_key lv b of Some k \<Rightarrow> insert k B | None \<Rightarrow> B)"
| "broker_update lv (Up_unbind b) B = (case binding_key lv b of Some k \<Rightarrow> B - {k} | None \<Rightarrow> B)"
| "broker_update lv _ B = B"

text \<open>One step of building: a declaration is added, or an expired handle is remembered.\<close>

definition adds ::
  "('x \<Rightarrow> ('dt, 'g) topology_transformer \<Rightarrow> ('dt, 'g) topology_transformer) \<Rightarrow> ('x \<Rightarrow> 'dt Method option) \<Rightarrow> bool" where
  "adds f g \<longleftrightarrow>
     (\<forall>x tt ms e. built tt ms e \<longrightarrow>
        (case g x of Some m \<Rightarrow> built (f x tt) (ms @ [m]) e | None \<Rightarrow> built (f x tt) ms True))"

text \<open>A queue bound to an exchange, used in examples.\<close>

definition sample_live :: "'dt live_objects" where
  "sample_live =
     \<lparr>lock_queue = [0 \<mapsto> \<lparr>queue_name = bstr ''q'', queue_passive = False, queue_autoDelete = False,
        queue_durable = True, queue_arguments = []\<rparr>],
      lock_exchange = [0 \<mapsto> \<lparr>exchange_name = bstr ''x'', exchange_type = bstr ''direct'',
        exchange_passive = False, exchange_autoDelete = False, exchange_durable = True,
        exchange_internal = False, exchange_arguments = []\<rparr>]\<rparr>"

definition sample_binding :: "'dt queue_binding" where
  "sample_binding = \<lparr>qb_exchange = 0, qb_queue = 0, qb_bindingKey = bstr ''k'', qb_args = []\<rparr>"

definition sample_topology :: "'dt topology" where
  "sample_topology = \<lparr>t_queues = [], t_exchanges = [], t_queueBindings = [sample_binding],
     t_exchangeBindings = []\<rparr>"

section \<open>Building\<close>

lemma awaits_push:
  "awaits tt ms \<Longrightarrow> reply_kind m = Some r \<Longrightarrow> declared_name m = [] \<Longrightarrow>
     awaits (push_declaration m r tt) (ms @ [m])"
  by (simp add: awaits_def push_declaration_def)

lemma built_push:
  "built tt ms e \<Longrightarrow> reply_kind m = Some r \<Longrightarrow> declared_name m = [] \<Longrightarrow>
     built (push_declaration m r tt) (ms @ [m]) e"
  by (simp add: built_def awaits_push) (simp add: push_declaration_def)

lemma built_error: "built tt ms e \<Longrightarrow> built (tt\<lparr>tt_error := True\<rparr>) ms True"
  by (simp add: built_def awaits_def)

lemma built_empty: "built Transformer_empty [] False"
  by (simp add: built_def awaits_def Transformer_empty_def)

lemma built_processQueue: "built tt ms e \<Longrightarrow> built (processQueue q tt) (ms @ [queue_declare q]) e"
  by (simp add: built_def awaits_def processQueue_def push_declaration_def queue_declare_def reply_kind_def
      declared_name_def)

lemmas method_kinds = queue_bind_def queue_unbind_def exchange_bind_def queue_delete_method_def
  exchange_declare_def reply_kind_def declared_name_def

lemma built_processExchange:
  "built tt ms e \<Longrightarrow> \<not> Exchange_isDefault x \<Longrightarrow> built (processExchange x tt) (ms @ [exchange_declare x]) e"
  unfolding processExchange_def by (simp add: exchange_declare_def) (rule built_push, simp_all add: method_kinds)

lemma adds_step:
  "adds f g \<Longrightarrow> built tt ms e \<Longrightarrow>
     case g x of Some m \<Rightarrow> built (f x tt) (ms @ [m]) e | None \<Rightarrow> built (f x tt) ms True"
  unfolding adds_def by blast

lemma adds_fold:
  "adds f g \<Longrightarrow> built tt ms e \<Longrightarrow>
     built (fold f xs tt) (ms @ List.map_filter g xs) (e \<or> None \<in> g ` set xs)"
proof (induction xs arbitrary: tt ms e)
  case Nil
  then show ?case by (simp add: map_filter_simps)
next
  case (Cons x xs)
  then show ?case
  proof (cases "g x")
    case None
    then have "built (f x tt) ms True"
      using adds_step [OF Cons.prems, of x] by simp
    then show ?thesis
      using Cons.IH [OF Cons.prems(1)] None by (simp add: map_filter_simps) force
  next
    case (Some m)
    then have "built (f x tt) (ms @ [m]) e"
      using adds_step [OF Cons.prems, of x] by simp
    then show ?thesis
      using Cons.IH [OF Cons.prems(1)] Some by (simp add: map_filter_simps) force
  qed
qed

lemma adds_queue: "adds processQueue (Some \<circ> queue_declare)"
  by (simp add: adds_def built_processQueue)

lemma adds_queueBinding: "adds (processQueueBinding lv) (queue_bind lv)"
  by (auto simp: adds_def processQueueBinding_def queue_bind_def split: option.splits
      intro!: built_push intro: built_error) (simp_all add: method_kinds)

lemma adds_queueUnbinding: "adds (processQueueUnbinding lv) (queue_unbind lv)"
  by (auto simp: adds_def processQueueUnbinding_def queue_unbind_def split: option.splits
      intro!: built_push intro: built_error) (simp_all add: method_kinds)

lemma adds_exchangeBinding: "adds (processExchangeBinding lv) (exchange_bind lv)"
  by (auto simp: adds_def processExchangeBinding_def exchange_bind_def split: option.splits
      intro!: built_push intro: built_error) (simp_all add: method_kinds)

lemma built_processQueueDelete:
  "built tt ms e \<Longrightarrow> built (processQueueDelete d tt) (ms @ [queue_delete_method d]) e"
  unfolding processQueueDelete_def queue_delete_method_def by (rule built_push) (simp_all add: method_kinds)

lemma adds_update: "adds (processUpdate lv) (update_method lv)"
  unfolding adds_def
proof (intro allI impI)
  fix x ms e and tt :: "('a, 'b) topology_transformer"
  assume b: "built tt ms e"
  show "case update_method lv x of Some m \<Rightarrow> built (processUpdate lv x tt) (ms @ [m]) e
      | None \<Rightarrow> built (processUpdate lv x tt) ms True"
    using adds_step [OF adds_queueBinding b] adds_step [OF adds_queueUnbinding b]
      built_processQueueDelete [OF b] built_error [OF b]
    by (cases x) (simp_all cong: option.case_cong)
qed

lemma fold_processExchange:
  "built tt ms e \<Longrightarrow>
     built (fold processExchange xs tt)
       (ms @ map exchange_declare (filter (\<lambda>x. \<not> Exchange_isDefault x) xs)) e"
proof (induction xs arbitrary: tt ms)
  case (Cons x xs)
  show ?case
  proof (cases "Exchange_isDefault x")
    case True
    then show ?thesis
      using Cons by (simp add: processExchange_def)
  next
    case False
    then show ?thesis
      using Cons.IH [OF built_processExchange [OF Cons.prems False]] by simp
  qed
qed simp

lemma map_filter_Some: "List.map_filter (Some \<circ> f) xs = map f xs"
  by (simp add: map_filter_def comp_def)

lemma map_filter_append: "List.map_filter f (xs @ ys) = List.map_filter f xs @ List.map_filter f ys"
  by (simp add: map_filter_def)

lemma map_filter_all: "None \<notin> set xs \<Longrightarrow> List.map_filter id xs = map the xs"
  by (induction xs) (auto simp: map_filter_simps eq_commute [of None] split: option.splits)

lemma map_filter_map: "List.map_filter id (map f xs) = List.map_filter f xs"
  by (simp add: map_filter_def comp_def filter_map)

lemma built_topology:
  "built (TopologyTransformer lv t) (List.map_filter id (topology_methods lv t))
     (None \<in> set (topology_methods lv t))"
proof -
  let ?q = "fold processQueue (t_queues t) Transformer_empty"
  have q: "built ?q (map queue_declare (t_queues t)) False"
    using adds_fold [OF adds_queue built_empty, of "t_queues t"] by (simp add: map_filter_Some image_iff)
  note x = fold_processExchange [OF q, of "t_exchanges t"]
  note b = adds_fold [OF adds_exchangeBinding adds_fold [OF adds_queueBinding x]]
  show ?thesis
    using b [of lv "t_exchangeBindings t" lv "t_queueBindings t"]
    by (simp add: TopologyTransformer_def topology_methods_def map_filter_append map_filter_map map_filter_Some
        image_iff disj_commute)
qed

lemma built_update:
  "built (TopologyTransformer_update lv u) (List.map_filter (update_method lv) u)
     (None \<in> update_method lv ` set u)"
  using adds_fold [OF adds_update built_empty] by (simp add: TopologyTransformer_update_def)

section \<open>Sending and replies\<close>

lemma sendAllMessages_result:
  assumes "tt_sentMessageCount tt \<le> length (tt_messages tt)"
  shows "sendAllMessages tt =
     (drop (tt_sentMessageCount tt) (tt_messages tt), tt\<lparr>tt_sentMessageCount := length (tt_messages tt)\<rparr>)"
  using assms
proof (induction tt rule: sendAllMessages.induct)
  case (1 tt)
  let ?next = "tt\<lparr>tt_sentMessageCount := tt_sentMessageCount tt + 1\<rparr>"
  show ?case
  proof (cases "hasNext tt")
    case True
    then have nx: "getNextMessage tt = Some (tt_messages tt ! tt_sentMessageCount tt, ?next)"
      by (simp add: hasNext_def getNextMessage_def)
    have "sendAllMessages ?next = (drop (tt_sentMessageCount ?next) (tt_messages ?next),
        ?next\<lparr>tt_sentMessageCount := length (tt_messages ?next)\<rparr>)"
      using True by (intro "1.IH" [OF True nx refl]) (simp add: hasNext_def)
    then show ?thesis
      using True nx
      by (subst sendAllMessages.simps) (simp add: hasNext_def Cons_nth_drop_Suc)
  next
    case False
    then show ?thesis
      using "1.prems" by (subst sendAllMessages.simps) (simp add: hasNext_def)
  qed
qed

lemma awaits_Nil: "awaits tt [] \<Longrightarrow> fst (processReplyMessage (Msg_Method r) tt) = False"
  by (simp add: awaits_def processReplyMessage_def)

lemma map_Some_Cons: "map Some xs = Some y # zs \<longleftrightarrow> (\<exists>ys. xs = y # ys \<and> zs = map Some ys)"
  by (cases xs) auto

lemma reply_names:
  assumes "awaits tt (m # ms)"
  obtains k where "reply_kind m = Some k" "tt_expectedReplies tt = k # tl (tt_expectedReplies tt)"
    "map Some (tl (tt_expectedReplies tt)) = map reply_kind ms"
    "tt_expectedQueueNames tt = declared_name m @ declared_names ms"
    "declared_name m = [] \<longleftrightarrow> k \<noteq> R_QUEUE"
  using assms by (cases "tt_expectedReplies tt") (auto simp: awaits_def reply_kind_def declared_name_def
      split: Method.splits QueueMethod.splits ExchangeMethod.splits)

lemma processReply_step:
  assumes aw: "awaits tt (m # ms)"
  shows "fst (processReplyMessage (Msg_Method r) tt) = answers m r"
    and "answers m r \<Longrightarrow> awaits (snd (processReplyMessage (Msg_Method r) tt)) ms"
    and "tt_messages (snd (processReplyMessage (Msg_Method r) tt)) = tt_messages tt"
    and "tt_sentMessageCount (snd (processReplyMessage (Msg_Method r) tt)) = tt_sentMessageCount tt"
    and "tt_error (snd (processReplyMessage (Msg_Method r) tt)) = (\<not> answers m r)"
proof -
  obtain k where k: "reply_kind m = Some k" "tt_expectedReplies tt = k # tl (tt_expectedReplies tt)"
    "map Some (tl (tt_expectedReplies tt)) = map reply_kind ms"
    "tt_expectedQueueNames tt = declared_name m @ declared_names ms"
    "declared_name m = [] \<longleftrightarrow> k \<noteq> R_QUEUE"
    using reply_names [OF aw] by blast
  obtain rs where rs: "tt_expectedReplies tt = k # rs" "map Some rs = map reply_kind ms"
    using k(2,3) by (metis)
  note facts = k(1) rs k(4) k(5)
  show "fst (processReplyMessage (Msg_Method r) tt) = answers m r"
    "tt_error (snd (processReplyMessage (Msg_Method r) tt)) = (\<not> answers m r)"
    "answers m r \<Longrightarrow> awaits (snd (processReplyMessage (Msg_Method r) tt)) ms"
    "tt_messages (snd (processReplyMessage (Msg_Method r) tt)) = tt_messages tt"
    "tt_sentMessageCount (snd (processReplyMessage (Msg_Method r) tt)) = tt_sentMessageCount tt"
    using facts
    by (auto simp: processReplyMessage_def answers_def reply_kind_def declared_name_def awaits_def Let_def
        split: Method.splits QueueMethod.splits ExchangeMethod.splits list.splits)
qed

lemma processReplies_complete:
  "awaits tt ms \<Longrightarrow>
     fst (processReplies rs tt) \<and> tt_expectedReplies (snd (processReplies rs tt)) = [] \<longleftrightarrow>
     list_all2 answers ms rs"
proof (induction rs arbitrary: tt ms)
  case Nil
  then show ?case by (auto simp: awaits_def)
next
  case (Cons r rs)
  show ?case
  proof (cases ms)
    case Nil
    then have "fst (processReplyMessage (Msg_Method r) tt) = False"
      using Cons.prems awaits_Nil by blast
    then show ?thesis
      using Nil by (auto split: prod.splits bool.splits)
  next
    case (Cons m ms')
    note step = processReply_step [OF Cons.prems [unfolded Cons], of r]
    show ?thesis
      using step(1,2) Cons.IH [of "snd (processReplyMessage (Msg_Method r) tt)" ms'] Cons
      by (auto split: prod.splits bool.splits)
  qed
qed

lemma processReplies_keeps:
  "awaits tt ms \<Longrightarrow> fst (processReplies rs tt) \<Longrightarrow>
     tt_messages (snd (processReplies rs tt)) = tt_messages tt \<and>
     tt_sentMessageCount (snd (processReplies rs tt)) = tt_sentMessageCount tt"
proof (induction rs arbitrary: tt ms)
  case (Cons r rs)
  show ?case
  proof (cases ms)
    case Nil
    then show ?thesis
      using Cons.prems awaits_Nil [of tt r] by (auto split: prod.splits bool.splits)
  next
    case (Cons m ms')
    note step = processReply_step [OF Cons.prems(1) [unfolded Cons], of r]
    show ?thesis
      using step Cons.IH [of "snd (processReplyMessage (Msg_Method r) tt)" ms'] Cons.prems(2)
      by (auto split: prod.splits bool.splits)
  qed
qed simp

lemma declaration_done:
  assumes "built tt ms False"
  shows "fst (processReplies rs (snd (sendAllMessages tt))) \<and>
     isDone (snd (processReplies rs (snd (sendAllMessages tt)))) \<longleftrightarrow> list_all2 answers ms rs"
proof -
  let ?tt = "tt\<lparr>tt_sentMessageCount := length (tt_messages tt)\<rparr>"
  have s: "snd (sendAllMessages tt) = ?tt"
    using assms by (simp add: sendAllMessages_result built_def)
  have aw: "awaits ?tt ms"
    using assms by (simp add: built_def awaits_def)
  show ?thesis
    unfolding s using processReplies_complete [OF aw, of rs] processReplies_keeps [OF aw, of rs]
    by (auto simp: isDone_def)
qed

lemma sent_messages: "built tt ms e \<Longrightarrow> fst (sendAllMessages tt) = map Msg_Method ms"
  by (simp add: sendAllMessages_result built_def)

section \<open>Merging\<close>

lemma findByBinding_key: "findByBinding lv xn qn k b \<longleftrightarrow> binding_key lv b = Some (xn, qn, k)"
  by (auto simp: findByBinding_def binding_key_def split: option.splits)

lemma merge_step_bind:
  "merge_step lv (Up_bind b) t =
     (case binding_key lv b of
        None \<Rightarrow> t
      | Some k \<Rightarrow> if Some k \<in> binding_key lv ` set (t_queueBindings t) then t
          else t\<lparr>t_queueBindings := t_queueBindings t @ [b]\<rparr>)"
proof (cases "binding_key lv b")
  case None
  then show ?thesis by (auto simp: binding_key_def split: option.splits)
next
  case (Some k)
  then obtain x q where "lock_exchange lv (qb_exchange b) = Some x" "lock_queue lv (qb_queue b) = Some q"
    "k = (exchange_name x, queue_name q, qb_bindingKey b)"
    by (auto simp: binding_key_def bind_eq_Some_conv)
  then show ?thesis
    using Some by (auto simp: findByBinding_key list_ex_iff image_iff)
qed

lemma merge_step_unbind:
  "merge_step lv (Up_unbind b) t =
     (case binding_key lv b of
        None \<Rightarrow> t
      | Some k \<Rightarrow> t\<lparr>t_queueBindings := filter (\<lambda>b'. binding_key lv b' \<noteq> Some k) (t_queueBindings t)\<rparr>)"
  by (auto simp: findByBinding_key binding_key_def split: option.splits)

declare merge_step.simps(1,2) [simp del]

lemma merge_step_bound: "bound lv (merge_step lv u t) = broker_update lv u (bound lv t)"
  by (cases u) (auto simp: merge_step_bind merge_step_unbind bound_def image_iff split: option.splits)

lemma merge_step_keeps:
  "t_queues (merge_step lv u t) = t_queues t \<and> t_exchanges (merge_step lv u t) = t_exchanges t \<and>
   t_exchangeBindings (merge_step lv u t) = t_exchangeBindings t"
  by (cases u) (auto simp: merge_step_bind merge_step_unbind split: option.splits)

lemma map_filter_set: "set (List.map_filter f xs) = {y. Some y \<in> f ` set xs}"
  by (induction xs) (auto simp: map_filter_simps split: option.splits)

lemma distinct_map_filter: "distinct (List.map_filter f xs) \<Longrightarrow> distinct (List.map_filter f (filter P xs))"
  by (induction xs) (auto simp: map_filter_simps map_filter_set split: option.splits)

lemma merge_step_distinct:
  "distinct (List.map_filter (binding_key lv) (t_queueBindings t)) \<Longrightarrow>
     distinct (List.map_filter (binding_key lv) (t_queueBindings (merge_step lv u t)))"
  by (cases u)
    (auto simp: merge_step_bind merge_step_unbind distinct_map_filter map_filter_append map_filter_simps
      map_filter_set image_iff split: option.splits)

section \<open>Properties\<close>

text \<open>Declaring a topology. The transformer finds an error exactly if a binding refers to a queue or an
  exchange that is gone. Otherwise it sends the declarations of all queues, then of all exchanges but the
  default one, then the bindings, in the order of the topology, and it accepts a sequence of replies and is
  done exactly if each of them answers the method sent at its position (a queue declared by name under that
  name, a queue the server names under any).\<close>

theorem topology_declared:
  "tt_error (TopologyTransformer lv t :: ('dt, 'g) topology_transformer) = (None \<in> set (topology_methods lv t)) \<and>
   fst (sendAllMessages (TopologyTransformer lv t :: ('dt, 'g) topology_transformer)) =
     map Msg_Method (List.map_filter id (topology_methods lv t)) \<and>
   (None \<notin> set (topology_methods lv t) \<longrightarrow>
      (case processReplies rs (snd (sendAllMessages (TopologyTransformer lv t :: ('dt, 'g) topology_transformer))) of
         (valid, tt) \<Rightarrow> valid \<and> isDone tt) =
      list_all2 answers (map the (topology_methods lv t)) rs)"
proof (intro conjI impI)
  let ?tt = "TopologyTransformer lv t :: ('dt, 'g) topology_transformer"
  note b = built_topology [of lv t, where ?'b = 'g]
  show "tt_error ?tt = (None \<in> set (topology_methods lv t))"
    using b by (simp add: built_def)
  show "fst (sendAllMessages ?tt) = map Msg_Method (List.map_filter id (topology_methods lv t))"
    using b by (rule sent_messages)
  assume live: "None \<notin> set (topology_methods lv t)"
  then have eq: "List.map_filter id (topology_methods lv t) = map the (topology_methods lv t)"
    by (rule map_filter_all)
  have "built ?tt (map the (topology_methods lv t)) False"
    using b live unfolding eq by simp
  from declaration_done [OF this, of rs]
  show "(case processReplies rs (snd (sendAllMessages ?tt)) of (valid, tt) \<Rightarrow> valid \<and> isDone tt) =
      list_all2 answers (map the (topology_methods lv t)) rs"
    by (simp only: case_prod_unfold)
qed

theorem topology_declared_witness:
  "case processReplies [Queue M_QueueBindOk]
      (snd (sendAllMessages (TopologyTransformer sample_live sample_topology
         :: (nat, nat) topology_transformer))) of
     (valid, tt) \<Rightarrow> valid \<and> isDone tt"
proof -
  have m: "topology_methods sample_live (sample_topology :: nat topology) = [Some (Queue (M_QueueBind
      \<lparr>qBind_queue = bstr ''q'', qBind_exchange = bstr ''x'', qBind_routingKey = bstr ''k'',
       qBind_noWait = False, qBind_arguments = []\<rparr>))]"
    by (simp add: topology_methods_def sample_topology_def sample_binding_def sample_live_def queue_bind_def)
  show ?thesis
    using topology_declared [of sample_live "sample_topology :: nat topology" "[Queue M_QueueBindOk]",
        where ?'g = nat]
    by (simp add: m answers_def)
qed



end
