(* ===== verification/Channel_Base.thy ===== *)
theory Channel_Base
  imports Topology
begin

text \<open>
  \<open>rmqamqp::Channel\<close>: the life of a channel from \<open>channel.open\<close> over the declaration of its topology to
  ready, topology updates, closing, and reopening.

  The class is an extensible record; \<open>SendChannel\<close> and \<open>ReceiveChannel\<close> extend it. Its virtual functions are a
  record of functions (\<open>channel_vt\<close>) that the base operations take as an argument. What a channel does to the
  outside is appended to \<open>ch_trace\<close>: messages handed to the connection with the callback for a completed write,
  operations of the timer that watches for hung channels, calls of the retry handler and of the error
  callback, results given to futures, and the counters \<open>channel_ready\<close> and \<open>channel_disconnected\<close>. A future
  is named by the number of futures made before it. The clock and the other metrics are left out.
\<close>

datatype channel_state =
    CHANNEL_OPEN_SENT
  | OPEN
  | DECLARING_TOPOLOGY
  | TOPOLOGY_LOADED
  | AWAITING_REPLY
  | READY
  | CHANNEL_CLOSE_SENT
  | CLOSED

datatype cleanup_indicator = KEEP | CLEANUP

datatype write_callback = WC_noop | WC_onWriteComplete | WC_removeMessages u64 bool

datatype result = Result_ok | Result_error bytes

datatype topology_callback = TC_topologyDeclared | TC_promise nat

datatype ('dt, 'g, 'e) channel_event =
    Ev_write "('dt, 'g) amqp_message" write_callback
  | Ev_timer_start
  | Ev_timer_reset
  | Ev_timer_cancel
  | Ev_error_callback bytes u16
  | Ev_retry
  | Ev_conn_error
  | Ev_resolve nat result
  | Ev_channel_ready
  | Ev_channel_disconnected
  | Ev_client 'e

record ('dt, 'g, 'e) channel =
  ch_flow :: bool
  ch_state :: channel_state
  ch_topology :: "'dt topology"
  ch_topologyTransformer :: "('dt, 'g) topology_transformer option"
  ch_topologyCallback :: "topology_callback option"
  ch_updateQueue :: "('dt topology_update \<times> nat) list"
  ch_permanentlyClosing :: bool
  ch_readyMade :: "nat list"
  ch_promises :: nat
  ch_trace :: "('dt, 'g, 'e) channel_event list"

record ('dt, 'g, 'c) channel_vt =
  vt_processBasicMethod :: "'dt BasicMethod \<Rightarrow> 'c \<Rightarrow> 'c"
  vt_processConfirmMethod :: "ConfirmMethod \<Rightarrow> 'c \<Rightarrow> 'c"
  vt_processMessage :: "('dt, 'g) message \<Rightarrow> 'c \<Rightarrow> 'c"
  vt_onOpen :: "'c \<Rightarrow> 'c"
  vt_onReset :: "'c \<Rightarrow> 'c"
  vt_onFlowAllowed :: "'c \<Rightarrow> 'c"
  vt_processFailures :: "'c \<Rightarrow> 'c"

definition emit ::
  "('dt, 'g, 'e) channel_event \<Rightarrow> ('dt, 'g, 'e, 'z) channel_scheme \<Rightarrow> ('dt, 'g, 'e, 'z) channel_scheme" where
  "emit e ch = ch\<lparr>ch_trace := ch_trace ch @ [e]\<rparr>"

definition Channel_ready :: "('dt, 'g, 'e, 'z) channel_scheme \<Rightarrow> ('dt, 'g, 'e, 'z) channel_scheme" where
  "Channel_ready ch =
     (let ch = (emit Ev_timer_cancel ch)\<lparr>ch_state := READY\<rparr> in
      emit Ev_channel_ready
        (ch\<lparr>ch_trace := ch_trace ch @ map (\<lambda>p. Ev_resolve p Result_ok) (ch_readyMade ch), ch_readyMade := []\<rparr>))"

definition updateState ::
  "channel_state \<Rightarrow> ('dt, 'g, 'e, 'z) channel_scheme \<Rightarrow> ('dt, 'g, 'e, 'z) channel_scheme" where
  "updateState s ch = (if s = READY then Channel_ready ch else ch\<lparr>ch_state := s\<rparr>)"

text \<open>The two overloads of \<open>writeMessage\<close>.\<close>

definition writeMessage ::
  "('dt, 'g) amqp_message \<Rightarrow> write_callback \<Rightarrow> ('dt, 'g, 'e, 'z) channel_scheme \<Rightarrow>
     ('dt, 'g, 'e, 'z) channel_scheme" where
  "writeMessage m cb ch = emit (Ev_write m cb) ch"

definition writeMessage_state ::
  "('dt, 'g) amqp_message \<Rightarrow> channel_state \<Rightarrow> ('dt, 'g, 'e, 'z) channel_scheme \<Rightarrow>
     ('dt, 'g, 'e, 'z) channel_scheme" where
  "writeMessage_state m newState ch = emit (Ev_write m WC_onWriteComplete) (updateState newState ch)"

definition Channel_close ::
  "u16 \<Rightarrow> bytes \<Rightarrow> u16 \<Rightarrow> u16 \<Rightarrow> ('dt, 'g, 'e, 'z) channel_scheme \<Rightarrow> ('dt, 'g, 'e, 'z) channel_scheme" where
  "Channel_close replyCode replyText failingClassId failingMethodId ch =
     writeMessage_state
       (Msg_Method (Channel (M_ChannelClose
          \<lparr>chClose_replyCode = replyCode, chClose_replyText = replyText, chClose_classId = failingClassId,
           chClose_methodId = failingMethodId\<rparr>)))
       CHANNEL_CLOSE_SENT ch"

definition Channel_open :: "('dt, 'g, 'e, 'z) channel_scheme \<Rightarrow> ('dt, 'g, 'e, 'z) channel_scheme" where
  "Channel_open ch =
     (if ch_permanentlyClosing ch then ch
      else writeMessage_state (Msg_Method (Channel M_ChannelOpen)) CHANNEL_OPEN_SENT (emit Ev_timer_start ch))"

definition Channel_gracefulClose :: "('dt, 'g, 'e, 'z) channel_scheme \<Rightarrow> ('dt, 'g, 'e, 'z) channel_scheme" where
  "Channel_gracefulClose ch =
     (let ch = ch\<lparr>ch_permanentlyClosing := True\<rparr> in
      if ch_state ch = CLOSED \<or> ch_state ch = CHANNEL_CLOSE_SENT then ch
      else Channel_close REPLY_SUCCESS (bstr ''Closing Channel'') 0 0 ch)"

text \<open>The do-while loop over the queue of updates, followed by the sending of the first that needs replies.\<close>

function sendNextUpdate ::
  "'dt live_objects \<Rightarrow> ('dt, 'g, 'e, 'z) channel_scheme \<Rightarrow> ('dt, 'g, 'e, 'z) channel_scheme" where
  "sendNextUpdate lv ch =
     (case ch_updateQueue ch of
        [] \<Rightarrow> ch
      | (u, p) # q \<Rightarrow>
          let tt = TopologyTransformer_update lv u in
          if tt_error tt then
            emit (Ev_resolve p (Result_error (bstr ''TopologyTransformer failed to update topology'')))
              (Channel_close CHANNEL_ERROR (bstr ''Error occurred, while updating topology'') 0 0 ch)
          else if isDone tt then
            sendNextUpdate lv ((emit (Ev_resolve p Result_ok) ch)\<lparr>ch_updateQueue := q\<rparr>)
          else
            (case sendAllMessages tt of
               (ms, tt') \<Rightarrow>
                 fold (\<lambda>m. writeMessage m WC_noop) ms
                   (ch\<lparr>ch_topologyTransformer := Some tt', ch_topologyCallback := Some (TC_promise p)\<rparr>)))"
  by pat_completeness auto
termination
  by (relation "measure (\<lambda>(lv, ch). length (ch_updateQueue ch))") auto

declare sendNextUpdate.simps [simp del]

definition updateTopology ::
  "'dt live_objects \<Rightarrow> 'dt topology_update \<Rightarrow> ('dt, 'g, 'e, 'z) channel_scheme \<Rightarrow>
     nat \<times> ('dt, 'g, 'e, 'z) channel_scheme" where
  "updateTopology lv u ch =
     (let p = ch_promises ch;
          ch = ch\<lparr>ch_promises := p + 1, ch_updateQueue := ch_updateQueue ch @ [(u, p)]\<rparr> in
      (p, case ch_topologyTransformer ch of
            None \<Rightarrow> sendNextUpdate lv ch
          | Some tt \<Rightarrow> if isDone tt then sendNextUpdate lv ch else ch))"

definition topologyDeclared ::
  "('dt, 'g, ('dt, 'g, 'e, 'z) channel_scheme) channel_vt \<Rightarrow> result \<Rightarrow> ('dt, 'g, 'e, 'z) channel_scheme \<Rightarrow>
     ('dt, 'g, 'e, 'z) channel_scheme" where
  "topologyDeclared vt r ch =
     (case r of
        Result_error _ \<Rightarrow>
          Channel_close CHANNEL_ERROR (bstr ''Error occurred, while declaring topology'') 0 0 ch
      | Result_ok \<Rightarrow> vt_onOpen vt (emit Ev_timer_cancel (updateState TOPOLOGY_LOADED ch)))"

definition callTopologyCallback ::
  "('dt, 'g, ('dt, 'g, 'e, 'z) channel_scheme) channel_vt \<Rightarrow> result \<Rightarrow> ('dt, 'g, 'e, 'z) channel_scheme \<Rightarrow>
     ('dt, 'g, 'e, 'z) channel_scheme" where
  "callTopologyCallback vt r ch =
     (case ch_topologyCallback ch of
        None \<Rightarrow> ch
      | Some TC_topologyDeclared \<Rightarrow> topologyDeclared vt r ch
      | Some (TC_promise p) \<Rightarrow> emit (Ev_resolve p r) ch)"

definition declareTopology ::
  "('dt, 'g, ('dt, 'g, 'e, 'z) channel_scheme) channel_vt \<Rightarrow> 'dt live_objects \<Rightarrow>
     ('dt, 'g, 'e, 'z) channel_scheme \<Rightarrow> ('dt, 'g, 'e, 'z) channel_scheme" where
  "declareTopology vt lv ch =
     (let tt = TopologyTransformer lv (ch_topology ch) in
      if tt_error tt then
        (Channel_close CHANNEL_ERROR (bstr ''Error occurred, while declaring topology'') 0 0 ch)
          \<lparr>ch_topologyTransformer := None\<rparr>
      else if isDone tt then sendNextUpdate lv (topologyDeclared vt Result_ok ch)
      else
        (case sendAllMessages tt of
           (ms, tt') \<Rightarrow>
             fold (\<lambda>m. writeMessage_state m DECLARING_TOPOLOGY) ms
               (ch\<lparr>ch_topologyTransformer := Some tt', ch_topologyCallback := Some TC_topologyDeclared\<rparr>)))"

text \<open>The failure path that two branches of \<open>processTopologyMethod\<close> share.\<close>

definition topologyFailed ::
  "('dt, 'g, ('dt, 'g, 'e, 'z) channel_scheme) channel_vt \<Rightarrow> ('dt, 'g, 'e, 'z) channel_scheme \<Rightarrow>
     ('dt, 'g, 'e, 'z) channel_scheme" where
  "topologyFailed vt ch =
     (callTopologyCallback vt (Result_error (bstr ''Error occurred, while declaring topology''))
        (Channel_close CHANNEL_ERROR (bstr ''Error occurred, while declaring topology'') 0 0 ch))
       \<lparr>ch_topologyTransformer := None\<rparr>"

definition processTopologyMethod ::
  "('dt, 'g, ('dt, 'g, 'e, 'z) channel_scheme) channel_vt \<Rightarrow> 'dt live_objects \<Rightarrow> 'dt Method \<Rightarrow>
     ('dt, 'g, 'e, 'z) channel_scheme \<Rightarrow> ('dt, 'g, 'e, 'z) channel_scheme" where
  "processTopologyMethod vt lv method ch =
     (if ch_state ch \<noteq> DECLARING_TOPOLOGY \<and> ch_state ch \<noteq> READY \<and> ch_state ch \<noteq> AWAITING_REPLY then ch
      else
        case ch_topologyTransformer ch of
          None \<Rightarrow> topologyFailed vt ch
        | Some tt \<Rightarrow>
            let ch = (if ch_state ch = DECLARING_TOPOLOGY then emit Ev_timer_reset ch else ch) in
            (case processReplyMessage (Msg_Method method) tt of
               (False, tt') \<Rightarrow> topologyFailed vt (ch\<lparr>ch_topologyTransformer := Some tt'\<rparr>)
             | (True, tt') \<Rightarrow>
                 let ch = ch\<lparr>ch_topologyTransformer := Some tt'\<rparr> in
                 if \<not> isDone tt' then ch
                 else if ch_state ch \<noteq> DECLARING_TOPOLOGY \<and> ch_updateQueue ch = [] then ch
                 else
                   let ch = (if ch_state ch \<noteq> DECLARING_TOPOLOGY
                             then ch\<lparr>ch_topology := merge lv (ch_topology ch) (fst (hd (ch_updateQueue ch))),
                                     ch_updateQueue := tl (ch_updateQueue ch)\<rparr>
                             else ch) in
                   sendNextUpdate lv
                     ((callTopologyCallback vt Result_ok ch)\<lparr>ch_topologyTransformer := None\<rparr>)))"

definition Channel_reset ::
  "('dt, 'g, ('dt, 'g, 'e, 'z) channel_scheme) channel_vt \<Rightarrow> bool \<Rightarrow> ('dt, 'g, 'e, 'z) channel_scheme \<Rightarrow>
     cleanup_indicator \<times> ('dt, 'g, 'e, 'z) channel_scheme" where
  "Channel_reset vt startRetry ch =
     (let ch = vt_onReset vt (vt_processFailures vt (updateState CLOSED ch));
          ch = (if startRetry then emit Ev_retry ch else ch);
          ch = emit Ev_channel_disconnected ch in
      (if ch_permanentlyClosing ch then CLEANUP else KEEP, ch))"

text \<open>The visitor \<open>ChannelMethodProcessor\<close>.\<close>

definition processChannelMethod ::
  "('dt, 'g, ('dt, 'g, 'e, 'z) channel_scheme) channel_vt \<Rightarrow> 'dt live_objects \<Rightarrow> ChannelMethod \<Rightarrow>
     ('dt, 'g, 'e, 'z) channel_scheme \<Rightarrow> cleanup_indicator \<times> ('dt, 'g, 'e, 'z) channel_scheme" where
  "processChannelMethod vt lv method ch =
     (case method of
        M_ChannelOpenOk \<Rightarrow>
          let ch = emit Ev_timer_reset ch in
          if ch_state ch \<noteq> CHANNEL_OPEN_SENT
          then (KEEP, Channel_close UNEXPECTED_FRAME (bstr ''Unexpected frame'') CLASS_CHANNEL CHANNEL_OPENOK ch)
          else (KEEP, declareTopology vt lv (updateState DECLARING_TOPOLOGY ch))
      | M_ChannelFlow f \<Rightarrow>
          if flow_activeFlow f then
            (KEEP, writeMessage (Msg_Method (Channel (M_ChannelFlowOk \<lparr>flowOk_activeFlow = True\<rparr>))) WC_noop
                     (vt_onFlowAllowed vt (ch\<lparr>ch_flow := True\<rparr>)))
          else
            (KEEP, writeMessage (Msg_Method (Channel (M_ChannelFlowOk \<lparr>flowOk_activeFlow = False\<rparr>))) WC_noop
                     (ch\<lparr>ch_flow := False\<rparr>))
      | M_ChannelClose c \<Rightarrow>
          let ch = writeMessage_state (Msg_Method (Channel M_ChannelCloseOk)) CLOSED ch in
          (KEEP, if chClose_classId c \<noteq> 0 \<or> chClose_methodId c \<noteq> 0
                 then emit (Ev_error_callback (bstr ''Channel error '' @ chClose_replyText c) (chClose_replyCode c)) ch
                 else ch)
      | M_ChannelCloseOk \<Rightarrow>
          if ch_permanentlyClosing ch then (CLEANUP, ch)
          else (KEEP, snd (Channel_reset vt True ch))
      | _ \<Rightarrow> (KEEP, ch))"

definition Channel_processReceived ::
  "('dt, 'g, ('dt, 'g, 'e, 'z) channel_scheme) channel_vt \<Rightarrow> 'dt live_objects \<Rightarrow> ('dt, 'g) amqp_message \<Rightarrow>
     ('dt, 'g, 'e, 'z) channel_scheme \<Rightarrow> cleanup_indicator \<times> ('dt, 'g, 'e, 'z) channel_scheme" where
  "Channel_processReceived vt lv message ch =
     (if ch_state ch = CLOSED then (KEEP, ch)
      else case message of
        Msg_Method method \<Rightarrow>
          (case method of
             Channel m \<Rightarrow> processChannelMethod vt lv m ch
           | Basic m \<Rightarrow> (KEEP, vt_processBasicMethod vt m ch)
           | Confirm m \<Rightarrow> (KEEP, vt_processConfirmMethod vt m ch)
           | Queue _ \<Rightarrow> (KEEP, processTopologyMethod vt lv method ch)
           | Exchange _ \<Rightarrow> (KEEP, processTopologyMethod vt lv method ch)
           | _ \<Rightarrow> (KEEP, ch))
      | Msg_Content m \<Rightarrow> (KEEP, vt_processMessage vt m ch)
      | _ \<Rightarrow> (KEEP, ch))"

definition onWriteComplete ::
  "('dt, 'g, ('dt, 'g, 'e, 'z) channel_scheme) channel_vt \<Rightarrow> ('dt, 'g, 'e, 'z) channel_scheme \<Rightarrow>
     ('dt, 'g, 'e, 'z) channel_scheme" where
  "onWriteComplete vt ch =
     (if ch_state ch = CLOSED then snd (Channel_reset vt (\<not> ch_permanentlyClosing ch) ch) else ch)"

text \<open>A future: \<open>Inl p\<close> is pending under the name \<open>p\<close>, \<open>Inr\<close> is resolved already.\<close>

definition waitForReady ::
  "('dt, 'g, 'e, 'z) channel_scheme \<Rightarrow> (nat + result) \<times> ('dt, 'g, 'e, 'z) channel_scheme" where
  "waitForReady ch =
     (if ch_state ch \<noteq> READY
      then (Inl (ch_promises ch),
            ch\<lparr>ch_promises := ch_promises ch + 1, ch_readyMade := ch_readyMade ch @ [ch_promises ch]\<rparr>)
      else (Inr Result_ok, ch))"

definition channelHung ::
  "interrupt_reason \<Rightarrow> ('dt, 'g, 'e, 'z) channel_scheme \<Rightarrow> ('dt, 'g, 'e, 'z) channel_scheme" where
  "channelHung reason ch = (if reason = CANCEL then ch else emit Ev_conn_error ch)"

text \<open>The base versions of the virtual functions that need not be overridden.\<close>

definition Channel_vt :: "('dt, 'g, ('dt, 'g, 'e, 'z) channel_scheme) channel_vt" where
  "Channel_vt = \<lparr>vt_processBasicMethod = (\<lambda>_ ch. ch), vt_processConfirmMethod = (\<lambda>_ ch. ch),
     vt_processMessage = (\<lambda>_ ch. ch), vt_onOpen = Channel_ready, vt_onReset = (\<lambda>ch. ch),
     vt_onFlowAllowed = (\<lambda>ch. ch), vt_processFailures = (\<lambda>ch. ch)\<rparr>"

text \<open>A channel that receives a sequence of methods.\<close>

definition receiveAll ::
  "('dt, 'g, ('dt, 'g, 'e, 'z) channel_scheme) channel_vt \<Rightarrow> 'dt live_objects \<Rightarrow> 'dt Method list \<Rightarrow>
     ('dt, 'g, 'e, 'z) channel_scheme \<Rightarrow> ('dt, 'g, 'e, 'z) channel_scheme" where
  "receiveAll vt lv ms ch = fold (\<lambda>m ch. snd (Channel_processReceived vt lv (Msg_Method m) ch)) ms ch"

definition close_message :: "u16 \<Rightarrow> bytes \<Rightarrow> u16 \<Rightarrow> u16 \<Rightarrow> ('dt, 'g) amqp_message" where
  "close_message code txt cls mth = Msg_Method (Channel (M_ChannelClose
     \<lparr>chClose_replyCode = code, chClose_replyText = txt, chClose_classId = cls, chClose_methodId = mth\<rparr>))"

definition empty_topology :: "'dt topology" where
  "empty_topology = \<lparr>t_queues = [], t_exchanges = [], t_queueBindings = [], t_exchangeBindings = []\<rparr>"

definition sample_channel :: "(nat, nat, unit) channel" where
  "sample_channel = \<lparr>ch_flow = True, ch_state = CHANNEL_OPEN_SENT, ch_topology = sample_topology,
     ch_topologyTransformer = None, ch_topologyCallback = None, ch_updateQueue = [],
     ch_permanentlyClosing = False, ch_readyMade = [], ch_promises = 0, ch_trace = []\<rparr>"

section \<open>Invariants of derived classes\<close>

text \<open>The events that the base class itself causes: methods that are not of class basic, and everything that
  is neither content nor specific to a derived class.\<close>

fun base_event :: "('dt, 'g, 'e) channel_event \<Rightarrow> bool" where
  "base_event (Ev_write (Msg_Method m) cb) \<longleftrightarrow> (case m of Basic _ \<Rightarrow> False | _ \<Rightarrow> True)"
| "base_event (Ev_write _ cb) \<longleftrightarrow> False"
| "base_event (Ev_client _) \<longleftrightarrow> False"
| "base_event Ev_channel_disconnected \<longleftrightarrow> False"
| "base_event _ \<longleftrightarrow> True"

definition topology_message :: "('dt, 'g) amqp_message \<Rightarrow> bool" where
  "topology_message m = (case m of Msg_Method (Queue _) \<Rightarrow> True | Msg_Method (Exchange _) \<Rightarrow> True | _ \<Rightarrow> False)"

lemma topology_message_base: "topology_message m \<Longrightarrow> base_event (Ev_write m cb)"
  by (auto simp: topology_message_def split: amqp_message.splits Method.splits)

lemma update_messages:
  "\<forall>m \<in> set (fst (sendAllMessages (TopologyTransformer_update lv u))). topology_message m"
proof -
  have "topology_message (Msg_Method m)" if "update_method lv x = Some m" for x m
    using that by (cases x) (auto simp: topology_message_def queue_bind_def queue_unbind_def
        queue_delete_method_def bind_eq_Some_conv)
  then show ?thesis
    by (auto simp: sent_messages [OF built_update] map_filter_set dest!: sym [of "Some _"])
qed

lemma topology_methods_kind:
  assumes "Some m \<in> set (topology_methods lv t)"
  shows "topology_message (Msg_Method m)"
proof -
  consider (q) q where "m = queue_declare q" | (x) x where "m = exchange_declare x"
    | (qb) b where "queue_bind lv b = Some m" | (xb) b where "exchange_bind lv b = Some m"
    using assms unfolding topology_methods_def by (simp add: image_iff) metis
  then show ?thesis
    by cases (auto simp: topology_message_def queue_declare_def exchange_declare_def queue_bind_def
        exchange_bind_def bind_eq_Some_conv)
qed

lemma topology_messages:
  "\<forall>m \<in> set (fst (sendAllMessages (TopologyTransformer lv t))). topology_message m"
  by (auto simp: sent_messages [OF built_topology] map_filter_set intro: topology_methods_kind)

text \<open>A predicate on a derived class that is independent of the members of the base class and of the events
  the base class causes is kept by the operations that call no virtual function.\<close>

locale channel_members =
  fixes Inv :: "('dt, 'g, 'e, 'z) channel_scheme \<Rightarrow> bool"
  assumes inv_flow: "Inv ch \<Longrightarrow> Inv (ch\<lparr>ch_flow := f\<rparr>)"
    and inv_state: "Inv ch \<Longrightarrow> Inv (ch\<lparr>ch_state := s\<rparr>)"
    and inv_topology: "Inv ch \<Longrightarrow> Inv (ch\<lparr>ch_topology := t\<rparr>)"
    and inv_transformer: "Inv ch \<Longrightarrow> Inv (ch\<lparr>ch_topologyTransformer := tt\<rparr>)"
    and inv_callback: "Inv ch \<Longrightarrow> Inv (ch\<lparr>ch_topologyCallback := cb\<rparr>)"
    and inv_queue: "Inv ch \<Longrightarrow> Inv (ch\<lparr>ch_updateQueue := q\<rparr>)"
    and inv_closing: "Inv ch \<Longrightarrow> Inv (ch\<lparr>ch_permanentlyClosing := b\<rparr>)"
    and inv_readyMade: "Inv ch \<Longrightarrow> Inv (ch\<lparr>ch_readyMade := rm\<rparr>)"
    and inv_promises: "Inv ch \<Longrightarrow> Inv (ch\<lparr>ch_promises := p\<rparr>)"
    and inv_emit: "Inv ch \<Longrightarrow> base_event e \<Longrightarrow> Inv (emit e ch)"
begin

lemma inv_emits:
  "Inv ch \<Longrightarrow> \<forall>e \<in> set es. base_event e \<Longrightarrow> Inv (ch\<lparr>ch_trace := ch_trace ch @ es\<rparr>)"
proof (induction es arbitrary: ch)
  case (Cons e es)
  then have "Inv (emit e ch)"
    by (auto intro: inv_emit)
  then show ?case
    using Cons.IH [of "emit e ch"] Cons.prems(2) by (simp add: emit_def)
qed simp

lemma inv_ready: "Inv ch \<Longrightarrow> Inv (Channel_ready ch)"
  unfolding Channel_ready_def Let_def
  by (intro inv_emit inv_readyMade inv_emits inv_state) auto

lemma inv_updateState: "Inv ch \<Longrightarrow> Inv (updateState s ch)"
  by (simp add: updateState_def inv_ready inv_state)

lemma inv_writeMessage_state:
  "Inv ch \<Longrightarrow> base_event (Ev_write m WC_onWriteComplete :: ('dt, 'g, 'e) channel_event) \<Longrightarrow>
     Inv (writeMessage_state m s ch)"
  by (simp add: writeMessage_state_def inv_emit inv_updateState)

lemma inv_close: "Inv ch \<Longrightarrow> Inv (Channel_close c t ci mi ch)"
  by (simp add: Channel_close_def inv_writeMessage_state)

lemma inv_open: "Inv ch \<Longrightarrow> Inv (Channel_open ch)"
  by (simp add: Channel_open_def inv_writeMessage_state inv_emit)

lemma inv_gracefulClose: "Inv ch \<Longrightarrow> Inv (Channel_gracefulClose ch)"
  by (simp add: Channel_gracefulClose_def Let_def inv_close inv_closing)

lemma inv_writeMessage:
  "Inv ch \<Longrightarrow> base_event (Ev_write m cb :: ('dt, 'g, 'e) channel_event) \<Longrightarrow> Inv (writeMessage m cb ch)"
  by (simp add: writeMessage_def inv_emit)

lemma inv_write_all:
  "Inv ch \<Longrightarrow> \<forall>m \<in> set ms. topology_message m \<Longrightarrow> Inv (fold (\<lambda>m. writeMessage m WC_noop) ms ch)"
  by (induction ms arbitrary: ch) (auto intro: inv_writeMessage topology_message_base)

lemma inv_write_all_state:
  "Inv ch \<Longrightarrow> \<forall>m \<in> set ms. topology_message m \<Longrightarrow> Inv (fold (\<lambda>m. writeMessage_state m s) ms ch)"
  by (induction ms arbitrary: ch) (auto intro: inv_writeMessage_state topology_message_base)

lemma inv_sendNextUpdate: "Inv ch \<Longrightarrow> Inv (sendNextUpdate lv ch)"
proof (induction lv ch rule: sendNextUpdate.induct)
  case (1 lv ch)
  show ?case
  proof (cases "ch_updateQueue ch")
    case Nil
    then show ?thesis
      using 1(2) by (simp add: sendNextUpdate.simps)
  next
    case (Cons x q)
    obtain u p where x: "x = (u, p)" by (cases x)
    let ?tt = "TopologyTransformer_update lv u :: ('dt, 'g) topology_transformer"
    consider (error) "tt_error ?tt" | (finished) "\<not> tt_error ?tt" "isDone ?tt"
      | (send) "\<not> tt_error ?tt" "\<not> isDone ?tt" by blast
    then show ?thesis
    proof cases
      case error
      then show ?thesis
        using 1(2) Cons x by (simp add: sendNextUpdate.simps [of lv ch] inv_emit inv_close)
    next
      case finished
      have "Inv (sendNextUpdate lv ((emit (Ev_resolve p Result_ok) ch)\<lparr>ch_updateQueue := q\<rparr>))"
        using finished Cons x inv_queue [OF inv_emit [OF 1(2), of "Ev_resolve p Result_ok"]]
        by (intro 1(1)) simp_all
      then show ?thesis
        using finished Cons x by (simp add: sendNextUpdate.simps [of lv ch])
    next
      case send
      then show ?thesis
        using 1(2) Cons x update_messages [of lv u, where ?'b = 'g]
        by (auto simp: sendNextUpdate.simps [of lv ch] split: prod.splits
            intro!: inv_write_all inv_transformer inv_callback)
    qed
  qed
qed

lemma inv_updateTopology: "Inv ch \<Longrightarrow> Inv (snd (updateTopology lv u ch))"
  by (auto simp: updateTopology_def Let_def split: option.splits
      intro!: inv_sendNextUpdate inv_promises inv_queue)

end

text \<open>If the overrides and a reset keep it too, every operation of the base class does.\<close>

locale channel_invariant = channel_members Inv
  for Inv :: "('dt, 'g, 'e, 'z) channel_scheme \<Rightarrow> bool" +
  fixes vt :: "('dt, 'g, ('dt, 'g, 'e, 'z) channel_scheme) channel_vt"
  assumes inv_basic: "Inv ch \<Longrightarrow> Inv (vt_processBasicMethod vt bm ch)"
    and inv_confirm: "Inv ch \<Longrightarrow> Inv (vt_processConfirmMethod vt cm ch)"
    and inv_message: "Inv ch \<Longrightarrow> Inv (vt_processMessage vt m ch)"
    and inv_onOpen: "Inv ch \<Longrightarrow> Inv (vt_onOpen vt ch)"
    and inv_onFlowAllowed: "Inv ch \<Longrightarrow> Inv (vt_onFlowAllowed vt ch)"
    and inv_reset: "Inv ch \<Longrightarrow> Inv (snd (Channel_reset vt r ch))"
begin

lemma inv_topologyDeclared: "Inv ch \<Longrightarrow> Inv (topologyDeclared vt r ch)"
  by (cases r) (simp_all add: topologyDeclared_def inv_close inv_onOpen inv_emit inv_updateState)

lemma inv_callTopologyCallback: "Inv ch \<Longrightarrow> Inv (callTopologyCallback vt r ch)"
  by (auto simp: callTopologyCallback_def inv_topologyDeclared inv_emit split: option.splits topology_callback.splits)

lemma inv_declareTopology: "Inv ch \<Longrightarrow> Inv (declareTopology vt lv ch)"
  using topology_messages [of lv "ch_topology ch", where ?'b = 'g]
  by (auto simp: declareTopology_def Let_def split: prod.splits
      intro!: inv_transformer inv_close inv_sendNextUpdate inv_topologyDeclared inv_write_all_state inv_callback)

lemma inv_topologyFailed: "Inv ch \<Longrightarrow> Inv (topologyFailed vt ch)"
  by (simp add: topologyFailed_def inv_transformer inv_callTopologyCallback inv_close)

lemma inv_processTopologyMethod: "Inv ch \<Longrightarrow> Inv (processTopologyMethod vt lv m ch)"
  by (auto simp: processTopologyMethod_def Let_def split: option.splits prod.splits bool.splits
      intro!: inv_topologyFailed inv_transformer inv_sendNextUpdate inv_callTopologyCallback inv_queue
        inv_topology inv_emit)

lemma inv_processChannelMethod: "Inv ch \<Longrightarrow> Inv (snd (processChannelMethod vt lv m ch))"
  by (cases m) (auto simp: processChannelMethod_def Let_def
      intro!: inv_close inv_declareTopology inv_updateState inv_emit inv_writeMessage inv_onFlowAllowed
        inv_flow inv_writeMessage_state inv_reset)

lemma inv_processReceived: "Inv ch \<Longrightarrow> Inv (snd (Channel_processReceived vt lv msg ch))"
  by (auto simp: Channel_processReceived_def split: amqp_message.splits Method.splits
      intro!: inv_processChannelMethod inv_basic inv_confirm inv_processTopologyMethod inv_message)

lemma inv_onWriteComplete: "Inv ch \<Longrightarrow> Inv (onWriteComplete vt ch)"
  by (simp add: onWriteComplete_def inv_reset)

lemma inv_waitForReady: "Inv ch \<Longrightarrow> Inv (snd (waitForReady ch))"
  by (simp add: waitForReady_def inv_promises inv_readyMade)

lemma inv_channelHung: "Inv ch \<Longrightarrow> Inv (channelHung r ch)"
  by (simp add: channelHung_def inv_emit)

end

section \<open>Declaring the topology\<close>

lemmas channel_eval = Channel_open_def Channel_reset_def Channel_processReceived_def processChannelMethod_def
  declareTopology_def topologyDeclared_def writeMessage_state_def writeMessage_def updateState_def emit_def
  Channel_ready_def Channel_close_def Channel_gracefulClose_def onWriteComplete_def Let_def

lemma empty_topology_transformer:
  "TopologyTransformer lv empty_topology = Transformer_empty"
  by (simp add: TopologyTransformer_def empty_topology_def)

lemma Transformer_empty_done [simp]: "isDone Transformer_empty" "\<not> tt_error Transformer_empty"
  by (simp_all add: isDone_def Transformer_empty_def)

lemma sendNextUpdate_none [simp]: "ch_updateQueue ch = [] \<Longrightarrow> sendNextUpdate lv ch = ch"
  by (simp add: sendNextUpdate.simps)

lemma receiveAll_Cons:
  "receiveAll vt lv (m # ms) ch = receiveAll vt lv ms (snd (Channel_processReceived vt lv (Msg_Method m) ch))"
  by (simp add: receiveAll_def)

lemma topology_answer: "answers m r \<Longrightarrow> (\<exists>q. r = Queue q) \<or> (\<exists>x. r = Exchange x)"
  by (auto simp: answers_def split: Method.splits QueueMethod.splits ExchangeMethod.splits)

lemma receive_topology:
  "answers m r \<Longrightarrow> ch_state ch = DECLARING_TOPOLOGY \<Longrightarrow>
     snd (Channel_processReceived vt lv (Msg_Method r) ch) = processTopologyMethod vt lv r ch"
  using topology_answer [of m r] by (auto simp: Channel_processReceived_def)

text \<open>While declaring: a right answer is taken, and the last one completes the declaration.\<close>

lemma declaring_answer:
  assumes st: "ch_state ch = DECLARING_TOPOLOGY" "ch_topologyTransformer ch = Some tt"
    "ch_topologyCallback ch = Some TC_topologyDeclared"
    and tt: "awaits tt (m # ms)" "tt_sentMessageCount tt = length (tt_messages tt)"
    and ans: "answers m r"
  obtains tt' where "awaits tt' ms" "tt_sentMessageCount tt' = length (tt_messages tt')"
    "processTopologyMethod vt lv r ch =
       (if ms = [] then
          sendNextUpdate lv ((topologyDeclared vt Result_ok
            ((emit Ev_timer_reset ch)\<lparr>ch_topologyTransformer := Some tt'\<rparr>))\<lparr>ch_topologyTransformer := None\<rparr>)
        else (emit Ev_timer_reset ch)\<lparr>ch_topologyTransformer := Some tt'\<rparr>)"
proof -
  note step = processReply_step [OF tt(1), of r]
  obtain tt' where p: "processReplyMessage (Msg_Method r) tt = (True, tt')"
    using step(1) ans by (cases "processReplyMessage (Msg_Method r) tt") auto
  then have tt': "awaits tt' ms" "tt_sentMessageCount tt' = length (tt_messages tt')"
    using step ans tt(2) by simp_all
  then have "isDone tt' \<longleftrightarrow> ms = []"
    by (auto simp: isDone_def awaits_def)
  then show thesis
    using st p by (intro that [OF tt'])
      (simp_all add: processTopologyMethod_def callTopologyCallback_def emit_def)
qed

lemma declaring_answers:
  assumes "list_all2 answers ms rs" "ms \<noteq> []"
    "ch_state ch = DECLARING_TOPOLOGY" "ch_topologyTransformer ch = Some tt"
    "ch_topologyCallback ch = Some TC_topologyDeclared"
    "awaits tt ms" "tt_sentMessageCount tt = length (tt_messages tt)"
  shows "(\<forall>k < length rs. ch_state (receiveAll vt lv (take k rs) ch) = DECLARING_TOPOLOGY) \<and>
     (\<exists>tt'. receiveAll vt lv rs ch =
        sendNextUpdate lv ((topologyDeclared vt Result_ok
          (ch\<lparr>ch_trace := ch_trace ch @ replicate (length rs) Ev_timer_reset, ch_topologyTransformer := Some tt'\<rparr>))
          \<lparr>ch_topologyTransformer := None\<rparr>))"
  using assms
proof (induction ms rs arbitrary: ch tt rule: list_all2_induct)
  case (Cons m ms r rs)
  obtain tt' where tt': "awaits tt' ms" "tt_sentMessageCount tt' = length (tt_messages tt')"
    "processTopologyMethod vt lv r ch =
       (if ms = [] then
          sendNextUpdate lv ((topologyDeclared vt Result_ok
            ((emit Ev_timer_reset ch)\<lparr>ch_topologyTransformer := Some tt'\<rparr>))\<lparr>ch_topologyTransformer := None\<rparr>)
        else (emit Ev_timer_reset ch)\<lparr>ch_topologyTransformer := Some tt'\<rparr>)"
    using declaring_answer [OF Cons.prems(2-6) Cons.hyps(1)] by metis
  note rc = receive_topology [OF Cons.hyps(1) Cons.prems(2), where vt = vt and lv = lv]
  show ?case
  proof (cases "ms = []")
    case True
    then have "rs = []"
      using Cons.hyps(2) by simp
    then show ?thesis
      using True tt'(3) Cons.prems(2) by (auto simp: receiveAll_def rc emit_def)
  next
    case False
    let ?ch = "(emit Ev_timer_reset ch)\<lparr>ch_topologyTransformer := Some tt'\<rparr>"
    have step: "snd (Channel_processReceived vt lv (Msg_Method r) ch) = ?ch"
      using False rc tt'(3) by simp
    have IH: "(\<forall>k < length rs. ch_state (receiveAll vt lv (take k rs) ?ch) = DECLARING_TOPOLOGY) \<and>
      (\<exists>tt'. receiveAll vt lv rs ?ch =
        sendNextUpdate lv ((topologyDeclared vt Result_ok
          (?ch\<lparr>ch_trace := ch_trace ?ch @ replicate (length rs) Ev_timer_reset, ch_topologyTransformer := Some tt'\<rparr>))
          \<lparr>ch_topologyTransformer := None\<rparr>))"
      using Cons.prems tt' False by (intro Cons.IH [of ?ch tt']) (simp_all add: emit_def)
    have "ch_state (receiveAll vt lv (take k (r # rs)) ch) = DECLARING_TOPOLOGY" if "k < length (r # rs)" for k
      using that IH step Cons.prems(2) by (cases k) (simp_all add: receiveAll_Cons, simp add: receiveAll_def)
    then show ?thesis
      using IH by (auto simp: receiveAll_Cons step emit_def)
  qed
qed simp

lemma write_declarations:
  "ch_state ch = DECLARING_TOPOLOGY \<Longrightarrow>
     fold (\<lambda>m. writeMessage_state m DECLARING_TOPOLOGY) ms ch =
       ch\<lparr>ch_trace := ch_trace ch @ map (\<lambda>m. Ev_write m WC_onWriteComplete) ms\<rparr>"
proof (induction ms arbitrary: ch)
  case (Cons m ms)
  let ?ch = "writeMessage_state m DECLARING_TOPOLOGY ch"
  have "?ch = ch\<lparr>ch_trace := ch_trace ch @ [Ev_write m WC_onWriteComplete]\<rparr>"
    using Cons.prems by (intro channel.equality) (simp_all add: writeMessage_state_def updateState_def emit_def)
  then show ?case
    using Cons.IH [of ?ch] Cons.prems by simp
qed simp

lemma open_ok_declares:
  fixes ch :: "('dt, 'g, 'e, 'z) channel_scheme"
  assumes "ch_state ch = CHANNEL_OPEN_SENT"
    and live: "None \<notin> set (topology_methods lv (ch_topology ch))" and "topology_methods lv (ch_topology ch) \<noteq> []"
  obtains tt where "snd (Channel_processReceived vt lv (Msg_Method (Channel M_ChannelOpenOk)) ch) =
      ch\<lparr>ch_state := DECLARING_TOPOLOGY, ch_topologyTransformer := Some tt,
         ch_topologyCallback := Some TC_topologyDeclared,
         ch_trace := ch_trace ch @ Ev_timer_reset #
           map (\<lambda>m. Ev_write (Msg_Method (the m)) WC_onWriteComplete) (topology_methods lv (ch_topology ch))\<rparr>"
    "awaits tt (map the (topology_methods lv (ch_topology ch)))" "tt_sentMessageCount tt = length (tt_messages tt)"
proof -
  let ?ms = "map the (topology_methods lv (ch_topology ch))"
  let ?tt = "TopologyTransformer lv (ch_topology ch) :: ('dt, 'g) topology_transformer"
  have b: "built ?tt ?ms False"
    using built_topology [of lv "ch_topology ch"] live by (simp add: map_filter_all)
  let ?tt' = "?tt\<lparr>tt_sentMessageCount := length (tt_messages ?tt)\<rparr>"
  have s: "sendAllMessages ?tt = (map Msg_Method ?ms, ?tt')" and e: "\<not> tt_error ?tt" "\<not> isDone ?tt"
    using b assms(3) by (auto simp: sendAllMessages_result built_def isDone_def)
  show thesis
  proof (rule that)
    show "awaits ?tt' ?ms" "tt_sentMessageCount ?tt' = length (tt_messages ?tt')"
      using b by (simp_all add: built_def awaits_def)
    show "snd (Channel_processReceived vt lv (Msg_Method (Channel M_ChannelOpenOk)) ch) =
      ch\<lparr>ch_state := DECLARING_TOPOLOGY, ch_topologyTransformer := Some ?tt',
         ch_topologyCallback := Some TC_topologyDeclared,
         ch_trace := ch_trace ch @ Ev_timer_reset #
           map (\<lambda>m. Ev_write (Msg_Method (the m)) WC_onWriteComplete) (topology_methods lv (ch_topology ch))\<rparr>"
      using assms(1) s e
      by (simp add: Channel_processReceived_def processChannelMethod_def declareTopology_def Let_def emit_def
          updateState_def write_declarations comp_def)
  qed
qed

section \<open>Properties\<close>

text \<open>C8: Opening a channel. On \<open>channel.open-ok\<close> the channel writes the methods of its topology, in order and
  nothing else. As long as replies are missing it stays in \<open>DECLARING_TOPOLOGY\<close>; when each method has been
  answered in order, and only then, the virtual \<open>onOpen\<close> is called in state \<open>TOPOLOGY_LOADED\<close> with the timer for
  hung channels cancelled, and outstanding topology updates are started.\<close>

theorem channel_declares_topology:
  assumes "ch_state ch = CHANNEL_OPEN_SENT"
    and "None \<notin> set (topology_methods lv (ch_topology ch))" and "topology_methods lv (ch_topology ch) \<noteq> []"
    and "list_all2 answers (map the (topology_methods lv (ch_topology ch))) rs"
  shows "(\<forall>k < length rs. ch_state (receiveAll vt lv (Channel M_ChannelOpenOk # take k rs) ch) = DECLARING_TOPOLOGY) \<and>
     (\<exists>loaded. receiveAll vt lv (Channel M_ChannelOpenOk # rs) ch =
        sendNextUpdate lv ((vt_onOpen vt loaded)\<lparr>ch_topologyTransformer := None\<rparr>) \<and>
        ch_state loaded = TOPOLOGY_LOADED \<and>
        ch_trace loaded = ch_trace ch @ [Ev_timer_reset] @
          map (\<lambda>m. Ev_write (Msg_Method (the m)) WC_onWriteComplete) (topology_methods lv (ch_topology ch)) @
          replicate (length rs) Ev_timer_reset @ [Ev_timer_cancel])"
proof (rule open_ok_declares [OF assms(1-3), of vt])
  fix tt
  let ?ms = "map the (topology_methods lv (ch_topology ch))"
  let ?ch = "snd (Channel_processReceived vt lv (Msg_Method (Channel M_ChannelOpenOk)) ch)"
  assume c: "?ch = ch\<lparr>ch_state := DECLARING_TOPOLOGY, ch_topologyTransformer := Some tt,
         ch_topologyCallback := Some TC_topologyDeclared,
         ch_trace := ch_trace ch @ Ev_timer_reset #
           map (\<lambda>m. Ev_write (Msg_Method (the m)) WC_onWriteComplete) (topology_methods lv (ch_topology ch))\<rparr>"
    and tt: "awaits tt ?ms" "tt_sentMessageCount tt = length (tt_messages tt)"
  have "(\<forall>k < length rs. ch_state (receiveAll vt lv (take k rs) ?ch) = DECLARING_TOPOLOGY) \<and>
     (\<exists>tt'. receiveAll vt lv rs ?ch =
        sendNextUpdate lv ((topologyDeclared vt Result_ok
          (?ch\<lparr>ch_trace := ch_trace ?ch @ replicate (length rs) Ev_timer_reset, ch_topologyTransformer := Some tt'\<rparr>))
          \<lparr>ch_topologyTransformer := None\<rparr>))"
    by (rule declaring_answers [OF assms(4) _ _ _ _ tt]) (use assms(3) c in simp_all)
  then show ?thesis
    by (auto simp: receiveAll_Cons c topologyDeclared_def emit_def updateState_def)
qed

theorem channel_declares_topology_witness:
  "ch_state (receiveAll Channel_vt sample_live [Channel M_ChannelOpenOk] sample_channel) = DECLARING_TOPOLOGY"
proof -
  have m: "topology_methods sample_live (ch_topology sample_channel) = [Some (Queue (M_QueueBind
      \<lparr>qBind_queue = bstr ''q'', qBind_exchange = bstr ''x'', qBind_routingKey = bstr ''k'',
       qBind_noWait = False, qBind_arguments = []\<rparr>))]"
    by (simp add: topology_methods_def sample_topology_def sample_binding_def sample_live_def queue_bind_def
        sample_channel_def)
  have "ch_state sample_channel = CHANNEL_OPEN_SENT"
    by (simp add: sample_channel_def)
  from channel_declares_topology [OF this, of sample_live "[Queue M_QueueBindOk]" Channel_vt]
  show ?thesis
    by (simp add: m answers_def)
qed

text \<open>A reply that does not answer the method sent makes the channel close itself twice: one
  \<open>channel.close\<close> is written by \<open>processTopologyMethod\<close>, a second one by the declaration callback that it calls
  with the error. The code means to close the channel.\<close>

theorem bad_topology_reply_closes_twice:
  assumes "ch_state ch = DECLARING_TOPOLOGY" and "ch_topologyTransformer ch = Some tt"
    and "ch_topologyCallback ch = Some TC_topologyDeclared" and "awaits tt (m # ms)" and "\<not> answers m r"
  shows "ch_trace (processTopologyMethod vt lv r ch) = ch_trace ch @
     [Ev_timer_reset,
      Ev_write (close_message CHANNEL_ERROR (bstr ''Error occurred, while declaring topology'') 0 0) WC_onWriteComplete,
      Ev_write (close_message CHANNEL_ERROR (bstr ''Error occurred, while declaring topology'') 0 0) WC_onWriteComplete] \<and>
     ch_state (processTopologyMethod vt lv r ch) = CHANNEL_CLOSE_SENT"
proof -
  obtain tt' where "processReplyMessage (Msg_Method r) tt = (False, tt')"
    using processReply_step(1) [OF assms(4), of r] assms(5)
    by (cases "processReplyMessage (Msg_Method r) tt") auto
  then show ?thesis
    using assms(1-3)
    by (simp add: processTopologyMethod_def topologyFailed_def callTopologyCallback_def topologyDeclared_def
        Channel_close_def close_message_def writeMessage_state_def updateState_def emit_def)
qed

theorem bad_topology_reply_closes_twice_witness:
  "ch_state (processTopologyMethod Channel_vt sample_live (Queue M_QueueBindOk)
     (sample_channel\<lparr>ch_state := DECLARING_TOPOLOGY, ch_topologyCallback := Some TC_topologyDeclared,
        ch_topologyTransformer := Some (push_declaration (queue_delete_method
           \<lparr>qd_name = [], qd_ifUnused = False, qd_ifEmpty = False, qd_noWait = False\<rparr>) R_QUEUE_DELETE
           Transformer_empty)\<rparr>)) = CHANNEL_CLOSE_SENT"
proof -
  let ?d = "queue_delete_method \<lparr>qd_name = [], qd_ifUnused = False, qd_ifEmpty = False, qd_noWait = False\<rparr> :: nat Method"
  let ?tt = "push_declaration ?d R_QUEUE_DELETE Transformer_empty :: (nat, nat) topology_transformer"
  let ?ch = "sample_channel\<lparr>ch_state := DECLARING_TOPOLOGY, ch_topologyCallback := Some TC_topologyDeclared,
    ch_topologyTransformer := Some ?tt\<rparr>"
  have "awaits ?tt [?d]"
    by (simp add: awaits_def push_declaration_def Transformer_empty_def method_kinds)
  moreover have "\<not> answers ?d (Queue M_QueueBindOk)"
    by (simp add: answers_def queue_delete_method_def)
  ultimately show ?thesis
    by (intro bad_topology_reply_closes_twice [THEN conjunct2, of ?ch ?tt ?d "[]"]) simp_all
qed

end
