(* ===== verification/Message_Store.thy ===== *)
theory Message_Store
  imports Ordered_Map
begin

text \<open>
  \<open>rmqamqp::MessageStore\<close>: the unacknowledged messages of a channel, by delivery tag and by GUID.

  The template parameter \<open>Msg\<close> is the type \<open>'m\<close> with its \<open>guid()\<close> as a function argument; the time read
  from \<open>bdlt::CurrentTime\<close> is an argument. The GUID index holds iterators into the map of tags: the
  model keeps the tag an iterator points to, and dereferencing one whose entry is gone is the outcome
  \<open>Dangling\<close>, which the invariant excludes.
\<close>

record ('g, 'm, 't) message_store =
  ms_tagToMsg :: "(u64, 'm \<times> 't) omap"
  ms_guidToMsg :: "'g \<rightharpoonup> u64"
  ms_latestTagTilNow :: u64
  ms_lifetimeId :: nat

type_synonym ('m, 't) message_list = "(u64 \<times> 'm \<times> 't) list"

definition MessageStore_new :: "('g, 'm, 't) message_store" where
  "MessageStore_new =
     \<lparr>ms_tagToMsg = [], ms_guidToMsg = Map.empty, ms_latestTagTilNow = 0, ms_lifetimeId = 0\<rparr>"

definition store_insert ::
  "('m \<Rightarrow> 'g) \<Rightarrow> 't \<Rightarrow> u64 \<Rightarrow> 'm \<Rightarrow> ('g, 'm, 't) message_store \<Rightarrow>
     bool \<times> ('g, 'm, 't) message_store" where
  "store_insert guid now deliveryTag m s =
     (case om_emplace deliveryTag (m, now) (ms_tagToMsg s) of
        (_, False) \<Rightarrow> (False, s)
      | (tagToMsg, True) \<Rightarrow>
          (True,
           s\<lparr>ms_tagToMsg := tagToMsg,
             ms_guidToMsg :=
               (case ms_guidToMsg s (guid m) of
                  None \<Rightarrow> (ms_guidToMsg s)(guid m \<mapsto> deliveryTag)
                | Some _ \<Rightarrow> ms_guidToMsg s),
             ms_latestTagTilNow := max (ms_latestTagTilNow s) deliveryTag\<rparr>))"

definition store_lookup :: "u64 \<Rightarrow> ('g, 'm, 't) message_store \<Rightarrow> 'm option" where
  "store_lookup deliveryTag s = map_option fst (map_of (ms_tagToMsg s) deliveryTag)"

datatype 'm guid_lookup = Not_found | Found 'm u64 | Dangling

definition store_lookupGuid :: "'g \<Rightarrow> ('g, 'm, 't) message_store \<Rightarrow> 'm guid_lookup" where
  "store_lookupGuid g s =
     (case ms_guidToMsg s g of
        None \<Rightarrow> Not_found
      | Some tag \<Rightarrow>
          (case map_of (ms_tagToMsg s) tag of Some (m, _) \<Rightarrow> Found m tag | None \<Rightarrow> Dangling))"

definition store_remove ::
  "('m \<Rightarrow> 'g) \<Rightarrow> u64 \<Rightarrow> ('g, 'm, 't) message_store \<Rightarrow>
     ('m \<times> 't) option \<times> ('g, 'm, 't) message_store" where
  "store_remove guid deliveryTag s =
     (case map_of (ms_tagToMsg s) deliveryTag of
        None \<Rightarrow> (None, s)
      | Some (m, insertTime) \<Rightarrow>
          (Some (m, insertTime),
           s\<lparr>ms_tagToMsg := om_erase deliveryTag (ms_tagToMsg s),
             ms_guidToMsg := (ms_guidToMsg s)(guid m := None)\<rparr>))"

definition store_count :: "('g, 'm, 't) message_store \<Rightarrow> nat" where
  "store_count s = length (ms_tagToMsg s)"

text \<open>The loop of \<open>removeUntil\<close> walks the entries up to the tag, erases their GUIDs and collects them.\<close>

fun remove_loop ::
  "('m \<Rightarrow> 'g) \<Rightarrow> u64 \<Rightarrow> ('g \<rightharpoonup> u64) \<Rightarrow> ('m, 't) message_list \<Rightarrow>
     ('m, 't) message_list \<times> ('g \<rightharpoonup> u64) \<times> ('m, 't) message_list" where
  "remove_loop guid tag gm [] = ([], gm, [])"
| "remove_loop guid tag gm ((t, m, w) # es) =
     (if t \<le> tag
      then (case remove_loop guid tag (gm(guid m := None)) es of
              (removed, gm', rest) \<Rightarrow> ((t, m, w) # removed, gm', rest))
      else ([], gm, (t, m, w) # es))"

definition store_removeUntil ::
  "('m \<Rightarrow> 'g) \<Rightarrow> u64 \<Rightarrow> ('g, 'm, 't) message_store \<Rightarrow>
     ('m, 't) message_list \<times> ('g, 'm, 't) message_store" where
  "store_removeUntil guid deliveryTag s =
     (if store_count s = 0 then ([], s)
      else if map_of (ms_tagToMsg s) deliveryTag = None then ([], s)
      else case remove_loop guid deliveryTag (ms_guidToMsg s) (ms_tagToMsg s) of
             (removed, gm, rest) \<Rightarrow> (removed, s\<lparr>ms_tagToMsg := rest, ms_guidToMsg := gm\<rparr>))"

text \<open>\<open>a.swap(b)\<close>: everything but the lifetime id changes places; that of \<open>a\<close> is incremented.\<close>

definition store_swap ::
  "('g, 'm, 't) message_store \<Rightarrow> ('g, 'm, 't) message_store \<Rightarrow>
     ('g, 'm, 't) message_store \<times> ('g, 'm, 't) message_store" where
  "store_swap a b =
     (b\<lparr>ms_lifetimeId := ms_lifetimeId a + 1\<rparr>, a\<lparr>ms_lifetimeId := ms_lifetimeId b\<rparr>)"

definition latestTagInStore :: "('g, 'm, 't) message_store \<Rightarrow> u64" where
  "latestTagInStore s = (if ms_tagToMsg s = [] then 0 else fst (last (ms_tagToMsg s)))"

definition oldestTagInStore :: "('g, 'm, 't) message_store \<Rightarrow> u64" where
  "oldestTagInStore s = (if ms_tagToMsg s = [] then 0 else fst (hd (ms_tagToMsg s)))"

fun older_loop :: "'t::linorder \<Rightarrow> ('m, 't) message_list \<Rightarrow> ('m, 't) message_list" where
  "older_loop time [] = []"
| "older_loop time ((t, m, w) # es) = (if w \<le> time then (t, m, w) # older_loop time es else [])"

definition getMessagesOlderThan ::
  "'t::linorder \<Rightarrow> ('g, 'm, 't) message_store \<Rightarrow> ('m, 't) message_list" where
  "getMessagesOlderThan time s = older_loop time (ms_tagToMsg s)"

section \<open>The invariant\<close>

definition store_inv :: "('m \<Rightarrow> 'g) \<Rightarrow> ('g, 'm, 't) message_store \<Rightarrow> bool" where
  "store_inv guid s \<longleftrightarrow>
     om_inv (ms_tagToMsg s) \<and>
     (\<forall>g t. ms_guidToMsg s g = Some t \<longrightarrow>
        (\<exists>m w. map_of (ms_tagToMsg s) t = Some (m, w) \<and> guid m = g)) \<and>
     (\<forall>t. map_of (ms_tagToMsg s) t \<noteq> None \<longrightarrow> t \<le> ms_latestTagTilNow s)"

text \<open>Every stored message can be found by its GUID: true as long as no GUID is inserted twice.\<close>

definition guid_complete :: "('m \<Rightarrow> 'g) \<Rightarrow> ('g, 'm, 't) message_store \<Rightarrow> bool" where
  "guid_complete guid s \<longleftrightarrow>
     (\<forall>t m w. map_of (ms_tagToMsg s) t = Some (m, w) \<longrightarrow> ms_guidToMsg s (guid m) = Some t)"

text \<open>The entries were inserted in the order of their tags.\<close>

definition times_sorted :: "('g, 'm, 't::linorder) message_store \<Rightarrow> bool" where
  "times_sorted s \<longleftrightarrow> sorted (map (\<lambda>(t, m, w). w) (ms_tagToMsg s))"

text \<open>The GUIDs of the messages with a tag up to \<open>n\<close>.\<close>

definition guids_until :: "('m \<Rightarrow> 'g) \<Rightarrow> u64 \<Rightarrow> ('m, 't) message_list \<Rightarrow> 'g set" where
  "guids_until guid n es = set (map (\<lambda>(t, m, w). guid m) (filter (\<lambda>e. fst e \<le> n) es))"

text \<open>What the channels are promised: a finite map from delivery tags to messages and insert times.\<close>

definition store_abs :: "('g, 'm, 't) message_store \<Rightarrow> u64 \<rightharpoonup> 'm \<times> 't" where
  "store_abs s = map_of (ms_tagToMsg s)"

section \<open>The operations keep it\<close>

lemma store_insert_fresh:
  "store_insert guid now tag m s =
     (if map_of (ms_tagToMsg s) tag = None
      then (True, s\<lparr>ms_tagToMsg := om_put tag (m, now) (ms_tagToMsg s),
              ms_guidToMsg := (if ms_guidToMsg s (guid m) = None then (ms_guidToMsg s)(guid m \<mapsto> tag)
                 else ms_guidToMsg s),
              ms_latestTagTilNow := max (ms_latestTagTilNow s) tag\<rparr>)
      else (False, s))"
  by (auto simp: store_insert_def om_emplace_def split: option.splits)

lemma guids_until_Cons:
  "guids_until guid n ((t, m, w) # es) =
     (if t \<le> n then insert (guid m) (guids_until guid n es) else guids_until guid n es)"
  by (auto simp: guids_until_def)

lemma remove_loop_result:
  assumes "om_inv es"
  shows "remove_loop guid n gm es =
     (filter (\<lambda>e. fst e \<le> n) es, gm |` (- guids_until guid n es), filter (\<lambda>e. \<not> fst e \<le> n) es)"
  using assms
proof (induction es arbitrary: gm)
  case Nil
  then show ?case by (simp add: guids_until_def restrict_map_def)
next
  case (Cons e es)
  obtain t m w where e: "e = (t, m, w)" by (cases e)
  show ?case
  proof (cases "t \<le> n")
    case True
    have upd: "gm(guid m := None) |` (- guids_until guid n es) =
        gm |` (- guids_until guid n ((t, m, w) # es))"
      using True by (auto simp: fun_eq_iff restrict_map_def guids_until_Cons)
    have "remove_loop guid n (gm(guid m := None)) es = (filter (\<lambda>e. fst e \<le> n) es,
        gm |` (- guids_until guid n ((t, m, w) # es)), filter (\<lambda>e. \<not> fst e \<le> n) es)"
      unfolding upd [symmetric] by (rule Cons.IH) (use Cons.prems in simp)
    then show ?thesis
      using True e by simp
  next
    case False
    then have big: "\<forall>e \<in> set es. \<not> fst e \<le> n"
      using Cons.prems e by (auto simp: image_iff dest: order_less_le_trans)
    then have "guids_until guid n ((t, m, w) # es) = {}"
      using False by (auto simp: guids_until_def)
    then show ?thesis
      using False big e by (simp add: filter_empty_conv filter_id_conv)
  qed
qed

lemma map_of_above:
  "map_of (filter (\<lambda>e. \<not> fst e \<le> n) xs) k = (if k \<le> n then None else map_of xs k)"
  by (induction xs) auto

lemma store_removeUntil_result:
  assumes "om_inv (ms_tagToMsg s)" and "map_of (ms_tagToMsg s) n \<noteq> None"
  shows "store_removeUntil guid n s =
     (filter (\<lambda>e. fst e \<le> n) (ms_tagToMsg s),
      s\<lparr>ms_tagToMsg := filter (\<lambda>e. \<not> fst e \<le> n) (ms_tagToMsg s),
        ms_guidToMsg := ms_guidToMsg s |` (- guids_until guid n (ms_tagToMsg s))\<rparr>)"
  using assms by (auto simp: store_removeUntil_def store_count_def remove_loop_result)

lemma guids_until_find:
  "om_inv es \<Longrightarrow> g \<in> guids_until guid n es \<longleftrightarrow> (\<exists>t m w. map_of es t = Some (m, w) \<and> t \<le> n \<and> guid m = g)"
  by (auto simp: guids_until_def om.entries_find [symmetric] image_iff)

lemma older_loop_takeWhile: "older_loop time es = takeWhile (\<lambda>(t, m, w). w \<le> time) es"
  by (induction time es rule: older_loop.induct) auto

lemma store_inv_new: "store_inv guid MessageStore_new"
  by (simp add: store_inv_def MessageStore_new_def)

lemma store_inv_guid:
  "store_inv guid s \<Longrightarrow> ms_guidToMsg s g = Some t \<Longrightarrow>
     \<exists>m w. map_of (ms_tagToMsg s) t = Some (m, w) \<and> guid m = g"
  by (simp add: store_inv_def)

lemma store_inv_insert:
  assumes "store_inv guid s"
  shows "store_inv guid (snd (store_insert guid now tag m s))"
proof (cases "map_of (ms_tagToMsg s) tag = None")
  case True
  let ?s = "snd (store_insert guid now tag m s)"
  have find: "map_of (ms_tagToMsg ?s) = (map_of (ms_tagToMsg s))(tag \<mapsto> (m, now))"
    and om: "om_inv (ms_tagToMsg ?s)"
    using assms True by (auto simp: store_inv_def store_insert_fresh)
  have "\<exists>m' w. map_of (ms_tagToMsg ?s) t = Some (m', w) \<and> guid m' = g"
    if "ms_guidToMsg ?s g = Some t" for g t
    using that True store_inv_guid [OF assms, of g t] find
    by (auto simp: store_insert_fresh split: if_splits)
  then show ?thesis
    using assms True om find by (auto simp: store_inv_def le_max_iff_disj store_insert_fresh)
next
  case False
  then show ?thesis
    using assms by (auto simp: store_insert_fresh)
qed

lemma store_inv_remove:
  assumes "store_inv guid s"
  shows "store_inv guid (snd (store_remove guid tag s))"
  using assms store_inv_guid [OF assms]
  by (fastforce simp: store_inv_def store_remove_def split: option.splits)

lemma store_inv_removeUntil:
  assumes "store_inv guid s"
  shows "store_inv guid (snd (store_removeUntil guid n s))"
proof (cases "map_of (ms_tagToMsg s) n = None")
  case True
  then show ?thesis
    using assms by (simp add: store_removeUntil_def)
next
  case False
  have om: "om_inv (ms_tagToMsg s)"
    using assms by (simp add: store_inv_def)
  have "\<exists>m w. map_of (ms_tagToMsg s) t = Some (m, w) \<and> \<not> t \<le> n \<and> guid m = g"
    if "ms_guidToMsg s g = Some t" and "g \<notin> guids_until guid n (ms_tagToMsg s)" for g t
    using store_inv_guid [OF assms that(1)] that(2) by (auto simp: guids_until_find [OF om])
  then show ?thesis
    using assms om_inv_filter [OF om]
    by (fastforce simp: store_removeUntil_result [OF om False] store_inv_def map_of_above restrict_map_def)
qed

lemma store_inv_swap:
  "store_inv guid a \<Longrightarrow> store_inv guid b \<Longrightarrow>
     store_inv guid (fst (store_swap a b)) \<and> store_inv guid (snd (store_swap a b))"
  by (simp add: store_swap_def store_inv_def)

lemma last_key_max: "om_inv es \<Longrightarrow> (t, x) \<in> set es \<Longrightarrow> t \<le> fst (last es)"
proof (induction es)
  case (Cons e es)
  show ?case
  proof (cases "es = []")
    case True
    then show ?thesis using Cons.prems(2) by auto
  next
    case False
    then have "fst e < fst (last es)"
      using Cons.prems(1) by simp
    then show ?thesis
      using Cons False by (auto intro: less_imp_le)
  qed
qed simp

lemma times_sorted_older:
  "sorted (map (\<lambda>(t, m, w). w) es) \<Longrightarrow> older_loop time es = filter (\<lambda>(t, m, w). w \<le> time) es"
proof (induction time es rule: older_loop.induct)
  case (2 time t m w es)
  show ?case
  proof (cases "w \<le> time")
    case False
    then have "filter (\<lambda>(t, m, w). w \<le> time) es = []"
      using 2(2) by (force simp: filter_empty_conv dest: order_trans)
    then show ?thesis
      using False by simp
  qed (use 2 in simp)
qed simp

lemma store_abs_removeUntil:
  assumes "store_inv guid s" and "store_abs s n \<noteq> None"
    and "store_removeUntil guid n s = (removed, s')"
  shows "store_abs s' = store_abs s |` {t. n < t}"
    and "(t, e) \<in> set removed \<longleftrightarrow> store_abs s t = Some e \<and> t \<le> n"
    and "sorted_wrt (<) (map fst removed)"
proof -
  have om: "om_inv (ms_tagToMsg s)"
    using assms(1) by (simp add: store_inv_def)
  note r = assms(3) [unfolded store_removeUntil_result [OF om assms(2) [unfolded store_abs_def]]]
  show "store_abs s' = store_abs s |` {t. n < t}"
    using r by (auto simp: store_abs_def fun_eq_iff map_of_above restrict_map_def)
  show "(t, e) \<in> set removed \<longleftrightarrow> store_abs s t = Some e \<and> t \<le> n"
    using r om.entries_find [OF om, of t e] by (auto simp: store_abs_def)
  show "sorted_wrt (<) (map fst removed)"
    using r om_inv_filter [OF om] by (auto simp: om_inv_def)
qed

section \<open>Properties\<close>

text \<open>C35: The store refines a map from delivery tags. \<open>insert\<close> adds a message exactly when the tag is not
  in use and otherwise changes nothing and says so; \<open>lookup\<close> reads the map; \<open>remove\<close> returns and deletes
  the entry. \<open>removeUntil n\<close> returns exactly the entries with tags up to \<open>n\<close>, oldest first, and keeps
  exactly those above \<open>n\<close>; when \<open>n\<close> itself is not in the store it removes nothing.\<close>

theorem message_store_refines_map:
  assumes "store_inv guid s"
  shows "fst (store_insert guid now tag m s) = (store_abs s tag = None) \<and>
     store_abs (snd (store_insert guid now tag m s)) =
       (if store_abs s tag = None then (store_abs s)(tag \<mapsto> (m, now)) else store_abs s) \<and>
     store_lookup tag s = map_option fst (store_abs s tag) \<and>
     fst (store_remove guid tag s) = store_abs s tag \<and>
     store_abs (snd (store_remove guid tag s)) = (store_abs s)(tag := None) \<and>
     (store_abs s n = None \<longrightarrow> store_removeUntil guid n s = ([], s)) \<and>
     (store_abs s n \<noteq> None \<longrightarrow>
        store_abs (snd (store_removeUntil guid n s)) = store_abs s |` {t. n < t} \<and>
        set (fst (store_removeUntil guid n s)) = {(t, e). store_abs s t = Some e \<and> t \<le> n} \<and>
        sorted_wrt (<) (map fst (fst (store_removeUntil guid n s))))"
proof (intro conjI impI)
  obtain r s' where ru: "store_removeUntil guid n s = (r, s')"
    by (cases "store_removeUntil guid n s")
  assume "store_abs s n \<noteq> None"
  note u = store_abs_removeUntil [OF assms this ru]
  show "store_abs (snd (store_removeUntil guid n s)) = store_abs s |` {t. n < t}"
    "sorted_wrt (<) (map fst (fst (store_removeUntil guid n s)))"
    using u(1,3) ru by simp_all
  show "set (fst (store_removeUntil guid n s)) = {(t, e). store_abs s t = Some e \<and> t \<le> n}"
    using u(2) ru by auto
qed (use assms in \<open>auto simp: store_abs_def store_insert_fresh store_lookup_def store_remove_def
      store_removeUntil_def store_inv_def split: option.splits\<close>)

theorem message_store_refines_map_witness:
  "let s = snd (store_insert id (0 :: nat) 2 ''b'' (snd (store_insert id 0 1 ''a'' MessageStore_new))) in
   store_abs (snd (store_removeUntil id 1 s)) = [2 \<mapsto> (''b'', 0)]"
proof -
  let ?s = "snd (store_insert id (0 :: nat) 2 ''b'' (snd (store_insert id 0 1 ''a'' MessageStore_new)))"
  have inv: "store_inv id ?s"
    by (intro store_inv_insert store_inv_new)
  have abs: "store_abs ?s = [1 \<mapsto> (''a'', 0), 2 \<mapsto> (''b'', 0)]"
    by (auto simp: store_abs_def store_insert_fresh MessageStore_new_def fun_eq_iff)
  have "store_abs (snd (store_removeUntil id 1 ?s)) = store_abs ?s |` {t. 1 < t}"
    using message_store_refines_map [OF inv, of 0 0 "[]" 1] abs by simp
  then show ?thesis
    by (simp add: abs Let_def restrict_map_def fun_eq_iff)
qed

text \<open>The GUID index never dangles. Every operation keeps the invariant, and under it an entry of
  the index points to a stored message with that GUID, so dereferencing the iterator is safe.\<close>

theorem message_store_no_dangling:
  assumes "store_inv guid s" and "store_inv guid s2"
  shows "store_lookupGuid g s \<noteq> Dangling \<and>
     (store_lookupGuid g s = Found m t \<longrightarrow> store_lookup t s = Some m \<and> guid m = g) \<and>
     store_inv guid (snd (store_insert guid now tag x s)) \<and>
     store_inv guid (snd (store_remove guid tag s)) \<and>
     store_inv guid (snd (store_removeUntil guid tag s)) \<and>
     store_inv guid (fst (store_swap s s2)) \<and> store_inv guid (snd (store_swap s s2))"
  using store_inv_insert [OF assms(1)] store_inv_remove [OF assms(1)] store_inv_removeUntil [OF assms(1)]
    store_inv_swap [OF assms] store_inv_guid [OF assms(1), of g]
  by (auto simp: store_lookupGuid_def store_lookup_def split: option.splits)

theorem message_store_no_dangling_witness:
  "store_lookupGuid ''a'' (snd (store_insert id (0 :: nat) 1 ''a'' MessageStore_new)) \<noteq> Dangling"
  using message_store_no_dangling [OF store_inv_insert [OF store_inv_new [of id], of 0 1 "''a''"]
      store_inv_new, of "''a''"] by blast

text \<open>While no GUID is inserted twice, every stored message is found by its GUID: the index stays
  complete under \<open>insert\<close> of a message with a new GUID, \<open>remove\<close> and \<open>removeUntil\<close>.\<close>

theorem message_store_guid_complete:
  assumes "store_inv guid s" and "guid_complete guid s"
  shows "(store_abs s t = Some (m, w) \<longrightarrow> store_lookupGuid (guid m) s = Found m t) \<and>
     (ms_guidToMsg s (guid x) = None \<longrightarrow> guid_complete guid (snd (store_insert guid now tag x s))) \<and>
     guid_complete guid (snd (store_remove guid tag s)) \<and>
     guid_complete guid (snd (store_removeUntil guid tag s))"
proof (intro conjI impI)
  have om: "om_inv (ms_tagToMsg s)"
    using assms(1) by (simp add: store_inv_def)
  have inj: "t1 = t2" if "map_of (ms_tagToMsg s) t1 = Some (m1, w1)"
    "map_of (ms_tagToMsg s) t2 = Some (m2, w2)" "guid m1 = guid m2" for t1 t2 m1 m2 w1 w2
    using that assms(2) unfolding guid_complete_def by (metis option.inject)
  show "store_lookupGuid (guid m) s = Found m t" if "store_abs s t = Some (m, w)"
  proof -
    have "ms_guidToMsg s (guid m) = Some t"
      using that assms(2) by (auto simp: store_abs_def guid_complete_def)
    then show ?thesis
      using that by (simp add: store_abs_def store_lookupGuid_def)
  qed
  show "guid_complete guid (snd (store_insert guid now tag x s))" if "ms_guidToMsg s (guid x) = None"
    using that assms(2) om by (fastforce simp: guid_complete_def store_insert_fresh)
  show "guid_complete guid (snd (store_remove guid tag s))"
    using assms(2) inj by (auto simp: guid_complete_def store_remove_def split: option.splits)
  show "guid_complete guid (snd (store_removeUntil guid tag s))"
  proof (cases "map_of (ms_tagToMsg s) tag = None")
    case True
    then show ?thesis using assms(2) by (simp add: store_removeUntil_def)
  next
    case False
    have "guid m' \<notin> guids_until guid tag (ms_tagToMsg s)"
      if "map_of (ms_tagToMsg s) t' = Some (m', w')" "\<not> t' \<le> tag" for t' m' w'
    proof
      assume "guid m' \<in> guids_until guid tag (ms_tagToMsg s)"
      then obtain t2 m2 w2 where "map_of (ms_tagToMsg s) t2 = Some (m2, w2)" "t2 \<le> tag" "guid m2 = guid m'"
        by (auto simp: guids_until_find [OF om])
      then show False
        using inj [OF that(1)] that(2) by metis
    qed
    then show ?thesis
      using assms(2)
      by (auto simp: store_removeUntil_result [OF om False] guid_complete_def map_of_above
          restrict_map_def split: if_splits)
  qed
qed

theorem message_store_guid_complete_witness:
  "store_lookupGuid ''a'' (snd (store_insert id (0 :: nat) 1 ''a'' MessageStore_new)) = Found ''a'' 1"
proof -
  let ?s = "snd (store_insert id (0 :: nat) 1 ''a'' MessageStore_new)"
  have s: "guid_complete id ?s" "store_abs ?s 1 = Some (''a'', 0)"
    by (simp_all add: guid_complete_def store_insert_fresh MessageStore_new_def store_abs_def)
  show ?thesis
    using message_store_guid_complete [OF store_inv_insert [OF store_inv_new] s(1), THEN conjunct1] s(2)
    by fastforce
qed

text \<open>Hung messages. As long as messages are inserted with increasing tags and a clock that does not
  run backwards, \<open>getMessagesOlderThan\<close>, which stops at the first newer entry, returns exactly the
  messages inserted at or before the given time.\<close>

theorem messages_older_than:
  fixes now :: "'t::linorder"
  assumes "store_inv guid s" and "times_sorted s"
  shows "getMessagesOlderThan time s = filter (\<lambda>(t, m, w). w \<le> time) (ms_tagToMsg s) \<and>
     (latestTagInStore s < tag \<longrightarrow> (\<forall>t m w. store_abs s t = Some (m, w) \<longrightarrow> w \<le> now) \<longrightarrow>
        times_sorted (snd (store_insert guid now tag x s)))"
proof (intro conjI impI)
  show "getMessagesOlderThan time s = filter (\<lambda>(t, m, w). w \<le> time) (ms_tagToMsg s)"
    using assms(2) by (simp add: getMessagesOlderThan_def times_sorted_def times_sorted_older)
  assume tag: "latestTagInStore s < tag" and now: "\<forall>t m w. store_abs s t = Some (m, w) \<longrightarrow> w \<le> now"
  have om: "om_inv (ms_tagToMsg s)"
    using assms(1) by (simp add: store_inv_def)
  have above: "\<forall>k \<in> fst ` set (ms_tagToMsg s). k < tag"
    using tag last_key_max [OF om]
    by (fastforce simp: latestTagInStore_def split: if_splits intro: order_le_less_trans)
  then have "map_of (ms_tagToMsg s) tag = None"
    by (auto simp: map_of_None_fresh)
  moreover have "\<forall>(t, m, w) \<in> set (ms_tagToMsg s). w \<le> now"
    using now om.entries_find [OF om] by (auto simp: store_abs_def)
  ultimately show "times_sorted (snd (store_insert guid now tag x s))"
    using assms(2) om_put_append [OF above]
    by (auto simp: times_sorted_def store_insert_fresh sorted_append)
qed

theorem messages_older_than_witness:
  "getMessagesOlderThan (3 :: nat) (snd (store_insert id 5 1 ''a'' MessageStore_new)) = []"
proof -
  let ?s = "snd (store_insert id (5 :: nat) 1 ''a'' MessageStore_new)"
  have s: "times_sorted ?s" "ms_tagToMsg ?s = [(1, ''a'', 5)]"
    by (simp_all add: times_sorted_def store_insert_fresh MessageStore_new_def)
  show ?thesis
    using messages_older_than [OF store_inv_insert [OF store_inv_new] s(1), THEN conjunct1, of 3] s(2)
    by simp
qed

end
