(* ===== verification/Send_Channel.thy ===== *)
theory Send_Channel
  imports Channel_Base Message_Store "HOL-Library.Multiset"
begin

text \<open>
  \<open>rmqamqp::SendChannel\<close>: publishing with publisher confirms.

  A published message is pending until the channel is ready, then in the message store under its delivery
  tag until the broker confirms it; the confirm callback is recorded as an event of the trace. The
  time stamps of the store are those of an argument \<open>now\<close>.
\<close>

datatype mandatory = RETURN_UNROUTABLE | DISCARD_UNROUTABLE

record ('dt, 'g) message_with_route =
  mwr_message :: "('dt, 'g) message"
  mwr_routingKey :: bytes
  mwr_mandatory :: mandatory

definition mwr_guid :: "('dt, 'g) message_with_route \<Rightarrow> 'g" where
  "mwr_guid m = msg_guid (mwr_message m)"

datatype confirm_status = CR_ACK | CR_REJECT | CR_RETURN

record confirm_response =
  cr_status :: confirm_status
  cr_code :: "u16 option"
  cr_reason :: "bytes option"

definition ConfirmResponse :: "confirm_status \<Rightarrow> confirm_response" where
  "ConfirmResponse status = \<lparr>cr_status = status, cr_code = None, cr_reason = None\<rparr>"

definition ConfirmResponse_return :: "u16 \<Rightarrow> bytes \<Rightarrow> confirm_response" where
  "ConfirmResponse_return code reason = \<lparr>cr_status = CR_RETURN, cr_code = Some code, cr_reason = Some reason\<rparr>"

datatype ('dt, 'g) confirm_event = Confirm_callback "('dt, 'g) message" bytes confirm_response

record ('dt, 'g, 't) send_channel = "('dt, 'g, ('dt, 'g) confirm_event) channel" +
  sc_messageStore :: "('g, ('dt, 'g) message_with_route, 't) message_store"
  sc_hasCallback :: bool
  sc_pendingMessages :: "('dt, 'g) message_with_route list"
  sc_exchangeName :: bytes
  sc_deliveryCounter :: u64
  sc_basicReturn :: "BasicReturn option"
  sc_returnedTagResponse :: "(u64, confirm_response) omap"

definition SendChannel_new :: "'dt topology \<Rightarrow> bytes \<Rightarrow> ('dt, 'g, 't) send_channel" where
  "SendChannel_new topology exchangeName =
     \<lparr>ch_flow = True, ch_state = CLOSED, ch_topology = topology, ch_topologyTransformer = None,
      ch_topologyCallback = None, ch_updateQueue = [], ch_permanentlyClosing = False, ch_readyMade = [],
      ch_promises = 0, ch_trace = [],
      sc_messageStore = MessageStore_new, sc_hasCallback = False, sc_pendingMessages = [],
      sc_exchangeName = exchangeName, sc_deliveryCounter = 1, sc_basicReturn = None,
      sc_returnedTagResponse = []\<rparr>"

definition setCallback :: "('dt, 'g, 't) send_channel \<Rightarrow> ('dt, 'g, 't) send_channel" where
  "setCallback sc = sc\<lparr>sc_hasCallback := True\<rparr>"

definition SendChannel_onReset :: "('dt, 'g, 't) send_channel \<Rightarrow> ('dt, 'g, 't) send_channel" where
  "SendChannel_onReset sc = sc\<lparr>sc_deliveryCounter := 1, sc_basicReturn := None\<rparr>"

text \<open>The loop of \<open>processFailures\<close> empties the store, oldest tag first.\<close>

function drain_store ::
  "('g, ('dt, 'g) message_with_route, 't) message_store \<Rightarrow> ('dt, 'g) message_with_route list" where
  "drain_store store =
     (if store_count store > 0 then
        (case store_remove mwr_guid (oldestTagInStore store) store of
           (Some (m, _), store') \<Rightarrow> m # drain_store store'
         | (None, _) \<Rightarrow> [])
      else [])"
  by pat_completeness auto
termination
proof (relation "measure store_count", goal_cases)
  case (2 store x store' y m w)
  then have "map_of (ms_tagToMsg store) (oldestTagInStore store) \<noteq> None"
    by (auto simp: store_remove_def split: option.splits)
  then have "oldestTagInStore store \<in> fst ` set (ms_tagToMsg store)"
    by (simp add: map_of_eq_None_iff)
  then show ?case
    using 2 length_om_erase_less [of "oldestTagInStore store" "ms_tagToMsg store"]
    by (auto simp: store_count_def store_remove_def split: option.splits)
qed simp

declare drain_store.simps [simp del]

definition SendChannel_processFailures :: "('dt, 'g, 't) send_channel \<Rightarrow> ('dt, 'g, 't) send_channel" where
  "SendChannel_processFailures sc =
     (case store_swap (sc_messageStore sc) MessageStore_new of
        (mine, store) \<Rightarrow>
          sc\<lparr>sc_messageStore := mine,
             sc_pendingMessages := sc_pendingMessages sc @ drain_store store,
             sc_returnedTagResponse := []\<rparr>)"

definition SendChannel_onOpen :: "('dt, 'g, 't) send_channel \<Rightarrow> ('dt, 'g, 't) send_channel" where
  "SendChannel_onOpen sc =
     writeMessage_state (Msg_Method (Confirm (M_ConfirmSelect \<lparr>select_noWait = False\<rparr>))) AWAITING_REPLY sc"

definition readyToPublishMsg ::
  "'t \<Rightarrow> ('dt, 'g) message_with_route \<Rightarrow> ('dt, 'g, 't) send_channel \<Rightarrow> ('dt, 'g, 't) send_channel" where
  "readyToPublishMsg now m sc =
     (case store_insert mwr_guid now (sc_deliveryCounter sc) m (sc_messageStore sc) of
        (inserted, store) \<Rightarrow>
          let sc = sc\<lparr>sc_messageStore := store,
                      sc_deliveryCounter := (if inserted then sc_deliveryCounter sc + 1 else sc_deliveryCounter sc)\<rparr>;
              sc = writeMessage
                (Msg_Method (Basic (M_BasicPublish
                   \<lparr>publish_exchangeName = sc_exchangeName sc, publish_routingKey = mwr_routingKey m,
                    publish_mandatory = (mwr_mandatory m = RETURN_UNROUTABLE), publish_immediate = False\<rparr>)))
                WC_noop sc in
          writeMessage (Msg_Content (mwr_message m)) WC_noop sc)"

fun publish_loop ::
  "'t \<Rightarrow> ('dt, 'g) message_with_route list \<Rightarrow> ('dt, 'g, 't) send_channel \<Rightarrow> ('dt, 'g, 't) send_channel" where
  "publish_loop now [] sc = sc"
| "publish_loop now (m # ms) sc = publish_loop now ms ((readyToPublishMsg now m sc)\<lparr>sc_pendingMessages := ms\<rparr>)"

definition publishPendingMessages :: "'t \<Rightarrow> ('dt, 'g, 't) send_channel \<Rightarrow> ('dt, 'g, 't) send_channel" where
  "publishPendingMessages now sc = publish_loop now (sc_pendingMessages sc) sc"

definition SendChannel_onFlowAllowed :: "'t \<Rightarrow> ('dt, 'g, 't) send_channel \<Rightarrow> ('dt, 'g, 't) send_channel" where
  "SendChannel_onFlowAllowed now sc = (if ch_state sc = READY then publishPendingMessages now sc else sc)"

text \<open>A failed assertion is \<^const>\<open>None\<close>.\<close>

definition publishMessage ::
  "'t \<Rightarrow> ('dt, 'g) message_with_route \<Rightarrow> ('dt, 'g, 't) send_channel \<Rightarrow> ('dt, 'g, 't) send_channel option" where
  "publishMessage now m sc =
     (if \<not> sc_hasCallback sc then None
      else if ch_state sc \<noteq> READY \<or> \<not> ch_flow sc
      then Some (sc\<lparr>sc_pendingMessages := sc_pendingMessages sc @ [m]\<rparr>)
      else Some (readyToPublishMsg now m sc))"

definition SendChannel_processConfirmMethod ::
  "'t \<Rightarrow> ConfirmMethod \<Rightarrow> ('dt, 'g, 't) send_channel \<Rightarrow> ('dt, 'g, 't) send_channel" where
  "SendChannel_processConfirmMethod now confirm sc =
     (if ConfirmMethod_methodId confirm = 11 then publishPendingMessages now (Channel_ready sc) else sc)"

definition SendChannel_processMessage ::
  "('dt, 'g) message \<Rightarrow> ('dt, 'g, 't) send_channel \<Rightarrow> ('dt, 'g, 't) send_channel" where
  "SendChannel_processMessage message sc =
     (case sc_basicReturn sc of
        None \<Rightarrow> Channel_close UNEXPECTED_FRAME (bstr ''Expected BasicReturn'') 0 0 sc
      | Some ret \<Rightarrow>
          (case store_lookupGuid (msg_guid message) (sc_messageStore sc) of
             Found _ deliveryTag \<Rightarrow>
               sc\<lparr>sc_returnedTagResponse :=
                    fst (om_emplace deliveryTag
                      (ConfirmResponse_return (return_replyCode ret) (return_replyText ret))
                      (sc_returnedTagResponse sc)),
                  sc_basicReturn := None\<rparr>
           | _ \<Rightarrow> Channel_close NOT_ALLOWED (bstr ''Unknown returned message'') 0 0 sc))"

fun callbackMessages ::
  "(('dt, 'g) message_with_route, 't) message_list \<Rightarrow> confirm_response \<Rightarrow> ('dt, 'g, 't) send_channel \<Rightarrow>
     ('dt, 'g, 't) send_channel" where
  "callbackMessages [] confirmResponse sc = sc"
| "callbackMessages ((tag, m, t) # confs) confirmResponse sc =
     (let actualResponse =
        (case map_of (sc_returnedTagResponse sc) tag of Some r \<Rightarrow> r | None \<Rightarrow> confirmResponse) in
      callbackMessages confs confirmResponse
        ((emit (Ev_client (Confirm_callback (mwr_message m) (mwr_routingKey m) actualResponse)) sc)
           \<lparr>sc_returnedTagResponse := om_erase tag (sc_returnedTagResponse sc)\<rparr>))"

definition processAckNack ::
  "bool \<Rightarrow> u64 \<Rightarrow> confirm_response \<Rightarrow> ('dt, 'g, 't) send_channel \<Rightarrow> ('dt, 'g, 't) send_channel" where
  "processAckNack multiple deliveryTag confirmResponse sc =
     (if multiple then
        (case store_removeUntil mwr_guid deliveryTag (sc_messageStore sc) of
           (msgs, store) \<Rightarrow>
             let sc = sc\<lparr>sc_messageStore := store\<rparr> in
             if msgs \<noteq> [] then callbackMessages msgs confirmResponse sc else sc)
      else
        (case store_remove mwr_guid deliveryTag (sc_messageStore sc) of
           (Some (m, t), store) \<Rightarrow>
             callbackMessages [(deliveryTag, m, t)] confirmResponse (sc\<lparr>sc_messageStore := store\<rparr>)
         | (None, store) \<Rightarrow> sc\<lparr>sc_messageStore := store\<rparr>))"

definition SendChannel_processBasicMethod ::
  "'dt BasicMethod \<Rightarrow> ('dt, 'g, 't) send_channel \<Rightarrow> ('dt, 'g, 't) send_channel" where
  "SendChannel_processBasicMethod basic sc =
     (case basic of
        M_BasicNack n \<Rightarrow> processAckNack (nack_multiple n) (nack_deliveryTag n) (ConfirmResponse CR_REJECT) sc
      | M_BasicAck a \<Rightarrow> processAckNack (ack_multiple a) (ack_deliveryTag a) (ConfirmResponse CR_ACK) sc
      | M_BasicReturn r \<Rightarrow>
          if sc_basicReturn sc \<noteq> None
          then Channel_close UNEXPECTED_FRAME (bstr ''Expected Content'') 0 0 sc
          else sc\<lparr>sc_basicReturn := Some r\<rparr>
      | _ \<Rightarrow> sc)"

definition SendChannel_vt :: "'t \<Rightarrow> ('dt, 'g, ('dt, 'g, 't) send_channel) channel_vt" where
  "SendChannel_vt now =
     \<lparr>vt_processBasicMethod = SendChannel_processBasicMethod,
      vt_processConfirmMethod = SendChannel_processConfirmMethod now,
      vt_processMessage = SendChannel_processMessage,
      vt_onOpen = SendChannel_onOpen, vt_onReset = SendChannel_onReset,
      vt_onFlowAllowed = SendChannel_onFlowAllowed now,
      vt_processFailures = SendChannel_processFailures\<rparr>"

definition SendChannel_inFlight :: "('dt, 'g, 't) send_channel \<Rightarrow> nat" where
  "SendChannel_inFlight sc = store_count (sc_messageStore sc)"

definition SendChannel_lifetimeId :: "('dt, 'g, 't) send_channel \<Rightarrow> nat" where
  "SendChannel_lifetimeId sc = ms_lifetimeId (sc_messageStore sc)"

section \<open>What can happen to a send channel\<close>

datatype ('dt, 'g) send_input =
    SI_open
  | SI_reset bool
  | SI_received "'dt live_objects" "('dt, 'g) amqp_message"
  | SI_writeComplete
  | SI_gracefulClose
  | SI_hung interrupt_reason
  | SI_updateTopology "'dt live_objects" "'dt topology_update"
  | SI_waitForReady
  | SI_setCallback
  | SI_publish "('dt, 'g) message_with_route"

fun send_step ::
  "'t \<Rightarrow> ('dt, 'g) send_input \<Rightarrow> ('dt, 'g, 't) send_channel \<Rightarrow> ('dt, 'g, 't) send_channel option" where
  "send_step now SI_open sc = Some (Channel_open sc)"
| "send_step now (SI_reset b) sc = Some (snd (Channel_reset (SendChannel_vt now) b sc))"
| "send_step now (SI_received lv msg) sc = Some (snd (Channel_processReceived (SendChannel_vt now) lv msg sc))"
| "send_step now SI_writeComplete sc = Some (onWriteComplete (SendChannel_vt now) sc)"
| "send_step now SI_gracefulClose sc = Some (Channel_gracefulClose sc)"
| "send_step now (SI_hung reason) sc = Some (channelHung reason sc)"
| "send_step now (SI_updateTopology lv u) sc = Some (snd (updateTopology lv u sc))"
| "send_step now SI_waitForReady sc = Some (snd (waitForReady sc))"
| "send_step now SI_setCallback sc = Some (setCallback sc)"
| "send_step now (SI_publish m) sc = publishMessage now m sc"

fun send_run ::
  "('t \<times> ('dt, 'g) send_input) list \<Rightarrow> ('dt, 'g, 't) send_channel \<Rightarrow> ('dt, 'g, 't) send_channel option" where
  "send_run [] sc = Some sc"
| "send_run ((now, i) # is) sc = (case send_step now i sc of None \<Rightarrow> None | Some sc' \<Rightarrow> send_run is sc')"

text \<open>A publication: the message and its routing key.\<close>

definition publication :: "('dt, 'g) message_with_route \<Rightarrow> ('dt, 'g) message \<times> bytes" where
  "publication m = (mwr_message m, mwr_routingKey m)"

fun published :: "('t \<times> ('dt, 'g) send_input) list \<Rightarrow> (('dt, 'g) message \<times> bytes) list" where
  "published [] = []"
| "published ((now, i) # is) = (case i of SI_publish m \<Rightarrow> [publication m] | _ \<Rightarrow> []) @ published is"

text \<open>The publications that were confirmed, the contents written, and the contents written since the channel
  was last disconnected, read off the trace.\<close>

fun confirm_of :: "('dt, 'g, ('dt, 'g) confirm_event) channel_event \<Rightarrow> (('dt, 'g) message \<times> bytes) list" where
  "confirm_of (Ev_client (Confirm_callback m rk r)) = [(m, rk)]"
| "confirm_of _ = []"

fun content_of :: "('dt, 'g, 'e) channel_event \<Rightarrow> ('dt, 'g) message list" where
  "content_of (Ev_write (Msg_Content m) cb) = [m]"
| "content_of _ = []"

definition confirms :: "('dt, 'g, ('dt, 'g) confirm_event) channel_event list \<Rightarrow> (('dt, 'g) message \<times> bytes) list" where
  "confirms tr = concat (map confirm_of tr)"

definition contents :: "('dt, 'g, 'e) channel_event list \<Rightarrow> ('dt, 'g) message list" where
  "contents tr = concat (map content_of tr)"

definition sent_now :: "('dt, 'g, 'e) channel_event list \<Rightarrow> ('dt, 'g) message list" where
  "sent_now tr = foldl (\<lambda>acc e. if e = Ev_channel_disconnected then [] else acc @ content_of e) [] tr"

definition in_flight :: "('dt, 'g, 't) send_channel \<Rightarrow> (('dt, 'g) message \<times> bytes) list" where
  "in_flight sc = map (\<lambda>(t, m, w). publication m) (ms_tagToMsg (sc_messageStore sc))"

text \<open>The response a confirmation reports: that of the return, if the message was returned before.\<close>

definition response_for :: "('dt, 'g, 't) send_channel \<Rightarrow> confirm_response \<Rightarrow> u64 \<Rightarrow> confirm_response" where
  "response_for sc r tag = (case map_of (sc_returnedTagResponse sc) tag of Some x \<Rightarrow> x | None \<Rightarrow> r)"

definition confirm_events ::
  "('dt, 'g, 't) send_channel \<Rightarrow> confirm_response \<Rightarrow> (('dt, 'g) message_with_route, 't) message_list \<Rightarrow>
     ('dt, 'g, ('dt, 'g) confirm_event) channel_event list" where
  "confirm_events sc r msgs =
     map (\<lambda>(t, m, w). Ev_client (Confirm_callback (mwr_message m) (mwr_routingKey m) (response_for sc r t))) msgs"

text \<open>The delivery tags that an ack or nack settles.\<close>

definition settled :: "('dt, 'g, 't) send_channel \<Rightarrow> bool \<Rightarrow> u64 \<Rightarrow> u64 list" where
  "settled sc multiple t =
     (let tags = map fst (ms_tagToMsg (sc_messageStore sc)) in
      if t \<notin> set tags then [] else if multiple then filter (\<lambda>t'. t' \<le> t) tags else [t])"

text \<open>The messages in the store, oldest tag first.\<close>

definition stored :: "('dt, 'g, 't) send_channel \<Rightarrow> ('dt, 'g) message_with_route list" where
  "stored sc = map (\<lambda>(t, m, w). m) (ms_tagToMsg (sc_messageStore sc))"

definition sample_message :: "(nat, nat) message_with_route" where
  "sample_message =
     \<lparr>mwr_message = \<lparr>msg_guid = 7, msg_rawData = None, msg_properties = empty_properties\<rparr>,
      mwr_routingKey = bstr ''k'', mwr_mandatory = RETURN_UNROUTABLE\<rparr>"

definition sample_send_channel :: "(nat, nat, nat) send_channel" where
  "sample_send_channel = SendChannel_new empty_topology (bstr ''x'')"

text \<open>A session of a producer: open, publish one message, have it confirmed.\<close>

definition sample_session :: "(nat \<times> (nat, nat) send_input) list" where
  "sample_session =
     [(0, SI_setCallback), (0, SI_open),
      (0, SI_received sample_live (Msg_Method (Channel M_ChannelOpenOk))),
      (0, SI_received sample_live (Msg_Method (Confirm M_ConfirmSelectOk))),
      (0, SI_publish sample_message)]"

text \<open>Opening a channel without topology, and reopening one that has sent \<open>channel.close\<close>.\<close>

definition open_session :: "'t \<Rightarrow> 'dt live_objects \<Rightarrow> ('t \<times> ('dt, 'g) send_input) list" where
  "open_session now lv =
     [(now, SI_open), (now, SI_received lv (Msg_Method (Channel M_ChannelOpenOk))),
      (now, SI_received lv (Msg_Method (Confirm M_ConfirmSelectOk)))]"

definition reopen_session :: "'t \<Rightarrow> 'dt live_objects \<Rightarrow> ('t \<times> ('dt, 'g) send_input) list" where
  "reopen_session now lv =
     [(now, SI_received lv (Msg_Method (Channel M_ChannelCloseOk))), (now, SI_open),
      (now, SI_received lv (Msg_Method (Channel M_ChannelOpenOk)))]"

definition send_inv ::
  "(('dt, 'g) message \<times> bytes) multiset \<Rightarrow> ('dt, 'g, 't) send_channel \<Rightarrow> bool" where
  "send_inv P sc \<longleftrightarrow>
     (length (contents (ch_trace sc)) < 2 ^ 64 - 1 \<longrightarrow>
        store_inv mwr_guid (sc_messageStore sc) \<and>
        sc_deliveryCounter sc = of_nat (length (sent_now (ch_trace sc)) + 1) \<and>
        (\<forall>(t, m, w) \<in> set (ms_tagToMsg (sc_messageStore sc)).
           1 \<le> unat t \<and> unat t \<le> length (sent_now (ch_trace sc)) \<and>
           sent_now (ch_trace sc) ! (unat t - 1) = mwr_message m) \<and>
        P = mset (confirms (ch_trace sc)) + mset (in_flight sc) + mset (map publication (sc_pendingMessages sc)))"

section \<open>Traces\<close>

lemma confirms_append [simp]: "confirms (tr @ tr') = confirms tr @ confirms tr'"
  by (simp add: confirms_def)

lemma confirms_Cons [simp]: "confirms (e # tr) = confirm_of e @ confirms tr" "confirms [] = []"
  by (simp_all add: confirms_def)

lemma contents_append [simp]: "contents (tr @ tr') = contents tr @ contents tr'"
  by (simp add: contents_def)

lemma contents_Cons [simp]: "contents (e # tr) = content_of e @ contents tr" "contents [] = []"
  by (simp_all add: contents_def)

lemma sent_now_snoc [simp]:
  "sent_now (tr @ [e]) = (if e = Ev_channel_disconnected then [] else sent_now tr @ content_of e)" "sent_now [] = []"
  by (simp_all add: sent_now_def)

lemma sent_now_le: "length (sent_now tr) \<le> length (contents tr)"
  by (induction tr rule: rev_induct) (auto simp: contents_def)

lemma base_event_silent:
  "base_event e \<Longrightarrow> confirm_of e = [] \<and> content_of e = [] \<and> e \<noteq> Ev_channel_disconnected"
  by (induction e rule: base_event.induct) auto

lemma om_put_above: "\<forall>k' \<in> fst ` set m. k' < k \<Longrightarrow> om_put k v m = m @ [(k, v)]"
  by (induction k v m rule: om_put.induct) (auto dest: less_asym)

section \<open>The invariant\<close>

lemma send_inv_base:
  "send_inv P (sc\<lparr>ch_flow := f\<rparr>) = send_inv P sc"
  "send_inv P (sc\<lparr>ch_state := s\<rparr>) = send_inv P sc"
  "send_inv P (sc\<lparr>ch_topology := t\<rparr>) = send_inv P sc"
  "send_inv P (sc\<lparr>ch_topologyTransformer := tt\<rparr>) = send_inv P sc"
  "send_inv P (sc\<lparr>ch_topologyCallback := cb\<rparr>) = send_inv P sc"
  "send_inv P (sc\<lparr>ch_updateQueue := q\<rparr>) = send_inv P sc"
  "send_inv P (sc\<lparr>ch_permanentlyClosing := b\<rparr>) = send_inv P sc"
  "send_inv P (sc\<lparr>ch_readyMade := rm\<rparr>) = send_inv P sc"
  "send_inv P (sc\<lparr>ch_promises := p\<rparr>) = send_inv P sc"
  "send_inv P (sc\<lparr>sc_hasCallback := b\<rparr>) = send_inv P sc"
  "send_inv P (sc\<lparr>sc_basicReturn := r\<rparr>) = send_inv P sc"
  "send_inv P (sc\<lparr>sc_returnedTagResponse := rt\<rparr>) = send_inv P sc"
  by (simp_all add: send_inv_def in_flight_def)

lemma send_inv_emit: "base_event e \<Longrightarrow> send_inv P sc \<Longrightarrow> send_inv P (emit e sc)"
  using base_event_silent [of e] by (simp add: send_inv_def in_flight_def emit_def)

interpretation sc_members: channel_members "send_inv P" for P
  by unfold_locales (simp_all add: send_inv_base send_inv_emit)

lemma counter_fresh:
  assumes "send_inv P sc" and "length (contents (ch_trace sc)) < 2 ^ 64 - 1"
  shows "unat (sc_deliveryCounter sc) = length (sent_now (ch_trace sc)) + 1"
    and "\<forall>t \<in> fst ` set (ms_tagToMsg (sc_messageStore sc)). t < sc_deliveryCounter sc"
proof -
  let ?n = "length (sent_now (ch_trace sc))"
  have n: "?n + 1 < 2 ^ 64"
    using assms(2) sent_now_le [of "ch_trace sc"] by simp
  then show *: "unat (sc_deliveryCounter sc) = ?n + 1"
    using assms by (simp add: send_inv_def unat_of_nat take_bit_nat_eq_self del: of_nat_Suc)
  show "\<forall>t \<in> fst ` set (ms_tagToMsg (sc_messageStore sc)). t < sc_deliveryCounter sc"
    using assms * by (fastforce simp: send_inv_def word_less_nat_alt)
qed

lemma readyToPublish_result:
  assumes "send_inv P sc" and "length (contents (ch_trace sc)) < 2 ^ 64 - 1"
  shows "readyToPublishMsg now m sc =
    sc\<lparr>sc_messageStore := snd (store_insert mwr_guid now (sc_deliveryCounter sc) m (sc_messageStore sc)),
       sc_deliveryCounter := sc_deliveryCounter sc + 1,
       ch_trace := ch_trace sc @
         [Ev_write (Msg_Method (Basic (M_BasicPublish
            \<lparr>publish_exchangeName = sc_exchangeName sc, publish_routingKey = mwr_routingKey m,
             publish_mandatory = (mwr_mandatory m = RETURN_UNROUTABLE), publish_immediate = False\<rparr>))) WC_noop,
          Ev_write (Msg_Content (mwr_message m)) WC_noop]\<rparr>"
    and "ms_tagToMsg (snd (store_insert mwr_guid now (sc_deliveryCounter sc) m (sc_messageStore sc))) =
      ms_tagToMsg (sc_messageStore sc) @ [(sc_deliveryCounter sc, m, now)]"
proof -
  have "map_of (ms_tagToMsg (sc_messageStore sc)) (sc_deliveryCounter sc) = None"
    using counter_fresh(2) [OF assms] by (fastforce simp: map_of_eq_None_iff)
  then show "ms_tagToMsg (snd (store_insert mwr_guid now (sc_deliveryCounter sc) m (sc_messageStore sc))) =
      ms_tagToMsg (sc_messageStore sc) @ [(sc_deliveryCounter sc, m, now)]"
    and "readyToPublishMsg now m sc =
    sc\<lparr>sc_messageStore := snd (store_insert mwr_guid now (sc_deliveryCounter sc) m (sc_messageStore sc)),
       sc_deliveryCounter := sc_deliveryCounter sc + 1,
       ch_trace := ch_trace sc @
         [Ev_write (Msg_Method (Basic (M_BasicPublish
            \<lparr>publish_exchangeName = sc_exchangeName sc, publish_routingKey = mwr_routingKey m,
             publish_mandatory = (mwr_mandatory m = RETURN_UNROUTABLE), publish_immediate = False\<rparr>))) WC_noop,
          Ev_write (Msg_Content (mwr_message m)) WC_noop]\<rparr>"
    using counter_fresh(2) [OF assms]
    by (simp_all add: readyToPublishMsg_def store_insert_fresh om_put_above writeMessage_def emit_def Let_def)
qed

lemma readyToPublish_contents:
  "contents (ch_trace (readyToPublishMsg now m sc)) = contents (ch_trace sc) @ [mwr_message m]"
  by (auto simp: readyToPublishMsg_def writeMessage_def emit_def Let_def split: prod.splits)

lemma nth_sent: "n < length xs \<Longrightarrow> (xs @ ys) ! n = xs ! n"
  by (simp add: nth_append)

lemma send_inv_published:
  assumes inv: "send_inv P sc"
    and pend: "Q + mset (map publication (sc_pendingMessages sc)) =
      P + {#publication m#} + mset (map publication ps)"
  shows "send_inv Q ((readyToPublishMsg now m sc)\<lparr>sc_pendingMessages := ps\<rparr>)"
proof (cases "length (contents (ch_trace sc)) < 2 ^ 64 - 1")
  case False
  then show ?thesis
    by (simp add: send_inv_def readyToPublish_contents)
next
  case True
  note r = readyToPublish_result [OF inv True, of now m]
  let ?sent = "sent_now (ch_trace sc)"
  have sent: "sent_now (ch_trace (readyToPublishMsg now m sc)) = ?sent @ [mwr_message m]"
    using r(1) sent_now_snoc(1) [of "ch_trace sc @ [Ev_write a b]" for a b]
    by (simp add: sent_now_def)
  have conf: "confirms (ch_trace (readyToPublishMsg now m sc)) = confirms (ch_trace sc)"
    by (simp add: r(1))
  have tags: "1 \<le> unat t \<and> unat t \<le> Suc (length ?sent) \<and> (?sent @ [mwr_message m]) ! (unat t - 1) = mwr_message x"
    if mem: "(t, x, w) \<in> set (ms_tagToMsg (sc_messageStore (readyToPublishMsg now m sc)))" for t x w
  proof -
    consider "(t, x, w) \<in> set (ms_tagToMsg (sc_messageStore sc))" | "t = sc_deliveryCounter sc" "x = m"
      using mem r by auto
    then show ?thesis
    proof cases
      case 1
      then have "1 \<le> unat t" "unat t \<le> length ?sent" "?sent ! (unat t - 1) = mwr_message x"
        using inv True by (auto simp: send_inv_def)
      then show ?thesis
        by (auto simp: nth_append)
    next
      case 2
      then show ?thesis
        using counter_fresh(1) [OF inv True] by simp
    qed
  qed
  have cnt: "sc_deliveryCounter (readyToPublishMsg now m sc) = of_nat (length ?sent + 1) + 1"
    and st: "store_inv mwr_guid (sc_messageStore (readyToPublishMsg now m sc))"
    and fl: "in_flight ((readyToPublishMsg now m sc)\<lparr>sc_pendingMessages := ps\<rparr>) = in_flight sc @ [publication m]"
    using inv True r by (simp_all add: send_inv_def store_inv_insert in_flight_def)
  have P: "P = mset (confirms (ch_trace sc)) + mset (in_flight sc) + mset (map publication (sc_pendingMessages sc))"
    using inv True by (simp add: send_inv_def)
  have "Q = mset (confirms (ch_trace sc)) + mset (in_flight sc @ [publication m]) + mset (map publication ps)"
    using pend unfolding P by (simp add: ac_simps)
  then show ?thesis
    using tags cnt st fl conf sent
    by (auto simp: send_inv_def)
qed

lemma send_inv_publish_loop:
  "send_inv P sc \<Longrightarrow> sc_pendingMessages sc = ms \<Longrightarrow> send_inv P (publish_loop now ms sc)"
proof (induction ms arbitrary: sc)
  case (Cons m ms)
  have "send_inv P ((readyToPublishMsg now m sc)\<lparr>sc_pendingMessages := ms\<rparr>)"
    using Cons.prems by (intro send_inv_published [OF Cons.prems(1)]) simp
  then show ?case
    using Cons.IH by simp
qed simp

lemma send_inv_pending: "send_inv P sc \<Longrightarrow> send_inv P (publishPendingMessages now sc)"
  by (simp add: publishPendingMessages_def send_inv_publish_loop)

lemma readyToPublish_pending: "sc_pendingMessages (readyToPublishMsg now m sc) = sc_pendingMessages sc"
  by (auto simp: readyToPublishMsg_def writeMessage_def emit_def Let_def split: prod.splits)

lemma send_inv_publish:
  assumes "send_inv P sc" and "publishMessage now m sc = Some sc'"
  shows "send_inv (P + {#publication m#}) sc'"
proof (cases "ch_state sc \<noteq> READY \<or> \<not> ch_flow sc")
  case True
  then have "sc' = sc\<lparr>sc_pendingMessages := sc_pendingMessages sc @ [m]\<rparr>"
    using assms(2) by (auto simp: publishMessage_def split: if_splits)
  then show ?thesis
    using assms(1) by (simp add: send_inv_def in_flight_def)
next
  case False
  then have sc': "sc' = readyToPublishMsg now m sc"
    using assms(2) by (auto simp: publishMessage_def split: if_splits)
  have "send_inv (P + {#publication m#}) ((readyToPublishMsg now m sc)\<lparr>sc_pendingMessages := sc_pendingMessages sc\<rparr>)"
    by (rule send_inv_published [OF assms(1)]) simp
  moreover have "(readyToPublishMsg now m sc)\<lparr>sc_pendingMessages := sc_pendingMessages sc\<rparr> = readyToPublishMsg now m sc"
    by (intro send_channel.equality) (simp_all add: readyToPublish_pending)
  ultimately show ?thesis
    unfolding sc' by simp
qed

lemma callback_result:
  "distinct (map fst msgs) \<Longrightarrow>
     callbackMessages msgs r sc =
       sc\<lparr>ch_trace := ch_trace sc @ confirm_events sc r msgs,
          sc_returnedTagResponse := filter (\<lambda>e. fst e \<notin> fst ` set msgs) (sc_returnedTagResponse sc)\<rparr>"
proof (induction msgs r sc rule: callbackMessages.induct)
  case (1 r sc)
  then show ?case by (simp add: confirm_events_def)
next
  case (2 tag m t confs r sc)
  let ?sc = "(emit (Ev_client (Confirm_callback (mwr_message m) (mwr_routingKey m) (response_for sc r tag))) sc)
    \<lparr>sc_returnedTagResponse := om_erase tag (sc_returnedTagResponse sc)\<rparr>"
  have "response_for ?sc r t' = response_for sc r t'" if "t' \<noteq> tag" for t'
    using that by (simp add: response_for_def)
  then have "confirm_events ?sc r confs = confirm_events sc r confs"
    using "2.prems" by (force simp: confirm_events_def)
  then show ?case
    using "2.IH" "2.prems"
    by (simp add: response_for_def emit_def om_erase_def confirm_events_def conj_commute)
qed

lemma confirm_events_silent:
  "contents (confirm_events sc r msgs) = []"
  "confirms (confirm_events sc r msgs) = map (\<lambda>(t, m, w). publication m) msgs"
  "sent_now (tr @ confirm_events sc r msgs) = sent_now tr"
  by (induction msgs arbitrary: tr) (auto simp: confirm_events_def publication_def sent_now_def contents_def)

lemma mset_om_erase:
  "om_inv es \<Longrightarrow> map_of es t = Some v \<Longrightarrow> mset es = add_mset (t, v) (mset (om_erase t es))"
proof (induction es)
  case (Cons e es)
  show ?case
  proof (cases "fst e = t")
    case True
    then have "om_erase t es = es"
      using Cons.prems(1) by (auto simp: om_erase_def filter_id_conv)
    then show ?thesis
      using True Cons.prems by (cases e) (simp add: om_erase_def)
  next
    case False
    then have "mset es = add_mset (t, v) (mset (om_erase t es))"
      using Cons by (cases e) auto
    then show ?thesis
      using False by (simp add: om_erase_def)
  qed
qed simp

text \<open>Confirming some entries of the store.\<close>

lemma send_inv_confirm:
  assumes inv: "send_inv P sc" and "distinct (map fst msgs)"
    and st: "store_inv mwr_guid (sc_messageStore sc) \<Longrightarrow> store_inv mwr_guid store"
    and part: "store_inv mwr_guid (sc_messageStore sc) \<Longrightarrow>
      mset (ms_tagToMsg (sc_messageStore sc)) = mset msgs + mset (ms_tagToMsg store)"
  shows "send_inv P (callbackMessages msgs r (sc\<lparr>sc_messageStore := store\<rparr>))"
proof (cases "length (contents (ch_trace sc)) < 2 ^ 64 - 1")
  case False
  then show ?thesis
    by (simp add: send_inv_def callback_result [OF assms(2)] confirm_events_silent)
next
  case True
  then have I: "store_inv mwr_guid (sc_messageStore sc)"
    using inv by (simp add: send_inv_def)
  have sub: "set (ms_tagToMsg store) \<subseteq> set (ms_tagToMsg (sc_messageStore sc))"
    using mset_eq_setD [of "ms_tagToMsg (sc_messageStore sc)" "msgs @ ms_tagToMsg store"] part [OF I] by simp
  have "mset (in_flight sc) = mset (map (\<lambda>(t, m, w). publication m) msgs) +
      mset (map (\<lambda>(t, m, w). publication m) (ms_tagToMsg store))"
    by (simp add: in_flight_def part [OF I])
  then show ?thesis
    using inv True st [OF I] sub
    by (auto simp: send_inv_def callback_result [OF assms(2)] confirm_events_silent in_flight_def)
qed

lemma send_inv_processAckNack:
  assumes "send_inv P sc"
  shows "send_inv P (processAckNack multiple t r sc)"
proof -
  have same: "sc\<lparr>sc_messageStore := sc_messageStore sc\<rparr> = sc"
    by (intro send_channel.equality) simp_all
  show ?thesis
  proof (cases "map_of (ms_tagToMsg (sc_messageStore sc)) t")
    case None
    then show ?thesis
      using assms by (simp add: processAckNack_def store_removeUntil_def store_remove_def same)
  next
    case (Some v)
    obtain m w where v: "v = (m, w)" by (cases v)
    let ?es = "ms_tagToMsg (sc_messageStore sc)"
    let ?single = "snd (store_remove mwr_guid t (sc_messageStore sc))"
    have "send_inv P (callbackMessages [(t, m, w)] r (sc\<lparr>sc_messageStore := ?single\<rparr>))"
    proof (rule send_inv_confirm [OF assms])
      assume I: "store_inv mwr_guid (sc_messageStore sc)"
      show "store_inv mwr_guid ?single"
        using I by (rule store_inv_remove)
      show "mset ?es = mset [(t, m, w)] + mset (ms_tagToMsg ?single)"
        using I Some v mset_om_erase [of ?es t v] by (simp add: store_remove_def store_inv_def)
    qed simp
    moreover have "send_inv P (callbackMessages (fst (store_removeUntil mwr_guid t (sc_messageStore sc))) r
        (sc\<lparr>sc_messageStore := snd (store_removeUntil mwr_guid t (sc_messageStore sc))\<rparr>))"
    proof (cases "om_inv ?es")
      case True
      have "map_of ?es t \<noteq> None"
        using Some by simp
      note u = store_removeUntil_result [OF True this, where guid = mwr_guid]
      show ?thesis
      proof (rule send_inv_confirm [OF assms])
        show "distinct (map fst (fst (store_removeUntil mwr_guid t (sc_messageStore sc))))"
          by (simp add: u om_inv_distinct [OF om_inv_filter [OF True]])
      qed (simp_all add: store_inv_removeUntil, simp add: u)
    next
      case False
      then have "\<not> length (contents (ch_trace sc)) < 2 ^ 64 - 1"
        using assms by (auto simp: send_inv_def store_inv_def)
      moreover have "contents (ch_trace (callbackMessages msgs r x)) = contents (ch_trace x)"
        for msgs and x :: "('a, 'b, 'c) send_channel"
        by (induction msgs r x rule: callbackMessages.induct) (simp_all add: emit_def)
      ultimately show ?thesis
        by (simp add: send_inv_def)
    qed
    ultimately show ?thesis
      using Some v by (auto simp: processAckNack_def store_remove_def Let_def split: prod.splits)
  qed
qed

lemma drain_store_result:
  "om_inv (ms_tagToMsg s) \<Longrightarrow> drain_store s = map (\<lambda>(t, m, w). m) (ms_tagToMsg s)"
proof (induction s rule: drain_store.induct)
  case (1 s)
  show ?case
  proof (cases "ms_tagToMsg s")
    case Nil
    then show ?thesis
      by (simp add: drain_store.simps [of s] store_count_def)
  next
    case (Cons e es)
    obtain t m w where e: "e = (t, m, w)" by (cases e)
    let ?s = "s\<lparr>ms_tagToMsg := es, ms_guidToMsg := (ms_guidToMsg s)(mwr_guid m := None)\<rparr>"
    have "om_erase t (ms_tagToMsg s) = es"
      using 1(2) Cons e by (auto simp: om_erase_def filter_id_conv)
    then have rm: "store_remove mwr_guid (oldestTagInStore s) s = (Some (m, w), ?s)"
      using Cons e by (simp add: store_remove_def oldestTagInStore_def)
    have "drain_store ?s = map (\<lambda>(t, m, w). m) (ms_tagToMsg ?s)"
      using 1(2) Cons rm by (intro 1(1)) (auto simp: store_count_def)
    then show ?thesis
      using rm Cons e by (simp add: drain_store.simps [of s] store_count_def)
  qed
qed

lemma processFailures_result:
  assumes "om_inv (ms_tagToMsg (sc_messageStore sc))"
  shows "SendChannel_processFailures sc =
    sc\<lparr>sc_messageStore := MessageStore_new\<lparr>ms_lifetimeId := ms_lifetimeId (sc_messageStore sc) + 1\<rparr>,
       sc_pendingMessages := sc_pendingMessages sc @ map (\<lambda>(t, m, w). m) (ms_tagToMsg (sc_messageStore sc)),
       sc_returnedTagResponse := []\<rparr>"
  using assms by (simp add: SendChannel_processFailures_def store_swap_def drain_store_result)

lemma send_inv_reset:
  assumes "send_inv P sc"
  shows "send_inv P (snd (Channel_reset (SendChannel_vt now) b sc))"
proof (cases "length (contents (ch_trace sc)) < 2 ^ 64 - 1")
  case False
  then show ?thesis
    by (simp add: send_inv_def Channel_reset_def SendChannel_vt_def SendChannel_onReset_def
        SendChannel_processFailures_def updateState_def emit_def Let_def split: prod.splits)
next
  case True
  then have "om_inv (ms_tagToMsg (sc_messageStore (sc\<lparr>ch_state := CLOSED\<rparr>)))"
    and P: "P = mset (confirms (ch_trace sc)) + mset (in_flight sc) + mset (map publication (sc_pendingMessages sc))"
    using assms by (simp_all add: send_inv_def store_inv_def)
  note pf = processFailures_result [OF this(1)]
  have "store_inv mwr_guid (MessageStore_new\<lparr>ms_lifetimeId := n\<rparr>)" for n
    by (simp add: store_inv_def MessageStore_new_def)
  then show ?thesis
    unfolding P
    by (simp add: send_inv_def Channel_reset_def SendChannel_vt_def SendChannel_onReset_def updateState_def
        emit_def Let_def pf in_flight_def MessageStore_new_def)
      (auto simp: image_mset.compositionality comp_def case_prod_unfold)
qed

interpretation sc_base: channel_invariant "send_inv P" "SendChannel_vt now" for P now
proof (unfold_locales, goal_cases)
  case (1 ch bm)
  then show ?case
    by (auto simp: SendChannel_vt_def SendChannel_processBasicMethod_def send_inv_base
        split: BasicMethod.splits intro!: send_inv_processAckNack sc_members.inv_close)
next
  case (2 ch cm)
  then show ?case
    by (simp add: SendChannel_vt_def SendChannel_processConfirmMethod_def send_inv_pending sc_members.inv_ready)
next
  case (3 ch m)
  then show ?case
    by (auto simp: SendChannel_vt_def SendChannel_processMessage_def send_inv_base
        split: option.splits guid_lookup.splits intro!: sc_members.inv_close)
next
  case (4 ch)
  then show ?case
    by (simp add: SendChannel_vt_def SendChannel_onOpen_def sc_members.inv_writeMessage_state)
next
  case (5 ch)
  then show ?case
    by (simp add: SendChannel_vt_def SendChannel_onFlowAllowed_def send_inv_pending)
next
  case (6 ch r)
  then show ?case by (rule send_inv_reset)
qed

lemma send_inv_step:
  assumes "send_inv P sc" and "send_step now i sc = Some sc'"
  shows "send_inv (P + mset (published [(now, i)])) sc'"
proof (cases i)
  case (SI_publish m)
  then show ?thesis
    using assms send_inv_publish by simp
qed (use assms in \<open>auto simp: setCallback_def send_inv_base intro: sc_members.inv_open send_inv_reset
      sc_base.inv_processReceived sc_base.inv_onWriteComplete sc_members.inv_gracefulClose
      sc_base.inv_channelHung sc_members.inv_updateTopology sc_base.inv_waitForReady\<close>)

lemma send_inv_run:
  "send_inv P sc \<Longrightarrow> send_run is sc = Some sc' \<Longrightarrow> send_inv (P + mset (published is)) sc'"
proof (induction "is" arbitrary: P sc)
  case (Cons x xs)
  obtain now i where x: "x = (now, i)" by (cases x)
  then obtain sc1 where s: "send_step now i sc = Some sc1" and r: "send_run xs sc1 = Some sc'"
    using Cons.prems(2) by (auto split: option.splits)
  show ?case
    using Cons.IH [OF send_inv_step [OF Cons.prems(1) s] r] x by (simp add: ac_simps)
qed simp

lemma send_inv_new: "send_inv {#} (SendChannel_new topo ex)"
  by (simp add: send_inv_def SendChannel_new_def in_flight_def store_inv_new MessageStore_new_def store_inv_def)

lemma processAckNack_settles:
  assumes "store_inv mwr_guid (sc_messageStore sc)"
  obtains msgs where "ch_trace (processAckNack multiple t r sc) = ch_trace sc @ confirm_events sc r msgs"
    "map fst msgs = settled sc multiple t" "set msgs \<subseteq> set (ms_tagToMsg (sc_messageStore sc))"
    "map fst (ms_tagToMsg (sc_messageStore (processAckNack multiple t r sc))) =
       filter (\<lambda>t'. t' \<notin> set (settled sc multiple t)) (map fst (ms_tagToMsg (sc_messageStore sc)))"
proof -
  let ?es = "ms_tagToMsg (sc_messageStore sc)"
  have om: "om_inv ?es"
    using assms by (simp add: store_inv_def)
  show ?thesis
  proof (cases "map_of ?es t")
    case None
    then have n: "t \<notin> fst ` set ?es"
      by (simp add: map_of_eq_None_iff)
    show ?thesis
      by (rule that [of "[]"])
        (use None n in \<open>simp_all add: processAckNack_def store_removeUntil_def store_remove_def settled_def
          confirm_events_def Let_def filter_id_conv\<close>)
  next
    case (Some v)
    obtain m w where v: "v = (m, w)" by (cases v)
    have t: "t \<in> fst ` set ?es" "(t, m, w) \<in> set ?es"
      using Some v by (force dest: map_of_SomeD)+
    show ?thesis
    proof (cases multiple)
      case False
      have "settled sc multiple t = [t]"
        using t False by (simp add: settled_def)
      then show ?thesis
        using False Some v t
        by (intro that [of "[(t, m, w)]"])
          (simp_all add: processAckNack_def store_remove_def confirm_events_def response_for_def emit_def
            om_erase_def filter_map comp_def)
    next
      case True
      have "map_of ?es t \<noteq> None"
        using Some by simp
      note u = store_removeUntil_result [OF om this, where guid = mwr_guid]
      have d: "distinct (map fst (filter (\<lambda>e. fst e \<le> t) ?es))"
        by (rule om_inv_distinct [OF om_inv_filter [OF om]])
      have ne: "filter (\<lambda>e. fst e \<le> t) ?es \<noteq> []"
        using t by (auto simp: filter_empty_conv)
      have "settled sc multiple t = map fst (filter (\<lambda>e. fst e \<le> t) ?es)"
        using t True by (simp add: settled_def filter_map comp_def)
      moreover have "processAckNack multiple t r sc =
          callbackMessages (filter (\<lambda>e. fst e \<le> t) ?es) r
            (sc\<lparr>sc_messageStore := snd (store_removeUntil mwr_guid t (sc_messageStore sc))\<rparr>)"
        using True ne by (simp add: processAckNack_def u Let_def)
      moreover have "filter (\<lambda>e. \<not> fst e \<le> t) ?es =
          filter (\<lambda>e. fst e \<notin> fst ` {x \<in> set ?es. fst x \<le> t}) ?es"
        by (intro filter_cong) auto
      ultimately show ?thesis
        by (intro that [of "filter (\<lambda>e. fst e \<le> t) ?es"])
          (simp_all add: callback_result [OF d] u confirm_events_def response_for_def filter_map comp_def)
    qed
  qed
qed

lemma publish_loop_result:
  "send_inv P sc \<Longrightarrow> sc_pendingMessages sc = ms \<Longrightarrow>
     length (contents (ch_trace sc)) + length ms < 2 ^ 64 \<Longrightarrow>
     stored (publish_loop now ms sc) = stored sc @ ms \<and>
     contents (ch_trace (publish_loop now ms sc)) = contents (ch_trace sc) @ map mwr_message ms \<and>
     sc_pendingMessages (publish_loop now ms sc) = [] \<and> ch_state (publish_loop now ms sc) = ch_state sc"
proof (induction ms arbitrary: sc)
  case (Cons m ms)
  let ?sc = "(readyToPublishMsg now m sc)\<lparr>sc_pendingMessages := ms\<rparr>"
  have "send_inv P ?sc"
    using Cons.prems by (intro send_inv_published [OF Cons.prems(1)]) simp
  moreover have "length (contents (ch_trace sc)) < 2 ^ 64 - 1"
    using Cons.prems(3) by simp
  note r = readyToPublish_result [OF Cons.prems(1) this, of now m]
  have "stored ?sc = stored sc @ [m]" "ch_state ?sc = ch_state sc"
    by (simp_all add: stored_def r)
  ultimately show ?case
    using Cons.IH [of ?sc] Cons.prems(3) by (simp add: readyToPublish_contents)
qed simp

section \<open>A session\<close>

lemmas send_eval = channel_eval SendChannel_vt_def SendChannel_new_def setCallback_def SendChannel_onOpen_def
  SendChannel_onReset_def SendChannel_processFailures_def SendChannel_onFlowAllowed_def
  SendChannel_processConfirmMethod_def publishPendingMessages_def publishMessage_def readyToPublishMsg_def
  store_insert_def om_emplace_def MessageStore_new_def

lemma sample_session_run:
  obtains sc where "send_run sample_session sample_send_channel = Some sc"
    "contents (ch_trace sc) = [mwr_message sample_message]" "sc_pendingMessages sc = []"
    "stored sc = [sample_message]" "ms_tagToMsg (sc_messageStore sc) = [(1, sample_message, 0)]"
  by (simp add: sample_session_def sample_send_channel_def send_eval empty_topology_transformer stored_def contents_def)

section \<open>Properties\<close>

text \<open>C2: No publication is lost and none is confirmed twice. Whatever happens to a send channel, in any
  order (publishing before or after it is ready, acks, nacks, returns, disconnections, closing and
  reopening), the publications so far are, as a multiset, exactly those confirmed to the client, those in
  flight in the message store, and those pending. (The delivery counter must not wrap: fewer than
  \<open>2^64 - 1\<close> contents were written.)\<close>

theorem no_publication_lost:
  assumes "send_run ins (SendChannel_new topology exchangeName) = Some sc"
    and "length (contents (ch_trace sc)) < 2 ^ 64 - 1"
  shows "mset (published ins) =
     mset (confirms (ch_trace sc)) + mset (in_flight sc) + mset (map publication (sc_pendingMessages sc))"
  using send_inv_run [OF send_inv_new assms(1)] assms(2) by (simp add: send_inv_def)

theorem no_publication_lost_witness:
  "case send_run sample_session sample_send_channel of
     None \<Rightarrow> False
   | Some sc \<Rightarrow> mset [publication sample_message] =
       mset (confirms (ch_trace sc)) + mset (in_flight sc) + mset (map publication (sc_pendingMessages sc))"
proof (rule sample_session_run)
  fix sc
  assume sc: "send_run sample_session sample_send_channel = Some sc"
    "contents (ch_trace sc) = [mwr_message sample_message]"
  have "published sample_session = [publication sample_message]"
    by (simp add: sample_session_def)
  then show ?thesis
    using no_publication_lost [OF sc(1) [unfolded sample_send_channel_def]] sc by simp
qed

text \<open>C7: Confirmations reach the right message. An ack or nack with tag \<open>t\<close> calls back, in order, exactly for
  the tags it settles that are still unconfirmed: \<open>t\<close> itself, and with \<open>multiple\<close> all lower ones. The message
  called back for tag \<open>n\<close> is the \<open>n\<close>-th content written since the channel was last disconnected, which is how
  the broker counts; the response is that of the return, if the message had been returned. The settled tags
  leave the store, all others stay.\<close>

theorem confirm_matches_tag:
  assumes "send_run ins (SendChannel_new topology exchangeName) = Some sc"
    and "length (contents (ch_trace sc)) < 2 ^ 64 - 1"
  shows "\<exists>msgs. ch_trace (processAckNack multiple t r sc) = ch_trace sc @ confirm_events sc r msgs \<and>
     map fst msgs = settled sc multiple t \<and>
     list_all (\<lambda>(n, m, w). 1 \<le> unat n \<and> unat n \<le> length (sent_now (ch_trace sc)) \<and>
        mwr_message m = sent_now (ch_trace sc) ! (unat n - 1)) msgs \<and>
     map fst (ms_tagToMsg (sc_messageStore (processAckNack multiple t r sc))) =
       filter (\<lambda>n. n \<notin> set (settled sc multiple t)) (map fst (ms_tagToMsg (sc_messageStore sc)))"
proof -
  have inv: "send_inv (mset (published ins)) sc"
    using send_inv_run [OF send_inv_new assms(1)] by simp
  then have st: "store_inv mwr_guid (sc_messageStore sc)"
    using assms(2) by (simp add: send_inv_def)
  show ?thesis
  proof (rule processAckNack_settles [OF st, of multiple t r])
    fix msgs
    assume a: "ch_trace (processAckNack multiple t r sc) = ch_trace sc @ confirm_events sc r msgs"
      "map fst msgs = settled sc multiple t" "set msgs \<subseteq> set (ms_tagToMsg (sc_messageStore sc))"
      "map fst (ms_tagToMsg (sc_messageStore (processAckNack multiple t r sc))) =
         filter (\<lambda>n. n \<notin> set (settled sc multiple t)) (map fst (ms_tagToMsg (sc_messageStore sc)))"
    have "list_all (\<lambda>(n, m, w). 1 \<le> unat n \<and> unat n \<le> length (sent_now (ch_trace sc)) \<and>
        mwr_message m = sent_now (ch_trace sc) ! (unat n - 1)) msgs"
      using inv assms(2) a(3) by (fastforce simp: send_inv_def list_all_iff)
    then show ?thesis
      using a(1,2,4) by blast
  qed
qed

theorem confirm_matches_tag_witness:
  "case send_run sample_session sample_send_channel of
     None \<Rightarrow> False
   | Some sc \<Rightarrow> \<exists>msgs. ch_trace (processAckNack False 1 (ConfirmResponse CR_ACK) sc) =
        ch_trace sc @ confirm_events sc (ConfirmResponse CR_ACK) msgs \<and> map fst msgs = [1]"
proof (rule sample_session_run)
  fix sc
  assume sc: "send_run sample_session sample_send_channel = Some sc"
    "contents (ch_trace sc) = [mwr_message sample_message]"
    "ms_tagToMsg (sc_messageStore sc) = [(1, sample_message, 0)]"
  have "settled sc False 1 = [1]"
    by (simp add: settled_def sc)
  then show ?thesis
    using confirm_matches_tag [OF sc(1) [unfolded sample_send_channel_def], of False 1 "ConfirmResponse CR_ACK"]
      sc(1,2) by auto
qed

text \<open>C9: A reconnection resends everything that is unconfirmed. A reset puts the messages in flight, oldest
  first, behind the pending ones, empties the store and restarts the delivery tags at 1. When the broker
  accepts confirm mode on the reopened channel, all pending messages are written in order and are in the
  store again, and nothing is pending any more.\<close>

theorem reconnect_resends_all:
  assumes "send_run ins (SendChannel_new topology exchangeName) = Some sc"
    and "length (contents (ch_trace sc)) + length (sc_pendingMessages sc) < 2 ^ 64 - 1"
  shows "(case snd (Channel_reset (SendChannel_vt now) b sc) of sc' \<Rightarrow>
       sc_pendingMessages sc' = sc_pendingMessages sc @ stored sc \<and> stored sc' = [] \<and>
       sc_deliveryCounter sc' = 1 \<and> ch_state sc' = CLOSED) \<and>
     (case SendChannel_processConfirmMethod now M_ConfirmSelectOk sc of sc' \<Rightarrow>
       stored sc' = stored sc @ sc_pendingMessages sc \<and>
       contents (ch_trace sc') = contents (ch_trace sc) @ map mwr_message (sc_pendingMessages sc) \<and>
       sc_pendingMessages sc' = [] \<and> ch_state sc' = READY)"
proof -
  have inv: "send_inv (mset (published ins)) sc"
    using send_inv_run [OF send_inv_new assms(1)] by simp
  then have "om_inv (ms_tagToMsg (sc_messageStore (sc\<lparr>ch_state := CLOSED\<rparr>)))"
    using assms(2) by (simp add: send_inv_def store_inv_def)
  note pf = processFailures_result [OF this]
  have same: "stored (Channel_ready sc) = stored sc" "contents (ch_trace (Channel_ready sc)) = contents (ch_trace sc)"
    "sc_pendingMessages (Channel_ready sc) = sc_pendingMessages sc" "ch_state (Channel_ready sc) = READY"
    by (simp_all add: Channel_ready_def stored_def emit_def Let_def) (simp add: contents_def)
  show ?thesis
    using publish_loop_result [OF sc_members.inv_ready [OF inv] refl, of now] assms(2)
    by (simp add: Channel_reset_def SendChannel_vt_def SendChannel_onReset_def updateState_def emit_def Let_def pf
        stored_def [of "sc_messageStore_update _ _"] stored_def [of "_\<lparr>ch_trace := _\<rparr>"] MessageStore_new_def
        SendChannel_processConfirmMethod_def publishPendingMessages_def same)
      (simp add: stored_def)
qed

theorem reconnect_resends_all_witness:
  "case send_run sample_session sample_send_channel of
     None \<Rightarrow> False
   | Some sc \<Rightarrow> sc_pendingMessages (snd (Channel_reset (SendChannel_vt 0) True sc)) = [sample_message]"
proof (rule sample_session_run)
  fix sc
  assume sc: "send_run sample_session sample_send_channel = Some sc"
    "contents (ch_trace sc) = [mwr_message sample_message]" "sc_pendingMessages sc = []"
    "stored sc = [sample_message]"
  show ?thesis
    using reconnect_resends_all [OF sc(1) [unfolded sample_send_channel_def], of 0 True] sc by auto
qed

text \<open>A send channel that was told to stop (\<open>channel.flow\<close> with \<open>active = false\<close>) stays stopped after a
  reconnection, although flow is active on a newly opened channel: nothing resets \<open>d_flow\<close>. The channel is
  ready, but a message published on it is only queued.\<close>

theorem flow_stop_survives_reconnect:
  "case send_run ((now, SI_setCallback) # open_session now lv @
        [(now, SI_received lv (Msg_Method (Channel (M_ChannelFlow \<lparr>flow_activeFlow = False\<rparr>)))),
         (now, SI_reset True)] @ open_session now lv @ [(now, SI_publish m)])
      (SendChannel_new empty_topology exchangeName) of
     None \<Rightarrow> False
   | Some sc \<Rightarrow> ch_state sc = READY \<and> sc_pendingMessages sc = [m] \<and> contents (ch_trace sc) = []"
  by (simp add: open_session_def send_eval empty_topology_transformer contents_def store_swap_def
      drain_store.simps store_count_def)

text \<open>A channel that is closed while it waits for \<open>confirm.select-ok\<close> becomes ready when that reply
  arrives and writes its pending messages after its own \<open>channel.close\<close>: \<open>processConfirmMethod\<close> only warns about
  the unexpected state.\<close>

theorem publishes_after_close:
  "case send_run [(now, SI_setCallback), (now, SI_publish m), (now, SI_open),
        (now, SI_received lv (Msg_Method (Channel M_ChannelOpenOk))), (now, SI_gracefulClose),
        (now, SI_received lv (Msg_Method (Confirm M_ConfirmSelectOk)))]
      (SendChannel_new empty_topology exchangeName) of
     None \<Rightarrow> False
   | Some sc \<Rightarrow> ch_state sc = READY \<and>
       (\<exists>before after. ch_trace sc = before @
          Ev_write (close_message REPLY_SUCCESS (bstr ''Closing Channel'') 0 0) WC_onWriteComplete # after \<and>
          contents after = [mwr_message m])"
  by (simp add: send_eval empty_topology_transformer close_message_def)
    (rule exI [of _ "[Ev_timer_start, Ev_write (Msg_Method (Channel M_ChannelOpen)) WC_onWriteComplete,
        Ev_timer_reset, Ev_timer_cancel,
        Ev_write (Msg_Method (Confirm (M_ConfirmSelect \<lparr>select_noWait = False\<rparr>))) WC_onWriteComplete]"],
      simp)

lemma expired_update_again:
  assumes "ch_state sc = CHANNEL_CLOSE_SENT" "\<not> ch_permanentlyClosing sc" "ch_topology sc = empty_topology"
    "ch_updateQueue sc = (u, p) # q" "None \<in> update_method lv ` set u"
  shows "\<exists>sc'. send_run (reopen_session now lv) sc = Some sc' \<and> ch_state sc' = CHANNEL_CLOSE_SENT \<and>
    \<not> ch_permanentlyClosing sc' \<and> ch_topology sc' = empty_topology \<and> ch_updateQueue sc' = (u, p) # q"
proof -
  have "tt_error (TopologyTransformer_update lv u :: ('a, 'b) topology_transformer)"
    using built_update [of lv u, where ?'b = 'b] assms(5) by (simp add: built_def)
  then show ?thesis
    using assms(1-4)
    by (simp add: reopen_session_def send_eval store_swap_def empty_topology_transformer sendNextUpdate.simps)
qed

lemma send_run_append:
  "send_run (xs @ ys) sc = (case send_run xs sc of None \<Rightarrow> None | Some sc' \<Rightarrow> send_run ys sc')"
  by (induction xs sc rule: send_run.induct) (auto split: option.splits)

text \<open>A topology update that refers to a queue or exchange that is gone blocks its channel for good. The
  channel closes itself because of it and keeps the update at the head of its queue, so however often it is
  reopened it ends up closing again and is never ready.\<close>

theorem expired_update_blocks_channel:
  assumes "ch_state sc = CHANNEL_CLOSE_SENT" and "\<not> ch_permanentlyClosing sc" and "ch_topology sc = empty_topology"
    and "ch_updateQueue sc = (u, p) # q" and "None \<in> update_method lv ` set u"
  shows "case send_run (concat (replicate n (reopen_session now lv))) sc of
     None \<Rightarrow> False
   | Some sc' \<Rightarrow> ch_state sc' = CHANNEL_CLOSE_SENT \<and> ch_updateQueue sc' = (u, p) # q"
  using assms
proof (induction n arbitrary: sc)
  case (Suc n)
  from expired_update_again [OF Suc.prems, of now]
  obtain sc1 where "send_run (reopen_session now lv) sc = Some sc1" and "ch_state sc1 = CHANNEL_CLOSE_SENT"
    "\<not> ch_permanentlyClosing sc1" "ch_topology sc1 = empty_topology" "ch_updateQueue sc1 = (u, p) # q"
    by blast
  then show ?case
    using Suc.IH [of sc1] Suc.prems(5) by (simp add: send_run_append)
qed simp

theorem expired_update_blocks_channel_witness:
  "case send_run (concat (replicate 5 (reopen_session 0 sample_live)))
      (sample_send_channel\<lparr>ch_state := CHANNEL_CLOSE_SENT, ch_updateQueue := [([Up_Nil], 0)]\<rparr>) of
     None \<Rightarrow> False
   | Some sc' \<Rightarrow> ch_state sc' = CHANNEL_CLOSE_SENT \<and> ch_updateQueue sc' = [([Up_Nil], 0)]"
  by (rule expired_update_blocks_channel) (simp_all add: sample_send_channel_def SendChannel_new_def)

end
