(* ===== verification/Producer.thy ===== *)
theory Producer
  imports Transformers Send_Channel "HOL-Library.Sublist" "HOL-Library.AList"
begin

text \<open>
  \<open>rmqa::ProducerImpl\<close> over a send channel: the limit on unconfirmed messages, the callbacks of the application, and
  waiting for all confirms.

  Application threads, the event loop and the thread pool share the state of the producer; they are interleaved at the
  points where the code takes the semaphore or the mutex, posts to the event loop or enqueues a job. What a thread has
  in hand between two such points is part of the state of the system. Application callbacks are values, and calling one
  is an event. The tagger is a function on the properties and the callback; transformers are those of theory
  \<open>Transformers\<close>.
\<close>

section \<open>The producer\<close>

datatype send_status = SENDING | DUPLICATE | TIMEOUT | INFLIGHT_LIMIT | TRANSFORM_ERROR

type_synonym ('dt, 'cb) tagger = "'dt properties \<Rightarrow> bytes \<Rightarrow> bytes \<Rightarrow> 'cb \<Rightarrow> 'dt properties \<times> 'cb"

record ('dt, 'g, 'cb) producer =
  pd_callbackMap :: "('g \<times> 'cb) list"
  pd_isValid :: bool
  pd_outstandingMessagesCap :: nat
  pd_waitForConfirmsFuture :: "nat option"
  pd_futures :: nat
  pd_transformers :: "'dt transformer list"
  pd_exchangeName :: bytes
  pd_tagger :: "('dt, 'cb) tagger option"

text \<open>What the producer does that can be seen outside: a call that returns \<^const>\<open>SENDING\<close> with the publication and the
  callback registered for it, one that returns something else, a callback called, and a future resolved.\<close>

datatype ('dt, 'g, 'cb) producer_event =
    PE_sent "('dt, 'g) message" bytes 'cb
  | PE_refused send_status
  | PE_called 'cb "('dt, 'g) message" bytes confirm_response
  | PE_resolved nat

type_synonym ('dt, 'g) confirm_job = "('dt, 'g) message \<times> bytes \<times> confirm_response"

definition extractExchangeName :: "'dt exchange option \<Rightarrow> bytes" where
  "extractExchangeName ex = (case ex of Some e \<Rightarrow> exchange_name e | None \<Rightarrow> bstr ''<expired exchange>'')"

definition ProducerImpl_new :: "u16 \<Rightarrow> bytes \<Rightarrow> ('dt, 'cb) tagger option \<Rightarrow> ('dt, 'g, 'cb) producer" where
  "ProducerImpl_new maxOutstandingConfirms exchangeName tagger =
     \<lparr>pd_callbackMap = [], pd_isValid = True, pd_outstandingMessagesCap = unat maxOutstandingConfirms,
      pd_waitForConfirmsFuture = None, pd_futures = 0, pd_transformers = [], pd_exchangeName = exchangeName,
      pd_tagger = tagger\<rparr>"

definition sem_post :: "('dt, 'g, 'cb) producer \<Rightarrow> ('dt, 'g, 'cb) producer" where
  "sem_post pd = pd\<lparr>pd_outstandingMessagesCap := pd_outstandingMessagesCap pd + 1\<rparr>"

definition sem_tryWait :: "('dt, 'g, 'cb) producer \<Rightarrow> ('dt, 'g, 'cb) producer option" where
  "sem_tryWait pd =
     (if pd_outstandingMessagesCap pd > 0
      then Some (pd\<lparr>pd_outstandingMessagesCap := pd_outstandingMessagesCap pd - 1\<rparr>) else None)"

definition registerUniqueCallback :: "'g \<Rightarrow> 'cb \<Rightarrow> ('dt, 'g, 'cb) producer \<Rightarrow> bool \<times> ('dt, 'g, 'cb) producer" where
  "registerUniqueCallback guid confirmCallback pd =
     (if map_of (pd_callbackMap pd) guid \<noteq> None then (False, pd)
      else (True, pd\<lparr>pd_callbackMap := (guid, confirmCallback) # pd_callbackMap pd\<rparr>))"

definition prepareMessageForSending ::
  "'cb \<Rightarrow> ('dt, 'g) message \<Rightarrow> bytes \<Rightarrow> ('dt, 'g, 'cb) producer \<Rightarrow> 'cb \<times> ('dt, 'g) message" where
  "prepareMessageForSending callback message routingKey pd =
     (case pd_tagger pd of
        None \<Rightarrow> (callback, message)
      | Some tag \<Rightarrow>
          (case tag (msg_properties message) routingKey (pd_exchangeName pd) callback of
             (props, callback) \<Rightarrow> (callback, message\<lparr>msg_properties := props\<rparr>)))"

definition addTransformer :: "'dt transformer \<Rightarrow> ('dt, 'g, 'cb) producer \<Rightarrow> ('dt, 'g, 'cb) producer" where
  "addTransformer t pd = pd\<lparr>pd_transformers := pd_transformers pd @ [t]\<rparr>"

text \<open>Sending up to the call of \<open>doSend\<close>, which comes last in \<open>sendImpl\<close> and \<open>trySend\<close>: the call has returned, or waits for
  the semaphore, or holds a unit of it and is about to call \<open>doSend\<close> with these arguments. \<open>expired\<close> says whether
  \<open>timedWait\<close> has given up.\<close>

datatype ('dt, 'g, 'cb) send_progress =
    SP_returned send_status
  | SP_waiting
  | SP_doSend "('dt, 'g) message" bytes mandatory 'cb

definition sendImpl ::
  "('dt, 'g) message \<Rightarrow> bytes \<Rightarrow> mandatory \<Rightarrow> 'cb \<Rightarrow> nat \<Rightarrow> bool \<Rightarrow> ('dt, 'g, 'cb) producer \<Rightarrow>
     ('dt, 'g, 'cb) send_progress \<times> ('dt, 'g, 'cb) producer" where
  "sendImpl message routingKey mandatoryFlag confirmCallback timeout expired pd =
     (case prepareMessageForSending confirmCallback message routingKey pd of
        (callback, taggedMessage) \<Rightarrow>
          (case sem_tryWait pd of
             Some pd \<Rightarrow> (SP_doSend taggedMessage routingKey mandatoryFlag callback, pd)
           | None \<Rightarrow> (if timeout \<noteq> 0 \<and> expired then SP_returned TIMEOUT else SP_waiting, pd)))"

definition trySend ::
  "('dt, 'g) message \<Rightarrow> bytes \<Rightarrow> 'cb \<Rightarrow> ('dt, 'g, 'cb) producer \<Rightarrow>
     ('dt, 'g, 'cb) send_progress \<times> ('dt, 'g, 'cb) producer" where
  "trySend message routingKey confirmCallback pd =
     (case prepareMessageForSending confirmCallback message routingKey pd of
        (callback, taggedMessage) \<Rightarrow>
          (case sem_tryWait pd of
             Some pd \<Rightarrow> (SP_doSend taggedMessage routingKey RETURN_UNROUTABLE callback, pd)
           | None \<Rightarrow> (SP_returned INFLIGHT_LIMIT, pd)))"

text \<open>\<open>send\<close> without a mandatory flag.\<close>

definition Producer_send ::
  "('dt, 'g) message \<Rightarrow> bytes \<Rightarrow> 'cb \<Rightarrow> nat \<Rightarrow> bool \<Rightarrow> ('dt, 'g, 'cb) producer \<Rightarrow>
     ('dt, 'g, 'cb) send_progress \<times> ('dt, 'g, 'cb) producer" where
  "Producer_send message routingKey confirmCallback timeout expired pd =
     sendImpl message routingKey RETURN_UNROUTABLE confirmCallback timeout expired pd"

text \<open>\<open>doSend\<close> returns the status and the publication it posts to the event loop; \<^const>\<open>None\<close> is the use of a null header
  table. \<open>fresh\<close> is the GUID that is generated if the transformed message needs one.\<close>

definition doSend ::
  "'g guid_util \<Rightarrow> 'g \<Rightarrow> ('dt, 'g) message \<Rightarrow> bytes \<Rightarrow> mandatory \<Rightarrow> 'cb \<Rightarrow> ('dt, 'g, 'cb) producer \<Rightarrow>
     (send_status \<times> ('dt, 'g) message_with_route option \<times> ('dt, 'g, 'cb) producer) option" where
  "doSend gu fresh message routingKey mandatoryFlag confirmCallback pd =
     (case (if pd_transformers pd \<noteq> [] then applyTransformations gu fresh (pd_transformers pd) message
            else TR_done message) of
        TR_null \<Rightarrow> None
      | TR_failed \<Rightarrow> Some (TRANSFORM_ERROR, None, sem_post pd)
      | TR_done realMsg \<Rightarrow>
          (case registerUniqueCallback (msg_guid realMsg) confirmCallback pd of
             (False, pd) \<Rightarrow> Some (DUPLICATE, None, sem_post pd)
           | (True, pd) \<Rightarrow>
               Some (SENDING,
                 Some \<lparr>mwr_message = realMsg, mwr_routingKey = routingKey, mwr_mandatory = mandatoryFlag\<rparr>, pd)))"

definition actionConfirmOnThreadPool ::
  "('dt, 'g) confirm_job \<Rightarrow> ('dt, 'g, 'cb) producer \<Rightarrow> ('dt, 'g, 'cb) producer_event list \<times> ('dt, 'g, 'cb) producer" where
  "actionConfirmOnThreadPool job pd =
     (case job of (message, routingKey, confirmResponse) \<Rightarrow>
        if \<not> pd_isValid pd then ([], pd)
        else
          (case map_of (pd_callbackMap pd) (msg_guid message) of
             None \<Rightarrow> ([], pd)
           | Some callback \<Rightarrow>
               let pd = sem_post (pd\<lparr>pd_callbackMap := AList.delete (msg_guid message) (pd_callbackMap pd)\<rparr>) in
               (case pd_waitForConfirmsFuture pd of
                  Some f \<Rightarrow>
                    if pd_callbackMap pd = []
                    then ([PE_called callback message routingKey confirmResponse, PE_resolved f],
                          pd\<lparr>pd_waitForConfirmsFuture := None\<rparr>)
                    else ([PE_called callback message routingKey confirmResponse], pd)
                | None \<Rightarrow> ([PE_called callback message routingKey confirmResponse], pd))))"

text \<open>The part of \<open>waitForConfirms\<close> under the mutex returns the future to wait for, if there is one. The result of a
  wait without a timeout is thrown away.\<close>

definition waitForConfirms :: "('dt, 'g, 'cb) producer \<Rightarrow> nat option \<times> ('dt, 'g, 'cb) producer" where
  "waitForConfirms pd =
     (if pd_callbackMap pd \<noteq> [] then
        (case pd_waitForConfirmsFuture pd of
           Some f \<Rightarrow> (Some f, pd)
         | None \<Rightarrow>
             (Some (pd_futures pd),
              pd\<lparr>pd_waitForConfirmsFuture := Some (pd_futures pd), pd_futures := pd_futures pd + 1\<rparr>))
      else (None, pd))"

definition waitForConfirms_result :: "nat option \<Rightarrow> nat \<Rightarrow> bytes + unit \<Rightarrow> bytes + unit" where
  "waitForConfirms_result future timeout awaited = (if future \<noteq> None \<and> timeout \<noteq> 0 then awaited else Inr ())"


section \<open>Producer, channel, event loop and thread pool\<close>

text \<open>What is posted to the event loop.\<close>

datatype ('dt, 'g) posted =
    Post_publishMessage "('dt, 'g) message_with_route"
  | Post_updateTopology "'dt topology_update"
  | Post_gracefulClose

text \<open>Threads that hold a unit of the semaphore and have not called \<open>doSend\<close> yet, threads that have registered a callback
  and have not posted the publication yet, the queue of the event loop, the jobs of the thread pool (several threads
  take them in any order), and the confirms the application is not told about: those for which no job could be
  enqueued, and those whose job ran after the producer was destroyed.\<close>

record ('dt, 'g, 'cb, 't) producer_system =
  sy_producer :: "('dt, 'g, 'cb) producer"
  sy_channel :: "('dt, 'g, 't) send_channel"
  sy_sending :: "(('dt, 'g) message \<times> bytes \<times> mandatory \<times> 'cb) list"
  sy_posting :: "('dt, 'g) message_with_route list"
  sy_eventLoop :: "('dt, 'g) posted list"
  sy_poolEnabled :: bool
  sy_jobs :: "('dt, 'g) confirm_job list"
  sy_lost :: "('dt, 'g) confirm_job list"
  sy_events :: "('dt, 'g, 'cb) producer_event list"

fun confirm_job_of :: "('dt, 'g, ('dt, 'g) confirm_event) channel_event \<Rightarrow> ('dt, 'g) confirm_job list" where
  "confirm_job_of (Ev_client (Confirm_callback m rk r)) = [(m, rk, r)]"
| "confirm_job_of _ = []"

text \<open>\<open>handleConfirmOnEventLoop\<close>, the callback of the channel, for each of the confirms it has just reported.\<close>

definition handleConfirmOnEventLoop ::
  "('dt, 'g) confirm_job list \<Rightarrow> ('dt, 'g, 'cb, 't) producer_system \<Rightarrow> ('dt, 'g, 'cb, 't) producer_system" where
  "handleConfirmOnEventLoop confs sy =
     (if sy_poolEnabled sy then sy\<lparr>sy_jobs := sy_jobs sy @ confs\<rparr> else sy\<lparr>sy_lost := sy_lost sy @ confs\<rparr>)"

definition channel_step ::
  "'t \<Rightarrow> ('dt, 'g) send_input \<Rightarrow> ('dt, 'g, 'cb, 't) producer_system \<Rightarrow> ('dt, 'g, 'cb, 't) producer_system option" where
  "channel_step now i sy =
     (case send_step now i (sy_channel sy) of
        None \<Rightarrow> None
      | Some sc \<Rightarrow>
          Some (handleConfirmOnEventLoop
            (concat (map confirm_job_of (drop (length (ch_trace (sy_channel sy))) (ch_trace sc))))
            (sy\<lparr>sy_channel := sc\<rparr>)))"

fun run_posted ::
  "'t \<Rightarrow> 'dt live_objects \<Rightarrow> ('dt, 'g) posted \<Rightarrow> ('dt, 'g, 'cb, 't) producer_system \<Rightarrow>
     ('dt, 'g, 'cb, 't) producer_system option" where
  "run_posted now lv (Post_publishMessage m) sy = channel_step now (SI_publish m) sy"
| "run_posted now lv (Post_updateTopology u) sy = channel_step now (SI_updateTopology lv u) sy"
| "run_posted now lv Post_gracefulClose sy = channel_step now SI_gracefulClose sy"

text \<open>The destructor, and updating the topology.\<close>

definition ProducerImpl_destroy :: "('dt, 'g, 'cb, 't) producer_system \<Rightarrow> ('dt, 'g, 'cb, 't) producer_system" where
  "ProducerImpl_destroy sy =
     sy\<lparr>sy_producer := (sy_producer sy)\<lparr>pd_isValid := False\<rparr>,
        sy_eventLoop := sy_eventLoop sy @ [Post_gracefulClose]\<rparr>"

definition updateTopologyAsync ::
  "'dt topology_update \<Rightarrow> ('dt, 'g, 'cb, 't) producer_system \<Rightarrow> ('dt, 'g, 'cb, 't) producer_system" where
  "updateTopologyAsync u sy = sy\<lparr>sy_eventLoop := sy_eventLoop sy @ [Post_updateTopology u]\<rparr>"

text \<open>Everything that can happen. Inputs of the channel other than those of the producer come from the connection.\<close>

datatype ('dt, 'g, 'cb, 't) producer_input =
    PI_send "('dt, 'g) message" bytes mandatory 'cb nat bool
  | PI_trySend "('dt, 'g) message" bytes 'cb
  | PI_doSend 'g "('dt, 'g) message \<times> bytes \<times> mandatory \<times> 'cb"
  | PI_post "('dt, 'g) message_with_route"
  | PI_eventLoop 't "'dt live_objects"
  | PI_channel 't "('dt, 'g) send_input"
  | PI_job "('dt, 'g) confirm_job"
  | PI_disablePool
  | PI_waitForConfirms
  | PI_updateTopology "'dt topology_update"
  | PI_addTransformer "'dt transformer"
  | PI_destroy

fun progress ::
  "('dt, 'g, 'cb) send_progress \<times> ('dt, 'g, 'cb) producer \<Rightarrow> ('dt, 'g, 'cb, 't) producer_system \<Rightarrow>
     ('dt, 'g, 'cb, 't) producer_system" where
  "progress (SP_returned status, pd) sy = sy\<lparr>sy_producer := pd, sy_events := sy_events sy @ [PE_refused status]\<rparr>"
| "progress (SP_waiting, pd) sy = sy\<lparr>sy_producer := pd\<rparr>"
| "progress (SP_doSend m rk mandatoryFlag cb, pd) sy =
     sy\<lparr>sy_producer := pd, sy_sending := (m, rk, mandatoryFlag, cb) # sy_sending sy\<rparr>"

fun from_connection :: "('dt, 'g) send_input \<Rightarrow> bool" where
  "from_connection (SI_publish _) = False"
| "from_connection SI_setCallback = False"
| "from_connection _ = True"

fun producer_step ::
  "'g guid_util \<Rightarrow> ('dt, 'g, 'cb, 't) producer_input \<Rightarrow> ('dt, 'g, 'cb, 't) producer_system \<Rightarrow>
     ('dt, 'g, 'cb, 't) producer_system option" where
  "producer_step gu (PI_send m rk mandatoryFlag cb timeout expired) sy =
     Some (progress (sendImpl m rk mandatoryFlag cb timeout expired (sy_producer sy)) sy)"
| "producer_step gu (PI_trySend m rk cb) sy = Some (progress (trySend m rk cb (sy_producer sy)) sy)"
| "producer_step gu (PI_doSend fresh call) sy =
     (if call \<notin> set (sy_sending sy) then None
      else
        (case call of (m, rk, mandatoryFlag, cb) \<Rightarrow>
           (case doSend gu fresh m rk mandatoryFlag cb (sy_producer sy) of
              None \<Rightarrow> None
            | Some (status, None, pd) \<Rightarrow>
                Some (sy\<lparr>sy_producer := pd, sy_sending := remove1 call (sy_sending sy),
                         sy_events := sy_events sy @ [PE_refused status]\<rparr>)
            | Some (status, Some mwr, pd) \<Rightarrow>
                Some (sy\<lparr>sy_producer := pd, sy_sending := remove1 call (sy_sending sy),
                         sy_posting := mwr # sy_posting sy,
                         sy_events := sy_events sy @ [PE_sent (mwr_message mwr) (mwr_routingKey mwr) cb]\<rparr>))))"
| "producer_step gu (PI_post mwr) sy =
     (if mwr \<notin> set (sy_posting sy) then None
      else Some (sy\<lparr>sy_posting := remove1 mwr (sy_posting sy),
                    sy_eventLoop := sy_eventLoop sy @ [Post_publishMessage mwr]\<rparr>))"
| "producer_step gu (PI_eventLoop now lv) sy =
     (case sy_eventLoop sy of [] \<Rightarrow> None | p # ps \<Rightarrow> run_posted now lv p (sy\<lparr>sy_eventLoop := ps\<rparr>))"
| "producer_step gu (PI_channel now i) sy = (if from_connection i then channel_step now i sy else None)"
| "producer_step gu (PI_job job) sy =
     (if job \<notin> set (sy_jobs sy) then None
      else
        (case actionConfirmOnThreadPool job (sy_producer sy) of
           (evs, pd) \<Rightarrow>
             Some (sy\<lparr>sy_producer := pd, sy_jobs := remove1 job (sy_jobs sy),
                      sy_lost := (if evs = [] then sy_lost sy @ [job] else sy_lost sy),
                      sy_events := sy_events sy @ evs\<rparr>)))"
| "producer_step gu PI_disablePool sy = Some (sy\<lparr>sy_poolEnabled := False\<rparr>)"
| "producer_step gu PI_waitForConfirms sy =
     Some (sy\<lparr>sy_producer := snd (waitForConfirms (sy_producer sy))\<rparr>)"
| "producer_step gu (PI_updateTopology u) sy = Some (updateTopologyAsync u sy)"
| "producer_step gu (PI_addTransformer t) sy = Some (sy\<lparr>sy_producer := addTransformer t (sy_producer sy)\<rparr>)"
| "producer_step gu PI_destroy sy = Some (ProducerImpl_destroy sy)"

fun producer_run ::
  "'g guid_util \<Rightarrow> ('dt, 'g, 'cb, 't) producer_input list \<Rightarrow> ('dt, 'g, 'cb, 't) producer_system \<Rightarrow>
     ('dt, 'g, 'cb, 't) producer_system option" where
  "producer_run gu [] sy = Some sy"
| "producer_run gu (i # is) sy =
     (case producer_step gu i sy of None \<Rightarrow> None | Some sy' \<Rightarrow> producer_run gu is sy')"

text \<open>\<open>Factory::create\<close>: a new producer on a channel, which gets its callback.\<close>

definition Producer_create ::
  "u16 \<Rightarrow> 'dt exchange option \<Rightarrow> ('dt, 'cb) tagger option \<Rightarrow> ('dt, 'g, 't) send_channel \<Rightarrow>
     ('dt, 'g, 'cb, 't) producer_system" where
  "Producer_create maxOutstandingConfirms ex tagger channel =
     \<lparr>sy_producer = ProducerImpl_new maxOutstandingConfirms (extractExchangeName ex) tagger,
      sy_channel = setCallback channel, sy_sending = [], sy_posting = [], sy_eventLoop = [],
      sy_poolEnabled = True, sy_jobs = [], sy_lost = [], sy_events = []\<rparr>"


section \<open>The trace of the channel grows\<close>

definition extends :: "('dt, 'g, ('dt, 'g) confirm_event) channel_event list \<Rightarrow> bool \<Rightarrow> ('dt, 'g, 't) send_channel \<Rightarrow> bool" where
  "extends tr b sc \<longleftrightarrow> prefix tr (ch_trace sc) \<and> sc_hasCallback sc = b"

lemma extends_simps [simp]:
  "extends tr b (sc\<lparr>ch_flow := f\<rparr>) = extends tr b sc"
  "extends tr b (sc\<lparr>ch_state := s\<rparr>) = extends tr b sc"
  "extends tr b (sc\<lparr>ch_topology := t\<rparr>) = extends tr b sc"
  "extends tr b (sc\<lparr>ch_topologyTransformer := tt\<rparr>) = extends tr b sc"
  "extends tr b (sc\<lparr>ch_topologyCallback := cb\<rparr>) = extends tr b sc"
  "extends tr b (sc\<lparr>ch_updateQueue := q\<rparr>) = extends tr b sc"
  "extends tr b (sc\<lparr>ch_permanentlyClosing := c\<rparr>) = extends tr b sc"
  "extends tr b (sc\<lparr>ch_readyMade := rm\<rparr>) = extends tr b sc"
  "extends tr b (sc\<lparr>ch_promises := p\<rparr>) = extends tr b sc"
  "extends tr b (sc\<lparr>sc_messageStore := st\<rparr>) = extends tr b sc"
  "extends tr b (sc\<lparr>sc_pendingMessages := ms\<rparr>) = extends tr b sc"
  "extends tr b (sc\<lparr>sc_deliveryCounter := n\<rparr>) = extends tr b sc"
  "extends tr b (sc\<lparr>sc_basicReturn := r\<rparr>) = extends tr b sc"
  "extends tr b (sc\<lparr>sc_returnedTagResponse := rt\<rparr>) = extends tr b sc"
  by (simp_all add: extends_def)

lemma extends_emit: "extends tr b sc \<Longrightarrow> extends tr b (emit e sc)"
  by (simp add: extends_def emit_def)

interpretation ext_members: channel_members "extends tr b" for tr b
  by unfold_locales (simp_all add: extends_emit)

lemma extends_readyToPublish: "extends tr b sc \<Longrightarrow> extends tr b (readyToPublishMsg now m sc)"
  by (simp add: readyToPublishMsg_def writeMessage_def Let_def extends_emit split: prod.split)

lemma extends_publish_loop: "extends tr b sc \<Longrightarrow> extends tr b (publish_loop now ms sc)"
  by (induction ms arbitrary: sc) (simp_all add: extends_readyToPublish)

lemma extends_pending: "extends tr b sc \<Longrightarrow> extends tr b (publishPendingMessages now sc)"
  by (simp add: publishPendingMessages_def extends_publish_loop)

lemma extends_callbackMessages: "extends tr b sc \<Longrightarrow> extends tr b (callbackMessages ms r sc)"
  by (induction ms r sc rule: callbackMessages.induct) (simp_all add: Let_def extends_emit)

lemma extends_processAckNack: "extends tr b sc \<Longrightarrow> extends tr b (processAckNack multiple t r sc)"
  by (auto simp: processAckNack_def Let_def extends_callbackMessages extends_emit split: prod.split option.split)

lemma extends_reset: "extends tr b sc \<Longrightarrow> extends tr b (snd (Channel_reset (SendChannel_vt now) r sc))"
  by (simp add: Channel_reset_def SendChannel_vt_def SendChannel_onReset_def SendChannel_processFailures_def
      Let_def extends_emit ext_members.inv_updateState split: prod.split)

interpretation ext_base: channel_invariant "extends tr b" "SendChannel_vt now" for tr b now
proof (unfold_locales, goal_cases)
  case (1 ch bm)
  then show ?case
    by (auto simp: SendChannel_vt_def SendChannel_processBasicMethod_def extends_processAckNack
        split: BasicMethod.splits intro!: ext_members.inv_close)
next
  case (2 ch cm)
  then show ?case
    by (simp add: SendChannel_vt_def SendChannel_processConfirmMethod_def extends_pending ext_members.inv_ready)
next
  case (3 ch m)
  then show ?case
    by (auto simp: SendChannel_vt_def SendChannel_processMessage_def
        split: option.splits guid_lookup.splits intro!: ext_members.inv_close)
next
  case (4 ch)
  then show ?case
    by (simp add: SendChannel_vt_def SendChannel_onOpen_def ext_members.inv_writeMessage_state)
next
  case (5 ch)
  then show ?case
    by (simp add: SendChannel_vt_def SendChannel_onFlowAllowed_def extends_pending)
next
  case (6 ch r)
  then show ?case by (rule extends_reset)
qed

lemma extends_step:
  assumes "extends tr b sc" and "send_step now i sc = Some sc'" and "i \<noteq> SI_setCallback"
  shows "extends tr b sc'"
proof (cases i)
  case (SI_publish m)
  then show ?thesis
    using assms by (auto simp: publishMessage_def extends_readyToPublish split: if_splits)
qed (use assms in \<open>auto intro: ext_members.inv_open extends_reset ext_base.inv_processReceived
      ext_base.inv_onWriteComplete ext_members.inv_gracefulClose ext_base.inv_channelHung
      ext_members.inv_updateTopology ext_base.inv_waitForReady\<close>)

lemma send_step_trace:
  assumes "send_step now i sc = Some sc'" and "i \<noteq> SI_setCallback"
  shows "\<exists>es. ch_trace sc' = ch_trace sc @ es" and "sc_hasCallback sc' = sc_hasCallback sc"
  using extends_step [of "ch_trace sc" "sc_hasCallback sc", OF _ assms] by (auto simp: extends_def prefix_def)


section \<open>The invariant\<close>

text \<open>What the events tell: sends that were accepted and callbacks that were called, each with message, routing key and
  callback, and futures resolved.\<close>

fun sent_of :: "('dt, 'g, 'cb) producer_event \<Rightarrow> (('dt, 'g) message \<times> bytes \<times> 'cb) list" where
  "sent_of (PE_sent m rk cb) = [(m, rk, cb)]"
| "sent_of _ = []"

fun called_of :: "('dt, 'g, 'cb) producer_event \<Rightarrow> (('dt, 'g) message \<times> bytes \<times> 'cb) list" where
  "called_of (PE_called cb m rk r) = [(m, rk, cb)]"
| "called_of _ = []"

fun resolved_of :: "('dt, 'g, 'cb) producer_event \<Rightarrow> nat list" where
  "resolved_of (PE_resolved f) = [f]"
| "resolved_of _ = []"

definition accepted :: "('dt, 'g, 'cb, 't) producer_system \<Rightarrow> (('dt, 'g) message \<times> bytes \<times> 'cb) list" where
  "accepted sy = concat (map sent_of (sy_events sy))"

definition called :: "('dt, 'g, 'cb, 't) producer_system \<Rightarrow> (('dt, 'g) message \<times> bytes \<times> 'cb) list" where
  "called sy = concat (map called_of (sy_events sy))"

definition resolved :: "('dt, 'g, 'cb, 't) producer_system \<Rightarrow> nat list" where
  "resolved sy = concat (map resolved_of (sy_events sy))"

text \<open>Where a publication can be between the registration of its callback and the call of it.\<close>

fun posted_publications :: "('dt, 'g) posted \<Rightarrow> (('dt, 'g) message \<times> bytes) list" where
  "posted_publications (Post_publishMessage m) = [publication m]"
| "posted_publications _ = []"

definition job_publication :: "('dt, 'g) confirm_job \<Rightarrow> ('dt, 'g) message \<times> bytes" where
  "job_publication job = (case job of (m, rk, r) \<Rightarrow> (m, rk))"

definition outstanding :: "('dt, 'g, 'cb, 't) producer_system \<Rightarrow> (('dt, 'g) message \<times> bytes) list" where
  "outstanding sy =
     map publication (sy_posting sy) @ concat (map posted_publications (sy_eventLoop sy)) @
     map publication (sc_pendingMessages (sy_channel sy)) @ in_flight (sy_channel sy) @
     map job_publication (sy_jobs sy) @ map job_publication (sy_lost sy)"

text \<open>The delivery counter of the channel has not wrapped around.\<close>

definition unwrapped :: "('dt, 'g, 't) send_channel \<Rightarrow> bool" where
  "unwrapped sc \<longleftrightarrow> length (contents (ch_trace sc)) < 2 ^ 64 - 1"

definition guid_callback :: "('dt, 'g) message \<times> bytes \<times> 'cb \<Rightarrow> 'g \<times> 'cb" where
  "guid_callback d = (case d of (m, rk, cb) \<Rightarrow> (msg_guid m, cb))"

definition send_publication :: "('dt, 'g) message \<times> bytes \<times> 'cb \<Rightarrow> ('dt, 'g) message \<times> bytes" where
  "send_publication d = (case d of (m, rk, cb) \<Rightarrow> (m, rk))"

text \<open>The sends whose callbacks have not been called yet.\<close>

definition uncalled ::
  "(('dt, 'g) message \<times> bytes \<times> 'cb) multiset \<Rightarrow> ('dt, 'g, 'cb, 't) producer_system \<Rightarrow> bool" where
  "uncalled D sy \<longleftrightarrow>
     mset (accepted sy) = mset (called sy) + D \<and>
     image_mset guid_callback D = mset (pd_callbackMap (sy_producer sy)) \<and>
     image_mset send_publication D = mset (outstanding sy)"

definition producer_ok :: "nat \<Rightarrow> nat list \<Rightarrow> nat \<Rightarrow> ('dt, 'g, 'cb) producer \<Rightarrow> bool" where
  "producer_ok limit fs sending pd \<longleftrightarrow>
     pd_outstandingMessagesCap pd + length (pd_callbackMap pd) + sending = limit \<and>
     distinct (map fst (pd_callbackMap pd)) \<and>
     (pd_waitForConfirmsFuture pd \<noteq> None \<longrightarrow> pd_callbackMap pd \<noteq> []) \<and>
     mset [0..<pd_futures pd] = mset fs + mset_set (set_option (pd_waitForConfirmsFuture pd))"

definition system_inv :: "nat \<Rightarrow> ('dt, 'g, 'cb, 't) producer_system \<Rightarrow> bool" where
  "system_inv limit sy \<longleftrightarrow>
     producer_ok limit (resolved sy) (length (sy_sending sy)) (sy_producer sy) \<and>
     sc_hasCallback (sy_channel sy) \<and>
     (\<exists>P. send_inv P (sy_channel sy)) \<and>
     (unwrapped (sy_channel sy) \<longrightarrow> (\<exists>D. uncalled D sy))"

lemmas event_lists = accepted_def called_def resolved_def
lemmas inv_parts = system_inv_def uncalled_def outstanding_def event_lists

lemma mset_delete:
  "distinct (map fst m) \<Longrightarrow> map_of m k = Some v \<Longrightarrow> mset m = add_mset (k, v) (mset (AList.delete k m))"
proof (induction m)
  case (Cons x m)
  then show ?case
    by (cases x) (auto simp: delete_id split: if_splits)
qed simp

lemma length_delete:
  "distinct (map fst m) \<Longrightarrow> map_of m k = Some v \<Longrightarrow> length m = Suc (length (AList.delete k m))"
  using mset_delete [of m k v] by (metis size_add_mset size_mset)

lemma send_step_moves:
  assumes "send_inv P sc" and "send_step now i sc = Some sc'" and "i \<noteq> SI_setCallback" and "unwrapped sc'"
  shows "unwrapped sc"
    and "mset (map publication (sc_pendingMessages sc)) + mset (in_flight sc) + mset (published [(now, i)]) =
      mset (map publication (sc_pendingMessages sc')) + mset (in_flight sc') +
      mset (map job_publication (concat (map confirm_job_of (drop (length (ch_trace sc)) (ch_trace sc')))))"
proof -
  obtain es where es: "ch_trace sc' = ch_trace sc @ es"
    using send_step_trace [OF assms(2,3)] by blast
  show u: "unwrapped sc"
    using assms(4) es by (simp add: unwrapped_def)
  have job: "map job_publication (concat (map confirm_job_of es)) = confirms es"
  proof (induction es)
    case (Cons e es)
    have "map job_publication (confirm_job_of e) = confirm_of e"
      by (cases e rule: confirm_job_of.cases) (simp_all add: job_publication_def)
    with Cons show ?case by simp
  qed simp
  have "P = mset (confirms (ch_trace sc)) + mset (in_flight sc) + mset (map publication (sc_pendingMessages sc))"
    using assms(1) u by (simp add: send_inv_def unwrapped_def)
  moreover have "P + mset (published [(now, i)]) =
      mset (confirms (ch_trace sc @ es)) + mset (in_flight sc') + mset (map publication (sc_pendingMessages sc'))"
    using send_inv_step [OF assms(1,2)] assms(4) es by (simp add: send_inv_def unwrapped_def)
  ultimately show "mset (map publication (sc_pendingMessages sc)) + mset (in_flight sc) + mset (published [(now, i)]) =
      mset (map publication (sc_pendingMessages sc')) + mset (in_flight sc') +
      mset (map job_publication (concat (map confirm_job_of (drop (length (ch_trace sc)) (ch_trace sc')))))"
    by (simp add: es job ac_simps del: published.simps)
qed


section \<open>Every step keeps the invariant\<close>

lemma doSend_cases:
  assumes "doSend gu fresh m rk mf cb pd = Some (status, out, pd')"
  obtains
    (refused) "out = None" "status = TRANSFORM_ERROR \<or> status = DUPLICATE" "pd' = sem_post pd"
  | (sending) m' where "status = SENDING" "out = Some \<lparr>mwr_message = m', mwr_routingKey = rk, mwr_mandatory = mf\<rparr>"
      "map_of (pd_callbackMap pd) (msg_guid m') = None"
      "pd' = pd\<lparr>pd_callbackMap := (msg_guid m', cb) # pd_callbackMap pd\<rparr>"
  using assms
  by (auto simp: doSend_def registerUniqueCallback_def split: transform_result.splits if_splits)

lemma producer_ok_wait: "producer_ok limit fs n pd \<Longrightarrow> producer_ok limit fs n (snd (waitForConfirms pd))"
  by (auto simp: producer_ok_def waitForConfirms_def atLeastLessThanSuc split: option.split)

lemma producer_ok_simps [simp]:
  "producer_ok limit fs n (pd\<lparr>pd_isValid := b\<rparr>) = producer_ok limit fs n pd"
  "producer_ok limit fs n (addTransformer t pd) = producer_ok limit fs n pd"
  by (simp_all add: producer_ok_def addTransformer_def)

lemma producer_ok_tryWait: "producer_ok limit fs n pd \<Longrightarrow> sem_tryWait pd = Some pd' \<Longrightarrow> producer_ok limit fs (Suc n) pd'"
  by (auto simp: producer_ok_def sem_tryWait_def split: if_splits)

lemma producer_ok_doSend:
  assumes "producer_ok limit fs (Suc n) pd" and "doSend gu fresh m rk mf cb pd = Some (status, out, pd')"
  shows "producer_ok limit fs n pd'"
  using assms(2)
proof (cases rule: doSend_cases)
  case refused
  then show ?thesis using assms(1) by (simp add: producer_ok_def sem_post_def)
next
  case (sending m')
  then show ?thesis using assms(1) by (auto simp: producer_ok_def map_of_eq_None_iff)
qed

lemma action_cases:
  assumes "actionConfirmOnThreadPool (m, rk, r) pd = (evs, pd')"
  obtains
    (ignored) "evs = []" "pd' = pd" "\<not> pd_isValid pd \<or> map_of (pd_callbackMap pd) (msg_guid m) = None"
  | (called) cb w where "map_of (pd_callbackMap pd) (msg_guid m) = Some cb" "pd_isValid pd"
      "pd' = (sem_post (pd\<lparr>pd_callbackMap := AList.delete (msg_guid m) (pd_callbackMap pd)\<rparr>))\<lparr>pd_waitForConfirmsFuture := w\<rparr>"
      "evs = PE_called cb m rk r #
         (if AList.delete (msg_guid m) (pd_callbackMap pd) = [] \<and> pd_waitForConfirmsFuture pd \<noteq> None
          then [PE_resolved (the (pd_waitForConfirmsFuture pd))] else [])"
      "w = (if AList.delete (msg_guid m) (pd_callbackMap pd) = [] then None else pd_waitForConfirmsFuture pd)"
proof (cases "pd_isValid pd \<and> map_of (pd_callbackMap pd) (msg_guid m) \<noteq> None")
  case False
  then show ?thesis
    using assms by (intro ignored) (auto simp: actionConfirmOnThreadPool_def split: option.splits if_splits)
next
  case True
  then obtain cb where "pd_isValid pd" "map_of (pd_callbackMap pd) (msg_guid m) = Some cb"
    by auto
  then show ?thesis
    using assms by (intro called [of cb, OF _ _ _ _ refl])
      (auto simp: actionConfirmOnThreadPool_def Let_def sem_post_def intro!: producer.equality split: option.splits if_splits)
qed

lemma producer_ok_action:
  assumes "producer_ok limit fs n pd" and "actionConfirmOnThreadPool (m, rk, r) pd = (evs, pd')"
  shows "producer_ok limit (fs @ concat (map resolved_of evs)) n pd'"
  using assms(2)
proof (cases rule: action_cases)
  case ignored
  then show ?thesis using assms(1) by simp
next
  case (called cb w)
  have d: "distinct (map fst (pd_callbackMap pd))"
    using assms(1) by (simp add: producer_ok_def)
  then have "distinct (map fst (AList.delete (msg_guid m) (pd_callbackMap pd)))"
    by (rule distinct_delete)
  then show ?thesis
    using assms(1) called length_delete [OF d called(1)] by (auto simp: producer_ok_def sem_post_def)
qed


lemma image_msetE:
  assumes "x \<in># image_mset f D"
  obtains d where "d \<in># D" "f d = x"
  using assms by auto

text \<open>The callback found for a confirm is the one registered for its publication.\<close>

lemma uncalled_job:
  assumes "uncalled D sy" and "distinct (map fst (pd_callbackMap (sy_producer sy)))" and "(m, rk, r) \<in> set (sy_jobs sy)"
  obtains cb where "map_of (pd_callbackMap (sy_producer sy)) (msg_guid m) = Some cb" "(m, rk, cb) \<in># D"
proof -
  have "job_publication (m, rk, r) \<in> set (outstanding sy)"
    using assms(3) by (simp add: outstanding_def)
  then have "(m, rk) \<in># mset (outstanding sy)"
    by (simp add: job_publication_def)
  then have "(m, rk) \<in># image_mset send_publication D"
    using assms(1) unfolding uncalled_def by (elim conjE) (simp only:)
  then obtain cb where d: "(m, rk, cb) \<in># D"
    by (auto simp: send_publication_def)
  then have "guid_callback (m, rk, cb) \<in># image_mset guid_callback D"
    by simp
  then have "(msg_guid m, cb) \<in># mset (pd_callbackMap (sy_producer sy))"
    using assms(1) unfolding uncalled_def by (simp add: guid_callback_def)
  then show ?thesis
    using that d assms(2) by simp
qed

lemma system_inv_job:
  assumes inv: "system_inv limit sy" and job: "(m, rk, r) \<in> set (sy_jobs sy)"
    and act: "actionConfirmOnThreadPool (m, rk, r) (sy_producer sy) = (evs, pd)"
  shows "system_inv limit (sy\<lparr>sy_producer := pd, sy_jobs := remove1 (m, rk, r) (sy_jobs sy),
    sy_lost := (if evs = [] then sy_lost sy @ [(m, rk, r)] else sy_lost sy), sy_events := sy_events sy @ evs\<rparr>)"
proof -
  define js where "js = remove1 (m, rk, r) (sy_jobs sy)"
  let ?sy = "sy\<lparr>sy_producer := pd, sy_jobs := js,
    sy_lost := (if evs = [] then sy_lost sy @ [(m, rk, r)] else sy_lost sy), sy_events := sy_events sy @ evs\<rparr>"
  have ok: "producer_ok limit (resolved sy) (length (sy_sending sy)) (sy_producer sy)"
    using inv by (simp add: system_inv_def)
  have jobs: "mset (sy_jobs sy) = add_mset (m, rk, r) (mset js)"
    using job by (simp add: js_def)
  have "\<exists>D. uncalled D ?sy" if D: "uncalled D sy" for D
    using act
  proof (cases rule: action_cases)
    case ignored
    then have "uncalled D ?sy"
      using D by (simp add: uncalled_def outstanding_def event_lists jobs)
    then show ?thesis ..
  next
    case (called cb w)
    obtain cb' where d: "map_of (pd_callbackMap (sy_producer sy)) (msg_guid m) = Some cb'" "(m, rk, cb') \<in># D"
      using uncalled_job [OF D _ job] ok by (auto simp: producer_ok_def)
    then have cb: "(m, rk, cb) \<in># D"
      using called(1) by simp
    define D' where "D' = D - {#(m, rk, cb)#}"
    have D': "D = add_mset (m, rk, cb) D'"
      using cb by (simp add: D'_def)
    have "mset (pd_callbackMap (sy_producer sy)) =
        add_mset (msg_guid m, cb) (mset (AList.delete (msg_guid m) (pd_callbackMap (sy_producer sy))))"
      using ok called(1) by (intro mset_delete) (simp_all add: producer_ok_def)
    then have "uncalled D' ?sy"
      using D called(3,4)
      by (simp add: uncalled_def outstanding_def event_lists jobs D' guid_callback_def send_publication_def
          job_publication_def sem_post_def)
    then show ?thesis ..
  qed
  then show ?thesis
    unfolding js_def [symmetric] using inv producer_ok_action [OF ok act] by (auto simp: system_inv_def event_lists)
qed

lemma system_inv_doSend:
  assumes inv: "system_inv limit sy" and call: "(m, rk, mf, cb) \<in> set (sy_sending sy)"
    and send: "doSend gu fresh m rk mf cb (sy_producer sy) = Some (status, out, pd)"
  shows "system_inv limit (sy\<lparr>sy_producer := pd, sy_sending := remove1 (m, rk, mf, cb) (sy_sending sy),
    sy_posting := (case out of None \<Rightarrow> sy_posting sy | Some mwr \<Rightarrow> mwr # sy_posting sy),
    sy_events := sy_events sy @
      [case out of None \<Rightarrow> PE_refused status | Some mwr \<Rightarrow> PE_sent (mwr_message mwr) (mwr_routingKey mwr) cb]\<rparr>)"
    (is "system_inv limit ?sy")
proof -
  have ok: "producer_ok limit (resolved sy) (Suc (length (remove1 (m, rk, mf, cb) (sy_sending sy)))) (sy_producer sy)"
    using inv call by (simp add: system_inv_def length_remove1) (metis Suc_pred length_pos_if_in_set)
  have res: "resolved ?sy = resolved sy"
    by (simp add: event_lists split: option.split)
  have "\<exists>D. uncalled D ?sy" if D: "uncalled D sy" for D
    using send
  proof (cases rule: doSend_cases)
    case refused
    then have "uncalled D ?sy"
      using D by (simp add: uncalled_def outstanding_def event_lists sem_post_def)
    then show ?thesis ..
  next
    case (sending m')
    then have "uncalled (add_mset (m', rk, cb) D) ?sy"
      using D by (simp add: uncalled_def outstanding_def event_lists guid_callback_def send_publication_def publication_def)
    then show ?thesis ..
  qed
  then show ?thesis
    using inv producer_ok_doSend [OF ok send] res by (auto simp: system_inv_def)
qed

lemma system_inv_channel:
  assumes inv: "system_inv limit sy" and loop: "sy_eventLoop sy = qs @ ps"
    and pub: "published [(now, i)] = concat (map posted_publications qs)"
    and step: "channel_step now i (sy\<lparr>sy_eventLoop := ps\<rparr>) = Some sy'" and i: "i \<noteq> SI_setCallback"
  shows "system_inv limit sy'"
proof -
  obtain sc where sc: "send_step now i (sy_channel sy) = Some sc"
    and sy': "sy' = handleConfirmOnEventLoop
      (concat (map confirm_job_of (drop (length (ch_trace (sy_channel sy))) (ch_trace sc))))
      (sy\<lparr>sy_eventLoop := ps, sy_channel := sc\<rparr>)"
    using step by (auto simp: channel_step_def split: option.splits)
  obtain P where P: "send_inv P (sy_channel sy)"
    using inv by (auto simp: system_inv_def)
  have same [simp]: "sy_producer sy' = sy_producer sy" "sy_channel sy' = sc" "sy_sending sy' = sy_sending sy"
      "sy_events sy' = sy_events sy"
    by (simp_all add: sy' handleConfirmOnEventLoop_def)
  have "\<exists>D. uncalled D sy'" if u: "unwrapped sc"
  proof -
    note moves = send_step_moves [OF P sc i u]
    obtain D where D: "uncalled D sy"
      using inv moves(1) by (auto simp: system_inv_def)
    have "mset (outstanding sy') = mset (outstanding sy)"
      using moves(2) unfolding pub by (simp add: outstanding_def sy' handleConfirmOnEventLoop_def loop ac_simps)
    then have "uncalled D sy'"
      using D by (simp add: uncalled_def event_lists)
    then show ?thesis ..
  qed
  then show ?thesis
    using inv send_inv_step [OF P sc] send_step_trace(2) [OF sc i] by (auto simp: system_inv_def event_lists)
qed


text \<open>A call has returned or waits and has changed nothing, or it has taken a unit of the semaphore.\<close>

definition makes_progress :: "('dt, 'g, 'cb) producer \<Rightarrow> ('dt, 'g, 'cb) send_progress \<times> ('dt, 'g, 'cb) producer \<Rightarrow> bool" where
  "makes_progress pd p \<longleftrightarrow>
     (case p of
        (SP_doSend m rk mf cb, pd') \<Rightarrow> sem_tryWait pd = Some pd'
      | (_, pd') \<Rightarrow> sem_tryWait pd = None \<and> pd' = pd)"

lemma sendImpl_progress: "makes_progress pd (sendImpl m rk mf cb timeout expired pd)"
  by (simp add: makes_progress_def sendImpl_def split: prod.split option.split)

lemma trySend_progress: "makes_progress pd (trySend m rk cb pd)"
  by (simp add: makes_progress_def trySend_def split: prod.split option.split)

lemma progress_system_inv:
  assumes inv: "system_inv limit sy" and p: "makes_progress (sy_producer sy) p"
  shows "system_inv limit (progress p sy)"
proof -
  have same: "pd_callbackMap pd = pd_callbackMap (sy_producer sy)" if "sem_tryWait (sy_producer sy) = Some pd" for pd
    using that by (auto simp: sem_tryWait_def split: if_splits)
  obtain sp pd where sp: "p = (sp, pd)" by (cases p)
  show ?thesis
  proof (cases sp)
    case (SP_doSend m rk mf cb)
    then have a: "sem_tryWait (sy_producer sy) = Some pd"
      using p sp by (simp add: makes_progress_def)
    then show ?thesis
      using inv sp SP_doSend same [OF a] producer_ok_tryWait [OF _ a]
      by (simp add: inv_parts)
  qed (use inv p sp in \<open>simp_all add: makes_progress_def inv_parts\<close>)
qed

lemma system_inv_step:
  assumes inv: "system_inv limit sy" and step: "producer_step gu i sy = Some sy'"
  shows "system_inv limit sy'"
proof (cases i)
  case (PI_send m rk mf cb timeout expired)
  then have "sy' = progress (sendImpl m rk mf cb timeout expired (sy_producer sy)) sy"
    using step by simp
  then show ?thesis
    using progress_system_inv [OF inv sendImpl_progress] by simp
next
  case (PI_trySend m rk cb)
  then have "sy' = progress (trySend m rk cb (sy_producer sy)) sy"
    using step by simp
  then show ?thesis
    using progress_system_inv [OF inv trySend_progress] by simp
next
  case (PI_doSend fresh call)
  obtain m rk mf cb where c: "call = (m, rk, mf, cb)" by (cases call) auto
  show ?thesis
    using step system_inv_doSend [OF inv, of m rk mf cb gu fresh] unfolding PI_doSend c
    by (auto split: if_splits option.splits)
next
  case (PI_post mwr)
  define ps where "ps = remove1 mwr (sy_posting sy)"
  have ps: "mset (sy_posting sy) = add_mset mwr (mset ps)"
    and sy': "sy' = sy\<lparr>sy_posting := ps, sy_eventLoop := sy_eventLoop sy @ [Post_publishMessage mwr]\<rparr>"
    using step unfolding PI_post by (auto simp: ps_def split: if_splits)
  show ?thesis
    using inv by (simp add: sy' inv_parts ps)
next
  case (PI_eventLoop now lv)
  then obtain p ps where loop: "sy_eventLoop sy = [p] @ ps" and run: "run_posted now lv p (sy\<lparr>sy_eventLoop := ps\<rparr>) = Some sy'"
    using step by (auto split: list.splits)
  obtain i where "channel_step now i (sy\<lparr>sy_eventLoop := ps\<rparr>) = Some sy'" "i \<noteq> SI_setCallback"
      "published [(now, i)] = concat (map posted_publications [p])"
    using run by (cases p) auto
  then show ?thesis
    using system_inv_channel [OF inv loop] by blast
next
  case (PI_channel now i)
  then have "from_connection i" and s: "channel_step now i (sy\<lparr>sy_eventLoop := sy_eventLoop sy\<rparr>) = Some sy'"
    using step by (simp_all split: if_splits)
  then show ?thesis
    by (intro system_inv_channel [OF inv _ _ s, of "[]"]) (auto split: send_input.splits)
next
  case (PI_job job)
  obtain m rk r where j: "job = (m, rk, r)" by (cases job) auto
  show ?thesis
    using step system_inv_job [OF inv, of m rk r] unfolding PI_job j by (auto split: if_splits prod.splits)
next
  case PI_waitForConfirms
  have "pd_callbackMap (snd (waitForConfirms (sy_producer sy))) = pd_callbackMap (sy_producer sy)"
    by (simp add: waitForConfirms_def split: option.split)
  then show ?thesis
    using inv step PI_waitForConfirms producer_ok_wait [of limit "resolved sy"]
    by (auto simp: inv_parts)
next
  case PI_disablePool
  then have "sy' = sy\<lparr>sy_poolEnabled := False\<rparr>"
    using step by simp
  with inv show ?thesis by (simp add: inv_parts)
next
  case (PI_updateTopology u)
  then have "sy' = updateTopologyAsync u sy"
    using step by simp
  with inv show ?thesis by (simp add: inv_parts updateTopologyAsync_def)
next
  case (PI_addTransformer t)
  then have "sy' = sy\<lparr>sy_producer := addTransformer t (sy_producer sy)\<rparr>"
    using step by simp
  with inv show ?thesis by (simp add: inv_parts) (simp add: addTransformer_def)
next
  case PI_destroy
  then have "sy' = ProducerImpl_destroy sy"
    using step by simp
  with inv show ?thesis by (simp add: inv_parts ProducerImpl_destroy_def)
qed

lemma system_inv_run: "system_inv limit sy \<Longrightarrow> producer_run gu is sy = Some sy' \<Longrightarrow> system_inv limit sy'"
  by (induction "is" arbitrary: sy) (auto split: option.splits dest: system_inv_step)

text \<open>A producer starts on a channel to which nothing has been published.\<close>

lemma system_inv_create:
  assumes "send_run ins (SendChannel_new topology ex) = Some sc" and "published ins = []"
  shows "system_inv (unat limit) (Producer_create limit exc tagger sc)"
proof -
  have inv: "send_inv {#} sc"
    using send_inv_run [OF send_inv_new assms(1)] assms(2) by simp
  have "uncalled {#} (Producer_create limit exc tagger sc)" if "unwrapped sc"
    using inv that by (simp add: uncalled_def Producer_create_def outstanding_def event_lists ProducerImpl_new_def
        send_inv_def unwrapped_def setCallback_def in_flight_def)
  moreover have "send_inv {#} (setCallback sc)"
    using inv by (simp add: setCallback_def send_inv_base)
  ultimately show ?thesis
    by (auto simp: system_inv_def Producer_create_def producer_ok_def ProducerImpl_new_def event_lists setCallback_def
        unwrapped_def)
qed


section \<open>Properties\<close>

text \<open>C3: Every send that was accepted is confirmed exactly once, to its own callback. In every interleaving of application
  threads, event loop, thread pool and connection, from a new producer on a channel to which nothing has been published:
  the sends accepted so far are those whose callback has been called, with the message and routing key of this very
  send, and the others \<open>D\<close>; the publications of the others are exactly those waiting to be posted, posted, pending or in
  flight in the channel, in a job of the thread pool, or lost there; and the callback map holds exactly their
  callbacks. So no callback is called twice or with another message, and a confirm that arrives while the producer
  lives always finds its callback. (The delivery counter of the channel must not have wrapped around.)\<close>

theorem sends_confirmed_once:
  assumes "send_run ins (SendChannel_new topology ex) = Some sc" and "published ins = []"
    and "producer_run gu is (Producer_create limit exc tagger sc) = Some sy" and "unwrapped (sy_channel sy)"
  shows "(\<exists>D. mset (accepted sy) = mset (called sy) + D \<and>
      image_mset send_publication D = mset (outstanding sy) \<and>
      image_mset guid_callback D = mset (pd_callbackMap (sy_producer sy))) \<and>
    (\<forall>(m, rk, r) \<in> set (sy_jobs sy). pd_isValid (sy_producer sy) \<longrightarrow>
       (\<exists>cb evs. fst (actionConfirmOnThreadPool (m, rk, r) (sy_producer sy)) = PE_called cb m rk r # evs \<and>
          (m, rk, cb) \<in> set (accepted sy)))"
proof -
  have inv: "system_inv (unat limit) sy"
    by (rule system_inv_run [OF system_inv_create [OF assms(1,2)] assms(3)])
  then obtain D where D: "uncalled D sy"
    using assms(4) by (auto simp: system_inv_def)
  have "\<exists>cb evs. fst (actionConfirmOnThreadPool (m, rk, r) (sy_producer sy)) = PE_called cb m rk r # evs \<and>
      (m, rk, cb) \<in> set (accepted sy)"
    if job: "(m, rk, r) \<in> set (sy_jobs sy)" and valid: "pd_isValid (sy_producer sy)" for m rk r
  proof -
    obtain cb where cb: "map_of (pd_callbackMap (sy_producer sy)) (msg_guid m) = Some cb" "(m, rk, cb) \<in># D"
      using uncalled_job [OF D _ job] inv by (auto simp: system_inv_def producer_ok_def)
    have "(m, rk, cb) \<in># mset (accepted sy)"
      using D cb(2) unfolding uncalled_def by simp
    then show ?thesis
      using cb(1) valid by (auto simp: actionConfirmOnThreadPool_def Let_def split: option.split)
  qed
  then show ?thesis
    using D by (auto simp: uncalled_def)
qed

text \<open>The limit on unconfirmed messages. Units of the semaphore, registered callbacks and threads between the semaphore
  and \<open>doSend\<close> always add up to the limit. So never more than this many messages are unconfirmed, no unit is lost on any
  path, and \<open>trySend\<close> is refused exactly when all are in use; it has then changed nothing.\<close>

theorem outstanding_limit_exact:
  assumes "send_run ins (SendChannel_new topology ex) = Some sc" and "published ins = []"
    and "producer_run gu is (Producer_create limit exc tagger sc) = Some sy"
  shows "pd_outstandingMessagesCap (sy_producer sy) + length (pd_callbackMap (sy_producer sy)) + length (sy_sending sy) = unat limit \<and>
    (trySend m rk cb (sy_producer sy) = (SP_returned INFLIGHT_LIMIT, sy_producer sy) \<longleftrightarrow>
       length (pd_callbackMap (sy_producer sy)) + length (sy_sending sy) = unat limit)"
proof -
  have "system_inv (unat limit) sy"
    by (rule system_inv_run [OF system_inv_create [OF assms(1,2)] assms(3)])
  then have cap: "pd_outstandingMessagesCap (sy_producer sy) + length (pd_callbackMap (sy_producer sy)) +
      length (sy_sending sy) = unat limit"
    by (simp add: system_inv_def producer_ok_def)
  have "trySend m rk cb (sy_producer sy) = (SP_returned INFLIGHT_LIMIT, sy_producer sy) \<longleftrightarrow>
      pd_outstandingMessagesCap (sy_producer sy) = 0"
    by (auto simp: trySend_def sem_tryWait_def split: prod.split)
  with cap show ?thesis by linarith
qed



text \<open>A session: open the channel, send one message, have it published and acknowledged; the job is left to the thread
  pool, and then run.\<close>

definition sample_sent :: "(nat, u8) message" where
  "sample_sent = \<lparr>msg_guid = 7, msg_rawData = None, msg_properties = empty_properties\<rparr>"

definition sample_producer_session :: "(nat, u8, nat, nat) producer_input list" where
  "sample_producer_session =
     [PI_trySend sample_sent [107] 5, PI_doSend 9 (sample_sent, [107], RETURN_UNROUTABLE, 5), PI_waitForConfirms,
      PI_post \<lparr>mwr_message = sample_sent, mwr_routingKey = [107], mwr_mandatory = RETURN_UNROUTABLE\<rparr>,
      PI_eventLoop 0 sample_live,
      PI_channel 0 (SI_received sample_live (Msg_Method (Basic (M_BasicAck \<lparr>ack_deliveryTag = 1, ack_multiple = False\<rparr>))))]"

definition sample_confirm :: "(nat, u8) confirm_job" where
  "sample_confirm = (sample_sent, [107], ConfirmResponse CR_ACK)"

lemmas producer_eval = Producer_create_def ProducerImpl_new_def trySend_def prepareMessageForSending_def sem_tryWait_def
  doSend_def registerUniqueCallback_def waitForConfirms_def channel_step_def handleConfirmOnEventLoop_def
  SendChannel_processBasicMethod_def processAckNack_def store_remove_def om_erase_def extractExchangeName_def

lemma sample_producer_run:
  obtains sc sy where "send_run (open_session 0 sample_live) (SendChannel_new empty_topology [120]) = Some sc"
    "producer_run sample_guid_util sample_producer_session (Producer_create 2 None None sc) = Some sy"
    "contents (ch_trace (sy_channel sy)) = [sample_sent]" "sc_pendingMessages (sy_channel sy) = []"
    "ms_tagToMsg (sc_messageStore (sy_channel sy)) = []" "sy_sending sy = []" "sy_posting sy = []" "sy_eventLoop sy = []"
    "sy_jobs sy = [sample_confirm]" "sy_lost sy = []" "sy_events sy = [PE_sent sample_sent [107] 5]"
    "pd_isValid (sy_producer sy)" "pd_callbackMap (sy_producer sy) = [(7, 5)]" "pd_outstandingMessagesCap (sy_producer sy) = 1"
    "pd_waitForConfirmsFuture (sy_producer sy) = Some 0" "pd_futures (sy_producer sy) = 1"
  by (simp add: sample_producer_session_def sample_confirm_def sample_sent_def mwr_guid_def open_session_def send_eval producer_eval
      empty_topology_transformer contents_def)


lemma sample_published: "published (open_session 0 sample_live) = []"
  by (simp add: open_session_def)

lemma sample_job_run:
  assumes "producer_run sample_guid_util sample_producer_session sy0 = Some sy" and "sy_jobs sy = [sample_confirm]"
    and "sy_lost sy = []"
    and "sy_events sy = [PE_sent sample_sent [107] 5]" and "pd_isValid (sy_producer sy)"
    and "pd_callbackMap (sy_producer sy) = [(7, 5)]" and "pd_waitForConfirmsFuture (sy_producer sy) = Some 0"
  obtains sy' where "producer_run sample_guid_util (sample_producer_session @ [PI_job sample_confirm]) sy0 = Some sy'"
    "sy_channel sy' = sy_channel sy" "sy_sending sy' = sy_sending sy" "sy_posting sy' = sy_posting sy"
    "sy_eventLoop sy' = sy_eventLoop sy" "sy_jobs sy' = []" "sy_lost sy' = []"
    "sy_events sy' = [PE_sent sample_sent [107] 5, PE_called 5 sample_sent [107] (ConfirmResponse CR_ACK), PE_resolved 0]"
proof -
  have app: "producer_run gu (is @ [i]) s = (case producer_run gu is s of None \<Rightarrow> None | Some s' \<Rightarrow> producer_step gu i s')"
    for gu :: "'a guid_util" and "is" :: "('b, 'a, 'c, 'd) producer_input list" and i s
    by (induction "is" arbitrary: s) (auto split: option.split)
  have "\<exists>pd. actionConfirmOnThreadPool sample_confirm (sy_producer sy) =
      ([PE_called 5 sample_sent [107] (ConfirmResponse CR_ACK), PE_resolved 0], pd)"
    using assms by (simp add: actionConfirmOnThreadPool_def sample_confirm_def sample_sent_def sem_post_def Let_def)
  then obtain pd where act: "actionConfirmOnThreadPool sample_confirm (sy_producer sy) =
      ([PE_called 5 sample_sent [107] (ConfirmResponse CR_ACK), PE_resolved 0], pd)"
    by blast
  show ?thesis
    by (rule that [of "sy\<lparr>sy_producer := pd, sy_jobs := [], sy_lost := [], sy_events := sy_events sy @
        [PE_called 5 sample_sent [107] (ConfirmResponse CR_ACK), PE_resolved 0]\<rparr>"])
      (use assms in \<open>simp_all add: app act\<close>)
qed

theorem sends_confirmed_once_witness:
  "case send_run (open_session 0 sample_live) (SendChannel_new empty_topology [120]) of
     None \<Rightarrow> False
   | Some sc \<Rightarrow>
       (case producer_run sample_guid_util sample_producer_session (Producer_create 2 None None sc) of
          None \<Rightarrow> False
        | Some sy \<Rightarrow> called sy = [] \<and> (\<exists>D. mset (accepted sy) = D \<and> image_mset send_publication D = {#(sample_sent, [107])#}) \<and>
            (\<exists>cb evs. fst (actionConfirmOnThreadPool sample_confirm (sy_producer sy)) =
               PE_called cb sample_sent [107] (ConfirmResponse CR_ACK) # evs))"
proof (rule sample_producer_run)
  fix sc and sy :: "(nat, u8, nat, nat) producer_system"
  assume sc: "send_run (open_session 0 sample_live) (SendChannel_new empty_topology [120]) = Some sc"
    and sy: "producer_run sample_guid_util sample_producer_session (Producer_create 2 None None sc) = Some sy"
      "contents (ch_trace (sy_channel sy)) = [sample_sent]" "sc_pendingMessages (sy_channel sy) = []"
      "ms_tagToMsg (sc_messageStore (sy_channel sy)) = []" "sy_posting sy = []" "sy_eventLoop sy = []"
      "sy_jobs sy = [sample_confirm]" "sy_lost sy = []" "sy_events sy = [PE_sent sample_sent [107] 5]"
      "pd_isValid (sy_producer sy)"
  have out: "outstanding sy = [(sample_sent, [107])]" "called sy = []"
    using sy by (simp_all add: outstanding_def in_flight_def sample_confirm_def job_publication_def called_def)
  have "unwrapped (sy_channel sy)"
    using sy by (simp add: unwrapped_def)
  note t = sends_confirmed_once [OF sc sample_published sy(1) this]
  show ?thesis
    using t sc sy(1,7,10) out unfolding sample_confirm_def by auto
qed

theorem outstanding_limit_exact_witness:
  "case send_run (open_session 0 sample_live) (SendChannel_new empty_topology [120]) of
     None \<Rightarrow> False
   | Some sc \<Rightarrow>
       (case producer_run sample_guid_util sample_producer_session (Producer_create 2 None None sc) of
          None \<Rightarrow> False
        | Some sy \<Rightarrow> pd_outstandingMessagesCap (sy_producer sy) + 1 + 0 = 2 \<and>
            trySend sample_sent [] 6 (sy_producer sy) \<noteq> (SP_returned INFLIGHT_LIMIT, sy_producer sy))"
proof (rule sample_producer_run)
  fix sc and sy :: "(nat, u8, nat, nat) producer_system"
  assume sc: "send_run (open_session 0 sample_live) (SendChannel_new empty_topology [120]) = Some sc"
    and sy: "producer_run sample_guid_util sample_producer_session (Producer_create 2 None None sc) = Some sy"
      "pd_callbackMap (sy_producer sy) = [(7, 5)]" "sy_sending sy = []"
  show ?thesis
    using outstanding_limit_exact [OF sc sample_published sy(1), of sample_sent "[]" 6] sc sy by simp
qed


end
