(* ===== verification/Multiple_Ack.thy ===== *)
theory Multiple_Ack
  imports Prelude
begin

text \<open>
  \<open>rmqamqp::MultipleAckHandler\<close>, which combines consumer acknowledgements into multi-acknowledgements,
  and \<open>rmqt::ConsumerAckBatch\<close>, in which the acknowledgements of many threads are collected.

  An acknowledgement is its delivery tag and its type. The two callbacks are the calls made of the broker,
  in order. \<open>bsl::sort\<close> leaves the order of equal tags open; the model takes them in their original order,
  and the properties about settlement hold for every order.
\<close>

datatype ack_type = ACK | REJECT | REQUEUE

type_synonym consumer_ack = "u64 \<times> ack_type"

record ack_handler =
  ah_totalAcked :: u64
  ah_maxProcessedTag :: u64

definition AckHandler_new :: ack_handler where
  "AckHandler_new = \<lparr>ah_totalAcked = 0, ah_maxProcessedTag = 0\<rparr>"

definition AckHandler_reset :: "ack_handler \<Rightarrow> ack_handler" where
  "AckHandler_reset h = h\<lparr>ah_totalAcked := 0, ah_maxProcessedTag := 0\<rparr>"

datatype broker_call =
    Call_Ack u64 bool
  | Call_Nack u64 bool bool

definition sendAck :: "u64 \<Rightarrow> ack_type \<Rightarrow> nat \<Rightarrow> broker_call" where
  "sendAck deliveryTag type batchSize =
     (let multiple = batchSize > 1 in
      if type = ACK then Call_Ack deliveryTag multiple
      else Call_Nack deliveryTag (type = REQUEUE) multiple)"

record ack_pending =
  batchLength :: nat
  batchMaxTag :: u64
  batchType :: ack_type

definition flush :: "ack_pending \<Rightarrow> broker_call list" where
  "flush b = [sendAck (batchMaxTag b) (batchType b) (batchLength b)]"

text \<open>One round of the loop: the calls it makes, the pending batch and the handler after it.\<close>

definition ack_step ::
  "ack_pending \<Rightarrow> ack_handler \<Rightarrow> consumer_ack \<Rightarrow> broker_call list \<times> ack_pending \<times> ack_handler" where
  "ack_step b h a =
     (case a of (tag, type) \<Rightarrow>
      let h' = \<lparr>ah_totalAcked = ah_totalAcked h + 1, ah_maxProcessedTag = max (ah_maxProcessedTag h) tag\<rparr> in
      if ah_totalAcked h = ah_maxProcessedTag h \<and> tag = ah_maxProcessedTag h + 1 then
        (if batchLength b > 0 \<and> type \<noteq> batchType b
         then (flush b, \<lparr>batchLength = 1, batchMaxTag = tag, batchType = type\<rparr>, h')
         else ([], \<lparr>batchLength = batchLength b + 1, batchMaxTag = tag, batchType = type\<rparr>, h'))
      else if batchLength b > 0
        then (flush b @ [sendAck tag type 1], b\<lparr>batchLength := 0, batchMaxTag := 0\<rparr>, h')
        else ([sendAck tag type 1], b, h'))"

fun ack_loop :: "ack_pending \<Rightarrow> ack_handler \<Rightarrow> consumer_ack list \<Rightarrow> broker_call list \<times> ack_handler" where
  "ack_loop b h [] = ((if batchLength b > 0 then flush b else []), h)"
| "ack_loop b h (a # acks) =
     (case ack_step b h a of (calls, b', h') \<Rightarrow>
        (case ack_loop b' h' acks of (calls', h'') \<Rightarrow> (calls @ calls', h'')))"

definition process :: "ack_handler \<Rightarrow> consumer_ack list \<Rightarrow> broker_call list \<times> ack_handler" where
  "process h acks =
     ack_loop \<lparr>batchLength = 0, batchMaxTag = 0, batchType = ACK\<rparr> h (sort_key fst acks)"

section \<open>The batch that threads add to\<close>

text \<open>Generic in the acknowledgements: here they are tag and type, a channel also looks at their envelopes.\<close>

record 'a ack_batch =
  ab_locked :: bool
  ab_acks :: "'a list"

definition ConsumerAckBatch_new :: "'a ack_batch" where
  "ConsumerAckBatch_new = \<lparr>ab_locked = False, ab_acks = []\<rparr>"

definition addAck :: "'a ack_batch \<Rightarrow> 'a \<Rightarrow> bool \<times> 'a ack_batch" where
  "addAck b a = (if ab_locked b then (False, b) else (True, b\<lparr>ab_acks := ab_acks b @ [a]\<rparr>))"

definition lock :: "'a ack_batch \<Rightarrow> 'a list \<times> 'a ack_batch" where
  "lock b = (ab_acks b, b\<lparr>ab_locked := True\<rparr>)"

datatype 'a batch_op = Op_add 'a | Op_lock

text \<open>Any interleaving of calls: the acknowledgements accepted, what each \<open>lock\<close> saw, and the batch.\<close>

fun batch_run :: "'a ack_batch \<Rightarrow> 'a batch_op list \<Rightarrow> 'a list \<times> 'a list list \<times> 'a ack_batch" where
  "batch_run b [] = ([], [], b)"
| "batch_run b (Op_add a # ops) =
     (case addAck b a of (ok, b') \<Rightarrow>
        (case batch_run b' ops of (accepted, views, b'') \<Rightarrow> ((if ok then a # accepted else accepted), views, b'')))"
| "batch_run b (Op_lock # ops) =
     (case lock b of (view, b') \<Rightarrow>
        (case batch_run b' ops of (accepted, views, b'') \<Rightarrow> (accepted, view # views, b'')))"

section \<open>The broker\<close>

text \<open>
  What the calls mean to the broker (AMQP 0-9-1, \<open>basic.ack\<close> and \<open>basic.nack\<close>): it knows the tags that
  are delivered and not yet settled and what became of the others. \<open>multiple\<close> settles every
  unsettled tag up to the given one; naming a tag that is not unsettled is a channel error.
\<close>

record broker =
  unsettled :: "u64 set"
  settled :: "u64 \<rightharpoonup> ack_type"

definition settle :: "u64 set \<Rightarrow> ack_type \<Rightarrow> broker \<Rightarrow> broker" where
  "settle T type br =
     \<lparr>unsettled = unsettled br - T, settled = (\<lambda>t. if t \<in> T then Some type else settled br t)\<rparr>"

fun call_tag :: "broker_call \<Rightarrow> u64" where
  "call_tag (Call_Ack t _) = t"
| "call_tag (Call_Nack t _ _) = t"

fun call_multiple :: "broker_call \<Rightarrow> bool" where
  "call_multiple (Call_Ack _ m) = m"
| "call_multiple (Call_Nack _ _ m) = m"

fun call_type :: "broker_call \<Rightarrow> ack_type" where
  "call_type (Call_Ack _ _) = ACK"
| "call_type (Call_Nack _ requeue _) = (if requeue then REQUEUE else REJECT)"

definition broker_step :: "broker \<Rightarrow> broker_call \<Rightarrow> broker option" where
  "broker_step br c =
     (if call_tag c \<notin> unsettled br then None
      else Some (settle (if call_multiple c then {t \<in> unsettled br. t \<le> call_tag c} else {call_tag c})
             (call_type c) br))"

fun broker_run :: "broker \<Rightarrow> broker_call list \<Rightarrow> broker option" where
  "broker_run br [] = Some br"
| "broker_run br (c # cs) = (case broker_step br c of None \<Rightarrow> None | Some br' \<Rightarrow> broker_run br' cs)"

text \<open>The broker with every acknowledgement of a list carried out by itself.\<close>

definition settle_all :: "consumer_ack list \<Rightarrow> broker \<Rightarrow> broker" where
  "settle_all acks br =
     \<lparr>unsettled = unsettled br - fst ` set acks, settled = settled br ++ map_of (rev acks)\<rparr>"

text \<open>The handler has counted the tags \<open>P\<close>; none of them is unsettled at the broker.\<close>

definition handler_inv :: "u64 set \<Rightarrow> ack_handler \<Rightarrow> broker \<Rightarrow> bool" where
  "handler_inv P h br \<longleftrightarrow>
     P \<subseteq> {1..ah_maxProcessedTag h} \<and> card P = unat (ah_totalAcked h) \<and>
     (ah_maxProcessedTag h = 0 \<or> ah_maxProcessedTag h \<in> P) \<and>
     unsettled br \<inter> P = {} \<and> 0 \<notin> unsettled br"

text \<open>In the middle of the loop: the tags \<open>B\<close> of the pending batch are counted and still unsettled,
  and they are exactly the unsettled ones up to the highest tag.\<close>

definition pending_inv :: "u64 set \<Rightarrow> ack_pending \<Rightarrow> ack_handler \<Rightarrow> broker \<Rightarrow> bool" where
  "pending_inv B b h br \<longleftrightarrow>
     card B = batchLength b \<and> finite B \<and>
     (batchLength b > 0 \<longrightarrow>
        ah_totalAcked h = ah_maxProcessedTag h \<and> batchMaxTag b = ah_maxProcessedTag h \<and>
        batchMaxTag b \<in> B \<and> B = {t \<in> unsettled br. t \<le> batchMaxTag b})"

section \<open>Counting tags\<close>

lemma card_word_interval: "card {1..w :: u64} = unat w"
proof -
  have "unat ` {1..w} = {1..unat w}"
  proof (intro equalityI subsetI)
    fix n assume "n \<in> {1..unat w}"
    then have "n = unat (of_nat n :: u64)" "(of_nat n :: u64) \<in> {1..w}"
      by (auto simp: unat_of_nat word_le_nat_alt take_bit_nat_eq_self
          dest: order_le_less_trans [OF _ unsigned_less [of w]])
    then show "n \<in> unat ` {1..w}" by blast
  qed (auto simp: word_le_nat_alt)
  moreover have "inj_on unat {1..w}"
    by (auto simp: inj_on_def word_unat_eq_iff)
  ultimately show ?thesis
    using card_image [of unat "{1..w}"] by simp
qed

lemma one_le_word: "1 \<le> (t :: u64) \<longleftrightarrow> t \<noteq> 0"
  by (simp add: word_le_nat_alt Suc_le_eq unat_gt_0)

lemma counted_prefix:
  fixes P :: "u64 set"
  assumes "P \<subseteq> {1..w}" and "card P = unat w"
  shows "P = {1..w}"
  using card_subset_eq [of "{1..w}" P] assms by (simp add: card_word_interval)

lemma sendAck_sel [simp]:
  "call_tag (sendAck t ty n) = t" "call_multiple (sendAck t ty n) = (n > 1)"
  "call_type (sendAck t ty n) = ty"
  by (cases ty; simp add: sendAck_def)+

lemma broker_run_append:
  "broker_run br (xs @ ys) = (case broker_run br xs of None \<Rightarrow> None | Some br' \<Rightarrow> broker_run br' ys)"
  by (induction xs arbitrary: br) (auto split: option.splits)

lemma settle_all_append: "settle_all (xs @ ys) br = settle_all ys (settle_all xs br)"
  by (simp add: settle_all_def image_Un Diff_Diff_Int set_diff_eq)

lemma settle_empty [simp]: "settle {} ty br = br"
  by (simp add: settle_def)

lemma settle_settle: "settle A ty (settle B ty br) = settle (A \<union> B) ty br"
  by (auto simp: settle_def fun_eq_iff)

lemma unsettled_settle [simp]: "unsettled (settle T ty br) = unsettled br - T"
  by (simp add: settle_def)

lemma broker_run_single:
  "t \<in> unsettled br \<Longrightarrow> broker_run br [sendAck t ty 1] = Some (settle {t} ty br)"
  by (simp add: broker_step_def)

text \<open>Sending the pending batch settles exactly the tags in it.\<close>

lemma broker_run_flush:
  assumes "pending_inv B b h br" and "batchLength b > 0"
  shows "broker_run br (flush b) = Some (settle B (batchType b) br)"
proof -
  have B: "batchMaxTag b \<in> B" "B = {t \<in> unsettled br. t \<le> batchMaxTag b}" "card B = batchLength b"
    using assms unfolding pending_inv_def by blast+
  show ?thesis
  proof (cases "batchLength b = 1")
    case True
    then have "B = {batchMaxTag b}"
      using B(1,3) by (metis card_1_singletonE singletonD)
    then show ?thesis
      using True B by (auto simp: flush_def broker_step_def)
  next
    case False
    then show ?thesis
      using assms(2) B(1) B(2) [symmetric] by (auto simp: flush_def broker_step_def)
  qed
qed

lemma handler_inv_step:
  assumes inv: "handler_inv P h br" and tag: "tag \<in> unsettled br"
  shows "handler_inv (insert tag P)
     \<lparr>ah_totalAcked = ah_totalAcked h + 1, ah_maxProcessedTag = max (ah_maxProcessedTag h) tag\<rparr>
     (settle {tag} ty br)"
proof -
  let ?m = "max (ah_maxProcessedTag h) tag"
  have P: "P \<subseteq> {1..ah_maxProcessedTag h}" "card P = unat (ah_totalAcked h)" "tag \<notin> P" "tag \<noteq> 0"
    using inv tag by (auto simp: handler_inv_def)
  have sub: "insert tag P \<subseteq> {1..?m}"
  proof (intro subsetI)
    fix x assume "x \<in> insert tag P"
    then consider "x = tag" | "1 \<le> x" "x \<le> ah_maxProcessedTag h"
      using P(1) by auto
    then show "x \<in> {1..?m}"
      by cases (use P(4) one_le_word in \<open>auto intro: max.coboundedI1\<close>)
  qed
  have "finite P"
    by (rule finite_subset [OF P(1)]) simp
  then have "Suc (card P) \<le> unat ?m"
    using card_mono [OF finite_atLeastAtMost sub] card_insert_disjoint [OF _ P(3)]
    by (simp only: card_word_interval)
  then have "unat (ah_totalAcked h + 1) = Suc (card P)"
    using P(2) unsigned_less [of ?m, where ?'a = nat] by (simp add: unat_word_ariths)
  then show ?thesis
    using inv sub \<open>finite P\<close> P(3) by (auto simp: handler_inv_def max_def)
qed

text \<open>At the frontier every tag up to the highest one is counted, so none of them is unsettled.\<close>

lemma frontier_clear:
  assumes "handler_inv P h br" and "ah_totalAcked h = ah_maxProcessedTag h" and "t \<in> unsettled br"
  shows "\<not> t \<le> ah_maxProcessedTag h"
proof
  assume "t \<le> ah_maxProcessedTag h"
  moreover have "t \<noteq> 0"
    using assms(1,3) by (auto simp: handler_inv_def)
  ultimately have "t \<in> {1..ah_maxProcessedTag h}"
    by (simp add: one_le_word)
  moreover have "P = {1..ah_maxProcessedTag h}"
    using assms(1,2) by (intro counted_prefix) (simp_all add: handler_inv_def)
  ultimately show False
    using assms(1,3) by (auto simp: handler_inv_def)
qed

lemma le_Suc_word: "w + 1 \<noteq> 0 \<Longrightarrow> t \<le> w + 1 \<longleftrightarrow> t \<le> w \<or> t = w + (1 :: u64)"
  using unatSuc [of w] by (auto simp: word_le_nat_alt word_unat_eq_iff le_Suc_eq add.commute)

lemma pending_extend:
  assumes h: "handler_inv P h (settle B ty br)" and p: "pending_inv B b h br"
    and front: "ah_totalAcked h = ah_maxProcessedTag h" "tag = ah_maxProcessedTag h + 1"
    and tag: "tag \<in> unsettled br - B"
  shows "pending_inv (insert tag B) \<lparr>batchLength = batchLength b + 1, batchMaxTag = tag, batchType = ty'\<rparr>
     \<lparr>ah_totalAcked = ah_totalAcked h + 1, ah_maxProcessedTag = max (ah_maxProcessedTag h) tag\<rparr> br"
proof -
  have "tag \<noteq> 0"
    using h tag by (auto simp: handler_inv_def)
  then have le: "t \<le> tag \<longleftrightarrow> t \<le> ah_maxProcessedTag h \<or> t = tag" for t
    using front(2) le_Suc_word by blast
  then have max: "max (ah_maxProcessedTag h) tag = tag"
    by (simp add: max_def)
  have "t \<in> B" if "t \<in> unsettled br" "t \<le> ah_maxProcessedTag h" for t
    using frontier_clear [OF h front(1), of t] that by auto
  moreover have "B \<subseteq> {t \<in> unsettled br. t \<le> ah_maxProcessedTag h}"
    using p unfolding pending_inv_def by (cases "batchLength b") auto
  ultimately have B: "insert tag B = {t \<in> unsettled br. t \<le> tag}"
    using tag le by auto
  have "card (insert tag B) = batchLength b + 1" "finite (insert tag B)"
    using p tag by (auto simp: pending_inv_def)
  then show ?thesis
    using front(1) max tag B [unfolded front(2)] by (simp add: pending_inv_def front(2))
qed

lemma pending_empty: "pending_inv {} b h br \<longleftrightarrow> batchLength b = 0"
  by (auto simp: pending_inv_def)

lemma pending_none: "pending_inv B b h br \<Longrightarrow> batchLength b = 0 \<Longrightarrow> B = {}"
  by (simp add: pending_inv_def)

lemma ack_step_settles:
  assumes h: "handler_inv P h (settle B (batchType b) br)" and p: "pending_inv B b h br"
    and tag: "tag \<in> unsettled (settle B (batchType b) br)"
    and step: "ack_step b h (tag, ty) = (calls, b', h')"
  shows "\<exists>B' br'. broker_run br calls = Some br' \<and>
     settle B' (batchType b') br' = settle {tag} ty (settle B (batchType b) br) \<and>
     handler_inv (insert tag P) h' (settle B' (batchType b') br') \<and> pending_inv B' b' h' br'"
proof -
  let ?v = "settle B (batchType b) br"
  let ?h = "\<lparr>ah_totalAcked = ah_totalAcked h + 1, ah_maxProcessedTag = max (ah_maxProcessedTag h) tag\<rparr>"
  have h': "h' = ?h"
    using step by (auto simp: ack_step_def Let_def split: if_splits)
  note hs = handler_inv_step [OF h tag, of ty, folded h']
  consider (close) "ah_totalAcked h = ah_maxProcessedTag h" "tag = ah_maxProcessedTag h + 1"
      "batchLength b > 0" "ty \<noteq> batchType b"
    | (extend) "ah_totalAcked h = ah_maxProcessedTag h" "tag = ah_maxProcessedTag h + 1"
      "batchLength b = 0 \<or> ty = batchType b"
    | (single) "\<not> (ah_totalAcked h = ah_maxProcessedTag h \<and> tag = ah_maxProcessedTag h + 1)"
    by blast
  then show ?thesis
  proof cases
    case close
    then have s: "calls = flush b" "b' = \<lparr>batchLength = 1, batchMaxTag = tag, batchType = ty\<rparr>"
      using step by (auto simp: ack_step_def Let_def)
    have "pending_inv {tag} b' h' ?v"
      using pending_extend [of P h "{}" ty ?v "\<lparr>batchLength = 0, batchMaxTag = 0, batchType = ty\<rparr>" tag ty]
        h tag close by (simp add: s h' pending_empty)
    then show ?thesis
      using broker_run_flush [OF p close(3)] hs s by (intro exI [of _ "{tag}"] exI [of _ ?v]) simp
  next
    case extend
    then have s: "calls = []"
        "b' = \<lparr>batchLength = batchLength b + 1, batchMaxTag = tag, batchType = ty\<rparr>"
      using step by (auto simp: ack_step_def Let_def)
    have "settle (insert tag B) ty br = settle {tag} ty ?v"
      using extend(3) pending_none [OF p] settle_settle [of "{tag}" ty B br] by auto
    moreover have "pending_inv (insert tag B) b' h' br"
      using pending_extend [OF h p extend(1,2)] tag by (simp add: s h')
    ultimately show ?thesis
      using hs s by (intro exI [of _ "insert tag B"] exI [of _ br]) simp
  next
    case single
    have run: "broker_run br calls = Some (settle {tag} ty ?v)"
    proof (cases "batchLength b > 0")
      case True
      then have "calls = flush b @ [sendAck tag ty 1]"
        using step single by (auto simp: ack_step_def Let_def)
      then show ?thesis
        using broker_run_flush [OF p True] broker_run_single [OF tag] by (simp add: broker_run_append)
    next
      case False
      then have "calls = [sendAck tag ty 1]" "?v = br"
        using step single pending_none [OF p] by (auto simp: ack_step_def Let_def)
      then show ?thesis
        using broker_run_single [OF tag] by simp
    qed
    have "batchLength b' = 0"
      using step single by (auto simp: ack_step_def Let_def split: if_splits)
    then show ?thesis
      using run hs by (intro exI [of _ "{}"]) (simp add: pending_empty)
  qed
qed

lemma settle_all_Cons: "settle_all ((t, ty) # acks) br = settle_all acks (settle {t} ty br)"
  by (auto simp: settle_all_def settle_def map_add_def fun_eq_iff split: option.splits)

lemma settle_all_Nil [simp]: "settle_all [] br = br"
  by (simp add: settle_all_def)

lemma settle_all_set:
  assumes "distinct (map fst xs)" and "distinct (map fst ys)" and "set xs = set ys"
  shows "settle_all xs br = settle_all ys br"
proof -
  have "map_of (rev xs) = map_of (rev ys)"
    using assms map_of_inject_set [of "rev xs" "rev ys"] by (simp add: rev_map [symmetric])
  then show ?thesis
    using assms(3) by (simp add: settle_all_def)
qed

lemma ack_loop_settles:
  assumes "handler_inv P h (settle B (batchType b) br)" and "pending_inv B b h br"
    and "distinct (map fst acks)" and "fst ` set acks \<subseteq> unsettled (settle B (batchType b) br)"
    and "ack_loop b h acks = (calls, h')"
  shows "broker_run br calls = Some (settle_all acks (settle B (batchType b) br)) \<and>
     handler_inv (P \<union> fst ` set acks) h' (settle_all acks (settle B (batchType b) br))"
  using assms
proof (induction acks arbitrary: P B b h br calls)
  case Nil
  then show ?case
    using broker_run_flush [OF Nil(2)] pending_none [OF Nil(2)] by (auto split: if_splits)
next
  case (Cons a acks)
  obtain t ty where a: "a = (t, ty)" by (cases a)
  obtain c1 b1 h1 c2 where s: "ack_step b h (t, ty) = (c1, b1, h1)" and l: "ack_loop b1 h1 acks = (c2, h')"
      and calls: "calls = c1 @ c2"
    using Cons.prems(5) a by (auto split: prod.splits)
  obtain B1 br1 where s1: "broker_run br c1 = Some br1"
      "settle B1 (batchType b1) br1 = settle {t} ty (settle B (batchType b) br)"
      "handler_inv (insert t P) h1 (settle B1 (batchType b1) br1)" "pending_inv B1 b1 h1 br1"
    using ack_step_settles [OF Cons.prems(1,2) _ s] Cons.prems(4) a by auto
  have "fst ` set acks \<subseteq> unsettled (settle B1 (batchType b1) br1)"
    using Cons.prems(3,4) a by (auto simp: s1(2))
  from Cons.IH [OF s1(3,4) _ this l] Cons.prems(3) show ?case
    using s1(1,2) calls a by (simp add: broker_run_append settle_all_Cons insert_commute)
qed

lemma process_settles:
  assumes "handler_inv P h br" and "distinct (map fst acks)" and "fst ` set acks \<subseteq> unsettled br"
    and "process h acks = (calls, h')"
  shows "broker_run br calls = Some (settle_all acks br) \<and>
     handler_inv (P \<union> fst ` set acks) h' (settle_all acks br)"
proof -
  let ?b = "\<lparr>batchLength = 0, batchMaxTag = 0, batchType = ACK\<rparr>" and ?s = "sort_key fst acks"
  have d: "distinct (map fst ?s)"
    using assms(2) by (metis distinct_map distinct_sort set_sort)
  have "settle_all ?s br = settle_all acks br"
    by (rule settle_all_set [OF d assms(2)]) simp
  then show ?thesis
    using ack_loop_settles [of P h "{}" ?b br ?s calls h'] assms d
    by (simp add: process_def pending_empty)
qed

lemma ack_loop_contiguous:
  assumes "ah_totalAcked h = ah_maxProcessedTag h" and "unat (ah_maxProcessedTag h) + k < 2 ^ 64"
    and "batchLength b > 0 \<Longrightarrow> batchType b = ty" and "k > 0"
  shows "fst (ack_loop b h (map (\<lambda>i. (ah_maxProcessedTag h + of_nat i, ty)) [1..<Suc k])) =
     [sendAck (ah_maxProcessedTag h + of_nat k) ty (batchLength b + k)]"
  using assms
proof (induction k arbitrary: b h)
  case 0
  then show ?case by simp
next
  case (Suc k)
  let ?m = "ah_maxProcessedTag h"
  have m: "unat (?m + 1) = unat ?m + 1"
    using Suc.prems(2) by (simp add: unat_word_ariths)
  then have max: "max ?m (?m + 1) = ?m + 1"
    by (simp add: max_def word_le_nat_alt)
  let ?b = "\<lparr>batchLength = batchLength b + 1, batchMaxTag = ?m + 1, batchType = ty\<rparr>"
    and ?h = "\<lparr>ah_totalAcked = ?m + 1, ah_maxProcessedTag = ?m + 1\<rparr>"
  have step: "ack_step b h (?m + 1, ty) = ([], ?b, ?h)"
    using Suc.prems(1,3) max by (auto simp: ack_step_def Let_def)
  have shift: "map (\<lambda>i. (?m + of_nat i, ty)) [1..<Suc (Suc k)] =
      (?m + 1, ty) # map (\<lambda>i. (?m + 1 + of_nat i, ty)) [1..<Suc k]"
  proof -
    have "[1..<Suc (Suc k)] = 1 # map Suc [1..<Suc k]"
      by (simp add: map_Suc_upt upt_conv_Cons del: upt_Suc)
    then show ?thesis
      by (simp add: o_def add.assoc del: upt_Suc)
  qed
  show ?case
  proof (cases "k = 0")
    case True
    then show ?thesis
      using step by (simp add: shift flush_def)
  next
    case False
    have "fst (ack_loop ?b ?h (map (\<lambda>i. (?m + 1 + of_nat i, ty)) [1..<Suc k])) =
        [sendAck (?m + 1 + of_nat k) ty (batchLength b + 1 + k)]"
      using Suc.IH [of ?h ?b] False Suc.prems(2) m by simp
    then show ?thesis
      unfolding shift using step by (simp add: add.assoc split: prod.splits del: upt_Suc)
  qed
qed

lemma batch_run_accepted:
  "batch_run b ops = (accepted, views, b') \<Longrightarrow>
     ab_acks b' = ab_acks b @ accepted \<and> (ab_locked b \<longrightarrow> accepted = []) \<and>
     (\<forall>v \<in> set views. v = ab_acks b')"
proof (induction ops arbitrary: b accepted views)
  case (Cons x ops)
  then show ?case
    by (cases x) (fastforce simp: addAck_def lock_def split: prod.splits if_splits)+
qed simp

lemma gt_one_word: "\<not> (2 :: u64) \<le> 1" "\<not> (3 :: u64) \<le> 1" "\<not> (4 :: u64) \<le> 1"
  by (simp_all add: word_le_nat_alt)

section \<open>Properties\<close>

text \<open>C33: Multi-acknowledgement is exact. Whatever the handler has processed before, the calls it makes
  for a set of acknowledgements of distinct unsettled deliveries are all accepted by the broker and settle
  precisely these deliveries, each with its own type (ack, reject or requeue): no delivery that was not
  acknowledged is swept up by a \<open>multiple\<close> call and none is settled twice. This stays so when new
  deliveries arrive in between and after a reset for a new channel.\<close>

theorem multiple_acks_exact:
  assumes "handler_inv P h br" and "distinct (map fst acks)" and "fst ` set acks \<subseteq> unsettled br"
  shows "broker_run br (fst (process h acks)) = Some (settle_all acks br) \<and>
     handler_inv (P \<union> fst ` set acks) (snd (process h acks)) (settle_all acks br) \<and>
     (\<forall>new. 0 \<notin> new \<and> new \<inter> P = {} \<longrightarrow> handler_inv P h (br\<lparr>unsettled := unsettled br \<union> new\<rparr>)) \<and>
     (\<forall>br'. 0 \<notin> unsettled br' \<longrightarrow> handler_inv {} (AckHandler_reset h) br')"
  using process_settles [OF assms, of "fst (process h acks)" "snd (process h acks)"] assms(1)
  by (auto simp: handler_inv_def AckHandler_reset_def)

theorem multiple_acks_exact_witness:
  "let br = \<lparr>unsettled = {1, 2, 3, 4}, settled = Map.empty\<rparr>; acks = [(4, ACK), (2, ACK), (1, ACK)] in
   fst (process AckHandler_new acks) = [Call_Ack 2 True, Call_Ack 4 False] \<and>
   broker_run br (fst (process AckHandler_new acks)) = Some (settle_all acks br)"
proof -
  let ?br = "\<lparr>unsettled = {1, 2, 3, 4}, settled = Map.empty\<rparr>" and ?acks = "[(4, ACK), (2, ACK), (1, ACK)]"
  have "handler_inv {} AckHandler_new ?br"
    by (simp add: handler_inv_def AckHandler_new_def)
  then have "broker_run ?br (fst (process AckHandler_new ?acks)) = Some (settle_all ?acks ?br)"
    using multiple_acks_exact [of "{}" AckHandler_new ?br ?acks] by simp
  moreover have "fst (process AckHandler_new ?acks) = [Call_Ack 2 True, Call_Ack 4 False]"
    by (simp add: process_def ack_step_def AckHandler_new_def flush_def sendAck_def max_def
        gt_one_word)
  ultimately show ?thesis
    by (simp add: Let_def)
qed

text \<open>Batching is effective. When everything delivered so far has been acknowledged and the next
  \<open>k\<close> deliveries are acknowledged with one type, whatever the order they come in, the broker gets a single
  call: for the last of them, with \<open>multiple\<close> set exactly when \<open>k > 1\<close>.\<close>

theorem contiguous_acks_one_call:
  assumes "ah_totalAcked h = ah_maxProcessedTag h" and "unat (ah_maxProcessedTag h) + k < 2 ^ 64" and "k > 0"
    and "sort_key fst acks = map (\<lambda>i. (ah_maxProcessedTag h + of_nat i, ty)) [1..<Suc k]"
  shows "fst (process h acks) = [sendAck (ah_maxProcessedTag h + of_nat k) ty k]"
  using ack_loop_contiguous [of h k "\<lparr>batchLength = 0, batchMaxTag = 0, batchType = ACK\<rparr>" ty] assms
  by (simp add: process_def)

theorem contiguous_acks_one_call_witness:
  "fst (process AckHandler_new [(3, REQUEUE), (1, REQUEUE), (2, REQUEUE)]) = [Call_Nack 3 True True]"
  using contiguous_acks_one_call [of AckHandler_new 3 "[(3, REQUEUE), (1, REQUEUE), (2, REQUEUE)]" REQUEUE]
    gt_one_word
  by (simp add: AckHandler_new_def sendAck_def upt_rec)

text \<open>No acknowledgement is lost between the threads that add to a batch and the one that takes it.
  In every interleaving of \<open>addAck\<close> and \<open>lock\<close> calls, each \<open>lock\<close> sees exactly the acknowledgements for
  which \<open>addAck\<close> ever returned true, in order; the others were refused.\<close>

theorem ack_batch_complete:
  assumes "batch_run ConsumerAckBatch_new ops = (accepted, views, b)"
  shows "(\<forall>v \<in> set views. v = accepted) \<and> ab_acks b = accepted"
  using batch_run_accepted [OF assms] by (auto simp: ConsumerAckBatch_new_def)

theorem ack_batch_complete_witness:
  "ab_acks (snd (snd (batch_run ConsumerAckBatch_new [Op_add (1, ACK), Op_lock, Op_add (2, ACK), Op_lock])))
     = [(1, ACK)]"
  using ack_batch_complete [of "[Op_add (1, ACK), Op_lock, Op_add (2, ACK), Op_lock]" "[(1, ACK)]"
      "[[(1, ACK)], [(1, ACK)]]" "\<lparr>ab_locked = True, ab_acks = [(1, ACK)]\<rparr>"]
  by (simp add: addAck_def lock_def ConsumerAckBatch_new_def)

end
