(* ===== verification/Receive_Channel.thy ===== *)
theory Receive_Channel
  imports Channel_Base Message_Store Multiple_Ack
begin

text \<open>
  \<open>rmqamqp::ReceiveChannel\<close>: consuming, acknowledging, pausing, resuming, cancelling and draining.

  The nested class \<open>Consumer\<close> is the record \<open>consumer\<close> with its seven states. Deliveries to the client are
  events of the trace. Futures are named as in the base class; what an operation returns is \<open>Inl p\<close> for the
  pending future \<open>p\<close> and \<open>Inr r\<close> for one resolved already. Dereferencing a null consumer and a failed assertion
  are \<^const>\<open>None\<close>. The start times of pause and resume serve metrics only and are left out.
\<close>

section \<open>ReceiveChannel::Consumer\<close>

datatype consumer_state =
    NOT_CONSUMING
  | STARTING
  | CONSUMING
  | PAUSING
  | PAUSED
  | CANCELLING
  | CANCELLED

text \<open>The code compares states by their position in the enumeration.\<close>

fun consumer_rank :: "consumer_state \<Rightarrow> nat" where
  "consumer_rank NOT_CONSUMING = 0"
| "consumer_rank STARTING = 1"
| "consumer_rank CONSUMING = 2"
| "consumer_rank PAUSING = 3"
| "consumer_rank PAUSED = 4"
| "consumer_rank CANCELLING = 5"
| "consumer_rank CANCELLED = 6"

instantiation consumer_state :: linorder
begin

definition less_eq_consumer_state :: "consumer_state \<Rightarrow> consumer_state \<Rightarrow> bool" where
  "less_eq_consumer_state a b \<longleftrightarrow> consumer_rank a \<le> consumer_rank b"

definition less_consumer_state :: "consumer_state \<Rightarrow> consumer_state \<Rightarrow> bool" where
  "less_consumer_state a b \<longleftrightarrow> consumer_rank a < consumer_rank b"

instance
proof
  fix a b :: consumer_state
  show "a \<le> b \<Longrightarrow> b \<le> a \<Longrightarrow> a = b"
    by (cases a; cases b) (simp_all add: less_eq_consumer_state_def)
qed (auto simp: less_eq_consumer_state_def less_consumer_state_def)

end

record consumer =
  co_state :: consumer_state
  co_tag :: bytes
  co_queueName :: bytes

record consumer_config =
  cc_prefetchCount :: u16
  cc_exclusive :: bool
  cc_consumerPriority :: "u64 option"

definition Consumer_new :: "bytes \<Rightarrow> bytes \<Rightarrow> bool \<Rightarrow> consumer" where
  "Consumer_new queueName consumerTag channelPausedOnOpen =
     \<lparr>co_state = (if channelPausedOnOpen then PAUSED else NOT_CONSUMING), co_tag = consumerTag,
      co_queueName = queueName\<rparr>"

definition isStarted :: "consumer \<Rightarrow> bool" where
  "isStarted c \<longleftrightarrow> co_state c \<noteq> NOT_CONSUMING"

definition isActive :: "consumer \<Rightarrow> bool" where
  "isActive c \<longleftrightarrow> co_state c = CONSUMING"

definition isPaused :: "consumer \<Rightarrow> bool" where
  "isPaused c \<longleftrightarrow> co_state c = PAUSED"

definition shouldRestart :: "consumer \<Rightarrow> bool" where
  "shouldRestart c \<longleftrightarrow> co_state c < CANCELLING"

definition canPause :: "consumer \<Rightarrow> bool" where
  "canPause c \<longleftrightarrow> co_state c \<le> CONSUMING"

definition Consumer_reset :: "consumer \<Rightarrow> consumer" where
  "Consumer_reset c = (if shouldRestart c then c\<lparr>co_state := NOT_CONSUMING\<rparr> else c)"

definition cancel_method :: "bytes \<Rightarrow> 'dt BasicMethod" where
  "cancel_method tag = M_BasicCancel \<lparr>cancel_consumerTag = tag, cancel_noWait = False\<rparr>"

definition consumeOk :: "consumer \<Rightarrow> 'dt BasicMethod option \<times> consumer" where
  "consumeOk c =
     (if co_state c = STARTING then (None, c\<lparr>co_state := CONSUMING\<rparr>)
      else if co_state c = CANCELLING then (Some (cancel_method (co_tag c)), c)
      else if co_state c = PAUSING then (Some (cancel_method (co_tag c)), c)
      else (None, c))"

definition handleCancelAfterPause :: "consumer \<Rightarrow> consumer" where
  "handleCancelAfterPause c =
     (case co_state c of
        PAUSING \<Rightarrow> c\<lparr>co_state := CANCELLING\<rparr>
      | PAUSED \<Rightarrow> c\<lparr>co_state := CANCELLED\<rparr>
      | _ \<Rightarrow> c)"

definition setPaused :: "consumer \<Rightarrow> consumer" where
  "setPaused c = c\<lparr>co_state := PAUSED\<rparr>"

definition getBasicConsumeArguments :: "consumer_config \<Rightarrow> 'dt field_table" where
  "getBasicConsumeArguments cfg =
     (case cc_consumerPriority cfg of None \<Rightarrow> [] | Some p \<Rightarrow> [(bstr ''x-priority'', FV_int64 p)])"

definition Consumer_consume :: "consumer_config \<Rightarrow> consumer \<Rightarrow> 'dt BasicMethod option \<times> consumer" where
  "Consumer_consume cfg c =
     (if co_state c \<noteq> NOT_CONSUMING \<and> co_state c \<noteq> PAUSED then (None, c)
      else
        (Some (M_BasicConsume
           \<lparr>consume_queue = co_queueName c, consume_consumerTag = co_tag c, consume_noLocal = False,
            consume_noAck = False, consume_exclusive = cc_exclusive cfg, consume_noWait = False,
            consume_arguments = getBasicConsumeArguments cfg\<rparr>),
         c\<lparr>co_state := STARTING\<rparr>))"

definition Consumer_cancel :: "bool \<Rightarrow> consumer \<Rightarrow> 'dt BasicMethod option \<times> consumer" where
  "Consumer_cancel pause c =
     (let c = (if \<not> pause \<and> co_state c = PAUSING then c\<lparr>co_state := CANCELLING\<rparr> else c) in
      if pause \<and> co_state c = NOT_CONSUMING then (None, c\<lparr>co_state := PAUSED\<rparr>)
      else if co_state c \<noteq> CONSUMING then (None, c\<lparr>co_state := (if pause then PAUSING else CANCELLING)\<rparr>)
      else (Some (cancel_method (co_tag c)), c\<lparr>co_state := (if pause then PAUSING else CANCELLING)\<rparr>))"

definition cancelOk :: "consumer \<Rightarrow> consumer" where
  "cancelOk c =
     (case co_state c of
        CANCELLING \<Rightarrow> c\<lparr>co_state := CANCELLED\<rparr>
      | PAUSING \<Rightarrow> c\<lparr>co_state := PAUSED\<rparr>
      | _ \<Rightarrow> c)"

section \<open>ReceiveChannel\<close>

record envelope =
  en_deliveryTag :: u64
  en_channelLifetimeId :: nat
  en_consumerTag :: bytes
  en_exchange :: bytes
  en_routingKey :: bytes
  en_redelivered :: bool

type_synonym enveloped_ack = "envelope \<times> ack_type"

datatype ('dt, 'g) receive_event =
    Deliver_callback "('dt, 'g) message" envelope
  | Batch_locked "enveloped_ack list"

record ('dt, 'g, 't) receive_channel = "('dt, 'g, ('dt, 'g) receive_event) channel" +
  rc_consumerConfig :: consumer_config
  rc_consumer :: "consumer option"
  rc_nextMessage :: "BasicDeliver option"
  rc_messageStore :: "('g, ('dt, 'g) message, 't) message_store"
  rc_ackQueue :: "enveloped_ack ack_batch list"
  rc_multipleAckHandler :: ack_handler
  rc_consumeFuture :: "nat option"
  rc_cancelFuture :: "nat option"
  rc_drainFuture :: "nat option"
  rc_channelPausedOnOpen :: bool

definition ReceiveChannel_new ::
  "'dt topology \<Rightarrow> consumer_config \<Rightarrow> bool \<Rightarrow> ('dt, 'g, 't) receive_channel" where
  "ReceiveChannel_new topology cfg pausedOnOpen =
     \<lparr>ch_flow = True, ch_state = CLOSED, ch_topology = topology, ch_topologyTransformer = None,
      ch_topologyCallback = None, ch_updateQueue = [], ch_permanentlyClosing = False, ch_readyMade = [],
      ch_promises = 0, ch_trace = [],
      rc_consumerConfig = cfg, rc_consumer = None, rc_nextMessage = None, rc_messageStore = MessageStore_new,
      rc_ackQueue = [], rc_multipleAckHandler = AckHandler_new, rc_consumeFuture = None,
      rc_cancelFuture = None, rc_drainFuture = None, rc_channelPausedOnOpen = pausedOnOpen\<rparr>"

type_synonym future = "nat + result"

text \<open>A new future: its name, and the channel that has made it.\<close>

definition make_future :: "('dt, 'g, 't) receive_channel \<Rightarrow> nat \<times> ('dt, 'g, 't) receive_channel" where
  "make_future rc = (ch_promises rc, rc\<lparr>ch_promises := ch_promises rc + 1\<rparr>)"

text \<open>\<open>if (d_pair) { d_pair->first(result); d_pair.reset(); }\<close> for the three futures.\<close>

definition resolve_consume :: "result \<Rightarrow> ('dt, 'g, 't) receive_channel \<Rightarrow> ('dt, 'g, 't) receive_channel" where
  "resolve_consume r rc =
     (case rc_consumeFuture rc of None \<Rightarrow> rc | Some p \<Rightarrow> (emit (Ev_resolve p r) rc)\<lparr>rc_consumeFuture := None\<rparr>)"

definition resolve_cancel :: "result \<Rightarrow> ('dt, 'g, 't) receive_channel \<Rightarrow> ('dt, 'g, 't) receive_channel" where
  "resolve_cancel r rc =
     (case rc_cancelFuture rc of None \<Rightarrow> rc | Some p \<Rightarrow> (emit (Ev_resolve p r) rc)\<lparr>rc_cancelFuture := None\<rparr>)"

definition resolve_drain :: "result \<Rightarrow> ('dt, 'g, 't) receive_channel \<Rightarrow> ('dt, 'g, 't) receive_channel" where
  "resolve_drain r rc =
     (case rc_drainFuture rc of None \<Rightarrow> rc | Some p \<Rightarrow> (emit (Ev_resolve p r) rc)\<lparr>rc_drainFuture := None\<rparr>)"

definition ReceiveChannel_lifetimeId :: "('dt, 'g, 't) receive_channel \<Rightarrow> nat" where
  "ReceiveChannel_lifetimeId rc = ms_lifetimeId (rc_messageStore rc)"

definition ReceiveChannel_inFlight :: "('dt, 'g, 't) receive_channel \<Rightarrow> nat" where
  "ReceiveChannel_inFlight rc = store_count (rc_messageStore rc)"

definition consumerIsActive :: "('dt, 'g, 't) receive_channel \<Rightarrow> bool" where
  "consumerIsActive rc \<longleftrightarrow> (case rc_consumer rc of None \<Rightarrow> False | Some c \<Rightarrow> isActive c)"

definition consumerIsPaused :: "('dt, 'g, 't) receive_channel \<Rightarrow> bool" where
  "consumerIsPaused rc \<longleftrightarrow> (case rc_consumer rc of None \<Rightarrow> False | Some c \<Rightarrow> isPaused c)"

definition ReceiveChannel_onOpen :: "('dt, 'g, 't) receive_channel \<Rightarrow> ('dt, 'g, 't) receive_channel" where
  "ReceiveChannel_onOpen rc =
     writeMessage_state
       (Msg_Method (Basic (M_BasicQoS
          \<lparr>qos_prefetchSize = 0, qos_prefetchCount = cc_prefetchCount (rc_consumerConfig rc), qos_global = False\<rparr>)))
       AWAITING_REPLY (emit Ev_timer_reset rc)"

definition ReceiveChannel_onReset :: "('dt, 'g, 't) receive_channel \<Rightarrow> ('dt, 'g, 't) receive_channel" where
  "ReceiveChannel_onReset rc =
     (let rc = rc\<lparr>rc_nextMessage := None,
                  rc_multipleAckHandler := AckHandler_reset (rc_multipleAckHandler rc),
                  ch_trace := ch_trace rc @ map (\<lambda>b. Ev_client (Batch_locked (fst (lock b)))) (rc_ackQueue rc),
                  rc_ackQueue := []\<rparr>;
          rc = (case rc_consumer rc of
                  None \<Rightarrow> rc
                | Some c \<Rightarrow>
                    if isPaused c then rc\<lparr>rc_channelPausedOnOpen := True\<rparr>
                    else if shouldRestart c then rc\<lparr>rc_consumer := Some (Consumer_reset c)\<rparr>
                    else rc\<lparr>rc_consumer := None\<rparr>);
          rc = resolve_consume
                 (Result_error (bstr ''Consume could not be processed by the server, due channel reset'')) rc;
          rc = resolve_cancel
                 (Result_error (bstr ''Cancel could not be processed by the server, due channel reset, however consumer is now in a cancelled state'')) rc in
      resolve_drain (Result_error (bstr ''ReceiveChannel reset before it was Fully Drained'')) rc)"

definition restartConsumers :: "('dt, 'g, 't) receive_channel \<Rightarrow> ('dt, 'g, 't) receive_channel" where
  "restartConsumers rc =
     (case rc_consumer rc of
        None \<Rightarrow> rc
      | Some c \<Rightarrow>
          (case Consumer_consume (rc_consumerConfig rc) c of
             (Some m, c') \<Rightarrow>
               writeMessage_state (Msg_Method (Basic m)) AWAITING_REPLY
                 (emit Ev_timer_reset (rc\<lparr>rc_consumer := Some c'\<rparr>))
           | (None, c') \<Rightarrow> rc\<lparr>rc_consumer := Some c'\<rparr>))"

definition ReceiveChannel_consume ::
  "'dt live_objects \<Rightarrow> handle \<Rightarrow> bytes \<Rightarrow> ('dt, 'g, 't) receive_channel \<Rightarrow>
     (result \<times> ('dt, 'g, 't) receive_channel) option" where
  "ReceiveChannel_consume lv queue consumerTag rc =
     (case lock_queue lv queue of
        None \<Rightarrow> Some (Result_error (bstr ''QueueHandle expired''), rc)
      | Some q \<Rightarrow>
          if rc_consumer rc \<noteq> None then None
          else
            let c = Consumer_new (queue_name q) consumerTag (rc_channelPausedOnOpen rc);
                rc = rc\<lparr>rc_consumer := Some c\<rparr> in
            if isPaused c then Some (Result_ok, rc)
            else if ch_state rc = READY \<or> ch_state rc = AWAITING_REPLY then Some (Result_ok, restartConsumers rc)
            else Some (Result_ok, rc))"

definition failPendingResume :: "bytes \<Rightarrow> ('dt, 'g, 't) receive_channel \<Rightarrow> ('dt, 'g, 't) receive_channel" where
  "failPendingResume reason rc = resolve_consume (Result_error reason) rc"

definition resume :: "('dt, 'g, 't) receive_channel \<Rightarrow> future \<times> ('dt, 'g, 't) receive_channel" where
  "resume rc =
     (if ch_permanentlyClosing rc
      then (Inr (Result_error (bstr ''Resume called on a channel that is permanently closing'')), rc)
      else if (case rc_consumer rc of None \<Rightarrow> False | Some c \<Rightarrow> \<not> shouldRestart c)
      then (Inr (Result_error (bstr ''Resume called with a cancel already in flight'')), rc)
      else case rc_consumeFuture rc of
        Some p \<Rightarrow> (Inl p, rc)
      | None \<Rightarrow>
          (case rc_consumer rc of
             None \<Rightarrow> (Inr (Result_error (bstr ''Resume called with no existing consumer'')),
                        rc\<lparr>rc_channelPausedOnOpen := False\<rparr>)
           | Some c \<Rightarrow>
               if co_state c = CONSUMING \<or> co_state c = STARTING
               then (Inr (Result_error (bstr ''Resume called on unpaused consumer'')), rc)
               else
                 (case make_future (rc\<lparr>rc_channelPausedOnOpen := False\<rparr>) of
                    (p, rc) \<Rightarrow>
                      let rc = rc\<lparr>rc_consumeFuture := Some p\<rparr> in
                      if isPaused c then
                        (if ch_state rc = READY \<or> ch_state rc = AWAITING_REPLY then (Inl p, restartConsumers rc)
                         else (Inl p, rc\<lparr>rc_consumer := Some (Consumer_reset c)\<rparr>))
                      else if co_state c = NOT_CONSUMING \<and> (ch_state rc = READY \<or> ch_state rc = AWAITING_REPLY)
                      then (Inl p, restartConsumers rc)
                      else (Inl p, rc))))"

text \<open>\<open>d_consumer->isPausing()\<close> is called without a test for null when a cancel or pause is in flight.\<close>

definition cancel ::
  "('dt, 'g, 't) receive_channel \<Rightarrow> (future \<times> ('dt, 'g, 't) receive_channel) option" where
  "cancel rc =
     (let rc = failPendingResume (bstr ''Consumer cancelled before it could be started'') rc in
      case rc_cancelFuture rc of
        Some p \<Rightarrow>
          (case rc_consumer rc of
             None \<Rightarrow> None
           | Some c \<Rightarrow>
               if co_state c = PAUSING
               then Some (Inl p, rc\<lparr>rc_consumer := Some (handleCancelAfterPause c)\<rparr>)
               else Some (Inl p, rc))
      | None \<Rightarrow>
          (case rc_consumer rc of
             None \<Rightarrow> Some (Inr (Result_error (bstr ''Cancel called with no active consumer'')), rc)
           | Some c \<Rightarrow>
               if isPaused c then Some (Inr Result_ok, rc\<lparr>rc_consumer := None\<rparr>)
               else if isStarted c then
                 (case make_future rc of
                    (p, rc) \<Rightarrow>
                      (case Consumer_cancel False c of
                         (m, c') \<Rightarrow>
                           let rc = rc\<lparr>rc_cancelFuture := Some p, rc_consumer := Some c'\<rparr> in
                           Some (Inl p, case m of
                              None \<Rightarrow> rc
                            | Some m \<Rightarrow> writeMessage_state (Msg_Method (Basic m)) AWAITING_REPLY rc)))
               else Some (Inr Result_ok, rc\<lparr>rc_consumer := None\<rparr>)))"

definition pause :: "('dt, 'g, 't) receive_channel \<Rightarrow> future \<times> ('dt, 'g, 't) receive_channel" where
  "pause rc =
     (if ch_permanentlyClosing rc
      then (Inr (Result_error (bstr ''Pause called on a channel that is permanently closing'')), rc)
      else if (case rc_consumer rc of None \<Rightarrow> False | Some c \<Rightarrow> \<not> shouldRestart c)
      then (Inr (Result_error (bstr ''Pause called with a cancel already in flight'')), rc)
      else
        let rc = failPendingResume (bstr ''Resume superseded by pause'') (rc\<lparr>rc_channelPausedOnOpen := True\<rparr>) in
        case rc_cancelFuture rc of
          Some p \<Rightarrow> (Inl p, rc)
        | None \<Rightarrow>
            (case rc_consumer rc of
               None \<Rightarrow> (Inr (Result_error (bstr ''Pause called with no active consumer'')), rc)
             | Some c \<Rightarrow>
                 if canPause c then
                   (case Consumer_cancel True c of
                      (m, c') \<Rightarrow>
                        let rc = rc\<lparr>rc_consumer := Some c'\<rparr> in
                        if isPaused c' then (Inr Result_ok, rc)
                        else
                          (case make_future rc of
                             (p, rc) \<Rightarrow>
                               let rc = rc\<lparr>rc_cancelFuture := Some p\<rparr> in
                               (Inl p, case m of
                                  None \<Rightarrow> rc
                                | Some m \<Rightarrow> writeMessage_state (Msg_Method (Basic m)) AWAITING_REPLY rc)))
                 else (Inr (Result_error (bstr ''Pause called on paused consumer'')), rc)))"

definition drain :: "('dt, 'g, 't) receive_channel \<Rightarrow> future \<times> ('dt, 'g, 't) receive_channel" where
  "drain rc =
     (case make_future rc of
        (p, rc) \<Rightarrow>
          (case rc_consumer rc of
             None \<Rightarrow>
               if store_count (rc_messageStore rc) > 0 then (Inl p, rc\<lparr>rc_drainFuture := Some p\<rparr>)
               else (Inr Result_ok, rc)
           | Some _ \<Rightarrow>
               if rc_drainFuture rc = None
               then (Inr (Result_error (bstr ''drain() called, but consumer not cancelled'')), rc)
               else (Inr (Result_error (bstr ''Calling drain() 2x is unsupported'')), rc)))"


definition ReceiveChannel_getMessagesOlderThan ::
  "'t::linorder \<Rightarrow> ('dt, 'g, 't) receive_channel \<Rightarrow> (('dt, 'g) message, 't) message_list" where
  "ReceiveChannel_getMessagesOlderThan cutoffTime rc = getMessagesOlderThan cutoffTime (rc_messageStore rc)"

definition invalidConsumerError :: "bytes \<Rightarrow> ('dt, 'g, 't) receive_channel \<Rightarrow> ('dt, 'g, 't) receive_channel" where
  "invalidConsumerError consumerTag rc = Channel_close NO_CONSUMERS (bstr ''Bad Consumer Tag: '' @ consumerTag) 0 0 rc"

text \<open>\<open>d_consumer && d_consumer->consumerTag() == tag\<close>\<close>

definition consumer_with_tag :: "bytes \<Rightarrow> ('dt, 'g, 't) receive_channel \<Rightarrow> consumer option" where
  "consumer_with_tag tag rc =
     (case rc_consumer rc of None \<Rightarrow> None | Some c \<Rightarrow> if co_tag c = tag then Some c else None)"

text \<open>The cases of \<open>processBasicMethod\<close>.\<close>

definition processDeliver :: "BasicDeliver \<Rightarrow> ('dt, 'g, 't) receive_channel \<Rightarrow> ('dt, 'g, 't) receive_channel" where
  "processDeliver d rc =
     (if rc_nextMessage rc \<noteq> None then Channel_close UNEXPECTED_FRAME (bstr ''Expected Content'') 0 0 rc
      else rc\<lparr>rc_nextMessage := Some d\<rparr>)"

definition processConsumeOk :: "bytes \<Rightarrow> ('dt, 'g, 't) receive_channel \<Rightarrow> ('dt, 'g, 't) receive_channel" where
  "processConsumeOk tag rc =
     (let rc =
        (case consumer_with_tag tag rc of
           Some c \<Rightarrow>
             let rc = emit Ev_timer_cancel rc;
                 rc = (case consumeOk c of
                         (Some m, c') \<Rightarrow>
                           writeMessage_state (Msg_Method (Basic m)) AWAITING_REPLY (rc\<lparr>rc_consumer := Some c'\<rparr>)
                       | (None, c') \<Rightarrow> rc\<lparr>rc_consumer := Some c'\<rparr>) in
             if consumerIsActive rc then resolve_consume Result_ok rc else rc
         | None \<Rightarrow> invalidConsumerError tag rc) in
      if ch_state rc \<noteq> READY \<and> consumerIsActive rc then Channel_ready rc else rc)"

definition processQoSOk :: "('dt, 'g, 't) receive_channel \<Rightarrow> ('dt, 'g, 't) receive_channel" where
  "processQoSOk rc =
     (case rc_consumer rc of
        Some c \<Rightarrow>
          let c = (if rc_channelPausedOnOpen rc \<and> co_state c = NOT_CONSUMING then setPaused c else c);
              rc = rc\<lparr>rc_consumer := Some c\<rparr> in
          if isPaused c then Channel_ready (emit Ev_timer_cancel rc)
          else if co_state c = NOT_CONSUMING then restartConsumers rc
          else rc
      | None \<Rightarrow> Channel_ready rc)"

definition processCancel :: "bytes \<Rightarrow> ('dt, 'g, 't) receive_channel \<Rightarrow> ('dt, 'g, 't) receive_channel" where
  "processCancel tag rc =
     (case consumer_with_tag tag rc of
        Some _ \<Rightarrow> Channel_close REPLY_SUCCESS (bstr ''Closing Channel due to consumer cancel'') 0 0 rc
      | None \<Rightarrow> invalidConsumerError tag rc)"

definition processCancelOk :: "bytes \<Rightarrow> ('dt, 'g, 't) receive_channel \<Rightarrow> ('dt, 'g, 't) receive_channel" where
  "processCancelOk tag rc =
     (case consumer_with_tag tag rc of
        Some c \<Rightarrow>
          let c = cancelOk c;
              resumeRequested = (isPaused c \<and> \<not> rc_channelPausedOnOpen rc);
              rc = rc\<lparr>rc_consumer := (if isPaused c then Some c else None)\<rparr>;
              rc = (if resumeRequested then rc
                    else resolve_consume (Result_error (bstr ''Consumer cancelled before it could be started'')) rc);
              rc = resolve_cancel (if resumeRequested then Result_error (bstr ''Pause superseded by resume'')
                                   else Result_ok) rc;
              rc = Channel_ready rc in
          if resumeRequested then restartConsumers rc else rc
      | None \<Rightarrow> invalidConsumerError tag rc)"

definition ReceiveChannel_processBasicMethod ::
  "'dt BasicMethod \<Rightarrow> ('dt, 'g, 't) receive_channel \<Rightarrow> ('dt, 'g, 't) receive_channel" where
  "ReceiveChannel_processBasicMethod basic rc =
     (case basic of
        M_BasicDeliver d \<Rightarrow> processDeliver d rc
      | M_BasicConsumeOk c \<Rightarrow> processConsumeOk (consumeOk_consumerTag c) rc
      | M_BasicQoSOk \<Rightarrow> processQoSOk rc
      | M_BasicCancel c \<Rightarrow> processCancel (cancel_consumerTag c) rc
      | M_BasicCancelOk c \<Rightarrow> processCancelOk (cancelOk_consumerTag c) rc
      | _ \<Rightarrow> rc)"

text \<open>\<open>Consumer::process\<close>: the callback for a new message.\<close>

definition Consumer_process ::
  "('dt, 'g) message \<Rightarrow> BasicDeliver \<Rightarrow> nat \<Rightarrow> ('dt, 'g, 't) receive_channel \<Rightarrow> ('dt, 'g, 't) receive_channel" where
  "Consumer_process msg d lifetimeId rc =
     emit (Ev_client (Deliver_callback msg
       \<lparr>en_deliveryTag = deliver_deliveryTag d, en_channelLifetimeId = lifetimeId,
        en_consumerTag = deliver_consumerTag d, en_exchange = deliver_exchange d,
        en_routingKey = deliver_routingKey d, en_redelivered = deliver_redelivered d\<rparr>)) rc"

definition ReceiveChannel_processMessage ::
  "'t \<Rightarrow> ('dt, 'g) message \<Rightarrow> ('dt, 'g, 't) receive_channel \<Rightarrow> ('dt, 'g, 't) receive_channel" where
  "ReceiveChannel_processMessage now message rc =
     (case rc_nextMessage rc of
        None \<Rightarrow> Channel_close UNEXPECTED_FRAME (bstr ''Expected BasicDeliver'') 0 0 rc
      | Some d \<Rightarrow>
          (case store_insert msg_guid now (deliver_deliveryTag d) message (rc_messageStore rc) of
             (False, store) \<Rightarrow>
               Channel_close NOT_ALLOWED (bstr ''Duplicate DeliveryTag'') 0 0 (rc\<lparr>rc_messageStore := store\<rparr>)
           | (True, store) \<Rightarrow>
               let rc = rc\<lparr>rc_messageStore := store\<rparr> in
               (case consumer_with_tag (deliver_consumerTag d) rc of
                  Some _ \<Rightarrow> (Consumer_process message d (ReceiveChannel_lifetimeId rc) rc)\<lparr>rc_nextMessage := None\<rparr>
                | None \<Rightarrow> Channel_close NOT_FOUND (bstr ''Invalid ConsumerTag'') 0 0 rc)))"

definition removeSingleMessageFromStore ::
  "u64 \<Rightarrow> ('dt, 'g, 't) receive_channel \<Rightarrow> ('dt, 'g, 't) receive_channel" where
  "removeSingleMessageFromStore deliveryTag rc =
     rc\<lparr>rc_messageStore := snd (store_remove msg_guid deliveryTag (rc_messageStore rc))\<rparr>"

definition removeMultipleMessagesFromStore ::
  "u64 \<Rightarrow> ('dt, 'g, 't) receive_channel \<Rightarrow> ('dt, 'g, 't) receive_channel" where
  "removeMultipleMessagesFromStore deliveryTag rc =
     rc\<lparr>rc_messageStore := snd (store_removeUntil msg_guid deliveryTag (rc_messageStore rc))\<rparr>"

text \<open>The drain future is resolved here but not dropped.\<close>

definition removeMessagesFromStore ::
  "u64 \<Rightarrow> bool \<Rightarrow> ('dt, 'g, 't) receive_channel \<Rightarrow> ('dt, 'g, 't) receive_channel" where
  "removeMessagesFromStore deliveryTag multiple rc =
     (let rc = (if multiple then removeMultipleMessagesFromStore deliveryTag rc
                else removeSingleMessageFromStore deliveryTag rc) in
      case rc_drainFuture rc of
        Some p \<Rightarrow> if store_count (rc_messageStore rc) = 0 then emit (Ev_resolve p Result_ok) rc else rc
      | None \<Rightarrow> rc)"

definition sendAckOrNack ::
  "'dt BasicMethod \<Rightarrow> u64 \<Rightarrow> bool \<Rightarrow> ('dt, 'g, 't) receive_channel \<Rightarrow> ('dt, 'g, 't) receive_channel" where
  "sendAckOrNack basicMethod deliveryTag multiple rc =
     writeMessage (Msg_Method (Basic basicMethod)) (WC_removeMessages deliveryTag multiple) rc"

definition ReceiveChannel_sendAck ::
  "u64 \<Rightarrow> bool \<Rightarrow> ('dt, 'g, 't) receive_channel \<Rightarrow> ('dt, 'g, 't) receive_channel" where
  "ReceiveChannel_sendAck deliveryTag multiple rc =
     sendAckOrNack (M_BasicAck \<lparr>ack_deliveryTag = deliveryTag, ack_multiple = multiple\<rparr>) deliveryTag multiple rc"

definition ReceiveChannel_sendNack ::
  "u64 \<Rightarrow> bool \<Rightarrow> bool \<Rightarrow> ('dt, 'g, 't) receive_channel \<Rightarrow> ('dt, 'g, 't) receive_channel" where
  "ReceiveChannel_sendNack deliveryTag requeue multiple rc =
     sendAckOrNack
       (M_BasicNack \<lparr>nack_deliveryTag = deliveryTag, nack_requeue = requeue, nack_multiple = multiple\<rparr>)
       deliveryTag multiple rc"

text \<open>The two callbacks the handler of multiple acknowledgements is made with.\<close>

fun send_call :: "broker_call \<Rightarrow> ('dt, 'g, 't) receive_channel \<Rightarrow> ('dt, 'g, 't) receive_channel" where
  "send_call (Call_Ack t multiple) rc = ReceiveChannel_sendAck t multiple rc"
| "send_call (Call_Nack t requeue multiple) rc = ReceiveChannel_sendNack t requeue multiple rc"

definition ack_of :: "enveloped_ack \<Rightarrow> consumer_ack" where
  "ack_of a = (en_deliveryTag (fst a), snd a)"

definition consumeAckBatchFromQueue :: "('dt, 'g, 't) receive_channel \<Rightarrow> ('dt, 'g, 't) receive_channel" where
  "consumeAckBatchFromQueue rc =
     (case rc_ackQueue rc of
        [] \<Rightarrow> rc
      | batch # q \<Rightarrow>
          let acks = fst (lock batch);
              rc = emit (Ev_client (Batch_locked acks)) (rc\<lparr>rc_ackQueue := q\<rparr>) in
          if ch_state rc = CHANNEL_CLOSE_SENT \<or> ch_state rc = CLOSED then rc
          else
            let valid = filter (\<lambda>a. en_channelLifetimeId (fst a) = ReceiveChannel_lifetimeId rc) acks in
            (case process (rc_multipleAckHandler rc) (map ack_of valid) of
               (calls, h) \<Rightarrow> fold send_call calls (rc\<lparr>rc_multipleAckHandler := h\<rparr>)))"

definition ReceiveChannel_processFailures :: "('dt, 'g, 't) receive_channel \<Rightarrow> ('dt, 'g, 't) receive_channel" where
  "ReceiveChannel_processFailures rc =
     rc\<lparr>rc_messageStore := fst (store_swap (rc_messageStore rc) MessageStore_new)\<rparr>"

definition ReceiveChannel_destroy :: "('dt, 'g, 't) receive_channel \<Rightarrow> ('dt, 'g, 't) receive_channel" where
  "ReceiveChannel_destroy rc =
     (let rc = resolve_consume
                 (Result_error (bstr ''ReceiveChannel Shut Down Before ConsumeOk Received, consumer not started'')) rc;
          rc = resolve_cancel
                 (Result_error (bstr ''ReceiveChannel Shut Down Before CancelOk Received, outstanding Acks/Nacks will not be processed'')) rc in
      resolve_drain
        (Result_error (bstr ''ReceiveChannel Shut Down Before Fully Drained (outstanding messages that should have been acked weren't'')) rc)"

definition ReceiveChannel_vt :: "'t \<Rightarrow> ('dt, 'g, ('dt, 'g, 't) receive_channel) channel_vt" where
  "ReceiveChannel_vt now =
     \<lparr>vt_processBasicMethod = ReceiveChannel_processBasicMethod,
      vt_processConfirmMethod = vt_processConfirmMethod Channel_vt,
      vt_processMessage = ReceiveChannel_processMessage now,
      vt_onOpen = ReceiveChannel_onOpen, vt_onReset = ReceiveChannel_onReset,
      vt_onFlowAllowed = vt_onFlowAllowed Channel_vt,
      vt_processFailures = ReceiveChannel_processFailures\<rparr>"

section \<open>What can happen to a receive channel\<close>

datatype ('dt, 'g) receive_input =
    RI_open
  | RI_reset bool
  | RI_received "'dt live_objects" "('dt, 'g) amqp_message"
  | RI_writeComplete write_callback
  | RI_gracefulClose
  | RI_hung interrupt_reason
  | RI_updateTopology "'dt live_objects" "'dt topology_update"
  | RI_waitForReady
  | RI_consume "'dt live_objects" handle bytes
  | RI_resume
  | RI_cancel
  | RI_pause
  | RI_drain
  | RI_queueAcks "enveloped_ack ack_batch"
  | RI_consumeAcks

fun write_completed :: "'t \<Rightarrow> write_callback \<Rightarrow> ('dt, 'g, 't) receive_channel \<Rightarrow> ('dt, 'g, 't) receive_channel" where
  "write_completed now WC_noop rc = rc"
| "write_completed now WC_onWriteComplete rc = onWriteComplete (ReceiveChannel_vt now) rc"
| "write_completed now (WC_removeMessages t multiple) rc = removeMessagesFromStore t multiple rc"

text \<open>A step and the pending future that \<open>resume\<close>, \<open>cancel\<close> and \<open>pause\<close> hand out. \<open>None\<close>: undefined behaviour or
  a failed assertion.\<close>

definition pending :: "future \<times> 'c \<Rightarrow> nat option \<times> 'c" where
  "pending r = (case r of (Inl p, c) \<Rightarrow> (Some p, c) | (Inr _, c) \<Rightarrow> (None, c))"

fun receive_step ::
  "'t \<Rightarrow> ('dt, 'g) receive_input \<Rightarrow> ('dt, 'g, 't) receive_channel \<Rightarrow>
     (nat option \<times> ('dt, 'g, 't) receive_channel) option" where
  "receive_step now RI_open rc = Some (None, Channel_open rc)"
| "receive_step now (RI_reset b) rc = Some (None, snd (Channel_reset (ReceiveChannel_vt now) b rc))"
| "receive_step now (RI_received lv msg) rc =
     Some (None, snd (Channel_processReceived (ReceiveChannel_vt now) lv msg rc))"
| "receive_step now (RI_writeComplete cb) rc = Some (None, write_completed now cb rc)"
| "receive_step now RI_gracefulClose rc = Some (None, Channel_gracefulClose rc)"
| "receive_step now (RI_hung reason) rc = Some (None, channelHung reason rc)"
| "receive_step now (RI_updateTopology lv u) rc = Some (None, snd (updateTopology lv u rc))"
| "receive_step now RI_waitForReady rc = Some (None, snd (waitForReady rc))"
| "receive_step now (RI_consume lv q tag) rc = map_option (\<lambda>(r, rc'). (None, rc')) (ReceiveChannel_consume lv q tag rc)"
| "receive_step now RI_resume rc = Some (pending (resume rc))"
| "receive_step now RI_cancel rc = map_option pending (cancel rc)"
| "receive_step now RI_pause rc = Some (pending (pause rc))"
| "receive_step now RI_drain rc = Some (None, snd (drain rc))"
| "receive_step now (RI_queueAcks b) rc = Some (None, rc\<lparr>rc_ackQueue := rc_ackQueue rc @ [b]\<rparr>)"
| "receive_step now RI_consumeAcks rc = Some (None, consumeAckBatchFromQueue rc)"

text \<open>A run, with the futures it handed out.\<close>

fun receive_run ::
  "('t \<times> ('dt, 'g) receive_input) list \<Rightarrow> ('dt, 'g, 't) receive_channel \<Rightarrow>
     (nat set \<times> ('dt, 'g, 't) receive_channel) option" where
  "receive_run [] rc = Some ({}, rc)"
| "receive_run ((now, i) # is) rc =
     (case receive_step now i rc of
        None \<Rightarrow> None
      | Some (p, rc') \<Rightarrow>
          (case receive_run is rc' of None \<Rightarrow> None | Some (ps, rc'') \<Rightarrow> Some (set_option p \<union> ps, rc'')))"


definition resolved :: "('dt, 'g, 't) receive_channel \<Rightarrow> nat set" where
  "resolved rc = {p. \<exists>r. Ev_resolve p r \<in> set (ch_trace rc)}"

definition deliveries :: "('dt, 'g, 't) receive_channel \<Rightarrow> envelope set" where
  "deliveries rc = {e. \<exists>m. Ev_client (Deliver_callback m e) \<in> set (ch_trace rc)}"

text \<open>How the consumer's state and the futures of the channel belong together.\<close>

definition consumer_ok :: "consumer option \<Rightarrow> nat option \<Rightarrow> nat option \<Rightarrow> bool \<Rightarrow> bool" where
  "consumer_ok c cons canc paused \<longleftrightarrow>
     (canc \<noteq> None \<longleftrightarrow> (\<exists>x. c = Some x \<and> (co_state x = PAUSING \<or> co_state x = CANCELLING))) \<and>
     (cons \<noteq> None \<longrightarrow> \<not> paused \<and>
        (\<exists>x. c = Some x \<and> (co_state x = NOT_CONSUMING \<or> co_state x = STARTING \<or> co_state x = PAUSING))) \<and>
     (\<forall>x. c = Some x \<longrightarrow> co_state x \<noteq> CANCELLED \<and> (co_state x = PAUSED \<longrightarrow> paused))"

definition futures_ok :: "nat set \<Rightarrow> ('dt, 'g, 't) receive_channel \<Rightarrow> bool" where
  "futures_ok ps rc \<longleftrightarrow> ps \<subseteq> resolved rc \<union> set_option (rc_consumeFuture rc) \<union> set_option (rc_cancelFuture rc)"

definition store_ok :: "nat \<Rightarrow> ('dt, 'g, 't) receive_channel \<Rightarrow> bool" where
  "store_ok L rc \<longleftrightarrow>
     store_inv msg_guid (rc_messageStore rc) \<and> L \<le> ReceiveChannel_lifetimeId rc \<and>
     (\<forall>e \<in> deliveries rc. en_channelLifetimeId e \<le> ReceiveChannel_lifetimeId rc)"

definition recv_inv :: "nat \<Rightarrow> nat set \<Rightarrow> ('dt, 'g, 't) receive_channel \<Rightarrow> bool" where
  "recv_inv L ps rc \<longleftrightarrow>
     consumer_ok (rc_consumer rc) (rc_consumeFuture rc) (rc_cancelFuture rc) (rc_channelPausedOnOpen rc) \<and>
     futures_ok ps rc \<and> store_ok L rc"

text \<open>The acknowledgements written and the callbacks of the writes, read off the trace.\<close>

fun call_of :: "('dt, 'g, 'e) channel_event \<Rightarrow> broker_call list" where
  "call_of (Ev_write (Msg_Method (Basic (M_BasicAck a))) cb) = [Call_Ack (ack_deliveryTag a) (ack_multiple a)]"
| "call_of (Ev_write (Msg_Method (Basic (M_BasicNack n))) cb) =
     [Call_Nack (nack_deliveryTag n) (nack_requeue n) (nack_multiple n)]"
| "call_of _ = []"

fun callback_of :: "('dt, 'g, 'e) channel_event \<Rightarrow> write_callback list" where
  "callback_of (Ev_write m cb) = [cb]"
| "callback_of _ = []"

definition broker_calls :: "('dt, 'g, 'e) channel_event list \<Rightarrow> broker_call list" where
  "broker_calls tr = concat (map call_of tr)"

definition callbacks :: "('dt, 'g, 'e) channel_event list \<Rightarrow> write_callback list" where
  "callbacks tr = concat (map callback_of tr)"

definition store_tags :: "('dt, 'g, 't) receive_channel \<Rightarrow> u64 set" where
  "store_tags rc = dom (store_abs (rc_messageStore rc))"

text \<open>The acknowledgements of a batch for the current lifetime of the channel.\<close>

definition current_acks :: "('dt, 'g, 't) receive_channel \<Rightarrow> enveloped_ack ack_batch \<Rightarrow> consumer_ack list" where
  "current_acks rc b =
     map ack_of (filter (\<lambda>a. en_channelLifetimeId (fst a) = ReceiveChannel_lifetimeId rc) (ab_acks b))"

fun ack_event :: "broker_call \<Rightarrow> ('dt, 'g, 'e) channel_event" where
  "ack_event (Call_Ack t m) = Ev_write (Msg_Method (Basic (M_BasicAck \<lparr>ack_deliveryTag = t, ack_multiple = m\<rparr>)))
     (WC_removeMessages t m)"
| "ack_event (Call_Nack t r m) =
     Ev_write (Msg_Method (Basic (M_BasicNack \<lparr>nack_deliveryTag = t, nack_requeue = r, nack_multiple = m\<rparr>)))
     (WC_removeMessages t m)"

definition sample_content :: "(nat, nat) message" where
  "sample_content = \<lparr>msg_guid = 7, msg_rawData = Some [1, 2], msg_properties = empty_properties\<rparr>"

definition sample_config :: consumer_config where
  "sample_config = \<lparr>cc_prefetchCount = 1, cc_exclusive = False, cc_consumerPriority = None\<rparr>"

definition sample_envelope :: envelope where
  "sample_envelope = \<lparr>en_deliveryTag = 1, en_channelLifetimeId = 0, en_consumerTag = bstr ''c'', en_exchange = [],
     en_routingKey = [], en_redelivered = False\<rparr>"

text \<open>A channel with one delivery outstanding and the acknowledgement of it in the queue.\<close>

definition sample_delivery :: "(nat, nat, nat) receive_channel" where
  "sample_delivery =
     (ReceiveChannel_new empty_topology sample_config False)
       \<lparr>ch_state := READY, rc_consumer := Some \<lparr>co_state = CONSUMING, co_tag = bstr ''c'', co_queueName = bstr ''q''\<rparr>,
        rc_messageStore := snd (store_insert msg_guid 0 1 sample_content MessageStore_new),
        rc_ackQueue := [\<lparr>ab_locked = False, ab_acks = [(sample_envelope, ACK)]\<rparr>]\<rparr>"

text \<open>A channel that opens, starts to consume and gets a message; then it pauses, or it cancels.\<close>

definition sample_receive_channel :: "(nat, nat, nat) receive_channel" where
  "sample_receive_channel = ReceiveChannel_new empty_topology sample_config False"

definition received_basic :: "nat BasicMethod \<Rightarrow> nat \<times> (nat, nat) receive_input" where
  "received_basic m = (0, RI_received sample_live (Msg_Method (Basic m)))"

definition sample_consuming :: "(nat \<times> (nat, nat) receive_input) list" where
  "sample_consuming =
     [(0, RI_open), (0, RI_received sample_live (Msg_Method (Channel M_ChannelOpenOk))),
      received_basic M_BasicQoSOk, (0, RI_consume sample_live 0 (bstr ''c'')),
      received_basic (M_BasicConsumeOk \<lparr>consumeOk_consumerTag = bstr ''c''\<rparr>),
      received_basic (M_BasicDeliver \<lparr>deliver_consumerTag = bstr ''c'', deliver_deliveryTag = 1,
        deliver_redelivered = False, deliver_exchange = [], deliver_routingKey = []\<rparr>),
      (0, RI_received sample_live (Msg_Content sample_content))]"

definition sample_pausing :: "(nat \<times> (nat, nat) receive_input) list" where
  "sample_pausing = sample_consuming @ [(0, RI_pause)]"

definition sample_cancelled :: "(nat \<times> (nat, nat) receive_input) list" where
  "sample_cancelled =
     sample_consuming @ [(0, RI_cancel), received_basic (M_BasicCancelOk \<lparr>cancelOk_consumerTag = bstr ''c''\<rparr>)]"

section \<open>The base class keeps the members of the derived class\<close>

lemma emit_members [simp]:
  "rc_consumerConfig (emit e rc) = rc_consumerConfig rc" "rc_consumer (emit e rc) = rc_consumer rc"
  "rc_nextMessage (emit e rc) = rc_nextMessage rc" "rc_messageStore (emit e rc) = rc_messageStore rc"
  "rc_ackQueue (emit e rc) = rc_ackQueue rc" "rc_multipleAckHandler (emit e rc) = rc_multipleAckHandler rc"
  "rc_consumeFuture (emit e rc) = rc_consumeFuture rc" "rc_cancelFuture (emit e rc) = rc_cancelFuture rc"
  "rc_drainFuture (emit e rc) = rc_drainFuture rc"
  "rc_channelPausedOnOpen (emit e rc) = rc_channelPausedOnOpen rc"
  by (simp_all add: emit_def)

lemma ready_members [simp]:
  "rc_consumerConfig (Channel_ready rc) = rc_consumerConfig rc" "rc_consumer (Channel_ready rc) = rc_consumer rc"
  "rc_messageStore (Channel_ready rc) = rc_messageStore rc"
  "rc_consumeFuture (Channel_ready rc) = rc_consumeFuture rc"
  "rc_cancelFuture (Channel_ready rc) = rc_cancelFuture rc"
  "rc_channelPausedOnOpen (Channel_ready rc) = rc_channelPausedOnOpen rc"
  by (simp_all add: Channel_ready_def emit_def Let_def)

lemma write_members [simp]:
  "rc_consumerConfig (writeMessage_state m s rc) = rc_consumerConfig rc"
  "rc_consumer (writeMessage_state m s rc) = rc_consumer rc"
  "rc_messageStore (writeMessage_state m s rc) = rc_messageStore rc"
  "rc_consumeFuture (writeMessage_state m s rc) = rc_consumeFuture rc"
  "rc_cancelFuture (writeMessage_state m s rc) = rc_cancelFuture rc"
  "rc_channelPausedOnOpen (writeMessage_state m s rc) = rc_channelPausedOnOpen rc"
  by (simp_all add: writeMessage_state_def updateState_def)

lemma resolved_emit [simp]:
  "resolved (emit e rc) = (case e of Ev_resolve p r \<Rightarrow> insert p (resolved rc) | _ \<Rightarrow> resolved rc)"
  by (auto simp: resolved_def emit_def split: channel_event.splits)

lemma deliveries_emit [simp]:
  "deliveries (emit e rc) = (case e of Ev_client (Deliver_callback m x) \<Rightarrow> insert x (deliveries rc) | _ \<Rightarrow> deliveries rc)"
  by (auto simp: deliveries_def emit_def split: channel_event.splits receive_event.splits)

lemma observe_members [simp]:
  "resolved (rc\<lparr>rc_consumer := c\<rparr>) = resolved rc" "deliveries (rc\<lparr>rc_consumer := c\<rparr>) = deliveries rc"
  "resolved (rc\<lparr>rc_consumeFuture := f\<rparr>) = resolved rc" "deliveries (rc\<lparr>rc_consumeFuture := f\<rparr>) = deliveries rc"
  "resolved (rc\<lparr>rc_cancelFuture := f\<rparr>) = resolved rc" "deliveries (rc\<lparr>rc_cancelFuture := f\<rparr>) = deliveries rc"
  "resolved (rc\<lparr>rc_drainFuture := f\<rparr>) = resolved rc" "deliveries (rc\<lparr>rc_drainFuture := f\<rparr>) = deliveries rc"
  "resolved (rc\<lparr>rc_channelPausedOnOpen := b\<rparr>) = resolved rc"
  "deliveries (rc\<lparr>rc_channelPausedOnOpen := b\<rparr>) = deliveries rc"
  "resolved (rc\<lparr>rc_messageStore := st\<rparr>) = resolved rc" "deliveries (rc\<lparr>rc_messageStore := st\<rparr>) = deliveries rc"
  "resolved (rc\<lparr>rc_nextMessage := d\<rparr>) = resolved rc" "deliveries (rc\<lparr>rc_nextMessage := d\<rparr>) = deliveries rc"
  "resolved (rc\<lparr>rc_multipleAckHandler := h\<rparr>) = resolved rc"
  "deliveries (rc\<lparr>rc_multipleAckHandler := h\<rparr>) = deliveries rc"
  "resolved (rc\<lparr>rc_ackQueue := q\<rparr>) = resolved rc" "deliveries (rc\<lparr>rc_ackQueue := q\<rparr>) = deliveries rc"
  "resolved (rc\<lparr>ch_state := s\<rparr>) = resolved rc" "deliveries (rc\<lparr>ch_state := s\<rparr>) = deliveries rc"
  "resolved (rc\<lparr>ch_promises := n\<rparr>) = resolved rc" "deliveries (rc\<lparr>ch_promises := n\<rparr>) = deliveries rc"
  by (simp_all add: resolved_def deliveries_def)

lemma observe_ready [simp]:
  "resolved (Channel_ready rc) = resolved rc \<union> set (ch_readyMade rc)" "deliveries (Channel_ready rc) = deliveries rc"
  by (auto simp: resolved_def deliveries_def Channel_ready_def emit_def Let_def)

lemma observe_write [simp]:
  "s \<noteq> READY \<Longrightarrow> resolved (writeMessage_state m s rc) = resolved rc"
  "deliveries (writeMessage_state m s rc) = deliveries rc"
  by (simp_all add: writeMessage_state_def updateState_def)

section \<open>The invariant\<close>

lemma recv_inv_base:
  "recv_inv L ps (rc\<lparr>ch_flow := f\<rparr>) = recv_inv L ps rc"
  "recv_inv L ps (rc\<lparr>ch_state := s\<rparr>) = recv_inv L ps rc"
  "recv_inv L ps (rc\<lparr>ch_topology := t\<rparr>) = recv_inv L ps rc"
  "recv_inv L ps (rc\<lparr>ch_topologyTransformer := tt\<rparr>) = recv_inv L ps rc"
  "recv_inv L ps (rc\<lparr>ch_topologyCallback := cb\<rparr>) = recv_inv L ps rc"
  "recv_inv L ps (rc\<lparr>ch_updateQueue := q\<rparr>) = recv_inv L ps rc"
  "recv_inv L ps (rc\<lparr>ch_permanentlyClosing := b\<rparr>) = recv_inv L ps rc"
  "recv_inv L ps (rc\<lparr>ch_readyMade := rm\<rparr>) = recv_inv L ps rc"
  "recv_inv L ps (rc\<lparr>ch_promises := p\<rparr>) = recv_inv L ps rc"
  "recv_inv L ps (rc\<lparr>rc_ackQueue := aq\<rparr>) = recv_inv L ps rc"
  "recv_inv L ps (rc\<lparr>rc_nextMessage := d\<rparr>) = recv_inv L ps rc"
  "recv_inv L ps (rc\<lparr>rc_multipleAckHandler := h\<rparr>) = recv_inv L ps rc"
  "recv_inv L ps (rc\<lparr>rc_drainFuture := dr\<rparr>) = recv_inv L ps rc"
  by (simp_all add: recv_inv_def futures_ok_def store_ok_def resolved_def deliveries_def ReceiveChannel_lifetimeId_def)

lemma recv_inv_emit:
  assumes "recv_inv L ps rc" and "\<And>m x. e \<noteq> Ev_client (Deliver_callback m x)"
  shows "recv_inv L ps (emit e rc)"
  using assms
  by (cases e) (auto simp: recv_inv_def futures_ok_def store_ok_def ReceiveChannel_lifetimeId_def
      split: receive_event.splits)

lemma recv_inv_base_event: "recv_inv L ps rc \<Longrightarrow> base_event e \<Longrightarrow> recv_inv L ps (emit e rc)"
  by (rule recv_inv_emit) auto

interpretation rc_members: channel_members "recv_inv L ps" for L ps
  by unfold_locales (simp_all add: recv_inv_base recv_inv_base_event)

lemma recv_inv_write: "recv_inv L ps rc \<Longrightarrow> recv_inv L ps (writeMessage_state m s rc)"
  by (simp add: writeMessage_state_def recv_inv_emit rc_members.inv_updateState)

lemmas recv_inv_simps = recv_inv_def futures_ok_def store_ok_def ReceiveChannel_lifetimeId_def consumer_ok_def
  resolve_consume_def resolve_cancel_def resolve_drain_def make_future_def

lemma consumer_state_order [simp]:
  "s < CANCELLING \<longleftrightarrow> s \<noteq> CANCELLING \<and> s \<noteq> CANCELLED" "s \<le> CONSUMING \<longleftrightarrow> s = NOT_CONSUMING \<or> s = STARTING \<or> s = CONSUMING"
  by (cases s; simp add: less_consumer_state_def less_eq_consumer_state_def)+

lemmas consumer_defs = Consumer_new_def Consumer_consume_def Consumer_cancel_def Consumer_reset_def cancelOk_def
  consumeOk_def handleCancelAfterPause_def setPaused_def isPaused_def isStarted_def isActive_def shouldRestart_def
  canPause_def

lemma recv_inv_restart:
  "recv_inv L ps rc \<Longrightarrow> recv_inv L ps (restartConsumers rc)"
  by (auto simp: restartConsumers_def Consumer_consume_def recv_inv_simps split: option.splits)

lemma recv_inv_consume:
  "recv_inv L ps rc \<Longrightarrow> ReceiveChannel_consume lv q tag rc = Some (r, rc') \<Longrightarrow> recv_inv L ps rc'"
  by (auto simp: ReceiveChannel_consume_def consumer_defs restartConsumers_def recv_inv_simps Let_def
      split: option.splits if_splits)

lemma recv_inv_resume:
  assumes inv: "recv_inv L ps rc"
  shows "recv_inv L (set_option (fst (pending (resume rc))) \<union> ps) (snd (pending (resume rc)))"
proof (cases "rc_consumeFuture rc")
  case None
  show ?thesis
  proof (cases "rc_consumer rc")
    case (Some c)
    then show ?thesis
      using inv None
      by (cases "co_state c") (auto simp: resume_def pending_def consumer_defs recv_inv_simps restartConsumers_def Let_def)
  qed (use inv None in \<open>auto simp: resume_def pending_def recv_inv_simps\<close>)
next
  case (Some p)
  then show ?thesis
    using inv by (auto simp: resume_def pending_def recv_inv_simps split: option.splits)
qed

text \<open>Failing a pending resume gives up the future for it, with nothing else changed.\<close>

lemma recv_inv_failPendingResume:
  assumes "recv_inv L ps rc"
  shows "recv_inv L ps (failPendingResume reason rc)" "rc_consumeFuture (failPendingResume reason rc) = None"
    "rc_consumer (failPendingResume reason rc) = rc_consumer rc"
    "rc_cancelFuture (failPendingResume reason rc) = rc_cancelFuture rc"
    "rc_channelPausedOnOpen (failPendingResume reason rc) = rc_channelPausedOnOpen rc"
  using assms by (auto simp: failPendingResume_def recv_inv_simps split: option.splits)

lemma cancel_defined:
  assumes "recv_inv L ps rc"
  shows "cancel rc \<noteq> None"
  using recv_inv_failPendingResume [OF assms] assms
  by (auto simp: cancel_def recv_inv_def consumer_ok_def Let_def make_future_def split: option.splits prod.splits)

text \<open>What \<open>cancel\<close> and \<open>pause\<close> share: a new future for the answer to the cancellation.\<close>

lemma recv_inv_new_cancel:
  assumes "recv_inv L ps rc" and "rc_consumeFuture rc = None" and "rc_cancelFuture rc = None"
    and "co_state c' = PAUSING \<or> co_state c' = CANCELLING"
  shows "recv_inv L (insert p ps) (rc\<lparr>ch_promises := n, rc_cancelFuture := Some p, rc_consumer := Some c'\<rparr>)"
  using assms by (auto simp: recv_inv_simps)

lemma recv_inv_cancel:
  assumes inv: "recv_inv L ps rc" and "cancel rc = Some f"
  shows "recv_inv L (set_option (fst (pending f)) \<union> ps) (snd (pending f))"
proof -
  define rc1 where "rc1 = failPendingResume (bstr ''Consumer cancelled before it could be started'') rc"
  have rc1: "recv_inv L ps rc1" "rc_consumeFuture rc1 = None"
    using recv_inv_failPendingResume [OF inv] by (simp_all add: rc1_def)
  note c = assms(2) [unfolded cancel_def Let_def, folded rc1_def]
  show ?thesis
    using c rc1
    by (auto simp: pending_def consumer_defs recv_inv_simps split: option.splits if_splits)
qed

lemma recv_inv_pause:
  assumes inv: "recv_inv L ps rc"
  shows "recv_inv L (set_option (fst (pending (pause rc))) \<union> ps) (snd (pending (pause rc)))"
proof (cases "ch_permanentlyClosing rc \<or> (case rc_consumer rc of None \<Rightarrow> False | Some c \<Rightarrow> \<not> shouldRestart c)")
  case True
  then show ?thesis
    using inv by (auto simp: pause_def pending_def split: option.splits)
next
  case False
  define rc1 where
    "rc1 = failPendingResume (bstr ''Resume superseded by pause'') (rc\<lparr>rc_channelPausedOnOpen := True\<rparr>)"
  have rc1: "recv_inv L ps rc1" "rc_consumeFuture rc1 = None" "rc_channelPausedOnOpen rc1" 
    "rc_consumer rc1 = rc_consumer rc" "rc_cancelFuture rc1 = rc_cancelFuture rc"
    using inv by (auto simp: rc1_def failPendingResume_def recv_inv_simps split: option.splits)
  then show ?thesis
    using False
    by (auto simp: pause_def Let_def rc1_def [symmetric] pending_def consumer_defs recv_inv_simps split: option.splits if_splits)
qed

lemma recv_inv_drain: "recv_inv L ps rc \<Longrightarrow> recv_inv L ps (snd (drain rc))"
  by (auto simp: drain_def make_future_def recv_inv_base split: option.splits)

lemma recv_inv_store:
  "recv_inv L ps rc \<Longrightarrow> store_inv msg_guid st \<Longrightarrow> ms_lifetimeId (rc_messageStore rc) \<le> ms_lifetimeId st \<Longrightarrow>
     recv_inv L ps (rc\<lparr>rc_messageStore := st\<rparr>)"
  by (fastforce simp: recv_inv_def futures_ok_def store_ok_def ReceiveChannel_lifetimeId_def)

lemma store_lifetime [simp]:
  "ms_lifetimeId (snd (store_insert guid now t m st)) = ms_lifetimeId st"
  "ms_lifetimeId (snd (store_remove guid t st)) = ms_lifetimeId st"
  "ms_lifetimeId (snd (store_removeUntil guid t st)) = ms_lifetimeId st"
  by (auto simp: store_insert_def store_remove_def store_removeUntil_def split: option.splits prod.splits bool.splits)

lemma recv_inv_stored: "recv_inv L ps rc \<Longrightarrow> store_inv msg_guid (rc_messageStore rc)"
  by (simp add: recv_inv_def store_ok_def)

lemma recv_inv_removeMessages: "recv_inv L ps rc \<Longrightarrow> recv_inv L ps (removeMessagesFromStore t m rc)"
  by (auto simp: removeMessagesFromStore_def removeSingleMessageFromStore_def removeMultipleMessagesFromStore_def
      Let_def recv_inv_stored split: option.splits
      intro!: recv_inv_emit recv_inv_store store_inv_remove store_inv_removeUntil)

lemma recv_inv_send_calls: "recv_inv L ps rc \<Longrightarrow> recv_inv L ps (fold send_call calls rc)"
proof (induction calls arbitrary: rc)
  case (Cons c calls)
  have "recv_inv L ps (send_call c rc)"
    using Cons.prems
    by (cases c) (simp_all add: ReceiveChannel_sendAck_def ReceiveChannel_sendNack_def sendAckOrNack_def
        writeMessage_def recv_inv_emit)
  then show ?case
    by (simp add: Cons.IH)
qed simp

lemma recv_inv_consumeAcks: "recv_inv L ps rc \<Longrightarrow> recv_inv L ps (consumeAckBatchFromQueue rc)"
  by (auto simp: consumeAckBatchFromQueue_def Let_def recv_inv_base
      split: list.splits prod.splits intro!: recv_inv_send_calls recv_inv_emit)

lemma recv_inv_invalidConsumer: "recv_inv L ps rc \<Longrightarrow> recv_inv L ps (invalidConsumerError t rc)"
  by (simp add: invalidConsumerError_def rc_members.inv_close)

lemma recv_inv_consumeOk:
  assumes inv: "recv_inv L ps rc"
  shows "recv_inv L ps (processConsumeOk t rc)"
proof (cases "consumer_with_tag t rc")
  case None
  then show ?thesis
    using inv by (simp add: processConsumeOk_def Let_def recv_inv_invalidConsumer rc_members.inv_ready)
next
  case (Some c)
  then have c: "rc_consumer rc = Some c"
    by (auto simp: consumer_with_tag_def split: option.splits if_splits)
  show ?thesis
    using inv c Some
    by (cases "co_state c") (auto simp: processConsumeOk_def Let_def consumerIsActive_def consumer_defs recv_inv_simps
      split: option.splits)
qed

lemma recv_inv_QoSOk: "recv_inv L ps rc \<Longrightarrow> recv_inv L ps (processQoSOk rc)"
  by (auto simp: processQoSOk_def restartConsumers_def Let_def consumer_defs recv_inv_simps split: option.splits)

lemma recv_inv_cancelOk:
  assumes inv: "recv_inv L ps rc"
  shows "recv_inv L ps (processCancelOk t rc)"
proof (cases "consumer_with_tag t rc")
  case None
  then show ?thesis
    using inv by (simp add: processCancelOk_def recv_inv_invalidConsumer)
next
  case (Some c)
  then have c: "rc_consumer rc = Some c"
    by (auto simp: consumer_with_tag_def split: option.splits if_splits)
  show ?thesis
    using inv c Some
    by (cases "co_state c") (auto simp: processCancelOk_def restartConsumers_def Let_def consumer_defs recv_inv_simps
      split: option.splits)
qed

lemma recv_inv_basic: "recv_inv L ps rc \<Longrightarrow> recv_inv L ps (ReceiveChannel_processBasicMethod m rc)"
  by (cases m) (auto simp: ReceiveChannel_processBasicMethod_def processDeliver_def processCancel_def
      recv_inv_base recv_inv_consumeOk recv_inv_QoSOk recv_inv_cancelOk recv_inv_invalidConsumer
      rc_members.inv_close split: option.splits)

lemma recv_inv_deliver:
  "recv_inv L ps rc \<Longrightarrow> recv_inv L ps (Consumer_process m d (ReceiveChannel_lifetimeId rc) rc)"
  by (auto simp: Consumer_process_def recv_inv_def futures_ok_def store_ok_def ReceiveChannel_lifetimeId_def)

lemma recv_inv_message: 
  assumes inv: "recv_inv L ps rc"
  shows "recv_inv L ps (ReceiveChannel_processMessage now m rc)"
proof (cases "rc_nextMessage rc")
  case None
  then show ?thesis
    using inv by (simp add: ReceiveChannel_processMessage_def rc_members.inv_close)
next
  case (Some d)
  obtain ok st where st: "store_insert msg_guid now (deliver_deliveryTag d) m (rc_messageStore rc) = (ok, st)"
    by fastforce
  then have "recv_inv L ps (rc\<lparr>rc_messageStore := st\<rparr>)"
    using recv_inv_store [OF inv store_inv_insert [OF recv_inv_stored [OF inv]]]
      store_lifetime(1) [of msg_guid now "deliver_deliveryTag d" m "rc_messageStore rc"]
    by (metis order_refl snd_conv)
  then show ?thesis
    using Some st
    by (auto simp: ReceiveChannel_processMessage_def recv_inv_base recv_inv_deliver rc_members.inv_close Let_def
      split: bool.splits option.splits)
qed

lemma onReset_observe:
  "resolved (ReceiveChannel_onReset rc) =
     resolved rc \<union> set_option (rc_consumeFuture rc) \<union> set_option (rc_cancelFuture rc) \<union> set_option (rc_drainFuture rc)"
  "deliveries (ReceiveChannel_onReset rc) = deliveries rc"
  "rc_consumeFuture (ReceiveChannel_onReset rc) = None" "rc_cancelFuture (ReceiveChannel_onReset rc) = None"
  "rc_drainFuture (ReceiveChannel_onReset rc) = None"
  "rc_messageStore (ReceiveChannel_onReset rc) = rc_messageStore rc" 
  "ch_permanentlyClosing (ReceiveChannel_onReset rc) = ch_permanentlyClosing rc"
  "rc_consumer (ReceiveChannel_onReset rc) =
     (case rc_consumer rc of None \<Rightarrow> None | Some c \<Rightarrow>
        if isPaused c then Some c else if shouldRestart c then Some (c\<lparr>co_state := NOT_CONSUMING\<rparr>) else None)"
  "rc_channelPausedOnOpen (ReceiveChannel_onReset rc) \<longleftrightarrow> consumerIsPaused rc \<or> rc_channelPausedOnOpen rc"
  by (auto simp: ReceiveChannel_onReset_def resolve_consume_def resolve_cancel_def resolve_drain_def emit_def Let_def
      resolved_def deliveries_def Consumer_reset_def consumerIsPaused_def split: option.splits)

lemma reset_observe:
  fixes rc :: "('dt, 'g, 't) receive_channel" and now :: 't and r :: bool
  defines "rc' \<equiv> snd (Channel_reset (ReceiveChannel_vt now) r rc)"
  shows "resolved rc' =
     resolved rc \<union> set_option (rc_consumeFuture rc) \<union> set_option (rc_cancelFuture rc) \<union> set_option (rc_drainFuture rc)"
  "deliveries rc' = deliveries rc"
  "rc_consumeFuture rc' = None" "rc_cancelFuture rc' = None"
  "rc_drainFuture rc' = None"
  "rc_messageStore rc' = MessageStore_new\<lparr>ms_lifetimeId := ms_lifetimeId (rc_messageStore rc) + 1\<rparr>" 
  "rc_consumer rc' =
     (case rc_consumer rc of None \<Rightarrow> None | Some c \<Rightarrow>
        if isPaused c then Some c else if shouldRestart c then Some (c\<lparr>co_state := NOT_CONSUMING\<rparr>) else None)"
  "rc_channelPausedOnOpen rc' \<longleftrightarrow> consumerIsPaused rc \<or> rc_channelPausedOnOpen rc"
  by (simp_all add: rc'_def Channel_reset_def ReceiveChannel_vt_def Let_def onReset_observe updateState_def
      ReceiveChannel_processFailures_def store_swap_def consumerIsPaused_def)

lemma recv_inv_reset: 
  assumes "recv_inv L ps rc" 
  shows "recv_inv L ps (snd (Channel_reset (ReceiveChannel_vt now) r rc))"
  using assms
  by (auto simp: recv_inv_def consumer_ok_def futures_ok_def store_ok_def reset_observe ReceiveChannel_lifetimeId_def
     consumerIsPaused_def consumer_defs store_inv_def MessageStore_new_def
     split: option.splits)

lemma recv_inv_onOpen: "recv_inv L ps rc \<Longrightarrow> recv_inv L ps (ReceiveChannel_onOpen rc)"
  by (simp add: ReceiveChannel_onOpen_def recv_inv_write recv_inv_emit)

interpretation rc_base: channel_invariant "recv_inv L ps" "ReceiveChannel_vt now" for L ps now
proof (unfold_locales, goal_cases)
  case (6 ch r)
  then show ?case by (rule recv_inv_reset)
qed (simp_all add: ReceiveChannel_vt_def Channel_vt_def recv_inv_basic recv_inv_message recv_inv_onOpen)

lemma recv_inv_step:
  assumes "recv_inv L ps rc" and "receive_step now i rc = Some (p, rc')"
  shows "recv_inv L (set_option p \<union> ps) rc'"
proof (cases i)
  case (RI_writeComplete cb)
  then show ?thesis
    using assms by (cases cb) (auto intro: recv_inv_removeMessages rc_base.inv_onWriteComplete)
next
  case RI_resume
  then show ?thesis
    using assms recv_inv_resume [OF assms(1)] by simp
next
  case RI_pause
  then show ?thesis
    using assms recv_inv_pause [OF assms(1)] by simp
next
  case RI_cancel
  then show ?thesis
    using assms recv_inv_cancel [OF assms(1)] by auto
qed (use assms in \<open>auto simp: recv_inv_base intro: rc_members.inv_open recv_inv_reset recv_inv_consume
      rc_base.inv_processReceived rc_members.inv_gracefulClose recv_inv_drain recv_inv_consumeAcks
      rc_base.inv_channelHung rc_members.inv_updateTopology rc_base.inv_waitForReady\<close>)

lemma recv_inv_run:
  "recv_inv L ps rc \<Longrightarrow> receive_run is rc = Some (ps', rc') \<Longrightarrow> recv_inv L (ps \<union> ps') rc'"
proof (induction "is" arbitrary: ps ps' rc)
  case (Cons x xs)
  obtain now i where x: "x = (now, i)" by (cases x)
  then obtain p rc1 ps1 where s: "receive_step now i rc = Some (p, rc1)" "receive_run xs rc1 = Some (ps1, rc')"
    and ps': "ps' = set_option p \<union> ps1"
    using Cons.prems(2) by (auto split: option.splits)
  show ?case
    using Cons.IH [OF recv_inv_step [OF Cons.prems(1) s(1)] s(2)] ps' by (simp add: ac_simps)
qed simp

lemma recv_inv_new: "recv_inv 0 {} (ReceiveChannel_new topo cfg paused)"
  by (simp add: recv_inv_simps ReceiveChannel_new_def store_inv_new deliveries_def)


section \<open>Acknowledging\<close>

lemma send_calls_result:
  "fold send_call calls rc = rc\<lparr>ch_trace := ch_trace rc @ map ack_event calls\<rparr>"
proof (induction calls arbitrary: rc)
  case (Cons c calls)
  then show ?case
    by (cases c) (simp_all add: ReceiveChannel_sendAck_def ReceiveChannel_sendNack_def sendAckOrNack_def
        writeMessage_def emit_def)
qed simp

lemma consumeAcks_result:
  assumes "rc_ackQueue rc = b # q" and "ch_state rc \<noteq> CHANNEL_CLOSE_SENT" and "ch_state rc \<noteq> CLOSED"
  shows "consumeAckBatchFromQueue rc =
    (case process (rc_multipleAckHandler rc) (current_acks rc b) of (calls, h) \<Rightarrow>
       rc\<lparr>rc_ackQueue := q, rc_multipleAckHandler := h,
          ch_trace := ch_trace rc @ Ev_client (Batch_locked (ab_acks b)) # map ack_event calls\<rparr>)"
  using assms
  by (auto simp: consumeAckBatchFromQueue_def current_acks_def send_calls_result lock_def emit_def Let_def
      ReceiveChannel_lifetimeId_def split: prod.splits)

lemma ack_event_reads [simp]:
  "broker_calls (map (ack_event :: _ \<Rightarrow> ('dt, 'g, 'e) channel_event) calls) = calls"
  "callbacks (map (ack_event :: _ \<Rightarrow> ('dt, 'g, 'e) channel_event) calls) = map (\<lambda>c. WC_removeMessages (call_tag c) (call_multiple c)) calls"
proof -
  have "call_of (ack_event c :: ('dt, 'g, 'e) channel_event) = [c]"
    "callback_of (ack_event c :: ('dt, 'g, 'e) channel_event) = [WC_removeMessages (call_tag c) (call_multiple c)]" for c
    by (cases c; simp)+
  then show "broker_calls (map (ack_event :: _ \<Rightarrow> ('dt, 'g, 'e) channel_event) calls) = calls"
    "callbacks (map (ack_event :: _ \<Rightarrow> ('dt, 'g, 'e) channel_event) calls) =
       map (\<lambda>c. WC_removeMessages (call_tag c) (call_multiple c)) calls"
    by (simp_all add: broker_calls_def callbacks_def comp_def)
qed

lemma store_abs_remove: "store_abs (snd (store_remove guid t s)) = (store_abs s)(t := None)"
  by (auto simp: store_abs_def store_remove_def split: option.splits)

text \<open>The completion of a write removes from the store what the call settles at the broker.\<close>

lemma completion_mirrors:
  assumes inv: "store_inv msg_guid (rc_messageStore rc)" and mirror: "store_tags rc = unsettled br"
    and step: "broker_step br c = Some br'"
  defines "rc' \<equiv> removeMessagesFromStore (call_tag c) (call_multiple c) rc"
  shows "store_inv msg_guid (rc_messageStore rc')" "store_tags rc' = unsettled br'"
    "rc_drainFuture rc' = rc_drainFuture rc" "resolved rc \<subseteq> resolved rc'"
    "rc_drainFuture rc = Some p \<Longrightarrow> unsettled br' = {} \<Longrightarrow> p \<in> resolved rc'"
proof -
  let ?store = "if call_multiple c then snd (store_removeUntil msg_guid (call_tag c) (rc_messageStore rc))
    else snd (store_remove msg_guid (call_tag c) (rc_messageStore rc))"
  have rc': "rc' = (let rc = rc\<lparr>rc_messageStore := ?store\<rparr> in
      case rc_drainFuture rc of
        Some p \<Rightarrow> if store_count (rc_messageStore rc) = 0 then emit (Ev_resolve p Result_ok) rc else rc
      | None \<Rightarrow> rc)"
    by (simp add: rc'_def removeMessagesFromStore_def removeSingleMessageFromStore_def
        removeMultipleMessagesFromStore_def)
  then have st: "rc_messageStore rc' = ?store"
    by (simp add: Let_def split: option.splits)
  show "store_inv msg_guid (rc_messageStore rc')"
    using inv by (simp add: st store_inv_remove store_inv_removeUntil)
  have t: "call_tag c \<in> unsettled br" and br': "unsettled br' =
      unsettled br - (if call_multiple c then {t \<in> unsettled br. t \<le> call_tag c} else {call_tag c})"
    using step by (auto simp: broker_step_def split: if_splits)
  have "store_abs (rc_messageStore rc) (call_tag c) \<noteq> None"
    using t mirror unfolding store_tags_def by blast
  from store_abs_removeUntil(1) [OF inv this, OF prod.collapse [symmetric]]
  show tags: "store_tags rc' = unsettled br'"
    using mirror br' by (auto simp: store_tags_def st store_abs_remove dom_def restrict_map_def)
  show "rc_drainFuture rc' = rc_drainFuture rc" "resolved rc \<subseteq> resolved rc'"
    by (auto simp: rc' Let_def split: option.splits)
  assume "rc_drainFuture rc = Some p" "unsettled br' = {}"
  moreover from this have "store_count ?store = 0"
    using tags by (simp add: store_tags_def st store_abs_def store_count_def dom_map_of_conv_image_fst)
  ultimately show "p \<in> resolved rc'"
    by (simp add: rc' Let_def)
qed

lemma completions_mirror:
  assumes "store_inv msg_guid (rc_messageStore rc)" and "store_tags rc = unsettled br"
    and "broker_run br calls = Some br'"
  shows "store_tags (fold (\<lambda>c. removeMessagesFromStore (call_tag c) (call_multiple c)) calls rc) = unsettled br' \<and>
    (rc_drainFuture rc = Some p \<longrightarrow> calls \<noteq> [] \<longrightarrow> unsettled br' = {} \<longrightarrow>
       p \<in> resolved (fold (\<lambda>c. removeMessagesFromStore (call_tag c) (call_multiple c)) calls rc)) \<and>
    resolved rc \<subseteq> resolved (fold (\<lambda>c. removeMessagesFromStore (call_tag c) (call_multiple c)) calls rc)"
  using assms
proof (induction calls arbitrary: rc br)
  case (Cons c calls)
  obtain br1 where s: "broker_step br c = Some br1" "broker_run br1 calls = Some br'"
    using Cons.prems(3) by (auto split: option.splits)
  note m = completion_mirrors [OF Cons.prems(1,2) s(1)]
  show ?case
    using Cons.IH [OF m(1,2) s(2)] m(3,4) m(5) [of p] s(2) by (cases calls) auto
qed simp


lemma acks_mirror:
  assumes "rc_ackQueue rc = b # q" and "ch_state rc \<noteq> CHANNEL_CLOSE_SENT" and "ch_state rc \<noteq> CLOSED"
    and "store_inv msg_guid (rc_messageStore rc)" and "handler_inv P (rc_multipleAckHandler rc) br"
    and "store_tags rc = unsettled br" and "distinct (map fst (current_acks rc b))"
    and "fst ` set (current_acks rc b) \<subseteq> unsettled br"
  obtains calls where
    "ch_trace (consumeAckBatchFromQueue rc) = ch_trace rc @ Ev_client (Batch_locked (ab_acks b)) # map ack_event calls"
    "broker_run br calls = Some (settle_all (current_acks rc b) br)"
    "handler_inv (P \<union> fst ` set (current_acks rc b)) (rc_multipleAckHandler (consumeAckBatchFromQueue rc))
       (settle_all (current_acks rc b) br)"
    "store_tags (fold (\<lambda>c. removeMessagesFromStore (call_tag c) (call_multiple c)) calls (consumeAckBatchFromQueue rc)) =
       unsettled (settle_all (current_acks rc b) br)"
    "rc_drainFuture rc = Some p \<Longrightarrow> current_acks rc b \<noteq> [] \<Longrightarrow> unsettled (settle_all (current_acks rc b) br) = {} \<Longrightarrow>
       p \<in> resolved (fold (\<lambda>c. removeMessagesFromStore (call_tag c) (call_multiple c)) calls (consumeAckBatchFromQueue rc))"
proof -
  obtain calls h where p: "process (rc_multipleAckHandler rc) (current_acks rc b) = (calls, h)"
    by fastforce
  note r = consumeAcks_result [OF assms(1-3), unfolded p prod.case]
  note s = process_settles [OF assms(5,7,8) p]
  let ?rc = "consumeAckBatchFromQueue rc"
  have "store_inv msg_guid (rc_messageStore ?rc)" "store_tags ?rc = unsettled br"
    using assms(4,6) by (simp_all add: r store_tags_def)
  note m = completions_mirror [OF this s [THEN conjunct1], of p for p]
  have ne: "calls \<noteq> []" if "current_acks rc b \<noteq> []"
  proof
    assume "calls = []"
    then have "unsettled br - fst ` set (current_acks rc b) = unsettled br"
      using s by (simp add: settle_all_def) (metis broker.select_convs(1))
    then show False
      using assms(8) that by (cases "current_acks rc b") auto
  qed
  show thesis
    by (rule that [of calls]) (use r s m [of p] ne in \<open>simp_all\<close>)
qed


lemma write_completed_remove: "write_completed now (WC_removeMessages t m) = removeMessagesFromStore t m"
  by (simp add: fun_eq_iff)

lemmas receive_eval = channel_eval ReceiveChannel_vt_def Channel_vt_def ReceiveChannel_new_def consumer_defs
  ReceiveChannel_onOpen_def ReceiveChannel_processBasicMethod_def processQoSOk_def ReceiveChannel_consume_def restartConsumers_def
  processConsumeOk_def consumer_with_tag_def consumerIsActive_def resolve_consume_def resolve_cancel_def
  processDeliver_def ReceiveChannel_processMessage_def Consumer_process_def ReceiveChannel_lifetimeId_def
  store_insert_def om_emplace_def MessageStore_new_def received_basic_def pending_def make_future_def
  sample_receive_channel_def sample_config_def

lemma sample_consuming_run:
  obtains rc where "receive_run sample_consuming sample_receive_channel = Some ({}, rc)"
    "rc_consumer rc = Some \<lparr>co_state = CONSUMING, co_tag = bstr ''c'', co_queueName = bstr ''q''\<rparr>"
    "deliveries rc = {sample_envelope}" "ch_state rc = READY" "rc_cancelFuture rc = None"
    "rc_consumeFuture rc = None" "ms_tagToMsg (rc_messageStore rc) = [(1, sample_content, 0)]"
    "\<not> ch_permanentlyClosing rc" "ch_promises rc = 0"
  by (simp add: sample_consuming_def receive_eval empty_topology_transformer sample_live_def deliveries_def
      sample_envelope_def)

lemma receive_run_append:
  "receive_run (xs @ ys) rc =
     (case receive_run xs rc of
        None \<Rightarrow> None
      | Some (ps, rc') \<Rightarrow> map_option (\<lambda>(ps', rc''). (ps \<union> ps', rc'')) (receive_run ys rc'))"
  by (induction xs arbitrary: rc) (auto simp: option.map_id0 split: option.splits prod.splits)

lemma sample_pausing_run:
  obtains rc where "receive_run sample_pausing sample_receive_channel = Some ({0}, rc)"
proof (rule sample_consuming_run)
  fix rc :: "(nat, nat, nat) receive_channel"
  assume "receive_run sample_consuming sample_receive_channel = Some ({}, rc)"
    "rc_consumer rc = Some \<lparr>co_state = CONSUMING, co_tag = bstr ''c'', co_queueName = bstr ''q''\<rparr>"
    "rc_cancelFuture rc = None" "rc_consumeFuture rc = None" "\<not> ch_permanentlyClosing rc" "ch_promises rc = 0"
  then show thesis
    by (intro that) (simp add: sample_pausing_def receive_run_append pause_def failPendingResume_def receive_eval)
qed

lemma sample_cancelled_run:
  obtains rc where "receive_run sample_cancelled sample_receive_channel = Some ({0}, rc)"
    "rc_consumer rc = None" "store_count (rc_messageStore rc) > 0"
proof (rule sample_consuming_run)
  fix rc :: "(nat, nat, nat) receive_channel"
  assume "receive_run sample_consuming sample_receive_channel = Some ({}, rc)"
    "rc_consumer rc = Some \<lparr>co_state = CONSUMING, co_tag = bstr ''c'', co_queueName = bstr ''q''\<rparr>"
    "rc_cancelFuture rc = None" "rc_consumeFuture rc = None" "ch_promises rc = 0" "ch_state rc = READY"
    "ms_tagToMsg (rc_messageStore rc) = [(1, sample_content, 0)]"
  then have "\<exists>rc'. receive_run sample_cancelled sample_receive_channel = Some ({0}, rc') \<and> rc_consumer rc' = None \<and>
      store_count (rc_messageStore rc') > 0"
    by (simp add: sample_cancelled_def receive_run_append cancel_def failPendingResume_def
        processCancelOk_def store_count_def receive_eval)
  then show thesis
    using that by blast
qed

section \<open>Properties\<close>

text \<open>C10: Acknowledging, end to end. A batch from the queue is filtered to the acknowledgements of the
  current lifetime of the channel. When these name distinct outstanding deliveries, the calls written
  settle exactly them at the broker, each with its own type; when the writes have completed, the message store
  holds exactly what is unsettled at the broker; and when nothing is left, a pending drain is resolved.\<close>

theorem acks_settle_and_store_mirrors:
  assumes "rc_ackQueue rc = b # q" and "ch_state rc \<noteq> CHANNEL_CLOSE_SENT" and "ch_state rc \<noteq> CLOSED"
    and "store_inv msg_guid (rc_messageStore rc)" and "handler_inv P (rc_multipleAckHandler rc) br"
    and "store_tags rc = unsettled br" and "distinct (map fst (current_acks rc b))"
    and "fst ` set (current_acks rc b) \<subseteq> unsettled br"
  shows "\<exists>new. ch_trace (consumeAckBatchFromQueue rc) = ch_trace rc @ new \<and>
     broker_run br (broker_calls new) = Some (settle_all (current_acks rc b) br) \<and>
     handler_inv (P \<union> fst ` set (current_acks rc b)) (rc_multipleAckHandler (consumeAckBatchFromQueue rc))
       (settle_all (current_acks rc b) br) \<and>
     store_tags (fold (write_completed now) (callbacks new) (consumeAckBatchFromQueue rc)) =
       unsettled br - fst ` set (current_acks rc b) \<and>
     (rc_drainFuture rc = Some p \<longrightarrow> current_acks rc b \<noteq> [] \<longrightarrow> unsettled br \<subseteq> fst ` set (current_acks rc b) \<longrightarrow>
        p \<in> resolved (fold (write_completed now) (callbacks new) (consumeAckBatchFromQueue rc)))"
proof (rule acks_mirror [OF assms])
  fix calls
  let ?rc = "consumeAckBatchFromQueue rc" and ?acks = "current_acks rc b"
  let ?new = "Ev_client (Batch_locked (ab_acks b)) # map ack_event calls :: ('a, 'b, ('a, 'b) receive_event) channel_event list"
  assume calls: "ch_trace ?rc = ch_trace rc @ ?new"
    "broker_run br calls = Some (settle_all ?acks br)"
    "handler_inv (P \<union> fst ` set ?acks) (rc_multipleAckHandler ?rc) (settle_all ?acks br)"
    "store_tags (fold (\<lambda>c. removeMessagesFromStore (call_tag c) (call_multiple c)) calls ?rc) =
       unsettled (settle_all ?acks br)"
    "rc_drainFuture rc = Some p \<Longrightarrow> ?acks \<noteq> [] \<Longrightarrow> unsettled (settle_all ?acks br) = {} \<Longrightarrow>
       p \<in> resolved (fold (\<lambda>c. removeMessagesFromStore (call_tag c) (call_multiple c)) calls ?rc)"
  have "broker_calls ?new = calls"
    "callbacks ?new = map (\<lambda>c. WC_removeMessages (call_tag c) (call_multiple c)) calls"
    using ack_event_reads [of calls, where ?'dt = 'a and ?'g = 'b and ?'e = "('a, 'b) receive_event"]
    by (simp_all add: broker_calls_def callbacks_def)
  then show ?thesis
    using calls by (intro exI [of _ ?new]) (simp add: fold_map comp_def write_completed_remove settle_all_def)
qed

theorem acks_settle_and_store_mirrors_witness:
  "\<exists>new. ch_trace (consumeAckBatchFromQueue sample_delivery) = ch_trace sample_delivery @ new \<and>
     broker_run \<lparr>unsettled = {1}, settled = Map.empty\<rparr> (broker_calls new) =
       Some \<lparr>unsettled = {}, settled = [1 \<mapsto> ACK]\<rparr>"
proof -
  let ?b = "\<lparr>ab_locked = False, ab_acks = [(sample_envelope, ACK)]\<rparr>"
    and ?br = "\<lparr>unsettled = {1}, settled = Map.empty\<rparr>"
  have q: "rc_ackQueue sample_delivery = ?b # []" and st: "ch_state sample_delivery = READY"
    and acks: "current_acks sample_delivery ?b = [(1, ACK)]" and tags: "store_tags sample_delivery = unsettled ?br"
    and h: "handler_inv {} (rc_multipleAckHandler sample_delivery) ?br"
    by (simp_all add: sample_delivery_def current_acks_def ack_of_def sample_envelope_def store_tags_def
        ReceiveChannel_lifetimeId_def store_abs_def store_insert_fresh MessageStore_new_def
        ReceiveChannel_new_def handler_inv_def AckHandler_new_def)
  have inv: "store_inv msg_guid (rc_messageStore sample_delivery)"
    by (simp add: sample_delivery_def store_inv_insert store_inv_new)
  show ?thesis
    using acks_settle_and_store_mirrors [OF q _ _ inv h tags, of 0 0] st acks
    by (auto simp: settle_all_def)
qed

text \<open>C11: A delivery is never acknowledged on a later incarnation of the channel. Once the channel has been
  reset, whatever happens afterwards, a batch of acknowledgements for messages delivered before the reset makes
  the channel write nothing: delivery tags of the lost connection never reach the new one.\<close>

theorem stale_acks_never_sent:
  assumes "receive_run is1 (ReceiveChannel_new topo cfg paused) = Some (ps1, rc1)"
    and "receive_run is2 (snd (Channel_reset (ReceiveChannel_vt now) retry rc1)) = Some (ps2, rc2)"
    and "rc_ackQueue rc2 = b # q" and "fst ` set (ab_acks b) \<subseteq> deliveries rc1"
  shows "ch_trace (consumeAckBatchFromQueue rc2) = ch_trace rc2 @ [Ev_client (Batch_locked (ab_acks b))]"
proof -
  have 1: "recv_inv 0 ps1 rc1"
    using recv_inv_run [OF recv_inv_new assms(1)] by simp
  let ?rc = "snd (Channel_reset (ReceiveChannel_vt now) retry rc1)"
  have "recv_inv (ReceiveChannel_lifetimeId rc1 + 1) ps1 ?rc"
    using recv_inv_reset [OF 1, of now retry]
    by (simp add: recv_inv_def store_ok_def reset_observe ReceiveChannel_lifetimeId_def)
  from recv_inv_run [OF this assms(2)] have later: "ReceiveChannel_lifetimeId rc1 < ReceiveChannel_lifetimeId rc2"
    by (simp add: recv_inv_def store_ok_def)
  have "en_channelLifetimeId (fst a) < ReceiveChannel_lifetimeId rc2" if "a \<in> set (ab_acks b)" for a
  proof -
    have "fst a \<in> deliveries rc1"
      using that assms(4) by auto
    then show ?thesis
      using 1 later by (fastforce simp: recv_inv_def store_ok_def)
  qed
  then have "current_acks rc2 b = []"
    by (fastforce simp: current_acks_def filter_empty_conv)
  moreover have ?thesis if "ch_state rc2 = CHANNEL_CLOSE_SENT \<or> ch_state rc2 = CLOSED"
    using assms(3) that by (auto simp: consumeAckBatchFromQueue_def lock_def emit_def Let_def)
  ultimately show ?thesis
    using consumeAcks_result [OF assms(3)] by (cases "ch_state rc2") (simp_all add: process_def)
qed

theorem stale_acks_never_sent_witness:
  "case receive_run sample_consuming sample_receive_channel of
     None \<Rightarrow> False
   | Some (ps, rc1) \<Rightarrow>
       let rc2 = (snd (Channel_reset (ReceiveChannel_vt 0) True rc1))\<lparr>rc_ackQueue := [\<lparr>ab_locked = False, ab_acks = [(sample_envelope, ACK)]\<rparr>]\<rparr> in
       ch_trace (consumeAckBatchFromQueue rc2) = ch_trace rc2 @ [Ev_client (Batch_locked [(sample_envelope, ACK)])]"
proof (rule sample_consuming_run)
  fix rc :: "(nat, nat, nat) receive_channel"
  let ?b = "\<lparr>ab_locked = False, ab_acks = [(sample_envelope, ACK)]\<rparr>"
  let ?rc1 = "snd (Channel_reset (ReceiveChannel_vt 0) True rc)"
  let ?rc2 = "?rc1\<lparr>rc_ackQueue := [?b]\<rparr>"
  assume rc: "receive_run sample_consuming sample_receive_channel = Some ({}, rc)" "deliveries rc = {sample_envelope}"
  have "rc_ackQueue ?rc1 = []"
    by (simp add: Channel_reset_def ReceiveChannel_vt_def ReceiveChannel_onReset_def resolve_consume_def resolve_cancel_def
        resolve_drain_def emit_def Let_def split: option.splits)
  then have "receive_run [(0, RI_queueAcks ?b)] ?rc1 = Some ({}, ?rc2)"
    by simp
  from stale_acks_never_sent [OF rc(1) [unfolded sample_receive_channel_def] this, of ?b "[]"] rc
  show ?thesis
    by (simp add: Let_def)
qed

text \<open>C12: The futures of pause, resume and cancel. Whatever the order of calls, replies, errors and resets, a
  future that one of the three has handed out is still held by the channel or has been resolved; one that is held
  belongs to a consumer in the state whose completion resolves it; a reset resolves all of them, and so does
  the destructor. A consumer is never left cancelled, and \<open>cancel\<close> never dereferences a null consumer.\<close>

theorem consumer_futures_never_lost:
  assumes "receive_run is (ReceiveChannel_new topo cfg paused) = Some (ps, rc)"
  shows "ps \<subseteq> resolved rc \<union> set_option (rc_consumeFuture rc) \<union> set_option (rc_cancelFuture rc) \<and>
     (rc_cancelFuture rc \<noteq> None \<longleftrightarrow>
        (\<exists>c. rc_consumer rc = Some c \<and> (co_state c = PAUSING \<or> co_state c = CANCELLING))) \<and>
     (rc_consumeFuture rc \<noteq> None \<longrightarrow> \<not> rc_channelPausedOnOpen rc \<and>
        (\<exists>c. rc_consumer rc = Some c \<and>
           (co_state c = NOT_CONSUMING \<or> co_state c = STARTING \<or> co_state c = PAUSING))) \<and>
     (\<forall>c. rc_consumer rc = Some c \<longrightarrow> co_state c \<noteq> CANCELLED) \<and>
     ps \<subseteq> resolved (snd (Channel_reset (ReceiveChannel_vt now) retry rc)) \<and>
     ps \<subseteq> resolved (ReceiveChannel_destroy rc) \<and> cancel rc \<noteq> None"
proof -
  have inv: "recv_inv 0 ps rc"
    using recv_inv_run [OF recv_inv_new assms] by simp
  then have f: "ps \<subseteq> resolved rc \<union> set_option (rc_consumeFuture rc) \<union> set_option (rc_cancelFuture rc)"
    and c: "consumer_ok (rc_consumer rc) (rc_consumeFuture rc) (rc_cancelFuture rc) (rc_channelPausedOnOpen rc)"
    by (simp_all add: recv_inv_def futures_ok_def)
  have "resolved (ReceiveChannel_destroy rc) = resolved rc \<union> set_option (rc_consumeFuture rc) \<union>
      set_option (rc_cancelFuture rc) \<union> set_option (rc_drainFuture rc)"
    by (auto simp: ReceiveChannel_destroy_def resolve_consume_def resolve_cancel_def resolve_drain_def Let_def
        split: option.splits)
  moreover have "ps \<subseteq> resolved (snd (Channel_reset (ReceiveChannel_vt now) retry rc))"
    unfolding reset_observe(1) using f by blast
  ultimately show ?thesis
    using f c cancel_defined [OF inv] unfolding consumer_ok_def by blast
qed

theorem consumer_futures_never_lost_witness:
  "case receive_run sample_pausing sample_receive_channel of
     None \<Rightarrow> False
   | Some (ps, rc) \<Rightarrow> ps = {0} \<and> ps \<subseteq> resolved (ReceiveChannel_destroy rc) \<and> cancel rc \<noteq> None"
proof (rule sample_pausing_run)
  fix rc
  assume rc: "receive_run sample_pausing sample_receive_channel = Some ({0}, rc)"
  from consumer_futures_never_lost [OF this [unfolded sample_receive_channel_def]]
  have "{0} \<subseteq> resolved (ReceiveChannel_destroy rc)" "cancel rc \<noteq> None"
    by blast+
  then show ?thesis
    by (simp add: rc)
qed

text \<open>Draining twice. Without a consumer and with deliveries outstanding, a second \<open>drain\<close> is not rejected, as
  the text of the error for it means it to be: it replaces the first future, which nothing resolves any more, not even
  the destructor.\<close>

theorem drain_twice_forgets_first:
  assumes "receive_run is (ReceiveChannel_new topo cfg paused) = Some (ps, rc)"
    and "rc_consumer rc = None" and "store_count (rc_messageStore rc) > 0"
  shows "\<exists>p q rc1 rc2. drain rc = (Inl p, rc1) \<and> drain rc1 = (Inl q, rc2) \<and> p \<noteq> q \<and>
     rc_drainFuture rc2 = Some q \<and> resolved (ReceiveChannel_destroy rc2) = insert q (resolved rc)"
proof -
  have "rc_consumeFuture rc = None" "rc_cancelFuture rc = None"
    using recv_inv_run [OF recv_inv_new assms(1)] assms(2) by (auto simp: recv_inv_def consumer_ok_def)
  then show ?thesis
    using assms(2,3)
    by (simp add: drain_def make_future_def ReceiveChannel_destroy_def resolve_consume_def resolve_cancel_def
        resolve_drain_def Let_def)
qed

theorem drain_twice_forgets_first_witness:
  "case receive_run sample_cancelled sample_receive_channel of
     None \<Rightarrow> False
   | Some (ps, rc) \<Rightarrow> \<exists>p q rc1 rc2. drain rc = (Inl p, rc1) \<and> drain rc1 = (Inl q, rc2) \<and> p \<noteq> q"
proof (rule sample_cancelled_run)
  fix rc
  assume rc: "receive_run sample_cancelled sample_receive_channel = Some ({0}, rc)"
    "rc_consumer rc = None" "store_count (rc_messageStore rc) > 0"
  from drain_twice_forgets_first [OF rc(1) [unfolded sample_receive_channel_def] rc(2,3)]
  have "\<exists>p q rc1 rc2. drain rc = (Inl p, rc1) \<and> drain rc1 = (Inl q, rc2) \<and> p \<noteq> q"
    by blast
  then show ?thesis
    by (simp add: rc)
qed

end
