(* ===== verification/Consumer.thy ===== *)
theory Consumer
  imports Transformers Receive_Channel "HOL-Library.Sublist" "HOL-Library.AList" "HOL-Library.Multiset"
begin

text \<open>
  \<open>rmqa::ConsumerImpl\<close> and \<open>rmqa::MessageGuard\<close> over a receive channel: deliveries go through the thread pool to the
  application, and its acknowledgements go in batches back to the channel.

  Guards live at addresses, since the application copies and destroys them. Batches of acknowledgements are shared by
  the threads that add to them and the event loop that takes and locks them: they are cells of a list, and the queue
  holds their indices. Thread pool, application threads and event loop are interleaved at the points where the code synchronises.
  A weak pointer to a destroyed consumer is \<^const>\<open>None\<close>.
\<close>

section \<open>Message guards\<close>

datatype guard_state = GS_READY | GS_TRANSFERRED | GS_RESOLVED

record ('dt, 'g) message_guard =
  mg_state :: guard_state
  mg_message :: "('dt, 'g) message"
  mg_envelope :: envelope

definition MessageGuard_new :: "('dt, 'g) message \<Rightarrow> envelope \<Rightarrow> ('dt, 'g) message_guard" where
  "MessageGuard_new message env = \<lparr>mg_state = GS_READY, mg_message = message, mg_envelope = env\<rparr>"

text \<open>The copy constructor: the new guard, and the one copied from.\<close>

definition MessageGuard_copy ::
  "('dt, 'g) message_guard \<Rightarrow> ('dt, 'g) message_guard \<times> ('dt, 'g) message_guard" where
  "MessageGuard_copy obj =
     (\<lparr>mg_state = mg_state obj, mg_message = mg_message obj, mg_envelope = mg_envelope obj\<rparr>,
      obj\<lparr>mg_state := GS_TRANSFERRED\<rparr>)"

definition transferOwnership ::
  "('dt, 'g) message_guard \<Rightarrow> ('dt, 'g) message_guard \<times> ('dt, 'g) message_guard" where
  "transferOwnership g = MessageGuard_copy g"

text \<open>What is handed to the callback of the guard, and the guard afterwards.\<close>

definition resolve :: "ack_type \<Rightarrow> ('dt, 'g) message_guard \<Rightarrow> enveloped_ack list \<times> ('dt, 'g) message_guard" where
  "resolve ackOption g =
     (if mg_state g = GS_TRANSFERRED then ([], g)
      else if mg_state g = GS_RESOLVED then ([], g)
      else ([(mg_envelope g, ackOption)], g\<lparr>mg_state := GS_RESOLVED\<rparr>))"

definition guard_ack :: "('dt, 'g) message_guard \<Rightarrow> enveloped_ack list \<times> ('dt, 'g) message_guard" where
  "guard_ack g = resolve ACK g"

definition guard_nack :: "bool \<Rightarrow> ('dt, 'g) message_guard \<Rightarrow> enveloped_ack list \<times> ('dt, 'g) message_guard" where
  "guard_nack requeue g = resolve (if requeue then REQUEUE else REJECT) g"

definition MessageGuard_destroy :: "('dt, 'g) message_guard \<Rightarrow> enveloped_ack list" where
  "MessageGuard_destroy g = (if mg_state g = GS_READY then [(mg_envelope g, REQUEUE)] else [])"

section \<open>The consumer\<close>

type_synonym ('dt, 'g) delivery = "('dt, 'g) message \<times> envelope"

record 'dt consumer_impl =
  ci_consumerTag :: bytes
  ci_queue :: handle
  ci_ackBatch :: "nat option"
  ci_transformers :: "'dt transformer list"

text \<open>Beside the consumer and its channel: the jobs of the thread pool, deliveries that never reach the application, the
  guards, all batches there have been, the queue of them, the calls of \<open>consumeAckBatchFromQueue\<close> posted to the event
  loop, the acknowledgements given to the consumer and those given after it was destroyed, and whether the closing of the channel is posted.\<close>

record ('dt, 'g, 't) consumer_system =
  cs_consumer :: "'dt consumer_impl option"
  cs_channel :: "('dt, 'g, 't) receive_channel"
  cs_poolEnabled :: bool
  cs_jobs :: "('dt, 'g) delivery list"
  cs_undelivered :: "('dt, 'g) delivery list"
  cs_guards :: "(nat \<times> ('dt, 'g) message_guard) list"
  cs_guardAddress :: nat
  cs_batches :: "enveloped_ack ack_batch list"
  cs_ackQueue :: "nat list"
  cs_posted :: nat
  cs_acked :: "enveloped_ack list"
  cs_ignored :: "enveloped_ack list"
  cs_closePosted :: bool

definition ConsumerImpl_new :: "handle \<Rightarrow> bytes \<Rightarrow> 'dt transformer list \<Rightarrow> 'dt consumer_impl" where
  "ConsumerImpl_new queue consumerTag ts =
     \<lparr>ci_consumerTag = consumerTag, ci_queue = queue, ci_ackBatch = None, ci_transformers = ts\<rparr>"

text \<open>\<open>create\<close> and \<open>start\<close>, which registers \<open>handleMessage\<close> with the channel.\<close>

definition ConsumerImpl_start ::
  "'dt live_objects \<Rightarrow> 'dt consumer_impl \<Rightarrow> ('dt, 'g, 't) receive_channel \<Rightarrow>
     (result \<times> ('dt, 'g, 't) consumer_system) option" where
  "ConsumerImpl_start lv ci channel =
     map_option (\<lambda>(r, channel).
       (r, \<lparr>cs_consumer = Some ci, cs_channel = channel, cs_poolEnabled = True, cs_jobs = [], cs_undelivered = [],
            cs_guards = [], cs_guardAddress = 0, cs_batches = [], cs_ackQueue = [], cs_posted = 0,
            cs_acked = [], cs_ignored = [], cs_closePosted = False\<rparr>))
       (ReceiveChannel_consume lv (ci_queue ci) (ci_consumerTag ci) channel)"

fun delivery_of :: "('dt, 'g, ('dt, 'g) receive_event) channel_event \<Rightarrow> ('dt, 'g) delivery list" where
  "delivery_of (Ev_client (Deliver_callback m e)) = [(m, e)]"
| "delivery_of _ = []"

definition handed_over :: "('dt, 'g, ('dt, 'g) receive_event) channel_event list \<Rightarrow> ('dt, 'g) delivery list" where
  "handed_over tr = concat (map delivery_of tr)"

text \<open>\<open>handleMessage\<close>, the callback of the channel, for each delivery it has just reported.\<close>

definition handleMessage ::
  "('dt, 'g) delivery list \<Rightarrow> ('dt, 'g, 't) consumer_system \<Rightarrow> ('dt, 'g, 't) consumer_system" where
  "handleMessage ds cs =
     (if cs_poolEnabled cs then cs\<lparr>cs_jobs := cs_jobs cs @ ds\<rparr>
      else cs\<lparr>cs_undelivered := cs_undelivered cs @ ds\<rparr>)"

text \<open>A job of the thread pool: the guard is handed to the application, which has it until its destructor runs. The use of
  a null header table is \<^const>\<open>None\<close>.\<close>

definition threadPoolHandleMessage ::
  "'g guid_util \<Rightarrow> 'g \<Rightarrow> ('dt, 'g) delivery \<Rightarrow> ('dt, 'g, 't) consumer_system \<Rightarrow> ('dt, 'g, 't) consumer_system option" where
  "threadPoolHandleMessage gu fresh d cs =
     (case d of (message, env) \<Rightarrow>
        (case cs_consumer cs of
           None \<Rightarrow> Some (cs\<lparr>cs_undelivered := cs_undelivered cs @ [d]\<rparr>)
         | Some ci \<Rightarrow>
             (case (if ci_transformers ci \<noteq> [] then unpackTransformations gu fresh (ci_transformers ci) message
                    else TR_done message) of
                TR_null \<Rightarrow> None
              | TR_failed \<Rightarrow> Some (cs\<lparr>cs_undelivered := cs_undelivered cs @ [d]\<rparr>)
              | TR_done realMsg \<Rightarrow>
                  Some (cs\<lparr>cs_guards := (cs_guardAddress cs, MessageGuard_new realMsg env) # cs_guards cs,
                           cs_guardAddress := cs_guardAddress cs + 1\<rparr>))))"

text \<open>\<open>!d_ackBatch || !d_ackBatch->addAck(ack)\<close>: the cells after the attempt to add to the current batch.\<close>

definition try_addAck ::
  "nat option \<Rightarrow> enveloped_ack \<Rightarrow> enveloped_ack ack_batch list \<Rightarrow> bool \<times> enveloped_ack ack_batch list" where
  "try_addAck b ack batches =
     (case b of
        None \<Rightarrow> (False, batches)
      | Some i \<Rightarrow> (case addAck (batches ! i) ack of (ok, batch) \<Rightarrow> (ok, batches[i := batch])))"

definition ackMessage ::
  "enveloped_ack \<Rightarrow> 'dt consumer_impl \<Rightarrow> ('dt, 'g, 't) consumer_system \<Rightarrow> ('dt, 'g, 't) consumer_system" where
  "ackMessage ack ci cs =
     (case try_addAck (ci_ackBatch ci) ack (cs_batches cs) of
        (True, batches) \<Rightarrow> cs\<lparr>cs_batches := batches\<rparr>
      | (False, batches) \<Rightarrow>
          cs\<lparr>cs_consumer := Some (ci\<lparr>ci_ackBatch := Some (length batches)\<rparr>),
             cs_batches := batches @ [snd (addAck ConsumerAckBatch_new ack)],
             cs_ackQueue := cs_ackQueue cs @ [length batches],
             cs_posted := cs_posted cs + 1\<rparr>)"

definition messageGuardCb :: "enveloped_ack \<Rightarrow> ('dt, 'g, 't) consumer_system \<Rightarrow> ('dt, 'g, 't) consumer_system" where
  "messageGuardCb ack cs =
     (case cs_consumer cs of
        None \<Rightarrow> cs\<lparr>cs_ignored := cs_ignored cs @ [ack]\<rparr>
      | Some ci \<Rightarrow> ackMessage ack ci (cs\<lparr>cs_acked := cs_acked cs @ [ack]\<rparr>))"

text \<open>The destructor posts the closing of the channel to the event loop.\<close>

definition ConsumerImpl_destroy :: "('dt, 'g, 't) consumer_system \<Rightarrow> ('dt, 'g, 't) consumer_system" where
  "ConsumerImpl_destroy cs = cs\<lparr>cs_consumer := None, cs_closePosted := True\<rparr>"

section \<open>Everything that can happen\<close>

text \<open>The channel sees the batches in the queue. Those it takes off, it takes from the front and locks (lemma
  \<open>locked_in_order\<close> below).\<close>

fun lock_cells :: "nat list \<Rightarrow> 'a ack_batch list \<Rightarrow> 'a ack_batch list" where
  "lock_cells [] batches = batches"
| "lock_cells (b # bs) batches = lock_cells bs (batches[b := snd (lock (batches ! b))])"

definition with_queue :: "('dt, 'g, 't) consumer_system \<Rightarrow> ('dt, 'g, 't) receive_channel" where
  "with_queue cs = (cs_channel cs)\<lparr>rc_ackQueue := map (\<lambda>b. cs_batches cs ! b) (cs_ackQueue cs)\<rparr>"

definition consumer_channel_step ::
  "'t \<Rightarrow> ('dt, 'g) receive_input \<Rightarrow> ('dt, 'g, 't) consumer_system \<Rightarrow> ('dt, 'g, 't) consumer_system option" where
  "consumer_channel_step now i cs =
     (case receive_step now i (with_queue cs) of
        None \<Rightarrow> None
      | Some (_, rc) \<Rightarrow>
          let n = length (cs_ackQueue cs) - length (rc_ackQueue rc) in
          Some (handleMessage (handed_over (drop (length (ch_trace (cs_channel cs))) (ch_trace rc)))
            (cs\<lparr>cs_channel := rc, cs_batches := lock_cells (take n (cs_ackQueue cs)) (cs_batches cs),
                cs_ackQueue := drop n (cs_ackQueue cs)\<rparr>)))"

datatype ('dt, 'g, 't) consumer_input =
    CI_channel 't "('dt, 'g) receive_input"
  | CI_disablePool
  | CI_job 'g "('dt, 'g) delivery"
  | CI_ack nat
  | CI_nack nat bool
  | CI_transfer nat
  | CI_destroyGuard nat
  | CI_consumeAcks 't
  | CI_destroyConsumer
  | CI_close 't

text \<open>The queue of acknowledgements belongs to the consumer; \<open>consume\<close> is called by \<open>start\<close> alone.\<close>

fun not_of_consumer :: "('dt, 'g) receive_input \<Rightarrow> bool" where
  "not_of_consumer (RI_queueAcks _) = False"
| "not_of_consumer RI_consumeAcks = False"
| "not_of_consumer (RI_consume _ _ _) = False"
| "not_of_consumer _ = True"

fun consumer_step ::
  "'g guid_util \<Rightarrow> ('dt, 'g, 't) consumer_input \<Rightarrow> ('dt, 'g, 't) consumer_system \<Rightarrow>
     ('dt, 'g, 't) consumer_system option" where
  "consumer_step gu (CI_channel now i) cs = (if not_of_consumer i then consumer_channel_step now i cs else None)"
| "consumer_step gu CI_disablePool cs = Some (cs\<lparr>cs_poolEnabled := False\<rparr>)"
| "consumer_step gu (CI_job fresh d) cs =
     (if d \<in> set (cs_jobs cs)
      then threadPoolHandleMessage gu fresh d (cs\<lparr>cs_jobs := remove1 d (cs_jobs cs)\<rparr>) else None)"
| "consumer_step gu (CI_ack a) cs =
     (case map_of (cs_guards cs) a of
        None \<Rightarrow> None
      | Some g \<Rightarrow>
          (case guard_ack g of (acks, g') \<Rightarrow>
             Some (fold messageGuardCb acks (cs\<lparr>cs_guards := AList.update a g' (cs_guards cs)\<rparr>))))"
| "consumer_step gu (CI_nack a requeue) cs =
     (case map_of (cs_guards cs) a of
        None \<Rightarrow> None
      | Some g \<Rightarrow>
          (case guard_nack requeue g of (acks, g') \<Rightarrow>
             Some (fold messageGuardCb acks (cs\<lparr>cs_guards := AList.update a g' (cs_guards cs)\<rparr>))))"
| "consumer_step gu (CI_transfer a) cs =
     (case map_of (cs_guards cs) a of
        None \<Rightarrow> None
      | Some g \<Rightarrow>
          (case transferOwnership g of (new, old) \<Rightarrow>
             Some (cs\<lparr>cs_guards := (cs_guardAddress cs, new) # AList.update a old (cs_guards cs),
                      cs_guardAddress := cs_guardAddress cs + 1\<rparr>)))"
| "consumer_step gu (CI_destroyGuard a) cs =
     (case map_of (cs_guards cs) a of
        None \<Rightarrow> None
      | Some g \<Rightarrow>
          Some (fold messageGuardCb (MessageGuard_destroy g) (cs\<lparr>cs_guards := AList.delete a (cs_guards cs)\<rparr>)))"
| "consumer_step gu (CI_consumeAcks now) cs =
     (case cs_posted cs of
        0 \<Rightarrow> None
      | Suc n \<Rightarrow> consumer_channel_step now RI_consumeAcks (cs\<lparr>cs_posted := n\<rparr>))"
| "consumer_step gu CI_destroyConsumer cs =
     (if cs_consumer cs = None then None else Some (ConsumerImpl_destroy cs))"
| "consumer_step gu (CI_close now) cs =
     (if cs_closePosted cs then consumer_channel_step now RI_gracefulClose (cs\<lparr>cs_closePosted := False\<rparr>) else None)"

fun consumer_run ::
  "'g guid_util \<Rightarrow> ('dt, 'g, 't) consumer_input list \<Rightarrow> ('dt, 'g, 't) consumer_system \<Rightarrow>
     ('dt, 'g, 't) consumer_system option" where
  "consumer_run gu [] cs = Some cs"
| "consumer_run gu (i # is) cs =
     (case consumer_step gu i cs of None \<Rightarrow> None | Some cs' \<Rightarrow> consumer_run gu is cs')"


section \<open>What the channel does to the queue\<close>

text \<open>The trace of the channel only grows, and the batches it has locked and those in its queue are always the same, in
  order.\<close>

fun locked_of :: "('dt, 'g, ('dt, 'g) receive_event) channel_event \<Rightarrow> enveloped_ack list list" where
  "locked_of (Ev_client (Batch_locked acks)) = [acks]"
| "locked_of _ = []"

definition locked :: "('dt, 'g, ('dt, 'g) receive_event) channel_event list \<Rightarrow> enveloped_ack list list" where
  "locked tr = concat (map locked_of tr)"

definition grows ::
  "('dt, 'g, ('dt, 'g) receive_event) channel_event list \<Rightarrow> enveloped_ack list list \<Rightarrow> ('dt, 'g, 't) receive_channel \<Rightarrow> bool" where
  "grows tr V rc \<longleftrightarrow> prefix tr (ch_trace rc) \<and> locked (ch_trace rc) @ map ab_acks (rc_ackQueue rc) = V"

lemma grows_simps [simp]:
  "grows tr V (rc\<lparr>ch_flow := f\<rparr>) = grows tr V rc"
  "grows tr V (rc\<lparr>ch_state := s\<rparr>) = grows tr V rc"
  "grows tr V (rc\<lparr>ch_topology := t\<rparr>) = grows tr V rc"
  "grows tr V (rc\<lparr>ch_topologyTransformer := tt\<rparr>) = grows tr V rc"
  "grows tr V (rc\<lparr>ch_topologyCallback := cb\<rparr>) = grows tr V rc"
  "grows tr V (rc\<lparr>ch_updateQueue := q\<rparr>) = grows tr V rc"
  "grows tr V (rc\<lparr>ch_permanentlyClosing := c\<rparr>) = grows tr V rc"
  "grows tr V (rc\<lparr>ch_readyMade := rm\<rparr>) = grows tr V rc"
  "grows tr V (rc\<lparr>ch_promises := p\<rparr>) = grows tr V rc"
  "grows tr V (rc\<lparr>rc_consumer := c'\<rparr>) = grows tr V rc"
  "grows tr V (rc\<lparr>rc_nextMessage := nm\<rparr>) = grows tr V rc"
  "grows tr V (rc\<lparr>rc_messageStore := st\<rparr>) = grows tr V rc"
  "grows tr V (rc\<lparr>rc_multipleAckHandler := h\<rparr>) = grows tr V rc"
  "grows tr V (rc\<lparr>rc_consumeFuture := fu\<rparr>) = grows tr V rc"
  "grows tr V (rc\<lparr>rc_cancelFuture := fu\<rparr>) = grows tr V rc"
  "grows tr V (rc\<lparr>rc_drainFuture := fu\<rparr>) = grows tr V rc"
  "grows tr V (rc\<lparr>rc_channelPausedOnOpen := b\<rparr>) = grows tr V rc"
  by (simp_all add: grows_def)

lemma locked_append [simp]: "locked (tr @ tr') = locked tr @ locked tr'"
  by (simp add: locked_def)

lemma locked_simps [simp]: "locked [] = []" "locked (e # tr) = locked_of e @ locked tr"
  by (simp_all add: locked_def)

lemma grows_emit: "grows tr V rc \<Longrightarrow> locked_of e = [] \<Longrightarrow> grows tr V (emit e rc)"
  by (simp add: grows_def emit_def)

lemma base_event_not_locked: "base_event e \<Longrightarrow> locked_of e = []"
  by (cases e rule: locked_of.cases) simp_all

interpretation grow_members: channel_members "grows tr V" for tr V
  by unfold_locales (simp_all add: grows_emit base_event_not_locked)

lemma grows_write: "grows tr V rc \<Longrightarrow> grows tr V (writeMessage_state m s rc)"
  by (simp add: writeMessage_state_def grows_emit grow_members.inv_updateState)

lemma grows_restart: "grows tr V rc \<Longrightarrow> grows tr V (restartConsumers rc)"
  by (simp add: restartConsumers_def grows_write grows_emit split: option.split prod.split)

lemma grows_resolve:
  "grows tr V rc \<Longrightarrow> grows tr V (resolve_consume r rc)"
  "grows tr V rc \<Longrightarrow> grows tr V (resolve_cancel r rc)"
  "grows tr V rc \<Longrightarrow> grows tr V (resolve_drain r rc)"
  by (simp_all add: resolve_consume_def resolve_cancel_def resolve_drain_def grows_emit split: option.split)

lemma locked_map [simp]: "locked (map (\<lambda>b. Ev_client (Batch_locked (fst (lock b)))) q) = map ab_acks q"
  by (induction q) (simp_all add: lock_def)

lemma grows_lock_all:
  "grows tr V rc \<Longrightarrow> grows tr V (rc\<lparr>rc_nextMessage := nm, rc_multipleAckHandler := h,
     ch_trace := ch_trace rc @ map (\<lambda>b. Ev_client (Batch_locked (fst (lock b)))) (rc_ackQueue rc), rc_ackQueue := []\<rparr>)"
  by (simp add: grows_def)

lemma grows_onReset: "grows tr V rc \<Longrightarrow> grows tr V (ReceiveChannel_onReset rc)"
  unfolding ReceiveChannel_onReset_def Let_def
  by (intro grows_resolve) (simp add: grows_lock_all split: option.split)

lemma grows_reset: "grows tr V rc \<Longrightarrow> grows tr V (snd (Channel_reset (ReceiveChannel_vt now) r rc))"
  by (simp add: Channel_reset_def ReceiveChannel_vt_def ReceiveChannel_processFailures_def grows_emit grows_onReset
      grow_members.inv_updateState Let_def)


lemmas grow_rules = grows_emit grows_write grows_restart grows_resolve grow_members.inv_close grow_members.inv_ready

lemma grows_processConsumeOk: "grows tr V rc \<Longrightarrow> grows tr V (processConsumeOk tag rc)"
  by (simp add: processConsumeOk_def Let_def grow_rules invalidConsumerError_def split: option.split prod.split)

lemma grows_processQoSOk: "grows tr V rc \<Longrightarrow> grows tr V (processQoSOk rc)"
  by (simp add: processQoSOk_def Let_def grow_rules split: option.split)

lemma grows_processCancelOk: "grows tr V rc \<Longrightarrow> grows tr V (processCancelOk tag rc)"
  by (simp add: processCancelOk_def Let_def grow_rules invalidConsumerError_def split: option.split)

lemma grows_basic: "grows tr V rc \<Longrightarrow> grows tr V (ReceiveChannel_processBasicMethod bm rc)"
  by (simp add: ReceiveChannel_processBasicMethod_def processDeliver_def processCancel_def grows_processConsumeOk
      grows_processQoSOk grows_processCancelOk invalidConsumerError_def grow_rules split: BasicMethod.split option.split)

lemma grows_message: "grows tr V rc \<Longrightarrow> grows tr V (ReceiveChannel_processMessage now m rc)"
  by (simp add: ReceiveChannel_processMessage_def Consumer_process_def Let_def grow_rules
      split: option.split prod.split bool.split)

interpretation grow_base: channel_invariant "grows tr V" "ReceiveChannel_vt now" for tr V now
proof (unfold_locales, goal_cases)
  case (6 ch r)
  then show ?case by (rule grows_reset)
qed (simp_all add: ReceiveChannel_vt_def Channel_vt_def grows_basic grows_message ReceiveChannel_onOpen_def grow_rules)

lemma grows_removeMessages: "grows tr V rc \<Longrightarrow> grows tr V (removeMessagesFromStore t m rc)"
  by (simp add: removeMessagesFromStore_def removeSingleMessageFromStore_def removeMultipleMessagesFromStore_def
      Let_def grow_rules split: option.split)

lemma grows_resume: "grows tr V rc \<Longrightarrow> grows tr V (snd (pending (resume rc)))"
  by (simp add: resume_def pending_def make_future_def Let_def grow_rules split: option.split)

lemma grows_pause: "grows tr V rc \<Longrightarrow> grows tr V (snd (pending (pause rc)))"
  by (simp add: pause_def pending_def make_future_def failPendingResume_def Let_def grow_rules split: option.split prod.split)

lemma grows_cancel: "grows tr V rc \<Longrightarrow> cancel rc = Some r \<Longrightarrow> grows tr V (snd (pending r))"
  by (auto simp: cancel_def pending_def make_future_def failPendingResume_def Let_def grow_rules
      split: option.splits prod.splits if_splits)

lemma grows_drain: "grows tr V rc \<Longrightarrow> grows tr V (snd (drain rc))"
  by (simp add: drain_def make_future_def split: option.split)

lemma ack_event_not_locked [simp]: "locked (map ack_event calls) = []"
proof (induction calls)
  case (Cons c calls)
  then show ?case by (cases c) simp_all
qed simp

lemma grows_consumeAcks: "grows tr V rc \<Longrightarrow> grows tr V (consumeAckBatchFromQueue rc)"
  by (auto simp: consumeAckBatchFromQueue_def Let_def grows_def send_calls_result emit_def lock_def
      split: list.split prod.split)

lemma grows_step:
  assumes "grows tr V rc" and "receive_step now i rc = Some (p, rc')" and "\<forall>b. i \<noteq> RI_queueAcks b"
    and "\<forall>lv q tag. i \<noteq> RI_consume lv q tag"
  shows "grows tr V rc'"
proof (cases i)
  case (RI_writeComplete cb)
  then show ?thesis
    using assms by (cases cb) (auto intro: grows_removeMessages grow_base.inv_onWriteComplete)
next
  case RI_cancel
  then show ?thesis
    using assms by (auto dest: grows_cancel)
next
  case RI_resume
  then show ?thesis
    using assms grows_resume [OF assms(1)] by simp
next
  case RI_pause
  then show ?thesis
    using assms grows_pause [OF assms(1)] by simp
qed (use assms in \<open>auto intro: grow_members.inv_open grows_reset grow_base.inv_processReceived grow_members.inv_gracefulClose
      grows_drain grows_consumeAcks grow_base.inv_channelHung grow_members.inv_updateTopology grow_base.inv_waitForReady\<close>)

text \<open>What a step of the channel takes off the queue, it takes from the front and locks; the rest is unchanged.\<close>

lemma locked_in_order:
  assumes "receive_step now i rc = Some (p, rc')" and "\<forall>b. i \<noteq> RI_queueAcks b" and "\<forall>lv q tag. i \<noteq> RI_consume lv q tag"
  obtains es where "ch_trace rc' = ch_trace rc @ es" "locked es @ map ab_acks (rc_ackQueue rc') = map ab_acks (rc_ackQueue rc)"
    "length (locked es) = length (rc_ackQueue rc) - length (rc_ackQueue rc')"
proof -
  have g: "grows (ch_trace rc) (locked (ch_trace rc) @ map ab_acks (rc_ackQueue rc)) rc'"
    by (rule grows_step [OF _ assms]) (simp add: grows_def)
  then obtain es where es: "ch_trace rc' = ch_trace rc @ es"
    by (auto simp: grows_def prefix_def)
  then have q: "locked es @ map ab_acks (rc_ackQueue rc') = map ab_acks (rc_ackQueue rc)"
    using g by (simp add: grows_def)
  have "length (locked es) + length (rc_ackQueue rc') = length (rc_ackQueue rc)"
    using arg_cong [OF q, of length] by simp
  then show ?thesis
    using that es q by simp
qed


section \<open>The invariant\<close>

text \<open>The deliveries the application still has to settle: those of guards that are \<^const>\<open>GS_READY\<close>.\<close>

definition ready_envelopes :: "('dt, 'g, 't) consumer_system \<Rightarrow> envelope list" where
  "ready_envelopes cs =
     map (\<lambda>(a, g). mg_envelope g) (filter (\<lambda>(a, g). mg_state g = GS_READY) (cs_guards cs))"

definition queued_acks :: "('dt, 'g, 't) consumer_system \<Rightarrow> enveloped_ack list" where
  "queued_acks cs = concat (map (\<lambda>b. ab_acks (cs_batches cs ! b)) (cs_ackQueue cs))"

definition locked_acks :: "('dt, 'g, 't) consumer_system \<Rightarrow> enveloped_ack list" where
  "locked_acks cs = concat (locked (ch_trace (cs_channel cs)))"

text \<open>Exactly the batches in the queue are not locked, and the current batch exists.\<close>

definition batches_ok :: "('dt, 'g, 't) consumer_system \<Rightarrow> bool" where
  "batches_ok cs \<longleftrightarrow>
     distinct (cs_ackQueue cs) \<and>
     (\<forall>b. b \<in> set (cs_ackQueue cs) \<longleftrightarrow> b < length (cs_batches cs) \<and> \<not> ab_locked (cs_batches cs ! b)) \<and>
     (\<forall>ci b. cs_consumer cs = Some ci \<longrightarrow> ci_ackBatch ci = Some b \<longrightarrow> b < length (cs_batches cs))"

text \<open>Every delivery is somewhere: with the thread pool, never delivered, with a guard, acknowledged, or in the hands of a
  thread that is settling it (\<open>E\<close>). Every acknowledgement is in a batch that was locked, or in a batch in the queue.\<close>

definition consumer_core :: "envelope list \<Rightarrow> ('dt, 'g, 't) consumer_system \<Rightarrow> bool" where
  "consumer_core E cs \<longleftrightarrow>
     batches_ok cs \<and>
     distinct (map fst (cs_guards cs)) \<and> (\<forall>a \<in> fst ` set (cs_guards cs). a < cs_guardAddress cs) \<and>
     mset (map snd (handed_over (ch_trace (cs_channel cs)))) =
       mset (map snd (cs_jobs cs)) + mset (map snd (cs_undelivered cs)) + mset (ready_envelopes cs) +
       mset (map fst (cs_acked cs)) + mset (map fst (cs_ignored cs)) + mset E \<and>
     mset (cs_acked cs) = mset (locked_acks cs) + mset (queued_acks cs)"

text \<open>For each batch in the queue a call of \<open>consumeAckBatchFromQueue\<close> is posted.\<close>

definition consumer_inv :: "('dt, 'g, 't) consumer_system \<Rightarrow> bool" where
  "consumer_inv cs \<longleftrightarrow> consumer_core [] cs \<and> length (cs_ackQueue cs) \<le> cs_posted cs"

lemmas core_parts = batches_ok_def ready_envelopes_def locked_acks_def queued_acks_def

lemma mset_mem_split:
  assumes "map_of gs a = Some g" and "distinct (map fst gs)"
  shows "mset gs = add_mset (a, g) (mset (AList.delete a gs))"
  using assms by (induction gs) (auto simp: delete_id split: if_splits)

lemma mset_update:
  assumes "map_of gs a = Some g" and "distinct (map fst gs)"
  shows "mset (AList.update a g' gs) = add_mset (a, g') (mset (AList.delete a gs))"
  using assms by (induction gs) (auto simp: delete_id split: if_splits)

lemma lock_cells_length [simp]: "length (lock_cells bs batches) = length batches"
  by (induction bs batches rule: lock_cells.induct) simp_all

lemma lock_cells_nth:
  "b < length batches \<Longrightarrow> set bs \<subseteq> {..<length batches} \<Longrightarrow>
     ab_acks (lock_cells bs batches ! b) = ab_acks (batches ! b) \<and>
     (ab_locked (lock_cells bs batches ! b) \<longleftrightarrow> b \<in> set bs \<or> ab_locked (batches ! b))"
  by (induction bs batches rule: lock_cells.induct) (auto simp: nth_list_update lock_def)


lemma handed_over_append [simp]: "handed_over (tr @ tr') = handed_over tr @ handed_over tr'"
  by (simp add: handed_over_def)

lemma set_drop_distinct: "distinct xs \<Longrightarrow> set (drop n xs) = set xs - set (take n xs)"
  using set_take_disj_set_drop_if_distinct [of xs n n] set_append [of "take n xs" "drop n xs"] by auto

lemma consumer_core_channel:
  assumes inv: "consumer_core E cs" and step: "consumer_channel_step now i cs = Some cs'"
    and i: "\<forall>b. i \<noteq> RI_queueAcks b" "\<forall>lv q tag. i \<noteq> RI_consume lv q tag"
  shows "consumer_core E cs'" and "length (cs_ackQueue cs') \<le> length (cs_ackQueue cs)" and "cs_posted cs' = cs_posted cs"
proof -
  let ?q = "cs_ackQueue cs" and ?bs = "cs_batches cs"
  obtain p rc where rc: "receive_step now i (with_queue cs) = Some (p, rc)"
    using step by (auto simp: consumer_channel_step_def split: option.splits)
  define n where "n = length ?q - length (rc_ackQueue rc)"
  obtain es where es: "ch_trace rc = ch_trace (cs_channel cs) @ es"
    and lk: "locked es @ map ab_acks (rc_ackQueue rc) = map (\<lambda>b. ab_acks (?bs ! b)) ?q" and n: "length (locked es) = n"
    using locked_in_order [OF rc i] by (auto simp: with_queue_def n_def comp_def)
  have cs': "cs' = handleMessage (handed_over es)
      (cs\<lparr>cs_channel := rc, cs_batches := lock_cells (take n ?q) ?bs, cs_ackQueue := drop n ?q\<rparr>)"
    using step rc es by (simp add: consumer_channel_step_def n_def Let_def)
  have qs: "\<forall>b \<in> set ?q. b < length ?bs"
    using inv by (auto simp: consumer_core_def batches_ok_def)
  have cells: "ab_acks (lock_cells (take n ?q) ?bs ! b) = ab_acks (?bs ! b)"
      "ab_locked (lock_cells (take n ?q) ?bs ! b) \<longleftrightarrow> b \<in> set (take n ?q) \<or> ab_locked (?bs ! b)"
    if "b < length ?bs" for b
    using lock_cells_nth [OF that, of "take n ?q"] qs by (auto dest: in_set_takeD)
  have "locked es = map (\<lambda>b. ab_acks (?bs ! b)) (take n ?q)"
    using lk n by (metis append_eq_conv_conj take_map)
  moreover have "queued_acks cs = concat (map (\<lambda>b. ab_acks (?bs ! b)) (take n ?q)) @ concat (map (\<lambda>b. ab_acks (?bs ! b)) (drop n ?q))"
    by (simp add: queued_acks_def flip: concat_append map_append)
  moreover have "queued_acks cs' = concat (map (\<lambda>b. ab_acks (lock_cells (take n ?q) ?bs ! b)) (drop n ?q))"
    by (simp add: queued_acks_def cs' handleMessage_def)
  moreover have "map (\<lambda>b. ab_acks (lock_cells (take n ?q) ?bs ! b)) (drop n ?q) = map (\<lambda>b. ab_acks (?bs ! b)) (drop n ?q)"
    using cells(1) qs by (auto dest: in_set_dropD)
  ultimately have acks: "mset (concat (locked es)) + mset (queued_acks cs') = mset (queued_acks cs)"
    by (simp only: mset_append)
  have ok: "batches_ok cs"
    using inv by (simp add: consumer_core_def)
  have "set (drop n ?q) = set ?q - set (take n ?q)"
    using ok by (intro set_drop_distinct) (simp add: batches_ok_def)
  then have "b \<in> set (drop n ?q) \<longleftrightarrow> b < length ?bs \<and> \<not> ab_locked (lock_cells (take n ?q) ?bs ! b)" for b
    using ok cells(2) [of b] unfolding batches_ok_def by blast
  then have "batches_ok cs'"
    using ok unfolding batches_ok_def cs' handleMessage_def by simp
  moreover have "cs_channel cs' = rc" "cs_guards cs' = cs_guards cs" "cs_guardAddress cs' = cs_guardAddress cs"
      "cs_acked cs' = cs_acked cs" "cs_ignored cs' = cs_ignored cs"
      "mset (map snd (cs_jobs cs')) + mset (map snd (cs_undelivered cs')) =
         mset (map snd (cs_jobs cs)) + mset (map snd (cs_undelivered cs)) + mset (map snd (handed_over es))"
    by (simp_all add: cs' handleMessage_def)
  ultimately show "consumer_core E cs'"
    using inv acks unfolding consumer_core_def ready_envelopes_def locked_acks_def
    by (simp add: es ac_simps)
  show "length (cs_ackQueue cs') \<le> length (cs_ackQueue cs)" "cs_posted cs' = cs_posted cs"
    by (simp_all add: cs' handleMessage_def)
qed


lemma consumer_core_ack:
  assumes core: "consumer_core (fst ack # E) cs" and ci: "cs_consumer cs = Some ci"
    and queue: "length (cs_ackQueue cs) \<le> cs_posted cs"
  shows "consumer_core E (ackMessage ack ci (cs\<lparr>cs_acked := cs_acked cs @ [ack]\<rparr>)) \<and>
    length (cs_ackQueue (ackMessage ack ci (cs\<lparr>cs_acked := cs_acked cs @ [ack]\<rparr>))) \<le>
      cs_posted (ackMessage ack ci (cs\<lparr>cs_acked := cs_acked cs @ [ack]\<rparr>))"
proof (cases "\<exists>b. ci_ackBatch ci = Some b \<and> \<not> ab_locked (cs_batches cs ! b)")
  case True
  then obtain b where b: "ci_ackBatch ci = Some b" "\<not> ab_locked (cs_batches cs ! b)"
    by blast
  have ok: "batches_ok cs"
    using core by (simp add: consumer_core_def)
  have len: "b < length (cs_batches cs)" and q: "b \<in> set (cs_ackQueue cs)"
    using ok b ci by (auto simp: batches_ok_def)
  let ?batches = "(cs_batches cs)[b := (cs_batches cs ! b)\<lparr>ab_acks := ab_acks (cs_batches cs ! b) @ [ack]\<rparr>]"
  have ack: "ackMessage ack ci (cs\<lparr>cs_acked := cs_acked cs @ [ack]\<rparr>) = cs\<lparr>cs_acked := cs_acked cs @ [ack], cs_batches := ?batches\<rparr>"
    using b by (simp add: ackMessage_def try_addAck_def addAck_def)
  obtain xs ys where xs: "cs_ackQueue cs = xs @ b # ys" "b \<notin> set xs" "b \<notin> set ys"
    using q ok by (metis batches_ok_def distinct.simps(2) distinct_append not_distinct_conv_prefix split_list)
  have other: "map (\<lambda>i. ab_acks (?batches ! i)) zs = map (\<lambda>i. ab_acks (cs_batches cs ! i)) zs" if "b \<notin> set zs" for zs
    using that by (intro map_cong refl) (metis nth_list_update_neq)
  have "mset (queued_acks (cs\<lparr>cs_batches := ?batches\<rparr>)) = add_mset ack (mset (queued_acks cs))"
    unfolding queued_acks_def using xs(1) other [OF xs(2)] other [OF xs(3)] len by (simp del: map_eq_conv)
  then have "mset (queued_acks (cs\<lparr>cs_acked := cs_acked cs @ [ack], cs_batches := ?batches\<rparr>)) = add_mset ack (mset (queued_acks cs))"
    by (simp add: queued_acks_def)
  moreover have "ab_locked (?batches ! i) = ab_locked (cs_batches cs ! i)" for i
    using len by (cases "i = b") auto
  then have "batches_ok (cs\<lparr>cs_acked := cs_acked cs @ [ack], cs_batches := ?batches\<rparr>)"
    using ok by (simp add: batches_ok_def)
  ultimately show ?thesis
    unfolding ack using core queue by (simp add: consumer_core_def ready_envelopes_def locked_acks_def)
next
  case False
  let ?new = "\<lparr>ab_locked = False, ab_acks = [ack]\<rparr>" and ?n = "length (cs_batches cs)"
  have ok: "batches_ok cs"
    using core by (simp add: consumer_core_def)
  have "try_addAck (ci_ackBatch ci) ack (cs_batches cs) = (False, cs_batches cs)"
    using False ok ci by (auto simp: try_addAck_def addAck_def batches_ok_def split: option.splits)
  then have ack: "ackMessage ack ci (cs\<lparr>cs_acked := cs_acked cs @ [ack]\<rparr>) =
      cs\<lparr>cs_acked := cs_acked cs @ [ack], cs_consumer := Some (ci\<lparr>ci_ackBatch := Some ?n\<rparr>), cs_batches := cs_batches cs @ [?new],
         cs_ackQueue := cs_ackQueue cs @ [?n], cs_posted := cs_posted cs + 1\<rparr>"
    by (simp add: ackMessage_def addAck_def ConsumerAckBatch_new_def)
  have small: "\<forall>b \<in> set (cs_ackQueue cs). b < ?n"
    using ok by (auto simp: batches_ok_def)
  then have "map (\<lambda>i. ab_acks ((cs_batches cs @ [?new]) ! i)) (cs_ackQueue cs) = map (\<lambda>i. ab_acks (cs_batches cs ! i)) (cs_ackQueue cs)"
    by (simp add: nth_append)
  then have "queued_acks (ackMessage ack ci (cs\<lparr>cs_acked := cs_acked cs @ [ack]\<rparr>)) = queued_acks cs @ [ack]"
    unfolding ack by (simp add: queued_acks_def del: map_eq_conv)
  moreover have "batches_ok (ackMessage ack ci (cs\<lparr>cs_acked := cs_acked cs @ [ack]\<rparr>))"
    unfolding ack using ok small by (auto simp: batches_ok_def nth_append)
  ultimately show ?thesis
    using core queue unfolding consumer_core_def ack by (simp add: ready_envelopes_def locked_acks_def)
qed


text \<open>The invariant while a thread is settling deliveries.\<close>

definition settling :: "envelope list \<Rightarrow> ('dt, 'g, 't) consumer_system \<Rightarrow> bool" where
  "settling E cs \<longleftrightarrow> consumer_core E cs \<and> length (cs_ackQueue cs) \<le> cs_posted cs"

lemma settling_nil [simp]: "settling [] cs = consumer_inv cs"
  by (simp add: settling_def consumer_inv_def)

lemma settling_messageGuardCb:
  assumes "settling (fst ack # E) cs"
  shows "settling E (messageGuardCb ack cs)"
proof (cases "cs_consumer cs")
  case None
  then have "messageGuardCb ack cs = cs\<lparr>cs_ignored := cs_ignored cs @ [ack]\<rparr>"
    by (simp add: messageGuardCb_def)
  then show ?thesis
    using assms by (simp add: settling_def consumer_core_def core_parts)
next
  case (Some ci)
  then show ?thesis
    using consumer_core_ack [of ack E cs ci] assms by (simp add: messageGuardCb_def settling_def)
qed

lemma settling_fold: "settling (map fst acks @ E) cs \<Longrightarrow> settling E (fold messageGuardCb acks cs)"
  by (induction acks arbitrary: cs) (auto intro: settling_messageGuardCb)

lemma delete_fst_subset: "fst ` set (AList.delete a gs) \<subseteq> fst ` set gs"
  by (auto simp: AList.delete_eq)

lemma core_guards:
  assumes core: "consumer_inv cs" and a: "map_of (cs_guards cs) a = Some g"
    and gs: "mset gs = mset new + mset (AList.delete a (cs_guards cs))"
    and fresh: "distinct (map fst gs)" "\<forall>(a', g') \<in> set new. a' < n" "cs_guardAddress cs \<le> n"
    and envs: "mset (if mg_state g = GS_READY then [mg_envelope g] else []) =
      mset (map (\<lambda>(a, g). mg_envelope g) (filter (\<lambda>(a, g). mg_state g = GS_READY) new)) + mset E"
  shows "settling E (cs\<lparr>cs_guards := gs, cs_guardAddress := n\<rparr>)"
proof -
  let ?env = "\<lambda>gs. image_mset (\<lambda>(a, g). mg_envelope g) (filter_mset (\<lambda>(a, g). mg_state g = GS_READY) (mset gs))"
  have d: "distinct (map fst (cs_guards cs))"
    using core by (simp add: consumer_inv_def consumer_core_def)
  have "?env (cs_guards cs) = mset (if mg_state g = GS_READY then [mg_envelope g] else []) + ?env (AList.delete a (cs_guards cs))"
    unfolding mset_mem_split [OF a d] by simp
  then have "mset (ready_envelopes cs) = mset (ready_envelopes (cs\<lparr>cs_guards := gs, cs_guardAddress := n\<rparr>)) + mset E"
    unfolding envs ready_envelopes_def by (simp add: gs ac_simps)
  moreover have "\<forall>a \<in> fst ` set gs. a < n"
  proof
    fix x assume "x \<in> fst ` set gs"
    then have "x \<in> fst ` set new \<or> x \<in> fst ` set (AList.delete a (cs_guards cs))"
      using arg_cong [OF gs, of set_mset] by auto
    then show "x < n"
      using fresh(2,3) core delete_fst_subset [of a "cs_guards cs"] by (fastforce simp: consumer_inv_def consumer_core_def)
  qed
  ultimately show ?thesis
    using core fresh(1) unfolding settling_def consumer_inv_def consumer_core_def
    by (simp add: batches_ok_def locked_acks_def queued_acks_def ac_simps)
qed


lemma guard_results:
  "resolve t g = (acks, g') \<Longrightarrow>
     (mg_state g = GS_READY \<and> acks = [(mg_envelope g, t)] \<and> mg_state g' = GS_RESOLVED) \<or>
     (mg_state g \<noteq> GS_READY \<and> acks = [] \<and> g' = g)"
  by (cases "mg_state g") (auto simp: resolve_def)

lemma consumer_inv_resolve:
  assumes inv: "consumer_inv cs" and a: "map_of (cs_guards cs) a = Some g" and r: "resolve t g = (acks, g')"
  shows "consumer_inv (fold messageGuardCb acks (cs\<lparr>cs_guards := AList.update a g' (cs_guards cs)\<rparr>))"
proof -
  have d: "distinct (map fst (cs_guards cs))" and n: "\<forall>a \<in> fst ` set (cs_guards cs). a < cs_guardAddress cs"
    using inv by (simp_all add: consumer_inv_def consumer_core_def)
  have "a < cs_guardAddress cs"
    using n map_of_SomeD [OF a] by force
  then have "settling (map fst acks) (cs\<lparr>cs_guards := AList.update a g' (cs_guards cs), cs_guardAddress := cs_guardAddress cs\<rparr>)"
    using mset_update [OF a d, of g'] d guard_results [OF r]
    by (intro core_guards [OF inv a, where new = "[(a, g')]"]) (auto intro: distinct_update)
  then show ?thesis
    using settling_fold [of acks "[]"] by simp
qed

lemma consumeAcks_tl: "rc_ackQueue (consumeAckBatchFromQueue rc) = tl (rc_ackQueue rc)"
  by (simp add: consumeAckBatchFromQueue_def send_calls_result emit_def Let_def split: list.split prod.split)

lemma consumer_inv_step:
  assumes inv: "consumer_inv cs" and step: "consumer_step gu i cs = Some cs'"
  shows "consumer_inv cs'"
proof (cases i)
  case (CI_channel now j)
  then have "not_of_consumer j" and s: "consumer_channel_step now j cs = Some cs'"
    using step by (simp_all split: if_splits)
  then have "\<forall>b. j \<noteq> RI_queueAcks b" "\<forall>lv q tag. j \<noteq> RI_consume lv q tag"
    by auto
  then show ?thesis
    using consumer_core_channel [OF _ s, of "[]"] inv by (simp add: consumer_inv_def)
next
  case CI_disablePool
  then have "cs' = cs\<lparr>cs_poolEnabled := False\<rparr>"
    using step by simp
  with inv show ?thesis
    by (simp add: consumer_inv_def consumer_core_def core_parts)
next
  case (CI_job fresh d)
  define js where "js = remove1 d (cs_jobs cs)"
  have "d \<in> set (cs_jobs cs)" and s: "threadPoolHandleMessage gu fresh d (cs\<lparr>cs_jobs := js\<rparr>) = Some cs'"
    using step CI_job by (simp_all add: js_def split: if_splits)
  then have "mset (cs_jobs cs) = add_mset d (mset js)"
    by (simp add: js_def)
  then have js: "mset (map snd (cs_jobs cs)) = add_mset (snd d) (mset (map snd js))"
    by simp
  obtain m env where d: "d = (m, env)" by (cases d)
  have n: "\<forall>a \<in> fst ` set (cs_guards cs). a < cs_guardAddress cs"
    using inv by (simp add: consumer_inv_def consumer_core_def)
  have "cs' = cs\<lparr>cs_jobs := js, cs_undelivered := cs_undelivered cs @ [d]\<rparr> \<or>
      (\<exists>m'. cs' = cs\<lparr>cs_jobs := js, cs_guards := (cs_guardAddress cs, MessageGuard_new m' env) # cs_guards cs,
        cs_guardAddress := cs_guardAddress cs + 1\<rparr>)"
    using s d by (auto simp: threadPoolHandleMessage_def split: option.splits transform_result.splits)
  then show ?thesis
  proof (elim disjE exE)
    assume "cs' = cs\<lparr>cs_jobs := js, cs_undelivered := cs_undelivered cs @ [d]\<rparr>"
    then show ?thesis
      using inv js by (simp add: consumer_inv_def consumer_core_def core_parts)
  next
    fix m'
    assume "cs' = cs\<lparr>cs_jobs := js, cs_guards := (cs_guardAddress cs, MessageGuard_new m' env) # cs_guards cs,
        cs_guardAddress := cs_guardAddress cs + 1\<rparr>"
    then show ?thesis
      using inv js d n by (auto simp: consumer_inv_def consumer_core_def core_parts MessageGuard_new_def less_SucI)
  qed
next
  case (CI_ack a)
  then show ?thesis
    using step consumer_inv_resolve [OF inv, of a _ ACK] by (auto simp: guard_ack_def split: option.splits prod.splits)
next
  case (CI_nack a requeue)
  then show ?thesis
    using step consumer_inv_resolve [OF inv, of a _ "if requeue then REQUEUE else REJECT"]
    by (auto simp: guard_nack_def split: option.splits prod.splits)
next
  case (CI_transfer a)
  then obtain g where a: "map_of (cs_guards cs) a = Some g"
    using step by (auto split: option.splits)
  let ?new = "(cs_guardAddress cs, fst (MessageGuard_copy g))" and ?old = "snd (MessageGuard_copy g)"
  have cs': "cs' = cs\<lparr>cs_guards := ?new # AList.update a ?old (cs_guards cs), cs_guardAddress := cs_guardAddress cs + 1\<rparr>"
    using step CI_transfer a by (auto simp: transferOwnership_def split: prod.splits)
  have d: "distinct (map fst (cs_guards cs))" and n: "\<forall>a \<in> fst ` set (cs_guards cs). a < cs_guardAddress cs"
    using inv by (simp_all add: consumer_inv_def consumer_core_def)
  have "a < cs_guardAddress cs"
    using n map_of_SomeD [OF a] by force
  then have "cs_guardAddress cs \<notin> fst ` set (AList.update a ?old (cs_guards cs))"
    using n by (auto simp: dom_update)
  then have "settling [] cs'"
    unfolding cs' using mset_update [OF a d, of ?old] d \<open>a < cs_guardAddress cs\<close>
    by (intro core_guards [OF inv a, where new = "[?new, (a, ?old)]"])
      (auto simp: MessageGuard_copy_def intro: distinct_update)
  then show ?thesis by simp
next
  case (CI_destroyGuard a)
  then obtain g where a: "map_of (cs_guards cs) a = Some g"
    and cs': "cs' = fold messageGuardCb (MessageGuard_destroy g) (cs\<lparr>cs_guards := AList.delete a (cs_guards cs)\<rparr>)"
    using step by (auto split: option.splits)
  have "settling (map fst (MessageGuard_destroy g)) (cs\<lparr>cs_guards := AList.delete a (cs_guards cs), cs_guardAddress := cs_guardAddress cs\<rparr>)"
    using inv by (intro core_guards [OF inv a, where new = "[]"])
      (auto simp: MessageGuard_destroy_def consumer_inv_def consumer_core_def intro: distinct_delete)
  then show ?thesis
    unfolding cs' using settling_fold [of "MessageGuard_destroy g" "[]"] by simp
next
  case (CI_consumeAcks now)
  then obtain n where n: "cs_posted cs = Suc n" and s: "consumer_channel_step now RI_consumeAcks (cs\<lparr>cs_posted := n\<rparr>) = Some cs'"
    using step by (auto split: nat.splits)
  have core: "consumer_core [] (cs\<lparr>cs_posted := n\<rparr>)"
    using inv by (simp add: consumer_inv_def consumer_core_def core_parts)
  have "length (cs_ackQueue cs') = length (cs_ackQueue cs) - 1"
    using s by (auto simp: consumer_channel_step_def handleMessage_def Let_def consumeAcks_tl with_queue_def split: if_splits)
  then show ?thesis
    using consumer_core_channel [OF core s] inv n by (auto simp: consumer_inv_def)
next
  case CI_destroyConsumer
  then have "cs' = ConsumerImpl_destroy cs"
    using step by (simp split: if_splits)
  with inv show ?thesis
    by (simp add: consumer_inv_def consumer_core_def core_parts
        ConsumerImpl_destroy_def)
next
  case (CI_close now)
  then have s: "consumer_channel_step now RI_gracefulClose (cs\<lparr>cs_closePosted := False\<rparr>) = Some cs'"
    using step by (simp split: if_splits)
  have "consumer_inv (cs\<lparr>cs_closePosted := False\<rparr>)"
    using inv by (simp add: consumer_inv_def consumer_core_def core_parts)
  then show ?thesis
    using consumer_core_channel [OF _ s, of "[]"] by (simp add: consumer_inv_def)
qed


lemma consumer_inv_run: "consumer_inv cs \<Longrightarrow> consumer_run gu is cs = Some cs' \<Longrightarrow> consumer_inv cs'"
  by (induction "is" arbitrary: cs) (auto split: option.splits dest: consumer_inv_step)

lemma consume_trace:
  assumes "ReceiveChannel_consume lv q tag rc = Some (r, rc')" and "handed_over (ch_trace rc) = []" and "locked (ch_trace rc) = []"
  shows "handed_over (ch_trace rc') = []" "locked (ch_trace rc') = []"
  using assms
  by (auto simp: ReceiveChannel_consume_def restartConsumers_def writeMessage_state_def updateState_def Channel_ready_def
      emit_def Let_def handed_over_def locked_def split: option.splits prod.splits if_splits)

lemma consumer_inv_start:
  assumes "ConsumerImpl_start lv ci rc = Some (r, cs)" and "handed_over (ch_trace rc) = []" and "locked (ch_trace rc) = []"
    and "ci_ackBatch ci = None"
  shows "consumer_inv cs"
  using assms consume_trace [OF _ assms(2,3)]
  by (auto simp: ConsumerImpl_start_def consumer_inv_def consumer_core_def core_parts)

section \<open>Properties\<close>

text \<open>C5: Every delivery is settled at most once, and no acknowledgement is lost. From a consumer started on a channel that has
  delivered nothing yet, in every interleaving of event loop, thread pool and application threads (which may ack, nack,
  transfer and destroy guards in any order, and several times): each delivery of the channel is in exactly one place, as
  a job, never delivered, with exactly one guard that can still settle it, or settled with exactly one acknowledgement
  given to the consumer, or after its destruction. The acknowledgements given to the consumer are exactly those in
  batches the channel has taken and those in batches queued for it, and for each of these the event loop has a call to
  take it.\<close>

theorem deliveries_settled_once:
  assumes "ConsumerImpl_start lv (ConsumerImpl_new queue tag ts) rc = Some (r, cs0)"
    and "handed_over (ch_trace rc) = []" and "locked (ch_trace rc) = []" and "consumer_run gu is cs0 = Some cs"
  shows "mset (map snd (handed_over (ch_trace (cs_channel cs)))) =
      mset (map snd (cs_jobs cs)) + mset (map snd (cs_undelivered cs)) + mset (ready_envelopes cs) +
      mset (map fst (cs_acked cs)) + mset (map fst (cs_ignored cs)) \<and>
    mset (cs_acked cs) = mset (locked_acks cs) + mset (queued_acks cs) \<and>
    length (cs_ackQueue cs) \<le> cs_posted cs"
proof -
  have "consumer_inv cs0"
    by (rule consumer_inv_start [OF assms(1-3)]) (simp add: ConsumerImpl_new_def)
  then have "consumer_inv cs"
    by (rule consumer_inv_run [OF _ assms(4)])
  then show ?thesis
    by (simp add: consumer_inv_def consumer_core_def)
qed



lemma undelivered_ack [simp]: "cs_undelivered (messageGuardCb a cs) = cs_undelivered cs"
  by (simp add: messageGuardCb_def ackMessage_def split: option.split prod.split bool.split)

lemma undelivered_acks [simp]: "cs_undelivered (fold messageGuardCb as cs) = cs_undelivered cs"
  by (induction as arbitrary: cs) simp_all

lemma undelivered_channel:
  "consumer_channel_step now j cs = Some cs' \<Longrightarrow> set (cs_undelivered cs) \<subseteq> set (cs_undelivered cs')"
  by (auto simp: consumer_channel_step_def handleMessage_def Let_def split: option.splits if_splits)

lemma undelivered_kept:
  "consumer_step gu i cs = Some cs' \<Longrightarrow> set (cs_undelivered cs) \<subseteq> set (cs_undelivered cs')"
  by (cases i) (auto simp: threadPoolHandleMessage_def ConsumerImpl_destroy_def dest!: undelivered_channel
      split: option.splits if_splits prod.splits nat.splits transform_result.splits)

lemma undelivered_run: "consumer_run gu is cs = Some cs' \<Longrightarrow> set (cs_undelivered cs) \<subseteq> set (cs_undelivered cs')"
  by (induction "is" arbitrary: cs) (use undelivered_kept in \<open>fastforce split: option.splits\<close>)+

text \<open>A message whose transformations cannot be undone is never settled: no guard is made for it, and whatever happens
  later, neither an ack nor a nack is given for it (deliveries have distinct envelopes). It counts against the prefetch
  limit of the channel until the channel is gone.\<close>

theorem failed_unpack_never_settled:
  assumes "ConsumerImpl_start lv (ConsumerImpl_new queue tag ts) rc = Some (r, cs0)"
    and "handed_over (ch_trace rc) = []" and "locked (ch_trace rc) = []" and "consumer_run gu is1 cs0 = Some cs1"
    and "cs_consumer cs1 = Some ci" and "ci_transformers ci \<noteq> []"
    and "unpackTransformations gu fresh (ci_transformers ci) m = TR_failed"
    and "consumer_run gu (CI_job fresh (m, env) # is2) cs1 = Some cs2"
    and "distinct (map snd (handed_over (ch_trace (cs_channel cs2))))"
  shows "env \<notin> set (ready_envelopes cs2) \<and> env \<notin> fst ` set (cs_acked cs2) \<and> env \<notin> fst ` set (cs_ignored cs2)"
proof -
  have "consumer_inv cs1"
    by (rule consumer_inv_run [OF consumer_inv_start [OF assms(1-3)] assms(4)]) (simp add: ConsumerImpl_new_def)
  then have inv: "consumer_inv cs2"
    by (rule consumer_inv_run [OF _ assms(8)])
  obtain cs where cs: "consumer_step gu (CI_job fresh (m, env)) cs1 = Some cs" "consumer_run gu is2 cs = Some cs2"
    using assms(8) by (auto split: option.splits)
  have "(m, env) \<in> set (cs_undelivered cs)"
    using cs(1) assms(5-7) by (auto simp: threadPoolHandleMessage_def split: if_splits)
  then have env: "env \<in> set (map snd (cs_undelivered cs2))"
    using undelivered_run [OF cs(2)] by force
  let ?M = "mset (map snd (cs_undelivered cs2))"
    and ?N = "mset (ready_envelopes cs2) + mset (map fst (cs_acked cs2)) + mset (map fst (cs_ignored cs2))"
  have "count (mset (map snd (handed_over (ch_trace (cs_channel cs2))))) env \<le> 1"
    using assms(9) by (metis count_mset_0_iff distinct_count_atmost_1 le_numeral_extra(4) zero_le_one)
  then have "count (?M + ?N) env \<le> 1"
    using inv by (simp add: consumer_inv_def consumer_core_def)
  moreover have "0 < count ?M env"
    using env by (metis count_greater_zero_iff set_mset_mset)
  ultimately have "count ?N env = 0"
    unfolding count_union by linarith
  then have "env \<notin># ?N"
    by (simp only: not_in_iff)
  then show ?thesis
    by simp
qed


text \<open>While nothing is acknowledged the consumer follows the channel.\<close>

lemma consumer_run_channel:
  assumes "receive_run is (cs_channel cs) = Some (ps, rc)" and "cs_ackQueue cs = []" and "rc_ackQueue (cs_channel cs) = []"
    and "cs_poolEnabled cs" and "\<forall>(now, i) \<in> set is. not_of_consumer i"
  shows "consumer_run gu (map (\<lambda>(now, i). CI_channel now i) is) cs =
    Some (cs\<lparr>cs_channel := rc, cs_jobs := cs_jobs cs @ handed_over (drop (length (ch_trace (cs_channel cs))) (ch_trace rc))\<rparr>) \<and>
    prefix (ch_trace (cs_channel cs)) (ch_trace rc)"
  using assms
proof (induction "is" arbitrary: cs ps)
  case Nil
  then show ?case by (simp add: handed_over_def)
next
  case (Cons x xs)
  obtain now i where x: "x = (now, i)" by (cases x)
  then obtain p ps' rc1 where s: "receive_step now i (cs_channel cs) = Some (p, rc1)" and r: "receive_run xs rc1 = Some (ps', rc)"
    using Cons.prems(1) by (auto split: option.splits)
  have "\<forall>b. i \<noteq> RI_queueAcks b" "\<forall>lv q tag. i \<noteq> RI_consume lv q tag"
    using Cons.prems(5) x by auto
  then obtain es where es: "ch_trace rc1 = ch_trace (cs_channel cs) @ es"
    "locked es @ map ab_acks (rc_ackQueue rc1) = map ab_acks (rc_ackQueue (cs_channel cs))"
    using locked_in_order [OF s] by metis
  then have q: "rc_ackQueue rc1 = []"
    using Cons.prems(3) by simp
  have w: "with_queue cs = cs_channel cs"
    using Cons.prems(2,3) by (simp add: with_queue_def)
  let ?cs = "cs\<lparr>cs_channel := rc1, cs_jobs := cs_jobs cs @ handed_over es\<rparr>"
  have "consumer_step gu (CI_channel now i) cs = Some ?cs"
    using Cons.prems(2,4,5) x s w es(1) by (simp add: consumer_channel_step_def handleMessage_def)
  moreover have "consumer_run gu (map (\<lambda>(now, i). CI_channel now i) xs) ?cs =
      Some (?cs\<lparr>cs_channel := rc, cs_jobs := cs_jobs ?cs @ handed_over (drop (length (ch_trace rc1)) (ch_trace rc))\<rparr>) \<and>
      prefix (ch_trace rc1) (ch_trace rc)"
    using Cons.IH [of ?cs ps'] r q Cons.prems(2,4,5) by simp
  ultimately show ?case
    using x es(1) by (auto simp: prefix_def)
qed

text \<open>A consumer that starts, gets a message and acknowledges it.\<close>

definition sample_deliver :: "(nat, nat) message \<Rightarrow> (nat \<times> (nat, nat) receive_input) list" where
  "sample_deliver m =
     [(0, RI_open), (0, RI_received sample_live (Msg_Method (Channel M_ChannelOpenOk))),
      received_basic M_BasicQoSOk,
      received_basic (M_BasicConsumeOk \<lparr>consumeOk_consumerTag = bstr ''c''\<rparr>),
      received_basic (M_BasicDeliver \<lparr>deliver_consumerTag = bstr ''c'', deliver_deliveryTag = 1,
        deliver_redelivered = False, deliver_exchange = [], deliver_routingKey = []\<rparr>),
      (0, RI_received sample_live (Msg_Content m))]"

definition sample_channel_inputs :: "(nat, nat) message \<Rightarrow> (nat, nat, nat) consumer_input list" where
  "sample_channel_inputs m = map (\<lambda>(now, i). CI_channel now i) (sample_deliver m)"

definition sample_guids :: "nat guid_util" where
  "sample_guids = \<lparr>guidToString = (\<lambda>_. [1]), guidFromString = (\<lambda>_. None)\<rparr>"

definition sample_started :: "(nat, nat, nat) receive_channel" where
  "sample_started = sample_receive_channel\<lparr>rc_consumer := Some (Consumer_new (bstr ''q'') (bstr ''c'') False)\<rparr>"

lemma sample_started: "ReceiveChannel_consume sample_live 0 (bstr ''c'') sample_receive_channel = Some (Result_ok, sample_started)"
  by (simp add: ReceiveChannel_consume_def sample_live_def sample_started_def sample_receive_channel_def ReceiveChannel_new_def
      consumer_defs)

lemma sample_started_channel: "ch_trace sample_started = []" "rc_ackQueue sample_started = []"
  by (simp_all add: sample_started_def sample_receive_channel_def ReceiveChannel_new_def)

lemma sample_deliver_run:
  obtains rc where "receive_run (sample_deliver m) sample_started = Some ({}, rc)"
    "handed_over (ch_trace rc) = [(m, sample_envelope)]" "locked (ch_trace rc) = []"
  by (simp add: sample_deliver_def sample_started_def sample_envelope_def receive_eval empty_topology_transformer
      sample_live_def locked_def handed_over_def)


lemma consumer_run_append:
  "consumer_run gu (is @ js) cs = (case consumer_run gu is cs of None \<Rightarrow> None | Some cs' \<Rightarrow> consumer_run gu js cs')"
  by (induction "is" arbitrary: cs) (auto split: option.split)

definition sample_system ::
  "nat transformer list \<Rightarrow> (nat, nat) delivery list \<Rightarrow> (nat, nat, nat) receive_channel \<Rightarrow> (nat, nat, nat) consumer_system" where
  "sample_system ts jobs rc =
     \<lparr>cs_consumer = Some (ConsumerImpl_new 0 (bstr ''c'') ts), cs_channel = rc, cs_poolEnabled = True, cs_jobs = jobs,
      cs_undelivered = [], cs_guards = [], cs_guardAddress = 0, cs_batches = [], cs_ackQueue = [], cs_posted = 0,
      cs_acked = [], cs_ignored = [], cs_closePosted = False\<rparr>"

lemma sample_system_run:
  obtains rc where
    "ConsumerImpl_start sample_live (ConsumerImpl_new 0 (bstr ''c'') ts) sample_receive_channel = Some (Result_ok, sample_system ts [] sample_started)"
    "consumer_run sample_guids (sample_channel_inputs m) (sample_system ts [] sample_started) =
       Some (sample_system ts [(m, sample_envelope)] rc)"
    "handed_over (ch_trace rc) = [(m, sample_envelope)]" "locked (ch_trace rc) = []"
proof (rule sample_deliver_run [of m])
  fix rc
  assume rc: "receive_run (sample_deliver m) sample_started = Some ({}, rc)"
    "handed_over (ch_trace rc) = [(m, sample_envelope)]" "locked (ch_trace rc) = []"
  have start: "ConsumerImpl_start sample_live (ConsumerImpl_new 0 (bstr ''c'') ts) sample_receive_channel =
      Some (Result_ok, sample_system ts [] sample_started)"
    using sample_started by (simp add: ConsumerImpl_start_def ConsumerImpl_new_def sample_system_def)
  have "consumer_run sample_guids (sample_channel_inputs m) (sample_system ts [] sample_started) =
      Some (sample_system ts [(m, sample_envelope)] rc)"
    unfolding sample_channel_inputs_def
    using consumer_run_channel [of "sample_deliver m" "sample_system ts [] sample_started" "{}" rc sample_guids] rc sample_started_channel
    by (simp add: sample_system_def sample_deliver_def received_basic_def)
  then show thesis
    using that start rc(2,3) by blast
qed

lemma sample_receive_trace: "handed_over (ch_trace sample_receive_channel) = []" "locked (ch_trace sample_receive_channel) = []"
  by (simp_all add: sample_receive_channel_def ReceiveChannel_new_def handed_over_def locked_def)

definition sample_acking :: "(nat, nat, nat) consumer_input list" where
  "sample_acking = sample_channel_inputs sample_content @ [CI_job 0 (sample_content, sample_envelope), CI_transfer 0, CI_ack 0, CI_ack 1]"

lemma sample_acking_run:
  obtains rc cs where
    "ConsumerImpl_start sample_live (ConsumerImpl_new 0 (bstr ''c'') []) sample_receive_channel = Some (Result_ok, sample_system [] [] sample_started)"
    "consumer_run sample_guids sample_acking (sample_system [] [] sample_started) = Some cs"
    "cs_acked cs = [(sample_envelope, ACK)]" "cs_ackQueue cs = [0]" "cs_posted cs = 1" "cs_jobs cs = []" "cs_undelivered cs = []"
    "cs_ignored cs = []" "cs_guards cs = [(1, \<lparr>mg_state = GS_RESOLVED, mg_message = sample_content, mg_envelope = sample_envelope\<rparr>),
       (0, \<lparr>mg_state = GS_TRANSFERRED, mg_message = sample_content, mg_envelope = sample_envelope\<rparr>)]"
    "cs_channel cs = rc" "handed_over (ch_trace rc) = [(sample_content, sample_envelope)]" "locked (ch_trace rc) = []"
    "cs_batches cs = [\<lparr>ab_locked = False, ab_acks = [(sample_envelope, ACK)]\<rparr>]"
proof (rule sample_system_run [of "[]" sample_content])
  fix rc
  assume rc: "ConsumerImpl_start sample_live (ConsumerImpl_new 0 (bstr ''c'') []) sample_receive_channel = Some (Result_ok, sample_system [] [] sample_started)"
    "consumer_run sample_guids (sample_channel_inputs sample_content) (sample_system [] [] sample_started) =
       Some (sample_system [] [(sample_content, sample_envelope)] rc)"
    "handed_over (ch_trace rc) = [(sample_content, sample_envelope)]" "locked (ch_trace rc) = []"
  have "\<exists>cs. consumer_run sample_guids [CI_job 0 (sample_content, sample_envelope), CI_transfer 0, CI_ack 0, CI_ack 1]
      (sample_system [] [(sample_content, sample_envelope)] rc) = Some cs \<and>
      cs_acked cs = [(sample_envelope, ACK)] \<and> cs_ackQueue cs = [0] \<and> cs_posted cs = 1 \<and> cs_jobs cs = [] \<and> cs_undelivered cs = [] \<and>
      cs_ignored cs = [] \<and> cs_guards cs = [(1, \<lparr>mg_state = GS_RESOLVED, mg_message = sample_content, mg_envelope = sample_envelope\<rparr>),
        (0, \<lparr>mg_state = GS_TRANSFERRED, mg_message = sample_content, mg_envelope = sample_envelope\<rparr>)] \<and>
      cs_channel cs = rc \<and> cs_batches cs = [\<lparr>ab_locked = False, ab_acks = [(sample_envelope, ACK)]\<rparr>]"
    by (simp add: sample_system_def threadPoolHandleMessage_def ConsumerImpl_new_def MessageGuard_new_def transferOwnership_def
        MessageGuard_copy_def guard_ack_def resolve_def messageGuardCb_def ackMessage_def try_addAck_def addAck_def
        ConsumerAckBatch_new_def)
  then show thesis
    using that rc by (auto simp: sample_acking_def consumer_run_append)
qed

theorem deliveries_settled_once_witness:
  "case consumer_run sample_guids sample_acking (sample_system [] [] sample_started) of
     None \<Rightarrow> False
   | Some cs \<Rightarrow> mset (map snd (handed_over (ch_trace (cs_channel cs)))) = {#sample_envelope#} \<and>
       mset (locked_acks cs) + mset (queued_acks cs) = {#(sample_envelope, ACK)#} \<and> length (cs_ackQueue cs) \<le> cs_posted cs"
proof (rule sample_acking_run)
  fix rc cs
  assume a: "ConsumerImpl_start sample_live (ConsumerImpl_new 0 (bstr ''c'') []) sample_receive_channel = Some (Result_ok, sample_system [] [] sample_started)"
    "consumer_run sample_guids sample_acking (sample_system [] [] sample_started) = Some cs"
    "cs_acked cs = [(sample_envelope, ACK)]" "cs_jobs cs = []" "cs_undelivered cs = []" "cs_ignored cs = []"
    "cs_guards cs = [(1, \<lparr>mg_state = GS_RESOLVED, mg_message = sample_content, mg_envelope = sample_envelope\<rparr>),
       (0, \<lparr>mg_state = GS_TRANSFERRED, mg_message = sample_content, mg_envelope = sample_envelope\<rparr>)]"
  show ?thesis
    using deliveries_settled_once [OF a(1) sample_receive_trace a(2)] a by (simp add: ready_envelopes_def)
qed


lemma consumeAcks_trace:
  assumes "rc_ackQueue rc = [b]"
  obtains calls where "ch_trace (consumeAckBatchFromQueue rc) = ch_trace rc @ Ev_client (Batch_locked (ab_acks b)) # map ack_event calls"
proof (cases "ch_state rc = CHANNEL_CLOSE_SENT \<or> ch_state rc = CLOSED")
  case True
  then show ?thesis
    using that [of "[]"] assms by (auto simp: consumeAckBatchFromQueue_def emit_def lock_def)
next
  case False
  then show ?thesis
    using that consumeAcks_result [OF assms] by (cases "process (rc_multipleAckHandler rc) (current_acks rc b)") simp
qed

lemma delivery_of_ack [simp]: "delivery_of (ack_event c) = []"
  by (cases c) simp_all

lemma ack_events_deliver_nothing: "handed_over (Ev_client (Batch_locked acks) # map ack_event calls) = []"
  by (simp add: handed_over_def)


text \<open>A transformer that cannot be undone, for a message that carries its mark.\<close>

definition broken_transformer :: "nat transformer" where
  "broken_transformer = \<lparr>tr_transform = (\<lambda>d p. Inl []), tr_inverseTransform = (\<lambda>d p. Inl []), tr_name = []\<rparr>"

definition sample_marked :: "(nat, nat) message" where
  "sample_marked =
     sample_content\<lparr>msg_properties := empty_properties\<lparr>headers := Some [(bstr ''sdk.transform.'', FV_string (bstr ''ok''))]\<rparr>\<rparr>"

theorem failed_unpack_never_settled_witness:
  "case consumer_run sample_guids (sample_channel_inputs sample_marked @ [CI_job 0 (sample_marked, sample_envelope)])
      (sample_system [broken_transformer] [] sample_started) of
     None \<Rightarrow> False
   | Some cs \<Rightarrow> sample_envelope \<notin> fst ` set (cs_acked cs)"
proof (rule sample_system_run [of "[broken_transformer]" sample_marked])
  fix rc
  let ?ts = "[broken_transformer]" and ?ci = "ConsumerImpl_new 0 (bstr ''c'') [broken_transformer]"
  assume rc: "ConsumerImpl_start sample_live ?ci sample_receive_channel = Some (Result_ok, sample_system ?ts [] sample_started)"
    "consumer_run sample_guids (sample_channel_inputs sample_marked) (sample_system ?ts [] sample_started) =
       Some (sample_system ?ts [(sample_marked, sample_envelope)] rc)"
    "handed_over (ch_trace rc) = [(sample_marked, sample_envelope)]"
  let ?cs = "sample_system ?ts [(sample_marked, sample_envelope)] rc"
  have fail: "unpackTransformations sample_guids 0 (ci_transformers ?ci) sample_marked = TR_failed"
    by (simp add: unpackTransformations_def ConsumerImpl_new_def sample_marked_def broken_transformer_def
        transform_header_def empty_properties_def)
  have "\<exists>cs2. consumer_run sample_guids (CI_job 0 (sample_marked, sample_envelope) # []) ?cs = Some cs2 \<and> cs_channel cs2 = rc"
    using fail by (simp add: threadPoolHandleMessage_def sample_system_def ConsumerImpl_new_def)
  then obtain cs2 where cs2: "consumer_run sample_guids (CI_job 0 (sample_marked, sample_envelope) # []) ?cs = Some cs2" "cs_channel cs2 = rc"
    by blast
  have ci: "cs_consumer ?cs = Some ?ci" "ci_transformers ?ci \<noteq> []" and d: "distinct (map snd (handed_over (ch_trace (cs_channel cs2))))"
    by (simp_all add: sample_system_def ConsumerImpl_new_def cs2(2) rc(3))
  show ?thesis
    using failed_unpack_never_settled [OF rc(1) sample_receive_trace rc(2) ci fail cs2(1) d] rc(2) cs2(1)
    by (simp add: consumer_run_append)
qed

end
