(* ===== verification/Socket.thy ===== *)
theory Socket
  imports Frame
begin

text \<open>
  \<open>rmqio::AsioConnection\<close>, the socket below a connection, and the handlers of \<open>rmqio::AsioResolver\<close> that
  establish it.

  What boost::asio is asked for and the callbacks that are run are events, in order; the completion handlers
  of asio are the operations, with the error flag and the number of octets as arguments. Callbacks for a completed
  write have the type \<open>'cb\<close>, the callback of \<open>close\<close> has the type \<open>'dn\<close>. A \<open>SerializedFrame\<close> is its octets. The
  two instantiations of the template differ in the flag \<open>as_secure\<close>. A failed assertion and the access to the front
  of an empty queue are \<^const>\<open>None\<close>. Logging and the socket options are left out; whether setting the options
  succeeded is an argument.
\<close>

datatype return_code = SUCCESS | CONNECT_ERROR | GRACEFUL_DISCONNECT | DISCONNECTED_ERROR | FRAME_ERROR | HUNG_ERROR

datatype socket_state = AS_CONNECTING | AS_CONNECTED | AS_CLOSING | AS_DISCONNECTED

record ('cb, 'dn) asio_connection =
  as_secure :: bool
  as_frameDecoder :: decoder
  as_shutdown :: "'dn option"
  as_state :: socket_state
  as_inbound :: bytes
  as_writeQueue :: "('cb \<times> bytes list) list"

datatype ('cb, 'dn) socket_event =
    SE_async_write "bytes list"
  | SE_async_read nat
  | SE_async_shutdown
  | SE_socket_shutdown
  | SE_socket_close
  | SE_written 'cb
  | SE_read frame
  | SE_done 'dn return_code
  | SE_error return_code

definition AsioConnection_new :: "bool \<Rightarrow> nat \<Rightarrow> ('cb, 'dn) asio_connection" where
  "AsioConnection_new secure maxFrame =
     \<lparr>as_secure = secure, as_frameDecoder = Decoder_create maxFrame, as_shutdown = None, as_state = AS_CONNECTING,
      as_inbound = [], as_writeQueue = []\<rparr>"

definition isConnected :: "('cb, 'dn) asio_connection \<Rightarrow> bool" where
  "isConnected s \<longleftrightarrow> as_state s = AS_CONNECTED"

text \<open>Starting a write needs a front element.\<close>

definition startNextWrite :: "('cb, 'dn) asio_connection \<Rightarrow> ('cb, 'dn) socket_event list option" where
  "startNextWrite s = (case as_writeQueue s of [] \<Rightarrow> None | (cb, fs) # q \<Rightarrow> Some [SE_async_write fs])"

definition asyncWrite ::
  "bytes list \<Rightarrow> 'cb \<Rightarrow> ('cb, 'dn) asio_connection \<Rightarrow>
     (('cb, 'dn) socket_event list \<times> ('cb, 'dn) asio_connection) option" where
  "asyncWrite fs cb s =
     (let s = s\<lparr>as_writeQueue := as_writeQueue s @ [(cb, fs)]\<rparr> in
      if length (as_writeQueue s) = 1 then map_option (\<lambda>evs. (evs, s)) (startNextWrite s) else Some ([], s))"

definition startRead :: "('cb, 'dn) asio_connection \<Rightarrow> ('cb, 'dn) socket_event list" where
  "startRead s = [SE_async_read (d_maxFrameSize (as_frameDecoder s))]"

definition markConnected ::
  "bool \<Rightarrow> ('cb, 'dn) asio_connection \<Rightarrow> bool \<times> ('cb, 'dn) socket_event list \<times> ('cb, 'dn) asio_connection" where
  "markConnected prepared s =
     (if as_state s \<noteq> AS_CONNECTING then (False, [], s)
      else
        let s = s\<lparr>as_state := AS_CONNECTED\<rparr> in
        if prepared then (True, startRead s, s) else (False, [], s))"

definition AsioConnection_close ::
  "bool \<Rightarrow> 'dn \<Rightarrow> ('cb, 'dn) asio_connection \<Rightarrow> ('cb, 'dn) socket_event list \<times> ('cb, 'dn) asio_connection" where
  "AsioConnection_close failed cb s =
     (let s = s\<lparr>as_shutdown := Some cb, as_state := AS_CLOSING\<rparr> in
      if failed then ([SE_socket_shutdown, SE_done cb DISCONNECTED_ERROR], s\<lparr>as_shutdown := None\<rparr>)
      else ([SE_socket_shutdown], s))"

definition doClose ::
  "return_code \<Rightarrow> ('cb, 'dn) asio_connection \<Rightarrow> ('cb, 'dn) socket_event list \<times> ('cb, 'dn) asio_connection" where
  "doClose rc s =
     (SE_socket_close #
        (if as_state s = AS_CLOSING \<and> rc = GRACEFUL_DISCONNECT
         then (case as_shutdown s of Some cb \<Rightarrow> [SE_done cb rc] | None \<Rightarrow> []) else []) @
        [SE_error rc],
      s\<lparr>as_state := AS_DISCONNECTED\<rparr>)"

definition AsioConnection_destroy :: "('cb, 'dn) asio_connection \<Rightarrow> ('cb, 'dn) socket_event list" where
  "AsioConnection_destroy s = fst (doClose GRACEFUL_DISCONNECT s)"

text \<open>The handshake of a TLS shutdown is asynchronous, and closes the socket when it ends.\<close>

definition handleError ::
  "('cb, 'dn) asio_connection \<Rightarrow> ('cb, 'dn) socket_event list \<times> ('cb, 'dn) asio_connection" where
  "handleError s = (if as_secure s then ([SE_async_shutdown], s) else doClose DISCONNECTED_ERROR s)"

definition handleClose ::
  "('cb, 'dn) asio_connection \<Rightarrow> ('cb, 'dn) socket_event list \<times> ('cb, 'dn) asio_connection" where
  "handleClose s = doClose (if as_state s = AS_CLOSING then GRACEFUL_DISCONNECT else DISCONNECTED_ERROR) s"

definition handleReadError ::
  "('cb, 'dn) asio_connection \<Rightarrow> ('cb, 'dn) socket_event list \<times> ('cb, 'dn) asio_connection" where
  "handleReadError s = (if as_state s = AS_CLOSING then doClose GRACEFUL_DISCONNECT s else handleError s)"

text \<open>The sum of the frame lengths is accumulated in an \<open>unsigned int\<close> of 32 bits (the start value is \<open>0u\<close>).\<close>

definition accumulated :: "bytes list \<Rightarrow> u32" where
  "accumulated fs = foldl (\<lambda>total f. of_nat (unat total + length f)) 0 fs"

definition handleWrite ::
  "bool \<Rightarrow> u64 \<Rightarrow> ('cb, 'dn) asio_connection \<Rightarrow>
     (('cb, 'dn) socket_event list \<times> ('cb, 'dn) asio_connection) option" where
  "handleWrite err bytes_transferred s =
     (case as_writeQueue s of
        [] \<Rightarrow> None
      | (cb, fs) # q \<Rightarrow>
          (case (if err then Some (handleError s)
                 else if bytes_transferred = ucast (accumulated fs) then Some ([SE_written cb], s) else None) of
             None \<Rightarrow> None
           | Some (evs, s) \<Rightarrow>
               let s = s\<lparr>as_writeQueue := q\<rparr> in
               if q \<noteq> [] then map_option (\<lambda>evs'. (evs @ evs', s)) (startNextWrite s) else Some (evs, s)))"

text \<open>One read: the octets are committed to the buffer, given to the decoder, and consumed unless that failed.
  The frames decoded are handed on in either case.\<close>

definition doRead ::
  "bytes \<Rightarrow> ('cb, 'dn) asio_connection \<Rightarrow>
     (bool \<times> ('cb, 'dn) socket_event list \<times> ('cb, 'dn) asio_connection) option" where
  "doRead bytes_read s =
     (if length bytes_read > d_maxFrameSize (as_frameDecoder s) then None
      else
        let buf = as_inbound s @ bytes_read in
        case appendBytes (as_frameDecoder s) buf of
          (DEC_OK, frames, d) \<Rightarrow> Some (True, map SE_read frames, s\<lparr>as_frameDecoder := d, as_inbound := []\<rparr>)
        | (_, frames, d) \<Rightarrow> Some (False, map SE_read frames, s\<lparr>as_frameDecoder := d, as_inbound := buf\<rparr>))"

definition handleRead ::
  "bool \<Rightarrow> bytes \<Rightarrow> ('cb, 'dn) asio_connection \<Rightarrow>
     (('cb, 'dn) socket_event list \<times> ('cb, 'dn) asio_connection) option" where
  "handleRead err bytes_read s =
     (if err then Some (handleReadError s)
      else
        case doRead bytes_read s of
          None \<Rightarrow> None
        | Some (True, evs, s) \<Rightarrow> Some (evs @ startRead s, s)
        | Some (False, evs, s) \<Rightarrow> (case doClose FRAME_ERROR s of (evs', s) \<Rightarrow> Some (evs @ evs', s)))"

section \<open>The resolver\<close>

text \<open>What the handlers of \<open>AsioResolver\<close> lead to. \<open>RO_started\<close>: the next asynchronous step has been started;
  \<open>RO_ignored\<close>: nobody waits for the result any more. The resolver is alive.\<close>

datatype resolver_error = ERROR_RESOLVE | ERROR_CONNECT | ERROR_HANDSHAKE

datatype resolver_outcome = RO_started | RO_ignored | RO_success | RO_fail resolver_error

definition startConnect :: "bool \<Rightarrow> resolver_outcome" where
  "startConnect socketAlive = (if socketAlive then RO_started else RO_ignored)"

definition handleResolve :: "bool \<Rightarrow> bool \<Rightarrow> resolver_outcome" where
  "handleResolve err socketAlive = (if \<not> err then startConnect socketAlive else RO_fail ERROR_RESOLVE)"

text \<open>After the TCP connection of a secure socket: the verification callback and the server name are set, then
  the handshake starts.\<close>

definition startTLSHandshake :: "bool \<Rightarrow> bool \<Rightarrow> bool \<Rightarrow> bool \<Rightarrow> resolver_outcome" where
  "startTLSHandshake err verifyError hostIsDnsName sniSet =
     (if \<not> err then
        if verifyError then RO_fail ERROR_HANDSHAKE
        else if hostIsDnsName \<and> \<not> sniSet then RO_fail ERROR_HANDSHAKE
        else RO_started
      else RO_fail ERROR_CONNECT)"

definition handleConnect ::
  "bool \<Rightarrow> bool \<Rightarrow> ('cb, 'dn) asio_connection option \<Rightarrow>
     resolver_outcome \<times> ('cb, 'dn) socket_event list \<times> ('cb, 'dn) asio_connection option" where
  "handleConnect err prepared connection =
     (if \<not> err then
        (case connection of
           None \<Rightarrow> (RO_ignored, [], None)
         | Some s \<Rightarrow>
             (case markConnected prepared s of
                (True, evs, s) \<Rightarrow> (RO_success, evs, Some s)
              | (False, evs, s) \<Rightarrow> (RO_fail ERROR_CONNECT, evs, Some s)))
      else (RO_fail ERROR_CONNECT, [], connection))"

definition handleTLSHandshake ::
  "bool \<Rightarrow> bool \<Rightarrow> ('cb, 'dn) asio_connection option \<Rightarrow>
     resolver_outcome \<times> ('cb, 'dn) socket_event list \<times> ('cb, 'dn) asio_connection option" where
  "handleTLSHandshake err prepared connection =
     (if \<not> err then handleConnect False prepared connection else (RO_fail ERROR_HANDSHAKE, [], connection))"


section \<open>Runs of a socket\<close>

datatype ('cb, 'dn) socket_input =
    SI_write "bytes list" 'cb
  | SI_written bool u64
  | SI_read bool bytes
  | SI_connected bool
  | SI_close bool 'dn
  | SI_tls_closed

fun socket_step ::
  "('cb, 'dn) socket_input \<Rightarrow> ('cb, 'dn) asio_connection \<Rightarrow>
     (('cb, 'dn) socket_event list \<times> ('cb, 'dn) asio_connection) option" where
  "socket_step (SI_write fs cb) s = asyncWrite fs cb s"
| "socket_step (SI_written err n) s = handleWrite err n s"
| "socket_step (SI_read err bs) s = handleRead err bs s"
| "socket_step (SI_connected prepared) s = Some (snd (markConnected prepared s))"
| "socket_step (SI_close failed cb) s = Some (AsioConnection_close failed cb s)"
| "socket_step SI_tls_closed s = Some (handleClose s)"

fun socket_run ::
  "('cb, 'dn) socket_input list \<Rightarrow> ('cb, 'dn) asio_connection \<Rightarrow>
     (('cb, 'dn) socket_event list \<times> ('cb, 'dn) asio_connection) option" where
  "socket_run [] s = Some ([], s)"
| "socket_run (i # is) s =
     (case socket_step i s of
        None \<Rightarrow> None
      | Some (evs, s') \<Rightarrow> (case socket_run is s' of None \<Rightarrow> None | Some (evs', s'') \<Rightarrow> Some (evs @ evs', s'')))"

text \<open>The writes asked for, the results of the writes made, and what the events say of them.\<close>

fun requested :: "('cb, 'dn) socket_input list \<Rightarrow> ('cb \<times> bytes list) list" where
  "requested (SI_write fs cb # is) = (cb, fs) # requested is"
| "requested (_ # is) = requested is"
| "requested [] = []"

fun completions :: "('cb, 'dn) socket_input list \<Rightarrow> bool list" where
  "completions (SI_written err n # is) = err # completions is"
| "completions (_ # is) = completions is"
| "completions [] = []"

fun started_of :: "('cb, 'dn) socket_event \<Rightarrow> bytes list list" where
  "started_of (SE_async_write fs) = [fs]"
| "started_of _ = []"

fun written_of :: "('cb, 'dn) socket_event \<Rightarrow> 'cb list" where
  "written_of (SE_written cb) = [cb]"
| "written_of _ = []"

fun read_of :: "('cb, 'dn) socket_event \<Rightarrow> frame list" where
  "read_of (SE_read f) = [f]"
| "read_of _ = []"

definition started :: "('cb, 'dn) socket_event list \<Rightarrow> bytes list list" where
  "started evs = concat (map started_of evs)"

definition written :: "('cb, 'dn) socket_event list \<Rightarrow> 'cb list" where
  "written evs = concat (map written_of evs)"

definition frames_read :: "('cb, 'dn) socket_event list \<Rightarrow> frame list" where
  "frames_read evs = concat (map read_of evs)"

text \<open>The callbacks of the writes that succeeded.\<close>

definition succeeded :: "('cb \<times> bytes list) list \<Rightarrow> bool list \<Rightarrow> 'cb list" where
  "succeeded ws errs = concat (map (\<lambda>((cb, fs), err). if err then [] else [cb]) (zip ws errs))"

section \<open>Writes\<close>

lemma events_append [simp]:
  "started (xs @ ys) = started xs @ started ys" "written (xs @ ys) = written xs @ written ys"
  "frames_read (xs @ ys) = frames_read xs @ frames_read ys"
  by (simp_all add: started_def written_def frames_read_def)

lemma events_simps [simp]:
  "started [] = []" "written [] = []" "frames_read [] = []"
  "started (e # es) = started_of e @ started es" "written (e # es) = written_of e @ written es"
  "frames_read (e # es) = read_of e @ frames_read es"
  "started (map SE_read fs) = []" "written (map SE_read fs) = []" "frames_read (map SE_read fs) = fs"
  by (simp_all add: started_def written_def frames_read_def comp_def)

lemma doClose_silent:
  "doClose rc s = (evs, s') \<Longrightarrow>
     started evs = [] \<and> written evs = [] \<and> frames_read evs = [] \<and> as_writeQueue s' = as_writeQueue s"
  by (auto simp: doClose_def split: option.splits if_splits)

lemma handleError_silent:
  "handleError s = (evs, s') \<Longrightarrow> started evs = [] \<and> written evs = [] \<and> as_writeQueue s' = as_writeQueue s"
  by (auto simp: handleError_def dest: doClose_silent split: if_splits)

text \<open>A step that is neither a write nor the completion of one leaves the queue alone.\<close>

lemma step_silent:
  assumes "socket_step i s = Some (evs, s')" and "\<And>fs cb. i \<noteq> SI_write fs cb" and "\<And>err n. i \<noteq> SI_written err n"
  shows "started evs = [] \<and> written evs = [] \<and> as_writeQueue s' = as_writeQueue s"
proof (cases i)
  case (SI_read err bs)
  show ?thesis
  proof (cases err)
    case True
    then show ?thesis
      using assms(1) SI_read
      by (auto simp: handleRead_def handleReadError_def dest: handleError_silent doClose_silent split: if_splits)
  next
    case False
    obtain ok evs1 s1 where r: "doRead bs s = Some (ok, evs1, s1)"
      using assms(1) SI_read False by (auto simp: handleRead_def split: option.splits)
    then have "started evs1 = []" "written evs1 = []" "as_writeQueue s1 = as_writeQueue s"
      by (auto simp: doRead_def Let_def split: if_splits prod.splits decoder_rc.splits)
    then show ?thesis
      using assms(1) SI_read False r
      by (auto simp: handleRead_def startRead_def dest: doClose_silent split: bool.splits prod.splits)
  qed
next
  case SI_tls_closed
  then show ?thesis
    using assms(1) by (auto simp: handleClose_def dest: doClose_silent)
qed (use assms in \<open>auto simp: markConnected_def startRead_def AsioConnection_close_def Let_def split: if_splits\<close>)

lemma handleWrite_queue:
  assumes "handleWrite err n s = Some (evs, s')"
  shows "\<exists>cb fs q. as_writeQueue s = (cb, fs) # q \<and> as_writeQueue s' = q \<and>
     written evs = (if err then [] else [cb]) \<and> started evs = map snd (take 1 q)"
proof -
  obtain cb fs q where q: "as_writeQueue s = (cb, fs) # q"
    using assms by (auto simp: handleWrite_def split: list.splits)
  obtain evs1 s1 where r: "(if err then Some (handleError s)
      else if n = ucast (accumulated fs) then Some ([SE_written cb], s) else None) = Some (evs1, s1)"
    using assms q by (auto simp: handleWrite_def split: option.splits)
  have 1: "started evs1 = []" "written evs1 = (if err then [] else [cb])"
    using r by (auto dest: handleError_silent split: if_splits)
  have "as_writeQueue s' = q" "evs = evs1 @ (case q of [] \<Rightarrow> [] | (c, f) # _ \<Rightarrow> [SE_async_write f])"
    using assms q r by (auto simp: handleWrite_def Let_def startNextWrite_def split: list.splits if_splits prod.splits)
  then show ?thesis
    using q 1 by (auto split: list.splits)
qed

lemma step_writes:
  assumes "socket_step i s = Some (evs, s')"
  shows "length (completions [i]) \<le> length (as_writeQueue s) \<and>
     as_writeQueue s' = drop (length (completions [i])) (as_writeQueue s) @ requested [i] \<and>
     written evs = succeeded (as_writeQueue s) (completions [i]) \<and>
     map snd (take 1 (as_writeQueue s)) @ started evs =
       map snd (take (length (completions [i]) + 1) (as_writeQueue s @ requested [i]))"
proof (cases i)
  case (SI_write fs cb)
  then show ?thesis
    using assms by (cases "as_writeQueue s")
      (auto simp: asyncWrite_def startNextWrite_def Let_def succeeded_def split: if_splits)
next
  case (SI_written err n)
  then obtain cb fs q where "as_writeQueue s = (cb, fs) # q" "as_writeQueue s' = q"
      "written evs = (if err then [] else [cb])" "started evs = map snd (take 1 q)"
    using assms handleWrite_queue by fastforce
  then show ?thesis
    using SI_written by (simp add: succeeded_def)
qed (use step_silent [OF assms] in \<open>simp_all add: succeeded_def\<close>)


lemma requested_Cons: "requested (i # is) = requested [i] @ requested is"
  by (cases i) simp_all

lemma completions_Cons: "completions (i # is) = completions [i] @ completions is"
  by (cases i) simp_all

lemma succeeded_append:
  "length es \<le> length ws \<Longrightarrow> succeeded (ws @ ws') (es @ es') = succeeded ws es @ succeeded (drop (length es) ws @ ws') es'"
proof (induction es arbitrary: ws)
  case (Cons e es)
  then show ?case
    by (cases ws) (auto simp: succeeded_def)
qed (simp add: succeeded_def)

lemma run_writes:
  assumes "socket_run is s = Some (evs, s')"
  shows "length (completions is) \<le> length (as_writeQueue s @ requested is) \<and>
     as_writeQueue s' = drop (length (completions is)) (as_writeQueue s @ requested is) \<and>
     written evs = succeeded (as_writeQueue s @ requested is) (completions is) \<and>
     map snd (take 1 (as_writeQueue s)) @ started evs =
       map snd (take (length (completions is) + 1) (as_writeQueue s @ requested is))"
  using assms
proof (induction "is" arbitrary: s evs)
  case Nil
  then show ?case by (simp add: succeeded_def)
next
  case (Cons i "is")
  obtain evs1 s1 evs2 where r: "socket_step i s = Some (evs1, s1)" "socket_run is s1 = Some (evs2, s')"
    and evs: "evs = evs1 @ evs2"
    using Cons.prems by (auto split: option.splits)
  let ?q = "as_writeQueue s" and ?n = "length (completions [i])"
  note st = step_writes [OF r(1)]
  have q1: "as_writeQueue s1 = drop ?n ?q @ requested [i]" and n: "?n \<le> length ?q"
    using st by blast+
  have "take (?n + 1) (?q @ requested [i]) = take ?n ?q @ take 1 (as_writeQueue s1)"
    by (simp only: take_add) (simp add: n q1)
  then have "map snd (take 1 ?q) @ started evs = map snd (take ?n ?q) @ map snd (take 1 (as_writeQueue s1)) @ started evs2"
    using st evs by simp
  also have "\<dots> = map snd (take ?n ?q @ take (length (completions is) + 1) (as_writeQueue s1 @ requested is))"
    using Cons.IH [OF r(2)] by simp
  also have "\<dots> = map snd (take (length (completions (i # is)) + 1) (?q @ requested (i # is)))"
    by (simp only: requested_Cons [of i "is"] completions_Cons [of i "is"] length_append add.assoc take_add [of ?n])
      (simp add: n q1)
  finally show ?case
    using Cons.IH [OF r(2)] st evs n q1 succeeded_append [of "completions [i]" ?q "requested (i # is)" "completions is"]
      succeeded_append [of "completions [i]" ?q "[]" "[]"]
    by (auto simp: requested_Cons [of i "is"] completions_Cons [of i "is"] add.commute)
qed

lemma accumulated_sum: "accumulated fs = of_nat (sum_list (map length fs))"
proof -
  have "foldl (\<lambda>total f. of_nat (unat total + length f)) (of_nat k) fs = (of_nat (k + sum_list (map length fs)) :: u32)"
    for k and fs :: "bytes list"
  proof (induction fs arbitrary: k)
    case (Cons f fs)
    have "of_nat (unat (of_nat k :: u32) + length f) = (of_nat (k + length f) :: u32)"
      by simp
    then show ?case
      using Cons.IH [of "k + length f"] by (simp add: add.assoc)
  qed simp
  from this [of 0 fs] show ?thesis
    by (simp add: accumulated_def)
qed

section \<open>Reads\<close>

lemma run_reads:
  assumes "appendAll (as_frameDecoder s) chunks = (DEC_OK, frames, d)" and "as_inbound s = []"
    and "\<forall>c \<in> set chunks. length c \<le> d_maxFrameSize (as_frameDecoder s)"
  shows "\<exists>evs. socket_run (map (SI_read False) chunks) s = Some (evs, s\<lparr>as_frameDecoder := d\<rparr>) \<and>
     frames_read evs = frames"
  using assms
proof (induction chunks arbitrary: s frames)
  case Nil
  then show ?case by simp
next
  case (Cons c chunks)
  obtain fs1 d1 fs2 where a: "appendBytes (as_frameDecoder s) c = (DEC_OK, fs1, d1)"
      "appendAll d1 chunks = (DEC_OK, fs2, d)" and frames: "frames = fs1 @ fs2"
    using Cons.prems(1) by (auto split: prod.splits decoder_rc.splits)
  let ?s = "s\<lparr>as_frameDecoder := d1, as_inbound := []\<rparr>"
  have m: "d_maxFrameSize d1 = d_maxFrameSize (as_frameDecoder s)"
    using a(1) by (auto simp: appendBytes_def Let_def split: prod.splits if_splits)
  have "socket_step (SI_read False c) s = Some (map SE_read fs1 @ startRead ?s, ?s)"
    using Cons.prems(2,3) a(1) by (simp add: handleRead_def doRead_def Let_def)
  moreover obtain evs where "socket_run (map (SI_read False) chunks) ?s = Some (evs, ?s\<lparr>as_frameDecoder := d\<rparr>)"
      "frames_read evs = fs2"
    using Cons.IH [of ?s fs2] a(2) Cons.prems(3) m by auto
  moreover have "?s\<lparr>as_frameDecoder := d\<rparr> = s\<lparr>as_frameDecoder := d\<rparr>"
    using Cons.prems(2) by (intro asio_connection.equality) simp_all
  ultimately show ?case
    by (simp add: frames startRead_def)
qed


section \<open>Properties\<close>

text \<open>C32: Writing. Whatever happens on a socket, at most one write is with the operating system at a time, and the
  writes are started in the order they were asked for: after \<open>n\<close> completions the first \<open>n + 1\<close> writes (or all)
  have been started, the rest waits in the queue, and the callbacks run so far are those of the writes that
  succeeded, in order.\<close>

theorem socket_writes_in_order:
  assumes "socket_run is s = Some (evs, s')" and "as_writeQueue s = []"
  shows "length (completions is) \<le> length (requested is) \<and>
     started evs = map snd (take (length (completions is) + 1) (requested is)) \<and>
     as_writeQueue s' = drop (length (completions is)) (requested is) \<and>
     written evs = succeeded (requested is) (completions is)"
  using run_writes [OF assms(1)] assms(2) by simp

theorem socket_writes_in_order_witness:
  "\<exists>evs s'. socket_run [SI_write [[1, 2]] ''a'', SI_write [[3]] ''b'', SI_written False 2]
       (AsioConnection_new False 10 :: (string, unit) asio_connection) = Some (evs, s') \<and>
     started evs = [[[1, 2]], [[3]]] \<and> written evs = [''a'']"
proof -
  let ?is = "[SI_write [[1, 2]] ''a'', SI_write [[3]] ''b'', SI_written False 2] :: (string, unit) socket_input list"
  let ?s = "AsioConnection_new False 10 :: (string, unit) asio_connection"
  have "\<exists>evs s'. socket_run ?is ?s = Some (evs, s')"
    by (simp add: AsioConnection_new_def asyncWrite_def startNextWrite_def handleWrite_def accumulated_sum Let_def)
  then obtain evs s' where r: "socket_run ?is ?s = Some (evs, s')"
    by blast
  have "as_writeQueue ?s = []"
    by (simp add: AsioConnection_new_def)
  from socket_writes_in_order [OF r this] r show ?thesis
    by (intro exI [of _ evs] exI [of _ s'] conjI) (simp_all add: succeeded_def)
qed

text \<open>Between two sockets. Frames are written in several writes that all complete; the network delivers
  the octets in order and in arbitrary pieces. Then the callbacks of the writes run in order, and the other side's socket
  hands on exactly the frames written, and goes on reading.\<close>

theorem socket_transport:
  assumes "socket_run is a = Some (evs, a')" and "as_writeQueue a = []"
    and "requested is = map (\<lambda>(cb, frames). (cb, map frame_wire frames)) ws"
    and "completions is = replicate (length ws) False"
    and "\<forall>f \<in> set (concat (map snd ws)). frame_ok f \<and> totalFrameSize f \<le> maxSize"
    and "concat reads = concat (concat (started evs))" and "\<forall>r \<in> set reads. length r \<le> maxSize"
    and "b = AsioConnection_new secure maxSize"
  shows "written evs = map fst ws \<and>
     (\<exists>evs' b'. socket_run (map (SI_read False) reads) b = Some (evs', b') \<and>
        frames_read evs' = concat (map snd ws))"
proof -
  have w: "started evs = map snd (requested is)" "written evs = succeeded (requested is) (completions is)"
    using run_writes [OF assms(1)] assms(2-4) by simp_all
  have "succeeded (map (\<lambda>(cb, frames). (cb, map frame_wire frames)) ws) (replicate (length ws) False) = map fst ws"
    by (induction ws) (auto simp: succeeded_def)
  moreover have "concat reads = concat (map frame_wire (concat (map snd ws)))"
    using assms(3,6) w(1) by (simp add: map_concat comp_def case_prod_unfold)
  from decoder_delivers [OF assms(5) this]
  have "appendAll (as_frameDecoder b) reads = (DEC_OK, concat (map snd ws), Decoder_create maxSize)"
    by (simp add: assms(8) AsioConnection_new_def)
  from run_reads [OF this] have
    "\<exists>evs' b'. socket_run (map (SI_read False) reads) b = Some (evs', b') \<and>
        frames_read evs' = concat (map snd ws)"
    using assms(7,8) by (auto simp: AsioConnection_new_def Decoder_create_def)
  ultimately show ?thesis
    using w assms(3,4) by simp
qed

theorem socket_transport_witness:
  "\<exists>evs b. socket_run (map (SI_read False) [[8, 0, 0, 0], [0, 0, 0, 0xCE]])
       (AsioConnection_new True 10 :: (unit, unit) asio_connection) = Some (evs, b) \<and>
     frames_read evs = [mk_frame 8 0 []]"
proof -
  let ?f = "mk_frame 8 0 []"
  let ?is = "[SI_write [frame_wire ?f] (), SI_written False 8] :: (unit, unit) socket_input list"
  let ?a = "AsioConnection_new False 10 :: (unit, unit) asio_connection"
  have "\<exists>evs a'. socket_run ?is ?a = Some (evs, a')"
    by (simp add: AsioConnection_new_def asyncWrite_def startNextWrite_def handleWrite_def accumulated_sum Let_def
        frame_eval)
  then obtain evs a' where r: "socket_run ?is ?a = Some (evs, a')"
    by blast
  have st: "started evs = [[frame_wire ?f]]"
    using run_writes [OF r] by (simp add: AsioConnection_new_def)
  have q: "as_writeQueue ?a = []"
    by (simp add: AsioConnection_new_def)
  show ?thesis
    using socket_transport [OF r q, of "[((), [?f])]" 10 "[[8, 0, 0, 0], [0, 0, 0, 0xCE]]"
        "AsioConnection_new True 10 :: (unit, unit) asio_connection" True] st
    by (simp del: socket_run.simps add: frame_eval)
qed

text \<open>A write of 4 GiB or more ends the process. Messages are written in one piece, and the check that
  all octets have been transferred sums up their number in 32 bits: after a successful write the assertion holds
  exactly if the number of octets is below \<open>2 ^ 32\<close>.\<close>

theorem large_write_aborts:
  assumes "as_writeQueue s = (cb, fs) # q" and "sum_list (map length fs) < 2 ^ 64"
  shows "handleWrite False (of_nat (sum_list (map length fs))) s = None \<longleftrightarrow> 2 ^ 32 \<le> sum_list (map length fs)"
proof -
  let ?n = "sum_list (map length fs)"
  have "(of_nat ?n :: u64) = ucast (of_nat ?n :: u32) \<longleftrightarrow> ?n mod 2 ^ 64 = ?n mod 2 ^ 32"
    by (simp add: word_unat_eq_iff unat_of_nat unsigned_ucast_eq take_bit_eq_mod mod_mod_cancel)
  then have "(of_nat ?n :: u64) = ucast (accumulated fs) \<longleftrightarrow> ?n < 2 ^ 32"
    using assms(2) by (auto simp: accumulated_sum mod_less_divisor)
  then show ?thesis
    using assms(1) by (auto simp: handleWrite_def Let_def startNextWrite_def split: list.splits)
qed

theorem large_write_aborts_witness:
  "handleWrite False (of_nat (2 ^ 32)) ((AsioConnection_new False 10 :: (unit, unit) asio_connection)
     \<lparr>as_writeQueue := [((), [replicate (2 ^ 32) 0])]\<rparr>) = None"
proof -
  define f :: bytes where "f = replicate (2 ^ 32) 0"
  have l: "sum_list (map length [f]) = 2 ^ 32"
    by (simp only: f_def list.map length_replicate sum_list.Cons sum_list.Nil add_0_right)
  let ?s = "(AsioConnection_new False 10 :: (unit, unit) asio_connection)\<lparr>as_writeQueue := [((), [f])]\<rparr>"
  have "handleWrite False (of_nat (sum_list (map length [f]))) ?s = None"
    by (subst large_write_aborts [of ?s "()" "[f]" "[]"]) (simp_all only: l, simp_all)
  then show ?thesis
    unfolding l unfolding f_def .
qed

end
