(* ===== verification/Broker_Connection.thy ===== *)
theory Broker_Connection
  imports Tune Channel_Map Socket Channel_Base "HOL-Library.List_Lexorder" "HOL-Library.Sublist"
begin

text \<open>
  \<open>rmqamqp::Connection\<close>: connecting, the handshake, heartbeats, dispatching what is received, sending for the
  channels, closing and reconnecting; and \<open>rmqamqp::ChannelFactory\<close>.

  The connection holds the socket (theory \<open>Socket\<close>) of its last attempt to connect, numbered, so that a result of the
  resolver can come for an earlier attempt. The framer, the heartbeat manager and the channel map are those of their
  theories. Channels are references: calls of them are events, and what they send comes as an input. Calls of the
  retry handler, of the timer for hung connections and of the callbacks of the application are events as well. Weak pointers
  to the connection are alive. Answers of the environment to a step (does the socket shut down, what do channels ask
  for) are the record \<open>conn_env\<close>. A failed assertion is the event \<open>CE_assertion_failed\<close>.
\<close>

section \<open>Client properties\<close>

definition NOT_IMPLEMENTED :: u16 where "NOT_IMPLEMENTED = 540"

definition SYNTAX_ERROR :: u16 where "SYNTAX_ERROR = 502"

definition PROTOCOL_HEADER :: bytes where "PROTOCOL_HEADER = bstr ''AMQP'' @ [0, 0, 9, 1]"

definition AUTHENTICATION_MECHANISM :: bytes where "AUTHENTICATION_MECHANISM = bstr ''PLAIN''"

definition LOCALE :: bytes where "LOCALE = bstr ''en_US''"

definition PLATFORM :: bytes where "PLATFORM = bstr ''C++03''"

definition PRODUCT :: bytes where "PRODUCT = bstr ''rmqcpp C++ Client Library''"

definition fv_string_or :: "bytes \<Rightarrow> 'dt field_value option \<Rightarrow> bytes" where
  "fv_string_or def v = (case v of Some (FV_string s) \<Rightarrow> s | _ \<Rightarrow> def)"

definition setChainProperties ::
  "'dt field_table \<Rightarrow> 'dt field_table \<Rightarrow> bytes \<Rightarrow> bytes \<Rightarrow> 'dt field_table" where
  "setChainProperties props base selfProduct selfVersion =
     (let sep = bstr '' | '';
          put = (\<lambda>k v. om_put (bstr k) (FV_string v));
          props =
            (case map_of base (bstr ''product_chain'') of
               Some (FV_string pc) \<Rightarrow>
                 put ''version_chain''
                   (fv_string_or (bstr ''unknown'') (map_of base (bstr ''version_chain'')) @ sep @ selfVersion)
                   (put ''product_chain'' (pc @ sep @ selfProduct) props)
             | _ \<Rightarrow>
                 (case map_of base (bstr ''product'') of
                    Some (FV_string p) \<Rightarrow>
                      put ''version_chain''
                        (fv_string_or (bstr ''unknown'') (map_of base (bstr ''version'')) @ sep @ selfVersion)
                        (put ''product_chain'' (p @ sep @ selfProduct) props)
                  | _ \<Rightarrow> put ''version_chain'' selfVersion (put ''product_chain'' selfProduct props)));
          props = (if map_of base (bstr ''product'') = None then put ''product'' selfProduct props else props) in
      if map_of base (bstr ''version'') = None then put ''version'' selfVersion props else props)"

definition generateClientProperties :: "bytes \<Rightarrow> 'dt field_table \<Rightarrow> bytes \<Rightarrow> 'dt field_table" where
  "generateClientProperties version base connectionName =
     (let capabilities = fold (\<lambda>(k, b). om_put (bstr k) (FV_bool b))
            [(''connection.blocked'', False), (''authentication_failure_close'', True),
             (''consumer_cancel_notify'', True), (''publisher_confirms'', True), (''basic.nack'', False)] [];
          props = om_put (bstr ''capabilities'') (FV_table capabilities) base;
          props = om_put (bstr ''platform'') (FV_string PLATFORM) props;
          props = setChainProperties props base PRODUCT version in
      if connectionName \<noteq> [] then om_put (bstr ''connection_name'') (FV_string connectionName) props else props)"

text \<open>\<open>bsl::to_string\<close> of an unsigned integer.\<close>

fun to_string :: "nat \<Rightarrow> bytes" where
  "to_string n = (if n < 10 then [of_nat (48 + n)] else to_string (n div 10) @ [of_nat (48 + n mod 10)])"

declare to_string.simps [simp del]

section \<open>The state\<close>

datatype disconnect_type = FATAL | WILL_RETRY

datatype connection_state =
    DISCONNECTED
  | PROTOCOL_HEADER_SENT
  | CONNECTION_START_RECEIVED
  | CONNECTION_STARTOK_SENT
  | CONNECTION_TUNE_RECEIVED
  | CONNECTION_TUNEOK_SENT
  | CONNECTION_OPEN_SENT
  | CONNECTION_OPENOK_RECEIVED
  | CONNECTION_CLOSE_SENT_EXIT
  | CONNECTION_CLOSE_SENT_RECONNECT
  | CONNECTION_CLOSE_RECEIVED
  | CONNECTION_CLOSEOK_SENT
  | CONNECTION_CLOSED
  | CONNECTED

datatype channel_on_open_state = PAUSED_ON_OPEN | PAUSED_HOST_HEALTH_AWARE | NOT_PAUSED

text \<open>The callbacks of completed writes.\<close>

datatype conn_callback = CC_noop | CC_state connection_state | CC_channel u16 write_callback

type_synonym conn_socket = "(conn_callback, disconnect_type) asio_connection"

datatype ('dt, 'g, 'p) conn_event =
    CE_connect bool
  | CE_header
  | CE_method "'dt ConnectionMethod"
  | CE_heartbeat
  | CE_frames u16 "frame list"
  | CE_socket_close disconnect_type
  | CE_hung_start
  | CE_hung_cancel
  | CE_channel "('p, ('dt, 'g) amqp_message) channel_call"
  | CE_channel_written u16 write_callback
  | CE_channel_created u16 'p bool
  | CE_retry
  | CE_retry_success
  | CE_errorCallback bytes u16
  | CE_first_connect bool
  | CE_close_finished
  | CE_onConnectFailed
  | CE_onConnectSuccess
  | CE_counter string
  | CE_assertion_failed

record ('dt, 'g, 'p) connection =
  cn_state :: connection_state
  cn_socket :: "(nat \<times> conn_socket) option"
  cn_attempts :: nat
  cn_framer :: "'dt framer"
  cn_heartbeat :: heartbeat_manager
  cn_channels :: "'p channel_map"
  cn_onOpenState :: channel_on_open_state
  cn_secure :: bool
  cn_clientProperties :: "'dt field_table"
  cn_credentials :: bytes
  cn_vhost :: bytes
  cn_name :: bytes
  cn_firstConnectCb :: bool
  cn_closeCb :: bool
  cn_closeRequested :: bool
  cn_hasBeenConnected :: bool
  cn_inHandler :: bool
  cn_released :: "conn_socket option"
  cn_trace :: "('dt, 'g, 'p) conn_event list"

record ('dt, 'g, 'p) conn_env =
  env_epoch :: "'dt epoch_util"
  env_guids :: "'g guid_util"
  env_fresh :: 'g
  env_secureContext :: bool
  env_shutdownFails :: bool
  env_resetCleanup :: "'p \<Rightarrow> bool"
  env_receivedCleanup :: "'p \<Rightarrow> ('dt, 'g) amqp_message \<Rightarrow> bool"
  env_healthAware :: "'p \<Rightarrow> bool"

text \<open>\<open>Connection::Factory::create\<close> and the constructor.\<close>

definition newChannelFactory :: "bool \<Rightarrow> channel_on_open_state" where
  "newChannelFactory isHostHealthMonitoringEnabled =
     (if isHostHealthMonitoringEnabled then PAUSED_HOST_HEALTH_AWARE else NOT_PAUSED)"

definition Connection_new ::
  "bool \<Rightarrow> bytes \<Rightarrow> bytes \<Rightarrow> 'dt field_table \<Rightarrow> channel_on_open_state \<Rightarrow> bytes \<Rightarrow> ('dt, 'g, 'p) connection" where
  "Connection_new secure vhost credentials clientProperties onOpenState name =
     \<lparr>cn_state = DISCONNECTED, cn_socket = None, cn_attempts = 0, cn_framer = Framer_new,
      cn_heartbeat = Heartbeat_new, cn_channels = ChannelMap_new, cn_onOpenState = onOpenState, cn_secure = secure,
      cn_clientProperties = clientProperties, cn_credentials = credentials, cn_vhost = vhost, cn_name = name,
      cn_firstConnectCb = False, cn_closeCb = False, cn_closeRequested = False, cn_hasBeenConnected = False,
      cn_inHandler = False, cn_released = None, cn_trace = []\<rparr>"

definition Factory_create ::
  "bytes \<Rightarrow> 'dt field_table \<Rightarrow> bool \<Rightarrow> bool \<Rightarrow> bytes \<Rightarrow> bytes \<Rightarrow> bytes \<Rightarrow> ('dt, 'g, 'p) connection" where
  "Factory_create version clientProperties isHostHealthMonitoringEnabled secure vhost credentials name =
     Connection_new secure vhost credentials (generateClientProperties version clientProperties name)
       (newChannelFactory isHostHealthMonitoringEnabled) name"

definition conn_emit :: "('dt, 'g, 'p) conn_event \<Rightarrow> ('dt, 'g, 'p) connection \<Rightarrow> ('dt, 'g, 'p) connection" where
  "conn_emit e c = c\<lparr>cn_trace := cn_trace c @ [e]\<rparr>"

definition conn_emits :: "('dt, 'g, 'p) conn_event list \<Rightarrow> ('dt, 'g, 'p) connection \<Rightarrow> ('dt, 'g, 'p) connection" where
  "conn_emits es c = c\<lparr>cn_trace := cn_trace c @ es\<rparr>"

section \<open>Writing\<close>

text \<open>\<open>d_socketConnection->asyncWrite\<close> and the notification of the heartbeat manager; the event says what is
  written.\<close>

definition socket_write ::
  "('dt, 'g, 'p) conn_event \<Rightarrow> bytes list \<Rightarrow> conn_callback \<Rightarrow> ('dt, 'g, 'p) connection \<Rightarrow>
     ('dt, 'g, 'p) connection" where
  "socket_write e frames callback c =
     (case cn_socket c of
        None \<Rightarrow> c
      | Some (k, s) \<Rightarrow>
          (case asyncWrite frames callback s of
             None \<Rightarrow> conn_emit CE_assertion_failed c
           | Some (_, s') \<Rightarrow>
               (conn_emit e c)\<lparr>cn_socket := Some (k, s'), cn_heartbeat := notifyMessageSent (cn_heartbeat c)\<rparr>))"

definition asyncWriteSingleFrame ::
  "('dt, 'g, 'p) conn_event \<Rightarrow> bytes \<Rightarrow> conn_callback \<Rightarrow> ('dt, 'g, 'p) connection \<Rightarrow> ('dt, 'g, 'p) connection" where
  "asyncWriteSingleFrame e frame callback c = socket_write e [frame] callback c"

definition send_method ::
  "('dt, 'g, 'p) conn_env \<Rightarrow> 'dt ConnectionMethod \<Rightarrow> connection_state \<Rightarrow> ('dt, 'g, 'p) connection \<Rightarrow>
     ('dt, 'g, 'p) connection" where
  "send_method env m newState c =
     asyncWriteSingleFrame (CE_method m) (frame_wire (makeMethodFrame (env_epoch env) 0 (Connection m)))
       (CC_state newState) c"

definition handleAsyncChannelSend ::
  "('dt, 'g, 'p) conn_env \<Rightarrow> u16 \<Rightarrow> ('dt, 'g) amqp_message \<Rightarrow> write_callback \<Rightarrow> ('dt, 'g, 'p) connection \<Rightarrow>
     ('dt, 'g, 'p) connection" where
  "handleAsyncChannelSend env channel message callback c =
     (if cn_socket c = None then c
      else case makeFrames (env_epoch env) (cn_framer c) channel message of
        None \<Rightarrow> conn_emit CE_assertion_failed c
      | Some [] \<Rightarrow> c
      | Some frames \<Rightarrow> socket_write (CE_frames channel frames) (map frame_wire frames) (CC_channel channel callback) c)"

definition sendHeartbeat :: "('dt, 'g, 'p) connection \<Rightarrow> ('dt, 'g, 'p) connection" where
  "sendHeartbeat c = asyncWriteSingleFrame CE_heartbeat (frame_wire makeHeartbeatFrame) CC_noop c"

definition sendConnectionStartOk ::
  "('dt, 'g, 'p) conn_env \<Rightarrow> ('dt, 'g, 'p) connection \<Rightarrow> ('dt, 'g, 'p) connection" where
  "sendConnectionStartOk env c =
     send_method env
       (M_ConnectionStartOk
          \<lparr>startOk_properties = cn_clientProperties c, startOk_mechanism = AUTHENTICATION_MECHANISM,
           startOk_response = cn_credentials c, startOk_locale = LOCALE\<rparr>)
       CONNECTION_STARTOK_SENT c"

definition sendConnectionOpen ::
  "('dt, 'g, 'p) conn_env \<Rightarrow> ('dt, 'g, 'p) connection \<Rightarrow> ('dt, 'g, 'p) connection" where
  "sendConnectionOpen env c =
     send_method env (M_ConnectionOpen \<lparr>conOpen_virtualHost = cn_vhost c\<rparr>) CONNECTION_OPEN_SENT c"

definition sendConnectionCloseOk ::
  "('dt, 'g, 'p) conn_env \<Rightarrow> ('dt, 'g, 'p) connection \<Rightarrow> ('dt, 'g, 'p) connection" where
  "sendConnectionCloseOk env c = send_method env M_ConnectionCloseOk CONNECTION_CLOSEOK_SENT c"

definition sendConnectionClose ::
  "('dt, 'g, 'p) conn_env \<Rightarrow> u16 \<Rightarrow> bytes \<Rightarrow> u16 \<Rightarrow> u16 \<Rightarrow> ('dt, 'g, 'p) connection \<Rightarrow> ('dt, 'g, 'p) connection" where
  "sendConnectionClose env replyCode replyText failingClassId failingMethodId c =
     send_method env
       (M_ConnectionClose
          \<lparr>conClose_replyCode = replyCode, conClose_replyText = replyText, conClose_classId = failingClassId,
           conClose_methodId = failingMethodId\<rparr>)
       (if replyCode \<noteq> REPLY_SUCCESS then CONNECTION_CLOSE_SENT_RECONNECT else CONNECTION_CLOSE_SENT_EXIT) c"


section \<open>Shutting down\<close>

text \<open>\<open>socketShutdown\<close> up to the release of the socket, and from there on. \<open>d_framer = Framer()\<close> also resets
  the maximum frame size.\<close>

definition shutdown_begin ::
  "('dt, 'g, 'p) conn_env \<Rightarrow> ('dt, 'g, 'p) connection \<Rightarrow> ('dt, 'g, 'p) connection" where
  "shutdown_begin env c =
     (case resetAll (env_resetCleanup env) (cn_channels c) of
        (calls, cm) \<Rightarrow>
          (conn_emit CE_hung_cancel (conn_emits (map CE_channel calls) c))
            \<lparr>cn_channels := cm, cn_framer := Framer_new, cn_heartbeat := Heartbeat_stop (cn_heartbeat c)\<rparr>)"

definition shutdown_end :: "bool \<Rightarrow> ('dt, 'g, 'p) connection \<Rightarrow> ('dt, 'g, 'p) connection" where
  "shutdown_end willRetry c =
     (let c = (conn_emit (CE_counter ''disconnect_events'') c)\<lparr>cn_state := DISCONNECTED\<rparr> in
      if willRetry then conn_emit CE_onConnectFailed (conn_emit CE_retry c)
      else
        let c = (if cn_firstConnectCb c then (conn_emit (CE_first_connect False) c)\<lparr>cn_firstConnectCb := False\<rparr> else c) in
        if cn_closeCb c then (conn_emit CE_close_finished c)\<lparr>cn_closeCb := False\<rparr> else c)"

definition will_retry :: "disconnect_type \<Rightarrow> ('dt, 'g, 'p) connection \<Rightarrow> bool" where
  "will_retry dcType c \<longleftrightarrow> dcType = WILL_RETRY \<and> \<not> cn_closeRequested c"

text \<open>Destroying a socket that was closing gracefully calls back, which is \<open>socketShutdown\<close> again, with no socket
  left; the error callback is ignored for a graceful disconnect. Releasing the socket destroys it, unless one of
  its completion handlers is running: the handler holds it until it returns (\<open>leave_handler\<close>).\<close>

definition socket_destroyed ::
  "('dt, 'g, 'p) conn_env \<Rightarrow> conn_socket \<Rightarrow> ('dt, 'g, 'p) connection \<Rightarrow> ('dt, 'g, 'p) connection" where
  "socket_destroyed env s c =
     (case filter (\<lambda>e. case e of SE_done _ _ \<Rightarrow> True | _ \<Rightarrow> False) (AsioConnection_destroy s) of
        SE_done dcType rc # _ \<Rightarrow> shutdown_end (will_retry dcType c) (shutdown_begin env c)
      | _ \<Rightarrow> c)"

definition release_socket ::
  "('dt, 'g, 'p) conn_env \<Rightarrow> ('dt, 'g, 'p) connection \<Rightarrow> ('dt, 'g, 'p) connection" where
  "release_socket env c =
     (case cn_socket c of
        None \<Rightarrow> c
      | Some (k, s) \<Rightarrow>
          if cn_inHandler c then c\<lparr>cn_socket := None, cn_released := Some s\<rparr>
          else socket_destroyed env s (c\<lparr>cn_socket := None\<rparr>))"

definition socketShutdown ::
  "('dt, 'g, 'p) conn_env \<Rightarrow> disconnect_type \<Rightarrow> return_code \<Rightarrow> ('dt, 'g, 'p) connection \<Rightarrow>
     ('dt, 'g, 'p) connection" where
  "socketShutdown env dcType code c =
     (let willRetry = will_retry dcType c in
      shutdown_end willRetry (release_socket env (shutdown_begin env c)))"

definition closeSocket ::
  "('dt, 'g, 'p) conn_env \<Rightarrow> disconnect_type \<Rightarrow> ('dt, 'g, 'p) connection \<Rightarrow> ('dt, 'g, 'p) connection" where
  "closeSocket env dcType c =
     (let c = c\<lparr>cn_state := CONNECTION_CLOSED\<rparr> in
      case cn_socket c of
        None \<Rightarrow> socketShutdown env dcType HUNG_ERROR c
      | Some (k, s) \<Rightarrow>
          if isConnected s then
            (case AsioConnection_close (env_shutdownFails env) dcType s of
               (evs, s') \<Rightarrow>
                 let c = (conn_emit (CE_socket_close dcType) c)\<lparr>cn_socket := Some (k, s')\<rparr> in
                 if env_shutdownFails env then socketShutdown env dcType DISCONNECTED_ERROR c else c)
          else socketShutdown env dcType HUNG_ERROR c)"

definition Connection_onWriteComplete ::
  "('dt, 'g, 'p) conn_env \<Rightarrow> connection_state \<Rightarrow> ('dt, 'g, 'p) connection \<Rightarrow> ('dt, 'g, 'p) connection" where
  "Connection_onWriteComplete env st c =
     (let c = c\<lparr>cn_state := st\<rparr> in
      if st = CONNECTION_CLOSEOK_SENT then closeSocket env WILL_RETRY c else c)"

definition connectionException ::
  "('dt, 'g, 'p) conn_env \<Rightarrow> u16 \<Rightarrow> bytes \<Rightarrow> u16 \<Rightarrow> u16 \<Rightarrow> ('dt, 'g, 'p) connection \<Rightarrow> ('dt, 'g, 'p) connection" where
  "connectionException env replyCode replyText failingClassId failingMethodId c =
     (case cn_state c of
        CONNECTION_CLOSE_SENT_EXIT \<Rightarrow> closeSocket env FATAL c
      | CONNECTED \<Rightarrow> sendConnectionClose env replyCode replyText failingClassId failingMethodId c
      | PROTOCOL_HEADER_SENT \<Rightarrow> sendConnectionClose env replyCode replyText failingClassId failingMethodId c
      | CONNECTION_START_RECEIVED \<Rightarrow> sendConnectionClose env replyCode replyText failingClassId failingMethodId c
      | CONNECTION_STARTOK_SENT \<Rightarrow> sendConnectionClose env replyCode replyText failingClassId failingMethodId c
      | CONNECTION_TUNE_RECEIVED \<Rightarrow> sendConnectionClose env replyCode replyText failingClassId failingMethodId c
      | CONNECTION_TUNEOK_SENT \<Rightarrow> sendConnectionClose env replyCode replyText failingClassId failingMethodId c
      | CONNECTION_OPEN_SENT \<Rightarrow> sendConnectionClose env replyCode replyText failingClassId failingMethodId c
      | CONNECTION_OPENOK_RECEIVED \<Rightarrow> sendConnectionClose env replyCode replyText failingClassId failingMethodId c
      | _ \<Rightarrow> closeSocket env WILL_RETRY c)"

definition Connection_close ::
  "('dt, 'g, 'p) conn_env \<Rightarrow> ('dt, 'g, 'p) connection \<Rightarrow> ('dt, 'g, 'p) connection" where
  "Connection_close env c =
     (let c = c\<lparr>cn_closeCb := True, cn_closeRequested := True\<rparr> in
      case cn_state c of
        DISCONNECTED \<Rightarrow> socketShutdown env FATAL GRACEFUL_DISCONNECT c
      | CONNECTION_CLOSE_SENT_EXIT \<Rightarrow> c
      | CONNECTION_CLOSE_SENT_RECONNECT \<Rightarrow> c
      | CONNECTION_CLOSE_RECEIVED \<Rightarrow> c
      | CONNECTION_CLOSEOK_SENT \<Rightarrow> c
      | CONNECTION_CLOSED \<Rightarrow> c
      | _ \<Rightarrow> sendConnectionClose env REPLY_SUCCESS (bstr ''Closing Connection'') 0 0 c)"

definition Connection_destroy ::
  "('dt, 'g, 'p) conn_env \<Rightarrow> ('dt, 'g, 'p) connection \<Rightarrow> ('dt, 'g, 'p) connection" where
  "Connection_destroy env c =
     (let c = socketShutdown env FATAL GRACEFUL_DISCONNECT c in
      if cn_closeCb c then conn_emit CE_close_finished c else c)"

definition killConnection ::
  "('dt, 'g, 'p) conn_env \<Rightarrow> ('dt, 'g, 'p) connection \<Rightarrow> ('dt, 'g, 'p) connection" where
  "killConnection env c = closeSocket env WILL_RETRY (conn_emit (CE_counter ''heartbeat_timeouts'') c)"

definition connectionHung ::
  "('dt, 'g, 'p) conn_env \<Rightarrow> interrupt_reason \<Rightarrow> ('dt, 'g, 'p) connection \<Rightarrow> ('dt, 'g, 'p) connection" where
  "connectionHung env reason c =
     (if reason = EXPIRE then closeSocket env WILL_RETRY (conn_emit (CE_counter ''hung_connection_reset'') c) else c)"

definition Connection_channelHung ::
  "('dt, 'g, 'p) conn_env \<Rightarrow> ('dt, 'g, 'p) connection \<Rightarrow> ('dt, 'g, 'p) connection" where
  "Connection_channelHung env c = closeSocket env WILL_RETRY (conn_emit (CE_counter ''hung_connection_reset'') c)"

definition connectError ::
  "('dt, 'g, 'p) conn_env \<Rightarrow> ('dt, 'g, 'p) connection \<Rightarrow> ('dt, 'g, 'p) connection" where
  "connectError env c = socketShutdown env WILL_RETRY CONNECT_ERROR c"

definition socketError ::
  "('dt, 'g, 'p) conn_env \<Rightarrow> return_code \<Rightarrow> ('dt, 'g, 'p) connection \<Rightarrow> ('dt, 'g, 'p) connection" where
  "socketError env rc c = (if rc = GRACEFUL_DISCONNECT then c else socketShutdown env WILL_RETRY rc c)"

section \<open>Connecting\<close>

text \<open>When the TLS context cannot be made the resolver fails at once and returns no socket.\<close>

definition initiateConnect ::
  "('dt, 'g, 'p) conn_env \<Rightarrow> ('dt, 'g, 'p) connection \<Rightarrow> ('dt, 'g, 'p) connection" where
  "initiateConnect env c =
     (let c = conn_emit (CE_connect (cn_secure c)) (conn_emit CE_hung_start c);
          c = c\<lparr>cn_attempts := cn_attempts c + 1\<rparr> in
      if cn_secure c \<and> \<not> env_secureContext env then (connectError env c)\<lparr>cn_socket := None\<rparr>
      else c\<lparr>cn_socket := Some (cn_attempts c, AsioConnection_new (cn_secure c) maxFrameSize)\<rparr>)"

definition startFirstConnection ::
  "('dt, 'g, 'p) conn_env \<Rightarrow> ('dt, 'g, 'p) connection \<Rightarrow> ('dt, 'g, 'p) connection" where
  "startFirstConnection env c = initiateConnect env (c\<lparr>cn_firstConnectCb := True\<rparr>)"

definition connect :: "('dt, 'g, 'p) connection \<Rightarrow> ('dt, 'g, 'p) connection" where
  "connect c = asyncWriteSingleFrame CE_header PROTOCOL_HEADER (CC_state PROTOCOL_HEADER_SENT) c"

definition Connection_retry ::
  "('dt, 'g, 'p) conn_env \<Rightarrow> ('dt, 'g, 'p) connection \<Rightarrow> ('dt, 'g, 'p) connection" where
  "Connection_retry env c = (if cn_closeRequested c then c else initiateConnect env c)"

section \<open>Receiving\<close>

text \<open>\<open>sendConnectionTuneOk\<close> of theory \<open>Tune\<close>, with its events carried out.\<close>

definition frame_max_error :: "u32 \<Rightarrow> bytes" where
  "frame_max_error frameMax =
     bstr ''Negotiated frame-max '' @ to_string (unat frameMax) @ bstr '' is below the minimum of '' @
     to_string (unat FRAME_MIN_SIZE)"

definition Connection_sendTuneOk ::
  "('dt, 'g, 'p) conn_env \<Rightarrow> ConnectionTune \<Rightarrow> ('dt, 'g, 'p) connection \<Rightarrow> bool \<times> ('dt, 'g, 'p) connection" where
  "Connection_sendTuneOk env tune c =
     (case sendConnectionTuneOk (env_epoch env) tune (cn_framer c) (cn_heartbeat c) of
        None \<Rightarrow> (False, conn_emit CE_assertion_failed c)
      | Some (False, evs, fr, hb) \<Rightarrow>
          (let error = frame_max_error (negotiated_frameMax tune) in
           (False, conn_emit (CE_errorCallback (bstr ''Connection='' @ cn_name c @ bstr '' '' @ error) NOT_ALLOWED)
              (connectionException env NOT_ALLOWED error 10 30 c)))
      | Some (True, evs, fr, hb) \<Rightarrow>
          (True, send_method env
             (M_ConnectionTuneOk
                \<lparr>tuneOk_channelMax = negotiateTuneParam (tune_channelMax tune) k_MAX_CHANNEL_NUM,
                 tuneOk_frameMax = negotiated_frameMax tune, tuneOk_heartbeatInterval = negotiated_heartbeat tune\<rparr>)
             CONNECTION_TUNEOK_SENT (c\<lparr>cn_framer := fr, cn_heartbeat := hb\<rparr>)))"

text \<open>The visitor \<open>ConnectionMethodProcessor\<close>.\<close>

definition with_expected_state ::
  "('dt, 'g, 'p) conn_env \<Rightarrow> connection_state \<Rightarrow> 'dt ConnectionMethod \<Rightarrow>
     (('dt, 'g, 'p) connection \<Rightarrow> ('dt, 'g, 'p) connection) \<Rightarrow> ('dt, 'g, 'p) connection \<Rightarrow>
     ('dt, 'g, 'p) connection" where
  "with_expected_state env expected m k c =
     (if cn_state c \<noteq> expected
      then connectionException env UNEXPECTED_FRAME (bstr ''Unexpected frame'') 10 (ConnectionMethod_methodId m) c
      else k c)"

definition processOpenOk :: "('dt, 'g, 'p) connection \<Rightarrow> ('dt, 'g, 'p) connection" where
  "processOpenOk c =
     (let c = conn_emit CE_retry_success (conn_emit CE_hung_cancel (c\<lparr>cn_state := CONNECTED\<rparr>));
          c = conn_emits (map CE_channel (openAll (cn_channels c))) (c\<lparr>cn_hasBeenConnected := True\<rparr>);
          c = (if cn_firstConnectCb c then (conn_emit (CE_first_connect True) c)\<lparr>cn_firstConnectCb := False\<rparr> else c) in
      conn_emit CE_onConnectSuccess c)"

definition processConnectionMethod ::
  "('dt, 'g, 'p) conn_env \<Rightarrow> 'dt ConnectionMethod \<Rightarrow> ('dt, 'g, 'p) connection \<Rightarrow> ('dt, 'g, 'p) connection" where
  "processConnectionMethod env m c =
     (case m of
        M_ConnectionStart _ \<Rightarrow>
          with_expected_state env PROTOCOL_HEADER_SENT m
            (\<lambda>c. sendConnectionStartOk env (c\<lparr>cn_state := CONNECTION_START_RECEIVED\<rparr>)) c
      | M_ConnectionTune tune \<Rightarrow>
          with_expected_state env CONNECTION_STARTOK_SENT m
            (\<lambda>c. case Connection_sendTuneOk env tune (c\<lparr>cn_state := CONNECTION_TUNE_RECEIVED\<rparr>) of
                   (True, c) \<Rightarrow> sendConnectionOpen env c
                 | (False, c) \<Rightarrow> c) c
      | M_ConnectionOpenOk \<Rightarrow> with_expected_state env CONNECTION_OPEN_SENT m processOpenOk c
      | M_ConnectionClose close \<Rightarrow>
          let c = sendConnectionCloseOk env (c\<lparr>cn_state := CONNECTION_CLOSE_RECEIVED\<rparr>) in
          if conClose_classId close \<noteq> 0 \<or> conClose_methodId close \<noteq> 0
          then conn_emit (CE_errorCallback
                 (bstr ''Connection='' @ cn_name c @ bstr '' Connection error '' @ conClose_replyText close)
                 (conClose_replyCode close)) c
          else c
      | M_ConnectionCloseOk \<Rightarrow>
          closeSocket env (if cn_state c = CONNECTION_CLOSE_SENT_EXIT then FATAL else WILL_RETRY) c
      | _ \<Rightarrow> connectionException env NOT_IMPLEMENTED (bstr ''Method not implemented'') 10
              (ConnectionMethod_methodId m) c)"

definition processMethod ::
  "('dt, 'g, 'p) conn_env \<Rightarrow> 'dt Method \<Rightarrow> ('dt, 'g, 'p) connection \<Rightarrow> ('dt, 'g, 'p) connection" where
  "processMethod env method c =
     (case method of
        Connection m \<Rightarrow> processConnectionMethod env m c
      | _ \<Rightarrow> connectionException env NOT_IMPLEMENTED (bstr ''Not implemented Class Processor'')
              (Method_classId method) 0 c)"

definition processNextFrame ::
  "('dt, 'g, 'p) conn_env \<Rightarrow> frame \<Rightarrow> ('dt, 'g, 'p) connection \<Rightarrow> ('dt, 'g, 'p) connection" where
  "processNextFrame env frame c =
     (let c = c\<lparr>cn_heartbeat := notifyMessageReceived (cn_heartbeat c)\<rparr> in
      case appendFrame (env_epoch env) (env_guids env) (env_fresh env) (cn_framer c) frame of
        (rc, message, fr) \<Rightarrow>
          let c = c\<lparr>cn_framer := fr\<rparr> in
          if rc = FR_PARTIAL then c
          else if rc \<noteq> FR_OK then connectionException env SYNTAX_ERROR (bstr ''Cannot decode payload'') 0 0 c
          else
            let channel = f_channel frame in
            (case message of
               None \<Rightarrow> c
             | Some message \<Rightarrow>
                 if channel = 0 then
                   (case message of
                      Msg_Method m \<Rightarrow> processMethod env m c
                    | Msg_Heartbeat \<Rightarrow> c\<lparr>cn_heartbeat := notifyHeartbeatReceived (cn_heartbeat c)\<rparr>
                    | _ \<Rightarrow> connectionException env NOT_IMPLEMENTED (bstr ''Not implemented non-method frame'') 0 0 c)
                 else
                   (case processReceived (env_receivedCleanup env) channel message (cn_channels c) of
                      (channelExists, calls, cm) \<Rightarrow>
                        let c = (conn_emits (map CE_channel calls) c)\<lparr>cn_channels := cm\<rparr> in
                        if channelExists then c
                        else connectionException env CHANNEL_ERROR
                               (bstr ''Received Message on unknown channel: '' @ to_string (unat channel)) 0 0 c)))"

section \<open>Channels\<close>

text \<open>\<open>ChannelFactory::createReceiveChannel\<close> decides whether the channel starts paused.\<close>

definition pausedOnOpen :: "channel_on_open_state \<Rightarrow> bool \<Rightarrow> bool" where
  "pausedOnOpen st consumeOnlyFromHealthyHost \<longleftrightarrow>
     st = PAUSED_ON_OPEN \<or> (consumeOnlyFromHealthyHost \<and> st = PAUSED_HOST_HEALTH_AWARE)"

definition open_if_connected :: "'p \<Rightarrow> ('dt, 'g, 'p) connection \<Rightarrow> ('dt, 'g, 'p) connection" where
  "open_if_connected p c = (if cn_state c = CONNECTED then conn_emit (CE_channel (Call_open p)) c else c)"

definition createReceiveChannel ::
  "('dt, 'g, 'p) conn_env \<Rightarrow> 'p \<Rightarrow> ('dt, 'g, 'p) connection \<Rightarrow> ('dt, 'g, 'p) connection" where
  "createReceiveChannel env p c =
     (case assignId (cn_channels c) of
        (channelId, cm) \<Rightarrow>
          open_if_connected p
            ((conn_emit (CE_channel_created channelId p (pausedOnOpen (cn_onOpenState c) (env_healthAware env p))) c)
               \<lparr>cn_channels := associateReceive channelId p cm\<rparr>))"

definition createSendChannel :: "'p \<Rightarrow> ('dt, 'g, 'p) connection \<Rightarrow> ('dt, 'g, 'p) connection" where
  "createSendChannel p c =
     (case assignId (cn_channels c) of
        (channelId, cm) \<Rightarrow>
          open_if_connected p
            ((conn_emit (CE_channel_created channelId p False) c)\<lparr>cn_channels := associateSend channelId p cm\<rparr>))"

definition Connection_pauseReceiveChannels ::
  "('dt, 'g, 'p) conn_env \<Rightarrow> bool \<Rightarrow> ('dt, 'g, 'p) connection \<Rightarrow> ('dt, 'g, 'p) connection" where
  "Connection_pauseReceiveChannels env respectHostHealth c =
     conn_emits (map CE_channel (pauseReceiveChannels (env_healthAware env) respectHostHealth (cn_channels c)))
       (c\<lparr>cn_onOpenState := (if respectHostHealth then PAUSED_HOST_HEALTH_AWARE else PAUSED_ON_OPEN)\<rparr>)"

definition Connection_resumeReceiveChannels ::
  "('dt, 'g, 'p) conn_env \<Rightarrow> bool \<Rightarrow> ('dt, 'g, 'p) connection \<Rightarrow> ('dt, 'g, 'p) connection" where
  "Connection_resumeReceiveChannels env respectHostHealth c =
     conn_emits (map CE_channel (resumeReceiveChannels (env_healthAware env) respectHostHealth (cn_channels c)))
       (c\<lparr>cn_onOpenState := NOT_PAUSED\<rparr>)"

section \<open>What can happen to a connection\<close>

fun conn_callback_run ::
  "('dt, 'g, 'p) conn_env \<Rightarrow> conn_callback \<Rightarrow> ('dt, 'g, 'p) connection \<Rightarrow> ('dt, 'g, 'p) connection" where
  "conn_callback_run env CC_noop c = c"
| "conn_callback_run env (CC_state st) c = Connection_onWriteComplete env st c"
| "conn_callback_run env (CC_channel ch cb) c = conn_emit (CE_channel_written ch cb) c"

fun socket_callback ::
  "('dt, 'g, 'p) conn_env \<Rightarrow> (conn_callback, disconnect_type) socket_event \<Rightarrow> ('dt, 'g, 'p) connection \<Rightarrow>
     ('dt, 'g, 'p) connection" where
  "socket_callback env (SE_written cb) c = conn_callback_run env cb c"
| "socket_callback env (SE_read f) c = processNextFrame env f c"
| "socket_callback env (SE_done dcType rc) c = socketShutdown env dcType rc c"
| "socket_callback env (SE_error rc) c = socketError env rc c"
| "socket_callback env _ c = c"

text \<open>The results of the resolver name the attempt they belong to. Success is reported only to the current socket,
  failure always.\<close>

definition current_socket :: "nat \<Rightarrow> ('dt, 'g, 'p) connection \<Rightarrow> conn_socket option" where
  "current_socket k c = (case cn_socket c of Some (k', s) \<Rightarrow> if k' = k then Some s else None | None \<Rightarrow> None)"

definition resolver_result ::
  "('dt, 'g, 'p) conn_env \<Rightarrow> resolver_outcome \<Rightarrow> ('dt, 'g, 'p) connection \<Rightarrow> ('dt, 'g, 'p) connection" where
  "resolver_result env outcome c =
     (case outcome of RO_success \<Rightarrow> connect c | RO_fail _ \<Rightarrow> connectError env c | _ \<Rightarrow> c)"

definition connect_result ::
  "('dt, 'g, 'p) conn_env \<Rightarrow> nat \<Rightarrow> resolver_outcome \<times> 'e list \<times> conn_socket option \<Rightarrow>
     ('dt, 'g, 'p) connection \<Rightarrow> ('dt, 'g, 'p) connection" where
  "connect_result env k r c =
     (case r of
        (outcome, _, Some s) \<Rightarrow> resolver_result env outcome (c\<lparr>cn_socket := Some (k, s)\<rparr>)
      | (outcome, _, None) \<Rightarrow> resolver_result env outcome c)"

datatype ('dt, 'g, 'p) conn_input =
    CI_start
  | CI_resolve nat bool
  | CI_tcp_connected nat bool bool bool bool
  | CI_connect nat bool bool
  | CI_handshake nat bool bool
  | CI_written bool u64
  | CI_read bool bytes
  | CI_tls_closed
  | CI_retry
  | CI_hung interrupt_reason
  | CI_tick interrupt_reason
  | CI_channelHung
  | CI_close
  | CI_send u16 "('dt, 'g) amqp_message" write_callback
  | CI_createReceive 'p
  | CI_createSend 'p
  | CI_pause bool
  | CI_resume bool

text \<open>The completion handlers of the socket hold it while they run; nothing is left to do when it is gone.\<close>

definition enter_handler :: "nat \<Rightarrow> conn_socket \<Rightarrow> ('dt, 'g, 'p) connection \<Rightarrow> ('dt, 'g, 'p) connection" where
  "enter_handler k s c = c\<lparr>cn_socket := Some (k, s), cn_inHandler := True\<rparr>"

definition leave_handler ::
  "('dt, 'g, 'p) conn_env \<Rightarrow> ('dt, 'g, 'p) connection \<Rightarrow> ('dt, 'g, 'p) connection" where
  "leave_handler env c =
     (let c' = c\<lparr>cn_inHandler := False, cn_released := None\<rparr> in
      case cn_released c of None \<Rightarrow> c' | Some s \<Rightarrow> socket_destroyed env s c')"

definition socket_events ::
  "('dt, 'g, 'p) conn_env \<Rightarrow> nat \<Rightarrow> (conn_callback, disconnect_type) socket_event list \<times> conn_socket \<Rightarrow>
     ('dt, 'g, 'p) connection \<Rightarrow> ('dt, 'g, 'p) connection" where
  "socket_events env k r c =
     (case r of (evs, s) \<Rightarrow> leave_handler env (fold (socket_callback env) evs (enter_handler k s c)))"

definition handleWriteCb ::
  "('dt, 'g, 'p) conn_env \<Rightarrow> bool \<Rightarrow> u64 \<Rightarrow> ('dt, 'g, 'p) connection \<Rightarrow> ('dt, 'g, 'p) connection option" where
  "handleWriteCb env err n c =
     (case cn_socket c of
        None \<Rightarrow> Some c
      | Some (k, s) \<Rightarrow> map_option (\<lambda>r. socket_events env k r c) (handleWrite err n s))"

definition handleCloseCb ::
  "('dt, 'g, 'p) conn_env \<Rightarrow> ('dt, 'g, 'p) connection \<Rightarrow> ('dt, 'g, 'p) connection" where
  "handleCloseCb env c =
     (case cn_socket c of None \<Rightarrow> c | Some (k, s) \<Rightarrow> socket_events env k (handleClose s) c)"

text \<open>A read handles the frames first; a framing error then closes the socket, in the state the frames have left
  it in.\<close>

definition held_socket :: "('dt, 'g, 'p) connection \<Rightarrow> conn_socket option" where
  "held_socket c = (case cn_socket c of Some (k, s) \<Rightarrow> Some s | None \<Rightarrow> cn_released c)"

definition set_held :: "conn_socket \<Rightarrow> ('dt, 'g, 'p) connection \<Rightarrow> ('dt, 'g, 'p) connection" where
  "set_held s c =
     (case cn_socket c of Some (k, _) \<Rightarrow> c\<lparr>cn_socket := Some (k, s)\<rparr> | None \<Rightarrow> c\<lparr>cn_released := Some s\<rparr>)"

definition frame_error ::
  "('dt, 'g, 'p) conn_env \<Rightarrow> ('dt, 'g, 'p) connection \<Rightarrow> ('dt, 'g, 'p) connection" where
  "frame_error env c =
     (case held_socket c of
        None \<Rightarrow> c
      | Some s \<Rightarrow> (case doClose FRAME_ERROR s of (evs, s') \<Rightarrow> fold (socket_callback env) evs (set_held s' c)))"

definition handleReadCb ::
  "('dt, 'g, 'p) conn_env \<Rightarrow> bool \<Rightarrow> bytes \<Rightarrow> ('dt, 'g, 'p) connection \<Rightarrow> ('dt, 'g, 'p) connection option" where
  "handleReadCb env err bytes_read c =
     (case cn_socket c of
        None \<Rightarrow> Some c
      | Some (k, s) \<Rightarrow>
          if err then Some (socket_events env k (handleReadError s) c)
          else
            case doRead bytes_read s of
              None \<Rightarrow> None
            | Some (success, evs, s) \<Rightarrow>
                let c = fold (socket_callback env) evs (enter_handler k s c) in
                Some (leave_handler env (if success then c else frame_error env c)))"

fun hb_callback ::
  "('dt, 'g, 'p) conn_env \<Rightarrow> hb_event \<Rightarrow> ('dt, 'g, 'p) connection \<Rightarrow> ('dt, 'g, 'p) connection" where
  "hb_callback env Send_heartbeat c = sendHeartbeat c"
| "hb_callback env Kill_connection c = killConnection env c"

definition heartbeat_tick ::
  "('dt, 'g, 'p) conn_env \<Rightarrow> interrupt_reason \<Rightarrow> ('dt, 'g, 'p) connection \<Rightarrow> ('dt, 'g, 'p) connection" where
  "heartbeat_tick env reason c =
     (case handleTick reason (cn_heartbeat c) of
        (evs, hb) \<Rightarrow> fold (hb_callback env) evs (c\<lparr>cn_heartbeat := hb\<rparr>))"

text \<open>\<open>None\<close> is what the environment does not do: completing a write that was not started, or running a retry that
  was not asked for. A retry is pending after the last \<open>retry\<close> until the next attempt.\<close>

definition retry_pending :: "('dt, 'g, 'p) conn_event list \<Rightarrow> bool" where
  "retry_pending tr = foldl (\<lambda>b e. case e of CE_retry \<Rightarrow> True | CE_connect _ \<Rightarrow> False | _ \<Rightarrow> b) False tr"

fun conn_step ::
  "('dt, 'g, 'p) conn_env \<Rightarrow> ('dt, 'g, 'p) conn_input \<Rightarrow> ('dt, 'g, 'p) connection \<Rightarrow>
     ('dt, 'g, 'p) connection option" where
  "conn_step env CI_start c = (if cn_attempts c = 0 then Some (startFirstConnection env c) else None)"
| "conn_step env (CI_resolve k err) c =
     Some (resolver_result env (handleResolve err (current_socket k c \<noteq> None)) c)"
| "conn_step env (CI_tcp_connected k err verifyError isDns sniSet) c =
     Some (resolver_result env (startTLSHandshake err verifyError isDns sniSet) c)"
| "conn_step env (CI_connect k err prepared) c =
     Some (connect_result env k (handleConnect err prepared (current_socket k c)) c)"
| "conn_step env (CI_handshake k err prepared) c =
     Some (connect_result env k (handleTLSHandshake err prepared (current_socket k c)) c)"
| "conn_step env (CI_written err n) c = handleWriteCb env err n c"
| "conn_step env (CI_read err bs) c = handleReadCb env err bs c"
| "conn_step env CI_tls_closed c = Some (handleCloseCb env c)"
| "conn_step env CI_retry c = (if retry_pending (cn_trace c) then Some (Connection_retry env c) else None)"
| "conn_step env (CI_hung reason) c = Some (connectionHung env reason c)"
| "conn_step env (CI_tick reason) c = Some (heartbeat_tick env reason c)"
| "conn_step env CI_channelHung c = Some (Connection_channelHung env c)"
| "conn_step env CI_close c = Some (Connection_close env c)"
| "conn_step env (CI_send ch m cb) c = Some (handleAsyncChannelSend env ch m cb c)"
| "conn_step env (CI_createReceive p) c = Some (createReceiveChannel env p c)"
| "conn_step env (CI_createSend p) c = Some (createSendChannel p c)"
| "conn_step env (CI_pause b) c = Some (Connection_pauseReceiveChannels env b c)"
| "conn_step env (CI_resume b) c = Some (Connection_resumeReceiveChannels env b c)"

fun conn_run ::
  "(('dt, 'g, 'p) conn_env \<times> ('dt, 'g, 'p) conn_input) list \<Rightarrow> ('dt, 'g, 'p) connection \<Rightarrow>
     ('dt, 'g, 'p) connection option" where
  "conn_run [] c = Some c"
| "conn_run ((env, i) # is) c = (case conn_step env i c of None \<Rightarrow> None | Some c' \<Rightarrow> conn_run is c')"


section \<open>The invariant\<close>

text \<open>The control frames written since the last attempt to connect: 0 for the protocol header, and method ids.\<close>

definition control_writes :: "('dt, 'g, 'p) conn_event list \<Rightarrow> u16 list" where
  "control_writes tr =
     foldl (\<lambda>ws e. case e of
              CE_connect _ \<Rightarrow> [] | CE_header \<Rightarrow> ws @ [0] | CE_method m \<Rightarrow> ws @ [ConnectionMethod_methodId m] | _ \<Rightarrow> ws) [] tr"

text \<open>What has been written at least when the connection is in a state of the handshake.\<close>

fun required_writes :: "connection_state \<Rightarrow> u16 list" where
  "required_writes PROTOCOL_HEADER_SENT = [0]"
| "required_writes CONNECTION_START_RECEIVED = [0]"
| "required_writes CONNECTION_STARTOK_SENT = [0, 11]"
| "required_writes CONNECTION_TUNE_RECEIVED = [0, 11]"
| "required_writes CONNECTION_TUNEOK_SENT = [0, 11, 31]"
| "required_writes CONNECTION_OPEN_SENT = [0, 11, 31, 40]"
| "required_writes CONNECTED = [0, 11, 31, 40]"
| "required_writes _ = []"

definition state_ok :: "('dt, 'g, 'p) conn_event list \<Rightarrow> bool \<Rightarrow> connection_state \<Rightarrow> bool" where
  "state_ok tr closeRequested st \<longleftrightarrow>
     subseq (required_writes st) (control_writes tr) \<and> (st = CONNECTION_CLOSE_SENT_EXIT \<longrightarrow> closeRequested)"

fun callback_ok :: "('dt, 'g, 'p) conn_event list \<Rightarrow> bool \<Rightarrow> conn_callback \<Rightarrow> bool" where
  "callback_ok tr closeRequested (CC_state st) \<longleftrightarrow> state_ok tr closeRequested st"
| "callback_ok tr closeRequested _ \<longleftrightarrow> True"

definition socket_ok :: "('dt, 'g, 'p) conn_event list \<Rightarrow> bool \<Rightarrow> conn_socket \<Rightarrow> bool" where
  "socket_ok tr closeRequested s \<longleftrightarrow>
     (\<forall>(cb, fs) \<in> set (as_writeQueue s). callback_ok tr closeRequested cb) \<and>
     (as_shutdown s = Some FATAL \<longrightarrow> closeRequested)"

definition close_reported :: "('dt, 'g, 'p) connection \<Rightarrow> bool" where
  "close_reported c \<longleftrightarrow> (cn_closeRequested c \<and> \<not> cn_closeCb c \<longrightarrow> CE_close_finished \<in> set (cn_trace c))"

definition conn_inv :: "('dt, 'g, 'p) connection \<Rightarrow> bool" where
  "conn_inv c \<longleftrightarrow>
     framer_inv (cn_framer c) \<and> CE_assertion_failed \<notin> set (cn_trace c) \<and>
     state_ok (cn_trace c) (cn_closeRequested c) (cn_state c) \<and>
     (\<forall>k s. cn_socket c = Some (k, s) \<longrightarrow> socket_ok (cn_trace c) (cn_closeRequested c) s) \<and>
     (cn_socket c = None \<longrightarrow> cn_state c = DISCONNECTED \<or> cn_state c = CONNECTION_CLOSE_RECEIVED) \<and>
     (retry_pending (cn_trace c) \<or> cn_attempts c = 0 \<longrightarrow> cn_socket c = None) \<and>
     (cn_attempts c > 0 \<and> \<not> cn_closeRequested c \<longrightarrow> cn_socket c \<noteq> None \<or> retry_pending (cn_trace c)) \<and>
     (cn_closeCb c \<longrightarrow>
        cn_closeRequested c \<and> (cn_socket c \<noteq> None \<or> cn_state c = CONNECTION_CLOSE_RECEIVED)) \<and>
     (\<forall>s. cn_released c = Some s \<longrightarrow>
        cn_inHandler c \<and> cn_socket c = None \<and> (as_shutdown s = Some FATAL \<longrightarrow> cn_closeRequested c)) \<and>
     close_reported c"

lemmas conn_inv_defs = conn_inv_def close_reported_def

text \<open>An event that starts no attempt, schedules none and writes no control frame.\<close>

fun quiet_event :: "('dt, 'g, 'p) conn_event \<Rightarrow> bool" where
  "quiet_event (CE_connect _) \<longleftrightarrow> False"
| "quiet_event CE_retry \<longleftrightarrow> False"
| "quiet_event CE_header \<longleftrightarrow> False"
| "quiet_event (CE_method _) \<longleftrightarrow> False"
| "quiet_event CE_assertion_failed \<longleftrightarrow> False"
| "quiet_event CE_close_finished \<longleftrightarrow> False"
| "quiet_event _ \<longleftrightarrow> True"

lemma control_writes_snoc [simp]:
  "control_writes [] = []"
  "control_writes (tr @ [e]) =
     (case e of CE_connect _ \<Rightarrow> [] | CE_header \<Rightarrow> control_writes tr @ [0]
      | CE_method m \<Rightarrow> control_writes tr @ [ConnectionMethod_methodId m] | _ \<Rightarrow> control_writes tr)"
  by (simp add: control_writes_def, cases e) (simp_all add: control_writes_def)

lemma retry_pending_snoc [simp]:
  "\<not> retry_pending []"
  "retry_pending (tr @ [e]) = (case e of CE_retry \<Rightarrow> True | CE_connect _ \<Rightarrow> False | _ \<Rightarrow> retry_pending tr)"
  by (simp add: retry_pending_def, cases e) (simp_all add: retry_pending_def)

lemma quiet_trace:
  assumes "quiet_event e"
  shows "control_writes (tr @ [e]) = control_writes tr" "retry_pending (tr @ [e]) = retry_pending tr"
    "e \<noteq> CE_assertion_failed" "e \<noteq> CE_close_finished"
  using assms by (cases e; simp)+

lemma state_ok_cong:
  "control_writes tr = control_writes tr' \<Longrightarrow> state_ok tr b = state_ok tr' b"
  by (simp add: state_ok_def fun_eq_iff)

lemma callback_ok_cong:
  "control_writes tr = control_writes tr' \<Longrightarrow> callback_ok tr b = callback_ok tr' b"
proof
  fix cb
  show "control_writes tr = control_writes tr' \<Longrightarrow> callback_ok tr b cb = callback_ok tr' b cb"
    by (cases cb) (simp_all add: state_ok_def)
qed

lemma socket_ok_cong:
  "control_writes tr = control_writes tr' \<Longrightarrow> socket_ok tr b = socket_ok tr' b"
  by (simp add: socket_ok_def fun_eq_iff callback_ok_cong [of tr tr'])


lemma conn_inv_quiet:
  assumes "quiet_event e"
  shows "conn_inv (conn_emit e c) \<longleftrightarrow> conn_inv c"
proof -
  have q: "control_writes (cn_trace c @ [e]) = control_writes (cn_trace c)"
    "retry_pending (cn_trace c @ [e]) = retry_pending (cn_trace c)" "e \<noteq> CE_assertion_failed" "e \<noteq> CE_close_finished"
    using quiet_trace [OF assms] by simp_all
  show ?thesis
    using q(3,4) by (simp add: conn_inv_defs conn_emit_def q(2) state_ok_cong [OF q(1)] socket_ok_cong [OF q(1)]
        del: control_writes_snoc retry_pending_snoc)
qed

lemma conn_inv_quiets: "\<forall>e \<in> set es. quiet_event e \<Longrightarrow> conn_inv (conn_emits es c) \<longleftrightarrow> conn_inv c"
proof (induction es arbitrary: c)
  case (Cons e es)
  have "conn_emits (e # es) c = conn_emits es (conn_emit e c)"
    by (simp add: conn_emits_def conn_emit_def)
  then show ?case
    using Cons conn_inv_quiet [of e c] by simp
qed (simp add: conn_emits_def)

lemma channel_events_quiet: "\<forall>e \<in> set (map CE_channel calls). quiet_event e"
  by auto

lemmas conn_inv_events [simp] =
  conn_inv_quiet conn_inv_quiets [OF channel_events_quiet]

lemma conn_inv_fields [simp]:
  "conn_inv (c\<lparr>cn_heartbeat := hb\<rparr>) = conn_inv c" "conn_inv (c\<lparr>cn_channels := cm\<rparr>) = conn_inv c"
  "conn_inv (c\<lparr>cn_onOpenState := os\<rparr>) = conn_inv c" "conn_inv (c\<lparr>cn_firstConnectCb := b\<rparr>) = conn_inv c"
  "conn_inv (c\<lparr>cn_hasBeenConnected := b\<rparr>) = conn_inv c"
  by (simp_all add: conn_inv_defs)

lemma conn_emit_fields [simp]:
  "cn_state (conn_emit e c) = cn_state c" "cn_socket (conn_emit e c) = cn_socket c"
  "cn_closeRequested (conn_emit e c) = cn_closeRequested c" "cn_closeCb (conn_emit e c) = cn_closeCb c"
  "cn_attempts (conn_emit e c) = cn_attempts c" "cn_framer (conn_emit e c) = cn_framer c"
  "cn_trace (conn_emit e c) = cn_trace c @ [e]" "cn_channels (conn_emit e c) = cn_channels c"
  "cn_released (conn_emit e c) = cn_released c" "cn_inHandler (conn_emit e c) = cn_inHandler c"
  "cn_heartbeat (conn_emit e c) = cn_heartbeat c" "cn_firstConnectCb (conn_emit e c) = cn_firstConnectCb c"
  "cn_secure (conn_emit e c) = cn_secure c" "cn_onOpenState (conn_emit e c) = cn_onOpenState c" "cn_name (conn_emit e c) = cn_name c"
  by (simp_all add: conn_emit_def)

lemma conn_emits_fields [simp]:
  "cn_state (conn_emits es c) = cn_state c" "cn_socket (conn_emits es c) = cn_socket c"
  "cn_closeRequested (conn_emits es c) = cn_closeRequested c" "cn_closeCb (conn_emits es c) = cn_closeCb c"
  "cn_attempts (conn_emits es c) = cn_attempts c" "cn_framer (conn_emits es c) = cn_framer c"
  "cn_trace (conn_emits es c) = cn_trace c @ es" "cn_channels (conn_emits es c) = cn_channels c"
  "cn_released (conn_emits es c) = cn_released c" "cn_inHandler (conn_emits es c) = cn_inHandler c"
  "cn_heartbeat (conn_emits es c) = cn_heartbeat c" "cn_firstConnectCb (conn_emits es c) = cn_firstConnectCb c"
  "cn_onOpenState (conn_emits es c) = cn_onOpenState c"
  by (simp_all add: conn_emits_def)

lemma conn_inv_framer: "conn_inv c \<Longrightarrow> framer_inv fr \<Longrightarrow> conn_inv (c\<lparr>cn_framer := fr\<rparr>)"
  by (simp add: conn_inv_defs)

lemma conn_inv_state:
  "conn_inv c \<Longrightarrow> cn_socket c \<noteq> None \<Longrightarrow> state_ok (cn_trace c) (cn_closeRequested c) st \<Longrightarrow>
     conn_inv (c\<lparr>cn_state := st\<rparr>)"
  by (auto simp: conn_inv_defs)

lemma conn_inv_close_received: "conn_inv c \<Longrightarrow> conn_inv (c\<lparr>cn_state := CONNECTION_CLOSE_RECEIVED\<rparr>)"
  by (auto simp: conn_inv_defs state_ok_def)

section \<open>Writing keeps it\<close>

fun write_event :: "('dt, 'g, 'p) conn_event \<Rightarrow> bool" where
  "write_event CE_header \<longleftrightarrow> True"
| "write_event (CE_method _) \<longleftrightarrow> True"
| "write_event e \<longleftrightarrow> quiet_event e"

lemma write_trace:
  assumes "write_event e"
  shows "\<exists>ws. control_writes (tr @ [e]) = control_writes tr @ ws" "retry_pending (tr @ [e]) = retry_pending tr"
    "e \<noteq> CE_assertion_failed"
  using assms by (cases e; simp)+

lemma write_trace_subseq: "write_event e \<Longrightarrow> subseq (control_writes tr) (control_writes (tr @ [e]))"
  using write_trace(1) [of e tr] by (metis list_emb_append2 subseq_order.order_refl subseq_rev_drop_many)

lemma state_ok_mono:
  "subseq (control_writes tr) (control_writes tr') \<Longrightarrow> state_ok tr b st \<Longrightarrow> state_ok tr' b st"
  by (auto simp: state_ok_def intro: subseq_order.trans)

lemma callback_ok_mono:
  "subseq (control_writes tr) (control_writes tr') \<Longrightarrow> callback_ok tr b cb \<Longrightarrow> callback_ok tr' b cb"
  by (cases cb) (auto intro: state_ok_mono)

lemma socket_ok_mono:
  "subseq (control_writes tr) (control_writes tr') \<Longrightarrow> socket_ok tr b s \<Longrightarrow> socket_ok tr' b s"
  unfolding socket_ok_def by (auto intro: callback_ok_mono)

lemma asyncWrite_queue:
  "\<exists>evs. asyncWrite fs cb s = Some (evs, s\<lparr>as_writeQueue := as_writeQueue s @ [(cb, fs)]\<rparr>)"
  by (cases "as_writeQueue s") (simp_all add: asyncWrite_def startNextWrite_def Let_def)

lemma socket_write_eq:
  "socket_write e fs cb c =
     (case cn_socket c of
        None \<Rightarrow> c
      | Some (k, s) \<Rightarrow>
          (conn_emit e c)\<lparr>cn_socket := Some (k, s\<lparr>as_writeQueue := as_writeQueue s @ [(cb, fs)]\<rparr>),
             cn_heartbeat := notifyMessageSent (cn_heartbeat c)\<rparr>)"
proof (cases "cn_socket c")
  case (Some p)
  then obtain k s where p: "cn_socket c = Some (k, s)"
    by (cases p) auto
  show ?thesis
    using asyncWrite_queue [of fs cb s] p by (auto simp: socket_write_def)
qed (simp add: socket_write_def)

lemma socket_write_fields [simp]:
  "cn_state (socket_write e fs cb c) = cn_state c"
  "cn_closeRequested (socket_write e fs cb c) = cn_closeRequested c"
  "cn_socket (socket_write e fs cb c) = None \<longleftrightarrow> cn_socket c = None"
  "cn_socket c \<noteq> None \<Longrightarrow> cn_trace (socket_write e fs cb c) = cn_trace c @ [e]"
  by (auto simp: socket_write_eq split: option.splits)

lemma conn_inv_write:
  assumes "conn_inv c" and "write_event e" and "callback_ok (cn_trace c @ [e]) (cn_closeRequested c) cb"
  shows "conn_inv (socket_write e fs cb c)"
proof (cases "cn_socket c")
  case (Some p)
  then obtain k s where p: "cn_socket c = Some (k, s)"
    by (cases p) auto
  let ?tr = "cn_trace c @ [e]" and ?b = "cn_closeRequested c"
  let ?s = "s\<lparr>as_writeQueue := as_writeQueue s @ [(cb, fs)]\<rparr>"
  note t = write_trace [OF assms(2)] and ts = write_trace_subseq [OF assms(2)]
  have "state_ok ?tr ?b (cn_state c)" "socket_ok ?tr ?b s"
    using assms(1) p state_ok_mono [OF ts] socket_ok_mono [OF ts] by (auto simp: conn_inv_defs)
  then have "state_ok ?tr ?b (cn_state c)" "socket_ok ?tr ?b ?s"
    using assms(3) by (auto simp: socket_ok_def)
  then show ?thesis
    using assms(1) p t(2) [of "cn_trace c"] t(3) by (simp add: conn_inv_defs socket_write_eq)
qed (simp add: socket_write_eq assms(1))

section \<open>Shutting down keeps it\<close>

text \<open>What a shutdown needs of the connection.\<close>

definition shutdown_ready :: "('dt, 'g, 'p) connection \<Rightarrow> bool" where
  "shutdown_ready c \<longleftrightarrow>
     CE_assertion_failed \<notin> set (cn_trace c) \<and> (cn_closeCb c \<longrightarrow> cn_closeRequested c) \<and>
     (\<forall>k s. cn_socket c = Some (k, s) \<longrightarrow> as_shutdown s = Some FATAL \<longrightarrow> cn_closeRequested c) \<and>
     (\<forall>s. cn_released c = Some s \<longrightarrow> cn_inHandler c \<and> (as_shutdown s = Some FATAL \<longrightarrow> cn_closeRequested c)) \<and>
     close_reported c"

lemma shutdown_begin_fields [simp]:
  "cn_closeRequested (shutdown_begin env c) = cn_closeRequested c" "cn_socket (shutdown_begin env c) = cn_socket c"
  "cn_closeCb (shutdown_begin env c) = cn_closeCb c" "cn_attempts (shutdown_begin env c) = cn_attempts c"
  "cn_framer (shutdown_begin env c) = Framer_new" "cn_inHandler (shutdown_begin env c) = cn_inHandler c"
  "cn_released (shutdown_begin env c) = cn_released c" "cn_onOpenState (shutdown_begin env c) = cn_onOpenState c"
  "CE_assertion_failed \<in> set (cn_trace (shutdown_begin env c)) \<longleftrightarrow> CE_assertion_failed \<in> set (cn_trace c)"
  by (auto simp: shutdown_begin_def split: prod.splits)

lemma shutdown_end_fields [simp]:
  "cn_closeRequested (shutdown_end w c) = cn_closeRequested c" "cn_socket (shutdown_end w c) = cn_socket c"
  "cn_attempts (shutdown_end w c) = cn_attempts c" "cn_state (shutdown_end w c) = DISCONNECTED"
  "cn_framer (shutdown_end w c) = cn_framer c" "cn_inHandler (shutdown_end w c) = cn_inHandler c"
  "cn_released (shutdown_end w c) = cn_released c" "cn_onOpenState (shutdown_end w c) = cn_onOpenState c"
  "cn_closeCb (shutdown_end w c) \<longleftrightarrow> w \<and> cn_closeCb c"
  "CE_assertion_failed \<in> set (cn_trace (shutdown_end w c)) \<longleftrightarrow> CE_assertion_failed \<in> set (cn_trace c)"
  by (auto simp: shutdown_end_def Let_def)

lemma shutdown_end_retries [simp]: "retry_pending (cn_trace (shutdown_end True c))"
  by (simp add: shutdown_end_def Let_def) (simp add: retry_pending_def)

lemma socket_destroyed_eq:
  "socket_destroyed env s c =
     (case as_shutdown s of
        Some dt \<Rightarrow> if as_state s = AS_CLOSING then shutdown_end (will_retry dt c) (shutdown_begin env c) else c
      | None \<Rightarrow> c)"
  by (cases "as_shutdown s"; cases "as_state s = AS_CLOSING")
    (simp_all add: socket_destroyed_def AsioConnection_destroy_def doClose_def)

lemma socket_destroyed_fields [simp]:
  "cn_closeRequested (socket_destroyed env s c) = cn_closeRequested c"
  "cn_socket (socket_destroyed env s c) = cn_socket c" "cn_attempts (socket_destroyed env s c) = cn_attempts c"
  "cn_framer c = Framer_new \<Longrightarrow> cn_framer (socket_destroyed env s c) = Framer_new"
  "CE_assertion_failed \<in> set (cn_trace (socket_destroyed env s c)) \<longleftrightarrow> CE_assertion_failed \<in> set (cn_trace c)"
  "cn_released (socket_destroyed env s c) = cn_released c"
  "cn_onOpenState (socket_destroyed env s c) = cn_onOpenState c"
  "cn_inHandler (socket_destroyed env s c) = cn_inHandler c"
  by (auto simp: socket_destroyed_eq split: option.splits if_splits)

lemma socket_destroyed_closeCb: "cn_closeCb (socket_destroyed env s c) \<Longrightarrow> cn_closeCb c"
  by (auto simp: socket_destroyed_eq split: option.splits if_splits)

lemma release_fields [simp]:
  "cn_closeRequested (release_socket env c) = cn_closeRequested c" "cn_socket (release_socket env c) = None"
  "cn_attempts (release_socket env c) = cn_attempts c"
  "cn_framer c = Framer_new \<Longrightarrow> cn_framer (release_socket env c) = Framer_new"
  "CE_assertion_failed \<in> set (cn_trace (release_socket env c)) \<longleftrightarrow> CE_assertion_failed \<in> set (cn_trace c)"
  "cn_inHandler (release_socket env c) = cn_inHandler c" "cn_onOpenState (release_socket env c) = cn_onOpenState c"
  by (auto simp: release_socket_def split: option.splits prod.splits)

lemma release_closeCb: "cn_closeCb (release_socket env c) \<Longrightarrow> cn_closeCb c"
  by (auto simp: release_socket_def split: option.splits prod.splits if_splits dest: socket_destroyed_closeCb)

lemma release_released:
  "cn_released (release_socket env c) = Some s \<Longrightarrow>
     cn_released c = Some s \<or> (cn_inHandler c \<and> (\<exists>k. cn_socket c = Some (k, s)))"
  by (auto simp: release_socket_def split: option.splits prod.splits if_splits)

lemma close_reported_shutdown:
  "close_reported c \<Longrightarrow> close_reported (shutdown_begin env c)"
  "close_reported c \<Longrightarrow> close_reported (shutdown_end w c)"
  "close_reported c \<Longrightarrow> close_reported (socket_destroyed env s c)"
  "close_reported c \<Longrightarrow> close_reported (release_socket env c)"
proof -
  show b: "close_reported (shutdown_begin env c)" if "close_reported c" for c
    using that by (auto simp: close_reported_def shutdown_begin_def split: prod.splits)
  show e: "close_reported (shutdown_end w c)" if "close_reported c" for w c
    using that by (auto simp: close_reported_def shutdown_end_def Let_def)
  show d: "close_reported (socket_destroyed env s c)" if "close_reported c" for s c
    using that b e by (auto simp: socket_destroyed_eq split: option.split)
  show "close_reported (release_socket env c)" if "close_reported c"
  proof -
    have "close_reported (c\<lparr>cn_socket := None\<rparr>)" "close_reported (c\<lparr>cn_socket := None, cn_released := Some s\<rparr>)" for s
      using that by (simp_all add: close_reported_def)
    then show ?thesis
      using that d by (auto simp: release_socket_def split: option.split)
  qed
qed

lemma framer_inv_new: "framer_inv Framer_new"
  by (simp add: framer_inv_def Framer_new_def maxFrameSize_def frame_sizes)

lemma conn_inv_shutdown:
  assumes "shutdown_ready c" and "dt = FATAL \<Longrightarrow> cn_closeRequested c"
  shows "conn_inv (socketShutdown env dt code c)"
proof -
  let ?c = "socketShutdown env dt code c"
  have w: "will_retry dt c \<longleftrightarrow> \<not> cn_closeRequested c"
    using assms(2) by (cases dt) (auto simp: will_retry_def)
  have f: "cn_framer ?c = Framer_new" "cn_socket ?c = None" "cn_state ?c = DISCONNECTED"
    "cn_closeRequested ?c = cn_closeRequested c" "CE_assertion_failed \<notin> set (cn_trace ?c)"
    using assms(1) by (simp_all add: socketShutdown_def shutdown_ready_def)
  have r: "retry_pending (cn_trace ?c)" if "\<not> cn_closeRequested c"
    using that w by (simp add: socketShutdown_def)
  have cb: "\<not> cn_closeCb ?c"
    using assms(1) w by (auto simp: socketShutdown_def shutdown_ready_def dest: release_closeCb)
  have "\<forall>s. cn_released ?c = Some s \<longrightarrow>
      cn_inHandler ?c \<and> (as_shutdown s = Some FATAL \<longrightarrow> cn_closeRequested c)"
    using assms(1) by (auto simp: socketShutdown_def shutdown_ready_def dest!: release_released)
  moreover have "close_reported ?c"
    using assms(1) by (simp add: socketShutdown_def Let_def shutdown_ready_def close_reported_shutdown)
  ultimately show ?thesis
    using f r cb by (auto simp: conn_inv_def state_ok_def framer_inv_new)
qed

lemma socketShutdown_fields [simp]:
  "cn_closeRequested (socketShutdown env dt code c) = cn_closeRequested c"
  "cn_attempts (socketShutdown env dt code c) = cn_attempts c"
  "cn_inHandler (socketShutdown env dt code c) = cn_inHandler c"
  "cn_onOpenState (socketShutdown env dt code c) = cn_onOpenState c"
  "cn_socket (socketShutdown env dt code c) = None" "cn_state (socketShutdown env dt code c) = DISCONNECTED"
  by (simp_all add: socketShutdown_def Let_def)

lemma conn_inv_ready: "conn_inv c \<Longrightarrow> shutdown_ready c"
  by (auto simp: conn_inv_defs shutdown_ready_def socket_ok_def)

lemma conn_inv_destroyed:
  assumes "conn_inv c" and "as_shutdown s = Some FATAL \<Longrightarrow> cn_closeRequested c" and "cn_socket c = None"
  shows "conn_inv (socket_destroyed env s c)"
proof -
  have "shutdown_end (will_retry dt c) (shutdown_begin env c) = socketShutdown env dt GRACEFUL_DISCONNECT c" for dt
    by (simp add: socketShutdown_def release_socket_def assms(3))
  then show ?thesis
    using assms conn_inv_shutdown [OF conn_inv_ready [OF assms(1)]] by (auto simp: socket_destroyed_eq split: option.split)
qed

lemma conn_inv_closeSocket:
  assumes "conn_inv c" and "dt = FATAL \<Longrightarrow> cn_closeRequested c"
  shows "conn_inv (closeSocket env dt c)"
proof -
  have ready: "shutdown_ready (c\<lparr>cn_state := CONNECTION_CLOSED\<rparr>)"
    using conn_inv_ready [OF assms(1)] by (simp add: shutdown_ready_def close_reported_def)
  show ?thesis
  proof (cases "\<exists>k s. cn_socket c = Some (k, s) \<and> isConnected s")
    case True
    then obtain k s where s: "cn_socket c = Some (k, s)" "isConnected s"
      by blast
    obtain evs s' where cl: "AsioConnection_close (env_shutdownFails env) dt s = (evs, s')"
      by (cases "AsioConnection_close (env_shutdownFails env) dt s")
    then have "as_writeQueue s' = as_writeQueue s" "as_shutdown s' = Some FATAL \<Longrightarrow> dt = FATAL"
      by (auto simp: AsioConnection_close_def Let_def split: if_splits)
    moreover have "socket_ok (cn_trace c) (cn_closeRequested c) s"
      using assms(1) s(1) by (simp add: conn_inv_defs)
    ultimately have "socket_ok (cn_trace c) (cn_closeRequested c) s'"
      using assms(2) by (auto simp: socket_ok_def)
    then have inv: "conn_inv (c\<lparr>cn_state := CONNECTION_CLOSED, cn_socket := Some (k, s')\<rparr>)"
      using assms(1) s by (auto simp: conn_inv_defs state_ok_def)
    let ?c = "(conn_emit (CE_socket_close dt) (c\<lparr>cn_state := CONNECTION_CLOSED\<rparr>))\<lparr>cn_socket := Some (k, s')\<rparr>"
    have "?c = conn_emit (CE_socket_close dt) (c\<lparr>cn_state := CONNECTION_CLOSED, cn_socket := Some (k, s')\<rparr>)"
      by (intro connection.equality) (simp_all add: conn_emit_def)
    then have "conn_inv ?c"
      using inv by simp
    moreover from this have "conn_inv (socketShutdown env dt DISCONNECTED_ERROR ?c)"
      using assms(2) by (intro conn_inv_shutdown conn_inv_ready) simp_all
    ultimately show ?thesis
      using s cl by (simp add: closeSocket_def Let_def)
  next
    case False
    have "conn_inv (socketShutdown env dt HUNG_ERROR (c\<lparr>cn_state := CONNECTION_CLOSED\<rparr>))"
      using conn_inv_shutdown [OF ready] assms(2) by simp
    then show ?thesis
      using False by (auto simp: closeSocket_def Let_def split: option.splits)
  qed
qed

lemma conn_inv_closeSocket_retry [simp]: "conn_inv c \<Longrightarrow> conn_inv (closeSocket env WILL_RETRY c)"
  by (rule conn_inv_closeSocket) simp_all

section \<open>The handlers keep it\<close>

lemma conn_inv_send_method:
  "conn_inv c \<Longrightarrow> state_ok (cn_trace c @ [CE_method m]) (cn_closeRequested c) st \<Longrightarrow> conn_inv (send_method env m st c)"
  by (simp add: send_method_def asyncWriteSingleFrame_def conn_inv_write)

lemma send_method_fields [simp]:
  "cn_closeRequested (send_method env m st c) = cn_closeRequested c"
  "cn_state (send_method env m st c) = cn_state c"
  "cn_socket (send_method env m st c) = None \<longleftrightarrow> cn_socket c = None"
  "cn_socket c \<noteq> None \<Longrightarrow> cn_trace (send_method env m st c) = cn_trace c @ [CE_method m]"
  by (simp_all add: send_method_def asyncWriteSingleFrame_def)

lemma conn_inv_close: "conn_inv c \<Longrightarrow> code \<noteq> REPLY_SUCCESS \<or> cn_closeRequested c \<Longrightarrow>
    conn_inv (sendConnectionClose env code txt cls mth c)"
  by (auto simp: sendConnectionClose_def state_ok_def intro!: conn_inv_send_method)

lemma conn_inv_exception:
  assumes "conn_inv c" and "code \<noteq> REPLY_SUCCESS"
  shows "conn_inv (connectionException env code txt cls mth c)"
proof -
  have "cn_state c = CONNECTION_CLOSE_SENT_EXIT \<Longrightarrow> cn_closeRequested c"
    using assms(1) by (auto simp: conn_inv_defs state_ok_def)
  then show ?thesis
    using assms by (auto simp: connectionException_def conn_inv_closeSocket conn_inv_close split: connection_state.split)
qed

lemma reply_codes [simp]:
  "NOT_ALLOWED \<noteq> REPLY_SUCCESS" "UNEXPECTED_FRAME \<noteq> REPLY_SUCCESS" "NOT_IMPLEMENTED \<noteq> REPLY_SUCCESS"
  "SYNTAX_ERROR \<noteq> REPLY_SUCCESS" "CHANNEL_ERROR \<noteq> REPLY_SUCCESS"
  by (simp_all add: NOT_ALLOWED_def UNEXPECTED_FRAME_def NOT_IMPLEMENTED_def SYNTAX_ERROR_def CHANNEL_ERROR_def
      REPLY_SUCCESS_def)

lemma conn_inv_writeComplete:
  assumes "conn_inv c" and "cn_socket c \<noteq> None" and "callback_ok (cn_trace c) (cn_closeRequested c) (CC_state st)"
  shows "conn_inv (Connection_onWriteComplete env st c)"
  using conn_inv_state [OF assms(1,2)] assms(3)
  by (auto simp: Connection_onWriteComplete_def Let_def intro!: conn_inv_closeSocket)

lemma conn_inv_live: "conn_inv c \<Longrightarrow> cn_state c \<noteq> DISCONNECTED \<Longrightarrow> cn_state c \<noteq> CONNECTION_CLOSE_RECEIVED \<Longrightarrow>
    cn_socket c \<noteq> None"
  by (auto simp: conn_inv_defs)

lemma required_next:
  "subseq [0, 11] ws \<Longrightarrow> subseq [0, 11, 31] (ws @ [31])"
  "subseq [0, 11, 31] ws \<Longrightarrow> subseq [0, 11, 31, 40] (ws @ [40])"
  "subseq [0] ws \<Longrightarrow> subseq [0, 11] (ws @ [11])"
  using list_emb_append_mono [of "(=)" "[0, 11]" ws "[31]" "[31]"]
    list_emb_append_mono [of "(=)" "[0, 11, 31]" ws "[40]" "[40]"]
    list_emb_append_mono [of "(=)" "[0]" ws "[11]" "[11]"] by simp_all

lemma conn_inv_start:
  assumes "conn_inv c" and "cn_state c = PROTOCOL_HEADER_SENT"
  shows "conn_inv (sendConnectionStartOk env (c\<lparr>cn_state := CONNECTION_START_RECEIVED\<rparr>))"
proof -
  have ok: "state_ok (cn_trace c) (cn_closeRequested c) PROTOCOL_HEADER_SENT"
    using assms by (simp add: conn_inv_defs)
  have "conn_inv (c\<lparr>cn_state := CONNECTION_START_RECEIVED\<rparr>)"
    using conn_inv_live [OF assms(1)] assms(2) ok by (intro conn_inv_state assms(1)) (auto simp: state_ok_def)
  then show ?thesis
    using ok by (auto simp: sendConnectionStartOk_def state_ok_def required_next intro!: conn_inv_send_method)
qed

lemma conn_inv_tune:
  assumes "conn_inv c" and "cn_state c = CONNECTION_STARTOK_SENT"
    and "Connection_sendTuneOk env tune (c\<lparr>cn_state := CONNECTION_TUNE_RECEIVED\<rparr>) = (ok, c')"
  shows "conn_inv (if ok then sendConnectionOpen env c' else c')"
proof -
  let ?c = "c\<lparr>cn_state := CONNECTION_TUNE_RECEIVED\<rparr>"
  have st: "state_ok (cn_trace c) (cn_closeRequested c) CONNECTION_STARTOK_SENT" and live: "cn_socket c \<noteq> None"
    using assms conn_inv_live [OF assms(1)] by (simp_all add: conn_inv_defs)
  have inv: "conn_inv ?c"
    using st live by (intro conn_inv_state assms(1)) (auto simp: state_ok_def)
  show ?thesis
  proof (cases "negotiated_frameMax tune < FRAME_MIN_SIZE")
    case True
    then show ?thesis
      using assms(3) inv conn_inv_exception [OF inv, of NOT_ALLOWED]
      by (auto simp: Connection_sendTuneOk_def sendConnectionTuneOk_cases Let_def)
  next
    case False
    let ?fr = "(cn_framer c)\<lparr>fr_maxFrameSize := unat (negotiated_frameMax tune)\<rparr>"
    have "framer_inv ?fr"
      using assms(1) False
      by (auto simp: conn_inv_defs framer_inv_def FRAME_MIN_SIZE_def word_less_nat_alt frame_sizes)
    then have inv': "conn_inv (?c\<lparr>cn_framer := ?fr, cn_heartbeat := hb\<rparr>)" for hb
      using conn_inv_framer [OF inv, of ?fr] by simp
    obtain m hb where c': "ok" "c' = send_method env (M_ConnectionTuneOk m) CONNECTION_TUNEOK_SENT
        (?c\<lparr>cn_framer := ?fr, cn_heartbeat := hb\<rparr>)"
      using False assms(3) by (auto simp: Connection_sendTuneOk_def sendConnectionTuneOk_cases)
    have "conn_inv c'"
      using st unfolding c'(2) by (intro conn_inv_send_method inv') (auto simp: state_ok_def required_next)
    moreover have "state_ok (cn_trace c' @ [CE_method (M_ConnectionOpen x)]) (cn_closeRequested c') CONNECTION_OPEN_SENT" for x
    proof -
      have "control_writes (cn_trace c' @ [CE_method (M_ConnectionOpen x)]) =
          (control_writes (cn_trace c) @ [31]) @ [40]"
        by (simp add: c'(2) live) (simp add: control_writes_def)
      then show ?thesis
        using st required_next(2) [OF required_next(1)] by (auto simp: state_ok_def)
    qed
    ultimately show ?thesis
      using c'(1) by (simp add: sendConnectionOpen_def conn_inv_send_method)
  qed
qed

lemma conn_inv_openOk:
  assumes "conn_inv c" and "cn_state c = CONNECTION_OPEN_SENT"
  shows "conn_inv (processOpenOk c)"
proof -
  have "conn_inv (c\<lparr>cn_state := CONNECTED\<rparr>)"
    using assms conn_inv_live [OF assms(1)]
    by (intro conn_inv_state assms(1)) (auto simp: conn_inv_defs state_ok_def)
  then show ?thesis
    by (simp add: processOpenOk_def Let_def)
qed

lemma conn_inv_method:
  assumes "conn_inv c"
  shows "conn_inv (processConnectionMethod env m c)"
proof (cases m)
  case (M_ConnectionTune tune)
  obtain ok c' where "Connection_sendTuneOk env tune (c\<lparr>cn_state := CONNECTION_TUNE_RECEIVED\<rparr>) = (ok, c')"
    by fastforce
  then show ?thesis
    using M_ConnectionTune assms conn_inv_tune [OF assms, of env tune ok c']
    by (cases ok) (auto simp: processConnectionMethod_def with_expected_state_def conn_inv_exception)
next
  case (M_ConnectionClose close)
  have "conn_inv (sendConnectionCloseOk env (c\<lparr>cn_state := CONNECTION_CLOSE_RECEIVED\<rparr>))"
    using conn_inv_close_received [OF assms]
    by (simp add: sendConnectionCloseOk_def conn_inv_send_method state_ok_def)
  then show ?thesis
    using M_ConnectionClose by (simp add: processConnectionMethod_def Let_def)
next
  case M_ConnectionCloseOk
  have "cn_state c = CONNECTION_CLOSE_SENT_EXIT \<Longrightarrow> cn_closeRequested c"
    using assms by (auto simp: conn_inv_defs state_ok_def)
  then show ?thesis
    using M_ConnectionCloseOk assms by (auto simp: processConnectionMethod_def conn_inv_closeSocket)
qed (use assms in \<open>auto simp: processConnectionMethod_def with_expected_state_def conn_inv_exception conn_inv_start
      conn_inv_openOk\<close>)

text \<open>What only \<open>close\<close>, the completion handlers and new attempts change.\<close>

lemma write_keeps [simp]:
  "cn_inHandler (socket_write e fs cb c) = cn_inHandler c"
  "cn_onOpenState (socket_write e fs cb c) = cn_onOpenState c" "cn_attempts (socket_write e fs cb c) = cn_attempts c"
  by (auto simp: socket_write_eq split: option.splits)

lemma send_method_keeps [simp]:
  "cn_inHandler (send_method env m st c) = cn_inHandler c"
  "cn_onOpenState (send_method env m st c) = cn_onOpenState c" "cn_attempts (send_method env m st c) = cn_attempts c"
  by (simp_all add: send_method_def asyncWriteSingleFrame_def)

lemma closeSocket_keeps [simp]:
  "cn_closeRequested (closeSocket env dt c) = cn_closeRequested c"
  "cn_inHandler (closeSocket env dt c) = cn_inHandler c"
  "cn_onOpenState (closeSocket env dt c) = cn_onOpenState c" "cn_attempts (closeSocket env dt c) = cn_attempts c"
  by (auto simp: closeSocket_def Let_def split: option.splits prod.splits)

lemma exception_keeps [simp]:
  "cn_closeRequested (connectionException env code txt cls mth c) = cn_closeRequested c"
  "cn_inHandler (connectionException env code txt cls mth c) = cn_inHandler c"
  "cn_onOpenState (connectionException env code txt cls mth c) = cn_onOpenState c"
  "cn_attempts (connectionException env code txt cls mth c) = cn_attempts c"
  by (simp_all add: connectionException_def sendConnectionClose_def split: connection_state.split)

lemma tuneOk_keeps:
  "Connection_sendTuneOk env tune c = (ok, c') \<Longrightarrow> cn_closeRequested c' = cn_closeRequested c \<and>
     cn_inHandler c' = cn_inHandler c \<and> cn_onOpenState c' = cn_onOpenState c \<and> cn_attempts c' = cn_attempts c"
  by (auto simp: Connection_sendTuneOk_def Let_def split: option.splits prod.splits bool.splits)

lemma method_keeps [simp]:
  "cn_closeRequested (processConnectionMethod env m c) = cn_closeRequested c"
  "cn_inHandler (processConnectionMethod env m c) = cn_inHandler c"
  "cn_onOpenState (processConnectionMethod env m c) = cn_onOpenState c"
  "cn_attempts (processConnectionMethod env m c) = cn_attempts c"
  by (cases m; auto simp: processConnectionMethod_def with_expected_state_def processOpenOk_def Let_def
      sendConnectionStartOk_def sendConnectionOpen_def sendConnectionCloseOk_def dest: tuneOk_keeps
      split: prod.split bool.split)+

lemma nextFrame_keeps [simp]:
  "cn_closeRequested (processNextFrame env f c) = cn_closeRequested c"
  "cn_inHandler (processNextFrame env f c) = cn_inHandler c"
  "cn_onOpenState (processNextFrame env f c) = cn_onOpenState c"
  "cn_attempts (processNextFrame env f c) = cn_attempts c"
  by (auto simp: processNextFrame_def processMethod_def Let_def split: prod.split option.split amqp_message.split
      Method.split)

lemma socket_callback_keeps [simp]:
  "cn_closeRequested (socket_callback env e c) = cn_closeRequested c"
  "cn_inHandler (socket_callback env e c) = cn_inHandler c"
  "cn_onOpenState (socket_callback env e c) = cn_onOpenState c"
  "cn_attempts (socket_callback env e c) = cn_attempts c"
proof -
  have "cn_closeRequested (conn_callback_run env cb c) = cn_closeRequested c \<and>
      cn_inHandler (conn_callback_run env cb c) = cn_inHandler c \<and>
      cn_onOpenState (conn_callback_run env cb c) = cn_onOpenState c \<and>
      cn_attempts (conn_callback_run env cb c) = cn_attempts c" for cb
    by (cases cb) (simp_all add: Connection_onWriteComplete_def Let_def)
  then show "cn_closeRequested (socket_callback env e c) = cn_closeRequested c"
    "cn_inHandler (socket_callback env e c) = cn_inHandler c"
    "cn_onOpenState (socket_callback env e c) = cn_onOpenState c"
    "cn_attempts (socket_callback env e c) = cn_attempts c"
    by (cases e; simp add: socketError_def)+
qed

lemma fold_keeps [simp]:
  "cn_closeRequested (fold (socket_callback env) evs c) = cn_closeRequested c"
  "cn_inHandler (fold (socket_callback env) evs c) = cn_inHandler c"
  "cn_onOpenState (fold (socket_callback env) evs c) = cn_onOpenState c"
  "cn_attempts (fold (socket_callback env) evs c) = cn_attempts c"
  by (induction evs arbitrary: c) simp_all

lemma conn_inv_nextFrame:
  assumes "conn_inv c" and "length (Frame_payload f) < 2 ^ 64"
  shows "conn_inv (processNextFrame env f c)"
proof -
  obtain rc m fr where a: "appendFrame (env_epoch env) (env_guids env) (env_fresh env) (cn_framer c) f = (rc, m, fr)"
    by (cases "appendFrame (env_epoch env) (env_guids env) (env_fresh env) (cn_framer c) f") auto
  have "framer_inv fr"
    using appendFrame_inv [OF _ assms(2) a] assms(1) by (simp add: conn_inv_defs)
  then have "conn_inv (c\<lparr>cn_heartbeat := hb, cn_framer := fr\<rparr>)" "conn_inv (c\<lparr>cn_framer := fr\<rparr>)" for hb
    using conn_inv_framer [of "c\<lparr>cn_heartbeat := hb\<rparr>" fr] conn_inv_framer [of c fr] assms(1) by simp_all
  then show ?thesis
    using a by (auto simp: processNextFrame_def processMethod_def Let_def conn_inv_exception conn_inv_method
        split: prod.split option.split amqp_message.split Method.split)
qed

lemma conn_inv_send:
  assumes "conn_inv c"
  shows "conn_inv (handleAsyncChannelSend env ch m cb c)"
proof -
  have "makeFrames (env_epoch env) (cn_framer c) ch m \<noteq> None"
    using assms by (cases m) (auto simp: conn_inv_defs framer_inv_def serializeContent_def)
  then show ?thesis
    using assms by (auto simp: handleAsyncChannelSend_def conn_inv_write split: option.split list.split)
qed

section \<open>The completion handlers keep it\<close>

fun event_ok :: "bool \<Rightarrow> (conn_callback, disconnect_type) socket_event \<Rightarrow> bool" where
  "event_ok closeRequested (SE_written _) \<longleftrightarrow> False"
| "event_ok closeRequested (SE_read f) \<longleftrightarrow> length (Frame_payload f) < 2 ^ 64"
| "event_ok closeRequested (SE_done dt _) \<longleftrightarrow> dt = FATAL \<longrightarrow> closeRequested"
| "event_ok closeRequested _ \<longleftrightarrow> True"

lemma conn_inv_event:
  assumes "conn_inv c" and "event_ok (cn_closeRequested c) e"
  shows "conn_inv (socket_callback env e c)"
proof (cases e)
  case (SE_read f)
  then show ?thesis
    using assms by (simp add: conn_inv_nextFrame)
next
  case (SE_done dt rc)
  then show ?thesis
    using assms by (auto intro!: conn_inv_shutdown conn_inv_ready)
next
  case (SE_error rc)
  then show ?thesis
    using assms by (auto simp: socketError_def intro!: conn_inv_shutdown conn_inv_ready)
qed (use assms in auto)

lemma conn_inv_event_list:
  "conn_inv c \<Longrightarrow> \<forall>e \<in> set evs. event_ok (cn_closeRequested c) e \<Longrightarrow> conn_inv (fold (socket_callback env) evs c)"
  by (induction evs arbitrary: c) (simp_all add: conn_inv_event)

lemma doClose_ok:
  "doClose rc s = (evs, s') \<Longrightarrow> (as_shutdown s = Some FATAL \<Longrightarrow> b) \<Longrightarrow>
     (\<forall>e \<in> set evs. event_ok b e) \<and> as_writeQueue s' = as_writeQueue s \<and> as_shutdown s' = as_shutdown s"
  by (auto simp: doClose_def split: option.splits if_splits)

lemma handleError_ok:
  "handleError s = (evs, s') \<Longrightarrow> (as_shutdown s = Some FATAL \<Longrightarrow> b) \<Longrightarrow>
     (\<forall>e \<in> set evs. event_ok b e) \<and> as_writeQueue s' = as_writeQueue s \<and> as_shutdown s' = as_shutdown s"
  by (auto simp: handleError_def dest: doClose_ok split: if_splits)

lemma socket_ok_tail:
  "socket_ok tr b s \<Longrightarrow> set (as_writeQueue s') \<subseteq> set (as_writeQueue s) \<Longrightarrow> as_shutdown s' = as_shutdown s \<Longrightarrow>
     socket_ok tr b s'"
  by (auto simp: socket_ok_def)

text \<open>While a handler runs, the socket is the one it has left behind.\<close>

lemma conn_inv_enter:
  assumes "conn_inv c" and "cn_socket c = Some (k, s)" and "set (as_writeQueue s') \<subseteq> set (as_writeQueue s)"
    and "as_shutdown s' = as_shutdown s"
  shows "conn_inv (enter_handler k s' c)"
proof -
  have "socket_ok (cn_trace c) (cn_closeRequested c) s'"
    using socket_ok_tail [OF _ assms(3,4)] assms(1,2) by (auto simp: conn_inv_defs)
  then show ?thesis
    using assms(1,2) by (auto simp: conn_inv_defs enter_handler_def)
qed

lemma conn_inv_leave:
  assumes "conn_inv c"
  shows "conn_inv (leave_handler env c)"
proof -
  have inv: "conn_inv (c\<lparr>cn_inHandler := False, cn_released := None\<rparr>)"
    using assms by (simp add: conn_inv_defs)
  have "cn_socket c = None \<and> (as_shutdown s = Some FATAL \<longrightarrow> cn_closeRequested c)" if "cn_released c = Some s" for s
    using assms that by (simp add: conn_inv_defs)
  then show ?thesis
    using inv by (auto simp: leave_handler_def Let_def intro!: conn_inv_destroyed split: option.split)
qed

lemma leave_handler_keeps [simp]:
  "cn_closeRequested (leave_handler env c) = cn_closeRequested c" "cn_attempts (leave_handler env c) = cn_attempts c"
  "cn_inHandler (leave_handler env c) = False" "cn_onOpenState (leave_handler env c) = cn_onOpenState c"
  by (auto simp: leave_handler_def Let_def split: option.split)

lemma enter_handler_keeps [simp]:
  "cn_closeRequested (enter_handler k s c) = cn_closeRequested c" "cn_attempts (enter_handler k s c) = cn_attempts c"
  "cn_onOpenState (enter_handler k s c) = cn_onOpenState c"
  by (simp_all add: enter_handler_def)

lemma conn_inv_socket_events:
  assumes "conn_inv c" and "cn_socket c = Some (k, s)" and "as_writeQueue s' = as_writeQueue s"
    and "as_shutdown s' = as_shutdown s" and "\<forall>e \<in> set evs. event_ok (cn_closeRequested c) e"
  shows "conn_inv (socket_events env k (evs, s') c)"
  using conn_inv_enter [OF assms(1,2)] assms(3-5)
  by (auto simp: socket_events_def intro!: conn_inv_leave conn_inv_event_list)

lemma conn_inv_shutdown_ok:
  "conn_inv c \<Longrightarrow> cn_socket c = Some (k, s) \<Longrightarrow> as_shutdown s = Some FATAL \<Longrightarrow> cn_closeRequested c"
  by (auto simp: conn_inv_defs socket_ok_def)

lemma conn_inv_handleClose:
  assumes "conn_inv c"
  shows "conn_inv (handleCloseCb env c)"
proof (cases "cn_socket c")
  case (Some p)
  then obtain k s where p: "cn_socket c = Some (k, s)"
    by (cases p) auto
  obtain evs s' where h: "handleClose s = (evs, s')"
    by fastforce
  show ?thesis
    using conn_inv_socket_events [OF assms p, of s' evs] p h conn_inv_shutdown_ok [OF assms p]
      doClose_ok [OF h [unfolded handleClose_def]] by (simp add: handleCloseCb_def)
qed (simp add: handleCloseCb_def assms)

lemma conn_inv_handleWrite:
  assumes "conn_inv c" and "handleWriteCb env err n c = Some c'"
  shows "conn_inv c'"
proof (cases "cn_socket c")
  case (Some p)
  then obtain k s where p: "cn_socket c = Some (k, s)"
    by (cases p) auto
  obtain evs s' where h: "handleWrite err n s = Some (evs, s')" and c': "c' = socket_events env k (evs, s') c"
    using assms(2) p by (auto simp: handleWriteCb_def)
  obtain cb fs q where q: "as_writeQueue s = (cb, fs) # q"
    using h by (auto simp: handleWrite_def split: list.splits)
  define tail where "tail = (case q of [] \<Rightarrow> [] | (c, f) # _ \<Rightarrow> [SE_async_write f :: (conn_callback, disconnect_type) socket_event])"
  have tail: "\<forall>e \<in> set tail. event_ok b e" for b
    by (auto simp: tail_def split: list.splits)
  obtain evs1 s1 where r: "(if err then Some (handleError s)
      else if n = ucast (accumulated fs) then Some ([SE_written cb], s) else None) = Some (evs1, s1)"
    using h q by (auto simp: handleWrite_def split: option.splits)
  have s': "s' = s1\<lparr>as_writeQueue := q\<rparr>" "evs = evs1 @ tail"
    using h q r by (auto simp: handleWrite_def Let_def startNextWrite_def tail_def split: list.splits if_splits prod.splits)
  have s1: "as_shutdown s1 = as_shutdown s" "err \<Longrightarrow> \<forall>e \<in> set evs1. event_ok (cn_closeRequested c) e"
    using r handleError_ok [of s evs1 s1 "cn_closeRequested c"] conn_inv_shutdown_ok [OF assms(1) p]
    by (auto split: if_splits)
  have inv: "conn_inv (enter_handler k s' c)"
    using s' s1 q by (intro conn_inv_enter [OF assms(1) p]) auto
  have "conn_inv (fold (socket_callback env) evs1 (enter_handler k s' c))"
  proof (cases err)
    case False
    have "callback_ok (cn_trace c) (cn_closeRequested c) cb"
      using assms(1) p q by (auto simp: conn_inv_defs socket_ok_def)
    then have "conn_inv (conn_callback_run env cb (enter_handler k s' c))"
      using inv by (cases cb) (auto intro!: conn_inv_writeComplete simp: enter_handler_def)
    then show ?thesis
      using r False by (auto split: if_splits)
  qed (use s1 inv in \<open>auto intro!: conn_inv_event_list\<close>)
  then show ?thesis
    using c' s'(2) tail by (auto simp: socket_events_def intro!: conn_inv_leave conn_inv_event_list)
qed (use assms in \<open>simp add: handleWriteCb_def\<close>)

lemma decoded_payload: "Frame_decode buf = Decoded f n m \<Longrightarrow> length (Frame_payload f) < 2 ^ 64"
proof -
  assume "Frame_decode buf = Decoded f n m"
  then have "f_serializedData f = Some (take (frameOverhead + unat (be_dec (take 4 (drop 3 buf)) :: u32)) buf)"
    by (auto simp: Frame_decode_def Let_def split: if_splits)
  then have "length (Frame_payload f) \<le> unat (be_dec (take 4 (drop 3 buf)) :: u32)"
    by (simp add: Frame_payload_def payloadLength_def)
  also have "\<dots> < 2 ^ 32"
    by (rule order_less_le_trans [OF unsigned_less]) simp
  finally show ?thesis
    by simp
qed

lemma decode_loop_payload: "decode_loop buf = (fs, err, rest) \<Longrightarrow> \<forall>f \<in> set fs. length (Frame_payload f) < 2 ^ 64"
proof (induction buf arbitrary: fs rule: decode_loop.induct)
  case (1 buf)
  show ?case
  proof (cases "Frame_decode buf")
    case (Decoded f n m)
    obtain fs1 where l: "decode_loop (drop n buf) = (fs1, err, rest)" and fs: "fs = f # fs1"
      using 1(2) Decoded by (auto simp: decode_loop.simps [of buf] split: prod.splits)
    show ?thesis
      using 1(1) [OF Decoded l] fs decoded_payload [OF Decoded] by simp
  qed (use 1(2) in \<open>auto simp: decode_loop.simps [of buf]\<close>)
qed

lemma doRead_ok:
  assumes "doRead bs s = Some (ok, evs, s')"
  shows "(\<forall>e \<in> set evs. event_ok b e) \<and> as_writeQueue s' = as_writeQueue s \<and> as_shutdown s' = as_shutdown s"
proof -
  obtain rc frames d where a: "appendBytes (as_frameDecoder s) (as_inbound s @ bs) = (rc, frames, d)"
    by (cases "appendBytes (as_frameDecoder s) (as_inbound s @ bs)") auto
  have "\<forall>f \<in> set frames. length (Frame_payload f) < 2 ^ 64"
    using a by (auto simp: appendBytes_def Let_def dest: decode_loop_payload split: prod.splits if_splits)
  then show ?thesis
    using assms a by (auto simp: doRead_def Let_def split: decoder_rc.splits if_splits)
qed

lemma handleReadError_ok:
  "handleReadError s = (evs, s') \<Longrightarrow> (as_shutdown s = Some FATAL \<Longrightarrow> b) \<Longrightarrow>
     (\<forall>e \<in> set evs. event_ok b e) \<and> as_writeQueue s' = as_writeQueue s \<and> as_shutdown s' = as_shutdown s"
  by (auto simp: handleReadError_def dest: doClose_ok handleError_ok split: if_splits)

lemma conn_inv_held:
  "conn_inv c \<Longrightarrow> held_socket c = Some s \<Longrightarrow> as_shutdown s = Some FATAL \<Longrightarrow> cn_closeRequested c"
  by (auto simp: held_socket_def conn_inv_defs socket_ok_def split: option.splits)

lemma conn_inv_set_held:
  assumes "conn_inv c" and "held_socket c = Some s" and "as_writeQueue s' = as_writeQueue s"
    and "as_shutdown s' = as_shutdown s"
  shows "conn_inv (set_held s' c)"
proof (cases "cn_socket c")
  case None
  then show ?thesis
    using assms by (auto simp: set_held_def held_socket_def conn_inv_defs)
next
  case (Some p)
  then obtain k where k: "cn_socket c = Some (k, s)"
    using assms(2) by (cases p) (auto simp: held_socket_def)
  then have "socket_ok (cn_trace c) (cn_closeRequested c) s'"
    using assms by (intro socket_ok_tail [of _ _ s s']) (auto simp: conn_inv_defs)
  then show ?thesis
    using assms(1) k by (auto simp: set_held_def conn_inv_defs)
qed

lemma set_held_keeps [simp]:
  "cn_closeRequested (set_held s c) = cn_closeRequested c" "cn_attempts (set_held s c) = cn_attempts c"
  "cn_onOpenState (set_held s c) = cn_onOpenState c"
  by (auto simp: set_held_def split: option.split)

lemma conn_inv_frame_error:
  assumes "conn_inv c"
  shows "conn_inv (frame_error env c)"
proof (cases "held_socket c")
  case (Some s)
  obtain evs s' where d: "doClose FRAME_ERROR s = (evs, s')"
    by fastforce
  have d': "\<forall>e \<in> set evs. event_ok (cn_closeRequested c) e" "as_writeQueue s' = as_writeQueue s"
    "as_shutdown s' = as_shutdown s"
    using doClose_ok [OF d conn_inv_held [OF assms Some]] by blast+
  show ?thesis
    using Some d d'(1) conn_inv_set_held [OF assms Some d'(2,3)] by (simp add: frame_error_def conn_inv_event_list)
qed (simp add: frame_error_def assms)

lemma frame_error_keeps [simp]:
  "cn_closeRequested (frame_error env c) = cn_closeRequested c" "cn_attempts (frame_error env c) = cn_attempts c"
  "cn_onOpenState (frame_error env c) = cn_onOpenState c"
  by (auto simp: frame_error_def split: option.split prod.split)

lemma conn_inv_handleRead:
  assumes "conn_inv c" and "handleReadCb env err bs c = Some c'"
  shows "conn_inv c'"
proof (cases "cn_socket c")
  case (Some p)
  then obtain k s where p: "cn_socket c = Some (k, s)"
    by (cases p) auto
  show ?thesis
  proof (cases err)
    case True
    obtain evs s' where h: "handleReadError s = (evs, s')"
      by fastforce
    show ?thesis
      using conn_inv_socket_events [OF assms(1) p, of s' evs env] p h assms(2) True
        handleReadError_ok [OF h conn_inv_shutdown_ok [OF assms(1) p]] by (simp add: handleReadCb_def)
  next
    case False
    obtain ok evs s' where r: "doRead bs s = Some (ok, evs, s')"
      using assms(2) p False by (auto simp: handleReadCb_def split: option.splits)
    note r' = doRead_ok [OF r, of "cn_closeRequested c"]
    have "conn_inv (fold (socket_callback env) evs (enter_handler k s' c))"
      using r' by (intro conn_inv_event_list conn_inv_enter [OF assms(1) p]) simp_all
    then show ?thesis
      using assms(2) p False r by (auto simp: handleReadCb_def Let_def conn_inv_leave conn_inv_frame_error)
  qed
qed (use assms in \<open>simp add: handleReadCb_def\<close>)

section \<open>Every step keeps it\<close>

lemma conn_inv_tick:
  assumes "conn_inv c"
  shows "conn_inv (heartbeat_tick env reason c)"
proof -
  have "conn_inv (hb_callback env e c)" if "conn_inv c" for e c
    using that by (cases e) (simp_all add: sendHeartbeat_def asyncWriteSingleFrame_def conn_inv_write killConnection_def)
  then have "conn_inv c \<Longrightarrow> conn_inv (fold (hb_callback env) evs c)" for evs c
    by (induction evs arbitrary: c) simp_all
  then show ?thesis
    using assms by (simp add: heartbeat_tick_def split: prod.split)
qed

lemma hb_keeps:
  "cn_closeRequested (heartbeat_tick env reason c) = cn_closeRequested c"
  "cn_inHandler (heartbeat_tick env reason c) = cn_inHandler c"
  "cn_onOpenState (heartbeat_tick env reason c) = cn_onOpenState c"
  "cn_attempts (heartbeat_tick env reason c) = cn_attempts c"
proof -
  have "cn_closeRequested (hb_callback env e c) = cn_closeRequested c \<and> cn_inHandler (hb_callback env e c) = cn_inHandler c \<and>
      cn_onOpenState (hb_callback env e c) = cn_onOpenState c \<and>
      cn_attempts (hb_callback env e c) = cn_attempts c" for e c
    by (cases e) (simp_all add: sendHeartbeat_def asyncWriteSingleFrame_def killConnection_def)
  then have "cn_closeRequested (fold (hb_callback env) evs c) = cn_closeRequested c \<and>
      cn_inHandler (fold (hb_callback env) evs c) = cn_inHandler c \<and>
      cn_onOpenState (fold (hb_callback env) evs c) = cn_onOpenState c \<and>
      cn_attempts (fold (hb_callback env) evs c) = cn_attempts c" for evs c
    by (induction evs arbitrary: c) simp_all
  then show "cn_closeRequested (heartbeat_tick env reason c) = cn_closeRequested c"
    "cn_inHandler (heartbeat_tick env reason c) = cn_inHandler c"
    "cn_onOpenState (heartbeat_tick env reason c) = cn_onOpenState c"
    "cn_attempts (heartbeat_tick env reason c) = cn_attempts c"
    by (simp_all add: heartbeat_tick_def split: prod.split)
qed

lemma conn_inv_initiate:
  assumes "conn_inv c" and "cn_socket c = None" and "\<not> cn_inHandler c"
  shows "conn_inv (initiateConnect env c)"
proof -
  let ?c = "conn_emit (CE_connect (cn_secure c)) (conn_emit CE_hung_start c)"
  let ?c1 = "?c\<lparr>cn_attempts := cn_attempts c + 1\<rparr>"
  have ready: "shutdown_ready ?c1"
    using conn_inv_ready [OF assms(1)] by (auto simp: shutdown_ready_def close_reported_def)
  have sh: "conn_inv ((socketShutdown env WILL_RETRY CONNECT_ERROR ?c1)\<lparr>cn_socket := None\<rparr>)"
    using conn_inv_shutdown [OF ready, of WILL_RETRY env CONNECT_ERROR] by (simp add: conn_inv_defs)
  have "cn_state c = DISCONNECTED \<or> cn_state c = CONNECTION_CLOSE_RECEIVED"
    using assms(1,2) by (simp add: conn_inv_defs)
  then have "state_ok (cn_trace ?c1) (cn_closeRequested c) (cn_state c)"
    by (auto simp: state_ok_def)
  moreover have "\<not> retry_pending (cn_trace ?c1)"
    by (simp add: retry_pending_def)
  ultimately have "conn_inv (?c1\<lparr>cn_socket := Some (cn_attempts c + 1, AsioConnection_new (cn_secure c) maxFrameSize)\<rparr>)"
    using assms by (auto simp: conn_inv_defs socket_ok_def AsioConnection_new_def)
  then show ?thesis
    using sh by (cases "cn_secure c") (simp_all add: initiateConnect_def Let_def connectError_def)
qed

lemma initiate_keeps [simp]:
  "cn_closeRequested (initiateConnect env c) = cn_closeRequested c"
  "cn_inHandler (initiateConnect env c) = cn_inHandler c" "cn_onOpenState (initiateConnect env c) = cn_onOpenState c"
  "cn_attempts (initiateConnect env c) = Suc (cn_attempts c)"
  by (auto simp: initiateConnect_def Let_def connectError_def)

lemma conn_inv_connectError: "conn_inv c \<Longrightarrow> conn_inv (connectError env c)"
  by (auto simp: connectError_def intro!: conn_inv_shutdown conn_inv_ready)

lemma conn_inv_resolver: "conn_inv c \<Longrightarrow> conn_inv (resolver_result env r c)"
  by (auto simp: resolver_result_def connect_def asyncWriteSingleFrame_def conn_inv_connectError state_ok_def
      intro!: conn_inv_write split: resolver_outcome.split)

lemma resolver_keeps [simp]:
  "cn_closeRequested (resolver_result env r c) = cn_closeRequested c"
  "cn_inHandler (resolver_result env r c) = cn_inHandler c"
  "cn_onOpenState (resolver_result env r c) = cn_onOpenState c" "cn_attempts (resolver_result env r c) = cn_attempts c"
  by (auto simp: resolver_result_def connect_def asyncWriteSingleFrame_def connectError_def split: resolver_outcome.split)

lemma markConnected_queue:
  "markConnected prepared s = (ok, evs, s') \<Longrightarrow> as_writeQueue s' = as_writeQueue s \<and> as_shutdown s' = as_shutdown s"
  by (auto simp: markConnected_def Let_def split: if_splits)

lemma conn_inv_connected:
  assumes "conn_inv c"
  shows "conn_inv (connect_result env k (handleConnect err prepared (current_socket k c)) c)"
proof (cases "current_socket k c")
  case (Some s)
  then have k: "cn_socket c = Some (k, s)"
    by (auto simp: current_socket_def split: option.splits if_splits)
  then have "socket_ok (cn_trace c) (cn_closeRequested c) s"
    using assms by (auto simp: conn_inv_defs)
  then have "conn_inv (c\<lparr>cn_socket := Some (k, s')\<rparr>)"
    if "as_writeQueue s' = as_writeQueue s" "as_shutdown s' = as_shutdown s" for s'
    using socket_ok_tail [of "cn_trace c" "cn_closeRequested c" s s'] assms k that by (auto simp: conn_inv_defs)
  then show ?thesis
    using Some assms by (auto simp: handleConnect_def connect_result_def dest: markConnected_queue
        intro!: conn_inv_resolver split: prod.split bool.split)
qed (use assms in \<open>auto simp: handleConnect_def connect_result_def intro!: conn_inv_resolver\<close>)

lemma connect_result_keeps [simp]:
  "cn_closeRequested (connect_result env k r c) = cn_closeRequested c"
  "cn_inHandler (connect_result env k r c) = cn_inHandler c"
  "cn_onOpenState (connect_result env k r c) = cn_onOpenState c" "cn_attempts (connect_result env k r c) = cn_attempts c"
  by (auto simp: connect_result_def split: prod.split option.split)

lemma conn_inv_handshake:
  "conn_inv c \<Longrightarrow> conn_inv (connect_result env k (handleTLSHandshake err prepared (current_socket k c)) c)"
  using conn_inv_connected [of c env k False prepared] conn_inv_connected [of c env k True prepared]
  by (auto simp: handleTLSHandshake_def handleConnect_def connect_result_def resolver_result_def
      split: option.split)

lemma conn_inv_Connection_close:
  assumes "conn_inv c"
  shows "conn_inv (Connection_close env c)"
proof -
  let ?c = "c\<lparr>cn_closeCb := True, cn_closeRequested := True\<rparr>"
  have st: "state_ok tr True st" if "state_ok tr b st" for tr b st
    using that by (auto simp: state_ok_def)
  have cb: "callback_ok tr True cb" if "callback_ok tr b cb" for tr b cb
    using that st by (cases cb) auto
  have sk: "socket_ok tr True s" if "socket_ok tr b s" for tr b s
    using that cb unfolding socket_ok_def by fast
  have ready: "shutdown_ready ?c"
    using conn_inv_ready [OF assms] by (auto simp: shutdown_ready_def close_reported_def)
  have "conn_inv (socketShutdown env FATAL GRACEFUL_DISCONNECT ?c)"
    by (rule conn_inv_shutdown [OF ready]) simp
  moreover have "conn_inv ?c" if live: "cn_state c \<noteq> DISCONNECTED"
  proof -
    have "state_ok (cn_trace c) True (cn_state c)"
      using assms st by (auto simp: conn_inv_def)
    moreover have "\<forall>k s. cn_socket c = Some (k, s) \<longrightarrow> socket_ok (cn_trace c) True s"
      using assms sk unfolding conn_inv_def by blast
    ultimately show ?thesis
      using assms live by (auto simp: conn_inv_defs)
  qed
  ultimately show ?thesis
    by (auto simp: Connection_close_def Let_def conn_inv_close split: connection_state.split)
qed

lemma Connection_close_keeps [simp]:
  "cn_closeRequested (Connection_close env c)"
  "cn_inHandler (Connection_close env c) = cn_inHandler c"
  "cn_onOpenState (Connection_close env c) = cn_onOpenState c" "cn_attempts (Connection_close env c) = cn_attempts c"
  by (auto simp: Connection_close_def sendConnectionClose_def Let_def split: connection_state.split)

definition idle_inv :: "('dt, 'g, 'p) connection \<Rightarrow> bool" where
  "idle_inv c \<longleftrightarrow> conn_inv c \<and> \<not> cn_inHandler c"

lemma create_keeps [simp]:
  "cn_closeRequested (createReceiveChannel env p c) = cn_closeRequested c"
  "cn_inHandler (createReceiveChannel env p c) = cn_inHandler c"
  "cn_onOpenState (createReceiveChannel env p c) = cn_onOpenState c"
  "cn_attempts (createReceiveChannel env p c) = cn_attempts c"
  "cn_closeRequested (createSendChannel p c) = cn_closeRequested c"
  "cn_inHandler (createSendChannel p c) = cn_inHandler c"
  "cn_onOpenState (createSendChannel p c) = cn_onOpenState c" "cn_attempts (createSendChannel p c) = cn_attempts c"
  by (auto simp: createReceiveChannel_def createSendChannel_def open_if_connected_def split: prod.split)

lemma conn_inv_create: "conn_inv c \<Longrightarrow> conn_inv (createReceiveChannel env p c)"
  "conn_inv c \<Longrightarrow> conn_inv (createSendChannel p c)"
  by (simp_all add: createReceiveChannel_def createSendChannel_def open_if_connected_def split: prod.split)

lemma send_keeps [simp]:
  "cn_closeRequested (handleAsyncChannelSend env ch m cb c) = cn_closeRequested c"
  "cn_inHandler (handleAsyncChannelSend env ch m cb c) = cn_inHandler c"
  "cn_onOpenState (handleAsyncChannelSend env ch m cb c) = cn_onOpenState c"
  "cn_attempts (handleAsyncChannelSend env ch m cb c) = cn_attempts c"
  by (auto simp: handleAsyncChannelSend_def split: option.split list.split)

lemma handler_keeps:
  "handleWriteCb env err n c = Some c' \<Longrightarrow> \<not> cn_inHandler c \<Longrightarrow>
     cn_closeRequested c' = cn_closeRequested c \<and> \<not> cn_inHandler c' \<and> cn_onOpenState c' = cn_onOpenState c \<and> cn_attempts c' = cn_attempts c"
  "handleReadCb env err bs c = Some c' \<Longrightarrow> \<not> cn_inHandler c \<Longrightarrow>
     cn_closeRequested c' = cn_closeRequested c \<and> \<not> cn_inHandler c' \<and> cn_onOpenState c' = cn_onOpenState c \<and> cn_attempts c' = cn_attempts c"
  "\<not> cn_inHandler c \<Longrightarrow> cn_closeRequested (handleCloseCb env c) = cn_closeRequested c \<and>
     \<not> cn_inHandler (handleCloseCb env c) \<and> cn_onOpenState (handleCloseCb env c) = cn_onOpenState c \<and> cn_attempts (handleCloseCb env c) = cn_attempts c"
  by (auto simp: handleWriteCb_def handleReadCb_def handleCloseCb_def socket_events_def Let_def
      split: option.splits prod.splits if_splits)

lemma conn_step_inv:
  assumes "idle_inv c" and "conn_step env i c = Some c'"
  shows "idle_inv c'"
proof -
  have inv: "conn_inv c" and idle: "\<not> cn_inHandler c"
    using assms(1) by (simp_all add: idle_inv_def)
  have none: "cn_socket c = None" if "cn_attempts c = 0 \<or> retry_pending (cn_trace c)"
    using inv that by (auto simp: conn_inv_defs)
  show ?thesis
  proof (cases i)
    case CI_start
    then show ?thesis
      using assms(2) inv idle none conn_inv_initiate [of "c\<lparr>cn_firstConnectCb := True\<rparr>" env]
      by (auto simp: idle_inv_def startFirstConnection_def split: if_splits)
  next
    case CI_retry
    then show ?thesis
      using assms(2) inv idle none conn_inv_initiate [of c env]
      by (auto simp: idle_inv_def Connection_retry_def split: if_splits)
  next
    case (CI_written err n)
    then show ?thesis
      using assms(2) idle by (auto simp: idle_inv_def dest: conn_inv_handleWrite [OF inv] handler_keeps(1))
  next
    case (CI_read err bs)
    then show ?thesis
      using assms(2) idle by (auto simp: idle_inv_def dest: conn_inv_handleRead [OF inv] handler_keeps(2))
  qed (use assms(2) inv idle in \<open>auto simp: idle_inv_def conn_inv_resolver conn_inv_connected conn_inv_handshake
      conn_inv_handleClose handler_keeps connectionHung_def Connection_channelHung_def conn_inv_tick hb_keeps
      conn_inv_Connection_close conn_inv_send conn_inv_create Connection_pauseReceiveChannels_def
      Connection_resumeReceiveChannels_def split: if_splits\<close>)
qed

text \<open>Only pausing and resuming change what the channel factory does with new channels.\<close>

fun pauses :: "('dt, 'g, 'p) conn_input \<Rightarrow> bool" where
  "pauses (CI_pause _) \<longleftrightarrow> True"
| "pauses (CI_resume _) \<longleftrightarrow> True"
| "pauses _ \<longleftrightarrow> False"

lemma step_onOpenState:
  assumes "conn_step env i c = Some c'" and "\<not> pauses i" and "\<not> cn_inHandler c"
  shows "cn_onOpenState c' = cn_onOpenState c \<and> \<not> cn_inHandler c'"
proof (cases i)
  case (CI_written err n)
  then show ?thesis
    using assms by (auto dest: handler_keeps(1))
next
  case (CI_read err bs)
  then show ?thesis
    using assms by (auto dest: handler_keeps(2))
qed (use assms in \<open>auto simp: startFirstConnection_def Connection_retry_def handler_keeps connectionHung_def
      Connection_channelHung_def hb_keeps split: if_splits\<close>)

lemma conn_run_inv: "conn_run is c = Some c' \<Longrightarrow> idle_inv c \<Longrightarrow> idle_inv c'"
  by (induction "is" c rule: conn_run.induct) (auto dest: conn_step_inv split: option.splits)

lemma idle_inv_new: "idle_inv (Connection_new secure vhost cred props os name)"
  by (simp add: idle_inv_def conn_inv_defs Connection_new_def framer_inv_new state_ok_def)

section \<open>A handshake\<close>

text \<open>A connection whose socket is up, with nothing received that is not handled.\<close>

definition online :: "nat \<Rightarrow> (conn_callback \<times> bytes list) list \<Rightarrow> ('dt, 'g, 'p) connection \<Rightarrow> bool" where
  "online k q c \<longleftrightarrow>
     (\<exists>s. cn_socket c = Some (k, s) \<and> as_state s = AS_CONNECTED \<and> as_writeQueue s = q \<and> as_inbound s = [] \<and>
        as_frameDecoder s = Decoder_create maxFrameSize) \<and>
     \<not> cn_inHandler c \<and> cn_released c = None \<and> fr_makers (cn_framer c) 0 = None"

lemma written_state:
  assumes "online k ((CC_state st, fs) # q) c" and "st \<noteq> CONNECTION_CLOSEOK_SENT"
    and "sum_list (map length fs) < 2 ^ 32"
  shows "\<exists>s. conn_step env (CI_written False (of_nat (sum_list (map length fs)))) c =
       Some (c\<lparr>cn_socket := Some (k, s), cn_state := st\<rparr>) \<and> online k q (c\<lparr>cn_socket := Some (k, s), cn_state := st\<rparr>)"
proof -
  obtain s where s: "cn_socket c = Some (k, s)" "as_state s = AS_CONNECTED" "as_writeQueue s = (CC_state st, fs) # q"
      "as_inbound s = []" "as_frameDecoder s = Decoder_create maxFrameSize"
    and c: "\<not> cn_inHandler c" "cn_released c = None" "fr_makers (cn_framer c) 0 = None"
    using assms(1) by (auto simp: online_def)
  let ?n = "sum_list (map length fs)" and ?s = "s\<lparr>as_writeQueue := q\<rparr>"
  have n: "(of_nat ?n :: u64) = ucast (accumulated fs)"
    using assms(3) by (simp add: accumulated_sum word_unat_eq_iff unat_of_nat unsigned_ucast_eq take_bit_eq_mod)
  obtain evs where h: "handleWrite False (of_nat ?n) s = Some (SE_written (CC_state st) # evs, ?s)"
    and evs: "evs = [] \<or> (\<exists>f. evs = [SE_async_write f])"
    using s(3) n by (cases q) (auto simp: handleWrite_def startNextWrite_def Let_def)
  have "socket_events env k (SE_written (CC_state st) # evs, ?s) c =
      leave_handler env ((enter_handler k ?s c)\<lparr>cn_state := st\<rparr>)"
    using evs assms(2) by (auto simp: socket_events_def Connection_onWriteComplete_def Let_def)
  also have "\<dots> = c\<lparr>cn_socket := Some (k, ?s), cn_state := st\<rparr>"
    using c by (intro connection.equality) (simp_all add: leave_handler_def enter_handler_def Let_def)
  finally show ?thesis
    using s c h by (intro exI [of _ ?s]) (auto simp: handleWriteCb_def online_def)
qed

lemma read_method:
  assumes "online k q c" and "Method_decode (env_epoch env) p = Some (Connection m)"
    and "length p + frameOverhead \<le> maxFrameSize"
  shows "conn_step env (CI_read False (frame_wire (mk_frame FT_METHOD 0 p))) c =
     Some (leave_handler env (processConnectionMethod env m
        (c\<lparr>cn_inHandler := True, cn_heartbeat := notifyMessageReceived (cn_heartbeat c)\<rparr>)))"
proof -
  obtain s where s: "cn_socket c = Some (k, s)" "as_inbound s = []" "as_frameDecoder s = Decoder_create maxFrameSize"
    and c: "fr_makers (cn_framer c) 0 = None"
    using assms(1) by (auto simp: online_def)
  have "length p < 2 ^ 32"
    using assms(3) by (simp add: maxFrameSize_def)
  then have "appendBytes (Decoder_create maxFrameSize) (frame_bytes FT_METHOD 0 p) =
      (DEC_OK, [mk_frame FT_METHOD 0 p], Decoder_create maxFrameSize)"
    using decode_loop_frame [of p FT_METHOD 0 "[]"] by (simp add: appendBytes_def Decoder_create_def)
  then have r: "doRead (frame_wire (mk_frame FT_METHOD 0 p)) s = Some (True, [SE_read (mk_frame FT_METHOD 0 p)], s)"
    using s assms(3)
    by (simp add: doRead_def Let_def Decoder_create_def)
  have "appendFrame (env_epoch env) (env_guids env) (env_fresh env) (cn_framer c) (mk_frame FT_METHOD 0 p) =
      (FR_OK, Some (Msg_Method (Connection m)), cn_framer c)"
    using assms(2) c by (simp add: appendFrame_def appendMethodFrame_def)
  moreover have "enter_handler k s c = c\<lparr>cn_inHandler := True\<rparr>"
    using s(1) by (intro connection.equality) (simp_all add: enter_handler_def)
  ultimately show ?thesis
    using s(1) r by (simp add: handleReadCb_def Let_def processNextFrame_def processMethod_def)
qed

definition same_config :: "('dt, 'g, 'p) connection \<Rightarrow> ('dt, 'g, 'p) connection \<Rightarrow> bool" where
  "same_config c c' \<longleftrightarrow>
     cn_clientProperties c' = cn_clientProperties c \<and> cn_credentials c' = cn_credentials c \<and>
     cn_vhost c' = cn_vhost c \<and> cn_firstConnectCb c' = cn_firstConnectCb c \<and> cn_channels c' = cn_channels c"

lemma leave_unreleased:
  "cn_released c = None \<Longrightarrow> leave_handler env c = c\<lparr>cn_inHandler := False, cn_released := None\<rparr>"
  by (simp add: leave_handler_def)

text \<open>A control method sent while a handler runs.\<close>

lemma send_online:
  assumes "online k q (c\<lparr>cn_inHandler := False\<rparr>)"
  shows "\<exists>s. send_method env m st c =
       (conn_emit (CE_method m) c)\<lparr>cn_socket := Some (k, s), cn_heartbeat := notifyMessageSent (cn_heartbeat c)\<rparr> \<and>
     online k (q @ [(CC_state st, [frame_wire (makeMethodFrame (env_epoch env) 0 (Connection m))])])
       ((send_method env m st c)\<lparr>cn_inHandler := False\<rparr>)"
  using assms by (auto simp: online_def send_method_def asyncWriteSingleFrame_def socket_write_eq)

definition startOk_of :: "('dt, 'g, 'p) connection \<Rightarrow> 'dt ConnectionStartOk" where
  "startOk_of c =
     \<lparr>startOk_properties = cn_clientProperties c, startOk_mechanism = AUTHENTICATION_MECHANISM,
      startOk_response = cn_credentials c, startOk_locale = LOCALE\<rparr>"

definition tuneOk_of :: "ConnectionTune \<Rightarrow> ConnectionTuneOk" where
  "tuneOk_of tune =
     \<lparr>tuneOk_channelMax = negotiateTuneParam (tune_channelMax tune) k_MAX_CHANNEL_NUM,
      tuneOk_frameMax = negotiated_frameMax tune, tuneOk_heartbeatInterval = negotiated_heartbeat tune\<rparr>"

lemma start_step:
  assumes "online k [] c" and "cn_state c = PROTOCOL_HEADER_SENT"
    and "Method_decode (env_epoch env) p = Some (Connection (M_ConnectionStart x))"
    and "length p + frameOverhead \<le> maxFrameSize"
  shows "\<exists>c'. conn_step env (CI_read False (frame_wire (mk_frame FT_METHOD 0 p))) c = Some c' \<and>
     online k [(CC_state CONNECTION_STARTOK_SENT,
        [frame_wire (makeMethodFrame (env_epoch env) 0 (Connection (M_ConnectionStartOk (startOk_of c))))])] c' \<and>
     cn_trace c' = cn_trace c @ [CE_method (M_ConnectionStartOk (startOk_of c))] \<and> same_config c c'"
proof -
  let ?c = "c\<lparr>cn_inHandler := True, cn_heartbeat := notifyMessageReceived (cn_heartbeat c),
     cn_state := CONNECTION_START_RECEIVED\<rparr>"
  have on: "online k [] (?c\<lparr>cn_inHandler := False\<rparr>)"
    using assms(1) by (auto simp: online_def)
  let ?c' = "send_method env (M_ConnectionStartOk (startOk_of c)) CONNECTION_STARTOK_SENT ?c"
  obtain s where s: "?c' = (conn_emit (CE_method (M_ConnectionStartOk (startOk_of c))) ?c)
      \<lparr>cn_socket := Some (k, s), cn_heartbeat := notifyMessageSent (cn_heartbeat ?c)\<rparr>"
    and on': "online k [(CC_state CONNECTION_STARTOK_SENT,
        [frame_wire (makeMethodFrame (env_epoch env) 0 (Connection (M_ConnectionStartOk (startOk_of c))))])]
        (?c'\<lparr>cn_inHandler := False\<rparr>)"
    using send_online [OF on, of env "M_ConnectionStartOk (startOk_of c)" CONNECTION_STARTOK_SENT] by auto
  have r: "cn_released ?c' = None"
    using on' by (simp add: online_def)
  have "conn_step env (CI_read False (frame_wire (mk_frame FT_METHOD 0 p))) c = Some (leave_handler env ?c')"
    using read_method [OF assms(1,3,4)] assms(2)
    by (simp add: processConnectionMethod_def with_expected_state_def sendConnectionStartOk_def startOk_of_def)
  moreover have "online k [(CC_state CONNECTION_STARTOK_SENT,
      [frame_wire (makeMethodFrame (env_epoch env) 0 (Connection (M_ConnectionStartOk (startOk_of c))))])]
      (leave_handler env ?c')"
    using on' by (simp add: leave_unreleased [OF r] online_def)
  moreover have "cn_trace (leave_handler env ?c') = cn_trace c @ [CE_method (M_ConnectionStartOk (startOk_of c))] \<and>
      same_config c (leave_handler env ?c')"
    by (simp add: leave_unreleased [OF r]) (simp add: s same_config_def conn_emit_def)
  ultimately show ?thesis
    by blast
qed

lemma tune_step:
  assumes "online k [] c" and "cn_state c = CONNECTION_STARTOK_SENT"
    and "Method_decode (env_epoch env) p = Some (Connection (M_ConnectionTune t))"
    and "length p + frameOverhead \<le> maxFrameSize" and "\<not> negotiated_frameMax t < FRAME_MIN_SIZE"
  shows "\<exists>c'. conn_step env (CI_read False (frame_wire (mk_frame FT_METHOD 0 p))) c = Some c' \<and>
     online k
       [(CC_state CONNECTION_TUNEOK_SENT,
         [frame_wire (makeMethodFrame (env_epoch env) 0 (Connection (M_ConnectionTuneOk (tuneOk_of t))))]),
        (CC_state CONNECTION_OPEN_SENT,
         [frame_wire (makeMethodFrame (env_epoch env) 0 (Connection (M_ConnectionOpen \<lparr>conOpen_virtualHost = cn_vhost c\<rparr>)))])] c' \<and>
     cn_trace c' = cn_trace c @ [CE_method (M_ConnectionTuneOk (tuneOk_of t)),
       CE_method (M_ConnectionOpen \<lparr>conOpen_virtualHost = cn_vhost c\<rparr>)] \<and>
     fr_maxFrameSize (cn_framer c') = unat (negotiated_frameMax t) \<and>
     hb_timeoutSeconds (cn_heartbeat c') = ucast (negotiated_heartbeat t) \<and> hb_active (cn_heartbeat c') \<and> same_config c c'"
proof -
  let ?m = "M_ConnectionTuneOk (tuneOk_of t)" and ?o = "M_ConnectionOpen \<lparr>conOpen_virtualHost = cn_vhost c\<rparr>"
  let ?w = "\<lambda>m. [frame_wire (makeMethodFrame (env_epoch env) 0 (Connection m))]"
  let ?c = "c\<lparr>cn_inHandler := True, cn_state := CONNECTION_TUNE_RECEIVED,
     cn_framer := (cn_framer c)\<lparr>fr_maxFrameSize := unat (negotiated_frameMax t)\<rparr>,
     cn_heartbeat := Heartbeat_start (ucast (negotiated_heartbeat t)) (notifyMessageReceived (cn_heartbeat c))\<rparr>"
  have on: "online k [] (?c\<lparr>cn_inHandler := False\<rparr>)"
    using assms(1) by (auto simp: online_def)
  let ?c1 = "send_method env ?m CONNECTION_TUNEOK_SENT ?c"
  let ?c2 = "send_method env ?o CONNECTION_OPEN_SENT ?c1"
  obtain s1 where s1: "?c1 = (conn_emit (CE_method ?m) ?c)
      \<lparr>cn_socket := Some (k, s1), cn_heartbeat := notifyMessageSent (cn_heartbeat ?c)\<rparr>"
    and on1: "online k [(CC_state CONNECTION_TUNEOK_SENT, ?w ?m)] (?c1\<lparr>cn_inHandler := False\<rparr>)"
    using send_online [OF on, of env ?m CONNECTION_TUNEOK_SENT] by auto
  obtain s2 where s2: "?c2 = (conn_emit (CE_method ?o) ?c1)
      \<lparr>cn_socket := Some (k, s2), cn_heartbeat := notifyMessageSent (cn_heartbeat ?c1)\<rparr>"
    and on2: "online k [(CC_state CONNECTION_TUNEOK_SENT, ?w ?m), (CC_state CONNECTION_OPEN_SENT, ?w ?o)]
        (?c2\<lparr>cn_inHandler := False\<rparr>)"
    using send_online [OF on1, of env ?o CONNECTION_OPEN_SENT] by auto
  have r: "cn_released ?c2 = None"
    using on2 by (simp add: online_def)
  have v: "cn_vhost ?c1 = cn_vhost c"
    by (simp only: s1) (simp add: conn_emit_def)
  have "conn_step env (CI_read False (frame_wire (mk_frame FT_METHOD 0 p))) c = Some (leave_handler env ?c2)"
    using read_method [OF assms(1,3,4)] assms(2,5) v
    by (simp add: processConnectionMethod_def with_expected_state_def Connection_sendTuneOk_def
        sendConnectionTuneOk_cases sendConnectionOpen_def tuneOk_of_def)
  moreover have "online k [(CC_state CONNECTION_TUNEOK_SENT, ?w ?m), (CC_state CONNECTION_OPEN_SENT, ?w ?o)] (leave_handler env ?c2)"
    using on2 by (simp add: leave_unreleased [OF r] online_def)
  moreover have "cn_trace (leave_handler env ?c2) = cn_trace c @ [CE_method ?m, CE_method ?o] \<and>
      fr_maxFrameSize (cn_framer (leave_handler env ?c2)) = unat (negotiated_frameMax t) \<and>
      hb_timeoutSeconds (cn_heartbeat (leave_handler env ?c2)) = ucast (negotiated_heartbeat t) \<and>
      hb_active (cn_heartbeat (leave_handler env ?c2)) \<and> same_config c (leave_handler env ?c2)"
    unfolding leave_unreleased [OF r] unfolding s2 unfolding s1
    by (simp add: same_config_def conn_emit_def notifyMessageSent_def Heartbeat_start_def Let_def)
  ultimately show ?thesis
    by blast
qed

lemma openOk_step:
  assumes "online k [] c" and "cn_state c = CONNECTION_OPEN_SENT"
    and "Method_decode (env_epoch env) p = Some (Connection M_ConnectionOpenOk)"
    and "length p + frameOverhead \<le> maxFrameSize"
  shows "\<exists>c'. conn_step env (CI_read False (frame_wire (mk_frame FT_METHOD 0 p))) c = Some c' \<and> online k [] c' \<and>
     cn_state c' = CONNECTED \<and> \<not> cn_firstConnectCb c' \<and> cn_framer c' = cn_framer c \<and>
     cn_heartbeat c' = notifyMessageReceived (cn_heartbeat c) \<and>
     cn_trace c' = cn_trace c @ [CE_hung_cancel, CE_retry_success] @ map CE_channel (openAll (cn_channels c)) @
       (if cn_firstConnectCb c then [CE_first_connect True] else []) @ [CE_onConnectSuccess]"
proof -
  let ?c = "c\<lparr>cn_inHandler := True, cn_heartbeat := notifyMessageReceived (cn_heartbeat c)\<rparr>"
  have r: "cn_released (processOpenOk ?c) = None"
    using assms(1) by (simp add: processOpenOk_def online_def Let_def)
  have "conn_step env (CI_read False (frame_wire (mk_frame FT_METHOD 0 p))) c = Some (leave_handler env (processOpenOk ?c))"
    using read_method [OF assms(1,3,4)] assms(2) by (simp add: processConnectionMethod_def with_expected_state_def)
  moreover have "online k [] (leave_handler env (processOpenOk ?c))"
    using assms(1) unfolding leave_unreleased [OF r] by (simp add: online_def processOpenOk_def Let_def)
  ultimately show ?thesis
    unfolding leave_unreleased [OF r] by (auto simp: processOpenOk_def Let_def)
qed

text \<open>The attempt itself, up to the protocol header.\<close>

lemma connect_step:
  assumes "\<not> cn_inHandler c" and "cn_released c = None" and "cn_socket c = None" and "fr_makers (cn_framer c) 0 = None"
    and "cn_attempts c = 0" and "cn_secure c \<Longrightarrow> env_secureContext env"
  shows "\<exists>c'. conn_run [(env, CI_start), (env, CI_resolve 1 False),
       (env, if cn_secure c then CI_handshake 1 False True else CI_connect 1 False True)] c = Some c' \<and>
     online 1 [(CC_state PROTOCOL_HEADER_SENT, [PROTOCOL_HEADER])] c' \<and>
     cn_trace c' = cn_trace c @ [CE_hung_start, CE_connect (cn_secure c), CE_header] \<and>
     same_config (c\<lparr>cn_firstConnectCb := True\<rparr>) c'"
proof -
  let ?c1 = "(conn_emit (CE_connect (cn_secure c)) (conn_emit CE_hung_start (c\<lparr>cn_firstConnectCb := True\<rparr>)))
      \<lparr>cn_attempts := 1, cn_socket := Some (1, AsioConnection_new (cn_secure c) maxFrameSize)\<rparr>"
  have 1: "conn_step env CI_start c = Some ?c1"
    using assms(5,6) by (auto simp: startFirstConnection_def initiateConnect_def Let_def)
  have 2: "conn_step env (CI_resolve 1 False) ?c1 = Some ?c1"
    by (simp add: handleResolve_def startConnect_def current_socket_def resolver_result_def)
  let ?s = "(AsioConnection_new (cn_secure c) maxFrameSize)\<lparr>as_state := AS_CONNECTED\<rparr>"
  let ?c3 = "connect (?c1\<lparr>cn_socket := Some (1, ?s)\<rparr>)"
  have h: "handleConnect False True (current_socket 1 ?c1) = (RO_success, startRead ?s, Some ?s)"
    by (simp add: handleConnect_def markConnected_def current_socket_def AsioConnection_new_def Let_def)
  have 3: "conn_step env (if cn_secure c then CI_handshake 1 False True else CI_connect 1 False True) ?c1 = Some ?c3"
    unfolding conn_step.simps if_distrib [of "\<lambda>i. conn_step env i ?c1"] handleTLSHandshake_def h
    by (simp add: connect_result_def resolver_result_def h)
  have "online 1 [(CC_state PROTOCOL_HEADER_SENT, [PROTOCOL_HEADER])] ?c3 \<and>
     cn_trace ?c3 = cn_trace c @ [CE_hung_start, CE_connect (cn_secure c), CE_header] \<and>
     same_config (c\<lparr>cn_firstConnectCb := True\<rparr>) ?c3"
    using assms(1-4) by (simp add: connect_def asyncWriteSingleFrame_def socket_write_eq online_def AsioConnection_new_def
        same_config_def conn_emit_def)
  then show ?thesis
    using 1 2 3 by simp
qed

section \<open>Properties\<close>

lemma conn_run_append:
  "conn_run (is @ js) c = (case conn_run is c of None \<Rightarrow> None | Some c' \<Rightarrow> conn_run js c')"
  by (induction "is" c rule: conn_run.induct) (simp_all split: option.split)

text \<open>The first half of the handshake.\<close>

lemma authenticate:
  fixes env :: "('dt, 'g, 'p) conn_env"
  assumes "c = (Factory_create version props healthAware secure vhost credentials name)\<lparr>cn_channels := cm\<rparr>"
    and "secure \<longrightarrow> env_secureContext env"
    and "Method_decode (env_epoch env) ps = Some (Connection (M_ConnectionStart st))"
    and "length ps + frameOverhead \<le> maxFrameSize"
    and "startOk = M_ConnectionStartOk \<lparr>startOk_properties = generateClientProperties version props name,
        startOk_mechanism = bstr ''PLAIN'', startOk_response = credentials, startOk_locale = bstr ''en_US''\<rparr>"
    and "length (frame_wire (makeMethodFrame (env_epoch env) 0 (Connection startOk))) < 2 ^ 32"
  shows "\<exists>c'. conn_run [(env, CI_start), (env, CI_resolve 1 False),
       (env, if secure then CI_handshake 1 False True else CI_connect 1 False True), (env, CI_written False 8),
       (env, CI_read False (frame_wire (mk_frame FT_METHOD 0 ps))),
       (env, CI_written False (of_nat (length (frame_wire (makeMethodFrame (env_epoch env) 0 (Connection startOk))))))] c =
     Some c' \<and> online 1 [] c' \<and> cn_state c' = CONNECTION_STARTOK_SENT \<and>
     cn_trace c' = [CE_hung_start, CE_connect secure, CE_header, CE_method startOk] \<and> cn_vhost c' = vhost \<and>
     cn_firstConnectCb c' \<and> cn_channels c' = cm"
proof -
  let ?startOk = "frame_wire (makeMethodFrame (env_epoch env) 0 (Connection startOk))"
  let ?receive = "CI_read False (frame_wire (mk_frame FT_METHOD 0 ps))" and ?sent = "CI_written False (of_nat (length ?startOk))"
  have c: "cn_secure c = secure" "cn_vhost c = vhost" "cn_credentials c = credentials" "cn_trace c = []"
      "cn_clientProperties c = generateClientProperties version props name" "cn_channels c = cm"
    by (simp_all add: assms(1) Factory_create_def Connection_new_def)
  obtain c1 where r1: "conn_run [(env, CI_start), (env, CI_resolve 1 False),
      (env, if secure then CI_handshake 1 False True else CI_connect 1 False True)] c = Some c1"
    and c1: "online 1 [(CC_state PROTOCOL_HEADER_SENT, [PROTOCOL_HEADER])] c1"
      "cn_trace c1 = [CE_hung_start, CE_connect secure, CE_header]" "same_config (c\<lparr>cn_firstConnectCb := True\<rparr>) c1"
    using connect_step [of c env] assms(1,2) c
    by (auto simp: Factory_create_def Connection_new_def Framer_new_def)
  obtain s where r2: "conn_step env (CI_written False 8) c1 = Some (c1\<lparr>cn_socket := Some (1, s), cn_state := PROTOCOL_HEADER_SENT\<rparr>)"
    and on2: "online 1 [] (c1\<lparr>cn_socket := Some (1, s), cn_state := PROTOCOL_HEADER_SENT\<rparr>)"
    using written_state [OF c1(1), of env] by (auto simp: PROTOCOL_HEADER_def bstr_def)
  let ?c2 = "c1\<lparr>cn_socket := Some (1, s), cn_state := PROTOCOL_HEADER_SENT\<rparr>"
  have so: "M_ConnectionStartOk (startOk_of ?c2) = startOk"
    using c1(3) c by (simp add: assms(5) startOk_of_def same_config_def AUTHENTICATION_MECHANISM_def LOCALE_def)
  obtain c3 where r3: "conn_step env ?receive ?c2 = Some c3"
    and on3: "online 1 [(CC_state CONNECTION_STARTOK_SENT, [?startOk])] c3"
    and c3: "cn_trace c3 = cn_trace ?c2 @ [CE_method startOk]" "same_config ?c2 c3"
    using start_step [OF on2 _ assms(3,4)] so by auto
  obtain s' where r4: "conn_step env ?sent c3 = Some (c3\<lparr>cn_socket := Some (1, s'), cn_state := CONNECTION_STARTOK_SENT\<rparr>)"
    and on4: "online 1 [] (c3\<lparr>cn_socket := Some (1, s'), cn_state := CONNECTION_STARTOK_SENT\<rparr>)"
    using written_state [OF on3, of env] assms(6) by auto
  have "conn_run [(env, CI_written False 8), (env, ?receive), (env, ?sent)] c1 =
      Some (c3\<lparr>cn_socket := Some (1, s'), cn_state := CONNECTION_STARTOK_SENT\<rparr>)"
    using r2 r3 r4 by (simp del: conn_step.simps)
  then have "conn_run ([(env, CI_start), (env, CI_resolve 1 False),
      (env, if secure then CI_handshake 1 False True else CI_connect 1 False True)] @
      [(env, CI_written False 8), (env, ?receive), (env, ?sent)]) c =
      Some (c3\<lparr>cn_socket := Some (1, s'), cn_state := CONNECTION_STARTOK_SENT\<rparr>)"
    unfolding conn_run_append using r1 by (simp del: conn_step.simps conn_run.simps)
  then show ?thesis
    using on4 c1 c3 c by (simp del: conn_step.simps conn_run.simps add: same_config_def)
qed

lemma handshake_run:
  fixes env :: "('dt, 'g, 'p) conn_env"
  assumes "c = (Factory_create version props healthAware secure vhost credentials name)\<lparr>cn_channels := cm\<rparr>"
    and "secure \<longrightarrow> env_secureContext env"
    and "Method_decode (env_epoch env) ps = Some (Connection (M_ConnectionStart st))"
    and "Method_decode (env_epoch env) pt = Some (Connection (M_ConnectionTune t))"
    and "Method_decode (env_epoch env) po = Some (Connection M_ConnectionOpenOk)"
    and "\<forall>p \<in> {ps, pt, po}. length p + frameOverhead \<le> maxFrameSize"
    and "tune_frameMax t = 0 \<or> 4096 \<le> tune_frameMax t"
    and "startOk = M_ConnectionStartOk \<lparr>startOk_properties = generateClientProperties version props name,
        startOk_mechanism = bstr ''PLAIN'', startOk_response = credentials, startOk_locale = bstr ''en_US''\<rparr>"
    and "tuneOk = M_ConnectionTuneOk (tuneOk_of t)" and "open = M_ConnectionOpen \<lparr>conOpen_virtualHost = vhost\<rparr>"
    and "wire = (\<lambda>m. frame_wire (makeMethodFrame (env_epoch env) 0 (Connection m)))"
    and "\<forall>m \<in> {startOk, tuneOk, open}. length (wire m) < 2 ^ 32"
    and "receive = (\<lambda>p. CI_read False (frame_wire (mk_frame FT_METHOD 0 p)))"
    and "sent = (\<lambda>m. CI_written False (of_nat (length (wire m))))"
  shows "\<exists>c'. conn_run (map (Pair env)
       [CI_start, CI_resolve 1 False, if secure then CI_handshake 1 False True else CI_connect 1 False True,
        CI_written False 8, receive ps, sent startOk, receive pt, sent tuneOk, sent open, receive po]) c = Some c' \<and>
     cn_state c' = CONNECTED \<and>
     cn_trace c' = [CE_hung_start, CE_connect secure, CE_header, CE_method startOk, CE_method tuneOk, CE_method open,
       CE_hung_cancel, CE_retry_success] @ map CE_channel (openAll cm) @ [CE_first_connect True, CE_onConnectSuccess] \<and>
     fr_maxFrameSize (cn_framer c') = unat (negotiated_frameMax t) \<and>
     hb_timeoutSeconds (cn_heartbeat c') = ucast (negotiated_heartbeat t) \<and> hb_active (cn_heartbeat c')"
proof -
  have len: "length ps + frameOverhead \<le> maxFrameSize" "length pt + frameOverhead \<le> maxFrameSize"
      "length po + frameOverhead \<le> maxFrameSize"
    using assms(6) by simp_all
  obtain c4 where r4: "conn_run ([(env, CI_start), (env, CI_resolve 1 False),
      (env, if secure then CI_handshake 1 False True else CI_connect 1 False True), (env, CI_written False 8),
      (env, receive ps), (env, sent startOk)]) c = Some c4"
    and on4: "online 1 [] c4" and c4: "cn_state c4 = CONNECTION_STARTOK_SENT"
      "cn_trace c4 = [CE_hung_start, CE_connect secure, CE_header, CE_method startOk]"
      "cn_vhost c4 = vhost" "cn_firstConnectCb c4" "cn_channels c4 = cm"
    using authenticate [OF assms(1,2,3) len(1) assms(8)] assms(12) by (auto simp: assms(11,13,14))
  have t: "\<not> negotiated_frameMax t < FRAME_MIN_SIZE"
    using assms(7) refused_iff [of t] by (auto simp: FRAME_MIN_SIZE_def not_less)
  obtain c5 where r5: "conn_step env (receive pt) c4 = Some c5"
    and on5: "online 1 [(CC_state CONNECTION_TUNEOK_SENT, [wire tuneOk]), (CC_state CONNECTION_OPEN_SENT, [wire open])] c5"
    and c5: "cn_trace c5 = cn_trace c4 @ [CE_method tuneOk, CE_method open]"
      "fr_maxFrameSize (cn_framer c5) = unat (negotiated_frameMax t)"
      "hb_timeoutSeconds (cn_heartbeat c5) = ucast (negotiated_heartbeat t)" "hb_active (cn_heartbeat c5)" "same_config c4 c5"
    using tune_step [OF on4 c4(1) assms(4) len(2) t] c4(3) by (auto simp: assms(9-11,13))
  obtain s2 where r6: "conn_step env (sent tuneOk) c5 = Some (c5\<lparr>cn_socket := Some (1, s2), cn_state := CONNECTION_TUNEOK_SENT\<rparr>)"
    and on6: "online 1 [(CC_state CONNECTION_OPEN_SENT, [wire open])]
        (c5\<lparr>cn_socket := Some (1, s2), cn_state := CONNECTION_TUNEOK_SENT\<rparr>)"
    using written_state [OF on5, of env] assms(12) by (auto simp: assms(14))
  obtain s3 where r7: "conn_step env (sent open) (c5\<lparr>cn_socket := Some (1, s2), cn_state := CONNECTION_TUNEOK_SENT\<rparr>) =
        Some (c5\<lparr>cn_socket := Some (1, s3), cn_state := CONNECTION_OPEN_SENT\<rparr>)"
    and on7: "online 1 [] (c5\<lparr>cn_socket := Some (1, s3), cn_state := CONNECTION_OPEN_SENT\<rparr>)"
    using written_state [OF on6, of env] assms(12) by (auto simp: assms(14))
  have f: "cn_firstConnectCb c5" "cn_channels c5 = cm"
    using c4 c5(5) by (simp_all add: same_config_def)
  obtain c8 where r8: "conn_step env (receive po) (c5\<lparr>cn_socket := Some (1, s3), cn_state := CONNECTION_OPEN_SENT\<rparr>) = Some c8"
    and c8: "cn_state c8 = CONNECTED" "cn_framer c8 = cn_framer c5" "cn_heartbeat c8 = notifyMessageReceived (cn_heartbeat c5)"
      "cn_trace c8 = cn_trace c5 @ [CE_hung_cancel, CE_retry_success] @ map CE_channel (openAll cm) @
         [CE_first_connect True, CE_onConnectSuccess]"
    using openOk_step [OF on7 _ assms(5) len(3)] f by (auto simp: assms(13))
  have "conn_run (map (Pair env) [receive pt, sent tuneOk, sent open, receive po]) c4 = Some c8"
    using r5 r6 r7 r8 by (simp del: conn_step.simps)
  then have "conn_run ([(env, CI_start), (env, CI_resolve 1 False),
      (env, if secure then CI_handshake 1 False True else CI_connect 1 False True), (env, CI_written False 8),
      (env, receive ps), (env, sent startOk)] @ map (Pair env) [receive pt, sent tuneOk, sent open, receive po]) c = Some c8"
    unfolding conn_run_append using r4 by (simp del: conn_step.simps conn_run.simps)
  then show ?thesis
    using c8 c5 c4(2) by (intro exI [of _ c8]) (simp del: conn_step.simps conn_run.simps add: notifyMessageReceived_def)
qed

definition sample_env :: "(u64, u8, nat) conn_env" where
  "sample_env =
     \<lparr>env_epoch = sample_epoch, env_guids = sample_guid_util, env_fresh = 7, env_secureContext = True,
      env_shutdownFails = False, env_resetCleanup = (\<lambda>_. False), env_receivedCleanup = (\<lambda>_ _. False),
      env_healthAware = (\<lambda>_. False)\<rparr>"

definition sample_connection :: "(u64, u8, nat) connection" where
  "sample_connection =
     (Factory_create (bstr ''1'') [] False False (bstr ''/'') (bstr ''u'') (bstr ''n''))
       \<lparr>cn_channels := associateSend 1 9 ChannelMap_new\<rparr>"

definition sample_tune :: ConnectionTune where
  "sample_tune = \<lparr>tune_channelMax = 2047, tune_frameMax = 131072, tune_heartbeatInterval = 30\<rparr>"

definition sample_start :: "u64 ConnectionStart" where
  "sample_start =
     \<lparr>start_versionMajor = 0, start_versionMinor = 9, start_properties = [], start_mechanisms = bstr ''PLAIN'',
      start_locales = bstr ''en_US''\<rparr>"

definition sample_startOk :: "u64 ConnectionStartOk" where
  "sample_startOk =
     \<lparr>startOk_properties = generateClientProperties (bstr ''1'') [] (bstr ''n''), startOk_mechanism = bstr ''PLAIN'',
      startOk_response = bstr ''u'', startOk_locale = bstr ''en_US''\<rparr>"

lemma sample_startOk_ok: "ConnectionStartOk_ok sample_epoch sample_startOk"
  by (simp add: ConnectionStartOk_ok_def table_ok_def sample_epoch_def bstr_def generateClientProperties_def
      setChainProperties_def Let_def PLATFORM_def PRODUCT_def sample_startOk_def)

lemma sample_startOk_size: "ConnectionStartOk_encodedSize sample_startOk < 2 ^ 31"
  by (simp add: ConnectionStartOk_encodedSize_def bstr_def generateClientProperties_def setChainProperties_def Let_def
      PLATFORM_def PRODUCT_def sample_startOk_def)

lemma sample_method_ok:
  "Method_ok sample_epoch (Connection (M_ConnectionStart sample_start))"
  "Method_ok sample_epoch (Connection (M_ConnectionStartOk sample_startOk))"
  "Method_ok sample_epoch (Connection (M_ConnectionOpen \<lparr>conOpen_virtualHost = bstr ''/''\<rparr>))"
  "Method_ok sample_epoch (Connection (M_ConnectionTuneOk x))"
  "Method_ok sample_epoch (Connection (M_ConnectionTune x'))" "Method_ok sample_epoch (Connection M_ConnectionOpenOk)"
  using sample_startOk_ok
  by (simp_all add: ConnectionStart_ok_def table_ok_def bstr_def ConnectionOpen_ok_def sample_start_def)

lemma sample_decode:
  "Method_decode (env_epoch sample_env) (Method_encode sample_epoch (Connection (M_ConnectionStart sample_start))) =
     Some (Connection (M_ConnectionStart (ConnectionStart_wire sample_start)))"
  "Method_decode (env_epoch sample_env) (Method_encode sample_epoch (Connection (M_ConnectionTune sample_tune))) =
     Some (Connection (M_ConnectionTune sample_tune))"
  "Method_decode (env_epoch sample_env) (Method_encode sample_epoch (Connection M_ConnectionOpenOk)) =
     Some (Connection M_ConnectionOpenOk)"
  using meth.roundtrip [OF sample_method_ok(1)] meth.roundtrip [OF sample_method_ok(5)]
    meth.roundtrip [OF sample_method_ok(6)] by (simp_all add: sample_env_def)

lemma sample_lengths:
  "\<forall>p \<in> {Method_encode sample_epoch (Connection (M_ConnectionStart sample_start)),
       Method_encode sample_epoch (Connection (M_ConnectionTune sample_tune)),
       Method_encode sample_epoch (Connection M_ConnectionOpenOk)}. length p + frameOverhead \<le> maxFrameSize"
  "\<forall>m \<in> {M_ConnectionStartOk sample_startOk, M_ConnectionTuneOk (tuneOk_of sample_tune),
       M_ConnectionOpen \<lparr>conOpen_virtualHost = bstr ''/''\<rparr>}.
     length (frame_wire (makeMethodFrame (env_epoch sample_env) 0 (Connection m))) < 2 ^ 32"
proof -
  show "\<forall>p \<in> {Method_encode sample_epoch (Connection (M_ConnectionStart sample_start)),
       Method_encode sample_epoch (Connection (M_ConnectionTune sample_tune)),
       Method_encode sample_epoch (Connection M_ConnectionOpenOk)}. length p + frameOverhead \<le> maxFrameSize"
    using meth.size [OF sample_method_ok(1)] meth.size [OF sample_method_ok(5)] meth.size [OF sample_method_ok(6)]
    by (simp add: bstr_def frame_sizes maxFrameSize_def ConnectionStart_encodedSize_def ConnectionTune_encodedSize_def
        ConnectionOpenOk_encodedSize_def sample_start_def)
  have wire: "length (frame_wire (makeMethodFrame sample_epoch 0 (Connection m))) = Method_encodedSize (Connection m) + 8"
    if "Method_ok sample_epoch (Connection m)" for m
    using meth.size [OF that] makeMethodFrame_mk [OF that, of 0] by (simp add: frame_sizes)
  show "\<forall>m \<in> {M_ConnectionStartOk sample_startOk, M_ConnectionTuneOk (tuneOk_of sample_tune),
       M_ConnectionOpen \<lparr>conOpen_virtualHost = bstr ''/''\<rparr>}.
     length (frame_wire (makeMethodFrame (env_epoch sample_env) 0 (Connection m))) < 2 ^ 32"
    using wire [OF sample_method_ok(2)] wire [OF sample_method_ok(3)]
      wire [OF sample_method_ok(4), of "tuneOk_of sample_tune"] sample_startOk_size
    by (simp add: sample_env_def ConnectionTuneOk_encodedSize_def ConnectionOpen_encodedSize_def bstr_def)
qed

lemma sample_tune_ok: "tune_frameMax sample_tune = 0 \<or> 4096 \<le> tune_frameMax sample_tune"
  by (simp add: sample_tune_def)

definition sample_handshake :: "((u64, u8, nat) conn_env \<times> (u64, u8, nat) conn_input) list" where
  "sample_handshake =
     (let receive = (\<lambda>m. CI_read False (frame_wire (mk_frame FT_METHOD 0 (Method_encode sample_epoch (Connection m)))));
          sent = (\<lambda>m. CI_written False (of_nat (length (frame_wire (makeMethodFrame sample_epoch 0 (Connection m)))))) in
      map (Pair sample_env)
        [CI_start, CI_resolve 1 False, CI_connect 1 False True, CI_written False 8,
         receive (M_ConnectionStart sample_start), sent (M_ConnectionStartOk sample_startOk),
         receive (M_ConnectionTune sample_tune), sent (M_ConnectionTuneOk (tuneOk_of sample_tune)),
         sent (M_ConnectionOpen \<lparr>conOpen_virtualHost = bstr ''/''\<rparr>), receive M_ConnectionOpenOk])"

text \<open>C13: Connecting. A connection as the factory makes it, with any channels, is started, over a plain or a TLS
  socket. The broker answers with any payloads that decode to \<open>Start\<close>, \<open>Tune\<close> (with a frame size that is not below
  the minimum) and \<open>OpenOk\<close>, and the writes succeed. Then the connection is established: it has written the protocol
  header, \<open>StartOk\<close> with its client properties and credentials, \<open>TuneOk\<close> with the negotiated values and \<open>Open\<close> with
  its virtual host, in this order and nothing else; the framer and the heartbeats use the negotiated values; the
  timer for hung connections is cancelled, the channels are opened, and the application is told once.\<close>

theorem handshake_completes:
  fixes env :: "('dt, 'g, 'p) conn_env"
  assumes "c = (Factory_create version props healthAware secure vhost credentials name)\<lparr>cn_channels := cm\<rparr>"
    and "secure \<longrightarrow> env_secureContext env"
    and "Method_decode (env_epoch env) ps = Some (Connection (M_ConnectionStart st))"
    and "Method_decode (env_epoch env) pt = Some (Connection (M_ConnectionTune t))"
    and "Method_decode (env_epoch env) po = Some (Connection M_ConnectionOpenOk)"
    and "\<forall>p \<in> {ps, pt, po}. length p + frameOverhead \<le> maxFrameSize"
    and "tune_frameMax t = 0 \<or> 4096 \<le> tune_frameMax t"
    and "startOk = M_ConnectionStartOk \<lparr>startOk_properties = generateClientProperties version props name,
        startOk_mechanism = bstr ''PLAIN'', startOk_response = credentials, startOk_locale = bstr ''en_US''\<rparr>"
    and "tuneOk = M_ConnectionTuneOk (tuneOk_of t)" and "open = M_ConnectionOpen \<lparr>conOpen_virtualHost = vhost\<rparr>"
    and "wire = (\<lambda>m. frame_wire (makeMethodFrame (env_epoch env) 0 (Connection m)))"
    and "\<forall>m \<in> {startOk, tuneOk, open}. length (wire m) < 2 ^ 32"
    and "receive = (\<lambda>p. CI_read False (frame_wire (mk_frame FT_METHOD 0 p)))"
    and "sent = (\<lambda>m. CI_written False (of_nat (length (wire m))))"
  shows "\<exists>c'. conn_run (map (Pair env)
       [CI_start, CI_resolve 1 False, if secure then CI_handshake 1 False True else CI_connect 1 False True,
        CI_written False 8, receive ps, sent startOk, receive pt, sent tuneOk, sent open, receive po]) c = Some c' \<and>
     cn_state c' = CONNECTED \<and>
     cn_trace c' = [CE_hung_start, CE_connect secure, CE_header, CE_method startOk, CE_method tuneOk, CE_method open,
       CE_hung_cancel, CE_retry_success] @ map CE_channel (openAll cm) @ [CE_first_connect True, CE_onConnectSuccess] \<and>
     fr_maxFrameSize (cn_framer c') = unat (negotiated_frameMax t) \<and>
     hb_timeoutSeconds (cn_heartbeat c') = ucast (negotiated_heartbeat t) \<and> hb_active (cn_heartbeat c')"
  using assms by (rule handshake_run)

theorem handshake_completes_witness:
  "\<exists>c. conn_run sample_handshake sample_connection = Some c \<and> cn_state c = CONNECTED \<and>
     CE_channel (Call_open 9) \<in> set (cn_trace c)"
  using handshake_completes [OF sample_connection_def _ sample_decode sample_lengths(1) sample_tune_ok
      sample_startOk_def [THEN arg_cong [of _ _ M_ConnectionStartOk]] refl refl refl sample_lengths(2) refl refl]
  by (auto simp: sample_handshake_def sample_env_def openAll_def associateSend_def ChannelMap_new_def
      simp del: conn_run.simps)



text \<open>C15: The order of the handshake. Whenever the connection counts as established, it has, since the last attempt to connect
  began, written the protocol header, then \<open>StartOk\<close>, then \<open>TuneOk\<close>, then \<open>Open\<close> (method ids 11, 31 and 40), and its
  socket is there: no frame of the broker, however out of order, makes it skip a step.\<close>

theorem handshake_order:
  assumes "conn_run is (Connection_new secure vhost cred props os name) = Some c" and "cn_state c = CONNECTED"
  shows "subseq [0, 11, 31, 40] (control_writes (cn_trace c)) \<and> cn_socket c \<noteq> None"
  using conn_run_inv [OF assms(1) idle_inv_new] assms(2) by (auto simp: idle_inv_def conn_inv_def state_ok_def)

theorem handshake_order_witness:
  "\<exists>c. conn_run sample_handshake
       (Connection_new False (bstr ''/'') (bstr ''u'') (generateClientProperties (bstr ''1'') [] (bstr ''n'')) NOT_PAUSED
         (bstr ''n'')) = Some c \<and> cn_state c = CONNECTED \<and> subseq [0, 11, 31, 40] (control_writes (cn_trace c))"
proof -
  let ?c = "(Factory_create (bstr ''1'') [] False False (bstr ''/'') (bstr ''u'') (bstr ''n'') ::
      (u64, u8, nat) connection)\<lparr>cn_channels := ChannelMap_new\<rparr>"
  have eq: "?c = Connection_new False (bstr ''/'') (bstr ''u'') (generateClientProperties (bstr ''1'') [] (bstr ''n'')) NOT_PAUSED
      (bstr ''n'')"
    by (simp add: Factory_create_def newChannelFactory_def Connection_new_def)
  have "\<exists>c. conn_run sample_handshake ?c = Some c \<and> cn_state c = CONNECTED"
    using handshake_run [where c = ?c and version = "bstr ''1''" and props = "[]" and healthAware = False and secure = False and
        vhost = "bstr ''/''" and credentials = "bstr ''u''" and name = "bstr ''n''" and cm = ChannelMap_new, OF refl _ sample_decode sample_lengths(1) sample_tune_ok
        sample_startOk_def [THEN arg_cong [of _ _ M_ConnectionStartOk]] refl refl refl sample_lengths(2) refl refl]
    by (auto simp: sample_handshake_def sample_env_def simp del: conn_run.simps)
  then show ?thesis
    using handshake_order unfolding eq by blast
qed

lemma step_closed:
  assumes "conn_step env i c = Some c'" and "cn_closeRequested c" and "0 < cn_attempts c" and "\<not> cn_inHandler c"
  shows "cn_closeRequested c' \<and> cn_attempts c' = cn_attempts c \<and> \<not> cn_inHandler c'"
proof (cases i)
  case (CI_written err n)
  then show ?thesis
    using assms by (auto dest: handler_keeps(1))
next
  case (CI_read err bs)
  then show ?thesis
    using assms by (auto dest: handler_keeps(2))
qed (use assms in \<open>auto simp: Connection_retry_def handler_keeps connectionHung_def Connection_channelHung_def hb_keeps
      Connection_pauseReceiveChannels_def Connection_resumeReceiveChannels_def split: if_splits\<close>)

lemma run_closed:
  "conn_run is c = Some c' \<Longrightarrow> cn_closeRequested c \<Longrightarrow> 0 < cn_attempts c \<Longrightarrow> \<not> cn_inHandler c \<Longrightarrow>
     cn_closeRequested c' \<and> cn_attempts c' = cn_attempts c"
proof (induction "is" c rule: conn_run.induct)
  case (2 env i "is" c)
  then obtain c1 where c1: "conn_step env i c = Some c1" "conn_run is c1 = Some c'"
    by (auto split: option.splits)
  have "cn_closeRequested c1" "cn_attempts c1 = cn_attempts c" "\<not> cn_inHandler c1"
    using step_closed [OF c1(1)] 2(3-5) by auto
  then show ?case
    using 2 c1 by simp
qed simp

text \<open>C16: After \<open>close\<close> a connection that was started makes no attempt to connect any more, whatever happens, also when a retry
  was scheduled; and as soon as its socket is gone the callback of \<open>close\<close> has been called, unless the broker's
  \<open>Close\<close> was the last thing received.\<close>

theorem close_is_final:
  assumes "conn_run is (Connection_new secure vhost cred props os name) = Some c" and "0 < cn_attempts c"
    and "conn_run ((env, CI_close) # js) c = Some c'"
  shows "cn_attempts c' = cn_attempts c \<and>
     (cn_socket c' = None \<and> cn_state c' \<noteq> CONNECTION_CLOSE_RECEIVED \<longrightarrow> CE_close_finished \<in> set (cn_trace c'))"
proof -
  have idle: "idle_inv c"
    by (rule conn_run_inv [OF assms(1) idle_inv_new])
  then have "idle_inv c'"
    using conn_run_inv [OF assms(3)] by blast
  moreover have "cn_closeRequested c' \<and> cn_attempts c' = cn_attempts c"
    using run_closed [of js "Connection_close env c" c'] assms(2,3) idle by (auto simp: idle_inv_def)
  ultimately show ?thesis
    by (auto simp: idle_inv_def conn_inv_defs)
qed

text \<open>A late failure ends a good connection. The resolver reports the failure of an attempt without looking
  whether the attempt is still the current one (its success is dropped then). So when resolving for an
  attempt that was given up long ago fails at last, the connection that has been established meanwhile is shut down and has
  to be made again.\<close>

theorem late_failure_disconnects:
  assumes "cn_socket c = Some (k, s)" and "j \<noteq> k" and "\<not> cn_closeRequested c"
  shows "conn_step env (CI_resolve j False) c = Some c \<and>
     (\<exists>c'. conn_step env (CI_resolve j True) c = Some c' \<and> cn_state c' = DISCONNECTED \<and> cn_socket c' = None \<and>
        retry_pending (cn_trace c'))"
proof -
  have "will_retry WILL_RETRY c"
    using assms(3) by (simp add: will_retry_def)
  then show ?thesis
    using assms by (simp add: handleResolve_def startConnect_def current_socket_def resolver_result_def connectError_def
        socketShutdown_def)
qed

theorem close_is_final_witness:
  "\<exists>c c'. conn_run [(sample_env, CI_start)]
       (Connection_new False (bstr ''/'') (bstr ''u'') [] NOT_PAUSED (bstr ''n'') :: (u64, u8, nat) connection) = Some c \<and>
     conn_run [(sample_env, CI_close), (sample_env, CI_resolve 1 True)] c = Some c' \<and> cn_attempts c' = 1 \<and>
     CE_close_finished \<in> set (cn_trace c')"
proof -
  let ?c = "Connection_new False (bstr ''/'') (bstr ''u'') [] NOT_PAUSED (bstr ''n'') :: (u64, u8, nat) connection"
  have "\<exists>c. conn_run [(sample_env, CI_start)] ?c = Some c \<and> cn_attempts c = 1 \<and> cn_state c = DISCONNECTED"
    by (simp add: startFirstConnection_def initiateConnect_def Let_def Connection_new_def)
  then obtain c where c: "conn_run [(sample_env, CI_start)] ?c = Some c" "cn_attempts c = 1" "cn_state c = DISCONNECTED"
    by blast
  obtain c' where c': "conn_run [(sample_env, CI_close), (sample_env, CI_resolve 1 True)] c = Some c'"
      "cn_socket c' = None" "cn_state c' = DISCONNECTED"
    using c(3) by (simp add: Connection_close_def Let_def resolver_result_def handleResolve_def connectError_def)
  show ?thesis
    using close_is_final [OF c(1) _ c'(1)] c c' by auto
qed

theorem late_failure_disconnects_witness:
  "\<exists>c'. conn_step sample_env (CI_resolve 1 True)
       ((Connection_new False [] [] [] NOT_PAUSED [] :: (u64, u8, nat) connection)
          \<lparr>cn_state := CONNECTED, cn_socket := Some (2, AsioConnection_new False maxFrameSize)\<rparr>) = Some c' \<and>
     cn_state c' = DISCONNECTED \<and> cn_socket c' = None"
  using late_failure_disconnects [of "(Connection_new False [] [] [] NOT_PAUSED [] :: (u64, u8, nat) connection)
      \<lparr>cn_state := CONNECTED, cn_socket := Some (2, AsioConnection_new False maxFrameSize)\<rparr>" 2
      "AsioConnection_new False maxFrameSize" 1 sample_env]
  by (auto simp: Connection_new_def)

end
