(* ===== verification/Host_Health.thy ===== *)
theory Host_Health
  imports Broker_Connection
begin

text \<open>
  \<open>rmqamqp::HostHealthMonitor\<close>: one monitor for all connections asks the application's health checker at intervals
  and pauses or resumes the receive channels of the connections registered with it.

  Connections are references into a store of live connections (theory \<open>Broker_Connection\<close>); a reference that is
  not in the store is an expired weak pointer. The answer of the health checker is an argument: \<^const>\<open>None\<close> when it
  throws. What is asked of the timer and the counters published are events. The durations that are measured and
  published are left out. A failed assertion and the use of a null timer are \<^const>\<open>None\<close>.
\<close>

section \<open>Definitions\<close>

datatype host_health = HEALTHY | UNHEALTHY | RETRY

record host_health_config =
  hc_pollInterval :: u16
  hc_maxRetriesOnFailure :: u16

datatype health_event =
    HE_timer_reset nat
  | HE_timer_cancel
  | HE_counter string
  | HE_gauge string nat

record 'k health_monitor =
  hm_config :: host_health_config
  hm_connections :: "'k list"
  hm_currentTries :: u32
  hm_latest :: host_health
  hm_timer :: bool

type_synonym ('k, 'dt, 'g, 'p) conn_store = "'k \<rightharpoonup> ('dt, 'g, 'p) connection"

definition syncReceiveChannelsToHostHealth ::
  "('dt, 'g, 'p) conn_env \<Rightarrow> host_health \<Rightarrow> ('dt, 'g, 'p) connection \<Rightarrow> ('dt, 'g, 'p) connection" where
  "syncReceiveChannelsToHostHealth env health c =
     (if health = HEALTHY then Connection_resumeReceiveChannels env True c
      else if health = UNHEALTHY then Connection_pauseReceiveChannels env True c
      else c)"

definition HostHealthMonitor_new :: "host_health_config \<Rightarrow> 'k health_monitor option" where
  "HostHealthMonitor_new config =
     (if hc_pollInterval config > 0
      then Some \<lparr>hm_config = config, hm_connections = [], hm_currentTries = 0, hm_latest = UNHEALTHY, hm_timer = False\<rparr>
      else None)"

definition HostHealthMonitor_start :: "'k health_monitor \<Rightarrow> (health_event list \<times> 'k health_monitor) option" where
  "HostHealthMonitor_start hm =
     (if hm_timer hm then None else Some ([HE_timer_reset 0], hm\<lparr>hm_timer := True\<rparr>))"

definition HostHealthMonitor_stop :: "'k health_monitor \<Rightarrow> health_event list \<times> 'k health_monitor" where
  "HostHealthMonitor_stop hm =
     (if hm_timer hm then ([HE_timer_cancel], hm\<lparr>hm_timer := False\<rparr>) else ([], hm))"

definition HostHealthMonitor_destroy :: "'k health_monitor \<Rightarrow> health_event list \<times> 'k health_monitor" where
  "HostHealthMonitor_destroy hm =
     (case HostHealthMonitor_stop hm of (evs, hm) \<Rightarrow> (evs, hm\<lparr>hm_connections := []\<rparr>))"

definition sync_connection ::
  "('dt, 'g, 'p) conn_env \<Rightarrow> host_health \<Rightarrow> 'k \<Rightarrow> ('k, 'dt, 'g, 'p) conn_store \<Rightarrow> ('k, 'dt, 'g, 'p) conn_store" where
  "sync_connection env health k st =
     (case st k of None \<Rightarrow> st | Some c \<Rightarrow> st(k \<mapsto> syncReceiveChannelsToHostHealth env health c))"

definition registerConnection ::
  "('dt, 'g, 'p) conn_env \<Rightarrow> 'k \<Rightarrow> 'k health_monitor \<times> ('k, 'dt, 'g, 'p) conn_store \<Rightarrow>
     health_event list \<times> 'k health_monitor \<times> ('k, 'dt, 'g, 'p) conn_store" where
  "registerConnection env k w =
     (case w of (hm, st) \<Rightarrow>
        let hm = hm\<lparr>hm_connections := hm_connections hm @ [k]\<rparr> in
        ([HE_gauge ''health_aware_vhosts'' (length (hm_connections hm))], hm, sync_connection env (hm_latest hm) k st))"

text \<open>The loop over the registered connections; expired ones are removed. The first argument counts those kept so
  far.\<close>

fun sync_loop ::
  "('dt, 'g, 'p) conn_env \<Rightarrow> host_health \<Rightarrow> nat \<Rightarrow> 'k list \<Rightarrow> ('k, 'dt, 'g, 'p) conn_store \<Rightarrow>
     health_event list \<times> 'k list \<times> ('k, 'dt, 'g, 'p) conn_store" where
  "sync_loop env health kept [] st = ([], [], st)"
| "sync_loop env health kept (k # ks) st =
     (if st k = None then
        (case sync_loop env health kept ks st of
           (evs, ks', st') \<Rightarrow> (HE_gauge ''health_aware_vhosts'' (kept + length ks) # evs, ks', st'))
      else
        (case sync_loop env health (kept + 1) ks (sync_connection env health k st) of
           (evs, ks', st') \<Rightarrow> (evs, k # ks', st')))"

definition processHealthResult ::
  "('dt, 'g, 'p) conn_env \<Rightarrow> host_health \<Rightarrow> 'k health_monitor \<times> ('k, 'dt, 'g, 'p) conn_store \<Rightarrow>
     health_event list \<times> 'k health_monitor \<times> ('k, 'dt, 'g, 'p) conn_store" where
  "processHealthResult env result w =
     (case w of (hm, st) \<Rightarrow>
        let hm = hm\<lparr>hm_currentTries := 0, hm_latest := result\<rparr>;
            evs = HE_gauge ''health_check_status'' (if result = HEALTHY then 1 else 0) #
              (if result = HEALTHY
               then [HE_gauge ''health_check_consecutive_failures'' 0, HE_counter ''health_triggered_resume_total'']
               else [HE_counter ''health_triggered_pause_total'']) in
        (case sync_loop env result 0 (hm_connections hm) st of
           (evs', ks, st) \<Rightarrow> (evs @ evs', hm\<lparr>hm_connections := ks\<rparr>, st)))"

definition scheduleNextCheck :: "'k health_monitor \<Rightarrow> health_event list option" where
  "scheduleNextCheck hm =
     (if hm_timer hm then Some [HE_timer_reset (unat (hc_pollInterval (hm_config hm)))] else None)"

definition checkHealth ::
  "('dt, 'g, 'p) conn_env \<Rightarrow> bool option \<Rightarrow> 'k health_monitor \<times> ('k, 'dt, 'g, 'p) conn_store \<Rightarrow>
     (health_event list \<times> 'k health_monitor \<times> ('k, 'dt, 'g, 'p) conn_store) option" where
  "checkHealth env answer w =
     (case scheduleNextCheck (fst w) of
        None \<Rightarrow> None
      | Some evs0 \<Rightarrow>
          let result = (case answer of Some True \<Rightarrow> HEALTHY | Some False \<Rightarrow> UNHEALTHY | None \<Rightarrow> RETRY);
              evs = evs0 @ HE_counter ''health_check_total'' #
                (if result = RETRY then [HE_counter ''health_check_failures_total''] else []) in
          if result = RETRY then
            let tries = hm_currentTries (fst w);
                w = ((fst w)\<lparr>hm_currentTries := tries + 1\<rparr>, snd w);
                gauge = HE_gauge ''health_check_consecutive_failures'' (unat (tries + 1)) in
            if tries > ucast (hc_maxRetriesOnFailure (hm_config (fst w)))
            then (case processHealthResult env UNHEALTHY w of (evs', w) \<Rightarrow> Some (evs @ gauge # evs', w))
            else Some (evs @ [gauge], w)
          else (case processHealthResult env result w of (evs', w) \<Rightarrow> Some (evs @ evs', w)))"

definition handleTimerFired ::
  "('dt, 'g, 'p) conn_env \<Rightarrow> interrupt_reason \<Rightarrow> bool option \<Rightarrow>
     'k health_monitor \<times> ('k, 'dt, 'g, 'p) conn_store \<Rightarrow>
     (health_event list \<times> 'k health_monitor \<times> ('k, 'dt, 'g, 'p) conn_store) option" where
  "handleTimerFired env reason answer w = (if reason = CANCEL then Some ([], w) else checkHealth env answer w)"

section \<open>Runs\<close>

text \<open>The monitor together with the connections of a context. Connections are made and destroyed, and anything
  happens to them but that someone else pauses or resumes them.\<close>

datatype ('k, 'dt, 'g, 'p) health_input =
    HI_start
  | HI_stop
  | HI_register 'k
  | HI_timer interrupt_reason "bool option"
  | HI_new 'k "('dt, 'g, 'p) connection"
  | HI_destroyed 'k
  | HI_conn 'k "('dt, 'g, 'p) conn_input"

fun health_step ::
  "('dt, 'g, 'p) conn_env \<Rightarrow> ('k, 'dt, 'g, 'p) health_input \<Rightarrow> 'k health_monitor \<times> ('k, 'dt, 'g, 'p) conn_store \<Rightarrow>
     ('k health_monitor \<times> ('k, 'dt, 'g, 'p) conn_store) option" where
  "health_step env HI_start (hm, st) = map_option (\<lambda>(evs, hm). (hm, st)) (HostHealthMonitor_start hm)"
| "health_step env HI_stop (hm, st) = Some (snd (HostHealthMonitor_stop hm), st)"
| "health_step env (HI_register k) w = Some (snd (registerConnection env k w))"
| "health_step env (HI_timer reason answer) w = map_option snd (handleTimerFired env reason answer w)"
| "health_step env (HI_new k c) (hm, st) =
     (if st k = None \<and> k \<notin> set (hm_connections hm) \<and> \<not> cn_inHandler c then Some (hm, st(k \<mapsto> c)) else None)"
| "health_step env (HI_destroyed k) (hm, st) = Some (hm, st(k := None))"
| "health_step env (HI_conn k i) (hm, st) =
     (case st k of
        None \<Rightarrow> None
      | Some c \<Rightarrow> if pauses i then None else map_option (\<lambda>c. (hm, st(k \<mapsto> c))) (conn_step env i c))"

fun health_run ::
  "(('dt, 'g, 'p) conn_env \<times> ('k, 'dt, 'g, 'p) health_input) list \<Rightarrow>
     'k health_monitor \<times> ('k, 'dt, 'g, 'p) conn_store \<Rightarrow> ('k health_monitor \<times> ('k, 'dt, 'g, 'p) conn_store) option" where
  "health_run [] w = Some w"
| "health_run ((env, i) # is) w = (case health_step env i w of None \<Rightarrow> None | Some w' \<Rightarrow> health_run is w')"

section \<open>The verdict is applied\<close>

definition open_state_of :: "host_health \<Rightarrow> channel_on_open_state" where
  "open_state_of health = (if health = HEALTHY then NOT_PAUSED else PAUSED_HOST_HEALTH_AWARE)"

definition health_inv :: "'k health_monitor \<times> ('k, 'dt, 'g, 'p) conn_store \<Rightarrow> bool" where
  "health_inv w \<longleftrightarrow>
     hm_latest (fst w) \<noteq> RETRY \<and> (\<forall>k c. snd w k = Some c \<longrightarrow> \<not> cn_inHandler c) \<and>
     (\<forall>k \<in> set (hm_connections (fst w)). \<forall>c. snd w k = Some c \<longrightarrow> cn_onOpenState c = open_state_of (hm_latest (fst w)))"

lemma sync_fields [simp]:
  "health \<noteq> RETRY \<Longrightarrow> cn_onOpenState (syncReceiveChannelsToHostHealth env health c) = open_state_of health"
  "cn_inHandler (syncReceiveChannelsToHostHealth env health c) = cn_inHandler c"
  by (cases health; simp add: syncReceiveChannelsToHostHealth_def open_state_of_def Connection_pauseReceiveChannels_def
      Connection_resumeReceiveChannels_def)+

lemma sync_connection_eq:
  "sync_connection env health k st j =
     (if j = k then map_option (syncReceiveChannelsToHostHealth env health) (st k) else st j)"
  by (simp add: sync_connection_def split: option.split)

text \<open>What the loop does to the store: every live connection listed is told, once for each time it is listed.\<close>

lemma sync_loop_store:
  "sync_loop env health n ks st = (evs, ks', st') \<Longrightarrow>
     ks' = filter (\<lambda>k. st k \<noteq> None) ks \<and>
     (\<forall>j. st' j = map_option ((syncReceiveChannelsToHostHealth env health) ^^ count_list ks j) (st j))"
proof (induction env health n ks st arbitrary: evs ks' st' rule: sync_loop.induct)
  case (2 env health n k ks st)
  show ?case
  proof (cases "st k = None")
    case True
    then obtain evs1 where "sync_loop env health n ks st = (evs1, ks', st')"
      using 2(3) by (auto split: prod.splits)
    then show ?thesis
      using 2(1) [OF True] True by auto
  next
    case False
    let ?st = "sync_connection env health k st"
    obtain ks1 where l: "sync_loop env health (n + 1) ks ?st = (evs, ks1, st')" and ks': "ks' = k # ks1"
      using 2(3) False by (auto split: prod.splits)
    have live: "(?st j = None) = (st j = None)" for j
      by (simp add: sync_connection_eq)
    have "st' j = map_option ((syncReceiveChannelsToHostHealth env health) ^^ count_list (k # ks) j) (st j)" for j
      using 2(2) [OF False l] by (auto simp: sync_connection_eq option.map_comp funpow_Suc_right simp del: funpow.simps)
    moreover have "ks1 = filter (\<lambda>k. st k \<noteq> None) ks"
      using 2(2) [OF False l] live by simp
    ultimately show ?thesis
      using False ks' by auto
  qed
qed (simp add: option.map_id)

lemma sync_pow_fields:
  "cn_inHandler ((syncReceiveChannelsToHostHealth env health ^^ n) c) = cn_inHandler c"
  "health \<noteq> RETRY \<Longrightarrow> 0 < n \<Longrightarrow> cn_onOpenState ((syncReceiveChannelsToHostHealth env health ^^ n) c) = open_state_of health"
  by (induction n) simp_all

lemma processHealthResult_inv:
  assumes "processHealthResult env result w = (evs, w')" and "health_inv w" and "result \<noteq> RETRY"
  shows "health_inv w' \<and> hm_latest (fst w') = result \<and> hm_currentTries (fst w') = 0"
proof -
  obtain hm st where w: "w = (hm, st)"
    by (cases w)
  obtain evs' ks st' where l: "sync_loop env result 0 (hm_connections hm) st = (evs', ks, st')"
    by (cases "sync_loop env result 0 (hm_connections hm) st") auto
  have w': "w' = (hm\<lparr>hm_currentTries := 0, hm_latest := result, hm_connections := ks\<rparr>, st')"
    using assms(1) l by (auto simp: processHealthResult_def w Let_def)
  have "cn_onOpenState c = open_state_of result" if "k \<in> set ks" "st' k = Some c" for k c
  proof -
    have "count_list (hm_connections hm) k > 0"
      using sync_loop_store [OF l] that(1) count_list_0_iff [of "hm_connections hm" k] by auto
    then show ?thesis
      using sync_loop_store [OF l] that(2) sync_pow_fields(2) [OF assms(3)] by auto
  qed
  moreover have "\<not> cn_inHandler c" if "st' k = Some c" for k c
    using sync_loop_store [OF l] assms(2) that by (auto simp: health_inv_def w sync_pow_fields(1))
  ultimately show ?thesis
    using assms(3) by (auto simp: health_inv_def w')
qed

lemma checkHealth_inv:
  assumes "checkHealth env answer w = Some (evs, w')" and "health_inv w"
  shows "health_inv w'"
proof (cases answer)
  case None
  let ?w = "((fst w)\<lparr>hm_currentTries := hm_currentTries (fst w) + 1\<rparr>, snd w)"
  have "health_inv ?w"
    using assms(2) by (simp add: health_inv_def)
  then show ?thesis
    using assms(1) None processHealthResult_inv [of env UNHEALTHY ?w]
    by (auto simp: checkHealth_def Let_def split: option.splits if_splits prod.splits)
next
  case (Some b)
  then show ?thesis
    using assms processHealthResult_inv [of env HEALTHY w] processHealthResult_inv [of env UNHEALTHY w]
    by (auto simp: checkHealth_def Let_def split: option.splits if_splits prod.splits bool.splits)
qed

lemma health_step_inv:
  assumes "health_step env i w = Some w'" and "health_inv w"
  shows "health_inv w'"
proof -
  obtain hm st where w: "w = (hm, st)"
    by (cases w)
  show ?thesis
  proof (cases i)
    case (HI_register k)
    then show ?thesis
      using assms w by (auto simp: registerConnection_def Let_def health_inv_def sync_connection_eq split: if_splits)
  next
    case (HI_timer reason answer)
    then show ?thesis
      using assms by (auto simp: handleTimerFired_def dest: checkHealth_inv split: if_splits)
  next
    case (HI_conn k j)
    then obtain c c' where c: "st k = Some c" "conn_step env j c = Some c'" "\<not> pauses j" and w': "w' = (hm, st(k \<mapsto> c'))"
      using assms(1) w by (auto split: option.splits if_splits)
    show ?thesis
      using step_onOpenState [OF c(2,3)] assms(2) c(1) w w' by (auto simp: health_inv_def)
  qed (use assms w in \<open>auto simp: HostHealthMonitor_start_def HostHealthMonitor_stop_def health_inv_def split: if_splits\<close>)
qed

lemma health_run_inv: "health_run is w = Some w' \<Longrightarrow> health_inv w \<Longrightarrow> health_inv w'"
  by (induction "is" w rule: health_run.induct) (auto dest: health_step_inv split: option.splits)

lemma health_run_append:
  "health_run (is @ js) w = (case health_run is w of None \<Rightarrow> None | Some w' \<Rightarrow> health_run js w')"
  by (induction "is" w rule: health_run.induct) (simp_all split: option.split)

lemma health_run_replicate:
  "health_run (replicate (Suc n) (env, i)) w =
     (case health_run (replicate n (env, i)) w of None \<Rightarrow> None | Some w' \<Rightarrow> health_step env i w')"
proof -
  have "replicate (Suc n) (env, i) = replicate n (env, i) @ [(env, i)]"
    by (simp add: replicate_append_same)
  then show ?thesis
    by (simp add: health_run_append option.case_eq_if del: replicate.simps)
qed

section \<open>Failing checks\<close>

lemma unat_ucast_16_32 [simp]: "unat (ucast (x :: u16) :: u32) = unat x"
  by (simp add: unsigned_ucast_eq take_bit_nat_eq_self_iff) (rule order_less_trans [OF unsigned_less], simp)

lemma failing_check:
  assumes "hm_timer hm"
  shows "hm_currentTries hm \<le> ucast (hc_maxRetriesOnFailure (hm_config hm)) \<Longrightarrow>
       health_step env (HI_timer EXPIRE None) (hm, st) = Some (hm\<lparr>hm_currentTries := hm_currentTries hm + 1\<rparr>, st)"
    and "\<not> hm_currentTries hm \<le> ucast (hc_maxRetriesOnFailure (hm_config hm)) \<Longrightarrow>
       \<exists>w. health_step env (HI_timer EXPIRE None) (hm, st) = Some w \<and> hm_latest (fst w) = UNHEALTHY"
  using assms by (auto simp: handleTimerFired_def checkHealth_def scheduleNextCheck_def processHealthResult_def Let_def
      split: prod.split)

lemma tolerated_failures:
  assumes "hm_timer hm" and "hm_currentTries hm = 0" and "n \<le> unat (hc_maxRetriesOnFailure (hm_config hm)) + 1"
  shows "health_run (replicate n (env, HI_timer EXPIRE None)) (hm, st) = Some (hm\<lparr>hm_currentTries := of_nat n\<rparr>, st)"
  using assms(3)
proof (induction n)
  case 0
  then show ?case using assms(2) by simp
next
  case (Suc n)
  have "unat (of_nat n :: u32) = n"
    using Suc.prems unsigned_less [of "hc_maxRetriesOnFailure (hm_config hm)", where 'a = nat]
    by (simp add: unat_of_nat)
  then have "(of_nat n :: u32) \<le> ucast (hc_maxRetriesOnFailure (hm_config hm))"
    using Suc.prems by (simp add: word_le_nat_alt)
  then have "health_step env (HI_timer EXPIRE None) (hm\<lparr>hm_currentTries := of_nat n\<rparr>, st) =
      Some (hm\<lparr>hm_currentTries := of_nat (Suc n)\<rparr>, st)"
    using failing_check(1) [of "hm\<lparr>hm_currentTries := of_nat n\<rparr>" env st] assms(1) by (simp add: add.commute)
  then show ?case
    using Suc by (simp add: health_run_replicate del: replicate.simps health_step.simps)
qed

section \<open>Properties\<close>

text \<open>C31: The state of the host reaches every connection. Whatever happens to the monitor and to the connections, each live
  connection that is registered opens new receive channels the way the last verdict asks for: not paused if the host
  was found healthy; and if not, also before the first check, paused exactly if the consumer wants to consume
  from healthy hosts only.\<close>

theorem health_state_applied:
  assumes "HostHealthMonitor_new config = Some hm0" and "health_run is (hm0, Map.empty) = Some (hm, st)"
    and "k \<in> set (hm_connections hm)" and "st k = Some c"
  shows "\<exists>id cm. createReceiveChannel env p c =
     open_if_connected p ((conn_emit (CE_channel_created id p (hm_latest hm \<noteq> HEALTHY \<and> env_healthAware env p)) c)
       \<lparr>cn_channels := cm\<rparr>)"
proof -
  have "health_inv (hm0, Map.empty :: ('a, 'b, 'c, 'd) conn_store)"
    using assms(1) by (auto simp: HostHealthMonitor_new_def health_inv_def split: if_splits)
  then have "cn_onOpenState c = open_state_of (hm_latest hm)"
    using health_run_inv [OF assms(2)] assms(3,4) by (simp add: health_inv_def)
  then show ?thesis
    by (auto simp: createReceiveChannel_def pausedOnOpen_def open_state_of_def split: prod.split)
qed

text \<open>A checker that throws. After a verdict the monitor tolerates \<open>maxRetriesOnFailure + 1\<close> failing checks in a row,
  during which nothing changes for the connections; the next one, the retry with the number \<open>maxRetriesOnFailure + 1\<close>,
  makes the host unhealthy. The header promises that only \<open>maxRetriesOnFailure\<close> retries are made.\<close>

theorem failing_checks_tolerated:
  assumes "hm_timer hm" and "hm_currentTries hm = 0" and "m = unat (hc_maxRetriesOnFailure (hm_config hm))"
  shows "(\<forall>n \<le> m + 1. health_run (replicate n (env, HI_timer EXPIRE None)) (hm, st) =
       Some (hm\<lparr>hm_currentTries := of_nat n\<rparr>, st)) \<and>
     (\<exists>w. health_run (replicate (m + 2) (env, HI_timer EXPIRE None)) (hm, st) = Some w \<and> hm_latest (fst w) = UNHEALTHY)"
proof -
  let ?i = "(env, HI_timer EXPIRE None)" and ?hm = "hm\<lparr>hm_currentTries := of_nat (m + 1)\<rparr>"
  have run: "health_run (replicate n ?i) (hm, st) = Some (hm\<lparr>hm_currentTries := of_nat n\<rparr>, st)" if "n \<le> m + 1" for n
    using tolerated_failures [OF assms(1,2)] that assms(3) by blast
  have "unat (of_nat (m + 1) :: u32) = m + 1"
    using unsigned_less [of "hc_maxRetriesOnFailure (hm_config hm)", where 'a = nat] unfolding assms(3)
    by (simp add: unat_of_nat del: of_nat_add of_nat_Suc)
  then have "\<not> (of_nat (m + 1) :: u32) \<le> ucast (hc_maxRetriesOnFailure (hm_config hm))"
    by (simp add: word_le_nat_alt assms(3) del: of_nat_add of_nat_Suc)
  then obtain w where "health_step env (HI_timer EXPIRE None) (?hm, st) = Some w" "hm_latest (fst w) = UNHEALTHY"
    using failing_check(2) [of ?hm env st] assms(1) by auto
  then have "\<exists>w. health_run (replicate (m + 2) ?i) (hm, st) = Some w \<and> hm_latest (fst w) = UNHEALTHY"
    using run [of "m + 1"] health_run_replicate [of "m + 1" env "HI_timer EXPIRE None" "(hm, st)"]
    by (simp del: replicate.simps health_step.simps)
  then show ?thesis
    using run by blast
qed

lemma distinct_count: "distinct xs \<Longrightarrow> count_list xs x = (if x \<in> set xs then 1 else 0)"
  by (induction xs) auto

theorem failing_checks_tolerated_witness:
  "\<exists>w. health_run (replicate 3 (sample_env, HI_timer EXPIRE None))
       (\<lparr>hm_config = \<lparr>hc_pollInterval = 1, hc_maxRetriesOnFailure = 1\<rparr>, hm_connections = [] :: nat list, hm_currentTries = 0,
         hm_latest = HEALTHY, hm_timer = True\<rparr>, Map.empty) = Some w \<and> hm_latest (fst w) = UNHEALTHY"
  using failing_checks_tolerated [of "\<lparr>hm_config = \<lparr>hc_pollInterval = 1, hc_maxRetriesOnFailure = 1\<rparr>,
      hm_connections = [] :: nat list, hm_currentTries = 0, hm_latest = HEALTHY, hm_timer = True\<rparr>" 1 sample_env Map.empty]
  by (simp add: numeral_3_eq_3)

lemma host_health_calls:
  "pauseReceiveChannels aware True cm = map Call_pause (filter aware (map snd (cm_receiveChannels cm)))"
  "resumeReceiveChannels aware True cm = map Call_resume (filter aware (map snd (cm_receiveChannels cm)))"
proof -
  have "host_health_loop call aware True es = map call (filter aware (map snd es))" for call and es :: "(u16, 'a) omap"
    by (induction call aware True es rule: host_health_loop.induct) auto
  then show "pauseReceiveChannels aware True cm = map Call_pause (filter aware (map snd (cm_receiveChannels cm)))"
    "resumeReceiveChannels aware True cm = map Call_resume (filter aware (map snd (cm_receiveChannels cm)))"
    by (simp_all add: pauseReceiveChannels_def resumeReceiveChannels_def)
qed

text \<open>A verdict is announced to everyone it concerns. A check that answers tells each live registered connection, once, to
  resume or to pause its receive channels; the connection passes this on to exactly those of them whose consumers
  want to consume from healthy hosts only, and to no other channel. Connections that are not registered are not
  touched, those that are gone are taken off the list, and the next check is scheduled.\<close>

theorem health_verdict_announced:
  assumes "hm_timer hm" and "distinct (hm_connections hm)"
  shows "\<exists>evs hm' st'. checkHealth env (Some healthy) (hm, st) = Some (HE_timer_reset (unat (hc_pollInterval (hm_config hm))) # evs, hm', st') \<and>
     hm_latest hm' = (if healthy then HEALTHY else UNHEALTHY) \<and>
     hm_connections hm' = filter (\<lambda>k. st k \<noteq> None) (hm_connections hm) \<and>
     (\<forall>k. k \<notin> set (hm_connections hm) \<longrightarrow> st' k = st k) \<and>
     (\<forall>k \<in> set (hm_connections hm). \<forall>c. st k = Some c \<longrightarrow> (\<exists>c'. st' k = Some c' \<and>
        cn_trace c' = cn_trace c @ map (\<lambda>p. CE_channel ((if healthy then Call_resume else Call_pause) p))
          (filter (env_healthAware env) (map snd (cm_receiveChannels (cn_channels c))))))"
proof -
  let ?h = "if healthy then HEALTHY else UNHEALTHY"
  obtain evs' ks st' where l: "sync_loop env ?h 0 (hm_connections hm) st = (evs', ks, st')"
    by (cases "sync_loop env ?h 0 (hm_connections hm) st") auto
  have ks: "ks = filter (\<lambda>k. st k \<noteq> None) (hm_connections hm)"
    and st': "\<And>j. st' j = map_option ((syncReceiveChannelsToHostHealth env ?h) ^^ count_list (hm_connections hm) j) (st j)"
    using sync_loop_store [OF l] by blast+
  have one: "count_list (hm_connections hm) j = (if j \<in> set (hm_connections hm) then 1 else 0)" for j
    by (rule distinct_count [OF assms(2)])
  have told: "st' k = Some (syncReceiveChannelsToHostHealth env ?h c)" if "k \<in> set (hm_connections hm)" "st k = Some c" for k c
    using st' [of k] one [of k] that by simp
  have trace: "cn_trace (syncReceiveChannelsToHostHealth env ?h c) = cn_trace c @
      map (\<lambda>p. CE_channel ((if healthy then Call_resume else Call_pause) p))
        (filter (env_healthAware env) (map snd (cm_receiveChannels (cn_channels c))))" for c
    by (simp add: syncReceiveChannelsToHostHealth_def Connection_pauseReceiveChannels_def
        Connection_resumeReceiveChannels_def host_health_calls o_def)
  have r: "(case Some healthy of Some True \<Rightarrow> HEALTHY | Some False \<Rightarrow> UNHEALTHY | None \<Rightarrow> RETRY) = ?h"
    by (cases healthy) simp_all
  obtain evs where "processHealthResult env ?h (hm, st) = (evs, hm\<lparr>hm_currentTries := 0, hm_latest := ?h, hm_connections := ks\<rparr>, st')"
    using l by (auto simp: processHealthResult_def Let_def)
  then have "checkHealth env (Some healthy) (hm, st) = Some (HE_timer_reset (unat (hc_pollInterval (hm_config hm))) #
      HE_counter ''health_check_total'' # evs, hm\<lparr>hm_currentTries := 0, hm_latest := ?h, hm_connections := ks\<rparr>, st')"
    using assms(1) unfolding checkHealth_def r by (cases healthy) (simp_all add: scheduleNextCheck_def)
  moreover have "\<forall>k. k \<notin> set (hm_connections hm) \<longrightarrow> st' k = st k"
    using st' one by (simp add: option.map_id)
  ultimately show ?thesis
    using ks told trace by auto
qed

definition sample_monitor :: "nat health_monitor" where
  "sample_monitor =
     \<lparr>hm_config = \<lparr>hc_pollInterval = 1, hc_maxRetriesOnFailure = 1\<rparr>, hm_connections = [4, 5], hm_currentTries = 0,
      hm_latest = HEALTHY, hm_timer = True\<rparr>"

theorem health_verdict_announced_witness:
  "\<exists>evs hm' st'. checkHealth sample_env (Some False) (sample_monitor, [4 \<mapsto> sample_connection]) = Some (evs, hm', st') \<and>
     hm_latest hm' = UNHEALTHY \<and> hm_connections hm' = [4]"
  using health_verdict_announced [of sample_monitor sample_env False "[4 \<mapsto> sample_connection]"]
  by (auto simp: sample_monitor_def)

theorem health_state_applied_witness:
  "\<exists>hm st c. health_run [(sample_env, HI_new (4 :: nat) sample_connection), (sample_env, HI_register 4)]
       (\<lparr>hm_config = \<lparr>hc_pollInterval = 1, hc_maxRetriesOnFailure = 1\<rparr>, hm_connections = [], hm_currentTries = 0,
         hm_latest = UNHEALTHY, hm_timer = False\<rparr>, Map.empty) = Some (hm, st) \<and> st 4 = Some c \<and>
     (\<exists>id cm. createReceiveChannel (sample_env\<lparr>env_healthAware := \<lambda>_. True\<rparr>) 3 c =
        open_if_connected 3 ((conn_emit (CE_channel_created id 3 True) c)\<lparr>cn_channels := cm\<rparr>))"
proof -
  let ?config = "\<lparr>hc_pollInterval = 1, hc_maxRetriesOnFailure = 1\<rparr>"
  let ?hm = "\<lparr>hm_config = ?config, hm_connections = [], hm_currentTries = 0, hm_latest = UNHEALTHY, hm_timer = False\<rparr>"
  have new: "HostHealthMonitor_new ?config = Some ?hm"
    by (simp add: HostHealthMonitor_new_def)
  have "\<exists>hm st c. health_run [(sample_env, HI_new (4 :: nat) sample_connection), (sample_env, HI_register 4)] (?hm, Map.empty) =
      Some (hm, st) \<and> st 4 = Some c \<and> 4 \<in> set (hm_connections hm) \<and> hm_latest hm = UNHEALTHY"
    by (simp add: registerConnection_def Let_def sync_connection_eq sample_connection_def Factory_create_def Connection_new_def)
  then obtain hm st c where r: "health_run [(sample_env, HI_new (4 :: nat) sample_connection), (sample_env, HI_register 4)] (?hm, Map.empty) =
      Some (hm, st)" "st 4 = Some c" "4 \<in> set (hm_connections hm)" "hm_latest hm = UNHEALTHY"
    by blast
  show ?thesis
    using health_state_applied [OF new r(1) r(3) r(2), of "sample_env\<lparr>env_healthAware := \<lambda>_. True\<rparr>" 3] r by auto
qed

end
