(* ===== verification/Futures.thy ===== *)
theory Futures
  imports Prelude
begin

text \<open>
  \<open>rmqt::Result\<close> and \<open>rmqt::Future\<close>: control blocks shared by futures, makers that resolve them, chained futures, and
  cancellation.

  Control blocks live at addresses, which are their places in a list, and count the shared pointers to them; a block
  whose count is zero has been destroyed. A maker holds a weak pointer. Functions given to \<open>then\<close> are functions on
  results; one given to \<open>thenFuture\<close> says which future it returns: an existing one, one that is resolved at once, or a
  new one whose maker is elsewhere. What a call does is a list of actions, run in order; each action may put others
  in front. A thread that locks a mutex it already holds is stuck: the outcome is \<^const>\<open>None\<close>.
\<close>

section \<open>Results\<close>

record 'v Result =
  rs_value :: "'v option"
  rs_error :: bytes
  rs_code :: int

definition Result_error :: "bytes \<Rightarrow> int \<Rightarrow> 'v Result" where
  "Result_error err code = \<lparr>rs_value = None, rs_error = err, rs_code = code\<rparr>"

definition Result_of :: "'v \<Rightarrow> 'v Result" where
  "Result_of v = \<lparr>rs_value = Some v, rs_error = [], rs_code = 0\<rparr>"

definition Result_ok :: "'v Result \<Rightarrow> bool" where
  "Result_ok r \<longleftrightarrow> rs_code r = 0"

section \<open>Control blocks\<close>

type_synonym fut = nat

datatype 'v next_future = NF_existing fut | NF_ready "'v Result" | NF_make

text \<open>What is in the chain of a block: \<open>converter\<close> and \<open>futureConverter\<close> with the future they resolve, and the
  \<open>converter\<close> with \<open>makerWrapper\<close> that \<open>futureConverter\<close> puts there.\<close>

datatype 'v chained =
    Converter fut "'v Result \<Rightarrow> 'v Result"
  | Future_converter fut "'v Result \<Rightarrow> 'v next_future"
  | Maker_wrapper fut fut

datatype cancel_func = No_cancel | Cancel | Extend_lifetime fut

record 'v impl =
  im_refs :: nat
  im_result :: "'v Result option"
  im_chain :: "'v chained list"
  im_cancelFunc :: cancel_func
  im_locked :: bool

text \<open>Beside the blocks: the futures that exist outside, the makers not used yet, and the blocks whose cancel function has been
  called.\<close>

record 'v futures =
  fu_impls :: "'v impl list"
  fu_handles :: "fut list"
  fu_makers :: "fut list"
  fu_cancelled :: "fut list"

text \<open>There is no block outside the list.\<close>

definition impl :: "'v futures \<Rightarrow> fut \<Rightarrow> 'v impl" where
  "impl s f =
     (if f < length (fu_impls s) then fu_impls s ! f
      else \<lparr>im_refs = 0, im_result = None, im_chain = [], im_cancelFunc = No_cancel, im_locked = False\<rparr>)"

definition alter :: "fut \<Rightarrow> ('v impl \<Rightarrow> 'v impl) \<Rightarrow> 'v futures \<Rightarrow> 'v futures" where
  "alter f h s = s\<lparr>fu_impls := (fu_impls s)[f := h (fu_impls s ! f)]\<rparr>"

definition add_ref :: "fut \<Rightarrow> 'v futures \<Rightarrow> 'v futures" where
  "add_ref f s = alter f (\<lambda>b. b\<lparr>im_refs := im_refs b + 1\<rparr>) s"

text \<open>A new block with one pointer to it.\<close>

definition new_impl :: "cancel_func \<Rightarrow> 'v Result option \<Rightarrow> 'v futures \<Rightarrow> fut \<times> 'v futures" where
  "new_impl cancelFunc result s =
     (length (fu_impls s),
      s\<lparr>fu_impls := fu_impls s @
          [\<lparr>im_refs = 1, im_result = result, im_chain = [], im_cancelFunc = cancelFunc, im_locked = False\<rparr>]\<rparr>)"

section \<open>Actions\<close>

datatype 'v action =
    Made fut "'v Result"
  | Call "'v chained" "'v Result"
  | Unlock fut
  | Drop fut
  | Update_cancel fut fut

text \<open>The future that the function given to \<open>thenFuture\<close> returns, with the pointer it holds.\<close>

fun generated_future :: "'v next_future \<Rightarrow> 'v futures \<Rightarrow> (fut \<times> 'v futures) option" where
  "generated_future (NF_existing c) s = (if im_refs (impl s c) > 0 then Some (c, add_ref c s) else None)"
| "generated_future (NF_ready r) s = Some (new_impl No_cancel (Some r) s)"
| "generated_future NF_make s =
     (case new_impl No_cancel None s of (c, s) \<Rightarrow> Some (c, s\<lparr>fu_makers := c # fu_makers s\<rparr>))"

text \<open>\<open>addChain\<close>: the function is called at once if the future is resolved, with the mutex locked, or put in the chain.\<close>

definition addChain :: "fut \<Rightarrow> 'v chained \<Rightarrow> 'v futures \<Rightarrow> ('v action list \<times> 'v futures) option" where
  "addChain f k s =
     (if im_locked (impl s f) then None
      else
        (case im_result (impl s f) of
           Some r \<Rightarrow> Some ([Call k r, Unlock f], alter f (\<lambda>b. b\<lparr>im_locked := True\<rparr>) s)
         | None \<Rightarrow> Some ([], alter f (\<lambda>b. b\<lparr>im_chain := im_chain b @ [k]\<rparr>) s)))"

definition made :: "fut \<Rightarrow> 'v Result \<Rightarrow> 'v futures \<Rightarrow> ('v action list \<times> 'v futures) option" where
  "made f item s =
     (if im_refs (impl s f) = 0 then Some ([], s)
      else if im_locked (impl s f) then None
      else
        Some (map (\<lambda>k. Call k item) (im_chain (impl s f)) @ [Unlock f, Drop f],
          alter f (\<lambda>b. b\<lparr>im_refs := im_refs b + 1, im_result := Some item, im_chain := [], im_locked := True\<rparr>) s))"

definition futureConverter ::
  "('v Result \<Rightarrow> 'v next_future) \<Rightarrow> fut \<Rightarrow> 'v Result \<Rightarrow> 'v futures \<Rightarrow> ('v action list \<times> 'v futures) option" where
  "futureConverter cGenerator b aResult s =
     (if im_refs (impl s b) = 0 then Some ([], s)
      else
        (case generated_future (cGenerator aResult) (add_ref b s) of
           None \<Rightarrow> None
         | Some (c, s) \<Rightarrow>
             (case new_impl (Extend_lifetime c) None (add_ref c s) of
                (d, s) \<Rightarrow>
                  (case addChain c (Maker_wrapper b d) s of
                     None \<Rightarrow> None
                   | Some (acts, s) \<Rightarrow> Some (acts @ [Update_cancel b d, Drop d, Drop c, Drop b], s)))))"

text \<open>The last pointer to a block is gone: \<open>~Impl\<close>.\<close>

definition destroy_impl :: "fut \<Rightarrow> 'v futures \<Rightarrow> 'v action list \<times> 'v futures" where
  "destroy_impl f s =
     (let b = impl s f;
          s = alter f (\<lambda>b. b\<lparr>im_refs := 0, im_chain := []\<rparr>) s in
      case im_cancelFunc b of
        No_cancel \<Rightarrow> ([], s)
      | Cancel \<Rightarrow> ([], if im_result b = None then s\<lparr>fu_cancelled := fu_cancelled s @ [f]\<rparr> else s)
      | Extend_lifetime p \<Rightarrow> ([Drop p], s))"

definition drop_ref :: "fut \<Rightarrow> 'v futures \<Rightarrow> 'v action list \<times> 'v futures" where
  "drop_ref f s =
     (if im_refs (impl s f) = 0 then ([], s)
      else if im_refs (impl s f) = 1 then destroy_impl f s
      else ([], alter f (\<lambda>b. b\<lparr>im_refs := im_refs b - 1\<rparr>) s))"

definition updateCancel :: "fut \<Rightarrow> fut \<Rightarrow> 'v futures \<Rightarrow> ('v action list \<times> 'v futures) option" where
  "updateCancel b d s =
     (if im_locked (impl s b) \<or> im_refs (impl s b) = 0 \<or> im_refs (impl s d) = 0 then None
      else
        Some ((case im_cancelFunc (impl s b) of Extend_lifetime p \<Rightarrow> [Drop p] | _ \<Rightarrow> []),
          alter b (\<lambda>i. i\<lparr>im_cancelFunc := Extend_lifetime d\<rparr>) (add_ref d s)))"

fun act :: "'v action \<Rightarrow> 'v futures \<Rightarrow> ('v action list \<times> 'v futures) option" where
  "act (Made f r) s = made f r s"
| "act (Call (Converter b h) r) s = Some ([Made b (h r)], s)"
| "act (Call (Maker_wrapper b d) r) s = Some ([Made b r, Made d r], s)"
| "act (Call (Future_converter b h) r) s = futureConverter h b r s"
| "act (Unlock f) s = Some ([], alter f (\<lambda>b. b\<lparr>im_locked := False\<rparr>) s)"
| "act (Drop f) s = Some (drop_ref f s)"
| "act (Update_cancel b d) s = updateCancel b d s"


text \<open>Running actions comes to an end: each call takes something off this weight, in which a block that still exists
  counts one.\<close>

fun chained_weight :: "'v chained \<Rightarrow> nat" where
  "chained_weight (Converter _ _) = 4"
| "chained_weight (Maker_wrapper _ _) = 7"
| "chained_weight (Future_converter _ _) = 16"

fun action_weight :: "'v action \<Rightarrow> nat" where
  "action_weight (Made _ _) = 3"
| "action_weight (Call k _) = chained_weight k"
| "action_weight (Unlock _) = 1"
| "action_weight (Drop _) = 1"
| "action_weight (Update_cancel _ _) = 2"

definition impl_weight :: "'v impl \<Rightarrow> nat" where
  "impl_weight b = (if im_refs b > 0 then 1 else 0) + sum_list (map chained_weight (im_chain b))"

definition weight :: "'v futures \<Rightarrow> nat" where
  "weight s = sum_list (map impl_weight (fu_impls s))"

abbreviation weights :: "'v action list \<Rightarrow> nat" where
  "weights as \<equiv> sum_list (map action_weight as)"

lemma sum_list_map_update:
  "f < length xs \<Longrightarrow> sum_list (map w (xs[f := x])) + w (xs ! f) = sum_list (map w xs) + (w x :: 'a::comm_monoid_add)"
proof (induction xs arbitrary: f)
  case (Cons y ys)
  then show ?case by (cases f) (auto simp: ac_simps)
qed simp

lemma weight_alter:
  "f < length (fu_impls s) \<Longrightarrow> weight (alter f h s) + impl_weight (impl s f) = weight s + impl_weight (h (impl s f))"
  by (simp add: weight_def alter_def impl_def sum_list_map_update)

lemma impl_alive: "im_refs (impl s f) > 0 \<Longrightarrow> f < length (fu_impls s)"
  by (auto simp: impl_def split: if_splits)

lemma alter_outside: "\<not> f < length (fu_impls s) \<Longrightarrow> alter f h s = s"
  by (simp add: alter_def list_update_beyond)

lemma weight_alter_le:
  assumes "impl_weight (h (impl s f)) \<le> impl_weight (impl s f) + n"
  shows "weight (alter f h s) \<le> weight s + n"
  using assms weight_alter [of f s h] by (cases "f < length (fu_impls s)") (auto simp: alter_outside)

lemma weight_new_impl: "new_impl cf r s = (f, s') \<Longrightarrow> weight s' = weight s + 1"
  by (auto simp: new_impl_def weight_def impl_weight_def)

lemma weight_add_ref: "im_refs (impl s f) > 0 \<Longrightarrow> weight (add_ref f s) \<le> weight s"
  unfolding add_ref_def using weight_alter_le [of "\<lambda>b. b\<lparr>im_refs := im_refs b + 1\<rparr>" s f 0] by (simp add: impl_weight_def)

lemma made_weight:
  assumes "made f r s = Some (as, s')"
  shows "weights as + weight s' < 3 + weight s"
proof (cases "im_refs (impl s f) = 0")
  case False
  let ?b = "impl s f" and ?h = "\<lambda>b. b\<lparr>im_refs := im_refs b + 1, im_result := Some r, im_chain := [], im_locked := True\<rparr>"
  have as: "as = map (\<lambda>k. Call k r) (im_chain ?b) @ [Unlock f, Drop f]" and s': "s' = alter f ?h s"
    using assms False by (auto simp: made_def split: if_splits)
  have "weight s' + impl_weight ?b = weight s + impl_weight (?h ?b)"
    unfolding s' using impl_alive [of s f] False by (intro weight_alter) simp
  moreover have "weights as = sum_list (map chained_weight (im_chain ?b)) + 2"
    by (simp add: as comp_def)
  ultimately show ?thesis
    using False by (simp add: impl_weight_def)
qed (use assms in \<open>simp add: made_def\<close>)

lemma addChain_weight:
  assumes "addChain f k s = Some (as, s')"
  shows "weights as + weight s' \<le> chained_weight k + 1 + weight s"
proof (cases "im_result (impl s f)")
  case None
  then have "as = []" "s' = alter f (\<lambda>b. b\<lparr>im_chain := im_chain b @ [k]\<rparr>) s"
    using assms by (auto simp: addChain_def split: if_splits)
  then show ?thesis
    using weight_alter_le [of "\<lambda>b. b\<lparr>im_chain := im_chain b @ [k]\<rparr>" s f "chained_weight k"] by (simp add: impl_weight_def)
next
  case (Some r)
  then have "as = [Call k r, Unlock f]" "s' = alter f (\<lambda>b. b\<lparr>im_locked := True\<rparr>) s"
    using assms by (auto simp: addChain_def split: if_splits)
  then show ?thesis
    using weight_alter_le [of "\<lambda>b. b\<lparr>im_locked := True\<rparr>" s f 0] by (simp add: impl_weight_def)
qed

lemma generated_weight:
  assumes "generated_future n s = Some (c, s')"
  shows "weight s' \<le> weight s + 1" "im_refs (impl s' c) > 0"
proof -
  show "im_refs (impl s' c) > 0"
    using assms by (cases n) (auto simp: new_impl_def impl_def add_ref_def alter_def nth_append split: if_splits)
  show "weight s' \<le> weight s + 1"
  proof (cases n)
    case (NF_existing c')
    then show ?thesis
      using assms weight_add_ref [of s c] by (auto split: if_splits)
  qed (use assms in \<open>auto simp: new_impl_def weight_def impl_weight_def\<close>)
qed

lemma drop_weight:
  assumes "drop_ref f s = (as, s')"
  shows "weights as + weight s' < 1 + weight s"
proof -
  consider "im_refs (impl s f) = 0" | "im_refs (impl s f) = 1" | "im_refs (impl s f) > 1" by linarith
  then show ?thesis
  proof cases
    case 2
    let ?h = "\<lambda>b. b\<lparr>im_refs := 0, im_chain := []\<rparr>"
    have "weight (alter f ?h s) + impl_weight (impl s f) = weight s + impl_weight (?h (impl s f))"
      using impl_alive [of s f] 2 by (intro weight_alter) simp
    then have "weight (alter f ?h s) + 1 \<le> weight s"
      using 2 by (simp add: impl_weight_def)
    moreover have "weights as \<le> 1" "weight s' = weight (alter f ?h s)"
      using assms 2 by (auto simp: drop_ref_def destroy_impl_def Let_def weight_def split: cancel_func.splits if_splits)
    ultimately show ?thesis by linarith
  next
    case 3
    then show ?thesis
      using assms weight_alter_le [of "\<lambda>b. b\<lparr>im_refs := im_refs b - 1\<rparr>" s f 0] by (auto simp: drop_ref_def impl_weight_def)
  qed (use assms in \<open>simp add: drop_ref_def\<close>)
qed

lemma futureConverter_weight:
  assumes "futureConverter g b r s = Some (as, s')"
  shows "weights as + weight s' < 16 + weight s"
proof (cases "im_refs (impl s b) = 0")
  case False
  then obtain c s1 d s2 as2 where g: "generated_future (g r) (add_ref b s) = Some (c, s1)"
    and d: "new_impl (Extend_lifetime c) None (add_ref c s1) = (d, s2)"
    and k: "addChain c (Maker_wrapper b d) s2 = Some (as2, s')"
    and as: "as = as2 @ [Update_cancel b d, Drop d, Drop c, Drop b]"
    using assms by (auto simp: futureConverter_def split: option.splits prod.splits)
  have "weight s1 \<le> weight s + 1"
    using generated_weight(1) [OF g] weight_add_ref [of s b] False by linarith
  moreover have "weight s2 \<le> weight s1 + 1"
    using weight_new_impl [OF d] weight_add_ref [OF generated_weight(2) [OF g]] by linarith
  ultimately show ?thesis
    using addChain_weight [OF k] as by simp
qed (use assms in \<open>simp add: futureConverter_def\<close>)

lemma updateCancel_weight:
  assumes "updateCancel b d s = Some (as, s')"
  shows "weights as + weight s' < 2 + weight s"
proof -
  let ?h = "\<lambda>i. i\<lparr>im_cancelFunc := Extend_lifetime d\<rparr>"
  have "weight (alter b ?h (add_ref d s)) \<le> weight (add_ref d s) + 0"
    by (rule weight_alter_le) (simp add: impl_weight_def)
  then show ?thesis
    using assms weight_add_ref [of s d] by (auto simp: updateCancel_def split: if_splits cancel_func.splits)
qed


lemma act_weight: "act a s = Some (as, s') \<Longrightarrow> weights as + weight s' < action_weight a + weight s"
proof (induction a s rule: act.induct)
  case (5 f s)
  then show ?case
    using weight_alter_le [of "\<lambda>b. b\<lparr>im_locked := False\<rparr>" s f 0] by (auto simp: impl_weight_def)
qed (auto dest: made_weight futureConverter_weight drop_weight updateCancel_weight)

function run_actions :: "'v action list \<Rightarrow> 'v futures \<Rightarrow> 'v futures option" where
  "run_actions [] s = Some s"
| "run_actions (a # as) s = (case act a s of None \<Rightarrow> None | Some (new, s') \<Rightarrow> run_actions (new @ as) s')"
  by pat_completeness auto
termination
  by (relation "measure (\<lambda>(as, s). weights as + weight s)") (auto dest: act_weight)

section \<open>Operations\<close>

definition then_chain :: "fut \<Rightarrow> (fut \<Rightarrow> 'v chained) \<Rightarrow> 'v futures \<Rightarrow> (fut \<times> 'v futures) option" where
  "then_chain f k s =
     (case new_impl (Extend_lifetime f) None (add_ref f s) of
        (b, s) \<Rightarrow>
          (case addChain f (k b) (s\<lparr>fu_handles := b # fu_handles s\<rparr>) of
             None \<Rightarrow> None
           | Some (as, s) \<Rightarrow> map_option (\<lambda>s. (b, s)) (run_actions as s)))"

definition Future_make :: "cancel_func \<Rightarrow> 'v futures \<Rightarrow> fut \<times> 'v futures" where
  "Future_make cancelFunc s =
     (case new_impl cancelFunc None s of
        (f, s) \<Rightarrow> (f, s\<lparr>fu_handles := f # fu_handles s, fu_makers := f # fu_makers s\<rparr>))"

text \<open>\<open>then\<close> and \<open>thenFuture\<close>.\<close>

definition Future_then ::
  "fut \<Rightarrow> ('v Result \<Rightarrow> 'v Result) \<Rightarrow> 'v futures \<Rightarrow> (fut \<times> 'v futures) option" where
  "Future_then f converter s = then_chain f (\<lambda>b. Converter b converter) s"

definition Future_thenFuture ::
  "fut \<Rightarrow> ('v Result \<Rightarrow> 'v next_future) \<Rightarrow> 'v futures \<Rightarrow> (fut \<times> 'v futures) option" where
  "Future_thenFuture f nextFuture s = then_chain f (\<lambda>b. Future_converter b nextFuture) s"

definition Future_copy :: "fut \<Rightarrow> 'v futures \<Rightarrow> 'v futures" where
  "Future_copy f s = (add_ref f s)\<lparr>fu_handles := f # fu_handles s\<rparr>"

definition Future_destroy :: "fut \<Rightarrow> 'v futures \<Rightarrow> 'v futures option" where
  "Future_destroy f s = run_actions [Drop f] (s\<lparr>fu_handles := remove1 f (fu_handles s)\<rparr>)"

definition Future_maker :: "fut \<Rightarrow> 'v Result \<Rightarrow> 'v futures \<Rightarrow> 'v futures option" where
  "Future_maker f r s = run_actions [Made f r] (s\<lparr>fu_makers := remove1 f (fu_makers s)\<rparr>)"

text \<open>The constructor of a future that is resolved at once.\<close>

definition Future_resolved :: "'v Result \<Rightarrow> 'v futures \<Rightarrow> (fut \<times> 'v futures) option" where
  "Future_resolved result s =
     (case Future_make No_cancel s of (f, s) \<Rightarrow> map_option (\<lambda>s. (f, s)) (Future_maker f result s))"

text \<open>Reading a result: \<open>made_in_time\<close> says whether a wait with a timeout saw the future resolved; a wait without one
  returns only then.\<close>

definition timedWaitResult :: "bool \<Rightarrow> fut \<Rightarrow> 'v futures \<Rightarrow> 'v Result option" where
  "timedWaitResult made_in_time f s =
     (if made_in_time then im_result (impl s f) else Some (Result_error (bstr ''TIMED OUT'') 408))"

definition blockResult :: "fut \<Rightarrow> 'v futures \<Rightarrow> 'v Result option" where
  "blockResult f s = im_result (impl s f)"

definition tryResult :: "fut \<Rightarrow> 'v futures \<Rightarrow> 'v Result option" where
  "tryResult f s = timedWaitResult (im_result (impl s f) \<noteq> None) f s"

text \<open>\<open>FutureUtil\<close>. A value that is itself a future is seen by \<open>as_future\<close>.\<close>

definition propagateError :: "('v option \<Rightarrow> 'v next_future) \<Rightarrow> 'v Result \<Rightarrow> 'v next_future" where
  "propagateError fn r = (if \<not> Result_ok r then NF_ready (Result_error (rs_error r) (rs_code r)) else fn (rs_value r))"

definition unravelFuture :: "('v option \<Rightarrow> fut) \<Rightarrow> 'v Result \<Rightarrow> 'v next_future" where
  "unravelFuture as_future = propagateError (\<lambda>v. NF_existing (as_future v))"

definition flatten :: "('v option \<Rightarrow> fut) \<Rightarrow> fut \<Rightarrow> 'v futures \<Rightarrow> (fut \<times> 'v futures) option" where
  "flatten as_future f s = Future_thenFuture f (unravelFuture as_future) s"

definition convertViaManagedPtr :: "('v option \<Rightarrow> 'v) \<Rightarrow> 'v Result \<Rightarrow> 'v Result" where
  "convertViaManagedPtr construct a = (if Result_ok a then Result_of (construct (rs_value a)) else Result_error (rs_error a) (rs_code a))"

text \<open>Sequences of operations. An operation on a future needs a future; a maker is used once.\<close>

datatype 'v future_op =
    Op_make cancel_func
  | Op_then fut "'v Result \<Rightarrow> 'v Result"
  | Op_thenFuture fut "'v Result \<Rightarrow> 'v next_future"
  | Op_maker fut "'v Result"
  | Op_copy fut
  | Op_destroy fut

fun future_step :: "'v future_op \<Rightarrow> 'v futures \<Rightarrow> 'v futures option" where
  "future_step (Op_make c) s = (case c of Extend_lifetime _ \<Rightarrow> None | _ \<Rightarrow> Some (snd (Future_make c s)))"
| "future_step (Op_then f h) s = (if f \<in> set (fu_handles s) then map_option snd (Future_then f h s) else None)"
| "future_step (Op_thenFuture f h) s = (if f \<in> set (fu_handles s) then map_option snd (Future_thenFuture f h s) else None)"
| "future_step (Op_maker f r) s = (if f \<in> set (fu_makers s) then Future_maker f r s else None)"
| "future_step (Op_copy f) s = (if f \<in> set (fu_handles s) then Some (Future_copy f s) else None)"
| "future_step (Op_destroy f) s = (if f \<in> set (fu_handles s) then Future_destroy f s else None)"

fun future_run :: "'v future_op list \<Rightarrow> 'v futures \<Rightarrow> 'v futures option" where
  "future_run [] s = Some s"
| "future_run (i # is) s = (case future_step i s of None \<Rightarrow> None | Some s' \<Rightarrow> future_run is s')"

definition no_futures :: "'v futures" where
  "no_futures = \<lparr>fu_impls = [], fu_handles = [], fu_makers = [], fu_cancelled = []\<rparr>"

end
