(* ===== verification/Future_Makers.thy ===== *)
theory Future_Makers
  imports Futures "HOL-Library.Multiset"
begin

text \<open>
  Invariants of the actions of \<open>Futures\<close>: what an action leaves alone, that each unresolved future is resolved from one
  place only, and the relation between a future and one that is chained to it.
\<close>

section \<open>What an action leaves alone\<close>

lemma impl_alter [simp]: "impl (alter f h s) g = (if g = f \<and> f < length (fu_impls s) then h (impl s f) else impl s g)"
  by (auto simp: impl_def alter_def)

lemma alter_simps [simp]:
  "length (fu_impls (alter f h s)) = length (fu_impls s)" "fu_makers (alter f h s) = fu_makers s"
  "fu_handles (alter f h s) = fu_handles s" "fu_cancelled (alter f h s) = fu_cancelled s"
  by (simp_all add: alter_def)

lemma impl_record [simp]:
  "impl (s\<lparr>fu_makers := ms\<rparr>) g = impl s g" "impl (s\<lparr>fu_handles := hs\<rparr>) g = impl s g"
  "impl (s\<lparr>fu_cancelled := cs\<rparr>) g = impl s g"
  by (simp_all add: impl_def)

lemma new_impl_result:
  assumes "new_impl cf r s = (f, s')"
  shows "f = length (fu_impls s)" "length (fu_impls s') = Suc f" "fu_makers s' = fu_makers s" "fu_handles s' = fu_handles s"
    "impl s' g = (if g = f then \<lparr>im_refs = 1, im_result = r, im_chain = [], im_cancelFunc = cf, im_locked = False\<rparr> else impl s g)"
  using assms by (auto simp: new_impl_def impl_def nth_append)

definition keeps :: "fut \<Rightarrow> 'v futures \<Rightarrow> 'v futures \<Rightarrow> bool" where
  "keeps f s s' \<longleftrightarrow>
     im_result (impl s' f) = im_result (impl s f) \<and> set (im_chain (impl s f)) \<subseteq> set (im_chain (impl s' f)) \<and>
     (im_refs (impl s f) = 0 \<longrightarrow> im_refs (impl s' f) = 0) \<and> length (fu_impls s) \<le> length (fu_impls s')"

lemma frame_trans: "keeps f s s' \<Longrightarrow> keeps f s' s'' \<Longrightarrow> keeps f s s''"
  by (auto simp: keeps_def)

lemma frame_refl [simp]: "keeps f s s"
  by (simp add: keeps_def)

lemma frame_add_ref: "im_refs (impl s g) > 0 \<Longrightarrow> keeps f s (add_ref g s)"
  by (simp add: keeps_def add_ref_def)

lemma frame_new_impl: "new_impl cf r s = (g, s') \<Longrightarrow> f < length (fu_impls s) \<Longrightarrow> keeps f s s'"
  using new_impl_result [of cf r s g s'] by (auto simp: keeps_def)

lemma frame_addChain: "addChain g k s = Some (as, s') \<Longrightarrow> keeps f s s'"
  by (auto simp: keeps_def addChain_def split: if_splits option.splits)

lemma frame_generated:
  assumes "generated_future n s = Some (c, s')" and "f < length (fu_impls s)"
  shows "keeps f s s'"
proof (cases n)
  case NF_make
  then obtain s1 where "new_impl No_cancel None s = (c, s1)" "s' = s1\<lparr>fu_makers := c # fu_makers s1\<rparr>"
    using assms(1) by (auto split: prod.splits)
  then show ?thesis
    using frame_new_impl [OF _ assms(2)] by (auto simp: keeps_def)
qed (use assms frame_new_impl frame_add_ref in \<open>auto split: if_splits\<close>)

lemma frame_futureConverter:
  assumes "futureConverter g b r s = Some (as, s')" and "f < length (fu_impls s)"
  shows "keeps f s s'"
proof (cases "im_refs (impl s b) = 0")
  case False
  then obtain c s1 d s2 as2 where g: "generated_future (g r) (add_ref b s) = Some (c, s1)"
    and d: "new_impl (Extend_lifetime c) None (add_ref c s1) = (d, s2)" and k: "addChain c (Maker_wrapper b d) s2 = Some (as2, s')"
    using assms by (auto simp: futureConverter_def split: option.splits prod.splits)
  have 1: "keeps f s (add_ref b s)"
    using False by (simp add: frame_add_ref)
  have 2: "keeps f (add_ref b s) s1"
    using frame_generated [OF g] assms(2) by (simp add: add_ref_def)
  have 3: "keeps f s1 (add_ref c s1)"
    using frame_add_ref generated_weight(2) [OF g] by blast
  have "f < length (fu_impls (add_ref c s1))"
    using 1 2 assms(2) by (simp add: keeps_def add_ref_def)
  then show ?thesis
    using 1 2 3 frame_new_impl [OF d] frame_addChain [OF k] by (blast intro: frame_trans)
qed (use assms in \<open>simp add: futureConverter_def\<close>)

lemma frame_updateCancel: "updateCancel b d s = Some (as, s') \<Longrightarrow> keeps f s s'"
  by (auto simp: updateCancel_def keeps_def add_ref_def split: if_splits)

lemma frame_drop:
  assumes "drop_ref g s = (as, s')"
  shows "keeps f s s' \<or> f = g \<and> im_refs (impl s' f) = 0 \<and> im_result (impl s' f) = im_result (impl s f) \<and> im_chain (impl s' f) = []"
  using assms
  by (auto simp: drop_ref_def destroy_impl_def Let_def keeps_def dest: impl_alive split: if_splits cancel_func.splits)

lemma act_frame:
  assumes "act a s = Some (new, s')" and "f < length (fu_impls s)"
  shows "keeps f s s' \<or>
    (\<exists>r. a = Made f r \<and> im_refs (impl s f) > 0 \<and> im_result (impl s' f) = Some r \<and> im_chain (impl s' f) = [] \<and>
       (\<forall>k \<in> set (im_chain (impl s f)). Call k r \<in> set new) \<and> length (fu_impls s') = length (fu_impls s)) \<or>
    (a = Drop f \<and> im_refs (impl s' f) = 0 \<and> im_result (impl s' f) = im_result (impl s f) \<and> im_chain (impl s' f) = [])"
  using assms
proof (induction a s rule: act.induct)
  case (1 g r s)
  then show ?case
    by (auto simp: made_def keeps_def split: if_splits)
next
  case (4 b h r s)
  then show ?case
    using frame_futureConverter by fastforce
next
  case (5 g s)
  then show ?case
    by (auto simp: keeps_def)
next
  case (6 g s)
  then show ?case
    using frame_drop [of g s new s' f] by auto
next
  case (7 b d s)
  then show ?case
    using frame_updateCancel by fastforce
qed auto


section \<open>Each unresolved future is resolved from one place\<close>

text \<open>The makers in existence: those not used yet, and those bound into chains and into the actions still to run. There
  is at most one for each future, and none for a future that is resolved.\<close>

fun chained_targets :: "'v chained \<Rightarrow> fut multiset" where
  "chained_targets (Converter b _) = {#b#}"
| "chained_targets (Future_converter b _) = {#b#}"
| "chained_targets (Maker_wrapper b d) = {#b, d#}"

fun action_targets :: "'v action \<Rightarrow> fut multiset" where
  "action_targets (Made f _) = {#f#}"
| "action_targets (Call k _) = chained_targets k"
| "action_targets _ = {#}"

definition chain_targets :: "'v impl \<Rightarrow> fut multiset" where
  "chain_targets b = sum_list (map chained_targets (im_chain b))"

definition heap_targets :: "'v futures \<Rightarrow> fut multiset" where
  "heap_targets s = sum_list (map chain_targets (fu_impls s)) + mset (fu_makers s)"

definition targets :: "'v action list \<Rightarrow> 'v futures \<Rightarrow> fut multiset" where
  "targets as s = sum_list (map action_targets as) + heap_targets s"

definition single_makers :: "'v action list \<Rightarrow> 'v futures \<Rightarrow> bool" where
  "single_makers as s \<longleftrightarrow>
     (\<forall>f. count (targets as s) f \<le> 1) \<and>
     (\<forall>f \<in># targets as s. f < length (fu_impls s) \<and> im_result (impl s f) = None)"

lemma targets_Cons: "targets (a # as) s = action_targets a + targets as s"
  by (simp add: targets_def ac_simps)

lemma targets_append: "targets (new @ as) s = sum_list (map action_targets new) + targets as s"
  by (simp add: targets_def ac_simps)

lemma heap_targets_alter:
  "f < length (fu_impls s) \<Longrightarrow>
   heap_targets (alter f h s) + chain_targets (impl s f) = heap_targets s + chain_targets (h (impl s f))"
  using sum_list_map_update [of f "fu_impls s" chain_targets "h (fu_impls s ! f)"]
  by (simp add: heap_targets_def alter_def impl_def ac_simps)

lemma heap_targets_same:
  assumes "\<And>b. im_chain (h b) = im_chain b"
  shows "heap_targets (alter f h s) = heap_targets s"
proof (cases "f < length (fu_impls s)")
  case True
  then show ?thesis
    using heap_targets_alter [OF True, of h] assms by (simp add: chain_targets_def)
qed (simp add: alter_outside)

lemma heap_targets_add_ref [simp]: "heap_targets (add_ref f s) = heap_targets s"
  unfolding add_ref_def by (rule heap_targets_same) simp

lemma heap_targets_handles [simp]: "heap_targets (s\<lparr>fu_handles := hs\<rparr>) = heap_targets s"
  "heap_targets (s\<lparr>fu_cancelled := cs\<rparr>) = heap_targets s"
  by (simp_all add: heap_targets_def)

lemma heap_targets_new: "new_impl cf r s = (f, s') \<Longrightarrow> heap_targets s' = heap_targets s"
  by (auto simp: new_impl_def heap_targets_def chain_targets_def)

lemma addChain_targets:
  assumes "addChain f k s = Some (as, s')"
  shows "sum_list (map action_targets as) + heap_targets s' \<subseteq># chained_targets k + heap_targets s"
proof (cases "im_result (impl s f)")
  case (Some r)
  then show ?thesis
    using assms by (auto simp: addChain_def heap_targets_same split: if_splits)
next
  case None
  let ?h = "\<lambda>b. b\<lparr>im_chain := im_chain b @ [k]\<rparr>"
  have s': "as = []" "s' = alter f ?h s"
    using None assms by (auto simp: addChain_def split: if_splits)
  show ?thesis
  proof (cases "f < length (fu_impls s)")
    case True
    then show ?thesis
      using heap_targets_alter [OF True, of ?h] by (simp add: s' chain_targets_def)
  qed (simp add: s' alter_outside)
qed

text \<open>What \<^term>\<open>act a\<close> uses up: the maker of a future that it resolves, and the chain of a block that it destroys.\<close>

fun spent :: "'v action \<Rightarrow> 'v futures \<Rightarrow> 'v futures \<Rightarrow> fut multiset" where
  "spent (Made f _) s s' = (if im_refs (impl s f) = 0 then {#} else {#f#})"
| "spent (Drop f) s s' = (if im_refs (impl s f) \<noteq> 0 \<and> im_refs (impl s' f) = 0 then chain_targets (impl s f) else {#})"
| "spent _ _ _ = {#}"

definition fresh :: "'v futures \<Rightarrow> 'v futures \<Rightarrow> fut multiset \<Rightarrow> bool" where
  "fresh s s' F \<longleftrightarrow> (\<forall>f. count F f \<le> 1) \<and>
     (\<forall>f \<in># F. length (fu_impls s) \<le> f \<and> f < length (fu_impls s') \<and> im_result (impl s' f) = None)"

lemma fresh_empty [simp]: "fresh s s' {#}"
  by (simp add: fresh_def)

lemma made_targets:
  assumes "made f r s = Some (new, s')"
  shows "sum_list (map action_targets new) + heap_targets s' + spent (Made f r) s s' \<subseteq># {#f#} + heap_targets s"
proof (cases "im_refs (impl s f) = 0")
  case False
  let ?h = "\<lambda>b. b\<lparr>im_refs := im_refs b + 1, im_result := Some r, im_chain := [], im_locked := True\<rparr>"
  have s': "new = map (\<lambda>k. Call k r) (im_chain (impl s f)) @ [Unlock f, Drop f]" "s' = alter f ?h s"
    using assms False by (auto simp: made_def split: if_splits)
  have "heap_targets s' + chain_targets (impl s f) = heap_targets s"
    using heap_targets_alter [of f s ?h] impl_alive [of s f] False by (simp add: s' chain_targets_def)
  then show ?thesis
    using False by (simp add: s' comp_def chain_targets_def ac_simps)
qed (use assms in \<open>simp add: made_def\<close>)

lemma drop_targets:
  assumes "drop_ref f s = (new, s')"
  shows "sum_list (map action_targets new) + heap_targets s' + spent (Drop f) s s' = heap_targets s"
proof -
  consider "im_refs (impl s f) = 0" | "im_refs (impl s f) = 1" | "im_refs (impl s f) > 1" by linarith
  then show ?thesis
  proof cases
    case 2
    let ?h = "\<lambda>b. b\<lparr>im_refs := 0, im_chain := []\<rparr>"
    have "f < length (fu_impls s)"
      using 2 impl_alive [of s f] by simp
    moreover from this have "heap_targets (alter f ?h s) + chain_targets (impl s f) = heap_targets s"
      using heap_targets_alter [of f s ?h] by (simp add: chain_targets_def)
    ultimately show ?thesis
      using assms 2
      by (auto simp: drop_ref_def destroy_impl_def Let_def split: cancel_func.splits if_splits)
  next
    case 3
    then show ?thesis
      using assms impl_alive [of s f] by (auto simp: drop_ref_def heap_targets_same)
  qed (use assms in \<open>simp add: drop_ref_def\<close>)
qed


lemma generated_targets:
  assumes "generated_future n s = Some (c, s')"
  obtains F where "fresh s s' F" "heap_targets s' = heap_targets s + F" "length (fu_impls s) \<le> length (fu_impls s')"
    "fu_handles s' = fu_handles s"
proof (cases n)
  case NF_make
  then obtain s1 where new: "new_impl No_cancel None s = (c, s1)" and s': "s' = s1\<lparr>fu_makers := c # fu_makers s1\<rparr>"
    using assms by (auto split: prod.splits)
  show ?thesis
  proof (rule that)
    show "fresh s s' {#c#}"
      using new_impl_result [OF new] by (simp add: fresh_def s')
    show "heap_targets s' = heap_targets s + {#c#}"
      using heap_targets_new [OF new] by (simp add: s' heap_targets_def)
  qed (use new_impl_result [OF new] in \<open>simp_all add: s'\<close>)
next
  case (NF_existing c')
  then show ?thesis
    using assms by (intro that [of "{#}"]) (auto simp: add_ref_def heap_targets_same split: if_splits)
next
  case (NF_ready r)
  then have new: "new_impl No_cancel (Some r) s = (c, s')"
    using assms by simp
  then show ?thesis
    using new_impl_result [OF new] heap_targets_new [OF new] by (intro that [of "{#}"]) auto
qed

text \<open>The steps of \<open>futureConverter\<close> when its future still exists.\<close>

lemma futureConverter_steps:
  assumes "futureConverter g b r s = Some (new, s')" and "im_refs (impl s b) \<noteq> 0"
  obtains c s1 d s2 as2 where "generated_future (g r) (add_ref b s) = Some (c, s1)"
    and "new_impl (Extend_lifetime c) None (add_ref c s1) = (d, s2)"
    and "addChain c (Maker_wrapper b d) s2 = Some (as2, s')"
    and "new = as2 @ [Update_cancel b d, Drop d, Drop c, Drop b]"
  using assms by (auto simp: futureConverter_def split: option.splits prod.splits)

lemma addChain_length: "addChain f k s = Some (as, s') \<Longrightarrow> length (fu_impls s') = length (fu_impls s) \<and> fu_handles s' = fu_handles s"
  by (auto simp: addChain_def split: if_splits option.splits)

lemma fresh_extend:
  assumes "fresh s s1 F" "length (fu_impls s1) \<le> d" "d < length (fu_impls s')" "im_result (impl s' d) = None"
    and "length (fu_impls s) \<le> length (fu_impls s1)"
    and "\<And>f. f < length (fu_impls s1) \<Longrightarrow> keeps f s1 s'"
  shows "fresh s s' (add_mset d F)"
  unfolding fresh_def
proof (intro conjI allI ballI)
  fix f
  have "f \<in># F \<Longrightarrow> f < length (fu_impls s1)" for f
    using assms(1) by (simp add: fresh_def)
  then have "d \<notin># F"
    using assms(2) by fastforce
  then show "count (add_mset d F) f \<le> 1"
    using assms(1) by (auto simp: fresh_def not_in_iff)
next
  fix f
  assume "f \<in># add_mset d F"
  then show "length (fu_impls s) \<le> f" "f < length (fu_impls s')" "im_result (impl s' f) = None"
    using assms by (auto simp: fresh_def keeps_def)
qed

lemma futureConverter_targets:
  assumes "futureConverter g b r s = Some (new, s')"
  obtains F where "fresh s s' F" "sum_list (map action_targets new) + heap_targets s' \<subseteq># {#b#} + heap_targets s + F"
proof (cases "im_refs (impl s b) = 0")
  case True
  then show ?thesis
    using assms by (intro that [of "{#}"]) (auto simp: futureConverter_def)
next
  case False
  obtain c s1 d s2 as2 where g: "generated_future (g r) (add_ref b s) = Some (c, s1)"
    and d: "new_impl (Extend_lifetime c) None (add_ref c s1) = (d, s2)"
    and k: "addChain c (Maker_wrapper b d) s2 = Some (as2, s')"
    and new: "new = as2 @ [Update_cancel b d, Drop d, Drop c, Drop b]"
    using futureConverter_steps [OF assms False] .
  obtain F where F: "fresh (add_ref b s) s1 F" "heap_targets s1 = heap_targets s + F"
    "length (fu_impls s) \<le> length (fu_impls s1)"
    using generated_targets [OF g] by (auto simp: add_ref_def heap_targets_same)
  have d': "d = length (fu_impls s1)" "d < length (fu_impls s')" "im_result (impl s2 d) = None"
    using new_impl_result [OF d] addChain_length [OF k] by (simp_all add: add_ref_def)
  have "keeps f s1 s'" if "f < length (fu_impls s1)" for f
    using that frame_add_ref [OF generated_weight(2) [OF g]] frame_new_impl [OF d, of f] frame_addChain [OF k]
    by (metis add_ref_def alter_simps(1) frame_trans)
  then have "fresh s s' (add_mset d F)"
    using fresh_extend [of s s1 F d s'] F d' frame_addChain [OF k, of d] by (auto simp: fresh_def keeps_def add_ref_def)
  moreover have "sum_list (map action_targets new) + heap_targets s' \<subseteq># {#b#} + heap_targets s + add_mset d F"
    using addChain_targets [OF k] heap_targets_new [OF d] F(2) by (simp add: new ac_simps)
  ultimately show ?thesis
    using that by blast
qed

lemma updateCancel_targets:
  "updateCancel b d s = Some (new, s') \<Longrightarrow> sum_list (map action_targets new) + heap_targets s' = heap_targets s"
  by (auto simp: updateCancel_def heap_targets_same split: if_splits cancel_func.splits)

lemma act_targets:
  assumes "act a s = Some (new, s')"
  obtains F where "fresh s s' F"
    "sum_list (map action_targets new) + heap_targets s' + spent a s s' \<subseteq># action_targets a + heap_targets s + F"
  using assms
proof (induction a s rule: act.induct)
  case (1 f r s)
  then show ?case
    using made_targets [of f r s new s'] fresh_empty by fastforce
next
  case (4 b h r s)
  then show ?case
    using futureConverter_targets [of h b r s new s'] by auto
next
  case (6 f s)
  then show ?case
    using drop_targets [of f s new s'] fresh_empty by fastforce
next
  case (7 b d s)
  then show ?case
    using updateCancel_targets [of b d s new s'] fresh_empty by fastforce
qed (use fresh_empty in \<open>fastforce simp: heap_targets_same\<close>)+


lemma act_result:
  assumes "act a s = Some (new, s')" and "f < length (fu_impls s)"
  shows "im_result (impl s' f) = im_result (impl s f) \<or> (\<exists>r. a = Made f r \<and> im_refs (impl s f) \<noteq> 0)"
  using act_frame [OF assms] by (auto simp: keeps_def)

lemma act_length: "act a s = Some (new, s') \<Longrightarrow> length (fu_impls s) \<le> length (fu_impls s')"
  using act_frame [of a s new s' 0] by (cases "fu_impls s = []") (auto simp: keeps_def drop_ref_def destroy_impl_def Let_def split: if_splits cancel_func.splits)

lemma act_targets_all:
  assumes "act a s = Some (new, s')"
  obtains F where "fresh s s' F" "targets (new @ as) s' + spent a s s' \<subseteq># targets (a # as) s + F"
proof -
  obtain F where F: "fresh s s' F"
    "sum_list (map action_targets new) + heap_targets s' + spent a s s' \<subseteq># action_targets a + heap_targets s + F"
    using act_targets [OF assms] .
  show ?thesis
  proof (rule that [OF F(1)])
    have "sum_list (map action_targets as) + (sum_list (map action_targets new) + heap_targets s' + spent a s s') \<subseteq>#
        sum_list (map action_targets as) + (action_targets a + heap_targets s + F)"
      using F(2) by (simp only: subset_mset.add_le_cancel_left)
    then show "targets (new @ as) s' + spent a s s' \<subseteq># targets (a # as) s + F"
      by (simp add: targets_def ac_simps)
  qed
qed

lemma act_target_left:
  assumes "act a s = Some (new, s')" "single_makers (a # as) s" "f \<in># targets (new @ as) s'" "f < length (fu_impls s)"
  shows "f \<in># targets (a # as) s" "f \<notin># spent a s s'"
proof -
  obtain F where F: "fresh s s' F" "targets (new @ as) s' + spent a s s' \<subseteq># targets (a # as) s + F"
    using act_targets_all [OF assms(1)] .
  have "count F f = 0"
    using F(1) assms(4) by (force simp: fresh_def count_eq_zero_iff)
  then have "count (targets (new @ as) s') f + count (spent a s s') f \<le> count (targets (a # as) s) f"
    using mset_subset_eq_count [OF F(2), of f] by simp
  moreover have "count (targets (a # as) s) f \<le> 1" "count (targets (new @ as) s') f > 0"
    using assms(2,3) by (auto simp: single_makers_def)
  ultimately show "f \<in># targets (a # as) s" "f \<notin># spent a s s'"
    by (auto simp: count_greater_zero_iff [symmetric] simp del: count_greater_zero_iff)
qed

lemma single_makers_act:
  assumes act: "act a s = Some (new, s')" and inv: "single_makers (a # as) s"
  shows "single_makers (new @ as) s'"
  unfolding single_makers_def
proof (intro conjI allI ballI)
  obtain F where F: "fresh s s' F" "targets (new @ as) s' + spent a s s' \<subseteq># targets (a # as) s + F"
    using act_targets_all [OF act] .
  have old: "f < length (fu_impls s)" if "f \<in># targets (a # as) s" for f
    using inv that by (simp add: single_makers_def)
  fix f
  have le: "count (targets (new @ as) s') f \<le> count (targets (a # as) s) f + count F f"
    using mset_subset_eq_count [OF F(2), of f] by simp
  moreover have "count (targets (a # as) s) f = 0 \<or> count F f = 0"
    using old [of f] F(1) by (force simp: fresh_def count_eq_zero_iff)
  moreover have "count (targets (a # as) s) f \<le> 1" "count F f \<le> 1"
    using inv F(1) by (simp_all add: single_makers_def fresh_def)
  ultimately show "count (targets (new @ as) s') f \<le> 1"
    by auto
  assume f: "f \<in># targets (new @ as) s'"
  have "f < length (fu_impls s') \<and> im_result (impl s' f) = None"
  proof (cases "f < length (fu_impls s)")
    case True
    then have "f \<in># targets (a # as) s" "f \<notin># spent a s s'"
      using act_target_left [OF act inv f] by auto
    then show ?thesis
      using act_result [OF act True] act_length [OF act] inv True by (auto simp: single_makers_def)
  next
    case False
    then have "f \<in># F"
      using le f old [of f] by (metis add_0 count_eq_zero_iff le_zero_eq)
    then show ?thesis
      using F(1) by (simp add: fresh_def)
  qed
  then show "f < length (fu_impls s')" "im_result (impl s' f) = None" by auto
qed

lemma single_makers_unique:
  assumes "single_makers (a # as) s" "f \<in># action_targets a"
  shows "f \<notin># targets as s"
proof -
  have "count (action_targets a) f + count (targets as s) f \<le> 1"
    using assms(1) by (simp add: single_makers_def targets_Cons)
  then show ?thesis
    using assms(2) by (auto simp: count_greater_zero_iff [symmetric] simp del: count_greater_zero_iff)
qed

lemma single_makers_none:
  "single_makers as s \<Longrightarrow> f \<in># targets as s \<Longrightarrow> im_result (impl s f) = None"
  by (simp add: single_makers_def)

lemma in_sum_list: "f \<in># sum_list (map w xs) \<longleftrightarrow> (\<exists>x \<in> set xs. f \<in># w x)"
  by (induction xs) auto

lemma chain_in_targets:
  assumes "k \<in> set (im_chain (impl s p))" "c \<in># chained_targets k"
  shows "c \<in># targets as s" "c \<in># chain_targets (impl s p)"
proof -
  show *: "c \<in># chain_targets (impl s p)"
    using assms by (auto simp: chain_targets_def in_sum_list)
  have "p < length (fu_impls s)"
    using assms(1) by (auto simp: impl_def split: if_splits)
  then show "c \<in># targets as s"
    using * nth_mem [of p "fu_impls s"] by (auto simp: targets_def heap_targets_def in_sum_list impl_def)
qed

lemma action_in_targets: "a \<in> set as \<Longrightarrow> c \<in># action_targets a \<Longrightarrow> c \<in># targets as s"
  by (auto simp: targets_def in_sum_list)


section \<open>A chained future follows its parent\<close>

text \<open>Between a future \<open>p\<close> and one of the futures \<open>c\<close> resolved by a member \<open>K\<close> of its chain, with what \<open>K\<close> makes of
  the result: nobody waits for \<open>c\<close>; or both are unresolved; or \<open>p\<close> is resolved and the call that resolves \<open>c\<close> is still
  to come; or both are resolved.\<close>

definition waiting :: "'v chained \<Rightarrow> fut \<Rightarrow> fut \<Rightarrow> 'v action list \<Rightarrow> 'v futures \<Rightarrow> bool" where
  "waiting K p c as s \<longleftrightarrow>
     im_result (impl s p) = None \<and> im_result (impl s c) = None \<and>
     (K \<in> set (im_chain (impl s p)) \<or> im_refs (impl s p) = 0 \<and> c \<notin># targets as s)"

definition due :: "'v chained \<Rightarrow> fut \<Rightarrow> fut \<Rightarrow> 'v action list \<Rightarrow> 'v futures \<Rightarrow> bool" where
  "due K p c as s \<longleftrightarrow> (\<exists>r. im_result (impl s p) = Some r \<and> im_result (impl s c) = None \<and> Call K r \<in> set as)"

definition link ::
  "'v chained \<Rightarrow> fut \<Rightarrow> fut \<Rightarrow> ('v Result \<Rightarrow> 'v Result) \<Rightarrow> 'v action list \<Rightarrow> 'v futures \<Rightarrow> bool" where
  "link K p c F as s \<longleftrightarrow>
     p < length (fu_impls s) \<and> c < length (fu_impls s) \<and>
     (im_refs (impl s c) = 0 \<or> waiting K p c as s \<or> due K p c as s \<or>
      (\<exists>r. im_result (impl s p) = Some r \<and> im_result (impl s c) = None \<and> Made c (F r) \<in> set as) \<or>
      (\<exists>r. im_result (impl s p) = Some r \<and> im_result (impl s c) = Some (F r)))"

text \<open>\<open>K\<close> resolves \<open>c\<close> with \<open>F\<close> of the result it is called with.\<close>

fun resolves :: "'v chained \<Rightarrow> fut \<Rightarrow> ('v Result \<Rightarrow> 'v Result) \<Rightarrow> bool" where
  "resolves (Converter b h) c F \<longleftrightarrow> c = b \<and> F = h"
| "resolves (Maker_wrapper b d) c F \<longleftrightarrow> c = b \<and> F = id"
| "resolves (Future_converter b g) c F \<longleftrightarrow> False"

lemma resolves_targets: "resolves K c F \<Longrightarrow> c \<in># chained_targets K"
  by (cases K) auto

lemma resolves_call: "resolves K c F \<Longrightarrow> act (Call K r) s = Some (new, s') \<Longrightarrow> Made c (F r) \<in> set new \<and> s' = s"
  by (cases K) auto

lemma act_unused:
  assumes act: "act a s = Some (new, s')" and f: "f < length (fu_impls s)" and inv: "single_makers (a # as) s"
    and "im_result (impl s f) \<noteq> None \<or> f \<in># targets as s"
  shows "im_result (impl s' f) = im_result (impl s f)"
proof (rule ccontr)
  assume "im_result (impl s' f) \<noteq> im_result (impl s f)"
  then obtain r where "a = Made f r"
    using act_result [OF act f] by auto
  then have "f \<in># action_targets a" by simp
  then show False
    using assms(4) single_makers_unique [OF inv] single_makers_none [OF inv, of f] by (auto simp: targets_Cons)
qed

lemma act_dead: "act a s = Some (new, s') \<Longrightarrow> f < length (fu_impls s) \<Longrightarrow> im_refs (impl s f) = 0 \<Longrightarrow> im_refs (impl s' f) = 0"
  using act_frame [of a s new s' f] by (auto simp: keeps_def)

lemma waiting_act:
  assumes act: "act a s = Some (new, s')" and inv: "single_makers (a # as) s"
    and pc: "p < length (fu_impls s)" "c < length (fu_impls s)" and K: "c \<in># chained_targets K"
    and waiting: "waiting K p c (a # as) s"
  shows "waiting K p c (new @ as) s' \<or> due K p c (new @ as) s'"
proof (cases "K \<in> set (im_chain (impl s p))")
  case False
  then have "im_result (impl s' p) = None" "im_result (impl s' c) = None" "im_refs (impl s' p) = 0"
    using act_result [OF act pc(1)] act_result [OF act pc(2)] act_dead [OF act pc(1)] waiting
    by (auto simp: waiting_def targets_Cons)
  moreover have "c \<notin># targets (new @ as) s'"
    using act_target_left(1) [OF act inv _ pc(2)] waiting False by (auto simp: waiting_def)
  ultimately show ?thesis
    by (simp add: waiting_def)
next
  case chain: True
  have none: "im_result (impl s p) = None" "im_result (impl s c) = None"
    using waiting by (auto simp: waiting_def)
  have c_in: "c \<in># heap_targets s" "c \<in># chain_targets (impl s p)"
    using chain_in_targets(1) [OF chain K, of "[]"] chain_in_targets(2) [OF chain K] by (auto simp: targets_def)
  then have "c \<in># targets as s"
    by (simp add: targets_def)
  then have c: "im_result (impl s' c) = None"
    using act_unused [OF act pc(2) inv] none(2) by simp
  from act_frame [OF act pc(1)] consider "keeps p s s'"
    | r where "a = Made p r" "im_result (impl s' p) = Some r" "\<forall>k \<in> set (im_chain (impl s p)). Call k r \<in> set new"
    | "a = Drop p" "im_refs (impl s' p) = 0" "im_result (impl s' p) = im_result (impl s p)"
    by (elim disjE exE conjE; blast)
  then show ?thesis
  proof cases
    case 1
    then show ?thesis
      using chain none(1) c by (auto simp: waiting_def keeps_def)
  next
    case (2 r)
    then show ?thesis
      using chain c by (auto simp: due_def)
  next
    case 3
    show ?thesis
    proof (cases "im_refs (impl s p) = 0")
      case True
      then have "s' = s" "new = []"
        using act 3(1) by (simp_all add: drop_ref_def)
      then show ?thesis
        using chain none by (auto simp: waiting_def)
    next
      case False
      then have "c \<in># spent a s s'"
        using 3 c_in(2) by simp
      then have "c \<notin># targets (new @ as) s'"
        using act_target_left(2) [OF act inv _ pc(2)] by blast
      then show ?thesis
        using 3 none(1) c by (auto simp: waiting_def)
    qed
  qed
qed

lemma link_calling:
  assumes act: "act a s = Some (new, s')" and inv: "single_makers (a # as) s" and K: "resolves K c F"
    and pc: "p < length (fu_impls s)" "c < length (fu_impls s)"
    and res: "im_result (impl s p) = Some r" "im_result (impl s c) = None"
    and todo: "Call K r \<in> set (a # as) \<or> Made c (F r) \<in> set (a # as)"
  shows "link K p c F (new @ as) s'"
proof -
  have len: "p < length (fu_impls s')" "c < length (fu_impls s')" and p: "im_result (impl s' p) = Some r"
    using pc act_length [OF act] act_unused [OF act pc(1) inv] res(1) by auto
  show ?thesis
  proof (cases "Call K r \<in> set as \<or> Made c (F r) \<in> set as")
    case True
    then have "c \<in># targets as s"
      using resolves_targets [OF K] action_in_targets [of "Call K r" as c s] action_in_targets [of "Made c (F r)" as c s] by auto
    then show ?thesis
      using True act_unused [OF act pc(2) inv] res(2) p len by (auto simp: link_def due_def)
  next
    case False
    then consider "a = Call K r" | "a = Made c (F r)"
      using todo by auto
    then show ?thesis
    proof cases
      case 1
      then show ?thesis
        using resolves_call [OF K, of r s new s'] act res len by (auto simp: link_def due_def)
    next
      case 2
      then show ?thesis
        using act p len by (auto simp: link_def due_def made_def split: if_splits)
    qed
  qed
qed

lemma link_act:
  assumes act: "act a s = Some (new, s')" and inv: "single_makers (a # as) s" and K: "resolves K c F"
    and link: "link K p c F (a # as) s"
  shows "link K p c F (new @ as) s'"
proof -
  have pc: "p < length (fu_impls s)" "c < length (fu_impls s)"
    using link by (auto simp: link_def)
  have len: "p < length (fu_impls s')" "c < length (fu_impls s')"
    using pc act_length [OF act] by auto
  from link consider "im_refs (impl s c) = 0" | "waiting K p c (a # as) s"
    | r where "im_result (impl s p) = Some r" "im_result (impl s c) = None" "Call K r \<in> set (a # as) \<or> Made c (F r) \<in> set (a # as)"
    | r where "im_result (impl s p) = Some r" "im_result (impl s c) = Some (F r)"
    unfolding link_def due_def by (elim conjE disjE exE; blast)
  then show ?thesis
  proof cases
    case 1
    then show ?thesis
      using act_dead [OF act pc(2)] len by (simp add: link_def)
  next
    case 2
    then show ?thesis
      using waiting_act [OF act inv pc resolves_targets [OF K]] len by (auto simp: link_def)
  next
    case (3 r)
    then show ?thesis
      using link_calling [OF act inv K pc] by blast
  next
    case (4 r)
    then show ?thesis
      using act_unused [OF act pc(1) inv] act_unused [OF act pc(2) inv] len by (simp add: link_def)
  qed
qed

end
