(* ===== verification/Future_Laws.thy ===== *)
theory Future_Laws
  imports Future_Makers
begin

text \<open>
  What futures promise, in every sequence of operations: blocks live as long as something points to them, chained
  futures follow the ones they come from, cancel functions are called for futures that are given up, and nothing blocks
  as long as \<open>thenFuture\<close> is not used. The laws are instances of one locale, \<open>future_law\<close>.
\<close>

section \<open>Blocks exist as long as something points to them\<close>

text \<open>The pointers to a block: futures, the cancel function of a chained future, and those that running calls will drop.\<close>

definition owner :: "'v impl \<Rightarrow> fut multiset" where
  "owner b = (if im_refs b = 0 then {#} else case im_cancelFunc b of Extend_lifetime p \<Rightarrow> {#p#} | _ \<Rightarrow> {#})"

definition owners :: "'v futures \<Rightarrow> fut multiset" where
  "owners s = sum_list (map owner (fu_impls s))"

fun dropped :: "'v action \<Rightarrow> fut multiset" where
  "dropped (Drop f) = {#f#}"
| "dropped _ = {#}"

definition pointers :: "'v action list \<Rightarrow> 'v futures \<Rightarrow> fut multiset" where
  "pointers as s = mset (fu_handles s) + owners s + sum_list (map dropped as)"

definition counted :: "'v action list \<Rightarrow> 'v futures \<Rightarrow> bool" where
  "counted as s \<longleftrightarrow> (\<forall>f. im_refs (impl s f) = count (pointers as s) f)"

lemma owners_alter:
  "f < length (fu_impls s) \<Longrightarrow> owners (alter f h s) + owner (impl s f) = owners s + owner (h (impl s f))"
  using sum_list_map_update [of f "fu_impls s" owner "h (fu_impls s ! f)"] by (simp add: owners_def alter_def impl_def)

lemma owners_same:
  assumes "owner (h (impl s f)) = owner (impl s f)"
  shows "owners (alter f h s) = owners s"
proof (cases "f < length (fu_impls s)")
  case True
  then show ?thesis
    using owners_alter [OF True, of h] assms by simp
qed (simp add: alter_outside)

lemma owners_record [simp]:
  "owners (s\<lparr>fu_handles := hs\<rparr>) = owners s" "owners (s\<lparr>fu_makers := ms\<rparr>) = owners s"
  "owners (s\<lparr>fu_cancelled := cs\<rparr>) = owners s"
  by (simp_all add: owners_def)

lemma owners_add_ref: "im_refs (impl s f) > 0 \<Longrightarrow> owners (add_ref f s) = owners s"
  unfolding add_ref_def by (rule owners_same) (simp add: owner_def)

lemma owners_new: "new_impl cf r s = (f, s') \<Longrightarrow> owners s' = owners s + (case cf of Extend_lifetime p \<Rightarrow> {#p#} | _ \<Rightarrow> {#})"
  by (auto simp: new_impl_def owners_def owner_def)

lemma addChain_pointers:
  assumes "addChain f k s = Some (as, s')"
  shows "owners s' = owners s" "fu_handles s' = fu_handles s" "sum_list (map dropped as) = {#}"
    "im_refs (impl s' g) = im_refs (impl s g)"
  using assms by (auto simp: addChain_def owner_def split: if_splits option.splits intro!: owners_same)

lemma counted_step:
  assumes "counted as s" and "pointers bs s' = pointers as s + new"
    and "\<And>f. im_refs (impl s' f) = im_refs (impl s f) + count new f"
  shows "counted bs s'"
  using assms by (simp add: counted_def)

lemma add_ref_refs: "im_refs (impl s g) > 0 \<Longrightarrow> im_refs (impl (add_ref g s) f) = im_refs (impl s f) + count {#g#} f"
  using impl_alive [of s g] by (simp add: add_ref_def)

lemma new_impl_refs: "new_impl cf r s = (g, s') \<Longrightarrow> im_refs (impl s' f) = im_refs (impl s f) + count {#g#} f"
  using new_impl_result(1) [of cf r s g s'] new_impl_result(5) [of cf r s g s' f] by (auto simp: impl_def)

lemma generated_pointers:
  assumes "generated_future n s = Some (c, s')"
  shows "owners s' = owners s" "fu_handles s' = fu_handles s" "im_refs (impl s' f) = im_refs (impl s f) + count {#c#} f"
proof -
  have "owners s' = owners s \<and> fu_handles s' = fu_handles s \<and> im_refs (impl s' f) = im_refs (impl s f) + count {#c#} f"
  proof (cases n)
    case (NF_existing c')
    then show ?thesis
      using assms add_ref_refs [of s c f] owners_add_ref [of s c] by (auto simp: add_ref_def split: if_splits)
  next
    case (NF_ready r)
    then have new: "new_impl No_cancel (Some r) s = (c, s')"
      using assms by simp
    show ?thesis
      using new_impl_refs [OF new] owners_new [OF new] new_impl_result [OF new] by simp
  next
    case NF_make
    then obtain s1 where new: "new_impl No_cancel None s = (c, s1)" and s': "s' = s1\<lparr>fu_makers := c # fu_makers s1\<rparr>"
      using assms by (auto split: prod.splits)
    show ?thesis
      using new_impl_refs [OF new] owners_new [OF new] new_impl_result [OF new] by (simp add: s')
  qed
  then show "owners s' = owners s" "fu_handles s' = fu_handles s" "im_refs (impl s' f) = im_refs (impl s f) + count {#c#} f"
    by auto
qed

lemma futureConverter_counted:
  assumes "futureConverter g b r s = Some (new, s')" and "counted as s"
  shows "counted (new @ as) s'"
proof (cases "im_refs (impl s b) = 0")
  case True
  then show ?thesis
    using assms by (simp add: futureConverter_def)
next
  case False
  obtain c s1 d s2 as2 where g: "generated_future (g r) (add_ref b s) = Some (c, s1)"
    and d: "new_impl (Extend_lifetime c) None (add_ref c s1) = (d, s2)"
    and k: "addChain c (Maker_wrapper b d) s2 = Some (as2, s')"
    and new: "new = as2 @ [Update_cancel b d, Drop d, Drop c, Drop b]"
    using futureConverter_steps [OF assms(1) False] .
  have c: "im_refs (impl s1 c) > 0"
    using generated_weight(2) [OF g] .
  have own: "owners s' = owners s + {#c#}" "fu_handles s' = fu_handles s"
    using addChain_pointers [OF k] owners_new [OF d] owners_add_ref [OF c] generated_pointers [OF g] owners_add_ref [of s b]
      new_impl_result [OF d] False by (simp_all add: add_ref_def)
  show ?thesis
  proof (rule counted_step [OF assms(2)])
    show "pointers (new @ as) s' = pointers as s + {#b, c, c, d#}"
      using addChain_pointers [OF k] own by (simp add: pointers_def new ac_simps)
    show "im_refs (impl s' f) = im_refs (impl s f) + count {#b, c, c, d#} f" for f
      using addChain_pointers(4) [OF k, of f] new_impl_refs [OF d, of f] add_ref_refs [OF c, of f]
        generated_pointers(3) [OF g, of f] add_ref_refs [of s b f] False by simp
  qed
qed


lemma counted_Cons: "dropped a = {#} \<Longrightarrow> counted (a # as) s = counted as s"
  by (simp add: counted_def pointers_def)

lemma made_counted:
  assumes "made f r s = Some (new, s')" and "counted as s"
  shows "counted (new @ as) s'"
proof (cases "im_refs (impl s f) = 0")
  case True
  then show ?thesis
    using assms by (simp add: made_def)
next
  case False
  let ?h = "\<lambda>b. b\<lparr>im_refs := im_refs b + 1, im_result := Some r, im_chain := [], im_locked := True\<rparr>"
  have s': "new = map (\<lambda>k. Call k r) (im_chain (impl s f)) @ [Unlock f, Drop f]" "s' = alter f ?h s"
    using assms False by (auto simp: made_def split: if_splits)
  show ?thesis
  proof (rule counted_step [OF assms(2)])
    have "owners s' = owners s"
      unfolding s' by (rule owners_same) (use False in \<open>simp add: owner_def\<close>)
    then show "pointers (new @ as) s' = pointers as s + {#f#}"
      by (simp add: pointers_def s' comp_def)
    show "im_refs (impl s' g) = im_refs (impl s g) + count {#f#} g" for g
      using False impl_alive [of s f] by (simp add: s')
  qed
qed

lemma drop_counted:
  assumes "drop_ref f s = (new, s')" and "counted (Drop f # as) s"
  shows "counted (new @ as) s'"
proof -
  have pos: "im_refs (impl s f) > 0"
    using assms(2) by (simp add: counted_def pointers_def)
  then have f: "f < length (fu_impls s)"
    by (rule impl_alive)
  have "pointers (new @ as) s' + {#f#} = pointers (Drop f # as) s \<and>
      (\<forall>g. im_refs (impl s' g) + count {#f#} g = im_refs (impl s g))"
  proof (cases "im_refs (impl s f) = 1")
    case False
    have "owners (alter f (\<lambda>b. b\<lparr>im_refs := im_refs b - 1\<rparr>) s) = owners s"
      by (rule owners_same) (use False pos in \<open>simp add: owner_def\<close>)
    then show ?thesis
      using False pos f assms(1) by (auto simp: drop_ref_def pointers_def)
  next
    case True
    let ?s = "alter f (\<lambda>b. b\<lparr>im_refs := 0, im_chain := []\<rparr>) s"
    have "owners ?s + owner (impl s f) = owners s"
      using owners_alter [OF f, of "\<lambda>b. b\<lparr>im_refs := 0, im_chain := []\<rparr>"] by (simp add: owner_def)
    moreover have "sum_list (map dropped new) = owner (impl s f)" "owners s' = owners ?s" "fu_handles s' = fu_handles s"
      "\<And>g. im_refs (impl s' g) = im_refs (impl ?s g)"
      using True assms(1)
      by (auto simp: drop_ref_def destroy_impl_def Let_def owner_def split: cancel_func.splits if_splits)
    ultimately show ?thesis
      using True f by (auto simp: pointers_def)
  qed
  then have "im_refs (impl s' g) = count (pointers (new @ as) s') g" for g
    using assms(2) unfolding counted_def by (metis add_right_cancel count_union)
  then show ?thesis
    by (simp add: counted_def)
qed

lemma updateCancel_counted:
  assumes "updateCancel b d s = Some (new, s')" and "counted as s"
  shows "counted (new @ as) s'"
proof -
  let ?h = "\<lambda>i. i\<lparr>im_cancelFunc := Extend_lifetime d\<rparr>"
  have live: "im_refs (impl s b) > 0" "im_refs (impl s d) > 0" and s': "s' = alter b ?h (add_ref d s)"
    and new: "new = (case im_cancelFunc (impl s b) of Extend_lifetime p \<Rightarrow> [Drop p] | _ \<Rightarrow> [])"
    using assms(1) by (auto simp: updateCancel_def split: if_splits)
  have b: "b < length (fu_impls (add_ref d s))"
    using impl_alive [OF live(1)] by (simp add: add_ref_def)
  have "owner (impl (add_ref d s) b) = owner (impl s b)" "owner (?h (impl (add_ref d s) b)) = {#d#}"
    using live by (auto simp: add_ref_def owner_def)
  then have own: "owners s' + owner (impl s b) = owners s + {#d#}"
    using owners_alter [OF b, of ?h] owners_add_ref [OF live(2)] by (simp add: s')
  show ?thesis
  proof (rule counted_step [OF assms(2)])
    have "sum_list (map dropped new) = owner (impl s b)"
      using live by (simp add: new owner_def split: cancel_func.split)
    then show "pointers (new @ as) s' = pointers as s + {#d#}"
      using own by (simp add: pointers_def s' add_ref_def)
    show "im_refs (impl s' f) = im_refs (impl s f) + count {#d#} f" for f
      using add_ref_refs [OF live(2), of f] by (cases "f = b") (auto simp: s')
  qed
qed

lemma counted_act:
  assumes "act a s = Some (new, s')" and "counted (a # as) s"
  shows "counted (new @ as) s'"
  using assms
proof (induction a s rule: act.induct)
  case (1 f r s)
  then show ?case
    by (auto intro: made_counted simp: counted_Cons)
next
  case (4 b h r s)
  then show ?case
    by (auto intro: futureConverter_counted simp: counted_Cons)
next
  case (5 f s)
  have "owners (alter f (\<lambda>b. b\<lparr>im_locked := False\<rparr>) s) = owners s"
    by (rule owners_same) (simp add: owner_def)
  then show ?case
    using 5 by (auto simp: counted_def pointers_def)
next
  case (6 f s)
  then show ?case
    by (auto intro: drop_counted)
next
  case (7 b d s)
  then show ?case
    by (auto intro: updateCancel_counted simp: counted_Cons)
qed (auto simp: counted_def pointers_def)


section \<open>Operations\<close>

text \<open>What holds between operations, when nothing is left to run.\<close>

definition sound :: "'v action list \<Rightarrow> 'v futures \<Rightarrow> bool" where
  "sound as s \<longleftrightarrow> single_makers as s \<and> counted as s"

lemma sound_act: "act a s = Some (new, s') \<Longrightarrow> sound (a # as) s \<Longrightarrow> sound (new @ as) s'"
  by (auto simp: sound_def intro: single_makers_act counted_act)

lemma sound_handle: "sound as s \<Longrightarrow> f \<in> set (fu_handles s) \<Longrightarrow> im_refs (impl s f) > 0"
  by (auto simp: sound_def counted_def pointers_def count_greater_zero_iff [symmetric] simp del: count_greater_zero_iff)

lemma sound_none: "sound [] no_futures"
  by (simp add: sound_def single_makers_def counted_def targets_def pointers_def heap_targets_def owners_def no_futures_def impl_def)

lemma settle_invariant:
  assumes "run_actions as s = Some s'" and "I as s"
    and "\<And>a as s new s'. act a s = Some (new, s') \<Longrightarrow> I (a # as) s \<Longrightarrow> I (new @ as) s'"
  shows "I [] s'"
  using assms(1,2)
proof (induction as s rule: run_actions.induct)
  case (2 a as s)
  then obtain new s1 where "act a s = Some (new, s1)" "run_actions (new @ as) s1 = Some s'"
    by (auto split: option.splits)
  then show ?case
    using 2 assms(3) by simp
qed simp

text \<open>How an operation starts: it leaves the blocks there are alone, and the makers and the calls of \<open>updateCancel\<close> to
  come are those there were, with new ones for new blocks.\<close>

definition updated :: "fut \<Rightarrow> 'v action list \<Rightarrow> 'v futures \<Rightarrow> bool" where
  "updated f as s \<longleftrightarrow>
     (\<exists>d. Update_cancel f d \<in> set as) \<or> (\<exists>g r. Call (Future_converter f g) r \<in> set as) \<or>
     (\<exists>p g. Future_converter f g \<in> set (im_chain (impl s p)))"

definition steady :: "fut \<Rightarrow> 'v futures \<Rightarrow> 'v futures \<Rightarrow> bool" where
  "steady f s s' \<longleftrightarrow>
     im_cancelFunc (impl s' f) = im_cancelFunc (impl s f) \<and> (im_refs (impl s' f) = 0 \<longrightarrow> im_refs (impl s f) = 0)"

definition begun :: "'v futures \<Rightarrow> 'v action list \<Rightarrow> 'v futures \<Rightarrow> bool" where
  "begun s as s' \<longleftrightarrow>
     fu_cancelled s' = fu_cancelled s \<and>
     (\<forall>f < length (fu_impls s). keeps f s s' \<and> steady f s s' \<and> (f \<in># targets as s' \<longrightarrow> f \<in># targets [] s) \<and>
       (updated f as s' \<longrightarrow> updated f [] s))"

text \<open>A law of the futures: it stays true while actions run, and when the next operation starts.\<close>

locale future_law =
  fixes law :: "'v action list \<Rightarrow> 'v futures \<Rightarrow> bool"
  assumes law_act: "act a s = Some (new, s') \<Longrightarrow> single_makers (a # as) s \<Longrightarrow> law (a # as) s \<Longrightarrow> law (new @ as) s'"
    and law_begun: "law [] s \<Longrightarrow> begun s as s' \<Longrightarrow> law as s'"
begin

lemma law_settle:
  assumes "run_actions as s = Some s'" "sound as s" "law as s"
  shows "law [] s'"
proof -
  have "sound [] s' \<and> law [] s'"
    by (rule settle_invariant [OF assms(1), of "\<lambda>as s. sound as s \<and> law as s"])
      (use assms in \<open>auto simp: sound_def intro: single_makers_act counted_act law_act\<close>)
  then show ?thesis by simp
qed

end

lemma sound_settle: "run_actions as s = Some s' \<Longrightarrow> sound as s \<Longrightarrow> sound [] s'"
  by (rule settle_invariant) (auto intro: sound_act)

lemma begun_refl: "begun s [] s"
  by (simp add: begun_def steady_def)

lemma single_makers_new:
  assumes "single_makers [] s" and "targets as s' = targets [] s + F" and "fresh s s' F"
    and "\<And>f. f < length (fu_impls s) \<Longrightarrow> keeps f s s'"
  shows "single_makers as s'"
proof -
  have "count (targets [] s) f = 0 \<or> count F f = 0" for f
    using assms(1,3) by (force simp: single_makers_def fresh_def count_eq_zero_iff)
  moreover have "count (targets [] s) f \<le> 1" "count F f \<le> 1" for f
    using assms(1,3) by (simp_all add: single_makers_def fresh_def)
  ultimately have "count (targets as s') f \<le> 1" for f
    unfolding assms(2) by (metis add.right_neutral add_0 count_union)
  moreover have "f < length (fu_impls s') \<and> im_result (impl s' f) = None" if "f \<in># targets as s'" for f
    using that assms by (fastforce simp: single_makers_def fresh_def keeps_def)
  ultimately show ?thesis
    by (simp add: single_makers_def)
qed

lemma begun_new:
  assumes "targets as s' = targets [] s + F" and "fresh s s' F"
    and "\<And>f. f < length (fu_impls s) \<Longrightarrow> keeps f s s'" and "fu_cancelled s' = fu_cancelled s"
    and "\<And>f. f < length (fu_impls s) \<Longrightarrow> steady f s s' \<and> (updated f as s' \<longrightarrow> updated f [] s)"
  shows "begun s as s'"
  using assms by (auto simp: begun_def fresh_def)


lemma addChain_targets_eq:
  assumes "addChain f k s = Some (as, s')" and f: "f < length (fu_impls s)"
  shows "sum_list (map action_targets as) + heap_targets s' = chained_targets k + heap_targets s"
  using assms heap_targets_alter [OF f, of "\<lambda>b. b\<lparr>im_chain := im_chain b @ [k]\<rparr>"]
  by (auto simp: addChain_def heap_targets_same chain_targets_def split: if_splits option.splits)

lemma updated_record [simp]:
  "updated f as (s\<lparr>fu_makers := ms\<rparr>) = updated f as s" "updated f as (s\<lparr>fu_cancelled := cs\<rparr>) = updated f as s"
  "updated f as (s\<lparr>fu_handles := hs\<rparr>) = updated f as s"
  by (simp_all add: updated_def)

lemma updated_add_ref: "updated f as (add_ref g s) \<Longrightarrow> updated f as s"
  by (auto simp: updated_def add_ref_def split: if_splits)

lemma updated_new: "new_impl cf r s = (g, s') \<Longrightarrow> updated f as s' \<Longrightarrow> updated f as s"
  using new_impl_result(5) [of cf r s g s'] by (auto simp: updated_def split: if_splits)

lemma addChain_steady: "addChain f k s = Some (as, s') \<Longrightarrow> steady g s s'"
  by (auto simp: addChain_def steady_def split: if_splits option.splits)

lemma addChain_updated:
  "addChain f k s = Some (as, s') \<Longrightarrow> updated g as s' \<Longrightarrow> updated g [] s \<or> (\<exists>c. k = Future_converter g c)"
  by (auto simp: addChain_def updated_def split: if_splits option.splits)

text \<open>The steps of \<open>then\<close> and \<open>thenFuture\<close>.\<close>

lemma then_begin:
  assumes new: "new_impl (Extend_lifetime f) None (add_ref f s) = (b, s0)"
    and s1: "s1 = s0\<lparr>fu_handles := b # fu_handles s0\<rparr>" and chain: "addChain f (k b) s1 = Some (as, s')"
    and k: "chained_targets (k (length (fu_impls s))) = {#length (fu_impls s)#}"
    and inv: "sound [] s" and f: "f \<in> set (fu_handles s)"
  shows "b = length (fu_impls s)" "sound as s'" "begun s as s'" "b < length (fu_impls s')" "im_result (impl s1 b) = None"
    "f < length (fu_impls s1)" "im_result (impl s1 f) = im_result (impl s f)" "f \<noteq> b" "b \<in> set (fu_handles s')"
proof -
  have live: "im_refs (impl s f) > 0"
    using sound_handle [OF inv f] .
  have b: "b = length (fu_impls s)" and len: "length (fu_impls s1) = Suc b" "length (fu_impls s') = Suc b"
    and fb: "f \<noteq> b" "f < length (fu_impls s1)"
    using new_impl_result [OF new] addChain_length [OF chain] impl_alive [OF live] by (auto simp: s1 add_ref_def)
  have kept: "keeps g s s'" if "g < length (fu_impls s)" for g
  proof -
    have "keeps g s (add_ref f s)" "keeps g (add_ref f s) s0" "keeps g s0 s1"
      using frame_add_ref [OF live] frame_new_impl [OF new, of g] that by (auto simp: add_ref_def s1 keeps_def)
    then show ?thesis
      using frame_addChain [OF chain] frame_trans by blast
  qed
  have res_b: "im_result (impl s1 b) = None"
    using new_impl_result(5) [OF new, of b] by (auto simp: s1)
  have res_f: "im_result (impl s1 f) = im_result (impl s f)"
    using new_impl_result(5) [OF new, of f] fb by (auto simp: s1 add_ref_def)
  have "im_result (impl s' b) = None"
    using frame_addChain [OF chain, of b] res_b by (simp add: keeps_def)
  then have fresh: "fresh s s' {#b#}"
    using b len by (simp add: fresh_def)
  have targets: "targets as s' = targets [] s + {#b#}"
    using addChain_targets_eq [OF chain fb(2)] k heap_targets_new [OF new] b by (simp add: targets_def s1 ac_simps)
  have impl0: "impl s1 p = (if p = b then impl s1 b else impl (add_ref f s) p)" for p
    using new_impl_result(5) [OF new, of p] by (auto simp: s1)
  have steady: "steady g s s' \<and> (updated g as s' \<longrightarrow> updated g [] s)" if "g < length (fu_impls s)" for g
  proof
    show "steady g s s'"
      using that addChain_steady [OF chain, of g] impl0 [of g] b by (auto simp: steady_def add_ref_def)
    have "k b \<noteq> Future_converter g c" for c
      using k that b by auto
    then show "updated g as s' \<longrightarrow> updated g [] s"
      using addChain_updated [OF chain, of g] updated_new [OF new, of g "[]"] updated_add_ref [of g "[]" f s] by (auto simp: s1)
  qed
  have cancelled: "fu_cancelled s' = fu_cancelled s"
    using chain new by (auto simp: addChain_def s1 new_impl_def add_ref_def split: if_splits option.splits)
  have "counted as s'"
  proof (rule counted_step)
    show "counted [] s" using inv by (simp add: sound_def)
    show "pointers as s' = pointers [] s + {#b, f#}"
      using addChain_pointers [OF chain] owners_new [OF new] owners_add_ref [OF live] new_impl_result [OF new]
      by (simp add: pointers_def s1 add_ref_def)
    show "im_refs (impl s' g) = im_refs (impl s g) + count {#b, f#} g" for g
      using addChain_pointers(4) [OF chain, of g] new_impl_refs [OF new, of g] add_ref_refs [OF live, of g] by (simp add: s1)
  qed
  then show "sound as s'"
    using single_makers_new [OF _ targets fresh kept] inv by (simp add: sound_def)
  show "b = length (fu_impls s)" "begun s as s'" "b < length (fu_impls s')" "im_result (impl s1 b) = None"
    "f < length (fu_impls s1)" "im_result (impl s1 f) = im_result (impl s f)" "f \<noteq> b" "b \<in> set (fu_handles s')"
    using b begun_new [OF targets fresh kept cancelled steady] len res_b fb res_f addChain_length [OF chain]
    by (simp_all add: s1)
qed

lemma then_chain_start:
  assumes run: "then_chain f k s = Some (b, s'')" and k: "chained_targets (k (length (fu_impls s))) = {#length (fu_impls s)#}"
    and inv: "sound [] s" and f: "f \<in> set (fu_handles s)"
  obtains as s1 s' where "b = length (fu_impls s)" "addChain f (k b) s1 = Some (as, s')" "run_actions as s' = Some s''"
    "sound as s'" "begun s as s'" "b < length (fu_impls s')" "im_result (impl s1 b) = None" "f < length (fu_impls s1)"
    "im_result (impl s1 f) = im_result (impl s f)" "f \<noteq> b" "b \<in> set (fu_handles s')"
proof -
  obtain s0 s1 as s' where new: "new_impl (Extend_lifetime f) None (add_ref f s) = (b, s0)"
    and s1: "s1 = s0\<lparr>fu_handles := b # fu_handles s0\<rparr>" and chain: "addChain f (k b) s1 = Some (as, s')"
    and run_actions: "run_actions as s' = Some s''"
    using run by (auto simp: then_chain_def split: prod.splits option.splits)
  show ?thesis
    using that [OF _ chain run_actions] then_begin [OF new s1 chain k inv f] by simp
qed

lemma future_step_start:
  assumes step: "future_step i s = Some s''" and inv: "sound [] s"
  obtains as s' where "run_actions as s' = Some s''" "sound as s'" "begun s as s'"
proof (cases i)
  case (Op_make c)
  then obtain f s1 where new: "new_impl c None s = (f, s1)" and c: "\<And>p. c \<noteq> Extend_lifetime p"
    and s'': "s'' = s1\<lparr>fu_handles := f # fu_handles s1, fu_makers := f # fu_makers s1\<rparr>"
    using step by (auto simp: Future_make_def split: cancel_func.splits prod.splits)
  have fresh: "fresh s s'' {#f#}" and targets: "targets [] s'' = targets [] s + {#f#}"
    using new_impl_result [OF new] heap_targets_new [OF new] by (auto simp: s'' fresh_def targets_def heap_targets_def)
  have kept: "keeps g s s''" if "g < length (fu_impls s)" for g
    using frame_new_impl [OF new that] by (simp add: s'' keeps_def)
  have steady: "steady g s s'' \<and> (updated g [] s'' \<longrightarrow> updated g [] s)" if "g < length (fu_impls s)" for g
    using that new_impl_result(1) [OF new] new_impl_result(5) [OF new]
    by (auto simp: steady_def updated_def s'' split: if_splits)
  have "counted [] s''"
  proof (rule counted_step)
    show "counted [] s" using inv by (simp add: sound_def)
    show "pointers [] s'' = pointers [] s + {#f#}"
      using owners_new [OF new] new_impl_result [OF new] c by (simp add: pointers_def s'' split: cancel_func.splits)
    show "im_refs (impl s'' g) = im_refs (impl s g) + count {#f#} g" for g
      using new_impl_refs [OF new, of g] by (simp add: s'')
  qed
  then show ?thesis
    using that [of "[]" s''] single_makers_new [OF _ targets fresh kept] begun_new [OF targets fresh kept _ steady] inv new
    by (auto simp: sound_def s'' new_impl_def)
next
  case (Op_then f h)
  then obtain b where "then_chain f (\<lambda>b. Converter b h) s = Some (b, s'')" "f \<in> set (fu_handles s)"
    using step by (auto simp: Future_then_def split: if_splits)
  then show ?thesis
    using then_chain_start [of f "\<lambda>b. Converter b h" s b s''] inv that by auto
next
  case (Op_thenFuture f h)
  then obtain b where "then_chain f (\<lambda>b. Future_converter b h) s = Some (b, s'')" "f \<in> set (fu_handles s)"
    using step by (auto simp: Future_thenFuture_def split: if_splits)
  then show ?thesis
    using then_chain_start [of f "\<lambda>b. Future_converter b h" s b s''] inv that by auto
next
  case (Op_maker f r)
  let ?s = "s\<lparr>fu_makers := remove1 f (fu_makers s)\<rparr>"
  have "run_actions [Made f r] ?s = Some s''" "f \<in> set (fu_makers s)"
    using step Op_maker by (auto simp: Future_maker_def split: if_splits)
  moreover from this have targets: "targets [Made f r] ?s = targets [] s"
    by (simp add: targets_def heap_targets_def)
  moreover have "counted [Made f r] ?s"
    using inv by (simp add: sound_def counted_def pointers_def)
  ultimately show ?thesis
    using that [of "[Made f r]" ?s] inv
    by (simp add: sound_def single_makers_def begun_def keeps_def steady_def updated_def)
next
  case (Op_copy f)
  then have s'': "s'' = Future_copy f s" and "f \<in> set (fu_handles s)"
    using step by (auto split: if_splits)
  then have live: "im_refs (impl s f) > 0"
    using sound_handle [OF inv] by blast
  have targets: "targets [] s'' = targets [] s + {#}"
    by (simp add: s'' Future_copy_def targets_def)
  have kept: "keeps g s s''" for g
    using frame_add_ref [OF live, of g] by (simp add: s'' Future_copy_def keeps_def)
  have steady: "steady g s s'' \<and> (updated g [] s'' \<longrightarrow> updated g [] s)" for g
    by (auto simp: s'' Future_copy_def add_ref_def steady_def updated_def)
  have "counted [] s''"
  proof (rule counted_step)
    show "counted [] s" using inv by (simp add: sound_def)
    show "pointers [] s'' = pointers [] s + {#f#}"
      using owners_add_ref [OF live] by (simp add: pointers_def s'' Future_copy_def)
    show "im_refs (impl s'' g) = im_refs (impl s g) + count {#f#} g" for g
      using add_ref_refs [OF live, of g] by (simp add: s'' Future_copy_def)
  qed
  then show ?thesis
    using that [of "[]" s''] single_makers_new [OF _ targets fresh_empty kept] begun_new [OF targets fresh_empty kept _ steady] inv
    by (simp add: sound_def s'' Future_copy_def add_ref_def)
next
  case (Op_destroy f)
  let ?s = "s\<lparr>fu_handles := remove1 f (fu_handles s)\<rparr>"
  have "run_actions [Drop f] ?s = Some s''" and f: "f \<in> set (fu_handles s)"
    using step Op_destroy by (auto simp: Future_destroy_def split: if_splits)
  moreover have "single_makers [Drop f] ?s"
    using inv by (simp add: sound_def single_makers_def targets_def)
  moreover have "pointers [Drop f] ?s = pointers [] s"
    using f by (simp add: pointers_def)
  then have "counted [Drop f] ?s"
    using inv by (simp add: sound_def counted_def)
  moreover have "begun s [Drop f] ?s"
    by (simp add: begun_def keeps_def targets_def steady_def updated_def)
  ultimately show ?thesis
    using that [of "[Drop f]" ?s] unfolding sound_def by blast
qed


context future_law
begin

lemma law_step: "future_step i s = Some s' \<Longrightarrow> sound [] s \<Longrightarrow> law [] s \<Longrightarrow> law [] s'"
  using future_step_start [of i s s'] law_begun law_settle by metis

end

lemma sound_step: "future_step i s = Some s' \<Longrightarrow> sound [] s \<Longrightarrow> sound [] s'"
  using future_step_start [of i s s'] sound_settle by metis

lemma sound_run: "future_run is s = Some s' \<Longrightarrow> sound [] s \<Longrightarrow> sound [] s'"
  by (induction "is" s rule: future_run.induct) (auto split: option.splits dest: sound_step)

context future_law
begin

lemma law_run: "future_run is s = Some s' \<Longrightarrow> sound [] s \<Longrightarrow> law [] s \<Longrightarrow> law [] s'"
  by (induction "is" s rule: future_run.induct) (auto split: option.splits dest: sound_step law_step)

end

lemma link_begun:
  assumes "link K p c F [] s" "begun s as s'"
  shows "link K p c F as s'"
proof -
  have pc: "p < length (fu_impls s)" "c < length (fu_impls s)"
    using assms(1) by (auto simp: link_def)
  then have "keeps p s s'" "keeps c s s'" "c \<in># targets as s' \<Longrightarrow> c \<in># targets [] s"
    using assms(2) by (auto simp: begun_def)
  then show ?thesis
    using assms(1) pc unfolding link_def keeps_def waiting_def due_def by fastforce
qed

text \<open>The law of \<open>then\<close>, and of the future that a function given to \<open>thenFuture\<close> has returned.\<close>

interpretation conv: future_law "link (Converter c h) p c h" for p c h
  by unfold_locales (auto intro: link_act link_begun)

interpretation wrap: future_law "link (Maker_wrapper c d) p c id" for p c d
  by unfold_locales (auto intro: link_act link_begun)

text \<open>The law of \<open>thenFuture\<close>: as \<^const>\<open>link\<close>, until the function has run; then the future it returned is what is
  followed.\<close>

definition returned :: "'v next_future \<Rightarrow> fut \<Rightarrow> 'v futures \<Rightarrow> bool" where
  "returned n c s \<longleftrightarrow>
     c < length (fu_impls s) \<and>
     (case n of NF_existing c' \<Rightarrow> c = c' | NF_ready r \<Rightarrow> im_result (impl s c) = Some r | NF_make \<Rightarrow> True)"

definition future_link :: "fut \<Rightarrow> fut \<Rightarrow> ('v Result \<Rightarrow> 'v next_future) \<Rightarrow> 'v action list \<Rightarrow> 'v futures \<Rightarrow> bool" where
  "future_link p b g as s \<longleftrightarrow>
     p < length (fu_impls s) \<and> b < length (fu_impls s) \<and>
     (im_refs (impl s b) = 0 \<or> waiting (Future_converter b g) p b as s \<or> due (Future_converter b g) p b as s \<or>
      (\<exists>r c d. im_result (impl s p) = Some r \<and> returned (g r) c s \<and> link (Maker_wrapper b d) c b id as s))"

lemma returned_act:
  assumes "act a s = Some (new, s')" "single_makers (a # as) s" "returned n c s"
  shows "returned n c s'"
proof -
  have c: "c < length (fu_impls s)"
    using assms(3) by (simp add: returned_def)
  show ?thesis
    using assms(3) act_length [OF assms(1)] act_unused [OF assms(1) c assms(2)] by (auto simp: returned_def split: next_future.splits)
qed

lemma returned_begun: "returned n c s \<Longrightarrow> begun s as s' \<Longrightarrow> returned n c s'"
  by (fastforce simp: returned_def begun_def keeps_def split: next_future.splits)


lemma returned_generated:
  assumes "generated_future n s = Some (c, s1)"
  shows "returned n c s1"
  using assms impl_alive [of s c] by (cases n) (auto simp: returned_def new_impl_def impl_def nth_append add_ref_def split: if_splits)

lemma returned_frame: "returned n c s \<Longrightarrow> keeps c s s' \<Longrightarrow> returned n c s'"
  by (auto simp: returned_def keeps_def split: next_future.splits)

text \<open>The call of the function.\<close>

lemma futureConverter_link:
  assumes run: "futureConverter g b r s = Some (new, s')" and live: "im_refs (impl s b) \<noteq> 0"
    and b: "im_result (impl s b) = None" and p: "p < length (fu_impls s)" "im_result (impl s p) = Some r"
  shows "future_link p b g (new @ as) s'"
proof -
  obtain c s1 d s2 as2 where g: "generated_future (g r) (add_ref b s) = Some (c, s1)"
    and d: "new_impl (Extend_lifetime c) None (add_ref c s1) = (d, s2)"
    and k: "addChain c (Maker_wrapper b d) s2 = Some (as2, s')"
    and new: "new = as2 @ [Update_cancel b d, Drop d, Drop c, Drop b]"
    using futureConverter_steps [OF run live] .
  have c: "im_refs (impl s1 c) > 0"
    using generated_weight(2) [OF g] .
  then have "c < length (fu_impls s1)" by (rule impl_alive)
  then have frame_c: "keeps c s1 s2"
    using frame_trans [OF frame_add_ref [OF c] frame_new_impl [OF d]] by (simp add: add_ref_def)
  have b_len: "b < length (fu_impls s)"
    using live impl_alive [of s b] by simp
  have kept: "keeps b s s'" "keeps p s s'"
    using frame_futureConverter [OF run] b_len p(1) by auto
  have len: "b < length (fu_impls s')" "p < length (fu_impls s')" "c < length (fu_impls s')"
    using kept b_len p(1) frame_c \<open>c < length (fu_impls s1)\<close> addChain_length [OF k] by (auto simp: keeps_def)
  have "returned (g r) c s'"
    using returned_generated [OF g] frame_c frame_addChain [OF k] by (blast intro: returned_frame)
  moreover have "waiting (Maker_wrapper b d) c b (new @ as) s' \<or> due (Maker_wrapper b d) c b (new @ as) s'"
    using k b kept(1) len(3) addChain_length [OF k]
    by (auto simp: addChain_def waiting_def due_def new keeps_def split: option.splits if_splits)
  ultimately show ?thesis
    using len kept(2) p(2) unfolding future_link_def link_def keeps_def by auto
qed

lemma future_link_act:
  assumes act: "act a s = Some (new, s')" and inv: "single_makers (a # as) s" and link: "future_link p b g (a # as) s"
  shows "future_link p b g (new @ as) s'"
proof -
  let ?K = "Future_converter b g"
  have pb: "p < length (fu_impls s)" "b < length (fu_impls s)"
    using link by (auto simp: future_link_def)
  have len: "p < length (fu_impls s')" "b < length (fu_impls s')"
    using pb act_length [OF act] by auto
  from link consider "im_refs (impl s b) = 0" | "waiting ?K p b (a # as) s" | "due ?K p b (a # as) s" "im_refs (impl s b) \<noteq> 0"
    | r c d where "im_result (impl s p) = Some r" "returned (g r) c s" "link (Maker_wrapper b d) c b id (a # as) s"
    unfolding future_link_def by (elim conjE disjE exE; blast)
  then show ?thesis
  proof cases
    case 1
    then show ?thesis
      using act_dead [OF act pb(2)] len by (simp add: future_link_def)
  next
    case 2
    then show ?thesis
      using waiting_act [OF act inv pb _ 2] len by (auto simp: future_link_def)
  next
    case 3
    then obtain r where r: "im_result (impl s p) = Some r" "im_result (impl s b) = None" "Call ?K r \<in> set (a # as)"
      by (auto simp: due_def)
    show ?thesis
    proof (cases "a = Call ?K r")
      case True
      then show ?thesis
        using futureConverter_link [of g b r s new s' p as] act r 3(2) pb by simp
    next
      case False
      then have "Call ?K r \<in> set as" using r(3) by simp
      then have "due ?K p b (new @ as) s'"
        using act_unused [OF act pb(1) inv] act_unused [OF act pb(2) inv] r(1,2) action_in_targets [of "Call ?K r" as b s]
        by (auto simp: due_def)
      then show ?thesis
        using len by (simp add: future_link_def)
    qed
  next
    case (4 r c d)
    then have "link (Maker_wrapper b d) c b id (new @ as) s'" "returned (g r) c s'"
      using link_act [OF act inv] returned_act [OF act inv] by auto
    then show ?thesis
      using act_unused [OF act pb(1) inv] 4(1) len unfolding future_link_def by auto
  qed
qed

lemma future_link_begun:
  assumes "future_link p b g [] s" "begun s as s'"
  shows "future_link p b g as s'"
proof -
  have pb: "p < length (fu_impls s)" "b < length (fu_impls s)"
    using assms(1) by (auto simp: future_link_def)
  then have fr: "keeps p s s'" "keeps b s s'" "b \<in># targets as s' \<Longrightarrow> b \<in># targets [] s"
    using assms(2) by (auto simp: begun_def)
  from assms(1) consider "im_refs (impl s b) = 0" | "waiting (Future_converter b g) p b [] s"
    | r c d where "im_result (impl s p) = Some r" "returned (g r) c s" "link (Maker_wrapper b d) c b id [] s"
    by (auto simp: future_link_def due_def)
  then show ?thesis
  proof cases
    case (3 r c d)
    then show ?thesis
      using link_begun [OF 3(3) assms(2)] returned_begun [OF 3(2) assms(2)] fr pb by (auto simp: future_link_def keeps_def)
  qed (use fr pb in \<open>auto simp: future_link_def keeps_def waiting_def\<close>)
qed

interpretation nxt: future_law "future_link p b g" for p b g
  by unfold_locales (auto intro: future_link_act future_link_begun)


section \<open>Properties\<close>

lemma then_link:
  assumes "sound [] s" and "f \<in> set (fu_handles s)" and "Future_then f h s = Some (b, s1)"
  shows "sound [] s1" "link (Converter b h) f b h [] s1"
proof -
  have run: "then_chain f (\<lambda>b. Converter b h) s = Some (b, s1)"
    using assms(3) by (simp add: Future_then_def)
  obtain as s0 s' where start: "addChain f (Converter b h) s0 = Some (as, s')" "run_actions as s' = Some s1" "sound as s'"
    "b < length (fu_impls s')" "im_result (impl s0 b) = None" "f < length (fu_impls s0)" "f \<noteq> b"
    by (rule then_chain_start [OF run _ assms(1,2)]) simp
  have "link (Converter b h) f b h as s'"
    using start by (auto simp: addChain_def link_def waiting_def due_def split: option.splits if_splits)
  then show "sound [] s1" "link (Converter b h) f b h [] s1"
    using sound_settle [OF start(2,3)] conv.law_settle [OF start(2,3)] by auto
qed

lemma thenFuture_link:
  assumes "sound [] s" and "f \<in> set (fu_handles s)" and "Future_thenFuture f g s = Some (b, s1)"
  shows "sound [] s1" "future_link f b g [] s1"
proof -
  have run: "then_chain f (\<lambda>b. Future_converter b g) s = Some (b, s1)"
    using assms(3) by (simp add: Future_thenFuture_def)
  obtain as s0 s' where start: "addChain f (Future_converter b g) s0 = Some (as, s')" "run_actions as s' = Some s1" "sound as s'"
    "b < length (fu_impls s')" "im_result (impl s0 b) = None" "f < length (fu_impls s0)" "f \<noteq> b"
    by (rule then_chain_start [OF run _ assms(1,2)]) simp
  have "future_link f b g as s'"
    using start by (auto simp: addChain_def future_link_def waiting_def due_def split: option.splits if_splits)
  then show "sound [] s1" "future_link f b g [] s1"
    using sound_settle [OF start(2,3)] nxt.law_settle [OF start(2,3)] by auto
qed

lemma link_settled:
  assumes "link K p c F [] s" and "im_refs (impl s c) > 0"
  shows "im_result (impl s c) = map_option F (im_result (impl s p))"
  using assms by (auto simp: link_def waiting_def due_def)

lemma future_link_settled:
  assumes "future_link p b g [] s" and "im_refs (impl s b) > 0"
  shows "case im_result (impl s p) of
    None \<Rightarrow> im_result (impl s b) = None
  | Some r \<Rightarrow> \<exists>c. returned (g r) c s \<and> im_result (impl s b) = im_result (impl s c)"
  using assms link_settled by (fastforce simp: future_link_def waiting_def due_def option.map_id)


text \<open>A future made by \<open>thenFuture\<close> follows the future that the function returns: as long as somebody holds it,
  it is unresolved while the first future is; once that has the result \<open>r\<close>, it has the result of the existing future
  that the function returned for \<open>r\<close>, of the future resolved at once, or of the new one.\<close>

theorem thenFuture_follows:
  assumes "future_run ops no_futures = Some s" and "f \<in> set (fu_handles s)" and "Future_thenFuture f g s = Some (b, s1)"
    and "future_run ops' s1 = Some s2" and "b \<in> set (fu_handles s2)"
  shows "case blockResult f s2 of
    None \<Rightarrow> blockResult b s2 = None
  | Some r \<Rightarrow>
      (case g r of
         NF_existing c \<Rightarrow> blockResult b s2 = blockResult c s2
       | NF_ready r' \<Rightarrow> blockResult b s2 = Some r'
       | NF_make \<Rightarrow> \<exists>c < length (fu_impls s2). blockResult b s2 = blockResult c s2)"
proof -
  have "sound [] s"
    using sound_run [OF assms(1) sound_none] .
  note link = thenFuture_link [OF this assms(2,3)]
  have "im_refs (impl s2 b) > 0"
    using sound_run [OF assms(4) link(1)] assms(5) by (auto dest: sound_handle)
  then show ?thesis
    unfolding blockResult_def using future_link_settled [OF nxt.law_run [OF assms(4) link]]
    by (auto simp: returned_def split: option.splits next_future.splits)
qed

text \<open>A control block exists exactly as long as something points to it: the count of its pointers is the number of
  futures that share it and of existing blocks whose cancel function extends its lifetime.\<close>

theorem block_lifetime:
  assumes "future_run ops no_futures = Some s"
  shows "im_refs (impl s f) =
    count (mset (fu_handles s)) f +
    length (filter (\<lambda>b. im_refs b > 0 \<and> im_cancelFunc b = Extend_lifetime f) (fu_impls s))"
proof -
  have "count (sum_list (map owner bs)) f = length (filter (\<lambda>b. im_refs b > 0 \<and> im_cancelFunc b = Extend_lifetime f) bs)"
    for bs :: "'a impl list"
    by (induction bs) (auto simp: owner_def split: cancel_func.splits)
  then show ?thesis
    using sound_run [OF assms sound_none] by (simp add: sound_def counted_def pointers_def owners_def)
qed


section \<open>Cancellation\<close>

lemma updated_generated:
  assumes "generated_future n s = Some (c, s')" "updated f as s'"
  shows "updated f as s"
proof (cases n)
  case (NF_existing c')
  then show ?thesis
    using assms updated_add_ref by (auto split: if_splits)
next
  case (NF_ready r)
  then show ?thesis
    using assms updated_new by auto
next
  case NF_make
  then show ?thesis
    using assms updated_new [of No_cancel None s] by (auto split: prod.splits)
qed

lemma futureConverter_updated:
  assumes run: "futureConverter g b r s = Some (new, s')" and "updated f (new @ as) s'"
  shows "updated f (Call (Future_converter b g) r # as) s"
proof (cases "im_refs (impl s b) = 0")
  case True
  then show ?thesis
    using assms by (auto simp: futureConverter_def updated_def)
next
  case False
  obtain c s1 d s2 as2 where g: "generated_future (g r) (add_ref b s) = Some (c, s1)"
    and d: "new_impl (Extend_lifetime c) None (add_ref c s1) = (d, s2)"
    and k: "addChain c (Maker_wrapper b d) s2 = Some (as2, s')"
    and new: "new = as2 @ [Update_cancel b d, Drop d, Drop c, Drop b]"
    using futureConverter_steps [OF run False] .
  have "updated f as2 s' \<Longrightarrow> updated f [] s"
    using addChain_updated [OF k] updated_new [OF d] updated_generated [OF g] updated_add_ref by blast
  moreover have "updated f as2 s' \<or> f = b \<or> updated f as s"
  proof -
    have "updated f (new @ as) s' \<longleftrightarrow> updated f as2 s' \<or> f = b \<or> (\<exists>d. Update_cancel f d \<in> set as) \<or>
        (\<exists>g r. Call (Future_converter f g) r \<in> set as)"
      by (auto simp: updated_def new)
    then show ?thesis
      using assms(2) by (auto simp: updated_def)
  qed
  moreover have "updated f [] s \<Longrightarrow> updated f as s" "updated f as s \<Longrightarrow> updated f (Call (Future_converter b g) r # as) s"
    "f = b \<Longrightarrow> updated f (Call (Future_converter b g) r # as) s"
    by (auto simp: updated_def)
  ultimately show ?thesis
    by blast
qed

lemma updated_act:
  assumes "act a s = Some (new, s')" "updated f (new @ as) s'"
  shows "updated f (a # as) s"
  using assms
proof (induction a s rule: act.induct)
  case (1 g r s)
  then show ?case
    by (fastforce simp: made_def updated_def split: if_splits)
next
  case (4 b h r s)
  then show ?case
    using futureConverter_updated by simp
next
  case (6 g s)
  then show ?case
    by (auto simp: drop_ref_def destroy_impl_def Let_def updated_def split: if_splits cancel_func.splits)
next
  case (7 b d s)
  then show ?case
    by (auto simp: updateCancel_def add_ref_def updated_def split: if_splits cancel_func.splits)
qed (auto simp: updated_def split: if_splits)

text \<open>A future made with a cancel function: it is called when the block is destroyed unresolved, and not again.\<close>

definition cancellable :: "fut \<Rightarrow> 'v action list \<Rightarrow> 'v futures \<Rightarrow> bool" where
  "cancellable f as s \<longleftrightarrow>
     f < length (fu_impls s) \<and> im_cancelFunc (impl s f) = Cancel \<and> \<not> updated f as s \<and>
     count (mset (fu_cancelled s)) f = (if im_refs (impl s f) = 0 \<and> im_result (impl s f) = None then 1 else 0)"

lemma addChain_cancelled: "addChain f k s = Some (as, s') \<Longrightarrow> fu_cancelled s' = fu_cancelled s"
  by (auto simp: addChain_def split: if_splits option.splits)

lemma futureConverter_steady:
  assumes run: "futureConverter g b r s = Some (new, s')" and f: "f < length (fu_impls s)"
  shows "steady f s s' \<and> fu_cancelled s' = fu_cancelled s"
proof (cases "im_refs (impl s b) = 0")
  case False
  obtain c s1 d s2 as2 where g: "generated_future (g r) (add_ref b s) = Some (c, s1)"
    and d: "new_impl (Extend_lifetime c) None (add_ref c s1) = (d, s2)"
    and k: "addChain c (Maker_wrapper b d) s2 = Some (as2, s')"
    and new: "new = as2 @ [Update_cancel b d, Drop d, Drop c, Drop b]"
    using futureConverter_steps [OF run False] .
  have add: "steady f t (add_ref h t)" "fu_cancelled (add_ref h t) = fu_cancelled t" for h and t :: "'a futures"
    by (auto simp: steady_def add_ref_def)
  have new: "steady f t t' \<and> fu_cancelled t' = fu_cancelled t \<and> f < length (fu_impls t')"
    if "new_impl cf x t = (h, t')" "f < length (fu_impls t)" for cf x t h and t' :: "'a futures"
    using that new_impl_result(5) [OF that(1), of f] by (auto simp: steady_def new_impl_def)
  have 1: "steady f (add_ref b s) s1 \<and> fu_cancelled s1 = fu_cancelled (add_ref b s) \<and> f < length (fu_impls s1)"
  proof (cases "g r")
    case (NF_existing c')
    then show ?thesis
      using g add f by (auto simp: add_ref_def split: if_splits)
  next
    case (NF_ready x)
    then show ?thesis
      using g new [of No_cancel "Some x" "add_ref b s"] f by (auto simp: add_ref_def)
  next
    case NF_make
    then show ?thesis
      using g new [of No_cancel None "add_ref b s"] f by (auto simp: add_ref_def steady_def split: prod.splits)
  qed
  then have "steady f (add_ref c s1) s2 \<and> fu_cancelled s2 = fu_cancelled (add_ref c s1)"
    using new [OF d] by (simp add: add_ref_def)
  then show ?thesis
    using 1 addChain_steady [OF k, of f] addChain_cancelled [OF k] add(1) [of s b] add(1) [of s1 c] add(2)
    by (auto simp: steady_def)
qed (use assms in \<open>simp add: futureConverter_def steady_def\<close>)

lemma drop_cancelled:
  assumes "drop_ref g s = (new, s')" "f < length (fu_impls s)"
  shows "im_cancelFunc (impl s' f) = im_cancelFunc (impl s f)" "im_result (impl s' f) = im_result (impl s f)"
    "im_refs (impl s' f) = (if f = g then im_refs (impl s f) - 1 else im_refs (impl s f))"
    "fu_cancelled s' = fu_cancelled s @
       (if im_refs (impl s g) = 1 \<and> im_cancelFunc (impl s g) = Cancel \<and> im_result (impl s g) = None then [g] else [])"
  using assms by (auto simp: drop_ref_def destroy_impl_def Let_def split: if_splits cancel_func.splits)

lemma cancellable_act:
  assumes act: "act a s = Some (new, s')" and inv: "single_makers (a # as) s" and law: "cancellable f (a # as) s"
  shows "cancellable f (new @ as) s'"
proof -
  have f: "f < length (fu_impls s)" "f < length (fu_impls s')" "\<not> updated f (new @ as) s'"
    using law act_length [OF act] updated_act [OF act] by (auto simp: cancellable_def)
  have "im_cancelFunc (impl s' f) = Cancel \<and>
    count (mset (fu_cancelled s')) f = (if im_refs (impl s' f) = 0 \<and> im_result (impl s' f) = None then 1 else 0)"
    using act law inv f(1)
  proof (induction a s rule: act.induct)
    case (1 g r s)
    then show ?case
      by (auto simp: made_def cancellable_def split: if_splits)
  next
    case (4 b h r s)
    then show ?case
      using futureConverter_steady [of h b r s new s' f] frame_futureConverter [of h b r s new s' f]
      by (auto simp: cancellable_def steady_def keeps_def)
  next
    case (6 g s)
    then show ?case
      using drop_cancelled [of g s new s' f] by (auto simp: cancellable_def split: if_splits)
  next
    case (7 b d s)
    then show ?case
      by (auto simp: updateCancel_def add_ref_def cancellable_def updated_def split: if_splits)
  qed (auto simp: cancellable_def split: if_splits)
  then show ?thesis
    using f by (simp add: cancellable_def)
qed

interpretation canc: future_law "cancellable f" for f
proof unfold_locales
  fix s s' :: "'a futures" and as
  assume law: "cancellable f [] s" and begun: "begun s as s'"
  have f: "f < length (fu_impls s)"
    using law by (simp add: cancellable_def)
  have "keeps f s s'" "steady f s s'" "updated f as s' \<longrightarrow> updated f [] s" "fu_cancelled s' = fu_cancelled s"
    using begun f by (simp_all add: begun_def)
  moreover from this have "f < length (fu_impls s')" "im_refs (impl s' f) = 0 \<longleftrightarrow> im_refs (impl s f) = 0"
    using f by (auto simp: keeps_def steady_def)
  ultimately show "cancellable f as s'"
    using law unfolding cancellable_def steady_def keeps_def by simp
qed (rule cancellable_act)


text \<open>Only blocks that exist are cancelled.\<close>

definition cancelled_known :: "'v action list \<Rightarrow> 'v futures \<Rightarrow> bool" where
  "cancelled_known as s \<longleftrightarrow> (\<forall>g \<in> set (fu_cancelled s). g < length (fu_impls s))"

lemma act_cancelled:
  assumes "act a s = Some (new, s')" and "g \<in> set (fu_cancelled s')"
  shows "g \<in> set (fu_cancelled s) \<or> g < length (fu_impls s)"
  using assms
proof (induction a s rule: act.induct)
  case (1 f r s)
  then show ?case
    by (auto simp: made_def split: if_splits)
next
  case (4 b h r s)
  then show ?case
    using futureConverter_steady [of h b r s new s' b] impl_alive [of s b]
    by (cases "im_refs (impl s b) = 0") (auto simp: futureConverter_def)
next
  case (6 f s)
  then show ?case
    using impl_alive [of s f]
    by (auto simp: drop_ref_def destroy_impl_def Let_def split: if_splits cancel_func.splits)
next
  case (7 b d s)
  then show ?case
    by (auto simp: updateCancel_def add_ref_def split: if_splits)
qed auto

interpretation known: future_law cancelled_known
proof unfold_locales
  fix a s new s' and as :: "'a action list"
  assume act: "act a s = Some (new, s')" and "cancelled_known (a # as) s"
  then show "cancelled_known (new @ as) s'"
    using act_cancelled [OF act] act_length [OF act] by (fastforce simp: cancelled_known_def)
next
  fix s s' :: "'a futures" and as
  assume "cancelled_known [] s" "begun s as s'"
  then show "cancelled_known as s'"
    by (fastforce simp: cancelled_known_def begun_def keeps_def)
qed

lemma updated_known:
  assumes "sound [] s" "updated g [] s"
  shows "g < length (fu_impls s)"
proof -
  obtain p h where "Future_converter g h \<in> set (im_chain (impl s p))"
    using assms(2) by (auto simp: updated_def)
  then have "g \<in># targets [] s"
    using chain_in_targets(1) by fastforce
  then show ?thesis
    using assms(1) by (simp add: sound_def single_makers_def)
qed

lemma cancellable_made:
  assumes run: "future_run ops no_futures = Some s" and make: "Future_make Cancel s = (f, s1)"
  shows "cancellable f [] s1" "sound [] s1"
proof -
  have sound: "sound [] s" and known: "cancelled_known [] s"
    using sound_run [OF run sound_none] known.law_run [OF run sound_none] by (auto simp: cancelled_known_def no_futures_def)
  obtain s0 where new: "new_impl Cancel None s = (f, s0)"
    and s1: "s1 = s0\<lparr>fu_handles := f # fu_handles s0, fu_makers := f # fu_makers s0\<rparr>"
    using make by (auto simp: Future_make_def split: prod.splits)
  have "\<not> updated f [] s1"
    using updated_known [OF sound, of f] updated_new [OF new, of f "[]"] new_impl_result(1) [OF new] by (auto simp: s1)
  moreover have "fu_cancelled s1 = fu_cancelled s"
    using new by (auto simp: s1 new_impl_def)
  moreover have "f \<notin> set (fu_cancelled s)"
    using known new_impl_result(1) [OF new] by (auto simp: cancelled_known_def)
  ultimately show "cancellable f [] s1"
    using new_impl_result [OF new] by (simp add: cancellable_def s1 count_mset_0_iff)
  have "future_step (Op_make Cancel) s = Some s1"
    using make by simp
  then show "sound [] s1"
    using sound sound_step by blast
qed



section \<open>Locks\<close>

text \<open>A block is locked only after its result is set and until the call that locked it ends. Without \<open>thenFuture\<close>
  nothing else is locked meanwhile, so nothing blocks.\<close>

definition unblocked :: "'v action list \<Rightarrow> 'v futures \<Rightarrow> bool" where
  "unblocked as s \<longleftrightarrow>
     (\<forall>f. im_locked (impl s f) \<longrightarrow> Unlock f \<in> set as \<and> im_result (impl s f) \<noteq> None) \<and> (\<forall>f. \<not> updated f as s)"

lemma unblocked_made:
  assumes "unblocked (Made f r # as) s" and "single_makers (Made f r # as) s"
  shows "\<exists>new s'. made f r s = Some (new, s') \<and> unblocked (new @ as) s'"
proof (cases "im_refs (impl s f) = 0")
  case True
  then show ?thesis
    using assms by (auto simp: made_def unblocked_def updated_def)
next
  case False
  have "im_result (impl s f) = None"
    using single_makers_none [OF assms(2), of f] by (simp add: targets_Cons)
  then have "\<not> im_locked (impl s f)"
    using assms(1) by (auto simp: unblocked_def)
  then obtain new s' where made: "made f r s = Some (new, s')"
    using False by (auto simp: made_def)
  have "\<not> updated g (new @ as) s'" for g
    using updated_act [of "Made f r" s new s' g as] made assms(1) by (auto simp: unblocked_def)
  moreover have "im_locked (impl s' g) \<longrightarrow> Unlock g \<in> set (new @ as) \<and> im_result (impl s' g) \<noteq> None" for g
    using made False assms(1) impl_alive [of s f] by (auto simp: made_def unblocked_def split: if_splits)
  ultimately show ?thesis
    using made by (auto simp: unblocked_def)
qed

lemma unblocked_act:
  assumes "unblocked (a # as) s" and "single_makers (a # as) s"
  shows "\<exists>new s'. act a s = Some (new, s') \<and> unblocked (new @ as) s'"
  using assms
proof (induction a s rule: act.induct)
  case (1 f r s)
  then show ?case
    using unblocked_made by simp
next
  case (4 b h r s)
  then have "\<not> updated b (Call (Future_converter b h) r # as) s"
    by (simp add: unblocked_def)
  then show ?case
    by (metis list.set_intros(1) updated_def)
next
  case (5 f s)
  moreover have "im_locked (impl s f) \<Longrightarrow> f < length (fu_impls s)"
    by (auto simp: impl_def split: if_splits)
  ultimately show ?case
    by (auto simp: unblocked_def updated_def split: if_splits)
next
  case (6 f s)
  obtain new s' where drop: "drop_ref f s = (new, s')" by fastforce
  have "im_locked (impl s' g) = im_locked (impl s g)" "im_result (impl s' g) = im_result (impl s g)" for g
    using drop by (auto simp: drop_ref_def destroy_impl_def Let_def split: if_splits cancel_func.splits)
  then show ?case
    using drop 6 updated_act [of "Drop f" s new s' _ as] by (auto simp: unblocked_def)
next
  case (7 b d s)
  then have "\<not> updated b (Update_cancel b d # as) s"
    by (simp add: unblocked_def)
  then show ?case
    by (metis list.set_intros(1) updated_def)
qed (auto simp: unblocked_def updated_def)

lemma unblocked_settle: "unblocked as s \<Longrightarrow> sound as s \<Longrightarrow> \<exists>s'. run_actions as s = Some s' \<and> unblocked [] s'"
proof (induction as s rule: run_actions.induct)
  case (2 a as s)
  then obtain new s' where "act a s = Some (new, s')" "unblocked (new @ as) s'"
    using unblocked_act [of a as s] by (auto simp: sound_def)
  then show ?case
    using 2 sound_act [of a s new s' as] by auto
qed simp

fun plain :: "'v future_op \<Rightarrow> bool" where
  "plain (Op_thenFuture _ _) \<longleftrightarrow> False"
| "plain _ \<longleftrightarrow> True"

fun enabled :: "'v future_op \<Rightarrow> 'v futures \<Rightarrow> bool" where
  "enabled (Op_make c) s \<longleftrightarrow> (\<forall>p. c \<noteq> Extend_lifetime p)"
| "enabled (Op_maker f _) s \<longleftrightarrow> f \<in> set (fu_makers s)"
| "enabled (Op_then f _) s \<longleftrightarrow> f \<in> set (fu_handles s)"
| "enabled (Op_thenFuture f _) s \<longleftrightarrow> f \<in> set (fu_handles s)"
| "enabled (Op_copy f) s \<longleftrightarrow> f \<in> set (fu_handles s)"
| "enabled (Op_destroy f) s \<longleftrightarrow> f \<in> set (fu_handles s)"

lemma unblocked_idle: "unblocked [] s \<Longrightarrow> \<not> im_locked (impl s f)"
  by (simp add: unblocked_def)

lemma then_unblocked:
  assumes "unblocked [] s" "sound [] s" "f \<in> set (fu_handles s)"
  shows "\<exists>b s'. Future_then f h s = Some (b, s') \<and> unblocked [] s'"
proof -
  let ?b = "length (fu_impls s)"
  obtain s0 where new: "new_impl (Extend_lifetime f) None (add_ref f s) = (?b, s0)"
    by (cases "new_impl (Extend_lifetime f) None (add_ref f s)") (auto simp: new_impl_def add_ref_def)
  let ?s1 = "s0\<lparr>fu_handles := ?b # fu_handles s0\<rparr>"
  have quiet: "\<not> im_locked (impl ?s1 g)" "\<not> updated g [] ?s1" for g
    using new_impl_result(5) [OF new, of g] updated_new [OF new, of g "[]"] updated_add_ref [of g "[]" f s] assms(1)
    by (auto simp: add_ref_def unblocked_def)
  then obtain as s' where chain: "addChain f (Converter ?b h) ?s1 = Some (as, s')"
    unfolding addChain_def by (metis (no_types, lifting) old.prod.exhaust option.exhaust option.simps(4) option.simps(5))
  have "unblocked as s'"
    using chain quiet addChain_updated [OF chain] by (auto simp: unblocked_def addChain_def split: option.splits if_splits)
  moreover have "run_actions as s' = Some s'' \<Longrightarrow> then_chain f (\<lambda>b. Converter b h) s = Some (?b, s'')" for s''
    using new chain by (simp add: then_chain_def)
  moreover have "sound as s'"
    using then_begin(2) [where k = "\<lambda>b. Converter b h", OF new refl chain _ assms(2,3)] by simp
  ultimately show ?thesis
    using unblocked_settle [of as s'] by (auto simp: Future_then_def)
qed


lemma step_unblocked:
  assumes "unblocked [] s" "sound [] s" "enabled i s" "plain i"
  shows "\<exists>s'. future_step i s = Some s' \<and> unblocked [] s'"
proof (cases i)
  case (Op_make c)
  let ?s = "snd (Future_make c s)"
  obtain f s0 where new: "new_impl c None s = (f, s0)" by fastforce
  have "unblocked [] ?s"
    using assms(1) updated_new [OF new, where as = "[]"] new_impl_result(5) [OF new] new
    by (auto simp: unblocked_def Future_make_def)
  then show ?thesis
    using Op_make assms(3) by (auto split: cancel_func.splits)
next
  case (Op_then f h)
  then show ?thesis
    using then_unblocked [OF assms(1,2), of f h] assms(3) by auto
next
  case (Op_maker f r)
  let ?s = "s\<lparr>fu_makers := remove1 f (fu_makers s)\<rparr>"
  have "sound [Made f r] ?s"
    using Op_maker assms(2,3)
    by (simp add: sound_def single_makers_def counted_def targets_def heap_targets_def pointers_def)
  moreover have "unblocked [Made f r] ?s"
    using assms(1) by (auto simp: unblocked_def updated_def)
  ultimately show ?thesis
    using Op_maker assms(3) unblocked_settle by (auto simp: Future_maker_def simp del: run_actions.simps)
next
  case (Op_copy f)
  then show ?thesis
    using assms(1,3) updated_add_ref [of _ "[]" f s] by (auto simp: Future_copy_def unblocked_def add_ref_def)
next
  case (Op_destroy f)
  let ?s = "s\<lparr>fu_handles := remove1 f (fu_handles s)\<rparr>"
  have "sound [Drop f] ?s"
    using Op_destroy assms(2,3) by (simp add: sound_def single_makers_def counted_def targets_def pointers_def)
  moreover have "unblocked [Drop f] ?s"
    using assms(1) by (auto simp: unblocked_def updated_def)
  ultimately show ?thesis
    using Op_destroy assms(3) unblocked_settle by (auto simp: Future_destroy_def simp del: run_actions.simps)
qed (use assms(4) in simp)

lemma run_unblocked:
  "future_run ops s = Some s' \<Longrightarrow> list_all plain ops \<Longrightarrow> unblocked [] s \<Longrightarrow> sound [] s \<Longrightarrow> unblocked [] s'"
proof (induction ops s rule: future_run.induct)
  case (2 i ops s)
  then obtain s1 where step: "future_step i s = Some s1" and run: "future_run ops s1 = Some s'"
    by (auto split: option.splits)
  have "enabled i s"
    using step by (cases i) (auto split: if_splits cancel_func.splits)
  then have "unblocked [] s1"
    using step_unblocked [of s i] 2 step by auto
  then show ?case
    using 2 step run sound_step [OF step] by simp
qed simp

text \<open>Without \<open>thenFuture\<close> nothing blocks on a mutex: whatever futures there are, making one, chaining with
  \<open>then\<close>, resolving, copying and destroying return, with every chained function called and every block unlocked.\<close>

theorem then_never_blocks:
  assumes "future_run ops no_futures = Some s" and "list_all plain ops" and "plain i" and "enabled i s"
  shows "\<exists>s'. future_step i s = Some s' \<and> (\<forall>f. \<not> im_locked (impl s' f))"
proof -
  have "unblocked [] (no_futures :: 'a futures)"
    by (simp add: unblocked_def updated_def no_futures_def impl_def)
  then have "unblocked [] s"
    using run_unblocked [OF assms(1,2)] sound_none by simp
  then show ?thesis
    using step_unblocked [of s i] sound_run [OF assms(1) sound_none] assms(3,4) unblocked_idle by blast
qed


text \<open>The functions of a chain run with the mutex of their future locked: one that returns that future blocks.\<close>

lemma self_addChain:
  assumes "g r = NF_existing f" and "im_locked (impl s f)" "im_refs (impl s f) > 0" "im_refs (impl s b) > 0"
  shows "futureConverter g b r s = None"
proof -
  have "im_locked (impl (add_ref g s) f) \<and> im_refs (impl (add_ref g s) f) > 0"
    if "im_locked (impl s f)" "im_refs (impl s f) > 0" for g and s :: "'a futures"
    using that by (auto simp: add_ref_def)
  then have *: "im_locked (impl (add_ref f (add_ref f (add_ref b s))) f)" "im_refs (impl (add_ref b s) f) > 0"
    using assms(2,3) by blast+
  obtain d s2 where new: "new_impl (Extend_lifetime f) None (add_ref f (add_ref f (add_ref b s))) = (d, s2)" by fastforce
  have "f < length (fu_impls s)" "d = length (fu_impls s)"
    using impl_alive [OF assms(3)] new_impl_result(1) [OF new] by (auto simp: add_ref_def)
  then have "im_locked (impl s2 f)"
    using new_impl_result(5) [OF new, of f] *(1) by simp
  then show ?thesis
    using assms *(2) new by (simp add: futureConverter_def addChain_def)
qed

text \<open>A function given to \<open>thenFuture\<close> that returns the very future it is chained to blocks for ever: at once
  if the future is resolved, as \<open>addChain\<close> calls it with the mutex locked.\<close>

theorem self_thenFuture_blocks:
  assumes "future_run ops no_futures = Some s" and "f \<in> set (fu_handles s)" and "blockResult f s = Some r"
    and "g r = NF_existing f"
  shows "Future_thenFuture f g s = None"
proof (rule ccontr)
  assume "Future_thenFuture f g s \<noteq> None"
  then obtain b s'' where run: "then_chain f (\<lambda>b. Future_converter b g) s = Some (b, s'')"
    by (auto simp: Future_thenFuture_def)
  have inv: "sound [] s"
    using sound_run [OF assms(1) sound_none] .
  obtain as s1 s' where chain: "addChain f (Future_converter b g) s1 = Some (as, s')"
    and run_actions: "run_actions as s' = Some s''" and sound: "sound as s'"
    and b: "b = length (fu_impls s)" "im_result (impl s1 f) = im_result (impl s f)" "begun s as s'" "f < length (fu_impls s1)"
      "b \<in> set (fu_handles s')"
    by (rule then_chain_start [OF run _ inv assms(2)]) simp
  have as: "as = [Call (Future_converter b g) r, Unlock f]" and locked: "im_locked (impl s' f)"
    using chain b(2,4) assms(3) by (auto simp: addChain_def blockResult_def split: if_splits)
  have live: "im_refs (impl s f) > 0"
    using sound_handle [OF inv assms(2)] .
  then have "steady f s s'"
    using b(3) impl_alive by (auto simp: begun_def)
  then have "im_refs (impl s' f) > 0"
    using live by (auto simp: steady_def)
  moreover have "im_refs (impl s' b) > 0"
    using sound_handle [OF sound b(5)] .
  ultimately have "act (Call (Future_converter b g) r) s' = None"
    using self_addChain [of g r f s' b] assms(4) locked by simp
  then show False
    using run_actions as by simp
qed


section \<open>Witnesses\<close>

lemmas run_simps =
  no_futures_def Future_make_def new_impl_def Future_then_def Future_thenFuture_def then_chain_def addChain_def add_ref_def
  alter_def impl_def Future_maker_def Future_destroy_def made_def futureConverter_def updateCancel_def drop_ref_def
  destroy_impl_def Let_def blockResult_def Future_copy_def

definition sample_h :: "nat Result \<Rightarrow> nat Result" where
  "sample_h r = r\<lparr>rs_value := map_option Suc (rs_value r)\<rparr>"

lemma sample_then:
  "\<exists>s s1 s2. future_run [Op_make No_cancel] (no_futures :: nat futures) = Some s \<and> 0 \<in> set (fu_handles s) \<and>
     Future_then 0 sample_h s = Some (1, s1) \<and>
     future_run [Op_destroy 0, Op_maker 0 (Result_of 3)] s1 = Some s2 \<and> 1 \<in> set (fu_handles s2) \<and>
     blockResult 0 s2 = Some (Result_of 3)"
  by (simp add: run_simps)



definition sample_next :: "nat Result \<Rightarrow> nat next_future" where
  "sample_next r = NF_existing 1"

lemma sample_thenFuture:
  "\<exists>s s1 s2. future_run [Op_make No_cancel, Op_make No_cancel] (no_futures :: nat futures) = Some s \<and> 0 \<in> set (fu_handles s) \<and>
     Future_thenFuture 0 sample_next s = Some (2, s1) \<and>
     future_run [Op_maker 0 (Result_of 3), Op_maker 1 (Result_of 5)] s1 = Some s2 \<and> 2 \<in> set (fu_handles s2) \<and>
     blockResult 0 s2 = Some (Result_of 3) \<and> blockResult 1 s2 = Some (Result_of 5)"
  by (simp add: run_simps sample_next_def)

theorem thenFuture_follows_witness:
  "\<exists>s s1 s2. future_run [Op_make No_cancel, Op_make No_cancel] (no_futures :: nat futures) = Some s \<and>
     Future_thenFuture 0 sample_next s = Some (2, s1) \<and>
     future_run [Op_maker 0 (Result_of 3), Op_maker 1 (Result_of 5)] s1 = Some s2 \<and> blockResult 2 s2 = Some (Result_of 5)"
proof -
  obtain s s1 s2 where run: "future_run [Op_make No_cancel, Op_make No_cancel] (no_futures :: nat futures) = Some s"
    "0 \<in> set (fu_handles s)" "Future_thenFuture 0 sample_next s = Some (2, s1)"
    "future_run [Op_maker 0 (Result_of 3), Op_maker 1 (Result_of 5)] s1 = Some s2" "2 \<in> set (fu_handles s2)"
    and res: "blockResult 0 s2 = Some (Result_of 3)" "blockResult 1 s2 = Some (Result_of 5)"
    using sample_thenFuture by blast
  have "blockResult 2 s2 = blockResult 1 s2"
    using thenFuture_follows [OF run] res by (simp add: sample_next_def)
  then show ?thesis
    using run res by auto
qed

lemma sample_lifetime:
  "\<exists>s. future_run [Op_make No_cancel, Op_then 0 sample_h, Op_destroy 0] (no_futures :: nat futures) = Some s \<and>
     fu_handles s = [1] \<and> map im_refs (fu_impls s) = [1, 1] \<and> map im_cancelFunc (fu_impls s) = [No_cancel, Extend_lifetime 0]"
  by (simp add: run_simps)

theorem block_lifetime_witness:
  "\<exists>s. future_run [Op_make No_cancel, Op_then 0 sample_h, Op_destroy 0] (no_futures :: nat futures) = Some s \<and>
     fu_handles s = [1] \<and> im_refs (impl s 0) = length (filter (\<lambda>b. im_refs b > 0 \<and> im_cancelFunc b = Extend_lifetime 0) (fu_impls s))"
proof -
  obtain s where run: "future_run [Op_make No_cancel, Op_then 0 sample_h, Op_destroy 0] (no_futures :: nat futures) = Some s"
    and "fu_handles s = [1]"
    using sample_lifetime by blast
  then show ?thesis
    using block_lifetime [OF run, of 0] by auto
qed

lemma sample_cancel:
  "\<exists>s2. future_run [] (no_futures :: nat futures) = Some no_futures \<and>
     future_run [Op_then 0 sample_h, Op_destroy 0, Op_destroy 1] (snd (Future_make Cancel no_futures)) = Some s2 \<and>
     im_refs (impl s2 0) = 0 \<and> blockResult 0 s2 = None"
  by (simp add: run_simps)


theorem then_never_blocks_witness:
  "\<exists>s s'. future_run [Op_make No_cancel, Op_then 0 sample_h] (no_futures :: nat futures) = Some s \<and>
     future_step (Op_maker 0 (Result_of 3)) s = Some s'"
proof -
  obtain s where run: "future_run [Op_make No_cancel, Op_then 0 sample_h] (no_futures :: nat futures) = Some s"
    and "0 \<in> set (fu_makers s)"
    by (simp add: run_simps)
  then show ?thesis
    using then_never_blocks [OF run, of "Op_maker 0 (Result_of 3)"] by auto
qed

theorem self_thenFuture_blocks_witness:
  "\<exists>s. future_run [Op_make No_cancel, Op_maker 0 (Result_of 3)] (no_futures :: nat futures) = Some s \<and>
     Future_thenFuture 0 (\<lambda>_. NF_existing 0) s = None"
proof -
  obtain s where run: "future_run [Op_make No_cancel, Op_maker 0 (Result_of 3)] (no_futures :: nat futures) = Some s"
    and "0 \<in> set (fu_handles s)" "blockResult 0 s = Some (Result_of 3)"
    by (simp add: run_simps)
  then show ?thesis
    using self_thenFuture_blocks [OF run, of 0 "Result_of 3" "\<lambda>_. NF_existing 0"] by auto
qed

end
