(* ===== verification/Connection_String.thy ===== *)
theory Connection_String
  imports Prelude
begin

text \<open>
  \<open>rmqa::ConnectionString\<close>: parsing of \<open>amqp://\<close> and \<open>amqps://\<close> connection strings into an endpoint and credentials,
  with the value types it makes.

  Positions in a string are \<open>size_t\<close> values; they are natural numbers here, with the reduction modulo \<open>2 ^ 64\<close> written
  out in subtractions, because the code subtracts from \<open>npos\<close> and in some cases a larger position from a smaller one.
  The searches of \<open>bsl::string_view\<close> return \<^term>\<open>2 ^ 64 - 1\<close> when they find nothing, and \<open>substr\<close> throws when its
  position is past the end.
\<close>

section \<open>Strings\<close>

definition npos :: nat where
  "npos = 2 ^ 64 - 1"

definition minus_size :: "nat \<Rightarrow> nat \<Rightarrow> nat" where
  "minus_size a b = (a + 2 ^ 64 - b) mod 2 ^ 64"

definition matches_at :: "bytes \<Rightarrow> bytes \<Rightarrow> nat \<Rightarrow> bool" where
  "matches_at u p i \<longleftrightarrow> take (length p) (drop i u) = p"

fun find_in :: "bytes \<Rightarrow> bytes \<Rightarrow> nat \<Rightarrow> nat" where
  "find_in p [] i = (if p = [] then i else npos)"
| "find_in p (x # xs) i = (if matches_at (x # xs) p 0 then i else find_in p xs (Suc i))"

definition sv_find :: "bytes \<Rightarrow> bytes \<Rightarrow> nat \<Rightarrow> nat" where
  "sv_find u p pos = (if pos > length u then npos else find_in p (drop pos u) pos)"

primrec rfind_at :: "bytes \<Rightarrow> bytes \<Rightarrow> nat \<Rightarrow> nat" where
  "rfind_at u p 0 = (if matches_at u p 0 then 0 else npos)"
| "rfind_at u p (Suc n) = (if matches_at u p (Suc n) then Suc n else rfind_at u p n)"

definition sv_rfind :: "bytes \<Rightarrow> bytes \<Rightarrow> nat \<Rightarrow> nat" where
  "sv_rfind u p pos = (if length p > length u then npos else rfind_at u p (min pos (length u - length p)))"

definition substr :: "bytes \<Rightarrow> nat \<Rightarrow> nat \<Rightarrow> bytes option" where
  "substr u pos n = (if pos > length u then None else Some (take n (drop pos u)))"

text \<open>\<open>bsl::stoi\<close>: white space, a sign and the digits that follow; what comes after them is ignored.\<close>

datatype stoi_error = Invalid_argument | Out_of_range

definition is_space :: "u8 \<Rightarrow> bool" where
  "is_space c \<longleftrightarrow> c = 32 \<or> 9 \<le> c \<and> c \<le> 13"

definition is_digit :: "u8 \<Rightarrow> bool" where
  "is_digit c \<longleftrightarrow> 48 \<le> c \<and> c \<le> 57"

definition digits_value :: "bytes \<Rightarrow> int" where
  "digits_value ds = foldl (\<lambda>n d. 10 * n + (uint d - 48)) 0 ds"

definition stoi :: "bytes \<Rightarrow> stoi_error + int" where
  "stoi s =
     (let s = dropWhile is_space s;
          negative = (s \<noteq> [] \<and> hd s = 45);
          s = (if s \<noteq> [] \<and> (hd s = 45 \<or> hd s = 43) then tl s else s);
          ds = takeWhile is_digit s;
          n = (if negative then - digits_value ds else digits_value ds) in
      if ds = [] then Inl Invalid_argument
      else if n < - (2 ^ 31) \<or> n > 2 ^ 31 - 1 then Inl Out_of_range
      else Inr n)"

section \<open>Endpoints and credentials\<close>

datatype 'sec endpoint =
    SimpleEndpoint (ep_address: bytes) (ep_vhost: bytes) (ep_port: u16)
  | SecureEndpoint (ep_address: bytes) (ep_vhost: bytes) (ep_port: u16) (ep_params: 'sec)

record PlainCredentials =
  pc_username :: bytes
  pc_password :: bytes

record 'sec VHostInfo =
  vi_endpoint :: "'sec endpoint"
  vi_credentials :: PlainCredentials

fun protocol :: "'sec endpoint \<Rightarrow> bytes" where
  "protocol (SimpleEndpoint _ _ _) = bstr ''amqp''"
| "protocol (SecureEndpoint _ _ _ _) = bstr ''amqps''"

text \<open>\<open>bsl::to_string\<close> of a port.\<close>

fun to_digits :: "nat \<Rightarrow> bytes" where
  "to_digits n = (if n < 10 then [of_nat (48 + n)] else to_digits (n div 10) @ [of_nat (48 + n mod 10)])"

declare to_digits.simps [simp del]

definition formatAddress :: "'sec endpoint \<Rightarrow> bytes" where
  "formatAddress e =
     protocol e @ bstr ''://'' @ ep_address e @ bstr '':'' @ to_digits (unat (ep_port e)) @ bstr ''/'' @ ep_vhost e"

definition formatCredentials :: "PlainCredentials \<Rightarrow> bytes" where
  "formatCredentials c = [0] @ pc_username c @ [0] @ pc_password c"

section \<open>Parsing\<close>

record parts =
  pt_scheme :: bytes
  pt_username :: bytes
  pt_password :: bytes
  pt_hostname :: bytes
  pt_port :: bytes
  pt_vhost :: bytes

text \<open>The outcome of a function that may throw \<open>out_of_range\<close> or say that the string is not acceptable.\<close>

datatype 'a outcome = Thrown | Rejected | Parsed 'a

fun with_substr :: "bytes option \<Rightarrow> (bytes \<Rightarrow> 'a outcome) \<Rightarrow> 'a outcome" where
  "with_substr None f = Thrown"
| "with_substr (Some s) f = f s"

definition parse_userinfo :: "bytes \<Rightarrow> nat \<Rightarrow> nat \<Rightarrow> parts \<Rightarrow> parts outcome" where
  "parse_userinfo uri amqp_authority_begin hostname_pos p =
     (let userPassSplit = sv_find uri (bstr '':'') amqp_authority_begin in
      if userPassSplit = npos then
        with_substr (substr uri amqp_authority_begin (minus_size hostname_pos amqp_authority_begin))
          (\<lambda>username. Parsed (p\<lparr>pt_username := username\<rparr>))
      else
        with_substr (substr uri amqp_authority_begin (minus_size userPassSplit amqp_authority_begin))
          (\<lambda>username.
             with_substr (substr uri (userPassSplit + 1) (minus_size hostname_pos (userPassSplit + 1)))
               (\<lambda>password. Parsed (p\<lparr>pt_username := username, pt_password := password\<rparr>))))"

definition parse_hostname :: "bytes \<Rightarrow> nat \<Rightarrow> nat \<Rightarrow> nat \<Rightarrow> parts \<Rightarrow> parts outcome" where
  "parse_hostname uri amqp_authority_begin port_pos vhost_pos p =
     (let hostname_pos = sv_rfind uri (bstr ''@'') vhost_pos;
          hostname_end = min port_pos vhost_pos in
      if hostname_pos = npos then
        with_substr
          (if hostname_end = npos then substr uri amqp_authority_begin npos
           else substr uri amqp_authority_begin (minus_size hostname_end amqp_authority_begin))
          (\<lambda>hostname. Parsed (p\<lparr>pt_hostname := hostname\<rparr>))
      else
        with_substr (substr uri (hostname_pos + 1) (minus_size hostname_end (hostname_pos + 1)))
          (\<lambda>hostname. parse_userinfo uri amqp_authority_begin hostname_pos (p\<lparr>pt_hostname := hostname\<rparr>)))"

definition parse_port :: "bytes \<Rightarrow> nat \<Rightarrow> nat \<Rightarrow> parts \<Rightarrow> parts outcome" where
  "parse_port uri protocol_pos vhost_pos p =
     (let port_pos = sv_rfind uri (bstr '':'') vhost_pos;
          port_pos = (if port_pos = protocol_pos then npos else port_pos) in
      if port_pos \<noteq> npos then
        if length uri \<le> port_pos + 1 then Rejected
        else
          with_substr (substr uri (port_pos + 1) (minus_size vhost_pos (port_pos + 1)))
            (\<lambda>port. parse_hostname uri (protocol_pos + 3) port_pos vhost_pos (p\<lparr>pt_port := port\<rparr>))
      else parse_hostname uri (protocol_pos + 3) port_pos vhost_pos p)"

definition parseParts :: "bytes \<Rightarrow> parts \<Rightarrow> parts outcome" where
  "parseParts uri p =
     (let protocol_pos = sv_find uri (bstr ''://'') 0 in
      if protocol_pos = npos then Rejected
      else
        with_substr (substr uri 0 protocol_pos)
          (\<lambda>scheme.
             if scheme \<noteq> bstr ''amqp'' \<and> scheme \<noteq> bstr ''amqps'' then Rejected
             else if length uri \<le> protocol_pos + 3 then Rejected
             else
               (let vhost_pos = sv_rfind uri (bstr ''/'') npos;
                    vhost_pos = (if vhost_pos = protocol_pos + 2 then npos else vhost_pos);
                    p = p\<lparr>pt_scheme := scheme\<rparr> in
                if vhost_pos \<noteq> npos then
                  with_substr (substr uri (vhost_pos + 1) npos)
                    (\<lambda>vhost. parse_port uri protocol_pos vhost_pos (p\<lparr>pt_vhost := vhost\<rparr>))
                else parse_port uri protocol_pos vhost_pos p)))"

definition default_parts :: parts where
  "default_parts =
     \<lparr>pt_scheme = [], pt_username = bstr ''guest'', pt_password = bstr ''guest'', pt_hostname = [], pt_port = [],
      pt_vhost = bstr ''/''\<rparr>"

definition parse :: "bytes \<Rightarrow> 'sec option \<Rightarrow> 'sec VHostInfo outcome" where
  "parse uri securityParameters =
     (case parseParts uri default_parts of
        Thrown \<Rightarrow> Thrown
      | Rejected \<Rightarrow> Rejected
      | Parsed p \<Rightarrow>
          if pt_hostname p = [] then Rejected
          else
            (let port = (if pt_port p = [] then (if pt_scheme p = bstr ''amqp'' then bstr ''5672'' else bstr ''5671'') else pt_port p) in
             case stoi port of
               Inl _ \<Rightarrow> Rejected
             | Inr portNum \<Rightarrow>
                 if portNum \<le> 0 \<or> portNum > 65535 then Rejected
                 else
                   (let credentials = \<lparr>pc_username = pt_username p, pc_password = pt_password p\<rparr> in
                    if pt_scheme p = bstr ''amqp'' then
                      Parsed \<lparr>vi_endpoint = SimpleEndpoint (pt_hostname p) (pt_vhost p) (word_of_int portNum), vi_credentials = credentials\<rparr>
                    else
                      (case securityParameters of
                         None \<Rightarrow> Rejected
                       | Some params \<Rightarrow>
                           Parsed \<lparr>vi_endpoint = SecureEndpoint (pt_hostname p) (pt_vhost p) (word_of_int portNum) params,
                             vi_credentials = credentials\<rparr>))))"


section \<open>Searching\<close>

lemma separators [simp]:
  "bstr '':'' = [58]" "bstr ''/'' = [47]" "bstr ''@'' = [64]" "bstr ''://'' = [58, 47, 47]"
  "bstr ''amqp'' = [97, 109, 113, 112]" "bstr ''amqps'' = [97, 109, 113, 112, 115]"
  "bstr ''5672'' = [53, 54, 55, 50]" "bstr ''5671'' = [53, 54, 55, 49]"
  by (simp_all add: bstr_def)

lemma find_in_first: "c \<notin> set xs \<Longrightarrow> find_in (c # p) (xs @ c # p @ ys) i = i + length xs"
  by (induction xs arbitrary: i) (auto simp: matches_at_def)

lemma find_in_none: "c \<notin> set xs \<Longrightarrow> find_in (c # p) xs i = npos"
  by (induction xs arbitrary: i) (auto simp: matches_at_def)

lemma sv_find_first: "c \<notin> set xs \<Longrightarrow> u = us @ xs @ c # p @ ys \<Longrightarrow> n = length us \<Longrightarrow> sv_find u (c # p) n = length us + length xs"
  by (simp add: sv_find_def find_in_first)

lemma sv_find_none: "c \<notin> set xs \<Longrightarrow> u = us @ xs \<Longrightarrow> n = length us \<Longrightarrow> sv_find u (c # p) n = npos"
  by (simp add: sv_find_def find_in_none)

lemma matches_one: "matches_at u [c] i \<longleftrightarrow> i < length u \<and> u ! i = c"
  by (cases "i < length u") (auto simp: matches_at_def take_Suc_conv_app_nth hd_drop_conv_nth simp flip: Cons_nth_drop_Suc)

lemma rfind_at_last:
  "matches_at u p i \<Longrightarrow> i \<le> n \<Longrightarrow> \<forall>j. i < j \<and> j \<le> n \<longrightarrow> \<not> matches_at u p j \<Longrightarrow> rfind_at u p n = i"
  by (induction n) (auto simp: le_Suc_eq)

lemma rfind_at_none: "\<forall>j \<le> n. \<not> matches_at u p j \<Longrightarrow> rfind_at u p n = npos"
  by (induction n) auto

text \<open>The last octet \<open>c\<close> up to a position that lies behind the next separator.\<close>

lemma sv_rfind_last:
  assumes "c \<notin> set ys" "u = xs @ c # ys @ zs" "length xs \<le> n"
    and "zs = [] \<or> n \<le> Suc (length xs + length ys) \<and> hd zs \<noteq> c"
  shows "sv_rfind u [c] n = length xs"
proof -
  have "\<not> matches_at u [c] j" if lt: "length xs < j" and le: "j \<le> min n (length u - 1)" for j
  proof (cases "j < Suc (length xs + length ys)")
    case True
    obtain k where k: "j = Suc (length xs + k)"
      using less_imp_Suc_add [OF lt] by blast
    then have "k < length ys"
      using True by simp
    with k have "u ! j = ys ! k" "ys ! k \<in> set ys"
      using assms(2) by (auto simp: nth_append)
    then show ?thesis
      using assms(1) by (auto simp: matches_one)
  next
    case False
    then have "zs \<noteq> []" "j = Suc (length xs + length ys)" "hd zs \<noteq> c"
      using le assms by auto
    then show ?thesis
      using assms(2) by (simp add: matches_one nth_append hd_conv_nth)
  qed
  then have "rfind_at u [c] (min n (length u - 1)) = length xs"
    using assms(2,3) by (intro rfind_at_last) (auto simp: matches_one)
  then show ?thesis
    using assms(2) by (simp add: sv_rfind_def)
qed

lemma sv_rfind_none:
  assumes "c \<notin> set ys" "u = ys @ zs" "zs = [] \<or> n \<le> length ys \<and> hd zs \<noteq> c"
  shows "sv_rfind u [c] n = npos"
proof -
  have "\<not> matches_at u [c] j" if "j \<le> min n (length u - 1)" for j
  proof (cases "j < length ys")
    case True
    then show ?thesis
      using assms(1,2) by (auto simp: matches_one nth_append)
  next
    case False
    then show ?thesis
      using that assms(2,3) by (cases zs) (auto simp: matches_one nth_append)
  qed
  then show ?thesis
    by (simp add: sv_rfind_def rfind_at_none)
qed

lemma substr_mid: "u = xs @ ys @ zs \<Longrightarrow> i = length xs \<Longrightarrow> n = length ys \<Longrightarrow> substr u i n = Some ys"
  by (simp add: substr_def)

lemma substr_rest: "u = xs @ ys \<Longrightarrow> i = length xs \<Longrightarrow> length ys \<le> n \<Longrightarrow> substr u i n = Some ys"
  by (simp add: substr_def)

lemma minus_size_le: "b \<le> a \<Longrightarrow> a \<le> npos \<Longrightarrow> minus_size a b = a - b"
  by (simp add: minus_size_def npos_def mod_if)

lemma minus_size_wrap: "a < b \<Longrightarrow> b \<le> npos \<Longrightarrow> minus_size a b = 2 ^ 64 - (b - a)"
  by (simp add: minus_size_def npos_def)


section \<open>The grammar\<close>

text \<open>The grammar in the comment of \<open>parseParts\<close>, with one segment for each part.\<close>

definition uri_of :: "bytes \<Rightarrow> (bytes \<times> bytes option) option \<Rightarrow> bytes \<Rightarrow> bytes option \<Rightarrow> bytes option \<Rightarrow> bytes" where
  "uri_of scheme userinfo host port vhost =
     scheme @ bstr ''://'' @
     (case userinfo of
        None \<Rightarrow> []
      | Some (user, None) \<Rightarrow> user @ bstr ''@''
      | Some (user, Some password) \<Rightarrow> user @ bstr '':'' @ password @ bstr ''@'') @
     host @
     (case port of None \<Rightarrow> [] | Some n \<Rightarrow> bstr '':'' @ n) @
     (case vhost of None \<Rightarrow> [] | Some v \<Rightarrow> bstr ''/'' @ v)"

definition segment :: "bytes \<Rightarrow> bool" where
  "segment s \<longleftrightarrow> 58 \<notin> set s \<and> 47 \<notin> set s \<and> 64 \<notin> set s"

definition parts_of :: "bytes \<Rightarrow> (bytes \<times> bytes option) option \<Rightarrow> bytes \<Rightarrow> bytes option \<Rightarrow> bytes option \<Rightarrow> parts" where
  "parts_of scheme userinfo host port vhost =
     \<lparr>pt_scheme = scheme,
      pt_username = (case userinfo of None \<Rightarrow> bstr ''guest'' | Some (user, _) \<Rightarrow> user),
      pt_password = (case userinfo of Some (_, Some password) \<Rightarrow> password | _ \<Rightarrow> bstr ''guest''),
      pt_hostname = host,
      pt_port = (case port of None \<Rightarrow> [] | Some n \<Rightarrow> n),
      pt_vhost = (case vhost of None \<Rightarrow> bstr ''/'' | Some v \<Rightarrow> v)\<rparr>"

text \<open>Everything before \<open>parse_port\<close>: for \<open>A\<close> the authority and \<open>V\<close> the rest.\<close>

lemma parseParts_start:
  assumes scheme: "scheme = bstr ''amqp'' \<or> scheme = bstr ''amqps''"
    and uri: "uri = scheme @ [58, 47, 47] @ A @ (case vhost of None \<Rightarrow> [] | Some v \<Rightarrow> 47 # v)"
    and A: "A \<noteq> []" "47 \<notin> set A" and v: "\<And>v. vhost = Some v \<Longrightarrow> 47 \<notin> set v" and len: "length uri < npos"
  shows "parseParts uri p =
    parse_port uri (length scheme) (case vhost of None \<Rightarrow> npos | Some v \<Rightarrow> length scheme + 3 + length A)
      (case vhost of None \<Rightarrow> p\<lparr>pt_scheme := scheme\<rparr> | Some v \<Rightarrow> p\<lparr>pt_scheme := scheme, pt_vhost := v\<rparr>)"
proof -
  have colon: "58 \<notin> set scheme" using scheme by auto
  have pos: "sv_find uri [58, 47, 47] 0 = length scheme"
    using sv_find_first [OF colon, of uri "[]" "[47, 47]"] uri by simp
  have sub: "substr uri 0 (length scheme) = Some scheme"
    using uri by (simp add: substr_def)
  have lens: "length scheme < npos" "length scheme + 3 < length uri" "length scheme + 3 < npos"
    using len uri A(1) by (auto simp: Suc_le_eq)
  show ?thesis
  proof (cases vhost)
    case None
    have "sv_rfind uri [47] npos = length scheme + 2"
      using sv_rfind_last [of 47 A uri "scheme @ [58, 47]" "[]" npos] A(2) uri None lens by simp
    then show ?thesis
      using scheme None pos sub lens by (auto simp: parseParts_def)
  next
    case (Some v)
    have *: "sv_rfind uri [47] npos = length scheme + 3 + length A"
      using sv_rfind_last [of 47 v uri "scheme @ [58, 47, 47] @ A" "[]" npos] v [OF Some] uri Some len by simp
    have "substr uri (length scheme + 3 + length A + 1) npos = Some v"
      by (rule substr_rest [of _ "scheme @ [58, 47, 47] @ A @ [47]"]) (use uri Some len in auto)
    then show ?thesis
      using scheme Some pos sub lens * A(1) uri len by (auto simp: parseParts_def Let_def)
  qed
qed


text \<open>The other parts. \<open>V\<close> is what follows the authority: nothing, and then the search goes to the end of the string,
  or the slash before the virtual host, and then it goes up to that.\<close>

definition tail_pos :: "bytes \<Rightarrow> bytes \<Rightarrow> nat \<Rightarrow> bool" where
  "tail_pos xs V vpos \<longleftrightarrow> (V = [] \<and> vpos = npos) \<or> (V \<noteq> [] \<and> hd V = 47 \<and> vpos = length xs)"

lemma tail_rfind:
  assumes "tail_pos (xs @ c # ys) V vpos" "c \<noteq> 47" "c \<notin> set ys" "uri = xs @ c # ys @ V" "length uri < npos"
  shows "sv_rfind uri [c] vpos = length xs"
  using sv_rfind_last [OF assms(3,4), of vpos] assms(1,2,4,5) by (auto simp: tail_pos_def)

lemma tail_rfind_none:
  assumes "tail_pos ys V vpos" "c \<noteq> 47" "c \<notin> set ys" "uri = ys @ V" "length uri < npos"
  shows "sv_rfind uri [c] vpos = npos"
  using sv_rfind_none [OF assms(3,4), of vpos] assms(1,2,4,5) by (auto simp: tail_pos_def)

lemma tail_substr:
  assumes "tail_pos (xs @ ys) V vpos" "uri = xs @ ys @ V" "length uri < npos" "i = length xs"
  shows "substr uri i (minus_size vpos i) = Some ys"
proof (cases "V = []")
  case True
  then show ?thesis
    using assms by (intro substr_rest) (auto simp: tail_pos_def minus_size_le)
next
  case False
  then show ?thesis
    using assms by (intro substr_mid) (auto simp: tail_pos_def minus_size_le)
qed

lemma parse_port_given:
  assumes uri: "uri = xs @ 58 # n @ V" "length uri < npos" and n: "n \<noteq> []" "58 \<notin> set n"
    and tail: "tail_pos (xs @ 58 # n) V vpos" and xs: "length xs \<noteq> protocol_pos"
  shows "parse_port uri protocol_pos vpos p = parse_hostname uri (protocol_pos + 3) (length xs) vpos (p\<lparr>pt_port := n\<rparr>)"
proof -
  have "sv_rfind uri [58] vpos = length xs"
    using tail_rfind [OF tail _ n(2) uri] by simp
  moreover have "substr uri (length xs + 1) (minus_size vpos (length xs + 1)) = Some n"
    by (rule tail_substr [of "xs @ [58]" _ V]) (use tail uri in auto)
  moreover have "\<not> length uri \<le> length xs + 1" "length xs < npos"
    using uri n(1) by (auto simp: Suc_le_eq)
  ultimately show ?thesis
    using xs by (simp add: parse_port_def)
qed

lemma parse_port_none:
  assumes uri: "uri = scheme @ 58 # 47 # 47 # A @ V" "length uri < npos" and A: "58 \<notin> set A"
    and tail: "tail_pos (scheme @ 58 # 47 # 47 # A) V vpos"
  shows "parse_port uri (length scheme) vpos p = parse_hostname uri (length scheme + 3) npos vpos p"
proof -
  have "sv_rfind uri [58] vpos = length scheme"
    by (rule tail_rfind [of _ _ "47 # 47 # A" V]) (use tail A uri in auto)
  then show ?thesis
    by (simp add: parse_port_def)
qed

text \<open>Where the host name ends: at the port, at the slash, or at the end of the string.\<close>

definition host_end :: "nat \<Rightarrow> bytes \<Rightarrow> nat \<Rightarrow> nat \<Rightarrow> bool" where
  "host_end n R port_pos vpos \<longleftrightarrow> min port_pos vpos = n \<or> R = [] \<and> min port_pos vpos = npos"

lemma parse_hostname_plain:
  assumes uri: "uri = pre @ host @ R" "length uri < npos" and at: "sv_rfind uri [64] vpos = npos"
    and stop: "host_end (length pre + length host) R port_pos vpos" and pre: "q = length pre"
  shows "parse_hostname uri q port_pos vpos p = Parsed (p\<lparr>pt_hostname := host\<rparr>)"
proof -
  have "substr uri q (minus_size (length pre + length host) q) = Some host"
    using uri pre by (intro substr_mid) (auto simp: minus_size_le)
  moreover have "R = [] \<Longrightarrow> substr uri q npos = Some host"
    using uri pre by (intro substr_rest) auto
  moreover have "length pre + length host \<noteq> npos"
    using uri by simp
  ultimately show ?thesis
    using at stop by (auto simp: parse_hostname_def host_end_def Let_def)
qed

lemma parse_hostname_user:
  assumes uri: "uri = pre @ U @ 64 # host @ R" "length uri < npos"
    and at: "sv_rfind uri [64] vpos = length pre + length U"
    and stop: "host_end (length pre + length U + 1 + length host) R port_pos vpos"
  shows "parse_hostname uri q port_pos vpos p = parse_userinfo uri q (length pre + length U) (p\<lparr>pt_hostname := host\<rparr>)"
proof -
  let ?i = "length pre + length U + 1"
  have "substr uri ?i (minus_size (?i + length host) ?i) = Some host"
    using uri by (intro substr_mid [of _ "pre @ U @ [64]" _ R]) (auto simp: minus_size_le)
  moreover have "R = [] \<Longrightarrow> substr uri ?i (minus_size npos ?i) = Some host"
    using uri by (intro substr_rest [of _ "pre @ U @ [64]"]) (auto simp: minus_size_le)
  moreover have "length pre + length U \<noteq> npos"
    using uri by simp
  ultimately show ?thesis
    using at stop by (auto simp: parse_hostname_def host_end_def Let_def)
qed

lemma parse_userinfo_password:
  assumes uri: "uri = pre @ user @ 58 # password @ 64 # R" "length uri < npos" and user: "58 \<notin> set user"
    and pre: "q = length pre" and pos: "hpos = length pre + length user + 1 + length password"
  shows "parse_userinfo uri q hpos p = Parsed (p\<lparr>pt_username := user, pt_password := password\<rparr>)"
proof -
  have "sv_find uri [58] q = length pre + length user"
    using sv_find_first [OF user, of uri pre "[]"] uri pre by simp
  moreover have "substr uri q (minus_size (length pre + length user) q) = Some user"
    using uri pre by (intro substr_mid) (auto simp: minus_size_le)
  moreover have "substr uri (length pre + length user + 1) (minus_size hpos (length pre + length user + 1)) = Some password"
    using uri pre pos by (intro substr_mid [of _ "pre @ user @ [58]"]) (auto simp: minus_size_le)
  moreover have "length pre + length user \<noteq> npos"
    using uri by simp
  ultimately show ?thesis
    by (simp add: parse_userinfo_def)
qed

lemma parse_userinfo_plain:
  assumes uri: "uri = pre @ user @ 64 # R" "length uri < npos" and user: "58 \<notin> set user" "58 \<notin> set R"
    and pre: "q = length pre" and pos: "hpos = length pre + length user"
  shows "parse_userinfo uri q hpos p = Parsed (p\<lparr>pt_username := user\<rparr>)"
proof -
  have "sv_find uri [58] q = npos"
    by (rule sv_find_none [of _ "user @ 64 # R" _ pre]) (use uri user pre in auto)
  moreover have "substr uri q (minus_size hpos q) = Some user"
    using uri pre pos by (intro substr_mid) (auto simp: minus_size_le)
  ultimately show ?thesis
    by (simp add: parse_userinfo_def)
qed


section \<open>What is parsed correctly, and what is not\<close>

text \<open>The combinations of user information and port that the code can tell apart: a port needs a password or no user
  information, and no port means no password.\<close>

fun unambiguous :: "(bytes \<times> bytes option) option \<Rightarrow> bytes option \<Rightarrow> bytes option \<Rightarrow> bool" where
  "unambiguous None port vhost = True"
| "unambiguous (Some (user, Some password)) port vhost = (port \<noteq> None)"
| "unambiguous (Some (user, None)) port vhost = (port = None \<and> (\<forall>v. vhost = Some v \<longrightarrow> 58 \<notin> set v))"

definition well_formed_uri :: "bytes \<Rightarrow> (bytes \<times> bytes option) option \<Rightarrow> bytes \<Rightarrow> bytes option \<Rightarrow> bytes option \<Rightarrow> bool" where
  "well_formed_uri scheme userinfo host port vhost \<longleftrightarrow>
     (scheme = bstr ''amqp'' \<or> scheme = bstr ''amqps'') \<and>
     (case userinfo of
        None \<Rightarrow> True
      | Some (user, password) \<Rightarrow> segment user \<and> (case password of None \<Rightarrow> True | Some pw \<Rightarrow> segment pw)) \<and>
     segment host \<and> host \<noteq> [] \<and>
     (case port of None \<Rightarrow> True | Some n \<Rightarrow> segment n \<and> n \<noteq> []) \<and>
     (case vhost of None \<Rightarrow> True | Some v \<Rightarrow> 47 \<notin> set v) \<and>
     length (uri_of scheme userinfo host port vhost) < npos"

definition port_text :: "bytes option \<Rightarrow> bytes" where
  "port_text port = (case port of None \<Rightarrow> [] | Some n \<Rightarrow> 58 # n)"

definition vhost_text :: "bytes option \<Rightarrow> bytes" where
  "vhost_text vhost = (case vhost of None \<Rightarrow> [] | Some v \<Rightarrow> 47 # v)"

fun userinfo_text :: "(bytes \<times> bytes option) option \<Rightarrow> bytes" where
  "userinfo_text None = []"
| "userinfo_text (Some (user, None)) = user @ [64]"
| "userinfo_text (Some (user, Some password)) = user @ 58 # password @ [64]"

lemma uri_of_texts:
  "uri_of scheme userinfo host port vhost = scheme @ [58, 47, 47] @ (userinfo_text userinfo @ host @ port_text port) @ vhost_text vhost"
  by (cases userinfo rule: userinfo_text.cases) (simp_all add: uri_of_def port_text_def vhost_text_def split: option.split)

text \<open>Everything before the port: the position of the virtual host, and the parts known so far.\<close>

definition vhost_pos :: "bytes \<Rightarrow> (bytes \<times> bytes option) option \<Rightarrow> bytes \<Rightarrow> bytes option \<Rightarrow> bytes option \<Rightarrow> nat" where
  "vhost_pos scheme userinfo host port vhost =
     (case vhost of None \<Rightarrow> npos
      | Some v \<Rightarrow> length (scheme @ [58, 47, 47] @ userinfo_text userinfo @ host @ port_text port))"

definition known_parts :: "bytes \<Rightarrow> bytes option \<Rightarrow> parts" where
  "known_parts scheme vhost = default_parts\<lparr>pt_scheme := scheme, pt_vhost := (case vhost of None \<Rightarrow> bstr ''/'' | Some v \<Rightarrow> v)\<rparr>"

lemma uri_start:
  assumes "well_formed_uri scheme userinfo host port vhost"
  shows "parseParts (uri_of scheme userinfo host port vhost) default_parts =
    parse_port (uri_of scheme userinfo host port vhost) (length scheme) (vhost_pos scheme userinfo host port vhost)
      (known_parts scheme vhost)"
    and "tail_pos (scheme @ [58, 47, 47] @ userinfo_text userinfo @ host @ port_text port) (vhost_text vhost)
      (vhost_pos scheme userinfo host port vhost)"
proof -
  let ?A = "userinfo_text userinfo @ host @ port_text port"
  have A: "?A \<noteq> []" "47 \<notin> set ?A" and v: "\<And>v. vhost = Some v \<Longrightarrow> 47 \<notin> set v"
    and scheme: "scheme = bstr ''amqp'' \<or> scheme = bstr ''amqps''" and len: "length (uri_of scheme userinfo host port vhost) < npos"
    using assms by (cases userinfo rule: userinfo_text.cases; auto simp: well_formed_uri_def segment_def port_text_def split: option.splits)+
  have uri: "uri_of scheme userinfo host port vhost = scheme @ [58, 47, 47] @ ?A @ (case vhost of None \<Rightarrow> [] | Some v \<Rightarrow> 47 # v)"
    by (simp add: uri_of_texts vhost_text_def)
  have "vhost_pos scheme userinfo host port vhost = (case vhost of None \<Rightarrow> npos | Some v \<Rightarrow> length scheme + 3 + length ?A)"
    by (simp add: vhost_pos_def split: option.split)
  moreover have "known_parts scheme vhost =
      (case vhost of None \<Rightarrow> default_parts\<lparr>pt_scheme := scheme\<rparr> | Some v \<Rightarrow> default_parts\<lparr>pt_scheme := scheme, pt_vhost := v\<rparr>)"
    by (simp add: known_parts_def default_parts_def split: option.split)
  ultimately show "parseParts (uri_of scheme userinfo host port vhost) default_parts =
    parse_port (uri_of scheme userinfo host port vhost) (length scheme) (vhost_pos scheme userinfo host port vhost)
      (known_parts scheme vhost)"
    using parseParts_start [OF scheme uri A v len, of default_parts] by simp
  show "tail_pos (scheme @ [58, 47, 47] @ ?A) (vhost_text vhost) (vhost_pos scheme userinfo host port vhost)"
    by (simp add: tail_pos_def vhost_text_def vhost_pos_def split: option.split)
qed


lemma well_formed_segments:
  assumes "well_formed_uri scheme userinfo host port vhost"
  shows "length (uri_of scheme userinfo host port vhost) < npos" "segment host"
    "port = Some n \<Longrightarrow> n \<noteq> []" "port = Some n \<Longrightarrow> segment n" "userinfo = Some (user, password) \<Longrightarrow> segment user"
    "userinfo = Some (user, Some pw) \<Longrightarrow> segment pw" "58 \<notin> set scheme" "64 \<notin> set scheme"
  using assms by (auto simp: well_formed_uri_def)

text \<open>The steps after \<open>uri_start\<close>, for each combination of user information and port.\<close>

lemma parse_host_port:
  assumes wf: "well_formed_uri scheme None host (Some n) vhost"
  shows "parseParts (uri_of scheme None host (Some n) vhost) default_parts =
    Parsed ((known_parts scheme vhost)\<lparr>pt_port := n, pt_hostname := host\<rparr>)"
proof -
  let ?uri = "uri_of scheme None host (Some n) vhost" and ?vpos = "vhost_pos scheme None host (Some n) vhost"
    and ?V = "vhost_text vhost" and ?pre = "scheme @ [58, 47, 47]" and ?p = "known_parts scheme vhost"
  note seg = well_formed_segments [OF wf]
  have uri: "?uri = (?pre @ host) @ 58 # n @ ?V" and tail: "tail_pos ((?pre @ host) @ 58 # n) ?V ?vpos"
    using uri_start(2) [OF wf] by (simp_all add: uri_of_texts port_text_def)
  have "parse_port ?uri (length scheme) ?vpos ?p =
      parse_hostname ?uri (length scheme + 3) (length (?pre @ host)) ?vpos (?p\<lparr>pt_port := n\<rparr>)"
    by (rule parse_port_given [OF uri _ _ _ tail]) (use seg in \<open>auto simp: segment_def\<close>)
  also have "\<dots> = Parsed (?p\<lparr>pt_port := n, pt_hostname := host\<rparr>)"
  proof (rule parse_hostname_plain [of _ ?pre])
    show "sv_rfind ?uri [64] ?vpos = npos"
      by (rule tail_rfind_none [OF tail]) (use uri seg in \<open>auto simp: segment_def\<close>)
    show "host_end (length ?pre + length host) (58 # n @ ?V) (length (?pre @ host)) ?vpos"
      using tail seg(1) uri by (auto simp: host_end_def tail_pos_def)
  qed (use uri seg(1) in simp_all)
  finally show ?thesis
    using uri_start(1) [OF wf] by simp
qed

lemma parse_host:
  assumes wf: "well_formed_uri scheme None host None vhost"
  shows "parseParts (uri_of scheme None host None vhost) default_parts = Parsed ((known_parts scheme vhost)\<lparr>pt_hostname := host\<rparr>)"
proof -
  let ?uri = "uri_of scheme None host None vhost" and ?vpos = "vhost_pos scheme None host None vhost"
    and ?V = "vhost_text vhost" and ?p = "known_parts scheme vhost"
  note seg = well_formed_segments [OF wf]
  have uri: "?uri = scheme @ 58 # 47 # 47 # host @ ?V" and tail: "tail_pos (scheme @ 58 # 47 # 47 # host) ?V ?vpos"
    using uri_start(2) [OF wf] by (simp_all add: uri_of_texts port_text_def)
  have "parse_port ?uri (length scheme) ?vpos ?p = parse_hostname ?uri (length scheme + 3) npos ?vpos ?p"
    by (rule parse_port_none [OF uri _ _ tail]) (use seg in \<open>auto simp: segment_def\<close>)
  also have "\<dots> = Parsed (?p\<lparr>pt_hostname := host\<rparr>)"
  proof (rule parse_hostname_plain [of _ "scheme @ [58, 47, 47]"])
    show "sv_rfind ?uri [64] ?vpos = npos"
      by (rule tail_rfind_none [OF tail]) (use uri seg in \<open>auto simp: segment_def\<close>)
    show "host_end (length (scheme @ [58, 47, 47]) + length host) ?V npos ?vpos"
      using tail seg(1) uri by (auto simp: host_end_def tail_pos_def)
  qed (use uri seg(1) in simp_all)
  finally show ?thesis
    using uri_start(1) [OF wf] by simp
qed

text \<open>With user information and a port; what is left is \<open>parse_userinfo\<close>.\<close>

lemma parse_user_port:
  assumes wf: "well_formed_uri scheme (Some (user, pw)) host (Some n) vhost" and U: "userinfo_text (Some (user, pw)) = U @ [64]"
  shows "parseParts (uri_of scheme (Some (user, pw)) host (Some n) vhost) default_parts =
    parse_userinfo (uri_of scheme (Some (user, pw)) host (Some n) vhost) (length scheme + 3) (length scheme + 3 + length U)
      ((known_parts scheme vhost)\<lparr>pt_port := n, pt_hostname := host\<rparr>)"
proof -
  let ?uri = "uri_of scheme (Some (user, pw)) host (Some n) vhost" and ?vpos = "vhost_pos scheme (Some (user, pw)) host (Some n) vhost"
    and ?V = "vhost_text vhost" and ?pre = "scheme @ [58, 47, 47]" and ?p = "known_parts scheme vhost"
  note seg = well_formed_segments [OF wf]
  have uri: "?uri = (?pre @ U @ 64 # host) @ 58 # n @ ?V" and tail: "tail_pos ((?pre @ U @ 64 # host) @ 58 # n) ?V ?vpos"
    using uri_start(2) [OF wf] U by (simp_all add: uri_of_texts port_text_def)
  have "parse_port ?uri (length scheme) ?vpos ?p =
      parse_hostname ?uri (length scheme + 3) (length (?pre @ U @ 64 # host)) ?vpos (?p\<lparr>pt_port := n\<rparr>)"
    by (rule parse_port_given [OF uri _ _ _ tail]) (use seg in \<open>auto simp: segment_def\<close>)
  also have "\<dots> = parse_userinfo ?uri (length scheme + 3) (length ?pre + length U) (?p\<lparr>pt_port := n, pt_hostname := host\<rparr>)"
  proof (rule parse_hostname_user)
    show "sv_rfind ?uri [64] ?vpos = length ?pre + length U"
      using tail_rfind [of "?pre @ U" 64 "host @ 58 # n" ?V ?vpos ?uri] tail uri seg by (auto simp: segment_def)
    show "host_end (length ?pre + length U + 1 + length host) (58 # n @ ?V) (length (?pre @ U @ 64 # host)) ?vpos"
      using tail seg(1) uri by (auto simp: host_end_def tail_pos_def)
  qed (use uri seg(1) in simp_all)
  finally show ?thesis
    using uri_start(1) [OF wf] by (simp add: numeral_eq_Suc)
qed

lemma parse_user_password_port:
  assumes wf: "well_formed_uri scheme (Some (user, Some pw)) host (Some n) vhost"
  shows "parseParts (uri_of scheme (Some (user, Some pw)) host (Some n) vhost) default_parts =
    Parsed ((known_parts scheme vhost)\<lparr>pt_port := n, pt_hostname := host, pt_username := user, pt_password := pw\<rparr>)"
proof -
  note seg = well_formed_segments [OF wf]
  have "parse_userinfo (uri_of scheme (Some (user, Some pw)) host (Some n) vhost) (length scheme + 3)
      (length scheme + 3 + length (user @ 58 # pw)) p = Parsed (p\<lparr>pt_username := user, pt_password := pw\<rparr>)" for p
    by (rule parse_userinfo_password [of _ "scheme @ [58, 47, 47]" _ _ "host @ 58 # n @ vhost_text vhost"])
      (use seg in \<open>auto simp: segment_def uri_of_texts port_text_def\<close>)
  then show ?thesis
    using parse_user_port [OF wf, of "user @ 58 # pw"] by simp
qed

lemma parse_user_host:
  assumes wf: "well_formed_uri scheme (Some (user, None)) host None vhost" and colon: "\<And>v. vhost = Some v \<Longrightarrow> 58 \<notin> set v"
  shows "parseParts (uri_of scheme (Some (user, None)) host None vhost) default_parts =
    Parsed ((known_parts scheme vhost)\<lparr>pt_hostname := host, pt_username := user\<rparr>)"
proof -
  let ?uri = "uri_of scheme (Some (user, None)) host None vhost" and ?vpos = "vhost_pos scheme (Some (user, None)) host None vhost"
    and ?V = "vhost_text vhost" and ?pre = "scheme @ [58, 47, 47]" and ?p = "known_parts scheme vhost"
  note seg = well_formed_segments [OF wf]
  have uri: "?uri = scheme @ 58 # 47 # 47 # (user @ 64 # host) @ ?V"
    and tail: "tail_pos (scheme @ 58 # 47 # 47 # (user @ 64 # host)) ?V ?vpos"
    using uri_start(2) [OF wf] by (simp_all add: uri_of_texts port_text_def)
  have "58 \<notin> set ?V"
    using colon by (auto simp: vhost_text_def split: option.splits)
  have "parse_port ?uri (length scheme) ?vpos ?p = parse_hostname ?uri (length scheme + 3) npos ?vpos ?p"
    by (rule parse_port_none [OF uri _ _ tail]) (use seg in \<open>auto simp: segment_def\<close>)
  also have "\<dots> = parse_userinfo ?uri (length scheme + 3) (length ?pre + length user) (?p\<lparr>pt_hostname := host\<rparr>)"
  proof (rule parse_hostname_user)
    show "sv_rfind ?uri [64] ?vpos = length ?pre + length user"
      using tail_rfind [of "?pre @ user" 64 host ?V ?vpos ?uri] tail uri seg by (auto simp: segment_def)
    show "host_end (length ?pre + length user + 1 + length host) ?V npos ?vpos"
      using tail seg(1) uri by (auto simp: host_end_def tail_pos_def)
  qed (use uri seg(1) in simp_all)
  also have "\<dots> = Parsed (?p\<lparr>pt_hostname := host, pt_username := user\<rparr>)"
    by (rule parse_userinfo_plain [of _ ?pre _ "host @ ?V"]) (use uri seg \<open>58 \<notin> set ?V\<close> in \<open>auto simp: segment_def\<close>)
  finally show ?thesis
    using uri_start(1) [OF wf] by simp
qed

text \<open>A connection string of the grammar, with or without user information, password, port and virtual host, is
  taken apart into exactly its parts, with the defaults for those that are missing, if it has a port and a password
  together, or neither of them, or no user information at all.\<close>

theorem parseParts_grammar:
  assumes wf: "well_formed_uri scheme userinfo host port vhost" and "unambiguous userinfo port vhost"
  shows "parseParts (uri_of scheme userinfo host port vhost) default_parts = Parsed (parts_of scheme userinfo host port vhost)"
proof -
  note parts = parts_of_def known_parts_def default_parts_def
  consider n where "userinfo = None" "port = Some n" | "userinfo = None" "port = None"
    | user pw n where "userinfo = Some (user, Some pw)" "port = Some n"
    | user where "userinfo = Some (user, None)" "port = None" "\<And>v. vhost = Some v \<Longrightarrow> 58 \<notin> set v"
    using assms(2) by (cases "(userinfo, port, vhost)" rule: unambiguous.cases) auto
  then show ?thesis
  proof cases
    case 1
    then show ?thesis using parse_host_port wf by (simp add: parts)
  next
    case 2
    then show ?thesis using parse_host wf by (simp add: parts)
  next
    case 3
    then show ?thesis using parse_user_password_port wf by (simp add: parts)
  next
    case 4
    then show ?thesis using parse_user_host wf by (simp add: parts)
  qed
qed


text \<open>The grammar also allows a user name without a password before a host with a port, and there the code takes
  the colon of the port for the one between user name and password: the user name becomes \<open>user@host\<close> and the password
  the port and all that follows.\<close>

theorem user_and_port_confused:
  assumes wf: "well_formed_uri scheme (Some (user, None)) host (Some n) vhost"
  shows "parseParts (uri_of scheme (Some (user, None)) host (Some n) vhost) default_parts =
    Parsed ((parts_of scheme (Some (user, None)) host (Some n) vhost)
      \<lparr>pt_username := user @ bstr ''@'' @ host,
       pt_password := n @ (case vhost of None \<Rightarrow> [] | Some v \<Rightarrow> bstr ''/'' @ v)\<rparr>)"
proof -
  let ?uri = "uri_of scheme (Some (user, None)) host (Some n) vhost" and ?V = "vhost_text vhost" and ?q = "length scheme + 3"
  note seg = well_formed_segments [OF wf]
  have uri: "?uri = (scheme @ [58, 47, 47]) @ (user @ 64 # host) @ 58 # n @ ?V"
    by (simp add: uri_of_texts port_text_def)
  have colon: "58 \<notin> set (user @ 64 # host)"
    using seg by (auto simp: segment_def)
  let ?c = "?q + length (user @ 64 # host)"
  have c: "sv_find ?uri [58] ?q = ?c"
    using sv_find_first [OF colon, of ?uri "scheme @ [58, 47, 47]" "[]" "n @ ?V" ?q] uri by simp
  have len: "?c + 1 + length (n @ ?V) < npos"
    using seg(1) uri by simp
  have "substr ?uri ?q (minus_size ?c ?q) = Some (user @ 64 # host)"
    by (rule substr_mid [OF uri]) (use len in \<open>auto simp: minus_size_le\<close>)
  moreover have "substr ?uri (?c + 1) (minus_size (?q + length user) (?c + 1)) = Some (n @ ?V)"
  proof (rule substr_rest)
    show "?uri = ((scheme @ [58, 47, 47]) @ (user @ 64 # host) @ [58]) @ n @ ?V"
      by (simp add: uri)
    show "length (n @ ?V) \<le> minus_size (?q + length user) (?c + 1)"
      using len by (simp add: minus_size_wrap npos_def)
  qed simp
  ultimately have "parse_userinfo ?uri ?q (?q + length user) p =
      Parsed (p\<lparr>pt_username := user @ 64 # host, pt_password := n @ ?V\<rparr>)" for p
    using c len unfolding parse_userinfo_def Let_def by (simp del: length_append)
  then show ?thesis
    using parse_user_port [OF wf, of user]
    by (cases vhost) (simp_all add: parts_of_def known_parts_def default_parts_def vhost_text_def)
qed


text \<open>With a password and no port, both of which the grammar allows, the code takes the colon between user name and
  password for the one before the port: the port becomes \<open>password@host\<close>, and the host name, whose length is computed as
  the difference of a smaller and a larger position, reaches to the end of the string.\<close>

theorem password_taken_for_port:
  assumes wf: "well_formed_uri scheme (Some (user, Some pw)) host None vhost"
  shows "parseParts (uri_of scheme (Some (user, Some pw)) host None vhost) default_parts =
    Parsed ((parts_of scheme (Some (user, Some pw)) host None vhost)
      \<lparr>pt_port := pw @ bstr ''@'' @ host,
       pt_hostname := host @ (case vhost of None \<Rightarrow> [] | Some v \<Rightarrow> bstr ''/'' @ v)\<rparr>)"
proof -
  let ?uri = "uri_of scheme (Some (user, Some pw)) host None vhost" and ?V = "vhost_text vhost" and ?q = "length scheme + 3"
    and ?vpos = "vhost_pos scheme (Some (user, Some pw)) host None vhost" and ?pre = "scheme @ [58, 47, 47]"
    and ?p = "known_parts scheme vhost"
  note seg = well_formed_segments [OF wf]
  have uri: "?uri = (?pre @ user) @ 58 # (pw @ 64 # host) @ ?V" and tail: "tail_pos ((?pre @ user) @ 58 # (pw @ 64 # host)) ?V ?vpos"
    using uri_start(2) [OF wf] by (simp_all add: uri_of_texts port_text_def)
  let ?h = "length (?pre @ user @ 58 # pw)"
  have "parse_port ?uri (length scheme) ?vpos ?p =
      parse_hostname ?uri ?q (length (?pre @ user)) ?vpos (?p\<lparr>pt_port := pw @ 64 # host\<rparr>)"
    by (rule parse_port_given [OF uri _ _ _ tail]) (use seg in \<open>auto simp: segment_def\<close>)
  also have "\<dots> = parse_userinfo ?uri ?q ?h (?p\<lparr>pt_port := pw @ 64 # host, pt_hostname := host @ ?V\<rparr>)"
  proof -
    have at: "sv_rfind ?uri [64] ?vpos = ?h"
      using tail_rfind [of "?pre @ user @ 58 # pw" 64 host ?V ?vpos ?uri] tail uri seg by (auto simp: segment_def)
    have min: "min (length (?pre @ user)) ?vpos = length (?pre @ user)"
      using tail seg(1) uri by (auto simp: tail_pos_def)
    have "substr ?uri (?h + 1) (minus_size (length (?pre @ user)) (?h + 1)) = Some (host @ ?V)"
    proof (rule substr_rest)
      show "?uri = (?pre @ user @ 58 # pw @ [64]) @ host @ ?V"
        by (simp add: uri)
      show "length (host @ ?V) \<le> minus_size (length (?pre @ user)) (?h + 1)"
        using seg(1) uri by (simp add: minus_size_wrap npos_def)
    qed simp
    moreover have "?h \<noteq> npos"
      using seg(1) uri by simp
    ultimately show ?thesis
      using at min by (simp add: parse_hostname_def Let_def del: length_append)
  qed
  also have "\<dots> = Parsed (?p\<lparr>pt_port := pw @ 64 # host, pt_hostname := host @ ?V, pt_username := user, pt_password := pw\<rparr>)"
    by (rule parse_userinfo_password [of _ ?pre _ _ "host @ ?V"]) (use uri seg in \<open>auto simp: segment_def\<close>)
  finally show ?thesis
    using uri_start(1) [OF wf]
    by (cases vhost) (simp_all add: parts_of_def known_parts_def default_parts_def vhost_text_def)
qed

section \<open>Safety\<close>

lemma find_in_bound: "find_in p xs i = npos \<or> i \<le> find_in p xs i \<and> find_in p xs i + length p \<le> i + length xs"
proof (induction xs arbitrary: i)
  case (Cons x xs)
  have "matches_at (x # xs) p 0 \<Longrightarrow> length p \<le> Suc (length xs)"
    by (auto simp: matches_at_def dest: arg_cong [of _ _ length])
  then show ?case
    using Cons [of "Suc i"] by auto
qed auto

lemma sv_find_bound: "sv_find u p n \<noteq> npos \<Longrightarrow> n \<le> sv_find u p n \<and> sv_find u p n + length p \<le> length u"
  using find_in_bound [of p "drop n u" n] by (auto simp: sv_find_def split: if_splits)

lemma rfind_at_bound: "rfind_at u p n = npos \<or> rfind_at u p n \<le> n"
  by (induction n) auto

lemma sv_rfind_bound: "sv_rfind u p n \<noteq> npos \<Longrightarrow> sv_rfind u p n + length p \<le> length u"
  using rfind_at_bound [of u p "min n (length u - length p)"] by (auto simp: sv_rfind_def split: if_splits)

lemma with_substr_Thrown: "with_substr (substr u pos n) f = Thrown \<longleftrightarrow> pos > length u \<or> f (take n (drop pos u)) = Thrown"
  by (simp add: substr_def)

lemma with_substr_Parsed:
  "with_substr (substr u pos n) f = Parsed r \<longleftrightarrow> pos \<le> length u \<and> f (take n (drop pos u)) = Parsed r"
  by (auto simp: substr_def)

lemma parse_userinfo_safe: "q \<le> length uri \<Longrightarrow> parse_userinfo uri q hpos p \<noteq> Thrown"
  using sv_find_bound [of uri "[58]" q] by (auto simp: parse_userinfo_def Let_def with_substr_Thrown)

lemma parse_hostname_safe: "q \<le> length uri \<Longrightarrow> parse_hostname uri q ppos vpos p \<noteq> Thrown"
  using sv_rfind_bound [of uri "[64]" vpos]
  by (auto simp: parse_hostname_def Let_def with_substr_Thrown parse_userinfo_safe split: if_splits)

lemma parse_port_safe: "protocol_pos + 3 \<le> length uri \<Longrightarrow> parse_port uri protocol_pos vpos p \<noteq> Thrown"
  using sv_rfind_bound [of uri "[58]" vpos]
  by (auto simp: parse_port_def Let_def with_substr_Thrown parse_hostname_safe split: if_splits)

lemma parseParts_safe: "parseParts uri p \<noteq> Thrown"
  using sv_find_bound [of uri "[58, 47, 47]" 0] sv_rfind_bound [of uri "[47]" npos]
  by (auto simp: parseParts_def Let_def with_substr_Thrown parse_port_safe split: if_splits)

text \<open>The scheme is set once.\<close>

lemma parse_port_scheme: "parse_port uri q vpos p = Parsed r \<Longrightarrow> pt_scheme r = pt_scheme p"
  by (auto simp: parse_port_def parse_hostname_def parse_userinfo_def Let_def with_substr_Parsed split: if_splits)

lemma find_in_matches: "find_in p xs i = npos \<or> (\<exists>k. find_in p xs i = i + k \<and> matches_at xs p k)"
proof (induction xs arbitrary: i)
  case (Cons x xs)
  show ?case
  proof (cases "matches_at (x # xs) p 0")
    case False
    moreover have "matches_at xs p k \<Longrightarrow> matches_at (x # xs) p (Suc k)" for k
      by (simp add: matches_at_def)
    ultimately show ?thesis
      using Cons [of "Suc i"] by fastforce
  qed (use add_0_right in fastforce)
qed (simp add: matches_at_def)

lemma parseParts_scheme:
  assumes "parseParts uri p = Parsed r"
  shows "pt_scheme r = bstr ''amqp'' \<or> pt_scheme r = bstr ''amqps''"
    and "take (length (pt_scheme r) + 3) uri = pt_scheme r @ bstr ''://''"
proof -
  let ?pos = "sv_find uri [58, 47, 47] 0"
  have pos: "?pos \<noteq> npos" and scheme: "pt_scheme r = take ?pos uri" "pt_scheme r = bstr ''amqp'' \<or> pt_scheme r = bstr ''amqps''"
    using assms by (auto simp: parseParts_def Let_def with_substr_Parsed dest!: parse_port_scheme split: if_splits)
  then have "matches_at uri [58, 47, 47] ?pos" "?pos + 3 \<le> length uri"
    using find_in_matches [of "[58, 47, 47]" uri 0] sv_find_bound [OF pos] by (auto simp: sv_find_def)
  moreover from this have "take (?pos + 3) uri = take ?pos uri @ [58, 47, 47]"
    by (simp only: take_add matches_at_def) (simp add: numeral_3_eq_3)
  ultimately show "take (length (pt_scheme r) + 3) uri = pt_scheme r @ bstr ''://''"
    using scheme(1) by simp
  show "pt_scheme r = bstr ''amqp'' \<or> pt_scheme r = bstr ''amqps''"
    by (rule scheme(2))
qed

text \<open>C29: Whatever the string, parsing does not throw, and an accepted string gives an endpoint with a name, a port
  other than 0, and the protocol its scheme asks for; \<open>amqps\<close> needs security parameters.\<close>

theorem parse_accepts:
  "case parse uri sec of
     Thrown \<Rightarrow> False
   | Rejected \<Rightarrow> True
   | Parsed v \<Rightarrow>
       ep_address (vi_endpoint v) \<noteq> [] \<and> ep_port (vi_endpoint v) \<noteq> 0 \<and>
       take (length (protocol (vi_endpoint v)) + 3) uri = protocol (vi_endpoint v) @ bstr ''://'' \<and>
       (case vi_endpoint v of SimpleEndpoint _ _ _ \<Rightarrow> True | SecureEndpoint _ _ _ params \<Rightarrow> sec = Some params)"
proof (cases "parseParts uri default_parts")
  case (Parsed p)
  have port: "0 < n \<Longrightarrow> n \<le> 65535 \<Longrightarrow> (word_of_int n :: u16) \<noteq> 0" for n :: int
    by (auto simp: word_of_int_eq_0_iff zdvd_not_zless)
  show ?thesis
    using parseParts_scheme [OF Parsed] Parsed port
    by (auto simp: parse_def Let_def split: sum.splits option.splits)
qed (use parseParts_safe in \<open>auto simp: parse_def\<close>)


section \<open>Addresses\<close>

lemma digit_unat: "k < 10 \<Longrightarrow> unat (of_nat (48 + k) :: u8) = 48 + k"
  by (simp only: unat_of_nat) simp

lemma digit_value: "k < 10 \<Longrightarrow> uint (of_nat (48 + k) :: u8) = 48 + int k"
  using digit_unat [of k] by (simp only: uint_nat)

lemma digit_is_digit: "k < 10 \<Longrightarrow> is_digit (of_nat (48 + k))"
  using digit_unat [of k] by (simp only: is_digit_def word_le_nat_alt) simp

lemma to_digits_digits: "list_all is_digit (to_digits n) \<and> to_digits n \<noteq> []"
proof (induction n rule: to_digits.induct)
  case (1 n)
  then show ?case
    using digit_is_digit [of n] digit_is_digit [of "n mod 10"] by (subst (1 2) to_digits.simps) auto
qed

lemma digits_value_snoc: "digits_value (ds @ [d]) = 10 * digits_value ds + (uint d - 48)"
  by (simp add: digits_value_def)

lemma digits_value_to_digits: "digits_value (to_digits n) = int n"
proof (induction n rule: to_digits.induct)
  case (1 n)
  show ?case
  proof (cases "n < 10")
    case True
    then show ?thesis
      using digit_value [OF True] by (subst to_digits.simps) (simp add: digits_value_def)
  next
    case False
    then have "digits_value (to_digits n) = 10 * int (n div 10) + (uint (of_nat (48 + n mod 10) :: u8) - 48)"
      using 1 [OF False] by (subst to_digits.simps) (simp only: digits_value_snoc if_False)
    then show ?thesis
      using digit_value [of "n mod 10"] by (simp add: zdiv_int zmod_int)
  qed
qed

lemma stoi_to_digits:
  assumes "n \<le> 65535"
  shows "stoi (to_digits n) = Inr (int n)"
proof -
  obtain d ds where ds: "to_digits n = d # ds" "is_digit d" "list_all is_digit ds"
    using to_digits_digits [of n] by (cases "to_digits n") auto
  have "\<not> is_space d" "d \<noteq> 45" "d \<noteq> 43"
    using ds(2) by (auto simp: is_digit_def is_space_def word_le_nat_alt unat_arith_simps)
  moreover have tw: "takeWhile is_digit ds = ds"
    using ds(3) by (simp add: takeWhile_eq_all_conv list_all_iff)
  moreover have "digits_value (d # ds) = int n"
    using digits_value_to_digits [of n] ds(1) by simp
  ultimately show ?thesis
    using ds assms by (simp add: stoi_def Let_def tw)
qed

lemma segment_to_digits: "segment (to_digits n)"
proof -
  have "\<not> is_digit 58" "\<not> is_digit 47" "\<not> is_digit 64"
    by (simp_all add: is_digit_def)
  then show ?thesis
    using to_digits_digits [of n] by (auto simp: segment_def list_all_iff)
qed

text \<open>The address that an endpoint prints is parsed back into the same endpoint, with the default credentials.\<close>

theorem formatAddress_parses:
  assumes "segment (ep_address e)" "ep_address e \<noteq> []" "47 \<notin> set (ep_vhost e)" "ep_port e \<noteq> 0"
    and "length (formatAddress e) < npos"
    and "case e of SimpleEndpoint _ _ _ \<Rightarrow> True | SecureEndpoint _ _ _ params \<Rightarrow> sec = Some params"
  shows "parse (formatAddress e) sec =
    Parsed \<lparr>vi_endpoint = e, vi_credentials = \<lparr>pc_username = bstr ''guest'', pc_password = bstr ''guest''\<rparr>\<rparr>"
proof -
  let ?n = "to_digits (unat (ep_port e))"
  have uri: "formatAddress e = uri_of (protocol e) None (ep_address e) (Some ?n) (Some (ep_vhost e))"
    by (simp add: formatAddress_def uri_of_def)
  have "well_formed_uri (protocol e) None (ep_address e) (Some ?n) (Some (ep_vhost e))"
  proof -
    have "protocol e = bstr ''amqp'' \<or> protocol e = bstr ''amqps''" by (cases e) simp_all
    moreover have "length (uri_of (protocol e) None (ep_address e) (Some ?n) (Some (ep_vhost e))) < npos"
      using assms(5) uri by simp
    ultimately show ?thesis
      unfolding well_formed_uri_def using assms(1-3) segment_to_digits to_digits_digits by simp
  qed
  then have parts: "parseParts (formatAddress e) default_parts = Parsed (parts_of (protocol e) None (ep_address e) (Some ?n) (Some (ep_vhost e)))"
    using parseParts_grammar uri by simp
  have "unat (ep_port e) \<le> 65535" "unat (ep_port e) > 0"
    using assms(4) unsigned_less [of "ep_port e", where 'a = nat] by (auto simp: unat_gt_0)
  then have stoi: "stoi ?n = Inr (int (unat (ep_port e)))" and "\<not> (int (unat (ep_port e)) \<le> 0 \<or> int (unat (ep_port e)) > 65535)"
    using stoi_to_digits [of "unat (ep_port e)"] by linarith+
  moreover have "word_of_int (int (unat (ep_port e))) = ep_port e" by simp
  ultimately show ?thesis
    using parts assms(2,6) to_digits_digits [of "unat (ep_port e)"] by (cases e) (simp_all add: parse_def parts_of_def Let_def)
qed


section \<open>Witnesses\<close>

lemmas uri_simps = well_formed_uri_def segment_def uri_of_def bstr_def npos_def

theorem parseParts_grammar_witness:
  "parseParts (uri_of (bstr ''amqp'') (Some (bstr ''adam'', Some (bstr ''password''))) (bstr ''rabbit1.'') (Some (bstr ''5672''))
      (Some (bstr ''my-vhost''))) default_parts =
    Parsed \<lparr>pt_scheme = bstr ''amqp'', pt_username = bstr ''adam'', pt_password = bstr ''password'', pt_hostname = bstr ''rabbit1.'',
      pt_port = bstr ''5672'', pt_vhost = bstr ''my-vhost''\<rparr>"
proof -
  have "well_formed_uri (bstr ''amqp'') (Some (bstr ''adam'', Some (bstr ''password''))) (bstr ''rabbit1.'') (Some (bstr ''5672''))
      (Some (bstr ''my-vhost''))"
    by (simp add: uri_simps)
  then show ?thesis
    using parseParts_grammar [of "bstr ''amqp''" "Some (bstr ''adam'', Some (bstr ''password''))" "bstr ''rabbit1.''"
        "Some (bstr ''5672'')" "Some (bstr ''my-vhost'')"]
    by (simp add: parts_of_def)
qed

theorem user_and_port_confused_witness:
  "parseParts (uri_of (bstr ''amqp'') (Some (bstr ''adam'', None)) (bstr ''rabbit1'') (Some (bstr ''5672'')) (Some (bstr ''v''))) default_parts =
    Parsed \<lparr>pt_scheme = bstr ''amqp'', pt_username = bstr ''adam@rabbit1'', pt_password = bstr ''5672/v'',
      pt_hostname = bstr ''rabbit1'', pt_port = bstr ''5672'', pt_vhost = bstr ''v''\<rparr>"
proof -
  have "well_formed_uri (bstr ''amqp'') (Some (bstr ''adam'', None)) (bstr ''rabbit1'') (Some (bstr ''5672'')) (Some (bstr ''v''))"
    by (simp add: uri_simps)
  from user_and_port_confused [OF this] show ?thesis
    by (simp add: parts_of_def bstr_def)
qed

theorem password_taken_for_port_witness:
  "parseParts (uri_of (bstr ''amqp'') (Some (bstr ''adam'', Some (bstr ''12''))) (bstr ''rabbit1'') None (Some (bstr ''v''))) default_parts =
    Parsed \<lparr>pt_scheme = bstr ''amqp'', pt_username = bstr ''adam'', pt_password = bstr ''12'',
      pt_hostname = bstr ''rabbit1/v'', pt_port = bstr ''12@rabbit1'', pt_vhost = bstr ''v''\<rparr>"
proof -
  have "well_formed_uri (bstr ''amqp'') (Some (bstr ''adam'', Some (bstr ''12''))) (bstr ''rabbit1'') None (Some (bstr ''v''))"
    by (simp add: uri_simps)
  from password_taken_for_port [OF this] show ?thesis
    by (simp add: parts_of_def bstr_def)
qed

theorem formatAddress_parses_witness:
  "parse (formatAddress (SimpleEndpoint (bstr ''rabbit1'') (bstr ''v'') 5672 :: unit endpoint)) (None :: unit option) =
    Parsed \<lparr>vi_endpoint = SimpleEndpoint (bstr ''rabbit1'') (bstr ''v'') 5672,
      vi_credentials = \<lparr>pc_username = bstr ''guest'', pc_password = bstr ''guest''\<rparr>\<rparr>"
  by (rule formatAddress_parses) (simp_all add: uri_simps formatAddress_def to_digits.simps)

end
