(* ===== verification/Watchdog.thy ===== *)
theory Watchdog
  imports Channel_Map Message_Store
begin

text \<open>
  The detection of hung messages: \<open>rmqio::WatchDog\<close>, a timer that runs tasks again and again, and its task
  \<open>rmqa::ConnectionMonitor\<close>, which reports the messages of all receive channels that have not been settled in time.

  Connections are held by weak pointers: \<open>conns\<close> maps a pointer to the connection behind it while that exists. The
  receive channels of a connection are found through its channel map, and \<open>stores\<close> gives the message store of a channel.
  Times are integers in the resolution of the clock.
\<close>

section \<open>The monitor\<close>

record 'p ChannelContainer =
  cc_debugName :: bytes
  cc_channelMap :: "'p channel_map"

record 'c ConnectionMonitor =
  mo_messageProcessingTimeout :: int
  mo_connections :: "'c list"

definition ConnectionMonitor_new :: "int \<Rightarrow> 'c ConnectionMonitor" where
  "ConnectionMonitor_new messageProcessingTimeout =
     \<lparr>mo_messageProcessingTimeout = messageProcessingTimeout, mo_connections = []\<rparr>"

definition addConnection :: "'c \<Rightarrow> 'c ConnectionMonitor \<Rightarrow> 'c ConnectionMonitor" where
  "addConnection connection mo = mo\<lparr>mo_connections := mo_connections mo @ [connection]\<rparr>"

definition remove_destructed :: "('c \<Rightarrow> 'p ChannelContainer option) \<Rightarrow> 'c ConnectionMonitor \<Rightarrow> 'c ConnectionMonitor" where
  "remove_destructed conns mo = mo\<lparr>mo_connections := filter (\<lambda>c. conns c \<noteq> None) (mo_connections mo)\<rparr>"

text \<open>\<open>processHungMessages\<close> calls the callback for each message; a run yields the list of these calls.\<close>

fun hung_in_channels ::
  "int \<Rightarrow> ('p \<Rightarrow> ('g, 'm, int) message_store) \<Rightarrow> (u16 \<times> 'p) list \<Rightarrow> ('m, int) message_list" where
  "hung_in_channels cutoffTime stores [] = []"
| "hung_in_channels cutoffTime stores ((i, p) # channels) =
     getMessagesOlderThan cutoffTime (stores p) @ hung_in_channels cutoffTime stores channels"

fun hung_in_connections ::
  "int \<Rightarrow> ('c \<Rightarrow> 'p ChannelContainer option) \<Rightarrow> ('p \<Rightarrow> ('g, 'm, int) message_store) \<Rightarrow> 'c list \<Rightarrow> ('m, int) message_list" where
  "hung_in_connections cutoffTime conns stores [] = []"
| "hung_in_connections cutoffTime conns stores (c # cs) =
     (case conns c of
        Some connection \<Rightarrow> hung_in_channels cutoffTime stores (cm_receiveChannels (cc_channelMap connection))
      | None \<Rightarrow> []) @
     hung_in_connections cutoffTime conns stores cs"

definition monitor_run ::
  "int \<Rightarrow> ('c \<Rightarrow> 'p ChannelContainer option) \<Rightarrow> ('p \<Rightarrow> ('g, 'm, int) message_store) \<Rightarrow> 'c ConnectionMonitor \<Rightarrow>
     ('m, int) message_list \<times> 'c ConnectionMonitor" where
  "monitor_run now conns stores mo =
     (let cutoffTime = now - mo_messageProcessingTimeout mo;
          mo = remove_destructed conns mo in
      (hung_in_connections cutoffTime conns stores (mo_connections mo), mo))"

text \<open>\<open>fetchAliveConnectionInfo\<close>, with the debug names of the channels as an argument.\<close>

fun alive_info :: "('p \<Rightarrow> bytes) \<Rightarrow> ('c \<Rightarrow> 'p ChannelContainer option) \<Rightarrow> 'c list \<Rightarrow> (bytes \<times> bytes list) list" where
  "alive_info channelDebugName conns [] = []"
| "alive_info channelDebugName conns (c # cs) =
     (case conns c of
        None \<Rightarrow> alive_info channelDebugName conns cs
      | Some connection \<Rightarrow>
          (cc_debugName connection,
           map (\<lambda>(i, p). channelDebugName p) (cm_receiveChannels (cc_channelMap connection)) @
           map (\<lambda>(i, p). channelDebugName p) (cm_sendChannels (cc_channelMap connection))) #
          alive_info channelDebugName conns cs)"

definition fetchAliveConnectionInfo ::
  "('p \<Rightarrow> bytes) \<Rightarrow> ('c \<Rightarrow> 'p ChannelContainer option) \<Rightarrow> 'c ConnectionMonitor \<Rightarrow>
     (bytes \<times> bytes list) list \<times> 'c ConnectionMonitor" where
  "fetchAliveConnectionInfo channelDebugName conns mo =
     (let mo = remove_destructed conns mo in (alive_info channelDebugName conns (mo_connections mo), mo))"

section \<open>The watchdog\<close>

text \<open>The timer is the time at which it expires.\<close>

record 'k WatchDog =
  wd_tasks :: "'k list"
  wd_timer :: "int option"
  wd_timeout :: int

definition WatchDog_new :: "int \<Rightarrow> 'k WatchDog" where
  "WatchDog_new timeout = \<lparr>wd_tasks = [], wd_timer = None, wd_timeout = timeout\<rparr>"

definition addTask :: "'k \<Rightarrow> 'k WatchDog \<Rightarrow> 'k WatchDog" where
  "addTask task wd = wd\<lparr>wd_tasks := wd_tasks wd @ [task]\<rparr>"

definition WatchDog_start :: "int \<Rightarrow> 'k WatchDog \<Rightarrow> 'k WatchDog" where
  "WatchDog_start now wd = wd\<lparr>wd_timer := Some (now + wd_timeout wd)\<rparr>"

definition WatchDog_destroy :: "'k WatchDog \<Rightarrow> 'k WatchDog" where
  "WatchDog_destroy wd = wd\<lparr>wd_timer := None\<rparr>"

text \<open>\<open>run\<close>: \<open>alive\<close> says whether the weak pointer to a task can be locked, \<open>run_task\<close> is what its \<open>run\<close> does.\<close>

definition WatchDog_run :: "int \<Rightarrow> ('k \<Rightarrow> bool) \<Rightarrow> ('k \<Rightarrow> 's \<Rightarrow> 's) \<Rightarrow> 'k WatchDog \<Rightarrow> 's \<Rightarrow> 'k WatchDog \<times> 's" where
  "WatchDog_run now alive run_task wd s =
     (let wd = wd\<lparr>wd_timer := Some (now + wd_timeout wd), wd_tasks := filter alive (wd_tasks wd)\<rparr> in
      (wd, fold run_task (wd_tasks wd) s))"

definition timerCallback ::
  "interrupt_reason \<Rightarrow> int \<Rightarrow> ('k \<Rightarrow> bool) \<Rightarrow> ('k \<Rightarrow> 's \<Rightarrow> 's) \<Rightarrow> 'k WatchDog \<Rightarrow> 's \<Rightarrow> 'k WatchDog \<times> 's" where
  "timerCallback reason now alive run_task wd s =
     (if reason = EXPIRE then WatchDog_run now alive run_task wd s else (wd, s))"

section \<open>Both in a context\<close>

text \<open>
  What \<open>RabbitContextImpl\<close> sets up: a watchdog whose task is the monitor. Beside it: the clock, the connections and the
  stores of their receive channels, and the calls of the callback so far, with their times.
\<close>

record ('c, 'p, 'g, 'm) monitored =
  sy_now :: int
  sy_watchDog :: "unit WatchDog"
  sy_monitor :: "'c ConnectionMonitor"
  sy_conns :: "'c \<Rightarrow> 'p ChannelContainer option"
  sy_stores :: "'p \<Rightarrow> ('g, 'm, int) message_store"
  sy_reports :: "(int \<times> u64 \<times> 'm \<times> int) list"

definition context_start :: "int \<Rightarrow> int \<Rightarrow> int \<Rightarrow> ('c, 'p, 'g, 'm) monitored" where
  "context_start period timeout now =
     \<lparr>sy_now = now, sy_watchDog = WatchDog_start now (addTask () (WatchDog_new period)),
      sy_monitor = ConnectionMonitor_new timeout, sy_conns = (\<lambda>_. None), sy_stores = (\<lambda>_. MessageStore_new), sy_reports = []\<rparr>"

definition run_monitor :: "unit \<Rightarrow> ('c, 'p, 'g, 'm) monitored \<Rightarrow> ('c, 'p, 'g, 'm) monitored" where
  "run_monitor task s =
     (case monitor_run (sy_now s) (sy_conns s) (sy_stores s) (sy_monitor s) of
        (hung, mo) \<Rightarrow> s\<lparr>sy_monitor := mo, sy_reports := sy_reports s @ map (\<lambda>e. (sy_now s, e)) hung\<rparr>)"

text \<open>
  What happens: time passes, and the event loop runs an expired timer at most \<open>lateness\<close> late; the timer fires; a
  connection is made, gets a receive channel and is destructed; a channel stores a delivered message, whose tag is
  higher than those it has, and removes messages that are settled.
\<close>

datatype ('c, 'p, 'm) event =
    Advance int
  | Timer_fires
  | Add_connection 'c bytes
  | Add_channel 'c u16 'p
  | Destruct_connection 'c
  | Deliver 'p u64 'm
  | Settle 'p u64
  | Settle_until 'p u64

fun monitored_step ::
  "int \<Rightarrow> ('m \<Rightarrow> 'g) \<Rightarrow> ('c, 'p, 'm) event \<Rightarrow> ('c, 'p, 'g, 'm) monitored \<Rightarrow> ('c, 'p, 'g, 'm) monitored option" where
  "monitored_step lateness guid (Advance d) s =
     (if 0 \<le> d \<and> (case wd_timer (sy_watchDog s) of None \<Rightarrow> True | Some t \<Rightarrow> sy_now s + d \<le> t + lateness)
      then Some (s\<lparr>sy_now := sy_now s + d\<rparr>) else None)"
| "monitored_step lateness guid Timer_fires s =
     (case wd_timer (sy_watchDog s) of
        None \<Rightarrow> None
      | Some t \<Rightarrow>
          if t \<le> sy_now s then
            (case timerCallback EXPIRE (sy_now s) (\<lambda>_. True) run_monitor (sy_watchDog s) s of
               (wd, s) \<Rightarrow> Some (s\<lparr>sy_watchDog := wd\<rparr>))
          else None)"
| "monitored_step lateness guid (Add_connection c name) s =
     (if sy_conns s c = None \<and> c \<notin> set (mo_connections (sy_monitor s)) then
        Some (s\<lparr>sy_conns := (sy_conns s)(c \<mapsto> \<lparr>cc_debugName = name, cc_channelMap = ChannelMap_new\<rparr>),
                sy_monitor := addConnection c (sy_monitor s)\<rparr>)
      else None)"
| "monitored_step lateness guid (Add_channel c i p) s =
     (case sy_conns s c of
        None \<Rightarrow> None
      | Some cc \<Rightarrow>
          if ms_tagToMsg (sy_stores s p) = [] then
            Some (s\<lparr>sy_conns := (sy_conns s)(c \<mapsto> cc\<lparr>cc_channelMap := associateReceive i p (cc_channelMap cc)\<rparr>)\<rparr>)
          else None)"
| "monitored_step lateness guid (Destruct_connection c) s = Some (s\<lparr>sy_conns := (sy_conns s)(c := None)\<rparr>)"
| "monitored_step lateness guid (Deliver p tag m) s =
     (if latestTagInStore (sy_stores s p) < tag then
        Some (s\<lparr>sy_stores := (sy_stores s)(p := snd (store_insert guid (sy_now s) tag m (sy_stores s p)))\<rparr>)
      else None)"
| "monitored_step lateness guid (Settle p tag) s =
     Some (s\<lparr>sy_stores := (sy_stores s)(p := snd (store_remove guid tag (sy_stores s p)))\<rparr>)"
| "monitored_step lateness guid (Settle_until p tag) s =
     Some (s\<lparr>sy_stores := (sy_stores s)(p := snd (store_removeUntil guid tag (sy_stores s p)))\<rparr>)"

fun monitored_run ::
  "int \<Rightarrow> ('m \<Rightarrow> 'g) \<Rightarrow> ('c, 'p, 'm) event list \<Rightarrow> ('c, 'p, 'g, 'm) monitored \<Rightarrow> ('c, 'p, 'g, 'm) monitored option" where
  "monitored_run lateness guid [] s = Some s"
| "monitored_run lateness guid (e # es) s =
     (case monitored_step lateness guid e s of None \<Rightarrow> None | Some s' \<Rightarrow> monitored_run lateness guid es s')"


section \<open>Stores\<close>

lemma hung_in_channels_set:
  "set (hung_in_channels cutoff stores channels) = (\<Union>(i, p) \<in> set channels. set (getMessagesOlderThan cutoff (stores p)))"
  by (induction channels) auto

lemma hung_in_connections_set:
  "set (hung_in_connections cutoff conns stores cs) =
     (\<Union>c \<in> set cs. case conns c of None \<Rightarrow> {} | Some cc \<Rightarrow>
        \<Union>(i, p) \<in> set (cm_receiveChannels (cc_channelMap cc)). set (getMessagesOlderThan cutoff (stores p)))"
  by (induction cs) (auto simp: hung_in_channels_set split: option.splits)

definition stored_ok :: "('m \<Rightarrow> 'g) \<Rightarrow> int \<Rightarrow> ('g, 'm, int) message_store \<Rightarrow> bool" where
  "stored_ok guid now st \<longleftrightarrow> store_inv guid st \<and> times_sorted st \<and> (\<forall>(t, m, w) \<in> set (ms_tagToMsg st). w \<le> now)"

lemma older_set: "stored_ok guid now st \<Longrightarrow> set (getMessagesOlderThan cutoff st) = {(t, m, w) \<in> set (ms_tagToMsg st). w \<le> cutoff}"
  by (auto simp: stored_ok_def getMessagesOlderThan_def times_sorted_def times_sorted_older)

lemma stored_ok_later: "stored_ok guid now st \<Longrightarrow> now \<le> now' \<Longrightarrow> stored_ok guid now' st"
  by (fastforce simp: stored_ok_def)

lemma sorted_times_filter: "sorted (map (\<lambda>(t, m, w). w) es) \<Longrightarrow> sorted (map (\<lambda>(t, m, w). w) (filter P es))"
  by (rule sorted_filter)

lemma stored_ok_remove:
  assumes "stored_ok guid now st"
  shows "stored_ok guid now (snd (store_remove guid tag st)) \<and>
    set (ms_tagToMsg (snd (store_remove guid tag st))) \<subseteq> set (ms_tagToMsg st)"
  using assms store_inv_remove [of guid st tag]
  by (auto simp: stored_ok_def times_sorted_def store_remove_def om_erase_def intro: sorted_times_filter split: option.splits)

lemma stored_ok_removeUntil:
  assumes "stored_ok guid now st"
  shows "stored_ok guid now (snd (store_removeUntil guid tag st)) \<and>
    set (ms_tagToMsg (snd (store_removeUntil guid tag st))) \<subseteq> set (ms_tagToMsg st)"
proof -
  have "om_inv (ms_tagToMsg st)"
    using assms by (simp add: stored_ok_def store_inv_def)
  from remove_loop_result [OF this, of guid tag] show ?thesis
    using assms store_inv_removeUntil [of guid st tag]
    by (auto simp: stored_ok_def times_sorted_def store_removeUntil_def intro: sorted_times_filter split: prod.splits if_splits)
qed

lemma stored_ok_insert:
  assumes "stored_ok guid now st" and "latestTagInStore st < tag"
  shows "stored_ok guid now (snd (store_insert guid now tag m st)) \<and>
    set (ms_tagToMsg (snd (store_insert guid now tag m st))) \<subseteq> insert (tag, m, now) (set (ms_tagToMsg st))"
proof -
  have om: "om_inv (ms_tagToMsg st)"
    using assms(1) by (simp add: stored_ok_def store_inv_def)
  have "\<forall>k \<in> fst ` set (ms_tagToMsg st). k < tag"
    using assms(2) last_key_max [OF om]
    by (fastforce simp: latestTagInStore_def split: if_splits intro: order_le_less_trans)
  then have "om_put tag (m, now) (ms_tagToMsg st) = ms_tagToMsg st @ [(tag, m, now)]" "map_of (ms_tagToMsg st) tag = None"
    using om_put_append [of "ms_tagToMsg st" tag] by (auto simp: map_of_None_fresh)
  then show ?thesis
    using assms(1) store_inv_insert [of guid st now tag m]
    by (auto simp: stored_ok_def times_sorted_def store_insert_fresh sorted_append)
qed


section \<open>Every hung message is reported in time\<close>

definition reaches :: "('c, 'p, 'g, 'm) monitored \<Rightarrow> 'p \<Rightarrow> bool" where
  "reaches s p \<longleftrightarrow> (\<exists>c cc i. sy_conns s c = Some cc \<and> (i, p) \<in> set (cm_receiveChannels (cc_channelMap cc)))"

text \<open>The messages that were hung when the monitor last ran, one period before the timer expires, have been reported.\<close>

definition reported_until :: "int \<Rightarrow> ('c, 'p, 'g, 'm) monitored \<Rightarrow> bool" where
  "reported_until time s \<longleftrightarrow>
     (\<forall>p t m w. reaches s p \<longrightarrow> (t, m, w) \<in> set (ms_tagToMsg (sy_stores s p)) \<longrightarrow> w \<le> time \<longrightarrow>
        (\<exists>r. (r, t, m, w) \<in> set (sy_reports s)))"

definition monitored_inv :: "int \<Rightarrow> ('m \<Rightarrow> 'g) \<Rightarrow> int \<Rightarrow> int \<Rightarrow> ('c, 'p, 'g, 'm) monitored \<Rightarrow> bool" where
  "monitored_inv lateness guid period timeout s \<longleftrightarrow>
     mo_messageProcessingTimeout (sy_monitor s) = timeout \<and> wd_timeout (sy_watchDog s) = period \<and>
     wd_tasks (sy_watchDog s) = [()] \<and>
     (\<exists>t. wd_timer (sy_watchDog s) = Some t \<and> sy_now s \<le> t + lateness \<and> t - period \<le> sy_now s \<and>
       reported_until (t - period - timeout) s) \<and>
     (\<forall>c. sy_conns s c \<noteq> None \<longrightarrow> c \<in> set (mo_connections (sy_monitor s))) \<and>
     (\<forall>p. stored_ok guid (sy_now s) (sy_stores s p)) \<and>
     (\<forall>(r, t, m, w) \<in> set (sy_reports s). w + timeout \<le> r \<and> r \<le> sy_now s)"

lemma monitored_inv_store: "monitored_inv lateness guid period timeout s \<Longrightarrow> stored_ok guid (sy_now s) (sy_stores s p)"
  by (simp add: monitored_inv_def)

lemma reported_until_fewer:
  assumes "reported_until time s" "\<And>p. reaches s' p \<Longrightarrow> reaches s p \<or> ms_tagToMsg (sy_stores s' p) = []"
    "\<And>p. set (ms_tagToMsg (sy_stores s' p)) \<subseteq> set (ms_tagToMsg (sy_stores s p)) \<union> {(t, m, w). time < w}"
    "set (sy_reports s) \<subseteq> set (sy_reports s')"
  shows "reported_until time s'"
  unfolding reported_until_def
proof (intro allI impI)
  fix p t m w
  assume *: "reaches s' p" "(t, m, w) \<in> set (ms_tagToMsg (sy_stores s' p))" "w \<le> time"
  then have "reaches s p" "(t, m, w) \<in> set (ms_tagToMsg (sy_stores s p))"
    using assms(2) [OF *(1)] assms(3) [of p] by auto
  then show "\<exists>r. (r, t, m, w) \<in> set (sy_reports s')"
    using assms(1,4) *(3) unfolding reported_until_def by blast
qed

lemma stored_ok_new: "stored_ok guid now MessageStore_new"
  using store_inv_new [of guid] by (simp add: stored_ok_def times_sorted_def) (simp add: MessageStore_new_def)

lemma monitored_inv_start:
  "0 \<le> period \<Longrightarrow> 0 \<le> lateness \<Longrightarrow> monitored_inv lateness guid period timeout (context_start period timeout now)"
  by (auto simp: monitored_inv_def context_start_def WatchDog_start_def addTask_def WatchDog_new_def ConnectionMonitor_new_def
      reported_until_def reaches_def stored_ok_new)

text \<open>The timer.\<close>

lemma timer_reports:
  assumes inv: "monitored_inv lateness guid period timeout s" and P: "0 \<le> period" "0 \<le> lateness" "0 < timeout"
    and step: "monitored_step lateness guid Timer_fires s = Some s'"
  shows "monitored_inv lateness guid period timeout s'"
proof -
  let ?cs = "filter (\<lambda>c. sy_conns s c \<noteq> None) (mo_connections (sy_monitor s))"
  let ?hung = "hung_in_connections (sy_now s - timeout) (sy_conns s) (sy_stores s) ?cs"
  have ok: "stored_ok guid (sy_now s) (sy_stores s p)" for p
    using inv by (simp add: monitored_inv_def)
  have s': "s' = s\<lparr>sy_monitor := (sy_monitor s)\<lparr>mo_connections := ?cs\<rparr>, sy_reports := sy_reports s @ map (\<lambda>e. (sy_now s, e)) ?hung,
      sy_watchDog := (sy_watchDog s)\<lparr>wd_timer := Some (sy_now s + period), wd_tasks := [()]\<rparr>\<rparr>"
    using step inv by (auto simp: monitored_inv_def timerCallback_def WatchDog_run_def run_monitor_def monitor_run_def
        remove_destructed_def Let_def split: option.splits if_splits)
  have hung: "(t, m, w) \<in> set ?hung \<longleftrightarrow>
      (\<exists>p. reaches s p \<and> (t, m, w) \<in> set (ms_tagToMsg (sy_stores s p)) \<and> w \<le> sy_now s - timeout)" for t m w
    using inv older_set [OF ok]
    by (fastforce simp: hung_in_connections_set reaches_def monitored_inv_def split: option.splits)
  have "reported_until (sy_now s - timeout) s'"
    unfolding reported_until_def s' reaches_def using hung by (fastforce simp: reaches_def)
  moreover have "\<forall>(r, t, m, w) \<in> set (sy_reports s'). w + timeout \<le> r \<and> r \<le> sy_now s"
    using inv hung by (fastforce simp: s' monitored_inv_def)
  ultimately show ?thesis
    using inv P by (auto simp: monitored_inv_def s')
qed

text \<open>The other steps: they report nothing, and what is new is not hung yet.\<close>

lemma quiet_step:
  assumes inv: "monitored_inv lateness guid period timeout s" and "0 < timeout"
    and "sy_watchDog s' = sy_watchDog s" "sy_reports s' = sy_reports s" "sy_now s \<le> sy_now s'"
    and "\<And>t. wd_timer (sy_watchDog s) = Some t \<Longrightarrow> sy_now s' \<le> t + lateness"
    and "mo_messageProcessingTimeout (sy_monitor s') = timeout"
    and "\<And>c. sy_conns s' c \<noteq> None \<Longrightarrow> c \<in> set (mo_connections (sy_monitor s'))"
    and "\<And>p. reaches s' p \<Longrightarrow> reaches s p \<or> ms_tagToMsg (sy_stores s' p) = []"
    and "\<And>p. stored_ok guid (sy_now s') (sy_stores s' p)"
    and "\<And>p. set (ms_tagToMsg (sy_stores s' p)) \<subseteq> set (ms_tagToMsg (sy_stores s p)) \<union> {(t, m, w). w = sy_now s}"
  shows "monitored_inv lateness guid period timeout s'"
proof -
  obtain t where t: "wd_timer (sy_watchDog s) = Some t" "t - period \<le> sy_now s" "reported_until (t - period - timeout) s"
    using inv by (auto simp: monitored_inv_def)
  have "reported_until (t - period - timeout) s'"
    by (rule reported_until_fewer [OF t(3) assms(9)]) (use assms(2,4,11) t(2) in fastforce)+
  then show ?thesis
    using assms t by (fastforce simp: monitored_inv_def)
qed

lemma store_step:
  assumes inv: "monitored_inv lateness guid period timeout s" and "0 < timeout"
    and st: "stored_ok guid (sy_now s) st"
      "set (ms_tagToMsg st) \<subseteq> set (ms_tagToMsg (sy_stores s p)) \<union> {(t, m, w). w = sy_now s}"
  shows "monitored_inv lateness guid period timeout (s\<lparr>sy_stores := (sy_stores s)(p := st)\<rparr>)"
proof (rule quiet_step [OF assms(1,2)])
  fix q
  show "stored_ok guid (sy_now (s\<lparr>sy_stores := (sy_stores s)(p := st)\<rparr>)) (sy_stores (s\<lparr>sy_stores := (sy_stores s)(p := st)\<rparr>) q)"
    using inv st(1) by (simp add: monitored_inv_def)
  show "set (ms_tagToMsg (sy_stores (s\<lparr>sy_stores := (sy_stores s)(p := st)\<rparr>) q)) \<subseteq>
      set (ms_tagToMsg (sy_stores s q)) \<union> {(t, m, w). w = sy_now s}"
    using st(2) by (cases "q = p") auto
  assume "reaches (s\<lparr>sy_stores := (sy_stores s)(p := st)\<rparr>) q"
  then show "reaches s q \<or> ms_tagToMsg (sy_stores (s\<lparr>sy_stores := (sy_stores s)(p := st)\<rparr>) q) = []"
    by (simp add: reaches_def)
qed (use inv in \<open>auto simp: monitored_inv_def\<close>)

lemma reaches_put:
  assumes "reaches s' p" "sy_conns s' = (sy_conns s)(c \<mapsto> cc)"
  shows "reaches s p \<or> (\<exists>i. (i, p) \<in> set (cm_receiveChannels (cc_channelMap cc)))"
proof -
  obtain c' cc' i where *: "sy_conns s' c' = Some cc'" "(i, p) \<in> set (cm_receiveChannels (cc_channelMap cc'))"
    using assms(1) by (auto simp: reaches_def)
  show ?thesis
  proof (cases "c' = c")
    case True
    then show ?thesis using * assms(2) by auto
  next
    case False
    then have "sy_conns s c' = Some cc'"
      using *(1) assms(2) by simp
    then show ?thesis
      using *(2) unfolding reaches_def by blast
  qed
qed

lemma monitored_inv_step:
  assumes inv: "monitored_inv lateness guid period timeout s" and P: "0 \<le> period" "0 \<le> lateness" "0 < timeout"
    and step: "monitored_step lateness guid e s = Some s'"
  shows "monitored_inv lateness guid period timeout s'"
proof (cases e)
  case Timer_fires
  then show ?thesis
    using timer_reports [OF inv P] step by simp
next
  case (Advance d)
  then have "s' = s\<lparr>sy_now := sy_now s + d\<rparr>" "0 \<le> d" "\<And>t. wd_timer (sy_watchDog s) = Some t \<Longrightarrow> sy_now s + d \<le> t + lateness"
    using step by (auto split: if_splits)
  moreover have "stored_ok guid (sy_now s) (sy_stores s p)" for p
    using inv by (simp add: monitored_inv_def)
  ultimately show ?thesis
    using inv stored_ok_later [of guid "sy_now s" _ "sy_now s + d"]
    by (intro quiet_step [OF inv P(3)]) (auto simp: reaches_def monitored_inv_def)
next
  case (Add_connection c name)
  then have s': "s' = s\<lparr>sy_conns := (sy_conns s)(c \<mapsto> \<lparr>cc_debugName = name, cc_channelMap = ChannelMap_new\<rparr>),
      sy_monitor := addConnection c (sy_monitor s)\<rparr>"
    using step by (auto split: if_splits)
  have "reaches s' p \<Longrightarrow> reaches s p" for p
    using reaches_put [of s' p s c "\<lparr>cc_debugName = name, cc_channelMap = ChannelMap_new\<rparr>"] by (auto simp: s' ChannelMap_new_def)
  then show ?thesis
    using inv by (intro quiet_step [OF inv P(3)]) (auto simp: s' monitored_inv_def addConnection_def split: if_splits)
next
  case (Add_channel c i p)
  then obtain cc where s': "s' = s\<lparr>sy_conns := (sy_conns s)(c \<mapsto> cc\<lparr>cc_channelMap := associateReceive i p (cc_channelMap cc)\<rparr>)\<rparr>"
    and cc: "sy_conns s c = Some cc" and empty: "ms_tagToMsg (sy_stores s p) = []"
    using step by (auto split: if_splits option.splits)
  have "reaches s' q \<Longrightarrow> reaches s q \<or> ms_tagToMsg (sy_stores s' q) = []" for q
  proof -
    assume "reaches s' q"
    then consider "reaches s q" | j where "(j, q) \<in> set (om_put i p (cm_receiveChannels (cc_channelMap cc)))"
      using reaches_put [of s' q s c "cc\<lparr>cc_channelMap := associateReceive i p (cc_channelMap cc)\<rparr>"]
      by (auto simp: s' associateReceive_def)
    then show ?thesis
    proof cases
      case 2
      then have "q = p \<or> (j, q) \<in> set (cm_receiveChannels (cc_channelMap cc))"
        using set_om_put [of i p "cm_receiveChannels (cc_channelMap cc)"] by auto
      then show ?thesis
        using cc empty by (auto simp: s' reaches_def)
    qed simp
  qed
  then show ?thesis
    using inv cc by (intro quiet_step [OF inv P(3)]) (auto simp: s' monitored_inv_def split: if_splits)
next
  case (Destruct_connection c)
  then have s': "s' = s\<lparr>sy_conns := (sy_conns s)(c := None)\<rparr>"
    using step by simp
  have "reaches s' p \<Longrightarrow> reaches s p" for p
    unfolding reaches_def s' by (force split: if_splits)
  then show ?thesis
    using inv by (intro quiet_step [OF inv P(3)]) (auto simp: s' monitored_inv_def split: if_splits)
next
  case (Deliver p tag m)
  then have tag: "latestTagInStore (sy_stores s p) < tag"
    using step by (auto split: if_splits)
  then show ?thesis
    using step Deliver stored_ok_insert [OF monitored_inv_store [OF inv] tag, of m] by (auto intro!: store_step [OF inv P(3)])
next
  case (Settle p tag)
  then show ?thesis
    using step stored_ok_remove [OF monitored_inv_store [OF inv, of p], of tag] by (auto intro!: store_step [OF inv P(3)])
next
  case (Settle_until p tag)
  then show ?thesis
    using step stored_ok_removeUntil [OF monitored_inv_store [OF inv, of p], of tag] by (auto intro!: store_step [OF inv P(3)])
qed


lemma monitored_inv_run:
  assumes "monitored_run lateness guid es s = Some s'" "monitored_inv lateness guid period timeout s"
    and P: "0 \<le> period" "0 \<le> lateness" "0 < timeout"
  shows "monitored_inv lateness guid period timeout s'"
  using assms
proof (induction lateness guid es s rule: monitored_run.induct)
  case (2 lateness guid e es s)
  then obtain s1 where step: "monitored_step lateness guid e s = Some s1" "monitored_run lateness guid es s1 = Some s'"
    by (auto split: option.splits)
  then have "monitored_inv lateness guid period timeout s1"
    using monitored_inv_step [OF 2(3) _ _ _ step(1)] 2(4-6) by simp
  then show ?case
    using 2 step by simp
qed simp

text \<open>C28: A message that a receive channel of an existing connection holds for the timeout, a period of the watchdog and
  the lateness of the event loop has been reported, whatever else happened; and what is reported had been held for
  at least the timeout.\<close>

theorem hung_messages_reported:
  assumes run: "monitored_run lateness guid es (context_start period timeout start) = Some s"
    and P: "0 \<le> period" "0 \<le> lateness" "0 < timeout"
    and conn: "sy_conns s c = Some cc" "(i, p) \<in> set (cm_receiveChannels (cc_channelMap cc))"
    and msg: "(tag, m, w) \<in> set (ms_tagToMsg (sy_stores s p))" "w + timeout + period + lateness \<le> sy_now s"
  shows "(\<exists>r. (r, tag, m, w) \<in> set (sy_reports s)) \<and>
    (\<forall>r t' m' w'. (r, t', m', w') \<in> set (sy_reports s) \<longrightarrow> w' + timeout \<le> r \<and> r \<le> sy_now s)"
proof -
  have inv: "monitored_inv lateness guid period timeout s"
    using monitored_inv_run [OF run monitored_inv_start P] P by simp
  then obtain t where t: "sy_now s \<le> t + lateness" "reported_until (t - period - timeout) s"
    by (auto simp: monitored_inv_def)
  have "reaches s p"
    using conn unfolding reaches_def by blast
  moreover have "w \<le> t - period - timeout"
    using t(1) msg(2) by linarith
  ultimately have "\<exists>r. (r, tag, m, w) \<in> set (sy_reports s)"
    using t(2) msg(1) unfolding reported_until_def by blast
  then show ?thesis
    using inv by (fastforce simp: monitored_inv_def)
qed

text \<open>One message, delivered at time 5 and not settled, with a timeout of 60 and a period of 60: the timer fires at 60,
  too early for it, and at 120.\<close>

definition sample_events :: "(nat, nat, nat) event list" where
  "sample_events =
     [Add_connection 0 (bstr ''c''), Add_channel 0 1 0, Advance 5, Deliver 0 1 7, Advance 55, Timer_fires, Advance 60,
      Timer_fires, Advance 10]"

lemma sample_events_run:
  "\<exists>s. monitored_run 0 id sample_events (context_start 60 60 0) = Some s \<and>
     sy_conns s 0 = Some \<lparr>cc_debugName = bstr ''c'', cc_channelMap = associateReceive 1 0 ChannelMap_new\<rparr> \<and>
     sy_stores s 0 = snd (store_insert id 5 1 7 MessageStore_new) \<and> sy_now s = 130"
  by (simp add: sample_events_def context_start_def WatchDog_start_def addTask_def WatchDog_new_def ConnectionMonitor_new_def
      addConnection_def timerCallback_def WatchDog_run_def run_monitor_def monitor_run_def remove_destructed_def
      latestTagInStore_def MessageStore_new_def ChannelMap_new_def associateReceive_def store_insert_fresh getMessagesOlderThan_def)

theorem hung_messages_reported_witness:
  "\<exists>s r. monitored_run 0 id sample_events (context_start 60 60 0) = Some s \<and> (r, 1, 7, 5) \<in> set (sy_reports s)"
proof -
  obtain s where s: "monitored_run 0 id sample_events (context_start 60 60 0) = Some s"
    "sy_conns s 0 = Some \<lparr>cc_debugName = bstr ''c'', cc_channelMap = associateReceive 1 0 ChannelMap_new\<rparr>"
    "sy_stores s 0 = snd (store_insert id 5 1 7 MessageStore_new)" "sy_now s = 130"
    using sample_events_run by blast
  have "(1, 7, 5) \<in> set (ms_tagToMsg (sy_stores s 0))"
    by (simp add: s(3) store_insert_fresh MessageStore_new_def)
  then show ?thesis
    using hung_messages_reported [OF s(1) _ _ _ s(2), of 1 0 1 7 5] s by (auto simp: associateReceive_def ChannelMap_new_def)
qed

text \<open>\<open>fetchAliveConnectionInfo\<close> lists the existing connections in the order in which they were added, each with
  its receive channels and then its send channels.\<close>

theorem alive_connections_listed:
  "fetchAliveConnectionInfo channelDebugName conns mo =
     (map (\<lambda>c. let cc = the (conns c) in
        (cc_debugName cc,
         map (channelDebugName \<circ> snd) (cm_receiveChannels (cc_channelMap cc)) @
         map (channelDebugName \<circ> snd) (cm_sendChannels (cc_channelMap cc))))
        (filter (\<lambda>c. conns c \<noteq> None) (mo_connections mo)),
      mo\<lparr>mo_connections := filter (\<lambda>c. conns c \<noteq> None) (mo_connections mo)\<rparr>)"
proof -
  have "alive_info channelDebugName conns (filter (\<lambda>c. conns c \<noteq> None) cs) =
     map (\<lambda>c. let cc = the (conns c) in
        (cc_debugName cc,
         map (channelDebugName \<circ> snd) (cm_receiveChannels (cc_channelMap cc)) @
         map (channelDebugName \<circ> snd) (cm_sendChannels (cc_channelMap cc))))
        (filter (\<lambda>c. conns c \<noteq> None) cs)" for cs
    by (induction cs) (auto simp: case_prod_beta' comp_def split: option.splits)
  then show ?thesis
    by (simp add: fetchAliveConnectionInfo_def remove_destructed_def Let_def)
qed

end
