(* ===== verification/Topology_Builder.thy ===== *)
theory Topology_Builder
  imports Topology
begin

text \<open>
  \<open>rmqa::Topology\<close> and \<open>rmqa::TopologyUpdate\<close>: how an application puts a topology together before it is declared.

  The handles an application gets are weak pointers to objects that the topology owns; they are numbered, and 0 is the
  empty pointer. The handles of the queues and exchanges are kept beside their lists. The regular expression of
  \<open>ExchangeUtil::validateName\<close> is matched by a library; whether a name matches is the argument \<open>regex_match\<close>.
\<close>

section \<open>The builder\<close>

record 'dt topology_builder =
  tb_topology :: "'dt topology"
  tb_queueHandles :: "handle list"
  tb_exchangeHandles :: "handle list"
  tb_defaultExchange :: handle
  tb_next :: handle

definition null_handle :: handle where
  "null_handle = 0"

definition Topology_new :: "'dt topology_builder" where
  "Topology_new =
     \<lparr>tb_topology = \<lparr>t_queues = [], t_exchanges = [], t_queueBindings = [], t_exchangeBindings = []\<rparr>,
      tb_queueHandles = [], tb_exchangeHandles = [], tb_defaultExchange = null_handle, tb_next = 1\<rparr>"

definition MAX_EXCHANGE_NAME_LENGTH :: nat where
  "MAX_EXCHANGE_NAME_LENGTH = 127"

definition validateName :: "(bytes \<Rightarrow> bool) \<Rightarrow> bytes \<Rightarrow> bool" where
  "validateName regex_match exchangeName \<longleftrightarrow> length exchangeName \<le> MAX_EXCHANGE_NAME_LENGTH \<and> regex_match exchangeName"

text \<open>\<open>None\<close> if there is an item of this name.\<close>

definition insertIfNotDupe :: "('a \<Rightarrow> bytes) \<Rightarrow> 'a \<Rightarrow> 'a list \<Rightarrow> 'a list option" where
  "insertIfNotDupe item_name newItem container =
     (case find (\<lambda>item. item_name newItem = item_name item) container of
        None \<Rightarrow> Some (container @ [newItem])
      | Some _ \<Rightarrow> None)"

definition addQueueImpl :: "'dt queue \<Rightarrow> 'dt topology_builder \<Rightarrow> handle \<times> 'dt topology_builder" where
  "addQueueImpl q b =
     (case insertIfNotDupe queue_name q (t_queues (tb_topology b)) of
        None \<Rightarrow> (null_handle, b)
      | Some qs \<Rightarrow>
          (tb_next b,
           b\<lparr>tb_topology := (tb_topology b)\<lparr>t_queues := qs\<rparr>, tb_queueHandles := tb_queueHandles b @ [tb_next b],
             tb_next := tb_next b + 1\<rparr>))"

definition addExchangeImpl ::
  "(bytes \<Rightarrow> bool) \<Rightarrow> 'dt exchange \<Rightarrow> 'dt topology_builder \<Rightarrow> handle \<times> 'dt topology_builder" where
  "addExchangeImpl regex_match x b =
     (if \<not> validateName regex_match (exchange_name x) then (null_handle, b)
      else
        (case insertIfNotDupe exchange_name x (t_exchanges (tb_topology b)) of
           None \<Rightarrow> (null_handle, b)
         | Some xs \<Rightarrow>
             (tb_next b,
              b\<lparr>tb_topology := (tb_topology b)\<lparr>t_exchanges := xs\<rparr>, tb_exchangeHandles := tb_exchangeHandles b @ [tb_next b],
                tb_next := tb_next b + 1\<rparr>)))"

definition addQueue ::
  "bytes \<Rightarrow> bool \<Rightarrow> bool \<Rightarrow> 'dt field_table \<Rightarrow> 'dt topology_builder \<Rightarrow> handle \<times> 'dt topology_builder" where
  "addQueue name autoDelete durable args =
     addQueueImpl \<lparr>queue_name = name, queue_passive = False, queue_autoDelete = autoDelete, queue_durable = durable,
       queue_arguments = args\<rparr>"

definition addExchange ::
  "(bytes \<Rightarrow> bool) \<Rightarrow> bytes \<Rightarrow> bytes \<Rightarrow> bool \<Rightarrow> bool \<Rightarrow> bool \<Rightarrow> 'dt field_table \<Rightarrow> 'dt topology_builder \<Rightarrow>
     handle \<times> 'dt topology_builder" where
  "addExchange regex_match name exchangeType autoDelete durable internal args =
     addExchangeImpl regex_match
       \<lparr>exchange_name = name, exchange_type = exchangeType, exchange_passive = False, exchange_autoDelete = autoDelete,
        exchange_durable = durable, exchange_internal = internal, exchange_arguments = args\<rparr>"

text \<open>The other parameters of the constructors have their defaults.\<close>

definition addPassiveQueue :: "bytes \<Rightarrow> 'dt topology_builder \<Rightarrow> handle \<times> 'dt topology_builder" where
  "addPassiveQueue name =
     addQueueImpl \<lparr>queue_name = name, queue_passive = True, queue_autoDelete = False, queue_durable = True, queue_arguments = []\<rparr>"

definition addPassiveExchange ::
  "(bytes \<Rightarrow> bool) \<Rightarrow> bytes \<Rightarrow> 'dt topology_builder \<Rightarrow> handle \<times> 'dt topology_builder" where
  "addPassiveExchange regex_match name =
     addExchangeImpl regex_match
       \<lparr>exchange_name = name, exchange_type = bstr ''direct'', exchange_passive = True, exchange_autoDelete = False,
        exchange_durable = True, exchange_internal = False, exchange_arguments = []\<rparr>"

definition bind_queue ::
  "handle \<Rightarrow> handle \<Rightarrow> bytes \<Rightarrow> 'dt field_table \<Rightarrow> 'dt topology_builder \<Rightarrow> 'dt topology_builder" where
  "bind_queue exchange queue bindingKey args b =
     b\<lparr>tb_topology := (tb_topology b)\<lparr>t_queueBindings := t_queueBindings (tb_topology b) @
         [\<lparr>qb_exchange = exchange, qb_queue = queue, qb_bindingKey = bindingKey, qb_args = args\<rparr>]\<rparr>\<rparr>"

definition bind_exchange ::
  "handle \<Rightarrow> handle \<Rightarrow> bytes \<Rightarrow> 'dt field_table \<Rightarrow> 'dt topology_builder \<Rightarrow> 'dt topology_builder" where
  "bind_exchange sourceExchange destinationExchange bindingKey args b =
     b\<lparr>tb_topology := (tb_topology b)\<lparr>t_exchangeBindings := t_exchangeBindings (tb_topology b) @
         [\<lparr>xb_sourceExchange = sourceExchange, xb_destinationExchange = destinationExchange, xb_bindingKey = bindingKey,
           xb_args = args\<rparr>]\<rparr>\<rparr>"

text \<open>Locking a handle of a topology that exists.\<close>

definition built_objects :: "'dt topology_builder \<Rightarrow> 'dt live_objects" where
  "built_objects b =
     \<lparr>lock_queue = map_of (zip (tb_queueHandles b) (t_queues (tb_topology b))),
      lock_exchange = map_of (zip (tb_exchangeHandles b) (t_exchanges (tb_topology b)))\<rparr>"

definition defaultExchange :: "(bytes \<Rightarrow> bool) \<Rightarrow> 'dt topology_builder \<Rightarrow> handle \<times> 'dt topology_builder" where
  "defaultExchange regex_match b =
     (if lock_exchange (built_objects b) (tb_defaultExchange b) = None then
        (case addExchangeImpl regex_match
             \<lparr>exchange_name = [], exchange_type = bstr ''direct'', exchange_passive = False, exchange_autoDelete = False,
              exchange_durable = True, exchange_internal = False, exchange_arguments = []\<rparr> b of
           (h, b) \<Rightarrow> (h, b\<lparr>tb_defaultExchange := h\<rparr>))
      else (tb_defaultExchange b, b))"

section \<open>Updates\<close>

definition tu_bind :: "handle \<Rightarrow> handle \<Rightarrow> bytes \<Rightarrow> 'dt field_table \<Rightarrow> 'dt topology_update \<Rightarrow> 'dt topology_update" where
  "tu_bind exchange queue bindingKey args u =
     u @ [Up_bind \<lparr>qb_exchange = exchange, qb_queue = queue, qb_bindingKey = bindingKey, qb_args = args\<rparr>]"

definition tu_unbind :: "handle \<Rightarrow> handle \<Rightarrow> bytes \<Rightarrow> 'dt field_table \<Rightarrow> 'dt topology_update \<Rightarrow> 'dt topology_update" where
  "tu_unbind exchange queue bindingKey args u =
     u @ [Up_unbind \<lparr>qb_exchange = exchange, qb_queue = queue, qb_bindingKey = bindingKey, qb_args = args\<rparr>]"

definition tu_deleteQueue :: "bytes \<Rightarrow> bool \<Rightarrow> bool \<Rightarrow> 'dt topology_update \<Rightarrow> 'dt topology_update" where
  "tu_deleteQueue queueName ifUnused ifEmpty u =
     u @ [Up_delete \<lparr>qd_name = queueName, qd_ifUnused = ifUnused, qd_ifEmpty = ifEmpty, qd_noWait = False\<rparr>]"

section \<open>Sequences of calls\<close>

datatype 'dt builder_call =
    Add_queue bytes bool bool "'dt field_table"
  | Add_passive_queue bytes
  | Add_exchange bytes bytes bool bool bool "'dt field_table"
  | Add_passive_exchange bytes
  | Default_exchange
  | Bind_queue handle handle bytes "'dt field_table"
  | Bind_exchange handle handle bytes "'dt field_table"

text \<open>A call yields the handle it returns (the binding calls return none).\<close>

fun build_step :: "(bytes \<Rightarrow> bool) \<Rightarrow> 'dt builder_call \<Rightarrow> 'dt topology_builder \<Rightarrow> handle \<times> 'dt topology_builder" where
  "build_step rx (Add_queue name a d args) b = addQueue name a d args b"
| "build_step rx (Add_passive_queue name) b = addPassiveQueue name b"
| "build_step rx (Add_exchange name ty a d i args) b = addExchange rx name ty a d i args b"
| "build_step rx (Add_passive_exchange name) b = addPassiveExchange rx name b"
| "build_step rx Default_exchange b = defaultExchange rx b"
| "build_step rx (Bind_queue x q key args) b = (null_handle, bind_queue x q key args b)"
| "build_step rx (Bind_exchange s d key args) b = (null_handle, bind_exchange s d key args b)"

fun build :: "(bytes \<Rightarrow> bool) \<Rightarrow> 'dt builder_call list \<Rightarrow> 'dt topology_builder \<Rightarrow> 'dt topology_builder" where
  "build rx [] b = b"
| "build rx (c # cs) b = build rx cs (snd (build_step rx c b))"


section \<open>Names and handles\<close>

definition builder_ok :: "(bytes \<Rightarrow> bool) \<Rightarrow> 'dt topology_builder \<Rightarrow> bool" where
  "builder_ok rx b \<longleftrightarrow>
     length (tb_queueHandles b) = length (t_queues (tb_topology b)) \<and>
     length (tb_exchangeHandles b) = length (t_exchanges (tb_topology b)) \<and>
     distinct (tb_queueHandles b) \<and> distinct (tb_exchangeHandles b) \<and>
     (\<forall>h \<in> set (tb_queueHandles b) \<union> set (tb_exchangeHandles b). 0 < h \<and> h < tb_next b) \<and> 0 < tb_next b \<and>
     distinct (map queue_name (t_queues (tb_topology b))) \<and> distinct (map exchange_name (t_exchanges (tb_topology b))) \<and>
     list_all (\<lambda>x. validateName rx (exchange_name x)) (t_exchanges (tb_topology b))"

lemma insertIfNotDupe_cases:
  "insertIfNotDupe item_name x xs = (if item_name x \<in> item_name ` set xs then None else Some (xs @ [x]))"
  by (auto simp: insertIfNotDupe_def find_None_iff find_Some_iff image_iff split: option.split)

text \<open>What adding a queue or an exchange does.\<close>

lemma addQueueImpl_cases:
  "addQueueImpl q b =
     (if queue_name q \<in> queue_name ` set (t_queues (tb_topology b)) then (null_handle, b)
      else (tb_next b,
        b\<lparr>tb_topology := (tb_topology b)\<lparr>t_queues := t_queues (tb_topology b) @ [q]\<rparr>,
          tb_queueHandles := tb_queueHandles b @ [tb_next b], tb_next := tb_next b + 1\<rparr>))"
  by (simp add: addQueueImpl_def insertIfNotDupe_cases)

lemma addExchangeImpl_cases:
  "addExchangeImpl rx x b =
     (if \<not> validateName rx (exchange_name x) \<or> exchange_name x \<in> exchange_name ` set (t_exchanges (tb_topology b)) then (null_handle, b)
      else (tb_next b,
        b\<lparr>tb_topology := (tb_topology b)\<lparr>t_exchanges := t_exchanges (tb_topology b) @ [x]\<rparr>,
          tb_exchangeHandles := tb_exchangeHandles b @ [tb_next b], tb_next := tb_next b + 1\<rparr>))"
  by (simp add: addExchangeImpl_def insertIfNotDupe_cases)

lemmas add_simps = addQueue_def addPassiveQueue_def addExchange_def addPassiveExchange_def defaultExchange_def

lemma builder_ok_addQueue: "builder_ok rx b \<Longrightarrow> builder_ok rx (snd (addQueueImpl q b))"
  by (auto simp: builder_ok_def addQueueImpl_cases intro: less_SucI)

lemma builder_ok_addExchange: "builder_ok rx b \<Longrightarrow> builder_ok rx (snd (addExchangeImpl rx x b))"
  by (auto simp: builder_ok_def addExchangeImpl_cases intro: less_SucI)

lemma builder_ok_default: "builder_ok rx b \<Longrightarrow> builder_ok rx (b\<lparr>tb_defaultExchange := h\<rparr>)"
  by (simp add: builder_ok_def)

lemma builder_ok_step: "builder_ok rx b \<Longrightarrow> builder_ok rx (snd (build_step rx c b))"
proof (cases c)
  case Default_exchange
  moreover assume "builder_ok rx b"
  ultimately show ?thesis
    by (simp add: defaultExchange_def case_prod_beta builder_ok_addExchange builder_ok_default)
qed (auto simp: add_simps builder_ok_addQueue builder_ok_addExchange, auto simp: builder_ok_def bind_queue_def bind_exchange_def)

lemma builder_ok_new: "builder_ok rx Topology_new"
  by (simp add: builder_ok_def Topology_new_def)

text \<open>Objects are not removed: what a handle locks to stays.\<close>

definition enlarges :: "'dt topology_builder \<Rightarrow> 'dt topology_builder \<Rightarrow> bool" where
  "enlarges b b' \<longleftrightarrow>
     lock_queue (built_objects b) \<subseteq>\<^sub>m lock_queue (built_objects b') \<and>
     lock_exchange (built_objects b) \<subseteq>\<^sub>m lock_exchange (built_objects b')"

lemma map_of_zip_snoc: "length ks = length vs \<Longrightarrow> k \<notin> set ks \<Longrightarrow> map_of (zip (ks @ [k]) (vs @ [v])) = (map_of (zip ks vs))(k \<mapsto> v)"
proof -
  assume "length ks = length vs" "k \<notin> set ks"
  then have "map_of (zip ks vs) k = None" "zip (ks @ [k]) (vs @ [v]) = zip ks vs @ [(k, v)]"
    by simp_all
  then show ?thesis
    by (auto simp: fun_eq_iff map_add_def simp del: map_of_zip_is_None split: option.split)
qed

lemma enlarges_same: "lock_queue (built_objects b') = lock_queue (built_objects b) \<Longrightarrow>
    lock_exchange (built_objects b') = lock_exchange (built_objects b) \<Longrightarrow> enlarges b b'"
  by (simp add: enlarges_def)

lemma addQueue_locks:
  assumes "builder_ok rx b"
  shows "enlarges b (snd (addQueueImpl q b))"
    and "queue_name q \<notin> queue_name ` set (t_queues (tb_topology b)) \<Longrightarrow>
      lock_queue (built_objects (snd (addQueueImpl q b))) (fst (addQueueImpl q b)) = Some q"
proof -
  have fresh: "tb_next b \<notin> set (tb_queueHandles b)" "length (tb_queueHandles b) = length (t_queues (tb_topology b))"
    using assms by (auto simp: builder_ok_def)
  then have "tb_next b \<notin> dom (map_of (zip (tb_queueHandles b) (t_queues (tb_topology b))))"
    by (simp add: dom_map_of_zip)
  then show "enlarges b (snd (addQueueImpl q b))"
    using map_of_zip_snoc [OF fresh(2,1), of q] by (auto simp: enlarges_def addQueueImpl_cases built_objects_def map_le_def)
  assume "queue_name q \<notin> queue_name ` set (t_queues (tb_topology b))"
  then show "lock_queue (built_objects (snd (addQueueImpl q b))) (fst (addQueueImpl q b)) = Some q"
    using map_of_zip_snoc [OF fresh(2,1), of q] by (simp add: addQueueImpl_cases built_objects_def)
qed

lemma addExchange_locks:
  assumes "builder_ok rx b"
  shows "enlarges b (snd (addExchangeImpl rx x b))"
    and "validateName rx (exchange_name x) \<Longrightarrow> exchange_name x \<notin> exchange_name ` set (t_exchanges (tb_topology b)) \<Longrightarrow>
      lock_exchange (built_objects (snd (addExchangeImpl rx x b))) (fst (addExchangeImpl rx x b)) = Some x"
proof -
  have fresh: "tb_next b \<notin> set (tb_exchangeHandles b)" "length (tb_exchangeHandles b) = length (t_exchanges (tb_topology b))"
    using assms by (auto simp: builder_ok_def)
  then have "tb_next b \<notin> dom (map_of (zip (tb_exchangeHandles b) (t_exchanges (tb_topology b))))"
    by (simp add: dom_map_of_zip)
  then show "enlarges b (snd (addExchangeImpl rx x b))"
    using map_of_zip_snoc [OF fresh(2,1), of x] by (auto simp: enlarges_def addExchangeImpl_cases built_objects_def map_le_def)
  assume "validateName rx (exchange_name x)" "exchange_name x \<notin> exchange_name ` set (t_exchanges (tb_topology b))"
  then show "lock_exchange (built_objects (snd (addExchangeImpl rx x b))) (fst (addExchangeImpl rx x b)) = Some x"
    using map_of_zip_snoc [OF fresh(2,1), of x] by (simp add: addExchangeImpl_cases built_objects_def)
qed

lemma enlarges_step:
  assumes "builder_ok rx b"
  shows "enlarges b (snd (build_step rx c b))"
proof (cases c)
  case Default_exchange
  have "built_objects (b'\<lparr>tb_defaultExchange := h\<rparr>) = built_objects b'" for b' :: "'a topology_builder" and h
    by (simp add: built_objects_def)
  then show ?thesis
    using Default_exchange addExchange_locks(1) [OF assms] by (simp add: defaultExchange_def enlarges_def case_prod_beta)
qed (use addQueue_locks(1) [OF assms] addExchange_locks(1) [OF assms] in
  \<open>auto simp: add_simps intro!: enlarges_same simp: bind_queue_def bind_exchange_def built_objects_def\<close>)

lemma build_grows: "builder_ok rx b \<Longrightarrow> builder_ok rx (build rx cs b) \<and> enlarges b (build rx cs b)"
proof (induction rx cs b rule: build.induct)
  case (2 rx c cs b)
  then show ?case
    using builder_ok_step [OF 2(2), of c] enlarges_step [OF 2(2), of c] by (auto simp: enlarges_def intro: map_le_trans)
qed (simp add: enlarges_def)


section \<open>Properties\<close>

lemma added_objects:
  assumes b: "b = build rx cs Topology_new"
    and q: "addQueue name a d args b = (hq, bq)" and x: "addExchange rx xname ty xa xd xi xargs b = (hx, bx)"
  shows "(hq = null_handle) = (\<exists>q' \<in> set (t_queues (tb_topology b)). queue_name q' = name)"
    and "hq = null_handle \<Longrightarrow> bq = b"
    and "hq \<noteq> null_handle \<Longrightarrow> lock_queue (built_objects (build rx cs' bq)) hq =
      Some \<lparr>queue_name = name, queue_passive = False, queue_autoDelete = a, queue_durable = d, queue_arguments = args\<rparr>"
    and "(hx = null_handle) = (\<not> validateName rx xname \<or> (\<exists>x' \<in> set (t_exchanges (tb_topology b)). exchange_name x' = xname))"
    and "hx = null_handle \<Longrightarrow> bx = b"
    and "hx \<noteq> null_handle \<Longrightarrow> lock_exchange (built_objects (build rx cs' bx)) hx =
      Some \<lparr>exchange_name = xname, exchange_type = ty, exchange_passive = False, exchange_autoDelete = xa,
        exchange_durable = xd, exchange_internal = xi, exchange_arguments = xargs\<rparr>"
proof -
  let ?q = "\<lparr>queue_name = name, queue_passive = False, queue_autoDelete = a, queue_durable = d, queue_arguments = args\<rparr>"
  let ?x = "\<lparr>exchange_name = xname, exchange_type = ty, exchange_passive = False, exchange_autoDelete = xa,
        exchange_durable = xd, exchange_internal = xi, exchange_arguments = xargs\<rparr>"
  have ok: "builder_ok rx b"
    using build_grows [OF builder_ok_new] b by blast
  then have pos: "tb_next b \<noteq> null_handle"
    by (simp add: builder_ok_def null_handle_def)
  have q': "addQueueImpl ?q b = (hq, bq)" and x': "addExchangeImpl rx ?x b = (hx, bx)"
    using q x by (simp_all add: addQueue_def addExchange_def)
  show taken: "(hq = null_handle) = (\<exists>q' \<in> set (t_queues (tb_topology b)). queue_name q' = name)"
    and "hq = null_handle \<Longrightarrow> bq = b"
    using q' pos by (auto simp: addQueueImpl_cases split: if_splits)
  show xtaken: "(hx = null_handle) = (\<not> validateName rx xname \<or> (\<exists>x' \<in> set (t_exchanges (tb_topology b)). exchange_name x' = xname))"
    and "hx = null_handle \<Longrightarrow> bx = b"
    using x' pos by (auto simp: addExchangeImpl_cases split: if_splits)
  have "builder_ok rx bq" "builder_ok rx bx"
    using builder_ok_addQueue [OF ok, of ?q] builder_ok_addExchange [OF ok, of ?x] q' x' by simp_all
  then have grow: "enlarges bq (build rx cs' bq)" "enlarges bx (build rx cs' bx)"
    using build_grows by blast+
  show "lock_queue (built_objects (build rx cs' bq)) hq = Some ?q" if "hq \<noteq> null_handle"
  proof -
    have "lock_queue (built_objects bq) hq = Some ?q"
      using addQueue_locks(2) [OF ok, of ?q] q' that taken by auto
    then show ?thesis
      using grow(1) by (auto simp: enlarges_def map_le_def dom_def)
  qed
  show "lock_exchange (built_objects (build rx cs' bx)) hx = Some ?x" if "hx \<noteq> null_handle"
  proof -
    have "lock_exchange (built_objects bx) hx = Some ?x"
      using addExchange_locks(2) [OF ok, of ?x] x' that xtaken by auto
    then show ?thesis
      using grow(2) by (auto simp: enlarges_def map_le_def dom_def)
  qed
qed

text \<open>Adding a queue or an exchange. The call returns the empty handle exactly if the name is taken (for an exchange
  also if it is not valid), and then changes nothing; otherwise the handle locks to the new object, and still does after
  any further calls. The empty name is a name like any other here, although it stands for queues that the server names:
  a second one is refused.\<close>

theorem added_objects_found:
  assumes "b = build rx cs Topology_new"
    and "addQueue name a d args b = (hq, bq)" and "addExchange rx xname ty xa xd xi xargs b = (hx, bx)"
  shows "(if \<exists>q' \<in> set (t_queues (tb_topology b)). queue_name q' = name then hq = null_handle \<and> bq = b
      else hq \<noteq> null_handle \<and> lock_queue (built_objects (build rx cs' bq)) hq =
        Some \<lparr>queue_name = name, queue_passive = False, queue_autoDelete = a, queue_durable = d, queue_arguments = args\<rparr>) \<and>
    (if \<not> validateName rx xname \<or> (\<exists>x' \<in> set (t_exchanges (tb_topology b)). exchange_name x' = xname) then hx = null_handle \<and> bx = b
      else hx \<noteq> null_handle \<and> lock_exchange (built_objects (build rx cs' bx)) hx =
        Some \<lparr>exchange_name = xname, exchange_type = ty, exchange_passive = False, exchange_autoDelete = xa,
          exchange_durable = xd, exchange_internal = xi, exchange_arguments = xargs\<rparr>)"
  using added_objects [OF assms] by (simp only: split: if_split) blast

theorem added_objects_found_witness:
  "fst (addQueue [] False True [] (snd (addQueue [] False True [] (Topology_new :: nat topology_builder)))) = null_handle"
proof -
  let ?b = "build (\<lambda>_. True) [Add_queue [] False True []] (Topology_new :: nat topology_builder)"
  obtain hq bq hx bx where q: "addQueue [] False True [] ?b = (hq, bq)"
    and x: "addExchange (\<lambda>_. True) [] [] False True False [] ?b = (hx, bx)" by fastforce
  have "t_queues (tb_topology ?b) = [\<lparr>queue_name = [], queue_passive = False, queue_autoDelete = False, queue_durable = True, queue_arguments = []\<rparr>]"
    by (simp add: addQueue_def addQueueImpl_cases Topology_new_def)
  then have "hq = null_handle"
    using added_objects_found [OF refl q x, of "[]"] by simp
  then show ?thesis
    using q by simp
qed

text \<open>The binding calls use handles that lock when they are made.\<close>

fun binds_live :: "(bytes \<Rightarrow> bool) \<Rightarrow> 'dt builder_call list \<Rightarrow> 'dt topology_builder \<Rightarrow> bool" where
  "binds_live rx [] b = True"
| "binds_live rx (c # cs) b =
     ((case c of
         Bind_queue x q _ _ \<Rightarrow> lock_exchange (built_objects b) x \<noteq> None \<and> lock_queue (built_objects b) q \<noteq> None
       | Bind_exchange s d _ _ \<Rightarrow> lock_exchange (built_objects b) s \<noteq> None \<and> lock_exchange (built_objects b) d \<noteq> None
       | _ \<Rightarrow> True) \<and>
      binds_live rx cs (snd (build_step rx c b)))"

definition bindings_live :: "'dt topology_builder \<Rightarrow> bool" where
  "bindings_live b \<longleftrightarrow>
     (\<forall>q \<in> set (t_queueBindings (tb_topology b)).
        lock_exchange (built_objects b) (qb_exchange q) \<noteq> None \<and> lock_queue (built_objects b) (qb_queue q) \<noteq> None) \<and>
     (\<forall>x \<in> set (t_exchangeBindings (tb_topology b)).
        lock_exchange (built_objects b) (xb_sourceExchange x) \<noteq> None \<and> lock_exchange (built_objects b) (xb_destinationExchange x) \<noteq> None)"

lemma bindings_live_grow:
  assumes "bindings_live b" "enlarges b b'"
    and "t_queueBindings (tb_topology b') = t_queueBindings (tb_topology b)" "t_exchangeBindings (tb_topology b') = t_exchangeBindings (tb_topology b)"
  shows "bindings_live b'"
proof -
  have "lock_queue (built_objects b) h \<noteq> None \<Longrightarrow> lock_queue (built_objects b') h \<noteq> None"
    "lock_exchange (built_objects b) h \<noteq> None \<Longrightarrow> lock_exchange (built_objects b') h \<noteq> None" for h
    using assms(2) by (force simp: enlarges_def map_le_def dom_def)+
  then show ?thesis
    using assms(1,3,4) unfolding bindings_live_def by auto
qed

lemma add_keeps_bindings:
  "t_queueBindings (tb_topology (snd (addQueueImpl q b))) = t_queueBindings (tb_topology b)"
  "t_exchangeBindings (tb_topology (snd (addQueueImpl q b))) = t_exchangeBindings (tb_topology b)"
  "t_queueBindings (tb_topology (snd (addExchangeImpl rx x b))) = t_queueBindings (tb_topology b)"
  "t_exchangeBindings (tb_topology (snd (addExchangeImpl rx x b))) = t_exchangeBindings (tb_topology b)"
  by (simp_all add: addQueueImpl_cases addExchangeImpl_cases)

lemma bindings_live_step:
  assumes "bindings_live b" "builder_ok rx b" "binds_live rx (c # cs) b"
  shows "bindings_live (snd (build_step rx c b))"
proof (cases "\<exists>x q k as. c = Bind_queue x q k as \<or> c = Bind_exchange x q k as")
  case True
  then show ?thesis
    using assms(1,3) by (auto simp: bindings_live_def bind_queue_def bind_exchange_def built_objects_def)
next
  case False
  then show ?thesis
    using enlarges_step [OF assms(2), of c]
    by (intro bindings_live_grow [OF assms(1)]) (cases c; auto simp: add_simps add_keeps_bindings case_prod_beta)+
qed

lemma build_live: "bindings_live b \<Longrightarrow> builder_ok rx b \<Longrightarrow> binds_live rx cs b \<Longrightarrow> bindings_live (build rx cs b)"
proof (induction rx cs b rule: build.induct)
  case (2 rx c cs b)
  then show ?case
    using bindings_live_step [OF 2(2-4)] builder_ok_step [OF 2(3), of c] by simp
qed simp

text \<open>A topology whose bindings were made with handles that the builder had returned is declared without an error:
  the channel sends the declarations of its queues and exchanges, no two of a kind under the same name, and of all its
  bindings.\<close>

theorem built_topology_declarable:
  assumes "b = build rx cs Topology_new" and "binds_live rx cs (Topology_new :: 'dt topology_builder)"
  shows "\<not> tt_error (TopologyTransformer (built_objects b) (tb_topology b) :: ('dt, 'g) topology_transformer) \<and>
    distinct (map queue_name (t_queues (tb_topology b))) \<and> distinct (map exchange_name (t_exchanges (tb_topology b))) \<and>
    length (tt_messages (TopologyTransformer (built_objects b) (tb_topology b) :: ('dt, 'g) topology_transformer)) =
      length (t_queues (tb_topology b)) + length (filter (\<lambda>x. \<not> Exchange_isDefault x) (t_exchanges (tb_topology b))) +
      length (t_queueBindings (tb_topology b)) + length (t_exchangeBindings (tb_topology b))"
proof -
  let ?lv = "built_objects b" and ?t = "tb_topology b"
  have "bindings_live (Topology_new :: 'dt topology_builder)"
    by (simp add: bindings_live_def Topology_new_def)
  then have "bindings_live b" and ok: "builder_ok rx b"
    using build_live [OF _ builder_ok_new assms(2)] build_grows [OF builder_ok_new] assms(1) by auto
  then have none: "None \<notin> set (topology_methods ?lv ?t)"
    by (fastforce simp: topology_methods_def bindings_live_def queue_bind_def exchange_bind_def bind_eq_None_conv)
  have "built (TopologyTransformer ?lv ?t :: ('dt, 'g) topology_transformer) (map the (topology_methods ?lv ?t)) False"
    using built_topology [of ?lv ?t, where ?'b = 'g] none map_filter_all [OF none] by simp
  then show ?thesis
    using ok by (auto simp: built_def builder_ok_def topology_methods_def)
qed


definition sample_calls :: "nat builder_call list" where
  "sample_calls =
     [Add_queue (bstr ''q'') False True [], Add_exchange (bstr ''x'') (bstr ''direct'') False True False [],
      Bind_queue 2 1 (bstr ''k'') []]"

theorem built_topology_declarable_witness:
  "\<not> tt_error (TopologyTransformer (built_objects (build (\<lambda>_. True) sample_calls Topology_new))
      (tb_topology (build (\<lambda>_. True) sample_calls Topology_new)) :: (nat, nat) topology_transformer)"
proof -
  have "binds_live (\<lambda>_. True) sample_calls Topology_new"
    by (simp add: sample_calls_def addQueue_def addExchange_def addQueueImpl_cases addExchangeImpl_cases Topology_new_def
        built_objects_def validateName_def MAX_EXCHANGE_NAME_LENGTH_def bstr_def)
  then show ?thesis
    using built_topology_declarable [OF refl, of "\<lambda>_. True" sample_calls, where ?'g = nat] by simp
qed

end
