(* ===== verification/Virtual_Host.thy ===== *)
theory Virtual_Host
  imports Topology Retry Futures
begin

text \<open>
  The public API above the connections: \<open>rmqa::VHostImpl\<close>, which makes a connection for producers and one for consumers
  when they are first needed, \<open>rmqa::ConnectionImpl\<close>, which creates producers and consumers on an established
  connection and closes it, and the part of \<open>rmqa::RabbitContextImpl\<close> that makes connections.

  Application threads and the event loop are interleaved at the points where the code synchronises: a thread
  that creates a producer first looks up or makes the future of the connection with the mutex locked, then
  chains to that future without it. A control block of a future of a connection is a record with the number of shared
  pointers to it; it owns the \<open>ConnectionImpl\<close> in its result, and its cancel function owns the \<open>rmqamqp::Connection\<close>.
  Futures obey the laws of theory \<open>Future_Laws\<close>: a future made by \<open>thenFuture\<close> keeps the one it was made from alive
  until that is resolved. The event loop is a queue of calls. A null pointer that is dereferenced is \<^const>\<open>None\<close>.
\<close>

section \<open>State\<close>

datatype role = Producer_role | Consumer_role

text \<open>The arguments of \<open>createProducerAsync\<close> and \<open>createConsumerAsync\<close>; \<open>ConsumerConfig\<close> is a type \<open>'c\<close>.\<close>

datatype ('dt, 'c) create_args =
    CA_producer "'dt topology" handle u16
  | CA_consumer "'dt topology" handle 'c

fun args_role :: "('dt, 'c) create_args \<Rightarrow> role" where
  "args_role (CA_producer _ _ _) = Producer_role"
| "args_role (CA_consumer _ _ _) = Consumer_role"

text \<open>Calls posted to the event loop, by number of the connection (and of the request they are made for).
  \<open>LI_close\<close> says whether a timer for the graceful close was set up.\<close>

datatype ('dt, 'c) loop_item =
    LI_start nat
  | LI_close nat bool
  | LI_send_channel nat nat "'dt topology" "'dt exchange" retry_strategy
  | LI_receive_channel nat nat "'dt topology" 'c retry_strategy

record conn_future =
  cf_name :: bytes
  cf_refs :: nat
  cf_result :: "unit Result option"
  cf_amqp :: bool
  cf_open :: bool
  cf_firstConnectCb :: bool

datatype request_state =
    RS_waiting
  | RS_posted
  | RS_channel
  | RS_done "unit Result"

record ('dt, 'c) request =
  rq_args :: "('dt, 'c) create_args"
  rq_conn :: nat
  rq_state :: request_state
  rq_held :: bool

record context_options =
  co_userDefinedName :: bytes
  co_endpoint :: bool
  co_credentials :: bool
  co_started :: bool
  co_hostHealthMonitor :: bool
  co_tunables :: "bytes set"

record ('dt, 'c) vhost_state =
  vs_options :: context_options
  vs_producerFuture :: "nat option"
  vs_consumerFuture :: "nat option"
  vs_conns :: "conn_future list"
  vs_requests :: "('dt, 'c) request list"
  vs_threads :: "('dt, 'c) create_args list"
  vs_queue :: "('dt, 'c) loop_item list"
  vs_calls :: "('dt, 'c) loop_item list"
  vs_timers :: "nat list"
  vs_registered :: "nat list"

definition VHostImpl_new :: "context_options \<Rightarrow> ('dt, 'c) vhost_state" where
  "VHostImpl_new opts =
     \<lparr>vs_options = opts, vs_producerFuture = None, vs_consumerFuture = None, vs_conns = [], vs_requests = [],
      vs_threads = [], vs_queue = [], vs_calls = [], vs_timers = [], vs_registered = []\<rparr>"

fun future_of :: "role \<Rightarrow> ('dt, 'c) vhost_state \<Rightarrow> nat option" where
  "future_of Producer_role s = vs_producerFuture s"
| "future_of Consumer_role s = vs_consumerFuture s"

fun set_future :: "role \<Rightarrow> nat option \<Rightarrow> ('dt, 'c) vhost_state \<Rightarrow> ('dt, 'c) vhost_state" where
  "set_future Producer_role f s = s\<lparr>vs_producerFuture := f\<rparr>"
| "set_future Consumer_role f s = s\<lparr>vs_consumerFuture := f\<rparr>"

definition post :: "('dt, 'c) loop_item \<Rightarrow> ('dt, 'c) vhost_state \<Rightarrow> ('dt, 'c) vhost_state" where
  "post i s = s\<lparr>vs_queue := vs_queue s @ [i]\<rparr>"

definition change :: "nat \<Rightarrow> (conn_future \<Rightarrow> conn_future) \<Rightarrow> ('dt, 'c) vhost_state \<Rightarrow> ('dt, 'c) vhost_state" where
  "change k h s = s\<lparr>vs_conns := (vs_conns s)[k := h (vs_conns s ! k)]\<rparr>"

definition answer :: "nat \<Rightarrow> request_state \<Rightarrow> ('dt, 'c) vhost_state \<Rightarrow> ('dt, 'c) vhost_state" where
  "answer r st s = s\<lparr>vs_requests := (vs_requests s)[r := (vs_requests s ! r)\<lparr>rq_state := st\<rparr>]\<rparr>"

section \<open>ConnectionImpl\<close>

definition createRetryHandler :: "bytes set \<Rightarrow> retry_strategy" where
  "createRetryHandler tunables =
     (if bstr ''IIR'' \<in> tunables then RetryStrategy_new (- 1) 1 60 else RetryStrategy_new 5 1 60)"

text \<open>The timer holds the connection; the close itself is run by the event loop.\<close>

definition ConnectionImpl_doClose :: "nat \<Rightarrow> ('dt, 'c) vhost_state \<Rightarrow> ('dt, 'c) vhost_state" where
  "ConnectionImpl_doClose k s =
     (if cf_open (vs_conns s ! k)
      then change k (\<lambda>c. c\<lparr>cf_open := False\<rparr>) (post (LI_close k True) (s\<lparr>vs_timers := vs_timers s @ [k]\<rparr>))
      else s)"

definition DoesExist :: "'dt exchange \<Rightarrow> 'dt exchange \<Rightarrow> bool" where
  "DoesExist element exchange \<longleftrightarrow> element = exchange"

text \<open>What \<open>createProducerAsync\<close> and \<open>createConsumerAsync\<close> return at once, or the call that they post.\<close>

definition ConnectionImpl_createProducerAsync ::
  "'dt live_objects \<Rightarrow> nat \<Rightarrow> 'dt topology \<Rightarrow> handle \<Rightarrow> nat \<Rightarrow> ('dt, 'c) vhost_state \<Rightarrow>
     unit Result + ('dt, 'c) loop_item" where
  "ConnectionImpl_createProducerAsync live r topology exchangeHandle k s =
     (let exchange = lock_exchange live exchangeHandle in
      if \<not> cf_open (vs_conns s ! k) then Inl (Result_error (bstr ''close() has been called'') (- 1))
      else
        (case exchange of
           None \<Rightarrow> Inl (Result_error (bstr ''Exchange is not valid'') (- 1))
         | Some x \<Rightarrow>
             (case List.find (\<lambda>element. DoesExist element x) (t_exchanges topology) of
                None \<Rightarrow> Inl (Result_error (bstr ''Exchange does not exist in the topology'') (- 1))
              | Some _ \<Rightarrow>
                  Inr (LI_send_channel k r topology x (createRetryHandler (co_tunables (vs_options s)))))))"

definition ConnectionImpl_createConsumerAsync ::
  "nat \<Rightarrow> 'dt topology \<Rightarrow> 'c \<Rightarrow> nat \<Rightarrow> ('dt, 'c) vhost_state \<Rightarrow> unit Result + ('dt, 'c) loop_item" where
  "ConnectionImpl_createConsumerAsync r topology config k s =
     (if \<not> cf_open (vs_conns s ! k) then Inl (Result_error (bstr ''close() has been called'') (- 1))
      else Inr (LI_receive_channel k r topology config (createRetryHandler (co_tunables (vs_options s)))))"

text \<open>The end of a creation: the result for the channel, and for a consumer that of \<open>start\<close>.\<close>

definition setupProducer :: "unit Result \<Rightarrow> unit Result" where
  "setupProducer sendChannel =
     (if Result_ok sendChannel then Result_of () else Result_error (rs_error sendChannel) (rs_code sendChannel))"

definition setupConsumer :: "unit Result \<Rightarrow> unit Result \<Rightarrow> unit Result" where
  "setupConsumer start receiveChannel =
     (if Result_ok receiveChannel
      then (if Result_ok start then Result_of () else Result_error (rs_error start) (rs_code start))
      else Result_error (rs_error receiveChannel) (rs_code receiveChannel))"

section \<open>Lifetimes\<close>

text \<open>A pointer to the control block goes away; with the last one, an unresolved future is cancelled
  (\<open>shutdownAmqpConnection\<close>) and the \<open>ConnectionImpl\<close> in a resolved one is destroyed.\<close>

definition shutdownAmqpConnection :: "nat \<Rightarrow> ('dt, 'c) vhost_state \<Rightarrow> ('dt, 'c) vhost_state" where
  "shutdownAmqpConnection k s = post (LI_close k False) s"

definition release :: "nat \<Rightarrow> ('dt, 'c) vhost_state \<Rightarrow> ('dt, 'c) vhost_state" where
  "release k s =
     (let s' = change k (\<lambda>c. c\<lparr>cf_refs := cf_refs c - 1\<rparr>) s in
      if cf_refs (vs_conns s ! k) = 1
      then (if cf_result (vs_conns s ! k) = None then shutdownAmqpConnection k s' else ConnectionImpl_doClose k s')
      else s')"

fun holds :: "nat \<Rightarrow> ('dt, 'c) loop_item \<Rightarrow> bool" where
  "holds k (LI_start _) = False"
| "holds k (LI_close k' _) = (k' = k)"
| "holds k (LI_send_channel k' _ _ _ _) = (k' = k)"
| "holds k (LI_receive_channel k' _ _ _ _) = (k' = k)"

definition conn_alive :: "nat \<Rightarrow> ('dt, 'c) vhost_state \<Rightarrow> bool" where
  "conn_alive k s \<longleftrightarrow>
     cf_amqp (vs_conns s ! k) \<and> (0 < cf_refs (vs_conns s ! k) \<or> list_ex (holds k) (vs_queue s) \<or> k \<in> set (vs_timers s))"
section \<open>Making connections\<close>

definition new_future ::
  "bytes \<Rightarrow> unit Result option \<Rightarrow> ('dt, 'c) vhost_state \<Rightarrow> nat \<times> ('dt, 'c) vhost_state" where
  "new_future name result s =
     (length (vs_conns s),
      s\<lparr>vs_conns := vs_conns s @
          [\<lparr>cf_name = name, cf_refs = 1, cf_result = result, cf_amqp = (result = None), cf_open = False,
            cf_firstConnectCb = False\<rparr>]\<rparr>)"

text \<open>\<open>RabbitContextImpl::createNewConnection\<close>: the future it returns, the connection made for it, and the posted call
  that starts the connection.\<close>

definition createNewConnection :: "bytes \<Rightarrow> ('dt, 'c) vhost_state \<Rightarrow> nat \<times> ('dt, 'c) vhost_state" where
  "createNewConnection suffix s =
     (let opts = vs_options s;
          name = if suffix = [] then co_userDefinedName opts else co_userDefinedName opts @ bstr ''-'' @ suffix in
      if \<not> co_endpoint opts then new_future name (Some (Result_error (bstr ''Provided endpoint is NULL'') (- 1))) s
      else if \<not> co_credentials opts then new_future name (Some (Result_error (bstr ''Provided credentials is NULL'') (- 1))) s
      else if \<not> co_started opts
      then new_future name (Some (Result_error (bstr ''Event loop worker thread not started'') (- 1))) s
      else (case new_future name None s of (k, s) \<Rightarrow> (k, post (LI_start k) s)))"

text \<open>\<open>startFirstConnection\<close>, run by the event loop; the callback stays with the connection until it is called.\<close>

definition RabbitContextImpl_startFirstConnection :: "nat \<Rightarrow> ('dt, 'c) vhost_state \<Rightarrow> ('dt, 'c) vhost_state" where
  "RabbitContextImpl_startFirstConnection k s =
     (if \<not> conn_alive k s then s
      else
        let s = change k (\<lambda>c. c\<lparr>cf_firstConnectCb := True\<rparr>) (s\<lparr>vs_calls := vs_calls s @ [LI_start k]\<rparr>) in
        if co_hostHealthMonitor (vs_options s) then s\<lparr>vs_registered := vs_registered s @ [k]\<rparr> else s)"

section \<open>VHostImpl\<close>

text \<open>\<open>proxyCreateProducerAsync\<close> and \<open>proxyCreateConsumerAsync\<close>, for request \<open>r\<close> on connection \<open>k\<close>, with errors of the
  connection propagated.\<close>

definition proxyCreate ::
  "'dt live_objects \<Rightarrow> nat \<Rightarrow> nat \<Rightarrow> unit Result \<Rightarrow> ('dt, 'c) vhost_state \<Rightarrow> ('dt, 'c) vhost_state" where
  "proxyCreate live k r conn s =
     (if \<not> Result_ok conn then answer r (RS_done (Result_error (rs_error conn) (rs_code conn))) s
      else
        (case (case rq_args (vs_requests s ! r) of
                 CA_producer t x _ \<Rightarrow> ConnectionImpl_createProducerAsync live r t x k s
               | CA_consumer t q c \<Rightarrow> ConnectionImpl_createConsumerAsync r t c k s) of
           Inl e \<Rightarrow> answer r (RS_done e) s
         | Inr i \<Rightarrow> post i (answer r RS_posted s)))"

definition waits_for :: "nat \<Rightarrow> ('dt, 'c) request \<Rightarrow> bool" where
  "waits_for k q \<longleftrightarrow> rq_held q \<and> rq_conn q = k \<and> rq_state q = RS_waiting"

definition waiting_on :: "nat \<Rightarrow> ('dt, 'c) vhost_state \<Rightarrow> nat list" where
  "waiting_on k s = filter (\<lambda>r. waits_for k (vs_requests s ! r)) [0..<length (vs_requests s)]"

text \<open>The maker of the future: the futures chained to it are called in order, and let go of it.\<close>

definition resolveFuture ::
  "'dt live_objects \<Rightarrow> nat \<Rightarrow> unit Result \<Rightarrow> ('dt, 'c) vhost_state \<Rightarrow> ('dt, 'c) vhost_state" where
  "resolveFuture live k result s =
     (let rs = waiting_on k s;
          s = change k (\<lambda>c. c\<lparr>cf_refs := cf_refs c + 1, cf_result := Some result, cf_open := Result_ok result\<rparr>) s;
          s = fold (\<lambda>r s. release k (proxyCreate live k r result s)) rs s in
      release k s)"

text \<open>\<open>initiateConnection\<close>, the callback of the first connection. The \<open>ConnectionImpl\<close> is made before the maker is
  called; if nobody holds the future any more, it is destroyed at once.\<close>

definition initiateConnection ::
  "'dt live_objects \<Rightarrow> bool \<Rightarrow> nat \<Rightarrow> ('dt, 'c) vhost_state \<Rightarrow> ('dt, 'c) vhost_state" where
  "initiateConnection live success k s =
     (if \<not> conn_alive k s then s
      else if \<not> success then
        (if cf_refs (vs_conns s ! k) = 0 then s
         else resolveFuture live k (Result_error (bstr ''Failed to connect - not retrying'') (- 1)) s)
      else if cf_refs (vs_conns s ! k) = 0
      then ConnectionImpl_doClose k (change k (\<lambda>c. c\<lparr>cf_open := True\<rparr>) s)
      else resolveFuture live k (Result_of ()) s)"

text \<open>A thread in \<open>createProducerAsync\<close> or \<open>createConsumerAsync\<close>: first with the mutex locked, then without.\<close>

fun role_suffix :: "role \<Rightarrow> bytes" where
  "role_suffix Producer_role = bstr ''producer''"
| "role_suffix Consumer_role = bstr ''consumer''"

definition create_locked :: "('dt, 'c) create_args \<Rightarrow> ('dt, 'c) vhost_state \<Rightarrow> ('dt, 'c) vhost_state" where
  "create_locked args s =
     (let role = args_role args;
          s = (case future_of role s of
                 Some _ \<Rightarrow> s
               | None \<Rightarrow> (case createNewConnection (role_suffix role) s of (k, s) \<Rightarrow> set_future role (Some k) s)) in
      s\<lparr>vs_threads := vs_threads s @ [args]\<rparr>)"

definition create_chained ::
  "'dt live_objects \<Rightarrow> nat \<Rightarrow> ('dt, 'c) vhost_state \<Rightarrow> ('dt, 'c) vhost_state option" where
  "create_chained live i s =
     (let args = vs_threads s ! i;
          s = s\<lparr>vs_threads := take i (vs_threads s) @ drop (Suc i) (vs_threads s)\<rparr> in
      case future_of (args_role args) s of
        None \<Rightarrow> None
      | Some k \<Rightarrow>
          let r = length (vs_requests s);
              s = s\<lparr>vs_requests := vs_requests s @ [\<lparr>rq_args = args, rq_conn = k, rq_state = RS_waiting, rq_held = True\<rparr>]\<rparr> in
          let s = change k (\<lambda>c. c\<lparr>cf_refs := cf_refs c + 1\<rparr>) s in
          Some (case cf_result (vs_conns s ! k) of
                  None \<Rightarrow> s
                | Some result \<Rightarrow> release k (proxyCreate live k r result s)))"

text \<open>\<open>close\<close> does this for the producers and then for the consumers, without the mutex.\<close>

definition shutdownConnectionFuture :: "role \<Rightarrow> ('dt, 'c) vhost_state \<Rightarrow> ('dt, 'c) vhost_state" where
  "shutdownConnectionFuture role s =
     (case future_of role s of
        None \<Rightarrow> s
      | Some k \<Rightarrow>
          let s = (case cf_result (vs_conns s ! k) of
                     Some result \<Rightarrow> if Result_ok result then ConnectionImpl_doClose k s else s
                   | None \<Rightarrow> s) in
          release k (set_future role None s))"

text \<open>The application destroys the future that a call returned.\<close>

definition drop_request :: "nat \<Rightarrow> ('dt, 'c) vhost_state \<Rightarrow> ('dt, 'c) vhost_state" where
  "drop_request r s =
     (let q = vs_requests s ! r;
          s' = s\<lparr>vs_requests := (vs_requests s)[r := q\<lparr>rq_held := False\<rparr>]\<rparr> in
      if waits_for (rq_conn q) q then release (rq_conn q) s' else s')"

section \<open>Interleavings\<close>

text \<open>\<open>VI_event\<close>: the event loop makes the next call. \<open>VI_connected\<close>: a connection calls its callback, once.
  \<open>VI_channel\<close>: a channel is ready or has failed, and the consumer has been started. \<open>VI_timer\<close>: the timer for the graceful
  close of a connection has expired or was cancelled. An input that cannot occur does nothing.\<close>

datatype ('dt, 'c) vhost_input =
    VI_create "('dt, 'c) create_args"
  | VI_chain "'dt live_objects" nat
  | VI_shutdown role
  | VI_event
  | VI_connected "'dt live_objects" nat bool
  | VI_channel nat "unit Result" "unit Result"
  | VI_timer nat
  | VI_drop nat

fun run_item :: "('dt, 'c) loop_item \<Rightarrow> ('dt, 'c) vhost_state \<Rightarrow> ('dt, 'c) vhost_state" where
  "run_item (LI_start k) s = RabbitContextImpl_startFirstConnection k s"
| "run_item (LI_close k t) s = s\<lparr>vs_calls := vs_calls s @ [LI_close k t]\<rparr>"
| "run_item (LI_send_channel k r t x h) s = answer r RS_channel (s\<lparr>vs_calls := vs_calls s @ [LI_send_channel k r t x h]\<rparr>)"
| "run_item (LI_receive_channel k r t c h) s =
     answer r RS_channel (s\<lparr>vs_calls := vs_calls s @ [LI_receive_channel k r t c h]\<rparr>)"

fun vhost_step :: "('dt, 'c) vhost_input \<Rightarrow> ('dt, 'c) vhost_state \<Rightarrow> ('dt, 'c) vhost_state option" where
  "vhost_step (VI_create args) s = Some (create_locked args s)"
| "vhost_step (VI_chain live i) s = (if i < length (vs_threads s) then create_chained live i s else Some s)"
| "vhost_step (VI_shutdown role) s = Some (shutdownConnectionFuture role s)"
| "vhost_step VI_event s = Some (case vs_queue s of [] \<Rightarrow> s | i # q \<Rightarrow> run_item i (s\<lparr>vs_queue := q\<rparr>))"
| "vhost_step (VI_connected live k success) s =
     Some (if k < length (vs_conns s) \<and> cf_firstConnectCb (vs_conns s ! k)
           then initiateConnection live success k (change k (\<lambda>c. c\<lparr>cf_firstConnectCb := False\<rparr>) s) else s)"
| "vhost_step (VI_channel r start channel) s =
     Some (if r < length (vs_requests s) \<and> rq_state (vs_requests s ! r) = RS_channel
           then answer r (RS_done (case rq_args (vs_requests s ! r) of
                   CA_producer _ _ _ \<Rightarrow> setupProducer channel
                 | CA_consumer _ _ _ \<Rightarrow> setupConsumer start channel)) s
           else s)"
| "vhost_step (VI_timer k) s = Some (s\<lparr>vs_timers := remove1 k (vs_timers s)\<rparr>)"
| "vhost_step (VI_drop r) s = Some (if r < length (vs_requests s) then drop_request r s else s)"

fun vhost_run :: "('dt, 'c) vhost_input list \<Rightarrow> ('dt, 'c) vhost_state \<Rightarrow> ('dt, 'c) vhost_state option" where
  "vhost_run [] s = Some s"
| "vhost_run (i # is) s = (case vhost_step i s of None \<Rightarrow> None | Some s' \<Rightarrow> vhost_run is s')"
section \<open>What holds of every connection\<close>

fun item_conn :: "('dt, 'c) loop_item \<Rightarrow> nat" where
  "item_conn (LI_start k) = k"
| "item_conn (LI_close k _) = k"
| "item_conn (LI_send_channel k _ _ _ _) = k"
| "item_conn (LI_receive_channel k _ _ _ _) = k"

fun is_close :: "('dt, 'c) loop_item \<Rightarrow> bool" where
  "is_close (LI_close _ _) = True"
| "is_close _ = False"

fun item_request :: "('dt, 'c) loop_item \<Rightarrow> nat option" where
  "item_request (LI_send_channel _ r _ _ _) = Some r"
| "item_request (LI_receive_channel _ r _ _ _) = Some r"
| "item_request _ = None"

text \<open>The calls made on a connection and those that are still in the queue, in order.\<close>

definition history :: "nat \<Rightarrow> ('dt, 'c) vhost_state \<Rightarrow> ('dt, 'c) loop_item list" where
  "history k s = filter (\<lambda>i. item_conn i = k) (vs_calls s @ vs_queue s)"

text \<open>It is started, then channels are created on it, then it is closed.\<close>

definition shape :: "nat \<Rightarrow> ('dt, 'c) loop_item list \<Rightarrow> nat \<Rightarrow> bool" where
  "shape k h n \<longleftrightarrow>
     (\<exists>cs ds. h = LI_start k # cs @ ds \<and> (\<forall>i \<in> set cs. item_request i \<noteq> None) \<and> (\<forall>i \<in> set ds. is_close i) \<and> length ds = n)"

definition closes_ok :: "conn_future \<Rightarrow> bool \<Rightarrow> nat \<Rightarrow> bool" where
  "closes_ok c unstarted n =
     (case cf_result c of
        None \<Rightarrow> if 0 < cf_refs c then n = 0 else n = 1 \<or> n = 2 \<and> \<not> cf_firstConnectCb c \<and> \<not> unstarted
      | Some r \<Rightarrow> n = (if Result_ok r \<and> \<not> cf_open c then 1 else 0))"

definition conn_ok ::
  "nat \<Rightarrow> conn_future \<Rightarrow> nat \<Rightarrow> bool \<Rightarrow> ('dt, 'c) loop_item list \<Rightarrow> bool" where
  "conn_ok k c p unstarted h \<longleftrightarrow>
     cf_refs c = p \<and>
     (cf_amqp c \<longrightarrow> (\<exists>n. shape k h n \<and> closes_ok c unstarted n)) \<and>
     (\<not> cf_amqp c \<longrightarrow> h = [] \<and> (\<exists>r. cf_result c = Some r \<and> \<not> Result_ok r)) \<and>
     (cf_open c \<longrightarrow> 0 < cf_refs c \<and> (\<exists>r. cf_result c = Some r \<and> Result_ok r)) \<and>
     (cf_firstConnectCb c \<or> unstarted \<longrightarrow> cf_result c = None) \<and> \<not> (cf_firstConnectCb c \<and> unstarted)"

definition waiters :: "nat \<Rightarrow> ('dt, 'c) vhost_state \<Rightarrow> nat" where
  "waiters k s = length (filter (waits_for k) (vs_requests s))"

definition pointers_to :: "(nat \<Rightarrow> nat) \<Rightarrow> nat \<Rightarrow> ('dt, 'c) vhost_state \<Rightarrow> nat" where
  "pointers_to e k s =
     of_bool (vs_producerFuture s = Some k) + of_bool (vs_consumerFuture s = Some k) + waiters k s + e k"

abbreviation unstarted :: "nat \<Rightarrow> ('dt, 'c) vhost_state \<Rightarrow> bool" where
  "unstarted k s \<equiv> LI_start k \<in> set (vs_queue s)"

text \<open>\<open>e\<close> counts the pointers that a call holds for the time it runs.\<close>

definition vhost_inv :: "(nat \<Rightarrow> nat) \<Rightarrow> ('dt, 'c) vhost_state \<Rightarrow> bool" where
  "vhost_inv e s \<longleftrightarrow>
     (\<forall>k < length (vs_conns s). conn_ok k (vs_conns s ! k) (pointers_to e k s) (unstarted k s) (history k s)) \<and>
     (\<forall>role k. future_of role s = Some k \<longrightarrow> k < length (vs_conns s)) \<and>
     (\<forall>q \<in> set (vs_requests s). rq_conn q < length (vs_conns s)) \<and>
     (\<forall>i \<in> set (vs_calls s @ vs_queue s). item_conn i < length (vs_conns s))"

lemma shape_close: "shape k h n \<Longrightarrow> is_close i \<Longrightarrow> shape k (h @ [i]) (Suc n)"
  unfolding shape_def
proof (elim exE conjE)
  fix cs ds assume "h = LI_start k # cs @ ds" "\<forall>i \<in> set cs. item_request i \<noteq> None" "\<forall>i \<in> set ds. is_close i" "length ds = n"
    "is_close i"
  then show "\<exists>cs ds. h @ [i] = LI_start k # cs @ ds \<and> (\<forall>i \<in> set cs. item_request i \<noteq> None) \<and> (\<forall>i \<in> set ds. is_close i) \<and>
      length ds = Suc n"
    by (intro exI [of _ cs] exI [of _ "ds @ [i]"]) auto
qed

lemma shape_create: "shape k h 0 \<Longrightarrow> item_request i \<noteq> None \<Longrightarrow> shape k (h @ [i]) 0"
  unfolding shape_def
proof (elim exE conjE)
  fix cs ds assume "h = LI_start k # cs @ ds" "\<forall>i \<in> set cs. item_request i \<noteq> None" "length ds = 0" "item_request i \<noteq> None"
  then show "\<exists>cs ds. h @ [i] = LI_start k # cs @ ds \<and> (\<forall>i \<in> set cs. item_request i \<noteq> None) \<and> (\<forall>i \<in> set ds. is_close i) \<and>
      length ds = 0"
    by (intro exI [of _ "cs @ [i]"] exI [of _ "[]"]) auto
qed

lemma history_post [simp]: "history j (post i s) = history j s @ (if item_conn i = j then [i] else [])"
  by (simp add: history_def post_def)

lemma history_simps [simp]:
  "history j (change k h s) = history j s" "history j (answer r st s) = history j s"
  "history j (s\<lparr>vs_timers := ts\<rparr>) = history j s"
  "history j (s\<lparr>vs_threads := th\<rparr>) = history j s" "history j (s\<lparr>vs_requests := rs\<rparr>) = history j s"
  "history j (s\<lparr>vs_conns := cs\<rparr>) = history j s"
  by (simp_all add: history_def change_def answer_def)

lemma history_set_future [simp]: "history j (set_future role f s) = history j s"
  by (cases role) (simp_all add: history_def)

lemma post_simps [simp]:
  "vs_conns (post i s) = vs_conns s" "vs_requests (post i s) = vs_requests s" "vs_threads (post i s) = vs_threads s"
  "vs_queue (post i s) = vs_queue s @ [i]" "vs_calls (post i s) = vs_calls s" "vs_timers (post i s) = vs_timers s"
  "vs_options (post i s) = vs_options s" "vs_producerFuture (post i s) = vs_producerFuture s"
  "vs_consumerFuture (post i s) = vs_consumerFuture s"
  by (simp_all add: post_def)

lemma change_simps [simp]:
  "vs_requests (change k h s) = vs_requests s" "vs_threads (change k h s) = vs_threads s"
  "vs_queue (change k h s) = vs_queue s" "vs_calls (change k h s) = vs_calls s" "vs_timers (change k h s) = vs_timers s"
  "vs_options (change k h s) = vs_options s" "vs_producerFuture (change k h s) = vs_producerFuture s"
  "vs_consumerFuture (change k h s) = vs_consumerFuture s" "length (vs_conns (change k h s)) = length (vs_conns s)"
  by (simp_all add: change_def)

lemma change_conn [simp]:
  "k < length (vs_conns s) \<Longrightarrow> vs_conns (change k h s) ! j = (if j = k then h (vs_conns s ! k) else vs_conns s ! j)"
  by (simp add: change_def nth_list_update)

lemma answer_simps [simp]:
  "vs_conns (answer r st s) = vs_conns s" "vs_threads (answer r st s) = vs_threads s" "vs_queue (answer r st s) = vs_queue s"
  "vs_calls (answer r st s) = vs_calls s" "vs_timers (answer r st s) = vs_timers s" "vs_options (answer r st s) = vs_options s"
  "vs_producerFuture (answer r st s) = vs_producerFuture s" "vs_consumerFuture (answer r st s) = vs_consumerFuture s"
  "length (vs_requests (answer r st s)) = length (vs_requests s)"
  by (simp_all add: answer_def)

lemma set_future_simps [simp]:
  "vs_conns (set_future role f s) = vs_conns s" "vs_requests (set_future role f s) = vs_requests s"
  "vs_threads (set_future role f s) = vs_threads s" "vs_queue (set_future role f s) = vs_queue s"
  "vs_calls (set_future role f s) = vs_calls s" "vs_timers (set_future role f s) = vs_timers s"
  by (cases role; simp)+

lemma future_set_future [simp]:
  "future_of role' (set_future role f s) = (if role' = role then f else future_of role' s)"
  by (cases role; cases role') simp_all

lemma future_of_simps [simp]:
  "future_of role (post i s) = future_of role s" "future_of role (change k h s) = future_of role s"
  "future_of role (answer r st s) = future_of role s" "future_of role (s\<lparr>vs_timers := ts\<rparr>) = future_of role s"
  "future_of role (s\<lparr>vs_threads := th\<rparr>) = future_of role s" "future_of role (s\<lparr>vs_requests := rs\<rparr>) = future_of role s"
  "future_of role (s\<lparr>vs_conns := cs\<rparr>) = future_of role s"
  "future_of role (s\<lparr>vs_queue := qs\<rparr>) = future_of role s" "future_of role (s\<lparr>vs_calls := ks\<rparr>) = future_of role s"
  "future_of role (s\<lparr>vs_registered := rg\<rparr>) = future_of role s"
  by (cases role; simp)+
text \<open>A call that is about one connection leaves the others as they are.\<close>

definition touches :: "nat \<Rightarrow> ('dt, 'c) vhost_state \<Rightarrow> ('dt, 'c) vhost_state \<Rightarrow> bool" where
  "touches k s s' \<longleftrightarrow>
     length (vs_conns s') = length (vs_conns s) \<and>
     (\<forall>j. j \<noteq> k \<longrightarrow> vs_conns s' ! j = vs_conns s ! j \<and> history j s' = history j s \<and> unstarted j s' = unstarted j s) \<and>
     (\<forall>role. future_of role s' \<in> {None, Some k, future_of role s}) \<and>
     rq_conn ` set (vs_requests s') \<subseteq> insert k (rq_conn ` set (vs_requests s)) \<and>
     item_conn ` set (vs_calls s' @ vs_queue s') \<subseteq> insert k (item_conn ` set (vs_calls s @ vs_queue s))"

lemma touches_refl [simp]: "touches k s s"
  by (auto simp: touches_def)

lemma touchesD:
  assumes "touches k s s'"
  shows "future_of role s' \<in> {None, Some k, future_of role s}"
    and "rq_conn ` set (vs_requests s') \<subseteq> insert k (rq_conn ` set (vs_requests s))"
    and "item_conn ` set (vs_calls s' @ vs_queue s') \<subseteq> insert k (item_conn ` set (vs_calls s @ vs_queue s))"
    and "length (vs_conns s') = length (vs_conns s)"
  using assms by (simp_all add: touches_def)

lemma touches_trans: "touches k s s' \<Longrightarrow> touches k s' s'' \<Longrightarrow> touches k s s''"
proof -
  assume t: "touches k s s'" "touches k s' s''"
  have "future_of role s'' \<in> {None, Some k, future_of role s}" for role
    using touchesD(1) [OF t(1), of role] touchesD(1) [OF t(2), of role] by auto
  moreover have "rq_conn ` set (vs_requests s'') \<subseteq> insert k (rq_conn ` set (vs_requests s))"
    using touchesD(2) [OF t(1)] touchesD(2) [OF t(2)] by blast
  moreover have "item_conn ` set (vs_calls s'' @ vs_queue s'') \<subseteq> insert k (item_conn ` set (vs_calls s @ vs_queue s))"
    using touchesD(3) [OF t(1)] touchesD(3) [OF t(2)] by blast
  ultimately show ?thesis
    using t by (simp add: touches_def)
qed

lemma touches_post: "item_conn i = k \<Longrightarrow> touches k s (post i s)"
  by (auto simp: touches_def)

lemma touches_change: "touches k s (change k h s)"
  unfolding touches_def by (auto simp: change_def)

lemma touches_frame:
  "touches k s (s\<lparr>vs_timers := ts\<rparr>)" "touches k s (s\<lparr>vs_threads := th\<rparr>)"
  by (auto simp: touches_def)

lemma touches_set_future: "f = None \<or> f = Some k \<Longrightarrow> touches k s (set_future role f s)"
  by (auto simp: touches_def)

lemmas touches_intros = touches_trans [OF touches_post] touches_trans [OF touches_change] touches_trans [OF touches_set_future]

lemma vhost_inv_at:
  assumes "vhost_inv e s" and k: "k < length (vs_conns s)" and "touches k s s'"
    and "\<And>j. j \<noteq> k \<Longrightarrow> pointers_to e' j s' = pointers_to e j s"
    and "conn_ok k (vs_conns s' ! k) (pointers_to e' k s') (unstarted k s') (history k s')"
  shows "vhost_inv e' s'"
  unfolding vhost_inv_def
proof (intro conjI allI impI ballI)
  fix j assume "j < length (vs_conns s')"
  then show "conn_ok j (vs_conns s' ! j) (pointers_to e' j s') (unstarted j s') (history j s')"
    using assms by (cases "j = k") (auto simp: vhost_inv_def touches_def)
next
  fix role j assume "future_of role s' = Some j"
  then have "Some j \<in> {None, Some k, future_of role s}"
    using touchesD(1) [OF assms(3), of role] by simp
  then show "j < length (vs_conns s')"
    using assms(1) touchesD(4) [OF assms(3)] k by (auto simp: vhost_inv_def)
next
  fix q assume "q \<in> set (vs_requests s')"
  then have "rq_conn q \<in> insert k (rq_conn ` set (vs_requests s))"
    using touchesD(2) [OF assms(3)] by blast
  then show "rq_conn q < length (vs_conns s')"
    using assms(1) touchesD(4) [OF assms(3)] k by (auto simp: vhost_inv_def)
next
  fix i assume "i \<in> set (vs_calls s' @ vs_queue s')"
  then have "item_conn i \<in> insert k (item_conn ` set (vs_calls s @ vs_queue s))"
    using touchesD(3) [OF assms(3)] by blast
  then show "item_conn i < length (vs_conns s')"
    using assms(1) touchesD(4) [OF assms(3)] k by (auto simp: vhost_inv_def)
qed

lemma vhost_invD:
  "vhost_inv e s \<Longrightarrow> k < length (vs_conns s) \<Longrightarrow>
     conn_ok k (vs_conns s ! k) (pointers_to e k s) (unstarted k s) (history k s)"
  by (simp add: vhost_inv_def)

lemma waiters_simps [simp]:
  "waiters k (post i s) = waiters k s" "waiters k (change j h s) = waiters k s"
  "waiters k (set_future role f s) = waiters k s" "waiters k (s\<lparr>vs_timers := ts\<rparr>) = waiters k s"
  "waiters k (s\<lparr>vs_threads := th\<rparr>) = waiters k s" "waiters k (s\<lparr>vs_conns := cs\<rparr>) = waiters k s"
  "waiters k (s\<lparr>vs_calls := ks\<rparr>) = waiters k s" "waiters k (s\<lparr>vs_queue := qs\<rparr>) = waiters k s"
  "waiters k (s\<lparr>vs_registered := rg\<rparr>) = waiters k s"
  by (simp_all add: waiters_def)

lemma pointers_simps [simp]:
  "pointers_to e k (post i s) = pointers_to e k s" "pointers_to e k (change j h s) = pointers_to e k s"
  "pointers_to e k (s\<lparr>vs_timers := ts\<rparr>) = pointers_to e k s" "pointers_to e k (s\<lparr>vs_threads := th\<rparr>) = pointers_to e k s"
  "pointers_to e k (s\<lparr>vs_conns := cs\<rparr>) = pointers_to e k s" "pointers_to e k (s\<lparr>vs_calls := ks\<rparr>) = pointers_to e k s"
  "pointers_to e k (s\<lparr>vs_queue := qs\<rparr>) = pointers_to e k s" "pointers_to e k (s\<lparr>vs_registered := rg\<rparr>) = pointers_to e k s"
  "pointers_to (e(k := Suc (e k))) k s = Suc (pointers_to e k s)"
  "j \<noteq> k \<Longrightarrow> pointers_to (e(k := n)) j s = pointers_to e j s"
  by (simp_all add: pointers_to_def)

lemma doClose_touches: "touches k s (ConnectionImpl_doClose k s)"
  by (simp add: ConnectionImpl_doClose_def touches_trans [OF touches_trans [OF touches_frame(1) touches_post] touches_change])

lemma doClose_pointers [simp]: "pointers_to e j (ConnectionImpl_doClose k s) = pointers_to e j s"
  by (simp add: ConnectionImpl_doClose_def)

lemma ConnectionImpl_doClose_ok:
  assumes "conn_ok k (vs_conns s ! k) p (unstarted k s) (history k s)" and "k < length (vs_conns s)"
  shows "conn_ok k (vs_conns (ConnectionImpl_doClose k s) ! k) p (unstarted k (ConnectionImpl_doClose k s))
    (history k (ConnectionImpl_doClose k s))"
proof (cases "cf_open (vs_conns s ! k)")
  case True
  then have "shape k (history k s) 0" "cf_amqp (vs_conns s ! k)"
    using assms(1) by (auto simp: conn_ok_def closes_ok_def split: if_splits)
  then have "shape k (history k s @ [LI_close k True]) (Suc 0)"
    by (simp add: shape_close)
  then show ?thesis
    using True assms by (auto simp: ConnectionImpl_doClose_def conn_ok_def closes_ok_def)
qed (use assms in \<open>simp add: ConnectionImpl_doClose_def\<close>)

lemma doClose_inv:
  assumes "vhost_inv e s" and "k < length (vs_conns s)"
  shows "vhost_inv e (ConnectionImpl_doClose k s)"
  using ConnectionImpl_doClose_ok [OF vhost_invD [OF assms] assms(2)]
  by (intro vhost_inv_at [OF assms doClose_touches]) simp_all

lemma doClose_frame [simp]:
  "vs_requests (ConnectionImpl_doClose k s) = vs_requests s" "vs_threads (ConnectionImpl_doClose k s) = vs_threads s"
  "future_of role (ConnectionImpl_doClose k s) = future_of role s" "vs_calls (ConnectionImpl_doClose k s) = vs_calls s"
  "length (vs_conns (ConnectionImpl_doClose k s)) = length (vs_conns s)"
  "vs_options (ConnectionImpl_doClose k s) = vs_options s"
  by (simp_all add: ConnectionImpl_doClose_def)

text \<open>Letting go of a pointer.\<close>

lemma release_touches: "touches k s (release k s)"
  by (simp add: release_def Let_def shutdownAmqpConnection_def touches_change touches_trans [OF touches_change touches_post]
      touches_trans [OF touches_change doClose_touches])

lemma release_pointers [simp]: "pointers_to e j (release k s) = pointers_to e j s"
  by (simp add: release_def shutdownAmqpConnection_def Let_def)

lemma release_ok:
  assumes ok: "conn_ok k (vs_conns s ! k) (Suc p) (unstarted k s) (history k s)" and k: "k < length (vs_conns s)"
  shows "conn_ok k (vs_conns (release k s) ! k) p (unstarted k (release k s)) (history k (release k s))"
proof -
  let ?c = "vs_conns s ! k" and ?s = "change k (\<lambda>c. c\<lparr>cf_refs := cf_refs c - 1\<rparr>) s"
  consider (cancel) "p = 0" "cf_result ?c = None" | (close) "p = 0" "cf_open ?c" | (rest) "p = 0 \<longrightarrow> cf_result ?c \<noteq> None \<and> \<not> cf_open ?c"
    by blast
  then show ?thesis
  proof cases
    case cancel
    then have "shape k (history k s) 0" "cf_amqp ?c" "\<not> cf_open ?c"
      using ok by (auto simp: conn_ok_def closes_ok_def split: if_splits)
    then have "shape k (history k s @ [LI_close k False]) (Suc 0)" "cf_amqp ?c" "\<not> cf_open ?c"
      by (simp_all add: shape_close)
    moreover have "release k s = post (LI_close k False) ?s"
      using cancel ok by (simp add: release_def shutdownAmqpConnection_def conn_ok_def)
    ultimately show ?thesis
      using cancel ok k by (auto simp: conn_ok_def closes_ok_def)
  next
    case close
    then have "shape k (history k s) 0" "cf_amqp ?c" "\<exists>r. cf_result ?c = Some r \<and> Result_ok r"
      using ok by (auto simp: conn_ok_def closes_ok_def split: if_splits)
    moreover from this have "shape k (history k s @ [LI_close k True]) (Suc 0)"
      by (simp add: shape_close)
    moreover have "release k s = ConnectionImpl_doClose k ?s"
      using close ok calculation(3) by (auto simp: release_def conn_ok_def)
    ultimately show ?thesis
      using close ok k by (auto simp: conn_ok_def closes_ok_def ConnectionImpl_doClose_def)
  next
    case rest
    then have "release k s = ?s"
      using ok k by (cases "p = 0") (auto simp: release_def conn_ok_def ConnectionImpl_doClose_def Let_def)
    then show ?thesis
      using rest ok k by (cases "cf_result ?c") (auto simp: conn_ok_def closes_ok_def)
  qed
qed

lemma release_inv:
  assumes "vhost_inv (e(k := Suc (e k))) s" and "k < length (vs_conns s)"
  shows "vhost_inv e (release k s)"
  using release_ok [of k s "pointers_to e k s"] vhost_invD [OF assms] assms(2)
  by (intro vhost_inv_at [OF assms release_touches]) simp_all

lemma release_frame [simp]:
  "vs_requests (release k s) = vs_requests s" "vs_threads (release k s) = vs_threads s"
  "future_of role (release k s) = future_of role s" "vs_calls (release k s) = vs_calls s"
  "length (vs_conns (release k s)) = length (vs_conns s)" "vs_options (release k s) = vs_options s"
  by (simp_all add: release_def shutdownAmqpConnection_def Let_def)

lemma release_result [simp]:
  "k < length (vs_conns s) \<Longrightarrow> cf_result (vs_conns (release k s) ! j) = cf_result (vs_conns s ! j)"
  by (simp add: release_def shutdownAmqpConnection_def ConnectionImpl_doClose_def Let_def)
lemma length_filter_update:
  "r < length xs \<Longrightarrow> length (filter P (xs[r := y])) + of_bool (P (xs ! r)) = length (filter P xs) + of_bool (P y)"
proof (induction xs arbitrary: r)
  case (Cons x xs)
  show ?case
  proof (cases r)
    case (Suc r')
    then show ?thesis
      using Cons.IH [of r'] Cons.prems by (cases "P x") auto
  qed simp
qed simp

lemma answer_waiters:
  assumes "r < length (vs_requests s)" and "waits_for k (vs_requests s ! r)" and "st \<noteq> RS_waiting"
  shows "waiters j s = waiters j (answer r st s) + of_bool (j = k)"
  using length_filter_update [OF assms(1), of "waits_for j" "(vs_requests s ! r)\<lparr>rq_state := st\<rparr>"] assms(2,3)
  by (auto simp: waiters_def answer_def waits_for_def split: if_splits)

lemma answer_touches: "rq_conn (vs_requests s ! r) = k \<Longrightarrow> touches k s (answer r st s)"
  using set_update_subset_insert [of "vs_requests s" r "(vs_requests s ! r)\<lparr>rq_state := st\<rparr>"]
  by (auto simp: touches_def answer_def history_def)

text \<open>A request is answered at once, or a call is posted on an open connection.\<close>

lemma proxyCreate_cases:
  obtains (answered) e where "proxyCreate live k r result s = answer r (RS_done e) s"
  | (posted) i where "proxyCreate live k r result s = post i (answer r RS_posted s)" "item_conn i = k"
      "item_request i = Some r" "cf_open (vs_conns s ! k)"
proof -
  let ?a = "case rq_args (vs_requests s ! r) of
      CA_producer t x _ \<Rightarrow> ConnectionImpl_createProducerAsync live r t x k s
    | CA_consumer t q c \<Rightarrow> ConnectionImpl_createConsumerAsync r t c k s"
  have posts: "item_conn i = k \<and> item_request i = Some r \<and> cf_open (vs_conns s ! k)" if "?a = Inr i" for i
    using that
    by (auto simp: ConnectionImpl_createProducerAsync_def ConnectionImpl_createConsumerAsync_def Let_def
        split: create_args.splits option.splits if_splits)
  show thesis
  proof (cases "Result_ok result")
    case True
    then show thesis
      using that posts by (cases ?a) (simp_all add: proxyCreate_def)
  qed (use that in \<open>simp add: proxyCreate_def\<close>)
qed

lemma proxyCreate_inv:
  assumes inv: "vhost_inv e s" and r: "r < length (vs_requests s)" "waits_for k (vs_requests s ! r)"
    and k: "k < length (vs_conns s)"
  shows "vhost_inv (e(k := Suc (e k))) (proxyCreate live k r result s)"
proof -
  have conn: "rq_conn (vs_requests s ! r) = k"
    using r(2) by (simp add: waits_for_def)
  have p: "pointers_to (e(k := Suc (e k))) j (answer r st s) = pointers_to e j s" if "st \<noteq> RS_waiting" for st j
    using answer_waiters [OF r that, of j] by (simp add: pointers_to_def)
  note ok = vhost_invD [OF inv k]
  show ?thesis
  proof (cases rule: proxyCreate_cases [of live k r result s])
    case (answered e')
    then show ?thesis
      using ok by (intro vhost_inv_at [OF inv k]) (simp_all add: p answer_touches [OF conn] del: pointers_simps(9,10))
  next
    case (posted i)
    then have "shape k (history k s) 0" "cf_amqp (vs_conns s ! k)"
      using ok by (auto simp: conn_ok_def closes_ok_def)
    then have "shape k (history k s @ [i]) 0" "\<not> unstarted k s"
      using posted ok by (auto intro: shape_create simp: conn_ok_def)
    moreover have "i \<noteq> LI_start k"
      using posted(3) by auto
    ultimately show ?thesis
      using ok posted(2-4) unfolding posted(1)
      by (intro vhost_inv_at [OF inv k])
        (auto simp: p conn_ok_def closes_ok_def touches_trans [OF answer_touches [OF conn] touches_post] simp del: pointers_simps(9,10))
  qed
qed

lemma proxyCreate_frame [simp]:
  "vs_conns (proxyCreate live k r result s) = vs_conns s"
  "length (vs_requests (proxyCreate live k r result s)) = length (vs_requests s)"
  "r' \<noteq> r \<Longrightarrow> vs_requests (proxyCreate live k r result s) ! r' = vs_requests s ! r'"
  "vs_threads (proxyCreate live k r result s) = vs_threads s"
  "future_of role (proxyCreate live k r result s) = future_of role s"
  "vs_calls (proxyCreate live k r result s) = vs_calls s" "vs_options (proxyCreate live k r result s) = vs_options s"
  by (cases rule: proxyCreate_cases [of live k r result s]; simp add: answer_def)+

lemma resolve_fold_inv:
  assumes "vhost_inv e s" and "k < length (vs_conns s)" and "distinct rs"
    and "\<forall>r \<in> set rs. r < length (vs_requests s) \<and> waits_for k (vs_requests s ! r)"
  shows "vhost_inv e (fold (\<lambda>r s. release k (proxyCreate live k r result s)) rs s)"
  using assms
proof (induction rs arbitrary: s)
  case (Cons r rs)
  have "vhost_inv e (release k (proxyCreate live k r result s))"
    using Cons.prems by (intro release_inv proxyCreate_inv) auto
  moreover have "\<forall>r' \<in> set rs. r' \<noteq> r"
    using Cons.prems(3) by auto
  ultimately show ?case
    using Cons.prems by (auto intro!: Cons.IH)
qed simp

lemma fold_frame [simp]:
  "length (vs_conns (fold (\<lambda>r s. release k (proxyCreate live k r result s)) rs s)) = length (vs_conns s)"
  "future_of role (fold (\<lambda>r s. release k (proxyCreate live k r result s)) rs s) = future_of role s"
  "vs_threads (fold (\<lambda>r s. release k (proxyCreate live k r result s)) rs s) = vs_threads s"
  "length (vs_requests (fold (\<lambda>r s. release k (proxyCreate live k r result s)) rs s)) = length (vs_requests s)"
  by (induction rs arbitrary: s) auto
lemma resolveFuture_inv:
  assumes inv: "vhost_inv e s" and k: "k < length (vs_conns s)" and c: "0 < cf_refs (vs_conns s ! k)"
    "cf_result (vs_conns s ! k) = None" "\<not> cf_firstConnectCb (vs_conns s ! k)" "\<not> unstarted k s"
  shows "vhost_inv e (resolveFuture live k result s)"
proof -
  let ?s = "change k (\<lambda>c. c\<lparr>cf_refs := cf_refs c + 1, cf_result := Some result, cf_open := Result_ok result\<rparr>) s"
  have "conn_ok k (vs_conns ?s ! k) (pointers_to (e(k := Suc (e k))) k ?s) (unstarted k ?s) (history k ?s)"
    using vhost_invD [OF inv k] k c by (auto simp: conn_ok_def closes_ok_def)
  then have "vhost_inv (e(k := Suc (e k))) ?s"
    by (intro vhost_inv_at [OF inv k touches_change]) simp_all
  moreover have "\<forall>r \<in> set (waiting_on k s). r < length (vs_requests ?s) \<and> waits_for k (vs_requests ?s ! r)"
    by (auto simp: waiting_on_def)
  moreover have "distinct (waiting_on k s)"
    by (simp add: waiting_on_def)
  ultimately show ?thesis
    using k unfolding resolveFuture_def Let_def by (intro release_inv resolve_fold_inv) simp_all
qed

lemma initiateConnection_inv:
  assumes inv: "vhost_inv e s" and k: "k < length (vs_conns s)" and c: "cf_result (vs_conns s ! k) = None"
    "\<not> cf_firstConnectCb (vs_conns s ! k)" "\<not> unstarted k s"
    and closed: "cf_refs (vs_conns s ! k) = 0 \<Longrightarrow> shape k (history k s) 1"
  shows "vhost_inv e (initiateConnection live success k s)"
proof (cases "cf_refs (vs_conns s ! k) = 0")
  case True
  let ?s = "ConnectionImpl_doClose k (change k (\<lambda>c. c\<lparr>cf_open := True\<rparr>) s)"
  have "shape k (history k s @ [LI_close k True]) (Suc (Suc 0))"
    using shape_close [OF closed [OF True], of "LI_close k True"] by simp
  then have "conn_ok k (vs_conns ?s ! k) (pointers_to e k ?s) (unstarted k ?s) (history k ?s)"
    using vhost_invD [OF inv k] True c k by (auto simp: conn_ok_def closes_ok_def ConnectionImpl_doClose_def)
  then have "vhost_inv e ?s"
    by (intro vhost_inv_at [OF inv k touches_trans [OF touches_change doClose_touches]]) simp_all
  then show ?thesis
    using True inv by (simp add: initiateConnection_def)
next
  case False
  then show ?thesis
    using resolveFuture_inv [OF inv k _ c] inv by (simp add: initiateConnection_def)
qed

lemma holds_close: "is_close i \<Longrightarrow> holds k i \<longleftrightarrow> item_conn i = k"
  by (cases i) auto

text \<open>The first call on a connection finds it alive.\<close>

lemma unstarted_alive:
  assumes inv: "vhost_inv e s" and q: "vs_queue s = LI_start k # q" and k: "k < length (vs_conns s)"
  shows "conn_alive k (s\<lparr>vs_queue := q\<rparr>) \<and> LI_start k \<notin> set q"
proof -
  have u: "unstarted k s" using q by simp
  then have c: "cf_result (vs_conns s ! k) = None" "cf_amqp (vs_conns s ! k)"
    using vhost_invD [OF inv k] by (auto simp: conn_ok_def)
  then obtain cs ds n where h: "history k s = LI_start k # cs @ ds" "\<forall>i \<in> set cs. item_request i \<noteq> None"
      "\<forall>i \<in> set ds. is_close i" "length ds = n" "closes_ok (vs_conns s ! k) True n"
    using vhost_invD [OF inv k] u by (auto simp: conn_ok_def shape_def)
  have no: "LI_start k \<notin> set (cs @ ds)"
    using h(2,3) by auto
  have "filter (\<lambda>i. item_conn i = k) (vs_calls s) @ LI_start k # filter (\<lambda>i. item_conn i = k) q = LI_start k # cs @ ds"
    using h(1) q by (simp add: history_def)
  then have f: "filter (\<lambda>i. item_conn i = k) q = cs @ ds"
    using no by (cases "filter (\<lambda>i. item_conn i = k) (vs_calls s)") (auto, metis Un_iff in_set_conv_decomp set_append)
  have "LI_start k \<notin> set q"
    using no unfolding f [symmetric] by simp
  moreover have "list_ex (holds k) q" if "cf_refs (vs_conns s ! k) = 0"
  proof -
    from that h(4,5) c have "ds \<noteq> []"
      by (auto simp: closes_ok_def)
    then obtain i where i: "i \<in> set ds" by (cases ds) auto
    then have "i \<in> set (filter (\<lambda>i. item_conn i = k) q)"
      by (simp add: f)
    then have "i \<in> set q" "item_conn i = k" "is_close i"
      using i h(3) by simp_all
    then have "i \<in> set q \<and> holds k i"
      by (simp add: holds_close)
    then show ?thesis by (auto simp: list_ex_iff)
  qed
  ultimately show ?thesis
    using c by (auto simp: conn_alive_def)
qed

text \<open>The future of a request that is no longer waiting is not affected by another answer.\<close>

lemma answer_idle:
  assumes "rq_state (vs_requests s ! r) \<noteq> RS_waiting" and "st \<noteq> RS_waiting"
  shows "waiters j (answer r st s) = waiters j s"
proof (cases "r < length (vs_requests s)")
  case True
  then show ?thesis
    using length_filter_update [OF True, of "waits_for j" "(vs_requests s ! r)\<lparr>rq_state := st\<rparr>"] assms
    by (simp add: waiters_def answer_def waits_for_def)
qed (simp add: answer_def list_update_beyond)

lemma answer_idle_inv:
  assumes "vhost_inv e s" and "rq_state (vs_requests s ! r) \<noteq> RS_waiting" and "st \<noteq> RS_waiting"
  shows "vhost_inv e (answer r st s)"
  unfolding vhost_inv_def
proof (intro conjI allI impI ballI)
  fix q assume "q \<in> set (vs_requests (answer r st s))"
  then obtain j where "j < length (vs_requests s)" "q = (vs_requests s)[r := (vs_requests s ! r)\<lparr>rq_state := st\<rparr>] ! j"
    by (auto simp: answer_def in_set_conv_nth)
  then have "j < length (vs_requests s)" "rq_conn q = rq_conn (vs_requests s ! j)"
    by (cases "j = r"; simp)+
  then have "rq_conn q \<in> rq_conn ` set (vs_requests s)"
    by simp
  then show "rq_conn q < length (vs_conns (answer r st s))"
    using assms(1) by (auto simp: vhost_inv_def)
qed (use assms in \<open>auto simp: vhost_inv_def pointers_to_def answer_idle\<close>)

text \<open>A call moves from the queue to the calls made.\<close>

definition moved :: "('dt, 'c) loop_item \<Rightarrow> ('dt, 'c) loop_item list \<Rightarrow> ('dt, 'c) vhost_state \<Rightarrow> ('dt, 'c) vhost_state" where
  "moved i q s = s\<lparr>vs_queue := q, vs_calls := vs_calls s @ [i]\<rparr>"

lemma moved_history: "vs_queue s = i # q \<Longrightarrow> history j (moved i q s) = history j s"
  by (simp add: history_def moved_def)

lemma moved_simps [simp]:
  "vs_conns (moved i q s) = vs_conns s" "vs_requests (moved i q s) = vs_requests s" "vs_queue (moved i q s) = q"
  "vs_calls (moved i q s) = vs_calls s @ [i]" "future_of role (moved i q s) = future_of role s"
  "pointers_to e k (moved i q s) = pointers_to e k s" "vs_threads (moved i q s) = vs_threads s"
  "vs_options (moved i q s) = vs_options s"
  by (simp_all add: moved_def)

lemma moved_inv:
  assumes "vhost_inv e s" and "vs_queue s = i # q" and "\<And>k. i \<noteq> LI_start k"
  shows "vhost_inv e (moved i q s)"
proof -
  have "unstarted k (moved i q s) = unstarted k s" for k
    using assms(2) assms(3) [of k] by auto
  then show ?thesis
    using assms(1,2) by (auto simp: vhost_inv_def moved_history [OF assms(2)])
qed

lemma moved_start_inv:
  assumes inv: "vhost_inv e s" and q: "vs_queue s = LI_start k # q" and k: "k < length (vs_conns s)"
  shows "vhost_inv e (RabbitContextImpl_startFirstConnection k (s\<lparr>vs_queue := q\<rparr>))"
proof -
  let ?t = "change k (\<lambda>c. c\<lparr>cf_firstConnectCb := True\<rparr>) (moved (LI_start k) q s)"
  have u: "unstarted k s" and a: "conn_alive k (s\<lparr>vs_queue := q\<rparr>)" and n: "LI_start k \<notin> set q"
    using unstarted_alive [OF inv q k] q by auto
  have "touches k s ?t"
    by (rule touches_trans [OF _ touches_change]) (auto simp: touches_def q moved_history)
  moreover have "conn_ok k (vs_conns ?t ! k) (pointers_to e k ?t) (unstarted k ?t) (history k ?t)"
    using vhost_invD [OF inv k] u n k by (auto simp: conn_ok_def closes_ok_def moved_history [OF q])
  ultimately have "vhost_inv e ?t"
    by (intro vhost_inv_at [OF inv k]) simp_all
  moreover have "vhost_inv e (t\<lparr>vs_registered := rg\<rparr>) = vhost_inv e t" for t :: "('a, 'b) vhost_state" and rg
    by (simp add: vhost_inv_def history_def)
  ultimately show ?thesis
    using a by (simp add: RabbitContextImpl_startFirstConnection_def Let_def moved_def)
qed

lemma event_inv:
  assumes inv: "vhost_inv e s" and q: "vs_queue s = i # q"
    and idle: "\<And>r. item_request i = Some r \<Longrightarrow> rq_state (vs_requests s ! r) \<noteq> RS_waiting"
  shows "vhost_inv e (run_item i (s\<lparr>vs_queue := q\<rparr>))"
proof (cases i)
  case (LI_start k)
  then have "k < length (vs_conns s)"
    using inv q by (auto simp: vhost_inv_def)
  then show ?thesis
    using moved_start_inv [OF inv] LI_start q by simp
next
  case (LI_close k t)
  then show ?thesis
    using moved_inv [OF inv q] by (simp add: moved_def)
next
  case (LI_send_channel k r t x h)
  then have "vhost_inv e (answer r RS_channel (moved i q s))"
    using moved_inv [OF inv q] idle by (intro answer_idle_inv) simp_all
  then show ?thesis
    using LI_send_channel by (simp add: moved_def)
next
  case (LI_receive_channel k r t c h)
  then have "vhost_inv e (answer r RS_channel (moved i q s))"
    using moved_inv [OF inv q] idle by (intro answer_idle_inv) simp_all
  then show ?thesis
    using LI_receive_channel by (simp add: moved_def)
qed
abbreviation none :: "nat \<Rightarrow> nat" where
  "none \<equiv> \<lambda>_. 0"

lemma pointers_set_future:
  "pointers_to e j (set_future role f s) + of_bool (future_of role s = Some j) = pointers_to e j s + of_bool (f = Some j)"
  by (cases role) (simp_all add: pointers_to_def waiters_def)

lemma pointers_extra: "pointers_to (none(k := Suc 0)) j s = pointers_to none j s + of_bool (j = k)"
  by (simp add: pointers_to_def)

text \<open>A new connection.\<close>

lemma new_conn_inv:
  assumes inv: "vhost_inv none s" and f: "future_of role s = None" and n: "n = length (vs_conns s)"
    and c: "cf_refs c = 1" "\<not> cf_open c" "\<not> cf_firstConnectCb c"
    and i: "cf_amqp c \<and> cf_result c = None \<and> its = [LI_start n] \<or>
       \<not> cf_amqp c \<and> (\<exists>r. cf_result c = Some r \<and> \<not> Result_ok r) \<and> its = []"
  shows "vhost_inv none (set_future role (Some n) (s\<lparr>vs_conns := vs_conns s @ [c], vs_queue := vs_queue s @ its\<rparr>))"
    (is "vhost_inv none (set_future role (Some n) ?s)")
proof -
  let ?t = "set_future role (Some n) ?s"
  have old: "item_conn i \<noteq> n" if "i \<in> set (vs_calls s @ vs_queue s)" for i
    using inv that n unfolding vhost_inv_def by (metis less_irrefl)
  have "history n s = []"
    using old by (auto simp: history_def filter_empty_conv)
  then have hn: "history n ?t = its"
    using i by (auto simp: history_def)
  have h: "history j ?t = history j s \<and> unstarted j ?t = unstarted j s" if "j \<noteq> n" for j
    using i that by (auto simp: history_def)
  have un: "\<not> unstarted n s"
    using old by force
  have w: "waiters n s = 0"
    using inv n by (auto simp: waiters_def waits_for_def vhost_inv_def filter_empty_conv)
  have fn: "future_of role' s \<noteq> Some n" for role'
    using inv n by (auto simp: vhost_inv_def)
  have pn: "pointers_to none n ?t = 1"
    using pointers_set_future [of none n role "Some n" ?s] w fn [of Producer_role] fn [of Consumer_role] f
    by (simp add: pointers_to_def waiters_def)
  have pj: "pointers_to none j ?t = pointers_to none j s" if "j \<noteq> n" for j
    using pointers_set_future [of none j role "Some n" ?s] that f by (simp add: pointers_to_def waiters_def)
  have cn: "conn_ok n c 1 (unstarted n ?t) its"
    using i c un by (auto simp: conn_ok_def closes_ok_def shape_def)
  show ?thesis
    unfolding vhost_inv_def
  proof (intro conjI allI impI ballI)
    fix j assume "j < length (vs_conns ?t)"
    then show "conn_ok j (vs_conns ?t ! j) (pointers_to none j ?t) (unstarted j ?t) (history j ?t)"
      using inv cn pn hn pj h n by (cases "j = n") (auto simp: vhost_inv_def nth_append)
  next
    fix role' k assume "future_of role' ?t = Some k"
    then show "k < length (vs_conns ?t)"
      using inv n by (auto simp: vhost_inv_def less_Suc_eq split: if_splits)
  next
    fix q assume "q \<in> set (vs_requests ?t)"
    then show "rq_conn q < length (vs_conns ?t)"
      using inv by (auto simp: vhost_inv_def less_Suc_eq)
  next
    fix j assume "j \<in> set (vs_calls ?t @ vs_queue ?t)"
    then show "item_conn j < length (vs_conns ?t)"
      using inv i n by (auto simp: vhost_inv_def less_Suc_eq)
  qed
qed

lemma createNewConnection_result:
  obtains c its where "createNewConnection suffix s =
      (length (vs_conns s), s\<lparr>vs_conns := vs_conns s @ [c], vs_queue := vs_queue s @ its\<rparr>)"
    "cf_refs c = 1" "\<not> cf_open c" "\<not> cf_firstConnectCb c"
    "cf_amqp c \<and> cf_result c = None \<and> its = [LI_start (length (vs_conns s))] \<or>
       \<not> cf_amqp c \<and> (\<exists>r. cf_result c = Some r \<and> \<not> Result_ok r) \<and> its = []"
proof -
  note result = that
  define c where "c name result =
    \<lparr>cf_name = name, cf_refs = 1, cf_result = result, cf_amqp = (result = None), cf_open = False, cf_firstConnectCb = False\<rparr>"
    for name :: bytes and result :: "unit Result option"
  have failed: thesis if "createNewConnection suffix s = new_future name (Some (Result_error err (- 1))) s" for name err
    using that by (intro result [where c = "c name (Some (Result_error err (- 1)))" and its = "[]"])
      (simp_all add: new_future_def c_def Result_ok_def Result_error_def)
  have made: thesis if "createNewConnection suffix s = (case new_future name None s of (k, s) \<Rightarrow> (k, post (LI_start k) s))" for name
    using that by (intro result [where c = "c name None" and its = "[LI_start (length (vs_conns s))]"])
      (simp_all add: new_future_def c_def post_def)
  show thesis
    by (cases "co_endpoint (vs_options s)"; cases "co_credentials (vs_options s)"; cases "co_started (vs_options s)")
      (rule failed made, simp add: createNewConnection_def Let_def)+
qed

lemma create_locked_inv:
  assumes "vhost_inv none s"
  shows "vhost_inv none (create_locked args s)"
proof -
  have thr: "vhost_inv none (t\<lparr>vs_threads := th\<rparr>) = vhost_inv none t" for t :: "('a, 'b) vhost_state" and th
    by (simp add: vhost_inv_def)
  show ?thesis
  proof (cases "future_of (args_role args) s")
    case None
    obtain c its where n: "createNewConnection (role_suffix (args_role args)) s =
        (length (vs_conns s), s\<lparr>vs_conns := vs_conns s @ [c], vs_queue := vs_queue s @ its\<rparr>)"
      and c: "cf_refs c = 1" "\<not> cf_open c" "\<not> cf_firstConnectCb c"
        "cf_amqp c \<and> cf_result c = None \<and> its = [LI_start (length (vs_conns s))] \<or>
          \<not> cf_amqp c \<and> (\<exists>r. cf_result c = Some r \<and> \<not> Result_ok r) \<and> its = []"
      by (rule createNewConnection_result)
    show ?thesis
      using new_conn_inv [OF assms None refl c] None by (simp add: create_locked_def n thr Let_def)
  qed (use assms in \<open>simp add: create_locked_def thr\<close>)
qed
lemma create_chained_inv:
  assumes inv: "vhost_inv none s" and r: "create_chained live i s = Some s'"
  shows "vhost_inv none s'"
proof -
  define args where "args = vs_threads s ! i"
  define s1 where "s1 = s\<lparr>vs_threads := take i (vs_threads s) @ drop (Suc i) (vs_threads s)\<rparr>"
  obtain k where k: "future_of (args_role args) s = Some k"
    using r by (auto simp: create_chained_def args_def Let_def split: option.splits)
  define q where "q = \<lparr>rq_args = args, rq_conn = k, rq_state = RS_waiting, rq_held = True\<rparr>"
  define s2 where "s2 = s1\<lparr>vs_requests := vs_requests s1 @ [q]\<rparr>"
  define s3 where "s3 = change k (\<lambda>c. c\<lparr>cf_refs := cf_refs c + 1\<rparr>) s2"
  have kl: "k < length (vs_conns s)"
    using inv k by (auto simp: vhost_inv_def)
  have eq: "s' = (case cf_result (vs_conns s3 ! k) of None \<Rightarrow> s3
      | Some result \<Rightarrow> release k (proxyCreate live k (length (vs_requests s)) result s3))"
    using r k by (simp add: create_chained_def Let_def s3_def s2_def s1_def q_def args_def cong: option.case_cong)
  have "touches k s s2"
    by (auto simp: touches_def s2_def s1_def q_def)
  then have t: "touches k s s3"
    unfolding s3_def by (rule touches_trans [OF _ touches_change])
  have p: "pointers_to none j s3 = pointers_to none j s + of_bool (j = k)" for j
    by (auto simp: pointers_to_def waiters_def s3_def s2_def s1_def q_def waits_for_def)
  have inv3: "vhost_inv none s3"
  proof (rule vhost_inv_at [OF inv kl t])
    show "conn_ok k (vs_conns s3 ! k) (pointers_to none k s3) (unstarted k s3) (history k s3)"
    proof (cases "cf_refs (vs_conns s ! k) = 0")
      case True
      then have "pointers_to none k s = 0"
        using vhost_invD [OF inv kl] by (simp add: conn_ok_def)
      then show ?thesis
        using k by (cases "args_role args") (simp_all add: pointers_to_def)
    next
      case False
      then show ?thesis
        using vhost_invD [OF inv kl] p [of k] kl
        by (cases "cf_result (vs_conns s ! k)") (auto simp: conn_ok_def closes_ok_def s3_def s2_def s1_def)
    qed
  qed (use p in simp)
  have "waits_for k (vs_requests s3 ! length (vs_requests s))" "length (vs_requests s) < length (vs_requests s3)"
    by (simp_all add: s3_def s2_def s1_def q_def waits_for_def)
  then have "vhost_inv none (release k (proxyCreate live k (length (vs_requests s)) result s3))" for result
    using inv3 kl t by (intro release_inv proxyCreate_inv) (simp_all add: touchesD(4))
  then show ?thesis
    using inv3 unfolding eq by (cases "cf_result (vs_conns s3 ! k)") simp_all
qed

lemma shutdown_inv:
  assumes inv: "vhost_inv none s"
  shows "vhost_inv none (shutdownConnectionFuture role s)"
proof (cases "future_of role s")
  case (Some k)
  then have kl: "k < length (vs_conns s)"
    using inv by (auto simp: vhost_inv_def)
  define t where "t = (case cf_result (vs_conns s ! k) of
      Some result \<Rightarrow> if Result_ok result then ConnectionImpl_doClose k s else s | None \<Rightarrow> s)"
  have t: "vhost_inv none t" "length (vs_conns t) = length (vs_conns s)" "future_of role t = Some k"
    using doClose_inv [OF inv kl] inv Some by (auto simp: t_def split: option.splits)
  have p: "pointers_to (none(k := Suc 0)) j (set_future role None t) = pointers_to none j t" for j
    using pointers_set_future [of none j role None t] t(3) by (simp add: pointers_extra eq_commute [of k])
  have "conn_ok k (vs_conns t ! k) (pointers_to none k t) (unstarted k t) (history k t)"
    using vhost_invD [OF t(1)] t(2) kl by simp
  then have "vhost_inv (none(k := Suc 0)) (set_future role None t)"
    using kl t(2) by (intro vhost_inv_at [OF t(1) _ touches_set_future]) (simp_all only: p set_future_simps history_set_future, simp_all)
  then have "vhost_inv none (release k (set_future role None t))"
    using kl t(2) by (intro release_inv) simp_all
  then show ?thesis
    using Some by (simp add: shutdownConnectionFuture_def t_def Let_def)
qed (use inv in \<open>simp add: shutdownConnectionFuture_def\<close>)

lemma drop_inv:
  assumes inv: "vhost_inv none s" and r: "r < length (vs_requests s)"
  shows "vhost_inv none (drop_request r s)"
proof -
  let ?q = "vs_requests s ! r" and ?s = "s\<lparr>vs_requests := (vs_requests s)[r := (vs_requests s ! r)\<lparr>rq_held := False\<rparr>]\<rparr>"
  let ?k = "rq_conn ?q"
  have k: "?k < length (vs_conns s)"
    using inv r by (simp add: vhost_inv_def)
  have "set (vs_requests ?s) \<subseteq> insert (?q\<lparr>rq_held := False\<rparr>) (set (vs_requests s))"
    by (simp add: set_update_subset_insert)
  then have "touches ?k s ?s"
    by (auto simp: touches_def)
  moreover have w: "waiters j s = waiters j ?s + of_bool (waits_for ?k ?q \<and> j = ?k)" for j
    using length_filter_update [OF r, of "waits_for j" "?q\<lparr>rq_held := False\<rparr>"]
    by (auto simp: waiters_def waits_for_def split: if_splits)
  ultimately have "vhost_inv (none(?k := of_bool (waits_for ?k ?q))) ?s"
    using vhost_invD [OF inv k] by (intro vhost_inv_at [OF inv k]) (auto simp: pointers_to_def)
  then show ?thesis
    using release_inv [of none ?k ?s] k by (auto simp: drop_request_def Let_def fun_upd_idem split: if_splits)
qed
section \<open>What holds of every request\<close>

definition requests_ok :: "('dt, 'c) vhost_state \<Rightarrow> bool" where
  "requests_ok s \<longleftrightarrow>
     (\<forall>i \<in> set (vs_queue s). \<forall>r. item_request i = Some r \<longrightarrow>
        r < length (vs_requests s) \<and> rq_state (vs_requests s ! r) \<noteq> RS_waiting) \<and>
     (\<forall>r < length (vs_requests s). rq_state (vs_requests s ! r) = RS_posted \<longrightarrow>
        (\<exists>i \<in> set (vs_queue s). item_request i = Some r))"

definition unresolved_waits :: "('dt, 'c) vhost_state \<Rightarrow> bool" where
  "unresolved_waits s \<longleftrightarrow>
     (\<forall>r < length (vs_requests s). \<forall>k. waits_for k (vs_requests s ! r) \<longrightarrow> cf_result (vs_conns s ! k) = None)"

lemma answer_state:
  "rq_state (vs_requests (answer r st s) ! j) = (if j = r \<and> r < length (vs_requests s) then st else rq_state (vs_requests s ! j))"
  by (cases "r < length (vs_requests s)"; cases "j = r") (simp_all add: answer_def list_update_beyond)

lemma unheld_state: "rq_state (qs[r := (qs ! r)\<lparr>rq_held := b\<rparr>] ! j) = rq_state (qs ! j)"
  by (cases "r < length qs"; cases "j = r") (simp_all add: list_update_beyond)

lemma requests_ok_simps [simp]:
  "requests_ok (change k h s) = requests_ok s" "requests_ok (set_future role f s) = requests_ok s"
  "requests_ok (s\<lparr>vs_timers := ts\<rparr>) = requests_ok s" "requests_ok (s\<lparr>vs_threads := th\<rparr>) = requests_ok s"
  "requests_ok (s\<lparr>vs_conns := cs\<rparr>) = requests_ok s" "requests_ok (s\<lparr>vs_calls := ks\<rparr>) = requests_ok s"
  "requests_ok (s\<lparr>vs_registered := rg\<rparr>) = requests_ok s"
  by (simp_all add: requests_ok_def)

lemma requests_answer: "requests_ok s \<Longrightarrow> st \<noteq> RS_waiting \<Longrightarrow> st \<noteq> RS_posted \<Longrightarrow> requests_ok (answer r st s)"
  by (auto simp: requests_ok_def answer_state)

lemma requests_post: "requests_ok s \<Longrightarrow> item_request i = None \<Longrightarrow> requests_ok (post i s)"
  unfolding requests_ok_def by auto

lemma requests_posted:
  "requests_ok s \<Longrightarrow> item_request i = Some r \<Longrightarrow> r < length (vs_requests s) \<Longrightarrow> requests_ok (post i (answer r RS_posted s))"
  unfolding requests_ok_def by (auto simp: answer_state)

lemma requests_proxy:
  assumes "requests_ok s" and "r < length (vs_requests s)"
  shows "requests_ok (proxyCreate live k r result s)"
  by (cases rule: proxyCreate_cases [of live k r result s])
    (use assms in \<open>simp_all add: requests_answer requests_posted\<close>)

lemma requests_doClose: "requests_ok s \<Longrightarrow> requests_ok (ConnectionImpl_doClose k s)"
  by (simp add: ConnectionImpl_doClose_def requests_post)

lemma requests_release: "requests_ok s \<Longrightarrow> requests_ok (release k s)"
  by (simp add: release_def Let_def shutdownAmqpConnection_def requests_post requests_doClose)

lemma requests_fold:
  "requests_ok s \<Longrightarrow> \<forall>r \<in> set rs. r < length (vs_requests s) \<Longrightarrow>
     requests_ok (fold (\<lambda>r s. release k (proxyCreate live k r result s)) rs s)"
  by (induction rs arbitrary: s) (simp_all add: requests_release requests_proxy)

lemma requests_resolve: "requests_ok s \<Longrightarrow> requests_ok (resolveFuture live k result s)"
  unfolding resolveFuture_def Let_def by (intro requests_release requests_fold) (auto simp: waiting_on_def)

lemma requests_initiate: "requests_ok s \<Longrightarrow> requests_ok (initiateConnection live success k s)"
  by (simp add: initiateConnection_def requests_resolve requests_doClose)

lemma requests_queue:
  assumes "requests_ok s" and "vs_queue s = i # q"
  shows "requests_ok (run_item i (s\<lparr>vs_queue := q\<rparr>))"
proof (cases "item_request i")
  case None
  then have "requests_ok (s\<lparr>vs_queue := q\<rparr>)"
    using assms by (force simp: requests_ok_def)
  then show ?thesis
    using None by (cases i) (simp_all add: RabbitContextImpl_startFirstConnection_def Let_def)
next
  case (Some r)
  have "requests_ok (answer r RS_channel (s\<lparr>vs_queue := q, vs_calls := vs_calls s @ [i]\<rparr>))"
    using assms Some by (force simp: requests_ok_def answer_state)
  then show ?thesis
    using Some by (cases i) simp_all
qed

lemma requests_new:
  assumes "requests_ok s" and "rq_state q = RS_waiting"
  shows "requests_ok (s\<lparr>vs_threads := th, vs_requests := vs_requests s @ [q]\<rparr>)"
  using assms by (force simp: requests_ok_def nth_append less_Suc_eq)

lemma requests_step:
  assumes "requests_ok s" and "vhost_step i s = Some s'"
  shows "requests_ok s'"
proof (cases i)
  case (VI_create args)
  obtain c its where n: "createNewConnection (role_suffix (args_role args)) s =
      (length (vs_conns s), s\<lparr>vs_conns := vs_conns s @ [c], vs_queue := vs_queue s @ its\<rparr>)"
    and "its = [LI_start (length (vs_conns s))] \<or> its = []"
    by (rule createNewConnection_result [of "role_suffix (args_role args)" s]) auto
  then have "requests_ok (s\<lparr>vs_conns := vs_conns s @ [c], vs_queue := vs_queue s @ its\<rparr>)"
    using assms(1) by (auto simp: requests_ok_def)
  then show ?thesis
    using assms VI_create n by (auto simp: create_locked_def Let_def split: option.splits)
next
  case (VI_chain live j)
  then show ?thesis
    using assms
    by (auto simp: create_chained_def Let_def requests_new requests_release requests_proxy split: option.splits if_splits)
next
  case (VI_shutdown role)
  then show ?thesis
    using assms by (auto simp: shutdownConnectionFuture_def Let_def requests_release requests_doClose split: option.splits)
next
  case VI_event
  then show ?thesis
    using assms by (auto simp: requests_queue split: list.splits)
next
  case (VI_channel r st ch)
  then show ?thesis
    using assms by (auto simp: requests_answer split: if_splits)
next
  case (VI_drop r)
  have "requests_ok (s\<lparr>vs_requests := (vs_requests s)[r := (vs_requests s ! r)\<lparr>rq_held := False\<rparr>]\<rparr>)"
    using assms(1) by (auto simp: requests_ok_def unheld_state)
  then show ?thesis
    using assms VI_drop by (auto simp: drop_request_def Let_def requests_release split: if_splits)
qed (use assms in \<open>auto simp: requests_initiate split: if_splits\<close>)
lemma waits_answer:
  assumes "waits_for k (vs_requests (answer r st s) ! j)" and "st \<noteq> RS_waiting" and "r < length (vs_requests s)"
  shows "waits_for k (vs_requests s ! j) \<and> j \<noteq> r"
  using assms by (cases "j = r") (auto simp: answer_def waits_for_def)

lemma waits_run_item:
  "waits_for k (vs_requests (run_item i s) ! j) \<Longrightarrow> waits_for k (vs_requests s ! j)"
proof (induction i s rule: run_item.induct)
  case (3 k' r t x h s)
  then show ?case
    using waits_answer [of k r RS_channel "s\<lparr>vs_calls := vs_calls s @ [LI_send_channel k' r t x h]\<rparr>" j]
    by (cases "r < length (vs_requests s)") (auto simp: answer_def list_update_beyond)
next
  case (4 k' r t c h s)
  then show ?case
    using waits_answer [of k r RS_channel "s\<lparr>vs_calls := vs_calls s @ [LI_receive_channel k' r t c h]\<rparr>" j]
    by (cases "r < length (vs_requests s)") (auto simp: answer_def list_update_beyond)
qed (auto simp: RabbitContextImpl_startFirstConnection_def Let_def split: if_splits)

lemma run_item_frame:
  "length (vs_requests (run_item i s)) = length (vs_requests s)"
  "item_conn i < length (vs_conns s) \<Longrightarrow> cf_result (vs_conns (run_item i s) ! k) = cf_result (vs_conns s ! k)"
  "future_of role (run_item i s) = future_of role s" "vs_threads (run_item i s) = vs_threads s"
  by (cases i; simp add: RabbitContextImpl_startFirstConnection_def Let_def)+

lemma waits_proxy:
  assumes "waits_for j (vs_requests (proxyCreate live k r result s) ! r')" and "r < length (vs_requests s)"
  shows "waits_for j (vs_requests s ! r') \<and> r' \<noteq> r"
  by (cases rule: proxyCreate_cases [of live k r result s]) (use assms waits_answer in fastforce)+

lemma waits_fold:
  assumes "waits_for j (vs_requests (fold (\<lambda>r s. release k (proxyCreate live k r result s)) rs s) ! r')"
    and "\<forall>r \<in> set rs. r < length (vs_requests s)"
  shows "waits_for j (vs_requests s ! r') \<and> r' \<notin> set rs"
  using assms
proof (induction rs arbitrary: s)
  case (Cons r rs)
  have "waits_for j (vs_requests (release k (proxyCreate live k r result s)) ! r') \<and> r' \<notin> set rs"
    using Cons.prems by (intro Cons.IH) auto
  then show ?case
    using waits_proxy [of j live k r result s r'] Cons.prems(2) by simp
qed simp

lemma fold_result [simp]:
  "k < length (vs_conns s) \<Longrightarrow>
     cf_result (vs_conns (fold (\<lambda>r s. release k (proxyCreate live k r result s)) rs s) ! j) = cf_result (vs_conns s ! j)"
  by (induction rs arbitrary: s) simp_all

lemma doClose_result [simp]:
  "k < length (vs_conns s) \<Longrightarrow> cf_result (vs_conns (ConnectionImpl_doClose k s) ! j) = cf_result (vs_conns s ! j)"
  by (simp add: ConnectionImpl_doClose_def)

text \<open>Requests that wait afterwards waited before, for a connection whose result is the same.\<close>

lemma unresolved_mono:
  assumes "unresolved_waits s"
    and "\<And>r k. r < length (vs_requests s') \<Longrightarrow> waits_for k (vs_requests s' ! r) \<Longrightarrow>
       r < length (vs_requests s) \<and> waits_for k (vs_requests s ! r) \<and> cf_result (vs_conns s' ! k) = cf_result (vs_conns s ! k)"
  shows "unresolved_waits s'"
  unfolding unresolved_waits_def
proof (intro allI impI)
  fix r k assume "r < length (vs_requests s')" "waits_for k (vs_requests s' ! r)"
  then show "cf_result (vs_conns s' ! k) = None"
    using assms unfolding unresolved_waits_def by metis
qed

lemma unresolved_resolve:
  assumes "unresolved_waits s" and k: "k < length (vs_conns s)"
  shows "unresolved_waits (resolveFuture live k result s)"
proof (rule unresolved_mono [OF assms(1)])
  fix r j assume r: "r < length (vs_requests (resolveFuture live k result s))"
    "waits_for j (vs_requests (resolveFuture live k result s) ! r)"
  then have "r < length (vs_requests s)" "waits_for j (vs_requests s ! r) \<and> r \<notin> set (waiting_on k s)"
    using waits_fold [of j k live result "waiting_on k s"
        "change k (\<lambda>c. c\<lparr>cf_refs := cf_refs c + 1, cf_result := Some result, cf_open := Result_ok result\<rparr>) s" r]
    by (simp_all add: resolveFuture_def Let_def waiting_on_def)
  then show "r < length (vs_requests s) \<and> waits_for j (vs_requests s ! r) \<and>
      cf_result (vs_conns (resolveFuture live k result s) ! j) = cf_result (vs_conns s ! j)"
    using k by (auto simp: resolveFuture_def Let_def waiting_on_def)
qed

lemma unresolved_step:
  assumes un: "unresolved_waits s" and inv: "vhost_inv none s" and "vhost_step i s = Some s'"
  shows "unresolved_waits s'"
proof (cases i)
  case (VI_create args)
  have "\<forall>q \<in> set (vs_requests s). rq_conn q < length (vs_conns s)"
    using inv by (simp add: vhost_inv_def)
  then have "waits_for k (vs_requests s ! r) \<Longrightarrow> r < length (vs_requests s) \<Longrightarrow> k < length (vs_conns s)" for k r
    by (auto simp: waits_for_def)
  moreover obtain c its where "createNewConnection (role_suffix (args_role args)) s =
      (length (vs_conns s), s\<lparr>vs_conns := vs_conns s @ [c], vs_queue := vs_queue s @ its\<rparr>)"
    by (rule createNewConnection_result)
  ultimately show ?thesis
    using assms(3) VI_create
    by (intro unresolved_mono [OF un]) (auto simp: create_locked_def Let_def nth_append split: option.splits)
next
  case (VI_chain live j)
  define args where "args = vs_threads s ! j"
  show ?thesis
  proof (cases "j < length (vs_threads s)")
    case True
    then have r: "create_chained live j s = Some s'"
      using assms(3) VI_chain by simp
    then obtain k where k: "future_of (args_role args) s = Some k"
      by (auto simp: create_chained_def args_def Let_def split: option.splits)
    then have kl: "k < length (vs_conns s)"
      using inv by (auto simp: vhost_inv_def)
    define q where "q = \<lparr>rq_args = args, rq_conn = k, rq_state = RS_waiting, rq_held = True\<rparr>"
    define t where "t = change k (\<lambda>c. c\<lparr>cf_refs := cf_refs c + 1\<rparr>)
      (s\<lparr>vs_threads := take j (vs_threads s) @ drop (Suc j) (vs_threads s), vs_requests := vs_requests s @ [q]\<rparr>)"
    have t: "vs_requests t = vs_requests s @ [q]" "cf_result (vs_conns t ! j') = cf_result (vs_conns s ! j')" for j'
      using kl by (simp_all add: t_def)
    have eq: "s' = (case cf_result (vs_conns s ! k) of None \<Rightarrow> t
        | Some result \<Rightarrow> release k (proxyCreate live k (length (vs_requests s)) result t))"
      using r k kl by (simp add: create_chained_def Let_def t_def q_def args_def cong: option.case_cong)
    show ?thesis
    proof (cases "cf_result (vs_conns s ! k)")
      case None
      then show ?thesis
        using un eq unfolding unresolved_waits_def
        by (auto simp: t nth_append less_Suc_eq q_def waits_for_def)
    next
      case (Some result)
      show ?thesis
      proof (rule unresolved_mono [OF un])
        fix r k' assume "r < length (vs_requests s')" "waits_for k' (vs_requests s' ! r)"
        then show "r < length (vs_requests s) \<and> waits_for k' (vs_requests s ! r) \<and>
            cf_result (vs_conns s' ! k') = cf_result (vs_conns s ! k')"
          using waits_proxy [of k' live k "length (vs_requests s)" result t r] Some eq kl
          by (auto simp: t nth_append t_def)
      qed
    qed
  qed (use assms(3) un VI_chain in simp)
next
  case (VI_shutdown role)
  then show ?thesis
    using assms(3) inv
    by (intro unresolved_mono [OF un])
      (auto simp: shutdownConnectionFuture_def Let_def vhost_inv_def split: option.splits if_splits)
next
  case VI_event
  show ?thesis
  proof (cases "vs_queue s")
    case (Cons i' q)
    have "i' \<in> set (vs_calls s @ vs_queue s)"
      using Cons by simp
    then have "item_conn i' < length (vs_conns s)"
      using inv unfolding vhost_inv_def by blast
    then show ?thesis
      using assms(3) VI_event Cons
      by (intro unresolved_mono [OF un]) (auto simp: run_item_frame dest: waits_run_item)
  qed (use assms(3) un VI_event in simp)
next
  case (VI_connected live k success)
  have *: "unresolved_waits (change k (\<lambda>c. c\<lparr>cf_firstConnectCb := False\<rparr>) s)"
    if "k < length (vs_conns s)" using that by (intro unresolved_mono [OF un]) simp
  show ?thesis
  proof (cases "k < length (vs_conns s) \<and> cf_firstConnectCb (vs_conns s ! k)")
    case True
    let ?s = "change k (\<lambda>c. c\<lparr>cf_firstConnectCb := False\<rparr>) s"
    have "unresolved_waits (ConnectionImpl_doClose k (change k (\<lambda>c. c\<lparr>cf_open := True\<rparr>) ?s))"
      using True * by (intro unresolved_mono [OF un]) simp
    then show ?thesis
      using assms(3) VI_connected True * by (auto simp: initiateConnection_def unresolved_resolve)
  qed (use assms(3) un VI_connected in auto)
next
  case (VI_channel r st ch)
  then show ?thesis
    using assms(3) by (intro unresolved_mono [OF un]) (auto dest: waits_answer split: if_splits)
next
  case (VI_drop r)
  show ?thesis
  proof (cases "r < length (vs_requests s)")
    case True
    then have "rq_conn (vs_requests s ! r) < length (vs_conns s)"
      using inv by (simp add: vhost_inv_def)
    then have "cf_result (vs_conns s' ! k) = cf_result (vs_conns s ! k)" for k
      using assms(3) VI_drop True by (auto simp: drop_request_def Let_def split: if_splits)
    moreover have "vs_requests s' = (vs_requests s)[r := (vs_requests s ! r)\<lparr>rq_held := False\<rparr>]"
      using assms(3) VI_drop True by (auto simp: drop_request_def Let_def split: if_splits)
    ultimately show ?thesis
      using True by (intro unresolved_mono [OF un]) (auto simp: nth_list_update waits_for_def split: if_splits)
  qed (use assms(3) un VI_drop in simp)
qed (use assms in \<open>auto simp: unresolved_waits_def\<close>)
section \<open>All interleavings\<close>

definition vhost_ok :: "('dt, 'c) vhost_state \<Rightarrow> bool" where
  "vhost_ok s \<longleftrightarrow> vhost_inv none s \<and> requests_ok s \<and> unresolved_waits s"

lemma connected_inv:
  assumes inv: "vhost_inv none s" and k: "k < length (vs_conns s)" and cb: "cf_firstConnectCb (vs_conns s ! k)"
  shows "vhost_inv none (initiateConnection live success k (change k (\<lambda>c. c\<lparr>cf_firstConnectCb := False\<rparr>) s))"
proof -
  let ?s = "change k (\<lambda>c. c\<lparr>cf_firstConnectCb := False\<rparr>) s"
  note ok = vhost_invD [OF inv k]
  have c: "cf_result (vs_conns s ! k) = None" "\<not> unstarted k s" "cf_amqp (vs_conns s ! k)" "\<not> cf_open (vs_conns s ! k)"
    using ok cb by (auto simp: conn_ok_def)
  then obtain n where n: "shape k (history k s) n" "cf_refs (vs_conns s ! k) = 0 \<longrightarrow> n = 1"
      "closes_ok (vs_conns s ! k) (unstarted k s) n"
    using ok cb by (auto simp: conn_ok_def closes_ok_def split: if_splits)
  then have "conn_ok k (vs_conns ?s ! k) (pointers_to none k ?s) (unstarted k ?s) (history k ?s)"
    using ok c k by (auto simp: conn_ok_def closes_ok_def)
  then have "vhost_inv none ?s"
    by (intro vhost_inv_at [OF inv k touches_change]) simp_all
  then show ?thesis
    using c k n(1,2) by (intro initiateConnection_inv) auto
qed

lemma vhost_ok_step:
  assumes "vhost_ok s" and "vhost_step i s = Some s'"
  shows "vhost_ok s'"
proof -
  have inv: "vhost_inv none s" and req: "requests_ok s" and un: "unresolved_waits s"
    using assms(1) by (simp_all add: vhost_ok_def)
  have idle: "rq_state (vs_requests s ! r) \<noteq> RS_waiting" if "vs_queue s = i # q" "item_request i = Some r" for i q r
    using req that by (simp add: requests_ok_def)
  have timers: "vhost_inv none (s\<lparr>vs_timers := ts\<rparr>) = vhost_inv none s" for ts
    by (simp add: vhost_inv_def)
  have "vhost_inv none s'"
    using assms(2) inv create_locked_inv [OF inv] create_chained_inv [OF inv] shutdown_inv [OF inv] event_inv [OF inv] idle
      connected_inv [OF inv] answer_idle_inv [OF inv] drop_inv [OF inv] timers
    by (cases i) (auto split: if_splits list.splits)
  then show ?thesis
    using requests_step [OF req assms(2)] unresolved_step [OF un inv assms(2)] by (simp add: vhost_ok_def)
qed

lemma vhost_ok_run: "vhost_run is s = Some s' \<Longrightarrow> vhost_ok s \<Longrightarrow> vhost_ok s'"
  by (induction "is" arbitrary: s) (auto split: option.splits dest: vhost_ok_step)

lemma future_of_new [simp]: "future_of role (VHostImpl_new opts) = None"
  by (cases role) (simp_all add: VHostImpl_new_def)

lemma vhost_ok_new: "vhost_ok (VHostImpl_new opts)"
  unfolding vhost_ok_def vhost_inv_def requests_ok_def unresolved_waits_def
  by (simp only: future_of_new) (simp add: VHostImpl_new_def)

lemma vhost_run_append:
  "vhost_run (is @ js) s = (case vhost_run is s of None \<Rightarrow> None | Some s' \<Rightarrow> vhost_run js s')"
  by (induction "is" arbitrary: s) (simp_all split: option.splits)

lemma history_split: "history k s = filter (\<lambda>i. item_conn i = k) (vs_calls s) @ filter (\<lambda>i. item_conn i = k) (vs_queue s)"
  by (simp add: history_def)
text \<open>Who holds the future of a connection.\<close>

definition conn_held :: "nat \<Rightarrow> ('dt, 'c) vhost_state \<Rightarrow> bool" where
  "conn_held k s \<longleftrightarrow> (\<exists>role. future_of role s = Some k) \<or> (\<exists>q \<in> set (vs_requests s). waits_for k q)"

lemma held_refs:
  assumes "vhost_inv none s" and "k < length (vs_conns s)"
  shows "conn_held k s \<longleftrightarrow> 0 < cf_refs (vs_conns s ! k)"
proof -
  have "cf_refs (vs_conns s ! k) = pointers_to none k s"
    using vhost_invD [OF assms] by (simp add: conn_ok_def)
  moreover have "0 < waiters k s \<longleftrightarrow> (\<exists>q \<in> set (vs_requests s). waits_for k q)"
    by (auto simp: waiters_def filter_empty_conv)
  moreover have "(\<exists>role. future_of role s = Some k) \<longleftrightarrow> vs_producerFuture s = Some k \<or> vs_consumerFuture s = Some k"
    by (metis future_of.simps role.exhaust)
  ultimately show ?thesis
    by (auto simp: conn_held_def pointers_to_def)
qed

lemma close_item: "is_close i \<Longrightarrow> \<exists>t. i = LI_close (item_conn i) t"
  by (cases i) auto

lemma connection_calls:
  assumes inv: "vhost_inv none s" and k: "k < length (vs_conns s)" and "cf_amqp (vs_conns s ! k)"
  shows "\<exists>creates closes. history k s = LI_start k # creates @ closes \<and>
       (\<forall>i \<in> set creates. item_request i \<noteq> None) \<and> (\<forall>i \<in> set closes. is_close i) \<and>
       (case cf_result (vs_conns s ! k) of
          None \<Rightarrow> if conn_held k s then closes = [] else length closes \<in> {1, 2}
        | Some r \<Rightarrow> length closes = (if Result_ok r \<and> \<not> cf_open (vs_conns s ! k) then 1 else 0) \<and>
            (cf_open (vs_conns s ! k) \<longrightarrow> conn_held k s))"
proof -
  note ok = vhost_invD [OF inv k]
  obtain n cs ds where h: "history k s = LI_start k # cs @ ds" "\<forall>i \<in> set cs. item_request i \<noteq> None"
      "\<forall>i \<in> set ds. is_close i" "length ds = n" "closes_ok (vs_conns s ! k) (unstarted k s) n"
    using ok assms(3) by (auto simp: conn_ok_def shape_def)
  have "case cf_result (vs_conns s ! k) of
      None \<Rightarrow> if conn_held k s then ds = [] else length ds \<in> {1, 2}
    | Some r \<Rightarrow> length ds = (if Result_ok r \<and> \<not> cf_open (vs_conns s ! k) then 1 else 0) \<and>
        (cf_open (vs_conns s ! k) \<longrightarrow> conn_held k s)"
    using h(4,5) ok held_refs [OF inv k] by (auto simp: closes_ok_def conn_ok_def split: option.splits if_splits)
  with h(1-3) show ?thesis by blast
qed

text \<open>C17: Whatever threads and event loop do, the calls on each connection are in order: it is started, then channels are
  created on it, then it is closed, and never is a channel created on a connection after its close. A connection that
  somebody holds and that was not closed by the application is not closed; an established one is closed exactly once, when
  the application closes it or nobody holds it any more; one that is abandoned before it is established is closed
  once, or a second time if it is established before the first close is run. Where no connection was made, nothing is called.\<close>

theorem connection_calls_ordered:
  assumes "vhost_run is (VHostImpl_new opts) = Some s" and "k < length (vs_conns s)"
  shows "if cf_amqp (vs_conns s ! k)
     then \<exists>creates closes. history k s = LI_start k # creates @ closes \<and>
       (\<forall>i \<in> set creates. item_request i \<noteq> None) \<and> (\<forall>i \<in> set closes. is_close i) \<and>
       (case cf_result (vs_conns s ! k) of
          None \<Rightarrow> if conn_held k s then closes = [] else length closes \<in> {1, 2}
        | Some r \<Rightarrow> length closes = (if Result_ok r \<and> \<not> cf_open (vs_conns s ! k) then 1 else 0) \<and>
            (cf_open (vs_conns s ! k) \<longrightarrow> conn_held k s))
     else history k s = []"
proof -
  have inv: "vhost_inv none s"
    using vhost_ok_run [OF assms(1) vhost_ok_new] by (simp add: vhost_ok_def)
  show ?thesis
    using connection_calls [OF inv assms(2)] vhost_invD [OF inv assms(2)] by (cases "cf_amqp (vs_conns s ! k)") (simp_all add: conn_ok_def)
qed

text \<open>C18: No connection leaks. When the virtual host has been closed, no future of the application waits for a connection
  and the event loop has nothing left to do, then every connection that was made has been started, and has been closed
  unless it had failed to connect; the control block of its future is gone. Every request whose future the
  application still holds has been answered or its channel is being made.\<close>

theorem no_connection_leaked:
  assumes "vhost_run is (VHostImpl_new opts) = Some s" and "\<forall>role. future_of role s = None"
    and "\<forall>q \<in> set (vs_requests s). rq_held q \<longrightarrow> rq_state q \<noteq> RS_waiting" and "vs_queue s = []"
  shows "(\<forall>k < length (vs_conns s). cf_refs (vs_conns s ! k) = 0 \<and>
       (cf_amqp (vs_conns s ! k) \<longrightarrow> LI_start k \<in> set (vs_calls s) \<and>
          ((\<exists>t. LI_close k t \<in> set (vs_calls s)) \<or> (\<exists>e. cf_result (vs_conns s ! k) = Some e \<and> \<not> Result_ok e)))) \<and>
     (\<forall>q \<in> set (vs_requests s). rq_held q \<longrightarrow> rq_state q = RS_channel \<or> (\<exists>r. rq_state q = RS_done r))"
proof (intro conjI allI ballI impI)
  have ok: "vhost_ok s"
    by (rule vhost_ok_run [OF assms(1) vhost_ok_new])
  fix k assume k: "k < length (vs_conns s)"
  have inv: "vhost_inv none s" using ok by (simp add: vhost_ok_def)
  have nh: "\<not> conn_held k s"
    using assms(2,3) by (auto simp: conn_held_def waits_for_def)
  then show r: "cf_refs (vs_conns s ! k) = 0"
    using held_refs [OF inv k] by simp
  have h: "history k s = filter (\<lambda>i. item_conn i = k) (vs_calls s)"
    by (simp add: history_split assms(4))
  assume "cf_amqp (vs_conns s ! k)"
  then obtain cs ds where c: "history k s = LI_start k # cs @ ds" "\<forall>i \<in> set ds. is_close i"
      "case cf_result (vs_conns s ! k) of
          None \<Rightarrow> if conn_held k s then ds = [] else length ds \<in> {1, 2}
        | Some r \<Rightarrow> length ds = (if Result_ok r \<and> \<not> cf_open (vs_conns s ! k) then 1 else 0) \<and>
            (cf_open (vs_conns s ! k) \<longrightarrow> conn_held k s)"
    using connection_calls [OF inv k] by blast
  have "LI_start k \<in> set (history k s)" unfolding c(1) by simp
  then show "LI_start k \<in> set (vs_calls s)" by (simp add: h)
  show "(\<exists>t. LI_close k t \<in> set (vs_calls s)) \<or> (\<exists>e. cf_result (vs_conns s ! k) = Some e \<and> \<not> Result_ok e)"
  proof (cases "ds = []")
    case False
    then have d: "hd ds \<in> set ds" by simp
    then have "hd ds \<in> set (history k s)" unfolding c(1) by simp
    then have "hd ds \<in> set (vs_calls s)" "item_conn (hd ds) = k" by (simp_all add: h)
    then show ?thesis
      using close_item c(2) d by metis
  qed (use c(3) nh in \<open>auto split: option.splits if_splits\<close>)
next
  have ok: "requests_ok s"
    using vhost_ok_run [OF assms(1) vhost_ok_new] by (simp add: vhost_ok_def)
  fix q assume "q \<in> set (vs_requests s)" "rq_held q"
  then have "rq_state q \<noteq> RS_posted" "rq_state q \<noteq> RS_waiting"
    using ok assms(3,4) by (auto simp: requests_ok_def in_set_conv_nth)
  then show "rq_state q = RS_channel \<or> (\<exists>r. rq_state q = RS_done r)"
    by (cases "rq_state q") auto
qed
section \<open>One connection for producers and one for consumers\<close>

definition keys :: "('dt, 'c) vhost_state \<Rightarrow> (('dt, 'c) create_args \<times> nat) list" where
  "keys s = map (\<lambda>q. (rq_args q, rq_conn q)) (vs_requests s)"

lemma keys_update: "rq_args q = rq_args (qs ! r) \<Longrightarrow> rq_conn q = rq_conn (qs ! r) \<Longrightarrow>
    map (\<lambda>q. (rq_args q, rq_conn q)) (qs[r := q]) = map (\<lambda>q. (rq_args q, rq_conn q)) qs"
  by (cases "r < length qs") (auto intro!: nth_equalityI simp: nth_list_update list_update_beyond)

lemma keys_simps [simp]:
  "keys (answer r st s) = keys s" "keys (post i s) = keys s" "keys (change k h s) = keys s"
  "keys (set_future role f s) = keys s" "keys (ConnectionImpl_doClose k s) = keys s" "keys (release k s) = keys s"
  "keys (s\<lparr>vs_timers := ts\<rparr>) = keys s" "keys (s\<lparr>vs_threads := th\<rparr>) = keys s" "keys (s\<lparr>vs_queue := q\<rparr>) = keys s"
  by (simp_all add: keys_def answer_def keys_update)

lemma keys_proxy [simp]: "keys (proxyCreate live k r result s) = keys s"
  by (cases rule: proxyCreate_cases [of live k r result s]) simp_all

lemma keys_fold [simp]: "keys (fold (\<lambda>r s. release k (proxyCreate live k r result s)) rs s) = keys s"
  by (induction rs arbitrary: s) simp_all

lemma keys_resolve [simp]: "keys (resolveFuture live k result s) = keys s"
  by (simp add: resolveFuture_def Let_def)

lemma keys_run_item [simp]: "keys (run_item i s) = keys s"
  by (cases i) (simp_all add: RabbitContextImpl_startFirstConnection_def Let_def keys_def [of "vs_calls_update _ _"] keys_def [of "vs_registered_update _ _"],
      simp_all add: keys_def answer_def keys_update)

lemma keys_create_locked [simp]: "keys (create_locked args s) = keys s"
proof -
  obtain c its where "createNewConnection (role_suffix (args_role args)) s =
      (length (vs_conns s), s\<lparr>vs_conns := vs_conns s @ [c], vs_queue := vs_queue s @ its\<rparr>)"
    by (rule createNewConnection_result)
  then show ?thesis
    by (simp add: create_locked_def Let_def keys_def split: option.splits)
qed

text \<open>A step adds at most one request, on the connection its role has.\<close>

lemma keys_step:
  assumes "vhost_step i s = Some s'"
  shows "keys s' = keys s \<or> (\<exists>args k. keys s' = keys s @ [(args, k)] \<and> future_of (args_role args) s = Some k)"
proof (cases i)
  case (VI_chain live j)
  then show ?thesis
    using assms by (auto simp: create_chained_def Let_def keys_def [of "vs_requests_update _ _"] split: if_splits option.splits)
      (simp_all add: keys_def)
next
  case (VI_drop r)
  then show ?thesis
    using assms by (auto simp: drop_request_def Let_def split: if_splits) (simp_all add: keys_def keys_update)
qed (use assms in \<open>auto simp: shutdownConnectionFuture_def initiateConnection_def Let_def split: if_splits option.splits list.splits\<close>)

lemma resolveFuture_frame [simp]: "future_of role (resolveFuture live k result s) = future_of role s"
  "vs_threads (resolveFuture live k result s) = vs_threads s"
  by (simp_all add: resolveFuture_def Let_def)

lemma create_locked_future:
  "future_of role (create_locked args s) =
     (if role = args_role args \<and> future_of role s = None then Some (length (vs_conns s)) else future_of role s)"
proof -
  obtain c its where "createNewConnection (role_suffix (args_role args)) s =
      (length (vs_conns s), s\<lparr>vs_conns := vs_conns s @ [c], vs_queue := vs_queue s @ its\<rparr>)"
    by (rule createNewConnection_result)
  then show ?thesis
    by (auto simp: create_locked_def Let_def split: option.splits)
qed

text \<open>Only \<open>close\<close> takes the connection of a role away.\<close>

lemma future_step:
  assumes "vhost_step i s = Some s'"
  shows "future_of role s' = future_of role s \<or> i = VI_shutdown role \<and> future_of role s' = None \<or>
     (\<exists>args. i = VI_create args \<and> args_role args = role \<and> future_of role s = None \<and> future_of role s' = Some (length (vs_conns s)))"
proof (cases i)
  case (VI_create args)
  then show ?thesis
    using assms by (auto simp: create_locked_future split: if_splits)
next
  case (VI_drop r)
  then show ?thesis
    using assms by (auto simp: drop_request_def Let_def split: if_splits)
qed (use assms in \<open>auto simp: create_chained_def shutdownConnectionFuture_def initiateConnection_def Let_def run_item_frame
      split: if_splits option.splits list.splits\<close>)
lemma shared_run:
  assumes "vhost_run js s = Some s'" and "VI_shutdown role \<notin> set js" and "future_of role s = Some k"
  shows "future_of role s' = Some k \<and>
     (\<exists>new. keys s' = keys s @ new \<and> (\<forall>(args, j) \<in> set new. args_role args = role \<longrightarrow> j = k))"
  using assms
proof (induction js arbitrary: s)
  case (Cons i js)
  then obtain s1 where s1: "vhost_step i s = Some s1" "vhost_run js s1 = Some s'"
    by (auto split: option.splits)
  have "future_of role s1 = Some k"
    using future_step [OF s1(1), of role] Cons.prems(2,3) by auto
  then obtain new where new: "future_of role s' = Some k" "keys s' = keys s1 @ new"
      "\<forall>(args, j) \<in> set new. args_role args = role \<longrightarrow> j = k"
    using Cons.IH [OF s1(2)] Cons.prems(2) by auto
  from keys_step [OF s1(1)] show ?case
  proof
    assume "\<exists>args j. keys s1 = keys s @ [(args, j)] \<and> future_of (args_role args) s = Some j"
    then obtain args j where a: "keys s1 = keys s @ [(args, j)]" "future_of (args_role args) s = Some j"
      by blast
    then show ?thesis
      using new Cons.prems(3) by (intro conjI exI [of _ "(args, j) # new"]) auto
  qed (use new in auto)
qed (simp add: keys_def)

definition apart :: "('dt, 'c) vhost_state \<Rightarrow> bool" where
  "apart s \<longleftrightarrow> (\<forall>k. \<not> (future_of Producer_role s = Some k \<and> future_of Consumer_role s = Some k))"

lemma apart_step:
  assumes "apart s" and "vhost_inv none s" and "vhost_step i s = Some s'"
  shows "apart s'"
proof -
  have "future_of role s \<noteq> Some (length (vs_conns s))" for role
    using assms(2) by (auto simp: vhost_inv_def)
  then show ?thesis
    using assms(1) future_step [OF assms(3), of Producer_role] future_step [OF assms(3), of Consumer_role]
    unfolding apart_def by (auto simp del: future_of.simps)
qed

lemma apart_run:
  assumes "vhost_run is s = Some s'" and "apart s" and "vhost_ok s"
  shows "apart s'"
  using assms
proof (induction "is" arbitrary: s)
  case (Cons i "is")
  then obtain s1 where s1: "vhost_step i s = Some s1" "vhost_run is s1 = Some s'"
    by (auto split: option.splits)
  then show ?case
    using Cons.IH [OF s1(2)] apart_step [OF Cons.prems(2) _ s1(1)] vhost_ok_step [OF Cons.prems(3) s1(1)] Cons.prems(3)
    by (simp add: vhost_ok_def)
qed simp

text \<open>C19: Producers share one connection and consumers another. Once a role has a connection, everything created for that
  role uses this connection until the virtual host is closed, in every interleaving, and the other role never uses it.\<close>

theorem roles_share_connections:
  assumes "vhost_run is (VHostImpl_new opts) = Some s" and "future_of role s = Some k"
    and "vhost_run js s = Some s'" and "VI_shutdown role \<notin> set js"
  shows "future_of role s' = Some k \<and> (\<forall>role'. role' \<noteq> role \<longrightarrow> future_of role' s' \<noteq> Some k) \<and>
     (\<forall>r. length (vs_requests s) \<le> r \<and> r < length (vs_requests s') \<and> args_role (rq_args (vs_requests s' ! r)) = role \<longrightarrow>
        rq_conn (vs_requests s' ! r) = k)"
proof -
  obtain new where new: "future_of role s' = Some k" "keys s' = keys s @ new"
      "\<forall>(args, j) \<in> set new. args_role args = role \<longrightarrow> j = k"
    using shared_run [OF assms(3,4,2)] by blast
  have ok: "vhost_ok s"
    by (rule vhost_ok_run [OF assms(1) vhost_ok_new])
  have "apart (VHostImpl_new opts :: ('a, 'b) vhost_state)"
    by (simp add: apart_def del: future_of.simps)
  then have "apart s'"
    using apart_run [OF assms(3) apart_run [OF assms(1) _ vhost_ok_new] ok] by simp
  then have "\<forall>role'. role' \<noteq> role \<longrightarrow> future_of role' s' \<noteq> Some k"
    using new(1) unfolding apart_def by (metis role.exhaust)
  moreover have "rq_conn (vs_requests s' ! r) = k"
    if "length (vs_requests s) \<le> r" "r < length (vs_requests s')" "args_role (rq_args (vs_requests s' ! r)) = role" for r
  proof -
    have l: "length (keys s) = length (vs_requests s)" "length (keys s') = length (vs_requests s')"
      by (simp_all add: keys_def)
    have "keys s' ! r = new ! (r - length (vs_requests s))" "r - length (vs_requests s) < length new"
      using that(1,2) l new(2) by (auto simp: nth_append)
    then have "keys s' ! r \<in> set new" by simp
    then show ?thesis
      using new(3) that by (auto simp: keys_def)
  qed
  ultimately show ?thesis
    using new(1) by blast
qed
section \<open>Closing while others create\<close>

text \<open>The virtual host is not closed between the two steps of a thread that creates something on the connection being closed.\<close>

fun orderly :: "('dt, 'c) vhost_input list \<Rightarrow> ('dt, 'c) vhost_state \<Rightarrow> bool" where
  "orderly [] s = True"
| "orderly (i # is) s =
     ((case i of VI_shutdown role \<Rightarrow> \<forall>args \<in> set (vs_threads s). args_role args \<noteq> role | _ \<Rightarrow> True) \<and>
      (case vhost_step i s of None \<Rightarrow> True | Some s' \<Rightarrow> orderly is s'))"

definition threads_ok :: "('dt, 'c) vhost_state \<Rightarrow> bool" where
  "threads_ok s \<longleftrightarrow> (\<forall>args \<in> set (vs_threads s). future_of (args_role args) s \<noteq> None)"

lemma threads_create_locked: "vs_threads (create_locked args s) = vs_threads s @ [args]"
proof -
  obtain c its where "createNewConnection (role_suffix (args_role args)) s =
      (length (vs_conns s), s\<lparr>vs_conns := vs_conns s @ [c], vs_queue := vs_queue s @ its\<rparr>)"
    by (rule createNewConnection_result)
  then show ?thesis
    by (simp add: create_locked_def Let_def split: option.splits)
qed

lemma threads_step:
  assumes "vhost_step i s = Some s'"
  shows "set (vs_threads s') \<subseteq> set (vs_threads s) \<union> (case i of VI_create args \<Rightarrow> {args} | _ \<Rightarrow> {})"
proof (cases i)
  case (VI_chain live j)
  then show ?thesis
    using assms set_take_subset [of j "vs_threads s"] set_drop_subset [of "Suc j" "vs_threads s"]
    by (auto simp: create_chained_def Let_def split: if_splits option.splits)
next
  case (VI_drop r)
  then show ?thesis
    using assms by (auto simp: drop_request_def Let_def split: if_splits)
qed (use assms in \<open>auto simp: threads_create_locked shutdownConnectionFuture_def initiateConnection_def Let_def run_item_frame
      split: if_splits option.splits list.splits\<close>)

lemma orderly_step:
  assumes "threads_ok s" and "orderly (i # is) s"
  shows "\<exists>s'. vhost_step i s = Some s' \<and> threads_ok s' \<and> orderly is s'"
proof -
  have "vhost_step i s \<noteq> None"
  proof (cases i)
    case (VI_chain live j)
    have "j < length (vs_threads s) \<Longrightarrow> future_of (args_role (vs_threads s ! j)) s \<noteq> None"
      using assms(1) unfolding threads_ok_def by (metis nth_mem)
    then show ?thesis
      using VI_chain by (auto simp: create_chained_def Let_def)
  qed simp_all
  then obtain s' where s': "vhost_step i s = Some s'" by blast
  have "future_of (args_role args) s' \<noteq> None" if "args \<in> set (vs_threads s')" for args
  proof (cases "args \<in> set (vs_threads s)")
    case True
    then show ?thesis
      using assms future_step [OF s', of "args_role args"] by (auto simp: threads_ok_def)
  next
    case False
    then have "i = VI_create args"
      using threads_step [OF s'] that by (auto split: vhost_input.splits)
    then show ?thesis
      using s' by (auto simp: create_locked_future)
  qed
  then show ?thesis
    using s' assms(2) by (auto simp: threads_ok_def)
qed

lemma orderly_run: "threads_ok s \<Longrightarrow> orderly is s \<Longrightarrow> \<exists>s'. vhost_run is s = Some s'"
proof (induction "is" arbitrary: s)
  case (Cons i "is")
  obtain s' where "vhost_step i s = Some s'" "threads_ok s'" "orderly is s'"
    using orderly_step [OF Cons.prems] by blast
  then show ?case
    using Cons.IH by simp
qed simp

text \<open>Creating producers and consumers from any number of threads never fails on a null pointer, whatever event loop
  and connections do, as long as the virtual host is not closed between the two steps of one of these calls.\<close>

theorem create_without_close_safe:
  assumes "orderly is (VHostImpl_new opts)"
  shows "\<exists>s. vhost_run is (VHostImpl_new opts) = Some s"
  using assms by (intro orderly_run) (simp_all add: threads_ok_def VHostImpl_new_def)

text \<open>C20: \<open>close\<close> does not lock the mutex, and the future is used after the mutex has been unlocked: if one thread closes
  the virtual host while another is between the two steps of a creation, the second dereferences a null pointer.\<close>

theorem close_races_create:
  assumes "i < length (vs_threads s)" and "args_role (vs_threads s ! i) = role"
  shows "vhost_run [VI_shutdown role, VI_chain live i] s = None"
proof -
  obtain s' where s': "vhost_step (VI_shutdown role) s = Some s'" by simp
  have "vs_threads s' = vs_threads s"
    using s' by (auto simp: shutdownConnectionFuture_def Let_def split: option.splits if_splits)
  moreover have "future_of role s' = None"
    using s' by (auto simp: shutdownConnectionFuture_def Let_def split: option.splits)
  ultimately show ?thesis
    using assms s' by (simp add: create_chained_def Let_def)
qed

section \<open>Failed connections\<close>

lemma create_locked_conns:
  "future_of (args_role args) s \<noteq> None \<Longrightarrow> vs_conns (create_locked args s) = vs_conns s"
  "k < length (vs_conns s) \<Longrightarrow> vs_conns (create_locked args s) ! k = vs_conns s ! k"
proof -
  obtain c its where n: "createNewConnection (role_suffix (args_role args)) s =
      (length (vs_conns s), s\<lparr>vs_conns := vs_conns s @ [c], vs_queue := vs_queue s @ its\<rparr>)"
    by (rule createNewConnection_result)
  show "future_of (args_role args) s \<noteq> None \<Longrightarrow> vs_conns (create_locked args s) = vs_conns s"
    by (auto simp: create_locked_def Let_def split: option.splits)
  show "k < length (vs_conns s) \<Longrightarrow> vs_conns (create_locked args s) ! k = vs_conns s ! k"
    using n by (auto simp: create_locked_def Let_def nth_append split: option.splits)
qed

lemma resolveFuture_conns [simp]:
  "length (vs_conns (resolveFuture live k result s)) = length (vs_conns s)"
  "k < length (vs_conns s) \<Longrightarrow> j \<noteq> k \<Longrightarrow> cf_result (vs_conns (resolveFuture live k result s) ! j) = cf_result (vs_conns s ! j)"
  by (simp_all add: resolveFuture_def Let_def)

lemma conns_step: "vhost_step i s = Some s' \<Longrightarrow> length (vs_conns s) \<le> length (vs_conns s')"
proof (cases i)
  case (VI_create args)
  assume "vhost_step i s = Some s'"
  moreover obtain c its where "createNewConnection (role_suffix (args_role args)) s =
      (length (vs_conns s), s\<lparr>vs_conns := vs_conns s @ [c], vs_queue := vs_queue s @ its\<rparr>)"
    by (rule createNewConnection_result)
  ultimately show ?thesis
    using VI_create by (auto simp: create_locked_def Let_def split: option.splits)
next
  case VI_event
  assume "vhost_step i s = Some s'"
  moreover have "length (vs_conns (run_item j t)) = length (vs_conns t)" for j and t :: "('a, 'b) vhost_state"
    by (cases j) (simp_all add: RabbitContextImpl_startFirstConnection_def Let_def)
  ultimately show ?thesis
    using VI_event by (auto split: list.splits)
qed (auto simp: create_chained_def shutdownConnectionFuture_def initiateConnection_def drop_request_def Let_def
      split: if_splits option.splits)

lemma result_step:
  assumes inv: "vhost_inv none s" and step: "vhost_step i s = Some s'" and k: "k < length (vs_conns s)"
    and r: "cf_result (vs_conns s ! k) = Some e"
  shows "cf_result (vs_conns s' ! k) = Some e"
proof (cases i)
  case (VI_create args)
  then show ?thesis
    using step k r by (auto simp: create_locked_conns(2))
next
  case (VI_chain live j)
  have "future_of role s = Some k' \<Longrightarrow> k' < length (vs_conns s)" for role k'
    using inv by (auto simp: vhost_inv_def)
  then show ?thesis
    using step r VI_chain by (auto simp: create_chained_def Let_def split: if_splits option.splits)
next
  case (VI_shutdown role)
  have "future_of role s = Some k' \<Longrightarrow> k' < length (vs_conns s)" for k'
    using inv by (auto simp: vhost_inv_def)
  then show ?thesis
    using step r VI_shutdown by (auto simp: shutdownConnectionFuture_def Let_def split: option.splits)
next
  case VI_event
  show ?thesis
  proof (cases "vs_queue s")
    case (Cons i' q)
    then have "i' \<in> set (vs_calls s @ vs_queue s)" by simp
    then have "item_conn i' < length (vs_conns s)"
      using inv unfolding vhost_inv_def by blast
    then show ?thesis
      using step r VI_event Cons by (auto simp: run_item_frame)
  qed (use step r VI_event in simp)
next
  case (VI_connected live k' success)
  have "cf_firstConnectCb (vs_conns s ! k) \<Longrightarrow> False"
    using vhost_invD [OF inv k] r by (simp add: conn_ok_def)
  then show ?thesis
    using step r VI_connected by (cases "k = k'") (auto simp: initiateConnection_def split: if_splits)
next
  case (VI_drop q)
  have "q < length (vs_requests s) \<Longrightarrow> rq_conn (vs_requests s ! q) < length (vs_conns s)"
    using inv by (simp add: vhost_inv_def)
  then show ?thesis
    using step r VI_drop by (auto simp: drop_request_def Let_def split: if_splits)
qed (use step r in \<open>auto split: if_splits\<close>)

lemma result_run:
  assumes "vhost_run js s = Some s'" and "vhost_ok s" and "k < length (vs_conns s)" and "cf_result (vs_conns s ! k) = Some e"
  shows "cf_result (vs_conns s' ! k) = Some e \<and> k < length (vs_conns s')"
  using assms
proof (induction js arbitrary: s)
  case (Cons i js)
  then obtain s1 where s1: "vhost_step i s = Some s1" "vhost_run js s1 = Some s'"
    by (auto split: option.splits)
  have "vhost_inv none s" using Cons.prems(2) by (simp add: vhost_ok_def)
  then show ?case
    using Cons.IH [OF s1(2) vhost_ok_step [OF Cons.prems(2) s1(1)]] result_step [OF _ s1(1) Cons.prems(3,4)]
      conns_step [OF s1(1)] Cons.prems(3) by simp
qed simp

text \<open>A failed connection is not made again. If the connection of a role could not be made (no endpoint or credentials,
  event loop not started, or the connection was shut down before it was established), then until the virtual host is closed no
  other connection is made for that role: every creation for it is answered at once with the same error.\<close>

theorem failed_connection_kept:
  assumes "vhost_run is (VHostImpl_new opts) = Some s" and "future_of role s = Some k"
    and "cf_result (vs_conns s ! k) = Some e" and "\<not> Result_ok e"
    and "vhost_run js s = Some s'" and "VI_shutdown role \<notin> set js"
  shows "(\<forall>args. args_role args = role \<longrightarrow> vs_conns (create_locked args s') = vs_conns s') \<and>
     (\<forall>live i. i < length (vs_threads s') \<and> args_role (vs_threads s' ! i) = role \<longrightarrow>
        (\<exists>s''. create_chained live i s' = Some s'' \<and> vs_queue s'' = vs_queue s' \<and>
           rq_state (last (vs_requests s'')) = RS_done (Result_error (rs_error e) (rs_code e))))"
proof -
  have ok: "vhost_ok s"
    by (rule vhost_ok_run [OF assms(1) vhost_ok_new])
  then have "k < length (vs_conns s)"
    using assms(2) by (auto simp: vhost_ok_def vhost_inv_def)
  then have r: "cf_result (vs_conns s' ! k) = Some e" "k < length (vs_conns s')"
    using result_run [OF assms(5) ok _ assms(3)] by simp_all
  have f: "future_of role s' = Some k"
    using shared_run [OF assms(5,6,2)] by simp
  have "conn_ok k (vs_conns s' ! k) (pointers_to none k s') (unstarted k s') (history k s')"
    using vhost_ok_run [OF assms(5) ok] r(2) by (auto simp: vhost_ok_def vhost_inv_def)
  then have "\<not> cf_open (vs_conns s' ! k)"
    using r assms(4) by (auto simp: conn_ok_def)
  then show ?thesis
    using f r assms(4)
    by (auto simp: create_locked_conns create_chained_def Let_def proxyCreate_def release_def ConnectionImpl_doClose_def
        answer_def last_conv_nth)
qed
section \<open>Witnesses\<close>

definition sample_options :: context_options where
  "sample_options = \<lparr>co_userDefinedName = bstr ''app'', co_endpoint = True, co_credentials = True, co_started = True,
     co_hostHealthMonitor = False, co_tunables = {}\<rparr>"

definition sample_args :: "(u64, unit) create_args" where
  "sample_args = CA_consumer \<lparr>t_queues = [], t_exchanges = [], t_queueBindings = [], t_exchangeBindings = []\<rparr> 0 ()"

text \<open>A consumer is created, its connection started, established, and in the end closed.\<close>

definition sample_inputs :: "(u64, unit) vhost_input list" where
  "sample_inputs = [VI_create sample_args, VI_chain \<lparr>lock_queue = Map.empty, lock_exchange = Map.empty\<rparr> 0, VI_event,
     VI_connected \<lparr>lock_queue = Map.empty, lock_exchange = Map.empty\<rparr> 0 True, VI_event, VI_channel 0 (Result_of ()) (Result_of ()),
     VI_shutdown Producer_role, VI_shutdown Consumer_role, VI_event]"

lemmas sample_simps =
  VHostImpl_new_def create_locked_def createNewConnection_def new_future_def create_chained_def RabbitContextImpl_startFirstConnection_def
  initiateConnection_def resolveFuture_def waiting_on_def waits_for_def proxyCreate_def ConnectionImpl_createConsumerAsync_def
  release_def ConnectionImpl_doClose_def shutdownConnectionFuture_def shutdownAmqpConnection_def conn_alive_def
  answer_def change_def post_def Let_def Result_ok_def Result_of_def Result_error_def sample_options_def sample_args_def

lemma sample_vhost:
  "\<exists>s. vhost_run sample_inputs (VHostImpl_new sample_options) = Some s \<and> length (vs_conns s) = 1 \<and> cf_amqp (vs_conns s ! 0) \<and>
     vs_queue s = [] \<and> vs_producerFuture s = None \<and> vs_consumerFuture s = None \<and>
     map rq_state (vs_requests s) = [RS_done (Result_of ())] \<and>
     map is_close (vs_calls s) = [False, False, True] \<and> cf_result (vs_conns s ! 0) = Some (Result_of ()) \<and> \<not> cf_open (vs_conns s ! 0)"
  by (simp add: sample_inputs_def sample_simps setupConsumer_def)
theorem connection_calls_ordered_witness:
  "\<exists>s creates closes. vhost_run sample_inputs (VHostImpl_new sample_options) = Some s \<and>
     history 0 s = LI_start 0 # creates @ closes \<and> (\<forall>i \<in> set closes. is_close i) \<and> length closes = 1"
proof -
  obtain s where s: "vhost_run sample_inputs (VHostImpl_new sample_options) = Some s" "length (vs_conns s) = 1"
      "cf_amqp (vs_conns s ! 0)" "cf_result (vs_conns s ! 0) = Some (Result_of ())" "\<not> cf_open (vs_conns s ! 0)"
    using sample_vhost by (elim exE conjE) (rule that)
  then show ?thesis
    using connection_calls_ordered [OF s(1), of 0] by (auto simp: Result_ok_def Result_of_def)
qed

theorem no_connection_leaked_witness:
  "\<exists>s t. vhost_run sample_inputs (VHostImpl_new sample_options) = Some s \<and> cf_refs (vs_conns s ! 0) = 0 \<and>
     LI_close 0 t \<in> set (vs_calls s)"
proof -
  obtain s where s: "vhost_run sample_inputs (VHostImpl_new sample_options) = Some s" "length (vs_conns s) = 1"
      "cf_amqp (vs_conns s ! 0)" "cf_result (vs_conns s ! 0) = Some (Result_of ())" "vs_queue s = []"
      "vs_producerFuture s = None" "vs_consumerFuture s = None" "map rq_state (vs_requests s) = [RS_done (Result_of ())]"
    using sample_vhost by (elim exE conjE) (rule that)
  have f: "\<forall>role. future_of role s = None"
    using s(6,7) by (metis future_of.simps role.exhaust)
  have "rq_state ` set (vs_requests s) = {RS_done (Result_of ())}"
    using s(8) by (metis list.set(1,2) list.set_map)
  then have w: "\<forall>q \<in> set (vs_requests s). rq_held q \<longrightarrow> rq_state q \<noteq> RS_waiting"
    by force
  show ?thesis
    using no_connection_leaked [OF s(1) f w s(5)] s by (auto simp: Result_ok_def Result_of_def)
qed

theorem roles_share_connections_witness:
  "\<exists>s s'. vhost_run [VI_create sample_args] (VHostImpl_new sample_options) = Some s \<and>
     vhost_run [VI_shutdown Producer_role, VI_event] s = Some s' \<and> future_of Consumer_role s' = Some 0"
proof -
  obtain s where s: "vhost_run [VI_create sample_args] (VHostImpl_new sample_options) = Some s" "future_of Consumer_role s = Some 0"
    by (simp add: sample_simps)
  obtain s' where s': "vhost_run [VI_shutdown Producer_role, VI_event] s = Some s'" by simp
  then show ?thesis
    using roles_share_connections [OF s s'] s(1) by auto
qed

theorem create_without_close_safe_witness:
  "\<exists>s. vhost_run [VI_create sample_args, VI_shutdown Producer_role] (VHostImpl_new sample_options) = Some s"
  by (rule create_without_close_safe) (simp add: sample_simps)

theorem close_races_create_witness:
  "vhost_run [VI_shutdown Consumer_role, VI_chain \<lparr>lock_queue = Map.empty, lock_exchange = Map.empty\<rparr> 0]
     (create_locked sample_args (VHostImpl_new sample_options)) = None"
  by (rule close_races_create) (simp_all add: sample_simps)

theorem failed_connection_kept_witness:
  "\<exists>s s''. vhost_run [VI_create sample_args] (VHostImpl_new (sample_options\<lparr>co_endpoint := False\<rparr>)) = Some s \<and>
     create_chained \<lparr>lock_queue = Map.empty, lock_exchange = Map.empty\<rparr> 0 s = Some s'' \<and>
     rq_state (last (vs_requests s'')) = RS_done (Result_error (bstr ''Provided endpoint is NULL'') (- 1))"
proof -
  obtain s where s: "vhost_run [VI_create sample_args] (VHostImpl_new (sample_options\<lparr>co_endpoint := False\<rparr>)) = Some s"
      "future_of Consumer_role s = Some 0"
      "cf_result (vs_conns s ! 0) = Some (Result_error (bstr ''Provided endpoint is NULL'') (- 1))"
      "vs_threads s = [sample_args]"
    by (simp add: sample_simps)
  have "\<not> Result_ok (Result_error (bstr ''Provided endpoint is NULL'') (- 1) :: unit Result)"
    by (simp add: Result_ok_def Result_error_def)
  note kept = failed_connection_kept [OF s(1-3) this vhost_run.simps(1), THEN conjunct2, rule_format]
  have "\<exists>s''. create_chained \<lparr>lock_queue = Map.empty, lock_exchange = Map.empty\<rparr> 0 s = Some s'' \<and> vs_queue s'' = vs_queue s \<and>
      rq_state (last (vs_requests s'')) = RS_done (Result_error (rs_error (Result_error (bstr ''Provided endpoint is NULL'') (- 1) :: unit Result))
        (rs_code (Result_error (bstr ''Provided endpoint is NULL'') (- 1) :: unit Result)))"
    by (rule kept) (simp_all add: s(4) sample_args_def)
  then show ?thesis
    using s(1) by (simp only: Result_error_def Result.simps) blast
qed
end
