(* ===== verification/Event_Loop.thy ===== *)
theory Event_Loop
  imports Retry Futures
begin

text \<open>
  \<open>rmqio::AsioTimer\<close>, \<open>rmqio::EventLoop\<close> with \<open>rmqio::AsioEventLoop\<close>, and the timer with which
  \<open>rmqa::ConnectionImpl\<close> limits the time of a graceful close.

  Of boost::asio the model has what its documentation promises of \<open>waitable_timer\<close>: setting a new expiry and \<open>cancel\<close>
  complete the waits that have not completed yet with \<open>operation_aborted\<close>, waits that have completed are not affected, and
  handlers of completed waits are run by the event loop in order. Of \<open>io_context\<close>: handlers run in the order they were
  posted, and \<open>run\<close> returns when there is neither work nor a work guard. Times are in milliseconds where the timer has them so.
\<close>

section \<open>AsioTimer\<close>

record 'cb asio_timer =
  ti_callback :: "'cb option"
  ti_timeout :: time_interval
  ti_expiry :: int
  ti_waits :: "'cb list"
  ti_completed :: "('cb \<times> interrupt_reason) list"

definition totalMilliseconds :: "time_interval \<Rightarrow> int" where
  "totalMilliseconds t = (if t \<ge> 0 then t div 1000000 else - ((- t) div 1000000))"

definition AsioTimer_withTimeout :: "time_interval \<Rightarrow> 'cb asio_timer" where
  "AsioTimer_withTimeout timeout =
     \<lparr>ti_callback = None, ti_timeout = timeout, ti_expiry = 0, ti_waits = [], ti_completed = []\<rparr>"

definition AsioTimer_withCallback :: "'cb \<Rightarrow> 'cb asio_timer" where
  "AsioTimer_withCallback callback =
     \<lparr>ti_callback = Some callback, ti_timeout = 0, ti_expiry = 0, ti_waits = [], ti_completed = []\<rparr>"

definition timer_cancel :: "'cb asio_timer \<Rightarrow> 'cb asio_timer" where
  "timer_cancel t = t\<lparr>ti_waits := [], ti_completed := ti_completed t @ map (\<lambda>cb. (cb, CANCEL)) (ti_waits t)\<rparr>"

text \<open>The handler of the wait gets a copy of the callback.\<close>

definition startTimer :: "int \<Rightarrow> 'cb asio_timer \<Rightarrow> 'cb asio_timer" where
  "startTimer now t =
     (let t = (timer_cancel t)\<lparr>ti_expiry := now + totalMilliseconds (ti_timeout t)\<rparr> in
      case ti_callback t of None \<Rightarrow> t | Some cb \<Rightarrow> t\<lparr>ti_waits := ti_waits t @ [cb]\<rparr>)"

definition timer_start :: "int \<Rightarrow> 'cb \<Rightarrow> 'cb asio_timer \<Rightarrow> 'cb asio_timer" where
  "timer_start now callback t = startTimer now (t\<lparr>ti_callback := Some callback\<rparr>)"

definition timer_reset :: "int \<Rightarrow> time_interval \<Rightarrow> 'cb asio_timer \<Rightarrow> 'cb asio_timer" where
  "timer_reset now timeout t =
     (if ti_callback t = None then t else startTimer now (t\<lparr>ti_timeout := timeout\<rparr>))"

definition timer_resetCallback :: "'cb \<Rightarrow> 'cb asio_timer \<Rightarrow> 'cb asio_timer" where
  "timer_resetCallback callback t = t\<lparr>ti_callback := Some callback\<rparr>"

text \<open>The clock reaches \<open>now\<close>.\<close>

definition timer_tick :: "int \<Rightarrow> 'cb asio_timer \<Rightarrow> 'cb asio_timer" where
  "timer_tick now t =
     (if ti_expiry t \<le> now
      then t\<lparr>ti_waits := [], ti_completed := ti_completed t @ map (\<lambda>cb. (cb, EXPIRE)) (ti_waits t)\<rparr>
      else t)"

text \<open>\<open>handler_internal\<close> and \<open>handler\<close>: the callback that is called and why. A timer that is gone calls nothing.\<close>

definition handler_internal :: "'cb asio_timer option \<Rightarrow> ('cb \<times> interrupt_reason) list \<times> 'cb asio_timer option" where
  "handler_internal timer =
     (case timer of
        None \<Rightarrow> ([], None)
      | Some t \<Rightarrow>
          (case ti_completed t of
             [] \<Rightarrow> ([], Some t)
           | (cb, reason) # cs \<Rightarrow> ([(cb, reason)], Some (t\<lparr>ti_completed := cs\<rparr>))))"

text \<open>What may happen to a timer, at which time.\<close>

datatype 'cb timer_input =
    TI_start 'cb
  | TI_reset time_interval
  | TI_resetCallback 'cb
  | TI_cancel
  | TI_tick
  | TI_handle

fun timer_step :: "int \<Rightarrow> 'cb timer_input \<Rightarrow> 'cb asio_timer \<Rightarrow> ('cb \<times> interrupt_reason) list \<times> 'cb asio_timer" where
  "timer_step now (TI_start cb) t = ([], timer_start now cb t)"
| "timer_step now (TI_reset d) t = ([], timer_reset now d t)"
| "timer_step now (TI_resetCallback cb) t = ([], timer_resetCallback cb t)"
| "timer_step now TI_cancel t = ([], timer_cancel t)"
| "timer_step now TI_tick t = ([], timer_tick now t)"
| "timer_step now TI_handle t = (case handler_internal (Some t) of (called, t') \<Rightarrow> (called, the t'))"

fun timer_run ::
  "(int \<times> 'cb timer_input) list \<Rightarrow> 'cb asio_timer \<Rightarrow> ('cb \<times> interrupt_reason) list \<times> 'cb asio_timer" where
  "timer_run [] t = ([], t)"
| "timer_run ((now, i) # is) t =
     (case timer_step now i t of (called, t') \<Rightarrow> (case timer_run is t' of (called', t'') \<Rightarrow> (called @ called', t'')))"

text \<open>The callbacks with which waits are started, in order.\<close>

fun armed :: "(int \<times> 'cb timer_input) list \<Rightarrow> 'cb option \<Rightarrow> 'cb list" where
  "armed [] cb = []"
| "armed ((now, TI_start cb) # is) _ = cb # armed is (Some cb)"
| "armed ((now, TI_reset d) # is) cb = (case cb of None \<Rightarrow> armed is None | Some c \<Rightarrow> c # armed is (Some c))"
| "armed ((now, TI_resetCallback cb) # is) _ = armed is (Some cb)"
| "armed ((now, _) # is) cb = armed is cb"

lemma timer_step_account:
  assumes "timer_step now i t = (called, t')"
  shows "map fst called @ map fst (ti_completed t') @ ti_waits t' =
       map fst (ti_completed t) @ ti_waits t @ armed [(now, i)] (ti_callback t) \<and>
     ti_callback t' = (case i of TI_start cb \<Rightarrow> Some cb | TI_resetCallback cb \<Rightarrow> Some cb | _ \<Rightarrow> ti_callback t) \<and>
     (length (ti_waits t) \<le> 1 \<longrightarrow> length (ti_waits t') \<le> 1)"
  using assms
  by (cases i)
    (auto simp: timer_start_def timer_reset_def timer_resetCallback_def startTimer_def timer_cancel_def timer_tick_def
      handler_internal_def Let_def comp_def split: option.splits list.splits if_splits prod.splits)

lemma armed_Cons:
  "armed ((now, i) # is) cb =
     armed [(now, i)] cb @ armed is (case i of TI_start cb \<Rightarrow> Some cb | TI_resetCallback cb \<Rightarrow> Some cb | _ \<Rightarrow> cb)"
  by (cases i) (auto split: option.splits)

lemma timer_run_account:
  "timer_run is t = (called, t') \<Longrightarrow>
     map fst called @ map fst (ti_completed t') @ ti_waits t' = map fst (ti_completed t) @ ti_waits t @ armed is (ti_callback t) \<and>
     (length (ti_waits t) \<le> 1 \<longrightarrow> length (ti_waits t') \<le> 1)"
proof (induction "is" arbitrary: t called)
  case (Cons x "is")
  obtain now i where x: "x = (now, i)" by fastforce
  obtain c1 t1 c2 where s: "timer_step now i t = (c1, t1)" "timer_run is t1 = (c2, t')" "called = c1 @ c2"
    using Cons.prems x by (auto split: prod.splits)
  show ?case
    using timer_step_account [OF s(1)] Cons.IH [OF s(2)] armed_Cons [of now i "is" "ti_callback t"] x s(3)
    by (metis append.assoc map_append)
qed simp

text \<open>Every wait is answered once. Whatever is done to a timer, each start or reset starts one wait, and the calls
  made, the completed waits that the event loop has not handled yet and the wait still running are exactly these waits, in
  order, each with the callback the timer had when the wait was started: a callback set later does not replace it. At most
  one wait is running.\<close>

theorem timer_waits_answered_once:
  assumes "timer_run is (AsioTimer_withTimeout d) = (called, t)"
  shows "map fst called @ map fst (ti_completed t) @ ti_waits t = armed is None \<and> length (ti_waits t) \<le> 1"
  using timer_run_account [OF assms] by (simp add: AsioTimer_withTimeout_def)
text \<open>A wait started now completes when the clock reaches now and the timeout, in whole milliseconds, and not before.\<close>

fun undisturbed :: "'cb timer_input \<Rightarrow> bool" where
  "undisturbed (TI_resetCallback _) = True"
| "undisturbed TI_tick = True"
| "undisturbed TI_handle = True"
| "undisturbed _ = False"

lemma timer_run_undisturbed:
  assumes "timer_run is t = (called, t')" and "\<forall>(n, i) \<in> set is. undisturbed i"
  shows "ti_expiry t' = ti_expiry t \<and>
     ti_waits t' = (if \<exists>n. (n, TI_tick) \<in> set is \<and> ti_expiry t \<le> n then [] else ti_waits t)"
  using assms
proof (induction "is" arbitrary: t called)
  case (Cons x "is")
  obtain n i where x: "x = (n, i)" by fastforce
  obtain c1 t1 c2 where s: "timer_step n i t = (c1, t1)" "timer_run is t1 = (c2, t')"
    using Cons.prems(1) x by (auto split: prod.splits)
  have "ti_expiry t1 = ti_expiry t" "ti_waits t1 = (if i = TI_tick \<and> ti_expiry t \<le> n then [] else ti_waits t)"
    using s(1) Cons.prems(2) x
    by (cases i; auto simp: timer_resetCallback_def timer_tick_def handler_internal_def split: list.splits prod.splits)+
  then show ?case
    using Cons.IH [OF s(2)] Cons.prems(2) x by auto
qed simp

text \<open>A timer is neither early nor late. After a start, and as long as the timer is not started, reset or cancelled again, its
  wait is still running at any time before the timeout has passed, in whole milliseconds, and has completed once the clock
  has been seen at or after it. A timeout below a millisecond expires at once.\<close>

theorem timer_expires_on_time:
  assumes "timer_run is (timer_start now cb t) = (called, t')" and "\<forall>(n, i) \<in> set is. undisturbed i"
  shows "ti_waits t' = (if \<exists>n. (n, TI_tick) \<in> set is \<and> now + totalMilliseconds (ti_timeout t) \<le> n then [] else [cb]) \<and>
     (0 \<le> ti_timeout t \<and> ti_timeout t < 1000000 \<longrightarrow> ti_waits (timer_tick now (timer_start now cb t)) = [])"
proof -
  have "ti_expiry (timer_start now cb t) = now + totalMilliseconds (ti_timeout t)" "ti_waits (timer_start now cb t) = [cb]"
    by (simp_all add: timer_start_def startTimer_def timer_cancel_def Let_def)
  then show ?thesis
    using timer_run_undisturbed [OF assms] by (simp add: timer_tick_def totalMilliseconds_def)
qed

section \<open>The timer of a graceful close\<close>

text \<open>The callback \<open>gracefulCloseTimeout\<close> is bound to the timer itself and to the connection: both live as long as a copy of
  it exists, in the timer or in the handler of a wait.\<close>

datatype close_callback = CB_gracefulCloseTimeout | CB_noopTimerHandler

definition close_held :: "close_callback asio_timer \<Rightarrow> bool" where
  "close_held t \<longleftrightarrow>
     ti_callback t = Some CB_gracefulCloseTimeout \<or> CB_gracefulCloseTimeout \<in> set (ti_waits t) \<or>
     CB_gracefulCloseTimeout \<in> fst ` set (ti_completed t)"

definition GRACEFUL_CLOSE_TIMEOUT_SEC :: int where "GRACEFUL_CLOSE_TIMEOUT_SEC = 5"

text \<open>What \<open>doClose\<close> sets up.\<close>

definition close_timer :: "int \<Rightarrow> close_callback asio_timer" where
  "close_timer now =
     timer_start now CB_gracefulCloseTimeout (AsioTimer_withTimeout (setTotalSeconds GRACEFUL_CLOSE_TIMEOUT_SEC))"

text \<open>\<open>cancelCloseTimer\<close>, which the connection calls when it is closed, has a weak pointer.\<close>

definition cancelCloseTimer :: "close_callback asio_timer \<Rightarrow> close_callback asio_timer" where
  "cancelCloseTimer t = (if close_held t then timer_cancel (timer_resetCallback CB_noopTimerHandler t) else t)"

definition gracefulCloseTimeout :: "close_callback asio_timer \<Rightarrow> close_callback asio_timer" where
  "gracefulCloseTimeout t = timer_resetCallback CB_noopTimerHandler t"

datatype close_input = CL_closed | CL_tick | CL_handle

fun close_step :: "int \<Rightarrow> close_input \<Rightarrow> close_callback asio_timer \<Rightarrow> interrupt_reason list \<times> close_callback asio_timer" where
  "close_step now CL_closed t = ([], cancelCloseTimer t)"
| "close_step now CL_tick t = ([], timer_tick now t)"
| "close_step now CL_handle t =
     (case handler_internal (Some t) of
        ([(CB_gracefulCloseTimeout, reason)], Some t) \<Rightarrow> ([reason], gracefulCloseTimeout t)
      | (_, Some t) \<Rightarrow> ([], t)
      | _ \<Rightarrow> ([], t))"

fun close_run ::
  "(int \<times> close_input) list \<Rightarrow> close_callback asio_timer \<Rightarrow> interrupt_reason list \<times> close_callback asio_timer" where
  "close_run [] t = ([], t)"
| "close_run ((now, i) # is) t =
     (case close_step now i t of (called, t') \<Rightarrow> (case close_run is t' of (called', t'') \<Rightarrow> (called @ called', t'')))"

text \<open>The stages of the timer: waiting, completed, done.\<close>

definition close_waiting :: "int \<Rightarrow> close_callback asio_timer \<Rightarrow> bool" where
  "close_waiting e t \<longleftrightarrow>
     ti_callback t = Some CB_gracefulCloseTimeout \<and> ti_expiry t = e \<and> ti_waits t = [CB_gracefulCloseTimeout] \<and> ti_completed t = []"

definition close_completed :: "close_callback asio_timer \<Rightarrow> bool" where
  "close_completed t \<longleftrightarrow> ti_waits t = [] \<and> (\<exists>reason. ti_completed t = [(CB_gracefulCloseTimeout, reason)])"

definition close_done :: "close_callback asio_timer \<Rightarrow> bool" where
  "close_done t \<longleftrightarrow> ti_callback t = Some CB_noopTimerHandler \<and> ti_waits t = [] \<and> ti_completed t = []"

lemmas close_defs = close_waiting_def close_completed_def close_done_def cancelCloseTimer_def gracefulCloseTimeout_def
  close_held_def timer_cancel_def timer_resetCallback_def timer_tick_def handler_internal_def

lemma close_step_waiting:
  assumes "close_waiting e t" and "close_step now i t = (called, t')"
  shows "called = [] \<and> (if i = CL_closed \<or> i = CL_tick \<and> e \<le> now then close_completed t' else close_waiting e t')"
  using assms by (cases i) (auto simp: close_defs)

lemma close_step_completed:
  assumes "close_completed t" and "close_step now i t = (called, t')"
  shows "if i = CL_handle then length called = 1 \<and> close_done t' else called = [] \<and> close_completed t'"
  using assms by (cases i) (auto simp: close_defs)

lemma close_step_done:
  assumes "close_done t" and "close_step now i t = (called, t')"
  shows "called = [] \<and> close_done t'"
  using assms by (cases i) (auto simp: close_defs)

definition close_stage :: "int \<Rightarrow> interrupt_reason list \<Rightarrow> close_callback asio_timer \<Rightarrow> bool" where
  "close_stage e called t \<longleftrightarrow>
     called = [] \<and> (close_waiting e t \<or> close_completed t) \<or> length called = 1 \<and> close_done t"

lemma close_stage_run:
  "close_run is t = (called, t') \<Longrightarrow> close_stage e c t \<Longrightarrow> close_stage e (c @ called) t'"
proof (induction "is" arbitrary: t c called)
  case (Cons x "is")
  obtain n i where x: "x = (n, i)" by fastforce
  obtain c1 t1 c2 where s: "close_step n i t = (c1, t1)" "close_run is t1 = (c2, t')" "called = c1 @ c2"
    using Cons.prems(1) x by (auto split: prod.splits)
  have "close_stage e (c @ c1) t1"
    using Cons.prems(2) close_step_waiting [OF _ s(1), of e] close_step_completed [OF _ s(1)] close_step_done [OF _ s(1)]
    unfolding close_stage_def by (auto split: if_splits)
  then show ?case
    using Cons.IH [OF s(2), of "c @ c1"] s(3) by simp
qed simp

lemma close_run_append:
  "close_run (is @ js) t = (case close_run is t of (c, u) \<Rightarrow> (case close_run js u of (d, v) \<Rightarrow> (c @ d, v)))"
  by (induction "is" arbitrary: t) (auto split: prod.splits)

text \<open>C24: A graceful close ends and leaves nothing behind. From the moment the connection is asked to close, its object is kept
  alive exactly until the handler of the close timer has been run, which happens once: whatever the order in which the broker answers
  (the connection may report its end any number of times), the timer expires and the event loop runs the handler. It has been
  run after the connection reported its end, or the five seconds passed, and the event loop handled the timer; the timer no
  longer refers to itself then.\<close>

theorem graceful_close_ends:
  assumes "close_run is (close_timer now) = (called, t)"
  shows "(close_held t \<longleftrightarrow> called = []) \<and> length called \<le> 1 \<and>
     ((\<exists>n i as bs cs. is = as @ [(n, i)] @ bs @ [(m, CL_handle)] @ cs \<and> (i = CL_closed \<or> i = CL_tick \<and> now + 5000 \<le> n)) \<longrightarrow>
        called \<noteq> [])"
proof (intro conjI impI)
  let ?e = "now + 5000"
  have w: "close_waiting ?e (close_timer now)"
    by (simp add: close_waiting_def close_timer_def timer_start_def startTimer_def AsioTimer_withTimeout_def timer_cancel_def
        totalMilliseconds_def setTotalSeconds_def ns_per_s_def GRACEFUL_CLOSE_TIMEOUT_SEC_def Let_def)
  then have st: "close_stage ?e [] (close_timer now)"
    by (simp add: close_stage_def)
  have "close_stage ?e called t"
    using close_stage_run [OF assms st] by simp
  then show "close_held t \<longleftrightarrow> called = []" "length called \<le> 1"
    by (auto simp: close_stage_def close_defs)
  assume "\<exists>n i as bs cs. is = as @ [(n, i)] @ bs @ [(m, CL_handle)] @ cs \<and> (i = CL_closed \<or> i = CL_tick \<and> ?e \<le> n)"
  then obtain n i as bs cs where dec: "is = as @ [(n, i)] @ bs @ [(m, CL_handle)] @ cs" "i = CL_closed \<or> i = CL_tick \<and> ?e \<le> n"
    by blast
  obtain c1 t1 where 1: "close_run as (close_timer now) = (c1, t1)" by fastforce
  obtain c2 t2 where 2: "close_step n i t1 = (c2, t2)" by fastforce
  obtain c3 t3 where 3: "close_run bs t2 = (c3, t3)" by fastforce
  obtain c4 t4 where 4: "close_step m CL_handle t3 = (c4, t4)" by fastforce
  have "close_stage ?e c1 t1"
    using close_stage_run [OF 1 st] by simp
  then have "close_stage ?e (c1 @ c2) t2 \<and> (c1 @ c2 = [] \<longrightarrow> close_completed t2)"
    using close_step_waiting [OF _ 2, of ?e] close_step_completed [OF _ 2] close_step_done [OF _ 2] dec(2)
    unfolding close_stage_def by (auto split: if_splits)
  moreover have "close_completed u \<Longrightarrow> close_run bs u = (c, v) \<Longrightarrow> c = [] \<longrightarrow> close_completed v" for u v c
  proof (induction bs arbitrary: u c)
    case (Cons x bs)
    obtain n' i' where x: "x = (n', i')" by fastforce
    obtain d1 u1 d2 where s: "close_step n' i' u = (d1, u1)" "close_run bs u1 = (d2, v)" "c = d1 @ d2"
      using Cons.prems(2) x by (auto split: prod.splits)
    then show ?case
      using Cons.IH [OF _ s(2)] close_step_completed [OF Cons.prems(1) s(1)] by (auto split: if_splits)
  qed simp
  ultimately have "c1 @ c2 @ c3 = [] \<longrightarrow> close_completed t3"
    using 3 by auto
  then have "c1 @ c2 @ c3 @ c4 \<noteq> []"
    using close_step_completed [OF _ 4] by auto
  then show "called \<noteq> []"
    using assms 1 2 3 4 unfolding dec(1) by (auto simp: close_run_append split: prod.splits)
qed
section \<open>EventLoop and AsioEventLoop\<close>

record 'i event_loop =
  el_thread :: bool
  el_started :: bool
  el_joined :: bool
  el_workGuard :: bool
  el_exited :: bool
  el_resolver :: bool
  el_queue :: "'i list"
  el_ran :: "'i list"

definition AsioEventLoop_new :: "'i event_loop" where
  "AsioEventLoop_new =
     \<lparr>el_thread = False, el_started = False, el_joined = False, el_workGuard = True, el_exited = False, el_resolver = False,
      el_queue = [], el_ran = []\<rparr>"

definition postImpl :: "'i \<Rightarrow> 'i event_loop \<Rightarrow> 'i event_loop" where
  "postImpl item l = l\<lparr>el_queue := el_queue l @ [item]\<rparr>"

text \<open>One turn of \<open>onThreadStarted\<close>: the next handler, or the end of \<open>run\<close>.\<close>

definition loop_turn :: "'i event_loop \<Rightarrow> 'i event_loop" where
  "loop_turn l =
     (if \<not> el_thread l \<or> el_exited l then l
      else
        (case el_queue l of
           i # q \<Rightarrow> l\<lparr>el_queue := q, el_ran := el_ran l @ [i]\<rparr>
         | [] \<Rightarrow> if el_workGuard l then l else l\<lparr>el_exited := True\<rparr>))"

text \<open>\<open>start\<close> blocks until the loop has run what was posted before it returns; \<open>loopStarted\<close> is the item posted.
  \<open>created\<close>: the thread could be made.\<close>

definition EventLoop_start :: "bool \<Rightarrow> 'i \<Rightarrow> 'i event_loop \<Rightarrow> 'i event_loop" where
  "EventLoop_start created loopStarted l =
     (if el_started l then l
      else if \<not> created then l
      else
        let l = postImpl loopStarted (l\<lparr>el_thread := True\<rparr>) in
        ((loop_turn ^^ length (el_queue l)) l)\<lparr>el_started := True\<rparr>)"

definition loop_resolver :: "'i event_loop \<Rightarrow> 'i event_loop" where
  "loop_resolver l = l\<lparr>el_resolver := True\<rparr>"

text \<open>\<open>waitForEventLoopExit\<close>: before it waits, and what it returns when it stops waiting.\<close>

definition beginExit :: "'i event_loop \<Rightarrow> 'i event_loop" where
  "beginExit l = (if el_exited l then l else l\<lparr>el_resolver := False, el_workGuard := False\<rparr>)"

definition endExit :: "'i event_loop \<Rightarrow> bool" where
  "endExit l = el_exited l"

text \<open>\<open>join\<close> returns when the thread has ended; \<^const>\<open>None\<close> is blocking.\<close>

definition loop_join :: "'i event_loop \<Rightarrow> 'i event_loop option" where
  "loop_join l =
     (if el_started l \<and> \<not> el_joined l then if el_exited l then Some (l\<lparr>el_joined := True\<rparr>) else None else Some l)"

datatype 'i loop_input =
    LP_post 'i
  | LP_turn
  | LP_start bool 'i
  | LP_resolver
  | LP_beginExit
  | LP_join

fun loop_step :: "'i loop_input \<Rightarrow> 'i event_loop \<Rightarrow> 'i event_loop" where
  "loop_step (LP_post i) l = postImpl i l"
| "loop_step LP_turn l = loop_turn l"
| "loop_step (LP_start created i) l = EventLoop_start created i l"
| "loop_step LP_resolver l = loop_resolver l"
| "loop_step LP_beginExit l = beginExit l"
| "loop_step LP_join l = (case loop_join l of None \<Rightarrow> l | Some l \<Rightarrow> l)"

fun loop_run :: "'i loop_input list \<Rightarrow> 'i event_loop \<Rightarrow> 'i event_loop" where
  "loop_run [] l = l"
| "loop_run (i # is) l = loop_run is (loop_step i l)"

fun posted_by :: "'i loop_input \<Rightarrow> 'i event_loop \<Rightarrow> 'i list" where
  "posted_by (LP_post i) l = [i]"
| "posted_by (LP_start created i) l = (if el_started l \<or> \<not> created then [] else [i])"
| "posted_by _ l = []"

fun loop_posted :: "'i loop_input list \<Rightarrow> 'i event_loop \<Rightarrow> 'i list" where
  "loop_posted [] l = []"
| "loop_posted (i # is) l = posted_by i l @ loop_posted is (loop_step i l)"

text \<open>Items are run in the order they were posted; the loop ends with an empty queue and without a guard.\<close>

definition loop_ok :: "'i event_loop \<Rightarrow> bool" where
  "loop_ok l \<longleftrightarrow> (el_exited l \<longrightarrow> \<not> el_workGuard l \<and> el_thread l) \<and> (el_started l \<longrightarrow> el_thread l) \<and> (el_joined l \<longrightarrow> el_exited l)"

lemma loop_turn_keeps:
  "el_ran (loop_turn l) @ el_queue (loop_turn l) = el_ran l @ el_queue l" "loop_ok l \<Longrightarrow> loop_ok (loop_turn l)"
  "el_started (loop_turn l) = el_started l" "el_thread (loop_turn l) = el_thread l"
  by (auto simp: loop_turn_def loop_ok_def split: list.splits)

lemma loop_turn_next:
  "el_thread l \<Longrightarrow> \<not> el_exited l \<Longrightarrow> el_queue l \<noteq> [] \<Longrightarrow> el_queue (loop_turn l) = tl (el_queue l) \<and> \<not> el_exited (loop_turn l)"
  by (auto simp: loop_turn_def split: list.splits)

lemma loop_turns:
  "el_ran ((loop_turn ^^ n) l) @ el_queue ((loop_turn ^^ n) l) = el_ran l @ el_queue l \<and>
     (loop_ok l \<longrightarrow> loop_ok ((loop_turn ^^ n) l)) \<and> el_started ((loop_turn ^^ n) l) = el_started l \<and>
     el_thread ((loop_turn ^^ n) l) = el_thread l"
  by (induction n) (simp_all add: loop_turn_keeps)

lemma loop_turns_drain:
  "el_thread l \<Longrightarrow> \<not> el_exited l \<Longrightarrow> n \<le> length (el_queue l) \<Longrightarrow>
     el_queue ((loop_turn ^^ n) l) = drop n (el_queue l) \<and> \<not> el_exited ((loop_turn ^^ n) l)"
proof (induction n)
  case (Suc n)
  then have "el_queue ((loop_turn ^^ n) l) = drop n (el_queue l)" "\<not> el_exited ((loop_turn ^^ n) l)" "el_thread ((loop_turn ^^ n) l)"
    using loop_turns [of n l] by auto
  moreover have "drop n (el_queue l) \<noteq> []" using Suc.prems(3) by simp
  ultimately show ?case
    using loop_turn_next [of "(loop_turn ^^ n) l"] by (simp add: drop_Suc drop_tl)
qed simp

lemma loop_step_ok:
  assumes "loop_ok l"
  shows "el_ran (loop_step i l) @ el_queue (loop_step i l) = el_ran l @ el_queue l @ posted_by i l \<and> loop_ok (loop_step i l)"
proof (cases i)
  case LP_turn
  then show ?thesis
    using loop_turns [of 1 l] assms by simp
next
  case (LP_start created j)
  then show ?thesis
    using loop_turns [of "Suc (length (el_queue l))" "postImpl j (l\<lparr>el_thread := True\<rparr>)"] assms
    by (auto simp: EventLoop_start_def Let_def loop_ok_def postImpl_def)
qed (use assms in \<open>auto simp: postImpl_def loop_resolver_def beginExit_def loop_join_def loop_ok_def\<close>)

lemma loop_run_ok:
  "loop_ok l \<Longrightarrow> el_ran (loop_run is l) @ el_queue (loop_run is l) = el_ran l @ el_queue l @ loop_posted is l \<and> loop_ok (loop_run is l)"
proof (induction "is" arbitrary: l)
  case (Cons i "is")
  then show ?case
    using loop_step_ok [OF Cons.prems, of i] Cons.IH [of "loop_step i l"] by (metis append.assoc loop_run.simps(2) loop_posted.simps(2))
qed simp

text \<open>The event loop runs what was posted, once and in order, and ends only when it is told to: at every moment the items run
  followed by those in the queue are exactly the items posted; the loop ends only after its work guard was removed, so
  \<open>waitForEventLoopExit\<close> returns true and \<open>join\<close> returns only then, and at the turn in which it ends everything posted
  until then has been run. After \<open>start\<close>, the loop is running and has run all that was posted before.\<close>

theorem event_loop_runs_all:
  "el_ran (loop_run is AsioEventLoop_new) @ el_queue (loop_run is AsioEventLoop_new) = loop_posted is AsioEventLoop_new \<and>
   (endExit (loop_run is AsioEventLoop_new) \<or> el_joined (loop_run is AsioEventLoop_new) \<longrightarrow>
      \<not> el_workGuard (loop_run is AsioEventLoop_new)) \<and>
   (\<not> el_exited (loop_run is AsioEventLoop_new) \<and> el_exited (loop_turn (loop_run is AsioEventLoop_new)) \<longrightarrow>
      el_ran (loop_run is AsioEventLoop_new) = loop_posted is AsioEventLoop_new) \<and>
   (\<not> el_exited (loop_run is AsioEventLoop_new) \<and> \<not> el_started (loop_run is AsioEventLoop_new) \<longrightarrow>
      el_started (EventLoop_start True item (loop_run is AsioEventLoop_new)) \<and>
      el_ran (EventLoop_start True item (loop_run is AsioEventLoop_new)) = loop_posted is AsioEventLoop_new @ [item])"
proof -
  let ?l = "loop_run is AsioEventLoop_new"
  have new: "loop_ok AsioEventLoop_new" "el_ran AsioEventLoop_new @ el_queue AsioEventLoop_new = []"
    by (simp_all add: loop_ok_def AsioEventLoop_new_def)
  have r: "el_ran ?l @ el_queue ?l = loop_posted is AsioEventLoop_new" and ok: "loop_ok ?l"
    using loop_run_ok [OF new(1), of "is"] new(2) by simp_all
  have "el_ran ?l = loop_posted is AsioEventLoop_new" if "\<not> el_exited ?l" "el_exited (loop_turn ?l)"
    using that r by (auto simp: loop_turn_def split: if_splits list.splits)
  moreover have "el_started (EventLoop_start True item ?l) \<and> el_ran (EventLoop_start True item ?l) = loop_posted is AsioEventLoop_new @ [item]"
    if "\<not> el_exited ?l" "\<not> el_started ?l"
  proof -
    let ?m = "postImpl item (?l\<lparr>el_thread := True\<rparr>)"
    have "el_queue ((loop_turn ^^ length (el_queue ?m)) ?m) = []"
      using loop_turns_drain [of ?m "length (el_queue ?m)"] that by (simp add: postImpl_def)
    then have "el_ran ((loop_turn ^^ length (el_queue ?m)) ?m) = el_ran ?m @ el_queue ?m"
      using loop_turns [of "length (el_queue ?m)" ?m] by simp
    then show ?thesis
      using that r by (simp add: EventLoop_start_def postImpl_def Let_def)
  qed
  ultimately show ?thesis
    using r ok by (auto simp: loop_ok_def endExit_def)
qed
section \<open>postF\<close>

text \<open>The future of a posted call; \<open>processResult\<close> is the item, for which \<open>mk\<close> stands.\<close>

definition postF :: "(fut \<Rightarrow> 'i) \<Rightarrow> 'v futures \<Rightarrow> 'i event_loop \<Rightarrow> fut \<times> 'v futures \<times> 'i event_loop" where
  "postF mk fs l = (case Future_make No_cancel fs of (f, fs) \<Rightarrow> (f, fs, postImpl (mk f) l))"

definition resultWrapper :: "(unit \<Rightarrow> 'v) \<Rightarrow> unit \<Rightarrow> 'v Result" where
  "resultWrapper tProducer u = Result_of (tProducer u)"

definition processResult :: "fut \<Rightarrow> (unit \<Rightarrow> 'v Result) \<Rightarrow> 'v futures \<Rightarrow> 'v futures option" where
  "processResult f resultProducer fs = Future_maker f (resultProducer ()) fs"

text \<open>The future that \<open>postF\<close> returns is unresolved and its call is the last in the queue of the event loop; when the call has
  been made, the future has the value the call returned.\<close>

theorem postF_resolved_by_call:
  assumes "postF mk fs l = (f, fs', l')"
  shows "blockResult f fs' = None \<and> el_queue l' = el_queue l @ [mk f] \<and>
     (\<exists>fs''. processResult f (resultWrapper g) fs' = Some fs'' \<and> blockResult f fs'' = Some (Result_of (g ())))"
proof -
  have f: "f = length (fu_impls fs)" "l' = postImpl (mk f) l"
    and fs': "fu_impls fs' = fu_impls fs @
      [\<lparr>im_refs = 1, im_result = None, im_chain = [], im_cancelFunc = No_cancel, im_locked = False\<rparr>]"
    using assms by (auto simp: postF_def Future_make_def new_impl_def)
  then show ?thesis
    by (simp add: blockResult_def impl_def processResult_def resultWrapper_def Future_maker_def made_def alter_def drop_ref_def
        postImpl_def nth_append)
qed

section \<open>Witnesses\<close>

theorem timer_waits_answered_once_witness:
  "\<exists>called t. timer_run [(0, TI_start (1 :: nat)), (3, TI_resetCallback 2), (7, TI_tick), (7, TI_reset 0)]
      (AsioTimer_withTimeout 5000000) = (called, t) \<and> map fst called @ map fst (ti_completed t) @ ti_waits t = [1, 2]"
proof -
  obtain called t where r: "timer_run [(0, TI_start (1 :: nat)), (3, TI_resetCallback 2), (7, TI_tick), (7, TI_reset 0)]
      (AsioTimer_withTimeout 5000000) = (called, t)" by fastforce
  show ?thesis
    using timer_waits_answered_once [OF r] r by auto
qed

theorem timer_expires_on_time_witness:
  "\<exists>called t. timer_run [(4, TI_tick)] (timer_start 0 (1 :: nat) (AsioTimer_withTimeout 5000000)) = (called, t) \<and> ti_waits t = [1]"
proof -
  obtain called t where r: "timer_run [(4, TI_tick)] (timer_start 0 (1 :: nat) (AsioTimer_withTimeout 5000000)) = (called, t)"
    by fastforce
  show ?thesis
    using timer_expires_on_time [OF r] r by (auto simp: AsioTimer_withTimeout_def totalMilliseconds_def)
qed

theorem graceful_close_ends_witness:
  "\<exists>called t. close_run ([] @ [(7, CL_closed)] @ [] @ [(8, CL_handle)] @ []) (close_timer 0) = (called, t) \<and> \<not> close_held t"
proof -
  obtain called t where r: "close_run ([] @ [(7, CL_closed)] @ [] @ [(8, CL_handle)] @ []) (close_timer 0) = (called, t)"
    by fastforce
  show ?thesis
    using graceful_close_ends [OF r, of 8] r by blast
qed

theorem event_loop_runs_all_witness:
  "el_ran (EventLoop_start True (9 :: nat) (loop_run [LP_post 3] AsioEventLoop_new)) = [3, 9]"
  using event_loop_runs_all [of "[LP_post 3]" "9 :: nat"]
  by (simp add: AsioEventLoop_new_def postImpl_def)

theorem postF_resolved_by_call_witness:
  "\<exists>f fs' l' fs''. postF (\<lambda>f. f) no_futures AsioEventLoop_new = (f, fs', l') \<and>
     processResult f (resultWrapper (\<lambda>_. 5 :: nat)) fs' = Some fs'' \<and> blockResult f fs'' = Some (Result_of 5)"
proof -
  obtain f fs' l' where r: "postF (\<lambda>f. f) (no_futures :: nat futures) AsioEventLoop_new = (f, fs', l')"
    by (metis prod_cases3)
  show ?thesis
    using postF_resolved_by_call [OF r, of "\<lambda>_. 5"] r by blast
qed
end
