(* ===== verification/Secure_Resolver.thy ===== *)
theory Secure_Resolver
  imports Socket "HOL-Library.Multiset"
begin

text \<open>
  \<open>rmqio::AsioResolver\<close>: one attempt to connect, from the lookup of the host name to the established and, with TLS,
  authenticated connection; the TLS context (\<open>createSecureContext\<close>), the verification of certificates
  (\<open>verifyCertificate\<close>) and the shuffling of endpoints.

  boost::asio and OpenSSL are arguments: which calls that configure a context fail, the endpoints that a lookup gives, the
  certificates that a peer shows and what \<open>host_name_verification\<close> says of them. The completions of asynchronous calls are the
  inputs of an attempt. Callbacks hold weak pointers to the resolver and the connection: either may be gone when they run.
\<close>

section \<open>Security parameters and the TLS context\<close>

datatype verification = VERIFY_SERVER | MUTUAL

datatype tls_method = TLS_1_2_OR_BETTER

record security_parameters =
  sp_verification :: verification
  sp_certificateAuthorityPath :: bytes
  sp_clientCertificatePath :: bytes
  sp_clientKeyPath :: bytes

definition SecurityParameters_new :: "bytes \<Rightarrow> security_parameters" where
  "SecurityParameters_new caPath =
     \<lparr>sp_verification = VERIFY_SERVER, sp_certificateAuthorityPath = caPath, sp_clientCertificatePath = [], sp_clientKeyPath = []\<rparr>"

definition MutualSecurityParameters_new :: "bytes \<Rightarrow> bytes \<Rightarrow> bytes \<Rightarrow> security_parameters" where
  "MutualSecurityParameters_new caPath clientCertPath clientKeyPath =
     \<lparr>sp_verification = MUTUAL, sp_certificateAuthorityPath = caPath, sp_clientCertificatePath = clientCertPath,
      sp_clientKeyPath = clientKeyPath\<rparr>"

definition sp_method :: "security_parameters \<Rightarrow> tls_method" where
  "sp_method params = TLS_1_2_OR_BETTER"

datatype tls_option = default_workarounds | single_dh_use | no_sslv2 | no_sslv3 | no_tlsv1 | no_tlsv1_1

record ssl_context =
  sc_verify_peer :: bool
  sc_options :: "tls_option set"
  sc_privateKey :: "bytes option"
  sc_certificateChain :: "bytes option"
  sc_verifyFile :: "bytes option"

text \<open>What the calls on a context report, by their arguments; a call that reports an error changes nothing.\<close>

record ssl_library =
  lib_verify_mode :: bool
  lib_options :: bool
  lib_private_key :: "bytes \<Rightarrow> bool"
  lib_certificate_chain :: "bytes \<Rightarrow> bool"
  lib_verify_file :: "bytes \<Rightarrow> bool"

definition createSecureContext :: "ssl_library \<Rightarrow> security_parameters \<Rightarrow> ssl_context option" where
  "createSecureContext lib params =
     (let result = \<lparr>sc_verify_peer = False, sc_options = {}, sc_privateKey = None, sc_certificateChain = None, sc_verifyFile = None\<rparr>;
          ec = lib_verify_mode lib;
          fail = ec;
          result = (if ec then result else result\<lparr>sc_verify_peer := True\<rparr>);
          tls_options = {default_workarounds, single_dh_use};
          tls_options = (case sp_method params of
             TLS_1_2_OR_BETTER \<Rightarrow> tls_options \<union> {no_sslv2, no_sslv3, no_tlsv1, no_tlsv1_1});
          ec = lib_options lib;
          fail = (fail \<or> ec);
          result = (if ec then result else result\<lparr>sc_options := tls_options\<rparr>);
          (fail, result) = (case sp_verification params of
             MUTUAL \<Rightarrow>
               (let ec = lib_private_key lib (sp_clientKeyPath params);
                    fail = (fail \<or> ec);
                    result = (if ec then result else result\<lparr>sc_privateKey := Some (sp_clientKeyPath params)\<rparr>);
                    ec = lib_certificate_chain lib (sp_clientCertificatePath params);
                    fail = (fail \<or> ec);
                    result = (if ec then result else result\<lparr>sc_certificateChain := Some (sp_clientCertificatePath params)\<rparr>) in
                (fail, result))
           | VERIFY_SERVER \<Rightarrow> (fail, result));
          ec = lib_verify_file lib (sp_certificateAuthorityPath params);
          fail = (fail \<or> ec);
          result = (if ec then result else result\<lparr>sc_verifyFile := Some (sp_certificateAuthorityPath params)\<rparr>) in
      if fail then None else Some result)"

section \<open>Certificates\<close>

definition logCertVerificationFailure :: "bool \<Rightarrow> bool" where
  "logCertVerificationFailure preverified = preverified"

text \<open>\<open>hostNameVerifier\<close> is \<open>boost::asio::ssl::host_name_verification\<close> of a host name, applied to a certificate of the chain.\<close>

definition verifyCertificate ::
  "(bytes \<Rightarrow> bool \<Rightarrow> 'x \<Rightarrow> bool) \<Rightarrow> bytes \<Rightarrow> bool \<Rightarrow> 'x \<Rightarrow> bool" where
  "verifyCertificate hostNameVerifier host preverified ctx =
     (if \<not> logCertVerificationFailure preverified then False
      else if \<not> hostNameVerifier host preverified ctx then False
      else True)"

section \<open>Endpoints\<close>

text \<open>\<open>bdlb::Random::generate15\<close> is an argument: from a seed the next number, which is not negative, and the next seed.\<close>

definition CustomRandomGenerator_call :: "(int \<Rightarrow> int \<times> int) \<Rightarrow> int \<Rightarrow> nat \<Rightarrow> nat \<times> int" where
  "CustomRandomGenerator_call generate15 seed limit =
     (case generate15 seed of (r, seed) \<Rightarrow> (nat (r mod int limit), seed))"

text \<open>\<open>random_shuffle\<close> swaps each element with one at or before it.\<close>

definition swap_at :: "nat \<Rightarrow> nat \<Rightarrow> 'a list \<Rightarrow> 'a list" where
  "swap_at i j xs = xs[i := xs ! j, j := xs ! i]"

fun random_shuffle_from :: "(int \<Rightarrow> int \<times> int) \<Rightarrow> nat \<Rightarrow> nat \<Rightarrow> int \<Rightarrow> 'a list \<Rightarrow> 'a list \<times> int" where
  "random_shuffle_from gen i 0 seed xs = (xs, seed)"
| "random_shuffle_from gen i (Suc n) seed xs =
     (case CustomRandomGenerator_call gen seed (i + 1) of
        (j, seed) \<Rightarrow> random_shuffle_from gen (i + 1) n seed (swap_at i j xs))"

definition shuffleResolverResults :: "(int \<Rightarrow> int \<times> int) \<Rightarrow> bool \<Rightarrow> int \<Rightarrow> 'e list \<Rightarrow> 'e list" where
  "shuffleResolverResults gen shuffleConnectionEndpoints seed resolverResults =
     (if shuffleConnectionEndpoints \<and> resolverResults \<noteq> []
      then fst (random_shuffle_from gen 1 (length resolverResults - 1) seed resolverResults)
      else resolverResults)"

lemma mset_swap_at: "i < length xs \<Longrightarrow> j < length xs \<Longrightarrow> mset (swap_at i j xs) = mset xs"
  by (simp add: swap_at_def mset_swap)

lemma mset_random_shuffle:
  assumes "random_shuffle_from gen i n seed xs = (ys, seed')" and "i + n \<le> length xs"
  shows "mset ys = mset xs"
  using assms
proof (induction n arbitrary: i seed xs)
  case (Suc n)
  obtain j s where j: "CustomRandomGenerator_call gen seed (i + 1) = (j, s)" by fastforce
  then have "j < i + 1"
    by (auto simp: CustomRandomGenerator_call_def nat_less_iff split: prod.splits)
  then have "mset (swap_at i j xs) = mset xs"
    using Suc.prems(2) by (intro mset_swap_at) simp_all
  then show ?case
    using Suc.IH [of "i + 1" s "swap_at i j xs"] Suc.prems j by (simp add: swap_at_def)
qed simp

text \<open>Shuffling loses no endpoint and invents none: the endpoints that are tried are those the lookup gave, each as often, in
  another order, and in the same order unless shuffling was asked for.\<close>

theorem shuffled_endpoints_same:
  "mset (shuffleResolverResults gen shuffle seed results) = mset results \<and>
   shuffleResolverResults gen False seed results = results"
proof -
  obtain ys s where y: "random_shuffle_from gen 1 (length results - 1) seed results = (ys, s)" by fastforce
  then show ?thesis
    using mset_random_shuffle [OF y] by (cases "results = []") (auto simp: shuffleResolverResults_def Suc_le_eq)
qed
section \<open>One attempt to connect\<close>

datatype attempt_phase = PH_resolving | PH_connecting | PH_handshaking | PH_ended

text \<open>\<open>at_connection\<close> is what the weak pointer to the connection gives; the connection owns its socket, which the handlers of the
  later phases hold too. \<open>at_outcomes\<close>: the calls of \<open>onSuccess\<close> and \<open>onFail\<close>.\<close>

record ('cb, 'dn, 'e) resolver_attempt =
  at_host :: bytes
  at_context :: "ssl_context option"
  at_connection :: "('cb, 'dn) asio_connection option"
  at_resolver :: bool
  at_phase :: attempt_phase
  at_endpoints :: "'e list"
  at_verifyHost :: "bytes option"
  at_sni :: "bytes option"
  at_outcomes :: "resolver_outcome list"

definition asyncConnect :: "bytes \<Rightarrow> nat \<Rightarrow> ('cb, 'dn, 'e) resolver_attempt" where
  "asyncConnect host maxFrame =
     \<lparr>at_host = host, at_context = None, at_connection = Some (AsioConnection_new False maxFrame), at_resolver = True,
      at_phase = PH_resolving, at_endpoints = [], at_verifyHost = None, at_sni = None, at_outcomes = []\<rparr>"

definition asyncSecureConnect :: "ssl_library \<Rightarrow> security_parameters \<Rightarrow> bytes \<Rightarrow> nat \<Rightarrow> ('cb, 'dn, 'e) resolver_attempt" where
  "asyncSecureConnect lib params host maxFrame =
     (case createSecureContext lib params of
        None \<Rightarrow>
          \<lparr>at_host = host, at_context = None, at_connection = None, at_resolver = True, at_phase = PH_ended, at_endpoints = [],
           at_verifyHost = None, at_sni = None, at_outcomes = [RO_fail ERROR_CONNECT]\<rparr>
      | Some secureContext \<Rightarrow>
          \<lparr>at_host = host, at_context = Some secureContext, at_connection = Some (AsioConnection_new True maxFrame), at_resolver = True,
           at_phase = PH_resolving, at_endpoints = [], at_verifyHost = None, at_sni = None, at_outcomes = []\<rparr>)"

definition attempt_ends :: "resolver_outcome \<Rightarrow> ('cb, 'dn, 'e) resolver_attempt \<Rightarrow> ('cb, 'dn, 'e) resolver_attempt" where
  "attempt_ends outcome a =
     a\<lparr>at_phase := PH_ended, at_outcomes := at_outcomes a @ (if outcome = RO_ignored then [] else [outcome])\<rparr>"

definition handleResolveCb :: "(int \<Rightarrow> int \<times> int) \<Rightarrow> bool \<Rightarrow> int \<Rightarrow> bool \<Rightarrow> 'e list \<Rightarrow> ('cb, 'dn, 'e) resolver_attempt \<Rightarrow> ('cb, 'dn, 'e) resolver_attempt" where
  "handleResolveCb gen shuffle seed err results a =
     (if \<not> at_resolver a then attempt_ends RO_ignored a
      else
        (case handleResolve err (at_connection a \<noteq> None) of
           RO_started \<Rightarrow> a\<lparr>at_phase := PH_connecting, at_endpoints := shuffleResolverResults gen shuffle seed results\<rparr>
         | outcome \<Rightarrow> attempt_ends outcome a))"

definition handleConnectCb :: "bool \<Rightarrow> bool \<Rightarrow> ('cb, 'dn, 'e) resolver_attempt \<Rightarrow> ('cb, 'dn, 'e) resolver_attempt" where
  "handleConnectCb err prepared a =
     (if \<not> at_resolver a then attempt_ends RO_ignored a
      else
        (case handleConnect err prepared (at_connection a) of
           (outcome, _, connection) \<Rightarrow> attempt_ends outcome (a\<lparr>at_connection := connection\<rparr>)))"

text \<open>The TCP connection of a secure socket has been made: \<open>startTLSHandshake\<close> sets the verification callback of this host, and
  the server name unless the host is an address.\<close>

definition tls_started :: "bool \<Rightarrow> bool \<Rightarrow> bool \<Rightarrow> bool \<Rightarrow> ('cb, 'dn, 'e) resolver_attempt \<Rightarrow> ('cb, 'dn, 'e) resolver_attempt" where
  "tls_started err verifyError hostIsDnsName sniSet a =
     (case startTLSHandshake err verifyError hostIsDnsName sniSet of
        RO_started \<Rightarrow>
          a\<lparr>at_phase := PH_handshaking, at_verifyHost := Some (at_host a),
            at_sni := (if hostIsDnsName then Some (at_host a) else None)\<rparr>
      | outcome \<Rightarrow> attempt_ends outcome a)"

definition tls_finished :: "bool \<Rightarrow> bool \<Rightarrow> ('cb, 'dn, 'e) resolver_attempt \<Rightarrow> ('cb, 'dn, 'e) resolver_attempt" where
  "tls_finished err prepared a =
     (if \<not> err then handleConnectCb False prepared a else attempt_ends (RO_fail ERROR_HANDSHAKE) a)"

text \<open>Completions, with the certificates the peer showed in the handshake; the owner may close or drop the connection, and the
  resolver may be destroyed, at any time.\<close>

datatype ('dn, 'e, 'x) attempt_input =
    RI_resolved "int \<Rightarrow> int \<times> int" bool int bool "'e list"
  | RI_connected bool bool
  | RI_tcp_connected bool bool bool bool
  | RI_handshake "(bool \<times> 'x) list" bool bool
  | RI_close bool 'dn
  | RI_dropped
  | RI_resolver_gone

fun attempt_step :: "('dn, 'e, 'x) attempt_input \<Rightarrow> ('cb, 'dn, 'e) resolver_attempt \<Rightarrow> ('cb, 'dn, 'e) resolver_attempt" where
  "attempt_step (RI_resolved gen shuffle seed err results) a =
     (if at_phase a = PH_resolving then handleResolveCb gen shuffle seed err results a else a)"
| "attempt_step (RI_connected err prepared) a =
     (if at_phase a = PH_connecting \<and> at_context a = None then handleConnectCb err prepared a else a)"
| "attempt_step (RI_tcp_connected err verifyError isDns sniSet) a =
     (if at_phase a = PH_connecting \<and> at_context a \<noteq> None then tls_started err verifyError isDns sniSet a else a)"
| "attempt_step (RI_handshake chain err prepared) a = (if at_phase a = PH_handshaking then tls_finished err prepared a else a)"
| "attempt_step (RI_close failed cb) a =
     a\<lparr>at_connection := map_option (\<lambda>s. snd (AsioConnection_close failed cb s)) (at_connection a)\<rparr>"
| "attempt_step RI_dropped a = a\<lparr>at_connection := None\<rparr>"
| "attempt_step RI_resolver_gone a = a\<lparr>at_resolver := False\<rparr>"

fun attempt_run :: "('dn, 'e, 'x) attempt_input list \<Rightarrow> ('cb, 'dn, 'e) resolver_attempt \<Rightarrow> ('cb, 'dn, 'e) resolver_attempt" where
  "attempt_run [] a = a"
| "attempt_run (i # is) a = attempt_run is (attempt_step i a)"

text \<open>What holds of an attempt: it has called back at most once, at its end, unless nobody was there to hear it.\<close>

definition attempt_ok :: "bool \<Rightarrow> ('cb, 'dn, 'e) resolver_attempt \<Rightarrow> bool" where
  "attempt_ok abandoned a \<longleftrightarrow>
     (if at_phase a = PH_ended then at_outcomes a = [] \<and> abandoned \<or> (\<exists>r. at_outcomes a = [r] \<and> (r = RO_success \<or> (\<exists>e. r = RO_fail e)))
      else at_outcomes a = []) \<and>
     (\<not> abandoned \<longrightarrow> at_resolver a \<and> (at_connection a \<noteq> None \<or> at_phase a = PH_ended))"

lemmas attempt_defs = handleResolveCb_def handleConnectCb_def tls_started_def tls_finished_def attempt_ends_def handleResolve_def
  startConnect_def handleConnect_def startTLSHandshake_def

lemma attempt_ok_step:
  assumes "attempt_ok abandoned a"
  shows "attempt_ok (abandoned \<or> i = RI_dropped \<or> i = RI_resolver_gone) (attempt_step i a)"
proof (cases i)
  case (RI_connected err prepared)
  then show ?thesis
    using assms by (auto simp: attempt_ok_def attempt_defs split: option.splits prod.splits bool.splits if_splits)
next
  case (RI_handshake chain err prepared)
  then show ?thesis
    using assms by (auto simp: attempt_ok_def attempt_defs split: option.splits prod.splits bool.splits if_splits)
qed (use assms in \<open>auto simp: attempt_ok_def attempt_defs split: if_splits\<close>)

lemma attempt_ok_run:
  "attempt_ok b a \<Longrightarrow> attempt_ok (b \<or> RI_dropped \<in> set is \<or> RI_resolver_gone \<in> set is) (attempt_run is a)"
proof (induction "is" arbitrary: a b)
  case (Cons i "is")
  then show ?case
    using Cons.IH [OF attempt_ok_step [OF Cons.prems, of i]] by (simp add: disj_ac eq_commute)
qed simp

text \<open>Whatever the network does, an attempt calls back at most once, \<open>onSuccess\<close> or \<open>onFail\<close>, and only when it is over; and
  when it is over it has called back, unless its connection was dropped or the resolver destroyed meanwhile. This
  holds for plain and secure attempts, also when the TLS context cannot be made.\<close>

theorem resolver_calls_back_once:
  assumes "a = asyncConnect host m \<or> a = asyncSecureConnect lib params host m"
  shows "length (at_outcomes (attempt_run is a)) \<le> 1 \<and>
     (at_phase (attempt_run is a) \<noteq> PH_ended \<longrightarrow> at_outcomes (attempt_run is a) = []) \<and>
     (at_phase (attempt_run is a) = PH_ended \<and> RI_dropped \<notin> set is \<and> RI_resolver_gone \<notin> set is \<longrightarrow>
        at_outcomes (attempt_run is a) = [RO_success] \<or> (\<exists>e. at_outcomes (attempt_run is a) = [RO_fail e]))"
proof -
  have "attempt_ok False a"
    using assms by (auto simp: attempt_ok_def asyncConnect_def asyncSecureConnect_def split: option.splits)
  from attempt_ok_run [OF this, of "is"] show ?thesis
    by (auto simp: attempt_ok_def split: if_splits)
qed
section \<open>Authenticated connections\<close>

lemma createSecureContext_complete:
  assumes "createSecureContext lib params = Some c"
  shows "c = \<lparr>sc_verify_peer = True,
      sc_options = {default_workarounds, single_dh_use, no_sslv2, no_sslv3, no_tlsv1, no_tlsv1_1},
      sc_privateKey = (if sp_verification params = MUTUAL then Some (sp_clientKeyPath params) else None),
      sc_certificateChain = (if sp_verification params = MUTUAL then Some (sp_clientCertificatePath params) else None),
      sc_verifyFile = Some (sp_certificateAuthorityPath params)\<rparr>"
  using assms
  by (cases "sp_verification params"; cases "sp_method params")
    (auto simp: createSecureContext_def Let_def insert_commute split: if_splits prod.splits)

lemma ended_run:
  "at_phase a = PH_ended \<Longrightarrow> at_outcomes (attempt_run is a) = at_outcomes a"
proof (induction "is" arbitrary: a)
  case (Cons i "is")
  have "at_phase (attempt_step i a) = PH_ended \<and> at_outcomes (attempt_step i a) = at_outcomes a"
    using Cons.prems by (cases i) simp_all
  then show ?case
    using Cons.IH by simp
qed simp

text \<open>\<open>seen\<close>: a handshake has succeeded.\<close>

definition secure_ok :: "ssl_context \<Rightarrow> bytes \<Rightarrow> bool \<Rightarrow> ('cb, 'dn, 'e) resolver_attempt \<Rightarrow> bool" where
  "secure_ok c host seen a \<longleftrightarrow>
     at_context a = Some c \<and> at_host a = host \<and>
     (at_phase a = PH_handshaking \<longrightarrow> at_verifyHost a = Some host) \<and> at_sni a \<in> {None, Some host} \<and>
     (RO_success \<in> set (at_outcomes a) \<longrightarrow> at_phase a = PH_ended \<and> at_verifyHost a = Some host \<and> seen)"

definition handshake_done :: "('dn, 'e, 'x) attempt_input \<Rightarrow> bool" where
  "handshake_done i \<longleftrightarrow> (\<exists>chain p. i = RI_handshake chain False p)"

lemma secure_ok_step:
  assumes "secure_ok c host seen a"
  shows "secure_ok c host (seen \<or> handshake_done i) (attempt_step i a)"
proof (cases i)
  case (RI_handshake chain err prepared)
  then show ?thesis
    using assms by (auto simp: secure_ok_def attempt_defs handshake_done_def split: option.splits prod.splits bool.splits if_splits)
qed (use assms in \<open>auto simp: secure_ok_def attempt_defs handshake_done_def split: if_splits\<close>)

lemma secure_ok_run:
  "secure_ok c host seen a \<Longrightarrow> secure_ok c host (seen \<or> (\<exists>i \<in> set is. handshake_done i)) (attempt_run is a)"
proof (induction "is" arbitrary: a seen)
  case (Cons i "is")
  then show ?case
    using Cons.IH [OF secure_ok_step [OF Cons.prems, of i]] by (simp add: disj_ac)
qed simp

section \<open>Witnesses\<close>

definition sample_library :: ssl_library where
  "sample_library = \<lparr>lib_verify_mode = False, lib_options = False, lib_private_key = (\<lambda>_. False),
     lib_certificate_chain = (\<lambda>_. False), lib_verify_file = (\<lambda>_. False)\<rparr>"

theorem resolver_calls_back_once_witness:
  "length (at_outcomes (attempt_run [RI_resolved (\<lambda>s. (s, s)) False 0 True []]
     (asyncConnect (bstr ''h'') 10 :: (nat, nat, nat) resolver_attempt))) \<le> 1"
  using resolver_calls_back_once [of "asyncConnect (bstr ''h'') 10 :: (nat, nat, nat) resolver_attempt" "bstr ''h''" 10] by blast

text \<open>A broker with one certificate, for host \<open>h\<close>.\<close>

definition sample_tls_handshake :: "(nat, nat, bytes) attempt_input list" where
  "sample_tls_handshake = [RI_resolved (\<lambda>s. (s, s)) True 7 False [1, 2, 3], RI_tcp_connected False False True True,
     RI_handshake [(True, bstr ''h'')] False True]"

end
