(* ===== verification/Rabbit_Context.thy ===== *)
theory Rabbit_Context
  imports Virtual_Host Event_Loop Host_Health Watchdog Topology_Builder "HOL-Library.Multiset"
begin

text \<open>
  The context of an application: \<open>rmqa::RabbitContextOptions\<close>, \<open>rmqa::RabbitContextImpl\<close> with its event loop, thread pool,
  health monitor and watchdog from construction to the end of its destructor, and \<open>rmqa::VHost::deleteQueue\<close>, which works
  through the connections of theory \<open>Virtual_Host\<close>.

  Pointers to objects of the application (thread pool, metrics, tracing) are numbers. What \<open>bdls\<close> reports about the process
  is an argument. A failed assertion and the use of an object that no longer exists are \<^const>\<open>None\<close>.
\<close>

section \<open>Options\<close>

datatype host_health_selection =
    HostHealthAwarenessUnset
  | HostHealthConfig host_health_config
  | HostHealthAwarenessOff

datatype 'cb error_callback = Empty_callback | Default_callback | Error_callback 'cb

record ('dt, 'cb) rabbit_context_options =
  ro_onError :: "'cb error_callback"
  ro_hostHealthSelection :: host_health_selection
  ro_threadpool :: "nat option"
  ro_metricPublisher :: "nat option"
  ro_messageProcessingTimeout :: time_interval
  ro_consumerTracing :: "nat option"
  ro_producerTracing :: "nat option"
  ro_connectionErrorThreshold :: "time_interval option"
  ro_connectionEstablishmentTimeout :: "time_interval option"
  ro_clientProperties :: "'dt field_table"
  ro_tunables :: "bytes set"
  ro_shuffleConnectionEndpoints :: "bool option"

text \<open>\<open>ProcessUtil\<close> and \<open>OsUtil\<close>; a call that fails leaves its argument as it was.\<close>

record process_info =
  pi_processId :: u32
  pi_pathToExecutable :: "bytes option"
  pi_osInfo :: "(bytes \<times> bytes \<times> bytes) option"

definition populateUsefulInformation :: "process_info \<Rightarrow> 'dt field_table \<Rightarrow> 'dt field_table" where
  "populateUsefulInformation pi properties =
     (let properties = om_put (bstr ''pid'') (FV_int32 (pi_processId pi)) properties;
          processPath = (case pi_pathToExecutable pi of Some path \<Rightarrow> path | None \<Rightarrow> bstr ''unknown'');
          properties = om_put (bstr ''task'') (FV_string processPath) properties;
          (osName, osVersion, osPatch) =
            (case pi_osInfo pi of Some os \<Rightarrow> os | None \<Rightarrow> (bstr ''unknown'', bstr ''unknown'', bstr ''unknown''));
          properties = om_put (bstr ''os'') (FV_string osName) properties;
          properties = om_put (bstr ''os_version'') (FV_string osVersion) properties in
      om_put (bstr ''os_patch'') (FV_string osPatch) properties)"

definition DEFAULT_MESSAGE_PROCESSING_TIMEOUT :: int where
  "DEFAULT_MESSAGE_PROCESSING_TIMEOUT = 60"

definition RabbitContextOptions_new :: "process_info \<Rightarrow> ('dt, 'cb) rabbit_context_options" where
  "RabbitContextOptions_new pi =
     \<lparr>ro_onError = Default_callback, ro_hostHealthSelection = HostHealthAwarenessUnset, ro_threadpool = None,
      ro_metricPublisher = None, ro_messageProcessingTimeout = setTotalSeconds DEFAULT_MESSAGE_PROCESSING_TIMEOUT,
      ro_consumerTracing = None, ro_producerTracing = None, ro_connectionErrorThreshold = None,
      ro_connectionEstablishmentTimeout = None, ro_clientProperties = populateUsefulInformation pi [],
      ro_tunables = {}, ro_shuffleConnectionEndpoints = None\<rparr>"

text \<open>The setters; that of the establishment timeout asserts that it is at least a millisecond.\<close>

definition setConnectionEstablishmentTimeout ::
  "time_interval option \<Rightarrow> ('dt, 'cb) rabbit_context_options \<Rightarrow> ('dt, 'cb) rabbit_context_options option" where
  "setConnectionEstablishmentTimeout timeout ro =
     (if timeout = None \<or> the timeout \<ge> 1000 * 1000 then Some (ro\<lparr>ro_connectionEstablishmentTimeout := timeout\<rparr>) else None)"

definition setClientProperty ::
  "bytes \<Rightarrow> 'dt field_value \<Rightarrow> ('dt, 'cb) rabbit_context_options \<Rightarrow> ('dt, 'cb) rabbit_context_options" where
  "setClientProperty name value ro = ro\<lparr>ro_clientProperties := om_put name value (ro_clientProperties ro)\<rparr>"

definition setHostHealthSelection ::
  "host_health_selection \<Rightarrow> ('dt, 'cb) rabbit_context_options \<Rightarrow> ('dt, 'cb) rabbit_context_options" where
  "setHostHealthSelection selection ro = ro\<lparr>ro_hostHealthSelection := selection\<rparr>"

definition setHostHealthConfig ::
  "host_health_config \<Rightarrow> ('dt, 'cb) rabbit_context_options \<Rightarrow> ('dt, 'cb) rabbit_context_options" where
  "setHostHealthConfig config ro = setHostHealthSelection (HostHealthConfig config) ro"

datatype ('dt, 'cb) option_call =
    Set_threadpool "nat option"
  | Set_errorCallback "'cb error_callback"
  | Set_metricPublisher "nat option"
  | Set_clientProperty bytes "'dt field_value"
  | Set_messageProcessingTimeout time_interval
  | Set_connectionErrorThreshold "time_interval option"
  | Set_connectionEstablishmentTimeout "time_interval option"
  | Set_consumerTracing "nat option"
  | Set_producerTracing "nat option"
  | Use_rabbitMQFieldValueEncoding bool
  | Set_shuffleConnectionEndpoints bool
  | Set_hostHealthConfig host_health_config
  | Set_hostHealthSelection host_health_selection
  | Set_tunable bytes

fun set_option ::
  "('dt, 'cb) option_call \<Rightarrow> ('dt, 'cb) rabbit_context_options \<Rightarrow> ('dt, 'cb) rabbit_context_options option" where
  "set_option (Set_threadpool p) ro = Some (ro\<lparr>ro_threadpool := p\<rparr>)"
| "set_option (Set_errorCallback cb) ro = Some (ro\<lparr>ro_onError := cb\<rparr>)"
| "set_option (Set_metricPublisher p) ro = Some (ro\<lparr>ro_metricPublisher := p\<rparr>)"
| "set_option (Set_clientProperty name value) ro = Some (setClientProperty name value ro)"
| "set_option (Set_messageProcessingTimeout t) ro = Some (ro\<lparr>ro_messageProcessingTimeout := t\<rparr>)"
| "set_option (Set_connectionErrorThreshold t) ro = Some (ro\<lparr>ro_connectionErrorThreshold := t\<rparr>)"
| "set_option (Set_connectionEstablishmentTimeout t) ro = setConnectionEstablishmentTimeout t ro"
| "set_option (Set_consumerTracing p) ro = Some (ro\<lparr>ro_consumerTracing := p\<rparr>)"
| "set_option (Set_producerTracing p) ro = Some (ro\<lparr>ro_producerTracing := p\<rparr>)"
| "set_option (Use_rabbitMQFieldValueEncoding b) ro = Some ro"
| "set_option (Set_shuffleConnectionEndpoints b) ro = Some (ro\<lparr>ro_shuffleConnectionEndpoints := Some b\<rparr>)"
| "set_option (Set_hostHealthConfig config) ro = Some (setHostHealthConfig config ro)"
| "set_option (Set_hostHealthSelection selection) ro = Some (setHostHealthSelection selection ro)"
| "set_option (Set_tunable t) ro = Some (ro\<lparr>ro_tunables := insert t (ro_tunables ro)\<rparr>)"

fun set_options ::
  "('dt, 'cb) option_call list \<Rightarrow> ('dt, 'cb) rabbit_context_options \<Rightarrow> ('dt, 'cb) rabbit_context_options option" where
  "set_options [] ro = Some ro"
| "set_options (c # cs) ro = (case set_option c ro of None \<Rightarrow> None | Some ro \<Rightarrow> set_options cs ro)"

text \<open>The timer a connection made with these options bounds an attempt to connect with.\<close>

definition k_DEFAULT_HUNG_TIMER_SEC :: int where
  "k_DEFAULT_HUNG_TIMER_SEC = 60"

definition hung_timer :: "('dt, 'cb) rabbit_context_options \<Rightarrow> 'h asio_timer" where
  "hung_timer ro =
     AsioTimer_withTimeout
       (case ro_connectionEstablishmentTimeout ro of
          Some t \<Rightarrow> t
        | None \<Rightarrow> setTotalSeconds k_DEFAULT_HUNG_TIMER_SEC)"


section \<open>What the options do\<close>

text \<open>The value of a client property after some calls: that of the last call for it, or the one it had before.\<close>

fun property_set :: "bytes \<Rightarrow> ('dt, 'cb) option_call list \<Rightarrow> 'dt field_value option \<Rightarrow> 'dt field_value option" where
  "property_set k [] v = v"
| "property_set k (c # cs) v =
     property_set k cs (case c of Set_clientProperty name value \<Rightarrow> if name = k then Some value else v | _ \<Rightarrow> v)"

definition options_ok :: "('dt, 'cb) rabbit_context_options \<Rightarrow> bool" where
  "options_ok ro \<longleftrightarrow> om_inv (ro_clientProperties ro) \<and>
     (\<forall>t. ro_connectionEstablishmentTimeout ro = Some t \<longrightarrow> 1000000 \<le> t)"

lemma bstr_eq_iff [simp]: "bstr s = bstr t \<longleftrightarrow> s = t"
proof -
  have u: "unat (of_nat (of_char c) :: u8) = of_char c" for c :: char
    using nat_of_char_less_256 [of c] by (simp add: unsigned_of_nat take_bit_nat_eq_self)
  have "inj (\<lambda>c. of_nat (of_char c) :: u8)"
    by (rule injI) (metis u of_char_eq_iff)
  then show ?thesis
    by (simp add: bstr_def inj_map_eq_map)
qed

lemma populateUsefulInformation_inv [simp]: "om_inv (populateUsefulInformation pi [])"
  by (simp add: populateUsefulInformation_def Let_def del: om_put.simps split: prod.splits)

lemma options_ok_new: "options_ok (RabbitContextOptions_new pi)"
  by (simp add: options_ok_def RabbitContextOptions_new_def)

lemma set_option_ok:
  assumes "set_option c ro = Some ro'" and "options_ok ro"
  shows "options_ok ro' \<and> map_of (ro_clientProperties ro') k = property_set k [c] (map_of (ro_clientProperties ro) k)"
  using assms by (cases c) (auto simp: options_ok_def setConnectionEstablishmentTimeout_def setClientProperty_def
      setHostHealthConfig_def setHostHealthSelection_def split: if_splits)

lemma set_options_ok:
  "set_options cs ro = Some ro' \<Longrightarrow> options_ok ro \<Longrightarrow>
     options_ok ro' \<and> map_of (ro_clientProperties ro') k = property_set k cs (map_of (ro_clientProperties ro) k)"
proof (induction cs arbitrary: ro)
  case (Cons c cs)
  then obtain ro1 where r: "set_option c ro = Some ro1" "set_options cs ro1 = Some ro'"
    by (auto split: option.splits)
  then show ?case
    using Cons.IH [OF r(2)] set_option_ok [OF r(1) Cons.prems(2), of k] by simp
qed simp

text \<open>The bound on connecting can never make connecting impossible. The calls that set options are accepted exactly if none
  of them sets an establishment timeout below a millisecond; the timer with which a connection made with accepted
  options bounds an attempt then expires at the configured time, to the millisecond, and at least one millisecond after
  the attempt was started.\<close>

theorem establishment_bound_effective:
  "(set_options cs (RabbitContextOptions_new pi) = None \<longleftrightarrow>
      (\<exists>t < 1000000. Set_connectionEstablishmentTimeout (Some t) \<in> set cs)) \<and>
   (\<forall>ro. set_options cs (RabbitContextOptions_new pi) = Some ro \<longrightarrow>
      ti_waits (timer_start now h (hung_timer ro)) = [h] \<and> now + 1 \<le> ti_expiry (timer_start now h (hung_timer ro)) \<and>
      (\<forall>t. ro_connectionEstablishmentTimeout ro = Some t \<longrightarrow>
         1000000 * (ti_expiry (timer_start now h (hung_timer ro)) - now) \<le> t \<and>
         t < 1000000 * (ti_expiry (timer_start now h (hung_timer ro)) - now + 1)))"
proof (intro conjI allI impI)
  have "set_options cs ro = None \<longleftrightarrow> (\<exists>t < 1000000. Set_connectionEstablishmentTimeout (Some t) \<in> set cs)"
    for ro :: "('a, 'b) rabbit_context_options"
  proof (induction cs arbitrary: ro)
    case (Cons c cs)
    show ?case
      by (cases c) (auto simp: Cons.IH setConnectionEstablishmentTimeout_def not_le split: option.splits)
  qed simp
  then show "set_options cs (RabbitContextOptions_new pi) = None \<longleftrightarrow>
      (\<exists>t < 1000000. Set_connectionEstablishmentTimeout (Some t) \<in> set cs)" .
next
  fix ro assume "set_options cs (RabbitContextOptions_new pi) = Some ro"
  then have ok: "options_ok ro" using set_options_ok options_ok_new by blast
  have e: "ti_expiry (timer_start now h (hung_timer ro)) =
      now + totalMilliseconds (case ro_connectionEstablishmentTimeout ro of Some t \<Rightarrow> t | None \<Rightarrow> setTotalSeconds 60)"
    by (simp add: timer_start_def startTimer_def hung_timer_def AsioTimer_withTimeout_def k_DEFAULT_HUNG_TIMER_SEC_def
        timer_cancel_def Let_def split: option.split)
  show "ti_waits (timer_start now h (hung_timer ro)) = [h]"
    by (simp add: timer_start_def startTimer_def hung_timer_def AsioTimer_withTimeout_def timer_cancel_def Let_def)
  show "now + 1 \<le> ti_expiry (timer_start now h (hung_timer ro))"
    using ok by (cases "ro_connectionEstablishmentTimeout ro")
      (auto simp: e totalMilliseconds_def options_ok_def setTotalSeconds_def ns_per_s_def)
  fix t assume "ro_connectionEstablishmentTimeout ro = Some t"
  then show "1000000 * (ti_expiry (timer_start now h (hung_timer ro)) - now) \<le> t"
    "t < 1000000 * (ti_expiry (timer_start now h (hung_timer ro)) - now + 1)"
    using ok by (auto simp: e totalMilliseconds_def options_ok_def)
qed


text \<open>Properties that the library sets itself, or computes from those of the application.\<close>

definition library_properties :: "bytes set" where
  "library_properties = bstr ` {''capabilities'', ''platform'', ''connection_name'', ''product'', ''version'',
     ''product_chain'', ''version_chain''}"

lemma fv_string_case:
  "(\<exists>s. (case v of Some (FV_string s) \<Rightarrow> f s | _ \<Rightarrow> d) = f s) \<or> (case v of Some (FV_string s) \<Rightarrow> f s | _ \<Rightarrow> d) = d"
proof (cases v)
  case (Some x)
  then show ?thesis by (cases x) auto
qed simp

text \<open>Whatever the application has set, the chains end with the library itself.\<close>

lemma setChainProperties_shape:
  obtains pc vc where "setChainProperties props base p v =
    (let q = om_put (bstr ''version_chain'') (FV_string (vc @ v)) (om_put (bstr ''product_chain'') (FV_string (pc @ p)) props);
         q = (if map_of base (bstr ''product'') = None then om_put (bstr ''product'') (FV_string p) q else q) in
     if map_of base (bstr ''version'') = None then om_put (bstr ''version'') (FV_string v) q else q)"
proof -
  let ?put = "\<lambda>k v. om_put (bstr k) (FV_string v)" and ?sep = "bstr '' | ''"
  define B where "B = (case map_of base (bstr ''product'') of
      Some (FV_string s) \<Rightarrow>
        ?put ''version_chain'' (fv_string_or (bstr ''unknown'') (map_of base (bstr ''version'')) @ ?sep @ v)
          (?put ''product_chain'' (s @ ?sep @ p) props)
    | _ \<Rightarrow> ?put ''version_chain'' v (?put ''product_chain'' p props))"
  have B: "\<exists>pc vc. B = ?put ''version_chain'' (vc @ v) (?put ''product_chain'' (pc @ p) props)"
  proof -
    let ?u = "fv_string_or (bstr ''unknown'') (map_of base (bstr ''version''))"
    have "(\<exists>s. B = ?put ''version_chain'' (?u @ ?sep @ v) (?put ''product_chain'' (s @ ?sep @ p) props)) \<or>
        B = ?put ''version_chain'' v (?put ''product_chain'' p props)"
      unfolding B_def by (rule fv_string_case)
    then show ?thesis
    proof (elim disjE exE)
      fix s assume "B = ?put ''version_chain'' (?u @ ?sep @ v) (?put ''product_chain'' (s @ ?sep @ p) props)"
      then show ?thesis by (intro exI [of _ "s @ ?sep"] exI [of _ "?u @ ?sep"]) (simp only: append.assoc)
    next
      assume "B = ?put ''version_chain'' v (?put ''product_chain'' p props)"
      then show ?thesis by (intro exI [of _ "[]"]) (simp only: append.left_neutral)
    qed
  qed
  define A where "A = (case map_of base (bstr ''product_chain'') of
      Some (FV_string s) \<Rightarrow>
        ?put ''version_chain'' (fv_string_or (bstr ''unknown'') (map_of base (bstr ''version_chain'')) @ ?sep @ v)
          (?put ''product_chain'' (s @ ?sep @ p) props)
    | _ \<Rightarrow> B)"
  have "\<exists>pc vc. A = ?put ''version_chain'' (vc @ v) (?put ''product_chain'' (pc @ p) props)"
  proof -
    let ?u = "fv_string_or (bstr ''unknown'') (map_of base (bstr ''version_chain''))"
    have "(\<exists>s. A = ?put ''version_chain'' (?u @ ?sep @ v) (?put ''product_chain'' (s @ ?sep @ p) props)) \<or> A = B"
      unfolding A_def by (rule fv_string_case)
    then show ?thesis
    proof (elim disjE exE)
      fix s assume "A = ?put ''version_chain'' (?u @ ?sep @ v) (?put ''product_chain'' (s @ ?sep @ p) props)"
      then show ?thesis by (intro exI [of _ "s @ ?sep"] exI [of _ "?u @ ?sep"]) (simp only: append.assoc)
    qed (use B in simp)
  qed
  then obtain pc vc where "A = ?put ''version_chain'' (vc @ v) (?put ''product_chain'' (pc @ p) props)" by blast
  moreover have "setChainProperties props base p v =
    (let q = A; q = (if map_of base (bstr ''product'') = None then om_put (bstr ''product'') (FV_string p) q else q) in
     if map_of base (bstr ''version'') = None then om_put (bstr ''version'') (FV_string v) q else q)"
    unfolding A_def B_def setChainProperties_def Let_def ..
  ultimately show ?thesis
    using that by simp
qed

lemma map_of_setChainProperties:
  assumes "om_inv props"
  shows "om_inv (setChainProperties props base p v)"
    "k \<notin> bstr ` {''product'', ''version'', ''product_chain'', ''version_chain''} \<Longrightarrow>
      map_of (setChainProperties props base p v) k = map_of props k"
    "\<exists>pre. map_of (setChainProperties props base p v) (bstr ''product_chain'') = Some (FV_string (pre @ p))"
    "\<exists>pre. map_of (setChainProperties props base p v) (bstr ''version_chain'') = Some (FV_string (pre @ v))"
    "map_of props (bstr ''product'') = map_of base (bstr ''product'') \<Longrightarrow>
      map_of (setChainProperties props base p v) (bstr ''product'') =
        (if map_of base (bstr ''product'') = None then Some (FV_string p) else map_of base (bstr ''product''))"
    "map_of props (bstr ''version'') = map_of base (bstr ''version'') \<Longrightarrow>
      map_of (setChainProperties props base p v) (bstr ''version'') =
        (if map_of base (bstr ''version'') = None then Some (FV_string v) else map_of base (bstr ''version''))"
  by (rule setChainProperties_shape [of props base p v]; use assms in \<open>simp add: Let_def del: om_put.simps\<close>)+

text \<open>What the broker is told about the client. Whatever the application sets, the library states its own capabilities and
  platform, and the name of the connection if it has one; the chains of products and versions end with the library; product and
  version are those of the application, or those of the library; and every other property is the one the application
  set last, or the default for the process.\<close>

theorem client_properties_sent:
  assumes "set_options cs (RabbitContextOptions_new pi) = Some ro"
  shows "map_of (generateClientProperties version (ro_clientProperties ro) name) (bstr ''platform'') = Some (FV_string PLATFORM)"
    and "\<exists>t. map_of (generateClientProperties version (ro_clientProperties ro) name) (bstr ''capabilities'') = Some (FV_table t) \<and>
       map_of t (bstr ''publisher_confirms'') = Some (FV_bool True) \<and> map_of t (bstr ''consumer_cancel_notify'') = Some (FV_bool True) \<and>
       map_of t (bstr ''basic.nack'') = Some (FV_bool False) \<and> map_of t (bstr ''connection.blocked'') = Some (FV_bool False)"
    and "name \<noteq> [] \<longrightarrow> map_of (generateClientProperties version (ro_clientProperties ro) name) (bstr ''connection_name'') =
       Some (FV_string name)"
    and "\<exists>pre. map_of (generateClientProperties version (ro_clientProperties ro) name) (bstr ''product_chain'') =
       Some (FV_string (pre @ PRODUCT))"
    and "map_of (generateClientProperties version (ro_clientProperties ro) name) (bstr ''product'') =
       (case property_set (bstr ''product'') cs None of None \<Rightarrow> Some (FV_string PRODUCT) | x \<Rightarrow> x)"
    and "\<forall>k. k \<notin> library_properties \<longrightarrow>
       map_of (generateClientProperties version (ro_clientProperties ro) name) k =
         property_set k cs (map_of (populateUsefulInformation pi []) k)"
proof -
  have ok: "options_ok ro" "map_of (ro_clientProperties ro) k = property_set k cs (map_of (populateUsefulInformation pi []) k)" for k
    using set_options_ok [OF assms options_ok_new] by (simp_all add: RabbitContextOptions_new_def)
  let ?base = "ro_clientProperties ro"
  define caps :: "'a field_table" where "caps = fold (\<lambda>(k, b). om_put (bstr k) (FV_bool b))
      [(''connection.blocked'', False), (''authentication_failure_close'', True),
       (''consumer_cancel_notify'', True), (''publisher_confirms'', True), (''basic.nack'', False)] []"
  define props where "props = om_put (bstr ''platform'') (FV_string PLATFORM) (om_put (bstr ''capabilities'') (FV_table caps) ?base)"
  have inv: "om_inv props" "om_inv ?base"
    using ok(1) by (simp_all add: props_def options_ok_def del: om_put.simps)
  have p: "map_of props k = (if k = bstr ''platform'' then Some (FV_string PLATFORM)
      else if k = bstr ''capabilities'' then Some (FV_table caps) else map_of ?base k)" for k
    using inv(2) by (simp add: props_def del: om_put.simps)
  let ?sent = "generateClientProperties version ?base name"
  have sent: "?sent = (if name \<noteq> [] then om_put (bstr ''connection_name'') (FV_string name) (setChainProperties props ?base PRODUCT version)
      else setChainProperties props ?base PRODUCT version)"
    unfolding generateClientProperties_def props_def caps_def Let_def ..
  note chain = map_of_setChainProperties [OF inv(1), where base = ?base and p = PRODUCT and v = version]
  have s: "map_of ?sent k = (if k = bstr ''connection_name'' \<and> name \<noteq> [] then Some (FV_string name)
      else map_of (setChainProperties props ?base PRODUCT version) k)" for k
    using chain(1) by (simp add: sent del: om_put.simps)
  show "map_of ?sent (bstr ''platform'') = Some (FV_string PLATFORM)"
    by (simp add: s chain(2) p)
  have "map_of ?sent (bstr ''capabilities'') = Some (FV_table caps)"
    by (simp add: s chain(2) p)
  moreover have "map_of caps (bstr ''publisher_confirms'') = Some (FV_bool True)"
    "map_of caps (bstr ''consumer_cancel_notify'') = Some (FV_bool True)"
    "map_of caps (bstr ''basic.nack'') = Some (FV_bool False)" "map_of caps (bstr ''connection.blocked'') = Some (FV_bool False)"
    by (simp_all add: caps_def del: om_put.simps)
  ultimately show "\<exists>t. map_of ?sent (bstr ''capabilities'') = Some (FV_table t) \<and>
       map_of t (bstr ''publisher_confirms'') = Some (FV_bool True) \<and> map_of t (bstr ''consumer_cancel_notify'') = Some (FV_bool True) \<and>
       map_of t (bstr ''basic.nack'') = Some (FV_bool False) \<and> map_of t (bstr ''connection.blocked'') = Some (FV_bool False)"
    by blast
  show "name \<noteq> [] \<longrightarrow> map_of ?sent (bstr ''connection_name'') = Some (FV_string name)"
    by (simp add: s)
  show "\<exists>pre. map_of ?sent (bstr ''product_chain'') = Some (FV_string (pre @ PRODUCT))"
    using chain(3) by (simp add: s)
  have "map_of (populateUsefulInformation pi [] :: 'a field_table) (bstr ''product'') = None"
    by (simp add: populateUsefulInformation_def Let_def del: om_put.simps split: prod.split)
  then show "map_of ?sent (bstr ''product'') =
       (case property_set (bstr ''product'') cs None of None \<Rightarrow> Some (FV_string PRODUCT) | x \<Rightarrow> x)"
    using chain(5) p [of "bstr ''product''"] ok(2) [of "bstr ''product''"] by (simp add: s split: option.split)
  show "\<forall>k. k \<notin> library_properties \<longrightarrow> map_of ?sent k = property_set k cs (map_of (populateUsefulInformation pi []) k)"
    using ok(2) by (auto simp: s chain(2) p library_properties_def)
qed


section \<open>The context\<close>

text \<open>A thread pool: \<open>enqueueJob\<close> fails when it is not enabled, and \<open>shutdown\<close> also cancels the jobs that wait. The jobs
  are calls of the error callback. \<open>tp_ran\<close> are those that have been run, \<open>tp_cancelled\<close> those that never will be.\<close>

type_synonym 'cb error_job = "'cb error_callback \<times> bytes \<times> int"

record 'cb thread_pool =
  tp_enabled :: bool
  tp_jobs :: "'cb error_job list"
  tp_ran :: "'cb error_job list"
  tp_cancelled :: "'cb error_job list"

definition ThreadPool_new :: "bool \<Rightarrow> 'cb thread_pool" where
  "ThreadPool_new enabled = \<lparr>tp_enabled = enabled, tp_jobs = [], tp_ran = [], tp_cancelled = []\<rparr>"

definition enqueueJob :: "'cb error_job \<Rightarrow> 'cb thread_pool \<Rightarrow> bool \<times> 'cb thread_pool" where
  "enqueueJob job tp = (if tp_enabled tp then (True, tp\<lparr>tp_jobs := tp_jobs tp @ [job]\<rparr>) else (False, tp))"

definition pool_shutdown :: "'cb thread_pool \<Rightarrow> 'cb thread_pool" where
  "pool_shutdown tp = tp\<lparr>tp_enabled := False, tp_jobs := [], tp_cancelled := tp_cancelled tp @ tp_jobs tp\<rparr>"

definition pool_turn :: "'cb thread_pool \<Rightarrow> 'cb thread_pool" where
  "pool_turn tp = (case tp_jobs tp of [] \<Rightarrow> tp | job # jobs \<Rightarrow> tp\<lparr>tp_jobs := jobs, tp_ran := tp_ran tp @ [job]\<rparr>)"

text \<open>What the event loop is given: the item of \<open>start\<close>, errors that connections and channels report, the request for the
  connections that are still alive, and other work.\<close>

datatype context_item = IT_loopStarted | IT_error bytes int | IT_fetchConnectionInfo | IT_work nat

datatype context_phase = CX_alive | CX_waiting_exit | CX_waiting_info | CX_destroying_loop | CX_destroyed

text \<open>The members of \<open>RabbitContextImpl\<close>. \<open>cx_threadPool\<close> is the pool that \<open>d_threadPool\<close> points to, \<open>None\<close> when that is
  null or the pool has been destroyed; \<open>cx_hosted\<close> says whether it is \<open>d_hostedThreadPool\<close>.\<close>

record ('dt, 'cb, 'k) rabbit_context =
  cx_options :: "('dt, 'cb) rabbit_context_options"
  cx_eventLoop :: "context_item event_loop option"
  cx_connectionWatchDog :: "unit WatchDog option"
  cx_threadPool :: "'cb thread_pool option"
  cx_hosted :: bool
  cx_connectionMonitor :: "'k ConnectionMonitor"
  cx_hostHealthMonitor :: "'k health_monitor option"
  cx_connectionFactory :: bool
  cx_phase :: context_phase
  cx_connectionInfo :: bool
  cx_refused :: "'cb error_job list"

definition DEFAULT_WATCHDOG_PERIOD :: int where
  "DEFAULT_WATCHDOG_PERIOD = 60"

text \<open>The constructor; \<open>created\<close> says whether the thread of the event loop could be made, \<open>given\<close> is the state of the
  thread pool in the options, if there is one.\<close>

definition start_monitor :: "host_health_selection \<Rightarrow> 'k health_monitor option option" where
  "start_monitor selection =
     (case selection of
        HostHealthConfig config \<Rightarrow>
          (case HostHealthMonitor_new config of
             None \<Rightarrow> None
           | Some hm \<Rightarrow> map_option (\<lambda>(evs, hm). Some hm) (HostHealthMonitor_start hm))
      | _ \<Rightarrow> Some None)"

definition RabbitContextImpl_new ::
  "bool \<Rightarrow> int \<Rightarrow> 'cb thread_pool \<Rightarrow> ('dt, 'cb) rabbit_context_options \<Rightarrow> ('dt, 'cb, 'k) rabbit_context option" where
  "RabbitContextImpl_new created now given ro =
     (case start_monitor (ro_hostHealthSelection ro) of
        None \<Rightarrow> None
      | Some hm \<Rightarrow>
          let watchDog = WatchDog_new (setTotalSeconds DEFAULT_WATCHDOG_PERIOD);
              eventLoop = loop_resolver AsioEventLoop_new;
              threadPool = (if ro_threadpool ro = None then ThreadPool_new True else given);
              eventLoop = EventLoop_start created IT_loopStarted eventLoop;
              watchDog = WatchDog_start now (addTask () watchDog) in
          Some \<lparr>cx_options = ro, cx_eventLoop = Some eventLoop, cx_connectionWatchDog = Some watchDog,
                cx_threadPool = Some threadPool, cx_hosted = (ro_threadpool ro = None),
                cx_connectionMonitor = ConnectionMonitor_new (ro_messageProcessingTimeout ro),
                cx_hostHealthMonitor = hm, cx_connectionFactory = True, cx_phase = CX_alive, cx_connectionInfo = False,
                cx_refused = []\<rparr>)"

text \<open>\<open>handleErrorCbOnEventLoop\<close>, through the pointer to the pool.\<close>

definition handleErrorCbOnEventLoop ::
  "bytes \<Rightarrow> int \<Rightarrow> ('dt, 'cb, 'k) rabbit_context \<Rightarrow> ('dt, 'cb, 'k) rabbit_context option" where
  "handleErrorCbOnEventLoop errorText errorCode cx =
     (let errorCb = ro_onError (cx_options cx) in
      if errorCb = Empty_callback then Some cx
      else
        (case cx_threadPool cx of
           None \<Rightarrow> None
         | Some tp \<Rightarrow>
             (case enqueueJob (errorCb, errorText, errorCode) tp of
                (True, tp) \<Rightarrow> Some (cx\<lparr>cx_threadPool := Some tp\<rparr>)
              | (False, tp) \<Rightarrow> Some (cx\<lparr>cx_refused := cx_refused cx @ [(errorCb, errorText, errorCode)]\<rparr>))))"

text \<open>The destructor up to the first wait, and what follows each of its waits.\<close>

definition RabbitContextImpl_destroy :: "('dt, 'cb, 'k) rabbit_context \<Rightarrow> ('dt, 'cb, 'k) rabbit_context" where
  "RabbitContextImpl_destroy cx =
     cx\<lparr>cx_connectionFactory := False, cx_hostHealthMonitor := None,
        cx_threadPool := (if cx_hosted cx then map_option pool_shutdown (cx_threadPool cx) else cx_threadPool cx),
        cx_connectionWatchDog := None, cx_eventLoop := map_option beginExit (cx_eventLoop cx), cx_phase := CX_waiting_exit\<rparr>"

text \<open>\<open>d_eventLoop.reset\<close>: \<open>~AsioEventLoop\<close> waits once more and then joins the thread; the pool goes last.\<close>

definition begin_loop_destruction :: "('dt, 'cb, 'k) rabbit_context \<Rightarrow> ('dt, 'cb, 'k) rabbit_context" where
  "begin_loop_destruction cx =
     cx\<lparr>cx_eventLoop := map_option (\<lambda>l. if el_started l then beginExit l else l) (cx_eventLoop cx),
        cx_phase := CX_destroying_loop\<rparr>"

definition after_exit_wait :: "('dt, 'cb, 'k) rabbit_context \<Rightarrow> ('dt, 'cb, 'k) rabbit_context" where
  "after_exit_wait cx =
     (case cx_eventLoop cx of
        None \<Rightarrow> cx
      | Some l \<Rightarrow>
          if endExit l then begin_loop_destruction cx
          else cx\<lparr>cx_eventLoop := Some (postImpl IT_fetchConnectionInfo l), cx_phase := CX_waiting_info\<rparr>)"

definition end_loop_destruction :: "('dt, 'cb, 'k) rabbit_context \<Rightarrow> ('dt, 'cb, 'k) rabbit_context" where
  "end_loop_destruction cx =
     (case cx_eventLoop cx of
        None \<Rightarrow> cx
      | Some l \<Rightarrow>
          (case loop_join l of
             None \<Rightarrow> cx
           | Some _ \<Rightarrow>
               cx\<lparr>cx_eventLoop := None, cx_threadPool := (if cx_hosted cx then None else cx_threadPool cx),
                  cx_phase := CX_destroyed\<rparr>))"

section \<open>From construction to destruction\<close>

text \<open>Other threads post to the event loop and the application may stop a thread pool of its own at any time; a wait of the
  destructor may time out at any time, only \<open>join\<close> blocks. An input that cannot occur does nothing.\<close>

datatype context_input =
    XI_post context_item
  | XI_turn
  | XI_pool
  | XI_shutdown_given
  | XI_destroy
  | XI_exit_waited
  | XI_info_waited
  | XI_join

fun run_context_item :: "context_item \<Rightarrow> ('dt, 'cb, 'k) rabbit_context \<Rightarrow> ('dt, 'cb, 'k) rabbit_context option" where
  "run_context_item (IT_error errorText errorCode) cx = handleErrorCbOnEventLoop errorText errorCode cx"
| "run_context_item IT_fetchConnectionInfo cx = Some (cx\<lparr>cx_connectionInfo := True\<rparr>)"
| "run_context_item _ cx = Some cx"

definition context_turn :: "('dt, 'cb, 'k) rabbit_context \<Rightarrow> ('dt, 'cb, 'k) rabbit_context option" where
  "context_turn cx =
     (case cx_eventLoop cx of
        None \<Rightarrow> Some cx
      | Some l \<Rightarrow>
          let cx = cx\<lparr>cx_eventLoop := Some (loop_turn l)\<rparr> in
          if el_thread l \<and> \<not> el_exited l \<and> el_queue l \<noteq> [] then run_context_item (hd (el_queue l)) cx else Some cx)"

fun context_step :: "context_input \<Rightarrow> ('dt, 'cb, 'k) rabbit_context \<Rightarrow> ('dt, 'cb, 'k) rabbit_context option" where
  "context_step (XI_post i) cx = Some (cx\<lparr>cx_eventLoop := map_option (postImpl i) (cx_eventLoop cx)\<rparr>)"
| "context_step XI_turn cx = context_turn cx"
| "context_step XI_pool cx = Some (cx\<lparr>cx_threadPool := map_option pool_turn (cx_threadPool cx)\<rparr>)"
| "context_step XI_shutdown_given cx =
     Some (if cx_hosted cx then cx else cx\<lparr>cx_threadPool := map_option pool_shutdown (cx_threadPool cx)\<rparr>)"
| "context_step XI_destroy cx = Some (if cx_phase cx = CX_alive then RabbitContextImpl_destroy cx else cx)"
| "context_step XI_exit_waited cx = Some (if cx_phase cx = CX_waiting_exit then after_exit_wait cx else cx)"
| "context_step XI_info_waited cx = Some (if cx_phase cx = CX_waiting_info then begin_loop_destruction cx else cx)"
| "context_step XI_join cx = Some (if cx_phase cx = CX_destroying_loop then end_loop_destruction cx else cx)"

fun context_run :: "context_input list \<Rightarrow> ('dt, 'cb, 'k) rabbit_context \<Rightarrow> ('dt, 'cb, 'k) rabbit_context option" where
  "context_run [] cx = Some cx"
| "context_run (i # is) cx = (case context_step i cx of None \<Rightarrow> None | Some cx \<Rightarrow> context_run is cx)"

text \<open>The calls of the error callback that the items of the event loop ask for, and what has become of them.\<close>

fun error_jobs :: "'cb error_callback \<Rightarrow> context_item list \<Rightarrow> 'cb error_job list" where
  "error_jobs cb [] = []"
| "error_jobs cb (IT_error errorText errorCode # is) =
     (if cb = Empty_callback then [] else [(cb, errorText, errorCode)]) @ error_jobs cb is"
| "error_jobs cb (_ # is) = error_jobs cb is"

definition pool_jobs :: "'cb thread_pool \<Rightarrow> 'cb error_job multiset" where
  "pool_jobs tp = mset (tp_ran tp) + mset (tp_jobs tp) + mset (tp_cancelled tp)"

definition context_ok :: "'cb thread_pool \<Rightarrow> ('dt, 'cb, 'k) rabbit_context \<Rightarrow> bool" where
  "context_ok tp0 cx \<longleftrightarrow>
     (cx_eventLoop cx = None \<longleftrightarrow> cx_phase cx = CX_destroyed) \<and>
     (cx_threadPool cx = None \<longleftrightarrow> cx_phase cx = CX_destroyed \<and> cx_hosted cx) \<and>
     (\<forall>l. cx_eventLoop cx = Some l \<longrightarrow>
        loop_ok l \<and> el_started l = el_thread l \<and> \<not> el_joined l \<and> (cx_phase cx = CX_alive \<or> \<not> el_workGuard l) \<and>
        (\<forall>tp. cx_threadPool cx = Some tp \<longrightarrow>
           pool_jobs tp + mset (cx_refused cx) = pool_jobs tp0 + mset (error_jobs (ro_onError (cx_options cx)) (el_ran l))))"


lemma error_jobs_append [simp]: "error_jobs cb (is @ js) = error_jobs cb is @ error_jobs cb js"
  by (induction cb "is" rule: error_jobs.induct) auto

lemma pool_jobs_simps [simp]:
  "pool_jobs (pool_turn tp) = pool_jobs tp" "pool_jobs (pool_shutdown tp) = pool_jobs tp"
  "pool_jobs (tp\<lparr>tp_jobs := tp_jobs tp @ [job]\<rparr>) = add_mset job (pool_jobs tp)"
  by (auto simp: pool_jobs_def pool_turn_def pool_shutdown_def split: list.split)

lemma loop_simps [simp]:
  "el_started (postImpl i l) = el_started l" "el_thread (postImpl i l) = el_thread l" "el_joined (postImpl i l) = el_joined l"
  "el_workGuard (postImpl i l) = el_workGuard l" "el_ran (postImpl i l) = el_ran l" "loop_ok (postImpl i l) = loop_ok l"
  "el_started (beginExit l) = el_started l" "el_thread (beginExit l) = el_thread l" "el_joined (beginExit l) = el_joined l"
  "el_ran (beginExit l) = el_ran l" "el_queue (beginExit l) = el_queue l" "el_exited (beginExit l) = el_exited l"
  "loop_ok l \<Longrightarrow> loop_ok (beginExit l) \<and> \<not> el_workGuard (beginExit l)"
  by (auto simp: postImpl_def beginExit_def loop_ok_def)

lemma loop_turn_simps [simp]:
  "el_joined (loop_turn l) = el_joined l" "el_workGuard (loop_turn l) = el_workGuard l" "el_started (loop_turn l) = el_started l"
  "el_thread (loop_turn l) = el_thread l" "loop_ok l \<Longrightarrow> loop_ok (loop_turn l)"
  by (auto simp: loop_turn_def loop_ok_def split: list.split)

lemma el_ran_turn:
  "el_ran (loop_turn l) = el_ran l @ (if el_thread l \<and> \<not> el_exited l \<and> el_queue l \<noteq> [] then [hd (el_queue l)] else [])"
  by (auto simp: loop_turn_def split: list.split)

lemma context_okD:
  assumes "context_ok tp0 cx" and "cx_eventLoop cx = Some l"
  shows "loop_ok l" "el_started l = el_thread l" "\<not> el_joined l" "cx_phase cx = CX_alive \<or> \<not> el_workGuard l"
    "\<exists>tp. cx_threadPool cx = Some tp \<and>
       pool_jobs tp + mset (cx_refused cx) = pool_jobs tp0 + mset (error_jobs (ro_onError (cx_options cx)) (el_ran l))"
    "cx_phase cx \<noteq> CX_destroyed"
  using assms by (auto simp: context_ok_def)

lemma run_context_item_ok:
  assumes "cx_threadPool cx = Some tp"
  shows "\<exists>cx' tp'. run_context_item i cx = Some cx' \<and> cx_threadPool cx' = Some tp' \<and>
    pool_jobs tp' + mset (cx_refused cx') = pool_jobs tp + mset (cx_refused cx) + mset (error_jobs (ro_onError (cx_options cx)) [i]) \<and>
    cx_eventLoop cx' = cx_eventLoop cx \<and> cx_phase cx' = cx_phase cx \<and> cx_hosted cx' = cx_hosted cx \<and>
    cx_options cx' = cx_options cx"
  using assms by (cases i) (auto simp: handleErrorCbOnEventLoop_def enqueueJob_def Let_def)

lemma context_turn_ok:
  assumes "context_ok tp0 cx"
  shows "\<exists>cx'. context_turn cx = Some cx' \<and> context_ok tp0 cx' \<and> cx_phase cx' = cx_phase cx \<and>
    cx_eventLoop cx' = map_option loop_turn (cx_eventLoop cx) \<and> cx_hosted cx' = cx_hosted cx"
proof (cases "cx_eventLoop cx")
  case None
  then show ?thesis using assms by (simp add: context_turn_def)
next
  case (Some l)
  note ok = context_okD [OF assms Some]
  obtain tp where tp: "cx_threadPool cx = Some tp"
    "pool_jobs tp + mset (cx_refused cx) = pool_jobs tp0 + mset (error_jobs (ro_onError (cx_options cx)) (el_ran l))"
    using ok(5) by blast
  show ?thesis
  proof (cases "el_thread l \<and> \<not> el_exited l \<and> el_queue l \<noteq> []")
    case False
    then have "el_ran (loop_turn l) = el_ran l" by (auto simp: el_ran_turn)
    then show ?thesis
      using False Some ok tp assms by (auto simp: context_turn_def context_ok_def Let_def)
  next
    case True
    obtain i q where i: "el_queue l = i # q" using True by (cases "el_queue l") auto
    have r: "el_ran (loop_turn l) = el_ran l @ [i]" using True i by (simp add: el_ran_turn)
    let ?cx = "cx\<lparr>cx_eventLoop := Some (loop_turn l)\<rparr>"
    obtain cx' tp' where s: "run_context_item i ?cx = Some cx'" "cx_threadPool cx' = Some tp'"
      "pool_jobs tp' + mset (cx_refused cx') = pool_jobs tp + mset (cx_refused cx) + mset (error_jobs (ro_onError (cx_options cx)) [i])"
      "cx_eventLoop cx' = Some (loop_turn l)" "cx_phase cx' = cx_phase cx" "cx_hosted cx' = cx_hosted cx" "cx_options cx' = cx_options cx"
      using run_context_item_ok [of ?cx tp i] tp(1) by auto
    have "pool_jobs tp' + mset (cx_refused cx') = pool_jobs tp0 + mset (error_jobs (ro_onError (cx_options cx)) (el_ran (loop_turn l)))"
      unfolding s(3) tp(2) r by simp
    then have "context_ok tp0 cx'"
      using s(2,4-7) ok(1-4,6) unfolding context_ok_def by simp
    moreover have "context_turn cx = Some cx'"
      using True Some i s(1) by (simp add: context_turn_def Let_def)
    ultimately show ?thesis
      using s(4-6) Some by simp
  qed
qed

lemma begin_loop_destruction_ok:
  assumes "context_ok tp0 cx" and "cx_eventLoop cx = Some l" and "cx_phase cx \<noteq> CX_alive"
  shows "context_ok tp0 (begin_loop_destruction cx)"
proof -
  note ok = context_okD [OF assms(1,2)]
  obtain tp where "cx_threadPool cx = Some tp"
    "pool_jobs tp + mset (cx_refused cx) = pool_jobs tp0 + mset (error_jobs (ro_onError (cx_options cx)) (el_ran l))"
    using ok(5) by blast
  then show ?thesis
    using ok(1-4) assms(2,3) by (cases "el_started l") (simp_all add: context_ok_def begin_loop_destruction_def)
qed

lemma after_exit_wait_ok:
  assumes "context_ok tp0 cx" and "cx_phase cx = CX_waiting_exit"
  shows "context_ok tp0 (after_exit_wait cx)"
proof -
  obtain l where l: "cx_eventLoop cx = Some l"
    using assms by (cases "cx_eventLoop cx") (auto simp: context_ok_def)
  note ok = context_okD [OF assms(1) l]
  obtain tp where "cx_threadPool cx = Some tp"
    "pool_jobs tp + mset (cx_refused cx) = pool_jobs tp0 + mset (error_jobs (ro_onError (cx_options cx)) (el_ran l))"
    using ok(5) by blast
  then show ?thesis
    using ok(1-4) l assms(2) begin_loop_destruction_ok [OF assms(1) l]
    by (cases "endExit l") (simp_all add: context_ok_def after_exit_wait_def)
qed

lemma context_step_ok:
  assumes "context_ok tp0 cx"
  shows "\<exists>cx'. context_step i cx = Some cx' \<and> context_ok tp0 cx' \<and> cx_hosted cx' = cx_hosted cx"
proof (cases "cx_eventLoop cx")
  case None
  then show ?thesis
    using assms by (cases i) (auto simp: context_ok_def context_turn_def)
next
  case (Some l)
  note ok = context_okD [OF assms Some]
  obtain tp where tp: "cx_threadPool cx = Some tp"
    "pool_jobs tp + mset (cx_refused cx) = pool_jobs tp0 + mset (error_jobs (ro_onError (cx_options cx)) (el_ran l))"
    using ok(5) by blast
  show ?thesis
  proof (cases i)
    case XI_turn
    then show ?thesis using context_turn_ok [OF assms] by auto
  next
    case XI_exit_waited
    then show ?thesis
      using assms after_exit_wait_ok [OF assms] Some
      by (simp add: after_exit_wait_def begin_loop_destruction_def)
  next
    case XI_info_waited
    then show ?thesis
      using assms begin_loop_destruction_ok [OF assms Some] by (simp add: begin_loop_destruction_def)
  next
    case XI_join
    then show ?thesis
      using assms tp ok Some by (cases "loop_join l") (auto simp: context_ok_def end_loop_destruction_def)
  next
    case XI_destroy
    then show ?thesis
      using tp ok Some assms by (auto simp: context_ok_def RabbitContextImpl_destroy_def)
  qed (use tp ok Some in \<open>simp_all add: context_ok_def\<close>)
qed

lemma context_run_ok:
  "context_ok tp0 cx \<Longrightarrow> \<exists>cx'. context_run is cx = Some cx' \<and> context_ok tp0 cx' \<and> cx_hosted cx' = cx_hosted cx"
proof (induction "is" arbitrary: cx)
  case (Cons i "is")
  obtain cx1 where s: "context_step i cx = Some cx1" "context_ok tp0 cx1" "cx_hosted cx1 = cx_hosted cx"
    using context_step_ok [OF Cons.prems] by blast
  show ?case
    using Cons.IH [OF s(2)] s(1,3) by auto
qed simp

lemma context_run_append:
  "context_run (is @ js) cx = (case context_run is cx of None \<Rightarrow> None | Some cx \<Rightarrow> context_run js cx)"
  by (induction "is" arbitrary: cx) (auto split: option.splits)

text \<open>The pool that the context starts with.\<close>

definition initial_pool :: "'cb thread_pool \<Rightarrow> ('dt, 'cb) rabbit_context_options \<Rightarrow> 'cb thread_pool" where
  "initial_pool given ro = (if ro_threadpool ro = None then ThreadPool_new True else given)"

lemma new_loop:
  fixes created defines "l \<equiv> EventLoop_start created IT_loopStarted (loop_resolver AsioEventLoop_new)"
  shows "loop_ok l" "el_started l = el_thread l" "\<not> el_joined l" "error_jobs cb (el_ran l) = []"
  by (simp_all add: l_def EventLoop_start_def loop_resolver_def AsioEventLoop_new_def postImpl_def loop_turn_def loop_ok_def Let_def)

lemma context_ok_new:
  assumes "RabbitContextImpl_new created now given ro = Some cx"
  shows "context_ok (initial_pool given ro) cx" "cx_hosted cx \<longleftrightarrow> ro_threadpool ro = None" "cx_phase cx = CX_alive"
    "cx_threadPool cx = Some (initial_pool given ro)"
  using assms new_loop [where created = created]
  by (auto simp: RabbitContextImpl_new_def context_ok_def initial_pool_def Let_def split: option.splits)

text \<open>Only the application stops a pool of its own.\<close>

lemma context_turn_pool:
  assumes "context_turn cx = Some cx1" and "cx_threadPool cx = Some tp"
  shows "\<exists>tp1. cx_threadPool cx1 = Some tp1 \<and> tp_enabled tp1 = tp_enabled tp \<and> tp_cancelled tp1 = tp_cancelled tp"
proof -
  have item: "\<exists>tp1. cx_threadPool cx1 = Some tp1 \<and> tp_enabled tp1 = tp_enabled tp \<and> tp_cancelled tp1 = tp_cancelled tp"
    if "run_context_item i cx = Some cx1" "cx_threadPool cx = Some tp" for i and cx cx1 :: "('a, 'b, 'c) rabbit_context"
    using that by (cases i) (auto simp: handleErrorCbOnEventLoop_def enqueueJob_def Let_def split: if_splits)
  show ?thesis
  proof (cases "cx_eventLoop cx")
    case (Some l)
    then show ?thesis
      using assms item [of _ "cx\<lparr>cx_eventLoop := Some (loop_turn l)\<rparr>" cx1] by (auto simp: context_turn_def Let_def split: if_splits)
  qed (use assms in \<open>simp add: context_turn_def\<close>)
qed

lemma context_step_pool:
  assumes "context_step i cx = Some cx1" and "cx_threadPool cx = Some tp" and "\<not> cx_hosted cx" and "i \<noteq> XI_shutdown_given"
  shows "\<exists>tp1. cx_threadPool cx1 = Some tp1 \<and> tp_enabled tp1 = tp_enabled tp \<and> tp_cancelled tp1 = tp_cancelled tp"
proof (cases i)
  case XI_turn
  then show ?thesis using context_turn_pool assms by simp
next
  case XI_pool
  then show ?thesis using assms by (auto simp: pool_turn_def split: list.split)
next
  case XI_exit_waited
  then show ?thesis
    using assms by (auto simp: after_exit_wait_def begin_loop_destruction_def split: option.split)
next
  case XI_join
  then show ?thesis using assms by (auto simp: end_loop_destruction_def split: option.split)
qed (use assms in \<open>auto simp: RabbitContextImpl_destroy_def begin_loop_destruction_def\<close>)

lemma given_pool_untouched:
  assumes "context_run is cx = Some cx'" and "context_ok tp0 cx" and "\<not> cx_hosted cx" and "XI_shutdown_given \<notin> set is"
    and "cx_threadPool cx = Some tp"
  shows "\<exists>tp'. cx_threadPool cx' = Some tp' \<and> tp_enabled tp' = tp_enabled tp \<and> tp_cancelled tp' = tp_cancelled tp"
  using assms
proof (induction "is" arbitrary: cx tp)
  case (Cons i "is")
  obtain cx1 where s: "context_step i cx = Some cx1" "context_ok tp0 cx1" "cx_hosted cx1 = cx_hosted cx"
    using context_step_ok [OF Cons.prems(2)] by blast
  have run: "context_run is cx1 = Some cx'" using Cons.prems(1) s(1) by simp
  have "\<exists>tp1. cx_threadPool cx1 = Some tp1 \<and> tp_enabled tp1 = tp_enabled tp \<and> tp_cancelled tp1 = tp_cancelled tp"
    using context_step_pool [OF s(1) Cons.prems(5,3)] Cons.prems(4) by auto
  then obtain tp1 where tp1: "cx_threadPool cx1 = Some tp1" "tp_enabled tp1 = tp_enabled tp" "tp_cancelled tp1 = tp_cancelled tp"
    by blast
  show ?case
    using Cons.IH [OF run s(2) _ _ tp1(1)] Cons.prems(3,4) s(3) tp1(2,3) by simp
qed simp

text \<open>C21: A context is safe to use and to destroy at any time. Whatever is posted, run and stopped while it lives and while its
  destructor waits, no call of the error callback ever goes through a pointer to a thread pool that does not exist; the pool
  outlives the event loop, and the context is destroyed only after the event loop has ended. Every error that the event
  loop has handled is one call of the error callback (none if it is empty), which has been run, waits in the pool, was cancelled when
  the pool was stopped, or was refused because it had been stopped. A pool of the application is never stopped by the context.\<close>

theorem context_safe:
  assumes "RabbitContextImpl_new created now given ro = Some cx"
  shows "\<exists>cx'. context_run is cx = Some cx' \<and>
    (cx_phase cx' = CX_destroyed \<longleftrightarrow> cx_eventLoop cx' = None) \<and>
    (\<forall>l. cx_eventLoop cx' = Some l \<longrightarrow>
       (\<exists>tp. cx_threadPool cx' = Some tp \<and>
          mset (tp_ran tp) + mset (tp_jobs tp) + mset (tp_cancelled tp) + mset (cx_refused cx') =
          pool_jobs (initial_pool given ro) + mset (error_jobs (ro_onError (cx_options cx')) (el_ran l))) \<and>
       (context_step XI_join cx' \<noteq> Some cx' \<longrightarrow> el_exited l \<or> \<not> el_thread l)) \<and>
    (ro_threadpool ro \<noteq> None \<and> XI_shutdown_given \<notin> set is \<longrightarrow>
       (\<exists>tp. cx_threadPool cx' = Some tp \<and> tp_enabled tp = tp_enabled given \<and> tp_cancelled tp = tp_cancelled given))"
proof -
  note new = context_ok_new [OF assms]
  obtain cx' where cx': "context_run is cx = Some cx'" "context_ok (initial_pool given ro) cx'" "cx_hosted cx' = cx_hosted cx"
    using context_run_ok [OF new(1)] by blast
  have "cx_phase cx' = CX_destroyed \<longleftrightarrow> cx_eventLoop cx' = None"
    using cx'(2) by (simp add: context_ok_def)
  moreover have "(\<exists>tp. cx_threadPool cx' = Some tp \<and>
          mset (tp_ran tp) + mset (tp_jobs tp) + mset (tp_cancelled tp) + mset (cx_refused cx') =
          pool_jobs (initial_pool given ro) + mset (error_jobs (ro_onError (cx_options cx')) (el_ran l))) \<and>
       (context_step XI_join cx' \<noteq> Some cx' \<longrightarrow> el_exited l \<or> \<not> el_thread l)" if l: "cx_eventLoop cx' = Some l" for l
    using context_okD [OF cx'(2) l] l
    by (auto simp: pool_jobs_def end_loop_destruction_def loop_join_def split: if_splits)
  moreover have "\<exists>tp. cx_threadPool cx' = Some tp \<and> tp_enabled tp = tp_enabled given \<and> tp_cancelled tp = tp_cancelled given"
    if "ro_threadpool ro \<noteq> None" "XI_shutdown_given \<notin> set is"
    using given_pool_untouched [OF cx'(1) new(1) _ that(2) new(4)] that(1) new(2) by (simp add: initial_pool_def)
  ultimately show ?thesis
    by (intro exI [of _ cx'] conjI cx'(1) allI impI) simp_all
qed

text \<open>Turns of the event loop with nothing new posted.\<close>

lemma context_turns:
  assumes "context_ok tp0 cx" and "cx_eventLoop cx = Some l"
  shows "\<exists>cx'. context_run (replicate n XI_turn) cx = Some cx' \<and> context_ok tp0 cx' \<and> cx_phase cx' = cx_phase cx \<and>
    cx_eventLoop cx' = Some ((loop_turn ^^ n) l)"
  using assms
proof (induction n arbitrary: cx l)
  case (Suc n)
  obtain cx1 where s: "context_turn cx = Some cx1" "context_ok tp0 cx1" "cx_phase cx1 = cx_phase cx"
    "cx_eventLoop cx1 = Some (loop_turn l)"
    using context_turn_ok [OF Suc.prems(1)] Suc.prems(2) by auto
  show ?case
    using Suc.IH [OF s(2,4)] s(1,3) by (simp add: funpow_swap1)
qed simp

lemma loop_turns_exit:
  assumes "el_thread l" and "\<not> el_workGuard l"
  shows "el_exited ((loop_turn ^^ Suc (length (el_queue l))) l)"
  using assms
proof (induction "el_queue l" arbitrary: l)
  case Nil
  then show ?case by (simp add: loop_turn_def)
next
  case (Cons i q)
  have ex: "el_exited l' \<Longrightarrow> el_exited ((loop_turn ^^ n) l')" for n and l' :: "'a event_loop"
    by (induction n) (auto simp: loop_turn_def)
  show ?case
  proof (cases "el_exited l")
    case False
    then have "el_queue (loop_turn l) = q"
      using Cons.prems Cons.hyps(2) [symmetric] by (simp add: loop_turn_def)
    then show ?thesis
      using Cons.hyps(1) [of "loop_turn l"] Cons.prems Cons.hyps(2) [symmetric] by (simp add: funpow_swap1)
  qed (rule ex)
qed



section \<open>Deleting a queue\<close>

text \<open>\<open>VHost::deleteQueue\<close>: what it asks a producer of, the update it then makes, and what it returns for the result of the
  creation and that of the update.\<close>

definition deleteQueue_topology :: "(bytes \<Rightarrow> bool) \<Rightarrow> handle \<times> 'dt topology_builder" where
  "deleteQueue_topology regex_match = defaultExchange regex_match Topology_new"

definition deleteQueue_update :: "bytes \<Rightarrow> bool \<Rightarrow> bool \<Rightarrow> 'dt topology_update" where
  "deleteQueue_update name ifUnused ifEmpty = tu_deleteQueue name ifUnused ifEmpty []"

definition deleteQueue_result :: "unit Result \<Rightarrow> unit Result \<Rightarrow> unit Result" where
  "deleteQueue_result producerResult updateResult =
     (if \<not> Futures.Result_ok producerResult
      then Futures.Result_error (bstr ''Couldn't create a producer to delete queue: '' @ rs_error producerResult) (rs_code producerResult)
      else updateResult)"

text \<open>Deleting a queue works on every open connection: if the pattern for exchange names accepts the empty name, the creation of
  the producer is never refused, its channel declares nothing at the broker, and the update makes it send exactly
  one method, which deletes the named queue with the given conditions and waits for the answer; the result is that of the
  update, or an error that says the producer could not be created.\<close>

theorem deleteQueue_sends_delete:
  assumes "regex_match []" and "deleteQueue_topology regex_match = (h, b)" and "cf_open (vs_conns s ! k)"
  shows "(\<exists>x. Exchange_isDefault x \<and>
       ConnectionImpl_createProducerAsync (built_objects b) r (tb_topology b) h k s =
         Inr (LI_send_channel k r (tb_topology b) x (createRetryHandler (co_tunables (vs_options s))))) \<and>
     tt_messages (TopologyTransformer (built_objects b) (tb_topology b)) = [] \<and>
     tt_messages (TopologyTransformer_update (built_objects b) (deleteQueue_update name ifUnused ifEmpty)) =
       [Msg_Method (Queue (M_QueueDelete
          \<lparr>qDelete_name = name, qDelete_ifUnused = ifUnused, qDelete_ifEmpty = ifEmpty, qDelete_noWait = False\<rparr>))] \<and>
     \<not> tt_error (TopologyTransformer_update (built_objects b) (deleteQueue_update name ifUnused ifEmpty)) \<and>
     (Futures.Result_ok (deleteQueue_result pr ur) \<longleftrightarrow> Futures.Result_ok pr \<and> Futures.Result_ok ur)"
proof -
  define x :: "'a exchange" where "x = \<lparr>exchange_name = [], exchange_type = bstr ''direct'', exchange_passive = False,
    exchange_autoDelete = False, exchange_durable = True, exchange_internal = False, exchange_arguments = []\<rparr>"
  have b: "h = 1" "tb_topology b = \<lparr>t_queues = [], t_exchanges = [x], t_queueBindings = [], t_exchangeBindings = []\<rparr>"
    "lock_exchange (built_objects b) 1 = Some x"
    using assms(1,2) by (auto simp: deleteQueue_topology_def defaultExchange_def Topology_new_def built_objects_def null_handle_def
        addExchangeImpl_def validateName_def MAX_EXCHANGE_NAME_LENGTH_def insertIfNotDupe_def x_def)
  have d: "Exchange_isDefault x"
    by (simp add: x_def Exchange_isDefault_def)
  moreover have "ConnectionImpl_createProducerAsync (built_objects b) r (tb_topology b) h k s =
      Inr (LI_send_channel k r (tb_topology b) x (createRetryHandler (co_tunables (vs_options s))))"
    using b assms(3) by (simp add: ConnectionImpl_createProducerAsync_def DoesExist_def Let_def)
  moreover have "tt_messages (TopologyTransformer (built_objects b) (tb_topology b)) = []"
    using d by (simp add: b(2) TopologyTransformer_def processExchange_def Transformer_empty_def)
  moreover have "tt_messages (TopologyTransformer_update (built_objects b) (deleteQueue_update name ifUnused ifEmpty)) =
      [Msg_Method (Queue (M_QueueDelete
         \<lparr>qDelete_name = name, qDelete_ifUnused = ifUnused, qDelete_ifEmpty = ifEmpty, qDelete_noWait = False\<rparr>))]"
    "\<not> tt_error (TopologyTransformer_update (built_objects b) (deleteQueue_update name ifUnused ifEmpty))"
    by (simp_all add: TopologyTransformer_update_def deleteQueue_update_def tu_deleteQueue_def processQueueDelete_def
        push_declaration_def Transformer_empty_def)
  moreover have "Futures.Result_ok (deleteQueue_result pr ur) \<longleftrightarrow> Futures.Result_ok pr \<and> Futures.Result_ok ur"
    by (simp add: deleteQueue_result_def Futures.Result_ok_def Futures.Result_error_def)
  ultimately show ?thesis by blast
qed

section \<open>Witnesses\<close>

definition sample_process :: process_info where
  "sample_process = \<lparr>pi_processId = 7, pi_pathToExecutable = None, pi_osInfo = None\<rparr>"

definition sample_context_options :: "(nat, nat) rabbit_context_options" where
  "sample_context_options =
     (RabbitContextOptions_new sample_process)\<lparr>ro_connectionEstablishmentTimeout := Some 1999999\<rparr>"

lemma sample_options_set:
  "set_options [Set_connectionEstablishmentTimeout (Some 1999999)] (RabbitContextOptions_new sample_process) =
     Some sample_context_options"
  by (simp add: setConnectionEstablishmentTimeout_def sample_context_options_def)

theorem establishment_bound_effective_witness:
  "ti_waits (timer_start 10 (3 :: nat) (hung_timer sample_context_options)) = [3] \<and>
   11 \<le> ti_expiry (timer_start 10 (3 :: nat) (hung_timer sample_context_options)) \<and>
   set_options [Set_connectionEstablishmentTimeout (Some 999999)] (RabbitContextOptions_new sample_process :: (nat, nat) rabbit_context_options) = None"
proof -
  note w = establishment_bound_effective [where now = 10 and h = "3 :: nat" and pi = sample_process]
  show ?thesis
    using w [THEN conjunct2, THEN spec, THEN mp, OF sample_options_set]
      w [THEN conjunct1, THEN iffD2, of "[Set_connectionEstablishmentTimeout (Some 999999)]"]
    by (simp del: set_options.simps)
qed

theorem client_properties_sent_witness:
  "map_of (generateClientProperties (bstr ''1'') (ro_clientProperties sample_context_options) (bstr ''c'')) (bstr ''task'') =
     Some (FV_string (bstr ''unknown''))"
proof -
  have "map_of (populateUsefulInformation sample_process [] :: nat field_table) (bstr ''task'') = Some (FV_string (bstr ''unknown''))"
    by (simp add: populateUsefulInformation_def sample_process_def Let_def del: om_put.simps)
  then show ?thesis
    using client_properties_sent(6) [OF sample_options_set, of "bstr ''1''" "bstr ''c''"] by (simp add: library_properties_def)
qed

definition sample_context_inputs :: "context_input list" where
  "sample_context_inputs = [XI_post (IT_error [101] 5), XI_destroy, XI_exit_waited]"

lemma sample_context:
  obtains cx cx' :: "(nat, nat, nat) rabbit_context" and l
  where "RabbitContextImpl_new True 0 (ThreadPool_new True) sample_context_options = Some cx"
    and "context_run sample_context_inputs cx = Some cx'" and "cx_phase cx' = CX_waiting_info" and "cx_eventLoop cx' = Some l"
    and "length (el_queue l) = 2" and "el_ran l = [IT_loopStarted]"
proof -
  let ?n = "RabbitContextImpl_new True 0 (ThreadPool_new True) sample_context_options :: (nat, nat, nat) rabbit_context option"
  obtain cx where new: "?n = Some cx"
    by (simp add: RabbitContextImpl_new_def start_monitor_def sample_context_options_def RabbitContextOptions_new_def Let_def)
  define l where "l = EventLoop_start True IT_loopStarted (loop_resolver AsioEventLoop_new)"
  have l: "el_queue l = []" "el_ran l = [IT_loopStarted]" "\<not> el_exited l"
    by (simp_all add: l_def EventLoop_start_def loop_resolver_def AsioEventLoop_new_def postImpl_def loop_turn_def Let_def)
  have c: "cx_phase cx = CX_alive" "cx_eventLoop cx = Some l"
    using new by (auto simp: RabbitContextImpl_new_def start_monitor_def sample_context_options_def RabbitContextOptions_new_def
        l_def Let_def)
  show ?thesis
    using that [OF new, of _ "postImpl IT_fetchConnectionInfo (beginExit (postImpl (IT_error [101] 5) l))"] c l
    by (simp add: sample_context_inputs_def RabbitContextImpl_destroy_def after_exit_wait_def endExit_def postImpl_def)
qed

theorem context_safe_witness:
  "\<exists>cx cx' :: (nat, nat, nat) rabbit_context. \<exists>tp.
     RabbitContextImpl_new True 0 (ThreadPool_new True) sample_context_options = Some cx \<and>
     context_run sample_context_inputs cx = Some cx' \<and> cx_threadPool cx' = Some tp \<and>
     mset (tp_ran tp) + mset (tp_jobs tp) + mset (tp_cancelled tp) + mset (cx_refused cx') = {#}"
proof (rule sample_context)
  fix cx cx' :: "(nat, nat, nat) rabbit_context" and l
  assume new: "RabbitContextImpl_new True 0 (ThreadPool_new True) sample_context_options = Some cx"
    and run: "context_run sample_context_inputs cx = Some cx'" and l: "cx_eventLoop cx' = Some l" "el_ran l = [IT_loopStarted]"
  have "pool_jobs (initial_pool (ThreadPool_new True) sample_context_options) = {#}"
    by (simp add: initial_pool_def sample_context_options_def RabbitContextOptions_new_def ThreadPool_new_def pool_jobs_def)
  then show ?thesis
    using context_safe [OF new, of sample_context_inputs] new run l by auto
qed


theorem deleteQueue_sends_delete_witness:
  "\<exists>h b x. deleteQueue_topology (\<lambda>_. True) = (h, b :: u64 topology_builder) \<and> Exchange_isDefault x \<and>
     ConnectionImpl_createProducerAsync (built_objects b) 0 (tb_topology b) h 0
       ((VHostImpl_new sample_options :: (u64, unit) vhost_state)\<lparr>vs_conns :=
          [\<lparr>cf_name = [], cf_refs = 1, cf_result = Some (Result_of ()), cf_amqp = True, cf_open = True, cf_firstConnectCb = False\<rparr>]\<rparr>) =
       Inr (LI_send_channel 0 0 (tb_topology b) x (createRetryHandler (co_tunables sample_options)))"
proof -
  obtain h and b :: "u64 topology_builder" where hb: "deleteQueue_topology (\<lambda>_. True) = (h, b)" by fastforce
  let ?s = "(VHostImpl_new sample_options :: (u64, unit) vhost_state)\<lparr>vs_conns :=
      [\<lparr>cf_name = [], cf_refs = 1, cf_result = Some (Result_of ()), cf_amqp = True, cf_open = True, cf_firstConnectCb = False\<rparr>]\<rparr>"
  have o: "cf_open (vs_conns ?s ! 0)" "vs_options ?s = sample_options" by (simp_all add: VHostImpl_new_def)
  show ?thesis
    using conjunct1 [OF deleteQueue_sends_delete [OF _ hb o(1), of 0]] hb unfolding o(2) by blast
qed

end
