(* ===== verification/Tracing.thy ===== *)
theory Tracing
  imports Producer Consumer
begin

text \<open>
  The decorators that attach an application's tracing to producers and consumers: \<open>rmqa::TracingTagger\<close>, which opens a context for
  every message sent and tells it the response, and \<open>rmqa::TracingMessageGuard\<close>, which holds a context as long as a
  delivery is processed. \<open>TracingConsumerImpl::Factory\<close> makes consumers whose guards are of this kind.

  The tracing back end is an argument: \<open>createAndTag\<close> yields the changed properties and a context.
\<close>

section \<open>TracingTagger\<close>

text \<open>A callback of the application, or one bound to a context by \<open>tagMessage\<close>.\<close>

datatype ('cb, 'x) confirm_callback =
    Plain 'cb
  | Callback_and_context "('cb, 'x) confirm_callback" 'x

datatype ('dt, 'g, 'cb, 'x) traced_effect =
    TE_callback 'cb "('dt, 'g) message" bytes confirm_response
  | TE_response 'x confirm_response

text \<open>What calling a callback does.\<close>

fun callbackAndContext ::
  "('cb, 'x) confirm_callback \<Rightarrow> ('dt, 'g) message \<Rightarrow> bytes \<Rightarrow> confirm_response \<Rightarrow> ('dt, 'g, 'cb, 'x) traced_effect list" where
  "callbackAndContext (Plain callback) message routingKey response = [TE_callback callback message routingKey response]"
| "callbackAndContext (Callback_and_context callback ctx) message routingKey response =
     callbackAndContext callback message routingKey response @ [TE_response ctx response]"

definition tagMessage ::
  "('dt properties \<Rightarrow> bytes \<Rightarrow> bytes \<Rightarrow> 'ep \<Rightarrow> 'dt properties \<times> 'x) \<Rightarrow> 'ep \<Rightarrow> ('dt, ('cb, 'x) confirm_callback) tagger" where
  "tagMessage createAndTag endpoint messageProperties routingKey exchangeName confirmCallback =
     (case createAndTag messageProperties routingKey exchangeName endpoint of
        (messageProperties, ctx) \<Rightarrow> (messageProperties, Callback_and_context confirmCallback ctx))"

fun effect_of :: "('dt, 'g, ('cb, 'x) confirm_callback) producer_event \<Rightarrow> ('dt, 'g, 'cb, 'x) traced_effect list" where
  "effect_of (PE_called cb m rk r) = callbackAndContext cb m rk r"
| "effect_of _ = []"

definition traced_effects ::
  "('dt, 'g, ('cb, 'x) confirm_callback, 't) producer_system \<Rightarrow> ('dt, 'g, 'cb, 'x) traced_effect list" where
  "traced_effects sy = concat (map effect_of (sy_events sy))"

text \<open>The application passes callbacks of its own.\<close>

fun plain_input :: "('dt, 'g, ('cb, 'x) confirm_callback, 't) producer_input \<Rightarrow> bool" where
  "plain_input (PI_send _ _ _ cb _ _) = (\<exists>c. cb = Plain c)"
| "plain_input (PI_trySend _ _ cb) = (\<exists>c. cb = Plain c)"
| "plain_input _ = True"

text \<open>A callback made by the tagger for a routing key.\<close>

definition traced_callback ::
  "('dt properties \<Rightarrow> bytes \<Rightarrow> bytes \<Rightarrow> 'ep \<Rightarrow> 'dt properties \<times> 'x) \<Rightarrow> 'ep \<Rightarrow> bytes \<Rightarrow> bytes \<Rightarrow> ('cb, 'x) confirm_callback \<Rightarrow> bool" where
  "traced_callback createAndTag endpoint exchangeName routingKey cb \<longleftrightarrow>
     (\<exists>c props. cb = Callback_and_context (Plain c) (snd (createAndTag props routingKey exchangeName endpoint)))"

definition traced_system ::
  "('dt properties \<Rightarrow> bytes \<Rightarrow> bytes \<Rightarrow> 'ep \<Rightarrow> 'dt properties \<times> 'x) \<Rightarrow> 'ep \<Rightarrow> bytes \<Rightarrow>
     ('dt, 'g, ('cb, 'x) confirm_callback, 't) producer_system \<Rightarrow> bool" where
  "traced_system createAndTag endpoint exchangeName sy \<longleftrightarrow>
     pd_tagger (sy_producer sy) = Some (tagMessage createAndTag endpoint) \<and> pd_exchangeName (sy_producer sy) = exchangeName \<and>
     (\<forall>(m, rk, mandatoryFlag, cb) \<in> set (sy_sending sy). traced_callback createAndTag endpoint exchangeName rk cb) \<and>
     (\<forall>(m, rk, cb) \<in> set (accepted sy). traced_callback createAndTag endpoint exchangeName rk cb)"

lemma traced_system_create:
  "traced_system createAndTag endpoint (extractExchangeName exc) (Producer_create limit exc (Some (tagMessage createAndTag endpoint)) sc)"
  by (simp add: traced_system_def Producer_create_def ProducerImpl_new_def accepted_def)

lemma channel_step_keeps:
  assumes "channel_step now i sy = Some sy'"
  shows "sy_producer sy' = sy_producer sy" "sy_sending sy' = sy_sending sy" "sy_events sy' = sy_events sy"
  using assms by (auto simp: channel_step_def handleConfirmOnEventLoop_def split: option.splits if_splits)

lemma run_posted_keeps:
  assumes "run_posted now lv p sy = Some sy'"
  shows "sy_producer sy' = sy_producer sy" "sy_sending sy' = sy_sending sy" "sy_events sy' = sy_events sy"
  using assms by (cases p; auto dest: channel_step_keeps)+


lemma prepare_traced:
  assumes "traced_system createAndTag endpoint exchangeName sy" and "cb = Plain c"
    and "prepareMessageForSending cb m rk (sy_producer sy) = (cb', m')"
  shows "traced_callback createAndTag endpoint exchangeName rk cb'"
  using assms by (auto simp: prepareMessageForSending_def traced_system_def tagMessage_def traced_callback_def
      split: prod.splits) (metis snd_conv)

lemma sem_tryWait_keeps:
  "sem_tryWait pd = Some pd' \<Longrightarrow> pd_tagger pd' = pd_tagger pd \<and> pd_exchangeName pd' = pd_exchangeName pd"
  by (auto simp: sem_tryWait_def split: if_splits)

lemma doSend_keeps:
  "doSend gu fresh m rk mandatoryFlag cb pd = Some (status, p, pd') \<Longrightarrow>
     pd_tagger pd' = pd_tagger pd \<and> pd_exchangeName pd' = pd_exchangeName pd \<and> (\<forall>mwr. p = Some mwr \<longrightarrow> mwr_routingKey mwr = rk)"
  by (auto simp: doSend_def registerUniqueCallback_def sem_post_def split: transform_result.splits if_splits)

lemma actionConfirm_keeps:
  "actionConfirmOnThreadPool job pd = (evs, pd') \<Longrightarrow>
     pd_tagger pd' = pd_tagger pd \<and> pd_exchangeName pd' = pd_exchangeName pd \<and> concat (map sent_of evs) = []"
  by (auto simp: actionConfirmOnThreadPool_def sem_post_def Let_def split: prod.splits option.splits if_splits)

lemma traced_system_step:
  assumes "producer_step gu i sy = Some sy'" and "plain_input i" and "traced_system createAndTag endpoint exchangeName sy"
  shows "traced_system createAndTag endpoint exchangeName sy'"
proof (cases i)
  case (PI_send m rk mandatoryFlag cb timeout expired)
  obtain cb' m' where p: "prepareMessageForSending cb m rk (sy_producer sy) = (cb', m')" by fastforce
  then have "traced_callback createAndTag endpoint exchangeName rk cb'"
    using prepare_traced [OF assms(3) _ p] assms(2) PI_send by auto
  then show ?thesis
    using assms(1,3) p PI_send
    by (auto simp: sendImpl_def traced_system_def accepted_def split: option.splits if_splits dest: sem_tryWait_keeps)
next
  case (PI_trySend m rk cb)
  obtain cb' m' where p: "prepareMessageForSending cb m rk (sy_producer sy) = (cb', m')" by fastforce
  then have "traced_callback createAndTag endpoint exchangeName rk cb'"
    using prepare_traced [OF assms(3) _ p] assms(2) PI_trySend by auto
  then show ?thesis
    using assms(1,3) p PI_trySend
    by (auto simp: trySend_def traced_system_def accepted_def split: option.splits dest: sem_tryWait_keeps)
next
  case (PI_doSend fresh call)
  obtain m rk mandatoryFlag cb where c: "call = (m, rk, mandatoryFlag, cb)" by (cases call)
  obtain status p pd where d: "doSend gu fresh m rk mandatoryFlag cb (sy_producer sy) = Some (status, p, pd)"
    and sy': "sy_producer sy' = pd" "sy_sending sy' = remove1 call (sy_sending sy)" and mem: "call \<in> set (sy_sending sy)"
    and acc: "accepted sy' = accepted sy @ (case p of None \<Rightarrow> [] | Some mwr \<Rightarrow> [(mwr_message mwr, mwr_routingKey mwr, cb)])"
    using assms(1) PI_doSend c by (auto simp: accepted_def split: if_splits option.splits prod.splits)
  have "\<forall>x \<in> set (sy_sending sy'). x \<in> set (sy_sending sy)"
    using sy'(2) set_remove1_subset by fastforce
  then show ?thesis
    using assms(3) doSend_keeps [OF d] sy'(1) mem acc c
    unfolding traced_system_def by (auto split: option.splits)
next
  case (PI_eventLoop now lv)
  then obtain p ps where "run_posted now lv p (sy\<lparr>sy_eventLoop := ps\<rparr>) = Some sy'"
    using assms(1) by (auto split: list.splits)
  then show ?thesis
    using assms(3) run_posted_keeps [of now lv p "sy\<lparr>sy_eventLoop := ps\<rparr>" sy'] by (simp add: traced_system_def accepted_def)
next
  case (PI_channel now j)
  then have "channel_step now j sy = Some sy'" using assms(1) by (simp split: if_splits)
  then show ?thesis
    using assms(3) channel_step_keeps [of now j sy sy'] by (simp add: traced_system_def accepted_def)
next
  case (PI_job job)
  then obtain evs pd where j: "actionConfirmOnThreadPool job (sy_producer sy) = (evs, pd)" "sy_producer sy' = pd"
    "sy_sending sy' = sy_sending sy" "sy_events sy' = sy_events sy @ evs"
    using assms(1) by (auto split: if_splits prod.splits)
  then show ?thesis
    using assms(3) actionConfirm_keeps [OF j(1)] by (simp add: traced_system_def accepted_def)
qed (use assms in \<open>auto simp: traced_system_def accepted_def waitForConfirms_def updateTopologyAsync_def addTransformer_def
    ProducerImpl_destroy_def split: if_splits option.splits\<close>)

lemma traced_system_run:
  "producer_run gu is sy = Some sy' \<Longrightarrow> \<forall>i \<in> set is. plain_input i \<Longrightarrow> traced_system createAndTag endpoint exchangeName sy \<Longrightarrow>
     traced_system createAndTag endpoint exchangeName sy'"
  by (induction "is" arbitrary: sy) (auto split: option.splits dest: traced_system_step)

lemma traced_calls_shape:
  assumes "\<forall>(m, rk, cb) \<in> set (concat (map called_of evs)). traced_callback createAndTag endpoint exchangeName rk cb"
  shows "\<exists>calls. concat (map effect_of evs) = concat (map (\<lambda>(m, rk, cb, ctx, r). [TE_callback cb m rk r, TE_response ctx r]) calls) \<and>
    map (\<lambda>(m, rk, cb, ctx, r). (m, rk, Callback_and_context (Plain cb) ctx)) calls = concat (map called_of evs)"
  using assms
proof (induction evs)
  case (Cons e evs)
  then obtain calls where IH: "concat (map effect_of evs) = concat (map (\<lambda>(m, rk, cb, ctx, r). [TE_callback cb m rk r, TE_response ctx r]) calls)"
    "map (\<lambda>(m, rk, cb, ctx, r). (m, rk, Callback_and_context (Plain cb) ctx)) calls = concat (map called_of evs)"
    by auto
  show ?case
  proof (cases e)
    case (PE_called cb m rk r)
    then obtain c ctx where "cb = Callback_and_context (Plain c) ctx"
      using Cons.prems by (auto simp: traced_callback_def)
    then show ?thesis
      using IH PE_called by (intro exI [of _ "(m, rk, c, ctx, r) # calls"]) simp
  qed (use IH in \<open>auto intro!: exI [of _ calls]\<close>)
qed simp



section \<open>TracingMessageGuard\<close>

definition extractQueueName :: "'dt queue option \<Rightarrow> bytes" where
  "extractQueueName q = (case q of Some queue \<Rightarrow> queue_name queue | None \<Rightarrow> bstr ''<expired queue>'')"

text \<open>The context is a shared pointer; the contexts are numbered in the order in which they are made.\<close>

record ('dt, 'g) tracing_guard = "('dt, 'g) message_guard" +
  tg_context :: nat

abbreviation untraced :: "('dt, 'g) tracing_guard \<Rightarrow> ('dt, 'g) message_guard" where
  "untraced \<equiv> message_guard.truncate"

definition with_context :: "nat \<Rightarrow> ('dt, 'g) message_guard \<Rightarrow> ('dt, 'g) tracing_guard" where
  "with_context ctx g = message_guard.extend g (tracing_guard.fields ctx)"

definition TracingMessageGuard_new :: "nat \<Rightarrow> ('dt, 'g) message \<Rightarrow> envelope \<Rightarrow> ('dt, 'g) tracing_guard" where
  "TracingMessageGuard_new ctx message env = with_context ctx (MessageGuard_new message env)"

definition TracingMessageGuard_copy :: "('dt, 'g) tracing_guard \<Rightarrow> ('dt, 'g) tracing_guard \<times> ('dt, 'g) tracing_guard" where
  "TracingMessageGuard_copy obj =
     (case MessageGuard_copy (untraced obj) of
        (new, old) \<Rightarrow> (with_context (tg_context obj) new, with_context (tg_context obj) old))"

definition Tracing_transferOwnership :: "('dt, 'g) tracing_guard \<Rightarrow> ('dt, 'g) tracing_guard \<times> ('dt, 'g) tracing_guard" where
  "Tracing_transferOwnership g = TracingMessageGuard_copy g"

text \<open>\<open>ack\<close>, \<open>nack\<close> and the destructor are those of the base class.\<close>

definition tracing_resolve :: "ack_type \<Rightarrow> ('dt, 'g) tracing_guard \<Rightarrow> enveloped_ack list \<times> ('dt, 'g) tracing_guard" where
  "tracing_resolve t g = (case resolve t (untraced g) of (acks, g') \<Rightarrow> (acks, with_context (tg_context g) g'))"

lemma untraced_with_context [simp]: "untraced (with_context ctx g) = g" "tg_context (with_context ctx g) = ctx"
  "with_context (tg_context h) (untraced h) = h" "mg_state (with_context ctx g) = mg_state g"
  by (simp_all add: with_context_def message_guard.defs tracing_guard.defs)

lemma mg_state_untraced [simp]: "mg_state (untraced g) = mg_state g"
  by (simp add: message_guard.defs)

text \<open>What an application does with the guards it is handed. They live at addresses; \<open>td_contexts\<close> is the number of contexts made, and
  \<open>td_acks\<close> has the acknowledgements with the context of the delivery they are for. An operation on an address
  where there is no guard does nothing.\<close>

record ('dt, 'g) traced_deliveries =
  td_guards :: "(nat \<times> ('dt, 'g) tracing_guard) list"
  td_next :: nat
  td_contexts :: nat
  td_acks :: "(nat \<times> enveloped_ack) list"

definition no_deliveries :: "('dt, 'g) traced_deliveries" where
  "no_deliveries = \<lparr>td_guards = [], td_next = 0, td_contexts = 0, td_acks = []\<rparr>"

datatype ('dt, 'g) guard_input =
    GI_deliver "('dt, 'g) message" envelope
  | GI_transfer nat
  | GI_resolve nat ack_type
  | GI_destroy nat

fun traced_step :: "('dt, 'g) guard_input \<Rightarrow> ('dt, 'g) traced_deliveries \<Rightarrow> ('dt, 'g) traced_deliveries" where
  "traced_step (GI_deliver message env) td =
     td\<lparr>td_guards := (td_next td, TracingMessageGuard_new (td_contexts td) message env) # td_guards td,
        td_next := td_next td + 1, td_contexts := td_contexts td + 1\<rparr>"
| "traced_step (GI_transfer a) td =
     (case map_of (td_guards td) a of
        None \<Rightarrow> td
      | Some g \<Rightarrow>
          (case Tracing_transferOwnership g of
             (new, old) \<Rightarrow>
               td\<lparr>td_guards := (td_next td, new) # (a, old) # AList.delete a (td_guards td), td_next := td_next td + 1\<rparr>))"
| "traced_step (GI_resolve a t) td =
     (case map_of (td_guards td) a of
        None \<Rightarrow> td
      | Some g \<Rightarrow>
          (case tracing_resolve t g of
             (acks, g') \<Rightarrow>
               td\<lparr>td_guards := (a, g') # AList.delete a (td_guards td),
                  td_acks := td_acks td @ map (Pair (tg_context g)) acks\<rparr>))"
| "traced_step (GI_destroy a) td =
     (case map_of (td_guards td) a of
        None \<Rightarrow> td
      | Some g \<Rightarrow>
          td\<lparr>td_guards := AList.delete a (td_guards td),
             td_acks := td_acks td @ map (Pair (tg_context g)) (MessageGuard_destroy (untraced g))\<rparr>)"

fun traced_run :: "('dt, 'g) guard_input list \<Rightarrow> ('dt, 'g) traced_deliveries \<Rightarrow> ('dt, 'g) traced_deliveries" where
  "traced_run [] td = td"
| "traced_run (i # is) td = traced_run is (traced_step i td)"

text \<open>A context is alive as long as a guard points to it.\<close>

definition context_alive :: "('dt, 'g) traced_deliveries \<Rightarrow> nat \<Rightarrow> bool" where
  "context_alive td ctx \<longleftrightarrow> (\<exists>(a, g) \<in> set (td_guards td). tg_context g = ctx)"

definition ready_guards :: "nat \<Rightarrow> (nat \<times> ('dt, 'g) tracing_guard) list \<Rightarrow> nat" where
  "ready_guards ctx gs = length (filter (\<lambda>(a, g). tg_context g = ctx \<and> mg_state g = GS_READY) gs)"

definition acks_of :: "nat \<Rightarrow> ('dt, 'g) traced_deliveries \<Rightarrow> enveloped_ack list" where
  "acks_of ctx td = map snd (filter (\<lambda>(c, a). c = ctx) (td_acks td))"

text \<open>The same operations on guards without tracing, as theory \<open>Consumer\<close> has them.\<close>

fun untraced_step ::
  "('dt, 'g) guard_input \<Rightarrow> (nat \<times> ('dt, 'g) message_guard) list \<times> nat \<times> enveloped_ack list \<Rightarrow>
     (nat \<times> ('dt, 'g) message_guard) list \<times> nat \<times> enveloped_ack list" where
  "untraced_step (GI_deliver message env) (gs, n, acks) = ((n, MessageGuard_new message env) # gs, n + 1, acks)"
| "untraced_step (GI_transfer a) (gs, n, acks) =
     (case map_of gs a of
        None \<Rightarrow> (gs, n, acks)
      | Some g \<Rightarrow> (case transferOwnership g of (new, old) \<Rightarrow> ((n, new) # (a, old) # AList.delete a gs, n + 1, acks)))"
| "untraced_step (GI_resolve a t) (gs, n, acks) =
     (case map_of gs a of
        None \<Rightarrow> (gs, n, acks)
      | Some g \<Rightarrow> (case resolve t g of (new, g') \<Rightarrow> ((a, g') # AList.delete a gs, n, acks @ new)))"
| "untraced_step (GI_destroy a) (gs, n, acks) =
     (case map_of gs a of None \<Rightarrow> (gs, n, acks) | Some g \<Rightarrow> (AList.delete a gs, n, acks @ MessageGuard_destroy g))"

definition erase :: "('dt, 'g) traced_deliveries \<Rightarrow> (nat \<times> ('dt, 'g) message_guard) list \<times> nat \<times> enveloped_ack list" where
  "erase td = (map (\<lambda>(a, g). (a, untraced g)) (td_guards td), td_next td, map snd (td_acks td))"


lemma map_of_untraced: "map_of (map (\<lambda>(a, g). (a, untraced g)) gs) a = map_option untraced (map_of gs a)"
  by (induction gs) auto

lemma delete_untraced: "AList.delete a (map (\<lambda>(a, g). (a, untraced g)) gs) = map (\<lambda>(a, g). (a, untraced g)) (AList.delete a gs)"
  by (induction gs) auto

lemma erase_step: "erase (traced_step i td) = untraced_step i (erase td)"
  by (cases i) (auto simp: erase_def map_of_untraced delete_untraced TracingMessageGuard_new_def Tracing_transferOwnership_def
      TracingMessageGuard_copy_def transferOwnership_def tracing_resolve_def comp_def split: option.split prod.split)

lemma erase_run: "erase (traced_run is td) = fold untraced_step is (erase td)"
  by (induction "is" arbitrary: td) (simp_all add: erase_step)

text \<open>Every delivery has one guard that can settle it, or has been settled once.\<close>

definition traced_ok :: "('dt, 'g) traced_deliveries \<Rightarrow> bool" where
  "traced_ok td \<longleftrightarrow>
     distinct (map fst (td_guards td)) \<and> (\<forall>(a, g) \<in> set (td_guards td). a < td_next td \<and> tg_context g < td_contexts td) \<and>
     (\<forall>(c, a) \<in> set (td_acks td). c < td_contexts td) \<and>
     (\<forall>ctx < td_contexts td. ready_guards ctx (td_guards td) + length (acks_of ctx td) = 1)"

lemma ready_guards_Cons [simp]:
  "ready_guards ctx ((a, g) # gs) = (if tg_context g = ctx \<and> mg_state g = GS_READY then 1 else 0) + ready_guards ctx gs"
  by (simp add: ready_guards_def)

lemma ready_guards_delete:
  "distinct (map fst gs) \<Longrightarrow> map_of gs a = Some g \<Longrightarrow>
     ready_guards ctx gs = (if tg_context g = ctx \<and> mg_state g = GS_READY then 1 else 0) + ready_guards ctx (AList.delete a gs)"
  by (induction gs) (auto simp: delete_id split: if_splits)

lemma set_delete: "set (AList.delete a gs) \<subseteq> set gs"
  by (induction gs) auto

lemma acks_of_replace: "length (acks_of ctx (td\<lparr>td_guards := gs, td_next := n, td_acks := td_acks td @ map (Pair c) acks\<rparr>)) =
    length (acks_of ctx td) + (if c = ctx then length acks else 0)"
  by (simp add: acks_of_def filter_map comp_def)

text \<open>A guard is replaced by others of the same delivery: together with the acknowledgements given, they can settle it as often.\<close>

lemma traced_ok_replace:
  assumes "traced_ok td" and "map_of (td_guards td) a = Some g"
    and "\<forall>(b, h) \<in> set new. (b = a \<or> b = td_next td) \<and> tg_context h = tg_context g" and "distinct (map fst new)"
    and "ready_guards (tg_context g) new + length acks = (if mg_state g = GS_READY then 1 else 0)"
    and "n = (if td_next td \<in> fst ` set new then td_next td + 1 else td_next td)"
  shows "traced_ok (td\<lparr>td_guards := new @ AList.delete a (td_guards td), td_next := n,
    td_acks := td_acks td @ map (Pair (tg_context g)) acks\<rparr>)"
proof -
  let ?gs = "td_guards td" and ?d = "AList.delete a (td_guards td)"
  have ok: "distinct (map fst ?gs)" "\<forall>(a, g) \<in> set ?gs. a < td_next td \<and> tg_context g < td_contexts td"
    "\<forall>(c, a) \<in> set (td_acks td). c < td_contexts td"
    "\<And>ctx. ctx < td_contexts td \<Longrightarrow> ready_guards ctx ?gs + length (acks_of ctx td) = 1"
    using assms(1) by (auto simp: traced_ok_def)
  have g: "(a, g) \<in> set ?gs" using assms(2) by (rule map_of_SomeD)
  have keys: "distinct (map fst ?d)" "a \<notin> fst ` set ?d" "td_next td \<notin> fst ` set ?d"
    using ok(1,2) set_delete [of a ?gs] by (auto simp: distinct_delete delete_notin_dom)
  have apart: "A \<subseteq> {x, y} \<Longrightarrow> x \<notin> B \<Longrightarrow> y \<notin> B \<Longrightarrow> A \<inter> B = {}" for A B :: "nat set" and x y
    by blast
  have "fst ` set new \<subseteq> {a, td_next td}"
    using assms(3) by auto
  then have "fst ` set new \<inter> fst ` set ?d = {}"
    by (rule apart) (rule keys)+
  then have "distinct (map fst (new @ ?d))"
    using assms(4) keys(1) by simp
  moreover have "\<forall>(b, h) \<in> set (new @ ?d). b < n \<and> tg_context h < td_contexts td"
  proof (rule ballI, clarify)
    fix b h assume m: "(b, h) \<in> set (new @ ?d)"
    show "b < n \<and> tg_context h < td_contexts td"
    proof (cases "(b, h) \<in> set new")
      case True
      then have b: "b = a \<or> b = td_next td" "tg_context h = tg_context g" "b \<in> fst ` set new" using assms(3) by force+
      moreover have "a < td_next td" "tg_context g < td_contexts td" using ok(2) g by auto
      ultimately show ?thesis using assms(6) by (metis less_Suc_eq Suc_eq_plus1)
    next
      case False
      then have "(b, h) \<in> set ?gs" using m set_delete [of a ?gs] by auto
      then show ?thesis using ok(2) assms(6) by auto
    qed
  qed
  moreover have "\<forall>(c, a) \<in> set (td_acks td @ map (Pair (tg_context g)) acks). c < td_contexts td"
    using ok(2,3) g by auto
  moreover have "ready_guards ctx (new @ ?d) + (length (acks_of ctx td) + (if tg_context g = ctx then length acks else 0)) = 1"
    if "ctx < td_contexts td" for ctx
  proof -
    have new: "ready_guards ctx new = 0" if "tg_context g \<noteq> ctx"
    proof -
      have "filter (\<lambda>(b, h). tg_context h = ctx \<and> mg_state h = GS_READY) new = []"
        using assms(3) that by (auto simp: filter_empty_conv)
      then show ?thesis by (simp add: ready_guards_def)
    qed
    have "ready_guards ctx (new @ ?d) = ready_guards ctx new + ready_guards ctx ?d"
      by (simp add: ready_guards_def)
    then show ?thesis
      using ok(4) [OF that] ready_guards_delete [OF ok(1) assms(2), of ctx] new assms(5)
      by (cases "tg_context g = ctx") auto
  qed
  ultimately show ?thesis
    by (simp add: traced_ok_def acks_of_replace)
qed

lemma traced_ok_step:
  assumes "traced_ok td"
  shows "traced_ok (traced_step i td)"
proof (cases i)
  case (GI_deliver message env)
  have "ready_guards (td_contexts td) (td_guards td) = 0" "acks_of (td_contexts td) td = []"
    using assms by (fastforce simp: traced_ok_def ready_guards_def acks_of_def filter_empty_conv)+
  then show ?thesis
    using assms GI_deliver
    by (fastforce simp: traced_ok_def TracingMessageGuard_new_def MessageGuard_new_def acks_of_def less_Suc_eq)
next
  case (GI_transfer a)
  show ?thesis
  proof (cases "map_of (td_guards td) a")
    case (Some g)
    have "a < td_next td" using map_of_SomeD [OF Some] assms by (auto simp: traced_ok_def)
    then show ?thesis
      using traced_ok_replace [OF assms Some, of "[(td_next td, fst (TracingMessageGuard_copy g)), (a, snd (TracingMessageGuard_copy g))]" "[]"]
        GI_transfer Some by (simp add: Tracing_transferOwnership_def TracingMessageGuard_copy_def MessageGuard_copy_def ready_guards_def)
  qed (use assms GI_transfer in simp)
next
  case (GI_resolve a t)
  show ?thesis
  proof (cases "map_of (td_guards td) a")
    case (Some g)
    have "a < td_next td" using map_of_SomeD [OF Some] assms by (auto simp: traced_ok_def)
    then show ?thesis
      using traced_ok_replace [OF assms Some, of "[(a, snd (tracing_resolve t g))]" "fst (tracing_resolve t g)"]
        GI_resolve Some by (cases "mg_state g") (auto simp: tracing_resolve_def resolve_def ready_guards_def)
  qed (use assms GI_resolve in simp)
next
  case (GI_destroy a)
  show ?thesis
  proof (cases "map_of (td_guards td) a")
    case (Some g)
    then show ?thesis
      using traced_ok_replace [OF assms Some, of "[]" "MessageGuard_destroy (untraced g)"] GI_destroy
      by (simp add: MessageGuard_destroy_def ready_guards_def)
  qed (use assms GI_destroy in simp)
qed

lemma traced_ok_run: "traced_ok td \<Longrightarrow> traced_ok (traced_run is td)"
  by (induction "is" arbitrary: td) (simp_all add: traced_ok_step)

text \<open>Tracing neither changes what is acknowledged nor ends too early. Whatever an application does with traced guards, without their
  contexts they are exactly the guards without tracing, with the same acknowledgements; a delivery is settled at most once; as
  long as it is not settled a guard that can settle it holds its context; and when its context is gone it has been settled.\<close>

theorem tracing_spans_processing:
  "erase (traced_run is no_deliveries) = fold untraced_step is ([], 0, []) \<and>
   (\<forall>ctx < td_contexts (traced_run is no_deliveries).
      length (acks_of ctx (traced_run is no_deliveries)) \<le> 1 \<and>
      (acks_of ctx (traced_run is no_deliveries) = [] \<longrightarrow>
         (\<exists>(a, g) \<in> set (td_guards (traced_run is no_deliveries)). tg_context g = ctx \<and> mg_state g = GS_READY)) \<and>
      (\<not> context_alive (traced_run is no_deliveries) ctx \<longrightarrow> length (acks_of ctx (traced_run is no_deliveries)) = 1))"
proof (intro conjI allI impI)
  let ?td = "traced_run is no_deliveries"
  show "erase ?td = fold untraced_step is ([], 0, [])"
    unfolding erase_run by (simp add: erase_def no_deliveries_def)
  have "traced_ok (no_deliveries :: ('a, 'b) traced_deliveries)"
    by (simp add: traced_ok_def no_deliveries_def)
  then have ok: "traced_ok ?td" by (rule traced_ok_run)
  fix ctx assume "ctx < td_contexts ?td"
  then have one: "ready_guards ctx (td_guards ?td) + length (acks_of ctx ?td) = 1"
    using ok by (simp add: traced_ok_def)
  then show "length (acks_of ctx ?td) \<le> 1" by simp
  have ready: "\<exists>(a, g) \<in> set (td_guards ?td). tg_context g = ctx \<and> mg_state g = GS_READY" if "ready_guards ctx (td_guards ?td) \<noteq> 0"
    using that by (auto simp: ready_guards_def filter_empty_conv)
  show "\<exists>(a, g) \<in> set (td_guards ?td). tg_context g = ctx \<and> mg_state g = GS_READY" if "acks_of ctx ?td = []"
    using one that ready by auto
  show "length (acks_of ctx ?td) = 1" if "\<not> context_alive ?td ctx"
  proof -
    have "ready_guards ctx (td_guards ?td) = 0"
      using ready that by (force simp: context_alive_def)
    then show ?thesis using one by simp
  qed
qed

section \<open>Witnesses\<close>

definition sample_create :: "nat properties \<Rightarrow> bytes \<Rightarrow> bytes \<Rightarrow> nat \<Rightarrow> nat properties \<times> bytes" where
  "sample_create props rk ex endpoint = (props, rk)"

definition sample_traced_session :: "(nat, u8, (nat, bytes) confirm_callback, nat) producer_input list" where
  "sample_traced_session =
     [PI_trySend sample_sent [107] (Plain 5), PI_doSend 9 (sample_sent, [107], RETURN_UNROUTABLE, Callback_and_context (Plain 5) [107]),
      PI_post \<lparr>mwr_message = sample_sent, mwr_routingKey = [107], mwr_mandatory = RETURN_UNROUTABLE\<rparr>,
      PI_eventLoop 0 sample_live,
      PI_channel 0 (SI_received sample_live (Msg_Method (Basic (M_BasicAck \<lparr>ack_deliveryTag = 1, ack_multiple = False\<rparr>)))),
      PI_job sample_confirm]"

lemma sample_traced_run:
  obtains sc sy where "send_run (open_session 0 sample_live) (SendChannel_new empty_topology [120]) = Some sc"
    "producer_run sample_guid_util sample_traced_session (Producer_create 2 None (Some (tagMessage sample_create 1)) sc) = Some sy"
    "contents (ch_trace (sy_channel sy)) = [sample_sent]" "sc_pendingMessages (sy_channel sy) = []"
    "ms_tagToMsg (sc_messageStore (sy_channel sy)) = []" "sy_sending sy = []" "sy_posting sy = []" "sy_eventLoop sy = []"
    "sy_jobs sy = []" "sy_lost sy = []"
    "accepted sy = [(sample_sent, [107], Callback_and_context (Plain 5) [107])]"
  by (simp add: sample_traced_session_def sample_confirm_def sample_sent_def mwr_guid_def open_session_def send_eval producer_eval
      empty_topology_transformer contents_def tagMessage_def sample_create_def actionConfirmOnThreadPool_def sem_post_def
      accepted_def)


theorem tracing_spans_processing_witness:
  "length (acks_of 0 (traced_run [GI_deliver sample_sent sample_envelope, GI_transfer 0, GI_destroy 0, GI_resolve 1 ACK, GI_destroy 1]
     no_deliveries)) = 1"
proof -
  let ?is = "[GI_deliver sample_sent sample_envelope, GI_transfer 0, GI_destroy 0, GI_resolve 1 ACK, GI_destroy 1]"
  have "0 < td_contexts (traced_run ?is no_deliveries)" "\<not> context_alive (traced_run ?is no_deliveries) 0"
    by (simp_all add: no_deliveries_def context_alive_def TracingMessageGuard_new_def Tracing_transferOwnership_def
        TracingMessageGuard_copy_def MessageGuard_copy_def MessageGuard_new_def tracing_resolve_def resolve_def)
  then show ?thesis
    using tracing_spans_processing [of ?is] by blast
qed

end
