(* ===== verification/Spec2Isabelle.thy ===== *)
theory Spec2Isabelle
  imports Tune Channel_Map Retry Producer Consumer Host_Health Future_Laws Connection_String Watchdog
    Topology_Builder Virtual_Host Event_Loop Secure_Resolver Rabbit_Context Tracing
begin

text \<open>
  \<^bold>\<open>rmqcpp: a verification library for the RabbitMQ client\<close>

  rmqcpp is a C++ client library for RabbitMQ (AMQP 0-9-1). Its code lies under \<open>src/src/rmq\<close> in layers: \<open>rmqt\<close> has the value
  types and futures shared by all others, \<open>rmqamqpt\<close> the data types of the protocol and their wire format, \<open>rmqio\<close> the event
  loop, timers, sockets, the stream decoder and retries, \<open>rmqamqp\<close> the protocol engine (connections with framer, heartbeats
  and channels), and \<open>rmqa\<close> the public API over the interfaces of \<open>rmqp\<close>: contexts, virtual hosts, producers and consumers.

  Data flows like this. A producer registers a callback and posts a message to the event loop; the send channel keeps it in a
  message store until the broker confirms it. A channel hands what it sends to its connection, \<open>Framer::makeFrames\<close>
  encodes it into frames, and the socket writes their bytes. What the socket reads is fed to \<open>Decoder::appendBytes\<close>,
  which cuts it into frames; \<open>Framer::appendFrame\<close> turns frames into messages, one content maker per channel;
  \<open>ChannelMap::processReceived\<close> dispatches them to channels. A receive channel hands deliveries to a consumer, which gives
  the application a guard for each; acknowledgements come back in batches and are combined by \<open>MultipleAckHandler\<close>.
  Heartbeats and the watchdog observe all this; when a connection is lost, its channels are reset, and the retry
  handler schedules the next attempt, after which topology and unconfirmed messages are sent again.

  \<^bold>\<open>Theories\<close>

  Foundations:
  \<^item> \<open>Prelude\<close>: octets, machine integers, big-endian encoding, the collections \<open>codec\<close>, \<open>wire_size\<close>, \<open>consume\<close>.
  \<^item> \<open>Ordered_Map\<close>: \<open>bsl::map\<close> as a sorted association list; locale \<open>ordered_map\<close> and its interpretation.
  \<^item> \<open>Buffer\<close> (\<open>rmqamqpt_buffer\<close>, \<open>rmqamqpt_writer\<close>): the read cursor and the append cursor as the records the
    classes are, with their assertions; locales \<open>read_cursor\<close> and \<open>append_cursor\<close> state what the codecs rely on and
    are interpreted on the records. The codecs are written over byte lists; the refinement theorems connect both.

  Wire format and transport:
  \<^item> \<open>Field_Value\<close> (\<open>rmqamqpt_types\<close>, \<open>rmqamqpt_fieldvalue\<close>, \<open>rmqt_fieldvalue\<close>): typed field values, arrays and
    tables: sizes, encoders, decoders. \<open>Basic_Properties\<close> (\<open>rmqamqpt_basicproperties\<close>, \<open>rmqamqpt_contentheader\<close>,
    \<open>rmqamqpt_contentbody\<close>).
  \<^item> \<open>Method_Codec\<close>: the contract of a method's codec as the locale \<open>method_codec\<close>; \<open>Basic_Methods\<close>,
    \<open>Channel_Methods\<close>, \<open>Connection_Methods\<close>, \<open>Topology_Methods\<close>: the 39 methods of the six AMQP classes, each a
    record with \<open>encode\<close>, \<open>decode\<close> and \<open>encodedSize\<close> and an interpretation of the locale, and the variant of each
    class; \<open>Method\<close> (\<open>rmqamqpt_method\<close>): the variant over all classes.
  \<^item> \<open>Frame\<close> (\<open>rmqamqpt_frame\<close>, \<open>rmqio_decoder\<close>): frames and the stream decoder. \<open>Message\<close> (\<open>rmqt_message\<close>).
    \<open>Framer\<close> (\<open>rmqamqp_contentmaker\<close>, \<open>rmqamqp_framer\<close>).
  \<^item> \<open>Socket\<close> (\<open>rmqio_asioconnection\<close>, handlers of \<open>rmqio_asioresolver\<close>): a socket with its queue of writes, reads, closing.
    \<open>Secure_Resolver\<close> (the rest of \<open>rmqio_asioresolver\<close>, \<open>rmqt_securityparameters\<close>): an attempt to connect from the
    lookup to the authenticated connection, the TLS context, certificates, shuffling of endpoints.
  \<^item> \<open>Event_Loop\<close> (\<open>rmqio_asiotimer\<close>, \<open>rmqio_eventloop\<close>, \<open>rmqio_asioeventloop\<close>, the close timer of \<open>rmqa_connectionimpl\<close>).
  \<^item> \<open>Futures\<close>, \<open>Future_Makers\<close>, \<open>Future_Laws\<close> (\<open>rmqt_future\<close>, \<open>rmqt_result\<close>): control blocks with counts, mutexes, chains
    and cancel functions as a heap, the ways to make futures, and the laws of \<open>then\<close>, \<open>thenFuture\<close> and cancelling.

  Protocol engine:
  \<^item> \<open>Message_Store\<close> (\<open>rmqamqp_messagestore\<close>); \<open>Multiple_Ack\<close> (\<open>rmqamqp_multipleackhandler\<close>,
    \<open>rmqt_consumerackbatch\<close>); \<open>Channel_Map\<close> (\<open>rmqamqp_channelmap\<close>); \<open>Heartbeat\<close> (\<open>rmqamqp_heartbeatmanagerimpl\<close>);
    \<open>Retry\<close> (\<open>rmqio_backofflevelretrystrategy\<close>, \<open>rmqio_retryhandler\<close>, \<open>rmqio_connectionretryhandler\<close>).
  \<^item> \<open>Topology\<close> (\<open>rmqamqp_topologytransformer\<close>, \<open>rmqamqp_topologymerger\<close>): the methods that declare a topology or an update, the
    replies expected, and merging; \<open>Topology_Builder\<close> (\<open>rmqa_topology\<close>, \<open>rmqa_topologyupdate\<close>): how topologies are put together.
  \<^item> \<open>Channel_Base\<close> (\<open>rmqamqp_channel\<close>): the state machine of a channel, its virtual functions a record of functions;
    \<open>Send_Channel\<close> (\<open>rmqamqp_sendchannel\<close>) and \<open>Receive_Channel\<close> (\<open>rmqamqp_receivechannel\<close>) over it and the stores.
  \<^item> \<open>Tune\<close> and \<open>Broker_Connection\<close> (\<open>rmqamqp_connection\<close>, \<open>rmqamqp_channelfactory\<close>): the state machine of a connection over
    socket, framer, heartbeats and channel map. \<open>Host_Health\<close> (\<open>rmqamqp_hosthealthmonitor\<close>) over connections;
    \<open>Watchdog\<close> (\<open>rmqio_watchdog\<close>, \<open>rmqa_connectionmonitor\<close>) over message stores.

  Public API:
  \<^item> \<open>Transformers\<close> (\<open>rmqp_messagetransformer\<close>, \<open>rmqa_compressiontransformerimpl\<close>); \<open>Producer\<close> (\<open>rmqa_producerimpl\<close>) over a
    send channel; \<open>Consumer\<close> (\<open>rmqa_consumerimpl\<close>, \<open>rmqa_messageguard\<close>) over a receive channel; \<open>Tracing\<close>
    (\<open>rmqa_tracingtagger\<close>, \<open>rmqa_tracingmessageguard\<close>) over both.
  \<^item> \<open>Connection_String\<close> (\<open>rmqa_connectionstring\<close>, endpoints and credentials of \<open>rmqt\<close>).
  \<^item> \<open>Virtual_Host\<close> (\<open>rmqa_vhostimpl\<close>, \<open>rmqa_connectionimpl\<close>, making connections in \<open>rmqa_rabbitcontextimpl\<close>) and
    \<open>Rabbit_Context\<close> (\<open>rmqa_rabbitcontextoptions\<close>, the life of a \<open>rmqa_rabbitcontextimpl\<close>, \<open>rmqa_vhost\<close>).
  \<^item> this theory: the property that spans the whole transport.

  \<^bold>\<open>How code becomes definitions\<close>

  A class is a record of its members (the prefix \<open>d_\<close> is kept or replaced by a short prefix of the class), a variant
  or an enumeration a datatype, a member function a function from the old to the new state. A \<open>bool\<close> return with an
  output argument is an option; a failed \<open>BSLS_ASSERT\<close>, a dereferenced null pointer and the use of a destroyed object are
  \<open>None\<close>; return codes are datatypes with the source's constructors. Integers that can wrap around are words of their
  width; sizes in memory are natural numbers. Callbacks and virtual calls on objects outside a component are recorded as
  the list of calls made. Where several threads share state they are interleaved at the points where the code
  synchronises, and a component's inputs (calls, received messages, completions, timers, other threads) form a datatype
  with one step function; the properties hold of every sequence of inputs. Code that the sources only call (BDE, boost::asio, OpenSSL,
  zstd, clocks, the application's callbacks, tracing back ends) is an argument or an input. Logging is left out.

  The decoder of field values recurses on nested lengths; its model takes fuel, and one more than the length of the
  input is proved to be enough: more fuel never changes the result. Futures run chained functions from a work list; its
  evaluation is an option, and \<open>Future_Laws\<close> proves when it returns. The loops of \<open>appendBytes\<close> and of the message
  serializer are functions with termination proofs; all other loops are structural recursions over the containers.

  \<^bold>\<open>What is shown\<close>

  Codecs: what is encoded decodes to the same value, occupies exactly \<open>encodedSize\<close> octets, and the decoders consume
  what they return. Transport: frames survive any segmentation of the stream, messages survive framing and
  interleaving with other channels, and the limits on frame sizes hold; failures leave the state as it was; a TLS
  connection is reported only when the broker has been authenticated. Engine: no publication is lost or
  confirmed twice across reconnections, confirms reach the right message, acknowledgements settle exactly what was
  acknowledged and never a delivery of an earlier lifetime, handshakes complete in order, a started connection is never
  stuck, a close is final, topologies are declared and merged as the broker has them. Time: dead peers are detected
  and hung messages reported within the promised times, back-off is bounded, closing connections are let go. API: every accepted send is
  confirmed once to its own callback and its trace, every delivery is settled once, connections of a virtual host are shared, ordered and never
  leaked, contexts can be destroyed at any time. Where the code does not do what it means to (over-long table keys, the
  mechanisms of \<open>ConnectionStart\<close>, a heartbeat timeout of one second, exhausted channel ids, passwords without ports,
  a virtual host closed while another thread creates a producer, and others), a theorem says what it does instead.

  \<^bold>\<open>Not modelled\<close>

  The operating system, boost::asio, OpenSSL, zstd and BDE behind the functions the sources call; log texts, printing and comparison
  operators of value types, and metric names (they decide nothing); the pure interfaces of \<open>rmqp\<close> and functions that only forward
  to a modelled one; condition variables on which threads sleep (a wait is told whether it timed out); waiting for
  several futures in \<open>cancelAndDrain\<close>; the private assignment operator of message guards; test mocks, tests and examples.
\<close>

section \<open>Properties that span components\<close>



end
